(* ===== verification/Prelude.thy ===== *)
theory Prelude
  imports Main "HOL-Library.Word"
begin

text \<open>
  Shared vocabulary of the development: bytes and byte strings, results with the error on
  the left, operations on a mutable object as state transformers, big- and little-endian
  integers, Rust slices, and the generic facts about them that the component proofs use.
  Unsigned machine integers that index or count are natural numbers; where the program can
  leave their range the definitions carry the check (the workspace builds its release
  profile with \<open>overflow-checks = true\<close>, so leaving the range is a panic).
\<close>

named_theorems byte_simps \<open>lengths and round trips of byte encodings\<close>

type_synonym byte = "8 word"
type_synonym bytes = "byte list"
type_synonym ('e, 'a) result = "'e + 'a"
type_synonym ('s, 'e, 'a) op = "'s \<Rightarrow> 's \<times> ('e, 'a) result"

subsection \<open>Results and stateful operations\<close>

definition res_bind :: "('e, 'a) result \<Rightarrow> ('a \<Rightarrow> ('e, 'b) result) \<Rightarrow> ('e, 'b) result" where
  "res_bind r f = (case r of Inl e \<Rightarrow> Inl e | Inr x \<Rightarrow> f x)"

text \<open>Sequencing as the question mark operator does it: on an error the later steps are
  skipped and the effects of the earlier ones stay.\<close>

definition op_bind :: "('s, 'e, 'a) op \<Rightarrow> ('a \<Rightarrow> ('s, 'e, 'b) op) \<Rightarrow> ('s, 'e, 'b) op" where
  "op_bind m f s = (case m s of (s', Inl e) \<Rightarrow> (s', Inl e) | (s', Inr x) \<Rightarrow> f x s')"

definition op_return :: "'a \<Rightarrow> ('s, 'e, 'a) op" where
  "op_return x s = (s, Inr x)"

definition op_fail :: "'e \<Rightarrow> ('s, 'e, 'a) op" where
  "op_fail e s = (s, Inl e)"

lemma res_bind_simps [simp]:
  "res_bind (Inl e) f = Inl e" "res_bind (Inr x) f = f x"
  by (simp_all add: res_bind_def)

lemma res_bind_Inr_iff: "res_bind r f = Inr y \<longleftrightarrow> (\<exists>x. r = Inr x \<and> f x = Inr y)"
  by (cases r) auto

lemma op_bind_simps [simp]:
  "m s = (s', Inl e) \<Longrightarrow> op_bind m f s = (s', Inl e)"
  "m s = (s', Inr x) \<Longrightarrow> op_bind m f s = f x s'"
  by (simp_all add: op_bind_def)

lemma op_bind_Inr_E:
  assumes "op_bind m f s = (s', Inr y)"
  obtains s1 x where "m s = (s1, Inr x)" "f x s1 = (s', Inr y)"
  using assms by (auto simp: op_bind_def split: prod.splits sum.splits)

subsection \<open>ASCII tags\<close>

definition ascii :: "string \<Rightarrow> bytes" where
  "ascii s = map of_char s"

lemma length_ascii [simp]: "length (ascii s) = length s"
  by (simp add: ascii_def)

subsection \<open>Fixed-width integers as bytes\<close>

text \<open>\<open>be n x\<close> is \<open>to_be_bytes\<close> of an \<open>n\<close>-byte unsigned integer, \<open>le n x\<close> is
  \<open>to_le_bytes\<close>; \<open>be_val\<close> and \<open>le_val\<close> read such bytes back.\<close>

fun be :: "nat \<Rightarrow> nat \<Rightarrow> bytes" where
  "be 0 x = []"
| "be (Suc n) x = be n (x div 256) @ [word_of_nat x]"

definition be_val :: "bytes \<Rightarrow> nat" where
  "be_val bs = foldl (\<lambda>a b. a * 256 + unat b) 0 bs"

definition le :: "nat \<Rightarrow> nat \<Rightarrow> bytes" where
  "le n x = rev (be n x)"

definition le_val :: "bytes \<Rightarrow> nat" where
  "le_val bs = be_val (rev bs)"

lemma length_be [simp]: "length (be n x) = n"
  by (induction n x rule: be.induct) auto

lemma length_le [simp]: "length (le n x) = n"
  by (simp add: le_def)

lemma be_val_snoc [simp]: "be_val (bs @ [b]) = be_val bs * 256 + unat b"
  by (simp add: be_val_def)

lemma be_val_Nil [simp]: "be_val [] = 0"
  by (simp add: be_val_def)

lemma unat_byte_of_nat [simp]: "unat (word_of_nat x :: byte) = x mod 256"
  by (simp add: unat_of_nat take_bit_eq_mod)

lemma unat_byte_less [simp]: "unat (b :: byte) < 256"
  using unsigned_less [of b] by simp

lemma be_val_be: "be_val (be n x) = x mod 256 ^ n"
proof (induction n x rule: be.induct)
  case (2 n x)
  have "x mod (256 * 256 ^ n) = 256 * (x div 256 mod 256 ^ n) + x mod 256"
    by (rule mod_mult2_eq)
  with 2 show ?case by simp
qed simp

lemma be_val_be_id [byte_simps]: "x < 256 ^ n \<Longrightarrow> be_val (be n x) = x"
  by (simp add: be_val_be)

lemma be_val_bound: "be_val bs < 256 ^ length bs"
proof (induction bs rule: rev_induct)
  case (snoc b bs)
  have "unat b < 256" by (rule unat_byte_less)
  with snoc have "be_val bs * 256 + unat b < 256 * 256 ^ length bs" by linarith
  then show ?case by simp
qed simp

lemma be_inj: "be n x = be n y \<Longrightarrow> x < 256 ^ n \<Longrightarrow> y < 256 ^ n \<Longrightarrow> x = y"
  by (metis be_val_be_id)

lemma be_be_val: "length bs = n \<Longrightarrow> be n (be_val bs) = bs"
proof (induction n arbitrary: bs)
  case (Suc n)
  then obtain cs b where bs: "bs = cs @ [b]" and l: "length cs = n"
    by (metis append_butlast_last_id length_0_conv length_butlast diff_Suc_1 nat.distinct(1))
  have ub: "unat b < 256" by simp
  have w: "word_of_nat (be_val cs * 256 + unat b) = b"
  proof (rule word_unat_eq_iff [THEN iffD2])
    show "unat (word_of_nat (be_val cs * 256 + unat b) :: byte) = unat b"
      by (simp only: unat_byte_of_nat) simp
  qed
  with Suc.IH [OF l] ub show ?case by (simp add: bs)
qed simp

lemma le_val_le_id [byte_simps]: "x < 256 ^ n \<Longrightarrow> le_val (le n x) = x"
  by (simp add: le_val_def le_def be_val_be_id)

lemma le_inj: "le n x = le n y \<Longrightarrow> x < 256 ^ n \<Longrightarrow> y < 256 ^ n \<Longrightarrow> x = y"
  by (metis le_val_le_id)

subsection \<open>Slices\<close>

text \<open>\<open>slice a b xs\<close> is \<open>xs[a..b]\<close>; the definitions that use it check the length first, as
  the code does.\<close>

definition slice :: "nat \<Rightarrow> nat \<Rightarrow> 'a list \<Rightarrow> 'a list" where
  "slice a b xs = take (b - a) (drop a xs)"

lemma length_slice [simp]: "length (slice a b xs) = min (b - a) (length xs - a)"
  by (simp add: slice_def)

lemma slice_append_skip [byte_simps]:
  "length xs \<le> a \<Longrightarrow> slice a b (xs @ ys) = slice (a - length xs) (b - length xs) ys"
  by (simp add: slice_def)

lemma slice_Cons_skip [byte_simps]: "0 < a \<Longrightarrow> slice a b (x # xs) = slice (a - 1) (b - 1) xs"
  by (cases a; cases b) (simp_all add: slice_def)

lemma slice_append_take [byte_simps]:
  "length xs = b \<Longrightarrow> slice 0 b (xs @ ys) = xs"
  by (simp add: slice_def)

lemma slice_all [byte_simps]: "length xs = b \<Longrightarrow> slice 0 b xs = xs"
  by (simp add: slice_def)

subsection \<open>Reading a list out of range\<close>

text \<open>Indexing a slice panics out of range; \<open>nth_opt\<close> is \<open>get\<close>, and the value \<open>None\<close> of
  an indexing expression is the panic.\<close>

definition nth_opt :: "'a list \<Rightarrow> nat \<Rightarrow> 'a option" where
  "nth_opt xs i = (if i < length xs then Some (xs ! i) else None)"

subsection \<open>Searching and ordered maps\<close>

text \<open>\<open>index_of\<close> is \<open>iter().position\<close>: the first index that holds the value. A
  \<open>BTreeMap\<close> is the association list it iterates over, sorted by key.\<close>

fun index_of :: "'a \<Rightarrow> 'a list \<Rightarrow> nat option" where
  "index_of x [] = None"
| "index_of x (y # ys) = (if y = x then Some 0 else map_option Suc (index_of x ys))"

fun bt_insert :: "'k::linorder \<Rightarrow> 'v \<Rightarrow> ('k \<times> 'v) list \<Rightarrow> ('k \<times> 'v) list" where
  "bt_insert k v [] = [(k, v)]"
| "bt_insert k v ((k', v') # m) =
     (if k < k' then (k, v) # (k', v') # m
      else if k = k' then (k, v) # m
      else (k', v') # bt_insert k v m)"

lemma index_of_Some: "index_of x xs = Some i \<Longrightarrow> i < length xs \<and> xs ! i = x"
  by (induction xs arbitrary: i) (auto split: if_splits)

lemma index_of_None [simp]: "index_of x xs = None \<longleftrightarrow> x \<notin> set xs"
  by (induction xs) auto

lemma index_of_nth: "distinct xs \<Longrightarrow> i < length xs \<Longrightarrow> index_of (xs ! i) xs = Some i"
proof (induction xs arbitrary: i)
  case (Cons x xs)
  then show ?case by (cases i) auto
qed simp

lemma map_of_bt_insert: "map_of (bt_insert k v m) = (map_of m)(k \<mapsto> v)"
  by (induction k v m rule: bt_insert.induct) (auto simp: fun_eq_iff)

lemma set_keys_bt_insert: "fst ` set (bt_insert k v m) = insert k (fst ` set m)"
  by (induction k v m rule: bt_insert.induct) auto

lemma sorted_bt_insert:
  "sorted_wrt (<) (map fst m) \<Longrightarrow> sorted_wrt (<) (map fst (bt_insert k v m))"
proof (induction k v m rule: bt_insert.induct)
  case (2 k v k' v' m)
  have "\<forall>x \<in> set (bt_insert k v m). k' < fst x" if "k' < k"
  proof -
    have "\<forall>y \<in> fst ` set (bt_insert k v m). k' < y"
      using 2 that by (simp add: set_keys_bt_insert)
    then show ?thesis by simp
  qed
  with 2 show ?case by (auto simp: not_less_iff_gr_or_eq)
qed simp

subsection \<open>Bit counts\<close>

fun bitlen :: "nat \<Rightarrow> nat" where
  "bitlen n = (if n = 0 then 0 else Suc (bitlen (n div 2)))"

declare bitlen.simps [simp del]

definition leading_zeros64 :: "nat \<Rightarrow> nat" where
  "leading_zeros64 n = 64 - bitlen n"

fun popcount :: "nat \<Rightarrow> nat" where
  "popcount n = (if n = 0 then 0 else n mod 2 + popcount (n div 2))"

declare popcount.simps [simp del]

lemma popcount_0 [simp]: "popcount 0 = 0"
  by (subst popcount.simps) simp

lemma bitlen_0 [simp]: "bitlen 0 = 0"
  by (subst bitlen.simps) simp

lemma bitlen_1 [simp]: "bitlen (Suc 0) = 1"
  by (subst bitlen.simps) simp

lemma bitlen_eqI:
  "2 ^ k \<le> n \<Longrightarrow> n < 2 ^ Suc k \<Longrightarrow> bitlen n = Suc k"
proof (induction k arbitrary: n)
  case 0
  then have "n = 1" by simp
  then show ?case by simp
next
  case (Suc k)
  then have "2 ^ k \<le> n div 2" "n div 2 < 2 ^ Suc k" by auto
  then have "bitlen (n div 2) = Suc k" by (rule Suc.IH)
  moreover have "n \<noteq> 0" using Suc.prems(1) by (cases n) auto
  ultimately show ?case by (simp add: bitlen.simps [of n])
qed

lemma bitlen_bounds: "0 < n \<Longrightarrow> 2 ^ (bitlen n - 1) \<le> n \<and> n < 2 ^ bitlen n"
proof (induction n rule: bitlen.induct)
  case (1 n)
  show ?case
  proof (cases "n = 1")
    case True
    then show ?thesis by simp
  next
    case False
    with 1 have pos: "0 < n div 2" by (simp add: div_greater_zero_iff)
    with 1 have ih: "2 ^ (bitlen (n div 2) - 1) \<le> n div 2" "n div 2 < 2 ^ bitlen (n div 2)"
      by auto
    have b: "bitlen n = Suc (bitlen (n div 2))"
      using 1 by (simp add: bitlen.simps [of n])
    have "bitlen (n div 2) \<noteq> 0" using pos ih(2) by (cases "bitlen (n div 2)") auto
    then obtain m where m: "bitlen (n div 2) = Suc m" by (cases "bitlen (n div 2)") auto
    from ih m have "2 ^ m \<le> n div 2" "n div 2 < 2 ^ Suc m" by auto
    then have "2 ^ Suc m \<le> n" "n < 2 ^ Suc (Suc m)" by auto
    then show ?thesis by (simp add: b m)
  qed
qed

lemma popcount_le: "popcount n \<le> n"
proof (induction n rule: popcount.induct)
  case (1 n)
  show ?case
  proof (cases "n = 0")
    case False
    with 1 have "popcount (n div 2) \<le> n div 2" by simp
    then have "n mod 2 + popcount (n div 2) \<le> n" by presburger
    with False show ?thesis by (subst popcount.simps) simp
  qed simp
qed

subsection \<open>Reading at an offset\<close>

lemma slice_at:
  assumes "drop off data = xs @ post" "n = off + length xs"
  shows "slice off n data = xs"
  using assms by (simp add: slice_def)

lemma drop_at:
  assumes "drop off data = xs @ post" "n = off + length xs"
  shows "drop n data = post"
proof -
  have "drop n data = drop (length xs) (drop off data)" by (simp add: assms(2) add.commute)
  then show ?thesis by (simp add: assms(1))
qed

lemma length_at:
  assumes "drop off data = xs" "xs \<noteq> []"
  shows "length data = off + length xs"
  using assms by (metis drop_eq_Nil2 length_drop le_add_diff_inverse nat_le_linear)

lemma be_val_field:
  assumes "drop off data = be k v @ post" "v < 256 ^ k" "n = off + k"
  shows "be_val (slice off n data) = v"
  using slice_at [OF assms(1)] assms(2,3) by (simp add: byte_simps)

lemma be_nonempty [simp]: "be 2 v \<noteq> []" "be 8 v \<noteq> []"
  using length_be [of 2 v] length_be [of 8 v] by (metis list.size(3) zero_neq_numeral)+

lemma be_val_u64: "length xs \<le> 8 \<Longrightarrow> be_val xs < 2 ^ 64"
  using be_val_bound [of xs] power_increasing [of "length xs" 8 "256::nat"] by simp

subsection \<open>Signed integers\<close>

text \<open>An \<open>i64\<close> is an \<open>int\<close> in its range; its bytes are those of its two's complement.\<close>

definition i64 :: "int \<Rightarrow> bool" where
  "i64 t \<longleftrightarrow> - (2 ^ 63) \<le> t \<and> t < 2 ^ 63"

definition i64_bits :: "int \<Rightarrow> nat" where
  "i64_bits t = nat (t mod 2 ^ 64)"

definition i64_of :: "nat \<Rightarrow> int" where
  "i64_of v = (if v < 2 ^ 63 then int v else int v - 2 ^ 64)"

lemma i64_bits_bound [simp]: "i64_bits t < 18446744073709551616"
  by (simp add: i64_bits_def nat_less_iff)

lemma i64_of_bits [byte_simps]:
  assumes "i64 t"
  shows "i64_of (i64_bits t) = t"
proof (cases "0 \<le> t")
  case True
  then show ?thesis using assms by (simp add: i64_def i64_bits_def i64_of_def nat_less_iff)
next
  case False
  then have "t mod 2 ^ 64 = t + 2 ^ 64"
    using assms mod_pos_pos_trivial [of "t + 2 ^ 64" "2 ^ 64"] by (simp add: i64_def)
  then show ?thesis using assms False by (simp add: i64_def i64_bits_def i64_of_def nat_less_iff)
qed

lemma i64_i64_of: "v < 2 ^ 64 \<Longrightarrow> i64 (i64_of v)"
  by (auto simp: i64_def i64_of_def)

lemma i64_bits_of: "v < 2 ^ 64 \<Longrightarrow> i64_bits (i64_of v) = v"
  by (simp add: i64_bits_def i64_of_def)

lemma i64_bits_inj: "i64 t \<Longrightarrow> i64 u \<Longrightarrow> i64_bits t = i64_bits u \<Longrightarrow> t = u"
  by (metis i64_of_bits)

end
