(* ===== verification/Mmr_Node.thy ===== *)
theory Mmr_Node
  imports Prelude
begin

text \<open>
  Nodes of the Merkle Mountain Range (\<open>crates/cpoe/src/mmr/node.rs\<close>, \<open>errors.rs\<close>): the
  domain-separated hash inputs, the node record and its 41-byte encoding. SHA-256 is the
  parameter \<open>sha\<close> of every definition that hashes; feeding a hasher piecewise is hashing the
  concatenation.
\<close>

datatype mmr_error =
    Empty
  | CorruptedStore
  | IndexOutOfRange
  | InvalidNodeData
  | InvalidProof
  | HashMismatch
  | NodeNotFound
  | ProofTooLarge
  | Io
  | Panic \<comment> \<open>not an error value of the source: a panic (overflow check, index out of range)\<close>

definition HASH_SIZE :: nat where "HASH_SIZE = 32"
definition NODE_SIZE :: nat where "NODE_SIZE = 41"

definition LEAF_PREFIX :: byte where "LEAF_PREFIX = 0x00"
definition INTERNAL_PREFIX :: byte where "INTERNAL_PREFIX = 0x01"

definition LEAF_DST :: bytes where "LEAF_DST = ascii ''cpoe-mmr-leaf-v1''"
definition NODE_DST :: bytes where "NODE_DST = ascii ''cpoe-mmr-node-v1''"
definition BAG_DST :: bytes where "BAG_DST = ascii ''cpoe-mmr-bag-v1''"

record node =
  node_index :: nat
  node_height :: nat
  node_hash :: bytes

text \<open>The three hash inputs, and the hashes.\<close>

definition leaf_preimage :: "nat \<Rightarrow> bytes \<Rightarrow> bytes" where
  "leaf_preimage index data = LEAF_DST @ [LEAF_PREFIX] @ be 8 index @ data"

definition internal_preimage :: "nat \<Rightarrow> bytes \<Rightarrow> bytes \<Rightarrow> bytes" where
  "internal_preimage height left right =
     NODE_DST @ [INTERNAL_PREFIX] @ [word_of_nat height] @ left @ right"

definition bag_preimage :: "bytes \<Rightarrow> bytes \<Rightarrow> bytes" where
  "bag_preimage left right = BAG_DST @ left @ right"

definition hash_leaf :: "(bytes \<Rightarrow> bytes) \<Rightarrow> nat \<Rightarrow> bytes \<Rightarrow> bytes" where
  "hash_leaf sha index data = sha (leaf_preimage index data)"

definition hash_internal :: "(bytes \<Rightarrow> bytes) \<Rightarrow> nat \<Rightarrow> bytes \<Rightarrow> bytes \<Rightarrow> bytes" where
  "hash_internal sha height left right = sha (internal_preimage height left right)"

definition hash_bag :: "(bytes \<Rightarrow> bytes) \<Rightarrow> bytes \<Rightarrow> bytes \<Rightarrow> bytes" where
  "hash_bag sha left right = sha (bag_preimage left right)"

definition new_leaf :: "(bytes \<Rightarrow> bytes) \<Rightarrow> nat \<Rightarrow> bytes \<Rightarrow> node" where
  "new_leaf sha index data =
     \<lparr>node_index = index, node_height = 0, node_hash = hash_leaf sha index data\<rparr>"

definition new_internal :: "(bytes \<Rightarrow> bytes) \<Rightarrow> nat \<Rightarrow> nat \<Rightarrow> node \<Rightarrow> node \<Rightarrow> node" where
  "new_internal sha index height left right =
     \<lparr>node_index = index, node_height = height,
      node_hash = hash_internal sha height (node_hash left) (node_hash right)\<rparr>"

definition node_serialize :: "node \<Rightarrow> bytes" where
  "node_serialize n = be 8 (node_index n) @ [word_of_nat (node_height n)] @ node_hash n"

definition node_deserialize :: "bytes \<Rightarrow> (mmr_error, node) result" where
  "node_deserialize data =
     (if length data < NODE_SIZE then Inl InvalidNodeData
      else Inr \<lparr>node_index = be_val (slice 0 8 data),
                node_height = unat (data ! 8),
                node_hash = slice 9 41 data\<rparr>)"

text \<open>The ranges of the fields' Rust types: \<open>u64\<close>, \<open>u8\<close>, \<open>[u8; 32]\<close>.\<close>

definition node_typed :: "node \<Rightarrow> bool" where
  "node_typed n \<longleftrightarrow> node_index n < 2 ^ 64 \<and> node_height n < 256 \<and> length (node_hash n) = 32"

subsection \<open>Domain separation\<close>

lemmas dst_defs = LEAF_DST_def NODE_DST_def BAG_DST_def LEAF_PREFIX_def INTERNAL_PREFIX_def ascii_def

lemma leaf_preimage_neq_internal [simp]: "leaf_preimage i d \<noteq> internal_preimage h l r"
  by (simp add: leaf_preimage_def internal_preimage_def dst_defs)

lemma leaf_preimage_neq_bag [simp]: "leaf_preimage i d \<noteq> bag_preimage l r"
  by (simp add: leaf_preimage_def bag_preimage_def dst_defs)

lemma internal_preimage_neq_bag [simp]: "internal_preimage h l r \<noteq> bag_preimage l' r'"
  by (simp add: internal_preimage_def bag_preimage_def dst_defs)

lemma leaf_preimage_inj:
  "leaf_preimage i d = leaf_preimage i' d' \<Longrightarrow> i < 2 ^ 64 \<Longrightarrow> i' < 2 ^ 64 \<Longrightarrow> i = i' \<and> d = d'"
  by (auto simp: leaf_preimage_def dest: be_inj)

lemma internal_preimage_inj:
  assumes "internal_preimage h l r = internal_preimage h' l' r'"
    and "h < 256" "h' < 256" "length l = length l'"
  shows "h = h' \<and> l = l' \<and> r = r'"
proof -
  from assms have "(word_of_nat h :: byte) = word_of_nat h'" and lr: "l = l' \<and> r = r'"
    by (auto simp: internal_preimage_def)
  then have "unat (word_of_nat h :: byte) = unat (word_of_nat h' :: byte)" by simp
  with assms(2,3) have "h = h'" by simp
  with lr show ?thesis by simp
qed

lemma bag_preimage_inj:
  "bag_preimage l r = bag_preimage l' r' \<Longrightarrow> length l = length l' \<Longrightarrow> l = l' \<and> r = r'"
  by (simp add: bag_preimage_def)

subsection \<open>The node encoding\<close>

lemma length_node_serialize [simp]: "node_typed n \<Longrightarrow> length (node_serialize n) = 41"
  by (simp add: node_serialize_def node_typed_def)

lemma node_roundtrip:
  assumes "node_typed n"
  shows "node_deserialize (node_serialize n) = Inr n"
proof -
  from assms have i: "node_index n < 256 ^ 8" and h: "node_height n < 256"
    and l: "length (node_hash n) = 32"
    by (simp_all add: node_typed_def)
  have "be_val (slice 0 8 (node_serialize n)) = node_index n"
    using i by (simp add: node_serialize_def byte_simps)
  moreover have "unat (node_serialize n ! 8) = node_height n"
    using h by (simp add: node_serialize_def nth_append)
  moreover have "slice 9 41 (node_serialize n) = node_hash n"
    using l by (simp add: node_serialize_def slice_def)
  ultimately show ?thesis
    using assms by (simp add: node_deserialize_def NODE_SIZE_def)
qed

lemma node_deserialize_typed: "node_deserialize data = Inr n \<Longrightarrow> node_typed n"
proof -
  assume "node_deserialize data = Inr n"
  then have len: "41 \<le> length data" and n: "n = \<lparr>node_index = be_val (slice 0 8 data),
      node_height = unat (data ! 8), node_hash = slice 9 41 data\<rparr>"
    by (auto simp: node_deserialize_def NODE_SIZE_def split: if_splits)
  have "be_val (slice 0 8 data) < 256 ^ length (slice 0 8 data)" by (rule be_val_bound)
  with len show ?thesis by (simp add: n node_typed_def)
qed

end
