(* ===== verification/Mmr_Store.thy ===== *)
theory Mmr_Store
  imports Mmr_Node
begin

text \<open>
  Node stores (\<open>crates/cpoe/src/mmr/store.rs\<close>). The trait \<open>Store\<close> is a record of operations,
  the two implementations are \<open>memory_store\<close> and \<open>file_store\<close>. What a client may rely on is
  stated by three contracts over the list of nodes a store holds: \<open>node_reader\<close> for a store
  that is only read, \<open>bounded_store\<close> for one that can also be appended to while it has room,
  and \<open>node_store\<close> for one that can be appended to and synced without end. The memory store
  keeps the last one. The file store does not: its buffered writer and its reader are handles
  of one open file and share its cursor, so a read that goes to the file moves the place the
  next flush writes to. It keeps \<open>bounded_store\<close> for its first hundred nodes, and \<open>node_reader\<close>
  once all is flushed. Locks are sequential here: an operation runs from the state its
  predecessor left.
\<close>

record 's store_ops =
  op_append :: "node \<Rightarrow> ('s, mmr_error, unit) op"
  op_get :: "nat \<Rightarrow> ('s, mmr_error, node) op"
  op_size :: "'s \<Rightarrow> (mmr_error, nat) result"
  op_sync :: "('s, mmr_error, unit) op"
  op_close :: "('s, mmr_error, unit) op"

subsection \<open>The contracts\<close>

locale node_reader =
  fixes ops :: "'s store_ops"
    and invar :: "'s \<Rightarrow> bool"
    and nodes :: "'s \<Rightarrow> node list"
  assumes get_ok: "invar s \<Longrightarrow> i < length (nodes s) \<Longrightarrow>
      snd (op_get ops i s) = Inr (nodes s ! i) \<and> invar (fst (op_get ops i s)) \<and>
      nodes (fst (op_get ops i s)) = nodes s"
    and get_range: "invar s \<Longrightarrow> length (nodes s) \<le> i \<Longrightarrow>
      op_get ops i s = (s, Inl IndexOutOfRange)"
    and size_ok: "invar s \<Longrightarrow> op_size ops s = Inr (length (nodes s))"
begin

lemma get_E:
  assumes "invar s" "i < length (nodes s)"
  obtains s' where "op_get ops i s = (s', Inr (nodes s ! i))" "invar s'" "nodes s' = nodes s"
  using get_ok [OF assms] by (metis prod.collapse)

end

text \<open>\<open>room k\<close>: a store of \<open>k\<close> nodes can take one more.\<close>

locale bounded_store = node_reader ops invar nodes
  for ops :: "'s store_ops" and invar :: "'s \<Rightarrow> bool" and nodes :: "'s \<Rightarrow> node list" +
  fixes room :: "nat \<Rightarrow> bool"
  assumes append_ok: "invar s \<Longrightarrow> node_typed n \<Longrightarrow> node_index n = length (nodes s) \<Longrightarrow>
      room (node_index n) \<Longrightarrow>
      snd (op_append ops n s) = Inr () \<and> invar (fst (op_append ops n s)) \<and>
      nodes (fst (op_append ops n s)) = nodes s @ [n]"
    and append_gap: "invar s \<Longrightarrow> node_index n \<noteq> length (nodes s) \<Longrightarrow>
      op_append ops n s = (s, Inl CorruptedStore)"
begin

lemma append_E:
  assumes "invar s" "node_typed n" "node_index n = length (nodes s)" "room (node_index n)"
  obtains s' where "op_append ops n s = (s', Inr ())" "invar s'" "nodes s' = nodes s @ [n]"
  using append_ok [OF assms] by (metis prod.collapse)

text \<open>A store is append-only: what an index holds never changes.\<close>

lemma append_keeps:
  assumes "invar s" "node_typed n" "node_index n = length (nodes s)" "room (node_index n)"
    and "i < length (nodes s)" "op_append ops n s = (s', r)"
  shows "snd (op_get ops i s') = Inr (nodes s ! i)"
  using append_ok [OF assms(1-4)] get_ok [of s' i] assms(5,6) by (simp add: nth_append)

lemma append_then_get:
  assumes "invar s" "node_typed n" "node_index n = length (nodes s)" "room (node_index n)"
    and "op_append ops n s = (s', r)"
  shows "snd (op_get ops (node_index n) s') = Inr n"
  using append_ok [OF assms(1-4)] get_ok [of s' "node_index n"] assms(3,5) by simp

end

locale node_store = bounded_store ops invar nodes "\<lambda>_. True"
  for ops :: "'s store_ops" and invar :: "'s \<Rightarrow> bool" and nodes :: "'s \<Rightarrow> node list" +
  assumes sync_ok: "invar s \<Longrightarrow> snd (op_sync ops s) = Inr () \<and> invar (fst (op_sync ops s)) \<and>
      nodes (fst (op_sync ops s)) = nodes s"

subsection \<open>The memory store\<close>

record memory_store =
  ms_nodes :: "node list"

definition memory_new :: memory_store where
  "memory_new = \<lparr>ms_nodes = []\<rparr>"

definition memory_append :: "node \<Rightarrow> (memory_store, mmr_error, unit) op" where
  "memory_append n s =
     (if node_index n \<noteq> length (ms_nodes s) then (s, Inl CorruptedStore)
      else (s\<lparr>ms_nodes := ms_nodes s @ [n]\<rparr>, Inr ()))"

definition memory_get :: "nat \<Rightarrow> (memory_store, mmr_error, node) op" where
  "memory_get index s =
     (if length (ms_nodes s) \<le> index then (s, Inl IndexOutOfRange)
      else (s, Inr (ms_nodes s ! index)))"

definition memory_size :: "memory_store \<Rightarrow> (mmr_error, nat) result" where
  "memory_size s = Inr (length (ms_nodes s))"

definition memory_sync :: "(memory_store, mmr_error, unit) op" where
  "memory_sync s = (s, Inr ())"

definition memory_close :: "(memory_store, mmr_error, unit) op" where
  "memory_close s = (s, Inr ())"

definition memory_ops :: "memory_store store_ops" where
  "memory_ops = \<lparr>op_append = memory_append, op_get = memory_get, op_size = memory_size,
                 op_sync = memory_sync, op_close = memory_close\<rparr>"

subsection \<open>The file store\<close>

text \<open>
  The file is the byte string an \<open>fsync\<close> would find, \<open>fs_buffer\<close> is what the \<open>BufWriter\<close>
  still holds. The writer's handle is \<open>file.try_clone()\<close>, a second descriptor of the same open
  file, and the file is not opened for appending: \<open>fs_cursor\<close> is the one position that seeks,
  reads and writes of both handles use and move. \<open>fs_faults\<close> gives the outcomes of the
  operating-system calls still to come (\<open>True\<close>: the call fails and has no effect); once it is
  used up calls succeed.
\<close>

record file_store =
  fs_file :: bytes
  fs_cursor :: nat
  fs_buffer :: bytes
  fs_size :: nat
  fs_cache :: "nat \<rightharpoonup> node"
  fs_append_count :: nat
  fs_faults :: "bool list"

definition AUTO_SYNC_THRESHOLD :: nat where "AUTO_SYNC_THRESHOLD = 100"
definition WRITER_CAPACITY :: nat where "WRITER_CAPACITY = 4096"

definition os_call :: "(file_store, mmr_error, unit) op" where
  "os_call s = (case fs_faults s of
       [] \<Rightarrow> (s, Inr ())
     | f # fs \<Rightarrow> (s\<lparr>fs_faults := fs\<rparr>, if f then Inl Io else Inr ()))"

text \<open>A write at a position: what is there is overwritten, a gap is filled with zeros.\<close>

definition store_write_at :: "nat \<Rightarrow> bytes \<Rightarrow> bytes \<Rightarrow> bytes" where
  "store_write_at pos data file =
     take pos file @ replicate (pos - length file) 0 @ data @ drop (pos + length data) file"

text \<open>\<open>BufWriter::flush\<close> and \<open>BufWriter::write_all\<close> on a record smaller than the buffer.\<close>

definition writer_flush :: "(file_store, mmr_error, unit) op" where
  "writer_flush s =
     (if fs_buffer s = [] then (s, Inr ())
      else op_bind os_call
             (\<lambda>_ s. (s\<lparr>fs_file := store_write_at (fs_cursor s) (fs_buffer s) (fs_file s),
                       fs_cursor := fs_cursor s + length (fs_buffer s), fs_buffer := []\<rparr>, Inr ())) s)"

definition writer_write_all :: "bytes \<Rightarrow> (file_store, mmr_error, unit) op" where
  "writer_write_all data s =
     op_bind (if WRITER_CAPACITY < length (fs_buffer s) + length data
              then writer_flush else op_return ())
       (\<lambda>_ s. (s\<lparr>fs_buffer := fs_buffer s @ data\<rparr>, Inr ())) s"

definition file_open :: "bytes \<Rightarrow> bool list \<Rightarrow> (mmr_error, file_store) result" where
  "file_open content faults =
     (let s0 = \<lparr>fs_file = content, fs_cursor = 0, fs_buffer = [], fs_size = length content div NODE_SIZE,
                fs_cache = Map.empty, fs_append_count = 0, fs_faults = faults\<rparr>
      in case op_bind os_call (\<lambda>_. op_bind os_call (\<lambda>_. os_call)) s0 of
           (_, Inl e) \<Rightarrow> Inl e
         | (s1, Inr _) \<Rightarrow>
             if length content mod NODE_SIZE \<noteq> 0 then Inl CorruptedStore
             else (case op_bind os_call (\<lambda>_. os_call) s1 of
                     (_, Inl e) \<Rightarrow> Inl e
                   | (s2, Inr _) \<Rightarrow> Inr (s2\<lparr>fs_cursor := length content\<rparr>)))"

definition file_sync :: "(file_store, mmr_error, unit) op" where
  "file_sync =
     op_bind writer_flush
       (\<lambda>_ s. os_call (s\<lparr>fs_cache := Map.empty, fs_append_count := 0\<rparr>))"

definition file_append :: "node \<Rightarrow> (file_store, mmr_error, unit) op" where
  "file_append n s =
     (if node_index n \<noteq> fs_size s then (s, Inl CorruptedStore)
      else op_bind (writer_write_all (node_serialize n))
        (\<lambda>_ s. let s' = s\<lparr>fs_cache := (fs_cache s)(node_index n \<mapsto> n), fs_size := fs_size s + 1,
                          fs_append_count := fs_append_count s + 1\<rparr>
               in if AUTO_SYNC_THRESHOLD \<le> fs_append_count s then file_sync s' else (s', Inr ())) s)"

text \<open>\<open>read_exact\<close> of one record from the cursor.\<close>

definition read_record :: "(file_store, mmr_error, bytes) op" where
  "read_record =
     op_bind os_call (\<lambda>_ s.
       (let end_pos = fs_cursor s + NODE_SIZE in
        if length (fs_file s) < end_pos then (s\<lparr>fs_cursor := max (fs_cursor s) (length (fs_file s))\<rparr>, Inl Io)
        else (s\<lparr>fs_cursor := end_pos\<rparr>, Inr (slice (fs_cursor s) end_pos (fs_file s)))))"

definition seek_start :: "nat \<Rightarrow> (file_store, mmr_error, unit) op" where
  "seek_start offset = op_bind os_call (\<lambda>_ s. (s\<lparr>fs_cursor := offset\<rparr>, Inr ()))"

definition file_get :: "nat \<Rightarrow> (file_store, mmr_error, node) op" where
  "file_get index s =
     (if fs_size s \<le> index then (s, Inl IndexOutOfRange)
      else case fs_cache s index of
        Some n \<Rightarrow> (s, Inr n)
      | None \<Rightarrow>
          op_bind writer_flush (\<lambda>_. op_bind (seek_start (index * NODE_SIZE)) (\<lambda>_.
            op_bind read_record (\<lambda>buf s. (s, node_deserialize buf)))) s)"

definition file_size :: "file_store \<Rightarrow> (mmr_error, nat) result" where
  "file_size s = Inr (fs_size s)"

definition file_close :: "(file_store, mmr_error, unit) op" where
  "file_close = file_sync"

definition file_ops :: "file_store store_ops" where
  "file_ops = \<lparr>op_append = file_append, op_get = file_get, op_size = file_size,
               op_sync = file_sync, op_close = file_close\<rparr>"

subsection \<open>What the file store holds\<close>

text \<open>The records of a byte string.\<close>

fun parse_nodes :: "nat \<Rightarrow> bytes \<Rightarrow> node list" where
  "parse_nodes 0 bs = []"
| "parse_nodes (Suc k) bs =
     (case node_deserialize bs of Inl _ \<Rightarrow> [] | Inr n \<Rightarrow> n # parse_nodes k (drop NODE_SIZE bs))"

lemma node_deserialize_append:
  "NODE_SIZE \<le> length bs \<Longrightarrow> node_deserialize (bs @ cs) = node_deserialize bs"
  by (simp add: node_deserialize_def NODE_SIZE_def slice_def nth_append)

lemma node_deserialize_total: "NODE_SIZE \<le> length bs \<Longrightarrow> \<exists>n. node_deserialize bs = Inr n"
  by (simp add: node_deserialize_def)

lemma length_parse_nodes:
  "length bs = k * NODE_SIZE \<Longrightarrow> length (parse_nodes k bs) = k"
proof (induction k arbitrary: bs)
  case (Suc k)
  then obtain n where "node_deserialize bs = Inr n" using node_deserialize_total [of bs] by auto
  with Suc show ?case by simp
qed simp

lemma parse_nodes_append:
  "length bs = k * NODE_SIZE \<Longrightarrow>
   parse_nodes (k + m) (bs @ cs) = parse_nodes k bs @ parse_nodes m cs"
proof (induction k arbitrary: bs)
  case (Suc k)
  then have len: "NODE_SIZE \<le> length bs" by simp
  then obtain n where n: "node_deserialize bs = Inr n" using node_deserialize_total [of bs] by auto
  have "length (drop NODE_SIZE bs) = k * NODE_SIZE" using Suc.prems by simp
  from Suc.IH [OF this] show ?case
    using len n by (simp add: node_deserialize_append)
qed simp

lemma parse_nodes_nth:
  "length bs = k * NODE_SIZE \<Longrightarrow> i < k \<Longrightarrow>
   node_deserialize (slice (i * NODE_SIZE) (i * NODE_SIZE + NODE_SIZE) bs) = Inr (parse_nodes k bs ! i)"
proof (induction k arbitrary: bs i)
  case (Suc k)
  then have len: "NODE_SIZE \<le> length bs" by simp
  then obtain n where n: "node_deserialize bs = Inr n" using node_deserialize_total [of bs] by auto
  show ?case
  proof (cases i)
    case 0
    have "node_deserialize (take NODE_SIZE bs @ drop NODE_SIZE bs) = node_deserialize (take NODE_SIZE bs)"
      by (rule node_deserialize_append) (use len in simp)
    then have "node_deserialize (take NODE_SIZE bs) = Inr n" using n by simp
    with 0 n show ?thesis by (simp add: slice_def)
  next
    case (Suc j)
    have "length (drop NODE_SIZE bs) = k * NODE_SIZE" using Suc.prems by simp
    from Suc.IH [OF this, of j] Suc.prems(2) show ?thesis
      using n by (simp add: \<open>i = Suc j\<close> slice_def add.commute)
  qed
qed simp

lemma parse_nodes_typed: "n \<in> set (parse_nodes k bs) \<Longrightarrow> node_typed n"
  by (induction k arbitrary: bs)
    (auto split: sum.splits dest: sym [THEN node_deserialize_typed])

lemma parse_nodes_one: "node_typed n \<Longrightarrow> parse_nodes (Suc 0) (node_serialize n) = [n]"
  by (simp add: node_roundtrip)

text \<open>The nodes of a file store are the records of the file followed by those still buffered.\<close>

definition file_nodes :: "file_store \<Rightarrow> node list" where
  "file_nodes s = parse_nodes (fs_size s) (fs_file s @ fs_buffer s)"

text \<open>Two states in which the file store does what a client expects. In a \<open>fresh\<close> one every node
  was appended since it was opened empty, none was synced yet, so that every read is served from
  the cache and the cursor is still at the end of the file. In a \<open>settled\<close> one nothing is
  buffered, so that it does not matter where the cursor is.\<close>

definition file_fresh :: "file_store \<Rightarrow> bool" where
  "file_fresh s \<longleftrightarrow>
     fs_faults s = [] \<and> length (fs_file s @ fs_buffer s) = fs_size s * NODE_SIZE \<and>
     fs_cursor s = length (fs_file s) \<and> fs_append_count s = fs_size s \<and> fs_size s \<le> AUTO_SYNC_THRESHOLD \<and>
     (\<forall>i < fs_size s. fs_cache s i = Some (file_nodes s ! i))"

definition file_settled :: "file_store \<Rightarrow> bool" where
  "file_settled s \<longleftrightarrow>
     fs_faults s = [] \<and> fs_buffer s = [] \<and> length (fs_file s) = fs_size s * NODE_SIZE \<and>
     (\<forall>i n. fs_cache s i = Some n \<longrightarrow> i < fs_size s \<and> file_nodes s ! i = n)"

lemma length_file_nodes:
  "length (fs_file s @ fs_buffer s) = fs_size s * NODE_SIZE \<Longrightarrow> length (file_nodes s) = fs_size s"
  unfolding file_nodes_def by (rule length_parse_nodes)

lemma fresh_length [simp]: "file_fresh s \<Longrightarrow> length (file_nodes s) = fs_size s"
  by (rule length_file_nodes) (simp add: file_fresh_def)

lemma settled_length [simp]: "file_settled s \<Longrightarrow> length (file_nodes s) = fs_size s"
  by (rule length_file_nodes) (simp add: file_settled_def)

lemma store_write_end: "store_write_at (length f) d f = f @ d"
  by (simp add: store_write_at_def)

lemma store_write_mid: "length f = pos \<Longrightarrow> length d \<le> length g \<Longrightarrow> store_write_at pos d (f @ g) = f @ d @ drop (length d) g"
  by (simp add: store_write_at_def)

subsection \<open>The operating-system calls of a store without faults\<close>

lemma os_call_ok [simp]: "fs_faults s = [] \<Longrightarrow> os_call s = (s, Inr ())"
  by (simp add: os_call_def)

lemma writer_flush_ok:
  "fs_faults s = [] \<Longrightarrow> fs_buffer s \<noteq> [] \<Longrightarrow>
   writer_flush s = (s\<lparr>fs_file := store_write_at (fs_cursor s) (fs_buffer s) (fs_file s),
     fs_cursor := fs_cursor s + length (fs_buffer s), fs_buffer := []\<rparr>, Inr ())"
  by (simp add: writer_flush_def op_bind_def)

lemma writer_flush_end:
  assumes "fs_faults s = []" "fs_cursor s = length (fs_file s)"
  shows "writer_flush s = (s\<lparr>fs_file := fs_file s @ fs_buffer s,
     fs_cursor := length (fs_file s @ fs_buffer s), fs_buffer := []\<rparr>, Inr ())"
  using assms by (cases "fs_buffer s = []") (simp_all add: writer_flush_ok store_write_end writer_flush_def)

lemma read_record_ok:
  "fs_faults s = [] \<Longrightarrow> fs_cursor s + NODE_SIZE \<le> length (fs_file s) \<Longrightarrow>
   read_record s = (s\<lparr>fs_cursor := fs_cursor s + NODE_SIZE\<rparr>,
     Inr (slice (fs_cursor s) (fs_cursor s + NODE_SIZE) (fs_file s)))"
  by (simp add: read_record_def op_bind_def Let_def)

lemma file_get_cached: "i < fs_size s \<Longrightarrow> fs_cache s i = Some n \<Longrightarrow> file_get i s = (s, Inr n)"
  by (simp add: file_get_def)

lemma writer_write_all_end:
  assumes "fs_faults s = []" "fs_cursor s = length (fs_file s)"
  shows "\<exists>f b. writer_write_all d s = (s\<lparr>fs_file := f, fs_cursor := length f, fs_buffer := b\<rparr>, Inr ()) \<and>
    f @ b = fs_file s @ fs_buffer s @ d"
proof (cases "WRITER_CAPACITY < length (fs_buffer s) + length d")
  case True
  then have "writer_write_all d s =
      (s\<lparr>fs_file := fs_file s @ fs_buffer s, fs_cursor := length (fs_file s @ fs_buffer s), fs_buffer := d\<rparr>, Inr ())"
    using writer_flush_end [OF assms] by (simp add: writer_write_all_def op_bind_def)
  then show ?thesis by (metis append.assoc)
next
  case False
  then have "writer_write_all d s =
      (s\<lparr>fs_file := fs_file s, fs_cursor := length (fs_file s), fs_buffer := fs_buffer s @ d\<rparr>, Inr ())"
    using assms(2) by (simp add: writer_write_all_def op_bind_def op_return_def)
  then show ?thesis by blast
qed

subsection \<open>A fresh store\<close>

lemma file_append_fresh:
  assumes inv: "file_fresh s" and ty: "node_typed n" and ix: "node_index n = length (file_nodes s)"
    and room: "node_index n < AUTO_SYNC_THRESHOLD"
  shows "snd (file_append n s) = Inr () \<and> file_fresh (fst (file_append n s)) \<and>
    file_nodes (fst (file_append n s)) = file_nodes s @ [n]"
proof -
  have ix': "node_index n = fs_size s" using inv ix by simp
  have s: "fs_faults s = []" "fs_cursor s = length (fs_file s)" "fs_append_count s = fs_size s"
    and len: "length (fs_file s @ fs_buffer s) = fs_size s * NODE_SIZE"
    and ca: "\<And>i. i < fs_size s \<Longrightarrow> fs_cache s i = Some (file_nodes s ! i)"
    using inv by (simp_all add: file_fresh_def)
  obtain f b where w: "writer_write_all (node_serialize n) s =
      (s\<lparr>fs_file := f, fs_cursor := length f, fs_buffer := b\<rparr>, Inr ())"
    and fb: "f @ b = (fs_file s @ fs_buffer s) @ node_serialize n"
    using writer_write_all_end [OF s(1,2)] by (metis append.assoc)
  define s' where "s' = s\<lparr>fs_file := f, fs_cursor := length f, fs_buffer := b,
      fs_cache := (fs_cache s)(node_index n \<mapsto> n), fs_size := fs_size s + 1,
      fs_append_count := fs_append_count s + 1\<rparr>"
  have nodes': "file_nodes s' = file_nodes s @ [n]"
    using parse_nodes_append [OF len, of 1 "node_serialize n"] parse_nodes_one [OF ty]
    by (simp add: file_nodes_def s'_def fb)
  have "length (f @ b) = Suc (fs_size s) * NODE_SIZE"
    using len ty by (simp add: fb NODE_SIZE_def)
  moreover have "fs_cache s' i = Some (file_nodes s' ! i)" if "i < fs_size s'" for i
    using that inv ca [of i] ix' unfolding nodes'
    by (cases "i = node_index n") (simp_all add: s'_def nth_append)
  ultimately have inv': "file_fresh s'"
    using s room ix' by (simp add: file_fresh_def s'_def)
  have "file_append n s = (s', Inr ())"
    using room by (simp add: file_append_def ix' op_bind_def w s'_def Let_def s)
  with inv' nodes' show ?thesis by simp
qed

subsection \<open>A settled store\<close>

lemma file_get_settled:
  assumes inv: "file_settled s" and i: "i < length (file_nodes s)"
  shows "snd (file_get i s) = Inr (file_nodes s ! i) \<and> file_settled (fst (file_get i s)) \<and>
    file_nodes (fst (file_get i s)) = file_nodes s"
proof (cases "fs_cache s i")
  case (Some n)
  then have "file_nodes s ! i = n" using inv by (auto simp: file_settled_def)
  with Some inv i show ?thesis by (simp add: file_get_def)
next
  case None
  have s: "fs_faults s = []" "fs_buffer s = []" and len: "length (fs_file s) = fs_size s * NODE_SIZE"
    using inv by (simp_all add: file_settled_def)
  have i': "i < fs_size s" using inv i by simp
  then have "Suc i * NODE_SIZE \<le> fs_size s * NODE_SIZE" by (intro mult_le_mono1) simp
  with len have "i * NODE_SIZE + NODE_SIZE \<le> length (fs_file s)" by simp
  with None s i' show ?thesis
    using parse_nodes_nth [OF len i'] inv
    by (simp add: file_get_def op_bind_def writer_flush_def seek_start_def read_record_ok file_nodes_def file_settled_def)
qed

text \<open>The memory store keeps the whole contract, the file store what its state allows.\<close>

interpretation mem: node_store memory_ops "\<lambda>_. True" ms_nodes
  by unfold_locales
    (auto simp: memory_ops_def memory_append_def memory_get_def memory_size_def memory_sync_def)

interpretation fresh: bounded_store file_ops file_fresh file_nodes "\<lambda>k. k < AUTO_SYNC_THRESHOLD"
proof unfold_locales
  fix s i
  assume "file_fresh s" "i < length (file_nodes s)"
  then have "file_get i s = (s, Inr (file_nodes s ! i))"
    by (intro file_get_cached) (simp_all add: file_fresh_def length_file_nodes)
  then show "snd (op_get file_ops i s) = Inr (file_nodes s ! i) \<and> file_fresh (fst (op_get file_ops i s)) \<and>
      file_nodes (fst (op_get file_ops i s)) = file_nodes s"
    using \<open>file_fresh s\<close> by (simp add: file_ops_def)
next
  fix s :: file_store and n :: node
  assume "file_fresh s" "node_index n \<noteq> length (file_nodes s)"
  then show "op_append file_ops n s = (s, Inl CorruptedStore)"
    by (simp add: file_ops_def file_append_def)
qed (simp_all add: file_ops_def file_append_fresh file_get_def file_size_def)

interpretation settled: node_reader file_ops file_settled file_nodes
proof unfold_locales
  fix s i
  assume "file_settled s" "i < length (file_nodes s)"
  from file_get_settled [OF this]
  show "snd (op_get file_ops i s) = Inr (file_nodes s ! i) \<and> file_settled (fst (op_get file_ops i s)) \<and>
      file_nodes (fst (op_get file_ops i s)) = file_nodes s"
    by (simp add: file_ops_def)
qed (simp_all add: file_ops_def file_get_def file_size_def)

subsection \<open>Closing and reopening a file store\<close>

text \<open>After \<open>close\<close> the file of a fresh store holds every node, and opening it gives a settled one.\<close>

lemma file_close_fresh:
  assumes inv: "file_fresh s"
  shows "\<exists>s'. file_close s = (s', Inr ()) \<and> file_settled s' \<and> file_nodes s' = file_nodes s"
proof -
  have s: "fs_faults s = []" "fs_cursor s = length (fs_file s)"
    and len: "length (fs_file s @ fs_buffer s) = fs_size s * NODE_SIZE"
    using inv by (simp_all add: file_fresh_def)
  show ?thesis
    using writer_flush_end [OF s] s len
    by (simp add: file_close_def file_sync_def op_bind_def file_settled_def file_nodes_def)
qed

lemma file_reopen_settled:
  assumes inv: "file_settled s"
  shows "\<exists>t. file_open (fs_file s) [] = Inr t \<and> file_settled t \<and> file_nodes t = file_nodes s"
proof -
  have s: "fs_buffer s = []" and len: "length (fs_file s) = fs_size s * NODE_SIZE"
    using inv by (simp_all add: file_settled_def)
  have "length (fs_file s) div NODE_SIZE = fs_size s" "length (fs_file s) mod NODE_SIZE = 0"
    using len by (simp_all add: NODE_SIZE_def)
  then show ?thesis
    using len s by (simp add: file_open_def Let_def op_bind_def file_settled_def file_nodes_def)
qed

end
