(* ===== verification/Mmr_Peaks.thy ===== *)
theory Mmr_Peaks
  imports Mmr_Node
begin

text \<open>
  Peak arithmetic (\<open>find_peaks\<close>, \<open>highest_peak\<close>, \<open>leaf_count_from_size\<close> of
  \<open>crates/cpoe/src/mmr/mmr.rs\<close>). A perfect tree of height \<open>h\<close> takes \<open>2^(h+1) - 1\<close> nodes; an
  MMR lays trees of decreasing height side by side. The lemmas show that the greedy search
  recovers exactly that decomposition, also in the middle of an append, when the last two
  trees may have equal height.
\<close>

definition highest_peak :: "nat \<Rightarrow> (mmr_error, nat) result" where
  "highest_peak sz =
     (if sz = 0 then Inr 0
      else if 2 ^ 64 \<le> sz + 1 then Inl Panic
      else Inr ((63 - leading_zeros64 (sz + 1)) - 1))"

text \<open>The first argument is the number of iterations left of the 64 the loop allows itself.\<close>

fun find_peaks_loop :: "nat \<Rightarrow> nat \<Rightarrow> nat \<Rightarrow> (mmr_error, nat list) result" where
  "find_peaks_loop 0 sz offset = Inr []"
| "find_peaks_loop (Suc k) sz offset =
     (if sz = 0 then Inr []
      else res_bind (highest_peak sz) (\<lambda>h.
        let tree_size = 2 ^ (h + 1) - 1 in
        if sz < tree_size then Inr []
        else res_bind (find_peaks_loop k (sz - tree_size) (offset + tree_size))
               (\<lambda>ps. Inr ((offset + tree_size - 1) # ps))))"

definition find_peaks :: "nat \<Rightarrow> (mmr_error, nat list) result" where
  "find_peaks sz = find_peaks_loop 64 sz 0"

function leaf_count_loop :: "nat \<Rightarrow> nat \<Rightarrow> (mmr_error, nat) result" where
  "leaf_count_loop sz count =
     (if sz = 0 then Inr count
      else case highest_peak sz of
        Inl e \<Rightarrow> Inl e
      | Inr h \<Rightarrow> if sz < 2 ^ (h + 1) - 1 then Inl Panic
                 else leaf_count_loop (sz - (2 ^ (h + 1) - 1)) (count + 2 ^ h))"
  by pat_completeness auto
termination
proof (relation "measure fst")
  fix sz count h :: nat
  assume "sz \<noteq> 0"
  moreover have "(1::nat) < 2 ^ (h + 1)" by (rule one_less_power) auto
  ultimately show "((sz - (2 ^ (h + 1) - 1), count + 2 ^ h), sz, count) \<in> measure fst"
    by simp
qed simp

declare leaf_count_loop.simps [simp del]

definition leaf_count_from_size :: "nat \<Rightarrow> (mmr_error, nat) result" where
  "leaf_count_from_size sz = leaf_count_loop sz 0"

subsection \<open>The greedy search\<close>

definition tree_nodes_count :: "nat \<Rightarrow> nat" where
  "tree_nodes_count h = 2 ^ (h + 1) - 1"

fun peak_positions :: "nat \<Rightarrow> nat list \<Rightarrow> nat list" where
  "peak_positions b [] = []"
| "peak_positions b (h # hs) =
     (b + tree_nodes_count h - 1) # peak_positions (b + tree_nodes_count h) hs"

definition forest_size :: "nat list \<Rightarrow> nat" where
  "forest_size hs = sum_list (map tree_nodes_count hs)"

text \<open>Heights decrease strictly, but for the last two, which may be equal.\<close>

fun peaks_ok :: "nat list \<Rightarrow> bool" where
  "peaks_ok [] = True"
| "peaks_ok [h] = True"
| "peaks_ok [h1, h2] = (h2 \<le> h1)"
| "peaks_ok (h1 # h2 # hs) = (h2 < h1 \<and> peaks_ok (h2 # hs))"

lemma tree_nodes_count_pos [simp]: "0 < tree_nodes_count h"
proof -
  have "(1::nat) < 2 ^ (h + 1)" by (rule one_less_power) auto
  then show ?thesis by (simp add: tree_nodes_count_def del: power_Suc)
qed

lemma tree_nodes_count_Suc: "tree_nodes_count (Suc h) = 2 * tree_nodes_count h + 1"
proof -
  define x :: nat where "x = 2 ^ h"
  have "1 \<le> x" by (simp add: x_def)
  moreover have "tree_nodes_count (Suc h) = 4 * x - 1" "tree_nodes_count h = 2 * x - 1"
    by (simp_all add: tree_nodes_count_def x_def)
  ultimately show ?thesis by linarith
qed

lemma tree_nodes_count_mono: "h \<le> h' \<Longrightarrow> tree_nodes_count h \<le> tree_nodes_count h'"
  using power_increasing [of "h + 1" "h' + 1" "2::nat"]
  by (simp add: tree_nodes_count_def diff_le_mono del: power_Suc)

lemma find_peaks_loop_Suc:
  "find_peaks_loop (Suc k) sz offset =
     (if sz = 0 then Inr []
      else res_bind (highest_peak sz) (\<lambda>h.
        if sz < tree_nodes_count h then Inr []
        else res_bind (find_peaks_loop k (sz - tree_nodes_count h) (offset + tree_nodes_count h))
               (\<lambda>ps. Inr ((offset + tree_nodes_count h - 1) # ps))))"
  by (simp only: find_peaks_loop.simps Let_def tree_nodes_count_def)

lemma leaf_count_loop_unfold:
  "leaf_count_loop sz count =
     (if sz = 0 then Inr count
      else case highest_peak sz of
        Inl e \<Rightarrow> Inl e
      | Inr h \<Rightarrow> if sz < tree_nodes_count h then Inl Panic
                 else leaf_count_loop (sz - tree_nodes_count h) (count + 2 ^ h))"
  by (subst leaf_count_loop.simps) (simp only: tree_nodes_count_def)

declare find_peaks_loop.simps(2) [simp del]

lemma forest_size_simps [simp]:
  "forest_size [] = 0"
  "forest_size (h # hs) = tree_nodes_count h + forest_size hs"
  "forest_size (xs @ ys) = forest_size xs + forest_size ys"
  by (simp_all add: forest_size_def)

lemma peak_positions_snoc:
  "peak_positions b (hs @ [h]) =
   peak_positions b hs @ [b + forest_size hs + tree_nodes_count h - 1]"
  by (induction hs arbitrary: b) (simp_all add: algebra_simps)

lemma length_peak_positions [simp]: "length (peak_positions b hs) = length hs"
  by (induction hs arbitrary: b) auto

lemma peaks_ok_tl: "peaks_ok (h # hs) \<Longrightarrow> peaks_ok hs"
  by (cases hs; cases "tl hs") auto

lemma peaks_ok_bound: "peaks_ok (h # hs) \<Longrightarrow> forest_size hs \<le> tree_nodes_count h"
proof (induction hs arbitrary: h)
  case (Cons h2 hs)
  show ?case
  proof (cases hs)
    case Nil
    with Cons.prems have "h2 \<le> h" by simp
    then show ?thesis using Nil by (simp add: tree_nodes_count_mono)
  next
    case (Cons h3 r)
    with Cons.prems have lt: "Suc h2 \<le> h" and ok: "peaks_ok (h2 # hs)" by simp_all
    have "forest_size (h2 # hs) \<le> 2 * tree_nodes_count h2"
      using Cons.IH [OF ok] by simp
    also have "\<dots> < tree_nodes_count (Suc h2)" by (simp add: tree_nodes_count_Suc)
    also have "\<dots> \<le> tree_nodes_count h"
      using lt by (rule tree_nodes_count_mono)
    finally show ?thesis by simp
  qed
qed simp

lemma peaks_ok_length: "peaks_ok (h # hs) \<Longrightarrow> length hs \<le> Suc h"
proof (induction hs arbitrary: h)
  case (Cons h2 hs)
  then show ?case by (cases hs) force+
qed simp

lemma peaks_ok_snoc:
  "sorted_wrt (>) hs \<Longrightarrow> (hs \<noteq> [] \<Longrightarrow> h \<le> last hs) \<Longrightarrow> peaks_ok (hs @ [h])"
proof (induction hs)
  case (Cons a hs)
  then have "peaks_ok (hs @ [h])" by (cases hs) auto
  with Cons.prems show ?case by (cases hs; cases "tl hs") auto
qed simp

lemma peaks_ok_sorted: "sorted_wrt (>) hs \<Longrightarrow> peaks_ok hs"
proof (induction hs)
  case (Cons a hs)
  then show ?case by (cases hs; cases "tl hs") auto
qed simp

lemma highest_peak_eq:
  assumes "tree_nodes_count h \<le> sz" "sz < tree_nodes_count (Suc h)" "sz + 1 < 2 ^ 64"
  shows "highest_peak sz = Inr h"
proof -
  have lo: "2 ^ Suc h \<le> sz + 1" and hi: "sz + 1 < 2 ^ Suc (Suc h)"
    using assms(1,2) by (simp_all add: tree_nodes_count_def)
  have bl: "bitlen (sz + 1) = Suc (Suc h)" using lo hi by (rule bitlen_eqI)
  have "(2::nat) ^ Suc h < 2 ^ 64" using lo assms(3) by linarith
  then have "Suc h < 64" by (rule power_less_imp_less_exp [rotated]) simp
  moreover have "sz \<noteq> 0" using assms(1) tree_nodes_count_pos [of h] by linarith
  ultimately show ?thesis
    using bl assms(3) by (simp add: highest_peak_def leading_zeros64_def)
qed

lemma highest_peak_forest:
  assumes "peaks_ok (h # hs)" "forest_size (h # hs) + 1 < 2 ^ 64"
  shows "highest_peak (forest_size (h # hs)) = Inr h"
  using peaks_ok_bound [OF assms(1)] assms(2)
  by (intro highest_peak_eq) (simp_all add: tree_nodes_count_Suc)

lemma forest_size_pos: "hs \<noteq> [] \<Longrightarrow> 0 < forest_size hs"
  by (cases hs) (simp_all add: tree_nodes_count_pos)

lemma find_peaks_loop_forest:
  "peaks_ok hs \<Longrightarrow> length hs \<le> k \<Longrightarrow> forest_size hs + 1 < 2 ^ 64 \<Longrightarrow>
   find_peaks_loop k (forest_size hs) b = Inr (peak_positions b hs)"
proof (induction k arbitrary: hs b)
  case (Suc k)
  show ?case
  proof (cases hs)
    case (Cons h r)
    have hp: "highest_peak (forest_size hs) = Inr h"
      using highest_peak_forest Suc.prems Cons by simp
    have "find_peaks_loop k (forest_size r) (b + tree_nodes_count h) =
        Inr (peak_positions (b + tree_nodes_count h) r)"
      using Suc.prems Cons by (intro Suc.IH) (auto dest: peaks_ok_tl)
    moreover have "forest_size hs \<noteq> 0" using forest_size_pos [of hs] Cons by simp
    ultimately show ?thesis
      using hp Cons by (simp add: find_peaks_loop_Suc)
  qed (simp add: find_peaks_loop_Suc)
qed simp

lemma forest_height_bound:
  assumes "forest_size (h # hs) + 1 < 2 ^ 64"
  shows "h < 63"
proof -
  have "tree_nodes_count h + 1 < 2 ^ 64" using assms by simp
  then have "(2::nat) ^ Suc h < 2 ^ 64" by (simp add: tree_nodes_count_def)
  then have "Suc h < 64" by (rule power_less_imp_less_exp [rotated]) simp
  then show ?thesis by simp
qed

lemma find_peaks_forest:
  assumes "peaks_ok hs" "forest_size hs + 1 < 2 ^ 64"
  shows "find_peaks (forest_size hs) = Inr (peak_positions 0 hs)"
proof -
  have "length hs \<le> 64"
  proof (cases hs)
    case (Cons h r)
    then show ?thesis
      using peaks_ok_length [of h r] forest_height_bound [of h r] assms by simp
  qed simp
  with assms show ?thesis by (simp add: find_peaks_def find_peaks_loop_forest)
qed

lemma leaf_count_loop_forest:
  "sorted_wrt (>) hs \<Longrightarrow> forest_size hs + 1 < 2 ^ 64 \<Longrightarrow>
   leaf_count_loop (forest_size hs) c = Inr (c + sum_list (map (\<lambda>h. 2 ^ h) hs))"
proof (induction hs arbitrary: c)
  case Nil
  show ?case by (subst leaf_count_loop.simps) simp
next
  case (Cons h hs)
  have hp: "highest_peak (forest_size (h # hs)) = Inr h"
    using Cons.prems by (intro highest_peak_forest peaks_ok_sorted)
  have ih: "leaf_count_loop (forest_size hs) (c + 2 ^ h) =
      Inr (c + 2 ^ h + sum_list (map (\<lambda>h. 2 ^ h) hs))"
    using Cons.prems by (intro Cons.IH) auto
  have "forest_size (h # hs) \<noteq> 0" using forest_size_pos [of "h # hs"] by simp
  then show ?case
    using hp ih
    by (subst leaf_count_loop_unfold) simp
qed

end
