(* ===== verification/Mmr_Proof.thy ===== *)
theory Mmr_Proof
  imports Mmr_Peaks
begin

text \<open>
  Inclusion and range proofs (\<open>crates/cpoe/src/mmr/proof.rs\<close>): the proof records, their
  stateless verification and their versioned binary formats.
\<close>

definition PROOF_VERSION :: byte where "PROOF_VERSION = 1"
definition PROOF_TYPE_INCLUSION :: byte where "PROOF_TYPE_INCLUSION = 0x01"
definition PROOF_TYPE_RANGE :: byte where "PROOF_TYPE_RANGE = 0x02"

record proof_element =
  pe_hash :: bytes
  pe_is_left :: bool

record inclusion_proof =
  ip_leaf_index :: nat
  ip_leaf_hash :: bytes
  ip_merkle_path :: "proof_element list"
  ip_peaks :: "bytes list"
  ip_peak_position :: nat
  ip_mmr_size :: nat
  ip_root :: bytes

record range_proof =
  rp_start_leaf :: nat
  rp_end_leaf :: nat
  rp_leaf_indices :: "nat list"
  rp_leaf_hashes :: "bytes list"
  rp_sibling_path :: "proof_element list"
  rp_peaks :: "bytes list"
  rp_peak_position :: nat
  rp_mmr_size :: nat
  rp_root :: bytes

subsection \<open>Verification of an inclusion proof\<close>

text \<open>The loop over the Merkle path; the height is a \<open>u8\<close> that saturates.\<close>

fun path_fold :: "(bytes \<Rightarrow> bytes) \<Rightarrow> bytes \<Rightarrow> nat \<Rightarrow> proof_element list \<Rightarrow> bytes" where
  "path_fold sha current height [] = current"
| "path_fold sha current height (elem # path) =
     path_fold sha
       (if pe_is_left elem then hash_internal sha height (pe_hash elem) current
        else hash_internal sha height current (pe_hash elem))
       (min 255 (height + 1)) path"

text \<open>Peak bagging from the right, for a non-empty list of peaks.\<close>

definition bag_peaks :: "(bytes \<Rightarrow> bytes) \<Rightarrow> bytes list \<Rightarrow> bytes" where
  "bag_peaks sha peaks = foldr (\<lambda>peak root. hash_bag sha peak root) (butlast peaks) (last peaks)"

definition inclusion_verify ::
    "(bytes \<Rightarrow> bytes) \<Rightarrow> inclusion_proof \<Rightarrow> bytes \<Rightarrow> (mmr_error, unit) result" where
  "inclusion_verify sha p leaf_data =
     (if hash_leaf sha (ip_leaf_index p) leaf_data \<noteq> ip_leaf_hash p then Inl HashMismatch
      else
        let current = path_fold sha (ip_leaf_hash p) 1 (ip_merkle_path p) in
        if length (ip_peaks p) \<le> ip_peak_position p then Inl InvalidProof
        else if current \<noteq> ip_peaks p ! ip_peak_position p then Inl InvalidProof
        else if length (ip_peaks p) = 1 then
          (if ip_peaks p ! 0 \<noteq> ip_root p then Inl InvalidProof else Inr ())
        else if bag_peaks sha (ip_peaks p) \<noteq> ip_root p then Inl InvalidProof
        else Inr ())"

subsection \<open>The inclusion format\<close>

definition path_bytes :: "proof_element list \<Rightarrow> bytes" where
  "path_bytes path = concat (map (\<lambda>e. pe_hash e @ [if pe_is_left e then 1 else 0]) path)"

definition inclusion_serialize :: "inclusion_proof \<Rightarrow> (mmr_error, bytes) result" where
  "inclusion_serialize p =
     (if 2 ^ 16 \<le> length (ip_merkle_path p) then Inl ProofTooLarge
      else if 2 ^ 16 \<le> length (ip_peaks p) then Inl ProofTooLarge
      else if 2 ^ 16 \<le> ip_peak_position p then Inl ProofTooLarge
      else Inr ([PROOF_VERSION] @ [PROOF_TYPE_INCLUSION] @ be 8 (ip_leaf_index p) @
        ip_leaf_hash p @ be 2 (length (ip_merkle_path p)) @ path_bytes (ip_merkle_path p) @
        be 2 (length (ip_peaks p)) @ concat (ip_peaks p) @ be 2 (ip_peak_position p) @
        be 8 (ip_mmr_size p) @ ip_root p))"

text \<open>The three reading loops of the deserializers. Each returns what it read and the new
  offset; running past the end is \<open>InvalidNodeData\<close>.\<close>

fun read_path :: "nat \<Rightarrow> bytes \<Rightarrow> nat \<Rightarrow> (mmr_error, proof_element list \<times> nat) result" where
  "read_path 0 data offset = Inr ([], offset)"
| "read_path (Suc k) data offset =
     (if length data < offset + 33 then Inl InvalidNodeData
      else res_bind (read_path k data (offset + 33)) (\<lambda>(es, off).
        Inr (\<lparr>pe_hash = slice offset (offset + 32) data,
              pe_is_left = (data ! (offset + 32) = 1)\<rparr> # es, off)))"

fun read_hashes :: "nat \<Rightarrow> bytes \<Rightarrow> nat \<Rightarrow> (mmr_error, bytes list \<times> nat) result" where
  "read_hashes 0 data offset = Inr ([], offset)"
| "read_hashes (Suc k) data offset =
     (if length data < offset + 32 then Inl InvalidNodeData
      else res_bind (read_hashes k data (offset + 32)) (\<lambda>(hs, off).
        Inr (slice offset (offset + 32) data # hs, off)))"

fun read_u64s :: "nat \<Rightarrow> bytes \<Rightarrow> nat \<Rightarrow> (mmr_error, nat list \<times> nat) result" where
  "read_u64s 0 data offset = Inr ([], offset)"
| "read_u64s (Suc k) data offset =
     (if length data < offset + 8 then Inl InvalidNodeData
      else res_bind (read_u64s k data (offset + 8)) (\<lambda>(is, off).
        Inr (be_val (slice offset (offset + 8) data) # is, off)))"

definition inclusion_deserialize :: "bytes \<Rightarrow> (mmr_error, inclusion_proof) result" where
  "inclusion_deserialize data =
     (if length data < 86 then Inl InvalidNodeData
      else if data ! 0 \<noteq> PROOF_VERSION then Inl InvalidProof
      else if data ! 1 \<noteq> PROOF_TYPE_INCLUSION then Inl InvalidProof
      else
        let leaf_index = be_val (slice 2 10 data);
            leaf_hash = slice 10 42 data;
            path_len = be_val (slice 42 44 data)
        in if length data < 44 + path_len * 33 then Inl InvalidNodeData
        else res_bind (read_path path_len data 44) (\<lambda>(merkle_path, off1).
          if length data < off1 + 2 then Inl InvalidNodeData
          else res_bind (read_hashes (be_val (slice off1 (off1 + 2) data)) data (off1 + 2))
            (\<lambda>(peaks, off2).
          if length data < off2 + 2 then Inl InvalidNodeData
          else
            let peak_position = be_val (slice off2 (off2 + 2) data); off3 = off2 + 2 in
            if peaks = [] \<or> length peaks \<le> peak_position then Inl InvalidProof
            else if length data < off3 + 8 + 32 then Inl InvalidNodeData
            else Inr \<lparr>ip_leaf_index = leaf_index, ip_leaf_hash = leaf_hash,
                      ip_merkle_path = merkle_path, ip_peaks = peaks,
                      ip_peak_position = peak_position,
                      ip_mmr_size = be_val (slice off3 (off3 + 8) data),
                      ip_root = slice (off3 + 8) (off3 + 40) data\<rparr>)))"

subsection \<open>Verification of a range proof\<close>

fun check_leaf_hashes ::
    "(bytes \<Rightarrow> bytes) \<Rightarrow> nat list \<Rightarrow> bytes list \<Rightarrow> bytes list \<Rightarrow> (mmr_error, unit) result" where
  "check_leaf_hashes sha is hs [] = Inr ()"
| "check_leaf_hashes sha (i # is) (h # hs) (d # ds) =
     (if hash_leaf sha i d \<noteq> h then Inl HashMismatch else check_leaf_hashes sha is hs ds)"
| "check_leaf_hashes sha is hs (d # ds) = Inl Panic"

text \<open>One position of one level: either it is carried to the next level, or it is combined with
  a sibling known at this level or taken from the sibling path. The state is the next level,
  the positions already processed, and the number of siblings used.\<close>

definition range_combine ::
    "(bytes \<Rightarrow> bytes) \<Rightarrow> nat list \<Rightarrow> proof_element list \<Rightarrow> (nat \<times> bytes) list \<Rightarrow> nat \<Rightarrow>
     nat \<Rightarrow> bytes \<Rightarrow> (nat \<times> bytes) list \<Rightarrow> nat list \<Rightarrow> nat \<Rightarrow>
     (mmr_error, (nat \<times> bytes) list \<times> nat list \<times> nat) result" where
  "range_combine sha peak_set path current height pos hash next_level processed sibling_idx =
     (if 64 \<le> height + 1 then Inl InvalidProof
      else let offset = 2 ^ (height + 1); parent_height = height + 1 in
      if 2 ^ 64 \<le> pos + offset then Inl InvalidProof
      else let left_parent = pos + offset; right_sibling = left_parent - 1 in
      case map_of current right_sibling of
        Some sib_hash \<Rightarrow>
          if right_sibling \<noteq> pos then
            Inr (bt_insert left_parent (hash_internal sha parent_height hash sib_hash) next_level,
                 pos # right_sibling # processed, sibling_idx)
          else Inr (bt_insert pos hash next_level, pos # processed, sibling_idx)
      | None \<Rightarrow>
          if 2 ^ 64 \<le> pos + 1 then Inl InvalidProof
          else let right_parent = pos + 1 in
          if offset \<le> right_parent then
            (case map_of current (right_parent - offset) of
               Some sib_hash \<Rightarrow>
                 Inr (bt_insert right_parent (hash_internal sha parent_height sib_hash hash) next_level,
                      pos # (right_parent - offset) # processed, sibling_idx)
             | None \<Rightarrow>
                 if length path \<le> sibling_idx then
                   Inr (bt_insert pos hash next_level, pos # processed, sibling_idx)
                 else
                   let elem = path ! sibling_idx in
                   if pe_is_left elem then
                     Inr (bt_insert right_parent
                            (hash_internal sha parent_height (pe_hash elem) hash) next_level,
                          pos # processed, sibling_idx + 1)
                   else
                     Inr (bt_insert left_parent
                            (hash_internal sha parent_height hash (pe_hash elem)) next_level,
                          pos # processed, sibling_idx + 1))
          else if length path \<le> sibling_idx then
            Inr (bt_insert pos hash next_level, pos # processed, sibling_idx)
          else
            let elem = path ! sibling_idx in
            Inr (bt_insert left_parent
                   (if pe_is_left elem then hash_internal sha parent_height (pe_hash elem) hash
                    else hash_internal sha parent_height hash (pe_hash elem)) next_level,
                 pos # processed, sibling_idx + 1))"

fun range_level ::
    "(bytes \<Rightarrow> bytes) \<Rightarrow> nat list \<Rightarrow> proof_element list \<Rightarrow> (nat \<times> bytes) list \<Rightarrow> nat \<Rightarrow>
     (nat \<times> bytes) list \<Rightarrow> (nat \<times> bytes) list \<Rightarrow> nat list \<Rightarrow> nat \<Rightarrow>
     (mmr_error, (nat \<times> bytes) list \<times> nat) result" where
  "range_level sha peak_set path current height [] next_level processed sibling_idx =
     Inr (next_level, sibling_idx)"
| "range_level sha peak_set path current height ((pos, hash) # todo) next_level processed sibling_idx =
     (if pos \<in> set processed then
        range_level sha peak_set path current height todo next_level processed sibling_idx
      else if pos \<in> set peak_set then
        range_level sha peak_set path current height todo
          (bt_insert pos hash next_level) (pos # processed) sibling_idx
      else res_bind
        (range_combine sha peak_set path current height pos hash next_level processed sibling_idx)
        (\<lambda>(next', processed', sibling_idx').
          range_level sha peak_set path current height todo next' processed' sibling_idx'))"

function range_loop ::
    "(bytes \<Rightarrow> bytes) \<Rightarrow> nat list \<Rightarrow> proof_element list \<Rightarrow> (nat \<times> bytes) list \<Rightarrow> nat \<Rightarrow> nat \<Rightarrow>
     (mmr_error, (nat \<times> bytes) list \<times> nat) result" where
  "range_loop sha peak_set path current height sibling_idx =
     (if \<not> (1 < length current \<or> sibling_idx < length path) then Inr (current, sibling_idx)
      else if (\<forall>p \<in> set current. fst p \<in> set peak_set) \<and> sibling_idx = length path
        then Inr (current, sibling_idx)
      else if 63 \<le> height then Inl InvalidProof
      else case range_level sha peak_set path current height current [] [] sibling_idx of
        Inl e \<Rightarrow> Inl e
      | Inr (next_level, sibling_idx') \<Rightarrow>
          if next_level = [] then Inr (current, sibling_idx')
          else range_loop sha peak_set path next_level (height + 1) sibling_idx')"
  by pat_completeness auto
termination
  by (relation "measure (\<lambda>(sha, peak_set, path, current, height, sibling_idx). 63 - height)") auto

declare range_loop.simps [simp del]

fun range_match_peaks ::
    "nat list \<Rightarrow> bytes list \<Rightarrow> (nat \<times> bytes) list \<Rightarrow> (mmr_error, unit) result" where
  "range_match_peaks peak_set peaks [] = Inr ()"
| "range_match_peaks peak_set peaks ((pos, hash) # rest) =
     (case index_of pos peak_set of
        None \<Rightarrow> Inl InvalidProof
      | Some peak_idx \<Rightarrow>
          if length peaks \<le> peak_idx \<or> hash \<noteq> peaks ! peak_idx then Inl InvalidProof
          else range_match_peaks peak_set peaks rest)"

text \<open>The part after the leaf checks: rebuild the peaks, compare, bag.\<close>

definition range_rebuild ::
    "(bytes \<Rightarrow> bytes) \<Rightarrow> range_proof \<Rightarrow> (mmr_error, unit) result" where
  "range_rebuild sha p =
     res_bind (find_peaks (rp_mmr_size p)) (\<lambda>peaks_idx.
       let peak_set = sort (remdups peaks_idx);
           current0 = fold (\<lambda>(i, h) m. bt_insert i h m)
                        (zip (rp_leaf_indices p) (rp_leaf_hashes p)) []
       in res_bind (range_loop sha peak_set (rp_sibling_path p) current0 0 0)
            (\<lambda>(current, sibling_idx).
          if current = [] then Inl InvalidProof
          else if sibling_idx \<noteq> length (rp_sibling_path p) then Inl InvalidProof
          else res_bind (range_match_peaks peak_set (rp_peaks p) current) (\<lambda>_.
            if rp_peaks p = [] then Inl Panic
            else if length (rp_peaks p) = 1 then
              (if rp_peaks p ! 0 \<noteq> rp_root p then Inl InvalidProof else Inr ())
            else if bag_peaks sha (rp_peaks p) \<noteq> rp_root p then Inl InvalidProof
            else Inr ())))"

definition range_verify ::
    "(bytes \<Rightarrow> bytes) \<Rightarrow> range_proof \<Rightarrow> bytes list \<Rightarrow> (mmr_error, unit) result" where
  "range_verify sha p leaf_data =
     (if rp_end_leaf p < rp_start_leaf p then Inl InvalidProof
      else if 2 ^ 64 \<le> rp_end_leaf p - rp_start_leaf p + 1 then Inl InvalidProof
      else let expected = rp_end_leaf p - rp_start_leaf p + 1 in
      if length leaf_data \<noteq> expected then Inl InvalidProof
      else if length (rp_leaf_hashes p) \<noteq> expected then Inl InvalidProof
      else res_bind (check_leaf_hashes sha (rp_leaf_indices p) (rp_leaf_hashes p) leaf_data) (\<lambda>_.
        if length (rp_leaf_indices p) \<noteq> length (rp_leaf_hashes p) then Inl InvalidProof
        else if \<not> distinct (rp_leaf_indices p) then Inl InvalidProof
        else range_rebuild sha p))"

subsection \<open>The range format\<close>

text \<open>The buffer is sized by the number of leaf hashes: with more indices than hashes the last
  copies run past its end, with fewer it keeps zero bytes at the end.\<close>

definition range_serialize :: "range_proof \<Rightarrow> (mmr_error, bytes) result" where
  "range_serialize p =
     (if 2 ^ 16 \<le> length (rp_leaf_hashes p) then Inl ProofTooLarge
      else if 2 ^ 16 \<le> length (rp_sibling_path p) then Inl ProofTooLarge
      else if 2 ^ 16 \<le> length (rp_peaks p) then Inl ProofTooLarge
      else if 2 ^ 16 \<le> rp_peak_position p then Inl ProofTooLarge
      else if length (rp_leaf_hashes p) < length (rp_leaf_indices p) then Inl Panic
      else Inr ([PROOF_VERSION] @ [PROOF_TYPE_RANGE] @ be 8 (rp_start_leaf p) @
        be 8 (rp_end_leaf p) @ be 2 (length (rp_leaf_hashes p)) @
        concat (map (be 8) (rp_leaf_indices p)) @ concat (rp_leaf_hashes p) @
        be 2 (length (rp_sibling_path p)) @ path_bytes (rp_sibling_path p) @
        be 2 (length (rp_peaks p)) @ concat (rp_peaks p) @ be 2 (rp_peak_position p) @
        be 8 (rp_mmr_size p) @ rp_root p @
        replicate (8 * (length (rp_leaf_hashes p) - length (rp_leaf_indices p))) 0))"

text \<open>The tail of the format, from the sibling path on, and the checks on the declared range.\<close>

definition range_deserialize_tail ::
    "bytes \<Rightarrow> nat \<Rightarrow> nat \<Rightarrow> nat list \<Rightarrow> bytes list \<Rightarrow> nat \<Rightarrow> (mmr_error, range_proof) result" where
  "range_deserialize_tail data start_leaf end_leaf leaf_indices leaf_hashes off0 =
     (if length data < off0 + 2 then Inl InvalidNodeData
      else res_bind (read_path (be_val (slice off0 (off0 + 2) data)) data (off0 + 2))
        (\<lambda>(sibling_path, off1).
      if length data < off1 + 2 then Inl InvalidNodeData
      else res_bind (read_hashes (be_val (slice off1 (off1 + 2) data)) data (off1 + 2))
        (\<lambda>(peaks, off2).
      if length data < off2 + 2 then Inl InvalidNodeData
      else
        let peak_position = be_val (slice off2 (off2 + 2) data); off3 = off2 + 2 in
        if peaks = [] \<or> length peaks \<le> peak_position then Inl InvalidProof
        else if length leaf_indices \<noteq> length leaf_hashes then Inl InvalidProof
        else if end_leaf < start_leaf then Inl InvalidProof
        else if 2 ^ 64 \<le> end_leaf - start_leaf + 1 then Inl Panic
        else if length leaf_indices \<noteq> end_leaf - start_leaf + 1 then Inl InvalidProof
        else if length data < off3 + 8 + 32 then Inl InvalidNodeData
        else Inr \<lparr>rp_start_leaf = start_leaf, rp_end_leaf = end_leaf,
                  rp_leaf_indices = leaf_indices, rp_leaf_hashes = leaf_hashes,
                  rp_sibling_path = sibling_path, rp_peaks = peaks,
                  rp_peak_position = peak_position,
                  rp_mmr_size = be_val (slice off3 (off3 + 8) data),
                  rp_root = slice (off3 + 8) (off3 + 40) data\<rparr>)))"

definition range_deserialize :: "bytes \<Rightarrow> (mmr_error, range_proof) result" where
  "range_deserialize data =
     (if length data < 64 then Inl InvalidNodeData
      else if data ! 0 \<noteq> PROOF_VERSION then Inl InvalidProof
      else if data ! 1 \<noteq> PROOF_TYPE_RANGE then Inl InvalidProof
      else
        let start_leaf = be_val (slice 2 10 data);
            end_leaf = be_val (slice 10 18 data);
            leaves_len = be_val (slice 18 20 data)
        in res_bind (read_u64s leaves_len data 20) (\<lambda>(leaf_indices, off1).
           res_bind (read_hashes leaves_len data off1) (\<lambda>(leaf_hashes, off2).
             range_deserialize_tail data start_leaf end_leaf leaf_indices leaf_hashes off2)))"

subsection \<open>Typing\<close>

text \<open>The Rust types of a proof: a \<open>u64\<close> index, hashes of 32 bytes.\<close>

definition proof_typed :: "inclusion_proof \<Rightarrow> bool" where
  "proof_typed p \<longleftrightarrow> ip_leaf_index p < 2 ^ 64 \<and> ip_mmr_size p < 2 ^ 64 \<and>
     length (ip_leaf_hash p) = 32 \<and> length (ip_root p) = 32 \<and>
     list_all (\<lambda>e. length (pe_hash e) = 32) (ip_merkle_path p) \<and>
     list_all (\<lambda>h. length h = 32) (ip_peaks p)"

definition range_typed :: "range_proof \<Rightarrow> bool" where
  "range_typed p \<longleftrightarrow> rp_start_leaf p < 2 ^ 64 \<and> rp_end_leaf p < 2 ^ 64 \<and> rp_mmr_size p < 2 ^ 64 \<and>
     list_all (\<lambda>i. i < 2 ^ 64) (rp_leaf_indices p) \<and>
     list_all (\<lambda>h. length h = 32) (rp_leaf_hashes p) \<and>
     list_all (\<lambda>e. length (pe_hash e) = 32) (rp_sibling_path p) \<and>
     list_all (\<lambda>h. length h = 32) (rp_peaks p) \<and> length (rp_root p) = 32"

end
