(* ===== verification/Mmr_Core.thy ===== *)
theory Mmr_Core
  imports Mmr_Store Mmr_Proof
begin

text \<open>
  The Merkle Mountain Range itself (\<open>struct Mmr\<close> of \<open>crates/cpoe/src/mmr/mmr.rs\<close>): appending,
  the root, and the generation of inclusion and range proofs, over any store given by its
  record of operations. Every operation threads the store, since a read may flush it.
\<close>

record peak =
  pk_index :: nat
  pk_hash :: bytes

record 's mmr =
  st_store :: 's
  st_size :: nat
  st_peaks :: "peak list"

subsection \<open>Opening and appending\<close>

fun load_peaks :: "'s store_ops \<Rightarrow> nat list \<Rightarrow> ('s, mmr_error, peak list) op" where
  "load_peaks ops [] = op_return []"
| "load_peaks ops (idx # indices) =
     op_bind (op_get ops idx) (\<lambda>n.
       op_bind (load_peaks ops indices) (\<lambda>ps.
         op_return (\<lparr>pk_index = idx, pk_hash = node_hash n\<rparr> # ps)))"

definition mmr_new :: "'s store_ops \<Rightarrow> 's \<Rightarrow> (mmr_error, 's mmr) result" where
  "mmr_new ops store =
     res_bind (op_size ops store) (\<lambda>sz.
       if sz = 0 then Inr \<lparr>st_store = store, st_size = sz, st_peaks = []\<rparr>
       else res_bind (find_peaks sz) (\<lambda>indices.
         case load_peaks ops indices store of
           (_, Inl e) \<Rightarrow> Inl e
         | (store', Inr peaks) \<Rightarrow> Inr \<lparr>st_store = store', st_size = sz, st_peaks = peaks\<rparr>))"

definition reload_peaks ::
    "'s store_ops \<Rightarrow> nat list \<Rightarrow> 's mmr \<Rightarrow> 's mmr \<times> (mmr_error, unit) result" where
  "reload_peaks ops indices st =
     (case load_peaks ops indices (st_store st) of
        (s, Inl e) \<Rightarrow> (st\<lparr>st_store := s\<rparr>, Inl e)
      | (s, Inr ps) \<Rightarrow> (st\<lparr>st_store := s, st_peaks := ps\<rparr>, Inr ()))"

text \<open>The merging loop of \<open>append\<close>. It ends because the size is a \<open>u64\<close>: an increment that
  leaves the type panics.\<close>

function append_loop ::
    "'s store_ops \<Rightarrow> (bytes \<Rightarrow> bytes) \<Rightarrow> 's mmr \<Rightarrow> 's mmr \<times> (mmr_error, unit) result" where
  "append_loop ops sha st =
     (case find_peaks (st_size st) of
        Inl e \<Rightarrow> (st, Inl e)
      | Inr peak_indices \<Rightarrow>
          if length peak_indices < 2 then
            (if (length (st_peaks st) \<noteq> length peak_indices \<or>
                 list_ex (\<lambda>(p, i). pk_index p \<noteq> i) (zip (st_peaks st) peak_indices)) \<or>
                st_size st = 1
             then reload_peaks ops peak_indices st
             else (st, Inr ()))
          else
            (case op_get ops (peak_indices ! (length peak_indices - 1)) (st_store st) of
               (s1, Inl e) \<Rightarrow> (st\<lparr>st_store := s1\<rparr>, Inl e)
             | (s1, Inr last_node) \<Rightarrow>
                 (case op_get ops (peak_indices ! (length peak_indices - 2)) s1 of
                    (s2, Inl e) \<Rightarrow> (st\<lparr>st_store := s2\<rparr>, Inl e)
                  | (s2, Inr prev) \<Rightarrow>
                      if node_height last_node \<noteq> node_height prev then
                        reload_peaks ops peak_indices (st\<lparr>st_store := s2\<rparr>)
                      else if 255 \<le> node_height last_node then (st\<lparr>st_store := s2\<rparr>, Inl Panic)
                      else
                        (case op_append ops
                           (new_internal sha (st_size st) (node_height last_node + 1) prev last_node) s2 of
                           (s3, Inl e) \<Rightarrow> (st\<lparr>st_store := s3\<rparr>, Inl e)
                         | (s3, Inr _) \<Rightarrow>
                             if 2 ^ 64 \<le> st_size st + 1 then (st\<lparr>st_store := s3\<rparr>, Inl Panic)
                             else append_loop ops sha (st\<lparr>st_store := s3, st_size := st_size st + 1\<rparr>)))))"
  by pat_completeness auto
termination
  by (relation "measure (\<lambda>(ops, sha, st). 2 ^ 64 - st_size st)") auto

declare append_loop.simps [simp del]

definition mmr_append ::
    "'s store_ops \<Rightarrow> (bytes \<Rightarrow> bytes) \<Rightarrow> bytes \<Rightarrow> 's mmr \<Rightarrow> 's mmr \<times> (mmr_error, nat) result" where
  "mmr_append ops sha data st =
     (let leaf_index = st_size st in
      case op_append ops (new_leaf sha leaf_index data) (st_store st) of
        (s, Inl e) \<Rightarrow> (st\<lparr>st_store := s\<rparr>, Inl e)
      | (s, Inr _) \<Rightarrow>
          if 2 ^ 64 \<le> st_size st + 1 then (st\<lparr>st_store := s\<rparr>, Inl Panic)
          else (case append_loop ops sha (st\<lparr>st_store := s, st_size := st_size st + 1\<rparr>) of
                  (st', Inl e) \<Rightarrow> (st', Inl e)
                | (st', Inr _) \<Rightarrow> (st', Inr leaf_index)))"

subsection \<open>Queries\<close>

definition get_peaks :: "'s mmr \<Rightarrow> bytes list" where
  "get_peaks st = map pk_hash (st_peaks st)"

definition get_root :: "(bytes \<Rightarrow> bytes) \<Rightarrow> 's mmr \<Rightarrow> (mmr_error, bytes) result" where
  "get_root sha st =
     (if st_peaks st = [] then Inl Empty
      else if length (st_peaks st) = 1 then Inr (pk_hash (st_peaks st ! 0))
      else Inr (bag_peaks sha (get_peaks st)))"

definition leaf_count :: "'s mmr \<Rightarrow> (mmr_error, nat) result" where
  "leaf_count st = leaf_count_from_size (st_size st)"

definition mmr_sync :: "'s store_ops \<Rightarrow> 's mmr \<Rightarrow> 's mmr \<times> (mmr_error, unit) result" where
  "mmr_sync ops st = (case op_sync ops (st_store st) of (s, r) \<Rightarrow> (st\<lparr>st_store := s\<rparr>, r))"

definition mmr_get :: "'s store_ops \<Rightarrow> nat \<Rightarrow> 's mmr \<Rightarrow> 's mmr \<times> (mmr_error, node) result" where
  "mmr_get ops index st =
     (if st_size st \<le> index then (st, Inl IndexOutOfRange)
      else case op_get ops index (st_store st) of (s, r) \<Rightarrow> (st\<lparr>st_store := s\<rparr>, r))"

text \<open>The position of the \<open>n\<close>-th leaf is \<open>2 n - popcount n\<close>.\<close>

definition leaf_position :: "nat \<Rightarrow> (mmr_error, nat) result" where
  "leaf_position ordinal =
     (if 2 ^ 64 \<le> ordinal * 2 then Inl IndexOutOfRange
      else Inr (ordinal * 2 - popcount ordinal))"

definition get_leaf_index :: "nat \<Rightarrow> 's mmr \<Rightarrow> (mmr_error, nat) result" where
  "get_leaf_index leaf_ordinal st =
     (if st_size st = 0 then Inl Empty
      else res_bind (leaf_count_from_size (st_size st)) (\<lambda>count.
        if count \<le> leaf_ordinal then Inl IndexOutOfRange
        else leaf_position leaf_ordinal))"

fun leaf_positions :: "nat list \<Rightarrow> (mmr_error, nat list) result" where
  "leaf_positions [] = Inr []"
| "leaf_positions (ordinal # ordinals) =
     res_bind (leaf_position ordinal) (\<lambda>i. res_bind (leaf_positions ordinals) (\<lambda>is. Inr (i # is)))"

definition get_leaf_indices :: "nat \<Rightarrow> nat \<Rightarrow> nat \<Rightarrow> (mmr_error, nat list) result" where
  "get_leaf_indices sz start end_leaf =
     (if end_leaf < start then Inl InvalidProof
      else res_bind (leaf_count_from_size sz) (\<lambda>count.
        if count \<le> end_leaf then Inl IndexOutOfRange
        else leaf_positions [start..<end_leaf + 1]))"

subsection \<open>Families\<close>

text \<open>The result of \<open>find_family\<close>: sibling position, parent position, whether the node is the
  right child, and whether a family was found.\<close>

type_synonym family = "nat \<times> nat \<times> bool \<times> bool"

definition no_family :: family where
  "no_family = (0, 0, False, False)"

definition family_left ::
    "'s store_ops \<Rightarrow> nat \<Rightarrow> nat \<Rightarrow> nat \<Rightarrow> nat \<Rightarrow> ('s, mmr_error, family option) op" where
  "family_left ops pos height sz left_parent =
     (let right_sibling = left_parent - 1 in
      if right_sibling < sz \<and> right_sibling \<noteq> pos then
        op_bind (op_get ops right_sibling) (\<lambda>right_node.
          if node_height right_node = height \<and> left_parent < sz then
            op_bind (op_get ops left_parent) (\<lambda>parent.
              if node_height parent = height + 1
              then op_return (Some (right_sibling, left_parent, False, True))
              else op_return None)
          else op_return None)
      else op_return None)"

definition family_right ::
    "'s store_ops \<Rightarrow> nat \<Rightarrow> nat \<Rightarrow> nat \<Rightarrow> nat \<Rightarrow> nat \<Rightarrow> ('s, mmr_error, family) op" where
  "family_right ops pos height sz offset right_parent =
     (if offset \<le> right_parent then
        (let left_sibling = right_parent - offset in
         if left_sibling < sz \<and> left_sibling \<noteq> pos then
           op_bind (op_get ops left_sibling) (\<lambda>left_node.
             if node_height left_node = height \<and> right_parent < sz then
               op_bind (op_get ops right_parent) (\<lambda>parent.
                 if node_height parent = height + 1
                 then op_return (left_sibling, right_parent, True, True)
                 else op_return no_family)
             else op_return no_family)
         else op_return no_family)
      else op_return no_family)"

definition find_family ::
    "'s store_ops \<Rightarrow> nat \<Rightarrow> nat \<Rightarrow> nat \<Rightarrow> ('s, mmr_error, family) op" where
  "find_family ops pos height sz =
     (if 63 \<le> height then op_return no_family
      else let offset = 2 ^ (height + 1) in
      if 2 ^ 64 \<le> pos + offset then op_return no_family
      else op_bind (family_left ops pos height sz (pos + offset)) (\<lambda>found.
        case found of
          Some fam \<Rightarrow> op_return fam
        | None \<Rightarrow>
            if 2 ^ 64 \<le> pos + 1 then op_return no_family
            else family_right ops pos height sz offset (pos + 1)))"

lemma find_family_height: "find_family ops pos height sz s = (s', Inr (a, b, c, True)) \<Longrightarrow> height < 63"
  by (cases "height < 63") (auto simp: find_family_def op_return_def no_family_def)

subsection \<open>Merkle paths and inclusion proofs\<close>

function merkle_path_loop ::
    "'s store_ops \<Rightarrow> nat \<Rightarrow> nat \<Rightarrow> nat \<Rightarrow> proof_element list \<Rightarrow> 's \<Rightarrow>
     's \<times> (mmr_error, proof_element list \<times> nat) result" where
  "merkle_path_loop ops sz pos height path s =
     (case find_family ops pos height sz s of
        (s1, Inl e) \<Rightarrow> (s1, Inl e)
      | (s1, Inr (sibling_pos, parent_pos, is_right_child, found)) \<Rightarrow>
          if \<not> found then (s1, Inr (path, pos))
          else (case op_get ops sibling_pos s1 of
                  (s2, Inl e) \<Rightarrow> (s2, Inl e)
                | (s2, Inr sibling) \<Rightarrow>
                    merkle_path_loop ops sz parent_pos (height + 1)
                      (path @ [\<lparr>pe_hash = node_hash sibling, pe_is_left = is_right_child\<rparr>]) s2))"
  by pat_completeness auto
termination
proof (relation "measure (\<lambda>(ops, sz, pos, height, path, s). 63 - height)", goal_cases)
  case (2 ops sz pos height path s s1 r f a x b y c found s2 r' n)
  then have "found" and "find_family ops pos height sz s = (s1, Inr (a, b, c, found))" by simp_all
  then have "height < 63" using find_family_height by metis
  then show ?case by simp
qed simp

declare merkle_path_loop.simps [simp del]

definition generate_merkle_path ::
    "'s store_ops \<Rightarrow> nat \<Rightarrow> nat \<Rightarrow> ('s, mmr_error, proof_element list \<times> nat) op" where
  "generate_merkle_path ops leaf_index sz =
     op_bind (op_get ops leaf_index) (\<lambda>n.
       merkle_path_loop ops sz leaf_index (node_height n) [])"

text \<open>The part of proof generation that touches the store: the leaf node and its path.\<close>

definition generate_proof ::
    "'s store_ops \<Rightarrow> (bytes \<Rightarrow> bytes) \<Rightarrow> nat \<Rightarrow> 's mmr \<Rightarrow>
     's mmr \<times> (mmr_error, inclusion_proof) result" where
  "generate_proof ops sha leaf_index st =
     (if st_size st = 0 then (st, Inl Empty)
      else if st_size st \<le> leaf_index then (st, Inl IndexOutOfRange)
      else case op_bind (op_get ops leaf_index) (\<lambda>n.
             if node_height n \<noteq> 0 then op_fail InvalidProof
             else op_bind (generate_merkle_path ops leaf_index (st_size st))
                    (\<lambda>(path, peak_index). op_return (n, path, peak_index))) (st_store st) of
        (s, Inl e) \<Rightarrow> (st\<lparr>st_store := s\<rparr>, Inl e)
      | (s, Inr (n, path, peak_index)) \<Rightarrow>
          (st\<lparr>st_store := s\<rparr>,
           res_bind (find_peaks (st_size st)) (\<lambda>peak_indices.
             case index_of peak_index peak_indices of
               None \<Rightarrow> Inl InvalidProof
             | Some peak_position \<Rightarrow>
                 res_bind (get_root sha st) (\<lambda>root.
                   Inr \<lparr>ip_leaf_index = leaf_index, ip_leaf_hash = node_hash n,
                        ip_merkle_path = path, ip_peaks = get_peaks st,
                        ip_peak_position = peak_position, ip_mmr_size = st_size st,
                        ip_root = root\<rparr>))))"

subsection \<open>Range proofs\<close>

text \<open>One level of the range path: the positions of the level in order, with the positions of
  the next level, the parents seen, the covered positions, the path and the last position
  without a family.\<close>

fun range_path_level ::
    "'s store_ops \<Rightarrow> nat \<Rightarrow> nat \<Rightarrow> nat list \<Rightarrow> nat list \<Rightarrow> nat list \<Rightarrow> nat set \<Rightarrow>
     proof_element list \<Rightarrow> nat \<Rightarrow>
     ('s, mmr_error, nat list \<times> nat set \<times> proof_element list \<times> nat) op" where
  "range_path_level ops height sz [] next_level parents covered path peak_index =
     op_return (next_level, covered, path, peak_index)"
| "range_path_level ops height sz (pos # todo) next_level parents covered path peak_index =
     op_bind (find_family ops pos height sz)
       (\<lambda>(sibling_pos, parent_pos, is_right_child, found).
         if \<not> found then
           range_path_level ops height sz todo next_level parents covered path pos
         else if parent_pos \<in> set parents then
           range_path_level ops height sz todo next_level parents covered path peak_index
         else if sibling_pos \<notin> covered then
           op_bind (op_get ops sibling_pos) (\<lambda>sibling.
             range_path_level ops height sz todo (next_level @ [parent_pos])
               (parent_pos # parents) (insert parent_pos covered)
               (path @ [\<lparr>pe_hash = node_hash sibling, pe_is_left = is_right_child\<rparr>]) peak_index)
         else
           range_path_level ops height sz todo (next_level @ [parent_pos])
             (parent_pos # parents) (insert parent_pos covered) path peak_index)"

function range_path_loop ::
    "'s store_ops \<Rightarrow> nat \<Rightarrow> nat \<Rightarrow> nat list \<Rightarrow> nat set \<Rightarrow> proof_element list \<Rightarrow> nat \<Rightarrow> 's \<Rightarrow>
     's \<times> (mmr_error, proof_element list \<times> nat) result" where
  "range_path_loop ops sz height current_level covered path peak_index s =
     (if current_level = [] then (s, Inr (path, peak_index))
      else if 64 \<le> height then (s, Inl InvalidProof)
      else case range_path_level ops height sz (sort current_level) [] [] covered path peak_index s of
        (s', Inl e) \<Rightarrow> (s', Inl e)
      | (s', Inr (next_level, covered', path', peak_index')) \<Rightarrow>
          range_path_loop ops sz (height + 1) next_level covered' path' peak_index' s')"
  by pat_completeness auto
termination
  by (relation "measure (\<lambda>(ops, sz, height, level, covered, path, peak, s). 64 - height)") auto

declare range_path_loop.simps [simp del]

definition generate_range_merkle_path ::
    "'s store_ops \<Rightarrow> nat list \<Rightarrow> nat \<Rightarrow> ('s, mmr_error, proof_element list \<times> nat) op" where
  "generate_range_merkle_path ops leaf_indices sz =
     (if leaf_indices = [] then op_fail InvalidProof
      else range_path_loop ops sz 0 leaf_indices (set leaf_indices) [] 0)"

fun load_hashes :: "'s store_ops \<Rightarrow> nat list \<Rightarrow> ('s, mmr_error, bytes list) op" where
  "load_hashes ops [] = op_return []"
| "load_hashes ops (idx # indices) =
     op_bind (op_get ops idx) (\<lambda>n.
       op_bind (load_hashes ops indices) (\<lambda>hs. op_return (node_hash n # hs)))"

definition generate_range_proof ::
    "'s store_ops \<Rightarrow> (bytes \<Rightarrow> bytes) \<Rightarrow> nat \<Rightarrow> nat \<Rightarrow> 's mmr \<Rightarrow>
     's mmr \<times> (mmr_error, range_proof) result" where
  "generate_range_proof ops sha start_leaf end_leaf st =
     (if st_size st = 0 then (st, Inl Empty)
      else if end_leaf < start_leaf then (st, Inl InvalidProof)
      else case leaf_count_from_size (st_size st) of
        Inl e \<Rightarrow> (st, Inl e)
      | Inr count \<Rightarrow>
          if count \<le> end_leaf then (st, Inl IndexOutOfRange)
          else case get_leaf_indices (st_size st) start_leaf end_leaf of
            Inl e \<Rightarrow> (st, Inl e)
          | Inr leaf_indices \<Rightarrow>
              (case op_bind (load_hashes ops leaf_indices) (\<lambda>hashes.
                      op_bind (generate_range_merkle_path ops leaf_indices (st_size st))
                        (\<lambda>(path, peak_index). op_return (hashes, path, peak_index))) (st_store st) of
                 (s, Inl e) \<Rightarrow> (st\<lparr>st_store := s\<rparr>, Inl e)
               | (s, Inr (hashes, path, peak_index)) \<Rightarrow>
                   (st\<lparr>st_store := s\<rparr>,
                    res_bind (find_peaks (st_size st)) (\<lambda>peak_indices.
                      case index_of peak_index peak_indices of
                        None \<Rightarrow> Inl InvalidProof
                      | Some peak_position \<Rightarrow>
                          res_bind (get_root sha st) (\<lambda>root.
                            Inr \<lparr>rp_start_leaf = start_leaf, rp_end_leaf = end_leaf,
                                 rp_leaf_indices = leaf_indices, rp_leaf_hashes = hashes,
                                 rp_sibling_path = path, rp_peaks = get_peaks st,
                                 rp_peak_position = peak_position, rp_mmr_size = st_size st,
                                 rp_root = root\<rparr>)))))"

end
