(* ===== verification/Mmr_Tree.thy ===== *)
theory Mmr_Tree
  imports Mmr_Core
begin

text \<open>
  The abstract Merkle Mountain Range: a list of perfect binary trees over the appended data,
  smallest tree first. It fixes what the flat node list of a store must be. The lemmas give
  the facts about that list that the navigation of \<open>find_family\<close> relies on: an internal node
  sits right after its right child, and its left child is \<open>2^(h+1)\<close> positions before it.
\<close>

datatype tree = Lf bytes | Br tree tree

fun ht :: "tree \<Rightarrow> nat" where
  "ht (Lf d) = 0"
| "ht (Br l r) = Suc (ht l)"

fun perfect :: "tree \<Rightarrow> bool" where
  "perfect (Lf d) = True"
| "perfect (Br l r) = (perfect l \<and> perfect r \<and> ht l = ht r)"

fun tsize :: "tree \<Rightarrow> nat" where
  "tsize (Lf d) = 1"
| "tsize (Br l r) = tsize l + tsize r + 1"

fun thash :: "(bytes \<Rightarrow> bytes) \<Rightarrow> nat \<Rightarrow> tree \<Rightarrow> bytes" where
  "thash sha b (Lf d) = hash_leaf sha b d"
| "thash sha b (Br l r) =
     hash_internal sha (Suc (ht l)) (thash sha b l) (thash sha (b + tsize l) r)"

definition troot :: "(bytes \<Rightarrow> bytes) \<Rightarrow> nat \<Rightarrow> tree \<Rightarrow> node" where
  "troot sha b t =
     \<lparr>node_index = b + tsize t - 1, node_height = ht t, node_hash = thash sha b t\<rparr>"

fun tnodes :: "(bytes \<Rightarrow> bytes) \<Rightarrow> nat \<Rightarrow> tree \<Rightarrow> node list" where
  "tnodes sha b (Lf d) = [troot sha b (Lf d)]"
| "tnodes sha b (Br l r) =
     tnodes sha b l @ tnodes sha (b + tsize l) r @ [troot sha b (Br l r)]"

fun tleaves :: "nat \<Rightarrow> tree \<Rightarrow> (nat \<times> bytes) list" where
  "tleaves b (Lf d) = [(b, d)]"
| "tleaves b (Br l r) = tleaves b l @ tleaves (b + tsize l) r"

text \<open>Forests, smallest tree first; \<open>link\<close> is the carry of an append.\<close>

fun fsize :: "tree list \<Rightarrow> nat" where
  "fsize [] = 0"
| "fsize (t # f) = fsize f + tsize t"

fun fnodes :: "(bytes \<Rightarrow> bytes) \<Rightarrow> tree list \<Rightarrow> node list" where
  "fnodes sha [] = []"
| "fnodes sha (t # f) = fnodes sha f @ tnodes sha (fsize f) t"

fun fleaves :: "tree list \<Rightarrow> (nat \<times> bytes) list" where
  "fleaves [] = []"
| "fleaves (t # f) = fleaves f @ tleaves (fsize f) t"

fun fpeaks :: "(bytes \<Rightarrow> bytes) \<Rightarrow> tree list \<Rightarrow> node list" where
  "fpeaks sha [] = []"
| "fpeaks sha (t # f) = fpeaks sha f @ [troot sha (fsize f) t]"

fun link :: "tree \<Rightarrow> tree list \<Rightarrow> tree list" where
  "link t [] = [t]"
| "link t (u # f) = (if ht u = ht t then link (Br u t) f else t # u # f)"

definition forest :: "bytes list \<Rightarrow> tree list" where
  "forest ds = fold (\<lambda>d f. link (Lf d) f) ds []"

definition forest_ok :: "tree list \<Rightarrow> bool" where
  "forest_ok f \<longleftrightarrow> (\<forall>t \<in> set f. perfect t) \<and> sorted_wrt (<) (map ht f)"

text \<open>A forest in the middle of an append: the first tree may be as high as the second.\<close>

definition linking :: "tree \<Rightarrow> tree list \<Rightarrow> bool" where
  "linking t f \<longleftrightarrow> perfect t \<and> forest_ok f \<and> (f \<noteq> [] \<longrightarrow> ht t \<le> ht (hd f))"

subsection \<open>Sizes\<close>

lemma tsize_pos [simp]: "0 < tsize t"
  by (cases t) auto

lemma tsize_perfect: "perfect t \<Longrightarrow> tsize t = tree_nodes_count (ht t)"
proof (induction t)
  case (Lf d)
  then show ?case by (simp add: tree_nodes_count_def)
next
  case (Br l r)
  then show ?case by (simp add: tree_nodes_count_Suc)
qed

lemma length_tnodes [simp]: "length (tnodes sha b t) = tsize t"
  by (induction t arbitrary: b) auto

lemma length_fnodes [simp]: "length (fnodes sha f) = fsize f"
  by (induction f) auto

lemma last_tnodes: "last (tnodes sha b t) = troot sha b t"
  by (cases t) auto

lemma tnodes_root: "tnodes sha b t ! (tsize t - 1) = troot sha b t"
  using last_tnodes [of sha b t] last_conv_nth [of "tnodes sha b t"]
  by (metis length_tnodes length_greater_0_conv tsize_pos)

lemma forest_size_fsize: "\<forall>t \<in> set f. perfect t \<Longrightarrow> forest_size (rev (map ht f)) = fsize f"
  by (induction f) (simp_all add: tsize_perfect)

lemma fpeaks_hash: "map node_hash (fpeaks sha f) \<noteq> [] \<longleftrightarrow> f \<noteq> []"
  by (cases f) auto

subsection \<open>Linking\<close>

lemma linkingI: "forest_ok f \<Longrightarrow> linking (Lf d) f"
  by (simp add: linking_def)

lemma linking_step:
  assumes "linking t (u # f)" "ht u = ht t"
  shows "linking (Br u t) f"
  using assms by (cases f) (auto simp: linking_def forest_ok_def)

lemma linking_done:
  assumes "linking t f" "f \<noteq> [] \<Longrightarrow> ht (hd f) \<noteq> ht t"
  shows "forest_ok (t # f)"
  using assms by (cases f) (auto simp: linking_def forest_ok_def)

lemma forest_ok_link: "linking t f \<Longrightarrow> forest_ok (link t f)"
proof (induction t f rule: link.induct)
  case (1 t)
  then show ?case by (simp add: linking_def forest_ok_def)
next
  case (2 t u f)
  then show ?case using linking_step linking_done by auto
qed

lemma forest_Nil [simp]: "forest [] = []"
  by (simp add: forest_def)

lemma forest_snoc: "forest (ds @ [d]) = link (Lf d) (forest ds)"
  by (simp add: forest_def)

lemma forest_ok_forest: "forest_ok (forest ds)"
proof (induction ds rule: rev_induct)
  case Nil
  then show ?case by (simp add: forest_ok_def)
next
  case (snoc d ds)
  then show ?case by (simp add: forest_snoc forest_ok_link linkingI)
qed

lemma peaks_ok_linking:
  assumes "linking t f"
  shows "peaks_ok (rev (map ht (t # f)))"
proof -
  have "sorted_wrt (>) (rev (map ht f))"
    using assms by (simp add: linking_def forest_ok_def sorted_wrt_rev)
  moreover have "ht t \<le> last (rev (map ht f))" if "f \<noteq> []"
    using that assms by (simp add: linking_def last_rev hd_map)
  ultimately have "peaks_ok (rev (map ht f) @ [ht t])" by (intro peaks_ok_snoc) auto
  then show ?thesis by simp
qed

lemma find_peaks_linking:
  assumes "linking t f" "fsize (t # f) + 1 < 2 ^ 64"
  shows "find_peaks (fsize (t # f)) = Inr (map node_index (fpeaks sha (t # f)))"
proof -
  have pf: "\<forall>u \<in> set (t # f). perfect u" using assms(1) by (auto simp: linking_def forest_ok_def)
  have idx: "peak_positions 0 (rev (map ht g)) = map node_index (fpeaks sha g)"
    if "\<forall>u \<in> set g. perfect u" for g
    using that
  proof (induction g)
    case (Cons u g)
    then show ?case
      by (simp add: peak_positions_snoc troot_def forest_size_fsize tsize_perfect)
  qed simp
  have "find_peaks (forest_size (rev (map ht (t # f)))) = Inr (peak_positions 0 (rev (map ht (t # f))))"
    using assms(2) forest_size_fsize [OF pf] by (intro find_peaks_forest peaks_ok_linking assms(1)) simp
  then show ?thesis using forest_size_fsize [OF pf] idx [OF pf] by simp
qed

lemma linking_of_forest_ok: "forest_ok (t # f) \<Longrightarrow> linking t f"
  by (cases f) (auto simp: linking_def forest_ok_def)

lemma find_peaks_forest_ok:
  assumes "forest_ok f" "fsize f + 1 < 2 ^ 64"
  shows "find_peaks (fsize f) = Inr (map node_index (fpeaks sha f))"
proof (cases f)
  case Nil
  then show ?thesis by (simp add: find_peaks_def eval_nat_numeral find_peaks_loop_Suc)
next
  case (Cons t g)
  with assms show ?thesis using find_peaks_linking [of t g sha] linking_of_forest_ok by simp
qed

subsection \<open>Leaves of the forest\<close>

lemma fleaves_link: "fleaves (link t f) = fleaves (t # f)"
proof (induction t f rule: link.induct)
  case (2 t u f)
  then show ?case by (simp add: add.assoc)
qed simp

lemma fleaves_forest_snoc:
  "fleaves (forest (ds @ [d])) = fleaves (forest ds) @ [(fsize (forest ds), d)]"
  by (simp add: forest_snoc fleaves_link)

lemma map_snd_fleaves_forest: "map snd (fleaves (forest ds)) = ds"
  by (induction ds rule: rev_induct) (simp_all add: fleaves_forest_snoc)

text \<open>The \<open>n\<close>-th leaf sits where the MMR of the first \<open>n\<close> leaves ends.\<close>

lemma fleaves_forest_nth:
  "i < length ds \<Longrightarrow> fleaves (forest ds) ! i = (fsize (forest (take i ds)), ds ! i)"
proof (induction ds rule: rev_induct)
  case (snoc d ds)
  have len: "length (fleaves (forest ds)) = length ds"
    using arg_cong [OF map_snd_fleaves_forest [of ds], of length] by simp
  show ?case
  proof (cases "i < length ds")
    case True
    with snoc.IH len show ?thesis by (simp add: fleaves_forest_snoc nth_append)
  next
    case False
    with snoc.prems have "i = length ds" by simp
    with len show ?thesis by (simp add: fleaves_forest_snoc nth_append)
  qed
qed simp

subsection \<open>The size of the forest over \<open>n\<close> leaves\<close>

lemma popcount_rec: "popcount n = n mod 2 + popcount (n div 2)"
  by (cases "n = 0") (simp_all add: popcount.simps [of n])

lemma popcount_1 [simp]: "popcount (Suc 0) = 1"
  by (subst popcount_rec) simp

lemma popcount_split: "a < 2 ^ k \<Longrightarrow> popcount (a + b * 2 ^ k) = popcount a + popcount b"
proof (induction k arbitrary: a)
  case (Suc k)
  have e: "a + b * 2 ^ Suc k = a + (b * 2 ^ k) * 2" by simp
  have m: "(a + b * 2 ^ Suc k) mod 2 = a mod 2" and d: "(a + b * 2 ^ Suc k) div 2 = a div 2 + b * 2 ^ k"
    by (simp_all only: e mod_mult_self1 div_mult_self1 numeral_neq_zero)
  have "popcount (a + b * 2 ^ Suc k) = a mod 2 + popcount (a div 2 + b * 2 ^ k)"
    by (subst popcount_rec) (simp only: m d)
  also have "\<dots> = a mod 2 + popcount (a div 2) + popcount b"
    using Suc by simp
  also have "\<dots> = popcount a + popcount b"
    by (subst (3) popcount_rec) simp
  finally show ?case .
qed simp

lemma sum_powers_bound:
  "sorted_wrt (>) hs \<Longrightarrow> \<forall>h' \<in> set hs. h' < h \<Longrightarrow> sum_list (map (\<lambda>h. 2 ^ h) hs) < (2::nat) ^ h"
proof (induction hs arbitrary: h)
  case (Cons a hs)
  then have "sum_list (map (\<lambda>h. 2 ^ h) hs) < (2::nat) ^ a" by simp
  moreover have "(2::nat) * 2 ^ a \<le> 2 ^ h"
    using Cons.prems(2) power_increasing [of "Suc a" h "2::nat"] by simp
  ultimately show ?case by simp
qed simp

lemma popcount_heights:
  "sorted_wrt (>) hs \<Longrightarrow> popcount (sum_list (map (\<lambda>h. 2 ^ h) hs)) = length hs"
proof (induction hs)
  case (Cons h hs)
  then have "sum_list (map (\<lambda>h. 2 ^ h) hs) < (2::nat) ^ h" by (auto intro: sum_powers_bound)
  from popcount_split [OF this, of 1] Cons show ?case
    by (simp add: add.commute)
qed simp

lemma length_tleaves: "perfect t \<Longrightarrow> length (tleaves b t) = 2 ^ ht t"
  by (induction t arbitrary: b) simp_all

lemma sum_heights_fleaves:
  "\<forall>t \<in> set f. perfect t \<Longrightarrow> sum_list (map (\<lambda>h. 2 ^ h) (rev (map ht f))) = length (fleaves f)"
  by (induction f) (simp_all add: length_tleaves)

lemma length_fleaves_forest [simp]: "length (fleaves (forest ds)) = length ds"
  using arg_cong [OF map_snd_fleaves_forest [of ds], of length] by simp

lemma forest_size_powers:
  "forest_size hs + length hs = 2 * sum_list (map (\<lambda>h. 2 ^ h) hs)"
proof (induction hs)
  case (Cons h hs)
  have "tree_nodes_count h + 1 = 2 * 2 ^ h" by (simp add: tree_nodes_count_def)
  with Cons show ?case by simp
qed simp

lemma sorted_heights_forest: "sorted_wrt (>) (rev (map ht (forest ds)))"
  using forest_ok_forest [of ds] by (simp add: forest_ok_def sorted_wrt_rev)

lemma perfect_forest: "\<forall>t \<in> set (forest ds). perfect t"
  using forest_ok_forest [of ds] by (simp add: forest_ok_def)

lemma fsize_forest: "fsize (forest ds) = 2 * length ds - popcount (length ds)"
proof -
  let ?hs = "rev (map ht (forest ds))"
  have "sum_list (map (\<lambda>h. 2 ^ h) ?hs) = length ds"
    using sum_heights_fleaves [OF perfect_forest [of ds]] by simp
  moreover have "fsize (forest ds) = forest_size ?hs"
    using forest_size_fsize [OF perfect_forest] by simp
  ultimately show ?thesis
    using popcount_heights [OF sorted_heights_forest [of ds]] forest_size_powers [of ?hs] by simp
qed

lemma leaf_count_forest:
  assumes "fsize (forest ds) + 1 < 2 ^ 64"
  shows "leaf_count_from_size (fsize (forest ds)) = Inr (length ds)"
  using leaf_count_loop_forest [OF sorted_heights_forest [of ds], of 0] assms
    forest_size_fsize [OF perfect_forest [of ds]] sum_heights_fleaves [OF perfect_forest [of ds]]
  by (simp add: leaf_count_from_size_def)

subsection \<open>Families in the node list\<close>

definition node_ok :: "(bytes \<Rightarrow> bytes) \<Rightarrow> nat \<Rightarrow> node list \<Rightarrow> nat \<Rightarrow> bool" where
  "node_ok sha b M r \<longleftrightarrow> node_index (M ! r) = b + r \<and>
     (\<forall>k. node_height (M ! r) = Suc k \<longrightarrow>
        2 ^ (k + 1) \<le> r \<and> node_height (M ! (r - 1)) = k \<and> node_height (M ! (r - 2 ^ (k + 1))) = k \<and>
        node_hash (M ! r) =
          hash_internal sha (Suc k) (node_hash (M ! (r - 2 ^ (k + 1)))) (node_hash (M ! (r - 1))))"

definition linked :: "(bytes \<Rightarrow> bytes) \<Rightarrow> nat \<Rightarrow> node list \<Rightarrow> bool" where
  "linked sha b M \<longleftrightarrow> (\<forall>r < length M. node_ok sha b M r)"

definition has_parent :: "node list \<Rightarrow> nat \<Rightarrow> bool" where
  "has_parent M r \<longleftrightarrow> (\<exists>q < length M. node_height (M ! q) = Suc (node_height (M ! r)) \<and>
     (q = r + 1 \<or> q = r + 2 ^ (node_height (M ! r) + 1)))"

lemma linkedD:
  assumes "linked sha b M" "r < length M"
  shows "node_index (M ! r) = b + r"
    and "node_height (M ! r) = Suc k \<Longrightarrow> 2 ^ (k + 1) \<le> r"
    and "node_height (M ! r) = Suc k \<Longrightarrow> node_height (M ! (r - 1)) = k"
    and "node_height (M ! r) = Suc k \<Longrightarrow> node_height (M ! (r - 2 ^ (k + 1))) = k"
    and "node_height (M ! r) = Suc k \<Longrightarrow> node_hash (M ! r) =
      hash_internal sha (Suc k) (node_hash (M ! (r - 2 ^ (k + 1)))) (node_hash (M ! (r - 1)))"
  using assms by (auto simp: linked_def node_ok_def)

text \<open>Whether a node is right depends on the nodes before it only, and not on where they are.\<close>

lemma node_ok_shift:
  assumes "node_ok sha (b + c) M r" and agree: "\<And>j. j \<le> r \<Longrightarrow> M' ! (c + j) = M ! j"
  shows "node_ok sha b M' (c + r)"
proof -
  have prior: "M' ! (c + r - m) = M ! (r - m)" if "m \<le> r" for m
    using agree [of "r - m"] that by simp
  have one: "1 \<le> r" if "2 ^ (k + 1) \<le> r" for k
    using that by (cases r) auto
  show ?thesis
    unfolding node_ok_def
  proof (intro conjI allI impI)
    show "node_index (M' ! (c + r)) = b + (c + r)"
      using assms(1) agree [of r] by (simp add: node_ok_def)
  next
    fix k assume "node_height (M' ! (c + r)) = Suc k"
    then have h: "node_height (M ! r) = Suc k" using agree [of r] by simp
    then have p: "2 ^ (k + 1) \<le> r" using assms(1) by (simp add: node_ok_def)
    show "2 ^ (k + 1) \<le> c + r" using p by simp
    show "node_height (M' ! (c + r - 1)) = k" "node_height (M' ! (c + r - 2 ^ (k + 1))) = k"
      and "node_hash (M' ! (c + r)) = hash_internal sha (Suc k)
        (node_hash (M' ! (c + r - 2 ^ (k + 1)))) (node_hash (M' ! (c + r - 1)))"
      using assms(1) h p prior [OF p] prior [OF one [OF p]] agree [of r]
      by (simp_all add: node_ok_def del: power_Suc)
  qed
qed

lemma linked_append:
  assumes "linked sha b xs" "linked sha (b + length xs) ys"
  shows "linked sha b (xs @ ys)"
  unfolding linked_def
proof (intro allI impI)
  fix r assume r: "r < length (xs @ ys)"
  show "node_ok sha b (xs @ ys) r"
  proof (cases "r < length xs")
    case True
    with assms(1) show ?thesis
      using node_ok_shift [of sha b 0 xs r "xs @ ys"] by (simp add: linked_def nth_append)
  next
    case False
    with assms(2) r have "node_ok sha (b + length xs) ys (r - length xs)" by (simp add: linked_def)
    from node_ok_shift [OF this, of "xs @ ys"] False show ?thesis by (simp add: nth_append)
  qed
qed

lemma two_power_le_double: "2 ^ (k + 1) \<le> 2 * tree_nodes_count k"
  using one_le_power [of "2::nat" k] by (simp add: tree_nodes_count_def)

lemma linked_tnodes: "perfect t \<Longrightarrow> linked sha b (tnodes sha b t)"
proof (induction t arbitrary: b)
  case (Lf d)
  then show ?case by (simp add: linked_def node_ok_def troot_def)
next
  case (Br l r)
  let ?A = "tnodes sha b l" and ?B = "tnodes sha (b + tsize l) r" and ?R = "troot sha b (Br l r)"
  let ?h = "ht l"
  have sz: "tsize l = tree_nodes_count ?h" "tsize r = tree_nodes_count ?h"
    using Br.prems by (simp_all add: tsize_perfect)
  have AB: "linked sha b (?A @ ?B)"
    using Br by (intro linked_append) simp_all
  have c: "tree_nodes_count ?h + 1 = 2 ^ (?h + 1)" by (simp add: tree_nodes_count_def)
  have lchild: "tnodes sha b (Br l r) ! (tsize l + tsize r - 2 ^ (?h + 1)) = troot sha b l"
  proof -
    have "tsize l + tsize r - 2 ^ (?h + 1) = tsize l - 1" using sz c by linarith
    then show ?thesis using tnodes_root [of sha b l] by (simp add: nth_append)
  qed
  have rchild: "tnodes sha b (Br l r) ! (tsize l + tsize r - 1) = troot sha (b + tsize l) r"
  proof -
    have "tsize l + tsize r - 1 = tsize l + (tsize r - 1)" using tsize_pos [of r] by linarith
    then show ?thesis using tnodes_root [of sha "b + tsize l" r] by (simp add: nth_append)
  qed
  show ?case
    unfolding linked_def
  proof (intro allI impI)
    fix q assume "q < length (tnodes sha b (Br l r))"
    then consider "q < tsize l + tsize r" | "q = tsize l + tsize r" by fastforce
    then show "node_ok sha b (tnodes sha b (Br l r)) q"
    proof cases
      case 1
      then have q: "q < length (?A @ ?B)" by simp
      with AB have "node_ok sha (b + 0) (?A @ ?B) q" by (simp add: linked_def)
      from node_ok_shift [OF this, of "tnodes sha b (Br l r)"] 1 show ?thesis
        by (simp add: nth_append)
    next
      case 2
      define M where "M = tnodes sha b (Br l r)"
      have root: "M ! q = ?R" using 2 by (simp add: M_def nth_append)
      have le: "2 ^ (?h + 1) \<le> q" using 2 sz two_power_le_double [of ?h] by simp
      have lc: "M ! (q - 2 ^ (?h + 1)) = troot sha b l"
        unfolding M_def 2 by (rule lchild)
      have rc: "M ! (q - 1) = troot sha (b + tsize l) r"
        unfolding M_def 2 by (rule rchild)
      have "node_ok sha b M q"
        unfolding node_ok_def
      proof (intro conjI allI impI)
        show "node_index (M ! q) = b + q" unfolding root by (simp add: troot_def 2)
      next
        fix k assume "node_height (M ! q) = Suc k"
        then have k: "k = ?h" by (simp add: root troot_def)
        show "2 ^ (k + 1) \<le> q" using le by (simp only: k)
        show "node_height (M ! (q - 1)) = k" using Br.prems unfolding rc by (simp add: k troot_def)
        show "node_height (M ! (q - 2 ^ (k + 1))) = k" by (simp only: k lc) (simp add: troot_def)
        show "node_hash (M ! q) = hash_internal sha (Suc k)
            (node_hash (M ! (q - 2 ^ (k + 1)))) (node_hash (M ! (q - 1)))"
          by (simp only: k lc rc root) (simp add: troot_def)
      qed
      then show ?thesis by (simp only: M_def)
    qed
  qed
qed

lemma linked_fnodes: "\<forall>t \<in> set f. perfect t \<Longrightarrow> linked sha 0 (fnodes sha f)"
proof (induction f)
  case Nil
  then show ?case by (simp add: linked_def)
next
  case (Cons t f)
  then show ?case by (simp add: linked_append linked_tnodes)
qed

subsection \<open>Every node below a peak has a parent\<close>

lemma has_parent_append1:
  assumes "has_parent xs r" "r < length xs"
  shows "has_parent (xs @ ys) r"
proof -
  from assms(1) obtain q where q: "q < length xs" "node_height (xs ! q) = Suc (node_height (xs ! r))"
    "q = r + 1 \<or> q = r + 2 ^ (node_height (xs ! r) + 1)"
    by (auto simp: has_parent_def)
  then show ?thesis
    using assms(2) unfolding has_parent_def by (intro exI [of _ q]) (simp add: nth_append)
qed

lemma has_parent_append2:
  assumes "has_parent ys r" "r < length ys"
  shows "has_parent (xs @ ys) (length xs + r)"
proof -
  from assms(1) obtain q where "q < length ys" "node_height (ys ! q) = Suc (node_height (ys ! r))"
    "q = r + 1 \<or> q = r + 2 ^ (node_height (ys ! r) + 1)"
    by (auto simp: has_parent_def)
  then show ?thesis
    unfolding has_parent_def by (intro exI [of _ "length xs + q"]) auto
qed

lemma has_parentI:
  assumes "q < length ns" "node_height (ns ! q) = Suc k" "node_height (ns ! r) = k"
    "q = r + 1 \<or> q = r + 2 ^ (k + 1)"
  shows "has_parent ns r"
  using assms unfolding has_parent_def by (intro exI [of _ q]) simp

lemma has_parent_tnodes: "perfect t \<Longrightarrow> Suc r < tsize t \<Longrightarrow> has_parent (tnodes sha b t) r"
proof (induction t arbitrary: b r)
  case (Br t1 t2)
  let ?A = "tnodes sha b t1" and ?B = "tnodes sha (b + tsize t1) t2" and ?R = "troot sha b (Br t1 t2)"
  have sz: "tsize t2 = tsize t1" "tsize t1 + 1 = 2 ^ (ht t1 + 1)"
    using Br.prems(1) by (simp_all add: tsize_perfect tree_nodes_count_def)
  have "tnodes sha b (Br t1 t2) ! (tsize t1 + tsize t2) = ?R" by (simp add: nth_append)
  then have kq: "node_height (tnodes sha b (Br t1 t2) ! (tsize t1 + tsize t2)) = Suc (ht t1)"
    using Br.prems(1) by (simp add: troot_def del: tnodes.simps(2))
  consider "Suc r < tsize t1" | "Suc r = tsize t1" | "tsize t1 \<le> r" "Suc (r - tsize t1) < tsize t2"
    | "Suc r = tsize t1 + tsize t2"
    using Br.prems(2) by fastforce
  then show ?case
  proof cases
    case 1
    with Br have "has_parent ?A r" by simp
    from has_parent_append1 [OF this, of "?B @ [?R]"] 1 show ?thesis by simp
  next
    case 2
    have "tnodes sha b (Br t1 t2) ! r = troot sha b t1"
    proof -
      have "r = tsize t1 - 1" "r < tsize t1" using 2 by simp_all
      then show ?thesis using tnodes_root [of sha b t1] by (simp add: nth_append)
    qed
    then have kr: "node_height (tnodes sha b (Br t1 t2) ! r) = ht t1" by (simp only: troot_def node.simps)
    have "tsize t1 + tsize t2 = r + 2 ^ (ht t1 + 1)" using 2 sz by linarith
    then show ?thesis
      by (intro has_parentI [OF _ kq kr]) simp_all
  next
    case 3
    with Br have "has_parent ?B (r - tsize t1)" by simp
    from has_parent_append2 [OF has_parent_append1 [OF this, of "[?R]"], of ?A] 3 show ?thesis by simp
  next
    case 4
    then have r: "r = tsize t1 + (tsize t2 - 1)" using tsize_pos [of t2] by linarith
    have "tnodes sha b (Br t1 t2) ! r = troot sha (b + tsize t1) t2"
      using tnodes_root [of sha "b + tsize t1" t2] by (simp add: r nth_append)
    then have kr: "node_height (tnodes sha b (Br t1 t2) ! r) = ht t1"
      using Br.prems(1) by (simp add: troot_def del: tnodes.simps(2))
    show ?thesis
      by (intro has_parentI [OF _ kq kr]) (simp_all add: 4 [symmetric])
  qed
qed simp

lemma has_parent_fnodes:
  assumes "\<forall>t \<in> set f. perfect t" "r < fsize f" "r \<notin> set (map node_index (fpeaks sha f))"
  shows "has_parent (fnodes sha f) r"
  using assms
proof (induction f)
  case (Cons t f)
  show ?case
  proof (cases "r < fsize f")
    case True
    with Cons have "has_parent (fnodes sha f) r" by simp
    then show ?thesis using True by (simp add: has_parent_append1)
  next
    case False
    with Cons.prems have "Suc (r - fsize f) < tsize t" by (auto simp: troot_def)
    then have "has_parent (tnodes sha (fsize f) t) (r - fsize f)"
      using Cons.prems(1) by (simp add: has_parent_tnodes)
    from has_parent_append2 [OF this, of "fnodes sha f"] False Cons.prems(2) show ?thesis by simp
  qed
qed simp

subsection \<open>Leaves and peaks in the node list\<close>

lemma tleaves_node:
  "(p, d) \<in> set (tleaves b t) \<Longrightarrow>
   b \<le> p \<and> p < b + tsize t \<and> tnodes sha b t ! (p - b) = new_leaf sha p d"
proof (induction t arbitrary: b)
  case (Lf x)
  then show ?case by (simp add: new_leaf_def troot_def)
next
  case (Br l r)
  from Br.prems consider "(p, d) \<in> set (tleaves b l)" | "(p, d) \<in> set (tleaves (b + tsize l) r)"
    by auto
  then show ?case
  proof cases
    case 1
    with Br.IH(1) [OF 1] show ?thesis by (auto simp: nth_append)
  next
    case 2
    with Br.IH(2) [OF 2] show ?thesis by (auto simp: nth_append)
  qed
qed

lemma tnodes_leaf:
  "r < tsize t \<Longrightarrow> node_height (tnodes sha b t ! r) = 0 \<Longrightarrow>
   \<exists>d. (b + r, d) \<in> set (tleaves b t)"
proof (induction t arbitrary: b r)
  case (Br t1 t2)
  then consider "r < tsize t1" | "tsize t1 \<le> r" "r - tsize t1 < tsize t2" | "r = tsize t1 + tsize t2"
    by fastforce
  then show ?case
  proof cases
    case 1
    with Br.IH(1) [of r b] Br.prems show ?thesis by (auto simp: nth_append)
  next
    case 2
    with Br.IH(2) [of "r - tsize t1" "b + tsize t1"] Br.prems show ?thesis
      by (auto simp: nth_append)
  next
    case 3
    with Br.prems show ?thesis by (simp add: nth_append troot_def)
  qed
qed simp

lemma fleaves_node:
  "(p, d) \<in> set (fleaves f) \<Longrightarrow> p < fsize f \<and> fnodes sha f ! p = new_leaf sha p d"
proof (induction f)
  case (Cons t f)
  then show ?case
    using tleaves_node [of p d "fsize f" t sha] by (auto simp: nth_append)
qed simp

lemma fnodes_leaf:
  "r < fsize f \<Longrightarrow> node_height (fnodes sha f ! r) = 0 \<Longrightarrow> \<exists>d. (r, d) \<in> set (fleaves f)"
proof (induction f)
  case (Cons t f)
  show ?case
  proof (cases "r < fsize f")
    case True
    with Cons show ?thesis by (auto simp: nth_append)
  next
    case False
    with Cons.prems(1) have "r - fsize f < tsize t" by (simp add: less_diff_conv2)
    with False Cons.prems tnodes_leaf [of "r - fsize f" t sha "fsize f"] show ?thesis
      by (auto simp: nth_append)
  qed
qed simp

lemma fpeaks_nodes: "n \<in> set (fpeaks sha f) \<Longrightarrow>
    node_index n < fsize f \<and> fnodes sha f ! node_index n = n"
proof (induction f)
  case (Cons t f)
  from Cons.prems consider "n \<in> set (fpeaks sha f)" | "n = troot sha (fsize f) t" by auto
  then show ?case
  proof cases
    case 1
    with Cons.IH show ?thesis by (auto simp: nth_append)
  next
    case 2
    have "fsize f + tsize t - 1 = fsize f + (tsize t - 1)" using tsize_pos [of t] by linarith
    with 2 tnodes_root [of sha "fsize f" t] show ?thesis
      by (simp add: nth_append troot_def)
  qed
qed simp

lemma distinct_fpeaks: "distinct (map node_index (fpeaks sha f))"
proof (induction f)
  case (Cons t f)
  have "fsize f + tsize t - 1 \<notin> set (map node_index (fpeaks sha f))"
  proof
    assume "fsize f + tsize t - 1 \<in> set (map node_index (fpeaks sha f))"
    then have "fsize f + tsize t - 1 < fsize f" using fpeaks_nodes [of _ sha f] by auto
    then show False using tsize_pos [of t] by linarith
  qed
  with Cons show ?case by (simp add: troot_def)
qed simp

lemma length_fpeaks [simp]: "length (fpeaks sha f) = length f"
  by (induction f) auto

end
