(* ===== verification/Mmr_Correct.thy ===== *)
theory Mmr_Correct
  imports Mmr_Core Mmr_Tree
begin

text \<open>
  The Merkle Mountain Range refines the abstract forest: over any store that keeps the
  contract \<open>node_store\<close>, appending is linking a leaf into the forest, opening finds the peaks
  of the forest again, and every leaf has an inclusion proof that verifies.
\<close>

definition peaks_of :: "node list \<Rightarrow> peak list" where
  "peaks_of ns = map (\<lambda>n. \<lparr>pk_index = node_index n, pk_hash = node_hash n\<rparr>) ns"

text \<open>The state \<open>st\<close> is the MMR of the leaves \<open>ds\<close>.\<close>

definition mmr_repr ::
    "('s \<Rightarrow> bool) \<Rightarrow> ('s \<Rightarrow> node list) \<Rightarrow> (bytes \<Rightarrow> bytes) \<Rightarrow> bytes list \<Rightarrow> 's mmr \<Rightarrow> bool" where
  "mmr_repr invar nodes sha ds st \<longleftrightarrow>
     invar (st_store st) \<and> nodes (st_store st) = fnodes sha (forest ds) \<and>
     st_size st = fsize (forest ds) \<and> st_peaks st = peaks_of (fpeaks sha (forest ds))"

text \<open>SHA-256 returns 32 bytes.\<close>

definition digest32 :: "(bytes \<Rightarrow> bytes) \<Rightarrow> bool" where
  "digest32 sha \<longleftrightarrow> (\<forall>x. length (sha x) = 32)"

text \<open>Appending a list of leaves one after the other, with the positions they get.\<close>

fun append_all ::
    "'s store_ops \<Rightarrow> (bytes \<Rightarrow> bytes) \<Rightarrow> bytes list \<Rightarrow> 's mmr \<Rightarrow>
     's mmr \<times> (mmr_error, nat list) result" where
  "append_all ops sha [] st = (st, Inr [])"
| "append_all ops sha (d # ds) st =
     (case mmr_append ops sha d st of
        (st1, Inl e) \<Rightarrow> (st1, Inl e)
      | (st1, Inr i) \<Rightarrow>
          (case append_all ops sha ds st1 of
             (st2, Inl e) \<Rightarrow> (st2, Inl e)
           | (st2, Inr is) \<Rightarrow> (st2, Inr (i # is))))"

text \<open>The family of a position in a node list: what \<open>find_family\<close> computes.\<close>

definition family_of :: "node list \<Rightarrow> nat \<Rightarrow> family" where
  "family_of M pos =
     (let h = node_height (M ! pos) in
      if pos + 2 ^ (h + 1) < length M \<and> node_height (M ! (pos + 2 ^ (h + 1))) = Suc h
      then (pos + 2 ^ (h + 1) - 1, pos + 2 ^ (h + 1), False, True)
      else if pos + 1 < length M \<and> node_height (M ! (pos + 1)) = Suc h
      then (pos + 1 - 2 ^ (h + 1), pos + 1, True, True)
      else no_family)"

subsection \<open>Sizes and types\<close>

lemma length_hashes [simp]:
  assumes "digest32 sha"
  shows "length (hash_leaf sha i d) = 32" "length (hash_internal sha h l r) = 32"
    "length (hash_bag sha l r) = 32" "length (thash sha b t) = 32"
  using assms by (cases t; simp add: digest32_def hash_leaf_def hash_internal_def hash_bag_def)+

lemma fsize_link: "fsize (t # f) \<le> fsize (link t f)"
proof (induction f arbitrary: t)
  case (Cons u f)
  have "fsize (t # u # f) \<le> fsize (Br u t # f)" by simp
  then show ?case using Cons.IH [of "Br u t"] by (simp del: fsize.simps)
qed simp

lemma fsize_forest_mono: "fsize (forest ds) \<le> fsize (forest (ds @ es))"
proof (induction es arbitrary: ds)
  case (Cons e es)
  have "fsize (forest ds) \<le> fsize (forest (ds @ [e]))"
    using fsize_link [of "Lf e" "forest ds"] by (simp add: forest_snoc)
  then show ?case using Cons [of "ds @ [e]"] by simp
qed simp

lemma ht_bound:
  assumes "perfect t" "tsize t < 2 ^ 64"
  shows "ht t < 64"
proof (rule ccontr)
  assume "\<not> ht t < 64"
  then have "(2::nat) ^ 65 \<le> 2 ^ (ht t + 1)" by (intro power_increasing) simp_all
  then show False using assms by (simp add: tsize_perfect tree_nodes_count_def)
qed

lemma troot_typed:
  assumes "digest32 sha" "perfect t" "b + tsize t < 2 ^ 64"
  shows "node_typed (troot sha b t)"
  using ht_bound [of t] assms by (simp add: node_typed_def troot_def)

lemma fsize_capacity:
  assumes "length ds < 2 ^ 63"
  shows "fsize (forest ds) + 1 < 2 ^ 64"
proof (cases ds)
  case (Cons d ds')
  have "0 < popcount n" if "0 < n" for n
    using that
  proof (induction n rule: less_induct)
    case (less n)
    show ?case
    proof (cases "n mod 2 = 0")
      case True
      with less.prems have "0 < n div 2" "n div 2 < n" by auto
      with less.IH show ?thesis by (subst popcount_rec) simp
    qed (subst popcount_rec, simp)
  qed
  from this [of "length ds"] Cons assms show ?thesis by (simp add: fsize_forest del: length_Cons)
qed simp

lemma peaks_of_lookup:
  "map (\<lambda>i. \<lparr>pk_index = i, pk_hash = node_hash (fnodes sha f ! i)\<rparr>) (map node_index (fpeaks sha f))
   = peaks_of (fpeaks sha f)"
  by (auto simp: peaks_of_def fpeaks_nodes)

lemma hash_peaks_of [simp]: "map pk_hash (peaks_of ns) = map node_hash ns"
  by (simp add: peaks_of_def)

lemma get_root_peaks:
  assumes "st_peaks st = peaks_of ns" "ns \<noteq> []"
  shows "get_root sha st = Inr (bag_peaks sha (map node_hash ns))"
proof -
  from assms(2) obtain n ms where ns: "ns = n # ms" by (cases ns) auto
  then show ?thesis
    using assms(1) by (cases ms) (simp_all add: get_root_def get_peaks_def peaks_of_def bag_peaks_def comp_def)
qed

lemma family_of_cases:
  assumes "linked sha 0 M" "pos < length M"
  obtains (found) sib par right where "family_of M pos = (sib, par, right, True)"
      "sib < length M" "par < length M" "node_height (M ! par) = Suc (node_height (M ! pos))"
      "node_hash (M ! par) = (if right
         then hash_internal sha (Suc (node_height (M ! pos))) (node_hash (M ! sib)) (node_hash (M ! pos))
         else hash_internal sha (Suc (node_height (M ! pos))) (node_hash (M ! pos)) (node_hash (M ! sib)))"
    | (peak) "family_of M pos = no_family" "\<not> has_parent M pos"
proof -
  define h where "h = node_height (M ! pos)"
  define off where "off = (2::nat) ^ (h + 1)"
  let ?L = "pos + off < length M \<and> node_height (M ! (pos + off)) = Suc h"
  let ?R = "pos + 1 < length M \<and> node_height (M ! (pos + 1)) = Suc h"
  note fam = family_of_def [of M pos, unfolded Let_def, folded h_def, folded off_def]
  consider ?L | "\<not> ?L" ?R | "\<not> ?L" "\<not> ?R" by blast
  then show thesis
  proof cases
    case 1
    with linkedD(5) [OF assms(1), of "pos + off" h, folded off_def] fam
    show thesis by (intro found [of "pos + off - 1" "pos + off" False]) (auto simp: h_def [symmetric])
  next
    case 2
    with linkedD(2,5) [OF assms(1), of "pos + 1" h, folded off_def] fam
    show thesis
      by (intro found [of "pos + 1 - off" "pos + 1" True]) (auto simp: h_def [symmetric])
  next
    case 3
    then have "family_of M pos = no_family" using fam by (simp only: if_False)
    moreover have "\<not> has_parent M pos"
      unfolding has_parent_def h_def [symmetric] off_def [symmetric] using 3 by blast
    ultimately show thesis by (rule peak)
  qed
qed

subsection \<open>The operations over a store\<close>

context node_reader
begin

lemma load_peaks_ok:
  assumes "invar s" "\<forall>i \<in> set is. i < length (nodes s)"
  shows "\<exists>s'. load_peaks ops is s =
      (s', Inr (map (\<lambda>i. \<lparr>pk_index = i, pk_hash = node_hash (nodes s ! i)\<rparr>) is)) \<and>
    invar s' \<and> nodes s' = nodes s"
  using assms
proof (induction "is" arbitrary: s)
  case (Cons i "is")
  from Cons.prems obtain s1 where s1: "op_get ops i s = (s1, Inr (nodes s ! i))" "invar s1"
    "nodes s1 = nodes s"
    by (auto elim: get_E)
  with Cons.IH [of s1] Cons.prems(2) obtain s2 where
    "load_peaks ops is s1 =
      (s2, Inr (map (\<lambda>i. \<lparr>pk_index = i, pk_hash = node_hash (nodes s ! i)\<rparr>) is))"
    "invar s2" "nodes s2 = nodes s" by auto
  with s1 show ?case by (simp add: op_bind_def op_return_def)
qed (simp add: op_return_def)

lemma load_fpeaks:
  assumes "invar s" "nodes s = fnodes sha f"
  shows "\<exists>s'. load_peaks ops (map node_index (fpeaks sha f)) s = (s', Inr (peaks_of (fpeaks sha f))) \<and>
    invar s' \<and> nodes s' = nodes s"
  using load_peaks_ok [OF assms(1), of "map node_index (fpeaks sha f)"] assms(2)
  by (auto simp: fpeaks_nodes peaks_of_lookup simp del: map_map)

lemma reload_fpeaks:
  assumes "invar (st_store st)" "nodes (st_store st) = fnodes sha f"
  shows "\<exists>st'. reload_peaks ops (map node_index (fpeaks sha f)) st = (st', Inr ()) \<and>
    invar (st_store st') \<and> nodes (st_store st') = fnodes sha f \<and> st_size st' = st_size st \<and>
    st_peaks st' = peaks_of (fpeaks sha f)"
  using load_fpeaks [OF assms] assms(2) by (auto simp: reload_peaks_def)

lemma mmr_new_ok:
  assumes "invar s" "nodes s = fnodes sha (forest ds)" "length ds < 2 ^ 63"
  shows "\<exists>st. mmr_new ops s = Inr st \<and> mmr_repr invar nodes sha ds st"
proof (cases "forest ds")
  case Nil
  with assms size_ok [OF assms(1)] show ?thesis
    by (simp add: mmr_new_def mmr_repr_def peaks_of_def)
next
  case (Cons t f)
  then have ne: "fsize (forest ds) \<noteq> 0" by simp
  obtain s' where s': "load_peaks ops (map node_index (fpeaks sha (forest ds))) s =
      (s', Inr (peaks_of (fpeaks sha (forest ds))))" "invar s'" "nodes s' = nodes s"
    using load_fpeaks [OF assms(1,2)] by blast
  have "find_peaks (fsize (forest ds)) = Inr (map node_index (fpeaks sha (forest ds)))"
    by (intro find_peaks_forest_ok forest_ok_forest fsize_capacity assms(3))
  with s' ne assms(2) size_ok [OF assms(1)] show ?thesis
    by (simp add: mmr_new_def mmr_repr_def)
qed

lemma append_loop_last:
  assumes "find_peaks (st_size st) = Inr (map node_index (fpeaks sha (t # f)))"
    and "invar (st_store st)" "nodes (st_store st) = fnodes sha (t # f)"
    and "f \<noteq> [] \<Longrightarrow> ht (hd f) \<noteq> ht t"
    and "st_size st = fsize (t # f)" "\<forall>p \<in> set (st_peaks st). pk_index p + 1 < st_size st"
  shows "\<exists>st'. append_loop ops sha st = (st', Inr ()) \<and> invar (st_store st') \<and>
    nodes (st_store st') = fnodes sha (t # f) \<and> st_size st' = fsize (t # f) \<and>
    st_peaks st' = peaks_of (fpeaks sha (t # f))"
proof (cases f)
  case Nil
  have "length (st_peaks st) \<noteq> 1 \<or> list_ex (\<lambda>(p, i). pk_index p \<noteq> i)
      (zip (st_peaks st) (map node_index (fpeaks sha (t # f))))"
    using assms(5,6) Nil by (auto simp: length_Suc_conv troot_def)
  with Nil assms(1) have "append_loop ops sha st =
      reload_peaks ops (map node_index (fpeaks sha (t # f))) st"
    by (subst append_loop.simps) simp
  with reload_fpeaks [OF assms(2,3)] assms(5) show ?thesis by simp
next
  case (Cons u g)
  let ?is = "map node_index (fpeaks sha (t # f))"
  have l: "?is ! (length ?is - 1) = node_index (troot sha (fsize f) t)"
    "?is ! (length ?is - 2) = node_index (troot sha (fsize g) u)" "\<not> length ?is < 2"
    using Cons by (simp_all add: nth_append)
  have n: "node_index n < fsize (t # f)" "fnodes sha (t # f) ! node_index n = n"
    if "n \<in> {troot sha (fsize f) t, troot sha (fsize g) u}" for n
    using that fpeaks_nodes [of n sha "t # f"] Cons by auto
  obtain s1 where s1: "op_get ops (node_index (troot sha (fsize f) t)) (st_store st) =
      (s1, Inr (troot sha (fsize f) t))" "invar s1" "nodes s1 = fnodes sha (t # f)"
    using get_E [OF assms(2), of "node_index (troot sha (fsize f) t)"] n assms(3)
    by (metis insertI1 length_fnodes)
  obtain s2 where s2: "op_get ops (node_index (troot sha (fsize g) u)) s1 =
      (s2, Inr (troot sha (fsize g) u))" "invar s2" "nodes s2 = fnodes sha (t # f)"
    using get_E [OF s1(2), of "node_index (troot sha (fsize g) u)"] n s1(3)
    by (metis insertI1 insertI2 length_fnodes)
  have "append_loop ops sha st = reload_peaks ops ?is (st\<lparr>st_store := s2\<rparr>)"
    using s1(1) s2(1) l assms(4) Cons
    by (subst append_loop.simps) (simp add: assms(1) troot_def del: fpeaks.simps length_map)
  with reload_fpeaks [of "st\<lparr>st_store := s2\<rparr>" sha "t # f"] s2(2,3) assms(5) show ?thesis by simp
qed

end

context bounded_store
begin

lemma append_loop_merge:
  assumes "find_peaks (st_size st) = Inr (map node_index (fpeaks sha (t # u # f)))"
    and "invar (st_store st)" "nodes (st_store st) = fnodes sha (t # u # f)"
    and "ht u = ht t" "perfect u" "perfect t" "digest32 sha"
    and "st_size st = fsize (t # u # f)" "fsize (t # u # f) + 1 < 2 ^ 64"
    and room: "room (fsize (t # u # f))"
  shows "\<exists>s. append_loop ops sha st =
      append_loop ops sha (st\<lparr>st_store := s, st_size := fsize (Br u t # f)\<rparr>) \<and>
    invar s \<and> nodes s = fnodes sha (Br u t # f)"
proof -
  let ?is = "map node_index (fpeaks sha (t # u # f))"
  let ?T = "troot sha (fsize (u # f)) t" and ?U = "troot sha (fsize f) u"
  have l: "?is ! (length ?is - 1) = node_index ?T"
    "?is ! (length ?is - 2) = node_index ?U" "\<not> length ?is < 2"
    by (simp_all add: nth_append)
  have n: "node_index n < fsize (t # u # f)" "fnodes sha (t # u # f) ! node_index n = n"
    if "n \<in> {?T, ?U}" for n
    using that fpeaks_nodes [of n sha "t # u # f"] by auto
  obtain s1 where s1: "op_get ops (node_index ?T) (st_store st) = (s1, Inr ?T)"
    "invar s1" "nodes s1 = fnodes sha (t # u # f)"
    using get_E [OF assms(2), of "node_index ?T"] n assms(3) by (metis insertI1 length_fnodes)
  obtain s2 where s2: "op_get ops (node_index ?U) s1 = (s2, Inr ?U)"
    "invar s2" "nodes s2 = fnodes sha (t # u # f)"
    using get_E [OF s1(2), of "node_index ?U"] n s1(3) by (metis insertI1 insertI2 length_fnodes)
  have new: "new_internal sha (st_size st) (node_height ?T + 1) ?U ?T = troot sha (fsize f) (Br u t)"
    using assms(4,8) by (simp add: new_internal_def troot_def)
  have "node_typed (troot sha (fsize f) (Br u t))"
    using assms by (intro troot_typed) auto
  moreover have "node_index (troot sha (fsize f) (Br u t)) = length (nodes s2)"
    using s2(3) by (simp add: troot_def)
  moreover have "room (node_index (troot sha (fsize f) (Br u t)))"
    using room by (simp add: troot_def ac_simps)
  ultimately obtain s3 where s3: "op_append ops (troot sha (fsize f) (Br u t)) s2 = (s3, Inr ())"
    "invar s3" "nodes s3 = nodes s2 @ [troot sha (fsize f) (Br u t)]"
    using append_E [OF s2(2)] by blast
  have h: "node_height ?T = ht t" "node_height ?U = ht t" using assms(4) by (simp_all add: troot_def)
  have "ht t < 255" using ht_bound [of t] assms(6,9) by simp
  moreover have "st_size st + 1 < 2 ^ 64" using assms(8,9) by simp
  ultimately have "append_loop ops sha st =
      append_loop ops sha (st\<lparr>st_store := s3, st_size := st_size st + 1\<rparr>)"
    using s1(1) s2(1) s3(1) l new h
    by (subst append_loop.simps)
      (simp add: assms(1) del: fpeaks.simps fsize.simps length_map append_loop.simps)
  moreover have "nodes s3 = fnodes sha (Br u t # f)" using s3(3) s2(3) by simp
  moreover have "st_size st + 1 = fsize (Br u t # f)" using assms(8) by simp
  ultimately show ?thesis using s3(2) by auto
qed

lemma append_loop_ok:
  assumes "linking t f" "invar (st_store st)" "nodes (st_store st) = fnodes sha (t # f)"
    and "st_size st = fsize (t # f)" "\<forall>p \<in> set (st_peaks st). pk_index p + 1 < st_size st"
    and "fsize (link t f) + 1 < 2 ^ 64" "digest32 sha" "\<forall>k < fsize (link t f). fsize (t # f) \<le> k \<longrightarrow> room k"
  shows "\<exists>st'. append_loop ops sha st = (st', Inr ()) \<and> invar (st_store st') \<and>
    nodes (st_store st') = fnodes sha (link t f) \<and> st_size st' = fsize (link t f) \<and>
    st_peaks st' = peaks_of (fpeaks sha (link t f))"
  using assms
proof (induction f arbitrary: t st)
  case Nil
  then have "find_peaks (st_size st) = Inr (map node_index (fpeaks sha [t]))"
    using find_peaks_linking [OF Nil.prems(1)] by simp
  from append_loop_last [OF this Nil.prems(2,3) _ Nil.prems(4,5)] show ?case by simp
next
  case (Cons u f)
  have cap: "fsize (t # u # f) + 1 < 2 ^ 64" using fsize_link [of t "u # f"] Cons.prems(6) by linarith
  then have fp: "find_peaks (st_size st) = Inr (map node_index (fpeaks sha (t # u # f)))"
    using find_peaks_linking [OF Cons.prems(1)] Cons.prems(4) by simp
  show ?case
  proof (cases "ht u = ht t")
    case True
    have pf: "perfect u" "perfect t"
      using Cons.prems(1) by (simp_all add: linking_def forest_ok_def)
    have "fsize (t # u # f) < fsize (link t (u # f))"
      using fsize_link [of "Br u t" f] True by simp
    then have rm: "room (fsize (t # u # f))" using Cons.prems(8) by blast
    obtain s where s: "append_loop ops sha st =
        append_loop ops sha (st\<lparr>st_store := s, st_size := fsize (Br u t # f)\<rparr>)"
      "invar s" "nodes s = fnodes sha (Br u t # f)"
      using append_loop_merge [OF fp Cons.prems(2,3) True pf Cons.prems(7,4) cap rm] by blast
    let ?st = "st\<lparr>st_store := s, st_size := fsize (Br u t # f)\<rparr>"
    have "\<exists>st'. append_loop ops sha ?st = (st', Inr ()) \<and> invar (st_store st') \<and>
      nodes (st_store st') = fnodes sha (link (Br u t) f) \<and> st_size st' = fsize (link (Br u t) f) \<and>
      st_peaks st' = peaks_of (fpeaks sha (link (Br u t) f))"
    proof (rule Cons.IH)
      show "linking (Br u t) f" by (rule linking_step [OF Cons.prems(1) True])
      show "\<forall>p \<in> set (st_peaks ?st). pk_index p + 1 < st_size ?st"
        using Cons.prems(4,5) by auto
      show "fsize (link (Br u t) f) + 1 < 2 ^ 64" using Cons.prems(6) True by simp
      show "\<forall>k < fsize (link (Br u t) f). fsize (Br u t # f) \<le> k \<longrightarrow> room k"
        using Cons.prems(8) True by simp
    qed (use s Cons.prems(7) in simp_all)
    with s(1) True show ?thesis by simp
  next
    case False
    with append_loop_last [OF fp Cons.prems(2,3) _ Cons.prems(4,5)] show ?thesis by simp
  qed
qed

lemma bounded_append_ok:
  assumes "mmr_repr invar nodes sha ds st" "digest32 sha" "length ds + 1 < 2 ^ 63"
    and room: "\<forall>k < fsize (forest (ds @ [d])). room k"
  shows "\<exists>st'. mmr_append ops sha d st = (st', Inr (fsize (forest ds))) \<and>
    mmr_repr invar nodes sha (ds @ [d]) st'"
proof -
  let ?f = "forest ds" and ?n = "new_leaf sha (st_size st) d"
  have inv: "invar (st_store st)" "nodes (st_store st) = fnodes sha ?f" "st_size st = fsize ?f"
    "st_peaks st = peaks_of (fpeaks sha ?f)"
    using assms(1) by (simp_all add: mmr_repr_def)
  have cap: "fsize (link (Lf d) ?f) + 1 < 2 ^ 64"
    using fsize_capacity [of "ds @ [d]"] assms(3) by (simp add: forest_snoc)
  have cap1: "fsize (Lf d # ?f) + 1 < 2 ^ 64" using fsize_link [of "Lf d" ?f] cap by linarith
  have leaf: "?n = troot sha (fsize ?f) (Lf d)"
    by (simp add: inv(3) new_leaf_def troot_def)
  then have "node_typed ?n" using troot_typed [OF assms(2), of "Lf d" "fsize ?f"] cap1 by simp
  moreover have "node_index ?n = length (nodes (st_store st))" by (simp add: new_leaf_def inv)
  moreover have "fsize ?f < fsize (forest (ds @ [d]))"
    using fsize_link [of "Lf d" ?f] by (simp add: forest_snoc)
  then have "room (node_index ?n)" using room inv(3) by (simp add: new_leaf_def)
  ultimately obtain s where s: "op_append ops ?n (st_store st) = (s, Inr ())" "invar s"
    "nodes s = fnodes sha ?f @ [?n]"
    using append_E [OF inv(1)] inv(2) by metis
  let ?st = "st\<lparr>st_store := s, st_size := st_size st + 1\<rparr>"
  have "\<exists>st'. append_loop ops sha ?st = (st', Inr ()) \<and> invar (st_store st') \<and>
    nodes (st_store st') = fnodes sha (link (Lf d) ?f) \<and> st_size st' = fsize (link (Lf d) ?f) \<and>
    st_peaks st' = peaks_of (fpeaks sha (link (Lf d) ?f))"
  proof (rule append_loop_ok)
    show "\<forall>p \<in> set (st_peaks ?st). pk_index p + 1 < st_size ?st"
      using inv by (auto simp: peaks_of_def dest: fpeaks_nodes)
  qed (use s inv leaf cap assms(2) room in \<open>simp_all add: linkingI forest_ok_forest forest_snoc\<close>)
  with s(1) inv(3) cap1 show ?thesis
    by (auto simp: mmr_append_def Let_def mmr_repr_def forest_snoc)
qed

lemma bounded_append_all_ok:
  assumes "mmr_repr invar nodes sha ds st" "digest32 sha" "length ds + length es < 2 ^ 63"
    and "\<forall>k < fsize (forest (ds @ es)). room k"
  shows "\<exists>st' is. append_all ops sha es st = (st', Inr is) \<and>
    mmr_repr invar nodes sha (ds @ es) st' \<and>
    is = map (\<lambda>k. 2 * k - popcount k) [length ds..<length ds + length es]"
  using assms
proof (induction es arbitrary: ds st)
  case (Cons e es)
  from Cons.prems obtain st1 where st1: "mmr_append ops sha e st = (st1, Inr (fsize (forest ds)))"
    "mmr_repr invar nodes sha (ds @ [e]) st1"
    using bounded_append_ok [OF Cons.prems(1,2), of e] Cons.prems(4) fsize_forest_mono [of "ds @ [e]" es] by auto
  with Cons.IH [OF st1(2)] Cons.prems obtain st' "is" where
    "append_all ops sha es st1 = (st', Inr is)" "mmr_repr invar nodes sha (ds @ e # es) st'"
    "is = map (\<lambda>k. 2 * k - popcount k) [Suc (length ds)..<Suc (length ds) + length es]"
    by (auto simp del: upt_Suc)
  moreover have "[length ds..<length ds + length (e # es)] =
      length ds # [Suc (length ds)..<Suc (length ds) + length es]"
    by (simp add: upt_conv_Cons del: upt_Suc)
  ultimately show ?case using st1(1) by (simp add: fsize_forest del: upt_Suc)
qed simp

end

text \<open>Over a store without a bound.\<close>

context node_store
begin

lemmas mmr_append_ok = bounded_append_ok [simplified]
lemmas append_all_ok = bounded_append_all_ok [simplified]

end

context node_reader
begin

lemma family_left_ok:
  assumes "invar s" "nodes s = M" "linked sha 0 M" "pos < length M"
    and "h = node_height (M ! pos)" "q = pos + 2 ^ (h + 1)"
  shows "\<exists>s'. family_left ops pos h (length M) q s = (s', Inr
      (if q < length M \<and> node_height (M ! q) = Suc h
       then Some (q - 1, q, False, True) else None)) \<and>
    invar s' \<and> nodes s' = M"
proof -
  have "(2::nat) \<le> 2 ^ (h + 1)" by simp
  then have gt: "pos + 1 < q" unfolding assms(6) by linarith
  show ?thesis
  proof (cases "q - 1 < length M")
    case True
    then obtain s1 where s1: "op_get ops (q - 1) s = (s1, Inr (M ! (q - 1)))" "invar s1" "nodes s1 = M"
      using get_E [OF assms(1), of "q - 1"] assms(2) by auto
    show ?thesis
    proof (cases "q < length M")
      case q: True
      then obtain s2 where s2: "op_get ops q s1 = (s2, Inr (M ! q))" "invar s2" "nodes s2 = M"
        using get_E [OF s1(2), of q] s1(3) by auto
      have "node_height (M ! q) = Suc h \<Longrightarrow> node_height (M ! (q - 1)) = h"
        using linkedD(3) [OF assms(3) q] .
      then show ?thesis
        using s1 s2 True q gt
        by (auto simp: family_left_def Let_def op_bind_def op_return_def)
    next
      case False
      then show ?thesis
        using s1 True gt
        by (auto simp: family_left_def Let_def op_bind_def op_return_def)
    qed
  next
    case False
    then show ?thesis
      using assms(1,2) gt by (auto simp: family_left_def Let_def op_return_def)
  qed
qed

lemma family_right_ok:
  assumes "invar s" "nodes s = M" "linked sha 0 M" "pos < length M"
    and "h = node_height (M ! pos)" "off = 2 ^ (h + 1)"
  shows "\<exists>s'. family_right ops pos h (length M) off (pos + 1) s = (s', Inr
      (if pos + 1 < length M \<and> node_height (M ! (pos + 1)) = Suc h
       then (pos + 1 - off, pos + 1, True, True) else no_family)) \<and>
    invar s' \<and> nodes s' = M"
proof -
  have off: "2 \<le> off" unfolding assms(6) by simp
  have kids: "off \<le> pos + 1" "node_height (M ! (pos + 1 - off)) = h"
    if "pos + 1 < length M" "node_height (M ! (pos + 1)) = Suc h"
    using linkedD(2,4) [OF assms(3) that] by (simp_all only: assms(6))
  show ?thesis
  proof (cases "off \<le> pos + 1")
    case True
    then have l: "pos + 1 - off < length M" "pos + 1 - off \<noteq> pos" using assms(4) off by simp_all
    then obtain s1 where s1: "op_get ops (pos + 1 - off) s = (s1, Inr (M ! (pos + 1 - off)))"
      "invar s1" "nodes s1 = M"
      using get_E [OF assms(1), of "pos + 1 - off"] assms(2) by auto
    show ?thesis
    proof (cases "pos + 1 < length M")
      case q: True
      then obtain s2 where s2: "op_get ops (pos + 1) s1 = (s2, Inr (M ! (pos + 1)))" "invar s2"
        "nodes s2 = M"
        using get_E [OF s1(2), of "pos + 1"] s1(3) by auto
      show ?thesis
        using s1 s2 True l q kids
        by (auto simp: family_right_def Let_def op_bind_def op_return_def)
    qed (use s1 True l in \<open>auto simp: family_right_def Let_def op_bind_def op_return_def\<close>)
  next
    case False
    then show ?thesis
      using assms(1,2) kids by (auto simp: family_right_def op_return_def)
  qed
qed

text \<open>Below \<open>2 ^ 63\<close> nodes no early exit of \<open>find_family\<close> hides a family.\<close>

lemma find_family_ok:
  assumes "invar s" "nodes s = M" "linked sha 0 M" "pos < length M" "length M < 2 ^ 63"
  shows "\<exists>s'. find_family ops pos (node_height (M ! pos)) (length M) s = (s', Inr (family_of M pos)) \<and>
    invar s' \<and> nodes s' = M"
proof -
  define h where "h = node_height (M ! pos)"
  have par: "2 ^ (h + 1) \<le> q"
    if "q < length M" "node_height (M ! q) = Suc h" for q
    using linkedD(2) [OF assms(3) that] .
  show ?thesis
  proof (cases "63 \<le> h \<or> 2 ^ 64 \<le> pos + 2 ^ (h + 1)")
    case True
    have "\<not> (q < length M \<and> node_height (M ! q) = Suc h)"
      if "q = pos + 1 \<or> q = pos + 2 ^ (h + 1)" for q
    proof
      assume q: "q < length M \<and> node_height (M ! q) = Suc h"
      then have "2 ^ (h + 1) \<le> q" "q < 2 ^ 63" using par assms(5) by auto
      then have lt: "(2::nat) ^ (h + 1) < 2 ^ 63" by linarith
      then have "h + 1 < 63" by (rule power_less_imp_less_exp [rotated]) simp
      moreover have "pos + 2 ^ (h + 1) < 2 ^ 64" using lt assms(4,5) by simp
      ultimately show False using True by simp
    qed
    then have "\<not> (pos + 1 < length M \<and> node_height (M ! (pos + 1)) = Suc h)"
      "\<not> (pos + 2 ^ (h + 1) < length M \<and> node_height (M ! (pos + 2 ^ (h + 1))) = Suc h)"
      by blast+
    then have "family_of M pos = no_family"
      unfolding family_of_def Let_def h_def [symmetric] by (simp only: if_False)
    moreover have "find_family ops pos h (length M) s = (s, Inr no_family)"
      using True by (auto simp: find_family_def op_return_def)
    ultimately show ?thesis using assms(1,2) unfolding h_def [symmetric] by simp
  next
    case False
    obtain s1 fam where s1: "family_left ops pos h (length M) (pos + 2 ^ (h + 1)) s = (s1, Inr fam)"
      "invar s1" "nodes s1 = M" and fam: "fam =
      (if pos + 2 ^ (h + 1) < length M \<and> node_height (M ! (pos + 2 ^ (h + 1))) = Suc h
       then Some (pos + 2 ^ (h + 1) - 1, pos + 2 ^ (h + 1), False, True) else None)"
      using family_left_ok [OF assms(1-4) h_def refl] by blast
    obtain s2 where s2: "family_right ops pos h (length M) (2 ^ (h + 1)) (pos + 1) s1 = (s2, Inr
      (if pos + 1 < length M \<and> node_height (M ! (pos + 1)) = Suc h
       then (pos + 1 - 2 ^ (h + 1), pos + 1, True, True) else no_family))"
      "invar s2" "nodes s2 = M"
      using family_right_ok [OF s1(2,3) assms(3,4) h_def refl] by blast
    have p: "pos + 1 < 2 ^ 64" using assms(4,5) by simp
    have "find_family ops pos h (length M) s =
        (case fam of Some x \<Rightarrow> (s1, Inr x)
         | None \<Rightarrow> family_right ops pos h (length M) (2 ^ (h + 1)) (pos + 1) s1)"
      using s1(1) False p
      by (cases fam) (simp_all add: find_family_def Let_def op_bind_def op_return_def del: power_Suc)
    then show ?thesis
      using s1 s2 unfolding h_def [symmetric] family_of_def Let_def fam by auto
  qed
qed

lemma merkle_path_loop_ok:
  assumes "invar s" "nodes s = M" "linked sha 0 M" "pos < length M" "length M < 2 ^ 63"
    and "h = node_height (M ! pos)"
  shows "\<exists>s' path peak. merkle_path_loop ops (length M) pos h acc s = (s', Inr (acc @ path, peak)) \<and>
    invar s' \<and> nodes s' = M \<and> peak < length M \<and> \<not> has_parent M peak \<and>
    path_fold sha (node_hash (M ! pos)) (h + 1) path = node_hash (M ! peak) \<and>
    length path \<le> 63 - h \<and> (\<forall>e \<in> set path. pe_hash e \<in> node_hash ` set M)"
  using assms
proof (induction "63 - h" arbitrary: h pos acc s rule: less_induct)
  case less
  obtain s1 where s1: "find_family ops pos h (length M) s = (s1, Inr (family_of M pos))"
    "invar s1" "nodes s1 = M"
    using find_family_ok [OF less.prems(1-5)] less.prems(6) by blast
  show ?case
    using less.prems(3,4)
  proof (cases rule: family_of_cases)
    case (found sib par right)
    obtain s2 where s2: "op_get ops sib s1 = (s2, Inr (M ! sib))" "invar s2" "nodes s2 = M"
      using get_E [OF s1(2), of sib] s1(3) found(2) by auto
    let ?e = "\<lparr>pe_hash = node_hash (M ! sib), pe_is_left = right\<rparr>"
    have h: "h < 63" using find_family_height [of ops pos h "length M" s] s1(1) found(1) by auto
    then have "63 - (h + 1) < 63 - h" by simp
    from less.hyps [OF this s2(2,3) less.prems(3) found(3) less.prems(5), of "acc @ [?e]"] found(4) less.prems(6)
    obtain s3 path peak where s3: "merkle_path_loop ops (length M) par (h + 1) (acc @ [?e]) s2 =
        (s3, Inr ((acc @ [?e]) @ path, peak))"
      and rest: "invar s3" "nodes s3 = M" "peak < length M" "\<not> has_parent M peak"
        "path_fold sha (node_hash (M ! par)) (h + 1 + 1) path = node_hash (M ! peak)"
      and len: "length path \<le> 63 - (h + 1)" "\<forall>e \<in> set path. pe_hash e \<in> node_hash ` set M"
      by auto
    have "merkle_path_loop ops (length M) pos h acc s = (s3, Inr (acc @ (?e # path), peak))"
      using s1(1) s2(1) s3 found(1) by (subst merkle_path_loop.simps) simp
    moreover have "path_fold sha (node_hash (M ! pos)) (h + 1) (?e # path) = node_hash (M ! peak)"
      using rest(5) found(5) h less.prems(6) by (cases right) (simp_all add: min_def)
    moreover have "length (?e # path) \<le> 63 - h" using len(1) h by simp
    moreover have "\<forall>e \<in> set (?e # path). pe_hash e \<in> node_hash ` set M"
      using len(2) found(2) by simp
    ultimately show ?thesis using rest(1-4) by blast
  next
    case peak
    then have "merkle_path_loop ops (length M) pos h acc s = (s1, Inr (acc @ [], pos))"
      using s1(1) by (subst merkle_path_loop.simps) (simp add: no_family_def)
    then show ?thesis using s1(2,3) less.prems(4) peak(2)
      by (intro exI [of _ s1] exI [of _ "[]"] exI [of _ pos]) simp
  qed
qed

lemma generate_proof_ok:
  assumes "mmr_repr invar nodes sha ds st" "(p, d) \<in> set (fleaves (forest ds))" "length ds < 2 ^ 62"
  shows "\<exists>st' ip. generate_proof ops sha p st = (st', Inr ip) \<and> mmr_repr invar nodes sha ds st' \<and>
    inclusion_verify sha ip d = Inr () \<and> ip_leaf_index ip = p \<and>
    get_root sha st = Inr (ip_root ip) \<and> ip_mmr_size ip = st_size st \<and>
    length (ip_merkle_path ip) \<le> 63 \<and> ip_peak_position ip < length (ip_peaks ip) \<and>
    ip_peaks ip = map node_hash (fpeaks sha (forest ds)) \<and> ip_leaf_hash ip = hash_leaf sha p d \<and>
    (\<forall>e \<in> set (ip_merkle_path ip). pe_hash e \<in> node_hash ` set (fnodes sha (forest ds)))"
proof -
  let ?f = "forest ds" and ?M = "fnodes sha (forest ds)"
  have inv: "invar (st_store st)" "nodes (st_store st) = ?M" "st_size st = fsize ?f"
    "st_peaks st = peaks_of (fpeaks sha ?f)"
    using assms(1) by (simp_all add: mmr_repr_def)
  have lf: "p < fsize ?f" "?M ! p = new_leaf sha p d" using fleaves_node [OF assms(2)] by auto
  then have p: "p < length ?M" by simp
  have cap: "length ?M < 2 ^ 63" using assms(3) by (simp add: fsize_forest)
  have lk: "linked sha 0 ?M" by (rule linked_fnodes [OF perfect_forest])
  have ht0: "0 = node_height (?M ! p)" using lf(2) by (simp add: new_leaf_def)
  obtain s1 where s1: "op_get ops p (st_store st) = (s1, Inr (?M ! p))" "invar s1" "nodes s1 = ?M"
    using get_E [OF inv(1), of p] inv(2) p by auto
  obtain s2 where s2: "op_get ops p s1 = (s2, Inr (?M ! p))" "invar s2" "nodes s2 = ?M"
    using get_E [OF s1(2), of p] s1(3) p by auto
  obtain s3 path peak where s3: "merkle_path_loop ops (fsize ?f) p 0 [] s2 = (s3, Inr (path, peak))"
    "invar s3" "nodes s3 = ?M" and pk: "peak < length ?M" "\<not> has_parent ?M peak"
    "path_fold sha (hash_leaf sha p d) 1 path = node_hash (?M ! peak)"
    and len: "length path \<le> 63" "\<forall>e \<in> set path. pe_hash e \<in> node_hash ` set ?M"
    using merkle_path_loop_ok [OF s2(2,3) lk p cap ht0, of "[]"] lf(2) by (auto simp: new_leaf_def)
  have "peak \<in> set (map node_index (fpeaks sha ?f))"
    using has_parent_fnodes [OF perfect_forest, of peak ds sha] pk(1,2) by auto
  then obtain k where k: "index_of peak (map node_index (fpeaks sha ?f)) = Some k"
    by (metis index_of_None option.exhaust)
  from index_of_Some [OF this] have kp: "k < length ?f" "node_index (fpeaks sha ?f ! k) = peak" by auto
  then have hk: "map node_hash (fpeaks sha ?f) ! k = node_hash (?M ! peak)"
    using fpeaks_nodes [of "fpeaks sha ?f ! k" sha ?f] by simp
  have fp: "find_peaks (fsize ?f) = Inr (map node_index (fpeaks sha ?f))"
    using assms(3) by (intro find_peaks_forest_ok forest_ok_forest fsize_capacity) simp
  have "?f \<noteq> []" using lf(1) by auto
  then have "fpeaks sha ?f \<noteq> []" by (metis length_0_conv length_fpeaks)
  then obtain root where root: "get_root sha st = Inr root"
    "root = bag_peaks sha (map node_hash (fpeaks sha ?f))"
    using get_root_peaks [OF inv(4)] by auto
  let ?ip = "\<lparr>ip_leaf_index = p, ip_leaf_hash = hash_leaf sha p d, ip_merkle_path = path,
      ip_peaks = map node_hash (fpeaks sha ?f), ip_peak_position = k, ip_mmr_size = fsize ?f,
      ip_root = root\<rparr>"
  have "generate_proof ops sha p st = (st\<lparr>st_store := s3\<rparr>, Inr ?ip)"
    using s1(1) s2(1) s3(1) lf inv(3,4) fp k root(1)
    by (auto simp: generate_proof_def op_bind_def op_return_def generate_merkle_path_def
        new_leaf_def get_peaks_def)
  moreover have "inclusion_verify sha ?ip d = Inr ()"
  proof (cases "length ?f = 1")
    case True
    then obtain n where "fpeaks sha ?f = [n]"
      by (metis length_fpeaks One_nat_def length_0_conv length_Suc_conv)
    then show ?thesis using pk(3) hk kp(1) root(2) True by (simp add: inclusion_verify_def bag_peaks_def)
  qed (use pk(3) hk kp(1) root(2) in \<open>simp add: inclusion_verify_def\<close>)
  moreover have "mmr_repr invar nodes sha ds (st\<lparr>st_store := s3\<rparr>)"
    using inv s3 by (simp add: mmr_repr_def)
  ultimately show ?thesis using root(1) inv(3) len kp(1) by (intro exI [of _ "st\<lparr>st_store := s3\<rparr>"] exI [of _ ?ip]) simp
qed

end

subsection \<open>Types of generated proofs\<close>

lemma tnodes_hash_length: "digest32 sha \<Longrightarrow> n \<in> set (tnodes sha b t) \<Longrightarrow> length (node_hash n) = 32"
  by (induction t arbitrary: b) (auto simp: troot_def)

lemma fnodes_hash_length: "digest32 sha \<Longrightarrow> n \<in> set (fnodes sha f) \<Longrightarrow> length (node_hash n) = 32"
  by (induction f) (auto simp: tnodes_hash_length)

lemma fpeaks_hash_length: "digest32 sha \<Longrightarrow> n \<in> set (fpeaks sha f) \<Longrightarrow> length (node_hash n) = 32"
  by (induction f) (auto simp: troot_def)

end
