(* ===== verification/Mmr_Sound.thy ===== *)
theory Mmr_Sound
  imports Mmr_Correct
begin

text \<open>
  Soundness of inclusion proofs. SHA-256 cannot be injective, so the theorem asks only that it
  has no collision among the finitely many inputs hashed by the honest MMR and by the
  verification at hand; a proof that verifies against the root of the MMR then shows a leaf
  that was appended, at its position.
\<close>

subsection \<open>The inputs that are hashed\<close>

fun tree_preimages :: "(bytes \<Rightarrow> bytes) \<Rightarrow> nat \<Rightarrow> tree \<Rightarrow> bytes list" where
  "tree_preimages sha b (Lf d) = [leaf_preimage b d]"
| "tree_preimages sha b (Br l r) =
     internal_preimage (Suc (ht l)) (thash sha b l) (thash sha (b + tsize l) r) #
       tree_preimages sha b l @ tree_preimages sha (b + tsize l) r"

fun bag_preimages :: "(bytes \<Rightarrow> bytes) \<Rightarrow> bytes list \<Rightarrow> bytes list" where
  "bag_preimages sha [] = []"
| "bag_preimages sha [p] = []"
| "bag_preimages sha (p # q # ps) =
     bag_preimage p (bag_peaks sha (q # ps)) # bag_preimages sha (q # ps)"

fun forest_preimages :: "(bytes \<Rightarrow> bytes) \<Rightarrow> tree list \<Rightarrow> bytes list" where
  "forest_preimages sha [] = []"
| "forest_preimages sha (t # f) = forest_preimages sha f @ tree_preimages sha (fsize f) t"

definition mmr_preimages :: "(bytes \<Rightarrow> bytes) \<Rightarrow> bytes list \<Rightarrow> bytes list" where
  "mmr_preimages sha ds = forest_preimages sha (forest ds) @
     bag_preimages sha (map node_hash (fpeaks sha (forest ds)))"

definition elem_preimage :: "bytes \<Rightarrow> nat \<Rightarrow> proof_element \<Rightarrow> bytes" where
  "elem_preimage current height e =
     (if pe_is_left e then internal_preimage height (pe_hash e) current
      else internal_preimage height current (pe_hash e))"

fun path_preimages :: "(bytes \<Rightarrow> bytes) \<Rightarrow> bytes \<Rightarrow> nat \<Rightarrow> proof_element list \<Rightarrow> bytes list" where
  "path_preimages sha current height [] = []"
| "path_preimages sha current height (e # path) =
     elem_preimage current height e #
       path_preimages sha (sha (elem_preimage current height e)) (min 255 (height + 1)) path"

definition verify_preimages :: "(bytes \<Rightarrow> bytes) \<Rightarrow> inclusion_proof \<Rightarrow> bytes \<Rightarrow> bytes list" where
  "verify_preimages sha p d = leaf_preimage (ip_leaf_index p) d #
     path_preimages sha (ip_leaf_hash p) 1 (ip_merkle_path p) @ bag_preimages sha (ip_peaks p)"

definition collision_free :: "(bytes \<Rightarrow> bytes) \<Rightarrow> bytes list \<Rightarrow> bool" where
  "collision_free sha xs \<longleftrightarrow> list_all (\<lambda>x. list_all (\<lambda>y. sha x = sha y \<longrightarrow> x = y) xs) xs"

lemma collision_freeD:
  "collision_free sha xs \<Longrightarrow> x \<in> set xs \<Longrightarrow> y \<in> set xs \<Longrightarrow> sha x = sha y \<Longrightarrow> x = y"
  by (auto simp: collision_free_def list_all_iff)

lemma collision_free_subset: "collision_free sha xs \<Longrightarrow> set ys \<subseteq> set xs \<Longrightarrow> collision_free sha ys"
  by (auto simp: collision_free_def list_all_iff)

subsection \<open>Bagging and paths\<close>

lemma bag_peaks_single [simp]: "bag_peaks sha [p] = p"
  by (simp add: bag_peaks_def)

lemma bag_peaks_Cons [simp]: "bag_peaks sha (p # q # ps) = sha (bag_preimage p (bag_peaks sha (q # ps)))"
  by (simp add: bag_peaks_def hash_bag_def)

definition node_preimage :: "bytes \<Rightarrow> bool" where
  "node_preimage x \<longleftrightarrow> (\<forall>l r. x \<noteq> bag_preimage l r)"

lemma node_preimage_simps [simp]:
  "node_preimage (leaf_preimage i d)" "node_preimage (internal_preimage h l r)"
  "node_preimage (elem_preimage c h e)" "\<not> node_preimage (bag_preimage l r)"
  by (auto simp: node_preimage_def elem_preimage_def)

text \<open>Two lists of peaks with the same root agree wherever one has the hash of a node.\<close>

lemma bag_match:
  assumes "collision_free sha S" "set (bag_preimages sha ps) \<subseteq> set S" "set (bag_preimages sha qs) \<subseteq> set S"
    and "bag_peaks sha ps = bag_peaks sha qs" "k < length ps" "qs \<noteq> []"
    and "ps ! k = sha x" "x \<in> set S" "node_preimage x"
    and "\<forall>q \<in> set qs. \<exists>y \<in> set S. node_preimage y \<and> q = sha y"
    and "\<forall>p \<in> set ps. length p = 32" "\<forall>q \<in> set qs. length q = 32"
  shows "ps ! k \<in> set qs"
  using assms(2-)
proof (induction ps arbitrary: qs k rule: induct_list012)
  case (2 p)
  show ?case
  proof (cases "\<exists>q. qs = [q]")
    case False
    with "2.prems"(5) obtain q q' qs' where qs: "qs = q # q' # qs'" by (metis neq_Nil_conv)
    have "sha x = sha (bag_preimage q (bag_peaks sha (q' # qs')))" using "2.prems"(3,4,6) qs by simp
    moreover have "bag_preimage q (bag_peaks sha (q' # qs')) \<in> set S" using "2.prems"(2) qs by simp
    ultimately have "x = bag_preimage q (bag_peaks sha (q' # qs'))"
      using collision_freeD [OF assms(1) "2.prems"(7)] by blast
    then show ?thesis using "2.prems"(8) by simp
  qed (use "2.prems" in auto)
next
  case (3 p p' ps)
  let ?x = "bag_preimage p (bag_peaks sha (p' # ps))"
  show ?case
  proof (cases "\<exists>q. qs = [q]")
    case True
    then obtain q y where y: "qs = [q]" "y \<in> set S" "node_preimage y" "q = sha y" using "3.prems"(9) by auto
    have "?x = y" by (rule collision_freeD [OF assms(1)]) (use "3.prems"(1,3) y in auto)
    then show ?thesis using y(3) by auto
  next
    case False
    with "3.prems"(5) obtain q q' qs' where qs: "qs = q # q' # qs'" by (metis neq_Nil_conv)
    have "?x = bag_preimage q (bag_peaks sha (q' # qs'))"
      by (rule collision_freeD [OF assms(1)]) (use "3.prems"(1-3) qs in auto)
    then have eq: "p = q" "bag_peaks sha (p' # ps) = bag_peaks sha (q' # qs')"
      using bag_preimage_inj [of p "bag_peaks sha (p' # ps)" q "bag_peaks sha (q' # qs')"] "3.prems"(10,11) qs
      by simp_all
    show ?thesis
    proof (cases k)
      case (Suc j)
      have "(p' # ps) ! j \<in> set (q' # qs')"
        using "3.prems" Suc qs eq(2) by (intro "3.IH"(2)) auto
      then show ?thesis using Suc qs by auto
    qed (use eq(1) qs in simp)
  qed
qed simp

lemma path_fold_elem:
  "path_fold sha c h (e # path) = path_fold sha (sha (elem_preimage c h e)) (min 255 (h + 1)) path"
  by (simp add: elem_preimage_def hash_internal_def)

text \<open>The last step of a path; the height saturates at 255.\<close>

lemma path_snoc:
  assumes "h \<le> 255"
  shows "path_fold sha c h (path @ [e]) =
      sha (elem_preimage (path_fold sha c h path) (min 255 (h + length path)) e)"
    and "path_preimages sha c h (path @ [e]) = path_preimages sha c h path @
      [elem_preimage (path_fold sha c h path) (min 255 (h + length path)) e]"
  using assms
proof (induction path arbitrary: c h)
  case (Cons a path)
  have h: "min 255 (h + 1) \<le> 255" "min 255 (min 255 (h + 1) + length path) = min 255 (h + length (a # path))"
    for h :: nat
    by (simp_all add: min_def)
  { case 1
    show ?case by (simp only: append_Cons path_fold_elem Cons.IH(1) [OF h(1)] h(2))
  next
    case 2
    show ?case
      by (simp only: append_Cons path_preimages.simps path_fold_elem Cons.IH(2) [OF h(1)] h(2)) }
qed (simp_all add: path_fold_elem min_def del: path_fold.simps(2))

lemma length_path_fold:
  "digest32 sha \<Longrightarrow> length c = 32 \<Longrightarrow> length (path_fold sha c h path) = 32"
  by (induction path arbitrary: c h) (simp_all add: if_distrib)

text \<open>A path that ends in the hash of an honest tree started at one of its leaves.\<close>

lemma path_sound:
  assumes "collision_free sha S" "digest32 sha"
    and "set (path_preimages sha (hash_leaf sha i d) 1 path) \<subseteq> set S" "leaf_preimage i d \<in> set S"
    and "set (tree_preimages sha b t) \<subseteq> set S"
    and "path_fold sha (hash_leaf sha i d) 1 path = thash sha b t"
    and "i < 2 ^ 64" "b + tsize t < 2 ^ 64" "ht t < 256" "perfect t"
    and "list_all (\<lambda>e. length (pe_hash e) = 32) path"
  shows "(i, d) \<in> set (tleaves b t)"
  using assms(3-)
proof (induction path arbitrary: b t rule: rev_induct)
  case Nil
  show ?case
  proof (cases t)
    case (Lf d')
    have "leaf_preimage i d = leaf_preimage b d'"
      by (rule collision_freeD [OF assms(1)])
        (use Nil.prems(2-4) Lf in \<open>simp_all add: hash_leaf_def\<close>)
    then show ?thesis using leaf_preimage_inj [of i d b d'] Nil.prems(5,6) Lf by simp
  next
    case (Br l r)
    have "leaf_preimage i d = internal_preimage (Suc (ht l)) (thash sha b l) (thash sha (b + tsize l) r)"
      by (rule collision_freeD [OF assms(1)])
        (use Nil.prems(2-4) Br in \<open>simp_all add: hash_leaf_def hash_internal_def\<close>)
    then show ?thesis by simp
  qed
next
  case (snoc e path)
  let ?c = "path_fold sha (hash_leaf sha i d) 1 path" and ?h = "min 255 (1 + length path)"
  have ps: "path_fold sha (hash_leaf sha i d) 1 (path @ [e]) = sha (elem_preimage ?c ?h e)"
    "path_preimages sha (hash_leaf sha i d) 1 (path @ [e]) =
      path_preimages sha (hash_leaf sha i d) 1 path @ [elem_preimage ?c ?h e]"
    by (simp_all only: path_snoc [of 1 sha])
  have len: "length ?c = 32" using assms(2) by (simp add: length_path_fold)
  have x: "elem_preimage ?c ?h e \<in> set S" using snoc.prems(1) unfolding ps by simp
  have sub: "set (path_preimages sha (hash_leaf sha i d) 1 path) \<subseteq> set S"
    using snoc.prems(1) unfolding ps by simp
  have eq: "sha (elem_preimage ?c ?h e) = thash sha b t" using snoc.prems(4) unfolding ps .
  show ?case
  proof (cases t)
    case (Lf d')
    have "elem_preimage ?c ?h e = leaf_preimage b d'"
      by (rule collision_freeD [OF assms(1)])
        (use x eq snoc.prems(3) Lf in \<open>simp_all only: hash_leaf_def thash.simps, simp\<close>)
    then show ?thesis by (auto simp: elem_preimage_def split: if_splits dest: sym)
  next
    case (Br l r)
    let ?L = "thash sha b l" and ?R = "thash sha (b + tsize l) r"
    have pre: "elem_preimage ?c ?h e = internal_preimage (Suc (ht l)) ?L ?R"
      by (rule collision_freeD [OF assms(1)])
        (use x eq snoc.prems(3) Br in \<open>simp_all only: hash_internal_def thash.simps, simp\<close>)
    have "(pe_is_left e \<and> ?c = ?R) \<or> (\<not> pe_is_left e \<and> ?c = ?L)"
      using pre snoc.prems(7,9) Br len assms(2)
        internal_preimage_inj [of ?h "pe_hash e" ?c "Suc (ht l)" ?L ?R]
        internal_preimage_inj [of ?h ?c "pe_hash e" "Suc (ht l)" ?L ?R]
      by (auto simp: elem_preimage_def split: if_splits)
    then show ?thesis
    proof
      assume "pe_is_left e \<and> ?c = ?R"
      then have "(i, d) \<in> set (tleaves (b + tsize l) r)"
        using snoc.prems(2-) Br sub by (intro snoc.IH) auto
      then show ?thesis using Br by simp
    next
      assume "\<not> pe_is_left e \<and> ?c = ?L"
      then have "(i, d) \<in> set (tleaves b l)"
        using snoc.prems(2-) Br sub by (intro snoc.IH) auto
      then show ?thesis using Br by simp
    qed
  qed
qed

subsection \<open>The honest peaks\<close>

lemma thash_preimage: "\<exists>y \<in> set (tree_preimages sha b t). node_preimage y \<and> thash sha b t = sha y"
  by (cases t) (auto simp: hash_leaf_def hash_internal_def)

lemma fpeaks_hashes:
  "q \<in> set (map node_hash (fpeaks sha f)) \<Longrightarrow>
   \<exists>t b. t \<in> set f \<and> q = thash sha b t \<and> b + tsize t \<le> fsize f \<and>
     set (tree_preimages sha b t) \<subseteq> set (forest_preimages sha f) \<and>
     set (tleaves b t) \<subseteq> set (fleaves f)"
proof (induction f)
  case (Cons t f)
  then consider "q = thash sha (fsize f) t" | "q \<in> set (map node_hash (fpeaks sha f))"
    by (auto simp: troot_def)
  then show ?case
  proof cases
    case 1
    then show ?thesis by (intro exI [of _ t] exI [of _ "fsize f"]) simp
  next
    case 2
    with Cons.IH obtain t' b where "t' \<in> set f" "q = thash sha b t'" "b + tsize t' \<le> fsize f"
      "set (tree_preimages sha b t') \<subseteq> set (forest_preimages sha f)"
      "set (tleaves b t') \<subseteq> set (fleaves f)" by blast
    then show ?thesis by (intro exI [of _ t'] exI [of _ b]) auto
  qed
qed simp

lemma inclusion_verify_facts:
  assumes "inclusion_verify sha p d = Inr ()"
  shows "ip_leaf_hash p = hash_leaf sha (ip_leaf_index p) d"
    and "ip_peak_position p < length (ip_peaks p)"
    and "path_fold sha (ip_leaf_hash p) 1 (ip_merkle_path p) = ip_peaks p ! ip_peak_position p"
    and "bag_peaks sha (ip_peaks p) = ip_root p"
  using assms
  by (auto simp: inclusion_verify_def Let_def length_Suc_conv split: if_splits)

lemma path_end_preimage:
  assumes "c = sha x" "x \<in> set S" "node_preimage x" "set (path_preimages sha c 1 path) \<subseteq> set S"
  shows "\<exists>y \<in> set S. node_preimage y \<and> path_fold sha c 1 path = sha y"
proof (cases path rule: rev_cases)
  case (snoc ys e)
  let ?y = "elem_preimage (path_fold sha c 1 ys) (min 255 (1 + length ys)) e"
  have "path_fold sha c 1 path = sha ?y" "?y \<in> set S"
    using assms(4) unfolding snoc by (simp_all only: path_snoc [of 1 sha]) simp_all
  then show ?thesis using node_preimage_simps(3) by blast
qed (use assms in auto)

lemma inclusion_sound:
  assumes "digest32 sha" "proof_typed p" "length ds < 2 ^ 63"
    and "collision_free sha (verify_preimages sha p d @ mmr_preimages sha ds)"
    and "inclusion_verify sha p d = Inr ()" "ds \<noteq> []"
    and "ip_root p = bag_peaks sha (map node_hash (fpeaks sha (forest ds)))"
  shows "(ip_leaf_index p, d) \<in> set (fleaves (forest ds))"
proof -
  let ?S = "verify_preimages sha p d @ mmr_preimages sha ds"
  let ?qs = "map node_hash (fpeaks sha (forest ds))"
  note v = inclusion_verify_facts [OF assms(5)]
  have ne: "?qs \<noteq> []" using assms(6) map_snd_fleaves_forest [of ds] fpeaks_hash by fastforce
  have "leaf_preimage (ip_leaf_index p) d \<in> set ?S"
    "set (path_preimages sha (ip_leaf_hash p) 1 (ip_merkle_path p)) \<subseteq> set ?S"
    by (auto simp: verify_preimages_def)
  from path_end_preimage [OF v(1) [unfolded hash_leaf_def] this(1) _ this(2)]
  obtain y where y: "y \<in> set ?S" "node_preimage y"
    "path_fold sha (ip_leaf_hash p) 1 (ip_merkle_path p) = sha y"
    by auto
  have honest: "\<exists>y \<in> set ?S. node_preimage y \<and> q = sha y" "length q = 32" if "q \<in> set ?qs" for q
    using fpeaks_hashes [OF that] thash_preimage [of sha] assms(1)
    by (fastforce simp: mmr_preimages_def)+
  have "ip_peaks p ! ip_peak_position p \<in> set ?qs"
    using assms(2,7) v ne y honest
    by (intro bag_match [OF assms(4), where x = y])
      (auto simp: verify_preimages_def mmr_preimages_def proof_typed_def list_all_iff)
  from fpeaks_hashes [OF this] obtain t b where t: "t \<in> set (forest ds)"
    "path_fold sha (ip_leaf_hash p) 1 (ip_merkle_path p) = thash sha b t"
    "b + tsize t \<le> fsize (forest ds)"
    "set (tree_preimages sha b t) \<subseteq> set (forest_preimages sha (forest ds))"
    "set (tleaves b t) \<subseteq> set (fleaves (forest ds))"
    using v(3) by auto
  have pf: "perfect t" using perfect_forest t(1) by blast
  have cap: "b + tsize t < 2 ^ 64" using t(3) fsize_capacity [OF assms(3)] by linarith
  then have "ht t < 256" using ht_bound [OF pf] by linarith
  then have "(ip_leaf_index p, d) \<in> set (tleaves b t)"
    using t assms(2) v(1) pf cap
    by (intro path_sound [OF assms(4,1)])
      (auto simp: verify_preimages_def mmr_preimages_def proof_typed_def)
  then show ?thesis using t(5) by blast
qed

end
