(* ===== verification/Mmr_Codec.thy ===== *)
theory Mmr_Codec
  imports Mmr_Proof
begin

text \<open>
  The binary formats of the proofs: what is serialized is read back, what is read is
  well-typed and keeps the limits the deserializers promise.
\<close>

subsection \<open>Paths and lists of hashes\<close>

lemma path_bytes_simps [simp]:
  "path_bytes [] = []"
  "path_bytes (e # es) = pe_hash e @ [if pe_is_left e then 1 else 0] @ path_bytes es"
  by (simp_all add: path_bytes_def)

lemma length_path_bytes:
  "list_all (\<lambda>e. length (pe_hash e) = 32) es \<Longrightarrow> length (path_bytes es) = 33 * length es"
  by (induction es) auto

lemma length_concat_32: "list_all (\<lambda>h. length h = 32) hs \<Longrightarrow> length (concat hs) = 32 * length hs"
  by (induction hs) auto

lemma read_path_ok:
  assumes "list_all (\<lambda>e. length (pe_hash e) = 32) es" "drop off data = path_bytes es @ post"
    and "n = length es"
  shows "read_path n data off = Inr (es, off + 33 * length es)"
  using assms
proof (induction es arbitrary: off n)
  case (Cons e es)
  let ?b = "if pe_is_left e then 1 else (0::byte)"
  have at: "drop off data = pe_hash e @ [?b] @ path_bytes es @ post" using Cons.prems(2) by simp
  have len: "length data = off + 33 + length (path_bytes es @ post)"
    using length_at [OF at] Cons.prems(1) by simp
  have tl: "drop (off + 33) data = path_bytes es @ post"
    using drop_at [of off data "pe_hash e @ [?b]" "path_bytes es @ post"] at Cons.prems(1)
    by (simp add: add.commute)
  have h: "slice off (off + 32) data = pe_hash e"
    using slice_at [OF at] Cons.prems(1) by simp
  have "data ! (off + 32) = drop off data ! 32" using len by simp
  also have "\<dots> = ?b" unfolding at using Cons.prems(1) by (simp add: nth_append)
  finally have b: "(data ! (off + 32) = 1) = pe_is_left e" by simp
  show ?case
    using Cons.IH [OF _ tl refl] Cons.prems(1,3) len h b by (simp add: res_bind_def)
qed simp

lemma read_hashes_ok:
  assumes "list_all (\<lambda>h. length h = 32) hs" "drop off data = concat hs @ post" "n = length hs"
  shows "read_hashes n data off = Inr (hs, off + 32 * length hs)"
  using assms
proof (induction hs arbitrary: off n)
  case (Cons h hs)
  have at: "drop off data = h @ concat hs @ post" using Cons.prems(2) by simp
  have "h \<noteq> []" using Cons.prems(1) by auto
  then have len: "length data = off + 32 + length (concat hs @ post)"
    using length_at [OF at] Cons.prems(1) by simp
  have tl: "drop (off + 32) data = concat hs @ post" "slice off (off + 32) data = h"
    using drop_at [OF at] slice_at [OF at] Cons.prems(1) by simp_all
  show ?case using Cons.IH [OF _ tl(1) refl] Cons.prems(1,3) len tl(2) by (simp add: res_bind_def)
qed simp

lemma read_u64s_ok:
  assumes "list_all (\<lambda>i. i < 2 ^ 64) is" "drop off data = concat (map (be 8) is) @ post" "n = length is"
  shows "read_u64s n data off = Inr (is, off + 8 * length is)"
  using assms
proof (induction "is" arbitrary: off n)
  case (Cons i "is")
  have at: "drop off data = be 8 i @ concat (map (be 8) is) @ post" using Cons.prems(2) by simp
  have "be 8 i \<noteq> []" using length_be [of 8 i] by (metis list.size(3) zero_neq_numeral)
  then have len: "length data = off + 8 + length (concat (map (be 8) is) @ post)"
    using length_at [OF at] by simp
  have tl: "drop (off + 8) data = concat (map (be 8) is) @ post" "slice off (off + 8) data = be 8 i"
    using drop_at [OF at] slice_at [OF at] by simp_all
  have "be_val (be 8 i) = i" using Cons.prems(1) by (simp add: byte_simps)
  then show ?case
    using Cons.IH [OF _ tl(1) refl] Cons.prems(1,3) len tl(2) by (simp add: res_bind_def)
qed simp

subsection \<open>The fields both formats end with\<close>

text \<open>\<open>tail_at off data path peaks pos sz root\<close>: from \<open>off\<close> on, \<open>data\<close> holds the path, the
  peaks, the peak position, the MMR size and the root, and nothing else.\<close>

definition tail_at ::
    "nat \<Rightarrow> bytes \<Rightarrow> proof_element list \<Rightarrow> bytes list \<Rightarrow> nat \<Rightarrow> nat \<Rightarrow> bytes \<Rightarrow> bool" where
  "tail_at off data path peaks pos sz root \<longleftrightarrow>
     drop off data = be 2 (length path) @ path_bytes path @ be 2 (length peaks) @ concat peaks @
       be 2 pos @ be 8 sz @ root \<and>
     list_all (\<lambda>e. length (pe_hash e) = 32) path \<and> list_all (\<lambda>h. length h = 32) peaks \<and>
     length path < 2 ^ 16 \<and> length peaks < 2 ^ 16 \<and> pos < length peaks \<and> sz < 2 ^ 64 \<and>
     length root = 32"

lemma tail_path:
  assumes "tail_at off data path peaks pos sz root"
  shows "be_val (slice off (off + 2) data) = length path"
    and "read_path (length path) data (off + 2) = Inr (path, off + 2 + 33 * length path)"
    and "drop (off + 2 + 33 * length path) data =
      be 2 (length peaks) @ concat peaks @ be 2 pos @ be 8 sz @ root"
    and "length data = off + 33 * length path + 32 * length peaks + 46"
proof -
  note t = assms [unfolded tail_at_def]
  let ?rest = "be 2 (length peaks) @ concat peaks @ be 2 pos @ be 8 sz @ root"
  have ok: "list_all (\<lambda>e. length (pe_hash e) = 32) path" "list_all (\<lambda>h. length h = 32) peaks"
    using t by simp_all
  have a0: "drop off data = be 2 (length path) @ path_bytes path @ ?rest" using t by simp
  have a1: "drop (off + 2) data = path_bytes path @ ?rest" by (rule drop_at [OF a0]) simp
  show "be_val (slice off (off + 2) data) = length path"
    by (rule be_val_field [OF a0]) (use t in simp_all)
  show "read_path (length path) data (off + 2) = Inr (path, off + 2 + 33 * length path)"
    by (rule read_path_ok [OF ok(1) a1 refl])
  show "drop (off + 2 + 33 * length path) data = ?rest"
    by (rule drop_at [OF a1]) (simp add: length_path_bytes [OF ok(1)])
  show "length data = off + 33 * length path + 32 * length peaks + 46"
    using length_at [OF a0] t by (simp add: length_path_bytes [OF ok(1)] length_concat_32 [OF ok(2)])
qed

lemma tail_peaks:
  assumes "tail_at off data path peaks pos sz root"
    and "o2 = off + 2 + 33 * length path" "o3 = o2 + 2 + 32 * length peaks"
  shows "be_val (slice o2 (o2 + 2) data) = length peaks"
    and "read_hashes (length peaks) data (o2 + 2) = Inr (peaks, o3)"
    and "be_val (slice o3 (o3 + 2) data) = pos"
    and "be_val (slice (o3 + 2) (o3 + 2 + 8) data) = sz"
    and "slice (o3 + 2 + 8) (o3 + 2 + 40) data = root"
proof -
  note t = assms(1) [unfolded tail_at_def]
  have ok: "list_all (\<lambda>h. length h = 32) peaks" using t by simp
  have a2: "drop o2 data = be 2 (length peaks) @ concat peaks @ be 2 pos @ be 8 sz @ root"
    using tail_path(3) [OF assms(1)] by (simp add: assms(2))
  have a3: "drop (o2 + 2) data = concat peaks @ be 2 pos @ be 8 sz @ root" by (rule drop_at [OF a2]) simp
  have a4: "drop o3 data = be 2 pos @ be 8 sz @ root"
    by (rule drop_at [OF a3]) (simp add: assms(3) length_concat_32 [OF ok])
  have a5: "drop (o3 + 2) data = be 8 sz @ root" by (rule drop_at [OF a4]) simp
  have a6: "drop (o3 + 2 + 8) data = root @ []" using drop_at [OF a5, of "o3 + 2 + 8"] by simp
  show "be_val (slice o2 (o2 + 2) data) = length peaks"
    by (rule be_val_field [OF a2]) (use t in simp_all)
  show "read_hashes (length peaks) data (o2 + 2) = Inr (peaks, o3)"
    unfolding assms(3) by (rule read_hashes_ok [OF ok a3 refl])
  show "be_val (slice o3 (o3 + 2) data) = pos" by (rule be_val_field [OF a4]) (use t in simp_all)
  show "be_val (slice (o3 + 2) (o3 + 2 + 8) data) = sz"
    by (rule be_val_field [OF a5]) (use t in simp_all)
  show "slice (o3 + 2 + 8) (o3 + 2 + 40) data = root" by (rule slice_at [OF a6]) (use t in simp)
qed

subsection \<open>Round trips\<close>

lemma inclusion_deserialize_tail:
  assumes "tail_at 42 data path peaks pos sz root" "data ! 0 = PROOF_VERSION"
    and "data ! 1 = PROOF_TYPE_INCLUSION"
  shows "inclusion_deserialize data = Inr \<lparr>ip_leaf_index = be_val (slice 2 10 data),
    ip_leaf_hash = slice 10 42 data, ip_merkle_path = path, ip_peaks = peaks,
    ip_peak_position = pos, ip_mmr_size = sz, ip_root = root\<rparr>"
proof -
  define o2 where "o2 = 44 + 33 * length path"
  define o3 where "o3 = o2 + 2 + 32 * length peaks"
  have eq: "o2 = 42 + 2 + 33 * length path" by (simp add: o2_def)
  note p = tail_path [OF assms(1)] and k = tail_peaks [OF assms(1) eq o3_def]
  have len: "length data = o3 + 42" using p(4) by (simp add: o3_def o2_def)
  have pos: "pos < length peaks" using assms(1) by (simp add: tail_at_def)
  have "read_path (length path) data 44 = Inr (path, o2)" using p(2) by (simp add: o2_def)
  moreover have "be_val (slice 42 44 data) = length path" using p(1) by simp
  moreover have "\<not> length data < 86" "\<not> length data < 44 + length path * 33"
    "\<not> length data < o2 + 2" "\<not> length data < o3 + 2" "\<not> length data < o3 + 2 + 8 + 32"
    using len pos by (simp_all add: o3_def o2_def)
  moreover have "\<not> (peaks = [] \<or> length peaks \<le> pos)" using pos by auto
  ultimately show ?thesis
    using k assms(2,3) unfolding inclusion_deserialize_def Let_def res_bind_def
    by (simp only: if_False if_True sum.case prod.case not_not refl HOL.simp_thms)
qed

lemma range_deserialize_tail_ok:
  assumes "tail_at off data path peaks pos sz root" "length is = length hs" "s \<le> e" "e < 2 ^ 64"
    and "length is = e - s + 1" "length is < 2 ^ 16"
  shows "range_deserialize_tail data s e is hs off = Inr \<lparr>rp_start_leaf = s, rp_end_leaf = e,
    rp_leaf_indices = is, rp_leaf_hashes = hs, rp_sibling_path = path, rp_peaks = peaks,
    rp_peak_position = pos, rp_mmr_size = sz, rp_root = root\<rparr>"
proof -
  define o2 where "o2 = off + 2 + 33 * length path"
  define o3 where "o3 = o2 + 2 + 32 * length peaks"
  note p = tail_path [OF assms(1), folded o2_def] and k = tail_peaks [OF assms(1) o2_def o3_def]
  have len: "length data = o3 + 42" using p(4) by (simp add: o3_def o2_def)
  have pos: "pos < length peaks" using assms(1) by (simp add: tail_at_def)
  have "\<not> length data < off + 2"
    "\<not> length data < o2 + 2" "\<not> length data < o3 + 2" "\<not> length data < o3 + 2 + 8 + 32"
    using len pos by (simp_all add: o3_def o2_def)
  moreover have "\<not> (peaks = [] \<or> length peaks \<le> pos)" using pos by auto
  moreover have "\<not> e < s" "\<not> 2 ^ 64 \<le> e - s + 1" using assms(3-6) by simp_all
  ultimately show ?thesis
    using p(1,2) k assms(2,5) unfolding range_deserialize_tail_def Let_def res_bind_def
    by (simp only: if_False if_True sum.case prod.case not_not refl HOL.simp_thms)
qed

lemma inclusion_roundtrip:
  assumes "proof_typed p" "length (ip_merkle_path p) < 2 ^ 16" "length (ip_peaks p) < 2 ^ 16"
    and "ip_peak_position p < length (ip_peaks p)"
  shows "\<exists>data. inclusion_serialize p = Inr data \<and> inclusion_deserialize data = Inr p"
proof -
  let ?tail = "be 2 (length (ip_merkle_path p)) @ path_bytes (ip_merkle_path p) @
    be 2 (length (ip_peaks p)) @ concat (ip_peaks p) @ be 2 (ip_peak_position p) @
    be 8 (ip_mmr_size p) @ ip_root p"
  define data where "data = [PROOF_VERSION, PROOF_TYPE_INCLUSION] @ be 8 (ip_leaf_index p) @
    ip_leaf_hash p @ ?tail"
  have ser: "inclusion_serialize p = Inr data"
    using assms(2-4) by (simp add: inclusion_serialize_def data_def)
  have ty: "length (ip_leaf_hash p) = 32" "ip_leaf_index p < 2 ^ 64"
    using assms(1) by (simp_all add: proof_typed_def)
  have a1: "drop 2 data = be 8 (ip_leaf_index p) @ ip_leaf_hash p @ ?tail"
    by (simp add: data_def)
  have a2: "drop 10 data = ip_leaf_hash p @ ?tail" by (rule drop_at [OF a1]) simp
  have a3: "drop 42 data = ?tail" by (rule drop_at [OF a2]) (simp add: ty)
  have "be_val (slice 2 10 data) = ip_leaf_index p" "slice 10 42 data = ip_leaf_hash p"
    using be_val_field [OF a1] slice_at [OF a2] ty by simp_all
  moreover have "tail_at 42 data (ip_merkle_path p) (ip_peaks p) (ip_peak_position p)
      (ip_mmr_size p) (ip_root p)"
    using assms a3 by (simp add: tail_at_def proof_typed_def)
  from inclusion_deserialize_tail [OF this]
  have "inclusion_deserialize data = Inr \<lparr>ip_leaf_index = be_val (slice 2 10 data),
    ip_leaf_hash = slice 10 42 data, ip_merkle_path = ip_merkle_path p, ip_peaks = ip_peaks p,
    ip_peak_position = ip_peak_position p, ip_mmr_size = ip_mmr_size p, ip_root = ip_root p\<rparr>"
    by (simp add: data_def)
  ultimately show ?thesis using ser by simp
qed

text \<open>A range proof as its generator and its deserializer build it.\<close>

definition range_shaped :: "range_proof \<Rightarrow> bool" where
  "range_shaped p \<longleftrightarrow> rp_start_leaf p \<le> rp_end_leaf p \<and>
     length (rp_leaf_indices p) = length (rp_leaf_hashes p) \<and>
     length (rp_leaf_indices p) = rp_end_leaf p - rp_start_leaf p + 1 \<and>
     rp_peak_position p < length (rp_peaks p)"

lemma range_roundtrip:
  assumes "range_typed p" "range_shaped p" "length (rp_leaf_hashes p) < 2 ^ 16"
    and "length (rp_sibling_path p) < 2 ^ 16" "length (rp_peaks p) < 2 ^ 16"
  shows "\<exists>data. range_serialize p = Inr data \<and> range_deserialize data = Inr p"
proof -
  let ?tail = "be 2 (length (rp_sibling_path p)) @ path_bytes (rp_sibling_path p) @
    be 2 (length (rp_peaks p)) @ concat (rp_peaks p) @ be 2 (rp_peak_position p) @
    be 8 (rp_mmr_size p) @ rp_root p"
  let ?is = "rp_leaf_indices p" and ?hs = "rp_leaf_hashes p"
  let ?body = "concat (map (be 8) ?is) @ concat ?hs @ ?tail"
  define data where "data = [PROOF_VERSION, PROOF_TYPE_RANGE] @ be 8 (rp_start_leaf p) @
    be 8 (rp_end_leaf p) @ be 2 (length ?hs) @ ?body"
  have sh: "rp_start_leaf p \<le> rp_end_leaf p" "length ?is = length ?hs"
    "length ?is = rp_end_leaf p - rp_start_leaf p + 1" "rp_peak_position p < length (rp_peaks p)"
    using assms(2) by (simp_all add: range_shaped_def)
  have ty: "rp_start_leaf p < 2 ^ 64" "rp_end_leaf p < 2 ^ 64" "list_all (\<lambda>i. i < 2 ^ 64) ?is"
    "list_all (\<lambda>h. length h = 32) ?hs"
    using assms(1) by (simp_all add: range_typed_def)
  have ser: "range_serialize p = Inr data"
    using assms(3-5) sh by (simp add: range_serialize_def data_def)
  have a1: "drop 2 data = be 8 (rp_start_leaf p) @ be 8 (rp_end_leaf p) @ be 2 (length ?hs) @ ?body"
    by (simp add: data_def)
  have a2: "drop 10 data = be 8 (rp_end_leaf p) @ be 2 (length ?hs) @ ?body"
    by (rule drop_at [OF a1]) simp
  have a3: "drop 18 data = be 2 (length ?hs) @ ?body" by (rule drop_at [OF a2]) simp
  have a4: "drop 20 data = ?body" by (rule drop_at [OF a3]) simp
  define o1 o2 where "o1 = 20 + 8 * length ?is" and "o2 = o1 + 32 * length ?hs"
  have "length (concat (map (be 8) xs)) = 8 * length xs" for xs by (induction xs) simp_all
  then have a5: "drop o1 data = concat ?hs @ ?tail" by (intro drop_at [OF a4]) (simp add: o1_def)
  have a6: "drop o2 data = ?tail"
    by (rule drop_at [OF a5]) (simp add: o2_def length_concat_32 [OF ty(4)])
  have t: "tail_at o2 data (rp_sibling_path p) (rp_peaks p) (rp_peak_position p) (rp_mmr_size p) (rp_root p)"
    using assms(1,4,5) sh(4) a6 by (simp add: tail_at_def range_typed_def)
  have "\<not> length data < 64" using tail_path(4) [OF t] sh by (simp add: o2_def o1_def)
  moreover have "be_val (slice 2 10 data) = rp_start_leaf p" "be_val (slice 10 18 data) = rp_end_leaf p"
    "be_val (slice 18 20 data) = length ?hs"
    using be_val_field [OF a1] be_val_field [OF a2] be_val_field [OF a3] ty assms(3) by simp_all
  moreover have "read_u64s (length ?hs) data 20 = Inr (?is, o1)"
    using read_u64s_ok [OF ty(3) a4 sh(2) [symmetric]] by (simp add: o1_def)
  moreover have "read_hashes (length ?hs) data o1 = Inr (?hs, o2)"
    using read_hashes_ok [OF ty(4) a5 refl] by (simp add: o2_def)
  moreover have "range_deserialize_tail data (rp_start_leaf p) (rp_end_leaf p) ?is ?hs o2 = Inr p"
    using range_deserialize_tail_ok [OF t sh(2,1) ty(2) sh(3)] sh(2) assms(3) by simp
  moreover have "data ! 0 = PROOF_VERSION" "data ! 1 = PROOF_TYPE_RANGE" by (simp_all add: data_def)
  ultimately show ?thesis using ser by (simp add: range_deserialize_def res_bind_def)
qed

subsection \<open>What is read is well-typed\<close>

lemma read_path_typed:
  "read_path n data off = Inr (es, off') \<Longrightarrow>
   list_all (\<lambda>e. length (pe_hash e) = 32) es \<and> length es = n \<and> off' = off + 33 * n"
  by (induction n data off arbitrary: es off' rule: read_path.induct)
    (auto simp: res_bind_Inr_iff split: if_splits)

lemma read_hashes_typed:
  "read_hashes n data off = Inr (hs, off') \<Longrightarrow>
   list_all (\<lambda>h. length h = 32) hs \<and> length hs = n \<and> off' = off + 32 * n"
  by (induction n data off arbitrary: hs off' rule: read_hashes.induct)
    (auto simp: res_bind_Inr_iff split: if_splits)

lemma inclusion_deserialize_typed:
  assumes "inclusion_deserialize data = Inr p"
  shows "proof_typed p \<and> ip_peak_position p < length (ip_peaks p)"
  using assms
  by (auto simp: inclusion_deserialize_def Let_def res_bind_Inr_iff proof_typed_def be_val_u64 [simplified]
      dest: read_path_typed read_hashes_typed split: if_splits)

end
