(* ===== verification/Mmr_Props.thy ===== *)
theory Mmr_Props
  imports Mmr_Sound Mmr_Codec
begin

text \<open>
  The properties of the Merkle Mountain Range over its two stores. They rest on the lemmas of
  the locales \<open>node_store\<close>, \<open>bounded_store\<close> and \<open>node_reader\<close> through their interpretations
  \<open>mem\<close> (the memory store), \<open>fresh\<close> (a file store before its first sync) and \<open>settled\<close> (a file
  store that is only read).
\<close>

subsection \<open>Shared lemmas\<close>

lemma mem_repr_empty: "\<exists>st. mmr_new memory_ops memory_new = Inr st \<and> mmr_repr (\<lambda>_. True) ms_nodes sha [] st"
  by (rule mem.mmr_new_ok) (simp_all add: memory_new_def)

lemma file_open_empty: "\<exists>s. file_open [] [] = Inr s \<and> file_fresh s \<and> file_nodes s = []"
  by (simp add: file_open_def Let_def op_bind_def file_fresh_def file_nodes_def)

lemma append_all_mem:
  assumes "digest32 sha" "length ds < 2 ^ 63" "mmr_new memory_ops memory_new = Inr st0"
  shows "\<exists>st. append_all memory_ops sha ds st0 =
      (st, Inr (map (\<lambda>k. 2 * k - popcount k) [0..<length ds])) \<and>
    mmr_repr (\<lambda>_. True) ms_nodes sha ds st"
proof -
  have "mmr_repr (\<lambda>_. True) ms_nodes sha [] st0" using mem_repr_empty [of sha] assms(3) by auto
  from mem.append_all_ok [OF this assms(1), of ds] assms(2) show ?thesis by auto
qed

lemma small_forest: "length ds \<le> 51 \<Longrightarrow> fsize (forest ds) \<le> 100"
proof (cases "length ds = 51")
  case True
  have "popcount 51 = 4" by code_simp
  with True show ?thesis by (simp add: fsize_forest)
qed (simp add: fsize_forest)

lemma append_all_fresh:
  assumes "digest32 sha" "length ds \<le> 51" "file_open [] [] = Inr s" "mmr_new file_ops s = Inr st0"
  shows "\<exists>st. append_all file_ops sha ds st0 =
      (st, Inr (map (\<lambda>k. 2 * k - popcount k) [0..<length ds])) \<and>
    mmr_repr file_fresh file_nodes sha ds st"
proof -
  have "file_fresh s" "file_nodes s = fnodes sha (forest [])" using file_open_empty assms(3) by auto
  from fresh.mmr_new_ok [OF this] assms(4) have "mmr_repr file_fresh file_nodes sha [] st0" by auto
  from fresh.bounded_append_all_ok [OF this assms(1), of ds] assms(2) small_forest [OF assms(2)] show ?thesis
    by (auto simp: AUTO_SYNC_THRESHOLD_def)
qed

lemma nth_leaf_mem:
  assumes "i < length ds"
  shows "(2 * i - popcount i, ds ! i) \<in> set (fleaves (forest ds))"
  using fleaves_forest_nth [OF assms] nth_mem [of i "fleaves (forest ds)"] assms
  by (simp add: fsize_forest min_def)

lemma fleaves_index:
  assumes "(p, d) \<in> set (fleaves (forest ds))"
  shows "\<exists>i < length ds. p = 2 * i - popcount i \<and> d = ds ! i"
proof -
  from assms obtain i where "i < length ds" "fleaves (forest ds) ! i = (p, d)"
    by (auto simp: in_set_conv_nth)
  then show ?thesis using fleaves_forest_nth [of i ds] by (auto simp: fsize_forest min_def)
qed

lemma repr_root:
  assumes "mmr_repr invar nodes sha ds st"
  shows "get_root sha st = (if ds = [] then Inl Empty
    else Inr (bag_peaks sha (map node_hash (fpeaks sha (forest ds)))))"
proof (cases "ds = []")
  case False
  then have "forest ds \<noteq> []" using map_snd_fleaves_forest [of ds] by force
  then have "fpeaks sha (forest ds) \<noteq> []" by (metis length_0_conv length_fpeaks)
  with False assms get_root_peaks show ?thesis by (auto simp: mmr_repr_def)
qed (use assms in \<open>simp add: mmr_repr_def get_root_def peaks_of_def\<close>)

text \<open>A hash for the witnesses: 32 copies of a byte that depends on all of the input.\<close>

definition toy_sha :: "bytes \<Rightarrow> bytes" where
  "toy_sha x = replicate 32 (sum_list x + word_of_nat (length x))"

lemma digest32_toy [simp]: "digest32 toy_sha"
  by (simp add: digest32_def toy_sha_def)

subsection \<open>Appending\<close>

text \<open>C16: Appending the leaves \<open>ds\<close> to a new MMR over the memory store succeeds, returns the
  positions \<open>2 k - popcount k\<close>, and leaves a store, a size and peaks that are those of the
  abstract forest of \<open>ds\<close>.\<close>

theorem mmr_append_refines:
  assumes "digest32 sha" "length ds < 2 ^ 63" "mmr_new memory_ops memory_new = Inr st0"
  shows "\<exists>st. append_all memory_ops sha ds st0 =
      (st, Inr (map (\<lambda>k. 2 * k - popcount k) [0..<length ds])) \<and>
    ms_nodes (st_store st) = fnodes sha (forest ds) \<and> st_size st = fsize (forest ds) \<and>
    st_peaks st = peaks_of (fpeaks sha (forest ds))"
  using append_all_mem [OF assms] by (auto simp: mmr_repr_def)

theorem mmr_append_refines_witness:
  "\<exists>st0 st. mmr_new memory_ops memory_new = Inr st0 \<and>
     append_all memory_ops toy_sha [[1], [2], [3]] st0 = (st, Inr [0, 1, 3]) \<and> st_size st = 4"
proof -
  obtain st0 where st0: "mmr_new memory_ops memory_new = Inr st0" using mem_repr_empty by blast
  with mmr_append_refines [OF digest32_toy, of "[[1], [2], [3]]" st0]
  obtain st where
    st: "append_all memory_ops toy_sha [[1], [2], [3]] st0 = (st, Inr (map (\<lambda>k. 2 * k - popcount k) [0..<3]))"
    "st_size st = fsize (forest [[1], [2], [3]])"
    by (auto simp: numeral_3_eq_3)
  have "map (\<lambda>k. 2 * k - popcount k) [0..<3] = [0, 1, 3]" by code_simp
  moreover have "fsize (forest [[1], [2], [3]]) = 4" by (simp add: forest_def)
  ultimately show ?thesis
    using st0 st by (intro exI [of _ st0] exI [of _ st]) (simp only: refl simp_thms)
qed

subsection \<open>Completeness of inclusion proofs\<close>

text \<open>C4: Every leaf appended to an MMR over the memory store has an inclusion proof: generating it
  at the position the append returned succeeds, the proof verifies for the leaf's data, and it
  carries the root of the MMR.\<close>

theorem inclusion_complete:
  assumes "digest32 sha" "length ds < 2 ^ 62" "i < length ds" "mmr_new memory_ops memory_new = Inr st0"
  shows "\<exists>st is st' ip. append_all memory_ops sha ds st0 = (st, Inr is) \<and>
    generate_proof memory_ops sha (is ! i) st = (st', Inr ip) \<and>
    inclusion_verify sha ip (ds ! i) = Inr () \<and> get_root sha st = Inr (ip_root ip)"
proof -
  obtain st where st: "append_all memory_ops sha ds st0 =
      (st, Inr (map (\<lambda>k. 2 * k - popcount k) [0..<length ds]))"
    "mmr_repr (\<lambda>_. True) ms_nodes sha ds st"
    using append_all_mem [OF assms(1) _ assms(4), of ds] assms(2) by auto
  with mem.generate_proof_ok [OF st(2) nth_leaf_mem [OF assms(3)] assms(2)] assms(3)
  show ?thesis by auto
qed

theorem inclusion_complete_witness:
  "\<exists>st0 st is st' ip. mmr_new memory_ops memory_new = Inr st0 \<and>
     append_all memory_ops toy_sha [[1], [2], [3]] st0 = (st, Inr is) \<and>
     generate_proof memory_ops toy_sha (is ! 1) st = (st', Inr ip) \<and>
     inclusion_verify toy_sha ip [2] = Inr ()"
proof -
  obtain st0 where "mmr_new memory_ops memory_new = Inr st0" using mem_repr_empty by blast
  with inclusion_complete [of toy_sha "[[1], [2], [3]]" 1 st0] show ?thesis by auto
qed

subsection \<open>Soundness of inclusion proofs\<close>

text \<open>C5: A proof that verifies for some data against the root of an MMR shows a leaf that was
  appended, and its index is the position the append returned, as long as the hash has no
  collision among the inputs hashed by the MMR and by this verification.\<close>

theorem inclusion_proof_sound:
  assumes "digest32 sha" "proof_typed p" "length ds < 2 ^ 63"
    and "mmr_new memory_ops memory_new = Inr st0" "append_all memory_ops sha ds st0 = (st, Inr is)"
    and "get_root sha st = Inr (ip_root p)" "inclusion_verify sha p d = Inr ()"
    and "collision_free sha (verify_preimages sha p d @ mmr_preimages sha ds)"
  shows "\<exists>i < length ds. d = ds ! i \<and> ip_leaf_index p = is ! i"
proof -
  have r: "mmr_repr (\<lambda>_. True) ms_nodes sha ds st"
    "is = map (\<lambda>k. 2 * k - popcount k) [0..<length ds]"
    using append_all_mem [OF assms(1,3,4)] assms(5) by auto
  have "ds \<noteq> []" "ip_root p = bag_peaks sha (map node_hash (fpeaks sha (forest ds)))"
    using repr_root [OF r(1)] assms(6) by (auto split: if_splits)
  with inclusion_sound [OF assms(1,2,3,8,7)]
  have "(ip_leaf_index p, d) \<in> set (fleaves (forest ds))" by blast
  from fleaves_index [OF this] show ?thesis using r(2) by auto
qed

theorem inclusion_proof_sound_witness:
  "\<exists>st0 st is p. mmr_new memory_ops memory_new = Inr st0 \<and>
     append_all memory_ops toy_sha [[7]] st0 = (st, Inr is) \<and>
     inclusion_verify toy_sha p [7] = Inr () \<and> ip_leaf_index p = is ! 0"
proof -
  let ?h = "hash_leaf toy_sha 0 [7]"
  let ?p = "\<lparr>ip_leaf_index = 0, ip_leaf_hash = ?h, ip_merkle_path = [], ip_peaks = [?h],
    ip_peak_position = 0, ip_mmr_size = 1, ip_root = ?h\<rparr>"
  obtain st0 where st0: "mmr_new memory_ops memory_new = Inr st0" using mem_repr_empty by blast
  obtain st "is" where st: "append_all memory_ops toy_sha [[7]] st0 = (st, Inr is)"
    "mmr_repr (\<lambda>_. True) ms_nodes toy_sha [[7]] st"
    using append_all_mem [OF digest32_toy _ st0, of "[[7]]"] by auto
  have f: "forest [[7]] = [Lf [7]]" by (simp add: forest_def)
  have root: "get_root toy_sha st = Inr ?h" using repr_root [OF st(2)] by (simp add: f troot_def)
  have v: "inclusion_verify toy_sha ?p [7] = Inr ()" by (simp add: inclusion_verify_def)
  have "proof_typed ?p" by (simp add: proof_typed_def)
  moreover have "collision_free toy_sha (verify_preimages toy_sha ?p [7] @ mmr_preimages toy_sha [[7]])"
    by (simp add: collision_free_def verify_preimages_def mmr_preimages_def f)
  ultimately have "\<exists>i < length [[7 :: byte]]. [7] = [[7 :: byte]] ! i \<and> ip_leaf_index ?p = is ! i"
    using st0 st(1) root v by (intro inclusion_proof_sound [where sha = toy_sha]) simp_all
  then show ?thesis using st0 st(1) v by auto
qed

subsection \<open>The file store within its first sync\<close>

text \<open>C17: At most 51 leaves appended to a new file-backed MMR (so few nodes that the store does not
  sync on its own) and then closed survive: the appends and the close succeed, the file opens
  again, the MMR has the same size, peaks and root as before, and every leaf has an inclusion
  proof from the reopened file that verifies and carries this root.\<close>

theorem mmr_reopen_same:
  assumes "digest32 sha" "length ds \<le> 51" "file_open [] [] = Inr s" "mmr_new file_ops s = Inr st0"
  shows "\<exists>st is s' t st1. append_all file_ops sha ds st0 = (st, Inr is) \<and> file_close (st_store st) = (s', Inr ()) \<and>
    file_open (fs_file s') [] = Inr t \<and> mmr_new file_ops t = Inr st1 \<and>
    st_size st1 = st_size st \<and> st_peaks st1 = st_peaks st \<and> get_root sha st1 = get_root sha st \<and>
    (\<forall>i < length ds. \<exists>st2 ip. generate_proof file_ops sha (is ! i) st1 = (st2, Inr ip) \<and>
       inclusion_verify sha ip (ds ! i) = Inr () \<and> get_root sha st = Inr (ip_root ip))"
proof -
  obtain st where st: "append_all file_ops sha ds st0 = (st, Inr (map (\<lambda>k. 2 * k - popcount k) [0..<length ds]))"
    and r: "mmr_repr file_fresh file_nodes sha ds st" using append_all_fresh [OF assms] by blast
  obtain s' where s': "file_close (st_store st) = (s', Inr ())" "file_settled s'" "file_nodes s' = file_nodes (st_store st)"
    using file_close_fresh [of "st_store st"] r by (auto simp: mmr_repr_def)
  obtain t where t: "file_open (fs_file s') [] = Inr t" "file_settled t" "file_nodes t = fnodes sha (forest ds)"
    using file_reopen_settled [OF s'(2)] s'(3) r by (auto simp: mmr_repr_def)
  obtain st1 where st1: "mmr_new file_ops t = Inr st1" "mmr_repr file_settled file_nodes sha ds st1"
    using settled.mmr_new_ok [OF t(2,3)] assms(2) by auto
  have same: "st_size st1 = st_size st" "st_peaks st1 = st_peaks st" "get_root sha st1 = get_root sha st"
    using r st1(2) by (auto simp: mmr_repr_def get_root_def get_peaks_def)
  have "\<exists>st2 ip. generate_proof file_ops sha (map (\<lambda>k. 2 * k - popcount k) [0..<length ds] ! i) st1 = (st2, Inr ip) \<and>
       inclusion_verify sha ip (ds ! i) = Inr () \<and> get_root sha st = Inr (ip_root ip)" if "i < length ds" for i
    using settled.generate_proof_ok [OF st1(2) nth_leaf_mem [OF that]] that assms(2) same(3) by auto
  with st s'(1) t(1) st1(1) same show ?thesis by blast
qed

theorem mmr_reopen_same_witness:
  "\<exists>(st :: file_store mmr) is s' t st1. append_all file_ops toy_sha [[1], [2], [3]] st = (st1, Inr is) \<and>
     file_close (st_store st1) = (s', Inr ()) \<and> file_open (fs_file s') [] = Inr t \<and>
     (\<exists>st2 st3 ip. mmr_new file_ops t = Inr st2 \<and> get_root toy_sha st2 = get_root toy_sha st1 \<and>
        generate_proof file_ops toy_sha (is ! 1) st2 = (st3, Inr ip) \<and> inclusion_verify toy_sha ip [2] = Inr ())"
proof -
  obtain s where s: "file_open [] [] = Inr s" "file_fresh s" "file_nodes s = []"
    using file_open_empty by auto
  obtain st0 where st0: "mmr_new file_ops s = Inr st0"
    using fresh.mmr_new_ok [of s toy_sha "[]"] s by auto
  obtain st "is" s' t st1 where r: "append_all file_ops toy_sha [[1], [2], [3]] st0 = (st, Inr is)"
    "file_close (st_store st) = (s', Inr ())" "file_open (fs_file s') [] = Inr t" "mmr_new file_ops t = Inr st1"
    "get_root toy_sha st1 = get_root toy_sha st"
    and p: "\<forall>i < length [[1 :: byte], [2], [3]]. \<exists>st2 ip. generate_proof file_ops toy_sha (is ! i) st1 = (st2, Inr ip) \<and>
       inclusion_verify toy_sha ip ([[1 :: byte], [2], [3]] ! i) = Inr () \<and> get_root toy_sha st = Inr (ip_root ip)"
    using mmr_reopen_same [OF digest32_toy _ s(1) st0, of "[[1], [2], [3]]"] by auto
  have "\<exists>st2 ip. generate_proof file_ops toy_sha (is ! 1) st1 = (st2, Inr ip) \<and> inclusion_verify toy_sha ip [2] = Inr ()"
    using p [rule_format, of 1] by auto
  with r show ?thesis by blast
qed

end
