(* ===== verification/Wal_Types.thy ===== *)
theory Wal_Types
  imports Prelude
begin

text \<open>
  Data of the write-ahead log (\<open>crates/cpoe/src/wal/types.rs\<close>, \<open>serialization.rs\<close>): entry
  types, header, entries, the fixed-size dictation payloads, and their byte formats. Floats
  are their IEEE bit patterns, since the log only stores and restores them. BLAKE3 and
  Ed25519 are the fields of a record of parameters.
\<close>

definition VERSION :: nat where "VERSION = 2"
definition MAGIC :: bytes where "MAGIC = ascii ''SWAL''"
definition HEADER_SIZE :: nat where "HEADER_SIZE = 64"
definition MAX_ENTRY_SIZE :: nat where "MAX_ENTRY_SIZE = 16 * 1024 * 1024"
definition MAX_WAL_ENTRIES :: nat where "MAX_WAL_ENTRIES = 10000000"
definition MAX_WAL_SIZE :: nat where "MAX_WAL_SIZE = 256 * 1024 * 1024"
definition DEFAULT_SYNC_INTERVAL :: nat where "DEFAULT_SYNC_INTERVAL = 10"

datatype wal_error =
    InvalidMagic
  | InvalidVersion nat
  | CorruptedEntry
  | BrokenChain
  | CumulativeMismatch
  | InvalidSignature
  | TimestampRegression
  | Closed
  | SequenceGap
  | InvalidEntryType nat
  | TooManyEntries nat
  | TooLarge nat
  | SessionMismatch
  | WalIo
  | Serialization
  | Inconsistent
  | Unrecoverable
  | WalPanic \<comment> \<open>not an error value of the source: an overflow check that fails\<close>

subsection \<open>Entry types\<close>

datatype entry_type =
    KeystrokeBatch | DocumentHash | JitterSample | Heartbeat | SessionStart | SessionEnd
  | Checkpoint | PathChange | TextFragmentInsert | ExportEvent | CompileStarted
  | CompileFinished | DictationBegin | DictationFragment | DictationEnd

fun type_code :: "entry_type \<Rightarrow> nat" where
  "type_code KeystrokeBatch = 1"
| "type_code DocumentHash = 2"
| "type_code JitterSample = 3"
| "type_code Heartbeat = 4"
| "type_code SessionStart = 5"
| "type_code SessionEnd = 6"
| "type_code Checkpoint = 7"
| "type_code PathChange = 8"
| "type_code TextFragmentInsert = 9"
| "type_code ExportEvent = 10"
| "type_code CompileStarted = 11"
| "type_code CompileFinished = 12"
| "type_code DictationBegin = 13"
| "type_code DictationFragment = 14"
| "type_code DictationEnd = 15"

definition try_from_u8 :: "nat \<Rightarrow> (wal_error, entry_type) result" where
  "try_from_u8 v =
     (if v = 1 then Inr KeystrokeBatch
      else if v = 2 then Inr DocumentHash
      else if v = 3 then Inr JitterSample
      else if v = 4 then Inr Heartbeat
      else if v = 5 then Inr SessionStart
      else if v = 6 then Inr SessionEnd
      else if v = 7 then Inr Checkpoint
      else if v = 8 then Inr PathChange
      else if v = 9 then Inr TextFragmentInsert
      else if v = 10 then Inr ExportEvent
      else if v = 11 then Inr CompileStarted
      else if v = 12 then Inr CompileFinished
      else if v = 13 then Inr DictationBegin
      else if v = 14 then Inr DictationFragment
      else if v = 15 then Inr DictationEnd
      else Inl (InvalidEntryType v))"

lemma try_from_u8_code [simp]: "try_from_u8 (type_code t) = Inr t"
  by (cases t) (simp_all add: try_from_u8_def)

lemma try_from_u8_Inr: "try_from_u8 v = Inr t \<Longrightarrow> v = type_code t"
  by (auto simp: try_from_u8_def split: if_splits)

lemma type_code_bounds: "1 \<le> type_code t \<and> type_code t \<le> 15"
  by (cases t) simp_all

subsection \<open>Dictation payloads\<close>

record dictation_begin =
  db_session_id :: bytes
  db_start_ns :: int
  db_es_speech_pid :: nat
  db_audio_transport_type :: nat
  db_device_uid_hash :: bytes
  db_speaker_output_active :: bool
  db_ambient_noise_db :: nat

record dictation_fragment =
  df_session_id :: bytes
  df_fragment_index :: nat
  df_timestamp_ns :: int
  df_word_count :: nat
  df_confidence :: nat
  df_speaker_output_active :: bool
  df_text_hash :: bytes

record dictation_end =
  de_session_id :: bytes
  de_end_ns :: int
  de_total_words :: nat
  de_total_fragments :: nat
  de_confidence_mean :: nat
  de_confidence_stddev :: nat
  de_keystrokes_during_dictation :: nat
  de_cross_window_similarity :: nat
  de_plausibility_score :: nat

definition bool_byte :: "bool \<Rightarrow> byte" where
  "bool_byte b = (if b then 1 else 0)"

definition dictation_begin_to_bytes :: "dictation_begin \<Rightarrow> bytes" where
  "dictation_begin_to_bytes p =
     db_session_id p @ be 8 (i64_bits (db_start_ns p)) @ be 4 (db_es_speech_pid p) @
     [word_of_nat (db_audio_transport_type p)] @ db_device_uid_hash p @
     [bool_byte (db_speaker_output_active p)] @ be 4 (db_ambient_noise_db p)"

definition dictation_begin_from_bytes :: "bytes \<Rightarrow> (wal_error, dictation_begin) result" where
  "dictation_begin_from_bytes data =
     (if length data < 58 then Inl Serialization
      else Inr \<lparr>db_session_id = slice 0 32 data,
                db_start_ns = i64_of (be_val (slice 32 40 data)),
                db_es_speech_pid = be_val (slice 40 44 data),
                db_audio_transport_type = unat (data ! 44),
                db_device_uid_hash = slice 45 53 data,
                db_speaker_output_active = (data ! 53 \<noteq> 0),
                db_ambient_noise_db = be_val (slice 54 58 data)\<rparr>)"

definition dictation_fragment_to_bytes :: "dictation_fragment \<Rightarrow> bytes" where
  "dictation_fragment_to_bytes p =
     df_session_id p @ be 4 (df_fragment_index p) @ be 8 (i64_bits (df_timestamp_ns p)) @
     be 4 (df_word_count p) @ be 4 (df_confidence p) @
     [bool_byte (df_speaker_output_active p)] @ df_text_hash p"

definition dictation_fragment_from_bytes :: "bytes \<Rightarrow> (wal_error, dictation_fragment) result" where
  "dictation_fragment_from_bytes data =
     (if length data < 85 then Inl Serialization
      else Inr \<lparr>df_session_id = slice 0 32 data,
                df_fragment_index = be_val (slice 32 36 data),
                df_timestamp_ns = i64_of (be_val (slice 36 44 data)),
                df_word_count = be_val (slice 44 48 data),
                df_confidence = be_val (slice 48 52 data),
                df_speaker_output_active = (data ! 52 \<noteq> 0),
                df_text_hash = slice 53 85 data\<rparr>)"

definition dictation_end_to_bytes :: "dictation_end \<Rightarrow> bytes" where
  "dictation_end_to_bytes p =
     de_session_id p @ be 8 (i64_bits (de_end_ns p)) @ be 4 (de_total_words p) @
     be 4 (de_total_fragments p) @ be 4 (de_confidence_mean p) @ be 4 (de_confidence_stddev p) @
     be 4 (de_keystrokes_during_dictation p) @ be 4 (de_cross_window_similarity p) @
     be 8 (de_plausibility_score p)"

definition dictation_end_from_bytes :: "bytes \<Rightarrow> (wal_error, dictation_end) result" where
  "dictation_end_from_bytes data =
     (if length data < 72 then Inl Serialization
      else Inr \<lparr>de_session_id = slice 0 32 data,
                de_end_ns = i64_of (be_val (slice 32 40 data)),
                de_total_words = be_val (slice 40 44 data),
                de_total_fragments = be_val (slice 44 48 data),
                de_confidence_mean = be_val (slice 48 52 data),
                de_confidence_stddev = be_val (slice 52 56 data),
                de_keystrokes_during_dictation = be_val (slice 56 60 data),
                de_cross_window_similarity = be_val (slice 60 64 data),
                de_plausibility_score = be_val (slice 64 72 data)\<rparr>)"

subsection \<open>Header and entries\<close>

record header =
  h_magic :: bytes
  h_version :: nat
  h_session_id :: bytes
  h_created_at :: int
  h_last_checkpoint_seq :: nat
  h_reserved :: bytes

text \<open>\<open>length\<close> of an entry is set by the deserializer and read nowhere.\<close>

record entry =
  e_length :: nat
  e_sequence :: nat
  e_timestamp :: int
  e_entry_type :: entry_type
  e_payload :: bytes
  e_prev_hash :: bytes
  e_cumulative_hash :: bytes
  e_signature :: bytes

record crypto =
  cr_blake3 :: "bytes \<Rightarrow> bytes"
  cr_sign :: "bytes \<Rightarrow> bytes \<Rightarrow> bytes"
  cr_verifying_key :: "bytes \<Rightarrow> bytes"
  cr_verify :: "bytes \<Rightarrow> bytes \<Rightarrow> bytes \<Rightarrow> bool"

definition compute_hash :: "crypto \<Rightarrow> entry \<Rightarrow> bytes" where
  "compute_hash c e = cr_blake3 c
     (le 8 (e_sequence e) @ le 8 (i64_bits (e_timestamp e)) @
      [word_of_nat (type_code (e_entry_type e))] @ e_payload e @ e_prev_hash e)"

definition serialize_header :: "header \<Rightarrow> bytes" where
  "serialize_header h =
     h_magic h @ be 4 (h_version h) @ h_session_id h @ be 8 (i64_bits (h_created_at h)) @
     be 8 (h_last_checkpoint_seq h) @ h_reserved h"

definition deserialize_header :: "bytes \<Rightarrow> (wal_error, header) result" where
  "deserialize_header data =
     (if length data < HEADER_SIZE then Inl Serialization
      else Inr \<lparr>h_magic = slice 0 4 data,
                h_version = be_val (slice 4 8 data),
                h_session_id = slice 8 40 data,
                h_created_at = i64_of (be_val (slice 40 48 data)),
                h_last_checkpoint_seq = be_val (slice 48 56 data),
                h_reserved = slice 56 64 data\<rparr>)"

definition serialize_entry :: "entry \<Rightarrow> (wal_error, bytes) result" where
  "serialize_entry e =
     (if 2 ^ 32 \<le> length (e_payload e) then Inl Serialization
      else Inr (be 8 (e_sequence e) @ be 8 (i64_bits (e_timestamp e)) @
        [word_of_nat (type_code (e_entry_type e))] @ be 4 (length (e_payload e)) @
        e_payload e @ e_prev_hash e @ e_cumulative_hash e @ e_signature e))"

definition deserialize_entry :: "bytes \<Rightarrow> (wal_error, entry) result" where
  "deserialize_entry data =
     (if length data < 149 then Inl Serialization
      else
        let sequence = be_val (slice 0 8 data);
            timestamp = i64_of (be_val (slice 8 16 data))
        in res_bind (try_from_u8 (unat (data ! 16))) (\<lambda>entry_type.
          let n = be_val (slice 17 21 data) in
          if length data < 21 + n + 32 + 32 + 64 then Inl Serialization
          else Inr \<lparr>e_length = (21 + n + 32 + 32 + 64) mod 2 ^ 32,
                    e_sequence = sequence, e_timestamp = timestamp, e_entry_type = entry_type,
                    e_payload = slice 21 (21 + n) data,
                    e_prev_hash = slice (21 + n) (21 + n + 32) data,
                    e_cumulative_hash = slice (21 + n + 32) (21 + n + 64) data,
                    e_signature = slice (21 + n + 64) (21 + n + 128) data\<rparr>))"

text \<open>The Rust types of the fields.\<close>

definition header_typed :: "header \<Rightarrow> bool" where
  "header_typed h \<longleftrightarrow> length (h_magic h) = 4 \<and> h_version h < 2 ^ 32 \<and>
     length (h_session_id h) = 32 \<and> i64 (h_created_at h) \<and> h_last_checkpoint_seq h < 2 ^ 64 \<and>
     length (h_reserved h) = 8"

definition entry_typed :: "entry \<Rightarrow> bool" where
  "entry_typed e \<longleftrightarrow> e_sequence e < 2 ^ 64 \<and> i64 (e_timestamp e) \<and> length (e_prev_hash e) = 32 \<and>
     length (e_cumulative_hash e) = 32 \<and> length (e_signature e) = 64"

definition dictation_begin_typed :: "dictation_begin \<Rightarrow> bool" where
  "dictation_begin_typed p \<longleftrightarrow> length (db_session_id p) = 32 \<and> i64 (db_start_ns p) \<and>
     db_es_speech_pid p < 2 ^ 32 \<and> db_audio_transport_type p < 256 \<and>
     length (db_device_uid_hash p) = 8 \<and> db_ambient_noise_db p < 2 ^ 32"

definition dictation_fragment_typed :: "dictation_fragment \<Rightarrow> bool" where
  "dictation_fragment_typed p \<longleftrightarrow> length (df_session_id p) = 32 \<and> df_fragment_index p < 2 ^ 32 \<and>
     i64 (df_timestamp_ns p) \<and> df_word_count p < 2 ^ 32 \<and> df_confidence p < 2 ^ 32 \<and>
     length (df_text_hash p) = 32"

definition dictation_end_typed :: "dictation_end \<Rightarrow> bool" where
  "dictation_end_typed p \<longleftrightarrow> length (de_session_id p) = 32 \<and> i64 (de_end_ns p) \<and>
     de_total_words p < 2 ^ 32 \<and> de_total_fragments p < 2 ^ 32 \<and>
     de_confidence_mean p < 2 ^ 32 \<and> de_confidence_stddev p < 2 ^ 32 \<and>
     de_keystrokes_during_dictation p < 2 ^ 32 \<and> de_cross_window_similarity p < 2 ^ 32 \<and>
     de_plausibility_score p < 2 ^ 64"

subsection \<open>Round trips\<close>

lemmas field_simps_bytes = byte_simps nth_append bool_byte_def

lemma dictation_begin_roundtrip:
  "dictation_begin_typed p \<Longrightarrow> dictation_begin_from_bytes (dictation_begin_to_bytes p) = Inr p"
  by (cases p) (simp add: dictation_begin_from_bytes_def dictation_begin_to_bytes_def
      dictation_begin_typed_def field_simps_bytes)

lemma dictation_fragment_roundtrip:
  "dictation_fragment_typed p \<Longrightarrow>
   dictation_fragment_from_bytes (dictation_fragment_to_bytes p) = Inr p"
  by (cases p) (simp add: dictation_fragment_from_bytes_def dictation_fragment_to_bytes_def
      dictation_fragment_typed_def field_simps_bytes)

lemma dictation_end_roundtrip:
  "dictation_end_typed p \<Longrightarrow> dictation_end_from_bytes (dictation_end_to_bytes p) = Inr p"
  by (cases p) (simp add: dictation_end_from_bytes_def dictation_end_to_bytes_def
      dictation_end_typed_def field_simps_bytes)

lemma header_roundtrip: "header_typed h \<Longrightarrow> deserialize_header (serialize_header h) = Inr h"
  by (simp add: deserialize_header_def serialize_header_def header_typed_def HEADER_SIZE_def
      field_simps_bytes)

lemma length_serialize_header [simp]: "header_typed h \<Longrightarrow> length (serialize_header h) = 64"
  by (simp add: serialize_header_def header_typed_def)

lemma length_serialize_entry:
  "entry_typed e \<Longrightarrow> serialize_entry e = Inr d \<Longrightarrow> length d = 149 + length (e_payload e)"
  by (auto simp: serialize_entry_def entry_typed_def split: if_splits)

text \<open>Reading an entry back sets its \<open>length\<close> field.\<close>

lemma entry_roundtrip:
  assumes "entry_typed e" "serialize_entry e = Inr d"
  shows "deserialize_entry d = Inr (e\<lparr>e_length := length d mod 2 ^ 32\<rparr>)"
proof -
  let ?n = "length (e_payload e)" and ?p = "e_payload e"
  have n: "?n < 2 ^ 32" and d: "d = be 8 (e_sequence e) @ be 8 (i64_bits (e_timestamp e)) @
      [word_of_nat (type_code (e_entry_type e))] @ be 4 ?n @ ?p @ e_prev_hash e @
      e_cumulative_hash e @ e_signature e"
    using assms(2) by (auto simp: serialize_entry_def split: if_splits)
  note t = assms(1) [unfolded entry_typed_def]
  have len: "length d = 149 + ?n" using length_serialize_entry [OF assms] .
  have "type_code (e_entry_type e) < 256" using type_code_bounds [of "e_entry_type e"] by linarith
  then have f: "be_val (slice 0 8 d) = e_sequence e" "i64_of (be_val (slice 8 16 d)) = e_timestamp e"
    "unat (d ! 16) = type_code (e_entry_type e)" "be_val (slice 17 21 d) = ?n"
    "slice 21 (21 + ?n) d = ?p"
    using t n by (simp_all add: d field_simps_bytes)
  have g: "slice (21 + ?n) (21 + ?n + 32) d = e_prev_hash e"
    "slice (21 + ?n + 32) (21 + ?n + 64) d = e_cumulative_hash e"
    "slice (21 + ?n + 64) (21 + ?n + 128) d = e_signature e"
    using t by (simp_all add: d slice_def drop_Cons')
  show ?thesis
    unfolding deserialize_entry_def Let_def f try_from_u8_code res_bind_simps g len by simp
qed

lemma deserialize_entry_typed:
  assumes "deserialize_entry data = Inr e"
  shows "entry_typed e"
  using assms
  by (auto simp: deserialize_entry_def Let_def entry_typed_def res_bind_Inr_iff i64_i64_of
      be_val_u64 be_val_u64 [simplified] split: if_splits)

end
