(* ===== verification/Wal_Log.thy ===== *)
theory Wal_Log
  imports Wal_Types
begin

text \<open>
  The operations of the write-ahead log (\<open>crates/cpoe/src/wal/operations.rs\<close>). The state is
  the \<open>WalState\<close> of the source together with its file: the content, and the one cursor that a
  handle and its clones share (\<open>File::try_clone\<close> duplicates the handle, not the cursor).
  \<open>now_nanos\<close> is an argument of the operations that read the clock. BLAKE3's incremental
  hasher is the bytes it has absorbed. Each call to the operating system that changes the file
  system takes its outcome from \<open>ws_io\<close>; once that is used up calls succeed. Reads meet the
  end of the file and no other error; \<open>seek\<close>, \<open>metadata\<close> and \<open>try_clone\<close> fail only where the
  source has a branch of its own for it.
\<close>

datatype io = IoOk | IoFail nat \<comment> \<open>how many bytes a failing write wrote\<close>

text \<open>What the log's path names, when it is no longer the file of the open handle.\<close>

datatype path_state = SameFile | OtherFile bytes | NoFile

record wal_state =
  ws_content :: bytes
  ws_pos :: nat
  ws_path :: path_state
  ws_archives :: "(int \<times> bytes) list"
  ws_io :: "io list"
  ws_session_id :: bytes
  ws_signing_key :: bytes
  ws_next_sequence :: nat
  ws_last_hash :: bytes
  ws_hasher :: bytes
  ws_closed :: bool
  ws_inconsistent :: bool
  ws_entry_count :: nat
  ws_byte_count :: nat
  ws_sync_interval :: nat
  ws_pending_syncs :: nat

definition zero_hash :: bytes where
  "zero_hash = replicate 32 0"

record wal_verification =
  v_valid :: bool
  v_entries :: nat
  v_final_hash :: bytes
  v_error :: "wal_error option"

record wal_recovery_report =
  r_lost_count :: nat
  r_truncated_at_sequence :: nat
  r_recovered_at :: int

subsection \<open>The file\<close>

definition wal_call :: "(wal_state, wal_error, unit) op" where
  "wal_call s = (case ws_io s of
       [] \<Rightarrow> (s, Inr ())
     | r # rs \<Rightarrow> (s\<lparr>ws_io := rs\<rparr>, case r of IoOk \<Rightarrow> Inr () | IoFail _ \<Rightarrow> Inl WalIo))"

text \<open>Writing at the cursor overwrites, and extends past the end.\<close>

definition write_at :: "bytes \<Rightarrow> nat \<Rightarrow> bytes \<Rightarrow> bytes" where
  "write_at content pos data =
     take pos (content @ replicate (pos - length content) 0) @ data @ drop (pos + length data) content"

definition wal_write_all :: "bytes \<Rightarrow> (wal_state, wal_error, unit) op" where
  "wal_write_all data s =
     (let put = (\<lambda>d s. s\<lparr>ws_content := write_at (ws_content s) (ws_pos s) d,
                         ws_pos := ws_pos s + length d\<rparr>)
      in case ws_io s of
           [] \<Rightarrow> (put data s, Inr ())
         | IoOk # rs \<Rightarrow> (put data (s\<lparr>ws_io := rs\<rparr>), Inr ())
         | IoFail n # rs \<Rightarrow> (put (take (min n (length data - 1)) data) (s\<lparr>ws_io := rs\<rparr>), Inl WalIo))"

definition new_header :: "bytes \<Rightarrow> int \<Rightarrow> nat \<Rightarrow> header" where
  "new_header session now seq =
     \<lparr>h_magic = MAGIC, h_version = VERSION, h_session_id = session, h_created_at = now,
      h_last_checkpoint_seq = seq, h_reserved = replicate 8 0\<rparr>"

subsection \<open>Opening\<close>

definition write_header :: "int \<Rightarrow> (wal_state, wal_error, unit) op" where
  "write_header now s =
     op_bind (wal_write_all (serialize_header (new_header (ws_session_id s) now 0)))
       (\<lambda>_. wal_call) s"

definition read_header :: "(wal_state, wal_error, unit) op" where
  "read_header s =
     (if length (ws_content s) < HEADER_SIZE then (s\<lparr>ws_pos := length (ws_content s)\<rparr>, Inl WalIo)
      else
        let s1 = s\<lparr>ws_pos := HEADER_SIZE\<rparr> in
        case deserialize_header (take HEADER_SIZE (ws_content s)) of
          Inl e \<Rightarrow> (s1, Inl e)
        | Inr h \<Rightarrow>
            if h_magic h \<noteq> MAGIC then (s1, Inl InvalidMagic)
            else if h_version h \<noteq> VERSION then (s1, Inl (InvalidVersion (h_version h)))
            else if h_session_id h \<noteq> ws_session_id s then (s1, Inl SessionMismatch)
            else (s1\<lparr>ws_next_sequence := h_last_checkpoint_seq h\<rparr>, Inr ()))"

text \<open>The loop of \<open>scan_to_end\<close> over the bytes from \<open>offset\<close> on: the state, the offset after
  the last valid entry, and the error that ends it early.\<close>

function scan_loop :: "crypto \<Rightarrow> wal_state \<Rightarrow> nat \<Rightarrow> bytes \<Rightarrow> wal_state \<times> nat \<times> wal_error option" where
  "scan_loop c s offset rest =
     (if MAX_WAL_ENTRIES \<le> ws_entry_count s then (s, offset, Some (TooManyEntries MAX_WAL_ENTRIES))
      else if length rest < 4 then (s, offset, None)
      else let entry_len = be_val (take 4 rest) in
      if entry_len = 0 then (s, offset, None)
      else if MAX_ENTRY_SIZE < entry_len then (s, offset, None)
      else if length rest < 4 + entry_len then (s, offset, None)
      else case deserialize_entry (slice 4 (4 + entry_len) rest) of
        Inl Serialization \<Rightarrow> (s, offset, None)
      | Inl (InvalidEntryType _) \<Rightarrow> (s, offset, None)
      | Inl err \<Rightarrow> (s, offset, Some err)
      | Inr e \<Rightarrow>
          if e_sequence e \<noteq> ws_next_sequence s then (s, offset, None)
          else if e_prev_hash e \<noteq> ws_last_hash s then (s, offset, None)
          else
            let entry_hash = compute_hash c e; hasher = ws_hasher s @ entry_hash in
            if e_cumulative_hash e \<noteq> cr_blake3 c hasher then (s, offset, None)
            else if \<not> cr_verify c (cr_verifying_key c (ws_signing_key s)) (e_cumulative_hash e) (e_signature e)
              then (s, offset, None)
            else if 2 ^ 64 \<le> e_sequence e + 1 then (s, offset, Some WalPanic)
            else scan_loop c
                   (s\<lparr>ws_hasher := hasher, ws_next_sequence := e_sequence e + 1,
                      ws_last_hash := entry_hash, ws_entry_count := ws_entry_count s + 1\<rparr>)
                   (offset + (4 + entry_len)) (drop (4 + entry_len) rest))"
  by pat_completeness auto
termination
  by (relation "measure (\<lambda>(c, s, offset, rest). length rest)") auto

declare scan_loop.simps [simp del]

definition scan_to_end :: "crypto \<Rightarrow> (wal_state, wal_error, nat) op" where
  "scan_to_end c s =
     (case scan_loop c s HEADER_SIZE (drop (ws_pos s) (ws_content s)) of
        (s1, offset, Some err) \<Rightarrow> (s1, Inl err)
      | (s1, offset, None) \<Rightarrow>
          (case wal_call s1 of
             (s2, Inl e) \<Rightarrow> (s2\<lparr>ws_inconsistent := True\<rparr>, Inl e)
           | (s2, Inr _) \<Rightarrow>
               if offset < length (ws_content s2) then
                 op_bind wal_call (\<lambda>_ s3.
                   (s3\<lparr>ws_content := take offset (ws_content s3), ws_byte_count := offset,
                       ws_pos := offset\<rparr>,
                    Inr ((length (ws_content s3) - offset) div 5))) s2
               else (s2\<lparr>ws_byte_count := offset, ws_pos := offset\<rparr>, Inr 0)))"

definition initial_state ::
    "bytes \<Rightarrow> bytes \<Rightarrow> bytes \<Rightarrow> nat \<Rightarrow> io list \<Rightarrow> wal_state" where
  "initial_state content session_id signing_key sync_interval ios =
     \<lparr>ws_content = content, ws_pos = 0, ws_path = SameFile, ws_archives = [], ws_io = ios,
      ws_session_id = session_id, ws_signing_key = signing_key, ws_next_sequence = 0,
      ws_last_hash = zero_hash, ws_hasher = [], ws_closed = False, ws_inconsistent = False,
      ws_entry_count = 0, ws_byte_count = 0, ws_sync_interval = max sync_interval 1,
      ws_pending_syncs = 0\<rparr>"

text \<open>The three calls before the state is built create the directory, open the file and
  restrict its permissions.\<close>

definition open_with_sync_interval ::
    "crypto \<Rightarrow> bytes \<Rightarrow> bytes \<Rightarrow> bytes \<Rightarrow> nat \<Rightarrow> int \<Rightarrow> io list \<Rightarrow>
     wal_state \<times> (wal_error, unit) result" where
  "open_with_sync_interval c content session_id signing_key sync_interval now ios =
     op_bind wal_call (\<lambda>_. op_bind wal_call (\<lambda>_. op_bind wal_call (\<lambda>_ s.
       if ws_content s = [] then
         op_bind (write_header now)
           (\<lambda>_ s. (s\<lparr>ws_byte_count := HEADER_SIZE, ws_pos := HEADER_SIZE\<rparr>, Inr ())) s
       else op_bind read_header (\<lambda>_. op_bind (scan_to_end c) (\<lambda>_. op_return ())) s)))
     (initial_state content session_id signing_key sync_interval ios)"

definition wal_open ::
    "crypto \<Rightarrow> bytes \<Rightarrow> bytes \<Rightarrow> bytes \<Rightarrow> int \<Rightarrow> io list \<Rightarrow> wal_state \<times> (wal_error, unit) result" where
  "wal_open c content session_id signing_key now ios =
     open_with_sync_interval c content session_id signing_key DEFAULT_SYNC_INTERVAL now ios"

subsection \<open>Appending\<close>

definition sealed_entry ::
    "crypto \<Rightarrow> bytes \<Rightarrow> bytes \<Rightarrow> entry \<Rightarrow> entry" where
  "sealed_entry c signing_key hasher e =
     (let cumulative = cr_blake3 c (hasher @ compute_hash c e)
      in e\<lparr>e_cumulative_hash := cumulative, e_signature := cr_sign c signing_key cumulative\<rparr>)"

definition frame :: "bytes \<Rightarrow> bytes" where
  "frame data = be 4 (length data) @ data"

text \<open>The end of \<open>append\<close>, after the frame is written: the sync policy and the bookkeeping.\<close>

definition append_sync :: "entry_type \<Rightarrow> (wal_state, wal_error, unit) op" where
  "append_sync entry_type s =
     (let s1 = s\<lparr>ws_pending_syncs := ws_pending_syncs s + 1\<rparr> in
      if entry_type = Checkpoint \<or> ws_sync_interval s1 \<le> ws_pending_syncs s1 then
        (case wal_call s1 of
           (s2, Inl e) \<Rightarrow> (s2\<lparr>ws_inconsistent := True\<rparr>, Inl e)
         | (s2, Inr _) \<Rightarrow> (s2\<lparr>ws_pending_syncs := 0\<rparr>, Inr ()))
      else (s1, Inr ()))"

definition wal_append ::
    "crypto \<Rightarrow> int \<Rightarrow> entry_type \<Rightarrow> bytes \<Rightarrow> (wal_state, wal_error, unit) op" where
  "wal_append c now entry_type payload s =
     (if ws_closed s then (s, Inl Closed)
      else if ws_inconsistent s then (s, Inl Inconsistent)
      else if MAX_WAL_SIZE \<le> ws_byte_count s then (s, Inl (TooLarge (ws_byte_count s)))
      else
        let entry0 = \<lparr>e_length = 0, e_sequence = ws_next_sequence s, e_timestamp = now,
                      e_entry_type = entry_type, e_payload = payload,
                      e_prev_hash = ws_last_hash s, e_cumulative_hash = zero_hash,
                      e_signature = replicate 64 0\<rparr>;
            entry_hash = compute_hash c entry0;
            entry = sealed_entry c (ws_signing_key s) (ws_hasher s) entry0;
            s1 = s\<lparr>ws_hasher := ws_hasher s @ entry_hash\<rparr>
        in case serialize_entry entry of
             Inl e \<Rightarrow> (s1, Inl e)
           | Inr data \<Rightarrow>
               op_bind (wal_write_all (frame data)) (\<lambda>_. op_bind (append_sync entry_type) (\<lambda>_ s2.
                 if 2 ^ 64 \<le> ws_next_sequence s2 + 1 then (s2, Inl WalPanic)
                 else (s2\<lparr>ws_last_hash := entry_hash, ws_next_sequence := ws_next_sequence s2 + 1,
                          ws_entry_count := ws_entry_count s2 + 1,
                          ws_byte_count := ws_byte_count s2 + (4 + length data)\<rparr>, Inr ()))) s1)"

definition wal_flush :: "(wal_state, wal_error, unit) op" where
  "wal_flush s =
     (if ws_closed s then (s, Inr ())
      else if 0 < ws_pending_syncs s then
        op_bind wal_call (\<lambda>_ s. (s\<lparr>ws_pending_syncs := 0\<rparr>, Inr ())) s
      else (s, Inr ()))"

definition wal_close :: "(wal_state, wal_error, unit) op" where
  "wal_close s =
     (if ws_closed s then (s, Inr ()) else wal_call (s\<lparr>ws_closed := True\<rparr>))"

definition wal_size :: "wal_state \<Rightarrow> nat" where
  "wal_size s = ws_byte_count s"

definition wal_entry_count :: "wal_state \<Rightarrow> nat" where
  "wal_entry_count s = ws_entry_count s"

definition last_sequence :: "wal_state \<Rightarrow> nat" where
  "last_sequence s = (if ws_next_sequence s = 0 then 0 else ws_next_sequence s - 1)"

subsection \<open>Verification\<close>

definition verification :: "nat \<Rightarrow> bytes \<Rightarrow> wal_error option \<Rightarrow> wal_verification" where
  "verification count hash err =
     \<lparr>v_valid = (err = None), v_entries = count, v_final_hash = hash, v_error = err\<rparr>"

text \<open>The loop of \<open>verify\<close>; it returns the cursor too, which the log's handle shares.\<close>

function verify_loop ::
    "crypto \<Rightarrow> bytes \<Rightarrow> bytes \<Rightarrow> bytes \<Rightarrow> nat \<Rightarrow> int \<Rightarrow> nat \<Rightarrow> nat \<Rightarrow> bytes \<Rightarrow>
     nat \<times> (wal_error, wal_verification) result" where
  "verify_loop c vk prev_hash hasher expected last_ts count pos rest =
     (if MAX_WAL_ENTRIES \<le> count
        then (pos, Inr (verification count prev_hash (Some (TooManyEntries MAX_WAL_ENTRIES))))
      else if length rest < 4 then (pos + length rest, Inr (verification count prev_hash None))
      else let entry_len = be_val (take 4 rest) in
      if MAX_ENTRY_SIZE < entry_len
        then (pos + 4, Inr (verification count prev_hash (Some CorruptedEntry)))
      else if length rest < 4 + entry_len then (pos + length rest, Inl WalIo)
      else
        let pos' = pos + (4 + entry_len);
            invalid = (\<lambda>err. (pos', Inr (verification count prev_hash (Some err))))
        in case deserialize_entry (slice 4 (4 + entry_len) rest) of
          Inl e \<Rightarrow> (pos', Inl e)
        | Inr e \<Rightarrow>
            if e_sequence e \<noteq> expected then invalid SequenceGap
            else if e_timestamp e < last_ts then invalid TimestampRegression
            else if e_prev_hash e \<noteq> prev_hash then invalid BrokenChain
            else
              let entry_hash = compute_hash c e; hasher' = hasher @ entry_hash in
              if e_cumulative_hash e \<noteq> cr_blake3 c hasher' then invalid CumulativeMismatch
              else if \<not> cr_verify c vk (e_cumulative_hash e) (e_signature e) then invalid InvalidSignature
              else if 2 ^ 64 \<le> expected + 1 then (pos', Inl WalPanic)
              else verify_loop c vk entry_hash hasher' (expected + 1) (e_timestamp e) (count + 1)
                     pos' (drop (4 + entry_len) rest))"
  by pat_completeness auto
termination
  by (relation "measure (\<lambda>(c, vk, prev_hash, hasher, expected, last_ts, count, pos, rest). length rest)") auto

declare verify_loop.simps [simp del]

definition wal_verify :: "crypto \<Rightarrow> (wal_state, wal_error, wal_verification) op" where
  "wal_verify c s =
     (if length (ws_content s) < HEADER_SIZE then (s\<lparr>ws_pos := length (ws_content s)\<rparr>, Inl WalIo)
      else case deserialize_header (take HEADER_SIZE (ws_content s)) of
        Inl e \<Rightarrow> (s\<lparr>ws_pos := HEADER_SIZE\<rparr>, Inl e)
      | Inr h \<Rightarrow>
          (case verify_loop c (cr_verifying_key c (ws_signing_key s)) zero_hash []
                  (h_last_checkpoint_seq h) 0 0 HEADER_SIZE (drop HEADER_SIZE (ws_content s)) of
             (pos, r) \<Rightarrow> (s\<lparr>ws_pos := pos\<rparr>, r)))"

end
