(* ===== verification/Wal_Maint.thy ===== *)
theory Wal_Maint
  imports Wal_Log
begin

text \<open>
  Maintenance of the write-ahead log (\<open>crates/cpoe/src/wal/operations.rs\<close>): truncation,
  recovery, rotation and the pruning of archives.
\<close>

subsection \<open>Truncation\<close>

text \<open>The new file while \<open>truncate\<close> streams the old one: its bytes, the running hash of the
  old chain, and the chain of the retained entries.\<close>

record trunc_state =
  t_out :: bytes
  t_expected_prev :: bytes
  t_entry_count :: nat
  t_last_hash :: bytes
  t_hasher :: bytes
  t_prev_retained :: "nat option"
  t_retained_count :: nat

definition trunc_retain ::
    "crypto \<Rightarrow> bytes \<Rightarrow> entry \<Rightarrow> trunc_state \<Rightarrow> wal_state \<Rightarrow> wal_state \<times> (wal_error, trunc_state) result" where
  "trunc_retain c signing_key e t s =
     (let gap = (case t_prev_retained t of None \<Rightarrow> Inr ()
                 | Some prev \<Rightarrow> if 2 ^ 64 \<le> prev + 1 then Inl WalPanic
                               else if e_sequence e \<noteq> prev + 1 then Inl SequenceGap else Inr ())
      in case gap of
           Inl err \<Rightarrow> (s, Inl err)
         | Inr _ \<Rightarrow>
             let e1 = e\<lparr>e_prev_hash := t_last_hash t\<rparr>;
                 entry_hash = compute_hash c e1
             in case serialize_entry (sealed_entry c signing_key (t_hasher t) e1) of
                  Inl err \<Rightarrow> (s, Inl err)
                | Inr data \<Rightarrow>
                    op_bind wal_call (\<lambda>_. op_bind wal_call (\<lambda>_. op_return
                      (t\<lparr>t_out := t_out t @ frame data, t_last_hash := entry_hash,
                         t_hasher := t_hasher t @ entry_hash,
                         t_prev_retained := Some (e_sequence e),
                         t_retained_count := t_retained_count t + 1\<rparr>))) s)"

function trunc_loop ::
    "crypto \<Rightarrow> bytes \<Rightarrow> nat \<Rightarrow> trunc_state \<Rightarrow> nat \<Rightarrow> bytes \<Rightarrow> wal_state \<Rightarrow>
     wal_state \<times> (wal_error, trunc_state) result" where
  "trunc_loop c signing_key before_seq t pos rest s =
     (if MAX_WAL_ENTRIES \<le> t_entry_count t
        then (s\<lparr>ws_pos := pos\<rparr>, Inl (TooManyEntries MAX_WAL_ENTRIES))
      else if length rest < 4 then (s\<lparr>ws_pos := pos + length rest\<rparr>, Inr t)
      else let entry_len = be_val (take 4 rest) in
      if MAX_ENTRY_SIZE < entry_len then (s\<lparr>ws_pos := pos + 4\<rparr>, Inl CorruptedEntry)
      else if length rest < 4 + entry_len then (s\<lparr>ws_pos := pos + length rest\<rparr>, Inl WalIo)
      else
        let pos' = pos + (4 + entry_len); s' = s\<lparr>ws_pos := pos'\<rparr> in
        case deserialize_entry (slice 4 (4 + entry_len) rest) of
          Inl err \<Rightarrow> (s', Inl err)
        | Inr e \<Rightarrow>
            if e_prev_hash e \<noteq> t_expected_prev t then (s', Inl BrokenChain)
            else
              let t' = t\<lparr>t_expected_prev := compute_hash c e, t_entry_count := t_entry_count t + 1\<rparr> in
              if before_seq \<le> e_sequence e then
                (case trunc_retain c signing_key e t' s' of
                   (s'', Inl err) \<Rightarrow> (s'', Inl err)
                 | (s'', Inr t'') \<Rightarrow>
                     trunc_loop c signing_key before_seq t'' pos' (drop (4 + entry_len) rest) s'')
              else trunc_loop c signing_key before_seq t' pos' (drop (4 + entry_len) rest) s')"
  by pat_completeness auto
termination
  by (relation "measure (\<lambda>(c, k, b, t, pos, rest, s). length rest)") auto

declare trunc_loop.simps [simp del]

text \<open>Building the new file: create it, restrict its permissions, write the header, stream the
  entries, sync.\<close>

definition trunc_write ::
    "crypto \<Rightarrow> nat \<Rightarrow> int \<Rightarrow> (wal_state, wal_error, trunc_state \<times> nat) op" where
  "trunc_write c before_seq now =
     op_bind wal_call (\<lambda>_. op_bind wal_call (\<lambda>_. op_bind wal_call (\<lambda>_. op_bind
       (\<lambda>s. trunc_loop c (ws_signing_key s) before_seq
          \<lparr>t_out = serialize_header (new_header (ws_session_id s) now before_seq),
           t_expected_prev = zero_hash, t_entry_count = 0, t_last_hash = zero_hash,
           t_hasher = [], t_prev_retained = None, t_retained_count = 0\<rparr>
          HEADER_SIZE (drop HEADER_SIZE (ws_content s)) s)
       (\<lambda>t. op_bind wal_call (\<lambda>_ s.
          case t_prev_retained t of
            None \<Rightarrow> (s, Inr (t, before_seq))
          | Some n \<Rightarrow> if 2 ^ 64 \<le> n + 1 then (s, Inl WalPanic) else (s, Inr (t, n + 1)))))))"

definition trunc_adopt :: "trunc_state \<Rightarrow> nat \<Rightarrow> wal_state \<Rightarrow> wal_state" where
  "trunc_adopt t next_seq s =
     s\<lparr>ws_last_hash := t_last_hash t, ws_hasher := t_hasher t, ws_next_sequence := next_seq,
       ws_entry_count := t_retained_count t\<rparr>"

definition wal_truncate :: "crypto \<Rightarrow> nat \<Rightarrow> int \<Rightarrow> (wal_state, wal_error, unit) op" where
  "wal_truncate c before_seq now s =
     (case trunc_write c before_seq now (s\<lparr>ws_pos := HEADER_SIZE\<rparr>) of
        (s1, Inl e) \<Rightarrow> (s1, Inl e)
      | (s1, Inr (t, next_seq)) \<Rightarrow>
          (case wal_call s1 of
             (s2, Inl e) \<Rightarrow> (s2, Inl e)
           | (s2, Inr _) \<Rightarrow>
               let reopen = (\<lambda>s3.
                     let s4 = s3\<lparr>ws_content := t_out t, ws_pos := length (t_out t)\<rparr> in
                     case wal_call s4 of
                       (s5, Inl e) \<Rightarrow>
                         ((trunc_adopt t next_seq s5)\<lparr>ws_pos := 0, ws_inconsistent := True\<rparr>, Inl e)
                     | (s5, Inr _) \<Rightarrow>
                         (case wal_call (trunc_adopt t next_seq s5) of
                            (s6, Inl e) \<Rightarrow> (s6\<lparr>ws_inconsistent := True\<rparr>, Inl e)
                          | (s6, Inr _) \<Rightarrow> (s6\<lparr>ws_byte_count := length (t_out t)\<rparr>, Inr ())))
               in case wal_call s2 of
                    (s3, Inr _) \<Rightarrow> reopen s3
                  | (s3, Inl _) \<Rightarrow>
                      (case wal_call s3 of
                         (s4, Inr _) \<Rightarrow> reopen s4
                       | (s4, Inl e) \<Rightarrow>
                           ((trunc_adopt t next_seq s4)
                              \<lparr>ws_path := OtherFile (t_out t), ws_inconsistent := True\<rparr>, Inl e))))"

subsection \<open>Recovery\<close>

text \<open>What the loops of \<open>recover\<close> and \<open>try_recover\<close> have verified so far.\<close>

record rec_state =
  c_prev_hash :: bytes
  c_hasher :: bytes
  c_expected :: nat
  c_last_ts :: int
  c_count :: nat
  c_offset :: nat

definition rec_start :: "nat \<Rightarrow> rec_state" where
  "rec_start seq = \<lparr>c_prev_hash = zero_hash, c_hasher = [], c_expected = seq, c_last_ts = 0,
     c_count = 0, c_offset = HEADER_SIZE\<rparr>"

definition rec_step :: "crypto \<Rightarrow> entry \<Rightarrow> nat \<Rightarrow> rec_state \<Rightarrow> rec_state" where
  "rec_step c e entry_len r =
     \<lparr>c_prev_hash = compute_hash c e, c_hasher = c_hasher r @ compute_hash c e,
      c_expected = c_expected r + 1, c_last_ts = e_timestamp e, c_count = c_count r + 1,
      c_offset = c_offset r + (4 + entry_len)\<rparr>"

text \<open>The loop of \<open>recover\<close>: it stops at the first frame that is not a valid entry. It
  returns the cursor, and \<open>None\<close> only for the overflow check.\<close>

function recover_loop ::
    "crypto \<Rightarrow> bytes \<Rightarrow> rec_state \<Rightarrow> bytes \<Rightarrow> nat \<times> rec_state option" where
  "recover_loop c vk r rest =
     (if length rest < 4 then (c_offset r + length rest, Some r)
      else let entry_len = be_val (take 4 rest) in
      if entry_len = 0 \<or> MAX_ENTRY_SIZE < entry_len then (c_offset r + 4, Some r)
      else if length rest < 4 + entry_len then (c_offset r + length rest, Some r)
      else
        let cursor = c_offset r + (4 + entry_len) in
        case deserialize_entry (slice 4 (4 + entry_len) rest) of
          Inl _ \<Rightarrow> (cursor, Some r)
        | Inr e \<Rightarrow>
            if e_sequence e \<noteq> c_expected r \<or> e_timestamp e < c_last_ts r \<or>
               e_prev_hash e \<noteq> c_prev_hash r then (cursor, Some r)
            else if e_cumulative_hash e \<noteq> cr_blake3 c (c_hasher r @ compute_hash c e)
              then (cursor, Some r)
            else if \<not> cr_verify c vk (e_cumulative_hash e) (e_signature e) then (cursor, Some r)
            else if 2 ^ 64 \<le> c_expected r + 1 then (cursor, None)
            else recover_loop c vk (rec_step c e entry_len r) (drop (4 + entry_len) rest))"
  by pat_completeness auto
termination
  by (relation "measure (\<lambda>(c, vk, r, rest). length rest)") auto

declare recover_loop.simps [simp del]

definition rec_adopt :: "rec_state \<Rightarrow> wal_state \<Rightarrow> wal_state" where
  "rec_adopt r s =
     s\<lparr>ws_pos := c_offset r, ws_last_hash := c_prev_hash r, ws_hasher := c_hasher r,
       ws_next_sequence := c_expected r, ws_entry_count := c_count r,
       ws_byte_count := c_offset r, ws_inconsistent := False\<rparr>"

definition wal_recover :: "crypto \<Rightarrow> int \<Rightarrow> (wal_state, wal_error, wal_recovery_report) op" where
  "wal_recover c now s =
     (if ws_closed s then (s, Inl Closed)
      else if length (ws_content s) < HEADER_SIZE
        then (s\<lparr>ws_pos := length (ws_content s)\<rparr>, Inl WalIo)
      else case deserialize_header (take HEADER_SIZE (ws_content s)) of
        Inl e \<Rightarrow> (s\<lparr>ws_pos := HEADER_SIZE\<rparr>, Inl e)
      | Inr h \<Rightarrow>
          (case recover_loop c (cr_verifying_key c (ws_signing_key s))
                  (rec_start (h_last_checkpoint_seq h)) (drop HEADER_SIZE (ws_content s)) of
             (cursor, None) \<Rightarrow> (s\<lparr>ws_pos := cursor\<rparr>, Inl WalPanic)
           | (cursor, Some r) \<Rightarrow>
               let s1 = s\<lparr>ws_pos := cursor\<rparr> in
               case wal_call s1 of
                 (s2, Inl e) \<Rightarrow> (s2, Inl e)
               | (s2, Inr _) \<Rightarrow>
                   let file_len = length (ws_content s2) in
                   if file_len \<le> c_offset r then
                     (s2, Inr \<lparr>r_lost_count = 0, r_truncated_at_sequence = ws_next_sequence s2,
                              r_recovered_at = now\<rparr>)
                   else if c_count r = 0 then (s2, Inl Unrecoverable)
                   else op_bind wal_call (\<lambda>_ s3. op_bind wal_call (\<lambda>_ s4.
                     (rec_adopt r s4,
                      Inr \<lparr>r_lost_count = (file_len - c_offset r) div 153,
                           r_truncated_at_sequence = c_expected r, r_recovered_at = now\<rparr>))
                     (s3\<lparr>ws_content := take (c_offset r) (ws_content s3)\<rparr>)) s2))"

function try_recover_loop ::
    "crypto \<Rightarrow> bytes \<Rightarrow> rec_state \<Rightarrow> bytes \<Rightarrow> nat \<times> (wal_error, rec_state) result" where
  "try_recover_loop c vk r rest =
     (if MAX_WAL_ENTRIES \<le> c_count r then (c_offset r, Inl (TooManyEntries MAX_WAL_ENTRIES))
      else if length rest < 4 then (c_offset r + length rest, Inr r)
      else let entry_len = be_val (take 4 rest) in
      if entry_len = 0 \<or> MAX_ENTRY_SIZE < entry_len then (c_offset r + 4, Inl CorruptedEntry)
      else if length rest < 4 + entry_len then (c_offset r + length rest, Inl WalIo)
      else
        let cursor = c_offset r + (4 + entry_len) in
        case deserialize_entry (slice 4 (4 + entry_len) rest) of
          Inl err \<Rightarrow> (cursor, Inl err)
        | Inr e \<Rightarrow>
            if e_sequence e \<noteq> c_expected r then (cursor, Inl SequenceGap)
            else if e_timestamp e < c_last_ts r then (cursor, Inl TimestampRegression)
            else if e_prev_hash e \<noteq> c_prev_hash r then (cursor, Inl BrokenChain)
            else if e_cumulative_hash e \<noteq> cr_blake3 c (c_hasher r @ compute_hash c e)
              then (cursor, Inl CumulativeMismatch)
            else if \<not> cr_verify c vk (e_cumulative_hash e) (e_signature e)
              then (cursor, Inl InvalidSignature)
            else if 2 ^ 64 \<le> c_expected r + 1 then (cursor, Inl WalPanic)
            else try_recover_loop c vk (rec_step c e entry_len r) (drop (4 + entry_len) rest))"
  by pat_completeness auto
termination
  by (relation "measure (\<lambda>(c, vk, r, rest). length rest)") auto

declare try_recover_loop.simps [simp del]

definition try_recover :: "crypto \<Rightarrow> (wal_state, wal_error, nat) op" where
  "try_recover c s =
     (if ws_closed s then (s, Inl Closed)
      else if \<not> ws_inconsistent s then (s, Inr (ws_entry_count s))
      else if length (ws_content s) < HEADER_SIZE
        then (s\<lparr>ws_pos := length (ws_content s)\<rparr>, Inl WalIo)
      else case deserialize_header (take HEADER_SIZE (ws_content s)) of
        Inl e \<Rightarrow> (s\<lparr>ws_pos := HEADER_SIZE\<rparr>, Inl e)
      | Inr h \<Rightarrow>
          (case try_recover_loop c (cr_verifying_key c (ws_signing_key s))
                  (rec_start (h_last_checkpoint_seq h)) (drop HEADER_SIZE (ws_content s)) of
             (cursor, Inl e) \<Rightarrow> (s\<lparr>ws_pos := cursor\<rparr>, Inl e)
           | (cursor, Inr r) \<Rightarrow> ((rec_adopt r s)\<lparr>ws_pending_syncs := 0\<rparr>, Inr (c_count r))))"

subsection \<open>Rotation\<close>

text \<open>The fresh file of a rotation: every failing call marks the log inconsistent.\<close>

definition rotate_call :: "(wal_state, wal_error, unit) op" where
  "rotate_call s = (case wal_call s of
       (s', Inl e) \<Rightarrow> (s'\<lparr>ws_inconsistent := True\<rparr>, Inl e) | (s', Inr _) \<Rightarrow> (s', Inr ()))"

definition rotate_write :: "bytes \<Rightarrow> (wal_state, wal_error, unit) op" where
  "rotate_write data s = (case wal_write_all data s of
       (s', Inl e) \<Rightarrow> (s'\<lparr>ws_inconsistent := True\<rparr>, Inl e) | (s', Inr _) \<Rightarrow> (s', Inr ()))"

text \<open>\<open>now\<close> names the archive, \<open>now'\<close> is the creation time of the new header.\<close>

definition rotate_if_needed ::
    "nat \<Rightarrow> int \<Rightarrow> int \<Rightarrow> (wal_state, wal_error, int option) op" where
  "rotate_if_needed max_size_bytes now now' s =
     (if ws_byte_count s < max_size_bytes then (s, Inr None)
      else if ws_closed s then (s, Inl Closed)
      else op_bind wal_call (\<lambda>_. op_bind wal_call (\<lambda>_ s1.
        let s2 = s1\<lparr>ws_archives := ws_archives s1 @ [(now, ws_content s1)], ws_path := NoFile\<rparr> in
        op_bind rotate_call (\<lambda>_ s3. op_bind rotate_call (\<lambda>_ s4.
          let s5 = s4\<lparr>ws_content := [], ws_pos := 0, ws_path := SameFile,
                      ws_last_hash := zero_hash, ws_hasher := [], ws_entry_count := 0,
                      ws_byte_count := 0\<rparr> in
          op_bind (rotate_write (serialize_header
                     (new_header (ws_session_id s5) now' (ws_next_sequence s5)))) (\<lambda>_.
            op_bind rotate_call (\<lambda>_ s6.
              op_bind rotate_call (\<lambda>_ s7. (s7\<lparr>ws_pos := HEADER_SIZE\<rparr>, Inr (Some now)))
                (s6\<lparr>ws_byte_count := HEADER_SIZE\<rparr>))) s5)
          (s3\<lparr>ws_path := OtherFile []\<rparr>)) s2)) s)"

subsection \<open>Archives\<close>

text \<open>Names of the archive files of a directory. \<open>split_last\<close> is one step of \<open>rsplitn\<close>: the
  part after the last dot and the part before it.\<close>

fun split_last :: "char \<Rightarrow> string \<Rightarrow> (string \<times> string) option" where
  "split_last x [] = None"
| "split_last x (a # s) =
     (case split_last x s of
        Some (pre, post) \<Rightarrow> Some (a # pre, post)
      | None \<Rightarrow> if a = x then Some ([], s) else None)"

definition is_digit :: "char \<Rightarrow> bool" where
  "is_digit a \<longleftrightarrow> 48 \<le> (of_char a :: nat) \<and> (of_char a :: nat) \<le> 57"

definition digits_value :: "string \<Rightarrow> nat" where
  "digits_value s = foldl (\<lambda>n a. n * 10 + (of_char a - 48)) 0 s"

definition parse_u64 :: "string \<Rightarrow> nat option" where
  "parse_u64 s =
     (let ds = (case s of [] \<Rightarrow> [] | a # t \<Rightarrow> if a = CHR ''+'' then t else s) in
      if ds \<noteq> [] \<and> list_all is_digit ds \<and> digits_value ds < 2 ^ 64 then Some (digits_value ds)
      else None)"

definition archive_key :: "string \<Rightarrow> nat" where
  "archive_key name =
     (case split_last CHR ''.'' name of
        None \<Rightarrow> 0
      | Some (pre, _) \<Rightarrow>
          (let ts = (case split_last CHR ''.'' pre of None \<Rightarrow> pre | Some (_, mid) \<Rightarrow> mid) in
           case parse_u64 ts of None \<Rightarrow> 0 | Some n \<Rightarrow> n))"

definition ends_with :: "string \<Rightarrow> string \<Rightarrow> bool" where
  "ends_with s suf \<longleftrightarrow> length suf \<le> length s \<and> drop (length s - length suf) s = suf"

definition list_archives :: "string list \<Rightarrow> string list" where
  "list_archives names = sort_key archive_key (filter (\<lambda>n. ends_with n ''.archive'') names)"

text \<open>The names left in the directory after pruning; removing a file may fail, which the
  predicate \<open>fails\<close> decides.\<close>

definition prune_archives :: "(string \<Rightarrow> bool) \<Rightarrow> nat \<Rightarrow> string list \<Rightarrow> string list" where
  "prune_archives fails max_archives names =
     (let archives = list_archives names in
      if length archives \<le> max_archives then names
      else let doomed = filter (\<lambda>n. \<not> fails n) (take (length archives - max_archives) archives)
           in filter (\<lambda>n. n \<notin> set doomed) names)"

end
