(* ===== verification/Wal_Correct.thy ===== *)
theory Wal_Correct
  imports Wal_Maint
begin

text \<open>
  What the write-ahead log promises: the bytes after the header are the frames of a list of
  entries whose sequence numbers are consecutive and whose hashes and signatures form a chain,
  and the state in memory is that of the end of the chain. Every operation is related to this
  abstract list of entries.
\<close>

subsection \<open>The abstract log\<close>

function parse_log :: "bytes \<Rightarrow> entry list option" where
  "parse_log rest =
     (if rest = [] then Some []
      else if length rest < 4 then None
      else let n = be_val (take 4 rest) in
        if n = 0 \<or> MAX_ENTRY_SIZE < n \<or> length rest < 4 + n then None
        else case deserialize_entry (slice 4 (4 + n) rest) of
          Inl _ \<Rightarrow> None
        | Inr e \<Rightarrow> map_option (Cons e) (parse_log (drop (4 + n) rest)))"
  by pat_completeness auto
termination
  by (relation "measure length") auto

declare parse_log.simps [simp del]

fun chain :: "crypto \<Rightarrow> bytes \<Rightarrow> nat \<Rightarrow> bytes \<Rightarrow> bytes \<Rightarrow> entry list \<Rightarrow> bool" where
  "chain c vk seq prev hasher [] \<longleftrightarrow> True"
| "chain c vk seq prev hasher (e # es) \<longleftrightarrow>
     e_sequence e = seq \<and> e_prev_hash e = prev \<and>
     e_cumulative_hash e = cr_blake3 c (hasher @ compute_hash c e) \<and>
     cr_verify c vk (cr_blake3 c (hasher @ compute_hash c e)) (e_signature e) \<and>
     chain c vk (seq + 1) (compute_hash c e) (hasher @ compute_hash c e) es"

definition run_hash :: "crypto \<Rightarrow> bytes \<Rightarrow> entry list \<Rightarrow> bytes" where
  "run_hash c prev es = (if es = [] then prev else compute_hash c (last es))"

definition run_hasher :: "crypto \<Rightarrow> bytes \<Rightarrow> entry list \<Rightarrow> bytes" where
  "run_hasher c hasher es = hasher @ concat (map (compute_hash c) es)"

text \<open>The state \<open>s\<close> holds the log with header \<open>h\<close> and entries \<open>es\<close>.\<close>

definition wal_ok :: "crypto \<Rightarrow> wal_state \<Rightarrow> header \<Rightarrow> entry list \<Rightarrow> bool" where
  "wal_ok c s h es \<longleftrightarrow>
     HEADER_SIZE \<le> length (ws_content s) \<and>
     deserialize_header (take HEADER_SIZE (ws_content s)) = Inr h \<and>
     h_magic h = MAGIC \<and> h_version h = VERSION \<and> h_session_id h = ws_session_id s \<and>
     parse_log (drop HEADER_SIZE (ws_content s)) = Some es \<and>
     chain c (cr_verifying_key c (ws_signing_key s)) (h_last_checkpoint_seq h) zero_hash [] es \<and>
     ws_next_sequence s = h_last_checkpoint_seq h + length es \<and>
     ws_last_hash s = run_hash c zero_hash es \<and> ws_hasher s = run_hasher c [] es \<and>
     ws_entry_count s = length es \<and> ws_byte_count s = length (ws_content s) \<and>
     ws_pos s = length (ws_content s)"

text \<open>What the log relies on: BLAKE3 returns 32 bytes, an Ed25519 signature has 64 and
  verifies under the key that made it.\<close>

definition crypto_ok :: "crypto \<Rightarrow> bool" where
  "crypto_ok c \<longleftrightarrow> (\<forall>x. length (cr_blake3 c x) = 32) \<and> (\<forall>k m. length (cr_sign c k m) = 64) \<and>
     (\<forall>k m. cr_verify c (cr_verifying_key c k) m (cr_sign c k m))"

subsection \<open>Frames\<close>

lemma be_val_take_be [simp]: "v < 256 ^ 4 \<Longrightarrow> be_val (take 4 (be 4 v @ xs)) = v"
  by (simp add: byte_simps)

lemma parse_log_Nil [simp]: "parse_log [] = Some []"
  by (simp add: parse_log.simps)

lemma parse_log_split:
  assumes "parse_log rest = Some (e # es)"
  obtains n where "n = be_val (take 4 rest)" "0 < n" "n \<le> MAX_ENTRY_SIZE" "4 + n \<le> length rest"
    "deserialize_entry (slice 4 (4 + n) rest) = Inr e" "parse_log (drop (4 + n) rest) = Some es"
proof -
  from assms have ne: "rest \<noteq> []" by auto
  let ?n = "be_val (take 4 rest)"
  from assms ne show thesis
    by (subst (asm) parse_log.simps) (auto simp: Let_def split: if_splits sum.splits intro!: that [of ?n])
qed

lemma parse_log_append:
  "parse_log xs = Some es \<Longrightarrow> parse_log (xs @ ys) = map_option ((@) es) (parse_log ys)"
proof (induction es arbitrary: xs)
  case Nil
  have "xs = []"
    using Nil by (subst (asm) parse_log.simps) (auto simp: Let_def split: if_splits sum.splits)
  then show ?case by (simp add: option.map_ident)
next
  case (Cons e es)
  from parse_log_split [OF Cons.prems] obtain n where n: "n = be_val (take 4 xs)" "0 < n"
    "n \<le> MAX_ENTRY_SIZE" "4 + n \<le> length xs" "deserialize_entry (slice 4 (4 + n) xs) = Inr e"
    "parse_log (drop (4 + n) xs) = Some es" .
  have eq: "take 4 (xs @ ys) = take 4 xs" "slice 4 (4 + n) (xs @ ys) = slice 4 (4 + n) xs"
    "drop (4 + n) (xs @ ys) = drop (4 + n) xs @ ys" "xs \<noteq> []"
    using n(2,4) by (auto simp: slice_def)
  then have "parse_log (xs @ ys) = map_option (Cons e) (parse_log (drop (4 + n) xs @ ys))"
    using n(2-6) by (subst parse_log.simps) (simp add: Let_def n(1) [symmetric])
  then show ?case unfolding Cons.IH [OF n(6)] by (cases "parse_log ys") simp_all
qed

lemma frame_facts:
  assumes "length d < 256 ^ 4"
  shows "be_val (take 4 (frame d)) = length d" "slice 4 (4 + length d) (frame d) = d"
    "drop (4 + length d) (frame d) = []" "length (frame d) = 4 + length d"
  using assms by (auto simp: frame_def slice_def byte_simps)

lemma parse_log_frame:
  assumes "deserialize_entry d = Inr e" "0 < length d" "length d \<le> MAX_ENTRY_SIZE"
  shows "parse_log (frame d) = Some [e]"
proof -
  have "length d < 256 ^ 4" using assms(3) by (simp add: MAX_ENTRY_SIZE_def)
  moreover have "frame d \<noteq> []" using assms(2) by (auto simp: frame_def)
  ultimately show ?thesis
    using assms by (subst parse_log.simps) (simp add: Let_def frame_facts)
qed

subsection \<open>Chains\<close>

lemma compute_hash_sealed [simp]: "compute_hash c (sealed_entry c k h e) = compute_hash c e"
  by (simp add: compute_hash_def sealed_entry_def Let_def)

lemma compute_hash_length [simp]: "compute_hash c (e\<lparr>e_length := n\<rparr>) = compute_hash c e"
  by (simp add: compute_hash_def)

lemma run_simps [simp]:
  "run_hash c prev [] = prev" "run_hash c prev (e # es) = run_hash c (compute_hash c e) es"
  "run_hasher c h [] = h" "run_hasher c h (e # es) = run_hasher c (h @ compute_hash c e) es"
  "run_hash c prev (es @ [e]) = compute_hash c e"
  "run_hasher c h (es @ [e]) = run_hasher c h es @ compute_hash c e"
  by (simp_all add: run_hash_def run_hasher_def)

lemma chain_append:
  "chain c vk seq prev h (es @ fs) \<longleftrightarrow> chain c vk seq prev h es \<and>
     chain c vk (seq + length es) (run_hash c prev es) (run_hasher c h es) fs"
  by (induction es arbitrary: seq prev h) auto

lemma chain_sequence: "chain c vk seq prev h es \<Longrightarrow> i < length es \<Longrightarrow> e_sequence (es ! i) = seq + i"
proof (induction es arbitrary: seq prev h i)
  case (Cons e es)
  then show ?case by (cases i) auto
qed simp

lemma sealed_typed:
  assumes "crypto_ok c" "entry_typed e"
  shows "entry_typed (sealed_entry c k h e)"
  using assms by (auto simp: crypto_ok_def entry_typed_def sealed_entry_def Let_def)

subsection \<open>Appending\<close>

text \<open>The entry that \<open>append\<close> writes.\<close>

definition appended :: "crypto \<Rightarrow> wal_state \<Rightarrow> int \<Rightarrow> entry_type \<Rightarrow> bytes \<Rightarrow> entry" where
  "appended c s now ty payload =
     sealed_entry c (ws_signing_key s) (ws_hasher s)
       \<lparr>e_length = 0, e_sequence = ws_next_sequence s, e_timestamp = now, e_entry_type = ty,
        e_payload = payload, e_prev_hash = ws_last_hash s, e_cumulative_hash = zero_hash,
        e_signature = replicate 64 0\<rparr>"

lemma appended_fields [simp]:
  "e_sequence (appended c s now ty payload) = ws_next_sequence s"
  "e_timestamp (appended c s now ty payload) = now"
  "e_entry_type (appended c s now ty payload) = ty"
  "e_payload (appended c s now ty payload) = payload"
  "e_prev_hash (appended c s now ty payload) = ws_last_hash s"
  "e_cumulative_hash (appended c s now ty payload) =
     cr_blake3 c (ws_hasher s @ compute_hash c (appended c s now ty payload))"
  "e_signature (appended c s now ty payload) =
     cr_sign c (ws_signing_key s) (e_cumulative_hash (appended c s now ty payload))"
  by (simp_all add: appended_def) (simp_all add: sealed_entry_def Let_def)

lemma wal_append_unfold:
  assumes "\<not> ws_closed s" "\<not> ws_inconsistent s" "ws_byte_count s < MAX_WAL_SIZE"
    and "serialize_entry (appended c s now ty payload) = Inr d"
  shows "wal_append c now ty payload s =
    op_bind (wal_write_all (frame d)) (\<lambda>_. op_bind (append_sync ty) (\<lambda>_ s2.
      if 2 ^ 64 \<le> ws_next_sequence s2 + 1 then (s2, Inl WalPanic)
      else (s2\<lparr>ws_last_hash := compute_hash c (appended c s now ty payload),
               ws_next_sequence := ws_next_sequence s2 + 1, ws_entry_count := ws_entry_count s2 + 1,
               ws_byte_count := ws_byte_count s2 + (4 + length d)\<rparr>, Inr ())))
    (s\<lparr>ws_hasher := ws_hasher s @ compute_hash c (appended c s now ty payload)\<rparr>)"
proof -
  have h: "compute_hash c (appended c s now ty payload) = compute_hash c
      \<lparr>e_length = 0, e_sequence = ws_next_sequence s, e_timestamp = now, e_entry_type = ty,
       e_payload = payload, e_prev_hash = ws_last_hash s, e_cumulative_hash = zero_hash,
       e_signature = replicate 64 0\<rparr>"
    unfolding appended_def by (rule compute_hash_sealed)
  show ?thesis
    using assms by (simp add: wal_append_def Let_def appended_def [symmetric] h cong: if_cong)
qed

lemma write_at_end [simp]: "write_at content (length content) d = content @ d"
  by (simp add: write_at_def)

lemma length_zero_hash [simp]: "length zero_hash = 32"
  by (simp add: zero_hash_def)

lemma length_run_hash: "crypto_ok c \<Longrightarrow> length prev = 32 \<Longrightarrow> length (run_hash c prev es) = 32"
  by (simp add: run_hash_def compute_hash_def crypto_ok_def)

lemma wal_ok_last_hash: "crypto_ok c \<Longrightarrow> wal_ok c s h es \<Longrightarrow> length (ws_last_hash s) = 32"
  by (simp add: wal_ok_def length_run_hash)

lemma max_entry_u32: "149 + n \<le> MAX_ENTRY_SIZE \<Longrightarrow> 149 + n < 2 ^ 32"
  by (simp add: MAX_ENTRY_SIZE_def)

lemma appended_bytes:
  assumes "crypto_ok c" "length (ws_last_hash s) = 32" "i64 now" "ws_next_sequence s < 2 ^ 64"
    and "149 + length payload < 2 ^ 32"
  obtains d where "serialize_entry (appended c s now ty payload) = Inr d" "length d = 149 + length payload"
    "deserialize_entry d = Inr ((appended c s now ty payload)\<lparr>e_length := length d\<rparr>)"
proof -
  let ?e = "appended c s now ty payload"
  have ty: "entry_typed ?e"
    unfolding appended_def using assms(1-4) by (intro sealed_typed) (simp_all add: entry_typed_def)
  have small: "length payload < 2 ^ 32" using assms(5) by simp
  then obtain d where d: "serialize_entry ?e = Inr d" by (simp add: serialize_entry_def)
  have len: "length d = 149 + length payload" using length_serialize_entry [OF ty d] by simp
  moreover have "length d mod 2 ^ 32 = length d" using assms(5) len by simp
  ultimately show thesis using that [OF d] entry_roundtrip [OF ty d] by simp
qed

lemma append_sync_ok:
  assumes "ws_io s = []"
  shows "\<exists>p. append_sync ty s = (s\<lparr>ws_pending_syncs := p\<rparr>, Inr ())"
  using assms by (auto simp: append_sync_def Let_def wal_call_def)

text \<open>A successful append in full: the frame goes to the cursor, wherever that is.\<close>

lemma append_writes:
  assumes "\<not> ws_closed s" "\<not> ws_inconsistent s" "ws_byte_count s < MAX_WAL_SIZE"
    and "serialize_entry (appended c s now ty payload) = Inr d" "ws_io s = []"
    and "ws_next_sequence s + 1 < 2 ^ 64" "h = compute_hash c (appended c s now ty payload)"
  shows "\<exists>p. wal_append c now ty payload s =
    (s\<lparr>ws_hasher := ws_hasher s @ h, ws_content := write_at (ws_content s) (ws_pos s) (frame d),
       ws_pos := ws_pos s + length (frame d), ws_pending_syncs := p, ws_last_hash := h,
       ws_next_sequence := ws_next_sequence s + 1, ws_entry_count := ws_entry_count s + 1,
       ws_byte_count := ws_byte_count s + (4 + length d)\<rparr>, Inr ())"
proof -
  let ?s1 = "s\<lparr>ws_hasher := ws_hasher s @ h, ws_content := write_at (ws_content s) (ws_pos s) (frame d),
    ws_pos := ws_pos s + length (frame d)\<rparr>"
  obtain p where "append_sync ty ?s1 = (?s1\<lparr>ws_pending_syncs := p\<rparr>, Inr ())"
    using append_sync_ok [of ?s1 ty] assms(5) by auto
  moreover have "wal_write_all (frame d) (s\<lparr>ws_hasher := ws_hasher s @ h\<rparr>) = (?s1, Inr ())"
    using assms(5) by (simp add: wal_write_all_def Let_def)
  ultimately show ?thesis
    unfolding wal_append_unfold [OF assms(1-4)] assms(7) [symmetric]
    using assms(6) by (intro exI [of _ p]) (simp add: op_bind_def)
qed

text \<open>The log after an append: the bytes of the new frame follow the old content.\<close>

lemma wal_ok_snoc:
  assumes "crypto_ok c" "wal_ok c s h es" "i64 now" "ws_next_sequence s < 2 ^ 64"
    and "149 + length payload \<le> MAX_ENTRY_SIZE"
    and "serialize_entry (appended c s now ty payload) = Inr d"
    and "e = (appended c s now ty payload)\<lparr>e_length := length d\<rparr>"
    and "ws_content s' = ws_content s @ frame d" "ws_pos s' = length (ws_content s')"
    and "ws_session_id s' = ws_session_id s" "ws_signing_key s' = ws_signing_key s"
    and "ws_next_sequence s' = ws_next_sequence s + 1" "ws_last_hash s' = compute_hash c e"
    and "ws_hasher s' = ws_hasher s @ compute_hash c e" "ws_entry_count s' = ws_entry_count s + 1"
    and "ws_byte_count s' = length (ws_content s')"
  shows "wal_ok c s' h (es @ [e])"
proof -
  note ok = assms(2) [unfolded wal_ok_def]
  obtain d' where "serialize_entry (appended c s now ty payload) = Inr d'"
    "length d' = 149 + length payload"
    "deserialize_entry d' = Inr ((appended c s now ty payload)\<lparr>e_length := length d'\<rparr>)"
    using appended_bytes [OF assms(1) wal_ok_last_hash [OF assms(1,2)] assms(3,4) max_entry_u32 [OF assms(5)]] by blast
  then have d: "length d = 149 + length payload" "deserialize_entry d = Inr e"
    using assms(6,7) by auto
  have "parse_log (frame d) = Some [e]" using d assms(5) by (intro parse_log_frame) simp_all
  then have "parse_log (drop HEADER_SIZE (ws_content s')) = Some (es @ [e])"
    using ok parse_log_append [of "drop HEADER_SIZE (ws_content s)" es "frame d"] by (simp add: assms(8))
  moreover have "take HEADER_SIZE (ws_content s') = take HEADER_SIZE (ws_content s)"
    using ok by (simp add: assms(8))
  moreover have "chain c (cr_verifying_key c (ws_signing_key s)) (h_last_checkpoint_seq h) zero_hash [] (es @ [e])"
  proof -
    have sig: "cr_verify c (cr_verifying_key c (ws_signing_key s)) m (cr_sign c (ws_signing_key s) m)" for m
      using assms(1) by (simp add: crypto_ok_def)
    have st: "ws_next_sequence s = h_last_checkpoint_seq h + length es"
      "ws_last_hash s = run_hash c zero_hash es" "ws_hasher s = run_hasher c [] es"
      "chain c (cr_verifying_key c (ws_signing_key s)) (h_last_checkpoint_seq h) zero_hash [] es"
      using ok by blast+
    show ?thesis
      unfolding chain_append assms(7) using st(4) sig by (simp add: st(1-3) [symmetric])
  qed
  ultimately show ?thesis
    using ok assms(8-) unfolding wal_ok_def by simp
qed

lemma append_ok:
  assumes "crypto_ok c" "wal_ok c s h es" "i64 now" "ws_next_sequence s + 1 < 2 ^ 64"
    and "149 + length payload \<le> MAX_ENTRY_SIZE" "ws_io s = []"
    and "\<not> ws_closed s" "\<not> ws_inconsistent s" "ws_byte_count s < MAX_WAL_SIZE"
  shows "\<exists>s' e d. wal_append c now ty payload s = (s', Inr ()) \<and> wal_ok c s' h (es @ [e]) \<and>
    e = (appended c s now ty payload)\<lparr>e_length := 149 + length payload\<rparr> \<and>
    ws_io s' = [] \<and> \<not> ws_closed s' \<and> \<not> ws_inconsistent s' \<and>
    ws_signing_key s' = ws_signing_key s \<and> ws_session_id s' = ws_session_id s \<and>
    ws_content s' = ws_content s @ frame d \<and> length d = 149 + length payload"
proof -
  let ?e = "appended c s now ty payload"
  have seq: "ws_next_sequence s < 2 ^ 64" using assms(4) by simp
  obtain d where d: "serialize_entry ?e = Inr d" "length d = 149 + length payload"
    using appended_bytes [OF assms(1) wal_ok_last_hash [OF assms(1,2)] assms(3) seq max_entry_u32 [OF assms(5)]] by blast
  have bc: "ws_byte_count s = length (ws_content s)" "ws_pos s = length (ws_content s)"
    using assms(2) by (simp_all add: wal_ok_def)
  let ?h = "compute_hash c ?e"
  obtain p where p: "wal_append c now ty payload s =
    (s\<lparr>ws_hasher := ws_hasher s @ ?h, ws_content := ws_content s @ frame d,
       ws_pos := length (ws_content s) + length (frame d), ws_pending_syncs := p, ws_last_hash := ?h,
       ws_next_sequence := ws_next_sequence s + 1, ws_entry_count := ws_entry_count s + 1,
       ws_byte_count := ws_byte_count s + (4 + length d)\<rparr>, Inr ())" (is "_ = (?s', _)")
    using append_writes [OF assms(7-9) d(1) assms(6,4) refl] bc by auto
  have "wal_ok c ?s' h (es @ [?e\<lparr>e_length := length d\<rparr>])"
    by (rule wal_ok_snoc [OF assms(1-3) seq assms(5) d(1) refl]) (simp_all add: bc frame_def)
  with p show ?thesis using assms(6-8) d(2) by (intro exI [of _ ?s']) auto
qed

subsection \<open>Verification\<close>

text \<open>Timestamps never go back, from 0 on.\<close>

fun monotone_from :: "int \<Rightarrow> entry list \<Rightarrow> bool" where
  "monotone_from t [] \<longleftrightarrow> True"
| "monotone_from t (e # es) \<longleftrightarrow> t \<le> e_timestamp e \<and> monotone_from (e_timestamp e) es"

lemma monotone_from_snoc:
  "monotone_from t (es @ [e]) \<longleftrightarrow>
   monotone_from t es \<and> (if es = [] then t else e_timestamp (last es)) \<le> e_timestamp e"
  by (induction es arbitrary: t) auto

lemma verify_loop_prefix:
  assumes "parse_log body = Some es" "chain c vk seq prev hasher es" "monotone_from ts es"
    and "count + length es < MAX_WAL_ENTRIES" "seq + length es < 2 ^ 64"
  shows "verify_loop c vk prev hasher seq ts count pos (body @ tail) =
    verify_loop c vk (run_hash c prev es) (run_hasher c hasher es) (seq + length es)
      (if es = [] then ts else e_timestamp (last es)) (count + length es) (pos + length body) tail"
  using assms
proof (induction es arbitrary: body seq prev hasher ts count pos)
  case Nil
  have "body = []"
    using Nil.prems(1) by (subst (asm) parse_log.simps) (auto simp: Let_def split: if_splits sum.splits)
  then show ?case by simp
next
  case (Cons e es)
  from parse_log_split [OF Cons.prems(1)] obtain n where n: "n = be_val (take 4 body)" "0 < n"
    "n \<le> MAX_ENTRY_SIZE" "4 + n \<le> length body" "deserialize_entry (slice 4 (4 + n) body) = Inr e"
    "parse_log (drop (4 + n) body) = Some es" .
  have eq: "take 4 (body @ tail) = take 4 body" "slice 4 (4 + n) (body @ tail) = slice 4 (4 + n) body"
    "drop (4 + n) (body @ tail) = drop (4 + n) body @ tail" "4 + n \<le> length (body @ tail)"
    using n(2,4) by (auto simp: slice_def)
  have "verify_loop c vk prev hasher seq ts count pos (body @ tail) =
      verify_loop c vk (compute_hash c e) (hasher @ compute_hash c e) (seq + 1) (e_timestamp e)
        (count + 1) (pos + (4 + n)) (drop (4 + n) body @ tail)"
    using n(2-5) eq Cons.prems(2-5)
    by (subst verify_loop.simps) (simp add: Let_def n(1) [symmetric])
  also have "\<dots> = verify_loop c vk (run_hash c (compute_hash c e) es)
      (run_hasher c (hasher @ compute_hash c e) es) (seq + 1 + length es)
      (if es = [] then e_timestamp e else e_timestamp (last es)) (count + 1 + length es)
      (pos + (4 + n) + length (drop (4 + n) body)) tail"
    using Cons.prems(2-5) by (intro Cons.IH [OF n(6)]) simp_all
  finally show ?case using n(4) by simp
qed

lemma verify_loop_complete:
  assumes "parse_log rest = Some es" "chain c vk seq prev hasher es" "monotone_from ts es"
    and "count + length es < MAX_WAL_ENTRIES" "seq + length es < 2 ^ 64"
  shows "verify_loop c vk prev hasher seq ts count pos rest =
    (pos + length rest, Inr (verification (count + length es) (run_hash c prev es) None))"
  using verify_loop_prefix [OF assms, of pos "[]"] assms(4) by (simp add: verify_loop.simps)

lemma verify_ok:
  assumes "wal_ok c s h es" "monotone_from 0 es" "length es < MAX_WAL_ENTRIES"
    and "ws_next_sequence s < 2 ^ 64"
  shows "wal_verify c s = (s, Inr (verification (length es) (ws_last_hash s) None))"
proof -
  note ok = assms(1) [unfolded wal_ok_def]
  have "verify_loop c (cr_verifying_key c (ws_signing_key s)) zero_hash [] (h_last_checkpoint_seq h)
      0 0 HEADER_SIZE (drop HEADER_SIZE (ws_content s)) =
    (HEADER_SIZE + length (drop HEADER_SIZE (ws_content s)),
     Inr (verification (0 + length es) (run_hash c zero_hash es) None))"
    using ok assms(2-4) by (intro verify_loop_complete) auto
  then show ?thesis using ok by (simp add: wal_verify_def)
qed

text \<open>What \<open>verify\<close> accepts: the log parses, up to at most three stray bytes at its end, and
  its entries form a chain with monotone timestamps.\<close>

lemma verify_loop_step:
  assumes "verify_loop c vk prev hasher seq ts count pos rest = (pos', Inr v)" "v_valid v"
    and "4 \<le> length rest" "n = be_val (take 4 rest)"
  obtains e where "n \<le> MAX_ENTRY_SIZE" "4 + n \<le> length rest"
    "deserialize_entry (slice 4 (4 + n) rest) = Inr e" "chain c vk seq prev hasher [e]"
    "ts \<le> e_timestamp e"
    "verify_loop c vk (compute_hash c e) (hasher @ compute_hash c e) (seq + 1) (e_timestamp e)
       (count + 1) (pos + (4 + n)) (drop (4 + n) rest) = (pos', Inr v)"
proof -
  have inv: "\<not> v_valid (verification k p (Some err))" for k p err by (simp add: verification_def)
  show thesis
    using assms(1-3) inv that
    by (subst (asm) verify_loop.simps)
      (auto simp: Let_def assms(4) [symmetric] not_less not_le split: if_splits sum.splits)
qed

lemma parse_log_Cons:
  assumes "deserialize_entry (slice 4 (4 + n) rest) = Inr e" "n = be_val (take 4 rest)" "n \<le> MAX_ENTRY_SIZE"
    and "4 + n \<le> length rest" "parse_log (take m (drop (4 + n) rest)) = Some es"
    and "m \<le> length (drop (4 + n) rest)"
  shows "parse_log (take (4 + n + m) rest) = Some (e # es)"
proof -
  have "0 < n" using assms(1) by (cases n) (auto simp: deserialize_entry_def)
  moreover have "take 4 (take (4 + n + m) rest) = take 4 rest"
    "slice 4 (4 + n) (take (4 + n + m) rest) = slice 4 (4 + n) rest"
    "drop (4 + n) (take (4 + n + m) rest) = take m (drop (4 + n) rest)"
    by (simp_all add: slice_def drop_take min_def)
  ultimately show ?thesis
    using assms by (subst parse_log.simps) (auto simp: Let_def)
qed

lemma verify_loop_sound:
  assumes "verify_loop c vk prev hasher seq ts count pos rest = (pos', Inr v)" "v_valid v"
  shows "\<exists>n es. n \<le> length rest \<and> length rest < n + 4 \<and> parse_log (take n rest) = Some es \<and>
    chain c vk seq prev hasher es \<and> monotone_from ts es \<and> v_entries v = count + length es \<and>
    v_final_hash v = run_hash c prev es"
  using assms
proof (induction "length rest" arbitrary: prev hasher seq ts count pos rest rule: less_induct)
  case less
  show ?case
  proof (cases "length rest < 4")
    case True
    then have "v = verification count prev None"
      using less.prems by (subst (asm) verify_loop.simps) (auto simp: verification_def split: if_splits)
    then show ?thesis using True by (intro exI [of _ 0] exI [of _ "[]"]) (simp add: verification_def)
  next
    case False
    define n where "n = be_val (take 4 rest)"
    from False have "4 \<le> length rest" by simp
    from verify_loop_step [OF less.prems this n_def] obtain e where e: "n \<le> MAX_ENTRY_SIZE"
      "4 + n \<le> length rest" "deserialize_entry (slice 4 (4 + n) rest) = Inr e"
      "chain c vk seq prev hasher [e]" "ts \<le> e_timestamp e"
      and l: "verify_loop c vk (compute_hash c e) (hasher @ compute_hash c e) (seq + 1) (e_timestamp e)
         (count + 1) (pos + (4 + n)) (drop (4 + n) rest) = (pos', Inr v)" .
    have "length (drop (4 + n) rest) < length rest" using e(2) by simp
    from less.hyps [OF this l less.prems(2)] obtain m es where m: "m \<le> length (drop (4 + n) rest)"
      "length (drop (4 + n) rest) < m + 4" "parse_log (take m (drop (4 + n) rest)) = Some es"
      "chain c vk (seq + 1) (compute_hash c e) (hasher @ compute_hash c e) es"
      "monotone_from (e_timestamp e) es" "v_entries v = count + 1 + length es"
      "v_final_hash v = run_hash c (compute_hash c e) es" by blast
    have "parse_log (take (4 + n + m) rest) = Some (e # es)"
      by (rule parse_log_Cons [OF e(3) n_def e(1,2) m(3,1)])
    then show ?thesis
      using e m by (intro exI [of _ "4 + n + m"] exI [of _ "e # es"]) auto
  qed
qed

end
