(* ===== verification/Wal_Open.thy ===== *)
theory Wal_Open
  imports Wal_Correct
begin

text \<open>
  Opening the write-ahead log: whatever bytes the file holds, a successful open leaves a log
  that parses and chains, and a file cut off in the middle of a frame loses that frame only.
\<close>

definition scan_adv :: "crypto \<Rightarrow> entry list \<Rightarrow> wal_state \<Rightarrow> wal_state" where
  "scan_adv c es s =
     s\<lparr>ws_hasher := run_hasher c (ws_hasher s) es,
       ws_next_sequence := ws_next_sequence s + length es,
       ws_last_hash := run_hash c (ws_last_hash s) es,
       ws_entry_count := ws_entry_count s + length es\<rparr>"

lemma scan_adv_simps [simp]:
  "scan_adv c [] s = s"
  "scan_adv c es (scan_adv c [e] s) = scan_adv c (e # es) s"
  "ws_content (scan_adv c es s) = ws_content s" "ws_io (scan_adv c es s) = ws_io s"
  "ws_signing_key (scan_adv c es s) = ws_signing_key s"
  "ws_session_id (scan_adv c es s) = ws_session_id s"
  "ws_next_sequence (scan_adv c es s) = ws_next_sequence s + length es"
  "ws_last_hash (scan_adv c es s) = run_hash c (ws_last_hash s) es"
  "ws_hasher (scan_adv c es s) = run_hasher c (ws_hasher s) es"
  "ws_entry_count (scan_adv c es s) = ws_entry_count s + length es"
  by (simp_all add: scan_adv_def)

abbreviation scan_chain :: "crypto \<Rightarrow> wal_state \<Rightarrow> entry list \<Rightarrow> bool" where
  "scan_chain c s es \<equiv>
     chain c (cr_verifying_key c (ws_signing_key s)) (ws_next_sequence s) (ws_last_hash s) (ws_hasher s) es"

lemma scan_loop_step:
  assumes "scan_loop c s off rest = (s', off', None)" "n = be_val (take 4 rest)"
  obtains (stop) "s' = s" "off' = off"
    | (step) e where "4 + n \<le> length rest" "n \<le> MAX_ENTRY_SIZE"
      "deserialize_entry (slice 4 (4 + n) rest) = Inr e" "scan_chain c s [e]"
      "scan_loop c (scan_adv c [e] s) (off + (4 + n)) (drop (4 + n) rest) = (s', off', None)"
  using assms(1)
  by (subst (asm) scan_loop.simps)
    (auto simp: Let_def assms(2) [symmetric] not_less not_le scan_adv_def
      split: if_splits sum.splits wal_error.splits)

lemma scan_loop_sound:
  assumes "scan_loop c s off rest = (s', off', None)"
  shows "\<exists>n es. n \<le> length rest \<and> off' = off + n \<and> parse_log (take n rest) = Some es \<and>
    scan_chain c s es \<and> s' = scan_adv c es s"
  using assms
proof (induction "length rest" arbitrary: s off rest rule: less_induct)
  case less
  define n where "n = be_val (take 4 rest)"
  from less.prems n_def show ?case
  proof (cases rule: scan_loop_step)
    case stop
    then show ?thesis by (intro exI [of _ 0] exI [of _ "[]"]) simp
  next
    case (step e)
    then have "length (drop (4 + n) rest) < length rest" by simp
    from less.hyps [OF this step(5)] obtain m es where m: "m \<le> length (drop (4 + n) rest)"
      "off' = off + (4 + n) + m" "parse_log (take m (drop (4 + n) rest)) = Some es"
      "scan_chain c (scan_adv c [e] s) es" "s' = scan_adv c es (scan_adv c [e] s)" by blast
    have "parse_log (take (4 + n + m) rest) = Some (e # es)"
      by (rule parse_log_Cons [OF step(3) n_def step(2,1) m(3,1)])
    then show ?thesis
      using step m by (intro exI [of _ "4 + n + m"] exI [of _ "e # es"]) auto
  qed
qed

lemma scan_loop_prefix:
  assumes "parse_log body = Some es" "scan_chain c s es"
    and "ws_entry_count s + length es < MAX_WAL_ENTRIES" "ws_next_sequence s + length es < 2 ^ 64"
  shows "scan_loop c s off (body @ tail) = scan_loop c (scan_adv c es s) (off + length body) tail"
  using assms
proof (induction es arbitrary: body s off)
  case Nil
  have "body = []"
    using Nil.prems(1) by (subst (asm) parse_log.simps) (auto simp: Let_def split: if_splits sum.splits)
  then show ?case by simp
next
  case (Cons e es)
  from parse_log_split [OF Cons.prems(1)] obtain n where n: "n = be_val (take 4 body)" "0 < n"
    "n \<le> MAX_ENTRY_SIZE" "4 + n \<le> length body" "deserialize_entry (slice 4 (4 + n) body) = Inr e"
    "parse_log (drop (4 + n) body) = Some es" .
  have eq: "take 4 (body @ tail) = take 4 body" "slice 4 (4 + n) (body @ tail) = slice 4 (4 + n) body"
    "drop (4 + n) (body @ tail) = drop (4 + n) body @ tail" "4 + n \<le> length (body @ tail)"
    using n(2,4) by (auto simp: slice_def)
  have "scan_loop c s off (body @ tail) =
      scan_loop c (scan_adv c [e] s) (off + (4 + n)) (drop (4 + n) body @ tail)"
    using n(2-5) eq Cons.prems(2-4)
    by (subst scan_loop.simps) (simp add: Let_def n(1) [symmetric] scan_adv_def)
  also have "\<dots> = scan_loop c (scan_adv c es (scan_adv c [e] s)) (off + (4 + n) + length (drop (4 + n) body)) tail"
    using Cons.prems(2-4) by (intro Cons.IH [OF n(6)]) auto
  finally show ?case using n(4) by simp
qed

text \<open>Bytes that cannot hold one whole frame.\<close>

definition torn :: "bytes \<Rightarrow> bool" where
  "torn tail \<longleftrightarrow> length tail < 4 \<or> length tail < 4 + be_val (take 4 tail)"

lemma scan_loop_torn:
  assumes "torn tail" "ws_entry_count s < MAX_WAL_ENTRIES"
  shows "scan_loop c s off tail = (s, off, None)"
  using assms by (subst scan_loop.simps) (auto simp: torn_def Let_def)

lemma torn_frame: "length d < 256 ^ 4 \<Longrightarrow> k < length (frame d) \<Longrightarrow> torn (take k (frame d))"
proof -
  assume a: "length d < 256 ^ 4" "k < length (frame d)"
  show ?thesis
  proof (cases "k < 4")
    case False
    then have "take 4 (take k (frame d)) = be 4 (length d)" by (simp add: frame_def min_def)
    then have "be_val (take 4 (take k (frame d))) = length d" using a(1) by (simp only: be_val_be_id)
    moreover have "length (take k (frame d)) < 4 + length d" using a(2) by (simp add: frame_def)
    ultimately show ?thesis unfolding torn_def by (intro disjI2) linarith
  qed (simp add: torn_def min_def)
qed

subsection \<open>The header\<close>

lemma read_header_ok:
  assumes "HEADER_SIZE \<le> length (ws_content s)"
    and "deserialize_header (take HEADER_SIZE (ws_content s)) = Inr h"
    and "h_magic h = MAGIC" "h_version h = VERSION" "h_session_id h = ws_session_id s"
  shows "read_header s = (s\<lparr>ws_pos := HEADER_SIZE, ws_next_sequence := h_last_checkpoint_seq h\<rparr>, Inr ())"
  using assms by (simp add: read_header_def Let_def)

lemma read_header_Inr:
  assumes "read_header s = (s', Inr ())"
  obtains h where "HEADER_SIZE \<le> length (ws_content s)"
    "deserialize_header (take HEADER_SIZE (ws_content s)) = Inr h"
    "h_magic h = MAGIC" "h_version h = VERSION" "h_session_id h = ws_session_id s"
    "s' = s\<lparr>ws_pos := HEADER_SIZE, ws_next_sequence := h_last_checkpoint_seq h\<rparr>"
  using assms by (auto simp: read_header_def Let_def not_less split: if_splits sum.splits)

lemma new_header_typed:
  "length sid = 32 \<Longrightarrow> i64 now \<Longrightarrow> seq < 2 ^ 64 \<Longrightarrow> header_typed (new_header sid now seq)"
  by (simp add: new_header_def header_typed_def MAGIC_def VERSION_def)

lemma wal_ok_fresh:
  assumes "length (ws_session_id s) = 32" "i64 now" "seq < 2 ^ 64"
    and "ws_content s = serialize_header (new_header (ws_session_id s) now seq)"
    and "ws_next_sequence s = seq" "ws_last_hash s = zero_hash" "ws_hasher s = []"
    and "ws_entry_count s = 0" "ws_byte_count s = HEADER_SIZE" "ws_pos s = HEADER_SIZE"
  shows "wal_ok c s (new_header (ws_session_id s) now seq) []"
proof -
  have t: "header_typed (new_header (ws_session_id s) now seq)" using assms(1-3) by (rule new_header_typed)
  then have "length (ws_content s) = HEADER_SIZE" by (simp add: assms(4) HEADER_SIZE_def)
  then show ?thesis
    using header_roundtrip [OF t] assms by (simp add: wal_ok_def new_header_def)
qed

subsection \<open>Opening\<close>

lemma wal_call_Inr: "wal_call s = (s', Inr ()) \<Longrightarrow> \<exists>rs. s' = s\<lparr>ws_io := rs\<rparr>"
proof (cases "ws_io s")
  case Nil
  moreover assume "wal_call s = (s', Inr ())"
  ultimately show ?thesis by (intro exI [of _ "[]"]) (cases s', auto simp: wal_call_def)
qed (auto simp: wal_call_def split: io.splits)

lemma wal_call_clean [simp]: "ws_io s = [] \<Longrightarrow> wal_call s = (s, Inr ())"
  by (simp add: wal_call_def)

text \<open>The state after a scan of the bytes behind a good header.\<close>

lemma wal_ok_scanned:
  assumes "HEADER_SIZE \<le> length content" "deserialize_header (take HEADER_SIZE content) = Inr h"
    and "h_magic h = MAGIC" "h_version h = VERSION" "h_session_id h = ws_session_id s"
    and "n \<le> length (drop HEADER_SIZE content)" "parse_log (take n (drop HEADER_SIZE content)) = Some es"
    and "chain c (cr_verifying_key c (ws_signing_key s)) (h_last_checkpoint_seq h) zero_hash [] es"
    and "ws_content s = take (HEADER_SIZE + n) content" "ws_pos s = HEADER_SIZE + n"
    and "ws_byte_count s = HEADER_SIZE + n" "ws_next_sequence s = h_last_checkpoint_seq h + length es"
    and "ws_last_hash s = run_hash c zero_hash es" "ws_hasher s = run_hasher c [] es"
    and "ws_entry_count s = length es"
  shows "wal_ok c s h es"
proof -
  have "length (ws_content s) = HEADER_SIZE + n" using assms(1,6,9) by simp
  moreover have "take HEADER_SIZE (ws_content s) = take HEADER_SIZE content" using assms(9) by simp
  moreover have "drop HEADER_SIZE (ws_content s) = take n (drop HEADER_SIZE content)"
    using assms(9) by (simp add: drop_take)
  ultimately show ?thesis using assms unfolding wal_ok_def by simp
qed

lemma scan_to_end_sound:
  assumes "scan_to_end c s = (s', Inr lost)" "ws_pos s = HEADER_SIZE" "HEADER_SIZE \<le> length (ws_content s)"
  obtains n es rs where "n \<le> length (drop HEADER_SIZE (ws_content s))"
    "parse_log (take n (drop HEADER_SIZE (ws_content s))) = Some es" "scan_chain c s es"
    "s' = (scan_adv c es s)\<lparr>ws_io := rs, ws_content := take (HEADER_SIZE + n) (ws_content s),
       ws_byte_count := HEADER_SIZE + n, ws_pos := HEADER_SIZE + n\<rparr>"
proof -
  obtain s1 off r where l: "scan_loop c s HEADER_SIZE (drop HEADER_SIZE (ws_content s)) = (s1, off, r)"
    by (metis prod_cases3)
  have r: "r = None" using assms(1,2) l by (auto simp: scan_to_end_def split: option.splits)
  from scan_loop_sound [OF l [unfolded r]] obtain n es where n:
    "n \<le> length (drop HEADER_SIZE (ws_content s))" "off = HEADER_SIZE + n"
    "parse_log (take n (drop HEADER_SIZE (ws_content s))) = Some es" "scan_chain c s es"
    "s1 = scan_adv c es s" by blast
  obtain s2 where s2: "wal_call s1 = (s2, Inr ())"
    using assms(1,2) l r by (auto simp: scan_to_end_def split: prod.splits sum.splits)
  then obtain rs where rs: "s2 = s1\<lparr>ws_io := rs\<rparr>" using wal_call_Inr by blast
  show thesis
  proof (cases "off < length (ws_content s)")
    case True
    then obtain s3 where s3: "wal_call s2 = (s3, Inr ())" "s' = s3\<lparr>ws_content := take off (ws_content s3),
        ws_byte_count := off, ws_pos := off\<rparr>"
      using assms(1,2) l r s2 rs n(5) by (auto simp: scan_to_end_def elim!: op_bind_Inr_E)
    from wal_call_Inr [OF s3(1)] obtain rs' where "s3 = s2\<lparr>ws_io := rs'\<rparr>" by blast
    then show thesis using that [OF n(1,3,4), of rs'] s3(2) rs n(2,5) by simp
  next
    case False
    then have "s' = s2\<lparr>ws_byte_count := off, ws_pos := off\<rparr>"
      using assms(1,2) l r s2 rs n(5) by (auto simp: scan_to_end_def)
    moreover have "ws_content s = take (HEADER_SIZE + n) (ws_content s)" using False n(2) by simp
    ultimately show thesis using that [OF n(1,3,4), of rs] rs n(2,5) by simp
  qed
qed

lemma open_sound:
  assumes "wal_open c content sid key now ios = (s, Inr ())" "content \<noteq> []"
  shows "\<exists>h es n. wal_ok c s h es \<and> ws_content s = take n content \<and>
    ws_session_id s = sid \<and> ws_signing_key s = key \<and> \<not> ws_closed s \<and> \<not> ws_inconsistent s"
proof -
  let ?s0 = "initial_state content sid key DEFAULT_SYNC_INTERVAL ios"
  obtain s1 where s1: "wal_call ?s0 = (s1, Inr ())" "op_bind wal_call (\<lambda>_. op_bind wal_call (\<lambda>_ s.
       if ws_content s = [] then
         op_bind (write_header now)
           (\<lambda>_ s. (s\<lparr>ws_byte_count := HEADER_SIZE, ws_pos := HEADER_SIZE\<rparr>, Inr ())) s
       else op_bind read_header (\<lambda>_. op_bind (scan_to_end c) (\<lambda>_. op_return ())) s)) s1 = (s, Inr ())"
    using assms(1) unfolding wal_open_def open_with_sync_interval_def by (auto elim: op_bind_Inr_E)
  from s1(2) obtain s2 s3 where s23: "wal_call s1 = (s2, Inr ())" "wal_call s2 = (s3, Inr ())"
    and run: "(if ws_content s3 = [] then
         op_bind (write_header now)
           (\<lambda>_ s. (s\<lparr>ws_byte_count := HEADER_SIZE, ws_pos := HEADER_SIZE\<rparr>, Inr ())) s3
       else op_bind read_header (\<lambda>_. op_bind (scan_to_end c) (\<lambda>_. op_return ())) s3) = (s, Inr ())"
    by (elim op_bind_Inr_E) auto
  obtain rs where s3: "s3 = ?s0\<lparr>ws_io := rs\<rparr>"
    using wal_call_Inr [OF s1(1)] wal_call_Inr [OF s23(1)] wal_call_Inr [OF s23(2)] by auto
  have cont: "ws_content s3 = content" "ws_session_id s3 = sid" by (simp_all add: s3 initial_state_def)
  with run assms(2) have "op_bind read_header (\<lambda>_. op_bind (scan_to_end c) (\<lambda>_. op_return ())) s3 = (s, Inr ())"
    by simp
  then obtain s4 lost where s4: "read_header s3 = (s4, Inr ())" "scan_to_end c s4 = (s, Inr lost)"
    by (elim op_bind_Inr_E) (auto simp: op_return_def)
  from read_header_Inr [OF s4(1)] obtain h where h: "HEADER_SIZE \<le> length content"
    "deserialize_header (take HEADER_SIZE content) = Inr h" "h_magic h = MAGIC" "h_version h = VERSION"
    "h_session_id h = sid" "s4 = s3\<lparr>ws_pos := HEADER_SIZE, ws_next_sequence := h_last_checkpoint_seq h\<rparr>"
    unfolding cont by metis
  have "ws_pos s4 = HEADER_SIZE" "HEADER_SIZE \<le> length (ws_content s4)" using h(1,6) cont by simp_all
  from scan_to_end_sound [OF s4(2) this] obtain n es rs' where n:
    "n \<le> length (drop HEADER_SIZE (ws_content s4))"
    "parse_log (take n (drop HEADER_SIZE (ws_content s4))) = Some es" "scan_chain c s4 es"
    "s = (scan_adv c es s4)\<lparr>ws_io := rs', ws_content := take (HEADER_SIZE + n) (ws_content s4),
       ws_byte_count := HEADER_SIZE + n, ws_pos := HEADER_SIZE + n\<rparr>" .
  have s: "s = (scan_adv c es (?s0\<lparr>ws_next_sequence := h_last_checkpoint_seq h\<rparr>))\<lparr>ws_io := rs',
      ws_content := take (HEADER_SIZE + n) content, ws_byte_count := HEADER_SIZE + n,
      ws_pos := HEADER_SIZE + n\<rparr>"
    using n(4) by (simp add: h(6) s3 initial_state_def scan_adv_def)
  have "wal_ok c s h es"
    by (rule wal_ok_scanned [OF h(1-4)]) (use h(5,6) n(1-3) cont in \<open>simp_all add: s s3 initial_state_def\<close>)
  then show ?thesis
    by (intro exI [of _ h] exI [of _ es] exI [of _ "HEADER_SIZE + n"])
      (simp add: s initial_state_def scan_adv_def)
qed

text \<open>A log followed by bytes at which the scan stops opens as the log itself.\<close>

lemma open_prefix:
  assumes "wal_ok c s h es"
    and "\<And>s off. ws_entry_count s < MAX_WAL_ENTRIES \<Longrightarrow> scan_loop c s off tail = (s, off, None)"
    and "length es < MAX_WAL_ENTRIES" "ws_next_sequence s < 2 ^ 64"
  shows "\<exists>s'. wal_open c (ws_content s @ tail) (ws_session_id s) (ws_signing_key s) now [] = (s', Inr ()) \<and>
    wal_ok c s' h es \<and> ws_content s' = ws_content s \<and> \<not> ws_closed s' \<and> \<not> ws_inconsistent s'"
proof -
  note ok = assms(1) [unfolded wal_ok_def]
  let ?content = "ws_content s @ tail"
  let ?s0 = "initial_state ?content (ws_session_id s) (ws_signing_key s) DEFAULT_SYNC_INTERVAL []"
  let ?s1 = "?s0\<lparr>ws_pos := HEADER_SIZE, ws_next_sequence := h_last_checkpoint_seq h\<rparr>"
  let ?s2 = "(scan_adv c es ?s1)\<lparr>ws_content := ws_content s, ws_byte_count := length (ws_content s),
    ws_pos := length (ws_content s)\<rparr>"
  have ne: "ws_content s \<noteq> []" using ok by (auto simp: HEADER_SIZE_def)
  have rd: "read_header ?s0 = (?s1, Inr ())"
    using ok by (intro read_header_ok) (simp_all add: initial_state_def)
  have io: "ws_io ?s0 = []" "ws_content ?s0 = ?content" by (simp_all add: initial_state_def)
  have "scan_loop c ?s1 HEADER_SIZE (drop HEADER_SIZE (ws_content s) @ tail) =
      scan_loop c (scan_adv c es ?s1) (HEADER_SIZE + length (drop HEADER_SIZE (ws_content s))) tail"
    using ok assms(3,4) by (intro scan_loop_prefix) (simp_all add: initial_state_def)
  also have "\<dots> = (scan_adv c es ?s1, HEADER_SIZE + length (drop HEADER_SIZE (ws_content s)), None)"
    using assms(3) by (intro assms(2)) (simp add: initial_state_def)
  finally have sc: "scan_loop c ?s1 HEADER_SIZE (drop HEADER_SIZE ?content) =
      (scan_adv c es ?s1, length (ws_content s), None)" using ok by simp
  have "\<exists>lost. scan_to_end c ?s1 = (?s2, Inr lost)"
  proof (cases "tail = []")
    case True
    then show ?thesis using sc io by (simp add: scan_to_end_def)
  qed (use sc io in \<open>simp add: scan_to_end_def op_bind_def\<close>)
  then obtain lost where se: "scan_to_end c ?s1 = (?s2, Inr lost)" ..
  have "wal_open c ?content (ws_session_id s) (ws_signing_key s) now [] = (?s2, Inr ())"
    unfolding wal_open_def open_with_sync_interval_def
    using io ne rd se by (simp add: op_bind_def op_return_def)
  moreover have "wal_ok c ?s2 h es"
    using ok unfolding wal_ok_def by (simp add: initial_state_def)
  ultimately show ?thesis
    by (intro exI [of _ ?s2]) (simp add: scan_adv_def initial_state_def)
qed

lemma open_torn:
  assumes "wal_ok c s h es" "torn tail" "length es < MAX_WAL_ENTRIES" "ws_next_sequence s < 2 ^ 64"
  shows "\<exists>s'. wal_open c (ws_content s @ tail) (ws_session_id s) (ws_signing_key s) now [] = (s', Inr ()) \<and>
    wal_ok c s' h es \<and> ws_content s' = ws_content s \<and> \<not> ws_closed s' \<and> \<not> ws_inconsistent s'"
  using assms(2) by (intro open_prefix [OF assms(1) _ assms(3,4)] scan_loop_torn)

end
