(* ===== verification/Wal_Recover.thy ===== *)
theory Wal_Recover
  imports Wal_Open
begin

text \<open>
  Recovery and rotation of the write-ahead log, related to its abstract list of entries.
\<close>

subsection \<open>Recovery keeps the valid prefix\<close>

definition rec_adv :: "crypto \<Rightarrow> entry list \<Rightarrow> nat \<Rightarrow> rec_state \<Rightarrow> rec_state" where
  "rec_adv c es n r =
     \<lparr>c_prev_hash = run_hash c (c_prev_hash r) es, c_hasher = run_hasher c (c_hasher r) es,
      c_expected = c_expected r + length es,
      c_last_ts = (if es = [] then c_last_ts r else e_timestamp (last es)),
      c_count = c_count r + length es, c_offset = c_offset r + n\<rparr>"

lemma rec_adv_Nil [simp]: "rec_adv c [] 0 r = r"
  by (simp add: rec_adv_def)

lemma rec_adv_step [simp]: "rec_adv c es m (rec_step c e n r) = rec_adv c (e # es) (4 + n + m) r"
  by (simp add: rec_adv_def rec_step_def)

abbreviation rec_chain :: "crypto \<Rightarrow> bytes \<Rightarrow> rec_state \<Rightarrow> entry list \<Rightarrow> bool" where
  "rec_chain c vk r es \<equiv> chain c vk (c_expected r) (c_prev_hash r) (c_hasher r) es \<and>
     monotone_from (c_last_ts r) es"

lemma rec_chain_Cons:
  "rec_chain c vk r (e # es) \<longleftrightarrow> rec_chain c vk r [e] \<and> rec_chain c vk (rec_step c e n r) es"
  by (auto simp: rec_step_def)

lemma recover_loop_step:
  assumes "recover_loop c vk r rest = (cur, Some r')" "n = be_val (take 4 rest)"
  obtains (stop) "r' = r"
    | (step) e where "4 + n \<le> length rest" "n \<le> MAX_ENTRY_SIZE"
      "deserialize_entry (slice 4 (4 + n) rest) = Inr e" "rec_chain c vk r [e]"
      "recover_loop c vk (rec_step c e n r) (drop (4 + n) rest) = (cur, Some r')"
  using assms(1)
  by (subst (asm) recover_loop.simps)
    (auto simp: Let_def assms(2) [symmetric] not_less not_le split: if_splits sum.splits)

lemma recover_loop_sound:
  assumes "recover_loop c vk r rest = (cur, Some r')"
  shows "\<exists>n es. n \<le> length rest \<and> parse_log (take n rest) = Some es \<and> rec_chain c vk r es \<and>
    r' = rec_adv c es n r"
  using assms
proof (induction "length rest" arbitrary: r rest rule: less_induct)
  case less
  define n where "n = be_val (take 4 rest)"
  from less.prems n_def show ?case
  proof (cases rule: recover_loop_step)
    case stop
    then show ?thesis by (intro exI [of _ 0] exI [of _ "[]"]) simp
  next
    case (step e)
    then have "length (drop (4 + n) rest) < length rest" by simp
    from less.hyps [OF this step(5)] obtain m es where m: "m \<le> length (drop (4 + n) rest)"
      "parse_log (take m (drop (4 + n) rest)) = Some es" "rec_chain c vk (rec_step c e n r) es"
      "r' = rec_adv c es m (rec_step c e n r)" by blast
    have "parse_log (take (4 + n + m) rest) = Some (e # es)"
      by (rule parse_log_Cons [OF step(3) n_def step(2,1) m(2,1)])
    moreover have "rec_chain c vk r (e # es)" using rec_chain_Cons step(4) m(3) by blast
    moreover have "4 + n + m \<le> length rest" using step(1) m(1) by simp
    ultimately show ?thesis using m(4) by (intro exI [of _ "4 + n + m"] exI [of _ "e # es"]) simp
  qed
qed

lemma recover_loop_prefix:
  assumes "parse_log body = Some es" "rec_chain c vk r es" "c_expected r + length es < 2 ^ 64"
  shows "recover_loop c vk r (body @ tail) = recover_loop c vk (rec_adv c es (length body) r) tail"
  using assms
proof (induction es arbitrary: body r)
  case Nil
  have "body = []"
    using Nil.prems(1) by (subst (asm) parse_log.simps) (auto simp: Let_def split: if_splits sum.splits)
  then show ?case by simp
next
  case (Cons e es)
  from parse_log_split [OF Cons.prems(1)] obtain n where n: "n = be_val (take 4 body)" "0 < n"
    "n \<le> MAX_ENTRY_SIZE" "4 + n \<le> length body" "deserialize_entry (slice 4 (4 + n) body) = Inr e"
    "parse_log (drop (4 + n) body) = Some es" .
  have eq: "take 4 (body @ tail) = take 4 body" "slice 4 (4 + n) (body @ tail) = slice 4 (4 + n) body"
    "drop (4 + n) (body @ tail) = drop (4 + n) body @ tail" "4 + n \<le> length (body @ tail)"
    using n(2,4) by (auto simp: slice_def)
  have "recover_loop c vk r (body @ tail) =
      recover_loop c vk (rec_step c e n r) (drop (4 + n) body @ tail)"
    using n(2-5) eq Cons.prems(2,3)
    by (subst recover_loop.simps) (simp add: Let_def n(1) [symmetric])
  also have "\<dots> = recover_loop c vk (rec_adv c es (length (drop (4 + n) body)) (rec_step c e n r)) tail"
    using Cons.prems(2,3) rec_chain_Cons [of c vk r e es n]
    by (intro Cons.IH [OF n(6)]) (simp_all add: rec_step_def)
  finally show ?case using n(4) by simp
qed

lemma recover_loop_torn: "torn tail \<Longrightarrow> \<exists>cur. recover_loop c vk r tail = (cur, Some r)"
  by (subst recover_loop.simps) (auto simp: torn_def Let_def)

text \<open>The header the recovery loops start from.\<close>

definition good_header :: "wal_state \<Rightarrow> header \<Rightarrow> bool" where
  "good_header s h \<longleftrightarrow> HEADER_SIZE \<le> length (ws_content s) \<and>
     deserialize_header (take HEADER_SIZE (ws_content s)) = Inr h \<and>
     h_magic h = MAGIC \<and> h_version h = VERSION \<and> h_session_id h = ws_session_id s"

lemma wal_ok_good_header: "wal_ok c s h es \<Longrightarrow> good_header s h"
  by (simp add: wal_ok_def good_header_def)

lemma wal_ok_adopted:
  assumes "good_header s h" "n \<le> length (drop HEADER_SIZE (ws_content s))"
    and "parse_log (take n (drop HEADER_SIZE (ws_content s))) = Some es"
    and "chain c (cr_verifying_key c (ws_signing_key s)) (h_last_checkpoint_seq h) zero_hash [] es"
    and "r = rec_adv c es n (rec_start (h_last_checkpoint_seq h))"
    and "s' = (rec_adopt r s)\<lparr>ws_io := rs, ws_content := take (c_offset r) (ws_content s),
      ws_pending_syncs := p\<rparr>"
  shows "wal_ok c s' h es"
  using assms(1,2)
  by (intro wal_ok_scanned [of "ws_content s" h s' n es])
    (auto simp: good_header_def assms(3-6) rec_adopt_def rec_adv_def rec_start_def)

lemma recover_truncates:
  assumes "wal_recover c now s = (s', Inr rep)" "good_header s h" "ws_content s' \<noteq> ws_content s"
  shows "\<exists>es n. wal_ok c s' h es \<and> monotone_from 0 es \<and> es \<noteq> [] \<and> ws_content s' = take n (ws_content s) \<and>
    \<not> ws_inconsistent s' \<and> r_truncated_at_sequence rep = ws_next_sequence s'"
proof -
  let ?vk = "cr_verifying_key c (ws_signing_key s)" and ?start = "rec_start (h_last_checkpoint_seq h)"
  obtain cur ro where l: "recover_loop c ?vk ?start (drop HEADER_SIZE (ws_content s)) = (cur, ro)"
    by (cases "recover_loop c ?vk ?start (drop HEADER_SIZE (ws_content s))") auto
  note g = assms(2) [unfolded good_header_def]
  obtain r where r: "ro = Some r" "\<not> ws_closed s"
    using assms(1) g l by (auto simp: wal_recover_def split: if_splits option.splits)
  let ?s1 = "s\<lparr>ws_pos := cur\<rparr>"
  obtain s2 where s2: "wal_call ?s1 = (s2, Inr ())"
    using assms(1) g l r by (auto simp: wal_recover_def Let_def split: prod.splits sum.splits)
  from wal_call_Inr [OF s2] obtain rs where rs: "s2 = ?s1\<lparr>ws_io := rs\<rparr>" by blast
  have cnt: "c_offset r < length (ws_content s)" "c_count r \<noteq> 0"
    using assms(1,3) g l r s2 rs by (auto simp: wal_recover_def Let_def not_le split: if_splits)
  then obtain s3 s4 where s34: "wal_call s2 = (s3, Inr ())"
    "wal_call (s3\<lparr>ws_content := take (c_offset r) (ws_content s3)\<rparr>) = (s4, Inr ())"
    "s' = rec_adopt r s4" "r_truncated_at_sequence rep = c_expected r"
    using assms(1) g l r s2 rs
    by (auto simp: wal_recover_def Let_def not_le elim!: op_bind_Inr_E)
  obtain rs' where s4: "s4 = s\<lparr>ws_pos := cur, ws_content := take (c_offset r) (ws_content s), ws_io := rs'\<rparr>"
    using wal_call_Inr [OF s34(1)] wal_call_Inr [OF s34(2)] rs by auto
  from recover_loop_sound [OF l [unfolded r(1)]] obtain n es where n:
    "n \<le> length (drop HEADER_SIZE (ws_content s))"
    "parse_log (take n (drop HEADER_SIZE (ws_content s))) = Some es" "rec_chain c ?vk ?start es"
    "r = rec_adv c es n ?start" by blast
  have s': "s' = (rec_adopt r s)\<lparr>ws_io := rs', ws_content := take (c_offset r) (ws_content s),
      ws_pending_syncs := ws_pending_syncs s\<rparr>"
    using s34(3) s4 by (simp add: rec_adopt_def)
  have "wal_ok c s' h es"
    using n(3) by (intro wal_ok_adopted [OF assms(2) n(1,2) _ n(4) s']) (simp add: rec_start_def)
  moreover have "es \<noteq> []" using cnt(2) n(4) by (auto simp: rec_adv_def rec_start_def)
  ultimately show ?thesis
    using n(3) s34(4) by (intro exI [of _ es] exI [of _ "c_offset r"]) (simp add: s' rec_adopt_def rec_start_def)
qed

text \<open>Recovery of a log with a torn tail gives back the log.\<close>

lemma recover_torn:
  assumes "good_header s h" "ws_content s = base @ tail" "HEADER_SIZE \<le> length base"
    and "parse_log (drop HEADER_SIZE base) = Some es" "es \<noteq> []" "torn tail" "tail \<noteq> []"
    and "chain c (cr_verifying_key c (ws_signing_key s)) (h_last_checkpoint_seq h) zero_hash [] es"
    and "monotone_from 0 es" "h_last_checkpoint_seq h + length es < 2 ^ 64"
    and "\<not> ws_closed s" "ws_io s = []"
  shows "\<exists>s' rep. wal_recover c now s = (s', Inr rep) \<and> wal_ok c s' h es \<and>
    ws_content s' = base \<and> \<not> ws_inconsistent s'"
proof -
  let ?vk = "cr_verifying_key c (ws_signing_key s)" and ?start = "rec_start (h_last_checkpoint_seq h)"
  let ?r = "rec_adv c es (length (drop HEADER_SIZE base)) ?start"
  have "recover_loop c ?vk ?start (drop HEADER_SIZE base @ tail) = recover_loop c ?vk ?r tail"
    using assms(8-10) by (intro recover_loop_prefix [OF assms(4)]) (simp_all add: rec_start_def)
  with recover_loop_torn [OF assms(6)] obtain cur where
    l: "recover_loop c ?vk ?start (drop HEADER_SIZE (ws_content s)) = (cur, Some ?r)"
    using assms(2,3) by (metis drop_append diff_is_0_eq drop_0)
  have off: "c_offset ?r = length base" "c_count ?r \<noteq> 0"
    using assms(3,5) by (simp_all add: rec_adv_def rec_start_def)
  let ?s' = "(rec_adopt ?r s)\<lparr>ws_content := base\<rparr>"
  obtain rep where rep: "wal_recover c now s = (?s', Inr rep)"
    using assms(1,2,7,11,12) l off
    by (simp add: wal_recover_def good_header_def Let_def op_bind_def rec_adopt_def)
  have "wal_ok c ?s' h es"
    by (rule wal_ok_adopted [where n = "length (drop HEADER_SIZE base)" and rs = "ws_io s"
          and p = "ws_pending_syncs s", OF assms(1) _ _ assms(8) refl])
      (use assms(2,3,4) off in \<open>simp_all add: rec_adopt_def\<close>)
  with rep show ?thesis by (auto simp: rec_adopt_def)
qed

subsection \<open>Non-destructive recovery\<close>

lemma try_recover_loop_complete:
  assumes "parse_log rest = Some es" "rec_chain c vk r es"
    and "c_count r + length es < MAX_WAL_ENTRIES" "c_expected r + length es < 2 ^ 64"
  shows "\<exists>cur. try_recover_loop c vk r rest = (cur, Inr (rec_adv c es (length rest) r))"
  using assms
proof (induction es arbitrary: rest r)
  case Nil
  have "rest = []"
    using Nil.prems(1) by (subst (asm) parse_log.simps) (auto simp: Let_def split: if_splits sum.splits)
  then show ?case using Nil.prems(3) by (subst try_recover_loop.simps) simp
next
  case (Cons e es)
  from parse_log_split [OF Cons.prems(1)] obtain n where n: "n = be_val (take 4 rest)" "0 < n"
    "n \<le> MAX_ENTRY_SIZE" "4 + n \<le> length rest" "deserialize_entry (slice 4 (4 + n) rest) = Inr e"
    "parse_log (drop (4 + n) rest) = Some es" .
  have "try_recover_loop c vk r rest = try_recover_loop c vk (rec_step c e n r) (drop (4 + n) rest)"
    using n(2-5) Cons.prems(2-4)
    by (subst try_recover_loop.simps) (simp add: Let_def n(1) [symmetric])
  moreover have "\<exists>cur. try_recover_loop c vk (rec_step c e n r) (drop (4 + n) rest) =
      (cur, Inr (rec_adv c es (length (drop (4 + n) rest)) (rec_step c e n r)))"
    using Cons.prems(2-4) rec_chain_Cons [of c vk r e es n]
    by (intro Cons.IH [OF n(6)]) (simp_all add: rec_step_def)
  ultimately show ?case using n(4) by simp
qed

lemma try_recover_ok:
  assumes "good_header s h" "parse_log (drop HEADER_SIZE (ws_content s)) = Some es"
    and "chain c (cr_verifying_key c (ws_signing_key s)) (h_last_checkpoint_seq h) zero_hash [] es"
    and "monotone_from 0 es" "length es < MAX_WAL_ENTRIES" "h_last_checkpoint_seq h + length es < 2 ^ 64"
    and "\<not> ws_closed s" "ws_inconsistent s"
  shows "\<exists>s'. try_recover c s = (s', Inr (length es)) \<and> wal_ok c s' h es \<and>
    ws_content s' = ws_content s \<and> \<not> ws_inconsistent s' \<and> \<not> ws_closed s'"
proof -
  let ?body = "drop HEADER_SIZE (ws_content s)" and ?start = "rec_start (h_last_checkpoint_seq h)"
  let ?r = "rec_adv c es (length ?body) ?start"
  obtain cur where l: "try_recover_loop c (cr_verifying_key c (ws_signing_key s)) ?start ?body = (cur, Inr ?r)"
    using try_recover_loop_complete [OF assms(2), of c "cr_verifying_key c (ws_signing_key s)" ?start]
      assms(3-6) by (auto simp: rec_start_def)
  have off: "c_offset ?r = length (ws_content s)" "c_count ?r = length es"
    using assms(1) by (simp_all add: rec_adv_def rec_start_def good_header_def)
  let ?s' = "(rec_adopt ?r s)\<lparr>ws_pending_syncs := 0\<rparr>"
  have "try_recover c s = (?s', Inr (length es))"
    using assms(1,7,8) l off by (simp add: try_recover_def good_header_def)
  moreover have "wal_ok c ?s' h es"
    by (rule wal_ok_adopted [where n = "length ?body" and rs = "ws_io s" and p = 0,
          OF assms(1) _ _ assms(3) refl])
      (use assms(2) off in \<open>simp_all add: rec_adopt_def\<close>)
  ultimately show ?thesis using assms(7) by (auto simp: rec_adopt_def)
qed

subsection \<open>Rotation\<close>

lemma rotate_ok:
  assumes "ws_io s = []" "\<not> ws_closed s" "max_size \<le> ws_byte_count s"
    and "length (ws_session_id s) = 32" "i64 now'" "ws_next_sequence s < 2 ^ 64"
  shows "\<exists>s'. rotate_if_needed max_size now now' s = (s', Inr (Some now)) \<and>
    wal_ok c s' (new_header (ws_session_id s) now' (ws_next_sequence s)) [] \<and>
    ws_next_sequence s' = ws_next_sequence s \<and> ws_signing_key s' = ws_signing_key s \<and>
    ws_archives s' = ws_archives s @ [(now, ws_content s)] \<and> ws_path s' = SameFile"
proof -
  let ?h = "serialize_header (new_header (ws_session_id s) now' (ws_next_sequence s))"
  let ?s' = "s\<lparr>ws_archives := ws_archives s @ [(now, ws_content s)], ws_content := ?h,
    ws_pos := HEADER_SIZE, ws_path := SameFile, ws_last_hash := zero_hash, ws_hasher := [],
    ws_entry_count := 0, ws_byte_count := HEADER_SIZE\<rparr>"
  have len: "length ?h = HEADER_SIZE"
    using new_header_typed [OF assms(4-6)] by (simp add: HEADER_SIZE_def)
  have "rotate_if_needed max_size now now' s = (?s', Inr (Some now))"
    using assms(1-3) len
    by (simp add: rotate_if_needed_def Let_def op_bind_def rotate_call_def rotate_write_def
        wal_write_all_def write_at_def not_less)
  moreover have "wal_ok c ?s' (new_header (ws_session_id ?s') now' (ws_next_sequence s)) []"
    using assms(4-6) by (intro wal_ok_fresh) simp_all
  ultimately show ?thesis by simp
qed

end
