(* ===== verification/Wal_Trunc.thy ===== *)
theory Wal_Trunc
  imports Wal_Recover
begin

text \<open>
  Truncation of the write-ahead log: the entries from a sequence number on are written to a
  new file, chained and signed anew. Their payloads, types, timestamps and sequence numbers
  are those of the old log.
\<close>

text \<open>What of an entry truncation keeps.\<close>

definition ent :: "entry \<Rightarrow> nat \<times> int \<times> entry_type \<times> bytes" where
  "ent e = (e_sequence e, e_timestamp e, e_entry_type e, e_payload e)"

lemma deserialize_entry_payload:
  assumes "deserialize_entry d = Inr e"
  shows "e_length e = (149 + length (e_payload e)) mod 2 ^ 32 \<and> 149 + length (e_payload e) \<le> length d"
  using assms by (auto simp: deserialize_entry_def Let_def res_bind_Inr_iff split: if_splits)

text \<open>An entry read from the log and sealed anew can be written and read again.\<close>

lemma resealed_frame:
  assumes "crypto_ok c" "deserialize_entry d = Inr e" "length d \<le> MAX_ENTRY_SIZE" "length prev = 32"
    and "e1 = sealed_entry c k hasher (e\<lparr>e_prev_hash := prev\<rparr>)"
  obtains d1 where "serialize_entry e1 = Inr d1" "parse_log (frame d1) = Some [e1]"
proof -
  have "entry_typed (e\<lparr>e_prev_hash := prev\<rparr>)"
    using deserialize_entry_typed [OF assms(2)] assms(4) by (simp add: entry_typed_def)
  then have ty: "entry_typed e1" unfolding assms(5) by (rule sealed_typed [OF assms(1)])
  have pl: "e_payload e1 = e_payload e" "e_length e1 = e_length e"
    by (simp_all add: assms(5) sealed_entry_def Let_def)
  note p = deserialize_entry_payload [OF assms(2)]
  have le: "149 + length (e_payload e) \<le> MAX_ENTRY_SIZE" using p assms(3) by linarith
  then have small: "length (e_payload e1) < 2 ^ 32" by (simp add: pl MAX_ENTRY_SIZE_def)
  then obtain d1 where d1: "serialize_entry e1 = Inr d1" by (simp add: serialize_entry_def)
  have len: "length d1 = 149 + length (e_payload e)"
    using length_serialize_entry [OF ty d1] by (simp add: pl)
  have "length d1 mod 2 ^ 32 = e_length e1" using p by (simp add: pl len)
  then have "deserialize_entry d1 = Inr e1" using entry_roundtrip [OF ty d1] by simp
  then show thesis using that [OF d1] parse_log_frame [of d1 e1] len le by simp
qed

lemma sealed_chain:
  assumes "crypto_ok c" "e1 = sealed_entry c k hasher (e\<lparr>e_prev_hash := prev\<rparr>)"
  shows "chain c (cr_verifying_key c k) (e_sequence e) prev hasher [e1]" "ent e1 = ent e"
    "e_sequence e1 = e_sequence e"
    "compute_hash c e1 = compute_hash c (e\<lparr>e_prev_hash := prev\<rparr>)"
  using assms(1) unfolding assms(2) by (simp_all add: crypto_ok_def ent_def)
    (simp_all add: sealed_entry_def Let_def compute_hash_def)

definition retained_ok :: "trunc_state \<Rightarrow> nat \<Rightarrow> nat \<Rightarrow> bool" where
  "retained_ok t seq before_seq \<longleftrightarrow>
     (case t_prev_retained t of None \<Rightarrow> True | Some p \<Rightarrow> p + 1 = seq \<and> before_seq \<le> p)"

lemma trunc_retain_ok:
  assumes "crypto_ok c" "deserialize_entry d = Inr e" "length d \<le> MAX_ENTRY_SIZE"
    and "length (t_last_hash t) = 32" "retained_ok t (e_sequence e) before_seq"
    and "e_sequence e < 2 ^ 64" "ws_io s = []"
    and "e1 = sealed_entry c k (t_hasher t) (e\<lparr>e_prev_hash := t_last_hash t\<rparr>)"
  shows "\<exists>d1. parse_log (frame d1) = Some [e1] \<and>
    trunc_retain c k e t s = (s, Inr (t\<lparr>t_out := t_out t @ frame d1, t_last_hash := compute_hash c e1,
       t_hasher := t_hasher t @ compute_hash c e1, t_prev_retained := Some (e_sequence e),
       t_retained_count := t_retained_count t + 1\<rparr>))"
proof -
  obtain d1 where d1: "serialize_entry e1 = Inr d1" "parse_log (frame d1) = Some [e1]"
    using resealed_frame [OF assms(1-4,8)] .
  have "trunc_retain c k e t s = (s, Inr (t\<lparr>t_out := t_out t @ frame d1, t_last_hash := compute_hash c e1,
       t_hasher := t_hasher t @ compute_hash c e1, t_prev_retained := Some (e_sequence e),
       t_retained_count := t_retained_count t + 1\<rparr>))"
    using d1(1) assms(5-7) sealed_chain(4) [OF assms(1,8)]
    by (auto simp: trunc_retain_def Let_def assms(8) [symmetric] retained_ok_def op_bind_def
        op_return_def split: option.splits)
  with d1(2) show ?thesis by blast
qed

text \<open>What a run of the loop adds to the new file.\<close>

definition trunc_adds ::
    "crypto \<Rightarrow> bytes \<Rightarrow> nat \<Rightarrow> nat \<Rightarrow> entry list \<Rightarrow> trunc_state \<Rightarrow> trunc_state \<Rightarrow> bool" where
  "trunc_adds c k seq before_seq es t t' \<longleftrightarrow> (\<exists>b fs.
     t_out t' = t_out t @ b \<and> parse_log b = Some fs \<and>
     chain c (cr_verifying_key c k) (max seq before_seq) (t_last_hash t) (t_hasher t) fs \<and>
     map ent fs = map ent (filter (\<lambda>e. before_seq \<le> e_sequence e) es) \<and>
     t_last_hash t' = run_hash c (t_last_hash t) fs \<and> t_hasher t' = run_hasher c (t_hasher t) fs \<and>
     t_retained_count t' = t_retained_count t + length fs \<and>
     t_prev_retained t' = (if fs = [] then t_prev_retained t else Some (e_sequence (last fs))))"

lemma trunc_adds_Nil: "t_out t' = t_out t \<Longrightarrow> t_last_hash t' = t_last_hash t \<Longrightarrow> t_hasher t' = t_hasher t \<Longrightarrow>
    t_retained_count t' = t_retained_count t \<Longrightarrow> t_prev_retained t' = t_prev_retained t \<Longrightarrow>
    trunc_adds c k seq before_seq [] t t'"
  unfolding trunc_adds_def by (intro exI [of _ "[]"]) simp

lemma trunc_adds_skip:
  assumes "trunc_adds c k (seq + 1) before_seq es t1 t'" "e_sequence e = seq" "seq < before_seq"
    and "t_out t1 = t_out t" "t_last_hash t1 = t_last_hash t" "t_hasher t1 = t_hasher t"
    and "t_retained_count t1 = t_retained_count t" "t_prev_retained t1 = t_prev_retained t"
  shows "trunc_adds c k seq before_seq (e # es) t t'"
proof -
  have m: "max (seq + 1) before_seq = max seq before_seq" using assms(3) by simp
  have f: "filter (\<lambda>x. before_seq \<le> e_sequence x) (e # es) = filter (\<lambda>x. before_seq \<le> e_sequence x) es"
    using assms(2,3) by simp
  show ?thesis using assms(1) unfolding trunc_adds_def m f assms(4-8) .
qed

lemma trunc_adds_keep:
  assumes "crypto_ok c" "trunc_adds c k (seq + 1) before_seq es t1 t'" "e_sequence e = seq" "before_seq \<le> seq"
    and "e1 = sealed_entry c k (t_hasher t) (e\<lparr>e_prev_hash := t_last_hash t\<rparr>)"
    and "parse_log (frame d1) = Some [e1]" "t_out t1 = t_out t @ frame d1"
    and "t_last_hash t1 = compute_hash c e1" "t_hasher t1 = t_hasher t @ compute_hash c e1"
    and "t_prev_retained t1 = Some seq" "t_retained_count t1 = t_retained_count t + 1"
  shows "trunc_adds c k seq before_seq (e # es) t t'"
proof -
  from assms(2) obtain b fs where b: "t_out t' = t_out t1 @ b" "parse_log b = Some fs"
    "chain c (cr_verifying_key c k) (max (seq + 1) before_seq) (t_last_hash t1) (t_hasher t1) fs"
    "map ent fs = map ent (filter (\<lambda>e. before_seq \<le> e_sequence e) es)"
    "t_last_hash t' = run_hash c (t_last_hash t1) fs" "t_hasher t' = run_hasher c (t_hasher t1) fs"
    "t_retained_count t' = t_retained_count t1 + length fs"
    "t_prev_retained t' = (if fs = [] then t_prev_retained t1 else Some (e_sequence (last fs)))"
    by (auto simp: trunc_adds_def)
  note se = sealed_chain [OF assms(1,5)]
  have m: "max (seq + 1) before_seq = seq + 1" "max seq before_seq = seq" using assms(4) by simp_all
  have "parse_log (frame d1 @ b) = Some (e1 # fs)" using parse_log_append [OF assms(6), of b] b(2) by simp
  moreover have "chain c (cr_verifying_key c k) seq (t_last_hash t) (t_hasher t) (e1 # fs)"
    using se(1) b(3) assms(3,8,9) m by simp
  ultimately show ?thesis
    unfolding trunc_adds_def m
    using b(1,4-8) assms(3,4,7-11) se(2,3)
    by (intro exI [of _ "frame d1 @ b"] exI [of _ "e1 # fs"]) simp
qed

lemma trunc_loop_ok:
  assumes "crypto_ok c" "parse_log rest = Some es" "chain c vk seq (t_expected_prev t) hasher es"
    and "t_entry_count t + length es < MAX_WAL_ENTRIES" "seq + length es < 2 ^ 64"
    and "retained_ok t seq before_seq" "length (t_last_hash t) = 32" "ws_io s = []"
  shows "\<exists>p t'. trunc_loop c k before_seq t pos rest s = (s\<lparr>ws_pos := p\<rparr>, Inr t') \<and>
    trunc_adds c k seq before_seq es t t'"
  using assms(2-)
proof (induction es arbitrary: rest seq hasher t pos s)
  case Nil
  have "rest = []"
    using Nil.prems(1) by (subst (asm) parse_log.simps) (auto simp: Let_def split: if_splits sum.splits)
  then show ?case using Nil.prems(3) by (subst trunc_loop.simps) (auto intro: trunc_adds_Nil)
next
  case (Cons e es)
  from parse_log_split [OF Cons.prems(1)] obtain n where n: "n = be_val (take 4 rest)" "0 < n"
    "n \<le> MAX_ENTRY_SIZE" "4 + n \<le> length rest" "deserialize_entry (slice 4 (4 + n) rest) = Inr e"
    "parse_log (drop (4 + n) rest) = Some es" .
  let ?d = "slice 4 (4 + n) rest" and ?pos = "pos + (4 + n)"
  let ?s = "s\<lparr>ws_pos := ?pos\<rparr>"
  let ?t = "t\<lparr>t_expected_prev := compute_hash c e, t_entry_count := t_entry_count t + 1\<rparr>"
  have e: "e_sequence e = seq" "e_prev_hash e = t_expected_prev t"
    "chain c vk (seq + 1) (compute_hash c e) (hasher @ compute_hash c e) es"
    using Cons.prems(2) by simp_all
  show ?case
  proof (cases "before_seq \<le> seq")
    case True
    have "length ?d \<le> MAX_ENTRY_SIZE" "e_sequence e < 2 ^ 64" using n(3) e(1) Cons.prems(4) by simp_all
    moreover have "retained_ok ?t (e_sequence e) before_seq" "length (t_last_hash ?t) = 32"
      using Cons.prems(5,6) e(1) by (simp_all add: retained_ok_def)
    moreover define e1 where "e1 = sealed_entry c k (t_hasher t) (e\<lparr>e_prev_hash := t_last_hash t\<rparr>)"
    ultimately have "\<exists>d1. parse_log (frame d1) = Some [e1] \<and>
      trunc_retain c k e ?t ?s = (?s, Inr (?t\<lparr>t_out := t_out ?t @ frame d1, t_last_hash := compute_hash c e1,
         t_hasher := t_hasher ?t @ compute_hash c e1, t_prev_retained := Some (e_sequence e),
         t_retained_count := t_retained_count ?t + 1\<rparr>))"
      by (intro trunc_retain_ok [OF assms(1) n(5)]) (simp_all add: Cons.prems(7))
    then obtain d1 where r: "parse_log (frame d1) = Some [e1]"
      "trunc_retain c k e ?t ?s = (?s, Inr (?t\<lparr>t_out := t_out t @ frame d1, t_last_hash := compute_hash c e1,
         t_hasher := t_hasher t @ compute_hash c e1, t_prev_retained := Some (e_sequence e),
         t_retained_count := t_retained_count t + 1\<rparr>))" (is "_ = (_, Inr ?u)")
      by auto
    have "trunc_loop c k before_seq t pos rest s = trunc_loop c k before_seq ?u ?pos (drop (4 + n) rest) ?s"
      using n(2-5) e r(2) True Cons.prems(3)
      by (subst trunc_loop.simps) (simp add: Let_def n(1) [symmetric])
    moreover have "\<exists>p t'. trunc_loop c k before_seq ?u ?pos (drop (4 + n) rest) ?s = (?s\<lparr>ws_pos := p\<rparr>, Inr t') \<and>
        trunc_adds c k (seq + 1) before_seq es ?u t'"
      using e(1,3) Cons.prems(3,4,7) True assms(1)
      by (intro Cons.IH [OF n(6)]) (auto simp: retained_ok_def crypto_ok_def compute_hash_def)
    ultimately show ?thesis
      using trunc_adds_keep [OF assms(1) _ e(1) True e1_def r(1), of es ?u] e(1) by auto
  next
    case False
    have "trunc_loop c k before_seq t pos rest s = trunc_loop c k before_seq ?t ?pos (drop (4 + n) rest) ?s"
      using n(2-5) e False Cons.prems(3)
      by (subst trunc_loop.simps) (simp add: Let_def n(1) [symmetric])
    moreover have "\<exists>p t'. trunc_loop c k before_seq ?t ?pos (drop (4 + n) rest) ?s = (?s\<lparr>ws_pos := p\<rparr>, Inr t') \<and>
        trunc_adds c k (seq + 1) before_seq es ?t t'"
      using e(1,3) Cons.prems(3-7) False
      by (intro Cons.IH [OF n(6)]) (auto simp: retained_ok_def split: option.splits)
    ultimately show ?thesis
      using trunc_adds_skip [OF _ e(1), of c k before_seq es ?t _ t] False by auto
  qed
qed

subsection \<open>The truncated log\<close>

text \<open>What truncation leaves, wherever it cuts: the header names \<open>before_seq\<close>, the first entry
  has the larger of \<open>before_seq\<close> and the first sequence number of the old log.\<close>

lemma truncate_run:
  assumes "crypto_ok c" "wal_ok c s h es" "ws_io s = []"
    and "max (h_last_checkpoint_seq h) before_seq + length es < 2 ^ 64" "length es < MAX_WAL_ENTRIES"
    and "i64 now" "length (ws_session_id s) = 32"
  shows "\<exists>s' b fs. wal_truncate c before_seq now s = (s', Inr ()) \<and>
    ws_content s' = serialize_header (new_header (ws_session_id s) now before_seq) @ b \<and>
    parse_log b = Some fs \<and>
    chain c (cr_verifying_key c (ws_signing_key s)) (max (h_last_checkpoint_seq h) before_seq) zero_hash [] fs \<and>
    map ent fs = map ent (filter (\<lambda>e. before_seq \<le> e_sequence e) es) \<and>
    ws_last_hash s' = run_hash c zero_hash fs \<and> ws_hasher s' = run_hasher c [] fs \<and>
    ws_entry_count s' = length fs \<and> ws_byte_count s' = length (ws_content s') \<and>
    ws_pos s' = length (ws_content s') \<and> ws_session_id s' = ws_session_id s \<and>
    ws_signing_key s' = ws_signing_key s \<and> ws_path s' = ws_path s \<and>
    ws_next_sequence s' = (if fs = [] then before_seq else max (h_last_checkpoint_seq h) before_seq + length fs)"
proof -
  note ok = assms(2) [unfolded wal_ok_def]
  let ?k = "ws_signing_key s" and ?hd = "serialize_header (new_header (ws_session_id s) now before_seq)"
  let ?m = "max (h_last_checkpoint_seq h) before_seq"
  let ?t = "\<lparr>t_out = ?hd, t_expected_prev = zero_hash, t_entry_count = 0, t_last_hash = zero_hash,
    t_hasher = [], t_prev_retained = None, t_retained_count = 0\<rparr>"
  let ?s1 = "s\<lparr>ws_pos := HEADER_SIZE\<rparr>"
  obtain p t where t: "trunc_loop c ?k before_seq ?t HEADER_SIZE (drop HEADER_SIZE (ws_content s)) ?s1 =
      (?s1\<lparr>ws_pos := p\<rparr>, Inr t)" "trunc_adds c ?k (h_last_checkpoint_seq h) before_seq es ?t t"
  proof -
    have "\<exists>p t'. trunc_loop c ?k before_seq ?t HEADER_SIZE (drop HEADER_SIZE (ws_content s)) ?s1 =
      (?s1\<lparr>ws_pos := p\<rparr>, Inr t') \<and> trunc_adds c ?k (h_last_checkpoint_seq h) before_seq es ?t t'"
      using ok assms(3-5)
      by (intro trunc_loop_ok [OF assms(1), where vk = "cr_verifying_key c ?k" and hasher = "[]"])
        (simp_all add: retained_ok_def)
    then show thesis using that by blast
  qed
  from t(2) obtain b fs where b: "t_out t = ?hd @ b" "parse_log b = Some fs"
    "chain c (cr_verifying_key c ?k) ?m zero_hash [] fs"
    "map ent fs = map ent (filter (\<lambda>e. before_seq \<le> e_sequence e) es)"
    "t_last_hash t = run_hash c zero_hash fs" "t_hasher t = run_hasher c [] fs"
    "t_retained_count t = length fs"
    "t_prev_retained t = (if fs = [] then None else Some (e_sequence (last fs)))"
    by (auto simp: trunc_adds_def)
  have len: "length fs \<le> length es" using arg_cong [OF b(4), of length] length_filter_le [of _ es] by simp
  define next_seq where "next_seq = (if fs = [] then before_seq else ?m + length fs)"
  have nxt: "fs \<noteq> [] \<Longrightarrow> e_sequence (last fs) + 1 = next_seq" "fs \<noteq> [] \<Longrightarrow> next_seq < 2 ^ 64"
    using chain_sequence [OF b(3), of "length fs - 1"] len assms(4)
    by (simp_all add: last_conv_nth next_seq_def)
  let ?s2 = "?s1\<lparr>ws_pos := p\<rparr>"
  have w: "trunc_write c before_seq now ?s1 = (?s2, Inr (t, next_seq))"
  proof (cases "fs = []")
    case True
    then show ?thesis using t(1) b(8) assms(3) by (simp add: trunc_write_def op_bind_def next_seq_def)
  next
    case False
    then show ?thesis
      using t(1) b(8) assms(3) nxt by (simp add: trunc_write_def op_bind_def)
  qed
  let ?s' = "(trunc_adopt t next_seq (?s2\<lparr>ws_content := t_out t, ws_pos := length (t_out t)\<rparr>))
    \<lparr>ws_byte_count := length (t_out t)\<rparr>"
  have "wal_truncate c before_seq now s = (?s', Inr ())"
    using w assms(3) by (simp add: wal_truncate_def Let_def trunc_adopt_def)
  then show ?thesis
    using b by (intro exI [of _ ?s'] exI [of _ b] exI [of _ fs]) (simp add: trunc_adopt_def next_seq_def)
qed

text \<open>Truncating at a sequence number of the log, or beyond it.\<close>

lemma truncate_ok:
  assumes "crypto_ok c" "wal_ok c s h es" "ws_io s = []" "h_last_checkpoint_seq h \<le> before_seq"
    and "before_seq + length es < 2 ^ 64" "length es < MAX_WAL_ENTRIES" "i64 now"
    and "length (ws_session_id s) = 32"
  shows "\<exists>s' fs. wal_truncate c before_seq now s = (s', Inr ()) \<and>
    wal_ok c s' (new_header (ws_session_id s) now before_seq) fs \<and>
    map ent fs = map ent (filter (\<lambda>e. before_seq \<le> e_sequence e) es) \<and> ws_path s' = ws_path s"
proof -
  have m: "max (h_last_checkpoint_seq h) before_seq = before_seq" using assms(4) by simp
  obtain s' b fs where r: "wal_truncate c before_seq now s = (s', Inr ())"
    "ws_content s' = serialize_header (new_header (ws_session_id s) now before_seq) @ b"
    "parse_log b = Some fs"
    "chain c (cr_verifying_key c (ws_signing_key s)) before_seq zero_hash [] fs"
    "map ent fs = map ent (filter (\<lambda>e. before_seq \<le> e_sequence e) es)"
    "ws_last_hash s' = run_hash c zero_hash fs" "ws_hasher s' = run_hasher c [] fs"
    "ws_entry_count s' = length fs" "ws_byte_count s' = length (ws_content s')"
    "ws_pos s' = length (ws_content s')" "ws_session_id s' = ws_session_id s"
    "ws_signing_key s' = ws_signing_key s" "ws_path s' = ws_path s"
    "ws_next_sequence s' = before_seq + length fs"
    using truncate_run [OF assms(1-3) _ assms(6-8), of before_seq] assms(5) unfolding m by (auto split: if_splits)
  have ht: "header_typed (new_header (ws_session_id s) now before_seq)"
    using assms(5,7,8) by (intro new_header_typed) simp_all
  have "wal_ok c s' (new_header (ws_session_id s) now before_seq) fs"
    using header_roundtrip [OF ht] length_serialize_header [OF ht] r(2-4,6-12,14)
    by (simp add: wal_ok_def HEADER_SIZE_def new_header_def)
  with r(1,5,13) show ?thesis by blast
qed

end
