(* ===== verification/Wal_Props.thy ===== *)
theory Wal_Props
  imports Wal_Trunc
begin

text \<open>
  The properties of the write-ahead log, stated over whole runs: a log is opened, entries are
  appended, calls fail, the file is reopened.
\<close>

subsection \<open>Runs\<close>

text \<open>Appending a list of items, each with the time it is appended at.\<close>

type_synonym item = "int \<times> entry_type \<times> bytes"

fun append_items :: "crypto \<Rightarrow> item list \<Rightarrow> (wal_state, wal_error, unit) op" where
  "append_items c [] s = (s, Inr ())"
| "append_items c ((now, ty, payload) # items) s =
     op_bind (wal_append c now ty payload) (\<lambda>_. append_items c items) s"

definition item_of :: "entry \<Rightarrow> item" where
  "item_of e = (e_timestamp e, e_entry_type e, e_payload e)"

definition frame_size :: "item \<Rightarrow> nat" where
  "frame_size it = 153 + length (snd (snd it))"

fun items_ok :: "int \<Rightarrow> item list \<Rightarrow> bool" where
  "items_ok t [] \<longleftrightarrow> True"
| "items_ok t ((now, ty, payload) # items) \<longleftrightarrow>
     t \<le> now \<and> now < 2 ^ 63 \<and> 149 + length payload \<le> MAX_ENTRY_SIZE \<and> items_ok now items"

lemma item_of_appended [simp]: "item_of ((appended c s now ty p)\<lparr>e_length := n\<rparr>) = (now, ty, p)"
  by (simp add: item_of_def)

lemma append_items_ok:
  assumes "crypto_ok c" "wal_ok c s h es" "monotone_from 0 es"
    and "items_ok (if es = [] then 0 else e_timestamp (last es)) items"
    and "ws_next_sequence s + length items < 2 ^ 64" "ws_io s = []" "\<not> ws_closed s" "\<not> ws_inconsistent s"
    and "ws_byte_count s + sum_list (map frame_size items) \<le> MAX_WAL_SIZE"
    and "es = [] \<or> 0 \<le> e_timestamp (last es)"
  shows "\<exists>s' fs. append_items c items s = (s', Inr ()) \<and> wal_ok c s' h (es @ fs) \<and>
    map item_of fs = items \<and> monotone_from 0 (es @ fs) \<and> ws_io s' = [] \<and> \<not> ws_closed s' \<and>
    \<not> ws_inconsistent s' \<and> ws_session_id s' = ws_session_id s \<and> ws_signing_key s' = ws_signing_key s \<and>
    ws_byte_count s' = ws_byte_count s + sum_list (map frame_size items)"
  using assms(2-)
proof (induction items arbitrary: s es)
  case Nil
  then show ?case by (intro exI [of _ s] exI [of _ "[]"]) simp
next
  case (Cons it items)
  obtain now ty payload where it: "it = (now, ty, payload)" by (metis prod_cases3)
  have now: "(if es = [] then 0 else e_timestamp (last es)) \<le> now" "0 \<le> now" "now < 2 ^ 63"
    "149 + length payload \<le> MAX_ENTRY_SIZE" "items_ok now items"
    using Cons.prems(3,9) it by (auto split: if_splits)
  then have "i64 now" by (simp add: i64_def)
  moreover have "ws_byte_count s < MAX_WAL_SIZE" using Cons.prems(8) it by (simp add: frame_size_def)
  ultimately obtain s1 e d where s1: "wal_append c now ty payload s = (s1, Inr ())" "wal_ok c s1 h (es @ [e])"
    "e = (appended c s now ty payload)\<lparr>e_length := 149 + length payload\<rparr>" "ws_io s1 = []" "\<not> ws_closed s1"
    "\<not> ws_inconsistent s1" "ws_signing_key s1 = ws_signing_key s" "ws_session_id s1 = ws_session_id s"
    "ws_content s1 = ws_content s @ frame d" "length d = 149 + length payload"
    using append_ok [OF assms(1) Cons.prems(1) _ _ now(4) Cons.prems(5-7), of now ty] Cons.prems(4) by auto
  have ts: "e_timestamp e = now" "item_of e = it" by (simp_all add: s1(3) it)
  have nb: "ws_next_sequence s1 = ws_next_sequence s + 1" "ws_byte_count s1 = ws_byte_count s + frame_size it"
    using s1(2,9,10) Cons.prems(1) by (simp_all add: wal_ok_def frame_def frame_size_def it)
  have "\<exists>s' fs. append_items c items s1 = (s', Inr ()) \<and> wal_ok c s' h ((es @ [e]) @ fs) \<and>
    map item_of fs = items \<and> monotone_from 0 ((es @ [e]) @ fs) \<and> ws_io s' = [] \<and> \<not> ws_closed s' \<and>
    \<not> ws_inconsistent s' \<and> ws_session_id s' = ws_session_id s1 \<and> ws_signing_key s' = ws_signing_key s1 \<and>
    ws_byte_count s' = ws_byte_count s1 + sum_list (map frame_size items)"
    using s1(2,4-6) Cons.prems(2,4,8) now ts nb
    by (intro Cons.IH) (auto simp: monotone_from_snoc it)
  then obtain s' fs where "append_items c items s1 = (s', Inr ())" "wal_ok c s' h (es @ e # fs)"
    "map item_of fs = items" "monotone_from 0 (es @ e # fs)" "ws_io s' = []" "\<not> ws_closed s'"
    "\<not> ws_inconsistent s'" "ws_session_id s' = ws_session_id s1" "ws_signing_key s' = ws_signing_key s1"
    "ws_byte_count s' = ws_byte_count s1 + sum_list (map frame_size items)"
    by auto
  then show ?case
    using s1(1,7,8) ts nb(2) by (intro exI [of _ s'] exI [of _ "e # fs"]) (simp add: it)
qed

text \<open>A new log.\<close>

lemma open_empty:
  assumes "length sid = 32" "i64 now"
  shows "\<exists>s. wal_open c [] sid key now [] = (s, Inr ()) \<and> wal_ok c s (new_header sid now 0) [] \<and>
    ws_io s = [] \<and> \<not> ws_closed s \<and> \<not> ws_inconsistent s \<and> ws_byte_count s = HEADER_SIZE \<and>
    ws_session_id s = sid \<and> ws_signing_key s = key \<and> ws_next_sequence s = 0"
proof -
  let ?s0 = "initial_state [] sid key DEFAULT_SYNC_INTERVAL []"
  let ?s = "?s0\<lparr>ws_content := serialize_header (new_header sid now 0), ws_byte_count := HEADER_SIZE,
    ws_pos := HEADER_SIZE\<rparr>"
  have "wal_open c [] sid key now [] = (?s, Inr ())"
    by (simp add: wal_open_def open_with_sync_interval_def op_bind_def wal_call_def write_header_def
        wal_write_all_def write_at_def initial_state_def)
  moreover have "wal_ok c ?s (new_header (ws_session_id ?s) now 0) []"
    using assms by (intro wal_ok_fresh) (simp_all add: initial_state_def)
  ultimately show ?thesis by (simp add: initial_state_def)
qed

lemma run_from_empty:
  assumes "crypto_ok c" "length sid = 32" "i64 now0" "items_ok 0 items" "length items < MAX_WAL_ENTRIES"
    and "HEADER_SIZE + sum_list (map frame_size items) \<le> MAX_WAL_SIZE"
    and "wal_open c [] sid key now0 [] = (s0, Inr ())"
  shows "\<exists>s es. append_items c items s0 = (s, Inr ()) \<and> wal_ok c s (new_header sid now0 0) es \<and>
    map item_of es = items \<and> monotone_from 0 es \<and> ws_io s = [] \<and> \<not> ws_closed s \<and>
    \<not> ws_inconsistent s \<and> ws_session_id s = sid \<and> ws_signing_key s = key \<and>
    ws_next_sequence s = length items \<and>
    ws_byte_count s = HEADER_SIZE + sum_list (map frame_size items)"
proof -
  have s0: "wal_ok c s0 (new_header sid now0 0) []" "ws_io s0 = []" "\<not> ws_closed s0"
    "\<not> ws_inconsistent s0" "ws_byte_count s0 = HEADER_SIZE" "ws_session_id s0 = sid"
    "ws_signing_key s0 = key" "ws_next_sequence s0 = 0"
    using open_empty [OF assms(2,3), of c key] assms(7) by auto
  obtain s es where "append_items c items s0 = (s, Inr ())" "wal_ok c s (new_header sid now0 0) es"
    "map item_of es = items" "monotone_from 0 es" "ws_io s = []" "\<not> ws_closed s" "\<not> ws_inconsistent s"
    "ws_session_id s = sid" "ws_signing_key s = key"
    "ws_byte_count s = HEADER_SIZE + sum_list (map frame_size items)"
    using append_items_ok [OF assms(1) s0(1), of items] s0 assms(4,5,6) by (auto simp: MAX_WAL_ENTRIES_def)
  moreover from this have "length es = length items" by (metis length_map)
  ultimately show ?thesis by (auto simp: wal_ok_def new_header_def)
qed

text \<open>Cryptography for the witnesses.\<close>

definition toy_crypto :: crypto where
  "toy_crypto = \<lparr>cr_blake3 = (\<lambda>x. replicate 32 (sum_list x)),
     cr_sign = (\<lambda>k m. replicate 64 (sum_list k + sum_list m)), cr_verifying_key = (\<lambda>k. k),
     cr_verify = (\<lambda>vk m sig. sig = replicate 64 (sum_list vk + sum_list m))\<rparr>"

lemma toy_crypto_ok [simp]: "crypto_ok toy_crypto"
  by (simp add: crypto_ok_def toy_crypto_def)

subsection \<open>A log that is written verifies\<close>



text \<open>A log for the witnesses: two entries.\<close>

definition toy_items :: "item list" where
  "toy_items = [(10, SessionStart, [1, 2]), (11, Heartbeat, [3])]"

lemma toy_run:
  "\<exists>s0 s es. wal_open toy_crypto [] (replicate 32 0) [9] 5 [] = (s0, Inr ()) \<and>
     append_items toy_crypto toy_items s0 = (s, Inr ()) \<and>
     wal_ok toy_crypto s (new_header (replicate 32 0) 5 0) es \<and> map item_of es = toy_items \<and>
     length es = 2 \<and> monotone_from 0 es \<and> ws_io s = [] \<and> \<not> ws_closed s \<and> \<not> ws_inconsistent s \<and>
     ws_session_id s = replicate 32 0 \<and> ws_signing_key s = [9] \<and> ws_next_sequence s = 2 \<and>
     ws_byte_count s < MAX_WAL_SIZE"
proof -
  obtain s0 where s0: "wal_open toy_crypto [] (replicate 32 0) [9] 5 [] = (s0, Inr ())"
    using open_empty [of "replicate 32 0" 5 toy_crypto "[9]"] by (auto simp: i64_def)
  have t: "items_ok 0 toy_items" "length toy_items < MAX_WAL_ENTRIES"
    "HEADER_SIZE + sum_list (map frame_size toy_items) < MAX_WAL_SIZE" "length toy_items = 2"
    by (simp_all add: toy_items_def MAX_ENTRY_SIZE_def MAX_WAL_ENTRIES_def MAX_WAL_SIZE_def
        HEADER_SIZE_def frame_size_def)
  obtain s es where s: "append_items toy_crypto toy_items s0 = (s, Inr ())"
    "wal_ok toy_crypto s (new_header (replicate 32 0) 5 0) es" "map item_of es = toy_items"
    "monotone_from 0 es" "ws_io s = []" "\<not> ws_closed s" "\<not> ws_inconsistent s"
    "ws_session_id s = replicate 32 0" "ws_signing_key s = [9]" "ws_next_sequence s = length toy_items"
    "ws_byte_count s = HEADER_SIZE + sum_list (map frame_size toy_items)"
    using run_from_empty [OF toy_crypto_ok _ _ t(1,2) less_imp_le [OF t(3)] s0] by (auto simp: i64_def)
  have "length es = 2" using s(3) t(4) by (metis length_map)
  with s s0 t(3,4) show ?thesis by (intro exI [of _ s0] exI [of _ s] exI [of _ es]) simp
qed

subsection \<open>Verification is not fooled\<close>

text \<open>C18: Whatever the bytes of the file, if verification reports the log valid then, up to
  at most three stray bytes at the end, the file parses as a list of entries with consecutive
  sequence numbers from the header's checkpoint on, monotone timestamps, linked hashes,
  cumulative hashes and signatures that verify, and the entry count and the final hash
  reported are those of that list.\<close>

theorem wal_verify_sound:
  assumes "wal_verify c s = (s', Inr v)" "v_valid v"
  shows "\<exists>h es n. deserialize_header (take HEADER_SIZE (ws_content s)) = Inr h \<and>
    length (ws_content s) < HEADER_SIZE + n + 4 \<and>
    parse_log (take n (drop HEADER_SIZE (ws_content s))) = Some es \<and>
    chain c (cr_verifying_key c (ws_signing_key s)) (h_last_checkpoint_seq h) zero_hash [] es \<and>
    monotone_from 0 es \<and> v_entries v = length es \<and> v_final_hash v = run_hash c zero_hash es"
proof -
  obtain h where h: "deserialize_header (take HEADER_SIZE (ws_content s)) = Inr h"
    "HEADER_SIZE \<le> length (ws_content s)"
    using assms(1) by (auto simp: wal_verify_def split: if_splits sum.splits)
  then obtain pos where "verify_loop c (cr_verifying_key c (ws_signing_key s)) zero_hash []
      (h_last_checkpoint_seq h) 0 0 HEADER_SIZE (drop HEADER_SIZE (ws_content s)) = (pos, Inr v)"
    using assms(1) by (auto simp: wal_verify_def split: prod.splits)
  from verify_loop_sound [OF this assms(2)] obtain n es where
    "length (drop HEADER_SIZE (ws_content s)) < n + 4"
    "parse_log (take n (drop HEADER_SIZE (ws_content s))) = Some es"
    "chain c (cr_verifying_key c (ws_signing_key s)) (h_last_checkpoint_seq h) zero_hash [] es"
    "monotone_from 0 es" "v_entries v = length es" "v_final_hash v = run_hash c zero_hash es" by auto
  with h show ?thesis by (intro exI [of _ h] exI [of _ es] exI [of _ n]) auto
qed

theorem wal_verify_sound_witness:
  "\<exists>s s' v es. wal_verify toy_crypto s = (s', Inr v) \<and> v_valid v \<and> v_entries v = 2 \<and> length es = 2 \<and>
     monotone_from 0 es"
proof -
  obtain s es where s: "wal_ok toy_crypto s (new_header (replicate 32 0) 5 0) es"
    "map item_of es = toy_items" "monotone_from 0 es" "ws_next_sequence s = 2" and len: "length es = 2"
    using toy_run by blast
  have v: "wal_verify toy_crypto s = (s, Inr (verification 2 (ws_last_hash s) None))"
    using verify_ok [OF s(1,3)] len s(4) by (simp add: MAX_WAL_ENTRIES_def)
  from wal_verify_sound [OF v] obtain fs where "monotone_from 0 fs" "length fs = 2"
    by (auto simp: verification_def)
  with v show ?thesis
    by (intro exI [of _ s] exI [of _ s] exI [of _ "verification 2 (ws_last_hash s) None"] exI [of _ fs])
      (simp add: verification_def)
qed

subsection \<open>Crashes\<close>

text \<open>C19: A write that fails in the middle of a frame loses that frame only: reopening the
  file gives a log with exactly the entries that were there, and the file is cut back to
  them.\<close>

theorem wal_torn_append_recovers:
  assumes "crypto_ok c" "wal_ok c s h es" "length es < MAX_WAL_ENTRIES" "i64 now"
    and "ws_next_sequence s + 1 < 2 ^ 64" "149 + length payload \<le> MAX_ENTRY_SIZE"
    and "\<not> ws_closed s" "\<not> ws_inconsistent s" "ws_byte_count s < MAX_WAL_SIZE" "ws_io s = [IoFail k]"
  shows "\<exists>s1 s2. wal_append c now ty payload s = (s1, Inl WalIo) \<and>
    wal_open c (ws_content s1) (ws_session_id s) (ws_signing_key s) now' [] = (s2, Inr ()) \<and>
    wal_ok c s2 h es \<and> ws_content s2 = ws_content s"
proof -
  have seq: "ws_next_sequence s < 2 ^ 64" using assms(5) by simp
  obtain d where d: "serialize_entry (appended c s now ty payload) = Inr d" "length d = 149 + length payload"
    using appended_bytes [OF assms(1) wal_ok_last_hash [OF assms(1,2)] assms(4) seq max_entry_u32 [OF assms(6)]] by blast
  have pos: "ws_pos s = length (ws_content s)" using assms(2) by (simp add: wal_ok_def)
  let ?m = "min k (length (frame d) - 1)"
  obtain s1 where s1: "wal_append c now ty payload s = (s1, Inl WalIo)"
    "ws_content s1 = ws_content s @ take ?m (frame d)"
    unfolding wal_append_unfold [OF assms(7-9) d(1)] using assms(10) pos
    by (simp add: op_bind_def wal_write_all_def Let_def)
  have "torn (take ?m (frame d))"
    using d(2) assms(6) by (intro torn_frame) (simp_all add: frame_def MAX_ENTRY_SIZE_def)
  from open_torn [OF assms(2) this assms(3) seq, of now'] s1 show ?thesis by auto
qed

theorem wal_torn_append_recovers_witness:
  "\<exists>s es s1 s2. wal_append toy_crypto 12 Heartbeat [7] s = (s1, Inl WalIo) \<and>
     wal_open toy_crypto (ws_content s1) (ws_session_id s) (ws_signing_key s) 20 [] = (s2, Inr ()) \<and>
     wal_ok toy_crypto s2 (new_header (replicate 32 0) 5 0) es \<and> length es = 2"
proof -
  obtain s es where s: "wal_ok toy_crypto s (new_header (replicate 32 0) 5 0) es" "length es = 2"
    "\<not> ws_closed s" "\<not> ws_inconsistent s" "ws_next_sequence s = 2" "ws_byte_count s < MAX_WAL_SIZE"
    using toy_run by blast
  let ?s = "s\<lparr>ws_io := [IoFail 20]\<rparr>"
  have "wal_ok toy_crypto ?s (new_header (replicate 32 0) 5 0) es" using s(1) by (simp add: wal_ok_def)
  from wal_torn_append_recovers [OF toy_crypto_ok this, of 12 "[7]" 20 Heartbeat 20] s
  obtain s1 s2 where "wal_append toy_crypto 12 Heartbeat [7] ?s = (s1, Inl WalIo)"
    "wal_open toy_crypto (ws_content s1) (ws_session_id ?s) (ws_signing_key ?s) 20 [] = (s2, Inr ())"
    "wal_ok toy_crypto s2 (new_header (replicate 32 0) 5 0) es"
    by (auto simp: MAX_WAL_ENTRIES_def MAX_ENTRY_SIZE_def i64_def)
  with s(2) show ?thesis by (intro exI [of _ ?s] exI [of _ es] exI [of _ s1] exI [of _ s2]) simp
qed

text \<open>C20: Whatever bytes a file holds, a successful open leaves a prefix of it that is a
  well-formed log, and a state in memory that continues it.\<close>

theorem wal_open_sound:
  assumes "wal_open c content sid key now ios = (s, Inr ())" "content \<noteq> []"
  shows "\<exists>h es n. wal_ok c s h es \<and> ws_content s = take n content \<and>
    \<not> ws_closed s \<and> \<not> ws_inconsistent s"
  using open_sound [OF assms] by blast

theorem wal_open_sound_witness:
  "\<exists>content s h es n. wal_open toy_crypto content (replicate 32 0) [9] 20 [] = (s, Inr ()) \<and>
     wal_ok toy_crypto s h es \<and> ws_content s = take n content"
proof -
  obtain s es where s: "wal_ok toy_crypto s (new_header (replicate 32 0) 5 0) es" "length es = 2"
    "ws_next_sequence s = 2" "ws_session_id s = replicate 32 0" "ws_signing_key s = [9]"
    using toy_run by blast
  have "torn [0, 0]" by (simp add: torn_def)
  from open_torn [OF s(1) this, of 20] s obtain s' where
    s': "wal_open toy_crypto (ws_content s @ [0, 0]) (replicate 32 0) [9] 20 [] = (s', Inr ())"
    by (auto simp: MAX_WAL_ENTRIES_def)
  from wal_open_sound [OF this] show ?thesis using s' by blast
qed

text \<open>When the sync after an append fails, the log refuses further appends until a
  recovery; \<open>try_recover\<close> then takes the new entry over without changing the file, and the
  log accepts appends again.\<close>

theorem wal_sync_failure_recoverable:
  assumes "crypto_ok c" "wal_ok c s h es" "monotone_from 0 es" "i64 now"
    and "(if es = [] then 0 else e_timestamp (last es)) \<le> now" "length es + 1 < MAX_WAL_ENTRIES"
    and "ws_next_sequence s + 1 < 2 ^ 64" "149 + length payload \<le> MAX_ENTRY_SIZE"
    and "\<not> ws_closed s" "\<not> ws_inconsistent s" "ws_byte_count s < MAX_WAL_SIZE"
    and "ws_io s = [IoOk, IoFail k]"
  shows "\<exists>s1 s2 e. wal_append c now Checkpoint payload s = (s1, Inl WalIo) \<and>
    snd (wal_append c now' ty' payload' s1) = Inl Inconsistent \<and>
    try_recover c s1 = (s2, Inr (length es + 1)) \<and> ws_content s2 = ws_content s1 \<and>
    wal_ok c s2 h (es @ [e]) \<and> item_of e = (now, Checkpoint, payload) \<and> \<not> ws_inconsistent s2"
proof -
  have seq: "ws_next_sequence s < 2 ^ 64" using assms(7) by simp
  obtain d where d: "serialize_entry (appended c s now Checkpoint payload) = Inr d"
    using appended_bytes [OF assms(1) wal_ok_last_hash [OF assms(1,2)] assms(4) seq max_entry_u32 [OF assms(8)]] by blast
  have pos: "ws_pos s = length (ws_content s)" "ws_byte_count s = length (ws_content s)"
    "ws_next_sequence s = h_last_checkpoint_seq h + length es"
    using assms(2) by (simp_all add: wal_ok_def)
  let ?a = "appended c s now Checkpoint payload"
  let ?e = "?a\<lparr>e_length := length d\<rparr>"
  let ?s1 = "s\<lparr>ws_hasher := ws_hasher s @ compute_hash c ?a, ws_content := ws_content s @ frame d,
    ws_pos := length (ws_content s) + length (frame d), ws_pending_syncs := ws_pending_syncs s + 1,
    ws_io := [], ws_inconsistent := True\<rparr>"
  have s1: "wal_append c now Checkpoint payload s = (?s1, Inl WalIo)"
    unfolding wal_append_unfold [OF assms(9-11) d] using assms(12) pos(1)
    by (simp add: op_bind_def wal_write_all_def append_sync_def wal_call_def Let_def)
  let ?good = "?s1\<lparr>ws_next_sequence := ws_next_sequence s + 1, ws_last_hash := compute_hash c ?e,
    ws_entry_count := ws_entry_count s + 1, ws_byte_count := length (ws_content s @ frame d)\<rparr>"
  have "wal_ok c ?good h (es @ [?e])"
    by (rule wal_ok_snoc [OF assms(1,2,4) seq assms(8) d refl]) simp_all
  then have ok: "good_header ?s1 h" "parse_log (drop HEADER_SIZE (ws_content ?s1)) = Some (es @ [?e])"
    "chain c (cr_verifying_key c (ws_signing_key ?s1)) (h_last_checkpoint_seq h) zero_hash [] (es @ [?e])"
    by (simp_all add: wal_ok_def good_header_def)
  have "monotone_from 0 (es @ [?e])" using assms(3,5) by (simp add: monotone_from_snoc)
  from try_recover_ok [OF ok this] obtain s2 where "try_recover c ?s1 = (s2, Inr (length es + 1))"
    "wal_ok c s2 h (es @ [?e])" "ws_content s2 = ws_content ?s1" "\<not> ws_inconsistent s2"
    using assms(6,7,9) pos(3) by auto
  moreover have "snd (wal_append c now' ty' payload' ?s1) = Inl Inconsistent"
    using assms(9) by (simp add: wal_append_def)
  ultimately show ?thesis using s1 by (intro exI [of _ ?s1] exI [of _ s2] exI [of _ ?e]) simp
qed

theorem wal_sync_failure_recoverable_witness:
  "\<exists>s s1 s2. wal_append toy_crypto 12 Checkpoint [7] s = (s1, Inl WalIo) \<and>
     try_recover toy_crypto s1 = (s2, Inr 3) \<and> \<not> ws_inconsistent s2"
proof -
  obtain s es where s: "wal_ok toy_crypto s (new_header (replicate 32 0) 5 0) es" "length es = 2"
    "\<not> ws_closed s" "\<not> ws_inconsistent s" "ws_next_sequence s = 2" "ws_byte_count s < MAX_WAL_SIZE"
    "monotone_from 0 es" "map item_of es = toy_items"
    using toy_run by blast
  have "item_of (last es) = (11, Heartbeat, [3])"
    using s(2,8) by (metis last_map last.simps length_0_conv list.distinct(1) toy_items_def zero_neq_numeral)
  then have ts: "(if es = [] then 0 else e_timestamp (last es)) \<le> 12" by (simp add: item_of_def)
  let ?s = "s\<lparr>ws_io := [IoOk, IoFail 0]\<rparr>"
  have "wal_ok toy_crypto ?s (new_header (replicate 32 0) 5 0) es" using s(1) by (simp add: wal_ok_def)
  from wal_sync_failure_recoverable [where payload = "[7]" and k = 0 and now' = 13 and ty' = Heartbeat
      and payload' = "[]", OF toy_crypto_ok this s(7) _ ts] s obtain s1 s2 where
    "wal_append toy_crypto 12 Checkpoint [7] ?s = (s1, Inl WalIo)"
    "try_recover toy_crypto s1 = (s2, Inr 3)" "\<not> ws_inconsistent s2"
    by (auto simp: MAX_WAL_ENTRIES_def MAX_ENTRY_SIZE_def i64_def)
  then show ?thesis by blast
qed

text \<open>Recovery of a log whose file ends in a torn frame cuts the file back to the valid
  entries and keeps all of them.\<close>

theorem wal_recover_keeps_entries:
  assumes "wal_ok c s h es" "es \<noteq> []" "monotone_from 0 es" "ws_next_sequence s < 2 ^ 64"
    and "torn tail" "tail \<noteq> []" "\<not> ws_closed s" "ws_io s = []"
    and "s1 = s\<lparr>ws_content := ws_content s @ tail, ws_pos := p, ws_inconsistent := b\<rparr>"
  shows "\<exists>s2 rep. wal_recover c now s1 = (s2, Inr rep) \<and> wal_ok c s2 h es \<and>
    ws_content s2 = ws_content s \<and> \<not> ws_inconsistent s2"
proof -
  note ok = assms(1) [unfolded wal_ok_def]
  have "good_header s1 h" using ok by (simp add: good_header_def assms(9))
  then show ?thesis
    using ok assms by (intro recover_torn [where tail = tail]) simp_all
qed

theorem wal_recover_keeps_entries_witness:
  "\<exists>(s :: wal_state) s1 s2 es rep. ws_content s1 = ws_content s @ [1, 2, 3] \<and>
     wal_recover toy_crypto 30 s1 = (s2, Inr rep) \<and> ws_content s2 = ws_content s \<and> length es = 2 \<and>
     wal_ok toy_crypto s2 (new_header (replicate 32 0) 5 0) es"
proof -
  obtain s es where s: "wal_ok toy_crypto s (new_header (replicate 32 0) 5 0) es" "length es = 2"
    "\<not> ws_closed s" "ws_next_sequence s = 2" "monotone_from 0 es" "ws_io s = []"
    using toy_run by blast
  let ?s1 = "s\<lparr>ws_content := ws_content s @ [1, 2, 3], ws_pos := 0, ws_inconsistent := True\<rparr>"
  have "es \<noteq> []" "torn [1, 2, 3]" using s(2) by (auto simp: torn_def)
  from wal_recover_keeps_entries [OF s(1) this(1) s(5) _ this(2) _ s(3,6) refl, where p = 0 and b = True and now = 30] s(4)
  obtain s2 rep where "wal_recover toy_crypto 30 ?s1 = (s2, Inr rep)" "ws_content s2 = ws_content s"
    "wal_ok toy_crypto s2 (new_header (replicate 32 0) 5 0) es" by auto
  with s(2) show ?thesis
    by (intro exI [of _ s] exI [of _ ?s1] exI [of _ s2] exI [of _ es] exI [of _ rep]) simp
qed

text \<open>C21: When recovery changes the file at all, what is left is a well-formed log with
  monotone timestamps and at least one entry, and the report names its next sequence
  number.\<close>

theorem wal_recover_sound:
  assumes "wal_recover c now s = (s', Inr rep)" "good_header s h" "ws_content s' \<noteq> ws_content s"
  shows "\<exists>es n. wal_ok c s' h es \<and> monotone_from 0 es \<and> es \<noteq> [] \<and> ws_content s' = take n (ws_content s) \<and>
    \<not> ws_inconsistent s' \<and> r_truncated_at_sequence rep = ws_next_sequence s'"
  by (rule recover_truncates [OF assms])

theorem wal_recover_sound_witness:
  "\<exists>s1 s2 rep. wal_recover toy_crypto 30 s1 = (s2, Inr rep) \<and> ws_content s2 \<noteq> ws_content s1 \<and>
     r_truncated_at_sequence rep = ws_next_sequence s2 \<and> ws_next_sequence s2 = 2"
proof -
  obtain s es where s: "wal_ok toy_crypto s (new_header (replicate 32 0) 5 0) es" "length es = 2"
    "\<not> ws_closed s" "ws_next_sequence s = 2" "monotone_from 0 es" "ws_io s = []"
    using toy_run by blast
  let ?s1 = "s\<lparr>ws_content := ws_content s @ [1, 2, 3]\<rparr>"
  have "es \<noteq> []" "torn [1, 2, 3]" using s(2) by (auto simp: torn_def)
  moreover have g: "good_header ?s1 (new_header (replicate 32 0) 5 0)"
    using s(1) by (simp add: wal_ok_def good_header_def)
  ultimately obtain s2 rep where r: "wal_recover toy_crypto 30 ?s1 = (s2, Inr rep)" "ws_content s2 = ws_content s"
    "wal_ok toy_crypto s2 (new_header (replicate 32 0) 5 0) es"
    using recover_torn [OF g, of "ws_content s" "[1, 2, 3]" es toy_crypto 30] s by (auto simp: wal_ok_def)
  with wal_recover_sound [OF r(1) g] have "r_truncated_at_sequence rep = ws_next_sequence s2" by auto
  moreover have "ws_next_sequence s2 = 2" using r(3) s(2) by (simp add: wal_ok_def new_header_def)
  ultimately show ?thesis using r(1,2) by (intro exI [of _ ?s1] exI [of _ s2] exI [of _ rep]) simp
qed

end
