(* ===== verification/Wal_Maint_Props.thy ===== *)
theory Wal_Maint_Props
  imports Wal_Props
begin

text \<open>
  Properties of the maintenance operations of the write-ahead log, and four behaviours of the
  log that its own verification or its next open turns against it.
\<close>

subsection \<open>Truncation and rotation\<close>

text \<open>Truncating a log at a sequence number it has reached leaves a well-formed log that
  starts there: exactly the entries from that number on, with their sequence numbers,
  timestamps, types and payloads, in order.\<close>

theorem wal_truncate_keeps_suffix:
  assumes "crypto_ok c" "wal_ok c s h es" "ws_io s = []" "h_last_checkpoint_seq h \<le> before_seq"
    and "before_seq + length es < 2 ^ 64" "length es < MAX_WAL_ENTRIES" "i64 now"
    and "length (ws_session_id s) = 32"
  shows "\<exists>s' fs. wal_truncate c before_seq now s = (s', Inr ()) \<and>
    wal_ok c s' (new_header (ws_session_id s) now before_seq) fs \<and>
    map ent fs = map ent (filter (\<lambda>e. before_seq \<le> e_sequence e) es)"
  using truncate_ok [OF assms] by blast

theorem wal_truncate_keeps_suffix_witness:
  "\<exists>s s' fs. ws_entry_count s = 2 \<and> wal_truncate toy_crypto 1 20 s = (s', Inr ()) \<and> length fs = 1 \<and>
     wal_ok toy_crypto s' (new_header (replicate 32 0) 20 1) fs"
proof -
  obtain s es where s: "wal_ok toy_crypto s (new_header (replicate 32 0) 5 0) es" "length es = 2"
    "ws_io s = []" "ws_session_id s = replicate 32 0"
    using toy_run by blast
  obtain s' fs where r: "wal_truncate toy_crypto 1 20 s = (s', Inr ())"
    "wal_ok toy_crypto s' (new_header (replicate 32 0) 20 1) fs"
    "map ent fs = map ent (filter (\<lambda>e. 1 \<le> e_sequence e) es)"
    using wal_truncate_keeps_suffix [OF toy_crypto_ok s(1,3), of 1 20] s(2,4)
    by (auto simp: new_header_def MAX_WAL_ENTRIES_def i64_def)
  obtain e f where es: "es = [e, f]" using s(2) by (auto simp: length_Suc_conv numeral_2_eq_2)
  have "e_sequence e = 0" "e_sequence f = 1" using s(1) by (auto simp: wal_ok_def es new_header_def)
  then have "length (map ent fs) = 1" using r(3) by (simp add: es)
  then show ?thesis using r(1,2) s(1,2) by (intro exI [of _ s] exI [of _ s'] exI [of _ fs]) (simp add: wal_ok_def)
qed

text \<open>Rotation never reuses a sequence number: the whole old file is archived, and the
  next entry of the fresh log has the number after the last one of the old log.\<close>

theorem wal_rotate_continues:
  assumes "crypto_ok c" "wal_ok c s h es" "ws_io s = []" "\<not> ws_closed s" "\<not> ws_inconsistent s"
    and "max_size \<le> ws_byte_count s" "length (ws_session_id s) = 32" "i64 now'" "i64 t"
    and "ws_next_sequence s + 1 < 2 ^ 64" "149 + length payload \<le> MAX_ENTRY_SIZE"
  shows "\<exists>s1 s2 h' e. rotate_if_needed max_size now now' s = (s1, Inr (Some now)) \<and>
    ws_archives s1 = ws_archives s @ [(now, ws_content s)] \<and>
    wal_append c t ty payload s1 = (s2, Inr ()) \<and> wal_ok c s2 h' [e] \<and>
    e_sequence e = h_last_checkpoint_seq h + length es \<and> item_of e = (t, ty, payload)"
proof -
  let ?h = "new_header (ws_session_id s) now' (ws_next_sequence s)"
  have "ws_next_sequence s < 2 ^ 64" using assms(10) by simp
  then obtain s1 where s1: "rotate_if_needed max_size now now' s = (s1, Inr (Some now))"
    "wal_ok c s1 ?h []" "ws_next_sequence s1 = ws_next_sequence s"
    "ws_archives s1 = ws_archives s @ [(now, ws_content s)]"
    using rotate_ok [OF assms(3,4,6,7,8)] by blast
  have keep: "ws_io s1 = [] \<and> \<not> ws_closed s1 \<and> \<not> ws_inconsistent s1 \<and> ws_byte_count s1 = HEADER_SIZE"
    using s1(1) assms(3-6)
    by (auto simp: rotate_if_needed_def Let_def op_bind_def rotate_call_def rotate_write_def
        wal_write_all_def not_less)
  have "\<exists>s' e d. wal_append c t ty payload s1 = (s', Inr ()) \<and> wal_ok c s' ?h ([] @ [e]) \<and>
    e = (appended c s1 t ty payload)\<lparr>e_length := 149 + length payload\<rparr> \<and>
    ws_io s' = [] \<and> \<not> ws_closed s' \<and> \<not> ws_inconsistent s' \<and>
    ws_signing_key s' = ws_signing_key s1 \<and> ws_session_id s' = ws_session_id s1 \<and>
    ws_content s' = ws_content s1 @ frame d \<and> length d = 149 + length payload"
    using keep s1(3) assms(10) by (intro append_ok [OF assms(1) s1(2) assms(9) _ assms(11)])
      (simp_all add: MAX_WAL_SIZE_def HEADER_SIZE_def)
  then obtain s2 e where s2: "wal_append c t ty payload s1 = (s2, Inr ())" "wal_ok c s2 ?h [e]"
    "e = (appended c s1 t ty payload)\<lparr>e_length := 149 + length payload\<rparr>" by auto
  have "e_sequence e = h_last_checkpoint_seq h + length es" "item_of e = (t, ty, payload)"
    using assms(2) s1(3) by (simp_all add: s2(3) wal_ok_def)
  with s1(1,4) s2(1,2) show ?thesis by blast
qed

theorem wal_rotate_continues_witness:
  "\<exists>s s1 s2 h' e. rotate_if_needed 100 20 21 s = (s1, Inr (Some 20)) \<and>
     wal_append toy_crypto 22 Heartbeat [] s1 = (s2, Inr ()) \<and> wal_ok toy_crypto s2 h' [e] \<and>
     e_sequence e = 2"
proof -
  obtain s0 s es where s: "wal_ok toy_crypto s (new_header (replicate 32 0) 5 0) es" "length es = 2"
    "ws_io s = []" "\<not> ws_closed s" "\<not> ws_inconsistent s" "ws_session_id s = replicate 32 0"
    "ws_next_sequence s = 2"
    and s0: "wal_open toy_crypto [] (replicate 32 0) [9] 5 [] = (s0, Inr ())"
      "append_items toy_crypto toy_items s0 = (s, Inr ())"
    using toy_run by blast
  have t: "items_ok 0 toy_items" "length toy_items < MAX_WAL_ENTRIES"
    "HEADER_SIZE + sum_list (map frame_size toy_items) \<le> MAX_WAL_SIZE"
    by (simp_all add: toy_items_def MAX_ENTRY_SIZE_def MAX_WAL_ENTRIES_def MAX_WAL_SIZE_def
        HEADER_SIZE_def frame_size_def)
  have "ws_byte_count s = HEADER_SIZE + sum_list (map frame_size toy_items)"
    using run_from_empty [OF toy_crypto_ok _ _ t s0(1)] s0(2) by (auto simp: i64_def)
  then have "100 \<le> ws_byte_count s" by (simp add: toy_items_def frame_size_def)
  from wal_rotate_continues [where now = 20 and now' = 21 and t = 22 and ty = Heartbeat and payload = "[]",
      OF toy_crypto_ok s(1,3-5) this] s(2,6,7)
  obtain s1 s2 h' e where "rotate_if_needed 100 20 21 s = (s1, Inr (Some 20))"
    "wal_append toy_crypto 22 Heartbeat [] s1 = (s2, Inr ())" "wal_ok toy_crypto s2 h' [e]" "e_sequence e = 2"
    by (auto simp: i64_def MAX_ENTRY_SIZE_def new_header_def)
  then show ?thesis by blast
qed

subsection \<open>Behaviours that break a log\<close>

text \<open>A write that fails before any byte reaches the file leaves the log open for appends
  but its cumulative hasher ahead of the file: the next append is accepted, and verification
  then reports a cumulative hash mismatch (unless BLAKE3 collides).\<close>

theorem wal_failed_write_poisons_chain:
  assumes "crypto_ok c" "wal_ok c s h es" "monotone_from 0 es" "i64 now" "i64 now'"
    and "(if es = [] then 0 else e_timestamp (last es)) \<le> now'" "length es + 1 < MAX_WAL_ENTRIES"
    and "ws_next_sequence s + 1 < 2 ^ 64" "149 + length payload \<le> MAX_ENTRY_SIZE"
    and "149 + length payload' \<le> MAX_ENTRY_SIZE"
    and "\<not> ws_closed s" "\<not> ws_inconsistent s" "ws_byte_count s < MAX_WAL_SIZE"
    and "ws_io s = [IoFail 0]"
    and "b = compute_hash c (appended c s now' ty' payload')"
    and "cr_blake3 c (ws_hasher s @ compute_hash c (appended c s now ty payload) @ b) \<noteq>
      cr_blake3 c (ws_hasher s @ b)"
  shows "\<exists>s1 s2 s3 v. wal_append c now ty payload s = (s1, Inl WalIo) \<and> ws_content s1 = ws_content s \<and>
    wal_append c now' ty' payload' s1 = (s2, Inr ()) \<and> wal_verify c s2 = (s3, Inr v) \<and>
    \<not> v_valid v \<and> v_error v = Some CumulativeMismatch"
proof -
  note ok = assms(2) [unfolded wal_ok_def]
  let ?a = "compute_hash c (appended c s now ty payload)"
  let ?s1 = "s\<lparr>ws_hasher := ws_hasher s @ ?a, ws_io := []\<rparr>"
  let ?e = "appended c ?s1 now' ty' payload'"
  have seq: "ws_next_sequence s < 2 ^ 64" using assms(8) by simp
  note lh = wal_ok_last_hash [OF assms(1,2)]
  obtain d where d: "serialize_entry (appended c s now ty payload) = Inr d"
    using appended_bytes [OF assms(1) lh assms(4) seq max_entry_u32 [OF assms(9)]] by blast
  have "length (ws_last_hash ?s1) = 32" "ws_next_sequence ?s1 < 2 ^ 64" using lh seq by simp_all
  from appended_bytes [OF assms(1) this(1) assms(5) this(2) max_entry_u32 [OF assms(10)]]
  obtain d' where d': "serialize_entry ?e = Inr d'" "length d' = 149 + length payload'"
    "deserialize_entry d' = Inr (?e\<lparr>e_length := length d'\<rparr>)" by blast
  have s1: "wal_append c now ty payload s = (?s1, Inl WalIo)"
    unfolding wal_append_unfold [OF assms(11-13) d] using assms(14) ok
    by (cases s) (simp add: op_bind_def wal_write_all_def Let_def)
  have cl: "\<not> ws_closed ?s1" "\<not> ws_inconsistent ?s1" "ws_byte_count ?s1 < MAX_WAL_SIZE"
    using assms(11-13) by simp_all
  obtain s2 where s2: "wal_append c now' ty' payload' ?s1 = (s2, Inr ())"
    "ws_content s2 = ws_content s @ frame d'" "ws_signing_key s2 = ws_signing_key s"
    using append_writes [OF cl d'(1) _ _ refl] ok assms(8) by auto
  have small: "length d' < 256 ^ 4" "length d' \<le> MAX_ENTRY_SIZE"
    using d'(2) assms(10) by (simp_all add: MAX_ENTRY_SIZE_def)
  define e where "e = ?e\<lparr>e_length := length d'\<rparr>"
  have "compute_hash c ?e = b" by (simp add: assms(15) compute_hash_def)
  then have e: "deserialize_entry d' = Inr e" "compute_hash c e = b"
    "e_sequence e = h_last_checkpoint_seq h + length es" "e_timestamp e = now'"
    "e_prev_hash e = run_hash c zero_hash es" "e_cumulative_hash e = cr_blake3 c (ws_hasher s @ ?a @ b)"
    using d'(3) ok by (simp_all add: e_def)
  have hs: "run_hasher c [] es = ws_hasher s" using ok by simp
  have "verify_loop c (cr_verifying_key c (ws_signing_key s)) zero_hash [] (h_last_checkpoint_seq h) 0 0
      HEADER_SIZE (drop HEADER_SIZE (ws_content s) @ frame d') =
    verify_loop c (cr_verifying_key c (ws_signing_key s)) (run_hash c zero_hash es) (run_hasher c [] es)
      (h_last_checkpoint_seq h + length es) (if es = [] then 0 else e_timestamp (last es)) (0 + length es)
      (HEADER_SIZE + length (drop HEADER_SIZE (ws_content s))) (frame d')"
    using ok assms(3,7,8) by (intro verify_loop_prefix) simp_all
  also have "\<exists>p. \<dots> = (p, Inr (verification (length es) (run_hash c zero_hash es) (Some CumulativeMismatch)))"
    using assms(6,7,16) e small
    by (subst verify_loop.simps) (simp add: Let_def frame_facts [OF small(1)] hs)
  finally obtain p where "verify_loop c (cr_verifying_key c (ws_signing_key s)) zero_hash []
      (h_last_checkpoint_seq h) 0 0 HEADER_SIZE (drop HEADER_SIZE (ws_content s) @ frame d') =
    (p, Inr (verification (length es) (run_hash c zero_hash es) (Some CumulativeMismatch)))" by blast
  then have "wal_verify c s2 = (s2\<lparr>ws_pos := p\<rparr>,
      Inr (verification (length es) (run_hash c zero_hash es) (Some CumulativeMismatch)))"
    using ok by (simp add: wal_verify_def s2(2,3))
  with s1 s2(1) show ?thesis by (auto simp: verification_def)
qed

text \<open>The sum of the bytes that the first entry of a log hashes.\<close>

lemma toy_first_hash:
  assumes "ws_next_sequence s = 0" "ws_last_hash s = zero_hash"
  shows "compute_hash toy_crypto (appended toy_crypto s 12 Heartbeat [7]) = replicate 32 23"
proof -
  have "sum_list (le 8 0) = (0 :: byte)" "sum_list (le 8 (i64_bits 12)) = (12 :: byte)"
    "sum_list zero_hash = (0 :: byte)"
    by code_simp+
  then show ?thesis using assms by (simp add: compute_hash_def toy_crypto_def)
qed

theorem wal_failed_write_poisons_chain_witness:
  "\<exists>s s1 s2 s3 v. wal_append toy_crypto 12 Heartbeat [7] s = (s1, Inl WalIo) \<and>
     wal_append toy_crypto 13 Heartbeat [] s1 = (s2, Inr ()) \<and>
     wal_verify toy_crypto s2 = (s3, Inr v) \<and> \<not> v_valid v"
proof -
  obtain s0 where s0: "wal_ok toy_crypto s0 (new_header (replicate 32 0) 5 0) []" "\<not> ws_closed s0"
    "\<not> ws_inconsistent s0" "ws_byte_count s0 = HEADER_SIZE" "ws_next_sequence s0 = 0"
    using open_empty [of "replicate 32 0" 5 toy_crypto "[9]"] by (auto simp: i64_def)
  let ?s = "s0\<lparr>ws_io := [IoFail 0]\<rparr>"
  have ok: "wal_ok toy_crypto ?s (new_header (replicate 32 0) 5 0) []" using s0(1) by (simp add: wal_ok_def)
  have a: "compute_hash toy_crypto (appended toy_crypto ?s 12 Heartbeat [7]) = replicate 32 23"
    using s0(1,5) by (intro toy_first_hash) (simp_all add: wal_ok_def)
  have "cr_blake3 toy_crypto (ws_hasher ?s @ replicate 32 23 @ b) \<noteq> cr_blake3 toy_crypto (ws_hasher ?s @ b)" for b
    by (simp add: toy_crypto_def sum_list_replicate)
  with wal_failed_write_poisons_chain [where now = 12 and now' = 13 and ty = Heartbeat and ty' = Heartbeat
      and payload = "[7]" and payload' = "[]", OF toy_crypto_ok ok] a s0(2-5)
  obtain s1 s2 s3 v where "wal_append toy_crypto 12 Heartbeat [7] ?s = (s1, Inl WalIo)"
    "wal_append toy_crypto 13 Heartbeat [] s1 = (s2, Inr ())"
    "wal_verify toy_crypto s2 = (s3, Inr v)" "\<not> v_valid v"
    by (auto simp: i64_def MAX_WAL_ENTRIES_def MAX_ENTRY_SIZE_def MAX_WAL_SIZE_def HEADER_SIZE_def)
  then show ?thesis by blast
qed

lemma parse_log_unappend:
  "parse_log body = Some (es @ fs) \<Longrightarrow>
   \<exists>n. n \<le> length body \<and> parse_log (take n body) = Some es \<and> parse_log (drop n body) = Some fs"
proof (induction es arbitrary: body)
  case Nil
  then show ?case by (intro exI [of _ 0]) simp
next
  case (Cons e es)
  from Cons.prems have "parse_log body = Some (e # (es @ fs))" by simp
  from parse_log_split [OF this] obtain n where n: "n = be_val (take 4 body)" "0 < n"
    "n \<le> MAX_ENTRY_SIZE" "4 + n \<le> length body" "deserialize_entry (slice 4 (4 + n) body) = Inr e"
    "parse_log (drop (4 + n) body) = Some (es @ fs)" .
  from Cons.IH [OF n(6)] obtain m where m: "m \<le> length (drop (4 + n) body)"
    "parse_log (take m (drop (4 + n) body)) = Some es" "parse_log (drop m (drop (4 + n) body)) = Some fs"
    by blast
  have "parse_log (take (4 + n + m) body) = Some (e # es)"
    by (rule parse_log_Cons [OF n(5,1,3,4) m(2,1)])
  then show ?case using m n(4) by (intro exI [of _ "4 + n + m"]) (simp add: add.commute)
qed

text \<open>Verification moves the cursor that the log appends at. When it stops before the end
  (here at an entry whose timestamp is earlier than that of its predecessor, which \<open>append\<close>
  accepts), the next append succeeds and overwrites entries in the middle of the file.\<close>

theorem wal_append_after_failed_verify_overwrites:
  assumes "wal_ok c s h (es @ e # fs)" "monotone_from 0 es" "fs \<noteq> []"
    and "e_timestamp e < (if es = [] then 0 else e_timestamp (last es))"
    and "length (es @ e # fs) < MAX_WAL_ENTRIES" "ws_next_sequence s + 1 < 2 ^ 64"
    and "\<not> ws_closed s" "\<not> ws_inconsistent s" "ws_byte_count s < MAX_WAL_SIZE" "ws_io s = []"
    and "serialize_entry (appended c s now ty payload) = Inr d"
  shows "\<exists>s1 s2 p. wal_verify c s = (s1, Inr (verification (length es) (run_hash c zero_hash es) (Some TimestampRegression))) \<and>
    p < length (ws_content s) \<and> wal_append c now ty payload s1 = (s2, Inr ()) \<and>
    ws_content s2 = take p (ws_content s) @ frame d @ drop (p + length (frame d)) (ws_content s)"
proof -
  note ok = assms(1) [unfolded wal_ok_def]
  let ?vk = "cr_verifying_key c (ws_signing_key s)" and ?body = "drop HEADER_SIZE (ws_content s)"
  obtain n where n: "n \<le> length ?body" "parse_log (take n ?body) = Some es"
    "parse_log (drop n ?body) = Some (e # fs)"
    using parse_log_unappend [of ?body es "e # fs"] ok by blast
  define rest where "rest = drop n ?body"
  have lr: "length rest = length ?body - n" "?body = take n ?body @ rest" by (simp_all add: rest_def del: drop_drop)
  from parse_log_split [OF n(3) [folded rest_def]] obtain m where m: "m = be_val (take 4 rest)" "0 < m"
    "m \<le> MAX_ENTRY_SIZE" "4 + m \<le> length rest" "deserialize_entry (slice 4 (4 + m) rest) = Inr e"
    "parse_log (drop (4 + m) rest) = Some fs" .
  have "drop (4 + m) rest \<noteq> []" using m(6) assms(3) by (metis option.inject parse_log_Nil)
  then have lt: "4 + m < length rest" by (simp add: not_le [symmetric])
  have ch: "chain c ?vk (h_last_checkpoint_seq h) zero_hash [] es" "e_sequence e = h_last_checkpoint_seq h + length es"
    using ok by (simp_all add: chain_append)
  let ?p = "HEADER_SIZE + n + (4 + m)"
  let ?v = "verification (length es) (run_hash c zero_hash es) (Some TimestampRegression)"
  have "verify_loop c ?vk zero_hash [] (h_last_checkpoint_seq h) 0 0 HEADER_SIZE (take n ?body @ rest) =
    verify_loop c ?vk (run_hash c zero_hash es) (run_hasher c [] es) (h_last_checkpoint_seq h + length es)
      (if es = [] then 0 else e_timestamp (last es)) (0 + length es) (HEADER_SIZE + length (take n ?body)) rest"
    using ch assms(2,5,6) ok by (intro verify_loop_prefix [OF n(2)]) simp_all
  also have "\<dots> = (HEADER_SIZE + length (take n ?body) + (4 + m), Inr ?v)"
    using m(2-5) ch(2) assms(4,5)
    by (subst verify_loop.simps) (simp add: Let_def m(1) [symmetric])
  finally have "verify_loop c ?vk zero_hash [] (h_last_checkpoint_seq h) 0 0 HEADER_SIZE ?body = (?p, Inr ?v)"
    using n(1) unfolding lr(2) [symmetric] by simp
  then have v: "wal_verify c s = (s\<lparr>ws_pos := ?p\<rparr>, Inr ?v)"
    using ok by (simp add: wal_verify_def)
  let ?s1 = "s\<lparr>ws_pos := ?p\<rparr>"
  have ap: "appended c ?s1 now ty payload = appended c s now ty payload" by (simp add: appended_def)
  obtain s2 where s2: "wal_append c now ty payload ?s1 = (s2, Inr ())"
    "ws_content s2 = write_at (ws_content s) ?p (frame d)"
    using append_writes [of ?s1 c now ty payload d, OF _ _ _ _ _ _ refl] assms(6-11) by (auto simp: ap)
  have p: "?p < length (ws_content s)" using lt ok n(1) lr(1) by simp
  then have "write_at (ws_content s) ?p (frame d) =
      take ?p (ws_content s) @ frame d @ drop (?p + length (frame d)) (ws_content s)"
    by (simp add: write_at_def)
  with v s2 p show ?thesis by (intro exI [of _ ?s1] exI [of _ s2] exI [of _ ?p]) simp
qed

lemma toy_append:
  assumes "wal_ok toy_crypto s h es" "ws_io s = []" "\<not> ws_closed s" "\<not> ws_inconsistent s"
    and "ws_byte_count s < 1000" "ws_next_sequence s < 1000" "i64 now"
  shows "\<exists>s' e. wal_ok toy_crypto s' h (es @ [e]) \<and> e_timestamp e = now \<and> ws_io s' = [] \<and>
    \<not> ws_closed s' \<and> \<not> ws_inconsistent s' \<and> ws_byte_count s' = ws_byte_count s + 153 \<and>
    ws_next_sequence s' = ws_next_sequence s + 1"
proof -
  obtain s' e d where s': "wal_ok toy_crypto s' h (es @ [e])"
    "e = (appended toy_crypto s now Heartbeat [])\<lparr>e_length := 149 + length []\<rparr>"
    "ws_io s' = []" "\<not> ws_closed s'" "\<not> ws_inconsistent s'"
    "ws_content s' = ws_content s @ frame d" "length d = 149 + length []"
    using append_ok [OF toy_crypto_ok assms(1,7) _ _ assms(2-4), of "[]" Heartbeat] assms(5,6)
    unfolding MAX_ENTRY_SIZE_def MAX_WAL_SIZE_def by fastforce
  have "e_timestamp e = now" by (simp add: s'(2))
  moreover have "ws_byte_count s' = ws_byte_count s + 153" "ws_next_sequence s' = ws_next_sequence s + 1"
    using s'(1,6,7) assms(1) by (simp_all add: wal_ok_def frame_def)
  ultimately show ?thesis using s'(1,3-5) by blast
qed

theorem wal_append_after_failed_verify_overwrites_witness:
  "\<exists>s s1 s2 v p. wal_verify toy_crypto s = (s1, Inr v) \<and> \<not> v_valid v \<and> p < length (ws_content s) \<and>
     wal_append toy_crypto 12 Heartbeat [7] s1 = (s2, Inr ())"
proof -
  let ?h = "new_header (replicate 32 0) 5 0"
  obtain s0 where s0: "wal_ok toy_crypto s0 ?h []" "ws_io s0 = []" "\<not> ws_closed s0"
    "\<not> ws_inconsistent s0" "ws_byte_count s0 = 64" "ws_next_sequence s0 = 0"
    using open_empty [of "replicate 32 0" 5 toy_crypto "[9]"] by (auto simp: i64_def HEADER_SIZE_def)
  from toy_append [OF s0(1-4), of 10] s0(5,6) obtain s1 e1 where s1: "wal_ok toy_crypto s1 ?h ([] @ [e1])"
    "ws_io s1 = []" "\<not> ws_closed s1" "\<not> ws_inconsistent s1" "ws_byte_count s1 = 217"
    "ws_next_sequence s1 = 1" "e_timestamp e1 = 10" unfolding i64_def by auto
  from toy_append [OF s1(1-4), of 9] s1(5,6) obtain s2 e2 where s2: "wal_ok toy_crypto s2 ?h (([] @ [e1]) @ [e2])"
    "ws_io s2 = []" "\<not> ws_closed s2" "\<not> ws_inconsistent s2" "ws_byte_count s2 = 370"
    "ws_next_sequence s2 = 2" "e_timestamp e2 = 9" unfolding i64_def by auto
  from toy_append [OF s2(1-4), of 11] s2(5,6) obtain s e3 where s: "wal_ok toy_crypto s ?h ((([] @ [e1]) @ [e2]) @ [e3])"
    "ws_io s = []" "\<not> ws_closed s" "\<not> ws_inconsistent s" "ws_byte_count s = 523" "ws_next_sequence s = 3"
    unfolding i64_def by auto
  have ok: "wal_ok toy_crypto s ?h ([e1] @ e2 # [e3])" using s(1) by simp
  have "length (ws_last_hash s) = 32" "ws_next_sequence s < 2 ^ 64" "i64 12" "149 + length [7 :: byte] < 2 ^ 32"
    using wal_ok_last_hash [OF toy_crypto_ok ok] s(6) by (simp_all add: i64_def MAX_ENTRY_SIZE_def)
  from appended_bytes [OF toy_crypto_ok this(1,3,2,4)] obtain d where
    "serialize_entry (appended toy_crypto s 12 Heartbeat [7]) = Inr d" by blast
  moreover have "monotone_from 0 [e1]" "[e3] \<noteq> []"
    "e_timestamp e2 < (if [e1] = [] then 0 else e_timestamp (last [e1]))"
    "length ([e1] @ e2 # [e3]) < MAX_WAL_ENTRIES" "ws_next_sequence s + 1 < 2 ^ 64" "ws_byte_count s < MAX_WAL_SIZE"
    using s1(7) s2(7) s(5,6) by (simp_all add: MAX_WAL_ENTRIES_def MAX_WAL_SIZE_def)
  ultimately obtain t1 t2 p where "wal_verify toy_crypto s =
      (t1, Inr (verification (length [e1]) (run_hash toy_crypto zero_hash [e1]) (Some TimestampRegression)))"
    "p < length (ws_content s)" "wal_append toy_crypto 12 Heartbeat [7] t1 = (t2, Inr ())"
    using wal_append_after_failed_verify_overwrites [OF ok _ _ _ _ _ s(3,4) _ s(2)] by metis
  then show ?thesis
    by (intro exI [of _ s] exI [of _ t1] exI [of _ t2]
        exI [of _ "verification (length [e1]) (run_hash toy_crypto zero_hash [e1]) (Some TimestampRegression)"]
        exI [of _ p]) (simp add: verification_def)
qed

text \<open>Truncating below the first sequence number of the log writes a header that does not
  fit the retained entries: the call succeeds, but the next open of the file discards every
  entry.\<close>

theorem wal_truncate_below_start_loses_all:
  assumes "crypto_ok c" "wal_ok c s h es" "ws_io s = []" "before_seq < h_last_checkpoint_seq h" "es \<noteq> []"
    and "h_last_checkpoint_seq h + length es < 2 ^ 64" "length es < MAX_WAL_ENTRIES"
    and "i64 now" "length (ws_session_id s) = 32"
  shows "\<exists>s1 s2. wal_truncate c before_seq now s = (s1, Inr ()) \<and> ws_entry_count s1 = length es \<and>
    wal_open c (ws_content s1) (ws_session_id s) (ws_signing_key s) now' [] = (s2, Inr ()) \<and>
    ws_entry_count s2 = 0 \<and> length (ws_content s2) = HEADER_SIZE"
proof -
  let ?h = "new_header (ws_session_id s) now before_seq"
  have m: "max (h_last_checkpoint_seq h) before_seq = h_last_checkpoint_seq h" using assms(4) by simp
  have seqs: "filter (\<lambda>e. before_seq \<le> e_sequence e) es = es"
  proof (rule filter_True, safe)
    fix e assume "e \<in> set es"
    then obtain i where "i < length es" "e = es ! i" by (auto simp: in_set_conv_nth)
    then show "before_seq \<le> e_sequence e"
      using assms(2,4) chain_sequence [of c _ "h_last_checkpoint_seq h" zero_hash "[]" es i]
      by (auto simp: wal_ok_def)
  qed
  obtain s1 b fs where r: "wal_truncate c before_seq now s = (s1, Inr ())"
    "ws_content s1 = serialize_header ?h @ b" "parse_log b = Some fs"
    "chain c (cr_verifying_key c (ws_signing_key s)) (h_last_checkpoint_seq h) zero_hash [] fs"
    "map ent fs = map ent es" "ws_entry_count s1 = length fs"
    using truncate_run [OF assms(1-3) _ assms(7-9), of before_seq] assms(6) unfolding m seqs by auto
  have len: "length fs = length es" using r(5) by (metis length_map)
  then obtain e fs' where fs: "fs = e # fs'" using assms(5) by (cases fs) auto
  from parse_log_split [OF r(3) [unfolded fs]] obtain n where n: "n = be_val (take 4 b)" "0 < n"
    "n \<le> MAX_ENTRY_SIZE" "4 + n \<le> length b" "deserialize_entry (slice 4 (4 + n) b) = Inr e" .
  have ht: "header_typed ?h" using assms(4,6,8,9) by (intro new_header_typed) simp_all
  have hd: "take HEADER_SIZE (ws_content s1) = serialize_header ?h" "drop HEADER_SIZE (ws_content s1) = b"
    "HEADER_SIZE < length (ws_content s1)"
    using length_serialize_header [OF ht] n(4) by (auto simp: r(2) HEADER_SIZE_def)
  let ?init = "initial_state (ws_content s1) (ws_session_id s) (ws_signing_key s) DEFAULT_SYNC_INTERVAL []"
  let ?s = "?init\<lparr>ws_pos := HEADER_SIZE, ws_next_sequence := before_seq\<rparr>"
  let ?s2 = "?s\<lparr>ws_content := take HEADER_SIZE (ws_content s1), ws_byte_count := HEADER_SIZE\<rparr>"
  have rd: "read_header ?init = (?s, Inr ())"
    using hd(1,3) header_roundtrip [OF ht]
    by (subst read_header_ok [where h = ?h]) (simp_all add: initial_state_def new_header_def)
  have "e_sequence e \<noteq> before_seq" using r(4) fs assms(4) by simp
  then have "scan_loop c ?s HEADER_SIZE b = (?s, HEADER_SIZE, None)"
    using n(2-5) by (subst scan_loop.simps) (simp add: Let_def n(1) [symmetric] initial_state_def MAX_WAL_ENTRIES_def)
  then have "\<exists>l. scan_to_end c ?s = (?s2, Inr l)"
    using hd by (simp add: scan_to_end_def initial_state_def op_bind_def)
  then obtain l where se: "scan_to_end c ?s = (?s2, Inr l)" ..
  have io: "ws_io ?init = []" "ws_content ?init = ws_content s1" by (simp_all add: initial_state_def)
  have "ws_content s1 \<noteq> []" using hd(3) by auto
  then have "wal_open c (ws_content s1) (ws_session_id s) (ws_signing_key s) now' [] = (?s2, Inr ())"
    unfolding wal_open_def open_with_sync_interval_def
    using io rd se by (simp add: op_bind_def op_return_def)
  then show ?thesis using r(1,6) len hd(3)
    by (intro exI [of _ s1] exI [of _ ?s2]) (simp add: initial_state_def)
qed

theorem wal_truncate_below_start_loses_all_witness:
  "\<exists>s s1 s2. wal_truncate toy_crypto 0 20 s = (s1, Inr ()) \<and> ws_entry_count s1 = 1 \<and>
     wal_open toy_crypto (ws_content s1) (replicate 32 0) [9] 21 [] = (s2, Inr ()) \<and> ws_entry_count s2 = 0"
proof -
  obtain s es where s: "wal_ok toy_crypto s (new_header (replicate 32 0) 5 0) es" "ws_io s = []" "\<not> ws_closed s"
    "\<not> ws_inconsistent s" "ws_session_id s = replicate 32 0" "ws_signing_key s = [9]" "ws_next_sequence s = 2"
    using toy_run by blast
  let ?h = "new_header (replicate 32 0) 15 2"
  obtain s1 where s1: "rotate_if_needed 0 14 15 s = (s1, Inr (Some 14))" "wal_ok toy_crypto s1 ?h []"
    "ws_signing_key s1 = [9]" "ws_next_sequence s1 = 2"
    using rotate_ok [OF s(2,3), of 0 15 14 toy_crypto] s(5-7) by (auto simp: i64_def)
  have keep: "ws_io s1 = []" "\<not> ws_closed s1" "\<not> ws_inconsistent s1"
    using s1(1) s(2-4)
    by (auto simp: rotate_if_needed_def Let_def op_bind_def rotate_call_def rotate_write_def wal_write_all_def)
  have small: "ws_byte_count s1 < MAX_WAL_SIZE"
    using s1(1) s(2-4)
    by (auto simp: rotate_if_needed_def Let_def op_bind_def rotate_call_def rotate_write_def wal_write_all_def
        MAX_WAL_SIZE_def HEADER_SIZE_def)
  obtain s2 e where s2: "wal_ok toy_crypto s2 ?h ([] @ [e])" "ws_io s2 = []"
    "ws_signing_key s2 = ws_signing_key s1" "ws_session_id s2 = ws_session_id s1"
    using append_ok [OF toy_crypto_ok s1(2) _ _ _ keep small, of 16 "[]" Heartbeat] s1(4)
    unfolding i64_def MAX_ENTRY_SIZE_def by fastforce
  have sid: "ws_session_id s2 = replicate 32 0" using s2(1) by (simp add: wal_ok_def new_header_def)
  from wal_truncate_below_start_loses_all [where now' = 21 and before_seq = 0 and now = 20, OF toy_crypto_ok s2(1,2)]
  show ?thesis using sid s2(3) s1(3) by (auto simp: new_header_def i64_def MAX_WAL_ENTRIES_def)
qed

text \<open>\<open>append\<close> accepts a payload that makes the entry longer than the largest entry the
  readers accept: the call succeeds and the entry is counted, but reopening the file discards
  it.\<close>

theorem wal_oversized_append_is_lost:
  assumes "crypto_ok c" "wal_ok c s h es" "ws_io s = []" "\<not> ws_closed s" "\<not> ws_inconsistent s"
    and "ws_byte_count s < MAX_WAL_SIZE" "ws_next_sequence s + 1 < 2 ^ 64" "length es < MAX_WAL_ENTRIES"
    and "i64 now" "MAX_ENTRY_SIZE < 149 + length payload" "149 + length payload < 2 ^ 32"
  shows "\<exists>s1 s2. wal_append c now ty payload s = (s1, Inr ()) \<and> ws_entry_count s1 = length es + 1 \<and>
    wal_open c (ws_content s1) (ws_session_id s) (ws_signing_key s) now' [] = (s2, Inr ()) \<and>
    wal_ok c s2 h es"
proof -
  have seq: "ws_next_sequence s < 2 ^ 64" using assms(7) by simp
  obtain d where d: "serialize_entry (appended c s now ty payload) = Inr d" "length d = 149 + length payload"
    using appended_bytes [OF assms(1) wal_ok_last_hash [OF assms(1,2)] assms(9) seq assms(11)] by blast
  obtain s1 where s1: "wal_append c now ty payload s = (s1, Inr ())" "ws_content s1 = ws_content s @ frame d"
    "ws_entry_count s1 = length es + 1"
    using append_writes [OF assms(4-6) d(1) assms(3,7) refl] assms(2) by (auto simp: wal_ok_def)
  have big: "length d < 256 ^ 4" "MAX_ENTRY_SIZE < length d" "\<not> length (frame d) < 4"
    using d(2) assms(10,11) by (simp_all add: frame_def)
  have "scan_loop c t off (frame d) = (t, off, None)" if "ws_entry_count t < MAX_WAL_ENTRIES" for t off
    using that big by (subst scan_loop.simps) (simp add: Let_def frame_facts)
  from open_prefix [OF assms(2) this assms(8) seq, of now'] s1 show ?thesis by auto
qed

theorem wal_oversized_append_is_lost_witness:
  "\<exists>s s1 s2 es. wal_append toy_crypto 12 Heartbeat (replicate 16777216 0) s = (s1, Inr ()) \<and>
     ws_entry_count s1 = 3 \<and>
     wal_open toy_crypto (ws_content s1) (ws_session_id s) (ws_signing_key s) 20 [] = (s2, Inr ()) \<and>
     wal_ok toy_crypto s2 (new_header (replicate 32 0) 5 0) es \<and> length es = 2"
proof -
  obtain s es where s: "wal_ok toy_crypto s (new_header (replicate 32 0) 5 0) es" "length es = 2"
    "ws_io s = []" "\<not> ws_closed s" "\<not> ws_inconsistent s" "ws_byte_count s < MAX_WAL_SIZE" "ws_next_sequence s = 2"
    using toy_run by blast
  define big :: bytes where "big = replicate 16777216 0"
  have "MAX_ENTRY_SIZE < 149 + length big" "149 + length big < 2 ^ 32"
    by (simp_all add: big_def MAX_ENTRY_SIZE_def)
  from wal_oversized_append_is_lost [where now' = 20 and ty = Heartbeat and now = 12,
      OF toy_crypto_ok s(1,3-6) _ _ _ this] s(2,7)
  obtain s1 s2 where "wal_append toy_crypto 12 Heartbeat big s = (s1, Inr ())" "ws_entry_count s1 = 3"
    "wal_open toy_crypto (ws_content s1) (ws_session_id s) (ws_signing_key s) 20 [] = (s2, Inr ())"
    "wal_ok toy_crypto s2 (new_header (replicate 32 0) 5 0) es"
    by (auto simp: i64_def MAX_WAL_ENTRIES_def)
  with s(2) show ?thesis unfolding big_def by blast
qed

subsection \<open>Archives\<close>

lemma filter_not_take: "distinct xs \<Longrightarrow> filter (\<lambda>x. x \<notin> set (take k xs)) xs = drop k xs"
proof (induction xs arbitrary: k)
  case (Cons x xs)
  show ?case
  proof (cases k)
    case (Suc j)
    have "filter (\<lambda>y. y \<notin> set (take j xs)) xs = filter (\<lambda>y. y \<notin> set (take k (x # xs))) xs"
      using Cons.prems Suc by (intro filter_cong) auto
    then show ?thesis using Cons Suc by auto
  qed simp
qed simp

text \<open>Pruning keeps exactly the \<open>max_archives\<close> archives with the latest timestamps, and
  touches no other file.\<close>

theorem prune_keeps_newest:
  assumes "distinct names"
  shows "list_archives (prune_archives (\<lambda>_. False) m names) =
      drop (length (list_archives names) - m) (list_archives names) \<and>
    filter (\<lambda>n. \<not> ends_with n ''.archive'') (prune_archives (\<lambda>_. False) m names) =
      filter (\<lambda>n. \<not> ends_with n ''.archive'') names"
proof -
  let ?ar = "list_archives names" and ?P = "\<lambda>n. ends_with n ''.archive''"
  let ?k = "length ?ar - m"
  have dist: "distinct ?ar" using assms by (simp add: list_archives_def)
  have set: "set ?ar = {n \<in> set names. ?P n}" by (auto simp: list_archives_def)
  have pr: "prune_archives (\<lambda>_. False) m names = filter (\<lambda>n. n \<notin> set (take ?k ?ar)) names"
    by (auto simp: prune_archives_def Let_def)
  have "list_archives (filter (\<lambda>n. n \<notin> set (take ?k ?ar)) names) = filter (\<lambda>n. n \<notin> set (take ?k ?ar)) ?ar"
    unfolding list_archives_def [of "filter _ _"] list_archives_def [of names]
    by (simp add: filter_sort conj_commute)
  then have "list_archives (prune_archives (\<lambda>_. False) m names) = drop ?k ?ar"
    unfolding pr by (simp add: filter_not_take [OF dist])
  moreover have "filter (\<lambda>n. \<not> ?P n) (prune_archives (\<lambda>_. False) m names) = filter (\<lambda>n. \<not> ?P n) names"
    unfolding pr filter_filter using set in_set_takeD [of _ ?k ?ar] by (intro filter_cong) auto
  ultimately show ?thesis by blast
qed

theorem prune_keeps_newest_witness:
  "list_archives (prune_archives (\<lambda>_. False) 1 [''w.wal.9.archive'', ''x'', ''w.wal.10.archive'']) =
     [''w.wal.10.archive'']"
proof -
  have l: "list_archives [''w.wal.9.archive'', ''x'', ''w.wal.10.archive''] =
      [''w.wal.9.archive'', ''w.wal.10.archive'']"
    by (simp add: list_archives_def ends_with_def archive_key_def parse_u64_def is_digit_def digits_value_def)
  show ?thesis
    using prune_keeps_newest [of "[''w.wal.9.archive'', ''x'', ''w.wal.10.archive'']" 1] unfolding l by simp
qed

end
