(* ===== verification/Posme_Base.thy ===== *)
theory Posme_Base
  imports Prelude
begin

text \<open>
  Proof of sequential memory execution, the data and the hashing
  (\<open>crates/posme/src/block.rs\<close>, \<open>error.rs\<close>, \<open>params.rs\<close>, \<open>hash.rs\<close>, \<open>seed.rs\<close>). BLAKE3 is a
  parameter \<open>h\<close>, its extendable output a parameter \<open>xof\<close> that gives the byte at each position
  of the stream; SHA-256 is the parameter \<open>sha\<close> of the seeds. The texts of errors are left out.
\<close>

unbundle bit_operations_syntax

datatype posme_error =
    InvalidParams
  | VerificationFailed
  | MerkleVerifyFailed nat nat
  | AddressMismatch nat nat nat nat
  | WriteMismatch nat
  | RootChainFailed nat
  | TranscriptMismatch nat
  | ChallengeMismatch
  | JitterEntropyInsufficient
  | PosmePanic \<comment> \<open>not an error value of the source: an overflow check that fails\<close>

subsection \<open>Blocks\<close>

definition LAMBDA :: nat where "LAMBDA = 32"

record block =
  b_data :: bytes
  b_causal :: bytes

definition zeroed :: block where
  "zeroed = \<lparr>b_data = replicate LAMBDA 0, b_causal = replicate LAMBDA 0\<rparr>"

definition as_bytes :: "block \<Rightarrow> bytes" where
  "as_bytes b = b_data b @ b_causal b"

definition block_typed :: "block \<Rightarrow> bool" where
  "block_typed b \<longleftrightarrow> length (b_data b) = LAMBDA \<and> length (b_causal b) = LAMBDA"

lemma as_bytes_inj: "block_typed a \<Longrightarrow> block_typed b \<Longrightarrow> as_bytes a = as_bytes b \<longleftrightarrow> a = b"
  by (cases a; cases b) (auto simp: block_typed_def as_bytes_def)

subsection \<open>Parameters\<close>

record posme_params =
  arena_blocks :: nat
  total_steps :: nat
  reads_per_step :: nat
  challenges :: nat
  recursion_depth :: nat

definition MIN_ARENA_BLOCKS :: nat where "MIN_ARENA_BLOCKS = 2 ^ 10"
definition MIN_READS_PER_STEP :: nat where "MIN_READS_PER_STEP = 4"
definition MAX_READS_PER_STEP :: nat where "MAX_READS_PER_STEP = 8"
definition MIN_CHALLENGES :: nat where "MIN_CHALLENGES = 2"
definition MIN_RECURSION_DEPTH :: nat where "MIN_RECURSION_DEPTH = 1"
definition MAX_RECURSION_DEPTH :: nat where "MAX_RECURSION_DEPTH = 8"
definition MAX_ARENA_BLOCKS :: nat where "MAX_ARENA_BLOCKS = 2 ^ 22"
definition MAX_TOTAL_STEPS :: nat where "MAX_TOTAL_STEPS = 2 ^ 24"

definition is_power_of_two :: "nat \<Rightarrow> bool" where
  "is_power_of_two n \<longleftrightarrow> popcount n = 1"

definition params_validate :: "posme_params \<Rightarrow> (posme_error, unit) result" where
  "params_validate p =
     (if arena_blocks p < MIN_ARENA_BLOCKS then Inl InvalidParams
      else if arena_blocks p > MAX_ARENA_BLOCKS then Inl InvalidParams
      else if \<not> is_power_of_two (arena_blocks p) then Inl InvalidParams
      else if total_steps p < arena_blocks p then Inl InvalidParams
      else if total_steps p > MAX_TOTAL_STEPS then Inl InvalidParams
      else if reads_per_step p < MIN_READS_PER_STEP then Inl InvalidParams
      else if reads_per_step p > MAX_READS_PER_STEP then Inl InvalidParams
      else if challenges p < MIN_CHALLENGES then Inl InvalidParams
      else if challenges p > total_steps p then Inl InvalidParams
      else if recursion_depth p < MIN_RECURSION_DEPTH then Inl InvalidParams
      else if recursion_depth p > MAX_RECURSION_DEPTH then Inl InvalidParams
      else Inr ())"

definition arena_bytes :: "posme_params \<Rightarrow> nat" where
  "arena_bytes p = arena_blocks p * 64"

definition params_core :: posme_params where
  "params_core = \<lparr>arena_blocks = 2 ^ 16, total_steps = 4 * 2 ^ 16, reads_per_step = 8,
     challenges = 32, recursion_depth = 1\<rparr>"

definition params_standard :: posme_params where
  "params_standard = \<lparr>arena_blocks = 2 ^ 18, total_steps = 4 * 2 ^ 18, reads_per_step = 8,
     challenges = 48, recursion_depth = 1\<rparr>"

definition params_enhanced :: posme_params where
  "params_enhanced = \<lparr>arena_blocks = 2 ^ 20, total_steps = 4 * 2 ^ 20, reads_per_step = 8,
     challenges = 64, recursion_depth = 2\<rparr>"

definition params_maximum :: posme_params where
  "params_maximum = \<lparr>arena_blocks = 2 ^ 21, total_steps = 4 * 2 ^ 21, reads_per_step = 8,
     challenges = 128, recursion_depth = 3\<rparr>"

definition for_tier :: "nat \<Rightarrow> (posme_error, posme_params) result" where
  "for_tier tier =
     (if tier = 1 then Inr params_core
      else if tier = 2 then Inr params_standard
      else if tier = 3 then Inr params_enhanced
      else if tier = 4 then Inr params_maximum
      else Inl InvalidParams)"

definition to_challenge_bytes :: "posme_params \<Rightarrow> bytes" where
  "to_challenge_bytes p = be 4 (arena_blocks p) @ be 4 (total_steps p) @
     [word_of_nat (reads_per_step p)] @ be 2 (challenges p) @ [word_of_nat (recursion_depth p)]"

lemmas params_bounds = MIN_ARENA_BLOCKS_def MIN_READS_PER_STEP_def MAX_READS_PER_STEP_def
  MIN_CHALLENGES_def MIN_RECURSION_DEPTH_def MAX_RECURSION_DEPTH_def MAX_ARENA_BLOCKS_def
  MAX_TOTAL_STEPS_def

subsection \<open>Hashing\<close>

definition DST_INIT :: bytes where "DST_INIT = ascii ''PoSME-init-v1''"
definition DST_CAUSAL :: bytes where "DST_CAUSAL = ascii ''PoSME-causal-v1''"
definition DST_TRANSCRIPT :: bytes where "DST_TRANSCRIPT = ascii ''PoSME-transcript-v1''"
definition DST_ADDR :: bytes where "DST_ADDR = ascii ''PoSME-addr-v1''"
definition DST_FIAT_SHAMIR :: bytes where "DST_FIAT_SHAMIR = ascii ''PoSME-challenge-v1''"

definition posme_hash :: "(bytes \<Rightarrow> bytes) \<Rightarrow> bytes list \<Rightarrow> bytes" where
  "posme_hash h inputs = h (concat inputs)"

definition i2osp :: "nat \<Rightarrow> bytes" where
  "i2osp x = be 4 x"

definition addr_from :: "(bytes \<Rightarrow> bytes) \<Rightarrow> bytes \<Rightarrow> nat \<Rightarrow> nat \<Rightarrow> nat" where
  "addr_from h cursor index n =
     be_val (take 4 (posme_hash h [DST_ADDR, cursor, i2osp index])) AND (n - 1)"

text \<open>The challenges are read from the stream four bytes at a time until enough distinct steps
  have come up, which need not happen: the loop is a partial function.\<close>

definition xof_word :: "(nat \<Rightarrow> byte) \<Rightarrow> nat \<Rightarrow> nat" where
  "xof_word stream pos = be_val (map stream [pos ..< pos + 4])"

partial_function (option) challenge_loop ::
  "(nat \<Rightarrow> byte) \<Rightarrow> nat \<Rightarrow> nat \<Rightarrow> nat \<Rightarrow> nat \<Rightarrow> nat set \<Rightarrow> nat list \<Rightarrow> nat list option" where
  "challenge_loop stream q k reject_below pos seen chs =
     (if q \<le> length chs then Some chs
      else let raw = xof_word stream pos in
        if raw < reject_below then challenge_loop stream q k reject_below (pos + 4) seen chs
        else let st = raw mod k + 1 in
          if st \<notin> seen
          then challenge_loop stream q k reject_below (pos + 4) (insert st seen) (chs @ [st])
          else challenge_loop stream q k reject_below (pos + 4) seen chs)"

definition challenge_seed :: "bytes \<Rightarrow> bytes \<Rightarrow> posme_params \<Rightarrow> bytes" where
  "challenge_seed final_transcript root_chain_commitment p =
     DST_FIAT_SHAMIR @ final_transcript @ root_chain_commitment @ to_challenge_bytes p"

definition derive_challenges ::
  "(bytes \<Rightarrow> nat \<Rightarrow> byte) \<Rightarrow> bytes \<Rightarrow> bytes \<Rightarrow> posme_params \<Rightarrow> nat list option" where
  "derive_challenges xof final_transcript root_chain_commitment p =
     (let k = total_steps p in
      challenge_loop (xof (challenge_seed final_transcript root_chain_commitment p))
        (challenges p) k ((2 ^ 32 - 1 - k + 1) mod k) 0 {} [])"

subsection \<open>Seeds\<close>

definition POSME_SEED_DST :: bytes where "POSME_SEED_DST = ascii ''PoP-PoSME-Seed-v1''"

definition nonce_bytes :: "bytes option \<Rightarrow> bytes" where
  "nonce_bytes nonce = (case nonce of None \<Rightarrow> [] | Some x \<Rightarrow> x)"

definition posme_seed_genesis ::
  "(bytes \<Rightarrow> bytes) \<Rightarrow> bytes \<Rightarrow> bytes \<Rightarrow> bytes \<Rightarrow> bytes option \<Rightarrow> bytes" where
  "posme_seed_genesis sha doc_ref_cbor jitter_or_nonce vdf_output challenge_nonce =
     sha (POSME_SEED_DST @ doc_ref_cbor @ jitter_or_nonce @ vdf_output @ nonce_bytes challenge_nonce)"

definition posme_seed_enhanced ::
  "(bytes \<Rightarrow> bytes) \<Rightarrow> bytes \<Rightarrow> bytes \<Rightarrow> bytes \<Rightarrow> bytes \<Rightarrow> bytes option \<Rightarrow> bytes" where
  "posme_seed_enhanced sha prev_hash jitter_intervals_cbor physical_state_cbor vdf_output challenge_nonce =
     sha (POSME_SEED_DST @ prev_hash @ jitter_intervals_cbor @ physical_state_cbor @ vdf_output @
          nonce_bytes challenge_nonce)"

definition posme_seed_core ::
  "(bytes \<Rightarrow> bytes) \<Rightarrow> bytes \<Rightarrow> bytes \<Rightarrow> bytes \<Rightarrow> bytes option \<Rightarrow> bytes" where
  "posme_seed_core sha prev_hash local_nonce vdf_output challenge_nonce =
     sha (POSME_SEED_DST @ prev_hash @ local_nonce @ vdf_output @ nonce_bytes challenge_nonce)"

subsection \<open>Facts about parameters and addresses\<close>

lemma popcount_power [simp]: "popcount (2 ^ m) = 1"
proof (induction m)
  case 0
  show ?case by (subst popcount.simps) simp
next
  case (Suc m)
  then show ?case by (subst popcount.simps) simp
qed

lemma popcount_eq_0 [simp]: "popcount n = 0 \<longleftrightarrow> n = 0"
proof (induction n rule: popcount.induct)
  case (1 n)
  show ?case
  proof (cases "n = 0")
    case False
    with 1 have "popcount (n div 2) = 0 \<longleftrightarrow> n div 2 = 0" by blast
    with False show ?thesis by (subst popcount.simps) (simp, presburger)
  qed simp
qed

lemma is_power_of_two_iff: "is_power_of_two n \<longleftrightarrow> (\<exists>m. n = 2 ^ m)"
proof
  show "is_power_of_two n \<Longrightarrow> \<exists>m. n = 2 ^ m"
  proof (induction n rule: popcount.induct)
    case (1 n)
    then have pc: "n \<noteq> 0" "n mod 2 + popcount (n div 2) = 1"
      unfolding is_power_of_two_def by (auto simp: popcount.simps [of n] split: if_splits)
    show ?case
    proof (cases "even n")
      case True
      with pc 1 obtain m where "n div 2 = 2 ^ m" by (auto simp: is_power_of_two_def)
      with True have "n = 2 ^ Suc m" by auto
      then show ?thesis ..
    next
      case False
      then have "n mod 2 = 1" by presburger
      with pc(2) have "n div 2 = 0" by simp
      with False have "n = 1" by presburger
      then have "n = 2 ^ 0" by simp
      then show ?thesis ..
    qed
  qed
qed (auto simp: is_power_of_two_def)

lemma params_validateE:
  assumes "params_validate p = Inr ()"
  obtains m where "arena_blocks p = 2 ^ m" "10 \<le> m" "m \<le> 22"
    "arena_blocks p \<le> total_steps p" "total_steps p \<le> 2 ^ 24" "reads_per_step p \<in> {4..8}"
    "2 \<le> challenges p" "challenges p \<le> total_steps p" "recursion_depth p \<in> {1..8}"
proof -
  from assms have a: "2 ^ 10 \<le> arena_blocks p" "arena_blocks p \<le> 2 ^ 22" "is_power_of_two (arena_blocks p)"
    "arena_blocks p \<le> total_steps p" "total_steps p \<le> 2 ^ 24" "reads_per_step p \<in> {4..8}"
    "2 \<le> challenges p" "challenges p \<le> total_steps p" "recursion_depth p \<in> {1..8}"
    unfolding params_validate_def params_bounds by (auto split: if_splits)
  then obtain m where m: "arena_blocks p = 2 ^ m" by (auto simp: is_power_of_two_iff)
  with a have "10 \<le> m" "m \<le> 22" by (metis power_increasing_iff one_less_numeral_iff semiring_norm(76))+
  with m a that show ?thesis by blast
qed

lemma and_low_mask: "x AND (2 ^ m - 1) = x mod 2 ^ m" for x :: nat
  by (metis take_bit_eq_mask take_bit_eq_mod mask_eq_exp_minus_1)

lemma addr_from_less: "n = 2 ^ m \<Longrightarrow> addr_from h c i n < n"
  unfolding addr_from_def by (simp only: and_low_mask) simp

end
