(* ===== verification/Posme_Tree.thy ===== *)
theory Posme_Tree
  imports Posme_Base
begin

text \<open>
  The flat Merkle trees of PoSME (\<open>crates/posme/src/merkle.rs\<close>, \<open>RootChain\<close> in \<open>prover.rs\<close>,
  \<open>verify_root_chain_path\<close> in \<open>verifier.rs\<close>). A tree over \<open>n\<close> leaves is an array of \<open>2 n - 1\<close>
  hashes with the root at 0, the children of \<open>i\<close> at \<open>2 i + 1\<close> and \<open>2 i + 2\<close> and the leaves from
  \<open>n - 1\<close> on. The locale \<open>vector_commitment\<close> is what the prover and the verifier rely on; the
  arena tree and the root chain are its two interpretations.
\<close>

subsection \<open>Hashes and arrays\<close>

definition leaf_hash :: "(bytes \<Rightarrow> bytes) \<Rightarrow> block \<Rightarrow> bytes" where
  "leaf_hash h b = posme_hash h [as_bytes b]"

definition internal_hash :: "(bytes \<Rightarrow> bytes) \<Rightarrow> bytes \<Rightarrow> bytes \<Rightarrow> bytes" where
  "internal_hash h left right = posme_hash h [left, right]"

record merkle_tree =
  mt_nodes :: "bytes list"
  mt_n :: nat

text \<open>\<open>trailing_zeros\<close> of a 32-bit integer.\<close>

fun trailing_zeros :: "nat \<Rightarrow> nat" where
  "trailing_zeros n = (if n = 0 then 32 else if odd n then 0 else Suc (trailing_zeros (n div 2)))"

declare trailing_zeros.simps [simp del]

text \<open>The loop over the inner nodes, from the last one down to the root.\<close>

primrec build_up :: "(bytes \<Rightarrow> bytes) \<Rightarrow> nat \<Rightarrow> bytes list \<Rightarrow> bytes list" where
  "build_up h 0 nodes = nodes"
| "build_up h (Suc i) nodes =
     build_up h i (nodes[i := internal_hash h (nodes ! (2 * i + 1)) (nodes ! (2 * i + 2))])"

definition merkle_build :: "(bytes \<Rightarrow> bytes) \<Rightarrow> block list \<Rightarrow> merkle_tree" where
  "merkle_build h blocks =
     (let n = length blocks; leaf_base = n - 1;
          nodes = replicate leaf_base (replicate LAMBDA 0) @ map (leaf_hash h) blocks
      in \<lparr>mt_nodes = build_up h leaf_base nodes, mt_n = n\<rparr>)"

fun update_loop :: "(bytes \<Rightarrow> bytes) \<Rightarrow> nat \<Rightarrow> bytes list \<Rightarrow> bytes list" where
  "update_loop h pos nodes =
     (if pos = 0 then nodes
      else let parent = (pos - 1) div 2 in
        update_loop h parent
          (nodes[parent := internal_hash h (nodes ! (2 * parent + 1)) (nodes ! (2 * parent + 2))]))"

declare update_loop.simps [simp del]

definition merkle_update :: "(bytes \<Rightarrow> bytes) \<Rightarrow> nat \<Rightarrow> block \<Rightarrow> merkle_tree \<Rightarrow> merkle_tree" where
  "merkle_update h index b t =
     (let pos = mt_n t - 1 + index
      in t\<lparr>mt_nodes := update_loop h pos ((mt_nodes t)[pos := leaf_hash h b])\<rparr>)"

definition merkle_root :: "merkle_tree \<Rightarrow> bytes" where
  "merkle_root t = mt_nodes t ! 0"

primrec prove_loop :: "bytes list \<Rightarrow> nat \<Rightarrow> nat \<Rightarrow> bytes list" where
  "prove_loop nodes 0 pos = []"
| "prove_loop nodes (Suc k) pos =
     nodes ! (if pos mod 2 = 1 then pos + 1 else pos - 1) # prove_loop nodes k ((pos - 1) div 2)"

definition merkle_prove :: "merkle_tree \<Rightarrow> nat \<Rightarrow> bytes list" where
  "merkle_prove t index = prove_loop (mt_nodes t) (trailing_zeros (mt_n t)) (mt_n t - 1 + index)"

text \<open>The verifier's loop along a path, with positions counted from 1.\<close>

primrec path_up :: "(bytes \<Rightarrow> bytes) \<Rightarrow> nat \<Rightarrow> bytes \<Rightarrow> bytes list \<Rightarrow> bytes" where
  "path_up h pos current [] = current"
| "path_up h pos current (sibling # path) =
     path_up h (pos div 2)
       (if pos mod 2 = 0 then internal_hash h current sibling else internal_hash h sibling current) path"

definition verify_path ::
  "(bytes \<Rightarrow> bytes) \<Rightarrow> bytes \<Rightarrow> nat \<Rightarrow> block \<Rightarrow> bytes list \<Rightarrow> nat \<Rightarrow> (posme_error, bool) result" where
  "verify_path h root index b path n =
     (if length path \<noteq> trailing_zeros n then Inr False
      else if n + index \<ge> 2 ^ 32 then Inl PosmePanic
      else Inr (path_up h (n + index) (leaf_hash h b) path = root))"

subsection \<open>The root chain\<close>

record root_chain =
  rc_nodes :: "bytes list"
  rc_n :: nat

function next_power_from :: "nat \<Rightarrow> nat \<Rightarrow> nat" where
  "next_power_from p n = (if n \<le> p \<or> p = 0 then p else next_power_from (2 * p) n)"
  by pat_completeness auto
termination by (relation "measure (\<lambda>(p, n). n - p)") auto

declare next_power_from.simps [simp del]

definition next_power_of_two :: "nat \<Rightarrow> nat" where
  "next_power_of_two n = next_power_from 1 n"

definition root_chain_build :: "(bytes \<Rightarrow> bytes) \<Rightarrow> bytes list \<Rightarrow> root_chain" where
  "root_chain_build h roots =
     (let n = next_power_of_two (length roots); leaf_base = n - 1;
          nodes = replicate leaf_base (replicate LAMBDA 0) @ roots @
            replicate (n - length roots) (replicate LAMBDA 0)
      in \<lparr>rc_nodes = build_up h leaf_base nodes, rc_n = n\<rparr>)"

definition root_chain_root :: "root_chain \<Rightarrow> bytes" where
  "root_chain_root c = rc_nodes c ! 0"

definition root_chain_prove :: "root_chain \<Rightarrow> nat \<Rightarrow> bytes list" where
  "root_chain_prove c index =
     prove_loop (rc_nodes c) (trailing_zeros (rc_n c mod 2 ^ 32)) (rc_n c - 1 + index)"

definition verify_root_chain_path ::
  "(bytes \<Rightarrow> bytes) \<Rightarrow> bytes \<Rightarrow> nat \<Rightarrow> bytes \<Rightarrow> bytes list \<Rightarrow> nat \<Rightarrow> bool" where
  "verify_root_chain_path h commitment index val path total_roots =
     (let n = next_power_of_two total_roots in
      if length path \<noteq> trailing_zeros (n mod 2 ^ 32) then False
      else path_up h (n + index) val path = commitment)"

subsection \<open>Powers of two\<close>

lemma trailing_zeros_power [simp]: "trailing_zeros (2 ^ m) = m"
  by (induction m) (simp_all add: trailing_zeros.simps)

lemma next_power_from_bounds:
  "p = 2 ^ a \<Longrightarrow> p < 2 * n \<or> p = 1 \<Longrightarrow>
    \<exists>m. next_power_from p n = 2 ^ m \<and> n \<le> 2 ^ m \<and> (2 ^ m < 2 * n \<or> (2 :: nat) ^ m = 1)"
proof (induction p n arbitrary: a rule: next_power_from.induct)
  case (1 p n)
  show ?case
  proof (cases "n \<le> p")
    case True
    then have "next_power_from p n = p" by (simp add: next_power_from.simps)
    with True 1(2,3) show ?thesis by (intro exI [of _ a]) simp
  next
    case False
    then have "\<exists>m. next_power_from (2 * p) n = 2 ^ m \<and> n \<le> 2 ^ m \<and> (2 ^ m < 2 * n \<or> (2 :: nat) ^ m = 1)"
      using 1 by (intro 1(1) [where a = "Suc a"]) auto
    moreover have "next_power_from p n = next_power_from (2 * p) n"
      using False 1(2) by (subst next_power_from.simps) simp
    ultimately show ?thesis by (simp only:)
  qed
qed

lemma next_power_of_two_power:
  obtains m where "next_power_of_two n = 2 ^ m" "n \<le> 2 ^ m" "2 ^ m < 2 * n \<or> (2 :: nat) ^ m = 1"
  using next_power_from_bounds [of 1 0 n] unfolding next_power_of_two_def by auto

subsection \<open>Heap order\<close>

text \<open>\<open>node_ok\<close> says that an inner node is the hash of its children, \<open>hash_heap\<close> that all of
  the \<open>N\<close> inner nodes are.\<close>

definition node_ok :: "(bytes \<Rightarrow> bytes) \<Rightarrow> bytes list \<Rightarrow> nat \<Rightarrow> bool" where
  "node_ok h ns i \<longleftrightarrow> ns ! i = internal_hash h (ns ! (2 * i + 1)) (ns ! (2 * i + 2))"

definition hash_heap :: "(bytes \<Rightarrow> bytes) \<Rightarrow> nat \<Rightarrow> bytes list \<Rightarrow> bool" where
  "hash_heap h N ns \<longleftrightarrow> length ns = 2 * N + 1 \<and> (\<forall>i < N. node_ok h ns i)"

lemma length_build_up [simp]: "length (build_up h i ns) = length ns"
  by (induction i arbitrary: ns) auto

lemma build_up_above: "i \<le> j \<Longrightarrow> build_up h i ns ! j = ns ! j"
  by (induction i arbitrary: ns) auto

lemma build_up_ok: "j < i \<Longrightarrow> i \<le> length ns \<Longrightarrow> node_ok h (build_up h i ns) j"
proof (induction i arbitrary: ns)
  case (Suc i)
  show ?case
  proof (cases "j = i")
    case True
    with Suc.prems show ?thesis by (simp add: node_ok_def build_up_above)
  next
    case False
    with Suc show ?thesis by simp
  qed
qed simp

lemma build_up_heap: "length ns = 2 * N + 1 \<Longrightarrow> hash_heap h N (build_up h N ns)"
  by (simp add: hash_heap_def build_up_ok)

lemma node_ok_upd:
  assumes "p < length ns" "i \<noteq> p" "\<not> (0 < p \<and> i = (p - 1) div 2)"
  shows "node_ok h (ns[p := v]) i \<longleftrightarrow> node_ok h ns i"
proof -
  have "2 * i + 1 \<noteq> p" "2 * i + 2 \<noteq> p" using assms by auto
  with assms(2) show ?thesis by (simp add: node_ok_def)
qed

lemma update_loop_spec:
  assumes "length ns = 2 * N + 1" "pos \<le> 2 * N"
    and "\<And>i. i < N \<Longrightarrow> \<not> (0 < pos \<and> i = (pos - 1) div 2) \<Longrightarrow> node_ok h ns i"
  shows "hash_heap h N (update_loop h pos ns) \<and> (\<forall>j \<ge> N. update_loop h pos ns ! j = ns ! j)"
  using assms
proof (induction h pos ns rule: update_loop.induct)
  case (1 h pos ns)
  show ?case
  proof (cases "pos = 0")
    case True
    with 1 show ?thesis by (simp add: update_loop.simps hash_heap_def)
  next
    case False
    define p where "p = (pos - 1) div 2"
    let ?ns = "ns[p := internal_hash h (ns ! (2 * p + 1)) (ns ! (2 * p + 2))]"
    have p: "p < N" using 1(3) False by (auto simp: p_def)
    have ok: "node_ok h ?ns i" if "i < N" "\<not> (0 < p \<and> i = (p - 1) div 2)" for i
    proof (cases "i = p")
      case True
      then show ?thesis using p 1(2) by (simp add: node_ok_def)
    next
      case False
      then have "node_ok h ns i" using 1(4) [OF that(1)] by (simp add: p_def)
      then show ?thesis using node_ok_upd [of p ns i] that False p 1(2) by simp
    qed
    have "hash_heap h N (update_loop h p ?ns) \<and> (\<forall>j \<ge> N. update_loop h p ?ns ! j = ?ns ! j)"
      using 1(1) [OF False p_def] p 1(2) ok by auto
    then show ?thesis using False p by (auto simp: update_loop.simps [of h pos ns] Let_def p_def)
  qed
qed

text \<open>A heap is determined by its leaves.\<close>

lemma hash_heap_unique:
  assumes "hash_heap h N ns" "hash_heap h N ms" "\<And>j. N \<le> j \<Longrightarrow> j < 2 * N + 1 \<Longrightarrow> ns ! j = ms ! j"
  shows "ns = ms"
proof (rule nth_equalityI)
  show "length ns = length ms" using assms(1,2) by (simp add: hash_heap_def)
  have "ns ! i = ms ! i" if "i < 2 * N + 1" for i
    using that
  proof (induction "2 * N + 1 - i" arbitrary: i rule: less_induct)
    case less
    show ?case
    proof (cases "i < N")
      case True
      then have "ns ! (2 * i + 1) = ms ! (2 * i + 1)" "ns ! (2 * i + 2) = ms ! (2 * i + 2)"
        using less by (auto intro!: less(1))
      with True assms(1,2) show ?thesis by (simp add: hash_heap_def node_ok_def)
    qed (use assms(3) less in auto)
  qed
  then show "\<And>i. i < length ns \<Longrightarrow> ns ! i = ms ! i" using assms(1) by (simp add: hash_heap_def)
qed

subsection \<open>Paths\<close>

lemma length_prove_loop [simp]: "length (prove_loop ns k pos) = k"
  by (induction k arbitrary: pos) auto

text \<open>Following a path of siblings from a node at depth \<open>k\<close> gives the root.\<close>

lemma path_up_prove:
  assumes "hash_heap h N ns" "2 ^ k \<le> pos + 1" "pos + 1 < 2 ^ Suc k" "pos \<le> 2 * N"
  shows "path_up h (pos + 1) (ns ! pos) (prove_loop ns k pos) = ns ! 0"
  using assms(2-4)
proof (induction k arbitrary: pos)
  case (Suc k)
  define p where "p = (pos - 1) div 2"
  have "(2 :: nat) \<le> 2 ^ Suc k" by simp
  then have pos: "0 < pos" using Suc.prems(1) by linarith
  then have p1: "(pos + 1) div 2 = p + 1" by (auto simp: p_def)
  have "2 ^ k \<le> p + 1" "p + 1 < 2 ^ Suc k" using Suc.prems(1,2) p1 [symmetric] by auto
  moreover have "p < N" using Suc.prems(3) pos by (auto simp: p_def)
  ultimately have ih: "path_up h (p + 1) (ns ! p) (prove_loop ns k p) = ns ! 0"
    by (intro Suc.IH) auto
  have ok: "ns ! p = internal_hash h (ns ! (2 * p + 1)) (ns ! (2 * p + 2))"
    using assms(1) \<open>p < N\<close> by (simp add: hash_heap_def node_ok_def)
  have "ns ! p = (if (pos + 1) mod 2 = 0
      then internal_hash h (ns ! pos) (ns ! (if pos mod 2 = 1 then pos + 1 else pos - 1))
      else internal_hash h (ns ! (if pos mod 2 = 1 then pos + 1 else pos - 1)) (ns ! pos))"
  proof (cases "odd pos")
    case True
    then have "pos = 2 * p + 1" by (auto simp: p_def elim: oddE)
    then show ?thesis using ok by simp
  next
    case False
    with pos have "pos = 2 * p + 2" by (auto simp: p_def elim: evenE)
    then show ?thesis using ok by simp
  qed
  with ih show ?case by (simp only: prove_loop.simps path_up.simps p1 p_def [symmetric])
qed (use assms(1) in auto)

subsection \<open>Binding\<close>

text \<open>What is hashed along a path.\<close>

primrec path_inputs :: "(bytes \<Rightarrow> bytes) \<Rightarrow> nat \<Rightarrow> bytes \<Rightarrow> bytes list \<Rightarrow> bytes list" where
  "path_inputs h pos current [] = []"
| "path_inputs h pos current (sibling # path) =
     (let x = (if pos mod 2 = 0 then current @ sibling else sibling @ current)
      in x # path_inputs h (pos div 2) (h x) path)"

abbreviation hash32 :: "(bytes \<Rightarrow> bytes) \<Rightarrow> bool" where
  "hash32 h \<equiv> (\<forall>x. length (h x) = 32)"

abbreviation digests :: "bytes list \<Rightarrow> bool" where
  "digests xs \<equiv> (\<forall>x \<in> set xs. length x = 32)"

lemma internal_hash_eq: "internal_hash h l r = h (l @ r)"
  by (simp add: internal_hash_def posme_hash_def)

lemma path_up_inj:
  assumes "hash32 h" "length p = length q" "digests p" "digests q" "length c = 32" "length d = 32"
    and "inj_on h (set (path_inputs h pos c p) \<union> set (path_inputs h pos d q))"
    and "path_up h pos c p = path_up h pos d q"
  shows "c = d \<and> p = q"
  using assms(2-8)
proof (induction p q arbitrary: pos c d rule: list_induct2)
  case (Cons s p t q)
  define x where "x = (if pos mod 2 = 0 then c @ s else s @ c)"
  define y where "y = (if pos mod 2 = 0 then d @ t else t @ d)"
  have up: "path_up h pos c (s # p) = path_up h (pos div 2) (h x) p"
    "path_up h pos d (t # q) = path_up h (pos div 2) (h y) q"
    by (simp_all add: x_def y_def internal_hash_eq)
  have "path_inputs h pos c (s # p) = x # path_inputs h (pos div 2) (h x) p"
    "path_inputs h pos d (t # q) = y # path_inputs h (pos div 2) (h y) q"
    by (simp_all add: x_def y_def Let_def)
  then have inj: "inj_on h (insert x (insert y (set (path_inputs h (pos div 2) (h x) p) \<union>
      set (path_inputs h (pos div 2) (h y) q))))"
    using Cons.prems(5) by (simp add: insert_commute)
  have eq: "h x = h y \<and> p = q"
  proof (rule Cons.IH)
    show "inj_on h (set (path_inputs h (pos div 2) (h x) p) \<union> set (path_inputs h (pos div 2) (h y) q))"
      using inj by (rule inj_on_subset) auto
  qed (use Cons.prems up assms(1) in auto)
  then have "x = y" using inj by (auto dest: inj_onD)
  then show ?case using eq Cons.prems(1-4) by (auto simp: x_def y_def split: if_splits)
qed simp

subsection \<open>The contract of a commitment to a list\<close>

text \<open>A commitment to a list of values opens at every index to the value there, and to no other
  value unless two inputs hashed in the two openings collide.\<close>

locale vector_commitment =
  fixes h :: "bytes \<Rightarrow> bytes"
    and shape :: "'v list \<Rightarrow> bool"
    and typed :: "'v \<Rightarrow> bool"
    and commit :: "'v list \<Rightarrow> 't"
    and root :: "'t \<Rightarrow> bytes"
    and open_at :: "'t \<Rightarrow> nat \<Rightarrow> bytes list"
    and check :: "bytes \<Rightarrow> nat \<Rightarrow> 'v \<Rightarrow> bytes list \<Rightarrow> bool"
    and inputs :: "nat \<Rightarrow> 'v \<Rightarrow> bytes list \<Rightarrow> bytes set"
  assumes complete: "shape vs \<Longrightarrow> i < length vs \<Longrightarrow> check (root (commit vs)) i (vs ! i) (open_at (commit vs) i)"
    and open_digests: "hash32 h \<Longrightarrow> shape vs \<Longrightarrow> list_all typed vs \<Longrightarrow> i < length vs \<Longrightarrow>
      digests (open_at (commit vs) i)"
    and binding: "hash32 h \<Longrightarrow> typed v \<Longrightarrow> typed w \<Longrightarrow> digests p \<Longrightarrow> digests q \<Longrightarrow>
      check r i v p \<Longrightarrow> check r i w q \<Longrightarrow> inj_on h (inputs i v p \<union> inputs i w q) \<Longrightarrow> v = w \<and> p = q"
begin

lemma opens_to_committed:
  assumes "hash32 h" "shape vs" "list_all typed vs" "i < length vs" "typed v" "digests p"
    and "check (root (commit vs)) i v p"
    and "inj_on h (inputs i v p \<union> inputs i (vs ! i) (open_at (commit vs) i))"
  shows "v = vs ! i \<and> p = open_at (commit vs) i"
  using assms by (intro binding [OF _ _ _ _ _ assms(7) complete]) (auto simp: list_all_length open_digests)

end

subsection \<open>The arena tree\<close>

lemma power2_Suc: obtains N where "(2 :: nat) ^ m = Suc N"
  by (metis not0_implies_Suc power_not_zero zero_neq_numeral)

lemma merkle_build_heap:
  assumes "length bs = Suc N"
  shows "hash_heap h N (mt_nodes (merkle_build h bs))" "mt_n (merkle_build h bs) = Suc N"
    and "i \<le> N \<Longrightarrow> mt_nodes (merkle_build h bs) ! (N + i) = leaf_hash h (bs ! i)"
  using assms by (simp_all add: merkle_build_def Let_def build_up_heap build_up_above nth_append)

text \<open>The incremental update gives the tree that building from scratch gives.\<close>

lemma merkle_update_build:
  assumes "i < length bs"
  shows "merkle_update h i b (merkle_build h bs) = merkle_build h (bs[i := b])"
proof -
  obtain N where N: "length bs = Suc N" using assms by (cases "length bs") auto
  let ?t = "merkle_build h bs" and ?u = "merkle_build h (bs[i := b])"
  let ?ns = "(mt_nodes ?t)[N + i := leaf_hash h b]"
  note t = merkle_build_heap [OF N, where h = h]
  have len: "length (bs[i := b]) = Suc N" using N by simp
  note u = merkle_build_heap [OF len, where h = h]
  have l: "length (mt_nodes ?t) = 2 * N + 1" using t(1) by (simp add: hash_heap_def)
  have "hash_heap h N (update_loop h (N + i) ?ns) \<and> (\<forall>j \<ge> N. update_loop h (N + i) ?ns ! j = ?ns ! j)"
  proof (rule update_loop_spec)
    fix j assume j: "j < N" "\<not> (0 < N + i \<and> j = (N + i - 1) div 2)"
    then have "node_ok h (mt_nodes ?t) j" using t(1) by (simp add: hash_heap_def)
    then show "node_ok h ?ns j" using j l assms N by (subst node_ok_upd) auto
  qed (use l assms N in auto)
  moreover have "?ns ! j = mt_nodes ?u ! j" if "N \<le> j" "j < 2 * N + 1" for j
  proof -
    define a where "a = j - N"
    have a: "j = N + a" "a \<le> N" using that by (auto simp: a_def)
    then show ?thesis using t(3) [OF a(2)] u(3) [OF a(2)] l assms by (cases "a = i") simp_all
  qed
  ultimately have "update_loop h (N + i) ?ns = mt_nodes ?u"
    by (intro hash_heap_unique [OF _ u(1)]) auto
  then show ?thesis using t(2) u(2) by (simp add: merkle_update_def Let_def)
qed

lemma merkle_path_complete:
  assumes "length bs = 2 ^ m" "i < 2 ^ m"
  shows "length (merkle_prove (merkle_build h bs) i) = m"
    and "path_up h (2 ^ m + i) (leaf_hash h (bs ! i)) (merkle_prove (merkle_build h bs) i) =
      merkle_root (merkle_build h bs)"
proof -
  obtain N where N: "(2 :: nat) ^ m = Suc N" by (rule power2_Suc)
  with assms have len: "length bs = Suc N" by simp
  note t = merkle_build_heap [OF len, where h = h]
  have tz: "trailing_zeros (Suc N) = m" by (simp flip: N)
  show "length (merkle_prove (merkle_build h bs) i) = m" by (simp add: merkle_prove_def t(2) tz)
  have "path_up h (N + i + 1) (mt_nodes (merkle_build h bs) ! (N + i))
      (prove_loop (mt_nodes (merkle_build h bs)) m (N + i)) = mt_nodes (merkle_build h bs) ! 0"
    using assms(2) N by (intro path_up_prove [OF t(1)]) simp_all
  moreover have "i \<le> N" using assms(2) N by simp
  ultimately show "path_up h (2 ^ m + i) (leaf_hash h (bs ! i)) (merkle_prove (merkle_build h bs) i) =
      merkle_root (merkle_build h bs)"
    using t(2,3) by (simp add: merkle_prove_def merkle_root_def N tz)
qed

lemma prove_loop_digests:
  assumes "digests ns" "pos \<le> 2 * N" "length ns = 2 * N + 1" "2 ^ k \<le> pos + 1"
  shows "digests (prove_loop ns k pos)"
  using assms(2,4)
proof (induction k arbitrary: pos)
  case (Suc k)
  have "(2 :: nat) \<le> 2 ^ Suc k" by simp
  then have pos: "0 < pos" using Suc.prems(2) by linarith
  then have "(if pos mod 2 = 1 then pos + 1 else pos - 1) < length ns"
    using Suc.prems(1) assms(3) by (auto, presburger)
  moreover have "2 ^ k \<le> (pos - 1) div 2 + 1" "(pos - 1) div 2 \<le> 2 * N" using Suc.prems pos by auto
  ultimately show ?case using Suc.IH [of "(pos - 1) div 2"] assms(1) by (auto simp del: One_nat_def)
qed simp

lemma hash_heap_digests:
  assumes "hash_heap h N ns" "hash32 h" "\<And>j. N \<le> j \<Longrightarrow> j \<le> 2 * N \<Longrightarrow> length (ns ! j) = 32"
  shows "digests ns"
proof
  fix x assume "x \<in> set ns"
  then obtain j where j: "j < length ns" "x = ns ! j" by (auto simp: in_set_conv_nth)
  show "length x = 32"
  proof (cases "j < N")
    case True
    then show ?thesis using assms(1,2) j by (simp add: hash_heap_def node_ok_def internal_hash_eq)
  qed (use assms(1,3) j in \<open>simp add: hash_heap_def\<close>)
qed

lemma leaf_hash_eq: "leaf_hash h b = h (as_bytes b)"
  by (simp add: leaf_hash_def posme_hash_def)

lemma merkle_prove_digests:
  assumes "hash32 h" "length bs = 2 ^ m" "i < 2 ^ m"
  shows "digests (merkle_prove (merkle_build h bs) i)"
proof -
  obtain N where N: "(2 :: nat) ^ m = Suc N" by (rule power2_Suc)
  with assms have len: "length bs = Suc N" by simp
  note t = merkle_build_heap [OF len, where h = h]
  have "length (mt_nodes (merkle_build h bs) ! j) = 32" if "N \<le> j" "j \<le> 2 * N" for j
    using t(3) [of "j - N"] that assms(1) by (simp add: leaf_hash_eq)
  then have "digests (mt_nodes (merkle_build h bs))" by (rule hash_heap_digests [OF t(1) assms(1)])
  then have "digests (prove_loop (mt_nodes (merkle_build h bs)) m (N + i))"
    using t(1) assms(3) N by (intro prove_loop_digests) (auto simp: hash_heap_def)
  moreover have "trailing_zeros (Suc N) = m" by (simp flip: N)
  ultimately show ?thesis by (simp add: merkle_prove_def t(2))
qed

text \<open>Writing a leaf leaves the siblings on its path as they are.\<close>

lemma update_loop_above: "0 < pos \<Longrightarrow> (pos - 1) div 2 < j \<Longrightarrow> update_loop h pos ns ! j = ns ! j"
proof (induction h pos ns rule: update_loop.induct)
  case (1 h pos ns)
  define p where "p = (pos - 1) div 2"
  let ?ns = "ns[p := internal_hash h (ns ! (2 * p + 1)) (ns ! (2 * p + 2))]"
  have eq: "update_loop h pos ns = update_loop h p ?ns"
    using 1(2) by (simp add: update_loop.simps [of h pos ns] Let_def p_def)
  show ?case
  proof (cases "p = 0")
    case True
    then show ?thesis using 1(3) eq by (simp add: p_def update_loop.simps)
  next
    case False
    then have "(p - 1) div 2 < j" using 1(3) by (simp add: p_def)
    then have "update_loop h p ?ns ! j = ?ns ! j" using 1(1,2) False p_def by auto
    then show ?thesis using 1(3) eq by (simp add: p_def)
  qed
qed

lemma prove_loop_upd:
  "pos \<le> q \<Longrightarrow> q \<noteq> (if pos mod 2 = 1 then pos + 1 else pos - 1) \<Longrightarrow> 2 ^ k \<le> pos + 1 \<Longrightarrow>
    prove_loop (ns[q := v]) k pos = prove_loop ns k pos"
proof (induction k arbitrary: pos)
  case (Suc k)
  have rest: "prove_loop (ns[q := v]) k ((pos - 1) div 2) = prove_loop ns k ((pos - 1) div 2)"
  proof (cases k)
    case (Suc j)
    then have "(4 :: nat) \<le> 2 ^ Suc k" by simp
    then have "4 \<le> pos + 1" using Suc.prems(3) by linarith
    then have lt: "(pos - 1) div 2 + 1 < pos" by auto
    have "2 ^ k \<le> (pos - 1) div 2 + 1" using Suc.prems(3) by auto
    then show ?thesis using lt Suc.prems(1) by (intro Suc.IH) auto
  qed simp
  show ?case using Suc.prems(2) rest by (auto simp del: One_nat_def)
qed simp

lemma prove_loop_update_loop:
  "2 ^ k \<le> pos + 1 \<Longrightarrow> prove_loop (update_loop h pos ns) k pos = prove_loop ns k pos"
proof (induction k arbitrary: pos ns)
  case (Suc k)
  have "(2 :: nat) \<le> 2 ^ Suc k" by simp
  then have pos: "0 < pos" using Suc.prems by linarith
  define p where "p = (pos - 1) div 2"
  let ?ns = "ns[p := internal_hash h (ns ! (2 * p + 1)) (ns ! (2 * p + 2))]"
  have eq: "update_loop h pos ns = update_loop h p ?ns"
    using pos by (simp add: update_loop.simps [of h pos ns] Let_def p_def)
  have k: "2 ^ k \<le> p + 1" using Suc.prems by (auto simp: p_def)
  have "prove_loop (update_loop h p ?ns) k p = prove_loop ?ns k p" using k by (rule Suc.IH)
  also have "\<dots> = prove_loop ns k p"
  proof (cases "p = 0")
    case True
    then have "k = 0" using k less_exp [of k] by linarith
    then show ?thesis by simp
  next
    case False
    then show ?thesis using k by (intro prove_loop_upd) presburger+
  qed
  finally have rest: "prove_loop (update_loop h pos ns) k p = prove_loop ns k p" by (simp only: eq)
  have "(pos - 1) div 2 < (if pos mod 2 = 1 then pos + 1 else pos - 1)" using pos by presburger
  then show ?case using rest update_loop_above [OF pos] by (simp add: p_def)
qed simp

lemma merkle_prove_update:
  assumes "length bs = 2 ^ m" "i < 2 ^ m"
  shows "merkle_prove (merkle_build h (bs[i := b])) i = merkle_prove (merkle_build h bs) i"
proof -
  obtain N where N: "(2 :: nat) ^ m = Suc N" by (rule power2_Suc)
  with assms have len: "length bs = Suc N" by simp
  note t = merkle_build_heap [OF len, where h = h]
  have tz: "trailing_zeros (Suc N) = m" by (simp flip: N)
  let ?ns = "mt_nodes (merkle_build h bs)"
  have k: "2 ^ m \<le> N + i + 1" using N by simp
  have "merkle_build h (bs[i := b]) = merkle_update h i b (merkle_build h bs)"
    using assms by (simp add: merkle_update_build)
  then have "merkle_prove (merkle_build h (bs[i := b])) i =
      prove_loop (update_loop h (N + i) (?ns[N + i := leaf_hash h b])) m (N + i)"
    by (simp add: merkle_prove_def merkle_update_def Let_def t(2) tz)
  also have "\<dots> = prove_loop (?ns[N + i := leaf_hash h b]) m (N + i)"
    using k by (rule prove_loop_update_loop)
  also have "\<dots> = prove_loop ?ns m (N + i)"
  proof (cases "N + i = 0")
    case True
    then have "m = 0" using k less_exp [of m] by linarith
    then show ?thesis by simp
  next
    case False
    then show ?thesis using k by (intro prove_loop_upd) presburger+
  qed
  finally show ?thesis by (simp add: merkle_prove_def t(2) tz)
qed

definition arena_inputs :: "(bytes \<Rightarrow> bytes) \<Rightarrow> nat \<Rightarrow> nat \<Rightarrow> block \<Rightarrow> bytes list \<Rightarrow> bytes set" where
  "arena_inputs h n i b p = insert (as_bytes b) (set (path_inputs h (n + i) (leaf_hash h b) p))"

interpretation arena: vector_commitment h "\<lambda>bs. length bs = 2 ^ m \<and> m < 31" block_typed
  "merkle_build h" merkle_root merkle_prove "\<lambda>r i b p. verify_path h r i b p (2 ^ m) = Inr True"
  "arena_inputs h (2 ^ m)" for h m
proof unfold_locales
  fix vs :: "block list" and i
  assume a: "length vs = 2 ^ m \<and> m < 31" "i < length vs"
  then have "(2 :: nat) ^ m \<le> 2 ^ 30" by (intro power_increasing) auto
  with a have "2 ^ m + i < (2 :: nat) ^ 32" by simp
  with a show "verify_path h (merkle_root (merkle_build h vs)) i (vs ! i) (merkle_prove (merkle_build h vs) i) (2 ^ m)
      = Inr True"
    by (simp add: verify_path_def merkle_path_complete)
next
  fix r i v w p q
  assume a: "hash32 h" "block_typed v" "block_typed w" "digests p" "digests q"
    "verify_path h r i v p (2 ^ m) = Inr True" "verify_path h r i w q (2 ^ m) = Inr True"
    "inj_on h (arena_inputs h (2 ^ m) i v p \<union> arena_inputs h (2 ^ m) i w q)"
  then have v: "length p = m" "path_up h (2 ^ m + i) (leaf_hash h v) p = r"
    "length q = m" "path_up h (2 ^ m + i) (leaf_hash h w) q = r"
    by (auto simp: verify_path_def split: if_splits)
  have "leaf_hash h v = leaf_hash h w \<and> p = q"
  proof (rule path_up_inj [OF a(1)])
    show "inj_on h (set (path_inputs h (2 ^ m + i) (leaf_hash h v) p) \<union>
        set (path_inputs h (2 ^ m + i) (leaf_hash h w) q))"
      using a(8) by (rule inj_on_subset) (auto simp: arena_inputs_def)
  qed (use a v in \<open>auto simp: leaf_hash_eq\<close>)
  moreover from this have "as_bytes v = as_bytes w"
    using inj_onD [OF a(8), of "as_bytes v" "as_bytes w"] by (simp add: leaf_hash_eq arena_inputs_def)
  ultimately show "v = w \<and> p = q" using as_bytes_inj a(2,3) by blast
qed (use merkle_prove_digests in auto)

subsection \<open>The chain of roots\<close>

lemma root_chain_heap:
  assumes "next_power_of_two (length rs) = Suc N" "length rs \<le> Suc N"
  shows "hash_heap h N (rc_nodes (root_chain_build h rs))" "rc_n (root_chain_build h rs) = Suc N"
    and "i < length rs \<Longrightarrow> rc_nodes (root_chain_build h rs) ! (N + i) = rs ! i"
    and "i \<le> N \<Longrightarrow> digests rs \<Longrightarrow> length (rc_nodes (root_chain_build h rs) ! (N + i)) = 32"
  using assms
  by (auto simp: root_chain_build_def Let_def LAMBDA_def build_up_heap build_up_above nth_append)

lemma chain_power:
  assumes "0 < roots" "roots \<le> 2 ^ 30"
  obtains m N where "next_power_of_two roots = 2 ^ m" "(2 :: nat) ^ m = Suc N" "roots \<le> Suc N"
    "trailing_zeros (Suc N mod 2 ^ 32) = m"
proof -
  obtain m where m: "next_power_of_two roots = 2 ^ m" "roots \<le> 2 ^ m" "2 ^ m < 2 * roots \<or> (2 :: nat) ^ m = 1"
    by (rule next_power_of_two_power)
  then have "(2 :: nat) ^ m < 2 ^ 32" using assms(2) by auto
  then have "trailing_zeros (2 ^ m mod 2 ^ 32) = m" by simp
  with m that power2_Suc [of m] show ?thesis by metis
qed

lemma root_chain_complete:
  assumes "0 < length rs" "length rs \<le> 2 ^ 30" "i < length rs"
  shows "verify_root_chain_path h (root_chain_root (root_chain_build h rs)) i (rs ! i)
      (root_chain_prove (root_chain_build h rs) i) (length rs)"
    and "hash32 h \<Longrightarrow> digests rs \<Longrightarrow> digests (root_chain_prove (root_chain_build h rs) i)"
proof -
  let ?t = "root_chain_build h rs"
  obtain m N where m: "next_power_of_two (length rs) = 2 ^ m" "(2 :: nat) ^ m = Suc N" "length rs \<le> Suc N"
    "trailing_zeros (Suc N mod 2 ^ 32) = m" using assms by (elim chain_power)
  then have n: "next_power_of_two (length rs) = Suc N" by simp
  note t = root_chain_heap [OF n m(3), where h = h]
  have i: "i \<le> N" "N + i + 1 < 2 ^ Suc m" "2 ^ m \<le> N + i + 1" using assms(3) m(2,3) by auto
  have pr: "root_chain_prove ?t i = prove_loop (rc_nodes ?t) m (N + i)"
    using m(4) by (simp add: root_chain_prove_def t(2))
  have "path_up h (N + i + 1) (rc_nodes ?t ! (N + i)) (prove_loop (rc_nodes ?t) m (N + i)) = rc_nodes ?t ! 0"
    using i by (intro path_up_prove [OF t(1)]) auto
  then show "verify_root_chain_path h (root_chain_root ?t) i (rs ! i) (root_chain_prove ?t i) (length rs)"
    using m(4) t(3) [OF assms(3)]
    by (simp add: verify_root_chain_path_def Let_def n pr root_chain_root_def)
  assume "hash32 h" "digests rs"
  have "length (rc_nodes ?t ! j) = 32" if "N \<le> j" "j \<le> 2 * N" for j
    using t(4) [of "j - N"] that \<open>digests rs\<close> by simp
  then have "digests (rc_nodes ?t)" by (rule hash_heap_digests [OF t(1) \<open>hash32 h\<close>])
  then show "digests (root_chain_prove ?t i)"
    using i t(1) unfolding pr by (intro prove_loop_digests) (auto simp: hash_heap_def)
qed

interpretation chain: vector_commitment h "\<lambda>rs. length rs = roots \<and> 0 < roots \<and> roots \<le> 2 ^ 30"
  "\<lambda>r. length r = 32" "root_chain_build h" root_chain_root root_chain_prove
  "\<lambda>c i r p. verify_root_chain_path h c i r p roots"
  "\<lambda>i r p. set (path_inputs h (next_power_of_two roots + i) r p)" for h roots
proof unfold_locales
  fix c i v w p q
  assume a: "hash32 h" "length v = 32" "length w = 32" "digests p" "digests q"
    "verify_root_chain_path h c i v p roots" "verify_root_chain_path h c i w q roots"
    "inj_on h (set (path_inputs h (next_power_of_two roots + i) v p) \<union>
       set (path_inputs h (next_power_of_two roots + i) w q))"
  then show "v = w \<and> p = q"
    by (intro path_up_inj [OF a(1) _ a(4,5,2,3,8)])
      (auto simp: verify_root_chain_path_def Let_def split: if_splits)
next
  fix vs :: "bytes list" and i assume "length vs = roots \<and> 0 < roots \<and> roots \<le> 2 ^ 30" "i < length vs"
  then show "verify_root_chain_path h (root_chain_root (root_chain_build h vs)) i (vs ! i)
      (root_chain_prove (root_chain_build h vs) i) roots"
    using root_chain_complete(1) [of vs i h] by auto
next
  fix vs :: "bytes list" and i assume "hash32 h" "length vs = roots \<and> 0 < roots \<and> roots \<le> 2 ^ 30" "i < length vs"
    "list_all (\<lambda>r. length r = 32) vs"
  then show "digests (root_chain_prove (root_chain_build h vs) i)"
    using root_chain_complete(2) [of vs i h] by (auto simp: list_all_iff)
qed

end
