(* ===== verification/Posme_Prover.thy ===== *)
theory Posme_Prover
  imports Posme_Tree
begin

text \<open>
  The PoSME prover (\<open>crates/posme/src/proof.rs\<close>, \<open>init.rs\<close>, \<open>step.rs\<close>, \<open>prover.rs\<close>): proof
  structures, arena initialisation, the step function in its light and its recording form, and
  proof generation with jitter entanglement and recursive writer proofs. Generation may fail to
  end (the value \<open>None\<close>) only in the derivation of the challenges. The elapsed time of the run
  is an argument.
\<close>

subsection \<open>Proof structures\<close>

definition PROOF_ALGORITHM_POSME :: nat where "PROOF_ALGORITHM_POSME = 30"
definition PROOF_ALGORITHM_POSME_ENTANGLED :: nat where "PROOF_ALGORITHM_POSME_ENTANGLED = 31"
definition INIT_WITNESS_COUNT :: nat where "INIT_WITNESS_COUNT = 8"
definition MAX_PROOF_NESTING_DEPTH :: nat where "MAX_PROOF_NESTING_DEPTH = 10"

record init_witness =
  iw_index :: nat
  iw_block :: block
  iw_merkle_path :: "bytes list"

record read_witness =
  rw_address :: nat
  rw_block :: block
  rw_merkle_path :: "bytes list"

record write_witness =
  ww_address :: nat
  ww_old_block :: block
  ww_new_block :: block
  ww_merkle_path :: "bytes list"

datatype step_proof =
  StepProof (sp_step_id: nat) (sp_cursor_in: bytes) (sp_cursor_out: bytes)
    (sp_root_before: bytes) (sp_root_after: bytes)
    (sp_root_chain_paths: "bytes list \<times> bytes list")
    (sp_reads: "read_witness list") (sp_write: write_witness) (sp_writers: "writer_proof list")
and writer_proof =
  WriterProof (wp_proof_type: nat) (wp_writer_step_id: nat)
    (wp_step_witness: "step_proof option") (wp_init_merkle_path: "bytes list option")

record posme_proof =
  pp_params :: posme_params
  pp_final_transcript :: bytes
  pp_root_chain_commitment :: bytes
  pp_root_0 :: bytes
  pp_root_0_path :: "bytes list"
  pp_init_witnesses :: "init_witness list"
  pp_challenged_steps :: "step_proof list"
  pp_claimed_duration :: nat
  pp_proof_algorithm :: nat
  pp_entanglement_points :: "(nat \<times> bytes) list"

fun check_step_depth :: "step_proof \<Rightarrow> nat \<Rightarrow> (posme_error, unit) result"
  and check_writers_depth :: "writer_proof list \<Rightarrow> nat \<Rightarrow> (posme_error, unit) result" where
  "check_step_depth (StepProof _ _ _ _ _ _ _ _ ws) depth =
     (if depth > MAX_PROOF_NESTING_DEPTH then Inl VerificationFailed
      else check_writers_depth ws depth)"
| "check_writers_depth [] depth = Inr ()"
| "check_writers_depth (WriterProof _ _ wit _ # ws) depth =
     (case wit of
        None \<Rightarrow> check_writers_depth ws depth
      | Some sp \<Rightarrow> res_bind (check_step_depth sp (depth + 1)) (\<lambda>_. check_writers_depth ws depth))"

fun validate_steps :: "step_proof list \<Rightarrow> (posme_error, unit) result" where
  "validate_steps [] = Inr ()"
| "validate_steps (sp # sps) = res_bind (check_step_depth sp 0) (\<lambda>_. validate_steps sps)"

definition validate_structure :: "posme_proof \<Rightarrow> (posme_error, unit) result" where
  "validate_structure p = validate_steps (pp_challenged_steps p)"

subsection \<open>Initialisation\<close>

definition init_causal :: "(bytes \<Rightarrow> bytes) \<Rightarrow> bytes \<Rightarrow> nat \<Rightarrow> bytes" where
  "init_causal h seed i = posme_hash h [DST_CAUSAL, seed, i2osp i]"

text \<open>The loop over the blocks 1, 2, and so on: \<open>init_loop\<close> makes its first \<open>i\<close> rounds.\<close>

primrec init_loop :: "(bytes \<Rightarrow> bytes) \<Rightarrow> bytes \<Rightarrow> nat \<Rightarrow> block list \<Rightarrow> block list" where
  "init_loop h seed 0 blocks = blocks"
| "init_loop h seed (Suc j) blocks =
     (let bs = init_loop h seed j blocks; i = Suc j;
          prev = b_data (bs ! (i - 1)); skip = b_data (bs ! (i div 2))
      in bs[i := \<lparr>b_data = posme_hash h [DST_INIT, seed, i2osp i, prev, skip],
                  b_causal = init_causal h seed i\<rparr>])"

definition init_blocks :: "(bytes \<Rightarrow> bytes) \<Rightarrow> bytes \<Rightarrow> nat \<Rightarrow> block list" where
  "init_blocks h seed n =
     init_loop h seed (n - 1)
       ((replicate n zeroed)[0 := \<lparr>b_data = posme_hash h [DST_INIT, seed, i2osp 0],
                                  b_causal = init_causal h seed 0\<rparr>])"

definition initialize :: "(bytes \<Rightarrow> bytes) \<Rightarrow> bytes \<Rightarrow> nat \<Rightarrow> block list \<times> merkle_tree \<times> bytes \<times> bytes" where
  "initialize h seed n =
     (let blocks = init_blocks h seed n; tree = merkle_build h blocks; root_0 = merkle_root tree
      in (blocks, tree, root_0, posme_hash h [DST_TRANSCRIPT, seed, root_0]))"

subsection \<open>Steps\<close>

definition MAX_READS :: nat where "MAX_READS = 8"

record step_log =
  sl_step_id :: nat
  sl_read_addrs :: "nat list"
  sl_read_blocks :: "block list"
  sl_read_count :: nat
  sl_write_addr :: nat
  sl_old_block :: block
  sl_new_block :: block
  sl_cursor :: bytes
  sl_root_before :: bytes
  sl_root_after :: bytes
  sl_transcript :: bytes

definition read_addrs :: "step_log \<Rightarrow> nat list" where
  "read_addrs l = take (sl_read_count l) (sl_read_addrs l)"

definition read_blocks :: "step_log \<Rightarrow> block list" where
  "read_blocks l = take (sl_read_count l) (sl_read_blocks l)"

record step_result =
  sr_write_addr :: nat
  sr_root_after :: bytes
  sr_transcript :: bytes

definition cursor_step :: "(bytes \<Rightarrow> bytes) \<Rightarrow> bytes \<Rightarrow> block \<Rightarrow> bytes" where
  "cursor_step h cursor b = posme_hash h [cursor, b_data b, b_causal b]"

primrec light_reads :: "(bytes \<Rightarrow> bytes) \<Rightarrow> block list \<Rightarrow> bytes \<Rightarrow> nat \<Rightarrow> bytes" where
  "light_reads h arena t_prev 0 = t_prev"
| "light_reads h arena t_prev (Suc j) =
     (let cursor = light_reads h arena t_prev j
      in cursor_step h cursor (arena ! addr_from h cursor j (length arena)))"

definition written_block :: "(bytes \<Rightarrow> bytes) \<Rightarrow> block \<Rightarrow> bytes \<Rightarrow> nat \<Rightarrow> block" where
  "written_block h old cursor t =
     \<lparr>b_data = posme_hash h [b_data old, cursor, b_causal old],
      b_causal = posme_hash h [b_causal old, cursor, i2osp t]\<rparr>"

definition posme_step_light ::
  "(bytes \<Rightarrow> bytes) \<Rightarrow> block list \<Rightarrow> merkle_tree \<Rightarrow> bytes \<Rightarrow> nat \<Rightarrow> nat \<Rightarrow>
   block list \<times> merkle_tree \<times> step_result" where
  "posme_step_light h arena tree t_prev t d =
     (let n = length arena; cursor = light_reads h arena t_prev d;
          w = addr_from h cursor d n; old = arena ! w; new = written_block h old cursor t;
          tree' = merkle_update h w new tree; root_after = merkle_root tree'
      in (arena[w := new], tree',
          \<lparr>sr_write_addr = w, sr_root_after = root_after,
           sr_transcript = posme_hash h [t_prev, i2osp t, cursor, root_after]\<rparr>))"

primrec full_reads ::
  "(bytes \<Rightarrow> bytes) \<Rightarrow> block list \<Rightarrow> bytes \<Rightarrow> nat \<Rightarrow> bytes \<times> nat list \<times> block list" where
  "full_reads h arena t_prev 0 = (t_prev, replicate MAX_READS 0, replicate MAX_READS zeroed)"
| "full_reads h arena t_prev (Suc j) =
     (let (cursor, addrs, blocks) = full_reads h arena t_prev j;
          a = addr_from h cursor j (length arena)
      in (cursor_step h cursor (arena ! a), addrs[j := a], blocks[j := arena ! a]))"

definition posme_step ::
  "(bytes \<Rightarrow> bytes) \<Rightarrow> block list \<Rightarrow> merkle_tree \<Rightarrow> bytes \<Rightarrow> nat \<Rightarrow> nat \<Rightarrow>
   block list \<times> merkle_tree \<times> step_log" where
  "posme_step h arena tree t_prev t d =
     (let n = length arena; (cursor, addrs, blocks) = full_reads h arena t_prev d;
          root_before = merkle_root tree;
          w = addr_from h cursor d n; old = arena ! w; new = written_block h old cursor t;
          tree' = merkle_update h w new tree; root_after = merkle_root tree'
      in (arena[w := new], tree',
          \<lparr>sl_step_id = t, sl_read_addrs = addrs, sl_read_blocks = blocks, sl_read_count = d,
           sl_write_addr = w, sl_old_block = old, sl_new_block = new, sl_cursor = cursor,
           sl_root_before = root_before, sl_root_after = root_after,
           sl_transcript = posme_hash h [t_prev, i2osp t, cursor, root_after]\<rparr>))"

subsection \<open>Step proofs\<close>

text \<open>The write index is the list of the last writers, 0 for a block never written.\<close>

definition write_record :: "nat \<Rightarrow> nat \<Rightarrow> nat list \<Rightarrow> nat list" where
  "write_record addr st wi = wi[addr := st]"

definition writer_entry :: "nat list \<Rightarrow> merkle_tree \<Rightarrow> nat \<Rightarrow> writer_proof" where
  "writer_entry wi init_tree addr =
     (let ws = wi ! addr in
      if ws = 0 then WriterProof 0 0 None (Some (merkle_prove init_tree addr))
      else WriterProof 1 ws None None)"

definition build_step_proof ::
  "step_log \<Rightarrow> merkle_tree \<Rightarrow> bytes \<Rightarrow> root_chain \<Rightarrow> nat list \<Rightarrow> merkle_tree \<Rightarrow> step_proof" where
  "build_step_proof log tree_before cursor_in rc wi init_tree =
     StepProof (sl_step_id log) cursor_in (sl_cursor log) (sl_root_before log) (sl_root_after log)
       (root_chain_prove rc (sl_step_id log - 1), root_chain_prove rc (sl_step_id log))
       (map (\<lambda>(addr, b). \<lparr>rw_address = addr, rw_block = b, rw_merkle_path = merkle_prove tree_before addr\<rparr>)
          (zip (read_addrs log) (read_blocks log)))
       \<lparr>ww_address = sl_write_addr log, ww_old_block = sl_old_block log, ww_new_block = sl_new_block log,
        ww_merkle_path = merkle_prove tree_before (sl_write_addr log)\<rparr>
       (map (writer_entry wi init_tree) (read_addrs log))"

definition init_sigma :: "(bytes \<Rightarrow> bytes) \<Rightarrow> bytes \<Rightarrow> bytes \<Rightarrow> bytes" where
  "init_sigma h seed root = posme_hash h [ascii ''PoSME-init-witness-v1'', seed, root]"

definition init_index :: "(bytes \<Rightarrow> bytes) \<Rightarrow> bytes \<Rightarrow> nat \<Rightarrow> nat \<Rightarrow> nat" where
  "init_index h sigma n counter = be_val (take 4 (posme_hash h [sigma, i2osp counter])) AND (n - 1)"

text \<open>The loop over the 32-bit counter; incrementing it past its range panics.\<close>

function init_witness_loop ::
  "(bytes \<Rightarrow> bytes) \<Rightarrow> bytes \<Rightarrow> merkle_tree \<Rightarrow> block list \<Rightarrow> nat \<Rightarrow> nat \<Rightarrow> init_witness list \<Rightarrow>
   (posme_error, init_witness list) result" where
  "init_witness_loop h sigma init_tree arena n counter ws =
     (if INIT_WITNESS_COUNT \<le> length ws then Inr ws
      else let idx = init_index h sigma n counter in
        if counter + 1 \<ge> 2 ^ 32 then Inl PosmePanic
        else if list_ex (\<lambda>w. iw_index w = idx) ws
          then init_witness_loop h sigma init_tree arena n (counter + 1) ws
          else init_witness_loop h sigma init_tree arena n (counter + 1)
            (ws @ [\<lparr>iw_index = idx, iw_block = arena ! idx, iw_merkle_path = merkle_prove init_tree idx\<rparr>]))"
  by pat_completeness auto
termination by (relation "measure (\<lambda>(h, sigma, t, arena, n, counter, ws). 2 ^ 32 - counter)") auto

declare init_witness_loop.simps [simp del]

definition generate_init_witnesses ::
  "(bytes \<Rightarrow> bytes) \<Rightarrow> bytes \<Rightarrow> merkle_tree \<Rightarrow> block list \<Rightarrow> nat \<Rightarrow>
   (posme_error, init_witness list) result" where
  "generate_init_witnesses h seed init_tree arena n =
     init_witness_loop h (init_sigma h seed (merkle_root init_tree)) init_tree arena n 0 []"

subsection \<open>Entanglement\<close>

definition ENTANGLE_DST :: bytes where "ENTANGLE_DST = ascii ''PoSME-entangle-v1''"

definition entangle_hash :: "(bytes \<Rightarrow> bytes) \<Rightarrow> bytes \<Rightarrow> bytes \<Rightarrow> bytes" where
  "entangle_hash h transcript jh = posme_hash h [ENTANGLE_DST, transcript, jh]"

record entangle_ctx =
  en_samples :: "bytes list"
  en_interval :: nat
  en_idx :: nat
  en_points :: "(nat \<times> bytes) list"

definition entangle_new :: "bytes list \<Rightarrow> nat \<Rightarrow> entangle_ctx" where
  "entangle_new samples interval = \<lparr>en_samples = samples, en_interval = interval, en_idx = 0, en_points = []\<rparr>"

definition injects :: "entangle_ctx \<Rightarrow> nat \<Rightarrow> bool" where
  "injects e st \<longleftrightarrow> en_interval e > 0 \<and> st mod en_interval e = 0 \<and> en_idx e < length (en_samples e)"

definition maybe_inject :: "(bytes \<Rightarrow> bytes) \<Rightarrow> nat \<Rightarrow> entangle_ctx \<Rightarrow> bytes \<Rightarrow> entangle_ctx \<times> bytes" where
  "maybe_inject h st e transcript =
     (if injects e st
      then let jh = en_samples e ! en_idx e in
        (e\<lparr>en_points := en_points e @ [(st, jh)], en_idx := en_idx e + 1\<rparr>, entangle_hash h transcript jh)
      else (e, transcript))"

definition maybe_inject_silent :: "(bytes \<Rightarrow> bytes) \<Rightarrow> nat \<Rightarrow> entangle_ctx \<Rightarrow> bytes \<Rightarrow> entangle_ctx \<times> bytes" where
  "maybe_inject_silent h st e transcript =
     (if injects e st
      then (e\<lparr>en_idx := en_idx e + 1\<rparr>, entangle_hash h transcript (en_samples e ! en_idx e))
      else (e, transcript))"

text \<open>Both act only when the run is entangled.\<close>

definition with_entangle ::
  "(entangle_ctx \<Rightarrow> bytes \<Rightarrow> entangle_ctx \<times> bytes) \<Rightarrow> entangle_ctx option \<Rightarrow> bytes \<Rightarrow> entangle_ctx option \<times> bytes" where
  "with_entangle f ent t = (case ent of None \<Rightarrow> (None, t) | Some e \<Rightarrow> (let (e', t') = f e t in (Some e', t')))"

subsection \<open>Writer proofs\<close>

record writer_replay =
  wr_arena :: "block list"
  wr_tree :: merkle_tree
  wr_t :: bytes
  wr_wi :: "nat list"
  wr_jitter_idx :: nat
  wr_results :: "nat \<rightharpoonup> step_proof"

definition replay_inject ::
  "(bytes \<Rightarrow> bytes) \<Rightarrow> (bytes list \<times> nat) option \<Rightarrow> nat \<Rightarrow> nat \<Rightarrow> bytes \<Rightarrow> nat \<times> bytes" where
  "replay_inject h entangle st idx t =
     (case entangle of
        None \<Rightarrow> (idx, t)
      | Some (samples, interval) \<Rightarrow>
          if interval > 0 \<and> st mod interval = 0 \<and> idx < length samples
          then (idx + 1, entangle_hash h t (samples ! idx)) else (idx, t))"

definition writer_replay_step ::
  "(bytes \<Rightarrow> bytes) \<Rightarrow> nat \<Rightarrow> root_chain \<Rightarrow> merkle_tree \<Rightarrow> nat set \<Rightarrow> (bytes list \<times> nat) option \<Rightarrow>
   nat \<Rightarrow> writer_replay \<Rightarrow> writer_replay" where
  "writer_replay_step h d rc init_tree targets entangle st s =
     (if st \<in> targets
      then let (arena, tree, log) = posme_step h (wr_arena s) (wr_tree s) (wr_t s) st d;
               (idx, t) = replay_inject h entangle st (wr_jitter_idx s) (sl_transcript log);
               wi = write_record (sl_write_addr log) st (wr_wi s);
               sp = build_step_proof log (wr_tree s) (wr_t s) rc wi init_tree
           in \<lparr>wr_arena = arena, wr_tree = tree, wr_t = t, wr_wi = wi, wr_jitter_idx = idx,
               wr_results = (wr_results s)(st \<mapsto> sp)\<rparr>
      else let (arena, tree, res) = posme_step_light h (wr_arena s) (wr_tree s) (wr_t s) st d;
               (idx, t) = replay_inject h entangle st (wr_jitter_idx s) (sr_transcript res)
           in s\<lparr>wr_arena := arena, wr_tree := tree, wr_t := t,
                wr_wi := write_record (sr_write_addr res) st (wr_wi s), wr_jitter_idx := idx\<rparr>)"

primrec writer_replay_loop ::
  "(bytes \<Rightarrow> bytes) \<Rightarrow> nat \<Rightarrow> root_chain \<Rightarrow> merkle_tree \<Rightarrow> nat set \<Rightarrow> (bytes list \<times> nat) option \<Rightarrow>
   nat \<Rightarrow> writer_replay \<Rightarrow> writer_replay" where
  "writer_replay_loop h d rc init_tree targets entangle 0 s = s"
| "writer_replay_loop h d rc init_tree targets entangle (Suc i) s =
     writer_replay_step h d rc init_tree targets entangle (Suc i)
       (writer_replay_loop h d rc init_tree targets entangle i s)"

definition replay_for_writer_proofs ::
  "(bytes \<Rightarrow> bytes) \<Rightarrow> bytes \<Rightarrow> posme_params \<Rightarrow> root_chain \<Rightarrow> nat set \<Rightarrow> (bytes list \<times> nat) option \<Rightarrow>
   (nat \<rightharpoonup> step_proof)" where
  "replay_for_writer_proofs h seed p rc targets entangle =
     (if targets = {} then Map.empty
      else let n = arena_blocks p; (arena, tree, _, t) = initialize h seed n
        in wr_results (writer_replay_loop h (reads_per_step p) rc (merkle_build h arena) targets entangle
             (Max targets)
             \<lparr>wr_arena = arena, wr_tree = tree, wr_t = t, wr_wi = replicate n 0, wr_jitter_idx = 0,
              wr_results = Map.empty\<rparr>))"

fun collect_unproved_writers :: "step_proof \<Rightarrow> nat set \<Rightarrow> nat set"
  and collect_writers :: "writer_proof list \<Rightarrow> nat set \<Rightarrow> nat set" where
  "collect_unproved_writers (StepProof _ _ _ _ _ _ _ _ ws) out = collect_writers ws out"
| "collect_writers [] out = out"
| "collect_writers (WriterProof ty st wit _ # ws) out =
     (let out1 = (if ty = 1 \<and> wit = None then insert st out else out)
      in collect_writers ws
           (case wit of None \<Rightarrow> out1 | Some sp \<Rightarrow> collect_unproved_writers sp out1))"

fun attach_writer_proofs :: "(nat \<rightharpoonup> step_proof) \<Rightarrow> step_proof \<Rightarrow> step_proof"
  and attach_writer :: "(nat \<rightharpoonup> step_proof) \<Rightarrow> writer_proof \<Rightarrow> writer_proof" where
  "attach_writer_proofs pf (StepProof i ci co rb ra pa rs w ws) =
     StepProof i ci co rb ra pa rs w (map (attach_writer pf) ws)"
| "attach_writer pf (WriterProof ty st wit ip) =
     (if ty = 1 \<and> wit = None
      then (case pf st of Some sp \<Rightarrow> WriterProof ty st (Some sp) ip | None \<Rightarrow> WriterProof ty st None ip)
      else WriterProof ty st (map_option (attach_writer_proofs pf) wit) ip)"

primrec attach_recursive_writers ::
  "(bytes \<Rightarrow> bytes) \<Rightarrow> bytes \<Rightarrow> posme_params \<Rightarrow> root_chain \<Rightarrow> (bytes list \<times> nat) option \<Rightarrow>
   nat \<Rightarrow> step_proof list \<Rightarrow> step_proof list" where
  "attach_recursive_writers h seed p rc entangle 0 sps = sps"
| "attach_recursive_writers h seed p rc entangle (Suc rounds) sps =
     (let needed = foldl (\<lambda>out sp. collect_unproved_writers sp out) {} sps in
      if needed = {} then sps
      else attach_recursive_writers h seed p rc entangle rounds
        (map (attach_writer_proofs (replay_for_writer_proofs h seed p rc needed entangle)) sps))"

subsection \<open>Execution\<close>

record exec_state =
  ex_arena :: "block list"
  ex_tree :: merkle_tree
  ex_t :: bytes
  ex_roots :: "bytes list"
  ex_ent :: "entangle_ctx option"

primrec exec_loop :: "(bytes \<Rightarrow> bytes) \<Rightarrow> nat \<Rightarrow> nat \<Rightarrow> exec_state \<Rightarrow> exec_state" where
  "exec_loop h d 0 s = s"
| "exec_loop h d (Suc i) s0 =
     (let s = exec_loop h d i s0;
          (arena, tree, res) = posme_step_light h (ex_arena s) (ex_tree s) (ex_t s) (Suc i) d;
          (ent, t) = with_entangle (maybe_inject h (Suc i)) (ex_ent s) (sr_transcript res)
      in \<lparr>ex_arena = arena, ex_tree = tree, ex_t = t, ex_roots = ex_roots s @ [sr_root_after res], ex_ent = ent\<rparr>)"

record replay_state =
  rp_arena :: "block list"
  rp_tree :: merkle_tree
  rp_t :: bytes
  rp_wi :: "nat list"
  rp_step :: nat
  rp_ent :: "entangle_ctx option"

definition replay_light :: "(bytes \<Rightarrow> bytes) \<Rightarrow> nat \<Rightarrow> replay_state \<Rightarrow> replay_state" where
  "replay_light h d s =
     (let st = rp_step s + 1;
          (arena, tree, res) = posme_step_light h (rp_arena s) (rp_tree s) (rp_t s) st d;
          (ent, t) = with_entangle (maybe_inject_silent h st) (rp_ent s) (sr_transcript res)
      in \<lparr>rp_arena = arena, rp_tree = tree, rp_t = t, rp_wi = write_record (sr_write_addr res) st (rp_wi s),
          rp_step = st, rp_ent = ent\<rparr>)"

lemma rp_step_replay_light [simp]: "rp_step (replay_light h d s) = rp_step s + 1"
  by (simp add: replay_light_def Let_def split: prod.split)

function replay_to :: "(bytes \<Rightarrow> bytes) \<Rightarrow> nat \<Rightarrow> nat \<Rightarrow> replay_state \<Rightarrow> replay_state" where
  "replay_to h d target s =
     (if rp_step s < target - 1 then replay_to h d target (replay_light h d s) else s)"
  by pat_completeness auto
termination by (relation "measure (\<lambda>(h, d, target, s). target - rp_step s)") auto

declare replay_to.simps [simp del]

definition replay_challenge ::
  "(bytes \<Rightarrow> bytes) \<Rightarrow> nat \<Rightarrow> root_chain \<Rightarrow> merkle_tree \<Rightarrow> replay_state \<Rightarrow> replay_state \<times> step_proof" where
  "replay_challenge h d rc init_tree s =
     (let st = rp_step s + 1;
          (arena, tree, log) = posme_step h (rp_arena s) (rp_tree s) (rp_t s) st d;
          (ent, t) = with_entangle (maybe_inject_silent h st) (rp_ent s) (sl_transcript log);
          wi = write_record (sl_write_addr log) st (rp_wi s)
      in (\<lparr>rp_arena = arena, rp_tree = tree, rp_t = t, rp_wi = wi, rp_step = st, rp_ent = ent\<rparr>,
          build_step_proof log (rp_tree s) (rp_t s) rc wi init_tree))"

fun replay_all ::
  "(bytes \<Rightarrow> bytes) \<Rightarrow> nat \<Rightarrow> root_chain \<Rightarrow> merkle_tree \<Rightarrow> (nat \<times> nat) list \<Rightarrow> replay_state \<Rightarrow>
   (nat \<times> step_proof) list" where
  "replay_all h d rc init_tree [] s = []"
| "replay_all h d rc init_tree ((orig_idx, target) # rest) s =
     (let (s', sp) = replay_challenge h d rc init_tree (replay_to h d target s)
      in (orig_idx, sp) # replay_all h d rc init_tree rest s')"

definition challenged_steps_of ::
  "(bytes \<Rightarrow> bytes) \<Rightarrow> bytes \<Rightarrow> posme_params \<Rightarrow> root_chain \<Rightarrow> nat list \<Rightarrow> entangle_ctx option \<Rightarrow> step_proof list" where
  "challenged_steps_of h seed p rc chs ent =
     (let n = arena_blocks p; (arena, tree, _, t) = initialize h seed n;
          step_proofs = replay_all h (reads_per_step p) rc (merkle_build h arena)
            (sort_key snd (enumerate 0 chs))
            \<lparr>rp_arena = arena, rp_tree = tree, rp_t = t, rp_wi = replicate n 0, rp_step = 0,
             rp_ent = map_option (\<lambda>e. entangle_new (en_samples e) (en_interval e)) ent\<rparr>
      in attach_recursive_writers h seed p rc (map_option (\<lambda>e. (en_samples e, en_interval e)) ent)
           (recursion_depth p - 1) (map snd (sort_key fst step_proofs)))"

definition execute_inner ::
  "(bytes \<Rightarrow> bytes) \<Rightarrow> (bytes \<Rightarrow> nat \<Rightarrow> byte) \<Rightarrow> nat \<Rightarrow> bytes \<Rightarrow> posme_params \<Rightarrow> entangle_ctx option \<Rightarrow>
   (posme_error, posme_proof) result option" where
  "execute_inner h xof elapsed seed p entangle =
     (let n = arena_blocks p; (arena, tree, root_0, t_0) = initialize h seed n in
      case generate_init_witnesses h seed (merkle_build h arena) arena n of
        Inl e \<Rightarrow> Some (Inl e)
      | Inr init_witnesses \<Rightarrow>
          (let s = exec_loop h (reads_per_step p) (total_steps p)
                 \<lparr>ex_arena = arena, ex_tree = tree, ex_t = t_0, ex_roots = [root_0], ex_ent = entangle\<rparr>;
               rc = root_chain_build h (ex_roots s); commitment = root_chain_root rc
           in case derive_challenges xof (ex_t s) commitment p of
                None \<Rightarrow> None
              | Some chs \<Rightarrow> Some (Inr
                  \<lparr>pp_params = p, pp_final_transcript = ex_t s, pp_root_chain_commitment = commitment,
                   pp_root_0 = root_0, pp_root_0_path = root_chain_prove rc 0,
                   pp_init_witnesses = init_witnesses,
                   pp_challenged_steps = challenged_steps_of h seed p rc chs (ex_ent s),
                   pp_claimed_duration = elapsed,
                   pp_proof_algorithm = (case ex_ent s of None \<Rightarrow> PROOF_ALGORITHM_POSME
                     | Some _ \<Rightarrow> PROOF_ALGORITHM_POSME_ENTANGLED),
                   pp_entanglement_points = (case ex_ent s of None \<Rightarrow> [] | Some e \<Rightarrow> en_points e)\<rparr>)))"

definition execute ::
  "(bytes \<Rightarrow> bytes) \<Rightarrow> (bytes \<Rightarrow> nat \<Rightarrow> byte) \<Rightarrow> nat \<Rightarrow> bytes \<Rightarrow> posme_params \<Rightarrow>
   (posme_error, posme_proof) result option" where
  "execute h xof elapsed seed p =
     (case params_validate p of Inl e \<Rightarrow> Some (Inl e) | Inr _ \<Rightarrow> execute_inner h xof elapsed seed p None)"

definition execute_entangled ::
  "(bytes \<Rightarrow> bytes) \<Rightarrow> (bytes \<Rightarrow> nat \<Rightarrow> byte) \<Rightarrow> nat \<Rightarrow> bytes \<Rightarrow> posme_params \<Rightarrow> bytes list \<Rightarrow>
   (posme_error, posme_proof) result option" where
  "execute_entangled h xof elapsed seed p jitter_samples =
     (if jitter_samples = [] then execute h xof elapsed seed p
      else case params_validate p of
        Inl e \<Rightarrow> Some (Inl e)
      | Inr _ \<Rightarrow>
          (let interval = total_steps p div length jitter_samples in
           if interval = 0 then Some (Inl InvalidParams)
           else execute_inner h xof elapsed seed p (Some (entangle_new jitter_samples interval))))"

end
