(* ===== verification/Posme_Verifier.thy ===== *)
theory Posme_Verifier
  imports Posme_Prover
begin

text \<open>
  The stateless PoSME verifier (\<open>crates/posme/src/verifier.rs\<close>). The variance of the jitter
  bytes is computed in double precision; the parameter \<open>low_variance\<close> stands for that
  comparison, given the number of bytes, their sum and the sum of their squares (both sums are
  exact in double precision). Like the prover, the verifier returns \<open>None\<close> when the derivation
  of the challenges does not end.
\<close>

fun byte_sums :: "bytes list \<Rightarrow> nat \<times> nat" where
  "byte_sums [] = (0, 0)"
| "byte_sums (jh # jhs) =
     (let (s, q) = byte_sums jhs
      in (s + sum_list (map unat jh), q + sum_list (map (\<lambda>b. unat b * unat b) jh)))"

definition validate_jitter_entropy ::
  "(nat \<Rightarrow> nat \<Rightarrow> nat \<Rightarrow> bool) \<Rightarrow> (nat \<times> bytes) list \<Rightarrow> (posme_error, unit) result" where
  "validate_jitter_entropy low_variance points =
     (if length points < 2 then Inr ()
      else let (s, q) = byte_sums (map snd points) in
        if low_variance (length points * 32) s q then Inl JitterEntropyInsufficient else Inr ())"

record verify_ctx =
  vc_n :: nat
  vc_d :: nat
  vc_k :: nat
  vc_total_roots :: nat
  vc_t_0 :: bytes
  vc_max_writer_depth :: nat

text \<open>A failed Merkle check at a step and an address, with the panic passed on.\<close>

definition require_path ::
  "(bytes \<Rightarrow> bytes) \<Rightarrow> nat \<Rightarrow> bytes \<Rightarrow> nat \<Rightarrow> block \<Rightarrow> bytes list \<Rightarrow> nat \<Rightarrow> (posme_error, unit) result" where
  "require_path h st root index b path n =
     res_bind (verify_path h root index b path n)
       (\<lambda>ok. if ok then Inr () else Inl (MerkleVerifyFailed st index))"

definition verify_symbiotic_write ::
  "(bytes \<Rightarrow> bytes) \<Rightarrow> step_proof \<Rightarrow> nat \<Rightarrow> nat \<Rightarrow> nat \<Rightarrow> bytes \<Rightarrow> (posme_error, unit) result" where
  "verify_symbiotic_write h sp st n d cursor =
     (let w = sp_write sp in
      if addr_from h cursor d n \<noteq> ww_address w then Inl (WriteMismatch st)
      else res_bind (require_path h st (sp_root_before sp) (ww_address w) (ww_old_block w) (ww_merkle_path w) n) (\<lambda>_.
        if b_data (ww_new_block w) \<noteq> posme_hash h [b_data (ww_old_block w), cursor, b_causal (ww_old_block w)] \<or>
           b_causal (ww_new_block w) \<noteq> posme_hash h [b_causal (ww_old_block w), cursor, i2osp st]
        then Inl (WriteMismatch st)
        else require_path h st (sp_root_after sp) (ww_address w) (ww_new_block w) (ww_merkle_path w) n))"

fun verify_read_paths ::
  "(bytes \<Rightarrow> bytes) \<Rightarrow> nat \<Rightarrow> bytes \<Rightarrow> nat \<Rightarrow> read_witness list \<Rightarrow> (posme_error, unit) result" where
  "verify_read_paths h st root n [] = Inr ()"
| "verify_read_paths h st root n (rw # rws) =
     res_bind (require_path h st root (rw_address rw) (rw_block rw) (rw_merkle_path rw) n)
       (\<lambda>_. verify_read_paths h st root n rws)"

fun verify_read_addrs ::
  "(bytes \<Rightarrow> bytes) \<Rightarrow> nat \<Rightarrow> nat \<Rightarrow> nat \<Rightarrow> bytes \<Rightarrow> read_witness list \<Rightarrow> (posme_error, bytes) result" where
  "verify_read_addrs h st n j cursor [] = Inr cursor"
| "verify_read_addrs h st n j cursor (rw # rws) =
     (let expected = addr_from h cursor j n in
      if expected \<noteq> rw_address rw then Inl (AddressMismatch st j expected (rw_address rw))
      else verify_read_addrs h st n (j + 1) (cursor_step h cursor (rw_block rw)) rws)"

text \<open>The check of one writer: \<open>vrec\<close> verifies a nested step, and is absent at depth 0.\<close>

definition verify_writer ::
  "(bytes \<Rightarrow> bytes) \<Rightarrow> (step_proof \<Rightarrow> (posme_error, bytes) result) option \<Rightarrow> bytes \<Rightarrow> nat \<Rightarrow> nat \<Rightarrow>
   read_witness \<Rightarrow> writer_proof \<Rightarrow> (posme_error, unit) result" where
  "verify_writer h vrec root_0 n st rd w =
     res_bind
       (if wp_proof_type w = 0
        then (case wp_init_merkle_path w of
                None \<Rightarrow> Inr ()
              | Some path \<Rightarrow> require_path h st root_0 (rw_address rd) (rw_block rd) path n)
        else Inr ())
       (\<lambda>_. case wp_step_witness w of
          None \<Rightarrow> Inr ()
        | Some witness \<Rightarrow>
            (case vrec of
               None \<Rightarrow> Inl VerificationFailed
             | Some verify \<Rightarrow>
                 if sp_step_id witness = 0 \<or> sp_step_id witness \<ge> st then Inl VerificationFailed
                 else if sp_step_id witness \<noteq> wp_writer_step_id w then Inl VerificationFailed
                 else res_bind (verify witness) (\<lambda>_.
                   if ww_address (sp_write witness) \<noteq> rw_address rd then Inl VerificationFailed
                   else if b_data (ww_new_block (sp_write witness)) \<noteq> b_data (rw_block rd) \<or>
                           b_causal (ww_new_block (sp_write witness)) \<noteq> b_causal (rw_block rd)
                   then Inl VerificationFailed else Inr ())))"

fun verify_writers ::
  "(bytes \<Rightarrow> bytes) \<Rightarrow> (step_proof \<Rightarrow> (posme_error, bytes) result) option \<Rightarrow> bytes \<Rightarrow> nat \<Rightarrow> nat \<Rightarrow>
   read_witness list \<Rightarrow> writer_proof list \<Rightarrow> (posme_error, unit) result" where
  "verify_writers h vrec root_0 n st reads [] = Inr ()"
| "verify_writers h vrec root_0 n st [] (w # ws) = Inl VerificationFailed"
| "verify_writers h vrec root_0 n st (rd # rds) (w # ws) =
     res_bind (verify_writer h vrec root_0 n st rd w) (\<lambda>_. verify_writers h vrec root_0 n st rds ws)"

definition final_expected :: "(bytes \<Rightarrow> bytes) \<Rightarrow> nat \<Rightarrow> (nat \<times> bytes) list \<Rightarrow> bytes \<Rightarrow> bytes" where
  "final_expected h st points t =
     foldl (\<lambda>acc (ep, jh). if ep = st then entangle_hash h acc jh else acc) t points"

definition verify_step_body ::
  "(bytes \<Rightarrow> bytes) \<Rightarrow> posme_proof \<Rightarrow> verify_ctx \<Rightarrow> (step_proof \<Rightarrow> (posme_error, bytes) result) option \<Rightarrow>
   step_proof \<Rightarrow> (posme_error, bytes) result" where
  "verify_step_body h p c vrec sp =
     (let st = sp_step_id sp; n = vc_n c in
      if length (sp_writers sp) > length (sp_reads sp) then Inl VerificationFailed
      else if st = 0 \<or> st > vc_k c then Inl VerificationFailed
      else if \<not> verify_root_chain_path h (pp_root_chain_commitment p) (st - 1) (sp_root_before sp)
                (fst (sp_root_chain_paths sp)) (vc_total_roots c) then Inl (RootChainFailed st)
      else if \<not> verify_root_chain_path h (pp_root_chain_commitment p) st (sp_root_after sp)
                (snd (sp_root_chain_paths sp)) (vc_total_roots c) then Inl (RootChainFailed st)
      else res_bind (verify_read_paths h st (sp_root_before sp) n (sp_reads sp)) (\<lambda>_.
        res_bind (verify_read_addrs h st n 0 (sp_cursor_in sp) (sp_reads sp)) (\<lambda>cursor.
        res_bind (verify_symbiotic_write h sp st n (vc_d c) cursor) (\<lambda>_.
        res_bind (verify_writers h vrec (pp_root_0 p) n st (sp_reads sp) (sp_writers sp)) (\<lambda>_.
          let expected = posme_hash h [sp_cursor_in sp, i2osp st, cursor, sp_root_after sp] in
          if st = vc_k c \<and> final_expected h st (pp_entanglement_points p) expected \<noteq> pp_final_transcript p
          then Inl (TranscriptMismatch st)
          else if st = 1 \<and> sp_cursor_in sp \<noteq> vc_t_0 c then Inl (TranscriptMismatch st)
          else Inr expected)))))"

primrec verify_step ::
  "(bytes \<Rightarrow> bytes) \<Rightarrow> posme_proof \<Rightarrow> verify_ctx \<Rightarrow> nat \<Rightarrow> step_proof \<Rightarrow> (posme_error, bytes) result" where
  "verify_step h p c 0 = verify_step_body h p c None"
| "verify_step h p c (Suc depth) = verify_step_body h p c (Some (verify_step h p c depth))"

text \<open>The expected indices of the initial witnesses.\<close>

function init_index_loop ::
  "(bytes \<Rightarrow> bytes) \<Rightarrow> bytes \<Rightarrow> nat \<Rightarrow> nat \<Rightarrow> nat list \<Rightarrow> (posme_error, nat list) result" where
  "init_index_loop h sigma n counter idxs =
     (if INIT_WITNESS_COUNT \<le> length idxs then Inr idxs
      else let idx = init_index h sigma n counter in
        if counter + 1 \<ge> 2 ^ 32 then Inl PosmePanic
        else if idx \<in> set idxs then init_index_loop h sigma n (counter + 1) idxs
        else init_index_loop h sigma n (counter + 1) (idxs @ [idx]))"
  by pat_completeness auto
termination by (relation "measure (\<lambda>(h, sigma, n, counter, idxs). 2 ^ 32 - counter)") auto

declare init_index_loop.simps [simp del]

fun verify_init_witnesses ::
  "(bytes \<Rightarrow> bytes) \<Rightarrow> bytes \<Rightarrow> bytes \<Rightarrow> nat \<Rightarrow> init_witness list \<Rightarrow> nat list \<Rightarrow> (posme_error, unit) result" where
  "verify_init_witnesses h seed root_0 n (w # ws) (expected_idx # idxs) =
     (if iw_index w \<noteq> expected_idx then Inl VerificationFailed
      else if iw_index w = 0 \<and> b_data (iw_block w) \<noteq> posme_hash h [DST_INIT, seed, i2osp 0]
      then Inl VerificationFailed
      else if b_causal (iw_block w) \<noteq> posme_hash h [DST_CAUSAL, seed, i2osp (iw_index w)]
      then Inl VerificationFailed
      else res_bind (require_path h 0 root_0 (iw_index w) (iw_block w) (iw_merkle_path w) n)
        (\<lambda>_. verify_init_witnesses h seed root_0 n ws idxs))"
| "verify_init_witnesses h seed root_0 n ws idxs = Inr ()"

fun verify_steps ::
  "(bytes \<Rightarrow> bytes) \<Rightarrow> posme_proof \<Rightarrow> verify_ctx \<Rightarrow> step_proof list \<Rightarrow> (posme_error, (nat \<times> bytes) list) result" where
  "verify_steps h p c [] = Inr []"
| "verify_steps h p c (sp # sps) =
     res_bind (verify_step h p c (vc_max_writer_depth c) sp) (\<lambda>t.
       res_bind (verify_steps h p c sps) (\<lambda>ts. Inr ((sp_step_id sp, t) # ts)))"

text \<open>The check over adjacent pairs of challenged steps.\<close>

fun verify_links ::
  "(bytes \<Rightarrow> bytes) \<Rightarrow> (nat \<times> bytes) list \<Rightarrow> step_proof list \<Rightarrow> (nat \<times> bytes) list \<Rightarrow> (posme_error, unit) result" where
  "verify_links h emap sps ((step_a, ta) # (step_b, tb) # rest) =
     (case find (\<lambda>s. sp_step_id s = step_b) sps of
        None \<Rightarrow> Inl VerificationFailed
      | Some sb \<Rightarrow>
          (let ta' = (case map_of emap step_a of Some jh \<Rightarrow> entangle_hash h ta jh | None \<Rightarrow> ta) in
           if step_b = step_a + 1 \<and> sp_cursor_in sb \<noteq> ta' then Inl (TranscriptMismatch step_b)
           else verify_links h emap sps ((step_b, tb) # rest)))"
| "verify_links h emap sps _ = Inr ()"

definition entangle_map :: "(nat \<times> bytes) list \<Rightarrow> (nat \<times> bytes) list" where
  "entangle_map points = foldl (\<lambda>m (st, jh). bt_insert st jh m) [] points"

text \<open>\<open>verify\<close>, in two parts: the checks up to the challenges, and the checks of the
  challenged steps.\<close>

definition verify_challenged ::
  "(bytes \<Rightarrow> bytes) \<Rightarrow> bytes \<Rightarrow> posme_proof \<Rightarrow> nat list \<Rightarrow> (posme_error, unit) result" where
  "verify_challenged h seed p expected_challenges =
     (let c = \<lparr>vc_n = arena_blocks (pp_params p), vc_d = reads_per_step (pp_params p),
               vc_k = total_steps (pp_params p), vc_total_roots = total_steps (pp_params p) + 1,
               vc_t_0 = posme_hash h [DST_TRANSCRIPT, seed, pp_root_0 p],
               vc_max_writer_depth = recursion_depth (pp_params p) - 1\<rparr> in
      if map sp_step_id (pp_challenged_steps p) \<noteq> expected_challenges then Inl ChallengeMismatch
      else res_bind (verify_steps h p c (pp_challenged_steps p)) (\<lambda>transcripts.
        let emap = entangle_map (pp_entanglement_points p) in
        if length emap \<noteq> length (pp_entanglement_points p) then Inl VerificationFailed
        else verify_links h emap (pp_challenged_steps p) (sort_key fst transcripts)))"

definition verify_front ::
  "(bytes \<Rightarrow> bytes) \<Rightarrow> (nat \<Rightarrow> nat \<Rightarrow> nat \<Rightarrow> bool) \<Rightarrow> bytes \<Rightarrow> posme_proof \<Rightarrow> (posme_error, unit) result" where
  "verify_front h low_variance seed p =
     res_bind (params_validate (pp_params p)) (\<lambda>_.
       if pp_proof_algorithm p \<noteq> PROOF_ALGORITHM_POSME \<and>
          pp_proof_algorithm p \<noteq> PROOF_ALGORITHM_POSME_ENTANGLED then Inl VerificationFailed
       else res_bind
         (if pp_proof_algorithm p = PROOF_ALGORITHM_POSME_ENTANGLED
          then validate_jitter_entropy low_variance (pp_entanglement_points p) else Inr ()) (\<lambda>_.
         let n = arena_blocks (pp_params p); total_roots = total_steps (pp_params p) + 1 in
         if \<not> verify_root_chain_path h (pp_root_chain_commitment p) 0 (pp_root_0 p) (pp_root_0_path p) total_roots
         then Inl (RootChainFailed 0)
         else if length (pp_init_witnesses p) < INIT_WITNESS_COUNT then Inl VerificationFailed
         else res_bind (init_index_loop h (init_sigma h seed (pp_root_0 p)) n 0 []) (\<lambda>idxs.
           verify_init_witnesses h seed (pp_root_0 p) n (pp_init_witnesses p) idxs)))"

definition posme_verify ::
  "(bytes \<Rightarrow> bytes) \<Rightarrow> (bytes \<Rightarrow> nat \<Rightarrow> byte) \<Rightarrow> (nat \<Rightarrow> nat \<Rightarrow> nat \<Rightarrow> bool) \<Rightarrow> bytes \<Rightarrow> posme_proof \<Rightarrow>
   (posme_error, unit) result option" where
  "posme_verify h xof low_variance seed p =
     (case verify_front h low_variance seed p of
        Inl e \<Rightarrow> Some (Inl e)
      | Inr _ \<Rightarrow> map_option (verify_challenged h seed p)
          (derive_challenges xof (pp_final_transcript p) (pp_root_chain_commitment p) (pp_params p)))"

end
