(* ===== verification/Posme_Run.thy ===== *)
theory Posme_Run
  imports Posme_Verifier "HOL-Library.Multiset"
begin

text \<open>
  The run of the prover as a sequence of states: the arena, the transcript and the number of
  jitter samples used after each step, with no tree beside the arena. The execution, the replay
  for the challenged steps and the replay for the writer proofs all follow this sequence.
\<close>

record posme_run =
  pr_h :: "bytes \<Rightarrow> bytes"
  pr_seed :: bytes
  pr_n :: nat
  pr_d :: nat
  pr_es :: "(bytes list \<times> nat) option"

text \<open>The cursor after the reads, the written address and the block of a step from a state.\<close>

definition st_cursor :: "posme_run \<Rightarrow> block list \<Rightarrow> bytes \<Rightarrow> bytes" where
  "st_cursor R arena t = light_reads (pr_h R) arena t (pr_d R)"

definition st_addr :: "posme_run \<Rightarrow> block list \<Rightarrow> bytes \<Rightarrow> nat" where
  "st_addr R arena t = addr_from (pr_h R) (st_cursor R arena t) (pr_d R) (length arena)"

definition st_block :: "posme_run \<Rightarrow> block list \<Rightarrow> bytes \<Rightarrow> nat \<Rightarrow> block" where
  "st_block R arena t i = written_block (pr_h R) (arena ! st_addr R arena t) (st_cursor R arena t) i"

definition st_arena :: "posme_run \<Rightarrow> block list \<Rightarrow> bytes \<Rightarrow> nat \<Rightarrow> block list" where
  "st_arena R arena t i = arena[st_addr R arena t := st_block R arena t i]"

definition st_trans :: "posme_run \<Rightarrow> block list \<Rightarrow> bytes \<Rightarrow> nat \<Rightarrow> bytes" where
  "st_trans R arena t i =
     posme_hash (pr_h R) [t, i2osp i, st_cursor R arena t, merkle_root (merkle_build (pr_h R) (st_arena R arena t i))]"

primrec trace :: "posme_run \<Rightarrow> nat \<Rightarrow> block list \<times> bytes \<times> nat" where
  "trace R 0 = (let bs = init_blocks (pr_h R) (pr_seed R) (pr_n R) in
     (bs, posme_hash (pr_h R) [DST_TRANSCRIPT, pr_seed R, merkle_root (merkle_build (pr_h R) bs)], 0))"
| "trace R (Suc i) =
     (let (arena, t, idx) = trace R i;
          (idx', t') = replay_inject (pr_h R) (pr_es R) (Suc i) idx (st_trans R arena t (Suc i))
      in (st_arena R arena t (Suc i), t', idx'))"

definition arena_at :: "posme_run \<Rightarrow> nat \<Rightarrow> block list" where
  "arena_at R i = fst (trace R i)"

definition trans_at :: "posme_run \<Rightarrow> nat \<Rightarrow> bytes" where
  "trans_at R i = fst (snd (trace R i))"

definition jitter_at :: "posme_run \<Rightarrow> nat \<Rightarrow> nat" where
  "jitter_at R i = snd (snd (trace R i))"

definition root_at :: "posme_run \<Rightarrow> nat \<Rightarrow> bytes" where
  "root_at R i = merkle_root (merkle_build (pr_h R) (arena_at R i))"

text \<open>Of the step after \<open>i\<close> steps: its cursor, addresses, written block and transcript before
  entanglement.\<close>

definition cursor_at :: "posme_run \<Rightarrow> nat \<Rightarrow> bytes" where
  "cursor_at R i = st_cursor R (arena_at R i) (trans_at R i)"

definition waddr_at :: "posme_run \<Rightarrow> nat \<Rightarrow> nat" where
  "waddr_at R i = st_addr R (arena_at R i) (trans_at R i)"

definition wblock_at :: "posme_run \<Rightarrow> nat \<Rightarrow> block" where
  "wblock_at R i = st_block R (arena_at R i) (trans_at R i) (Suc i)"

definition raw_at :: "posme_run \<Rightarrow> nat \<Rightarrow> bytes" where
  "raw_at R i = st_trans R (arena_at R i) (trans_at R i) (Suc i)"

definition raddr_at :: "posme_run \<Rightarrow> nat \<Rightarrow> nat \<Rightarrow> nat" where
  "raddr_at R i j = addr_from (pr_h R) (light_reads (pr_h R) (arena_at R i) (trans_at R i) j) j (pr_n R)"

definition raddrs_at :: "posme_run \<Rightarrow> nat \<Rightarrow> nat list" where
  "raddrs_at R i = map (raddr_at R i) [0 ..< pr_d R]"

primrec writers_at :: "posme_run \<Rightarrow> nat \<Rightarrow> nat list" where
  "writers_at R 0 = replicate (pr_n R) 0"
| "writers_at R (Suc i) = (writers_at R i)[waddr_at R i := Suc i]"

definition run_ok :: "posme_run \<Rightarrow> nat \<Rightarrow> bool" where
  "run_ok R m \<longleftrightarrow> pr_n R = 2 ^ m \<and> m < 31 \<and> pr_d R \<le> MAX_READS"

subsection \<open>The sequence\<close>

lemma length_init_loop [simp]: "length (init_loop h seed j bs) = length bs"
  by (induction j) (auto simp: Let_def)

lemma length_init_blocks [simp]: "length (init_blocks h seed n) = n"
  by (simp add: init_blocks_def)

lemma trace_eq: "trace R i = (arena_at R i, trans_at R i, jitter_at R i)"
  by (simp add: arena_at_def trans_at_def jitter_at_def)

lemma arena_at_Suc: "arena_at R (Suc i) = (arena_at R i)[waddr_at R i := wblock_at R i]"
  unfolding arena_at_def [of R "Suc i"] trace.simps(2) trace_eq [of R i]
  by (simp add: Let_def st_arena_def waddr_at_def wblock_at_def split: prod.split)

lemma st_arena_at: "st_arena R (arena_at R i) (trans_at R i) (Suc i) = arena_at R (Suc i)"
  by (simp add: st_arena_def arena_at_Suc waddr_at_def wblock_at_def)

lemma inject_at:
  "replay_inject (pr_h R) (pr_es R) (Suc i) (jitter_at R i) (raw_at R i) = (jitter_at R (Suc i), trans_at R (Suc i))"
  unfolding jitter_at_def [of R "Suc i"] trans_at_def [of R "Suc i"] trace.simps(2) trace_eq [of R i]
  by (simp add: Let_def raw_at_def split: prod.split)

lemma arena_at_0: "arena_at R 0 = init_blocks (pr_h R) (pr_seed R) (pr_n R)"
  by (simp add: arena_at_def Let_def)

lemma length_arena_at [simp]: "length (arena_at R i) = pr_n R"
  by (induction i) (simp_all add: arena_at_Suc arena_at_0)

lemma trans_at_0: "trans_at R 0 = posme_hash (pr_h R) [DST_TRANSCRIPT, pr_seed R, root_at R 0]"
  by (simp add: trans_at_def root_at_def arena_at_0 Let_def)

lemma jitter_at_0 [simp]: "jitter_at R 0 = 0"
  by (simp add: jitter_at_def Let_def)

lemma initialize_run:
  "initialize (pr_h R) (pr_seed R) (pr_n R) =
     (arena_at R 0, merkle_build (pr_h R) (arena_at R 0), root_at R 0, trans_at R 0)"
  by (simp add: initialize_def Let_def arena_at_0 root_at_def trans_at_0)

lemma length_writers_at [simp]: "length (writers_at R i) = pr_n R"
  by (induction i) auto

lemma waddr_less: "run_ok R m \<Longrightarrow> waddr_at R i < pr_n R"
  by (auto simp: waddr_at_def st_addr_def run_ok_def intro: addr_from_less)

lemma raddr_less: "run_ok R m \<Longrightarrow> raddr_at R i j < pr_n R"
  by (auto simp: raddr_at_def run_ok_def intro: addr_from_less)

lemma raw_at_eq:
  "raw_at R i = posme_hash (pr_h R) [trans_at R i, i2osp (Suc i), cursor_at R i, root_at R (Suc i)]"
  by (simp add: raw_at_def st_trans_def st_arena_at cursor_at_def root_at_def)

lemma arena_at_length: "length (arena_at R i) = pr_n R" by simp

lemma light_step_run:
  assumes "run_ok R m"
  shows "posme_step_light (pr_h R) (arena_at R i) (merkle_build (pr_h R) (arena_at R i)) (trans_at R i) (Suc i) (pr_d R) =
     (arena_at R (Suc i), merkle_build (pr_h R) (arena_at R (Suc i)),
      \<lparr>sr_write_addr = waddr_at R i, sr_root_after = root_at R (Suc i), sr_transcript = raw_at R i\<rparr>)"
proof -
  have "waddr_at R i < length (arena_at R i)" using waddr_less [OF assms] by simp
  then have u: "merkle_update (pr_h R) (waddr_at R i) b (merkle_build (pr_h R) (arena_at R i)) =
      merkle_build (pr_h R) ((arena_at R i)[waddr_at R i := b])" for b
    by (rule merkle_update_build)
  have st: "light_reads (pr_h R) (arena_at R i) (trans_at R i) (pr_d R) = cursor_at R i"
    "addr_from (pr_h R) (cursor_at R i) (pr_d R) (pr_n R) = waddr_at R i"
    "written_block (pr_h R) (arena_at R i ! waddr_at R i) (cursor_at R i) (Suc i) = wblock_at R i"
    by (simp_all add: cursor_at_def waddr_at_def wblock_at_def st_cursor_def st_addr_def st_block_def)
  show ?thesis
    by (simp add: posme_step_light_def Let_def st u root_at_def raw_at_eq flip: arena_at_Suc)
qed

subsection \<open>The recording step\<close>

lemma full_reads_spec:
  assumes "j \<le> MAX_READS"
  shows "\<exists>as bs. full_reads h arena t j = (light_reads h arena t j, as, bs) \<and>
    length as = MAX_READS \<and> length bs = MAX_READS \<and>
    take j as = map (\<lambda>x. addr_from h (light_reads h arena t x) x (length arena)) [0 ..< j] \<and>
    take j bs = map (\<lambda>x. arena ! addr_from h (light_reads h arena t x) x (length arena)) [0 ..< j]"
  using assms
proof (induction j)
  case (Suc j)
  then obtain as bs where ih: "full_reads h arena t j = (light_reads h arena t j, as, bs)"
    "length as = MAX_READS" "length bs = MAX_READS"
    "take j as = map (\<lambda>x. addr_from h (light_reads h arena t x) x (length arena)) [0 ..< j]"
    "take j bs = map (\<lambda>x. arena ! addr_from h (light_reads h arena t x) x (length arena)) [0 ..< j]"
    by auto
  with Suc.prems show ?case by (simp add: Let_def take_Suc_conv_app_nth)
qed simp

definition log_at :: "posme_run \<Rightarrow> nat \<Rightarrow> step_log \<Rightarrow> bool" where
  "log_at R i l \<longleftrightarrow> sl_step_id l = Suc i \<and> read_addrs l = raddrs_at R i \<and>
     read_blocks l = map ((!) (arena_at R i)) (raddrs_at R i) \<and> sl_write_addr l = waddr_at R i \<and>
     sl_old_block l = arena_at R i ! waddr_at R i \<and> sl_new_block l = wblock_at R i \<and>
     sl_cursor l = cursor_at R i \<and> sl_root_before l = root_at R i \<and>
     sl_root_after l = root_at R (Suc i) \<and> sl_transcript l = raw_at R i"

lemma full_step_run:
  assumes "run_ok R m"
  shows "\<exists>l. posme_step (pr_h R) (arena_at R i) (merkle_build (pr_h R) (arena_at R i)) (trans_at R i) (Suc i) (pr_d R) =
     (arena_at R (Suc i), merkle_build (pr_h R) (arena_at R (Suc i)), l) \<and> log_at R i l"
proof -
  have d: "pr_d R \<le> MAX_READS" using assms by (simp add: run_ok_def)
  from full_reads_spec [OF d, of "pr_h R" "arena_at R i" "trans_at R i"] obtain as bs where
    fr: "full_reads (pr_h R) (arena_at R i) (trans_at R i) (pr_d R) = (cursor_at R i, as, bs)"
    "take (pr_d R) as = raddrs_at R i" "take (pr_d R) bs = map ((!) (arena_at R i)) (raddrs_at R i)"
    by (auto simp: raddrs_at_def raddr_at_def cursor_at_def st_cursor_def)
  note light = light_step_run [OF assms, of i, unfolded posme_step_light_def Let_def]
  have "light_reads (pr_h R) (arena_at R i) (trans_at R i) (pr_d R) = cursor_at R i"
    "addr_from (pr_h R) (cursor_at R i) (pr_d R) (pr_n R) = waddr_at R i"
    "written_block (pr_h R) (arena_at R i ! waddr_at R i) (cursor_at R i) (Suc i) = wblock_at R i"
    by (simp_all add: cursor_at_def waddr_at_def wblock_at_def st_cursor_def st_addr_def st_block_def)
  then show ?thesis using light fr(2,3)
    by (simp add: posme_step_def Let_def fr(1) log_at_def read_addrs_def read_blocks_def root_at_def raw_at_eq)
qed

subsection \<open>The last writer of a block\<close>

lemma writers_at_0:
  assumes "a < pr_n R" "writers_at R i ! a = 0"
  shows "arena_at R i ! a = arena_at R 0 ! a"
  using assms(2)
proof (induction i)
  case (Suc i)
  have "waddr_at R i \<noteq> a" using Suc.prems assms(1) by auto
  with Suc show ?case by (simp add: arena_at_Suc)
qed simp

lemma writers_at_step:
  assumes "a < pr_n R" "writers_at R i ! a = Suc w"
  shows "w < i \<and> waddr_at R w = a \<and> arena_at R i ! a = wblock_at R w"
  using assms(2)
proof (induction i)
  case 0
  then show ?case using assms(1) by simp
next
  case (Suc i)
  then show ?case using assms(1) by (cases "waddr_at R i = a") (auto simp: arena_at_Suc less_Suc_eq)
qed

subsection \<open>The execution follows the sequence\<close>

text \<open>The entanglement points after \<open>i\<close> steps.\<close>

definition point_at :: "posme_run \<Rightarrow> nat \<Rightarrow> (nat \<times> bytes) list" where
  "point_at R i =
     (case pr_es R of
        None \<Rightarrow> []
      | Some (samples, interval) \<Rightarrow>
          if interval > 0 \<and> Suc i mod interval = 0 \<and> jitter_at R i < length samples
          then [(Suc i, samples ! jitter_at R i)] else [])"

definition points_at :: "posme_run \<Rightarrow> nat \<Rightarrow> (nat \<times> bytes) list" where
  "points_at R i = concat (map (point_at R) [0 ..< i])"

text \<open>\<open>ent_at\<close> relates the entanglement context to the run; \<open>pts\<close> are its points.\<close>

definition ent_at :: "posme_run \<Rightarrow> nat \<Rightarrow> (nat \<times> bytes) list \<Rightarrow> entangle_ctx option \<Rightarrow> bool" where
  "ent_at R i pts ent \<longleftrightarrow>
     (case pr_es R of
        None \<Rightarrow> ent = None
      | Some (samples, interval) \<Rightarrow>
          ent = Some \<lparr>en_samples = samples, en_interval = interval, en_idx = jitter_at R i, en_points = pts\<rparr>)"

lemma trans_at_Suc:
  "trans_at R (Suc i) = (case point_at R i of [] \<Rightarrow> raw_at R i | (_, jh) # _ \<Rightarrow> entangle_hash (pr_h R) (raw_at R i) jh)"
  "jitter_at R (Suc i) = jitter_at R i + length (point_at R i)"
  using inject_at [of R i] by (auto simp: replay_inject_def point_at_def split: option.splits if_splits)

lemma inject_run:
  assumes "ent_at R i pts ent"
  shows "\<exists>ent'. with_entangle (maybe_inject (pr_h R) (Suc i)) ent (raw_at R i) = (ent', trans_at R (Suc i)) \<and>
      ent_at R (Suc i) (pts @ point_at R i) ent'"
    and "\<exists>ent'. with_entangle (maybe_inject_silent (pr_h R) (Suc i)) ent (raw_at R i) = (ent', trans_at R (Suc i)) \<and>
      ent_at R (Suc i) pts ent'"
  using assms
  by (auto simp: ent_at_def with_entangle_def maybe_inject_def maybe_inject_silent_def injects_def
      point_at_def trans_at_Suc Let_def split: option.splits prod.splits)

definition exec_rel :: "posme_run \<Rightarrow> nat \<Rightarrow> exec_state \<Rightarrow> bool" where
  "exec_rel R i s \<longleftrightarrow> ex_arena s = arena_at R i \<and> ex_tree s = merkle_build (pr_h R) (arena_at R i) \<and>
     ex_t s = trans_at R i \<and> ex_roots s = map (root_at R) [0 ..< Suc i] \<and> ent_at R i (points_at R i) (ex_ent s)"

lemma exec_loop_run:
  assumes "run_ok R m" "exec_rel R 0 s0"
  shows "exec_rel R i (exec_loop (pr_h R) (pr_d R) i s0)"
proof (induction i)
  case (Suc i)
  let ?s = "exec_loop (pr_h R) (pr_d R) i s0"
  from Suc inject_run(1) [of R i "points_at R i" "ex_ent ?s"] obtain ent' where
    "with_entangle (maybe_inject (pr_h R) (Suc i)) (ex_ent ?s) (raw_at R i) = (ent', trans_at R (Suc i))"
    "ent_at R (Suc i) (points_at R i @ point_at R i) ent'"
    unfolding exec_rel_def by blast
  then show ?case using Suc light_step_run [OF assms(1), of i]
    by (simp add: exec_rel_def Let_def points_at_def)
qed (use assms(2) in simp)

definition replay_rel :: "posme_run \<Rightarrow> nat \<Rightarrow> replay_state \<Rightarrow> bool" where
  "replay_rel R i s \<longleftrightarrow> rp_arena s = arena_at R i \<and> rp_tree s = merkle_build (pr_h R) (arena_at R i) \<and>
     rp_t s = trans_at R i \<and> rp_wi s = writers_at R i \<and> rp_step s = i \<and> ent_at R i [] (rp_ent s)"

lemma replay_light_run:
  assumes "run_ok R m" "replay_rel R i s"
  shows "replay_rel R (Suc i) (replay_light (pr_h R) (pr_d R) s)"
proof -
  from assms(2) inject_run(2) [of R i "[]" "rp_ent s"] obtain ent' where
    "with_entangle (maybe_inject_silent (pr_h R) (Suc i)) (rp_ent s) (raw_at R i) = (ent', trans_at R (Suc i))"
    "ent_at R (Suc i) [] ent'"
    unfolding replay_rel_def by blast
  then show ?thesis using assms(2) light_step_run [OF assms(1), of i]
    by (simp add: replay_rel_def replay_light_def Let_def write_record_def)
qed

lemma replay_to_run:
  assumes "run_ok R m" "replay_rel R i s" "i < target"
  shows "replay_rel R (target - 1) (replay_to (pr_h R) (pr_d R) target s)"
  using assms(2,3)
proof (induction "target - i" arbitrary: i s rule: less_induct)
  case less
  have i: "rp_step s = i" using less.prems by (simp add: replay_rel_def)
  show ?case
  proof (cases "i < target - 1")
    case True
    then have "replay_rel R (target - 1) (replay_to (pr_h R) (pr_d R) target (replay_light (pr_h R) (pr_d R) s))"
      using less.prems replay_light_run [OF assms(1)] by (intro less.hyps [of "Suc i"]) auto
    then show ?thesis using True i by (simp add: replay_to.simps [of _ _ _ s])
  next
    case False
    then have "i = target - 1" using less.prems(2) by simp
    then show ?thesis using less.prems i by (simp add: replay_to.simps [of _ _ _ s])
  qed
qed

text \<open>The proof of step \<open>i + 1\<close> of the run, with no nested witnesses.\<close>

definition reads_at :: "posme_run \<Rightarrow> nat \<Rightarrow> read_witness list" where
  "reads_at R i = map (\<lambda>a. \<lparr>rw_address = a, rw_block = arena_at R i ! a,
     rw_merkle_path = merkle_prove (merkle_build (pr_h R) (arena_at R i)) a\<rparr>) (raddrs_at R i)"

definition write_at_step :: "posme_run \<Rightarrow> nat \<Rightarrow> write_witness" where
  "write_at_step R i = \<lparr>ww_address = waddr_at R i, ww_old_block = arena_at R i ! waddr_at R i,
     ww_new_block = wblock_at R i,
     ww_merkle_path = merkle_prove (merkle_build (pr_h R) (arena_at R i)) (waddr_at R i)\<rparr>"

definition proof_with :: "posme_run \<Rightarrow> root_chain \<Rightarrow> nat \<Rightarrow> writer_proof list \<Rightarrow> step_proof" where
  "proof_with R rc i ws =
     StepProof (Suc i) (trans_at R i) (cursor_at R i) (root_at R i) (root_at R (Suc i))
       (root_chain_prove rc i, root_chain_prove rc (Suc i)) (reads_at R i) (write_at_step R i) ws"

definition writers_of :: "posme_run \<Rightarrow> nat \<Rightarrow> writer_proof list" where
  "writers_of R i =
     map (writer_entry (writers_at R (Suc i)) (merkle_build (pr_h R) (arena_at R 0))) (raddrs_at R i)"

lemma build_step_run:
  assumes "log_at R i l"
  shows "build_step_proof l (merkle_build (pr_h R) (arena_at R i)) (trans_at R i) rc (writers_at R (Suc i))
      (merkle_build (pr_h R) (arena_at R 0)) = proof_with R rc i (writers_of R i)"
  using assms
  by (simp add: build_step_proof_def log_at_def proof_with_def reads_at_def write_at_step_def writers_of_def
      zip_map2 zip_same_conv_map)

lemma replay_challenge_run:
  assumes "run_ok R m" "replay_rel R i s"
  shows "\<exists>s'. replay_challenge (pr_h R) (pr_d R) rc (merkle_build (pr_h R) (arena_at R 0)) s =
      (s', proof_with R rc i (writers_of R i)) \<and> replay_rel R (Suc i) s'"
proof -
  from assms(2) inject_run(2) [of R i "[]" "rp_ent s"] obtain ent' where ent:
    "with_entangle (maybe_inject_silent (pr_h R) (Suc i)) (rp_ent s) (raw_at R i) = (ent', trans_at R (Suc i))"
    "ent_at R (Suc i) [] ent'"
    unfolding replay_rel_def by blast
  from full_step_run [OF assms(1), of i] obtain l where l:
    "posme_step (pr_h R) (arena_at R i) (merkle_build (pr_h R) (arena_at R i)) (trans_at R i) (Suc i) (pr_d R) =
      (arena_at R (Suc i), merkle_build (pr_h R) (arena_at R (Suc i)), l)" "log_at R i l"
    by blast
  have w: "(writers_at R i)[waddr_at R i := Suc i] = writers_at R (Suc i)" by simp
  have log: "sl_transcript l = raw_at R i" "sl_write_addr l = waddr_at R i" using l(2) by (simp_all add: log_at_def)
  show ?thesis using assms(2) ent
    unfolding replay_challenge_def replay_rel_def Let_def
    by (simp add: l(1) log write_record_def build_step_run [OF l(2)] w del: writers_at.simps)
qed

lemma replay_all_run:
  assumes "run_ok R m" "replay_rel R i s" "sorted_wrt (<) (map snd cs)" "\<forall>c \<in> set cs. i < snd c"
  shows "replay_all (pr_h R) (pr_d R) rc (merkle_build (pr_h R) (arena_at R 0)) cs s =
    map (\<lambda>(og, t). (og, proof_with R rc (t - 1) (writers_of R (t - 1)))) cs"
  using assms(2-4)
proof (induction cs arbitrary: i s)
  case (Cons c cs)
  obtain og target where c: "c = (og, target)" by fastforce
  have r: "replay_rel R (target - 1) (replay_to (pr_h R) (pr_d R) target s)"
    using Cons.prems c by (intro replay_to_run [OF assms(1)]) auto
  from replay_challenge_run [OF assms(1) r, of rc] obtain s' where s':
    "replay_challenge (pr_h R) (pr_d R) rc (merkle_build (pr_h R) (arena_at R 0)) (replay_to (pr_h R) (pr_d R) target s) =
      (s', proof_with R rc (target - 1) (writers_of R (target - 1)))" "replay_rel R (Suc (target - 1)) s'"
    by blast
  have "i < target" using Cons.prems c by simp
  then have t: "replay_rel R target s'" using s'(2) by simp
  have "\<forall>x \<in> set cs. target < snd x" using Cons.prems(2) c by auto
  from Cons.IH [OF t _ this] show ?case using Cons.prems(2) c s'(1) by simp
qed simp

end
