(* ===== verification/Posme_Correct.thy ===== *)
theory Posme_Correct
  imports Posme_Run
begin

text \<open>
  The verifier accepts what the prover makes: each check of \<open>verify_step\<close> on the proof of a step
  of the run, the recursive writer proofs, the links between challenged steps, the initial
  witnesses, and the loops that derive the challenges and the witness indices.
\<close>

subsection \<open>Checks of one step\<close>

lemma require_path_run:
  assumes "run_ok R m" "a < pr_n R" "b = arena_at R i ! a"
    and "p = merkle_prove (merkle_build (pr_h R) (arena_at R i)) a"
  shows "require_path (pr_h R) st (root_at R i) a b p (pr_n R) = Inr ()"
  using arena.complete [of "arena_at R i" m a "pr_h R"] assms
  by (simp add: run_ok_def require_path_def root_at_def)

lemma verify_read_paths_run:
  assumes "run_ok R m"
  shows "verify_read_paths (pr_h R) st (root_at R i) (pr_n R) (reads_at R i) = Inr ()"
proof -
  have "verify_read_paths (pr_h R) st (root_at R i) (pr_n R)
      (map (\<lambda>a. \<lparr>rw_address = a, rw_block = arena_at R i ! a,
         rw_merkle_path = merkle_prove (merkle_build (pr_h R) (arena_at R i)) a\<rparr>) as) = Inr ()"
    if "\<forall>a \<in> set as. a < pr_n R" for as
    using that by (induction as) (simp_all add: require_path_run [OF assms])
  moreover have "\<forall>a \<in> set (raddrs_at R i). a < pr_n R"
    using raddr_less [OF assms] by (auto simp: raddrs_at_def)
  ultimately show ?thesis by (simp add: reads_at_def)
qed

lemma verify_read_addrs_run:
  "verify_read_addrs (pr_h R) st (pr_n R) 0 (trans_at R i) (reads_at R i) = Inr (cursor_at R i)"
proof -
  let ?l = "light_reads (pr_h R) (arena_at R i) (trans_at R i)"
  let ?rd = "\<lambda>a. \<lparr>rw_address = a, rw_block = arena_at R i ! a,
         rw_merkle_path = merkle_prove (merkle_build (pr_h R) (arena_at R i)) a\<rparr>"
  have "verify_read_addrs (pr_h R) st (pr_n R) j (?l j) (map ?rd (map (raddr_at R i) [j ..< d])) = Inr (?l d)"
    if "j \<le> d" for j d
    using that
  proof (induction "d - j" arbitrary: j)
    case (Suc x)
    then have "j < d" by simp
    moreover from this have "verify_read_addrs (pr_h R) st (pr_n R) (Suc j) (?l (Suc j))
        (map ?rd (map (raddr_at R i) [Suc j ..< d])) = Inr (?l d)"
      using Suc by (intro Suc(1)) auto
    ultimately show ?case by (simp add: upt_conv_Cons Let_def raddr_at_def)
  qed simp
  from this [of 0 "pr_d R"] show ?thesis
    by (simp add: reads_at_def raddrs_at_def cursor_at_def st_cursor_def)
qed

lemma verify_write_run:
  assumes "run_ok R m"
  shows "verify_symbiotic_write (pr_h R) (proof_with R rc i ws) (Suc i) (pr_n R) (pr_d R) (cursor_at R i) = Inr ()"
proof -
  have w: "waddr_at R i < pr_n R" by (rule waddr_less [OF assms])
  have a: "addr_from (pr_h R) (cursor_at R i) (pr_d R) (pr_n R) = waddr_at R i"
    by (simp add: waddr_at_def st_addr_def cursor_at_def)
  have "merkle_prove (merkle_build (pr_h R) (arena_at R i)) (waddr_at R i) =
      merkle_prove (merkle_build (pr_h R) (arena_at R (Suc i))) (waddr_at R i)"
    using assms w by (simp add: arena_at_Suc merkle_prove_update run_ok_def)
  then have "require_path (pr_h R) (Suc i) (root_at R (Suc i)) (waddr_at R i) (wblock_at R i)
      (merkle_prove (merkle_build (pr_h R) (arena_at R i)) (waddr_at R i)) (pr_n R) = Inr ()"
    using w by (intro require_path_run [OF assms]) (simp_all add: arena_at_Suc)
  moreover have "require_path (pr_h R) (Suc i) (root_at R i) (waddr_at R i) (arena_at R i ! waddr_at R i)
      (merkle_prove (merkle_build (pr_h R) (arena_at R i)) (waddr_at R i)) (pr_n R) = Inr ()"
    using w by (intro require_path_run [OF assms]) simp_all
  moreover have "b_data (wblock_at R i) = posme_hash (pr_h R) [b_data (arena_at R i ! waddr_at R i), cursor_at R i,
      b_causal (arena_at R i ! waddr_at R i)]"
    "b_causal (wblock_at R i) = posme_hash (pr_h R) [b_causal (arena_at R i ! waddr_at R i), cursor_at R i,
      i2osp (Suc i)]"
    by (simp_all add: wblock_at_def st_block_def written_block_def cursor_at_def waddr_at_def)
  ultimately show ?thesis
    by (simp add: verify_symbiotic_write_def Let_def proof_with_def write_at_step_def a)
qed

lemma verify_writers_all:
  "list_all2 (\<lambda>rd w. verify_writer h vrec root_0 n st rd w = Inr ()) rds ws \<Longrightarrow>
    verify_writers h vrec root_0 n st rds ws = Inr ()"
  by (induction rule: list_all2_induct) auto

subsection \<open>Entanglement points\<close>

lemma point_at_cases: "point_at R i = [] \<or> (\<exists>jh. point_at R i = [(Suc i, jh)])"
  by (auto simp: point_at_def split: option.split)

lemma points_at_Suc: "points_at R (Suc i) = points_at R i @ point_at R i"
  by (simp add: points_at_def)

lemma points_at_keys: "x \<in> set (points_at R i) \<Longrightarrow> 0 < fst x \<and> fst x \<le> i"
proof (induction i)
  case (Suc i)
  then show ?case using point_at_cases [of R i] by (auto simp: points_at_Suc)
qed (simp add: points_at_def)

lemma distinct_points_at: "distinct (map fst (points_at R i))"
proof (induction i)
  case (Suc i)
  then show ?case using point_at_cases [of R i] points_at_keys [of _ R i] by (fastforce simp: points_at_Suc)
qed (simp add: points_at_def)

lemma map_of_points_at:
  "i < k \<Longrightarrow> map_of (points_at R k) (Suc i) = (case point_at R i of [] \<Rightarrow> None | (_, jh) # _ \<Rightarrow> Some jh)"
proof (induction k)
  case (Suc k)
  show ?case
  proof (cases "i = k")
    case True
    have "map_of (points_at R k) (Suc k) = None"
      using points_at_keys [of _ R k] by (force simp: map_of_eq_None_iff)
    then show ?thesis using True point_at_cases [of R k]
      by (auto simp: points_at_Suc map_add_def split: option.split)
  next
    case False
    then have "map_of (points_at R k) (Suc i) = (case point_at R i of [] \<Rightarrow> None | (_, jh) # _ \<Rightarrow> Some jh)"
      using Suc by simp
    moreover have "map_of (point_at R k) (Suc i) = None" using False point_at_cases [of R k] by auto
    ultimately show ?thesis by (auto simp: points_at_Suc map_add_def split: list.split)
  qed
qed simp

lemma entangle_map_spec:
  assumes "distinct (map fst pts)"
  shows "map_of (entangle_map pts) = map_of pts" "length (entangle_map pts) = length pts"
proof -
  have inv: "sorted_wrt (<) (map fst (entangle_map pts)) \<and> fst ` set (entangle_map pts) = fst ` set pts \<and>
      map_of (entangle_map pts) = map_of pts"
    using assms
  proof (induction pts rule: rev_induct)
    case (snoc x pts)
    have "entangle_map (pts @ [x]) = bt_insert (fst x) (snd x) (entangle_map pts)"
      by (simp add: entangle_map_def split_beta)
    moreover have "map_of (pts @ [x]) = (map_of pts)(fst x \<mapsto> snd x)"
    proof
      have "map_of pts (fst x) = None" using snoc.prems by (simp add: map_of_eq_None_iff)
      then show "map_of (pts @ [x]) a = ((map_of pts)(fst x \<mapsto> snd x)) a" for a
        by (cases x) (simp add: map_add_def split: option.split)
    qed
    ultimately show ?case using snoc by (simp add: sorted_bt_insert set_keys_bt_insert map_of_bt_insert)
  qed (simp add: entangle_map_def)
  then show "map_of (entangle_map pts) = map_of pts" by blast
  have "distinct (map fst (entangle_map pts))" using inv strict_sorted_imp_sorted strict_sorted_iff by blast
  then have "length (entangle_map pts) = card (fst ` set (entangle_map pts))"
    by (metis distinct_card length_map list.set_map)
  also have "\<dots> = length pts" using inv assms by (metis distinct_card length_map list.set_map)
  finally show "length (entangle_map pts) = length pts" .
qed

lemma final_expected_run: "final_expected (pr_h R) (Suc i) (points_at R (Suc i)) (raw_at R i) = trans_at R (Suc i)"
proof -
  have "foldl (\<lambda>acc (ep, jh). if ep = Suc i then entangle_hash (pr_h R) acc jh else acc) t pts = t"
    if "\<forall>x \<in> set pts. fst x \<noteq> Suc i" for t pts
    using that by (induction pts arbitrary: t) auto
  then have "final_expected (pr_h R) (Suc i) (points_at R i) t = t" for t
    using points_at_keys [of _ R i] by (fastforce simp: final_expected_def)
  then show ?thesis using point_at_cases [of R i]
    by (auto simp: points_at_Suc final_expected_def trans_at_Suc)
qed

subsection \<open>A step of the run is accepted\<close>

text \<open>\<open>proof_of\<close> says that the proof object at hand carries the run's data up to step \<open>k\<close>.\<close>

definition chain_of :: "posme_run \<Rightarrow> nat \<Rightarrow> root_chain" where
  "chain_of R k = root_chain_build (pr_h R) (map (root_at R) [0 ..< Suc k])"

definition proof_of :: "posme_run \<Rightarrow> nat \<Rightarrow> posme_proof \<Rightarrow> verify_ctx \<Rightarrow> bool" where
  "proof_of R k p c \<longleftrightarrow> pp_root_chain_commitment p = root_chain_root (chain_of R k) \<and>
     pp_root_0 p = root_at R 0 \<and> pp_final_transcript p = trans_at R k \<and>
     pp_entanglement_points p = points_at R k \<and>
     vc_n c = pr_n R \<and> vc_d c = pr_d R \<and> vc_k c = k \<and> vc_total_roots c = k + 1 \<and> vc_t_0 c = trans_at R 0"

lemma root_chain_run:
  assumes "i \<le> k" "k < 2 ^ 30"
  shows "verify_root_chain_path h (root_chain_root (root_chain_build h (map f [0 ..< Suc k]))) i (f i)
    (root_chain_prove (root_chain_build h (map f [0 ..< Suc k])) i) (k + 1)"
proof -
  have "map f [0 ..< Suc k] ! i = f i" using assms(1) by (simp del: upt_Suc)
  then show ?thesis
    using chain.complete [of "map f [0 ..< Suc k]" "k + 1" i h] assms by (simp del: upt_Suc)
qed

lemma verify_step_body_run:
  assumes "run_ok R m" "proof_of R k p c" "i < k" "k < 2 ^ 30"
    and "list_all2 (\<lambda>rd w. verify_writer (pr_h R) vrec (root_at R 0) (pr_n R) (Suc i) rd w = Inr ())
      (reads_at R i) ws"
  shows "verify_step_body (pr_h R) p c vrec (proof_with R (chain_of R k) i ws) = Inr (raw_at R i)"
proof -
  let ?sp = "proof_with R (chain_of R k) i ws"
  have len: "length ws = length (reads_at R i)" using assms(5) by (simp add: list_all2_lengthD)
  have rc: "verify_root_chain_path (pr_h R) (root_chain_root (chain_of R k)) j (root_at R j)
      (root_chain_prove (chain_of R k) j) (k + 1)" if "j \<le> k" for j
    unfolding chain_of_def using that assms(4) by (rule root_chain_run)
  have fin: "final_expected (pr_h R) (Suc i) (points_at R k) (raw_at R i) = trans_at R k" if "Suc i = k"
    using final_expected_run [of R i] that by simp
  have wr: "verify_symbiotic_write (pr_h R) ?sp (Suc i) (pr_n R) (pr_d R) (cursor_at R i) = Inr ()"
    by (rule verify_write_run [OF assms(1)])
  have sel: "sp_step_id ?sp = Suc i" "sp_cursor_in ?sp = trans_at R i" "sp_root_before ?sp = root_at R i"
    "sp_root_after ?sp = root_at R (Suc i)" "sp_reads ?sp = reads_at R i" "sp_writers ?sp = ws"
    "sp_root_chain_paths ?sp = (root_chain_prove (chain_of R k) i, root_chain_prove (chain_of R k) (Suc i))"
    by (simp_all add: proof_with_def)
  note p = assms(2) [unfolded proof_of_def]
  have t0: "0 < i \<or> trans_at R i = trans_at R 0" by (cases i) auto
  show ?thesis
    unfolding verify_step_body_def sel Let_def
    using p rc [of i] rc [of "Suc i"] assms(3) fin wr len t0
    by (simp add: verify_read_paths_run [OF assms(1)] verify_read_addrs_run verify_writers_all [OF assms(5)]
        flip: raw_at_eq)
qed

subsection \<open>Nested writer proofs\<close>

text \<open>The proof of step \<open>i + 1\<close> with witnesses nested \<open>r\<close> deep.\<close>

fun expand :: "posme_run \<Rightarrow> root_chain \<Rightarrow> nat \<Rightarrow> nat \<Rightarrow> step_proof" where
  "expand R rc 0 i = proof_with R rc i (writers_of R i)"
| "expand R rc (Suc r) i = proof_with R rc i (map (\<lambda>w.
     if wp_proof_type w = 1
     then WriterProof 1 (wp_writer_step_id w) (Some (expand R rc r (wp_writer_step_id w - 1))) None
     else w) (writers_of R i))"

lemma list_all2_maps: "(\<And>x. x \<in> set xs \<Longrightarrow> P (f x) (g x)) \<Longrightarrow> list_all2 P (map f xs) (map g xs)"
  by (simp add: list_all2_map1 list_all2_map2 list_all2_same)

text \<open>No step of the run reads the block that it writes.\<close>

definition no_self_read :: "posme_run \<Rightarrow> nat \<Rightarrow> bool" where
  "no_self_read R k \<longleftrightarrow> (\<forall>i < k. waddr_at R i \<notin> set (raddrs_at R i))"

lemma expand_step_id [simp]: "sp_step_id (expand R rc r i) = Suc i"
  by (cases r) (simp_all add: proof_with_def)

lemma expand_cursor_in [simp]: "sp_cursor_in (expand R rc r i) = trans_at R i"
  by (cases r) (simp_all add: proof_with_def)

lemma expand_write [simp]: "sp_write (expand R rc r i) = write_at_step R i"
  by (cases r) (simp_all add: proof_with_def)

lemma init_writer_run:
  assumes "run_ok R m" "a < pr_n R" "writers_at R (Suc i) ! a = 0"
  shows "verify_writer (pr_h R) vrec (root_at R 0) (pr_n R) st
    \<lparr>rw_address = a, rw_block = arena_at R i ! a, rw_merkle_path = p\<rparr>
    (writer_entry (writers_at R (Suc i)) (merkle_build (pr_h R) (arena_at R 0)) a) = Inr ()"
proof -
  have "waddr_at R i \<noteq> a" using assms(2,3) by auto
  then have "writers_at R i ! a = 0" using assms(3) by simp
  then have "arena_at R i ! a = arena_at R 0 ! a" by (rule writers_at_0 [OF assms(2)])
  then show ?thesis using assms(2,3)
    by (simp add: verify_writer_def writer_entry_def require_path_run [OF assms(1)])
qed

lemma expand_verified:
  assumes "run_ok R m" "proof_of R k p c" "k < 2 ^ 30" "r = 0 \<or> no_self_read R k" "i < k"
  shows "verify_step (pr_h R) p c r (expand R (chain_of R k) r i) = Inr (raw_at R i)"
  using assms(4,5)
proof (induction r arbitrary: i)
  case 0
  have "verify_writer (pr_h R) None (root_at R 0) (pr_n R) (Suc i)
      \<lparr>rw_address = a, rw_block = arena_at R i ! a, rw_merkle_path = pt\<rparr>
      (writer_entry (writers_at R (Suc i)) (merkle_build (pr_h R) (arena_at R 0)) a) = Inr ()"
    if "a \<in> set (raddrs_at R i)" for a pt
  proof (cases "writers_at R (Suc i) ! a")
    case 0
    then show ?thesis using that raddr_less [OF assms(1)] init_writer_run [OF assms(1)]
      by (auto simp: raddrs_at_def)
  qed (simp add: writer_entry_def verify_writer_def)
  then have "list_all2 (\<lambda>rd w. verify_writer (pr_h R) None (root_at R 0) (pr_n R) (Suc i) rd w = Inr ())
      (reads_at R i) (writers_of R i)"
    unfolding reads_at_def writers_of_def by (intro list_all2_maps)
  from verify_step_body_run [OF assms(1,2) 0(2) assms(3) this] show ?case by simp
next
  case (Suc r)
  then have ns: "no_self_read R k" by simp
  let ?v = "Some (verify_step (pr_h R) p c r)"
  let ?wp = "\<lambda>w. if wp_proof_type w = 1
     then WriterProof 1 (wp_writer_step_id w) (Some (expand R (chain_of R k) r (wp_writer_step_id w - 1))) None
     else w"
  have "verify_writer (pr_h R) ?v (root_at R 0) (pr_n R) (Suc i)
      \<lparr>rw_address = a, rw_block = arena_at R i ! a, rw_merkle_path = pt\<rparr>
      (?wp (writer_entry (writers_at R (Suc i)) (merkle_build (pr_h R) (arena_at R 0)) a)) = Inr ()"
    if a: "a \<in> set (raddrs_at R i)" for a pt
  proof (cases "writers_at R (Suc i) ! a")
    case 0
    then show ?thesis using that raddr_less [OF assms(1)] init_writer_run [OF assms(1)]
      by (auto simp: raddrs_at_def writer_entry_def)
  next
    case (Suc w)
    have n: "a < pr_n R" using a raddr_less [OF assms(1)] by (auto simp: raddrs_at_def)
    have "waddr_at R i \<noteq> a" using ns a Suc.prems(2) by (auto simp: no_self_read_def)
    then have "writers_at R i ! a = Suc w" using \<open>writers_at R (Suc i) ! a = Suc w\<close> by simp
    from writers_at_step [OF n this] have w: "w < i" "waddr_at R w = a" "arena_at R i ! a = wblock_at R w"
      by auto
    have "verify_step (pr_h R) p c r (expand R (chain_of R k) r w) = Inr (raw_at R w)"
      using w(1) Suc.prems(2) ns by (intro Suc.IH) auto
    then show ?thesis using \<open>writers_at R (Suc i) ! a = Suc w\<close> w
      by (simp add: writer_entry_def verify_writer_def write_at_step_def del: writers_at.simps)
  qed
  then have "list_all2 (\<lambda>rd w. verify_writer (pr_h R) ?v (root_at R 0) (pr_n R) (Suc i) rd w = Inr ())
      (reads_at R i) (map ?wp (writers_of R i))"
    unfolding reads_at_def writers_of_def map_map comp_def by (intro list_all2_maps)
  from verify_step_body_run [OF assms(1,2) Suc.prems(2) assms(3) this] show ?case by simp
qed

subsection \<open>Attaching the writer proofs\<close>

definition writer_rel :: "posme_run \<Rightarrow> root_chain \<Rightarrow> nat set \<Rightarrow> nat \<Rightarrow> writer_replay \<Rightarrow> bool" where
  "writer_rel R rc targets i s \<longleftrightarrow> wr_arena s = arena_at R i \<and> wr_tree s = merkle_build (pr_h R) (arena_at R i) \<and>
     wr_t s = trans_at R i \<and> wr_wi s = writers_at R i \<and> wr_jitter_idx s = jitter_at R i \<and>
     wr_results s = (\<lambda>t. if t \<in> targets \<and> 0 < t \<and> t \<le> i then Some (expand R rc 0 (t - 1)) else None)"

lemma writer_replay_step_run:
  assumes "run_ok R m" "writer_rel R rc targets i s"
  shows "writer_rel R rc targets (Suc i)
    (writer_replay_step (pr_h R) (pr_d R) rc (merkle_build (pr_h R) (arena_at R 0)) targets (pr_es R) (Suc i) s)"
proof (cases "Suc i \<in> targets")
  case True
  from full_step_run [OF assms(1), of i] obtain l where l:
    "posme_step (pr_h R) (arena_at R i) (merkle_build (pr_h R) (arena_at R i)) (trans_at R i) (Suc i) (pr_d R) =
      (arena_at R (Suc i), merkle_build (pr_h R) (arena_at R (Suc i)), l)" "log_at R i l"
    by blast
  then have log: "sl_transcript l = raw_at R i" "sl_write_addr l = waddr_at R i" by (simp_all add: log_at_def)
  have w: "(writers_at R i)[waddr_at R i := Suc i] = writers_at R (Suc i)" by simp
  show ?thesis using assms(2) True
    unfolding writer_rel_def writer_replay_step_def Let_def
    by (auto simp: l(1) log write_record_def build_step_run [OF l(2)] w inject_at fun_eq_iff le_Suc_eq
        simp del: writers_at.simps)
next
  case False
  then show ?thesis using assms(2)
    by (auto simp: writer_rel_def writer_replay_step_def Let_def light_step_run [OF assms(1)] write_record_def
        inject_at fun_eq_iff le_Suc_eq)
qed

lemma writer_replay_loop_run:
  assumes "run_ok R m" "writer_rel R rc targets 0 s"
  shows "writer_rel R rc targets i
    (writer_replay_loop (pr_h R) (pr_d R) rc (merkle_build (pr_h R) (arena_at R 0)) targets (pr_es R) i s)"
  by (induction i) (use assms writer_replay_step_run in auto)

lemma replay_for_writer_proofs_run:
  assumes "run_ok R m" "finite targets" "t \<in> targets" "0 < t" "arena_blocks p = pr_n R" "reads_per_step p = pr_d R"
  shows "replay_for_writer_proofs (pr_h R) (pr_seed R) p rc targets (pr_es R) t = Some (expand R rc 0 (t - 1))"
proof -
  let ?s = "\<lparr>wr_arena = arena_at R 0, wr_tree = merkle_build (pr_h R) (arena_at R 0), wr_t = trans_at R 0,
    wr_wi = replicate (pr_n R) 0, wr_jitter_idx = 0, wr_results = Map.empty\<rparr>"
  have "writer_rel R rc targets 0 ?s" by (auto simp: writer_rel_def)
  from writer_replay_loop_run [OF assms(1) this, of "Max targets"] have
    "wr_results (writer_replay_loop (pr_h R) (pr_d R) rc (merkle_build (pr_h R) (arena_at R 0)) targets (pr_es R)
      (Max targets) ?s) t = Some (expand R rc 0 (t - 1))"
    using assms(2-4) Max_ge [of targets t] by (simp add: writer_rel_def)
  then show ?thesis using assms(3,5,6) by (auto simp: replay_for_writer_proofs_def Let_def initialize_run)
qed

text \<open>The last writers that a step's proof names, and those not proved at nesting depth \<open>r\<close>.\<close>

definition named :: "posme_run \<Rightarrow> nat \<Rightarrow> nat set" where
  "named R i = {w \<in> (\<lambda>a. writers_at R (Suc i) ! a) ` set (raddrs_at R i). 0 < w}"

primrec unproved :: "posme_run \<Rightarrow> nat \<Rightarrow> nat \<Rightarrow> nat set" where
  "unproved R 0 i = named R i"
| "unproved R (Suc r) i = (\<Union>w \<in> named R i. unproved R r (w - 1))"

lemma finite_unproved [simp]: "finite (unproved R r i)"
  by (induction r arbitrary: i) (auto simp: named_def)

lemma unproved_pos: "w \<in> unproved R r i \<Longrightarrow> 0 < w"
  by (induction r arbitrary: i) (auto simp: named_def)

lemma collect_expand: "collect_unproved_writers (expand R rc r i) out = out \<union> unproved R r i"
proof (induction r arbitrary: i out)
  case 0
  have "collect_writers (map (writer_entry wi tr) as) out = out \<union> {w \<in> (!) wi ` set as. 0 < w}" for wi tr as out
    by (induction as arbitrary: out) (auto simp: writer_entry_def Let_def)
  then show ?case by (simp add: proof_with_def writers_of_def named_def del: writers_at.simps)
next
  case (Suc r)
  have "collect_writers (map (\<lambda>w. if wp_proof_type w = 1
      then WriterProof 1 (wp_writer_step_id w) (Some (expand R rc r (wp_writer_step_id w - 1))) None else w)
      (map (writer_entry wi tr) as)) out =
      out \<union> (\<Union>w \<in> {w \<in> (!) wi ` set as. 0 < w}. unproved R r (w - 1))" for wi tr as out
    by (induction as arbitrary: out) (auto simp: writer_entry_def Let_def Suc)
  then show ?case by (simp add: proof_with_def writers_of_def named_def del: writers_at.simps map_map)
qed

lemma attach_expand:
  assumes "\<And>w. w \<in> unproved R r i \<Longrightarrow> pf w = Some (expand R rc 0 (w - 1))"
  shows "attach_writer_proofs pf (expand R rc r i) = expand R rc (Suc r) i"
  using assms
proof (induction r arbitrary: i)
  case 0
  have "attach_writer pf w = (if wp_proof_type w = 1
      then WriterProof 1 (wp_writer_step_id w) (Some (expand R rc 0 (wp_writer_step_id w - 1))) None else w)"
    if "w \<in> set (writers_of R i)" for w
    using that 0 by (auto simp: writers_of_def writer_entry_def Let_def named_def simp del: writers_at.simps)
  then show ?case by (simp add: proof_with_def)
next
  case (Suc r)
  let ?x = "\<lambda>r w. if wp_proof_type w = 1
      then WriterProof 1 (wp_writer_step_id w) (Some (expand R rc r (wp_writer_step_id w - 1))) None else w"
  have "attach_writer pf (?x r w) = ?x (Suc r) w" if w: "w \<in> set (writers_of R i)" for w
  proof (cases "wp_proof_type w = 1")
    case True
    then have "wp_writer_step_id w \<in> named R i"
      using w by (auto simp: writers_of_def writer_entry_def Let_def named_def simp del: writers_at.simps split: if_splits)
    then have "attach_writer_proofs pf (expand R rc r (wp_writer_step_id w - 1)) =
        expand R rc (Suc r) (wp_writer_step_id w - 1)"
      using Suc.prems by (intro Suc.IH) auto
    then show ?thesis using True by (simp del: expand.simps)
  next
    case False
    then show ?thesis
      using w by (auto simp: writers_of_def writer_entry_def Let_def simp del: writers_at.simps split: if_splits)
  qed
  then show ?case by (simp add: proof_with_def)
qed

lemma unproved_empty:
  "unproved R r i = {} \<Longrightarrow> expand R rc (Suc r) i = expand R rc r i \<and> unproved R (Suc r) i = {}"
proof (induction r arbitrary: i)
  case 0
  have "wp_proof_type w \<noteq> 1" if "w \<in> set (writers_of R i)" for w
    using that 0 by (auto simp: writers_of_def writer_entry_def Let_def named_def simp del: writers_at.simps split: if_splits)
  then have "expand R rc (Suc 0) i = expand R rc 0 i"
    by (auto simp: proof_with_def intro!: map_idI)
  then show ?case using 0 by simp
next
  case (Suc r)
  have "expand R rc (Suc r) (wp_writer_step_id w - 1) = expand R rc r (wp_writer_step_id w - 1)"
    if "w \<in> set (writers_of R i)" "wp_proof_type w = 1" for w
  proof -
    have "wp_writer_step_id w \<in> named R i"
      using that by (auto simp: writers_of_def writer_entry_def Let_def named_def simp del: writers_at.simps split: if_splits)
    then show ?thesis using Suc by auto
  qed
  then have "expand R rc (Suc (Suc r)) i = expand R rc (Suc r) i"
    by (auto simp: proof_with_def simp del: expand.simps(2) simp: expand.simps(2) [of _ _ "Suc r" i]
        expand.simps(2) [of _ _ r i])
  then show ?case using Suc by auto
qed

lemma expand_stable: "unproved R r i = {} \<Longrightarrow> expand R rc (r + s) i = expand R rc r i"
  using unproved_empty [of R _ i rc]
proof (induction s)
  case (Suc s)
  have "unproved R (r + s') i = {}" for s'
    by (induction s') (use Suc.prems(1) unproved_empty [of R _ i rc] in \<open>simp_all del: unproved.simps\<close>)
  then show ?case using Suc unproved_empty [of R "r + s" i rc] by (simp del: expand.simps(2))
qed simp

lemma attach_recursive_run:
  assumes "run_ok R m" "arena_blocks p = pr_n R" "reads_per_step p = pr_d R"
  shows "attach_recursive_writers (pr_h R) (pr_seed R) p rc (pr_es R) rounds (map (expand R rc r) is) =
    map (expand R rc (r + rounds)) is"
proof (induction rounds arbitrary: r)
  case (Suc rounds)
  define needed where "needed = (\<Union>i \<in> set is. unproved R r i)"
  have "foldl (\<lambda>out sp. collect_unproved_writers sp out) out (map (expand R rc r) is) =
      out \<union> (\<Union>i \<in> set is. unproved R r i)" for out
    by (induction "is" arbitrary: out) (auto simp: collect_expand)
  then have fold: "foldl (\<lambda>out sp. collect_unproved_writers sp out) {} (map (expand R rc r) is) = needed"
    by (simp add: needed_def)
  show ?case
  proof (cases "needed = {}")
    case True
    then have "expand R rc (r + Suc rounds) i = expand R rc r i" if "i \<in> set is" for i
      using that by (intro expand_stable) (auto simp: needed_def)
    then show ?thesis using True by (simp add: fold del: expand.simps(2))
  next
    case False
    let ?pf = "replay_for_writer_proofs (pr_h R) (pr_seed R) p rc needed (pr_es R)"
    have fin: "finite needed" by (auto simp: needed_def)
    have "map (attach_writer_proofs ?pf) (map (expand R rc r) is) = map (expand R rc (Suc r)) is"
    proof (simp del: expand.simps(2), intro ballI attach_expand)
      fix i w assume "i \<in> set is" "w \<in> unproved R r i"
      then show "?pf w = Some (expand R rc 0 (w - 1))"
        using unproved_pos by (intro replay_for_writer_proofs_run [OF assms(1) fin _ _ assms(2,3)])
          (auto simp: needed_def)
    qed
    then show ?thesis using False Suc [of "Suc r"] by (simp add: fold del: expand.simps(2) map_map)
  qed
qed simp

end
