(* ===== verification/Posme_Complete.thy ===== *)
theory Posme_Complete
  imports Posme_Correct
begin

text \<open>
  The prover's loops end, and a whole proof is accepted: the initial witnesses, the challenges,
  the challenged steps in their order and the links between them.
\<close>

subsection \<open>The loops of the derivations end\<close>

text \<open>The challenges among the first \<open>M\<close> words of a stream.\<close>

definition stream_steps :: "(nat \<Rightarrow> byte) \<Rightarrow> nat \<Rightarrow> nat \<Rightarrow> nat set" where
  "stream_steps stream k M =
     (\<lambda>j. xof_word stream (4 * j) mod k + 1) ` {j. j < M \<and> (2 ^ 32 - 1 - k + 1) mod k \<le> xof_word stream (4 * j)}"

lemma stream_steps_Suc:
  "stream_steps stream k (Suc M) =
     (if (2 ^ 32 - 1 - k + 1) mod k \<le> xof_word stream (4 * M)
      then insert (xof_word stream (4 * M) mod k + 1) (stream_steps stream k M) else stream_steps stream k M)"
  by (auto simp: stream_steps_def less_Suc_eq)

lemma finite_stream_steps [simp]: "finite (stream_steps stream k M)"
  by (simp add: stream_steps_def)

lemma stream_steps_range: "0 < k \<Longrightarrow> stream_steps stream k M \<subseteq> {1..k}"
  by (auto simp: stream_steps_def Suc_le_eq)

lemma challenge_loop_ends:
  assumes "q \<le> card (stream_steps stream k M)" "c \<le> M" "set chs = stream_steps stream k c" "distinct chs"
    and "length chs \<le> q" "0 < k"
  shows "\<exists>cs. challenge_loop stream q k ((2 ^ 32 - 1 - k + 1) mod k) (4 * c) (set chs) chs = Some cs \<and>
    distinct cs \<and> length cs = q \<and> set cs \<subseteq> {1..k}"
  using assms(2-5)
proof (induction "M - c" arbitrary: c chs)
  case 0
  then have "q \<le> length chs" using assms(1) distinct_card [of chs] by auto
  then show ?case using 0 stream_steps_range [OF assms(6)]
    by (subst challenge_loop.simps) auto
next
  case (Suc x)
  let ?rej = "(2 ^ 32 - 1 - k + 1) mod k" and ?w = "xof_word stream (4 * c)"
  show ?case
  proof (cases "q \<le> length chs")
    case True
    then show ?thesis using Suc.prems stream_steps_range [OF assms(6)]
      by (subst challenge_loop.simps) auto
  next
    case False
    have pos: "4 * c + 4 = 4 * Suc c" by simp
    have x: "x = M - Suc c" "Suc c \<le> M" using Suc(2) by simp_all
    show ?thesis
    proof (cases "?w < ?rej")
      case True
      then have "\<exists>cs. challenge_loop stream q k ?rej (4 * Suc c) (set chs) chs = Some cs \<and>
          distinct cs \<and> length cs = q \<and> set cs \<subseteq> {1..k}"
        using Suc.prems x by (intro Suc(1)) (auto simp: stream_steps_Suc)
      then show ?thesis using True False
        by (subst challenge_loop.simps) (simp add: Let_def pos del: mult_Suc_right)
    next
      case ok: False
      show ?thesis
      proof (cases "?w mod k + 1 \<in> set chs")
        case True
        then have "\<exists>cs. challenge_loop stream q k ?rej (4 * Suc c) (set chs) chs = Some cs \<and>
            distinct cs \<and> length cs = q \<and> set cs \<subseteq> {1..k}"
          using Suc.prems x by (intro Suc(1)) (auto simp: stream_steps_Suc)
        then show ?thesis using True False ok
          by (subst challenge_loop.simps) (simp add: Let_def pos del: mult_Suc_right)
      next
        case new: False
        have "\<exists>cs. challenge_loop stream q k ?rej (4 * Suc c) (set (chs @ [?w mod k + 1])) (chs @ [?w mod k + 1]) =
            Some cs \<and> distinct cs \<and> length cs = q \<and> set cs \<subseteq> {1..k}"
          using Suc.prems x new ok False by (intro Suc(1)) (auto simp: stream_steps_Suc)
        then show ?thesis using new False ok
          by (subst challenge_loop.simps) (simp add: Let_def pos del: mult_Suc_right)
      qed
    qed
  qed
qed

lemma init_witness_loop_ends:
  assumes "INIT_WITNESS_COUNT \<le> card (init_index h sigma n ` {..< M})" "M < 2 ^ 32" "c \<le> M"
    and "set (map iw_index ws) = init_index h sigma n ` {..< c}" "distinct (map iw_index ws)"
  shows "\<exists>ws'. init_witness_loop h sigma tr arena n c ws = Inr ws'"
  using assms(3-5)
proof (induction "M - c" arbitrary: c ws)
  case 0
  then have "card (set (map iw_index ws)) = length ws" by (metis distinct_card length_map)
  moreover have "c = M" using 0 by simp
  ultimately have "INIT_WITNESS_COUNT \<le> length ws" using assms(1) 0(3) by simp
  then show ?case by (subst init_witness_loop.simps) simp
next
  case (Suc x)
  have x: "x = M - Suc c" "Suc c \<le> M" using Suc(2) by simp_all
  let ?i = "init_index h sigma n c"
  have mem: "list_ex (\<lambda>w. iw_index w = ?i) ws \<longleftrightarrow> ?i \<in> set (map iw_index ws)"
    by (force simp: list_ex_iff)
  have img: "init_index h sigma n ` {..< Suc c} = insert ?i (init_index h sigma n ` {..< c})"
    by (simp add: lessThan_Suc)
  show ?case
  proof (cases "?i \<in> set (map iw_index ws)")
    case True
    then have "\<exists>ws'. init_witness_loop h sigma tr arena n (Suc c) ws = Inr ws'"
      using Suc.prems x img by (intro Suc(1)) auto
    then show ?thesis using True mem x assms(2) by (subst init_witness_loop.simps) (simp add: Let_def)
  next
    case False
    let ?ws = "ws @ [\<lparr>iw_index = ?i, iw_block = arena ! ?i, iw_merkle_path = merkle_prove tr ?i\<rparr>]"
    have "\<exists>ws'. init_witness_loop h sigma tr arena n (Suc c) ?ws = Inr ws'"
      using Suc.prems x img False by (intro Suc(1)) auto
    then show ?thesis using False mem x assms(2) by (subst init_witness_loop.simps) (simp add: Let_def)
  qed
qed

subsection \<open>The initial witnesses\<close>

lemma init_loop_causal:
  "0 < i \<Longrightarrow> i \<le> j \<Longrightarrow> i < length bs \<Longrightarrow> b_causal (init_loop h seed j bs ! i) = init_causal h seed i"
proof (induction j)
  case (Suc j)
  then show ?case by (cases "i = Suc j") (auto simp: Let_def)
qed simp

lemma init_loop_0: "init_loop h seed j bs ! 0 = bs ! 0"
  by (induction j) (auto simp: Let_def)

lemma init_blocks_facts:
  assumes "0 < n"
  shows "b_data (init_blocks h seed n ! 0) = posme_hash h [DST_INIT, seed, i2osp 0]"
    and "i < n \<Longrightarrow> b_causal (init_blocks h seed n ! i) = posme_hash h [DST_CAUSAL, seed, i2osp i]"
proof -
  show "b_data (init_blocks h seed n ! 0) = posme_hash h [DST_INIT, seed, i2osp 0]"
    using assms by (simp add: init_blocks_def init_loop_0)
  show "b_causal (init_blocks h seed n ! i) = posme_hash h [DST_CAUSAL, seed, i2osp i]" if "i < n"
  proof (cases "i = 0")
    case True
    then show ?thesis using assms by (simp add: init_blocks_def init_loop_0 init_causal_def)
  next
    case False
    then show ?thesis using that by (simp add: init_blocks_def init_loop_causal init_causal_def)
  qed
qed

definition witness_ok :: "block list \<Rightarrow> merkle_tree \<Rightarrow> nat \<Rightarrow> init_witness \<Rightarrow> bool" where
  "witness_ok arena tr n w \<longleftrightarrow> iw_index w < n \<and> iw_block w = arena ! iw_index w \<and>
     iw_merkle_path w = merkle_prove tr (iw_index w)"

lemma init_witness_loop_spec:
  assumes "init_witness_loop h sigma tr arena n c ws = Inr ws'" "list_all (witness_ok arena tr n) ws" "n = 2 ^ m"
  shows "init_index_loop h sigma n c (map iw_index ws) = Inr (map iw_index ws') \<and>
    list_all (witness_ok arena tr n) ws' \<and> INIT_WITNESS_COUNT \<le> length ws'"
  using assms
proof (induction h sigma tr arena n c ws rule: init_witness_loop.induct)
  case (1 h sigma tr arena n c ws)
  let ?i = "init_index h sigma n c"
  have mem: "list_ex (\<lambda>w. iw_index w = ?i) ws \<longleftrightarrow> ?i \<in> set (map iw_index ws)"
    by (force simp: list_ex_iff)
  have i: "?i < n" unfolding init_index_def using 1(5) by (simp only: and_low_mask) simp
  show ?case
  proof (cases "INIT_WITNESS_COUNT \<le> length ws")
    case True
    then show ?thesis using 1(3,4)
      by (simp add: init_witness_loop.simps [of h sigma tr] init_index_loop.simps [of h sigma n c])
  next
    case False
    then have c: "\<not> c + 1 \<ge> 2 ^ 32" using 1(3) by (auto simp: init_witness_loop.simps [of h sigma tr] Let_def split: if_splits)
    show ?thesis
    proof (cases "?i \<in> set (map iw_index ws)")
      case True
      then have "init_witness_loop h sigma tr arena n (c + 1) ws = Inr ws'"
        using 1(3) False c mem by (simp add: init_witness_loop.simps [of h sigma tr _ _ c] Let_def)
      from 1(1) [OF False refl c _ this 1(4,5)] True mem show ?thesis using False c
        by (subst init_index_loop.simps) (simp add: Let_def)
    next
      case new: False
      let ?ws = "ws @ [\<lparr>iw_index = ?i, iw_block = arena ! ?i, iw_merkle_path = merkle_prove tr ?i\<rparr>]"
      have "init_witness_loop h sigma tr arena n (c + 1) ?ws = Inr ws'"
        using 1(3) False c mem new by (simp add: init_witness_loop.simps [of h sigma tr _ _ c] Let_def)
      moreover have "witness_ok arena tr n (last ?ws)" using i by (simp add: witness_ok_def)
      then have "list_all (witness_ok arena tr n) ?ws" using 1(4) by simp
      ultimately show ?thesis using 1(2) [OF False refl c _ _ _ 1(5)] mem new False c
        by (subst init_index_loop.simps) (simp add: Let_def)
    qed
  qed
qed

lemma verify_init_witnesses_run:
  assumes "run_ok R m" "list_all (witness_ok (arena_at R 0) (merkle_build (pr_h R) (arena_at R 0)) (pr_n R)) ws"
  shows "verify_init_witnesses (pr_h R) (pr_seed R) (root_at R 0) (pr_n R) ws (map iw_index ws) = Inr ()"
  using assms(2)
proof (induction ws)
  case (Cons w ws)
  then have w: "iw_index w < pr_n R" "iw_block w = arena_at R 0 ! iw_index w"
    "iw_merkle_path w = merkle_prove (merkle_build (pr_h R) (arena_at R 0)) (iw_index w)"
    by (auto simp: witness_ok_def)
  then have "require_path (pr_h R) 0 (root_at R 0) (iw_index w) (iw_block w) (iw_merkle_path w) (pr_n R) = Inr ()"
    by (intro require_path_run [OF assms(1)]) simp_all
  moreover have "0 < pr_n R" using w(1) by simp
  ultimately show ?case using Cons w(1,2) init_blocks_facts [where n = "pr_n R" and h = "pr_h R" and seed = "pr_seed R"]
    by (cases "iw_index w = 0") (auto simp: arena_at_0)
qed simp

subsection \<open>The challenged steps\<close>

lemma sort_enumerate:
  assumes "distinct chs"
  shows "sorted_wrt (<) (map snd (sort_key snd (enumerate i chs)))"
proof -
  have "mset (map snd (sort_key snd (enumerate i chs))) = mset chs"
    by (metis map_snd_enumerate mset_map mset_sort)
  then have "distinct (map snd (sort_key snd (enumerate i chs)))"
    using assms by (metis mset_eq_imp_distinct_iff)
  then show ?thesis by (simp add: strict_sorted_iff)
qed

lemma sort_back:
  assumes "\<And>x. fst (f x) = fst x"
  shows "sort_key fst (map f (sort_key g (enumerate 0 chs))) = map f (enumerate 0 chs)"
proof (rule sort_key_inj_key_eq)
  have "fst \<circ> f = fst" using assms by (simp add: fun_eq_iff)
  then have fst: "map fst (map f (enumerate 0 chs)) = [0 ..< length chs]" by simp
  show "sorted (map fst (map f (enumerate 0 chs)))" unfolding fst by simp
  have "distinct (map fst (map f (enumerate 0 chs)))" unfolding fst by simp
  then have "inj_on fst (set (map f (enumerate 0 chs)))" by (simp only: distinct_map)
  then show "inj_on fst (set (map f (sort_key g (enumerate 0 chs))))" by simp
  show "mset (map f (sort_key g (enumerate 0 chs))) = mset (map f (enumerate 0 chs))" by simp
qed

lemma challenged_steps_run:
  assumes "run_ok R m" "distinct chs" "0 \<notin> set chs" "arena_blocks p = pr_n R" "reads_per_step p = pr_d R"
    and "ent_at R k pts ent"
  shows "challenged_steps_of (pr_h R) (pr_seed R) p rc chs ent =
    map (\<lambda>t. expand R rc (recursion_depth p - 1) (t - 1)) chs"
proof -
  let ?s = "\<lparr>rp_arena = arena_at R 0, rp_tree = merkle_build (pr_h R) (arena_at R 0), rp_t = trans_at R 0,
    rp_wi = replicate (pr_n R) 0, rp_step = 0,
    rp_ent = map_option (\<lambda>e. entangle_new (en_samples e) (en_interval e)) ent\<rparr>"
  let ?f = "\<lambda>(og :: nat, t). (og, proof_with R rc (t - 1) (writers_of R (t - 1)))"
  have "replay_rel R 0 ?s"
    using assms(6) by (auto simp: replay_rel_def ent_at_def entangle_new_def split: option.splits)
  moreover have "\<forall>c \<in> set (sort_key snd (enumerate 0 chs)). 0 < snd c"
    using assms(3) by (auto simp: in_set_enumerate_eq dest: nth_mem) (metis gr0I nth_mem)
  ultimately have "replay_all (pr_h R) (pr_d R) rc (merkle_build (pr_h R) (arena_at R 0))
      (sort_key snd (enumerate 0 chs)) ?s = map ?f (sort_key snd (enumerate 0 chs))"
    by (intro replay_all_run [OF assms(1)] sort_enumerate [OF assms(2)])
  moreover have "sort_key fst (map ?f (sort_key snd (enumerate 0 chs))) = map ?f (enumerate 0 chs)"
    by (rule sort_back) auto
  moreover have "map snd (map ?f (enumerate 0 chs)) = map (expand R rc 0) (map (\<lambda>t. t - 1) chs)"
  proof -
    have "map snd (map ?f xs) = map (expand R rc 0) (map (\<lambda>t. t - 1) (map snd xs))" for xs :: "(nat \<times> nat) list"
      by (induction xs) auto
    then show ?thesis by (metis map_snd_enumerate)
  qed
  moreover have "map_option (\<lambda>e. (en_samples e, en_interval e)) ent = pr_es R"
    using assms(6) by (auto simp: ent_at_def split: option.splits)
  ultimately show ?thesis
    using attach_recursive_run [OF assms(1,4,5), of rc "recursion_depth p - 1" 0 "map (\<lambda>t. t - 1) chs"]
    unfolding challenged_steps_of_def Let_def assms(4,5)
    by (simp add: initialize_run del: expand.simps map_map) (simp add: comp_def del: expand.simps)
qed

lemma verify_steps_run:
  assumes "\<And>t. t \<in> set chs \<Longrightarrow> verify_step h p c (vc_max_writer_depth c) (f t) = Inr (g t)"
    and "\<And>t. t \<in> set chs \<Longrightarrow> sp_step_id (f t) = t"
  shows "verify_steps h p c (map f chs) = Inr (map (\<lambda>t. (t, g t)) chs)"
  using assms by (induction chs) auto

lemma verify_links_run:
  assumes "\<forall>x \<in> set xs. \<exists>t \<in> set chs. x = (t, raw_at R (t - 1))" "set chs \<subseteq> {1..k}"
  shows "verify_links (pr_h R) (entangle_map (points_at R k)) (map (\<lambda>t. expand R rc r (t - 1)) chs) xs = Inr ()"
  using assms(1)
proof (induction xs rule: induct_list012)
  case (3 x y xs)
  then obtain a b where ab: "x = (a, raw_at R (a - 1))" "y = (b, raw_at R (b - 1))" "a \<in> set chs" "b \<in> set chs"
    by auto
  let ?sps = "map (\<lambda>t. expand R rc r (t - 1)) chs"
  have "expand R rc r (b - 1) \<in> set ?sps" "sp_step_id (expand R rc r (b - 1)) = b"
    using ab(4) assms(2) by auto
  then have "find (\<lambda>s. sp_step_id s = b) ?sps \<noteq> None" by (meson find_None_iff)
  then obtain sb where sb: "find (\<lambda>s. sp_step_id s = b) ?sps = Some sb" by blast
  then have "sp_cursor_in sb = trans_at R (b - 1)"
    using assms(2) by (auto simp: find_Some_iff in_set_conv_nth)
  moreover have "trans_at R a = (case map_of (entangle_map (points_at R k)) a of
      Some jh \<Rightarrow> entangle_hash (pr_h R) (raw_at R (a - 1)) jh | None \<Rightarrow> raw_at R (a - 1))"
  proof -
    have "a \<in> {1..k}" using ab(3) assms(2) by blast
    then obtain i where i: "a = Suc i" "i < k" by (cases a) auto
    then show ?thesis using map_of_points_at [OF i(2), of R]
      by (auto simp: entangle_map_spec(1) [OF distinct_points_at] trans_at_Suc split: list.split)
  qed
  ultimately show ?case using 3 ab sb by (auto split: option.split)
qed auto

subsection \<open>The whole proof\<close>

text \<open>What the run relies on of BLAKE3: among the first hashes of a counter there are enough
  distinct indices, and in the stream from every input there are enough distinct challenges.\<close>

definition streams_ok :: "(bytes \<Rightarrow> bytes) \<Rightarrow> (bytes \<Rightarrow> nat \<Rightarrow> byte) \<Rightarrow> posme_params \<Rightarrow> bool" where
  "streams_ok h xof p \<longleftrightarrow>
     (\<forall>x. \<exists>M < 2 ^ 32. INIT_WITNESS_COUNT \<le> card (init_index h (h x) (arena_blocks p) ` {..< M})) \<and>
     (\<forall>inp. \<exists>M. challenges p \<le> card (stream_steps (xof inp) (total_steps p) M))"

text \<open>The run that belongs to a seed, parameters and samples.\<close>

definition run_of :: "(bytes \<Rightarrow> bytes) \<Rightarrow> bytes \<Rightarrow> posme_params \<Rightarrow> (bytes list \<times> nat) option \<Rightarrow> posme_run" where
  "run_of h seed p es =
     \<lparr>pr_h = h, pr_seed = seed, pr_n = arena_blocks p, pr_d = reads_per_step p, pr_es = es\<rparr>"

definition ctx_of :: "(bytes list \<times> nat) option \<Rightarrow> entangle_ctx option" where
  "ctx_of es = map_option (\<lambda>(samples, interval). entangle_new samples interval) es"

lemma run_of_simps [simp]:
  "pr_h (run_of h seed p es) = h" "pr_seed (run_of h seed p es) = seed" "pr_n (run_of h seed p es) = arena_blocks p"
  "pr_d (run_of h seed p es) = reads_per_step p" "pr_es (run_of h seed p es) = es"
  by (simp_all add: run_of_def)

lemma run_of_ok:
  assumes "params_validate p = Inr ()"
  obtains m where "run_ok (run_of h seed p es) m" "arena_blocks p = 2 ^ m" "10 \<le> m"
    "0 < total_steps p" "total_steps p < 2 ^ 30"
proof -
  obtain m where "arena_blocks p = 2 ^ m" "10 \<le> m" "m \<le> 22" "arena_blocks p \<le> total_steps p"
    "total_steps p \<le> 2 ^ 24" "reads_per_step p \<in> {4..8}"
    by (rule params_validateE [OF assms])
  moreover from this have "0 < total_steps p" "total_steps p < 2 ^ 30"
    by (auto simp: Suc_le_eq intro: less_le_trans [of 0 "arena_blocks p"])
  ultimately show ?thesis using that [of m] by (simp add: run_ok_def MAX_READS_def)
qed

lemma derive_challenges_ends:
  assumes "streams_ok h xof p" "0 < total_steps p"
  shows "\<exists>cs. derive_challenges xof t c p = Some cs \<and> distinct cs \<and> length cs = challenges p \<and>
    set cs \<subseteq> {1 .. total_steps p}"
proof -
  let ?st = "xof (challenge_seed t c p)" and ?k = "total_steps p"
  obtain M where "challenges p \<le> card (stream_steps ?st ?k M)" using assms(1) unfolding streams_ok_def by blast
  from challenge_loop_ends [OF this, of 0 "[]"] assms(2) show ?thesis
    by (simp add: derive_challenges_def Let_def stream_steps_def)
qed

text \<open>The proof that a run makes, given its initial witnesses and its challenges.\<close>

definition run_proof :: "posme_run \<Rightarrow> posme_params \<Rightarrow> nat \<Rightarrow> init_witness list \<Rightarrow> nat list \<Rightarrow> posme_proof" where
  "run_proof R p elapsed ws chs =
     (let k = total_steps p; rc = chain_of R k in
      \<lparr>pp_params = p, pp_final_transcript = trans_at R k, pp_root_chain_commitment = root_chain_root rc,
       pp_root_0 = root_at R 0, pp_root_0_path = root_chain_prove rc 0, pp_init_witnesses = ws,
       pp_challenged_steps = map (\<lambda>t. expand R rc (recursion_depth p - 1) (t - 1)) chs,
       pp_claimed_duration = elapsed,
       pp_proof_algorithm =
         (if pr_es R = None then PROOF_ALGORITHM_POSME else PROOF_ALGORITHM_POSME_ENTANGLED),
       pp_entanglement_points = points_at R k\<rparr>)"

definition run_witnesses :: "posme_run \<Rightarrow> init_witness list \<Rightarrow> bool" where
  "run_witnesses R ws \<longleftrightarrow>
     init_index_loop (pr_h R) (init_sigma (pr_h R) (pr_seed R) (root_at R 0)) (pr_n R) 0 [] = Inr (map iw_index ws) \<and>
     list_all (witness_ok (arena_at R 0) (merkle_build (pr_h R) (arena_at R 0)) (pr_n R)) ws \<and>
     INIT_WITNESS_COUNT \<le> length ws"

lemma generate_init_witnesses_run:
  assumes "streams_ok h xof p" "arena_blocks p = 2 ^ m" "R = run_of h seed p es"
  shows "\<exists>ws. generate_init_witnesses h seed (merkle_build h (arena_at R 0)) (arena_at R 0) (arena_blocks p) = Inr ws \<and>
    run_witnesses R ws"
proof -
  let ?sigma = "init_sigma h seed (root_at R 0)" and ?tree = "merkle_build h (arena_at R 0)" and ?n = "arena_blocks p"
  have "?sigma = h (concat [ascii ''PoSME-init-witness-v1'', seed, root_at R 0])"
    by (simp add: init_sigma_def posme_hash_def)
  then obtain M where "INIT_WITNESS_COUNT \<le> card (init_index h ?sigma ?n ` {..< M})" "M < 2 ^ 32"
    using assms(1) unfolding streams_ok_def by metis
  then obtain ws where ws: "init_witness_loop h ?sigma ?tree (arena_at R 0) ?n 0 [] = Inr ws"
    using init_witness_loop_ends [of h ?sigma ?n M 0 "[]" ?tree "arena_at R 0"] by auto
  from init_witness_loop_spec [OF ws _ assms(2)] have "run_witnesses R ws"
    by (simp add: run_witnesses_def assms(3))
  moreover have "generate_init_witnesses h seed ?tree (arena_at R 0) ?n = Inr ws"
    using ws by (simp add: generate_init_witnesses_def root_at_def assms(3))
  ultimately show ?thesis by blast
qed

lemma execute_inner_run:
  assumes "params_validate p = Inr ()" "streams_ok h xof p" "R = run_of h seed p es"
  shows "\<exists>ws chs. execute_inner h xof elapsed seed p (ctx_of es) = Some (Inr (run_proof R p elapsed ws chs)) \<and>
    run_witnesses R ws \<and> distinct chs \<and> length chs = challenges p \<and> set chs \<subseteq> {1 .. total_steps p} \<and>
    derive_challenges xof (trans_at R (total_steps p)) (root_chain_root (chain_of R (total_steps p))) p = Some chs"
proof -
  let ?k = "total_steps p" and ?n = "arena_blocks p" and ?d = "reads_per_step p"
  obtain m where R: "run_ok R m" and v: "?n = 2 ^ m" "0 < ?k"
    using run_of_ok [OF assms(1), of h seed es] assms(3) by metis
  have sel: "pr_h R = h" "pr_seed R = seed" "pr_n R = ?n" "pr_d R = ?d" "pr_es R = es" by (simp_all add: assms(3))
  obtain ws where ws: "generate_init_witnesses h seed (merkle_build h (arena_at R 0)) (arena_at R 0) ?n = Inr ws"
    "run_witnesses R ws" using generate_init_witnesses_run [OF assms(2) v(1) assms(3)] by blast
  let ?s0 = "\<lparr>ex_arena = arena_at R 0, ex_tree = merkle_build h (arena_at R 0), ex_t = trans_at R 0,
    ex_roots = [root_at R 0], ex_ent = ctx_of es\<rparr>"
  define s where "s = exec_loop h ?d ?k ?s0"
  have "exec_rel R 0 ?s0"
    by (auto simp: sel exec_rel_def ent_at_def ctx_of_def entangle_new_def points_at_def split: option.split)
  from exec_loop_run [OF R this, of ?k] have s: "ex_t s = trans_at R ?k"
    "ex_roots s = map (root_at R) [0 ..< Suc ?k]" "ent_at R ?k (points_at R ?k) (ex_ent s)"
    by (simp_all add: exec_rel_def s_def sel)
  have pts: "(case ex_ent s of None \<Rightarrow> [] | Some e \<Rightarrow> en_points e) = points_at R ?k"
    "(case ex_ent s of None \<Rightarrow> PROOF_ALGORITHM_POSME | Some _ \<Rightarrow> PROOF_ALGORITHM_POSME_ENTANGLED) =
      (if es = None then PROOF_ALGORITHM_POSME else PROOF_ALGORITHM_POSME_ENTANGLED)"
    using s(3) by (auto simp: sel ent_at_def points_at_def point_at_def split: option.splits)
  have rc: "root_chain_build h (ex_roots s) = chain_of R ?k" by (simp add: s(2) chain_of_def sel)
  obtain chs where chs: "derive_challenges xof (trans_at R ?k) (root_chain_root (chain_of R ?k)) p = Some chs"
    "distinct chs" "length chs = challenges p" "set chs \<subseteq> {1..?k}"
    using derive_challenges_ends [OF assms(2) v(2)] by blast
  have "0 \<notin> set chs" using chs(4) by auto
  then have sps: "challenged_steps_of h seed p (chain_of R ?k) chs (ex_ent s) =
      map (\<lambda>t. expand R (chain_of R ?k) (recursion_depth p - 1) (t - 1)) chs"
    using challenged_steps_run [OF R chs(2) _ _ _ s(3), of p] by (simp add: sel)
  have init: "initialize h seed ?n = (arena_at R 0, merkle_build h (arena_at R 0), root_at R 0, trans_at R 0)"
    using initialize_run [of R] by (simp add: sel)
  have "execute_inner h xof elapsed seed p (ctx_of es) = Some (Inr (run_proof R p elapsed ws chs))"
    unfolding execute_inner_def Let_def init
    by (simp add: ws(1) rc s(1) chs(1) sps pts run_proof_def Let_def sel flip: s_def)
  then show ?thesis using ws(2) chs by blast
qed

lemma run_proof_front:
  assumes "params_validate p = Inr ()" "R = run_of h seed p es" "run_witnesses R ws"
    and "es \<noteq> None \<longrightarrow> validate_jitter_entropy lv (points_at R (total_steps p)) = Inr ()"
  shows "verify_front h lv seed (run_proof R p elapsed ws chs) = Inr ()"
proof -
  let ?k = "total_steps p"
  obtain m where R: "run_ok R m" and k: "?k < 2 ^ 30"
    using run_of_ok [OF assms(1), of h seed es] assms(2) by metis
  have sel: "pr_h R = h" "pr_seed R = seed" "pr_n R = arena_blocks p" "pr_es R = es" by (simp_all add: assms(2))
  have "verify_root_chain_path h (root_chain_root (chain_of R ?k)) 0 (root_at R 0)
      (root_chain_prove (chain_of R ?k) 0) (?k + 1)"
    using root_chain_run [of 0 ?k h "root_at R"] k by (simp add: chain_of_def sel)
  moreover have "verify_init_witnesses h seed (root_at R 0) (arena_blocks p) ws (map iw_index ws) = Inr ()"
    using verify_init_witnesses_run [OF R] assms(3) by (simp add: run_witnesses_def sel)
  ultimately show ?thesis
    using assms(1,3,4) by (auto simp: verify_front_def run_proof_def run_witnesses_def Let_def sel
        PROOF_ALGORITHM_POSME_def PROOF_ALGORITHM_POSME_ENTANGLED_def)
qed

lemma run_proof_challenged:
  assumes "params_validate p = Inr ()" "R = run_of h seed p es" "set chs \<subseteq> {1 .. total_steps p}"
    and "recursion_depth p = 1 \<or> no_self_read R (total_steps p)"
  shows "verify_challenged h seed (run_proof R p elapsed ws chs) chs = Inr ()"
proof -
  let ?k = "total_steps p" and ?r = "recursion_depth p - 1" and ?pf = "run_proof R p elapsed ws chs"
  let ?rc = "chain_of R ?k"
  obtain m where R: "run_ok R m" and k: "0 < ?k" "?k < 2 ^ 30"
    using run_of_ok [OF assms(1), of h seed es] assms(2) by metis
  have sel: "pr_h R = h" "pr_seed R = seed" "pr_n R = arena_blocks p" "pr_d R = reads_per_step p"
    by (simp_all add: assms(2))
  let ?c = "\<lparr>vc_n = arena_blocks p, vc_d = reads_per_step p, vc_k = ?k, vc_total_roots = ?k + 1,
    vc_t_0 = posme_hash h [DST_TRANSCRIPT, seed, root_at R 0], vc_max_writer_depth = ?r\<rparr>"
  have po: "proof_of R ?k ?pf ?c"
    using trans_at_0 [of R] by (simp add: proof_of_def run_proof_def Let_def sel)
  have "verify_step h ?pf ?c ?r (expand R ?rc ?r (t - 1)) = Inr (raw_at R (t - 1))" if "t \<in> set chs" for t
  proof -
    have "t \<in> {1..?k}" using that assms(3) by blast
    then have "t - 1 < ?k" "?r = 0 \<or> no_self_read R ?k" using k(1) assms(4) by auto
    then show ?thesis using expand_verified [OF R po k(2), of ?r "t - 1"] by (simp add: sel)
  qed
  then have vs: "verify_steps h ?pf ?c (map (\<lambda>t. expand R ?rc ?r (t - 1)) chs) =
      Inr (map (\<lambda>t. (t, raw_at R (t - 1))) chs)"
    using assms(3) by (intro verify_steps_run) auto
  have links: "verify_links h (entangle_map (points_at R ?k)) (map (\<lambda>t. expand R ?rc ?r (t - 1)) chs)
      (sort_key fst (map (\<lambda>t. (t, raw_at R (t - 1))) chs)) = Inr ()"
    using verify_links_run [OF _ assms(3), of "sort_key fst (map (\<lambda>t. (t, raw_at R (t - 1))) chs)" R ?rc ?r]
    by (auto simp: sel)
  have ids: "map sp_step_id (map (\<lambda>t. expand R ?rc ?r (t - 1)) chs) = chs"
    using assms(3) by (auto intro!: map_idI)
  have "pp_challenged_steps ?pf = map (\<lambda>t. expand R ?rc ?r (t - 1)) chs" "pp_params ?pf = p"
    "pp_entanglement_points ?pf = points_at R ?k" "pp_root_0 ?pf = root_at R 0"
    by (simp_all add: run_proof_def Let_def)
  then show ?thesis
    using vs links ids entangle_map_spec(2) [OF distinct_points_at, of R ?k]
    unfolding verify_challenged_def Let_def by (simp del: map_map)
qed

lemma posme_verify_run_proof:
  assumes "verify_front h lv seed (run_proof R p elapsed ws chs) = Inr ()"
    and "derive_challenges xof (trans_at R (total_steps p)) (root_chain_root (chain_of R (total_steps p))) p = Some chs"
  shows "posme_verify h xof lv seed (run_proof R p elapsed ws chs) =
    Some (verify_challenged h seed (run_proof R p elapsed ws chs) chs)"
proof -
  let ?pf = "run_proof R p elapsed ws chs"
  have "pp_final_transcript ?pf = trans_at R (total_steps p)" "pp_params ?pf = p"
    "pp_root_chain_commitment ?pf = root_chain_root (chain_of R (total_steps p))"
    by (simp_all add: run_proof_def Let_def)
  then show ?thesis using assms by (simp add: posme_verify_def)
qed

lemma execute_inner_accepted:
  assumes "params_validate p = Inr ()" "streams_ok h xof p" "R = run_of h seed p es"
    and "recursion_depth p = 1 \<or> no_self_read R (total_steps p)"
    and "es \<noteq> None \<longrightarrow> validate_jitter_entropy lv (points_at R (total_steps p)) = Inr ()"
  shows "\<exists>pf. execute_inner h xof elapsed seed p (ctx_of es) = Some (Inr pf) \<and>
    posme_verify h xof lv seed pf = Some (Inr ()) \<and>
    length (pp_challenged_steps pf) = challenges p \<and> pp_entanglement_points pf = points_at R (total_steps p)"
proof -
  obtain ws chs where x: "execute_inner h xof elapsed seed p (ctx_of es) = Some (Inr (run_proof R p elapsed ws chs))"
    "run_witnesses R ws" "length chs = challenges p" "set chs \<subseteq> {1 .. total_steps p}"
    "derive_challenges xof (trans_at R (total_steps p)) (root_chain_root (chain_of R (total_steps p))) p = Some chs"
    using execute_inner_run [OF assms(1-3), of elapsed] by blast
  have "posme_verify h xof lv seed (run_proof R p elapsed ws chs) = Some (Inr ())"
    using posme_verify_run_proof [OF run_proof_front [OF assms(1,3) x(2) assms(5)] x(5)]
      run_proof_challenged [OF assms(1,3) x(4) assms(4)] by simp
  then show ?thesis using x(1,3) by (auto simp: run_proof_def Let_def)
qed

subsection \<open>A step that reads the block it writes\<close>

lemma verify_writers_Inr:
  assumes "verify_writers h vrec root_0 n st rds ws = Inr ()" "j < length ws"
  shows "j < length rds \<and> verify_writer h vrec root_0 n st (rds ! j) (ws ! j) = Inr ()"
  using assms
proof (induction h vrec root_0 n st rds ws arbitrary: j rule: verify_writers.induct)
  case (3 h vrec root_0 n st rd rds w ws)
  then show ?case by (cases j) (auto simp: res_bind_Inr_iff)
qed auto

lemma self_read_rejected:
  assumes "waddr_at R i \<in> set (raddrs_at R i)" "run_ok R m"
  shows "verify_step (pr_h R) p c (Suc r) (expand R rc (Suc r) i) \<noteq> Inr t"
proof
  let ?sp = "expand R rc (Suc r) i"
  assume "verify_step (pr_h R) p c (Suc r) ?sp = Inr t"
  then have ok: "verify_writers (pr_h R) (Some (verify_step (pr_h R) p c r)) (pp_root_0 p) (vc_n c) (Suc i)
      (sp_reads ?sp) (sp_writers ?sp) = Inr ()"
    by (auto simp: verify_step_body_def Let_def res_bind_Inr_iff proof_with_def split: if_splits)
  obtain j where j: "j < length (raddrs_at R i)" "raddrs_at R i ! j = waddr_at R i"
    using assms(1) by (auto simp: in_set_conv_nth)
  have "writers_at R (Suc i) ! waddr_at R i = Suc i" using waddr_less [OF assms(2), of i] by simp
  then have "sp_writers ?sp ! j = WriterProof 1 (Suc i) (Some (expand R rc r i)) None"
    using j by (simp add: proof_with_def writers_of_def writer_entry_def del: writers_at.simps)
  moreover have "j < length (sp_writers ?sp)" using j by (simp add: proof_with_def writers_of_def)
  ultimately show False
    using verify_writers_Inr [OF ok, of j] by (auto simp: verify_writer_def)
qed

lemma verify_steps_Inr:
  "verify_steps h p c sps = Inr ts \<Longrightarrow> sp \<in> set sps \<Longrightarrow> \<exists>t. verify_step h p c (vc_max_writer_depth c) sp = Inr t"
  by (induction sps arbitrary: ts) (auto simp: res_bind_Inr_iff)

end
