(* ===== verification/Posme_Sound.thy ===== *)
theory Posme_Sound
  imports Posme_Complete
begin

text \<open>
  What an accepted step proof says: if its first root commits to an arena and no two of the
  inputs hashed on its paths collide, it describes the step of the prover on that arena.
\<close>

definition opening_inputs :: "(bytes \<Rightarrow> bytes) \<Rightarrow> block list \<Rightarrow> nat \<Rightarrow> block \<Rightarrow> bytes list \<Rightarrow> bytes set" where
  "opening_inputs h arena a b p =
     arena_inputs h (length arena) a b p \<union>
     arena_inputs h (length arena) a (arena ! a) (merkle_prove (merkle_build h arena) a)"

definition step_inputs :: "(bytes \<Rightarrow> bytes) \<Rightarrow> block list \<Rightarrow> step_proof \<Rightarrow> bytes set" where
  "step_inputs h arena sp =
     (\<Union>rd \<in> set (sp_reads sp). opening_inputs h arena (rw_address rd) (rw_block rd) (rw_merkle_path rd)) \<union>
     opening_inputs h arena (ww_address (sp_write sp)) (ww_old_block (sp_write sp)) (ww_merkle_path (sp_write sp))"

text \<open>Blocks and paths are made of 32-byte arrays.\<close>

definition step_typed :: "step_proof \<Rightarrow> bool" where
  "step_typed sp \<longleftrightarrow>
     (\<forall>rd \<in> set (sp_reads sp). block_typed (rw_block rd) \<and> digests (rw_merkle_path rd)) \<and>
     block_typed (ww_old_block (sp_write sp)) \<and> digests (ww_merkle_path (sp_write sp))"

lemma require_path_Inr: "require_path h st r a b p n = Inr x \<longleftrightarrow> verify_path h r a b p n = Inr True"
  by (auto simp: require_path_def res_bind_Inr_iff)

lemma opening_sound:
  assumes "hash32 h" "length arena = 2 ^ m" "m < 31" "list_all block_typed arena" "a < 2 ^ m"
    and "block_typed b" "digests p" "require_path h st (merkle_root (merkle_build h arena)) a b p (2 ^ m) = Inr ()"
    and "inj_on h (opening_inputs h arena a b p)"
  shows "b = arena ! a \<and> p = merkle_prove (merkle_build h arena) a"
  using assms
  by (intro arena.opens_to_committed [where h = h and m = m]) (simp_all add: require_path_Inr opening_inputs_def)

lemma reads_sound:
  assumes "hash32 h" "length arena = 2 ^ m" "m < 31" "list_all block_typed arena"
    and "\<forall>rd \<in> set rds. block_typed (rw_block rd) \<and> digests (rw_merkle_path rd) \<and>
      inj_on h (opening_inputs h arena (rw_address rd) (rw_block rd) (rw_merkle_path rd))"
    and "verify_read_paths h st (merkle_root (merkle_build h arena)) (2 ^ m) rds = Inr ()"
    and "verify_read_addrs h st (2 ^ m) j (light_reads h arena t j) rds = Inr cursor"
  shows "cursor = light_reads h arena t (j + length rds)"
  using assms(5-7)
proof (induction rds arbitrary: j)
  case (Cons rd rds)
  let ?a = "addr_from h (light_reads h arena t j) j (2 ^ m)"
  have a: "rw_address rd = ?a" using Cons.prems(3) by (auto simp: Let_def split: if_splits)
  have "rw_block rd = arena ! ?a"
    using Cons.prems(1,2) opening_sound [OF assms(1-4), of ?a "rw_block rd" "rw_merkle_path rd" st] addr_from_less
    by (auto simp: a res_bind_Inr_iff)
  then have "verify_read_addrs h st (2 ^ m) (Suc j) (light_reads h arena t (Suc j)) rds = Inr cursor"
    using Cons.prems(3) a by (auto simp: Let_def assms(2))
  then have "cursor = light_reads h arena t (Suc j + length rds)"
    using Cons.prems(1,2) by (intro Cons.IH) (auto simp: res_bind_Inr_iff)
  then show ?case by (simp del: light_reads.simps)
qed simp

lemma verify_step_is_body:
  "\<exists>vrec. verify_step h p c depth sp = verify_step_body h p c vrec sp"
  by (cases depth) auto

lemma verify_step_sound:
  assumes "verify_step h p c depth sp = Inr t" "hash32 h" "vc_n c = 2 ^ m" "m < 31"
    and "length arena = 2 ^ m" "list_all block_typed arena" "step_typed sp"
    and "sp_root_before sp = merkle_root (merkle_build h arena)"
    and "length (sp_reads sp) = vc_d c" "inj_on h (step_inputs h arena sp)"
  shows "\<exists>arena' tree'. posme_step_light h arena (merkle_build h arena) (sp_cursor_in sp) (sp_step_id sp) (vc_d c) =
    (arena', tree', \<lparr>sr_write_addr = ww_address (sp_write sp), sr_root_after = sp_root_after sp, sr_transcript = t\<rparr>) \<and>
    arena' ! ww_address (sp_write sp) = ww_new_block (sp_write sp)"
proof -
  let ?t0 = "sp_cursor_in sp" and ?st = "sp_step_id sp" and ?w = "sp_write sp" and ?tree = "merkle_build h arena"
  obtain vrec where "verify_step_body h p c vrec sp = Inr t" using verify_step_is_body assms(1) by metis
  then obtain cursor where v: "verify_read_paths h ?st (merkle_root ?tree) (2 ^ m) (sp_reads sp) = Inr ()"
    "verify_read_addrs h ?st (2 ^ m) 0 ?t0 (sp_reads sp) = Inr cursor"
    "verify_symbiotic_write h sp ?st (2 ^ m) (vc_d c) cursor = Inr ()"
    "t = posme_hash h [?t0, i2osp ?st, cursor, sp_root_after sp]"
    using assms(3,8) by (auto simp: verify_step_body_def Let_def res_bind_Inr_iff split: if_splits)
  have "cursor = light_reads h arena ?t0 (0 + length (sp_reads sp))"
  proof (rule reads_sound [OF assms(2,5,4,6) _ v(1)])
    show "\<forall>rd \<in> set (sp_reads sp). block_typed (rw_block rd) \<and> digests (rw_merkle_path rd) \<and>
        inj_on h (opening_inputs h arena (rw_address rd) (rw_block rd) (rw_merkle_path rd))"
      using assms(7,10) by (auto simp: step_typed_def step_inputs_def inj_on_Un intro: inj_on_subset)
  qed (use v(2) in simp)
  then have cur: "light_reads h arena ?t0 (vc_d c) = cursor" using assms(9) by simp
  let ?a = "addr_from h cursor (vc_d c) (2 ^ m)"
  have w: "ww_address ?w = ?a" "require_path h ?st (merkle_root ?tree) ?a (ww_old_block ?w) (ww_merkle_path ?w) (2 ^ m) = Inr ()"
    "ww_new_block ?w = written_block h (ww_old_block ?w) cursor ?st"
    "require_path h ?st (sp_root_after sp) ?a (ww_new_block ?w) (ww_merkle_path ?w) (2 ^ m) = Inr ()"
    using v(3) assms(8)
    by (auto simp: verify_symbiotic_write_def Let_def res_bind_Inr_iff written_block_def block.equality split: if_splits)
  have a: "?a < 2 ^ m" by (rule addr_from_less) simp
  have "inj_on h (opening_inputs h arena ?a (ww_old_block ?w) (ww_merkle_path ?w))"
    using assms(10) w(1) by (auto simp: step_inputs_def intro: inj_on_subset)
  then have old: "ww_old_block ?w = arena ! ?a" "ww_merkle_path ?w = merkle_prove ?tree ?a"
    using opening_sound [OF assms(2,5,4,6) a _ _ w(2)] assms(7) by (auto simp: step_typed_def)
  let ?arena = "arena[?a := ww_new_block ?w]"
  have "verify_path h (merkle_root (merkle_build h ?arena)) ?a (?arena ! ?a) (merkle_prove (merkle_build h ?arena) ?a) (2 ^ m) = Inr True"
    using arena.complete [of ?arena m ?a h] assms(4,5) a by simp
  then have "merkle_root (merkle_build h ?arena) = sp_root_after sp"
    using w(4) a assms(5)
    by (auto simp: require_path_Inr old(2) merkle_prove_update verify_path_def split: if_splits)
  then show ?thesis using cur w(1,3) old(1) v(4) a assms(5)
    by (simp add: posme_step_light_def Let_def merkle_update_build)
qed

end
