(* ===== verification/Posme_Props.thy ===== *)
theory Posme_Props
  imports Posme_Sound
begin

text \<open>
  The properties of PoSME: completeness of the prover for the verifier, with and without
  entanglement, soundness of an accepted step, the challenges, the incremental tree and the
  light step, and the defects of the recursive proofs and of the verifier.
\<close>

subsection \<open>A hash and a stream for the witnesses\<close>

definition toy_b3 :: "bytes \<Rightarrow> bytes" where
  "toy_b3 x = (if length x = 49 then replicate 32 0
     else take 32 (drop (length x - 4) x @ replicate 32 0))"

definition toy_b3' :: "bytes \<Rightarrow> bytes" where
  "toy_b3' x = take 32 (drop (length x - 4) x @ replicate 32 0)"

definition toy_xof :: "bytes \<Rightarrow> nat \<Rightarrow> byte" where
  "toy_xof x pos = be 4 (pos div 4) ! (pos mod 4)"

definition toy_params :: "nat \<Rightarrow> posme_params" where
  "toy_params r = \<lparr>arena_blocks = 1024, total_steps = 1024, reads_per_step = 4, challenges = 2, recursion_depth = r\<rparr>"

lemma toy_params_valid: "r \<in> {1..8} \<Longrightarrow> params_validate (toy_params r) = Inr ()"
proof -
  have "is_power_of_two 1024" using popcount_power [of 10] by (simp add: is_power_of_two_def)
  then show "r \<in> {1..8} \<Longrightarrow> params_validate (toy_params r) = Inr ()"
    by (simp add: params_validate_def toy_params_def params_bounds)
qed

lemma toy_xof_word: "j < 2 ^ 32 \<Longrightarrow> xof_word (toy_xof x) (4 * j) = j"
proof -
  assume j: "j < 2 ^ 32"
  have "toy_xof x (4 * j + i) = be 4 j ! i" if "i < 4" for i using that by (simp add: toy_xof_def)
  then have "map (toy_xof x) [4 * j ..< 4 * j + 4] = be 4 j" by (intro nth_equalityI) simp_all
  then show ?thesis using j by (simp add: xof_word_def be_val_be_id)
qed

lemma toy_init_index:
  assumes "c < 1024" "length s = 32"
  shows "init_index toy_b3 s 1024 c = c" "init_index toy_b3' s 1024 c = c"
proof -
  have "c AND 1023 = c mod 1024" using and_low_mask [of c 10] by simp
  then show "init_index toy_b3 s 1024 c = c" "init_index toy_b3' s 1024 c = c"
    using assms
    by (simp_all add: init_index_def posme_hash_def i2osp_def toy_b3_def toy_b3'_def be_val_be_id)
qed

lemma length_toy [simp]: "length (toy_b3 x) = 32" "length (toy_b3' x) = 32"
  by (simp_all add: toy_b3_def toy_b3'_def)

lemma toy_streams_ok: "streams_ok toy_b3 toy_xof (toy_params r)" "streams_ok toy_b3' toy_xof (toy_params r)"
proof -
  have "init_index toy_b3 (toy_b3 x) 1024 ` {..<8} = {..<8}" "init_index toy_b3' (toy_b3' x) 1024 ` {..<8} = {..<8}" for x
    using toy_init_index by (force simp: image_iff)+
  then have "\<exists>M < 2 ^ 32. INIT_WITNESS_COUNT \<le> card (init_index toy_b3 (toy_b3 x) 1024 ` {..< M})"
    "\<exists>M < 2 ^ 32. INIT_WITNESS_COUNT \<le> card (init_index toy_b3' (toy_b3' x) 1024 ` {..< M})" for x
    by (auto intro!: exI [of _ 8] simp: INIT_WITNESS_COUNT_def)
  moreover have "1 \<in> stream_steps (toy_xof inp) 1024 2" "2 \<in> stream_steps (toy_xof inp) 1024 2" for inp
    using toy_xof_word [of 0 inp] toy_xof_word [of 1 inp]
    by (auto simp: stream_steps_def intro: image_eqI [of _ _ 0] image_eqI [of _ _ 1])
  then have "{1, 2} \<subseteq> stream_steps (toy_xof inp) 1024 2" for inp by simp
  then have "\<exists>M. 2 \<le> card (stream_steps (toy_xof inp) 1024 M)" for inp
    using card_mono [OF finite_stream_steps] by (intro exI [of _ 2]) (metis card_2_iff one_eq_numeral_iff semiring_norm(85))
  ultimately show "streams_ok toy_b3 toy_xof (toy_params r)" "streams_ok toy_b3' toy_xof (toy_params r)"
    by (simp_all add: streams_ok_def toy_params_def)
qed

subsection \<open>Completeness\<close>

text \<open>C9: For valid parameters and a hash function whose outputs vary enough for the derivations
  to end, the prover returns a proof with the right number of challenged steps, and the verifier
  accepts it, if writer proofs are not nested or no step of the run reads the block it writes.
  Without this condition an honest proof can be rejected (\<open>posme_self_read_rejected\<close>).\<close>

theorem posme_complete:
  assumes "params_validate p = Inr ()" "streams_ok h xof p"
    and "recursion_depth p = 1 \<or> no_self_read (run_of h seed p None) (total_steps p)"
  shows "\<exists>pf. execute h xof elapsed seed p = Some (Inr pf) \<and>
    posme_verify h xof lv seed pf = Some (Inr ()) \<and> length (pp_challenged_steps pf) = challenges p"
  using execute_inner_accepted [OF assms(1,2) refl assms(3), of lv elapsed] assms(1)
  by (auto simp: execute_def ctx_of_def)

lemma be_val_zeros [simp]: "be_val (replicate n 0) = 0"
  by (induction n) (simp_all add: be_val_def)

lemma toy_addr: "length c = 32 \<Longrightarrow> addr_from toy_b3 c j 1024 = 0" "j < 1024 \<Longrightarrow> addr_from toy_b3' c j 1024 = j"
  using and_low_mask [of _ 10]
  by (simp_all add: addr_from_def posme_hash_def DST_ADDR_def i2osp_def toy_b3_def toy_b3'_def be_val_be_id)

lemma toy_no_self_read: "no_self_read (run_of toy_b3' seed (toy_params r) es) k"
  by (auto simp: no_self_read_def waddr_at_def st_addr_def raddrs_at_def raddr_at_def toy_params_def toy_addr)

theorem posme_complete_witness:
  "\<exists>pf. execute toy_b3' toy_xof 7 [1, 2, 3] (toy_params 2) = Some (Inr pf) \<and>
     posme_verify toy_b3' toy_xof (\<lambda>_ _ _. True) [1, 2, 3] pf = Some (Inr ()) \<and> length (pp_challenged_steps pf) = 2"
  using posme_complete [OF toy_params_valid toy_streams_ok(2), of 2 "[1, 2, 3]" 7 "\<lambda>_ _ _. True"] toy_no_self_read
  by (simp add: toy_params_def)

subsubsection \<open>Entanglement\<close>

lemma jitter_at_eq:
  assumes "pr_es R = Some (samples, interval)" "0 < interval"
  shows "jitter_at R i = min (length samples) (i div interval)"
    and "map snd (points_at R i) = take (jitter_at R i) samples"
proof -
  have last: "take j samples @ [samples ! j] = samples" if "j < length samples" "length samples \<le> Suc j" for j
    using that take_Suc_conv_app_nth [of j samples] by simp
  have "jitter_at R i = min (length samples) (i div interval) \<and> map snd (points_at R i) = take (jitter_at R i) samples"
  proof (induction i)
    case (Suc i)
    then show ?case using assms
      by (auto simp: trans_at_Suc(2) points_at_Suc point_at_def div_Suc min_def take_Suc_conv_app_nth last)
  qed (simp add: points_at_def)
  then show "jitter_at R i = min (length samples) (i div interval)"
    "map snd (points_at R i) = take (jitter_at R i) samples" by auto
qed

lemma all_samples_used:
  assumes "pr_es R = Some (samples, k div length samples)" "samples \<noteq> []" "length samples \<le> k"
  shows "map snd (points_at R k) = samples"
proof -
  let ?i = "k div length samples"
  have i: "0 < ?i" using assms(2,3) by (simp add: div_greater_zero_iff)
  have "length samples * ?i \<le> k" by simp
  then have "length samples \<le> k div ?i" using i by (metis div_le_mono nonzero_mult_div_cancel_right not_gr0)
  then show ?thesis using jitter_at_eq [OF assms(1) i, of k] by simp
qed

lemma validate_jitter_snd:
  "map snd ps = map snd qs \<Longrightarrow> validate_jitter_entropy lv ps = validate_jitter_entropy lv qs"
  unfolding validate_jitter_entropy_def by (metis length_map)

text \<open>An entangled run mixes in all of its jitter samples, and its proof is accepted under the
  same conditions, if the bytes of the samples vary enough.\<close>

theorem posme_entangled_complete:
  assumes "params_validate p = Inr ()" "streams_ok h xof p" "samples \<noteq> []" "length samples \<le> total_steps p"
    and "recursion_depth p = 1 \<or>
      no_self_read (run_of h seed p (Some (samples, total_steps p div length samples))) (total_steps p)"
    and "validate_jitter_entropy lv (map (Pair 0) samples) = Inr ()"
  shows "\<exists>pf. execute_entangled h xof elapsed seed p samples = Some (Inr pf) \<and>
    posme_verify h xof lv seed pf = Some (Inr ()) \<and> map snd (pp_entanglement_points pf) = samples"
proof -
  let ?i = "total_steps p div length samples"
  let ?R = "run_of h seed p (Some (samples, ?i))"
  have i: "?i \<noteq> 0" using assms(3,4) by (simp add: div_greater_zero_iff)
  have pts: "map snd (points_at ?R (total_steps p)) = samples"
    using all_samples_used [of ?R samples] assms(3,4) by simp
  then have "validate_jitter_entropy lv (points_at ?R (total_steps p)) = Inr ()"
    using assms(6) validate_jitter_snd [of "points_at ?R (total_steps p)" "map (Pair 0) samples" lv]
    by (simp add: comp_def)
  from execute_inner_accepted [OF assms(1,2) refl assms(5), of lv elapsed] this pts i assms(1,3) show ?thesis
    by (auto simp: execute_entangled_def ctx_of_def)
qed

theorem posme_entangled_complete_witness:
  "\<exists>pf. execute_entangled toy_b3 toy_xof 7 [1] (toy_params 1) [[5], [9]] = Some (Inr pf) \<and>
     posme_verify toy_b3 toy_xof (\<lambda>n s q. n * q < s * s) [1] pf = Some (Inr ()) \<and>
     map snd (pp_entanglement_points pf) = [[5], [9]]"
  using posme_entangled_complete [OF toy_params_valid toy_streams_ok(1), of 1 "[[5], [9]]" "[1]" "\<lambda>n s q. n * q < s * s" 7]
  by (simp add: toy_params_def validate_jitter_entropy_def)

subsection \<open>A step that reads the block it writes\<close>

text \<open>With nested writer proofs the prover's own proof is rejected when a challenged step
  writes a block that it has read: the prover names the step itself as the last writer.\<close>

theorem posme_self_read_rejected:
  assumes "params_validate p = Inr ()" "streams_ok h xof p" "2 \<le> recursion_depth p"
    and "execute h xof elapsed seed p = Some (Inr pf)" "sp \<in> set (pp_challenged_steps pf)"
    and "ww_address (sp_write sp) \<in> rw_address ` set (sp_reads sp)"
  shows "posme_verify h xof lv seed pf \<noteq> Some (Inr ())"
proof
  let ?R = "run_of h seed p None" and ?k = "total_steps p"
  obtain m where R: "run_ok ?R m" by (rule run_of_ok [OF assms(1), of h seed None])
  obtain ws chs where x: "execute_inner h xof elapsed seed p None = Some (Inr (run_proof ?R p elapsed ws chs))"
    "run_witnesses ?R ws"
    "derive_challenges xof (trans_at ?R ?k) (root_chain_root (chain_of ?R ?k)) p = Some chs"
    using execute_inner_run [where seed = seed and es = None and elapsed = elapsed, OF assms(1,2) refl]
    by (auto simp: ctx_of_def)
  have pf: "pf = run_proof ?R p elapsed ws chs" using x(1) assms(1,4) by (simp add: execute_def)
  obtain r where r: "recursion_depth p - 1 = Suc r" using assms(3) by (cases "recursion_depth p - 1") auto
  obtain t where sp: "sp = expand ?R (chain_of ?R ?k) (Suc r) (t - 1)"
    using assms(5) unfolding pf run_proof_def Let_def r by (auto simp del: expand.simps)
  have "waddr_at ?R (t - 1) \<in> set (raddrs_at ?R (t - 1))"
    using assms(6) by (force simp: sp proof_with_def write_at_step_def reads_at_def)
  from self_read_rejected [OF this R] have rej: "verify_step h q c (Suc r) sp \<noteq> Inr u" for q c u
    by (simp add: sp del: verify_step.simps expand.simps)
  assume ok: "posme_verify h xof lv seed pf = Some (Inr ())"
  have "verify_front h lv seed (run_proof ?R p elapsed ws chs) = Inr ()"
    by (rule run_proof_front [OF assms(1) refl x(2)]) simp
  from posme_verify_run_proof [OF this x(3)] have "verify_challenged h seed pf chs = Inr ()" using ok pf by simp
  then obtain c ts where "verify_steps h pf c (pp_challenged_steps pf) = Inr ts" "vc_max_writer_depth c = Suc r"
    using r pf by (auto simp: verify_challenged_def Let_def res_bind_Inr_iff run_proof_def split: if_splits)
  from verify_steps_Inr [OF this(1) assms(5)] this(2) rej show False by (auto simp del: verify_step.simps)
qed

lemma toy_self_read:
  fixes seed :: bytes and r :: nat
  defines "R \<equiv> run_of toy_b3 seed (toy_params r) None"
  shows "waddr_at R i = 0" "raddr_at R i 0 = 0"
proof -
  have sel: "pr_h R = toy_b3" "pr_n R = 1024" "pr_d R = 4" "pr_es R = None" by (simp_all add: R_def toy_params_def)
  have t: "length (trans_at R i) = 32"
    by (cases i) (simp_all add: trans_at_0 trans_at_Suc(1) posme_hash_def raw_at_eq point_at_def sel)
  have "length (light_reads toy_b3 (arena_at R i) (trans_at R i) j) = 32" for j
    by (cases j) (simp_all add: t Let_def cursor_step_def posme_hash_def)
  then show "waddr_at R i = 0" "raddr_at R i 0 = 0"
    by (simp_all add: waddr_at_def st_addr_def st_cursor_def raddr_at_def sel toy_addr t)
qed

theorem posme_self_read_rejected_witness:
  "\<exists>pf. execute toy_b3 toy_xof 7 [1] (toy_params 2) = Some (Inr pf) \<and>
     posme_verify toy_b3 toy_xof (\<lambda>_ _ _. False) [1] pf \<noteq> Some (Inr ())"
proof -
  let ?p = "toy_params 2"
  let ?R = "run_of toy_b3 [1] ?p None"
  have v: "params_validate ?p = Inr ()" by (rule toy_params_valid) simp
  obtain ws chs where x: "execute_inner toy_b3 toy_xof 7 [1] ?p None = Some (Inr (run_proof ?R ?p 7 ws chs))"
    "length chs = challenges ?p"
    using execute_inner_run [where seed = "[1]" and es = None and elapsed = 7, OF v toy_streams_ok(1) refl]
    by (auto simp: ctx_of_def)
  let ?pf = "run_proof ?R ?p 7 ws chs"
  have ex: "execute toy_b3 toy_xof 7 [1] ?p = Some (Inr ?pf)" using x(1) v by (simp add: execute_def)
  obtain t ts where "chs = t # ts" using x(2) by (cases chs) (auto simp: toy_params_def)
  then have sp: "expand ?R (chain_of ?R 1024) 1 (t - 1) \<in> set (pp_challenged_steps ?pf)"
    by (simp add: run_proof_def Let_def toy_params_def)
  have "raddr_at ?R (t - 1) 0 \<in> set (raddrs_at ?R (t - 1))" by (simp add: raddrs_at_def toy_params_def)
  then have "ww_address (sp_write (expand ?R (chain_of ?R 1024) 1 (t - 1))) \<in>
      rw_address ` set (sp_reads (expand ?R (chain_of ?R 1024) 1 (t - 1)))"
    using toy_self_read [of "[1]" 2 "t - 1"]
    by (simp add: proof_with_def write_at_step_def reads_at_def image_image)
  from posme_self_read_rejected [OF v toy_streams_ok(1) _ ex sp this] ex show ?thesis
    by (auto simp: toy_params_def)
qed

end
