(* ===== verification/Posme_Step_Props.thy ===== *)
theory Posme_Step_Props
  imports Posme_Props
begin

text \<open>
  Properties of the parts of PoSME: soundness of an accepted step proof and what its checks
  leave open, the incremental tree, the light step, the challenges and the parameters.
\<close>

subsection \<open>Accepted steps\<close>

text \<open>C11: If the verifier accepts a step proof with the prescribed number of reads whose first root
  commits to an arena, and no two inputs hashed on its paths collide, then the proof is the
  prover's step on that arena: the written address and block, the new root and the transcript are
  those of the step function. The number of reads is an assumption: the verifier does not check it
  (\<open>posme_reads_not_enforced\<close>).\<close>

theorem posme_step_proof_sound:
  assumes "verify_step h p c depth sp = Inr t" "hash32 h" "vc_n c = 2 ^ m" "m < 31"
    and "length arena = 2 ^ m" "list_all block_typed arena" "step_typed sp"
    and "sp_root_before sp = merkle_root (merkle_build h arena)"
    and "length (sp_reads sp) = vc_d c" "inj_on h (step_inputs h arena sp)"
  shows "\<exists>arena' tree'. posme_step_light h arena (merkle_build h arena) (sp_cursor_in sp) (sp_step_id sp) (vc_d c) =
    (arena', tree', \<lparr>sr_write_addr = ww_address (sp_write sp), sr_root_after = sp_root_after sp, sr_transcript = t\<rparr>) \<and>
    arena' ! ww_address (sp_write sp) = ww_new_block (sp_write sp)"
  using assms by (rule verify_step_sound)

text \<open>The run over one block for the witness.\<close>

definition tiny_run :: posme_run where
  "tiny_run = \<lparr>pr_h = toy_b3', pr_seed = [], pr_n = 1, pr_d = 4, pr_es = None\<rparr>"

definition tiny_ctx :: verify_ctx where
  "tiny_ctx = \<lparr>vc_n = 1, vc_d = 4, vc_k = 2, vc_total_roots = 3, vc_t_0 = trans_at tiny_run 0, vc_max_writer_depth = 0\<rparr>"

lemma tiny_run_ok: "run_ok tiny_run 0"
  by (simp add: run_ok_def tiny_run_def MAX_READS_def)

lemma tiny_proof_of:
  "proof_of tiny_run 2 (run_proof tiny_run ((toy_params 1)\<lparr>total_steps := 2\<rparr>) 0 [] []) tiny_ctx"
  by (simp add: proof_of_def run_proof_def Let_def tiny_ctx_def) (simp add: tiny_run_def)

lemma tiny_addr: "addr_from h c j 1 = 0"
  using addr_from_less [of 1 0 h c j] by simp

theorem posme_step_proof_sound_witness:
  "\<exists>p sp t arena' tree'. verify_step toy_b3' p tiny_ctx 0 sp = Inr t \<and>
     posme_step_light toy_b3' (arena_at tiny_run 0) (merkle_build toy_b3' (arena_at tiny_run 0)) (sp_cursor_in sp) 1 4 =
       (arena', tree', \<lparr>sr_write_addr = 0, sr_root_after = sp_root_after sp, sr_transcript = t\<rparr>)"
proof -
  let ?p = "run_proof tiny_run ((toy_params 1)\<lparr>total_steps := 2\<rparr>) 0 [] []" and ?rc = "chain_of tiny_run 2"
  let ?sp = "expand tiny_run ?rc 0 0" and ?A = "arena_at tiny_run 0"
  have sel: "pr_h tiny_run = toy_b3'" "pr_n tiny_run = 1" "pr_d tiny_run = 4" by (simp_all add: tiny_run_def)
  have acc: "verify_step toy_b3' ?p tiny_ctx 0 ?sp = Inr (raw_at tiny_run 0)"
    using expand_verified [OF tiny_run_ok tiny_proof_of, of 0 0] by (simp add: sel)
  have A: "length ?A = 1" by (simp add: sel)
  have typed: "block_typed (?A ! 0)"
    by (simp add: arena_at_0 sel init_blocks_def block_typed_def posme_hash_def init_causal_def LAMBDA_def)
  have wa: "waddr_at tiny_run 0 = 0" using waddr_less [OF tiny_run_ok, of 0] by (simp add: sel)
  have ra: "a = 0" if "a \<in> set (raddrs_at tiny_run 0)" for a
    using that raddr_less [OF tiny_run_ok, of 0] by (auto simp: raddrs_at_def sel)
  have path: "merkle_prove (merkle_build toy_b3' ?A) 0 = []"
    using merkle_path_complete(1) [of ?A 0 0 toy_b3'] A by simp
  have rds: "rw_address rd = 0 \<and> rw_block rd = ?A ! 0 \<and> rw_merkle_path rd = []" if "rd \<in> set (sp_reads ?sp)" for rd
    using that ra path by (force simp: proof_with_def reads_at_def sel)
  have wr: "ww_address (sp_write ?sp) = 0" "ww_old_block (sp_write ?sp) = ?A ! 0" "ww_merkle_path (sp_write ?sp) = []"
    using path by (simp_all add: write_at_step_def sel wa del: expand.simps)
  have st: "step_typed ?sp" using typed rds wr by (simp add: step_typed_def del: expand.simps)
  have "opening_inputs toy_b3' ?A 0 (?A ! 0) [] = {as_bytes (?A ! 0)}"
    by (simp add: opening_inputs_def arena_inputs_def path)
  then have "step_inputs toy_b3' ?A ?sp \<subseteq> {as_bytes (?A ! 0)}"
    using rds wr by (auto simp: step_inputs_def simp del: expand.simps)
  then have inj: "inj_on toy_b3' (step_inputs toy_b3' ?A ?sp)" by (rule inj_on_subset [rotated]) simp
  have "list_all block_typed ?A" using typed A by (simp add: list_all_length)
  moreover have "sp_root_before ?sp = merkle_root (merkle_build toy_b3' ?A)" "length (sp_reads ?sp) = vc_d tiny_ctx"
    by (simp_all add: proof_with_def root_at_def reads_at_def raddrs_at_def sel tiny_ctx_def)
  ultimately obtain arena' tree' where
    "posme_step_light toy_b3' ?A (merkle_build toy_b3' ?A) (sp_cursor_in ?sp) (sp_step_id ?sp) (vc_d tiny_ctx) =
      (arena', tree', \<lparr>sr_write_addr = ww_address (sp_write ?sp), sr_root_after = sp_root_after ?sp,
        sr_transcript = raw_at tiny_run 0\<rparr>)"
    using posme_step_proof_sound [OF acc, of 0 ?A] st inj A by (auto simp: tiny_ctx_def)
  moreover have "sp_step_id ?sp = 1" "vc_d tiny_ctx = 4" by (simp_all add: tiny_ctx_def del: expand.simps)
  ultimately show ?thesis using acc wr(1) by metis
qed

text \<open>A step that skips its reads: the chain of roots contains the roots before and after it.\<close>

definition no_read_step :: "(bytes \<Rightarrow> bytes) \<Rightarrow> block list \<Rightarrow> root_chain \<Rightarrow> nat \<Rightarrow> bytes \<Rightarrow> nat \<Rightarrow> step_proof" where
  "no_read_step h arena rc i t d =
     (let w = addr_from h t d (length arena); new = written_block h (arena ! w) t (Suc i) in
      StepProof (Suc i) t t (merkle_root (merkle_build h arena)) (merkle_root (merkle_build h (arena[w := new])))
        (root_chain_prove rc i, root_chain_prove rc (Suc i)) []
        \<lparr>ww_address = w, ww_old_block = arena ! w, ww_new_block = new,
         ww_merkle_path = merkle_prove (merkle_build h arena) w\<rparr> [])"

text \<open>The verifier does not compare the number of reads with the parameter: a step proof without
  any read is accepted in a chain of roots that a prover makes who never reads the arena.\<close>

theorem posme_reads_not_enforced:
  assumes "length arena = 2 ^ m" "m < 31" "length roots = k + 1" "k < 2 ^ 30" "0 < i" "Suc i < k"
    and "rc = root_chain_build h roots" "pp_root_chain_commitment p = root_chain_root rc"
    and "vc_n c = 2 ^ m" "vc_d c = d" "vc_k c = k" "vc_total_roots c = k + 1"
    and "sp = no_read_step h arena rc i t d"
    and "roots ! i = sp_root_before sp" "roots ! Suc i = sp_root_after sp"
  shows "sp_reads sp = [] \<and>
    verify_step h p c depth sp = Inr (posme_hash h [t, i2osp (Suc i), t, sp_root_after sp])"
proof -
  obtain vrec where v: "verify_step h p c depth sp = verify_step_body h p c vrec sp" using verify_step_is_body by metis
  define w where "w = addr_from h t d (2 ^ m)"
  define new where "new = written_block h (arena ! w) t (Suc i)"
  have sp: "sp = StepProof (Suc i) t t (merkle_root (merkle_build h arena)) (merkle_root (merkle_build h (arena[w := new])))
        (root_chain_prove rc i, root_chain_prove rc (Suc i)) []
        \<lparr>ww_address = w, ww_old_block = arena ! w, ww_new_block = new,
         ww_merkle_path = merkle_prove (merkle_build h arena) w\<rparr> []"
    by (simp add: assms(13) no_read_step_def Let_def assms(1) w_def new_def)
  have w: "w < 2 ^ m" unfolding w_def by (rule addr_from_less) simp
  have rc: "verify_root_chain_path h (root_chain_root rc) j (roots ! j) (root_chain_prove rc j) (k + 1)" if "j \<le> k" for j
    using chain.complete [of roots "k + 1" j h] that assms(3,4,7) by simp
  have "verify_path h (merkle_root (merkle_build h arena)) w (arena ! w) (merkle_prove (merkle_build h arena) w) (2 ^ m) = Inr True"
    using arena.complete [of arena m w h] assms(1,2) w by simp
  moreover have "verify_path h (merkle_root (merkle_build h (arena[w := new]))) w new
      (merkle_prove (merkle_build h arena) w) (2 ^ m) = Inr True"
    using arena.complete [of "arena[w := new]" m w h] assms(1,2) w by (simp add: merkle_prove_update)
  ultimately show ?thesis
    using rc [of i] rc [of "Suc i"] assms(5,6,8-12,14,15)
    unfolding v by (simp add: sp verify_step_body_def Let_def verify_symbiotic_write_def require_path_def
        new_def written_block_def flip: w_def)
qed

theorem posme_reads_not_enforced_witness:
  "\<exists>p c sp t. vc_d c = 4 \<and> sp_reads sp = [] \<and> verify_step toy_b3' p c 0 sp = Inr t"
proof -
  define sp0 where "sp0 = no_read_step toy_b3' [zeroed] \<lparr>rc_nodes = [], rc_n = 0\<rparr> 1 [] 4"
  define roots where "roots = [[], sp_root_before sp0, sp_root_after sp0, []]"
  define rc where "rc = root_chain_build toy_b3' roots"
  define sp where "sp = no_read_step toy_b3' [zeroed] rc 1 [] 4"
  define p where "p = (run_proof tiny_run (toy_params 1) 0 [] [])\<lparr>pp_root_chain_commitment := root_chain_root rc\<rparr>"
  define c where "c = tiny_ctx\<lparr>vc_k := 3, vc_total_roots := 4\<rparr>"
  have "sp_root_before sp = sp_root_before sp0" "sp_root_after sp = sp_root_after sp0"
    by (simp_all add: sp_def sp0_def no_read_step_def Let_def)
  then have "sp_reads sp = [] \<and> verify_step toy_b3' p c 0 sp = Inr (posme_hash toy_b3' [[], i2osp (Suc 1), [], sp_root_after sp])"
    using sp_def by (intro posme_reads_not_enforced [where arena = "[zeroed]" and m = 0 and roots = roots and k = 3 and i = 1
        and rc = rc and d = 4]) (simp_all add: roots_def rc_def p_def c_def tiny_ctx_def)
  moreover have "vc_d c = 4" by (simp add: c_def tiny_ctx_def)
  ultimately show ?thesis by blast
qed

text \<open>A read address near the end of the 32-bit range makes the verifier panic: the address is
  added to the arena size before it is compared with the address that the cursor gives.\<close>

theorem posme_read_address_panics:
  assumes "sp_reads sp = rd # rds" "length (sp_writers sp) \<le> length (sp_reads sp)"
    and "0 < sp_step_id sp" "sp_step_id sp \<le> vc_k c"
    and "verify_root_chain_path h (pp_root_chain_commitment p) (sp_step_id sp - 1) (sp_root_before sp)
      (fst (sp_root_chain_paths sp)) (vc_total_roots c)"
    and "verify_root_chain_path h (pp_root_chain_commitment p) (sp_step_id sp) (sp_root_after sp)
      (snd (sp_root_chain_paths sp)) (vc_total_roots c)"
    and "length (rw_merkle_path rd) = trailing_zeros (vc_n c)" "2 ^ 32 - vc_n c \<le> rw_address rd"
  shows "verify_step h p c depth sp = Inl PosmePanic"
proof -
  obtain vrec where "verify_step h p c depth sp = verify_step_body h p c vrec sp" using verify_step_is_body by metis
  moreover have "2 ^ 32 \<le> vc_n c + rw_address rd" using assms(8) by linarith
  ultimately show ?thesis using assms(1-7)
    by (simp add: verify_step_body_def Let_def require_path_def verify_path_def)
qed

theorem posme_read_address_panics_witness:
  "\<exists>p sp. rw_address (hd (sp_reads sp)) < 2 ^ 32 \<and> verify_step toy_b3' p tiny_ctx 0 sp = Inl PosmePanic"
proof -
  let ?rc = "root_chain_build toy_b3' [[1], [2], [3]]"
  let ?rd = "\<lparr>rw_address = 2 ^ 32 - 1, rw_block = zeroed, rw_merkle_path = []\<rparr>"
  let ?sp = "StepProof 1 [] [] [1] [2] (root_chain_prove ?rc 0, root_chain_prove ?rc 1) [?rd]
    \<lparr>ww_address = 0, ww_old_block = zeroed, ww_new_block = zeroed, ww_merkle_path = []\<rparr> []"
  let ?p = "(run_proof tiny_run (toy_params 1) 0 [] [])\<lparr>pp_root_chain_commitment := root_chain_root ?rc\<rparr>"
  have "verify_root_chain_path toy_b3' (root_chain_root ?rc) 0 [1] (root_chain_prove ?rc 0) 3"
    "verify_root_chain_path toy_b3' (root_chain_root ?rc) 1 [2] (root_chain_prove ?rc 1) 3"
    using chain.complete [of "[[1], [2], [3]]" 3 0 toy_b3'] chain.complete [of "[[1], [2], [3]]" 3 1 toy_b3'] by simp_all
  moreover have "trailing_zeros 1 = 0" using trailing_zeros_power [of 0] by simp
  ultimately have "verify_step toy_b3' ?p tiny_ctx 0 ?sp = Inl PosmePanic"
    by (intro posme_read_address_panics [where rd = ?rd and rds = "[]"]) (simp_all add: tiny_ctx_def)
  then show ?thesis by (intro exI [of _ ?p] exI [of _ ?sp]) simp
qed

subsection \<open>Equivalent computations\<close>

text \<open>C22: Updating one leaf of the arena tree gives the tree that is built from the changed
  blocks.\<close>

theorem merkle_update_rebuilds:
  assumes "i < length bs"
  shows "merkle_update h i b (merkle_build h bs) = merkle_build h (bs[i := b])"
  using assms by (rule merkle_update_build)

theorem merkle_update_rebuilds_witness:
  "merkle_update toy_b3' 1 (zeroed\<lparr>b_data := replicate 32 5\<rparr>) (merkle_build toy_b3' (replicate 4 zeroed)) =
     merkle_build toy_b3' [zeroed, zeroed\<lparr>b_data := replicate 32 5\<rparr>, zeroed, zeroed]"
  using merkle_update_rebuilds [of 1 "replicate 4 zeroed" toy_b3' "zeroed\<lparr>b_data := replicate 32 5\<rparr>"]
  by (simp add: numeral_eq_Suc del: replicate.simps) (simp add: numeral_eq_Suc)

text \<open>The light step and the recording step compute the same arena, tree, written address, root
  and transcript, and the recording step logs the address and the block of every read.\<close>

theorem posme_light_step_agrees:
  assumes "d \<le> MAX_READS"
  shows "\<exists>arena' tree' l. posme_step h arena tree t st d = (arena', tree', l) \<and>
    posme_step_light h arena tree t st d = (arena', tree',
      \<lparr>sr_write_addr = sl_write_addr l, sr_root_after = sl_root_after l, sr_transcript = sl_transcript l\<rparr>) \<and>
    length (read_addrs l) = d \<and> read_blocks l = map ((!) arena) (read_addrs l) \<and>
    (\<forall>j < d. read_addrs l ! j = addr_from h (light_reads h arena t j) j (length arena))"
proof -
  from full_reads_spec [OF assms, of h arena t] obtain as bs where
    "full_reads h arena t d = (light_reads h arena t d, as, bs)" "length as = MAX_READS"
    "take d as = map (\<lambda>x. addr_from h (light_reads h arena t x) x (length arena)) [0 ..< d]"
    "take d bs = map (\<lambda>x. arena ! addr_from h (light_reads h arena t x) x (length arena)) [0 ..< d]"
    by blast
  then show ?thesis using assms
    by (simp add: posme_step_def posme_step_light_def Let_def read_addrs_def read_blocks_def)
qed

theorem posme_light_step_agrees_witness:
  "\<exists>arena' tree' l. posme_step toy_b3' [zeroed] (merkle_build toy_b3' [zeroed]) [1] 3 4 = (arena', tree', l) \<and>
     length (read_addrs l) = 4 \<and> read_blocks l = map ((!) [zeroed]) (read_addrs l)"
  using posme_light_step_agrees [of 4 toy_b3' "[zeroed]" "merkle_build toy_b3' [zeroed]" "[1]" 3]
  by (auto simp: MAX_READS_def)

subsection \<open>Challenges and parameters\<close>

text \<open>C23: The derivation of the challenges ends as soon as the stream has given enough distinct
  steps, and then returns exactly the asked number of distinct steps between 1 and the last
  step.\<close>

theorem posme_challenges_end:
  assumes "challenges p \<le> card (stream_steps (xof (challenge_seed t c p)) (total_steps p) M)" "0 < total_steps p"
  shows "\<exists>cs. derive_challenges xof t c p = Some cs \<and> distinct cs \<and> length cs = challenges p \<and>
    set cs \<subseteq> {1 .. total_steps p}"
  using challenge_loop_ends [OF assms(1), of 0 "[]"] assms(2)
  by (simp add: derive_challenges_def Let_def stream_steps_def)

theorem posme_challenges_end_witness:
  "\<exists>cs. derive_challenges toy_xof [1] [2] (toy_params 1) = Some cs \<and> distinct cs \<and> length cs = 2 \<and> set cs \<subseteq> {1..1024}"
proof -
  let ?s = "toy_xof (challenge_seed [1] [2] (toy_params 1))"
  obtain M where "2 \<le> card (stream_steps ?s 1024 M)"
    using toy_streams_ok(1) [of 1] by (auto simp: streams_ok_def toy_params_def)
  then show ?thesis using posme_challenges_end [of "toy_params 1" toy_xof "[1]" "[2]" M] by (simp add: toy_params_def)
qed

text \<open>Each of the four tiers has parameters that pass validation, with an arena of at most 128
  MiB; every other tier is refused.\<close>

theorem posme_tiers_valid:
  "(case for_tier tier of
      Inr p \<Rightarrow> tier \<in> {1..4} \<and> params_validate p = Inr () \<and> arena_bytes p \<le> 128 * 1024 * 1024
    | Inl e \<Rightarrow> tier \<notin> {1..4} \<and> e = InvalidParams)"
proof -
  have pw: "is_power_of_two 65536" "is_power_of_two 262144" "is_power_of_two 1048576" "is_power_of_two 2097152"
    using popcount_power [of 16] popcount_power [of 18] popcount_power [of 20] popcount_power [of 21]
    by (simp_all add: is_power_of_two_def)
  show ?thesis
    by (simp add: for_tier_def params_core_def params_standard_def params_enhanced_def params_maximum_def
        params_validate_def params_bounds pw arena_bytes_def)
qed

text \<open>The encoding of the parameters that the challenges depend on separates any two sets of
  valid parameters.\<close>

theorem posme_params_bound:
  assumes "params_validate p = Inr ()" "params_validate q = Inr ()"
    and "challenges p < 2 ^ 16" "challenges q < 2 ^ 16" "to_challenge_bytes p = to_challenge_bytes q"
  shows "p = q"
proof -
  obtain m where p: "arena_blocks p = 2 ^ m" "m \<le> 22" "total_steps p \<le> 2 ^ 24" "reads_per_step p \<in> {4..8}"
    "recursion_depth p \<in> {1..8}" by (rule params_validateE [OF assms(1)])
  obtain m' where q: "arena_blocks q = 2 ^ m'" "m' \<le> 22" "total_steps q \<le> 2 ^ 24" "reads_per_step q \<in> {4..8}"
    "recursion_depth q \<in> {1..8}" by (rule params_validateE [OF assms(2)])
  have le: "arena_blocks p \<le> 2 ^ 22" "arena_blocks q \<le> 2 ^ 22"
    using p(1,2) q(1,2) power_increasing [of m 22 "2 :: nat"] power_increasing [of m' 22 "2 :: nat"] by simp_all
  have b: "x = y" if "word_of_nat x = (word_of_nat y :: byte)" "x < 256" "y < 256" for x y
    using that by (metis mod_less unat_byte_of_nat)
  have eqs: "be 4 (arena_blocks p) = be 4 (arena_blocks q)" "be 4 (total_steps p) = be 4 (total_steps q)"
    "word_of_nat (reads_per_step p) = (word_of_nat (reads_per_step q) :: byte)"
    "be 2 (challenges p) = be 2 (challenges q)"
    "word_of_nat (recursion_depth p) = (word_of_nat (recursion_depth q) :: byte)"
    using assms(5) by (auto simp: to_challenge_bytes_def append_eq_append_conv)
  have "arena_blocks p = arena_blocks q" "total_steps p = total_steps q" "challenges p = challenges q"
    using be_inj [OF eqs(1)] be_inj [OF eqs(2)] be_inj [OF eqs(4)] le p(3) q(3) assms(3,4) by simp_all
  moreover have "reads_per_step p = reads_per_step q" "recursion_depth p = recursion_depth q"
    using b [OF eqs(3)] b [OF eqs(5)] p(4,5) q(4,5) by auto
  ultimately show ?thesis by (cases p; cases q) simp
qed

theorem posme_params_bound_witness:
  "to_challenge_bytes (toy_params 1) \<noteq> to_challenge_bytes (toy_params 2)"
proof
  assume "to_challenge_bytes (toy_params 1) = to_challenge_bytes (toy_params 2)"
  moreover have "params_validate (toy_params 1) = Inr ()" "params_validate (toy_params 2) = Inr ()"
    by (rule toy_params_valid, simp)+
  ultimately have "toy_params 1 = toy_params 2"
    by (intro posme_params_bound) (simp_all add: toy_params_def)
  then show False by (simp add: toy_params_def)
qed

end
