(* ===== verification/Short_Id.thy ===== *)
theory Short_Id
  imports Prelude
begin

unbundle bit_operations_syntax

text \<open>
  The short identifiers of the badge crate (\<open>badge-fingerprint/src/short_id.rs\<close>): a 45-bit
  value derived from an identifier, rendered as nine Crockford symbols and a check symbol
  modulo 37, and the validation of a transcription. A \<open>str\<close> is the list of its Unicode
  scalar values; its length and its split points are counted in UTF-8 bytes, as in Rust.
  SHA-256 is a parameter.
\<close>

subsection \<open>Strings of the standard library\<close>

type_synonym uchar = nat
type_synonym ustr = "uchar list"

definition ustr :: "string \<Rightarrow> ustr" where
  "ustr s = map of_char s"

definition utf8_len :: "uchar \<Rightarrow> nat" where
  "utf8_len c = (if c < 128 then 1 else if c < 2048 then 2 else if c < 65536 then 3 else 4)"

definition utf8_char :: "uchar \<Rightarrow> bytes" where
  "utf8_char c = map word_of_nat
     (if c < 128 then [c]
      else if c < 2048 then [192 + c div 64, 128 + c mod 64]
      else if c < 65536 then [224 + c div 4096, 128 + c div 64 mod 64, 128 + c mod 64]
      else [240 + c div 262144, 128 + c div 4096 mod 64, 128 + c div 64 mod 64, 128 + c mod 64])"

definition utf8 :: "ustr \<Rightarrow> bytes" where
  "utf8 s = concat (map utf8_char s)"

definition str_len :: "ustr \<Rightarrow> nat" where
  "str_len s = sum_list (map utf8_len s)"

text \<open>\<open>split_at\<close> counts bytes and panics (here \<open>None\<close>) off a character boundary.\<close>

fun str_split_at :: "nat \<Rightarrow> ustr \<Rightarrow> (ustr \<times> ustr) option" where
  "str_split_at 0 s = Some ([], s)"
| "str_split_at (Suc n) [] = None"
| "str_split_at (Suc n) (c # s) =
     (if utf8_len c \<le> Suc n
      then map_option (\<lambda>(a, b). (c # a, b)) (str_split_at (Suc n - utf8_len c) s) else None)"

definition is_whitespace :: "uchar \<Rightarrow> bool" where
  "is_whitespace c \<longleftrightarrow> 9 \<le> c \<and> c \<le> 13 \<or> 8192 \<le> c \<and> c \<le> 8202 \<or>
     c \<in> set [32, 133, 160, 5760, 8232, 8233, 8239, 8287, 12288]"

definition str_trim :: "ustr \<Rightarrow> ustr" where
  "str_trim s = rev (dropWhile is_whitespace (rev (dropWhile is_whitespace s)))"

definition ascii_upper :: "uchar \<Rightarrow> uchar" where
  "ascii_upper c = (if 97 \<le> c \<and> c \<le> 122 then c - 32 else c)"

definition strip_prefix :: "ustr \<Rightarrow> ustr \<Rightarrow> ustr option" where
  "strip_prefix p s = (if take (length p) s = p then Some (drop (length p) s) else None)"

subsection \<open>The identifiers\<close>

definition ALPHABET :: ustr where
  "ALPHABET = ustr ''0123456789ABCDEFGHJKMNPQRSTVWXYZ''"

definition CHECK_ALPHABET :: ustr where
  "CHECK_ALPHABET = ustr ''0123456789ABCDEFGHJKMNPQRSTVWXYZ*~$=U''"

definition ID_CHARS :: nat where
  "ID_CHARS = 9"

definition PAYLOAD_BITS :: nat where
  "PAYLOAD_BITS = 45"

definition SHORT_ID_DST :: ustr where
  "SHORT_ID_DST = ustr ''wp-short-id-v2:''"

definition payload_value :: "(bytes \<Rightarrow> bytes) \<Rightarrow> ustr \<Rightarrow> nat" where
  "payload_value sha identifier =
     (let digest = sha (utf8 SHORT_ID_DST @ utf8 identifier)
      in be_val (take 8 digest) AND (2 ^ PAYLOAD_BITS - 1))"

text \<open>The slots are filled from the last to the first.\<close>

fun payload_slots :: "nat \<Rightarrow> nat \<Rightarrow> ustr" where
  "payload_slots 0 acc = []"
| "payload_slots (Suc n) acc = payload_slots n (acc div 32) @ [ALPHABET ! (acc mod 32)]"

definition payload_string :: "nat \<Rightarrow> ustr" where
  "payload_string acc = payload_slots ID_CHARS acc"

definition check_symbol :: "nat \<Rightarrow> uchar" where
  "check_symbol v = CHECK_ALPHABET ! (v mod 37)"

definition payload_from_identifier :: "(bytes \<Rightarrow> bytes) \<Rightarrow> ustr \<Rightarrow> ustr" where
  "payload_from_identifier sha identifier = payload_string (payload_value sha identifier)"

definition short_id_from_identifier :: "(bytes \<Rightarrow> bytes) \<Rightarrow> ustr \<Rightarrow> ustr" where
  "short_id_from_identifier sha identifier =
     (let v = payload_value sha identifier; p = payload_string v
      in ustr ''WP-'' @ slice 0 3 p @ ustr ''-'' @ slice 3 6 p @ ustr ''-'' @ slice 6 9 p @
         ustr ''-'' @ [check_symbol v])"

datatype short_id_panic = NotCharBoundary

definition lookalike :: "uchar \<Rightarrow> uchar" where
  "lookalike c = (if c = 73 \<or> c = 76 then 49 else if c = 79 then 48 else c)"

fun payload_digits :: "bytes \<Rightarrow> nat \<Rightarrow> nat option" where
  "payload_digits [] v = Some v"
| "payload_digits (b # bs) v =
     (case index_of (unat b) ALPHABET of None \<Rightarrow> None | Some d \<Rightarrow> payload_digits bs (v * 32 + d))"

definition normalize :: "ustr \<Rightarrow> ustr" where
  "normalize short_id =
     (let up = map ascii_upper (str_trim short_id);
          body = (case strip_prefix (ustr ''WP-'') up of Some b \<Rightarrow> b | None \<Rightarrow> up)
      in map lookalike (filter (\<lambda>c. c \<noteq> 45) body))"

definition validate :: "ustr \<Rightarrow> (short_id_panic, ustr option) result" where
  "validate short_id =
     (let norm = normalize short_id in
      if str_len norm \<noteq> ID_CHARS + 1 then Inr None
      else case str_split_at ID_CHARS norm of
        None \<Rightarrow> Inl NotCharBoundary
      | Some (payload, check) \<Rightarrow>
          (case payload_digits (utf8 payload) 0 of
             None \<Rightarrow> Inr None
           | Some v \<Rightarrow>
               (case check of
                  [] \<Rightarrow> Inr None
                | c # _ \<Rightarrow> if c = check_symbol v then Inr (Some payload) else Inr None)))"

subsection \<open>The symbols\<close>

definition plain_symbol :: "uchar \<Rightarrow> bool" where
  "plain_symbol c \<longleftrightarrow> c < 128 \<and> c \<noteq> 45 \<and> \<not> is_whitespace c \<and> ascii_upper c = c \<and> lookalike c = c"

lemma length_alphabets [simp]: "length ALPHABET = 32" "length CHECK_ALPHABET = 37"
  by code_simp+

lemma distinct_alphabets [simp]: "distinct ALPHABET" "distinct CHECK_ALPHABET"
  by code_simp+

lemma plain_check: "c \<in> set CHECK_ALPHABET \<Longrightarrow> plain_symbol c"
proof -
  have "list_all plain_symbol CHECK_ALPHABET"
    by (simp add: CHECK_ALPHABET_def ustr_def of_char_def plain_symbol_def is_whitespace_def
      ascii_upper_def lookalike_def)
  then show "c \<in> set CHECK_ALPHABET \<Longrightarrow> plain_symbol c" by (simp add: list_all_iff)
qed

lemma take_check_alphabet: "take 32 CHECK_ALPHABET = ALPHABET"
  by code_simp

lemma alphabet_sub: "set ALPHABET \<subseteq> set CHECK_ALPHABET"
  using set_take_subset [of 32 CHECK_ALPHABET] by (simp add: take_check_alphabet)

lemma ALPHABET_nth_check: "d < 32 \<Longrightarrow> ALPHABET ! d = CHECK_ALPHABET ! d"
  by (metis nth_take take_check_alphabet)

lemma check_symbol_in: "check_symbol v \<in> set CHECK_ALPHABET"
  by (simp add: check_symbol_def nth_mem)

lemma check_symbol_eq_iff: "check_symbol v = check_symbol w \<longleftrightarrow> v mod 37 = w mod 37"
  by (simp add: check_symbol_def nth_eq_iff_index_eq)

lemma utf8_plain:
  "\<forall>c \<in> set s. plain_symbol c \<Longrightarrow> utf8 s = map word_of_nat s \<and> str_len s = length s"
  by (induction s) (auto simp: utf8_def utf8_char_def str_len_def utf8_len_def plain_symbol_def)

lemma str_split_plain:
  "\<forall>c \<in> set s. plain_symbol c \<Longrightarrow> n \<le> length s \<Longrightarrow> str_split_at n s = Some (take n s, drop n s)"
proof (induction n s rule: str_split_at.induct)
  case (3 n c s)
  then have c: "utf8_len c = 1" by (simp add: plain_symbol_def utf8_len_def)
  with 3 show ?case by simp
qed auto

lemma trim_plain:
  assumes "\<forall>c \<in> set s. \<not> is_whitespace c"
  shows "str_trim s = s"
proof -
  have d: "dropWhile is_whitespace t = t" if "\<forall>c \<in> set t. \<not> is_whitespace c" for t
    using that by (cases t) simp_all
  show ?thesis using d [OF assms] d [of "rev s"] assms by (simp add: str_trim_def)
qed

lemma normalize_plain:
  assumes "\<forall>c \<in> set s. plain_symbol c"
  shows "normalize s = s"
proof -
  have t: "str_trim s = s" using assms by (intro trim_plain) (simp add: plain_symbol_def)
  have up: "map ascii_upper s = s" using assms by (simp add: map_idI plain_symbol_def)
  have f: "filter (\<lambda>c. c \<noteq> 45) s = s" using assms by (simp add: plain_symbol_def)
  have l: "map lookalike s = s" using assms by (simp add: map_idI plain_symbol_def)
  have "strip_prefix (ustr ''WP-'') s = None"
  proof (rule ccontr)
    assume "strip_prefix (ustr ''WP-'') s \<noteq> None"
    then have "take 3 s = [87, 80, 45]"
      by (simp add: strip_prefix_def ustr_def of_char_def numeral_3_eq_3 split: if_splits)
    then have "45 \<in> set (take 3 s)" by simp
    then have "45 \<in> set s" by (rule in_set_takeD)
    with assms show False by (auto simp: plain_symbol_def)
  qed
  then show ?thesis by (simp add: normalize_def t up f l)
qed

subsection \<open>Digits\<close>

definition digits_value :: "nat list \<Rightarrow> nat" where
  "digits_value ds = foldl (\<lambda>v d. v * 32 + d) 0 ds"

lemma digits_value_Nil [simp]: "digits_value [] = 0"
  by (simp add: digits_value_def)

lemma digits_value_snoc [simp]: "digits_value (ds @ [d]) = digits_value ds * 32 + d"
  by (simp add: digits_value_def)

lemma digits_value_append: "digits_value (ds @ es) = digits_value ds * 32 ^ length es + digits_value es"
proof (induction es rule: rev_induct)
  case (snoc e es)
  have "digits_value (ds @ es @ [e]) = digits_value (ds @ es) * 32 + e"
    using digits_value_snoc [of "ds @ es" e] by simp
  with snoc show ?case by (simp add: algebra_simps)
qed simp

lemma digits_value_single [simp]: "digits_value [d] = d"
  using digits_value_snoc [of "[]" d] by simp

lemma digits_value_Cons: "digits_value (d # ds) = d * 32 ^ length ds + digits_value ds"
  using digits_value_append [of "[d]" ds] by simp

lemma payload_digits_symbols:
  assumes "\<forall>c \<in> set p. plain_symbol c"
  shows "payload_digits (map word_of_nat p) v =
    (if set p \<subseteq> set ALPHABET
     then Some (foldl (\<lambda>v d. v * 32 + d) v (map (\<lambda>c. the (index_of c ALPHABET)) p)) else None)"
  using assms
proof (induction p arbitrary: v)
  case (Cons c p)
  then have "c mod 256 = c" by (simp add: plain_symbol_def)
  moreover have "index_of c ALPHABET = None \<longleftrightarrow> c \<notin> set ALPHABET" by simp
  ultimately show ?case using Cons
    by (cases "index_of c ALPHABET") (simp_all del: index_of_None)
qed simp

lemma validate_plain:
  assumes "set p \<subseteq> set CHECK_ALPHABET" "c \<in> set CHECK_ALPHABET" "length p = 9"
  shows "validate (p @ [c]) =
    (if set p \<subseteq> set ALPHABET \<and>
        c = check_symbol (digits_value (map (\<lambda>c. the (index_of c ALPHABET)) p))
     then Inr (Some p) else Inr None)"
proof -
  have pl: "\<forall>x \<in> set (p @ [c]). plain_symbol x" using assms plain_check by auto
  have pl': "\<forall>x \<in> set p. plain_symbol x" using pl by simp
  have sl: "str_len (p @ [c]) = 10" using utf8_plain [OF pl] assms(3) by simp
  have sp: "str_split_at 9 (p @ [c]) = Some (p, [c])"
    using str_split_plain [OF pl, of 9] assms(3) by simp
  have u: "utf8 p = map word_of_nat p" using utf8_plain [OF pl'] by simp
  show ?thesis
    by (simp add: validate_def normalize_plain [OF pl] sl sp ID_CHARS_def u
      payload_digits_symbols [OF pl'] digits_value_def)
qed

lemma length_payload_slots [simp]: "length (payload_slots n v) = n"
  by (induction n v rule: payload_slots.induct) auto

lemma payload_slots_sub: "set (payload_slots n v) \<subseteq> set ALPHABET"
  by (induction n v rule: payload_slots.induct) (auto simp: nth_mem)

lemma payload_slots_value:
  "digits_value (map (\<lambda>c. the (index_of c ALPHABET)) (payload_slots n v)) = v mod 32 ^ n"
proof (induction n v rule: payload_slots.induct)
  case (2 n acc)
  have "acc mod (32 * 32 ^ n) = 32 * (acc div 32 mod 32 ^ n) + acc mod 32"
    by (rule mod_mult2_eq)
  with 2 show ?case by (simp add: index_of_nth)
qed simp

lemma payload_value_mod:
  "payload_value sha i = be_val (take 8 (sha (utf8 SHORT_ID_DST @ utf8 i))) mod 2 ^ 45"
proof -
  have "x AND (2 ^ 45 - 1) = x mod 2 ^ 45" for x :: nat
    by (metis take_bit_eq_mask take_bit_eq_mod mask_eq_exp_minus_1)
  then show ?thesis by (simp add: payload_value_def PAYLOAD_BITS_def)
qed

lemma payload_value_bound: "payload_value sha i < 2 ^ 45"
  by (simp add: payload_value_mod)

subsection \<open>The transcription\<close>

lemma normalize_spaced:
  assumes "\<forall>c \<in> set l. is_whitespace c" "\<forall>c \<in> set r. is_whitespace c"
    and "body \<noteq> []" "\<not> is_whitespace (hd body)" "\<not> is_whitespace (last body)"
  shows "normalize (l @ body @ r) = normalize body"
proof -
  have d: "dropWhile is_whitespace (l @ body @ r) = body @ r"
    using assms by (simp add: dropWhile_append2) (cases body; simp)
  have "dropWhile is_whitespace (rev (body @ r)) = rev body"
    using assms(2,3,5) dropWhile_append2 [of "rev r" is_whitespace "rev body"]
    by (cases body rule: rev_cases) simp_all
  moreover have "dropWhile is_whitespace body = body" using assms by (cases body) simp_all
  moreover have "dropWhile is_whitespace (rev body) = rev body"
    using assms by (cases body rule: rev_cases) simp_all
  ultimately have "str_trim (l @ body @ r) = str_trim body" by (simp add: str_trim_def d)
  then show ?thesis by (simp add: normalize_def)
qed

end
