(* ===== verification/Short_Id_Props.thy ===== *)
theory Short_Id_Props
  imports Short_Id
begin

text \<open>
  Correctness of the short identifiers: every transcription of an identifier validates back to its
  payload, and the check symbol catches every substitution of one
  symbol and every exchange of two neighbours.
\<close>

subsection \<open>Normalising a display form\<close>

definition ascii_lower :: "uchar \<Rightarrow> uchar" where
  "ascii_lower c = (if 65 \<le> c \<and> c \<le> 90 then c + 32 else c)"

lemma is_whitespace_lower [simp]: "is_whitespace (ascii_lower c) = is_whitespace c"
  by (auto simp: is_whitespace_def ascii_lower_def)

lemma ascii_upper_lower [simp]: "ascii_upper (ascii_lower c) = ascii_upper c"
  by (auto simp: ascii_upper_def ascii_lower_def)

lemma slices_9: "length p = 9 \<Longrightarrow> slice 0 3 p @ slice 3 6 p @ slice 6 9 p = p"
proof -
  assume l: "length p = 9"
  have "slice 6 9 p = drop 6 p" using l by (simp add: slice_def)
  moreover have "slice 3 6 p @ drop 6 p = drop 3 p"
    using append_take_drop_id [of 3 "drop 3 p"] by (simp add: slice_def)
  ultimately show ?thesis by (simp add: slice_def)
qed

lemma validate_cong: "normalize s = normalize t \<Longrightarrow> validate s = validate t"
  by (simp add: validate_def)

lemma validate_display:
  assumes "v < 2 ^ 45"
  shows "validate (payload_string v @ [check_symbol v]) = Inr (Some (payload_string v))"
proof -
  have "v mod 32 ^ 9 = v" using assms by simp
  then have "digits_value (map (\<lambda>c. the (index_of c ALPHABET)) (payload_string v)) = v"
    using payload_slots_value [of 9 v] by (simp add: payload_string_def ID_CHARS_def)
  then show ?thesis
    using validate_plain [of "payload_string v" "check_symbol v"] payload_slots_sub [of 9 v]
      alphabet_sub check_symbol_in [of v]
    by (simp add: payload_string_def ID_CHARS_def)
qed

lemma payload_plain: "\<forall>x \<in> set (payload_string v). plain_symbol x"
  using payload_slots_sub [of 9 v] alphabet_sub plain_check
  by (auto simp: payload_string_def ID_CHARS_def)

subsection \<open>The check symbol\<close>

lemma digits_value_update:
  "i < length ds \<Longrightarrow>
   int (digits_value (ds[i := d])) - int (digits_value ds) = (int d - int (ds ! i)) * 32 ^ (length ds - Suc i)"
proof (induction ds arbitrary: i)
  case (Cons e ds)
  then show ?case
    by (cases i) (simp_all add: digits_value_Cons algebra_simps)
qed simp

lemma digits_value_swap:
  "Suc i < length ds \<Longrightarrow>
   int (digits_value (ds[i := ds ! Suc i, Suc i := ds ! i])) - int (digits_value ds)
     = (int (ds ! Suc i) - int (ds ! i)) * (31 * 32 ^ (length ds - Suc (Suc i)))"
proof (induction ds arbitrary: i)
  case (Cons e ds)
  show ?case
  proof (cases i)
    case 0
    with Cons.prems show ?thesis
      by (cases ds) (simp_all add: digits_value_Cons algebra_simps)
  next
    case (Suc j)
    with Cons show ?thesis by (simp add: digits_value_Cons algebra_simps)
  qed
qed simp

lemma coprime_37: "coprime (37::int) (32 ^ k)" "coprime (37::int) (31 * 32 ^ k)"
proof -
  have c: "coprime (37::int) 32" "coprime (37::int) 31" by code_simp+
  then show "coprime (37::int) (32 ^ k)" by simp
  with c show "coprime (37::int) (31 * 32 ^ k)" by simp
qed

lemma coprime_37_2: "coprime (37::int) 2"
  by code_simp

text \<open>Two numbers below 37 whose difference times a unit modulo 37 vanishes are equal.\<close>

lemma unit_cancel_37:
  fixes a b w v v' :: nat and u :: int
  assumes "v mod 37 = v' mod 37" "int v' - int v = (int a - int b) * u" "coprime 37 u" "a < 37" "b < 37"
  shows "a = b"
proof -
  have "int v' mod 37 = int v mod 37" using assms(1) by (metis of_nat_mod of_nat_numeral)
  then have "37 dvd int v' - int v" by (simp add: mod_eq_dvd_iff)
  then have "37 dvd int a - int b" using assms(2,3) by (simp add: coprime_dvd_mult_left_iff)
  then obtain k where k: "int a - int b = 37 * k" by (auto simp: dvd_def)
  then have "k = 0" using assms(4,5) by linarith
  with k show ?thesis by simp
qed

definition digit_of :: "uchar \<Rightarrow> nat" where
  "digit_of c = the (index_of c ALPHABET)"

lemma digit_of: "c \<in> set ALPHABET \<Longrightarrow> digit_of c < 32 \<and> ALPHABET ! digit_of c = c"
proof -
  assume "c \<in> set ALPHABET"
  then have "index_of c ALPHABET = Some (digit_of c)"
    by (cases "index_of c ALPHABET") (auto simp: digit_of_def)
  then show ?thesis using index_of_Some [of c ALPHABET "digit_of c"] by simp
qed

lemma digit_of_eq_iff:
  "c \<in> set ALPHABET \<Longrightarrow> c' \<in> set ALPHABET \<Longrightarrow> digit_of c = digit_of c' \<longleftrightarrow> c = c'"
  by (metis digit_of)

lemma check_symbol_digit: "c \<in> set ALPHABET \<Longrightarrow> c = check_symbol v \<longleftrightarrow> digit_of c = v mod 37"
proof -
  assume c: "c \<in> set ALPHABET"
  then have "c = CHECK_ALPHABET ! digit_of c" "digit_of c < 37"
    using digit_of [OF c] ALPHABET_nth_check [of "digit_of c"] by simp_all
  then show ?thesis
    by (metis check_symbol_def distinct_alphabets(2) length_alphabets(2) mod_less_divisor
      nth_eq_iff_index_eq zero_less_numeral)
qed

lemma validate_accepts:
  assumes "set p \<subseteq> set CHECK_ALPHABET" "c \<in> set CHECK_ALPHABET" "length p = 9"
  shows "validate (p @ [c]) =
    (if set p \<subseteq> set ALPHABET \<and> c = check_symbol (digits_value (map digit_of p))
     then Inr (Some p) else Inr None)"
  using validate_plain [OF assms] by (simp add: digit_of_def [abs_def])

lemma validate_substituted_payload:
  assumes p: "set p \<subseteq> set ALPHABET" "length p = 9" "c = check_symbol (digits_value (map digit_of p))"
    and i: "i < 9" "x \<in> set CHECK_ALPHABET" "x \<noteq> p ! i"
  shows "validate (p[i := x] @ [c]) = Inr None"
proof (cases "x \<in> set ALPHABET")
  case False
  moreover have "set (p[i := x]) \<subseteq> set CHECK_ALPHABET"
    using set_update_subset_insert [of p i x] p(1) i(2) alphabet_sub by blast
  moreover have "x \<in> set (p[i := x])" using p(2) i(1) by (simp add: set_update_memI)
  ultimately show ?thesis using validate_accepts [of "p[i := x]" c] p check_symbol_in by auto
next
  case True
  have sub: "set (p[i := x]) \<subseteq> set CHECK_ALPHABET"
    using set_update_subset_insert [of p i x] p(1) i(2) alphabet_sub by blast
  have pi: "p ! i \<in> set ALPHABET" using p(1,2) i(1) nth_mem [of i p] by auto
  let ?v = "digits_value (map digit_of p)" and ?v' = "digits_value ((map digit_of p)[i := digit_of x])"
  have "?v mod 37 \<noteq> ?v' mod 37"
  proof
    assume "?v mod 37 = ?v' mod 37"
    moreover have "int ?v' - int ?v = (int (digit_of x) - int (digit_of (p ! i))) * 32 ^ (9 - Suc i)"
      using digits_value_update [of i "map digit_of p" "digit_of x"] p(2) i(1) by simp
    moreover have "digit_of x < 37" "digit_of (p ! i) < 37"
      using digit_of [OF True] digit_of [OF pi] by simp_all
    ultimately have "digit_of x = digit_of (p ! i)" using coprime_37(1) by (blast intro: unit_cancel_37)
    then show False using digit_of_eq_iff [OF True pi] i(3) by simp
  qed
  then show ?thesis
    using validate_accepts [OF sub, of c] p check_symbol_in by (simp add: map_update check_symbol_eq_iff)
qed

lemma validate_substituted_check:
  assumes "set p \<subseteq> set ALPHABET" "length p = 9" "c = check_symbol (digits_value (map digit_of p))"
    and "x \<in> set CHECK_ALPHABET" "x \<noteq> c"
  shows "validate (p @ [x]) = Inr None"
  using validate_accepts [of p x] assms alphabet_sub by auto

lemma validate_swapped_payload:
  assumes p: "set p \<subseteq> set ALPHABET" "length p = 9" "c = check_symbol (digits_value (map digit_of p))"
    and i: "Suc i < 9" "p ! i \<noteq> p ! Suc i"
  shows "validate (p[i := p ! Suc i, Suc i := p ! i] @ [c]) = Inr None"
proof -
  let ?q = "p[i := p ! Suc i, Suc i := p ! i]"
  have pi: "p ! i \<in> set ALPHABET" "p ! Suc i \<in> set ALPHABET"
    using p(1,2) i(1) nth_mem [of i p] nth_mem [of "Suc i" p] by auto
  have "set ?q \<subseteq> set ALPHABET" by (intro set_update_subsetI p(1) pi)
  then have sub: "set ?q \<subseteq> set CHECK_ALPHABET" using alphabet_sub by (rule subset_trans)
  let ?v = "digits_value (map digit_of p)" and ?v' = "digits_value (map digit_of ?q)"
  have "?v mod 37 \<noteq> ?v' mod 37"
  proof
    assume "?v mod 37 = ?v' mod 37"
    moreover have "int ?v' - int ?v
        = (int (digit_of (p ! Suc i)) - int (digit_of (p ! i))) * (31 * 32 ^ (9 - Suc (Suc i)))"
      using digits_value_swap [of i "map digit_of p"] p(2) i(1) by (simp add: map_update)
    moreover have "digit_of (p ! Suc i) < 37" "digit_of (p ! i) < 37"
      using digit_of [OF pi(1)] digit_of [OF pi(2)] by simp_all
    ultimately have "digit_of (p ! Suc i) = digit_of (p ! i)"
      using coprime_37(2) by (blast intro: unit_cancel_37)
    then show False using digit_of_eq_iff [OF pi] i(2) by simp
  qed
  then show ?thesis
    using validate_accepts [OF sub, of c] p check_symbol_in by (simp add: check_symbol_eq_iff)
qed

lemma validate_swapped_check:
  assumes p: "set (q @ [a]) \<subseteq> set ALPHABET" "length q = 8"
      "c = check_symbol (digits_value (map digit_of (q @ [a])))" and "c \<noteq> a"
  shows "validate (q @ [c] @ [a]) = Inr None"
proof (cases "c \<in> set ALPHABET")
  case False
  then show ?thesis
    using validate_accepts [of "q @ [c]" a] p check_symbol_in alphabet_sub by auto
next
  case True
  have a: "a \<in> set ALPHABET" using p(1) by simp
  define u where "u = digits_value (map digit_of q)"
  have "digit_of a \<noteq> (u * 32 + digit_of c) mod 37"
  proof
    assume 1: "digit_of a = (u * 32 + digit_of c) mod 37"
    have 2: "digit_of c = (u * 32 + digit_of a) mod 37"
      using check_symbol_digit [OF True, of "u * 32 + digit_of a"] p(3) by (simp add: u_def)
    have b: "digit_of a < 32" "digit_of c < 32" using digit_of a True by blast+
    have "(digit_of a + digit_of a) mod 37 = (u * 32 + digit_of c + digit_of a) mod 37"
      using 1 by (metis mod_add_left_eq)
    also have "\<dots> = (u * 32 + digit_of a + digit_of c) mod 37" by (simp add: ac_simps)
    also have "\<dots> = (digit_of c + digit_of c) mod 37" using 2 by (metis mod_add_left_eq)
    finally have "digit_of c = digit_of a"
      using unit_cancel_37 [of "digit_of a + digit_of a" "digit_of c + digit_of c" "digit_of c"
        "digit_of a" 2] b coprime_37_2 by simp
    then show False using digit_of_eq_iff [OF a True] assms(4) by simp
  qed
  then have "a \<noteq> check_symbol (digits_value (map digit_of (q @ [c])))"
    using check_symbol_digit [OF a] by (simp add: u_def)
  then show ?thesis
    using validate_accepts [of "q @ [c]" a] p True a alphabet_sub by auto
qed

subsection \<open>The properties\<close>

text \<open>What a reader may write for a symbol: the symbol, its small letter, and I or L for 1 and O for 0 in
  either case.\<close>

definition spells :: "uchar \<Rightarrow> uchar \<Rightarrow> bool" where
  "spells w c \<longleftrightarrow> w = c \<or> w = ascii_lower c \<or> c = 49 \<and> w \<in> set (ustr ''ILil'') \<or> c = 48 \<and> w \<in> set (ustr ''Oo'')"

text \<open>A transcription: perhaps the prefix \<open>WP-\<close> in any case, then the symbols, with hyphens anywhere. Without
  the prefix the text must not itself begin with these three characters, since they would be taken for it.\<close>

definition transcribes :: "ustr \<Rightarrow> ustr \<Rightarrow> bool" where
  "transcribes t symbols \<longleftrightarrow> (\<exists>pre w. t = pre @ w \<and> list_all2 spells (filter (\<lambda>c. c \<noteq> 45) w) symbols \<and>
     (map ascii_upper pre = ustr ''WP-'' \<or> pre = [] \<and> take 3 (map ascii_upper w) \<noteq> ustr ''WP-''))"

lemma spells_symbol:
  assumes "spells w c" "plain_symbol c"
  shows "lookalike (ascii_upper w) = c" "\<not> is_whitespace w"
proof -
  have "lookalike (ascii_upper w) = c \<and> \<not> is_whitespace w"
    using assms(1) unfolding spells_def
  proof (elim disjE conjE)
    assume "w = ascii_lower c"
    then show ?thesis using assms(2) by (simp add: plain_symbol_def)
  qed (use assms(2) in \<open>auto simp: ustr_def of_char_def lookalike_def ascii_upper_def is_whitespace_def plain_symbol_def\<close>)
  then show "lookalike (ascii_upper w) = c" "\<not> is_whitespace w" by simp_all
qed

lemma prefix_not_whitespace: "map ascii_upper pre = ustr ''WP-'' \<Longrightarrow> \<forall>c \<in> set pre. \<not> is_whitespace c"
proof
  fix c assume "map ascii_upper pre = ustr ''WP-''" "c \<in> set pre"
  then have "ascii_upper c \<in> set (ustr ''WP-'')" by (metis image_eqI set_map)
  then show "\<not> is_whitespace c"
    by (auto simp: ustr_def of_char_def ascii_upper_def is_whitespace_def split: if_splits)
qed

lemma spelled_symbols:
  "list_all2 spells ws cs \<Longrightarrow> \<forall>c \<in> set cs. plain_symbol c \<Longrightarrow>
   map lookalike (map ascii_upper ws) = cs \<and> (\<forall>w \<in> set ws. \<not> is_whitespace w)"
  by (induction rule: list_all2_induct) (simp_all add: spells_symbol)

lemma filter_hyphen_upper: "filter (\<lambda>c. c \<noteq> 45) (map ascii_upper w) = map ascii_upper (filter (\<lambda>c. c \<noteq> 45) w)"
  by (induction w) (auto simp: ascii_upper_def)

lemma transcribes_normalize:
  assumes "transcribes t symbols" "\<forall>c \<in> set symbols. plain_symbol c"
  shows "normalize t = symbols" "\<forall>c \<in> set t. \<not> is_whitespace c"
proof -
  obtain pre w where t: "t = pre @ w" "list_all2 spells (filter (\<lambda>c. c \<noteq> 45) w) symbols"
      "map ascii_upper pre = ustr ''WP-'' \<or> pre = [] \<and> take 3 (map ascii_upper w) \<noteq> ustr ''WP-''"
    using assms(1) by (auto simp: transcribes_def)
  note sp = spelled_symbols [OF t(2) assms(2)]
  have hyphen: "\<not> is_whitespace 45" by (simp add: is_whitespace_def)
  have "\<not> is_whitespace c" if "c \<in> set w" for c using sp that hyphen by (cases "c = 45") auto
  moreover have "\<forall>c \<in> set pre. \<not> is_whitespace c" using t(3) prefix_not_whitespace by auto
  ultimately show ws: "\<forall>c \<in> set t. \<not> is_whitespace c" using t(1) by auto
  have len: "length (ustr ''WP-'') = 3" by (simp add: ustr_def)
  have "(case strip_prefix (ustr ''WP-'') (map ascii_upper t) of Some b \<Rightarrow> b | None \<Rightarrow> map ascii_upper t) = map ascii_upper w"
    using t(3)
  proof
    assume p: "map ascii_upper pre = ustr ''WP-''"
    then have "length pre = 3" using len by (metis length_map)
    then show ?thesis using p by (simp add: strip_prefix_def t(1) len)
  next
    assume "pre = [] \<and> take 3 (map ascii_upper w) \<noteq> ustr ''WP-''"
    then show ?thesis by (simp add: strip_prefix_def t(1) len)
  qed
  then show "normalize t = symbols"
    using sp by (simp add: normalize_def trim_plain [OF ws] Let_def filter_hyphen_upper del: map_append)
qed

lemma display_transcribes:
  "transcribes (short_id_from_identifier sha i) (payload_from_identifier sha i @ [check_symbol (payload_value sha i)])"
proof -
  let ?v = "payload_value sha i"
  let ?p = "payload_string ?v"
  let ?w = "slice 0 3 ?p @ ustr ''-'' @ slice 3 6 ?p @ ustr ''-'' @ slice 6 9 ?p @ ustr ''-'' @ [check_symbol ?v]"
  have plain: "c \<noteq> 45" if "c \<in> set ?p" for c using payload_plain that by (auto simp: plain_symbol_def)
  have keep: "filter (\<lambda>c. c \<noteq> 45) (slice a b ?p) = slice a b ?p" for a b
    using plain by (intro filter_True) (auto simp: slice_def dest: in_set_takeD in_set_dropD)
  have check: "check_symbol ?v \<noteq> 45" using plain_check [OF check_symbol_in] by (simp add: plain_symbol_def)
  have "filter (\<lambda>c. c \<noteq> 45) ?w = ?p @ [check_symbol ?v]"
    using slices_9 [of ?p] keep check by (simp add: ustr_def of_char_def payload_string_def ID_CHARS_def)
  moreover have "list_all2 spells cs cs" for cs by (induction cs) (simp_all add: spells_def)
  moreover have "map ascii_upper (ustr ''WP-'') = ustr ''WP-''" by (simp add: ustr_def of_char_def ascii_upper_def)
  ultimately show ?thesis
    unfolding transcribes_def
    by (intro exI [of _ "ustr ''WP-''"] exI [of _ ?w])
      (simp add: short_id_from_identifier_def payload_from_identifier_def Let_def)
qed

text \<open>C27: Let a text transcribe the nine payload symbols of an identifier and their check symbol: each letter
  in either case, I or L for 1 and O for 0, hyphens anywhere, the prefix \<open>WP-\<close> in any case or left out,
  and white space around the whole (white space inside is not allowed). Validating it returns the
  payload symbols that the identifier is looked up by. The displayed short identifier is one such
  transcription.\<close>

theorem short_id_roundtrip:
  assumes "\<forall>c \<in> set l. is_whitespace c" "\<forall>c \<in> set r. is_whitespace c"
    and "transcribes t (payload_from_identifier sha i @ [check_symbol (payload_value sha i)])"
  shows "validate (l @ t @ r) = Inr (Some (payload_from_identifier sha i))
    \<and> validate (short_id_from_identifier sha i) = Inr (Some (payload_from_identifier sha i))"
proof -
  let ?t = "payload_from_identifier sha i @ [check_symbol (payload_value sha i)]"
  have plain: "\<forall>c \<in> set ?t. plain_symbol c"
    using payload_plain plain_check [OF check_symbol_in] by (auto simp: payload_from_identifier_def)
  note norm = transcribes_normalize [OF assms(3) plain]
  have "t \<noteq> []" using norm(1) by (auto simp: normalize_def str_trim_def strip_prefix_def ustr_def)
  then have "normalize (l @ t @ r) = normalize t"
    using norm(2) by (intro normalize_spaced assms(1,2)) simp_all
  then have "normalize (l @ t @ r) = normalize ?t" using norm(1) normalize_plain [OF plain] by simp
  moreover have "normalize (short_id_from_identifier sha i) = normalize ?t"
    using transcribes_normalize(1) [OF display_transcribes plain] normalize_plain [OF plain] by simp
  moreover have "validate ?t = Inr (Some (payload_from_identifier sha i))"
    using validate_display [OF payload_value_bound] by (simp add: payload_from_identifier_def)
  ultimately show ?thesis using validate_cong by metis
qed

lemma toy_payload: "payload_value (\<lambda>_. [1,2,3,4,5,6,7,8,9]) x = 3315799033608"
  by (simp add: payload_value_mod be_val_def)

lemma toy_payload_string: "payload_from_identifier (\<lambda>_. [1,2,3,4,5,6,7,8,9]) x = ustr ''30G2GC1R8''"
proof -
  have n: "9 = Suc (Suc (Suc (Suc (Suc (Suc (Suc (Suc (Suc 0))))))))" by simp
  show ?thesis
    unfolding payload_from_identifier_def payload_string_def ID_CHARS_def n toy_payload
    by (simp add: ALPHABET_def ustr_def of_char_def)
qed

theorem short_id_roundtrip_witness:
  "validate ([32] @ ustr ''3oG-2g-CiR8'' @ [check_symbol 3315799033608] @ [10]) = Inr (Some (ustr ''30G2GC1R8''))"
proof -
  have c: "check_symbol 3315799033608 \<noteq> 45" using plain_check [OF check_symbol_in] by (simp add: plain_symbol_def)
  then have "transcribes (ustr ''3oG-2g-CiR8'' @ [check_symbol 3315799033608])
      (payload_from_identifier (\<lambda>_. [1,2,3,4,5,6,7,8,9]) [] @ [check_symbol (payload_value (\<lambda>_. [1,2,3,4,5,6,7,8,9]) [])])"
    unfolding transcribes_def toy_payload toy_payload_string
    by (intro exI [of _ "[]"] exI [of _ "ustr ''3oG-2g-CiR8'' @ [check_symbol 3315799033608]"])
      (simp add: ustr_def of_char_def spells_def ascii_lower_def ascii_upper_def)
  from short_id_roundtrip [of "[32]" "[10]", OF _ _ this] show ?thesis
    by (simp add: is_whitespace_def toy_payload_string)
qed

text \<open>C28: If a ten-symbol transcription is accepted, then replacing any one of its symbols by
  another, or exchanging any two neighbouring symbols that differ, is rejected: also where the
  change touches the check symbol.\<close>

theorem short_id_detects_errors:
  assumes "set s \<subseteq> set CHECK_ALPHABET" "length s = 10" "validate s = Inr (Some p)"
  shows "(\<forall>i < 10. \<forall>x \<in> set CHECK_ALPHABET. x \<noteq> s ! i \<longrightarrow> validate (s[i := x]) = Inr None)
    \<and> (\<forall>i < 9. s ! i \<noteq> s ! Suc i \<longrightarrow> validate (s[i := s ! Suc i, Suc i := s ! i]) = Inr None)"
proof -
  obtain q c where s: "s = q @ [c]" and q: "length q = 9"
    using assms(2) by (cases s rule: rev_cases) auto
  then have ok: "set q \<subseteq> set ALPHABET" "c = check_symbol (digits_value (map digit_of q))"
    using assms validate_accepts [of q c] by (auto split: if_splits)
  obtain q' a where qa: "q = q' @ [a]" "length q' = 8" using q by (cases q rule: rev_cases) auto
  have sub: "validate (s[i := x]) = Inr None"
    if "i < 10" "x \<in> set CHECK_ALPHABET" "x \<noteq> s ! i" for i x
  proof (cases "i = 9")
    case True
    then show ?thesis using validate_substituted_check [OF ok(1) q ok(2)] that q
      by (simp add: s list_update_append nth_append)
  next
    case False
    then show ?thesis using validate_substituted_payload [OF ok(1) q ok(2), of i x] that q
      by (simp add: s list_update_append nth_append)
  qed
  have swp: "validate (s[i := s ! Suc i, Suc i := s ! i]) = Inr None" if "i < 9" "s ! i \<noteq> s ! Suc i" for i
  proof (cases "i = 8")
    case True
    then show ?thesis using validate_swapped_check [of q' a c] ok that qa
      by (simp add: s list_update_append nth_append)
  next
    case False
    then show ?thesis using validate_swapped_payload [OF ok(1) q ok(2), of i] that q
      by (simp add: s list_update_append nth_append)
  qed
  show ?thesis using sub swp by blast
qed

theorem short_id_detects_errors_witness:
  "validate (ustr ''000000011~'') = Inr (Some (ustr ''000000011''))
   \<and> validate ((ustr ''000000011~'')[7 := 50]) = Inr None
   \<and> validate ((ustr ''000000011~'')[6 := 49, 7 := 48]) = Inr None"
proof -
  let ?s = "ustr ''000000011~''"
  have e: "?s = [48, 48, 48, 48, 48, 48, 48, 49, 49, 126]" by (simp add: ustr_def of_char_def)
  have c: "CHECK_ALPHABET = [48,49,50,51,52,53,54,55,56,57,65,66,67,68,69,70,71,72,74,75,77,78,80,
      81,82,83,84,86,87,88,89,90,42,126,36,61,85]"
    by (simp add: CHECK_ALPHABET_def ustr_def of_char_def)
  have dg: "digit_of 48 = 0" "digit_of 49 = 1" "{48, 49} \<subseteq> set ALPHABET"
    by (simp_all add: digit_of_def ALPHABET_def ustr_def of_char_def)
  have 1: "set ?s \<subseteq> set CHECK_ALPHABET" "length ?s = 10" by (simp_all add: e c)
  have 2: "validate ?s = Inr (Some (ustr ''000000011''))"
    using validate_accepts [of "[48, 48, 48, 48, 48, 48, 48, 49, 49]" 126] dg
    by (simp add: e c ustr_def of_char_def check_symbol_def digits_value_def)
  note d = short_id_detects_errors [OF 1 2]
  from d [THEN conjunct1, rule_format, of 7 50] have "validate (?s[7 := 50]) = Inr None"
    by (simp add: e c)
  moreover from d [THEN conjunct2, rule_format, of 6] have "validate (?s[6 := 49, 7 := 48]) = Inr None"
    by (simp add: e)
  ultimately show ?thesis using 2 by blast
qed

text \<open>A transcription of ten UTF-8 bytes whose ninth character takes two bytes is not
  rejected: splitting off the check symbol in the middle of the character panics.\<close>

theorem short_id_split_panics:
  assumes "length s = 8" "set s \<subseteq> set CHECK_ALPHABET" "128 \<le> c" "c < 2048" "\<not> is_whitespace c"
  shows "validate (s @ [c]) = Inl NotCharBoundary"
proof -
  have pl: "\<forall>x \<in> set s. plain_symbol x" using assms(2) plain_check by blast
  have cc: "ascii_upper c = c" "lookalike c = c" "c \<noteq> 45"
    using assms(3) by (simp_all add: ascii_upper_def lookalike_def)
  have up: "map ascii_upper (s @ [c]) = s @ [c]" "map lookalike (s @ [c]) = s @ [c]"
    "filter (\<lambda>x. x \<noteq> 45) (s @ [c]) = s @ [c]"
    using pl cc by (simp_all add: map_idI filter_id_conv plain_symbol_def)
  have t: "str_trim (s @ [c]) = s @ [c]"
    using pl assms(5) by (intro trim_plain) (auto simp: plain_symbol_def)
  have "take 3 (s @ [c]) \<noteq> ustr ''WP-''"
  proof
    assume "take 3 (s @ [c]) = ustr ''WP-''"
    then have "45 \<in> set (take 3 s)" using assms(1) by (simp add: ustr_def of_char_def)
    then show False using pl by (auto simp: plain_symbol_def dest: in_set_takeD)
  qed
  then have n: "normalize (s @ [c]) = s @ [c]"
    unfolding normalize_def t up by (simp add: strip_prefix_def up [simplified] Let_def ustr_def numeral_3_eq_3)
  have "str_len (s @ [c]) = 10"
    using utf8_plain [OF pl] assms by (simp add: str_len_def utf8_len_def)
  moreover have "str_split_at (length s + 1) (s @ [c]) = None"
    using pl assms(3,4)
  proof (induction s)
    case (Cons x s)
    then have "utf8_len x = 1" by (simp add: plain_symbol_def utf8_len_def)
    with Cons show ?case by simp
  qed (simp add: utf8_len_def)
  ultimately show ?thesis by (simp add: validate_def n ID_CHARS_def assms(1))
qed

theorem short_id_split_panics_witness:
  "validate (ustr ''00000001'' @ [233]) = Inl NotCharBoundary"
  by (rule short_id_split_panics)
    (simp_all add: ustr_def of_char_def CHECK_ALPHABET_def is_whitespace_def)

end
