(* ===== verification/Lamport.thy ===== *)
theory Lamport
  imports Prelude
begin

unbundle bit_operations_syntax

text \<open>
  The one-time signatures of \<open>cpoe/src/crypto/lamport.rs\<close>. A key is a flat buffer of 512
  blocks of 32 bytes, two for each bit of the message digest; the buffers are filled in place
  block by block, as the code does. A slice out of range panics. SHA-256 is a parameter. That
  a private key signs once is enforced by the type system (\<open>sign\<close> takes \<open>self\<close>) and is not
  part of the model.
\<close>

definition LN :: nat where
  "LN = 256"

definition H_SZ :: nat where
  "H_SZ = 32"

definition PAIR :: nat where
  "PAIR = LN * 2 * H_SZ"

record lamport_private_key =
  lsk_secrets :: bytes

record lamport_public_key =
  lpk_hashes :: bytes

record lamport_signature =
  lsig_revealed :: bytes

definition sig_to_bytes :: "lamport_signature \<Rightarrow> bytes" where
  "sig_to_bytes s = lsig_revealed s"

definition sig_from_bytes :: "bytes \<Rightarrow> lamport_signature option" where
  "sig_from_bytes bs = (if length bs \<noteq> LN * H_SZ then None else Some \<lparr>lsig_revealed = bs\<rparr>)"

text \<open>\<open>xs[off..off + n].copy_from_slice(bs)\<close> where \<open>n\<close> is the length of \<open>bs\<close>.\<close>

definition put_slice :: "nat \<Rightarrow> 'a list \<Rightarrow> 'a list \<Rightarrow> 'a list" where
  "put_slice off bs xs = take off xs @ bs @ drop (off + length bs) xs"

definition lamport_secret :: "(bytes \<Rightarrow> bytes) \<Rightarrow> bytes \<Rightarrow> nat \<Rightarrow> bytes" where
  "lamport_secret sha seed i = sha (ascii ''cpoe-lamport-v1'' @ seed @ le 4 i)"

definition from_seed :: "(bytes \<Rightarrow> bytes) \<Rightarrow> bytes \<Rightarrow> lamport_private_key \<times> lamport_public_key" where
  "from_seed sha seed =
     (let (secrets, hashes) =
        foldl (\<lambda>(secrets, hashes) i.
            let s = lamport_secret sha seed i; off = i * H_SZ
            in (put_slice off s secrets, put_slice off (sha s) hashes))
          (replicate PAIR 0, replicate PAIR 0) [0..<LN * 2]
      in (\<lparr>lsk_secrets = secrets\<rparr>, \<lparr>lpk_hashes = hashes\<rparr>))"

definition msg_bit :: "bytes \<Rightarrow> nat \<Rightarrow> nat" where
  "msg_bit msg_hash i = unat (drop_bit (7 - i mod 8) (msg_hash ! (i div 8)) AND 1)"

definition lamport_sign :: "lamport_private_key \<Rightarrow> bytes \<Rightarrow> lamport_signature" where
  "lamport_sign k msg_hash =
     \<lparr>lsig_revealed =
        foldl (\<lambda>revealed i.
            let s_off = (i * 2 + msg_bit msg_hash i) * H_SZ
            in put_slice (i * H_SZ) (slice s_off (s_off + H_SZ) (lsk_secrets k)) revealed)
          (replicate (LN * H_SZ) 0) [0..<LN]\<rparr>"

text \<open>The loop of \<open>verify\<close> runs to its end whatever it finds; \<open>None\<close> is the panic of a slice
  past the end of \<open>hashes\<close>, whose length the type does not fix.\<close>

fun lamport_verify_loop ::
    "(bytes \<Rightarrow> bytes) \<Rightarrow> bytes \<Rightarrow> bytes \<Rightarrow> bytes \<Rightarrow> nat list \<Rightarrow> bool \<Rightarrow> bool option" where
  "lamport_verify_loop sha hashes msg_hash revealed [] ok = Some ok"
| "lamport_verify_loop sha hashes msg_hash revealed (i # is) ok =
     (let actual = sha (slice (i * H_SZ) ((i + 1) * H_SZ) revealed);
          exp_off = (i * 2 + msg_bit msg_hash i) * H_SZ
      in if length hashes < exp_off + H_SZ then None
         else lamport_verify_loop sha hashes msg_hash revealed is
                (ok \<and> actual = slice exp_off (exp_off + H_SZ) hashes))"

definition lamport_verify ::
    "(bytes \<Rightarrow> bytes) \<Rightarrow> lamport_public_key \<Rightarrow> bytes \<Rightarrow> lamport_signature \<Rightarrow> bool option" where
  "lamport_verify sha pk msg_hash sig =
     (if length (lsig_revealed sig) \<noteq> LN * H_SZ then Some False
      else lamport_verify_loop sha (lpk_hashes pk) msg_hash (lsig_revealed sig) [0..<LN] True)"

definition pk_to_bytes :: "lamport_public_key \<Rightarrow> bytes" where
  "pk_to_bytes pk = lpk_hashes pk"

definition pk_from_bytes :: "bytes \<Rightarrow> lamport_public_key option" where
  "pk_from_bytes bs = (if length bs \<noteq> PAIR then None else Some \<lparr>lpk_hashes = bs\<rparr>)"

definition lamport_fingerprint :: "(bytes \<Rightarrow> bytes) \<Rightarrow> lamport_public_key \<Rightarrow> bytes" where
  "lamport_fingerprint sha pk = take 8 (sha (lpk_hashes pk))"

subsection \<open>Filling a buffer block by block\<close>

text \<open>Writing the blocks \<open>f 0\<close> to \<open>f (n - 1)\<close> in order leaves their concatenation.\<close>

lemma fill_prefix:
  assumes "\<And>i. length (f i) = b" "n * b \<le> length xs"
  shows "foldl (\<lambda>xs i. put_slice (i * b) (f i) xs) xs [0..<n] = concat (map f [0..<n]) @ drop (n * b) xs"
  using assms(2)
proof (induction n)
  case (Suc n)
  have l: "length (concat (map f [0..<n])) = n * b" by (induction n) (simp_all add: assms(1))
  have "drop (n * b + b) (concat (map f [0..<n]) @ drop (n * b) xs) = drop (b + n * b) xs"
    by (simp add: l add.commute)
  moreover have "take (n * b) (concat (map f [0..<n]) @ drop (n * b) xs) = concat (map f [0..<n])"
    by (simp add: l)
  moreover have "foldl (\<lambda>xs i. put_slice (i * b) (f i) xs) xs [0..<n] =
      concat (map f [0..<n]) @ drop (n * b) xs"
    using Suc by simp
  ultimately show ?case
    by (simp add: put_slice_def assms(1))
qed simp

lemma fill_all:
  assumes "\<And>i. length (f i) = b" "length xs = n * b"
  shows "foldl (\<lambda>xs i. put_slice (i * b) (f i) xs) xs [0..<n] = concat (map f [0..<n])"
  using fill_prefix [of f b n xs] assms by simp

lemma block_of_concat:
  assumes "\<And>i. length (f i) = b" "i < n"
  shows "slice (i * b) (i * b + b) (concat (map f [0..<n])) = f i"
proof -
  have l: "length (concat (map f [0..<k])) = k * b" for k by (induction k) (simp_all add: assms(1))
  have "[0..<n] = [0..<i] @ i # [Suc i..<n]"
    using assms(2) upt_add_eq_append [of 0 i "n - i"] upt_conv_Cons [of i n] by simp
  then have "concat (map f [0..<n]) = concat (map f [0..<i]) @ f i @ concat (map f [Suc i..<n])" by simp
  then show ?thesis using l [of i] assms(1) by (simp add: slice_def)
qed

lemma foldl_pair:
  "foldl (\<lambda>(x, y) i. (f x i, g y i)) (a, b) is = (foldl f a is, foldl g b is)"
  by (induction "is" arbitrary: a b) auto

lemma from_seed_eq:
  assumes "\<And>m. length (sha m) = 32"
  shows "from_seed sha seed =
    (\<lparr>lsk_secrets = concat (map (lamport_secret sha seed) [0..<512])\<rparr>,
     \<lparr>lpk_hashes = concat (map (\<lambda>i. sha (lamport_secret sha seed i)) [0..<512])\<rparr>)"
proof -
  have 1: "foldl (\<lambda>xs i. put_slice (i * 32) (lamport_secret sha seed i) xs) (replicate (512 * 32) 0) [0..<512]
      = concat (map (lamport_secret sha seed) [0..<512])"
    by (rule fill_all) (simp_all add: lamport_secret_def assms)
  have 2: "foldl (\<lambda>xs i. put_slice (i * 32) (sha (lamport_secret sha seed i)) xs) (replicate (512 * 32) 0) [0..<512]
      = concat (map (\<lambda>i. sha (lamport_secret sha seed i)) [0..<512])"
    by (rule fill_all) (simp_all add: assms)
  show ?thesis
    unfolding from_seed_def Let_def foldl_pair LN_def PAIR_def H_SZ_def using 1 2 by simp
qed

subsection \<open>The bits of a digest\<close>

lemma msg_bit_bit: "msg_bit m i = of_bool (bit (m ! (i div 8)) (7 - i mod 8))"
  by (simp add: msg_bit_def and_one_eq mod_2_eq_odd bit_iff_odd_drop_bit)

lemma msg_bit_less: "msg_bit m i < 2"
  by (simp add: msg_bit_bit)

text \<open>Different digests differ at some of their 256 bits.\<close>

lemma msg_bit_differs:
  assumes "length m = 32" "length m' = 32" "m \<noteq> m'"
  obtains i where "i < 256" "msg_bit m i \<noteq> msg_bit m' i"
proof -
  obtain k where k: "k < 32" "m ! k \<noteq> m' ! k" using assms by (metis nth_equalityI)
  have "\<exists>j < 8. bit (m ! k) j \<noteq> bit (m' ! k) j"
  proof (rule ccontr)
    assume "\<not> ?thesis"
    then have "m ! k = m' ! k" by (intro bit_word_eqI) auto
    with k(2) show False by contradiction
  qed
  then obtain j where j: "j < 8" "bit (m ! k) j \<noteq> bit (m' ! k) j" by blast
  define n where "n = k * 8 + (7 - j)"
  have "n mod 8 = (7 - j) mod 8" unfolding n_def by (rule mod_mult_self3)
  then have n: "n div 8 = k" "7 - n mod 8 = j" "n < 256" using j(1) k(1) by (auto simp: n_def)
  have "msg_bit m n \<noteq> msg_bit m' n" using j(2) by (simp add: msg_bit_bit n(1,2))
  with n(3) show ?thesis by (rule that)
qed

subsection \<open>Signing and verifying\<close>

lemma sign_from_seed:
  assumes "\<And>m. length (sha m) = 32"
  shows "lsig_revealed (lamport_sign (fst (from_seed sha seed)) m) =
    concat (map (\<lambda>i. lamport_secret sha seed (i * 2 + msg_bit m i)) [0..<256])"
proof -
  let ?S = "concat (map (lamport_secret sha seed) [0..<512])"
  let ?f = "\<lambda>i. slice ((i * 2 + msg_bit m i) * 32) ((i * 2 + msg_bit m i) * 32 + 32) ?S"
  have ls: "length (lamport_secret sha seed i) = 32" for i by (simp add: lamport_secret_def assms)
  have b: "?f i = lamport_secret sha seed (i * 2 + msg_bit m i)" if "i < 256" for i
    using block_of_concat [OF ls, of "i * 2 + msg_bit m i" 512] msg_bit_less [of m i] that by simp
  have fl: "foldl (\<lambda>xs i. put_slice (i * 32) (?f i) xs) xs [0..<256] =
      foldl (\<lambda>xs i. put_slice (i * 32) (lamport_secret sha seed (i * 2 + msg_bit m i)) xs) xs [0..<256]" for xs
    by (rule foldl_cong) (simp_all only: b set_upt atLeastLessThan_iff)
  have "foldl (\<lambda>xs i. put_slice (i * 32) (lamport_secret sha seed (i * 2 + msg_bit m i)) xs)
      (replicate (256 * 32) 0) [0..<256]
    = concat (map (\<lambda>i. lamport_secret sha seed (i * 2 + msg_bit m i)) [0..<256])"
    by (rule fill_all) (simp_all add: ls)
  then show ?thesis
    unfolding lamport_sign_def from_seed_eq [OF assms] Let_def LN_def H_SZ_def fst_conv
      lamport_private_key.simps lamport_signature.simps fl .
qed

lemma verify_loop_iff:
  assumes "\<And>i. i \<in> set is \<Longrightarrow> (i * 2 + msg_bit m i) * 32 + 32 \<le> length hashes"
  shows "lamport_verify_loop sha hashes m revealed is ok =
    Some (ok \<and> (\<forall>i \<in> set is. sha (slice (i * 32) (i * 32 + 32) revealed) =
      slice ((i * 2 + msg_bit m i) * 32) ((i * 2 + msg_bit m i) * 32 + 32) hashes))"
  using assms
proof (induction "is" arbitrary: ok)
  case (Cons i "is")
  then have "\<not> length hashes < (i * 2 + msg_bit m i) * 32 + 32" by (simp add: not_less)
  with Cons show ?case by (simp add: Let_def H_SZ_def add.commute conj_assoc)
qed simp

text \<open>A signature verifies for a digest iff it has the right length and its block for every
  bit hashes to the entry of the public key that the bit selects.\<close>

lemma lamport_verify_iff:
  assumes "\<And>m. length (sha m) = 32"
  shows "lamport_verify sha (snd (from_seed sha seed)) m sig =
    Some (length (lsig_revealed sig) = 8192 \<and>
      (\<forall>i < 256. sha (slice (i * 32) (i * 32 + 32) (lsig_revealed sig)) =
         sha (lamport_secret sha seed (i * 2 + msg_bit m i))))"
proof -
  let ?H = "concat (map (\<lambda>i. sha (lamport_secret sha seed i)) [0..<512])"
  have lc: "length (concat (map (\<lambda>i. sha (lamport_secret sha seed i)) [0..<k])) = k * 32" for k
    by (induction k) (simp_all add: assms)
  have lH: "length ?H = 16384" using lc [of 512] by simp
  have b: "slice ((i * 2 + msg_bit m i) * 32) ((i * 2 + msg_bit m i) * 32 + 32) ?H =
      sha (lamport_secret sha seed (i * 2 + msg_bit m i))" if "i < 256" for i
    using block_of_concat [of "\<lambda>i. sha (lamport_secret sha seed i)" 32 "i * 2 + msg_bit m i" 512]
      msg_bit_less [of m i] that assms by simp
  have bound: "(i * 2 + msg_bit m i) * 32 + 32 \<le> length ?H" if "i \<in> set [0..<256]" for i
    using that msg_bit_less [of m i] by (simp only: lH) simp
  have "lamport_verify_loop sha ?H m (lsig_revealed sig) [0..<256] True =
      Some (True \<and> (\<forall>i \<in> set [0..<256]. sha (slice (i * 32) (i * 32 + 32) (lsig_revealed sig)) =
        slice ((i * 2 + msg_bit m i) * 32) ((i * 2 + msg_bit m i) * 32 + 32) ?H))"
    by (rule verify_loop_iff) (rule bound)
  then show ?thesis
    using b by (simp add: lamport_verify_def from_seed_eq [OF assms] LN_def H_SZ_def atLeast0LessThan
      lessThan_iff Ball_def)
qed

lemma sign_block:
  assumes "\<And>m. length (sha m) = 32" "i < 256"
  shows "slice (i * 32) (i * 32 + 32) (lsig_revealed (lamport_sign (fst (from_seed sha seed)) m)) =
    lamport_secret sha seed (i * 2 + msg_bit m i)"
  unfolding sign_from_seed [OF assms(1)]
  by (rule block_of_concat) (simp_all add: lamport_secret_def assms)

lemma length_sign:
  assumes "\<And>m. length (sha m) = 32"
  shows "length (lsig_revealed (lamport_sign (fst (from_seed sha seed)) m)) = 8192"
proof -
  have "length (concat (map (\<lambda>i. lamport_secret sha seed (i * 2 + msg_bit m i)) [0..<k])) = k * 32" for k
    by (induction k) (simp_all add: lamport_secret_def assms)
  from this [of 256] show ?thesis by (simp add: sign_from_seed [OF assms])
qed

subsection \<open>The properties\<close>

text \<open>A digest function that depends on the length only, for the witnesses.\<close>

definition length_digest :: "bytes \<Rightarrow> bytes" where
  "length_digest m = replicate 31 7 @ [word_of_nat (length m)]"

lemma lamport_sign_verified:
  assumes "\<And>m. length (sha m) = 32" "from_seed sha seed = (sk, pk)"
  shows "lamport_verify sha pk m (lamport_sign sk m) = Some True
    \<and> sig_from_bytes (sig_to_bytes (lamport_sign sk m)) = Some (lamport_sign sk m)
    \<and> pk_from_bytes (pk_to_bytes pk) = Some pk"
proof -
  have sk: "sk = fst (from_seed sha seed)" and pk: "pk = snd (from_seed sha seed)"
    by (simp_all add: assms(2))
  have lc: "length (concat (map (\<lambda>i. sha (lamport_secret sha seed i)) [0..<k])) = k * 32" for k
    by (induction k) (simp_all add: assms(1))
  have "length (lpk_hashes pk) = 16384"
    unfolding pk from_seed_eq [OF assms(1)] using lc [of 512] by simp
  moreover have "lamport_verify sha pk m (lamport_sign sk m) = Some True"
    unfolding sk pk lamport_verify_iff [OF assms(1)] by (simp add: length_sign sign_block assms(1))
  moreover have "length (lsig_revealed (lamport_sign sk m)) = 8192"
    unfolding sk by (rule length_sign [OF assms(1)])
  ultimately show ?thesis
    by (simp add: sig_from_bytes_def sig_to_bytes_def pk_from_bytes_def pk_to_bytes_def LN_def
      H_SZ_def PAIR_def)
qed

text \<open>The signature made with the private key of a seed verifies under the public key of
  that seed, also after both went through their byte formats.\<close>

theorem lamport_sign_verifies:
  assumes "\<And>m. length (sha m) = 32" "from_seed sha seed = (sk, pk)"
  shows "lamport_verify sha pk m (lamport_sign sk m) = Some True
    \<and> sig_from_bytes (sig_to_bytes (lamport_sign sk m)) = Some (lamport_sign sk m)
    \<and> pk_from_bytes (pk_to_bytes pk) = Some pk"
  using assms by (rule lamport_sign_verified)

theorem lamport_sign_verifies_witness:
  "lamport_verify length_digest (snd (from_seed length_digest (replicate 32 66))) (replicate 32 170)
     (lamport_sign (fst (from_seed length_digest (replicate 32 66))) (replicate 32 170)) = Some True"
  by (rule lamport_sign_verifies [THEN conjunct1, of _ "replicate 32 66"])
    (simp_all add: length_digest_def)

text \<open>C29: A signature on one digest reveals, of the two secrets for each bit, only the one
  the bit selects; a signature that verifies for a different digest contains, for a bit where
  the digests differ, a preimage of the hash of the secret that was not revealed.\<close>

theorem lamport_forgery_needs_preimage:
  assumes "\<And>m. length (sha m) = 32" "from_seed sha seed = (sk, pk)"
    and "length m = 32" "length m' = 32" "m \<noteq> m'"
    and "lamport_verify sha pk m' forged = Some True"
  shows "lsig_revealed (lamport_sign sk m) =
      concat (map (\<lambda>i. lamport_secret sha seed (i * 2 + msg_bit m i)) [0..<256])
    \<and> (\<exists>i < 256. msg_bit m' i = 1 - msg_bit m i \<and>
      sha (slice (i * 32) (i * 32 + 32) (lsig_revealed forged)) =
        sha (lamport_secret sha seed (i * 2 + (1 - msg_bit m i))))"
proof
  have sk: "sk = fst (from_seed sha seed)" and pk: "pk = snd (from_seed sha seed)"
    by (simp_all add: assms(2))
  show "lsig_revealed (lamport_sign sk m) =
      concat (map (\<lambda>i. lamport_secret sha seed (i * 2 + msg_bit m i)) [0..<256])"
    unfolding sk by (rule sign_from_seed [OF assms(1)])
  obtain i where i: "i < 256" "msg_bit m i \<noteq> msg_bit m' i"
    using msg_bit_differs [OF assms(3-5)] by blast
  have "msg_bit m' i = 1 - msg_bit m i" using i(2) msg_bit_less [of m i] msg_bit_less [of m' i] by linarith
  moreover have "sha (slice (i * 32) (i * 32 + 32) (lsig_revealed forged)) =
      sha (lamport_secret sha seed (i * 2 + msg_bit m' i))"
    using assms(6) i(1) unfolding pk lamport_verify_iff [OF assms(1)] by simp
  ultimately show "\<exists>i < 256. msg_bit m' i = 1 - msg_bit m i \<and>
      sha (slice (i * 32) (i * 32 + 32) (lsig_revealed forged)) =
        sha (lamport_secret sha seed (i * 2 + (1 - msg_bit m i)))"
    using i(1) by auto
qed

theorem lamport_forgery_needs_preimage_witness:
  "\<exists>i < 256. msg_bit (replicate 32 85) i = 1 - msg_bit (replicate 32 170) i \<and>
     length_digest (slice (i * 32) (i * 32 + 32) (replicate 8192 0)) =
       length_digest (lamport_secret length_digest (replicate 32 66)
         (i * 2 + (1 - msg_bit (replicate 32 170) i)))"
proof -
  have d: "length (length_digest m) = 32" for m by (simp add: length_digest_def)
  have "lamport_verify length_digest (snd (from_seed length_digest (replicate 32 66))) (replicate 32 85)
      \<lparr>lsig_revealed = replicate 8192 0\<rparr> = Some True"
    unfolding lamport_verify_iff [OF d] by (simp add: lamport_secret_def length_digest_def)
  from lamport_forgery_needs_preimage [OF d prod.collapse [symmetric] _ _ _ this, of "replicate 32 170"]
  show ?thesis by simp
qed

end
