(* ===== verification/Vdf.thy ===== *)
theory Vdf
  imports Prelude
begin

text \<open>
  The delay function of \<open>cpoe/src/vdf\<close> (\<open>proof.rs\<close>, \<open>params.rs\<close>): iterated SHA-256, its proofs
  and their 80-byte format, the inputs that bind a proof to its place in a checkpoint chain,
  and the seeds of the memory-hard work function. Durations are counts of nanoseconds. The
  product of a duration in seconds with a rate, which the code takes in floating point and
  casts to \<open>u64\<close>, is the parameter \<open>rate\<close>; the wall-clock time that a computation took is
  the argument \<open>elapsed\<close>.
\<close>

record parameters =
  iterations_per_second :: nat
  min_iterations :: nat
  max_iterations :: nat

record vdf_proof =
  vdf_input :: bytes
  vdf_output :: bytes
  vdf_iterations :: nat
  vdf_duration :: nat

datatype vdf_error =
    DurationExceedsMaximum nat
  | ProofTooShort
  | ImplausibleDuration
  | CalibrationTooLow nat
  | CalibrationTooHigh nat

definition default_parameters :: parameters where
  "default_parameters = \<lparr>iterations_per_second = 1000000, min_iterations = 100000,
     max_iterations = 3600000000\<rparr>"

definition CALIBRATION_MIN_ITERS_PER_SEC :: nat where
  "CALIBRATION_MIN_ITERS_PER_SEC = 1000"

definition CALIBRATION_MAX_ITERS_PER_SEC :: nat where
  "CALIBRATION_MAX_ITERS_PER_SEC = 1000000000"

text \<open>The end of \<open>calibrate\<close>, from the measured rate on.\<close>

definition calibrated :: "nat \<Rightarrow> (vdf_error, parameters) result" where
  "calibrated ips =
     (if ips < CALIBRATION_MIN_ITERS_PER_SEC then Inl (CalibrationTooLow ips)
      else if CALIBRATION_MAX_ITERS_PER_SEC < ips then Inl (CalibrationTooHigh ips)
      else Inr \<lparr>iterations_per_second = ips, min_iterations = ips div 10, max_iterations = ips * 3600\<rparr>)"

subsection \<open>Computing and verifying\<close>

fun compute_chain :: "(bytes \<Rightarrow> bytes) \<Rightarrow> bytes \<Rightarrow> nat \<Rightarrow> bytes" where
  "compute_chain sha hash 0 = hash"
| "compute_chain sha hash (Suc n) = compute_chain sha (sha hash) n"

definition vdf_compute_iterations :: "(bytes \<Rightarrow> bytes) \<Rightarrow> bytes \<Rightarrow> nat \<Rightarrow> nat \<Rightarrow> vdf_proof" where
  "vdf_compute_iterations sha input iterations elapsed =
     \<lparr>vdf_input = input, vdf_output = compute_chain sha input iterations,
      vdf_iterations = iterations, vdf_duration = elapsed\<rparr>"

definition vdf_compute ::
    "(bytes \<Rightarrow> bytes) \<Rightarrow> (nat \<Rightarrow> nat \<Rightarrow> nat) \<Rightarrow> bytes \<Rightarrow> nat \<Rightarrow> parameters \<Rightarrow> nat \<Rightarrow>
     (vdf_error, vdf_proof) result" where
  "vdf_compute sha rate input target_duration params elapsed =
     (let iterations0 = rate target_duration (iterations_per_second params);
          iterations = (if iterations0 < min_iterations params then min_iterations params else iterations0)
      in if max_iterations params < iterations then Inl (DurationExceedsMaximum (max_iterations params))
         else Inr \<lparr>vdf_input = input, vdf_output = compute_chain sha input iterations,
                   vdf_iterations = iterations, vdf_duration = elapsed\<rparr>)"

text \<open>\<open>verify_with_progress\<close> without a callback; \<open>verify\<close> refuses a proof of no work first.\<close>

definition verify_with_progress :: "(bytes \<Rightarrow> bytes) \<Rightarrow> vdf_proof \<Rightarrow> bool" where
  "verify_with_progress sha p \<longleftrightarrow> compute_chain sha (vdf_input p) (vdf_iterations p) = vdf_output p"

definition vdf_verify :: "(bytes \<Rightarrow> bytes) \<Rightarrow> vdf_proof \<Rightarrow> bool" where
  "vdf_verify sha p = (if vdf_iterations p = 0 then False else verify_with_progress sha p)"

subsection \<open>The 80-byte format\<close>

definition MAX_PLAUSIBLE_NANOS :: nat where
  "MAX_PLAUSIBLE_NANOS = 3600 * 1000000000"

definition vdf_encode :: "vdf_proof \<Rightarrow> bytes" where
  "vdf_encode p = vdf_input p @ vdf_output p @ be 8 (vdf_iterations p) @
     be 8 (if vdf_duration p < 2 ^ 64 then vdf_duration p else 2 ^ 64 - 1)"

definition vdf_decode :: "bytes \<Rightarrow> (vdf_error, vdf_proof) result" where
  "vdf_decode data =
     (if length data < 80 then Inl ProofTooShort
      else
        let duration_nanos = be_val (slice 72 80 data) in
        if MAX_PLAUSIBLE_NANOS < duration_nanos then Inl ImplausibleDuration
        else Inr \<lparr>vdf_input = slice 0 32 data, vdf_output = slice 32 64 data,
                  vdf_iterations = be_val (slice 64 72 data), vdf_duration = duration_nanos\<rparr>)"

definition vdf_typed :: "vdf_proof \<Rightarrow> bool" where
  "vdf_typed p \<longleftrightarrow> length (vdf_input p) = 32 \<and> length (vdf_output p) = 32 \<and> vdf_iterations p < 2 ^ 64"

subsection \<open>Inputs and seeds\<close>

definition chain_input :: "(bytes \<Rightarrow> bytes) \<Rightarrow> bytes \<Rightarrow> bytes \<Rightarrow> nat \<Rightarrow> bytes" where
  "chain_input sha content_hash previous_hash ordinal =
     sha (ascii ''cpoe-vdf-v1'' @ content_hash @ previous_hash @ be 8 ordinal)"

definition chain_input_entangled ::
    "(bytes \<Rightarrow> bytes) \<Rightarrow> bytes \<Rightarrow> bytes \<Rightarrow> bytes \<Rightarrow> nat \<Rightarrow> bytes" where
  "chain_input_entangled sha previous_vdf_output jitter_hash content_hash ordinal =
     sha (ascii ''cpoe-vdf-entangled-v1'' @ previous_vdf_output @ jitter_hash @ content_hash @ be 8 ordinal)"

definition SWF_SEED_DST :: bytes where
  "SWF_SEED_DST = ascii ''PoP-SWF-Seed-v1''"

definition swf_seed_genesis :: "(bytes \<Rightarrow> bytes) \<Rightarrow> bytes \<Rightarrow> bytes \<Rightarrow> bytes" where
  "swf_seed_genesis sha doc_ref_cbor jitter_or_nonce = sha (SWF_SEED_DST @ doc_ref_cbor @ jitter_or_nonce)"

definition swf_seed_enhanced :: "(bytes \<Rightarrow> bytes) \<Rightarrow> bytes \<Rightarrow> bytes \<Rightarrow> bytes \<Rightarrow> bytes" where
  "swf_seed_enhanced sha prev_hash jitter_intervals_cbor physical_state_cbor =
     sha (SWF_SEED_DST @ prev_hash @ jitter_intervals_cbor @ physical_state_cbor)"

definition swf_seed_core :: "(bytes \<Rightarrow> bytes) \<Rightarrow> bytes \<Rightarrow> bytes \<Rightarrow> bytes" where
  "swf_seed_core sha prev_hash local_nonce = sha (SWF_SEED_DST @ prev_hash @ local_nonce)"

subsection \<open>Facts\<close>

lemma compute_chain_funpow: "compute_chain sha x n = (sha ^^ n) x"
  by (induction n arbitrary: x) (simp_all add: funpow_swap1)

lemma compute_chain_length:
  "0 < n \<Longrightarrow> \<forall>x. length (sha x) = 32 \<Longrightarrow> length (compute_chain sha x n) = 32"
  by (cases n) (simp_all add: compute_chain_funpow)

lemma vdf_compute_iff:
  "vdf_compute sha rate input d params elapsed = Inr p \<longleftrightarrow>
     max (rate d (iterations_per_second params)) (min_iterations params) \<le> max_iterations params \<and>
     p = vdf_compute_iterations sha input
           (max (rate d (iterations_per_second params)) (min_iterations params)) elapsed"
  by (auto simp: vdf_compute_def vdf_compute_iterations_def Let_def max_def)

lemma vdf_compute_verifies:
  assumes "vdf_compute sha rate input d params elapsed = Inr p" "0 < min_iterations params"
  shows "vdf_verify sha p \<and> vdf_input p = input \<and> min_iterations params \<le> vdf_iterations p"
proof -
  have p: "p = vdf_compute_iterations sha input
      (max (rate d (iterations_per_second params)) (min_iterations params)) elapsed"
    using assms(1) by (simp add: vdf_compute_iff)
  show ?thesis
    using assms(2) unfolding p
    by (simp add: vdf_verify_def verify_with_progress_def vdf_compute_iterations_def max_def)
qed

lemma length_vdf_encode: "vdf_typed p \<Longrightarrow> length (vdf_encode p) = 80"
  by (simp add: vdf_encode_def vdf_typed_def)

lemma vdf_decode_encode:
  assumes "vdf_typed p"
  shows "vdf_decode (vdf_encode p @ rest) =
    (if vdf_duration p \<le> MAX_PLAUSIBLE_NANOS then Inr p else Inl ImplausibleDuration)"
proof -
  let ?d = "if vdf_duration p < 2 ^ 64 then vdf_duration p else 2 ^ 64 - 1"
  have t: "length (vdf_input p) = 32" "length (vdf_output p) = 32" "vdf_iterations p < 256 ^ 8"
    using assms by (simp_all add: vdf_typed_def)
  have d: "?d < 256 ^ 8" by simp
  have "slice 0 32 (vdf_encode p @ rest) = vdf_input p" "slice 32 64 (vdf_encode p @ rest) = vdf_output p"
    using t by (simp_all add: vdf_encode_def byte_simps)
  moreover have "be_val (slice 64 72 (vdf_encode p @ rest)) = vdf_iterations p"
    using t by (simp add: vdf_encode_def byte_simps)
  moreover have "be_val (slice 72 80 (vdf_encode p @ rest)) = ?d"
  proof -
    have "slice 72 80 (vdf_encode p @ rest) = be 8 ?d"
      using t by (simp add: vdf_encode_def byte_simps)
    then show ?thesis using be_val_be_id [OF d] by simp
  qed
  moreover have "length (vdf_encode p @ rest) \<ge> 80" using length_vdf_encode [OF assms] by simp
  moreover have "?d \<le> MAX_PLAUSIBLE_NANOS \<longleftrightarrow> vdf_duration p \<le> MAX_PLAUSIBLE_NANOS"
    by (simp add: MAX_PLAUSIBLE_NANOS_def)
  moreover have "vdf_duration p \<le> MAX_PLAUSIBLE_NANOS \<Longrightarrow> ?d = vdf_duration p"
    by (simp add: MAX_PLAUSIBLE_NANOS_def)
  ultimately show ?thesis
    by (cases "vdf_duration p \<le> MAX_PLAUSIBLE_NANOS") (simp_all add: vdf_decode_def Let_def not_less)
qed

end
