(* ===== verification/Vdf_Batch.thy ===== *)
theory Vdf_Batch
  imports Vdf
begin

text \<open>
  The batch verifier of \<open>cpoe/src/vdf/params.rs\<close>. The proofs are cut into chunks, one thread per
  chunk; a thread takes a permit of a semaphore, writes the outcome of each of its proofs into
  a shared vector and gives the permit back. The threads are the steps of \<open>batch_step\<close>, taken
  in any order. Verifying cannot panic, so a thread that is joined has finished.
\<close>

record verify_result =
  vr_index :: nat
  vr_valid :: bool
  vr_error :: bool

definition MAX_BATCH_THREADS :: nat where
  "MAX_BATCH_THREADS = 16"

text \<open>\<open>available\<close> is the number of processors the system reports, at least one.\<close>

definition batch_new :: "nat \<Rightarrow> nat \<Rightarrow> nat" where
  "batch_new available workers =
     min (if workers = 0 then available else workers) MAX_BATCH_THREADS"

type_synonym chunk = "(nat \<times> vdf_proof option) list"

definition chunk_size :: "nat \<Rightarrow> nat \<Rightarrow> nat" where
  "chunk_size workers n =
     (let max_threads = min n workers
      in max 1 ((n + (max_threads - 1)) div max 1 max_threads))"

text \<open>\<open>(0..n).step_by(k)\<close>.\<close>

definition step_by :: "nat \<Rightarrow> nat \<Rightarrow> nat list" where
  "step_by k n = map (\<lambda>j. j * k) [0..<(n + (k - 1)) div k]"

definition batch_chunks :: "nat \<Rightarrow> vdf_proof option list \<Rightarrow> chunk list" where
  "batch_chunks workers proofs =
     (let k = chunk_size workers (length proofs)
      in map (\<lambda>start. let stop = min (start + k) (length proofs)
                      in zip [start..<stop] (slice start stop proofs))
           (step_by k (length proofs)))"

definition outcome :: "(bytes \<Rightarrow> bytes) \<Rightarrow> nat \<Rightarrow> vdf_proof option \<Rightarrow> verify_result" where
  "outcome sha index p = (case p of
       Some q \<Rightarrow> \<lparr>vr_index = index, vr_valid = vdf_verify sha q, vr_error = False\<rparr>
     | None \<Rightarrow> \<lparr>vr_index = index, vr_valid = False, vr_error = True\<rparr>)"

datatype worker = Waiting chunk | Working chunk | Finished

record batch_state =
  bs_results :: "verify_result list"
  bs_permits :: nat
  bs_workers :: "worker list"

definition batch_init :: "nat \<Rightarrow> vdf_proof option list \<Rightarrow> batch_state" where
  "batch_init workers proofs =
     \<lparr>bs_results = replicate (length proofs) \<lparr>vr_index = 0, vr_valid = False, vr_error = False\<rparr>,
      bs_permits = workers, bs_workers = map Waiting (batch_chunks workers proofs)\<rparr>"

inductive batch_step :: "(bytes \<Rightarrow> bytes) \<Rightarrow> batch_state \<Rightarrow> batch_state \<Rightarrow> bool" for sha where
  acquire: "t < length (bs_workers s) \<Longrightarrow> bs_workers s ! t = Waiting c \<Longrightarrow> 0 < bs_permits s \<Longrightarrow>
    batch_step sha s (s\<lparr>bs_permits := bs_permits s - 1, bs_workers := (bs_workers s)[t := Working c]\<rparr>)"
| work: "t < length (bs_workers s) \<Longrightarrow> bs_workers s ! t = Working ((i, p) # c) \<Longrightarrow>
    batch_step sha s (s\<lparr>bs_results := (bs_results s)[i := outcome sha i p],
                        bs_workers := (bs_workers s)[t := Working c]\<rparr>)"
| release: "t < length (bs_workers s) \<Longrightarrow> bs_workers s ! t = Working [] \<Longrightarrow>
    batch_step sha s (s\<lparr>bs_permits := bs_permits s + 1, bs_workers := (bs_workers s)[t := Finished]\<rparr>)"

inductive batch_reach :: "(bytes \<Rightarrow> bytes) \<Rightarrow> batch_state \<Rightarrow> batch_state \<Rightarrow> bool" for sha s0 where
  start: "batch_reach sha s0 s0"
| step: "batch_reach sha s0 s \<Longrightarrow> batch_step sha s s' \<Longrightarrow> batch_reach sha s0 s'"

definition batch_done :: "batch_state \<Rightarrow> bool" where
  "batch_done s \<longleftrightarrow> (\<forall>w \<in> set (bs_workers s). w = Finished)"

subsection \<open>The chunks partition the proofs\<close>

lemma concat_blocks:
  assumes "0 < k" "length xs \<le> m * k"
  shows "concat (map (\<lambda>j. slice (j * k) (min (j * k + k) (length xs)) xs) [0..<m]) = xs"
proof -
  have "concat (map (\<lambda>j. slice (j * k) (min (j * k + k) (length xs)) xs) [0..<i]) = take (i * k) xs" for i
  proof (induction i)
    case (Suc i)
    have "slice (i * k) (min (i * k + k) (length xs)) xs = take k (drop (i * k) xs)"
      by (cases "i * k + k \<le> length xs") (simp_all add: slice_def min_def)
    then have "concat (map (\<lambda>j. slice (j * k) (min (j * k + k) (length xs)) xs) [0..<Suc i]) =
        take (i * k) xs @ take k (drop (i * k) xs)"
      using Suc by simp
    also have "\<dots> = take (i * k + k) xs" by (rule take_add [symmetric])
    finally show ?case by (simp add: add.commute)
  qed simp
  with assms(2) show ?thesis by simp
qed

lemma ceil_div_covers:
  assumes "0 < (k::nat)"
  shows "n \<le> (n + (k - 1)) div k * k"
proof -
  have "(n + (k - 1)) mod k < k" using assms by simp
  then show ?thesis using div_mult_mod_eq [of "n + (k - 1)" k] assms by linarith
qed

lemma chunk_size_pos [simp]: "0 < chunk_size workers n"
  by (simp add: chunk_size_def Let_def max_def)

lemma slice_zip: "slice a b (zip xs ys) = zip (slice a b xs) (slice a b ys)"
  by (simp add: slice_def take_zip drop_zip)

lemma slice_upt: "a \<le> b \<Longrightarrow> b \<le> n \<Longrightarrow> slice a b [0..<n] = [a..<b]"
  by (simp add: slice_def)

lemma concat_batch_chunks: "concat (batch_chunks workers proofs) = zip [0..<length proofs] proofs"
proof -
  let ?n = "length proofs" and ?k = "chunk_size workers (length proofs)"
  let ?m = "(?n + (?k - 1)) div ?k"
  have "zip [j * ?k..<min (j * ?k + ?k) ?n] (slice (j * ?k) (min (j * ?k + ?k) ?n) proofs) =
      slice (j * ?k) (min (j * ?k + ?k) ?n) (zip [0..<?n] proofs)" for j
  proof (cases "j * ?k \<le> ?n")
    case True
    then show ?thesis using slice_upt [of "j * ?k" "min (j * ?k + ?k) ?n" ?n] by (simp add: slice_zip)
  qed (simp add: slice_def)
  then have "concat (batch_chunks workers proofs) =
      concat (map (\<lambda>j. slice (j * ?k) (min (j * ?k + ?k) ?n) (zip [0..<?n] proofs)) [0..<?m])"
    by (simp add: batch_chunks_def Let_def step_by_def comp_def)
  also have "\<dots> = zip [0..<?n] proofs"
    using concat_blocks [of ?k "zip [0..<?n] proofs" ?m] ceil_div_covers [of ?k ?n] by simp
  finally show ?thesis .
qed

subsection \<open>Invariant and progress\<close>

fun remaining :: "worker \<Rightarrow> chunk" where
  "remaining (Waiting c) = c"
| "remaining (Working c) = c"
| "remaining Finished = []"

fun weight :: "worker \<Rightarrow> nat" where
  "weight (Waiting c) = length c + 2"
| "weight (Working c) = length c + 1"
| "weight Finished = 0"

fun holds_permit :: "worker \<Rightarrow> nat" where
  "holds_permit (Working c) = 1"
| "holds_permit w = 0"

definition batch_weight :: "batch_state \<Rightarrow> nat" where
  "batch_weight s = sum_list (map weight (bs_workers s))"

definition pending :: "batch_state \<Rightarrow> (nat \<times> vdf_proof option) set" where
  "pending s = (\<Union>w \<in> set (bs_workers s). set (remaining w))"

definition batch_inv ::
    "(bytes \<Rightarrow> bytes) \<Rightarrow> nat \<Rightarrow> vdf_proof option list \<Rightarrow> batch_state \<Rightarrow> bool" where
  "batch_inv sha workers proofs s \<longleftrightarrow>
     length (bs_results s) = length proofs \<and>
     pending s \<subseteq> {(i, proofs ! i) | i. i < length proofs} \<and>
     (\<forall>i < length proofs. (i, proofs ! i) \<in> pending s \<or> bs_results s ! i = outcome sha i (proofs ! i)) \<and>
     bs_permits s + sum_list (map holds_permit (bs_workers s)) = workers"

lemma sum_list_map_update:
  fixes f :: "'a \<Rightarrow> nat"
  shows "t < length xs \<Longrightarrow> sum_list (map f (xs[t := x])) + f (xs ! t) = sum_list (map f xs) + f x"
proof (induction xs arbitrary: t)
  case (Cons y xs)
  show ?case
  proof (cases t)
    case (Suc u)
    with Cons.IH [of u] Cons.prems show ?thesis by simp
  qed simp
qed simp

lemma pending_iff: "x \<in> pending s \<longleftrightarrow> (\<exists>u < length (bs_workers s). x \<in> set (remaining (bs_workers s ! u)))"
  by (auto simp: pending_def set_conv_nth)

lemma pending_update_sub:
  assumes "t < length (bs_workers s)" "bs_workers s' = (bs_workers s)[t := w]"
    and "set (remaining w) \<subseteq> set (remaining (bs_workers s ! t))"
  shows "pending s' \<subseteq> pending s"
proof
  fix x assume "x \<in> pending s'"
  then obtain u where u: "u < length (bs_workers s)" "x \<in> set (remaining (bs_workers s' ! u))"
    using assms(2) by (auto simp: pending_iff)
  then have "x \<in> set (remaining (bs_workers s ! u))"
    using assms by (cases "u = t") auto
  with u(1) show "x \<in> pending s" unfolding pending_iff by blast
qed

lemma pending_update_sup:
  assumes "t < length (bs_workers s)" "bs_workers s' = (bs_workers s)[t := w]"
    and "set (remaining (bs_workers s ! t)) \<subseteq> D \<union> set (remaining w)"
  shows "pending s \<subseteq> D \<union> pending s'"
proof
  fix x assume "x \<in> pending s"
  then obtain u where u: "u < length (bs_workers s)" "x \<in> set (remaining (bs_workers s ! u))"
    by (auto simp: pending_iff)
  show "x \<in> D \<union> pending s'"
  proof (cases "u = t")
    case True
    with u assms have "x \<in> D \<or> x \<in> set (remaining (bs_workers s' ! t))" by auto
    then show ?thesis using assms(1,2) by (auto simp: pending_iff)
  next
    case False
    then have "bs_workers s' ! u = bs_workers s ! u" using assms(2) by simp
    then show ?thesis using u assms(2) by (auto simp: pending_iff)
  qed
qed

text \<open>A step that leaves the results alone and drops no work keeps what is known of them.\<close>

lemma batch_inv_move:
  assumes "batch_inv sha workers proofs s" "t < length (bs_workers s)"
    and "bs_workers s' = (bs_workers s)[t := w]" "bs_results s' = bs_results s"
    and "remaining w = remaining (bs_workers s ! t)"
    and "bs_permits s' + holds_permit w = bs_permits s + holds_permit (bs_workers s ! t)"
  shows "batch_inv sha workers proofs s'"
proof -
  have "pending s' = pending s"
    using pending_update_sub [OF assms(2,3)] pending_update_sup [OF assms(2,3), of "{}"] assms(5) by auto
  moreover have "bs_permits s' + sum_list (map holds_permit (bs_workers s')) =
      bs_permits s + sum_list (map holds_permit (bs_workers s))"
    using sum_list_map_update [OF assms(2), of holds_permit w] assms(3,6) by simp
  ultimately show ?thesis using assms(1,4) by (simp add: batch_inv_def)
qed

lemma batch_inv_step:
  assumes "batch_inv sha workers proofs s" "batch_step sha s s'"
  shows "batch_inv sha workers proofs s'"
  using assms(2)
proof cases
  case (acquire t c)
  then show ?thesis by (intro batch_inv_move [OF assms(1), of t s' "Working c"]) simp_all
next
  case (release t)
  then show ?thesis by (intro batch_inv_move [OF assms(1), of t s' Finished]) simp_all
next
  case (work t i p c)
  let ?r = "outcome sha i p"
  have sub: "pending s' \<subseteq> pending s" using work by (intro pending_update_sub [of t s s' "Working c"]) auto
  have sup: "pending s \<subseteq> {(i, p)} \<union> pending s'"
    using work by (intro pending_update_sup [of t s s' "Working c"]) auto
  have "(i, p) \<in> pending s" using work by (auto simp: pending_iff intro!: exI [of _ t])
  then have p: "i < length proofs" "p = proofs ! i" using assms(1) by (auto simp: batch_inv_def)
  have "(j, proofs ! j) \<in> pending s' \<or> bs_results s' ! j = outcome sha j (proofs ! j)"
    if "j < length proofs" for j
    using assms(1) that sup p work(1) by (cases "j = i") (auto simp: batch_inv_def)
  moreover have "bs_permits s' + sum_list (map holds_permit (bs_workers s')) = workers"
    using sum_list_map_update [OF work(2), of holds_permit "Working c"] work assms(1)
    by (simp add: batch_inv_def)
  ultimately show ?thesis using assms(1) sub work(1) by (auto simp: batch_inv_def)
qed

lemma batch_weight_step:
  assumes "batch_step sha s s'"
  shows "batch_weight s' < batch_weight s"
  using assms
proof cases
  case (acquire t c)
  with sum_list_map_update [of t "bs_workers s" weight "Working c"] show ?thesis
    by (simp add: batch_weight_def)
next
  case (work t i p c)
  with sum_list_map_update [of t "bs_workers s" weight "Working c"] show ?thesis
    by (simp add: batch_weight_def)
next
  case (release t)
  with sum_list_map_update [of t "bs_workers s" weight Finished] show ?thesis
    by (simp add: batch_weight_def)
qed

lemma no_holder: "sum_list (map holds_permit ws) = 0 \<longleftrightarrow> (\<forall>w \<in> set ws. holds_permit w = 0)"
  by simp

lemma batch_not_stuck:
  assumes "batch_inv sha workers proofs s" "0 < workers" "\<not> batch_done s"
  shows "\<exists>s'. batch_step sha s s'"
proof -
  obtain t where t: "t < length (bs_workers s)" "bs_workers s ! t \<noteq> Finished"
    using assms(3) by (auto simp: batch_done_def in_set_conv_nth)
  show ?thesis
  proof (cases "\<exists>u < length (bs_workers s). \<exists>c. bs_workers s ! u = Working c")
    case True
    then obtain u c where "u < length (bs_workers s)" "bs_workers s ! u = Working c" by blast
    then show ?thesis by (cases c) (auto intro: batch_step.intros)
  next
    case False
    then have "holds_permit (bs_workers s ! u) = 0" if "u < length (bs_workers s)" for u
      using that by (cases "bs_workers s ! u") auto
    then have "\<forall>w \<in> set (bs_workers s). holds_permit w = 0" by (metis in_set_conv_nth)
    then have "sum_list (map holds_permit (bs_workers s)) = 0" by (simp only: no_holder)
    then have "bs_permits s = workers" using assms(1) unfolding batch_inv_def by linarith
    moreover obtain c where "bs_workers s ! t = Waiting c" using t False by (cases "bs_workers s ! t") auto
    ultimately show ?thesis using t(1) assms(2) by (auto intro: batch_step.acquire)
  qed
qed

lemma batch_inv_init: "batch_inv sha workers proofs (batch_init workers proofs)"
proof -
  let ?s = "batch_init workers proofs"
  have "pending ?s = set (concat (batch_chunks workers proofs))" by (auto simp: pending_def batch_init_def)
  moreover have "set (zip [0..<length proofs] proofs) = {(i, proofs ! i) | i. i < length proofs}"
    using in_set_zip by (fastforce simp: in_set_conv_nth)
  ultimately have "pending ?s = {(i, proofs ! i) | i. i < length proofs}"
    by (simp only: concat_batch_chunks)
  moreover have "sum_list (map holds_permit (bs_workers ?s)) = 0" by (simp add: batch_init_def)
  ultimately show ?thesis by (auto simp: batch_inv_def batch_init_def)
qed

lemma batch_inv_reach:
  "batch_reach sha (batch_init workers proofs) s \<Longrightarrow> batch_inv sha workers proofs s"
  by (induction rule: batch_reach.induct) (auto intro: batch_inv_init batch_inv_step)

lemma batch_inv_done:
  assumes "batch_inv sha workers proofs s" "batch_done s"
  shows "bs_results s = map (\<lambda>i. outcome sha i (proofs ! i)) [0..<length proofs]"
proof (rule nth_equalityI)
  show l: "length (bs_results s) = length (map (\<lambda>i. outcome sha i (proofs ! i)) [0..<length proofs])"
    using assms(1) by (simp add: batch_inv_def)
  have "pending s = {}" using assms(2) by (auto simp: pending_def batch_done_def)
  then show "bs_results s ! i = map (\<lambda>i. outcome sha i (proofs ! i)) [0..<length proofs] ! i"
    if "i < length (bs_results s)" for i
    using assms(1) that by (auto simp: batch_inv_def)
qed

subsection \<open>The property\<close>

text \<open>C25: Whatever order the threads run in, the batch verifier does not deadlock and ends:
  every step of a reachable state lowers a weight, a reachable state without a step has all
  threads finished, and then the vector holds the outcome of every proof at its index.\<close>

theorem batch_verify_all_ends:
  assumes "workers = batch_new available requested" "0 < available"
    and "batch_reach sha (batch_init workers proofs) s"
  shows "(\<forall>s'. batch_step sha s s' \<longrightarrow> batch_weight s' < batch_weight s) \<and>
    (batch_done s \<or> (\<exists>s'. batch_step sha s s')) \<and>
    (batch_done s \<longrightarrow> bs_results s = map (\<lambda>i. outcome sha i (proofs ! i)) [0..<length proofs])"
proof -
  have "0 < workers" using assms(1,2) by (simp add: batch_new_def MAX_BATCH_THREADS_def)
  then show ?thesis
    using batch_weight_step batch_not_stuck batch_inv_done batch_inv_reach [OF assms(3)] by metis
qed

theorem batch_verify_all_ends_witness:
  "let s = \<lparr>bs_results = [\<lparr>vr_index = 0, vr_valid = False, vr_error = True\<rparr>], bs_permits = 2,
            bs_workers = [Finished]\<rparr>
   in bs_results s = [outcome (\<lambda>x. x) 0 None]"
proof -
  let ?e = "\<lparr>vr_index = 0, vr_valid = False, vr_error = False\<rparr>"
  let ?s0 = "\<lparr>bs_results = [?e], bs_permits = 2, bs_workers = [Waiting [(0, None)]]\<rparr>"
  let ?s1 = "\<lparr>bs_results = [?e], bs_permits = 1, bs_workers = [Working [(0, None)]]\<rparr>"
  let ?s2 = "\<lparr>bs_results = [outcome (\<lambda>x. x) 0 None], bs_permits = 1, bs_workers = [Working []]\<rparr>"
  let ?s3 = "\<lparr>bs_results = [outcome (\<lambda>x. x) 0 None], bs_permits = 2, bs_workers = [Finished]\<rparr>"
  have i: "batch_init 2 [None] = ?s0"
    by (simp add: batch_init_def batch_chunks_def chunk_size_def step_by_def Let_def slice_def)
  have "batch_step (\<lambda>x. x) ?s0 ?s1" using batch_step.acquire [of 0 ?s0 "[(0, None)]"] by simp
  moreover have "batch_step (\<lambda>x. x) ?s1 ?s2"
    using batch_step.work [of 0 ?s1 0 None "[]" "\<lambda>x. x"] by simp
  moreover have "batch_step (\<lambda>x. x) ?s2 ?s3"
    using batch_step.release [of 0 ?s2 "\<lambda>x. x"] by (simp add: numeral_2_eq_2)
  ultimately have "batch_reach (\<lambda>x. x) (batch_init 2 [None]) ?s3"
    unfolding i by (blast intro: batch_reach.intros)
  from batch_verify_all_ends [OF _ _ this, of 1 2] show ?thesis
    by (simp add: batch_done_def batch_new_def MAX_BATCH_THREADS_def outcome_def)
qed

end
