(* ===== verification/Swf_Argon2.thy ===== *)
theory Swf_Argon2
  imports Vdf
begin

text \<open>
  The memory-hard work function of \<open>cpoe/src/vdf/swf_argon2.rs\<close>: a chain of Argon2id
  evaluations whose outputs are the leaves of a Merkle tree, and a proof that opens the leaves
  selected by a Fiat-Shamir challenge. Argon2id, HKDF and the CBOR encoding of the parameters
  come from other crates and are the fields of \<open>swf_lib\<close>; SHA-256 is a parameter too. Thread
  priorities and the clock have no effect on a proof but its claimed duration.
\<close>

record argon2_params =
  a2_time_cost :: nat
  a2_memory_cost :: nat
  a2_parallelism :: nat
  a2_iterations :: nat

text \<open>\<open>lib_params\<close> is whether \<open>Params::new\<close> accepts the costs, \<open>lib_argon2\<close> is
  \<open>hash_password_into\<close> for a password and a salt, \<open>lib_hkdf\<close> expands a key and an info string
  to four bytes, \<open>lib_cbor\<close> encodes the parameter map.\<close>

record swf_lib =
  lib_params :: "argon2_params \<Rightarrow> bool"
  lib_argon2 :: "argon2_params \<Rightarrow> bytes \<Rightarrow> bytes \<Rightarrow> bytes option"
  lib_hkdf :: "bytes \<Rightarrow> bytes \<Rightarrow> bytes"
  lib_cbor :: "argon2_params \<Rightarrow> bytes option"

record merkle_sample_proof =
  ms_leaf_index :: nat
  ms_leaf_value :: bytes
  ms_sibling_path :: "bytes list"
  ms_raw_output :: bytes

record argon2_swf_proof =
  sw_input :: bytes
  sw_merkle_root :: bytes
  sw_params :: argon2_params
  sw_sampled_proofs :: "merkle_sample_proof list"
  sw_claimed_duration :: nat
  sw_challenge :: bytes
  sw_proof_algorithm :: nat

datatype swf_error =
    SwfNoIterations
  | SwfTooManyIterations nat
  | SwfParams
  | SwfArgon2 nat
  | SwfCbor
  | SwfPanic

subsection \<open>Parameters\<close>

definition argon2_default :: argon2_params where
  "argon2_default = \<lparr>a2_time_cost = 1, a2_memory_cost = 65536, a2_parallelism = 1, a2_iterations = 90\<rparr>"

definition enhanced_params :: argon2_params where
  "enhanced_params = \<lparr>a2_time_cost = 1, a2_memory_cost = 65536, a2_parallelism = 1, a2_iterations = 150\<rparr>"

definition maximum_params :: argon2_params where
  "maximum_params = \<lparr>a2_time_cost = 1, a2_memory_cost = 65536, a2_parallelism = 1, a2_iterations = 210\<rparr>"

definition params_for_tier :: "nat \<Rightarrow> argon2_params" where
  "params_for_tier content_tier =
     (if content_tier = 3 then maximum_params
      else if content_tier = 2 then enhanced_params else argon2_default)"

definition DEFAULT_SAMPLE_COUNT :: nat where
  "DEFAULT_SAMPLE_COUNT = 20"

definition PROOF_ALGORITHM_STANDARD :: nat where
  "PROOF_ALGORITHM_STANDARD = 20"

definition PROOF_ALGORITHM_ENTANGLED :: nat where
  "PROOF_ALGORITHM_ENTANGLED = 21"

definition MAX_ITERATIONS :: nat where
  "MAX_ITERATIONS = 10000000"

definition validate_iterations :: "nat \<Rightarrow> (swf_error, unit) result" where
  "validate_iterations n =
     (if n = 0 then Inl SwfNoIterations
      else if MAX_ITERATIONS < n then Inl (SwfTooManyIterations n) else Inr ())"

subsection \<open>The Merkle tree\<close>

text \<open>\<open>usize::next_power_of_two\<close>.\<close>

function npow2_from :: "nat \<Rightarrow> nat \<Rightarrow> nat" where
  "npow2_from p n = (if n \<le> p \<or> p = 0 then p else npow2_from (2 * p) n)"
  by pat_completeness auto
termination by (relation "measure (\<lambda>(p, n). n - p)") auto

declare npow2_from.simps [simp del]

definition npow2 :: "nat \<Rightarrow> nat" where
  "npow2 n = npow2_from 1 n"

definition swf_leaf :: "(bytes \<Rightarrow> bytes) \<Rightarrow> bytes \<Rightarrow> bytes" where
  "swf_leaf sha output = sha ([0] @ output)"

definition swf_node :: "(bytes \<Rightarrow> bytes) \<Rightarrow> bytes \<Rightarrow> bytes \<Rightarrow> bytes" where
  "swf_node sha l r = sha ([1] @ l @ r)"

definition padding_value :: "(bytes \<Rightarrow> bytes) \<Rightarrow> nat \<Rightarrow> bytes" where
  "padding_value sha steps =
     (let padded = min (min (steps + 1) (2 ^ 64 - 1)) (2 ^ 32 - 1) in sha ([2] @ be 4 padded))"

definition build_merkle_tree :: "(bytes \<Rightarrow> bytes) \<Rightarrow> bytes list \<Rightarrow> nat \<Rightarrow> bytes list" where
  "build_merkle_tree sha leaves steps =
     (let n = npow2 (length leaves);
          tree0 = replicate (2 * n) (replicate 32 0);
          tree1 = foldl (\<lambda>t i. t[n + i := leaves ! i]) tree0 [0..<length leaves];
          tree2 = foldl (\<lambda>t i. t[n + i := padding_value sha steps]) tree1 [length leaves..<n]
      in foldl (\<lambda>t i. t[i := swf_node sha (t ! (2 * i)) (t ! (2 * i + 1))]) tree2 (rev [1..<n]))"

text \<open>The sibling of a position is \<open>idx ^ 1\<close>.\<close>

definition sibling :: "nat \<Rightarrow> nat" where
  "sibling idx = (if even idx then idx + 1 else idx - 1)"

function merkle_proof_loop :: "bytes list \<Rightarrow> nat \<Rightarrow> bytes list \<Rightarrow> bytes list" where
  "merkle_proof_loop tree idx path =
     (if idx > 1 then merkle_proof_loop tree (idx div 2) (path @ [tree ! sibling idx]) else path)"
  by pat_completeness auto
termination by (relation "measure (\<lambda>(tree, idx, path). idx)") auto

declare merkle_proof_loop.simps [simp del]

definition swf_merkle_proof :: "bytes list \<Rightarrow> nat \<Rightarrow> nat \<Rightarrow> bytes list" where
  "swf_merkle_proof tree leaf_idx num_leaves =
     merkle_proof_loop tree (npow2 num_leaves + leaf_idx) []"

fun swf_path_fold :: "(bytes \<Rightarrow> bytes) \<Rightarrow> nat \<Rightarrow> bytes \<Rightarrow> bytes list \<Rightarrow> bytes" where
  "swf_path_fold sha idx current [] = current"
| "swf_path_fold sha idx current (sib # path) =
     swf_path_fold sha (idx div 2)
       (if idx mod 2 = 0 then swf_node sha current sib else swf_node sha sib current) path"

definition verify_merkle_proof :: "(bytes \<Rightarrow> bytes) \<Rightarrow> bytes \<Rightarrow> nat \<Rightarrow> bytes \<Rightarrow> bytes list \<Rightarrow> bool" where
  "verify_merkle_proof sha root leaf_idx leaf_value sibling_path =
     (if 64 < length sibling_path then False
      else swf_path_fold sha leaf_idx leaf_value sibling_path = root)"

subsection \<open>The challenge\<close>

definition fiat_shamir_challenge ::
    "swf_lib \<Rightarrow> (bytes \<Rightarrow> bytes) \<Rightarrow> bytes \<Rightarrow> bytes \<Rightarrow> argon2_params \<Rightarrow> nat \<Rightarrow> (swf_error, bytes) result" where
  "fiat_shamir_challenge lib sha merkle_root input params proof_algorithm =
     (case lib_cbor lib params of
        None \<Rightarrow> Inl SwfCbor
      | Some params_cbor \<Rightarrow>
          Inr (sha (ascii ''PoP-Fiat-Shamir-v1'' @ be 2 proof_algorithm @ params_cbor @ input @ merkle_root)))"

text \<open>The counter of the rejection sampling is a \<open>u32\<close>, whose overflow panics: so the loop ends.\<close>

function select_loop ::
    "(bytes \<Rightarrow> bytes) \<Rightarrow> nat \<Rightarrow> nat \<Rightarrow> nat \<Rightarrow> nat \<Rightarrow> nat list \<Rightarrow> (swf_error, nat list) result" where
  "select_loop okm n num_leaves count j indices =
     (if length indices < count \<and> length indices < num_leaves then
        (if 2 ^ 32 \<le> j + 1 then Inl SwfPanic
         else
           let raw = be_val (okm (be 4 j)) in
           if 2 ^ 32 - 1 - (2 ^ 32 - 1) mod n \<le> raw then select_loop okm n num_leaves count (j + 1) indices
           else if raw mod n \<in> set indices then select_loop okm n num_leaves count (j + 1) indices
           else select_loop okm n num_leaves count (j + 1) (indices @ [raw mod n]))
      else Inr indices)"
  by pat_completeness auto
termination by (relation "measure (\<lambda>(okm, n, num_leaves, count, j, indices). 2 ^ 32 - j)") auto

declare select_loop.simps [simp del]

definition select_indices ::
    "swf_lib \<Rightarrow> bytes \<Rightarrow> nat \<Rightarrow> nat \<Rightarrow> (swf_error, nat list) result" where
  "select_indices lib sample_seed num_leaves count =
     (if num_leaves = 0 then Inr []
      else select_loop (lib_hkdf lib sample_seed) (min num_leaves (2 ^ 32 - 1)) num_leaves count 0 [])"

subsection \<open>Computing\<close>

definition swf_salt :: "(bytes \<Rightarrow> bytes) \<Rightarrow> bytes \<Rightarrow> nat \<Rightarrow> bytes" where
  "swf_salt sha input i =
     (if i = 0 then sha ([0] @ ascii ''PoP-salt-v1'' @ input)
      else sha ([1] @ ascii ''PoP-salt-v1'' @ be 4 i))"

text \<open>The iterations from \<open>i\<close> on, \<open>todo\<close> of them: the raw outputs, whose leaf hashes are the
  leaves.\<close>

fun swf_iterate ::
    "swf_lib \<Rightarrow> (bytes \<Rightarrow> bytes) \<Rightarrow> argon2_params \<Rightarrow> bytes \<Rightarrow> nat \<Rightarrow> nat \<Rightarrow> bytes \<Rightarrow>
     (swf_error, bytes list \<times> bytes list) result" where
  "swf_iterate lib sha params input i 0 current = Inr ([], [])"
| "swf_iterate lib sha params input i (Suc todo) current =
     (case lib_argon2 lib params current (swf_salt sha input i) of
        None \<Rightarrow> Inl (SwfArgon2 i)
      | Some output \<Rightarrow>
          res_bind (swf_iterate lib sha params input (i + 1) todo output)
            (\<lambda>(leaves, raws). Inr (swf_leaf sha output # leaves, output # raws)))"

definition swf_compute_with_algorithm ::
    "swf_lib \<Rightarrow> (bytes \<Rightarrow> bytes) \<Rightarrow> bytes \<Rightarrow> argon2_params \<Rightarrow> nat \<Rightarrow> nat \<Rightarrow> nat \<Rightarrow>
     (swf_error, argon2_swf_proof) result" where
  "swf_compute_with_algorithm lib sha input params sample_count proof_algorithm elapsed =
     res_bind (validate_iterations (a2_iterations params)) (\<lambda>_.
     if \<not> lib_params lib params then Inl SwfParams
     else res_bind (swf_iterate lib sha params input 0 (a2_iterations params) input) (\<lambda>(leaves, raws).
     let tree = build_merkle_tree sha leaves (a2_iterations params);
         merkle_root = (if 1 < length tree then tree ! 1 else replicate 32 0)
     in res_bind (fiat_shamir_challenge lib sha merkle_root input params proof_algorithm) (\<lambda>challenge.
        res_bind (select_indices lib challenge (a2_iterations params) sample_count) (\<lambda>indices.
        Inr \<lparr>sw_input = input, sw_merkle_root = merkle_root, sw_params = params,
             sw_sampled_proofs =
               map (\<lambda>idx. \<lparr>ms_leaf_index = idx, ms_leaf_value = leaves ! idx,
                           ms_sibling_path = swf_merkle_proof tree idx (length leaves),
                           ms_raw_output = raws ! idx\<rparr>) indices,
             sw_claimed_duration = elapsed, sw_challenge = challenge,
             sw_proof_algorithm = proof_algorithm\<rparr>))))"

definition swf_compute ::
    "swf_lib \<Rightarrow> (bytes \<Rightarrow> bytes) \<Rightarrow> bytes \<Rightarrow> argon2_params \<Rightarrow> nat \<Rightarrow> (swf_error, argon2_swf_proof) result" where
  "swf_compute lib sha input params elapsed =
     swf_compute_with_algorithm lib sha input params DEFAULT_SAMPLE_COUNT PROOF_ALGORITHM_STANDARD elapsed"

subsection \<open>Verifying\<close>

text \<open>The loop over the samples: the leaf hash, the Merkle path and, for index 0, the first
  evaluation.\<close>

fun verify_samples ::
    "swf_lib \<Rightarrow> (bytes \<Rightarrow> bytes) \<Rightarrow> argon2_swf_proof \<Rightarrow> merkle_sample_proof list \<Rightarrow> (swf_error, bool) result" where
  "verify_samples lib sha p [] = Inr True"
| "verify_samples lib sha p (s # ss) =
     (if swf_leaf sha (ms_raw_output s) \<noteq> ms_leaf_value s then Inr False
      else if \<not> verify_merkle_proof sha (sw_merkle_root p) (ms_leaf_index s) (ms_leaf_value s)
                  (ms_sibling_path s) then Inr False
      else if ms_leaf_index s = 0 then
        (case lib_argon2 lib (sw_params p) (sw_input p) (swf_salt sha (sw_input p) 0) of
           None \<Rightarrow> Inl (SwfArgon2 0)
         | Some expected \<Rightarrow> if expected \<noteq> ms_raw_output s then Inr False else verify_samples lib sha p ss)
      else verify_samples lib sha p ss)"

text \<open>The loop over neighbouring samples in the order of their indices. The salt of a
  transition takes the low 32 bits of the index.\<close>

definition transition_salt :: "(bytes \<Rightarrow> bytes) \<Rightarrow> nat \<Rightarrow> bytes" where
  "transition_salt sha index = sha ([1] @ ascii ''PoP-salt-v1'' @ be 4 (index mod 2 ^ 32))"

fun verify_transitions ::
    "swf_lib \<Rightarrow> (bytes \<Rightarrow> bytes) \<Rightarrow> argon2_params \<Rightarrow> merkle_sample_proof list \<Rightarrow> (swf_error, bool) result" where
  "verify_transitions lib sha params (prev # nxt # ss) =
     (if 2 ^ 64 \<le> ms_leaf_index prev + 1 then Inl SwfPanic
      else if ms_leaf_index nxt = ms_leaf_index prev + 1 then
        (case lib_argon2 lib params (ms_raw_output prev) (transition_salt sha (ms_leaf_index nxt)) of
           None \<Rightarrow> Inl (SwfArgon2 (ms_leaf_index nxt))
         | Some expected \<Rightarrow>
             if expected \<noteq> ms_raw_output nxt then Inr False
             else verify_transitions lib sha params (nxt # ss))
      else verify_transitions lib sha params (nxt # ss))"
| "verify_transitions lib sha params ss = Inr True"

definition verify_with_samples ::
    "swf_lib \<Rightarrow> (bytes \<Rightarrow> bytes) \<Rightarrow> argon2_swf_proof \<Rightarrow> nat \<Rightarrow> (swf_error, bool) result" where
  "verify_with_samples lib sha p sample_count =
     res_bind (validate_iterations (a2_iterations (sw_params p))) (\<lambda>_.
     res_bind (fiat_shamir_challenge lib sha (sw_merkle_root p) (sw_input p) (sw_params p)
                 (sw_proof_algorithm p)) (\<lambda>expected_challenge.
     if sw_challenge p \<noteq> expected_challenge then Inr False
     else if length (sw_sampled_proofs p) < sample_count then Inr False
     else res_bind (select_indices lib (sw_challenge p) (a2_iterations (sw_params p)) sample_count)
       (\<lambda>expected_indices.
         if list_ex (\<lambda>(s, idx). ms_leaf_index s \<noteq> idx) (zip (sw_sampled_proofs p) expected_indices)
         then Inr False
         else if \<not> list_ex (\<lambda>s. ms_leaf_index s = 0) (sw_sampled_proofs p) then Inr False
         else if \<not> lib_params lib (sw_params p) then Inl SwfParams
         else res_bind (verify_samples lib sha p (sw_sampled_proofs p)) (\<lambda>ok.
           if \<not> ok then Inr False
           else verify_transitions lib sha (sw_params p) (sort_key ms_leaf_index (sw_sampled_proofs p))))))"

definition swf_verify :: "swf_lib \<Rightarrow> (bytes \<Rightarrow> bytes) \<Rightarrow> argon2_swf_proof \<Rightarrow> (swf_error, bool) result" where
  "swf_verify lib sha p = verify_with_samples lib sha p (length (sw_sampled_proofs p))"

end
