(* ===== verification/Swf_Props.thy ===== *)
theory Swf_Props
  imports Swf_Argon2
begin

text \<open>
  What a proof of the memory-hard work function shows: the Merkle paths of an honest proof
  open its root, its samples and transitions check, and so the proof verifies exactly when the
  challenge happened to select the first leaf.
\<close>

subsection \<open>Powers of two\<close>

lemma npow2_from_power:
  "n \<le> 2 ^ m \<Longrightarrow> k \<le> m \<Longrightarrow> \<exists>k' \<ge> k. k' \<le> m \<and> npow2_from (2 ^ k) n = 2 ^ k' \<and> n \<le> 2 ^ k'"
proof (induction "m - k" arbitrary: k)
  case 0
  then show ?case by (subst npow2_from.simps) auto
next
  case (Suc d)
  show ?case
  proof (cases "n \<le> 2 ^ k")
    case True
    then show ?thesis using Suc.prems by (subst npow2_from.simps) auto
  next
    case False
    then have "k \<noteq> m" using Suc.prems by auto
    then have "d = m - Suc k" "Suc k \<le> m" using Suc by auto
    from Suc.hyps(1) [OF this(1) Suc.prems(1) this(2)] obtain k' where
      "k' \<ge> Suc k" "k' \<le> m" "npow2_from (2 ^ Suc k) n = 2 ^ k'" "n \<le> 2 ^ k'" by blast
    moreover have "npow2_from (2 ^ k) n = npow2_from (2 ^ Suc k) n"
      using False by (subst npow2_from.simps) simp
    ultimately show ?thesis by (intro exI [of _ k']) simp
  qed
qed

lemma next_power_of_two_ok:
  assumes "n \<le> 2 ^ m"
  obtains k where "k \<le> m" "npow2 n = 2 ^ k" "n \<le> 2 ^ k"
  using npow2_from_power [OF assms, of 0] by (auto simp: npow2_def)

subsection \<open>The tree\<close>

lemma foldl_update_at:
  assumes "length t = 2 * n" "k \<le> n"
  shows "length (foldl (\<lambda>t i. t[n + i := f i]) t [a..<k]) = 2 * n \<and>
    (\<forall>i < n. foldl (\<lambda>t i. t[n + i := f i]) t [a..<k] ! (n + i) = (if a \<le> i \<and> i < k then f i else t ! (n + i)))"
  using assms(2)
proof (induction k)
  case (Suc k)
  then show ?case using assms(1) by (cases "a \<le> k") (auto simp: nth_list_update less_Suc_eq)
qed (simp add: assms)

definition heap_ok :: "(bytes \<Rightarrow> bytes) \<Rightarrow> nat \<Rightarrow> nat \<Rightarrow> bytes list \<Rightarrow> bool" where
  "heap_ok sha k n t \<longleftrightarrow> (\<forall>j. k \<le> j \<and> j < n \<longrightarrow> t ! j = swf_node sha (t ! (2 * j)) (t ! (2 * j + 1)))"

lemma foldl_inner:
  assumes "length t = 2 * n" "1 \<le> k" "k \<le> n"
  shows "length (foldl (\<lambda>t i. t[i := swf_node sha (t ! (2 * i)) (t ! (2 * i + 1))]) t (rev [k..<n])) = 2 * n \<and>
    (\<forall>j \<ge> n. foldl (\<lambda>t i. t[i := swf_node sha (t ! (2 * i)) (t ! (2 * i + 1))]) t (rev [k..<n]) ! j = t ! j) \<and>
    heap_ok sha k n (foldl (\<lambda>t i. t[i := swf_node sha (t ! (2 * i)) (t ! (2 * i + 1))]) t (rev [k..<n]))"
  using assms(2,3)
proof (induction "n - k" arbitrary: k)
  case 0
  then have "n = k" by simp
  then show ?case by (auto simp: assms(1) heap_ok_def)
next
  case (Suc d)
  define u where "u = foldl (\<lambda>t i. t[i := swf_node sha (t ! (2 * i)) (t ! (2 * i + 1))]) t (rev [Suc k..<n])"
  have "d = n - Suc k" "1 \<le> Suc k" "Suc k \<le> n" using Suc by auto
  from Suc.hyps(1) [OF this] have u: "length u = 2 * n" "\<forall>j \<ge> n. u ! j = t ! j" "heap_ok sha (Suc k) n u"
    by (simp_all add: u_def)
  have kn: "k < n" using Suc by linarith
  let ?v = "u[k := swf_node sha (u ! (2 * k)) (u ! (2 * k + 1))]"
  have e: "foldl (\<lambda>t i. t[i := swf_node sha (t ! (2 * i)) (t ! (2 * i + 1))]) t (rev [k..<n]) = ?v"
    using kn by (simp add: upt_conv_Cons [of k n] u_def)
  have "?v ! j = swf_node sha (?v ! (2 * j)) (?v ! (2 * j + 1))" if "k \<le> j" "j < n" for j
  proof (cases "j = k")
    case True
    then show ?thesis using u(1) kn Suc.prems(1) by simp
  next
    case False
    then show ?thesis using u(3) that Suc.prems(1) by (simp add: heap_ok_def)
  qed
  then show ?case unfolding e using u kn by (simp add: heap_ok_def)
qed

lemma build_merkle_tree_ok:
  assumes "npow2 (length leaves) = n" "length leaves \<le> n" "1 \<le> n"
  shows "length (build_merkle_tree sha leaves steps) = 2 * n \<and>
    (\<forall>i < length leaves. build_merkle_tree sha leaves steps ! (n + i) = leaves ! i) \<and>
    heap_ok sha 1 n (build_merkle_tree sha leaves steps)"
proof -
  let ?t0 = "replicate (2 * n) (replicate 32 0)"
  let ?t1 = "foldl (\<lambda>t i. t[n + i := leaves ! i]) ?t0 [0..<length leaves]"
  let ?t2 = "foldl (\<lambda>t i. t[n + i := padding_value sha steps]) ?t1 [length leaves..<n]"
  have 1: "length ?t1 = 2 * n" "\<forall>i < length leaves. ?t1 ! (n + i) = leaves ! i"
    using foldl_update_at [of ?t0 n "length leaves" "\<lambda>i. leaves ! i" 0] assms(2) by simp_all
  have 2: "length ?t2 = 2 * n" "\<forall>i < length leaves. ?t2 ! (n + i) = leaves ! i"
    using foldl_update_at [OF 1(1), of n "\<lambda>_. padding_value sha steps" "length leaves"] 1(2) assms(2) by simp_all
  have "build_merkle_tree sha leaves steps =
      foldl (\<lambda>t i. t[i := swf_node sha (t ! (2 * i)) (t ! (2 * i + 1))]) ?t2 (rev [1..<n])"
    by (simp add: build_merkle_tree_def Let_def assms(1))
  then show ?thesis using foldl_inner [OF 2(1) order_refl assms(3), of sha] 2(2) by simp
qed

lemma merkle_proof_loop_acc: "merkle_proof_loop tree idx path = path @ merkle_proof_loop tree idx []"
proof (induction idx arbitrary: path rule: less_induct)
  case (less idx)
  show ?case
  proof (cases "idx > 1")
    case True
    then have "idx div 2 < idx" by simp
    from less [OF this, of "path @ [tree ! sibling idx]"] less [OF this, of "[tree ! sibling idx]"] True
    show ?thesis
      using merkle_proof_loop.simps [of tree idx path] merkle_proof_loop.simps [of tree idx "[]"] by simp
  qed (simp add: merkle_proof_loop.simps)
qed

lemma merkle_proof_loop_step:
  "1 < idx \<Longrightarrow> merkle_proof_loop tree idx [] = tree ! sibling idx # merkle_proof_loop tree (idx div 2) []"
  using merkle_proof_loop_acc [of tree "idx div 2" "[tree ! sibling idx]"]
  by (subst merkle_proof_loop.simps) simp

text \<open>The path from a position up to the root folds to the root, and is as long as the tree is
  high.\<close>

lemma merkle_path_folds:
  assumes "heap_ok sha 1 (2 ^ K) t" "k \<le> K" "i < 2 ^ k"
  shows "swf_path_fold sha i (t ! (2 ^ k + i)) (merkle_proof_loop t (2 ^ k + i) []) = t ! 1 \<and>
    length (merkle_proof_loop t (2 ^ k + i) []) = k"
  using assms(2,3)
proof (induction k arbitrary: i)
  case 0
  then show ?case by (simp add: merkle_proof_loop.simps)
next
  case (Suc k)
  let ?p = "2 ^ Suc k + i" and ?q = "2 ^ k + i div 2"
  have "(1::nat) \<le> 2 ^ k" by simp
  then have "1 < ?p" unfolding power_Suc by linarith
  moreover have "?p div 2 = ?q" "i div 2 < 2 ^ k" using Suc.prems(2) by auto
  ultimately have q: "?p div 2 = ?q" "1 < ?p" "i div 2 < 2 ^ k" by blast+
  have bound: "?q < 2 ^ K"
  proof -
    have "?q < 2 ^ Suc k" using q(3) by simp
    also have "\<dots> \<le> 2 ^ K" using Suc.prems(1) by (intro power_increasing) simp_all
    finally show ?thesis .
  qed
  have node: "t ! ?q = swf_node sha (t ! (2 * ?q)) (t ! (2 * ?q + 1))"
    using assms(1) bound \<open>1 \<le> 2 ^ k\<close> unfolding heap_ok_def by (meson trans_le_add1)
  have up: "(if i mod 2 = 0 then swf_node sha (t ! ?p) (t ! sibling ?p) else swf_node sha (t ! sibling ?p) (t ! ?p))
      = t ! ?q"
  proof (cases "even i")
    case True
    then have "?p = 2 * ?q" "sibling ?p = 2 * ?q + 1" by (auto simp: sibling_def)
    then show ?thesis using True node by simp
  next
    case False
    then have "?p = 2 * ?q + 1" "sibling ?p = 2 * ?q" by (auto simp: sibling_def elim!: oddE)
    then show ?thesis using False node by (simp add: odd_iff_mod_2_eq_one)
  qed
  from Suc.IH [OF _ q(3)] Suc.prems(1) have ih:
    "swf_path_fold sha (i div 2) (t ! ?q) (merkle_proof_loop t ?q []) = t ! 1"
    "length (merkle_proof_loop t ?q []) = k" by simp_all
  show ?case
    unfolding merkle_proof_loop_step [OF q(2)] q(1) swf_path_fold.simps up
    using ih by simp
qed

subsection \<open>Honest outputs\<close>

text \<open>\<open>raws\<close> is the chain of outputs that starts from \<open>input\<close>.\<close>

definition honest_raws ::
    "swf_lib \<Rightarrow> (bytes \<Rightarrow> bytes) \<Rightarrow> argon2_params \<Rightarrow> bytes \<Rightarrow> nat \<Rightarrow> bytes \<Rightarrow> bytes list \<Rightarrow> bool" where
  "honest_raws lib sha params input i current raws \<longleftrightarrow>
     (\<forall>k < length raws.
        lib_argon2 lib params (if k = 0 then current else raws ! (k - 1)) (swf_salt sha input (i + k)) = Some (raws ! k))"

lemma swf_iterate_honest:
  "swf_iterate lib sha params input i n current = Inr (leaves, raws) \<Longrightarrow>
    length raws = n \<and> leaves = map (swf_leaf sha) raws \<and> honest_raws lib sha params input i current raws"
proof (induction n arbitrary: i current leaves raws)
  case 0
  then show ?case by (simp add: honest_raws_def)
next
  case (Suc n)
  then obtain out ls rs where o: "lib_argon2 lib params current (swf_salt sha input i) = Some out"
    and r: "swf_iterate lib sha params input (i + 1) n out = Inr (ls, rs)"
    and e: "leaves = swf_leaf sha out # ls" "raws = out # rs"
    by (auto simp: res_bind_Inr_iff split: option.splits)
  have "honest_raws lib sha params input i current (out # rs)"
    unfolding honest_raws_def
  proof (intro allI impI)
    fix k assume "k < length (out # rs)"
    then show "lib_argon2 lib params (if k = 0 then current else (out # rs) ! (k - 1)) (swf_salt sha input (i + k)) =
        Some ((out # rs) ! k)"
      using o Suc.IH [OF r] by (cases k; cases "k - 1") (auto simp: honest_raws_def)
  qed
  then show ?case using Suc.IH [OF r] e by simp
qed

subsection \<open>Sampling\<close>

definition select_next :: "(bytes \<Rightarrow> bytes) \<Rightarrow> nat \<Rightarrow> nat \<Rightarrow> nat list \<Rightarrow> nat list" where
  "select_next okm n j indices =
     (let raw = be_val (okm (be 4 j)) in
      if 2 ^ 32 - 1 - (2 ^ 32 - 1) mod n \<le> raw \<or> raw mod n \<in> set indices
      then indices else indices @ [raw mod n])"

lemma select_loop_done: "\<not> (length is < count \<and> length is < N) \<Longrightarrow> select_loop okm n N count j is = Inr is"
  by (subst select_loop.simps) (simp only: if_False)

lemma select_loop_panic:
  "length is < count \<and> length is < N \<Longrightarrow> 2 ^ 32 \<le> j + 1 \<Longrightarrow> select_loop okm n N count j is = Inl SwfPanic"
  by (subst select_loop.simps) (simp only: if_True simp_thms)

lemma select_loop_next:
  assumes "length is < count \<and> length is < N" "\<not> 2 ^ 32 \<le> j + 1"
  shows "select_loop okm n N count j is = select_loop okm n N count (j + 1) (select_next okm n j is)"
proof -
  let ?raw = "be_val (okm (be 4 j))"
  show ?thesis
    unfolding select_loop.simps [of okm n N count j "is"] select_next_def Let_def
    using assms
    by (cases "2 ^ 32 - 1 - (2 ^ 32 - 1) mod n \<le> ?raw"; cases "?raw mod n \<in> set is")
      (simp_all only: if_True if_False simp_thms)
qed

lemma select_loop_ok:
  assumes "select_loop okm n N count j is = Inr l" "0 < n" "n \<le> N" "distinct is" "set is \<subseteq> {..<N}"
    "length is \<le> min count N"
  shows "length l = min count N \<and> distinct l \<and> set l \<subseteq> {..<N} \<and> select_loop okm n N (length l) j is = Inr l"
  using assms(1,4-6)
proof (induction "2 ^ 32 - j" arbitrary: j "is" rule: less_induct)
  case less
  show ?case
  proof (cases "length is < count \<and> length is < N")
    case False
    then have "l = is" using less.prems(1) select_loop_done [OF False] by simp
    then show ?thesis using False less.prems select_loop_done [of "is" "length is" N okm n j] by auto
  next
    case True
    have j: "\<not> 2 ^ 32 \<le> j + 1" using select_loop_panic [OF True, of j okm n] less.prems(1) by auto
    let ?is = "select_next okm n j is"
    have m: "x mod n < N" for x :: nat using assms(2,3) by (meson less_le_trans mod_less_divisor)
    have nxt: "distinct ?is" "set ?is \<subseteq> {..<N}" "length ?is \<le> min count N"
      using less.prems True m by (auto simp: select_next_def Let_def)
    have dec: "2 ^ 32 - (j + 1) < 2 ^ 32 - j" using j by linarith
    have "select_loop okm n N count (j + 1) ?is = Inr l"
      using less.prems(1) select_loop_next [OF True j] by simp
    from less.hyps [OF dec this nxt] have ih: "length l = min count N" "distinct l" "set l \<subseteq> {..<N}"
      "select_loop okm n N (length l) (j + 1) ?is = Inr l" by blast+
    have "length is < length l \<and> length is < N" using ih(1) True by simp
    from select_loop_next [OF this j] ih show ?thesis by simp
  qed
qed

lemma select_indices_ok:
  assumes "select_indices lib seed N count = Inr l" "0 < N"
  shows "length l = min count N \<and> distinct l \<and> set l \<subseteq> {..<N} \<and> select_indices lib seed N (length l) = Inr l"
proof -
  have s: "select_loop (lib_hkdf lib seed) (min N (2 ^ 32 - 1)) N count 0 [] = Inr l"
    "0 < min N (2 ^ 32 - 1)" "min N (2 ^ 32 - 1) \<le> N"
    using assms by (simp_all add: select_indices_def)
  have l: "length l = min count N \<and> distinct l \<and> set l \<subseteq> {..<N} \<and>
      select_loop (lib_hkdf lib seed) (min N (2 ^ 32 - 1)) N (length l) 0 [] = Inr l"
    by (rule select_loop_ok [OF s]) simp_all
  then have "select_loop (lib_hkdf lib seed) (min N (2 ^ 32 - 1)) N (length l) 0 [] = Inr l" by blast
  then have "select_indices lib seed N (length l) = Inr l" using assms(2) by (simp add: select_indices_def)
  with l show ?thesis by blast
qed

subsection \<open>Checking honest samples\<close>

text \<open>A sample whose leaf, path and output are those of the chain \<open>raws\<close>.\<close>

definition honest_sample ::
    "(bytes \<Rightarrow> bytes) \<Rightarrow> bytes \<Rightarrow> bytes list \<Rightarrow> merkle_sample_proof \<Rightarrow> bool" where
  "honest_sample sha root raws s \<longleftrightarrow>
     ms_leaf_index s < length raws \<and> ms_raw_output s = raws ! ms_leaf_index s \<and>
     ms_leaf_value s = swf_leaf sha (ms_raw_output s) \<and>
     verify_merkle_proof sha root (ms_leaf_index s) (ms_leaf_value s) (ms_sibling_path s)"

lemma verify_samples_honest:
  assumes "honest_raws lib sha (sw_params p) (sw_input p) 0 (sw_input p) raws"
    and "\<forall>s \<in> set ss. honest_sample sha (sw_merkle_root p) raws s"
  shows "verify_samples lib sha p ss = Inr True"
  using assms(2)
proof (induction ss)
  case (Cons s ss)
  have h: "honest_sample sha (sw_merkle_root p) raws s" using Cons.prems by simp
  have z: "lib_argon2 lib (sw_params p) (sw_input p) (swf_salt sha (sw_input p) 0) = Some (raws ! 0)"
    if "ms_leaf_index s = 0"
  proof -
    have "0 < length raws" using h that by (simp add: honest_sample_def)
    then show ?thesis using assms(1) by (force simp: honest_raws_def)
  qed
  have "verify_samples lib sha p ss = Inr True" using Cons by simp
  with h z show ?case by (cases "ms_leaf_index s = 0") (auto simp: honest_sample_def)
qed simp

lemma transition_salt_eq: "0 < i \<Longrightarrow> i < 2 ^ 32 \<Longrightarrow> transition_salt sha i = swf_salt sha input i"
  by (simp add: transition_salt_def swf_salt_def)

lemma honest_transition:
  assumes "honest_raws lib sha params input 0 input raws" "length raws < 2 ^ 32"
    and "honest_sample sha root raws s" "honest_sample sha root raws s'"
    and "ms_leaf_index s' = ms_leaf_index s + 1"
  shows "lib_argon2 lib params (ms_raw_output s) (transition_salt sha (ms_leaf_index s')) = Some (ms_raw_output s')"
proof -
  let ?i = "ms_leaf_index s'"
  have i: "?i < length raws" "0 < ?i" using assms(4,5) by (simp_all add: honest_sample_def)
  then have "lib_argon2 lib params (raws ! (?i - 1)) (swf_salt sha input (0 + ?i)) = Some (raws ! ?i)"
    using assms(1) unfolding honest_raws_def by (auto dest!: spec [of _ ?i])
  moreover have "transition_salt sha ?i = swf_salt sha input ?i"
    using i assms(2) by (intro transition_salt_eq) simp_all
  ultimately show ?thesis using assms(3-5) by (simp add: honest_sample_def)
qed

lemma verify_transitions_honest:
  assumes "honest_raws lib sha params input 0 input raws" "length raws < 2 ^ 32"
  shows "\<forall>s \<in> set ss. honest_sample sha root raws s \<Longrightarrow> verify_transitions lib sha params ss = Inr True"
proof (induction ss rule: induct_list012)
  case (3 s s' ss)
  have h: "honest_sample sha root raws s" "honest_sample sha root raws s'" using 3 by simp_all
  have "ms_leaf_index s < length raws" using h(1) by (simp add: honest_sample_def)
  then have lt: "\<not> 2 ^ 64 \<le> ms_leaf_index s + 1" using assms(2) by simp
  have "verify_transitions lib sha params (s' # ss) = Inr True" using 3 by simp
  with lt honest_transition [OF assms h] show ?case
    by (cases "ms_leaf_index s' = ms_leaf_index s + 1") simp_all
qed simp_all

lemma honest_samples:
  assumes "swf_iterate lib sha params input 0 N input = Inr (leaves, raws)" "0 < N" "N \<le> MAX_ITERATIONS"
    and "i < N" "tree = build_merkle_tree sha leaves N"
  shows "honest_sample sha (tree ! 1) raws
    \<lparr>ms_leaf_index = i, ms_leaf_value = leaves ! i, ms_sibling_path = swf_merkle_proof tree i (length leaves),
     ms_raw_output = raws ! i\<rparr>"
proof -
  have it: "length raws = N" "leaves = map (swf_leaf sha) raws" using swf_iterate_honest [OF assms(1)] by blast+
  then have len: "length leaves = N" by simp
  have "length leaves \<le> 2 ^ 24" using assms(3) by (simp add: len MAX_ITERATIONS_def)
  then obtain k where k: "k \<le> 24" "npow2 (length leaves) = 2 ^ k" "length leaves \<le> 2 ^ k"
    by (rule next_power_of_two_ok)
  from build_merkle_tree_ok [OF k(2,3), of sha N] assms(4)
  have t: "tree ! (2 ^ k + i) = leaves ! i" "heap_ok sha 1 (2 ^ k) tree" by (simp_all add: assms(5) len)
  have "i < 2 ^ k" using assms(4) k(3) len by simp
  from merkle_path_folds [OF t(2) order_refl this] t(1) k(1)
  have "verify_merkle_proof sha (tree ! 1) i (leaves ! i) (swf_merkle_proof tree i (length leaves))"
    by (simp add: verify_merkle_proof_def swf_merkle_proof_def k(2))
  then show ?thesis using it assms(4) by (simp add: honest_sample_def)
qed

lemma list_ex_zip_map: "\<not> list_ex (\<lambda>(s, i). f s \<noteq> i) (zip (map g is) is)" if "\<And>i. f (g i) = i"
  using that by (induction "is") simp_all

subsection \<open>The properties\<close>

lemma swf_compute_E:
  assumes "swf_compute_with_algorithm lib sha input params count alg elapsed = Inr p"
  obtains leaves raws tree challenge indices where
    "0 < a2_iterations params" "a2_iterations params \<le> MAX_ITERATIONS" "lib_params lib params"
    "swf_iterate lib sha params input 0 (a2_iterations params) input = Inr (leaves, raws)"
    "tree = build_merkle_tree sha leaves (a2_iterations params)"
    "fiat_shamir_challenge lib sha (sw_merkle_root p) input params alg = Inr challenge"
    "select_indices lib challenge (a2_iterations params) count = Inr indices"
    "sw_sampled_proofs p = map (\<lambda>idx. \<lparr>ms_leaf_index = idx, ms_leaf_value = leaves ! idx,
       ms_sibling_path = swf_merkle_proof tree idx (length leaves), ms_raw_output = raws ! idx\<rparr>) indices"
    "sw_merkle_root p = (if 1 < length tree then tree ! 1 else replicate 32 0)"
    "sw_input p = input" "sw_params p = params" "sw_challenge p = challenge" "sw_proof_algorithm p = alg"
  using assms
  by (auto simp: swf_compute_with_algorithm_def validate_iterations_def res_bind_Inr_iff Let_def
    split: if_splits)

lemma swf_compute_verified:
  assumes "swf_compute_with_algorithm lib sha input params count alg elapsed = Inr p"
  shows "swf_verify lib sha p = Inr (\<exists>s \<in> set (sw_sampled_proofs p). ms_leaf_index s = 0)"
proof -
  obtain leaves raws tree challenge indices where
    n: "0 < a2_iterations params" "a2_iterations params \<le> MAX_ITERATIONS" "lib_params lib params" and
    it: "swf_iterate lib sha params input 0 (a2_iterations params) input = Inr (leaves, raws)" and
    tree: "tree = build_merkle_tree sha leaves (a2_iterations params)" and
    ch: "fiat_shamir_challenge lib sha (sw_merkle_root p) input params alg = Inr challenge" and
    ind: "select_indices lib challenge (a2_iterations params) count = Inr indices" and
    sp: "sw_sampled_proofs p = map (\<lambda>idx. \<lparr>ms_leaf_index = idx, ms_leaf_value = leaves ! idx,
       ms_sibling_path = swf_merkle_proof tree idx (length leaves), ms_raw_output = raws ! idx\<rparr>) indices" and
    root: "sw_merkle_root p = (if 1 < length tree then tree ! 1 else replicate 32 0)" and
    p: "sw_input p = input" "sw_params p = params" "sw_challenge p = challenge" "sw_proof_algorithm p = alg"
    using assms by (rule swf_compute_E)
  have raws: "length raws = a2_iterations params" "honest_raws lib sha params input 0 input raws"
    "length leaves = a2_iterations params"
    using swf_iterate_honest [OF it] by auto
  note sel = select_indices_ok [OF ind n(1)]
  have "length leaves \<le> 2 ^ 24" using raws(3) n(2) by (simp add: MAX_ITERATIONS_def)
  then obtain k where k: "npow2 (length leaves) = 2 ^ k" "length leaves \<le> 2 ^ k"
    by (rule next_power_of_two_ok)
  have "1 < length tree"
  proof -
    have "length tree = 2 * 2 ^ k"
      using build_merkle_tree_ok [OF k, of sha "a2_iterations params"] by (simp add: tree)
    moreover have "(1::nat) \<le> 2 ^ k" by simp
    ultimately show ?thesis by linarith
  qed
  then have root1: "sw_merkle_root p = tree ! 1" by (simp add: root)
  have hs: "\<forall>s \<in> set (sw_sampled_proofs p). honest_sample sha (sw_merkle_root p) raws s"
    using sel honest_samples [OF it n(1,2) _ tree] by (auto simp: sp root1)
  then have hs': "\<forall>s \<in> set (sort_key ms_leaf_index (sw_sampled_proofs p)).
      honest_sample sha (sw_merkle_root p) raws s" by simp
  have vs: "verify_samples lib sha p (sw_sampled_proofs p) = Inr True"
    by (rule verify_samples_honest [of lib sha p raws]) (simp_all add: p raws(2) hs)
  have vt: "verify_transitions lib sha params (sort_key ms_leaf_index (sw_sampled_proofs p)) = Inr True"
    using raws n(2) by (intro verify_transitions_honest [OF raws(2) _ hs']) (simp add: MAX_ITERATIONS_def)
  have z: "\<not> list_ex (\<lambda>(s, idx). ms_leaf_index s \<noteq> idx) (zip (sw_sampled_proofs p) indices)"
    unfolding sp by (rule list_ex_zip_map) simp
  have l: "length (sw_sampled_proofs p) = length indices" by (simp add: sp)
  have si: "select_indices lib challenge (a2_iterations params) (length indices) = Inr indices"
    using sel by blast
  have v: "validate_iterations (a2_iterations params) = Inr ()" using n by (simp add: validate_iterations_def)
  show ?thesis
    unfolding swf_verify_def verify_with_samples_def p ch v l
    using si n(3) vs vt z by (simp add: list_ex_iff)
qed

text \<open>C26: A proof that the prover makes passes every check of the verifier, except that the
  verifier also asks for a sample of the first leaf, which the challenge may not have
  selected: the proof is accepted if and only if it was.\<close>

theorem swf_honest_verifies_iff:
  assumes "swf_compute_with_algorithm lib sha input params count alg elapsed = Inr p"
  shows "swf_verify lib sha p = Inr (\<exists>s \<in> set (sw_sampled_proofs p). ms_leaf_index s = 0)"
  using assms by (rule swf_compute_verified)

text \<open>A library for the witnesses: Argon2id is constant, the challenge selects what the
  counter plus \<open>off\<close> says.\<close>

definition toy_lib :: "nat \<Rightarrow> swf_lib" where
  "toy_lib off = \<lparr>lib_params = \<lambda>_. True, lib_argon2 = \<lambda>_ _ _. Some (replicate 32 9),
     lib_hkdf = \<lambda>_ info. be 4 (be_val info + off), lib_cbor = \<lambda>_. Some []\<rparr>"

definition toy_params :: argon2_params where
  "toy_params = \<lparr>a2_time_cost = 1, a2_memory_cost = 8, a2_parallelism = 1, a2_iterations = 2\<rparr>"

lemma toy_select: "off < 2 \<Longrightarrow> select_indices (toy_lib off) seed 2 1 = Inr [off]"
  by (simp add: select_indices_def toy_lib_def select_loop_done select_loop_next select_next_def Let_def
    byte_simps be_val_be)

lemma toy_compute:
  assumes "off < 2"
  shows "\<exists>p. swf_compute_with_algorithm (toy_lib off) id [] toy_params 1 20 0 = Inr p \<and>
    map ms_leaf_index (sw_sampled_proofs p) = [off]"
proof -
  have "swf_iterate (toy_lib off) id toy_params [] 0 2 [] =
      Inr (map (swf_leaf id) [replicate 32 9, replicate 32 9], [replicate 32 9, replicate 32 9])"
    by (simp add: numeral_2_eq_2 toy_lib_def)
  moreover have "validate_iterations 2 = Inr ()" by (simp add: validate_iterations_def MAX_ITERATIONS_def)
  moreover have "lib_params (toy_lib off) toy_params" "lib_cbor (toy_lib off) toy_params = Some []"
    "a2_iterations toy_params = 2"
    by (simp_all add: toy_lib_def toy_params_def)
  ultimately show ?thesis
    unfolding swf_compute_with_algorithm_def
    by (simp add: Let_def fiat_shamir_challenge_def toy_select [OF assms] del: One_nat_def)
qed

theorem swf_honest_verifies_iff_witness:
  "(\<exists>p. swf_compute_with_algorithm (toy_lib 0) id [] toy_params 1 20 0 = Inr p \<and>
      swf_verify (toy_lib 0) id p = Inr True) \<and>
   (\<exists>p. swf_compute_with_algorithm (toy_lib 1) id [] toy_params 1 20 0 = Inr p \<and>
      swf_verify (toy_lib 1) id p = Inr False)"
proof -
  have "\<exists>p. swf_compute_with_algorithm (toy_lib off) id [] toy_params 1 20 0 = Inr p \<and>
      swf_verify (toy_lib off) id p = Inr (off = 0)" if o: "off < 2" for off
  proof -
    obtain p where p: "swf_compute_with_algorithm (toy_lib off) id [] toy_params 1 20 0 = Inr p"
      "map ms_leaf_index (sw_sampled_proofs p) = [off]"
      using toy_compute [OF o] by (elim exE conjE)
    have "(\<exists>s \<in> set (sw_sampled_proofs p). ms_leaf_index s = 0) \<longleftrightarrow>
        0 \<in> set (map ms_leaf_index (sw_sampled_proofs p))" by force
    also have "\<dots> \<longleftrightarrow> off = 0" unfolding p(2) by auto
    finally have "(\<exists>s \<in> set (sw_sampled_proofs p). ms_leaf_index s = 0) \<longleftrightarrow> off = 0" .
    with swf_honest_verifies_iff [OF p(1)]
    have "swf_verify (toy_lib off) id p = Inr (off = 0)" by (simp only:)
    with p(1) show ?thesis by (intro exI conjI)
  qed
  from this [of 0] this [of 1] show ?thesis by simp
qed

text \<open>The verifier takes the number of samples from the proof. A proof with one sample, of
  the first leaf, is accepted for any number of iterations as soon as the challenge of its
  root selects that leaf: the first Argon2id evaluation is all the work it needs, and the
  siblings of its path are free to search for such a root.\<close>

theorem swf_single_sample_accepted:
  assumes "0 < a2_iterations params" "a2_iterations params \<le> MAX_ITERATIONS" "lib_params lib params"
    and "lib_argon2 lib params input (swf_salt sha input 0) = Some raw" "length path \<le> 64"
    and "root = swf_path_fold sha 0 (swf_leaf sha raw) path"
    and "fiat_shamir_challenge lib sha root input params alg = Inr challenge"
    and "select_indices lib challenge (a2_iterations params) 1 = Inr [0]"
  shows "swf_verify lib sha \<lparr>sw_input = input, sw_merkle_root = root, sw_params = params,
    sw_sampled_proofs = [\<lparr>ms_leaf_index = 0, ms_leaf_value = swf_leaf sha raw, ms_sibling_path = path,
                          ms_raw_output = raw\<rparr>],
    sw_claimed_duration = d, sw_challenge = challenge, sw_proof_algorithm = alg\<rparr> = Inr True"
  using assms
  by (simp add: swf_verify_def verify_with_samples_def validate_iterations_def verify_merkle_proof_def)

theorem swf_single_sample_accepted_witness:
  "swf_verify (toy_lib 0) id \<lparr>sw_input = [],
     sw_merkle_root = swf_path_fold id 0 (swf_leaf id (replicate 32 9)) [[7]], sw_params = toy_params,
     sw_sampled_proofs = [\<lparr>ms_leaf_index = 0, ms_leaf_value = swf_leaf id (replicate 32 9),
        ms_sibling_path = [[7]], ms_raw_output = replicate 32 9\<rparr>],
     sw_claimed_duration = 0,
     sw_challenge = ascii ''PoP-Fiat-Shamir-v1'' @ be 2 20 @ swf_path_fold id 0 (swf_leaf id (replicate 32 9)) [[7]],
     sw_proof_algorithm = 20\<rparr> = Inr True"
  by (rule swf_single_sample_accepted)
    (simp_all add: toy_params_def MAX_ITERATIONS_def toy_lib_def fiat_shamir_challenge_def
      toy_select [unfolded toy_lib_def, of 0, simplified])

end
