(* ===== verification/Chk_Types.thy ===== *)
theory Chk_Types
  imports Swf_Argon2 Mmr_Core
begin

text \<open>
  Checkpoints (\<open>cpoe/src/checkpoint/types.rs\<close>, \<open>chain_helpers.rs\<close>): the record, its hash over
  the bound fields and the checks of its timestamp. Strings are their UTF-8 bytes. An instant
  is the number of nanoseconds since the Unix epoch, of any sign and size; a floating-point
  number that is only hashed is its 64-bit pattern. Of the structures of the protocol crate a
  record keeps the fields that the checkpoint code reads.
\<close>

subsection \<open>Records\<close>

datatype entanglement_mode = Legacy | Entangled
datatype signature_policy = Optional | Required
datatype hash_domain_version = V1 | V2 | V3 | V4 | V5
datatype time_binding_tier = TierMaximum | TierEnhanced | TierStandard | TierDegraded

definition domain_separator :: "hash_domain_version \<Rightarrow> bytes" where
  "domain_separator v = (case v of
       V1 \<Rightarrow> ascii ''cpoe-checkpoint-v1'' | V2 \<Rightarrow> ascii ''cpoe-checkpoint-v2''
     | V3 \<Rightarrow> ascii ''cpoe-checkpoint-v3'' | V4 \<Rightarrow> ascii ''cpoe-checkpoint-v4''
     | V5 \<Rightarrow> ascii ''cpoe-checkpoint-v5'')"

definition tier_code :: "time_binding_tier \<Rightarrow> byte" where
  "tier_code t = (case t of TierMaximum \<Rightarrow> 1 | TierEnhanced \<Rightarrow> 2 | TierStandard \<Rightarrow> 3 | TierDegraded \<Rightarrow> 4)"

record jitter_binding =
  jb_jitter_hash :: bytes
  jb_session_id :: bytes
  jb_keystroke_count :: nat
  jb_physics_seed :: "bytes option"

record calibration_attestation =
  cal_iterations_per_second :: nat
  cal_hardware_class :: bytes

record vdf_proof_rfc =
  rv_challenge :: bytes
  rv_output :: bytes
  rv_iterations :: nat
  rv_duration_ms :: nat
  rv_calibration :: calibration_attestation

record rfc_jitter_binding =
  rj_commitment_hash :: bytes
  rj_sample_count :: nat
  rj_hurst_exponent :: "nat option"
  rj_mac :: bytes

record time_evidence =
  te_tier :: time_binding_tier
  te_timestamp_ms :: nat
  te_vdf_proof_hash :: bytes

record tpm_binding =
  tb_monotonic_counter :: nat
  tb_clock_info :: bytes
  tb_attestation :: bytes
  tb_signature :: bytes
  tb_public_key :: bytes

record checkpoint =
  cp_ordinal :: nat
  cp_previous_hash :: bytes
  cp_hash :: bytes
  cp_content_hash :: bytes
  cp_content_size :: nat
  cp_file_path :: bytes
  cp_timestamp :: int
  cp_message :: "bytes option"
  cp_vdf :: "vdf_proof option"
  cp_tpm_binding :: "tpm_binding option"
  cp_signature :: "bytes option"
  cp_jitter_binding :: "jitter_binding option"
  cp_rfc_vdf :: "vdf_proof_rfc option"
  cp_rfc_jitter :: "rfc_jitter_binding option"
  cp_time_evidence :: "time_evidence option"
  cp_mmr_inclusion_proof :: "bytes option"
  cp_mmr_root :: "bytes option"
  cp_argon2_swf :: "argon2_swf_proof option"
  cp_posme_swf :: "bytes option"
  cp_challenge_nonce :: "bytes option"
  cp_explicit_hash_version :: "hash_domain_version option"

definition new_base :: "int \<Rightarrow> nat \<Rightarrow> bytes \<Rightarrow> bytes \<Rightarrow> nat \<Rightarrow> bytes option \<Rightarrow> checkpoint" where
  "new_base now ordinal previous_hash content_hash content_size message =
     \<lparr>cp_ordinal = ordinal, cp_previous_hash = previous_hash, cp_hash = replicate 32 0,
      cp_content_hash = content_hash, cp_content_size = content_size, cp_file_path = [],
      cp_timestamp = now, cp_message = message, cp_vdf = None, cp_tpm_binding = None,
      cp_signature = None, cp_jitter_binding = None, cp_rfc_vdf = None, cp_rfc_jitter = None,
      cp_time_evidence = None, cp_mmr_inclusion_proof = None, cp_mmr_root = None,
      cp_argon2_swf = None, cp_posme_swf = None, cp_challenge_nonce = None,
      cp_explicit_hash_version = None\<rparr>"

subsection \<open>The hash\<close>

definition infer_hash_version :: "checkpoint \<Rightarrow> hash_domain_version" where
  "infer_hash_version cp =
     (if cp_posme_swf cp \<noteq> None then V5
      else if cp_argon2_swf cp \<noteq> None then V4
      else if cp_rfc_vdf cp \<noteq> None \<or> cp_rfc_jitter cp \<noteq> None \<or> cp_time_evidence cp \<noteq> None then V3
      else if cp_jitter_binding cp \<noteq> None then V2
      else V1)"

definition hash_version :: "checkpoint \<Rightarrow> hash_domain_version" where
  "hash_version cp = (case cp_explicit_hash_version cp of Some v \<Rightarrow> v | None \<Rightarrow> infer_hash_version cp)"

definition CHALLENGE_DST :: bytes where
  "CHALLENGE_DST = ascii ''cpoe-challenge-v1''"

definition MMR_ROOT_DST :: bytes where
  "MMR_ROOT_DST = ascii ''cpoe-mmr-root-v1''"

text \<open>\<open>timestamp_nanos_opt\<close> gives the count if it fits an \<open>i64\<close>; \<open>timestamp_nanos_safe\<close> falls
  back to milliseconds with a saturating product.\<close>

definition timestamp_nanos_opt :: "int \<Rightarrow> int option" where
  "timestamp_nanos_opt t = (if i64 t then Some t else None)"

definition timestamp_nanos_safe :: "int \<Rightarrow> int" where
  "timestamp_nanos_safe t = (case timestamp_nanos_opt t of
       Some n \<Rightarrow> n
     | None \<Rightarrow> max (- (2 ^ 63)) (min (2 ^ 63 - 1) (t div 1000000 * 1000000)))"

definition f64_finite :: "nat \<Rightarrow> bool" where
  "f64_finite b \<longleftrightarrow> b div 2 ^ 52 mod 2 ^ 11 \<noteq> 2 ^ 11 - 1"

definition duration_to_ms :: "nat \<Rightarrow> nat" where
  "duration_to_ms nanos = min (nanos div 1000000) (2 ^ 64 - 1)"

definition opt_bytes :: "('a \<Rightarrow> bytes) \<Rightarrow> 'a option \<Rightarrow> bytes" where
  "opt_bytes f x = (case x of None \<Rightarrow> [] | Some y \<Rightarrow> f y)"

text \<open>What the hasher is fed, in the order of the updates: the part of fixed length first, then
  the optional fields.\<close>

definition bound_fields :: "checkpoint \<Rightarrow> bytes" where
  "bound_fields cp =
     be 8 (cp_ordinal cp) @ cp_previous_hash cp @ cp_content_hash cp @ be 8 (cp_content_size cp) @
     be 8 (nat (max 0 (timestamp_nanos_safe (cp_timestamp cp))))"

definition jitter_bytes :: "jitter_binding \<Rightarrow> bytes" where
  "jitter_bytes j = jb_jitter_hash j @ jb_session_id j @ be 8 (jb_keystroke_count j) @
     opt_bytes (\<lambda>s. s) (jb_physics_seed j)"

definition rfc_vdf_bytes :: "vdf_proof_rfc \<Rightarrow> bytes" where
  "rfc_vdf_bytes r = rv_challenge r @ rv_output r @ be 8 (rv_iterations r) @ be 8 (rv_duration_ms r) @
     be 8 (cal_iterations_per_second (rv_calibration r)) @ cal_hardware_class (rv_calibration r)"

definition rfc_jitter_bytes :: "rfc_jitter_binding \<Rightarrow> bytes" where
  "rfc_jitter_bytes r = rj_commitment_hash r @ be 8 (rj_sample_count r) @
     opt_bytes (\<lambda>h. if f64_finite h then be 8 h else replicate 8 255) (rj_hurst_exponent r) @ rj_mac r"

definition time_evidence_bytes :: "time_evidence \<Rightarrow> bytes" where
  "time_evidence_bytes t = [tier_code (te_tier t)] @ be 8 (te_timestamp_ms t) @ te_vdf_proof_hash t"

definition swf_bytes :: "argon2_swf_proof \<Rightarrow> bytes" where
  "swf_bytes s = sw_input s @ sw_merkle_root s @ be 8 (a2_iterations (sw_params s)) @
     be 4 (a2_time_cost (sw_params s)) @ be 4 (a2_memory_cost (sw_params s)) @
     be 4 (a2_parallelism (sw_params s)) @ sw_challenge s @ be 2 (sw_proof_algorithm s) @
     be 8 (duration_to_ms (sw_claimed_duration s))"

definition checkpoint_preimage :: "checkpoint \<Rightarrow> bytes" where
  "checkpoint_preimage cp =
     domain_separator (hash_version cp) @ bound_fields cp @
     opt_bytes vdf_encode (cp_vdf cp) @
     opt_bytes jitter_bytes (cp_jitter_binding cp) @
     opt_bytes rfc_vdf_bytes (cp_rfc_vdf cp) @
     opt_bytes rfc_jitter_bytes (cp_rfc_jitter cp) @
     opt_bytes time_evidence_bytes (cp_time_evidence cp) @
     opt_bytes swf_bytes (cp_argon2_swf cp) @
     opt_bytes (\<lambda>p. ascii ''cpoe-posme-v1'' @ p) (cp_posme_swf cp) @
     opt_bytes (\<lambda>n. CHALLENGE_DST @ n) (cp_challenge_nonce cp) @
     opt_bytes (\<lambda>r. MMR_ROOT_DST @ r) (cp_mmr_root cp)"

definition checkpoint_hash :: "(bytes \<Rightarrow> bytes) \<Rightarrow> checkpoint \<Rightarrow> bytes" where
  "checkpoint_hash sha cp = sha (checkpoint_preimage cp)"

datatype checkpoint_error =
    TimestampOverflow | TimestampBeforeEpoch | EmptyChain | CpHashMismatch nat | BrokenLink nat
  | InvalidGenesis | InvalidDigest | CborEncode | NoIterations | ZeroDurationOverride nat
  | NoPriorCheckpoint | ClockRegression nat | VdfFailed vdf_error | IntegrityCheck | MmrFailed mmr_error
  | FileIo | LockHeld | InvalidMode | EmptySessionId | PriorWithoutVdf | JitterRequired
  | SwfFailed swf_error | MacKey | MacLength | MacMismatch | Symlink | FileTooLarge | MalformedChain
  | Unsigned nat | SignatureLength nat | SignatureInvalid nat | VerifyingKeyLength | VerifyingKeyInvalid
  | OrdinalRange | MmrNotEmpty | InvalidChainId | ChainInvalid

definition validate_timestamp :: "checkpoint \<Rightarrow> (checkpoint_error, unit) result" where
  "validate_timestamp cp = (case timestamp_nanos_opt (cp_timestamp cp) of
       None \<Rightarrow> Inl TimestampOverflow
     | Some nanos \<Rightarrow> if nanos < 0 then Inl TimestampBeforeEpoch else Inr ())"

definition recompute_hash :: "(bytes \<Rightarrow> bytes) \<Rightarrow> checkpoint \<Rightarrow> checkpoint" where
  "recompute_hash sha cp = (case validate_timestamp cp of
       Inl _ \<Rightarrow> cp
     | Inr _ \<Rightarrow> cp\<lparr>cp_hash := checkpoint_hash sha cp\<rparr>)"

text \<open>The 64-byte field of the RFC form is the output followed by the input.\<close>

definition to_rfc_vdf :: "checkpoint \<Rightarrow> calibration_attestation \<Rightarrow> vdf_proof_rfc option" where
  "to_rfc_vdf cp calibration = map_option (\<lambda>v.
     \<lparr>rv_challenge = vdf_input v, rv_output = vdf_output v @ vdf_input v,
      rv_iterations = vdf_iterations v, rv_duration_ms = duration_to_ms (vdf_duration v),
      rv_calibration = calibration\<rparr>) (cp_vdf cp)"

subsection \<open>Helpers of the chain\<close>

definition GENESIS_DST :: bytes where
  "GENESIS_DST = ascii ''witnessd-genesis-v1''"

definition PHYSICS_MIX_DST :: bytes where
  "PHYSICS_MIX_DST = ascii ''witnessd-physics-mix-v1''"

text \<open>The document reference whose CBOR encoding seeds a chain; the salts are always absent.\<close>

record document_ref =
  dr_content_hash :: bytes
  dr_filename :: "bytes option"
  dr_byte_length :: nat
  dr_char_count :: nat

text \<open>The last component of a Unix path: separators and dots between components do not count,
  and there is no file name after a parent component.\<close>

fun path_components :: "bytes \<Rightarrow> bytes \<Rightarrow> bytes list" where
  "path_components [] acc = [acc]"
| "path_components (c # cs) acc =
     (if c = 47 then acc # path_components cs [] else path_components cs (acc @ [c]))"

definition file_name :: "bytes \<Rightarrow> bytes option" where
  "file_name path =
     (let parts = filter (\<lambda>p. p \<noteq> [] \<and> p \<noteq> [46]) (path_components path [])
      in if parts = [] \<or> last parts = [46, 46] then None else Some (last parts))"

text \<open>\<open>cbor\<close> encodes a document reference.\<close>

definition document_ref_cbor ::
    "(document_ref \<Rightarrow> bytes option) \<Rightarrow> bytes \<Rightarrow> nat \<Rightarrow> bytes \<Rightarrow> nat option \<Rightarrow> (checkpoint_error, bytes) result" where
  "document_ref_cbor cbor content_hash content_size document_path char_count =
     (if length content_hash \<noteq> 32 then Inl InvalidDigest
      else case cbor \<lparr>dr_content_hash = content_hash, dr_filename = file_name document_path,
                      dr_byte_length = content_size,
                      dr_char_count = (case char_count of Some n \<Rightarrow> n | None \<Rightarrow> content_size)\<rparr> of
        None \<Rightarrow> Inl CborEncode
      | Some cbor_bytes \<Rightarrow> Inr cbor_bytes)"

definition genesis_prev_hash ::
    "(bytes \<Rightarrow> bytes) \<Rightarrow> (document_ref \<Rightarrow> bytes option) \<Rightarrow> bytes \<Rightarrow> nat \<Rightarrow> bytes \<Rightarrow> nat option \<Rightarrow>
     (checkpoint_error, bytes) result" where
  "genesis_prev_hash sha cbor content_hash content_size document_path char_count =
     res_bind (document_ref_cbor cbor content_hash content_size document_path char_count)
       (\<lambda>cbor_bytes. Inr (sha (GENESIS_DST @ cbor_bytes)))"

definition mix_physics_seed :: "(bytes \<Rightarrow> bytes) \<Rightarrow> bytes \<Rightarrow> bytes option \<Rightarrow> bytes" where
  "mix_physics_seed sha base_input physics_seed = (case physics_seed of
       Some seed \<Rightarrow> sha (PHYSICS_MIX_DST @ base_input @ seed)
     | None \<Rightarrow> base_input)"

definition create_seed :: "(bytes \<Rightarrow> bytes) \<Rightarrow> bytes \<Rightarrow> bytes \<Rightarrow> bytes" where
  "create_seed sha content_hash combined_hash =
     sha (ascii ''cpoe-entanglement-v1'' @ content_hash @ combined_hash)"

subsection \<open>Facts\<close>

lemma length_domain_separator [simp]: "length (domain_separator v) = 18"
  by (cases v) (simp_all add: domain_separator_def)

lemma domain_separator_inj [simp]: "domain_separator v = domain_separator w \<longleftrightarrow> v = w"
  by (cases v; cases w) (simp_all add: domain_separator_def ascii_def)

text \<open>The fields a hash does not cover.\<close>

lemma infer_unhashed [simp]:
  "infer_hash_version (cp\<lparr>cp_signature := x\<rparr>) = infer_hash_version cp"
  "infer_hash_version (cp\<lparr>cp_hash := h\<rparr>) = infer_hash_version cp"
  "infer_hash_version (cp\<lparr>cp_mmr_inclusion_proof := x\<rparr>) = infer_hash_version cp"
  "infer_hash_version (cp\<lparr>cp_mmr_root := x\<rparr>) = infer_hash_version cp"
  "infer_hash_version (cp\<lparr>cp_explicit_hash_version := v\<rparr>) = infer_hash_version cp"
  "infer_hash_version (cp\<lparr>cp_message := x\<rparr>) = infer_hash_version cp"
  "infer_hash_version (cp\<lparr>cp_tpm_binding := b\<rparr>) = infer_hash_version cp"
  by (simp_all add: infer_hash_version_def)

lemma preimage_unhashed [simp]:
  "checkpoint_preimage (cp\<lparr>cp_signature := x\<rparr>) = checkpoint_preimage cp"
  "checkpoint_preimage (cp\<lparr>cp_hash := h\<rparr>) = checkpoint_preimage cp"
  "checkpoint_preimage (cp\<lparr>cp_mmr_inclusion_proof := x\<rparr>) = checkpoint_preimage cp"
  "checkpoint_preimage (cp\<lparr>cp_message := x\<rparr>) = checkpoint_preimage cp"
  "checkpoint_preimage (cp\<lparr>cp_tpm_binding := b\<rparr>) = checkpoint_preimage cp"
  by (simp_all add: checkpoint_preimage_def hash_version_def bound_fields_def cong: option.case_cong)

definition checkpoint_typed :: "checkpoint \<Rightarrow> bool" where
  "checkpoint_typed cp \<longleftrightarrow> cp_ordinal cp < 2 ^ 64 \<and> length (cp_previous_hash cp) = 32 \<and>
     length (cp_content_hash cp) = 32 \<and> cp_content_size cp < 2 ^ 64"

lemma length_bound_fields: "checkpoint_typed cp \<Longrightarrow> length (bound_fields cp) = 88"
  by (simp add: bound_fields_def checkpoint_typed_def)

lemma validate_timestamp_iff: "validate_timestamp cp = Inr () \<longleftrightarrow> 0 \<le> cp_timestamp cp \<and> cp_timestamp cp < 2 ^ 63"
  by (auto simp: validate_timestamp_def timestamp_nanos_opt_def i64_def)

lemma timestamp_bytes:
  "validate_timestamp cp = Inr () \<Longrightarrow> nat (max 0 (timestamp_nanos_safe (cp_timestamp cp))) = nat (cp_timestamp cp)"
  by (auto simp: validate_timestamp_iff timestamp_nanos_safe_def timestamp_nanos_opt_def i64_def)

text \<open>Equal preimages agree on the version and on every field of fixed length.\<close>

lemma preimage_fields:
  assumes "checkpoint_preimage a = checkpoint_preimage b" "checkpoint_typed a" "checkpoint_typed b"
    and "validate_timestamp a = Inr ()" "validate_timestamp b = Inr ()"
  shows "hash_version a = hash_version b \<and> cp_ordinal a = cp_ordinal b \<and>
    cp_previous_hash a = cp_previous_hash b \<and> cp_content_hash a = cp_content_hash b \<and>
    cp_content_size a = cp_content_size b \<and> cp_timestamp a = cp_timestamp b"
proof -
  have v: "hash_version a = hash_version b" and f: "bound_fields a = bound_fields b"
    using assms(1-3) length_bound_fields by (auto simp: checkpoint_preimage_def)
  have "be 8 (cp_ordinal a) = be 8 (cp_ordinal b)" "cp_previous_hash a = cp_previous_hash b"
    "cp_content_hash a = cp_content_hash b" "be 8 (cp_content_size a) = be 8 (cp_content_size b)"
    "be 8 (nat (cp_timestamp a)) = be 8 (nat (cp_timestamp b))"
    using f assms(2-5) by (simp_all add: bound_fields_def checkpoint_typed_def timestamp_bytes)
  moreover have "nat (cp_timestamp a) < 256 ^ 8" "nat (cp_timestamp b) < 256 ^ 8"
    using assms(4,5) by (auto simp: validate_timestamp_iff)
  ultimately have "nat (cp_timestamp a) = nat (cp_timestamp b)" "cp_ordinal a = cp_ordinal b"
    "cp_content_size a = cp_content_size b" "cp_previous_hash a = cp_previous_hash b"
    "cp_content_hash a = cp_content_hash b"
    using assms(2,3) be_inj [of 8] by (auto simp: checkpoint_typed_def)
  then show ?thesis using v assms(4,5) by (auto simp: validate_timestamp_iff eq_nat_nat_iff)
qed

end
