(* ===== verification/Chk_Mmr.thy ===== *)
theory Chk_Mmr
  imports Chk_Types Mmr_Props
begin

text \<open>
  The Merkle Mountain Range that a chain appends its checkpoint hashes to
  (\<open>cpoe/src/checkpoint/mmr.rs\<close>), over any store. A panic inside the range stays a panic: the
  code that ignores an error of a proof does not catch it.
\<close>

datatype append_result = New inclusion_proof | Existing inclusion_proof

fun append_proof :: "append_result \<Rightarrow> inclusion_proof" where
  "append_proof (New p) = p"
| "append_proof (Existing p) = p"

fun is_new :: "append_result \<Rightarrow> bool" where
  "is_new (New p) = True"
| "is_new (Existing p) = False"

definition mmr_err :: "(mmr_error, 'a) result \<Rightarrow> (checkpoint_error, 'a) result" where
  "mmr_err r = (case r of Inl e \<Rightarrow> Inl (MmrFailed e) | Inr x \<Rightarrow> Inr x)"

definition chain_id_ok :: "bytes \<Rightarrow> bool" where
  "chain_id_ok chain_id \<longleftrightarrow> chain_id \<noteq> [] \<and> 47 \<notin> set chain_id \<and> 92 \<notin> set chain_id \<and>
     0 \<notin> set chain_id \<and> chain_id \<noteq> [46] \<and> chain_id \<noteq> [46, 46]"

text \<open>\<open>content\<close> is what the file holds, \<open>faults\<close> the outcomes of the calls to come.\<close>

definition checkpoint_mmr_open ::
    "bytes \<Rightarrow> bytes \<Rightarrow> bool list \<Rightarrow> (checkpoint_error, file_store mmr) result" where
  "checkpoint_mmr_open chain_id content faults =
     (if \<not> chain_id_ok chain_id then Inl InvalidChainId
      else mmr_err (res_bind (file_open content faults) (mmr_new file_ops)))"

definition checkpoint_mmr_in_memory :: "(checkpoint_error, memory_store mmr) result" where
  "checkpoint_mmr_in_memory = mmr_err (mmr_new memory_ops memory_new)"

definition append_fresh ::
    "'s store_ops \<Rightarrow> (bytes \<Rightarrow> bytes) \<Rightarrow> bytes \<Rightarrow> 's mmr \<Rightarrow> 's mmr \<times> (checkpoint_error, append_result) result" where
  "append_fresh ops sha h st =
     (case mmr_append ops sha h st of
        (st1, Inl e) \<Rightarrow> (st1, Inl (MmrFailed e))
      | (st1, Inr leaf_index) \<Rightarrow>
          (case mmr_sync ops st1 of
             (st2, Inl e) \<Rightarrow> (st2, Inl (MmrFailed e))
           | (st2, Inr _) \<Rightarrow>
               (case generate_proof ops sha leaf_index st2 of
                  (st3, Inl e) \<Rightarrow> (st3, Inl (MmrFailed e))
                | (st3, Inr p) \<Rightarrow> (st3, Inr (New p)))))"

definition append_checkpoint ::
    "'s store_ops \<Rightarrow> (bytes \<Rightarrow> bytes) \<Rightarrow> bytes \<Rightarrow> 's mmr \<Rightarrow> 's mmr \<times> (checkpoint_error, append_result) result" where
  "append_checkpoint ops sha h st =
     (case leaf_count st of
        Inl e \<Rightarrow> (st, Inl (MmrFailed e))
      | Inr count \<Rightarrow>
          if count > 0 then
            (case get_leaf_index (count - 1) st of
               Inl e \<Rightarrow> (st, Inl (MmrFailed e))
             | Inr last_leaf_index \<Rightarrow>
                 (case generate_proof ops sha last_leaf_index st of
                    (st1, Inl Panic) \<Rightarrow> (st1, Inl (MmrFailed Panic))
                  | (st1, Inl _) \<Rightarrow> append_fresh ops sha h st1
                  | (st1, Inr existing) \<Rightarrow>
                      if inclusion_verify sha existing h = Inr () then (st1, Inr (Existing existing))
                      else append_fresh ops sha h st1))
          else append_fresh ops sha h st)"

definition verify_checkpoint ::
    "'s store_ops \<Rightarrow> (bytes \<Rightarrow> bytes) \<Rightarrow> bytes \<Rightarrow> nat \<Rightarrow> 's mmr \<Rightarrow> 's mmr \<times> (checkpoint_error, bool) result" where
  "verify_checkpoint ops sha h leaf_ordinal st =
     (case get_leaf_index leaf_ordinal st of
        Inl e \<Rightarrow> (st, Inl (MmrFailed e))
      | Inr leaf_index \<Rightarrow>
          (case generate_proof ops sha leaf_index st of
             (st1, Inl e) \<Rightarrow> (st1, Inl (MmrFailed e))
           | (st1, Inr p) \<Rightarrow> (st1, Inr (inclusion_verify sha p h = Inr ()))))"

definition mmr_range_proof ::
    "'s store_ops \<Rightarrow> (bytes \<Rightarrow> bytes) \<Rightarrow> 's mmr \<Rightarrow> 's mmr \<times> (checkpoint_error, range_proof option) result" where
  "mmr_range_proof ops sha st =
     (case leaf_count st of
        Inl e \<Rightarrow> (st, Inl (MmrFailed e))
      | Inr count \<Rightarrow>
          if count = 0 then (st, Inr None)
          else (case generate_range_proof ops sha 0 (count - 1) st of
                  (st1, Inl e) \<Rightarrow> (st1, Inl (MmrFailed e))
                | (st1, Inr p) \<Rightarrow> (st1, Inr (Some p))))"

record chain_integrity_metadata =
  cm_checkpoint_count :: nat
  cm_mmr_root :: bytes
  cm_mmr_leaf_count :: nat
  cm_metadata_signature :: "bytes option"
  cm_metadata_version :: nat

text \<open>The root, or zeros before the first leaf.\<close>

definition root_or_zero :: "(bytes \<Rightarrow> bytes) \<Rightarrow> 's mmr \<Rightarrow> (checkpoint_error, bytes) result" where
  "root_or_zero sha st =
     res_bind (mmr_err (leaf_count st)) (\<lambda>count.
       if count > 0 then mmr_err (get_root sha st) else Inr (replicate 32 0))"

definition build_metadata :: "(bytes \<Rightarrow> bytes) \<Rightarrow> 's mmr \<Rightarrow> (checkpoint_error, chain_integrity_metadata) result" where
  "build_metadata sha st =
     res_bind (mmr_err (leaf_count st)) (\<lambda>count.
     res_bind (root_or_zero sha st) (\<lambda>root.
       Inr \<lparr>cm_checkpoint_count = count, cm_mmr_root = root, cm_mmr_leaf_count = count,
            cm_metadata_signature = None, cm_metadata_version = 1\<rparr>))"

definition finalize_checkpoint ::
    "'s store_ops \<Rightarrow> (bytes \<Rightarrow> bytes) \<Rightarrow> checkpoint \<Rightarrow> 's mmr \<Rightarrow>
     's mmr \<times> (checkpoint_error, checkpoint \<times> append_result) result" where
  "finalize_checkpoint ops sha cp st =
     (case root_or_zero sha st of
        Inl e \<Rightarrow> (st, Inl e)
      | Inr pre_root \<Rightarrow>
          let cp1 = recompute_hash sha (cp\<lparr>cp_mmr_root := Some pre_root\<rparr>) in
          (case append_checkpoint ops sha (cp_hash cp1) st of
             (st1, Inl e) \<Rightarrow> (st1, Inl e)
           | (st1, Inr r) \<Rightarrow> (st1, Inr (cp1, r))))"

definition rebuild_from_chain ::
    "'s store_ops \<Rightarrow> (bytes \<Rightarrow> bytes) \<Rightarrow> checkpoint list \<Rightarrow> 's mmr \<Rightarrow> 's mmr \<times> (checkpoint_error, unit) result" where
  "rebuild_from_chain ops sha checkpoints st =
     (case leaf_count st of
        Inl e \<Rightarrow> (st, Inl (MmrFailed e))
      | Inr count \<Rightarrow>
          if count \<noteq> 0 then (st, Inl MmrNotEmpty)
          else (case append_all ops sha (map cp_hash checkpoints) st of
                  (st1, Inl e) \<Rightarrow> (st1, Inl (MmrFailed e))
                | (st1, Inr _) \<Rightarrow>
                    (case mmr_sync ops st1 of
                       (st2, Inl e) \<Rightarrow> (st2, Inl (MmrFailed e))
                     | (st2, Inr _) \<Rightarrow> (st2, Inr ()))))"

definition metadata_signing_payload :: "(bytes \<Rightarrow> bytes) \<Rightarrow> chain_integrity_metadata \<Rightarrow> bytes" where
  "metadata_signing_payload sha m =
     sha (ascii ''cpoe-chain-metadata-v1'' @ be 8 (cm_checkpoint_count m) @ cm_mmr_root m @
          be 8 (cm_mmr_leaf_count m) @ be 4 (cm_metadata_version m))"

subsection \<open>Proofs of an MMR can be stored\<close>

lemma tsize_le_fsize: "t \<in> set f \<Longrightarrow> tsize t \<le> fsize f"
  by (induction f) auto

lemma forest_length_bound:
  assumes "length ds < 2 ^ 63"
  shows "length (forest ds) \<le> 64"
proof -
  let ?hs = "map ht (forest ds)"
  have "sorted_wrt (<) ?hs" using sorted_heights_forest [of ds] by (simp add: sorted_wrt_rev)
  then have d: "distinct ?hs" by (simp add: strict_sorted_iff)
  have "ht t < 64" if "t \<in> set (forest ds)" for t
    using tsize_le_fsize [OF that] fsize_capacity [OF assms] perfect_forest [of ds] that
    by (intro ht_bound) auto
  then have "set ?hs \<subseteq> {..<64}" by auto
  then have "card (set ?hs) \<le> 64" using card_mono [of "{..<64}" "set ?hs"] by simp
  then show ?thesis using distinct_card [OF d] by simp
qed

lemma length_bag_peaks:
  assumes "digest32 sha" "ps \<noteq> []" "\<forall>p \<in> set ps. length p = 32"
  shows "length (bag_peaks sha ps) = 32"
proof (cases "butlast ps")
  case Nil
  then show ?thesis using assms(2,3) by (simp add: bag_peaks_def)
next
  case (Cons q qs)
  then show ?thesis using assms(1) by (simp add: bag_peaks_def)
qed

text \<open>A proof survives the byte string that a checkpoint carries.\<close>

definition stored_proof :: "(bytes \<Rightarrow> bytes) \<Rightarrow> inclusion_proof \<Rightarrow> bytes \<Rightarrow> bool" where
  "stored_proof sha ip h \<longleftrightarrow> inclusion_verify sha ip h = Inr () \<and>
     (\<exists>data. inclusion_serialize ip = Inr data \<and> inclusion_deserialize data = Inr ip)"

context node_store
begin

lemma mmr_sync_ok:
  assumes "mmr_repr invar nodes sha ds st"
  shows "\<exists>st'. mmr_sync ops st = (st', Inr ()) \<and> mmr_repr invar nodes sha ds st'"
proof -
  have "invar (st_store st)" using assms by (simp add: mmr_repr_def)
  from sync_ok [OF this] obtain s where "op_sync ops (st_store st) = (s, Inr ())" "invar s"
    "nodes s = nodes (st_store st)" by (metis prod.collapse)
  with assms show ?thesis by (simp add: mmr_sync_def mmr_repr_def)
qed

lemma generate_proof_stored:
  assumes "mmr_repr invar nodes sha ds st" "digest32 sha" "(p, d) \<in> set (fleaves (forest ds))" "length ds < 2 ^ 62"
  shows "\<exists>st' ip. generate_proof ops sha p st = (st', Inr ip) \<and> mmr_repr invar nodes sha ds st' \<and>
    get_root sha st' = Inr (ip_root ip) \<and> stored_proof sha ip d"
proof -
  obtain st' ip where g: "generate_proof ops sha p st = (st', Inr ip)" "mmr_repr invar nodes sha ds st'"
    and v: "inclusion_verify sha ip d = Inr ()" "ip_leaf_index ip = p" "get_root sha st = Inr (ip_root ip)"
      "ip_mmr_size ip = st_size st"
    and l: "length (ip_merkle_path ip) \<le> 63" "ip_peak_position ip < length (ip_peaks ip)"
      "ip_peaks ip = map node_hash (fpeaks sha (forest ds))" "ip_leaf_hash ip = hash_leaf sha p d"
      "\<forall>e \<in> set (ip_merkle_path ip). pe_hash e \<in> node_hash ` set (fnodes sha (forest ds))"
    using generate_proof_ok [OF assms(1,3,4)] by blast
  have ne: "ds \<noteq> []" using assms(3) by auto
  have root: "ip_root ip = bag_peaks sha (ip_peaks ip)" using repr_root [OF assms(1)] v(3) ne l(3) by simp
  have cap: "fsize (forest ds) + 1 < 2 ^ 64" using assms(4) by (intro fsize_capacity) simp
  have "p < fsize (forest ds)" using fleaves_node [OF assms(3), of sha] by auto
  then have sz: "ip_leaf_index ip < 2 ^ 64" "ip_mmr_size ip < 2 ^ 64"
    using cap v(2,4) assms(1) by (auto simp: mmr_repr_def)
  have h32: "\<forall>h \<in> set (ip_peaks ip). length h = 32" using l(3) fpeaks_hash_length [OF assms(2)] by auto
  moreover have "ip_peaks ip \<noteq> []" using l(2) by auto
  ultimately have "length (ip_root ip) = 32" unfolding root using length_bag_peaks [OF assms(2)] by blast
  moreover have "list_all (\<lambda>e. length (pe_hash e) = 32) (ip_merkle_path ip)"
    using l(5) fnodes_hash_length [OF assms(2)] by (auto simp: list_all_iff)
  ultimately have "proof_typed ip" using sz h32 l(4) assms(2) by (simp add: proof_typed_def list_all_iff)
  moreover have "length (ip_peaks ip) < 2 ^ 16"
    using forest_length_bound [of ds] assms(4) by (simp add: l(3))
  ultimately have "\<exists>data. inclusion_serialize ip = Inr data \<and> inclusion_deserialize data = Inr ip"
    using l(1,2) by (intro inclusion_roundtrip) simp_all
  moreover have "get_root sha st' = Inr (ip_root ip)"
    using repr_root [OF g(2)] repr_root [OF assms(1)] v(3) by simp
  ultimately show ?thesis using g v(1) by (auto simp: stored_proof_def)
qed

lemma append_fresh_ok:
  assumes "mmr_repr invar nodes sha ds st" "digest32 sha" "length ds + 1 < 2 ^ 62"
  shows "\<exists>st' ip. append_fresh ops sha h st = (st', Inr (New ip)) \<and> mmr_repr invar nodes sha (ds @ [h]) st' \<and>
    get_root sha st' = Inr (ip_root ip) \<and> stored_proof sha ip h"
proof -
  obtain st1 where st1: "mmr_append ops sha h st = (st1, Inr (fsize (forest ds)))"
    "mmr_repr invar nodes sha (ds @ [h]) st1"
    using mmr_append_ok [OF assms(1,2), of h] assms(3) by auto
  obtain st2 where st2: "mmr_sync ops st1 = (st2, Inr ())" "mmr_repr invar nodes sha (ds @ [h]) st2"
    using mmr_sync_ok [OF st1(2)] by blast
  have "(fsize (forest ds), h) \<in> set (fleaves (forest (ds @ [h])))"
    using nth_leaf_mem [of "length ds" "ds @ [h]"] by (simp add: fsize_forest)
  from generate_proof_stored [OF st2(2) assms(2) this] assms(3) st1(1) st2(1) show ?thesis
    by (auto simp: append_fresh_def)
qed

lemma append_checkpoint_ok:
  assumes "mmr_repr invar nodes sha ds st" "digest32 sha" "length ds + 1 < 2 ^ 62"
  shows "\<exists>st' r ds'. append_checkpoint ops sha h st = (st', Inr r) \<and> mmr_repr invar nodes sha ds' st' \<and>
    ds' \<noteq> [] \<and> ds' = (if is_new r then ds @ [h] else ds) \<and>
    get_root sha st' = Inr (ip_root (append_proof r)) \<and> stored_proof sha (append_proof r) h"
proof -
  have sz: "st_size st = fsize (forest ds)" using assms(1) by (simp add: mmr_repr_def)
  have cnt: "leaf_count st = Inr (length ds)"
    unfolding leaf_count_def sz using assms(3) by (intro leaf_count_forest fsize_capacity) simp
  have new: ?thesis if e: "append_checkpoint ops sha h st = append_fresh ops sha h st0"
    and r: "mmr_repr invar nodes sha ds st0" for st0
  proof -
    obtain st' ip where "append_fresh ops sha h st0 = (st', Inr (New ip))"
      "mmr_repr invar nodes sha (ds @ [h]) st'" "get_root sha st' = Inr (ip_root ip)" "stored_proof sha ip h"
      using append_fresh_ok [OF r assms(2,3)] by blast
    then show ?thesis by (intro exI [of _ st'] exI [of _ "New ip"] exI [of _ "ds @ [h]"]) (simp add: e)
  qed
  show ?thesis
  proof (cases "ds = []")
    case True
    then show ?thesis using cnt by (intro new [OF _ assms(1)]) (simp add: append_checkpoint_def)
  next
    case False
    let ?k = "length ds - 1"
    have pos: "0 < length ds" "?k < length ds" using False by auto
    have "forest ds \<noteq> []" using False map_snd_fleaves_forest [of ds] by force
    then have "fsize (forest ds) \<noteq> 0" by (cases "forest ds") simp_all
    then have li: "get_leaf_index ?k st = Inr (2 * ?k - popcount ?k)"
      using cnt pos assms(3) by (cases ds) (simp_all add: get_leaf_index_def leaf_count_def leaf_position_def sz mult.commute)
    obtain st1 ip where g: "generate_proof ops sha (2 * ?k - popcount ?k) st = (st1, Inr ip)"
      "mmr_repr invar nodes sha ds st1" "get_root sha st1 = Inr (ip_root ip)" "stored_proof sha ip (ds ! ?k)"
      using generate_proof_stored [OF assms(1,2) nth_leaf_mem [OF pos(2)]] assms(3) by auto
    show ?thesis
    proof (cases "inclusion_verify sha ip h = Inr ()")
      case True
      then have "append_checkpoint ops sha h st = (st1, Inr (Existing ip))" "stored_proof sha ip h"
        using cnt pos(1) li g by (simp_all add: append_checkpoint_def stored_proof_def)
      then show ?thesis using g False by (intro exI [of _ st1] exI [of _ "Existing ip"] exI [of _ ds]) simp
    next
      case nv: False
      then have "append_checkpoint ops sha h st = append_fresh ops sha h st1"
        using cnt pos(1) li g(1) by (simp add: append_checkpoint_def)
      then show ?thesis using g(2) by (rule new)
    qed
  qed
qed

end

end
