(* ===== verification/Chk_File.thy ===== *)
theory Chk_File
  imports Chk_Mmr
begin

text \<open>
  The MMR of a chain over the file store. The writer and the reader of the store share the cursor
  of the file, so the second checkpoint is lost: the merge of the second append reads the first
  leaf, which takes the cursor back, and the node of the merge is then written over the second
  leaf.
\<close>

subsection \<open>Reads that go to the file\<close>

lemma file_get_uncached:
  assumes "fs_faults s = []" "fs_buffer s = []" "i < fs_size s" "fs_cache s i = None" "i * 41 + 41 \<le> length (fs_file s)"
  shows "file_get i s = (s\<lparr>fs_cursor := i * 41 + 41\<rparr>, node_deserialize (slice (i * 41) (i * 41 + 41) (fs_file s)))"
  using assms by (simp add: file_get_def op_bind_def writer_flush_def seek_start_def read_record_ok NODE_SIZE_def)

lemma file_get_flushes:
  assumes "fs_faults s = []" "fs_buffer s \<noteq> []" "i < fs_size s" "fs_cache s i = None"
    and "fs_cursor s = length (fs_file s)" "i * 41 + 41 \<le> length (fs_file s)"
  shows "file_get i s = (s\<lparr>fs_file := fs_file s @ fs_buffer s, fs_cursor := i * 41 + 41, fs_buffer := []\<rparr>,
    node_deserialize (slice (i * 41) (i * 41 + 41) (fs_file s)))"
  using assms
  by (simp add: file_get_def op_bind_def writer_flush_end seek_start_def read_record_ok NODE_SIZE_def slice_def)

lemma read_first: "node_typed n \<Longrightarrow> node_deserialize (slice 0 41 (node_serialize n @ rest)) = Inr n"
  using node_roundtrip [of n] by (simp add: slice_def)

lemma read_second:
  "node_typed m \<Longrightarrow> node_typed n \<Longrightarrow> node_deserialize (slice 41 82 (node_serialize m @ node_serialize n)) = Inr n"
  using node_roundtrip [of n] by (simp add: slice_def)

lemma small_peaks: "find_peaks 1 = Inr [0]" "find_peaks 2 = Inr [0, 1]" "find_peaks 3 = Inr [2]"
proof -
  note l = find_peaks_linking [of _ _ "\<lambda>_. []"]
  have f: "fsize [Lf []] = 1" "fsize [Lf [], Lf []] = 2" "fsize [Br (Lf []) (Lf [])] = 3" by simp_all
  show "find_peaks 1 = Inr [0]"
    using l [of "Lf []" "[]", unfolded f] by (simp add: linking_def forest_ok_def troot_def)
  show "find_peaks 2 = Inr [0, 1]"
    using l [of "Lf []" "[Lf []]", unfolded f] by (simp add: linking_def forest_ok_def troot_def)
  show "find_peaks 3 = Inr [2]"
    using l [of "Br (Lf []) (Lf [])" "[]", unfolded f] by (simp add: linking_def forest_ok_def troot_def)
qed

lemma small_counts: "leaf_count_from_size 1 = Inr 1" "leaf_count_from_size 3 = Inr 2"
proof -
  have f: "fsize (forest [[]]) = 1" "fsize (forest [[], []]) = 3" by (simp_all add: forest_def)
  show "leaf_count_from_size 1 = Inr 1" "leaf_count_from_size 3 = Inr 2"
    using leaf_count_forest [of "[[]]", unfolded f] leaf_count_forest [of "[[], []]", unfolded f] by simp_all
qed

lemma node_serialize_nonempty [simp]: "node_serialize n \<noteq> []"
  by (simp add: node_serialize_def)

subsection \<open>Two appends with a sync in between\<close>

text \<open>The three nodes.\<close>

definition node0 :: "(bytes \<Rightarrow> bytes) \<Rightarrow> bytes \<Rightarrow> node" where
  "node0 sha d = new_leaf sha 0 d"

definition node1 :: "(bytes \<Rightarrow> bytes) \<Rightarrow> bytes \<Rightarrow> node" where
  "node1 sha d = new_leaf sha 1 d"

definition node2 :: "(bytes \<Rightarrow> bytes) \<Rightarrow> bytes \<Rightarrow> bytes \<Rightarrow> node" where
  "node2 sha d e = new_internal sha 2 1 (node0 sha d) (node1 sha e)"

lemma nodes_typed:
  assumes "digest32 sha"
  shows "node_typed (node0 sha d)" "node_typed (node1 sha d)" "node_typed (node2 sha d e)"
  using assms by (simp_all add: node0_def node1_def node2_def new_leaf_def new_internal_def node_typed_def)

lemma nodes_simps [simp]:
  "node_index (node0 sha d) = 0" "node_index (node1 sha d) = 1" "node_index (node2 sha d e) = 2"
  "node_height (node0 sha d) = 0" "node_height (node1 sha d) = 0" "node_height (node2 sha d e) = 1"
  "node_hash (node0 sha d) = hash_leaf sha 0 d"
  by (simp_all add: node0_def node1_def node2_def new_leaf_def new_internal_def)

text \<open>The store after the first leaf was appended and synced, wherever its cursor is among the
  positions that reads of the only record leave, and the MMR with it.\<close>

definition one_leaf :: "(bytes \<Rightarrow> bytes) \<Rightarrow> bytes \<Rightarrow> file_store mmr" where
  "one_leaf sha d = \<lparr>st_store = \<lparr>fs_file = node_serialize (node0 sha d), fs_cursor = 41, fs_buffer = [], fs_size = 1,
       fs_cache = Map.empty, fs_append_count = 0, fs_faults = []\<rparr>,
     st_size = 1, st_peaks = [\<lparr>pk_index = 0, pk_hash = hash_leaf sha 0 d\<rparr>]\<rparr>"

definition two_leaves :: "(bytes \<Rightarrow> bytes) \<Rightarrow> bytes \<Rightarrow> bytes \<Rightarrow> file_store mmr" where
  "two_leaves sha d e = \<lparr>st_store = \<lparr>fs_file = node_serialize (node0 sha d) @ node_serialize (node2 sha d e), fs_cursor = 82,
       fs_buffer = [], fs_size = 3, fs_cache = Map.empty, fs_append_count = 0, fs_faults = []\<rparr>,
     st_size = 3, st_peaks = [\<lparr>pk_index = 2, pk_hash = node_hash (node2 sha d e)\<rparr>]\<rparr>"

definition empty_mmr :: "file_store mmr" where
  "empty_mmr = \<lparr>st_store = \<lparr>fs_file = [], fs_cursor = 0, fs_buffer = [], fs_size = 0, fs_cache = Map.empty,
     fs_append_count = 0, fs_faults = []\<rparr>, st_size = 0, st_peaks = []\<rparr>"

lemma open_new_file: "checkpoint_mmr_open chain_id [] [] = Inr m \<Longrightarrow> m = empty_mmr"
  by (auto simp: checkpoint_mmr_open_def mmr_err_def file_open_def Let_def op_bind_def mmr_new_def file_ops_def file_size_def
      empty_mmr_def split: if_splits)

lemma first_append:
  assumes "digest32 sha"
  shows "mmr_append file_ops sha d empty_mmr = (empty_mmr\<lparr>st_store := \<lparr>fs_file = [], fs_cursor = 0,
      fs_buffer = node_serialize (node0 sha d), fs_size = 1, fs_cache = [0 \<mapsto> node0 sha d], fs_append_count = 1, fs_faults = []\<rparr>,
    st_size := 1, st_peaks := st_peaks (one_leaf sha d)\<rparr>, Inr 0)"
  using nodes_typed(1) [OF assms, of d] small_peaks(1)
  by (simp add: mmr_append_def Let_def empty_mmr_def one_leaf_def file_ops_def file_append_def node0_def [symmetric] op_bind_def op_return_def
      writer_write_all_def WRITER_CAPACITY_def AUTO_SYNC_THRESHOLD_def append_loop.simps reload_peaks_def file_get_def)

lemma first_sync:
  assumes "digest32 sha" "mmr_append file_ops sha d empty_mmr = (st, Inr i)"
  shows "mmr_sync file_ops st = (one_leaf sha d, Inr ())"
  using nodes_typed(1) [OF assms(1), of d] assms(2) first_append [OF assms(1), of d]
  by (auto simp: mmr_sync_def file_ops_def file_sync_def op_bind_def writer_flush_def store_write_at_def one_leaf_def empty_mmr_def)

text \<open>Reading the only record leaves the cursor behind it, where it was.\<close>

lemma one_leaf_get:
  "digest32 sha \<Longrightarrow> file_get 0 (st_store (one_leaf sha d)) = (st_store (one_leaf sha d), Inr (node0 sha d))"
  using read_first [OF nodes_typed(1), of sha d "[]"] nodes_typed(1) [of sha d]
  by (simp add: file_get_uncached one_leaf_def)

lemma one_leaf_proof:
  assumes "digest32 sha"
  shows "generate_proof file_ops sha 0 (one_leaf sha d) = (one_leaf sha d, Inr \<lparr>ip_leaf_index = 0, ip_leaf_hash = hash_leaf sha 0 d,
    ip_merkle_path = [], ip_peaks = [hash_leaf sha 0 d], ip_peak_position = 0, ip_mmr_size = 1, ip_root = hash_leaf sha 0 d\<rparr>)"
proof -
  have g: "op_get file_ops 0 (st_store (one_leaf sha d)) = (st_store (one_leaf sha d), Inr (node0 sha d))"
    using one_leaf_get [OF assms] by (simp add: file_ops_def)
  have m: "merkle_path_loop file_ops 1 0 0 [] s = (s, Inr ([], 0))" for s :: file_store
    by (subst merkle_path_loop.simps)
      (simp add: find_family_def Let_def family_left_def family_right_def op_bind_def op_return_def no_family_def)
  have sz: "st_size (one_leaf sha d) = 1" "get_root sha (one_leaf sha d) = Inr (hash_leaf sha 0 d)"
    "get_peaks (one_leaf sha d) = [hash_leaf sha 0 d]" "(one_leaf sha d)\<lparr>st_store := st_store (one_leaf sha d)\<rparr> = one_leaf sha d"
    by (simp_all add: one_leaf_def get_root_def get_peaks_def)
  show ?thesis
    by (simp add: generate_proof_def sz g m [unfolded One_nat_def] op_bind_def op_return_def generate_merkle_path_def
        small_peaks(1) [unfolded One_nat_def])
qed

lemma second_append:
  assumes "digest32 sha"
  shows "mmr_append file_ops sha e (one_leaf sha d) = (\<lparr>st_store = \<lparr>fs_file = node_serialize (node0 sha d) @ node_serialize (node1 sha e),
      fs_cursor = 41, fs_buffer = node_serialize (node2 sha d e), fs_size = 3,
      fs_cache = [1 \<mapsto> node1 sha e, 2 \<mapsto> node2 sha d e], fs_append_count = 2, fs_faults = []\<rparr>,
    st_size = 3, st_peaks = st_peaks (two_leaves sha d e)\<rparr>, Inr 1)"
proof -
  note ty = nodes_typed [OF assms]
  let ?s1 = "\<lparr>fs_file = node_serialize (node0 sha d), fs_cursor = 41, fs_buffer = node_serialize (node1 sha e), fs_size = 2,
      fs_cache = [1 \<mapsto> node1 sha e], fs_append_count = 1, fs_faults = []\<rparr>"
  let ?s2 = "?s1\<lparr>fs_file := node_serialize (node0 sha d) @ node_serialize (node1 sha e), fs_cursor := 41, fs_buffer := []\<rparr>"
  let ?s3 = "?s2\<lparr>fs_buffer := node_serialize (node2 sha d e), fs_size := 3,
      fs_cache := [1 \<mapsto> node1 sha e, 2 \<mapsto> node2 sha d e], fs_append_count := 2\<rparr>"
  let ?st = "(one_leaf sha d)\<lparr>st_store := ?s1, st_size := 2\<rparr>"
  have a1: "op_append file_ops (node1 sha e) (st_store (one_leaf sha d)) = (?s1, Inr ())"
    using ty(2) [of e] by (simp add: one_leaf_def file_ops_def file_append_def op_bind_def op_return_def
        writer_write_all_def WRITER_CAPACITY_def AUTO_SYNC_THRESHOLD_def)
  have g1: "op_get file_ops 1 ?s1 = (?s1, Inr (node1 sha e))"
    by (simp add: file_ops_def file_get_def)
  have g0: "op_get file_ops 0 ?s1 = (?s2, Inr (node0 sha d))"
    using file_get_flushes [of ?s1 0] read_first [OF ty(1), of d "[]"] ty(1) [of d] by (simp add: file_ops_def)
  have a2: "op_append file_ops (node2 sha d e) ?s2 = (?s3, Inr ())"
    using ty(3) [of d e] by (simp add: file_ops_def file_append_def op_bind_def op_return_def
        writer_write_all_def WRITER_CAPACITY_def AUTO_SYNC_THRESHOLD_def)
  have g2: "op_get file_ops 2 ?s3 = (?s3, Inr (node2 sha d e))"
    by (simp add: file_ops_def file_get_def)
  have n: "new_leaf sha 1 e = node1 sha e" "new_internal sha 2 1 (node0 sha d) (node1 sha e) = node2 sha d e"
    by (simp_all only: node1_def node2_def)
  have "append_loop file_ops sha ?st = append_loop file_ops sha (?st\<lparr>st_store := ?s3, st_size := 3\<rparr>)"
    using g0 g1 a2 n(2) by (subst append_loop.simps) (simp add: small_peaks)
  also have "\<dots> = (?st\<lparr>st_store := ?s3, st_size := 3, st_peaks := st_peaks (two_leaves sha d e)\<rparr>, Inr ())"
    using g2 by (subst append_loop.simps) (simp add: small_peaks reload_peaks_def op_bind_def op_return_def one_leaf_def two_leaves_def)
  finally have "append_loop file_ops sha ?st = (?st\<lparr>st_store := ?s3, st_size := 3, st_peaks := st_peaks (two_leaves sha d e)\<rparr>, Inr ())" .
  moreover have "st_size (one_leaf sha d) = 1" by (simp add: one_leaf_def)
  ultimately show ?thesis using a1 n(1) by (simp add: mmr_append_def Let_def one_leaf_def numeral_2_eq_2 [symmetric] del: One_nat_def)
qed

lemma second_sync:
  assumes "digest32 sha" "mmr_append file_ops sha e (one_leaf sha d) = (st, Inr i)"
  shows "mmr_sync file_ops st = (two_leaves sha d e, Inr ())"
  using nodes_typed [OF assms(1)] assms(2) second_append [OF assms(1), of e d]
  by (auto simp: mmr_sync_def file_ops_def file_sync_def op_bind_def writer_flush_def store_write_at_def two_leaves_def)

text \<open>The second leaf is gone: the node above it is in its place.\<close>

lemma two_leaves_proof:
  assumes "digest32 sha"
  shows "\<exists>st. generate_proof file_ops sha 1 (two_leaves sha d e) = (st, Inl InvalidProof) \<and>
    fs_file (st_store st) = node_serialize (node0 sha d) @ node_serialize (node2 sha d e) \<and> st_size st = 3"
proof -
  note ty = nodes_typed [OF assms]
  have "file_get 1 (st_store (two_leaves sha d e)) = (st_store (two_leaves sha d e), Inr (node2 sha d e))"
    using file_get_uncached [of "st_store (two_leaves sha d e)" 1] read_second [OF ty(1,3), of d d e] ty(1) [of d] ty(3) [of d e]
    by (simp add: two_leaves_def)
  then show ?thesis
    by (simp add: generate_proof_def file_ops_def op_bind_def op_fail_def two_leaves_def)
qed

subsection \<open>The second checkpoint\<close>

text \<open>C24: A chain's MMR in a new file takes its first checkpoint and loses the second one, whatever
  the two hashes are: appending it returns an error although the MMR has counted it, and in the
  file the node above the two leaves has overwritten the second leaf. Nothing but the two hashes
  being told apart by the leaf hash is assumed, and no call of the operating system fails.\<close>

theorem file_checkpoint_second_fails:
  assumes "digest32 sha" "checkpoint_mmr_open chain_id [] [] = Inr st0" "hash_leaf sha 0 h1 \<noteq> hash_leaf sha 0 h2"
  shows "\<exists>st1 p st2. append_checkpoint file_ops sha h1 st0 = (st1, Inr (New p)) \<and> inclusion_verify sha p h1 = Inr () \<and>
    append_checkpoint file_ops sha h2 st1 = (st2, Inl (MmrFailed InvalidProof)) \<and> leaf_count st2 = Inr 2 \<and>
    fs_file (st_store st2) = node_serialize (new_leaf sha 0 h1) @
      node_serialize (new_internal sha 2 1 (new_leaf sha 0 h1) (new_leaf sha 1 h2))"
proof -
  obtain st where a1: "mmr_append file_ops sha h1 empty_mmr = (st, Inr 0)" using first_append [OF assms(1)] by blast
  note s1 = first_sync [OF assms(1) a1]
  obtain p where p: "generate_proof file_ops sha 0 (one_leaf sha h1) = (one_leaf sha h1, Inr p)"
    "ip_leaf_index p = 0" "ip_leaf_hash p = hash_leaf sha 0 h1" "inclusion_verify sha p h1 = Inr ()"
    using one_leaf_proof [OF assms(1), of h1] by (auto simp: inclusion_verify_def)
  have c1: "append_checkpoint file_ops sha h1 empty_mmr = (one_leaf sha h1, Inr (New p))"
    using a1 s1 p(1) leaf_count_forest [of "[]"]
    by (simp add: append_checkpoint_def append_fresh_def leaf_count_def empty_mmr_def)
  have no: "inclusion_verify sha p h2 \<noteq> Inr ()"
    using p(2,3) assms(3) by (simp add: inclusion_verify_def)
  obtain st' where a2: "mmr_append file_ops sha h2 (one_leaf sha h1) = (st', Inr 1)" using second_append [OF assms(1)] by blast
  note s2 = second_sync [OF assms(1) a2]
  obtain st2 where p2: "generate_proof file_ops sha 1 (two_leaves sha h1 h2) = (st2, Inl InvalidProof)"
    "fs_file (st_store st2) = node_serialize (node0 sha h1) @ node_serialize (node2 sha h1 h2)" "st_size st2 = 3"
    using two_leaves_proof [OF assms(1)] by blast
  have cnt: "leaf_count (one_leaf sha h1) = Inr 1" "get_leaf_index 0 (one_leaf sha h1) = Inr 0"
    using small_counts(1) popcount_0 by (simp_all add: leaf_count_def one_leaf_def get_leaf_index_def leaf_position_def)
  have "append_checkpoint file_ops sha h2 (one_leaf sha h1) = (st2, Inl (MmrFailed InvalidProof))"
    using cnt p(1) no a2 s2 p2(1) by (simp add: append_checkpoint_def append_fresh_def)
  moreover have "leaf_count st2 = Inr 2" using p2(3) small_counts(2) by (simp add: leaf_count_def)
  ultimately show ?thesis
    using c1 p(4) p2(2) open_new_file [OF assms(2)] by (auto simp: node0_def node1_def node2_def)
qed

theorem file_checkpoint_second_fails_witness:
  "\<exists>st0 st1 p st2. checkpoint_mmr_open [99] [] [] = Inr st0 \<and> append_checkpoint file_ops toy_sha [1] st0 = (st1, Inr (New p)) \<and>
    append_checkpoint file_ops toy_sha [2] st1 = (st2, Inl (MmrFailed InvalidProof))"
proof -
  obtain st0 where st0: "checkpoint_mmr_open [99] [] [] = Inr st0"
    by (simp add: checkpoint_mmr_open_def chain_id_ok_def mmr_err_def file_open_def Let_def op_bind_def mmr_new_def
        file_ops_def file_size_def)
  have "hash_leaf toy_sha 0 [1] \<noteq> hash_leaf toy_sha 0 [2]"
    by (simp add: hash_leaf_def leaf_preimage_def toy_sha_def)
  from file_checkpoint_second_fails [OF digest32_toy st0 this] st0 show ?thesis by blast
qed

end
