(* ===== verification/Key_Types.thy ===== *)
theory Key_Types
  imports Chk_Types Lamport
begin

text \<open>
  The key hierarchy (\<open>cpoe/src/keyhierarchy\<close>): its records (\<open>types.rs\<close>), key derivation and the
  data a certificate signs (\<open>crypto.rs\<close>), the master identity (\<open>identity.rs\<close>), and the
  migration of a legacy key (\<open>migration.rs\<close>). HKDF, Ed25519, ChaCha20-Poly1305 and the printing
  of hex digits and of dates are fields of the record of parameters \<open>lib\<close>; a signing key is
  its 32-byte seed. Instants are nanoseconds since the Unix epoch.
\<close>

datatype key_error =
    RatchetWiped | InvalidCert | OrdinalMismatch | SignatureFailed | HashMismatch | LegacyKeyNotFound
  | MigrationFailed | InvalidMigration | SessionNotRecoverable | SessionRecoveryFailed | NoRecoveryData
  | SoftwarePUFInit | KeyIo | Crypto
  | KeyPanic \<comment> \<open>not an error value of the source: an overflow check that fails\<close>

record key_lib =
  kl_sha :: "bytes \<Rightarrow> bytes"
  kl_hkdf :: "bytes option \<Rightarrow> bytes \<Rightarrow> bytes \<Rightarrow> nat \<Rightarrow> bytes option"
  kl_pub :: "bytes \<Rightarrow> bytes"
  kl_sign :: "bytes \<Rightarrow> bytes \<Rightarrow> bytes"
  kl_vk_ok :: "bytes \<Rightarrow> bool"
  kl_verify :: "bytes \<Rightarrow> bytes \<Rightarrow> bytes \<Rightarrow> bool"
  kl_seal :: "bytes \<Rightarrow> bytes \<Rightarrow> bytes \<Rightarrow> bytes \<Rightarrow> bytes option"
  kl_unseal :: "bytes \<Rightarrow> bytes \<Rightarrow> bytes \<Rightarrow> bytes \<Rightarrow> bytes option"
  kl_hex :: "bytes \<Rightarrow> bytes"
  kl_rfc3339 :: "int \<Rightarrow> bytes"

definition KEY_VERSION :: nat where
  "KEY_VERSION = 1"

record master_identity =
  mi_public_key :: bytes
  mi_fingerprint :: bytes
  mi_device_id :: bytes
  mi_created_at :: int
  mi_version :: nat

record session_certificate =
  sc_session_id :: bytes
  sc_session_pubkey :: bytes
  sc_created_at :: int
  sc_document_hash :: bytes
  sc_master_pubkey :: bytes
  sc_signature :: bytes
  sc_version :: nat
  sc_expires_at :: "int option"
  sc_start_quote :: "bytes option"
  sc_end_quote :: "bytes option"
  sc_start_counter :: "nat option"
  sc_end_counter :: "nat option"
  sc_start_reset_count :: "nat option"
  sc_start_restart_count :: "nat option"
  sc_end_reset_count :: "nat option"
  sc_end_restart_count :: "nat option"

record checkpoint_signature =
  cs_ordinal :: nat
  cs_public_key :: bytes
  cs_signature :: bytes
  cs_checkpoint_hash :: bytes
  cs_counter_value :: "nat option"
  cs_counter_delta :: "nat option"
  cs_lamport_signature :: "bytes option"
  cs_lamport_pubkey_fingerprint :: "bytes option"
  cs_lamport_public_key :: "bytes option"

record ratchet_state =
  rs_current :: bytes
  rs_ordinal :: nat
  rs_wiped :: bool

record session =
  se_certificate :: session_certificate
  se_ratchet :: ratchet_state
  se_signatures :: "checkpoint_signature list"
  se_export_count :: nat

record key_hierarchy_evidence =
  ke_version :: nat
  ke_master_identity :: "master_identity option"
  ke_session_certificate :: "session_certificate option"
  ke_checkpoint_signatures :: "checkpoint_signature list"
  ke_master_fingerprint :: bytes
  ke_master_public_key :: bytes
  ke_device_id :: bytes
  ke_session_id :: bytes
  ke_session_public_key :: bytes
  ke_session_started :: int
  ke_session_certificate_raw :: bytes
  ke_ratchet_count :: nat
  ke_ratchet_public_keys :: "bytes list"

record session_recovery_state =
  sr_certificate :: session_certificate
  sr_signatures :: "checkpoint_signature list"
  sr_last_ratchet_state :: bytes
  sr_export_count :: nat

record session_binding_report =
  br_has_start_quote :: bool
  br_has_end_quote :: bool
  br_counter_delta :: "nat option"
  br_reboot_detected :: bool
  br_restart_detected :: bool
  br_warnings :: "(nat \<times> nat) list"

record legacy_key_migration =
  lm_legacy_public_key :: bytes
  lm_new_master_public_key :: bytes
  lm_migration_timestamp :: int
  lm_transition_signature :: bytes
  lm_version :: nat

text \<open>A physically unclonable function, or the seed that stands for one.\<close>

record puf_provider =
  puf_response :: "bytes \<Rightarrow> (key_error, bytes) result"
  puf_device_id :: bytes

text \<open>What a TPM provider answers: a quote, with its JSON text if it can be written, the counter
  of a binding, and the reset and restart counts. \<open>None\<close> is an error.\<close>

record tpm_provider =
  tp_quote :: "bytes \<Rightarrow> bytes option option"
  tp_bind :: "bytes \<Rightarrow> nat option option"
  tp_clock_info :: "(nat \<times> nat) option"

subsection \<open>Key derivation\<close>

definition IDENTITY_DOMAIN :: bytes where "IDENTITY_DOMAIN = ascii ''cpoe-identity-v1''"
definition SESSION_DOMAIN :: bytes where "SESSION_DOMAIN = ascii ''cpoe-session-v1''"
definition RATCHET_INIT_DOMAIN :: bytes where "RATCHET_INIT_DOMAIN = ascii ''cpoe-ratchet-init-v1''"
definition RATCHET_ADVANCE_DOMAIN :: bytes where "RATCHET_ADVANCE_DOMAIN = ascii ''cpoe-ratchet-advance-v1''"
definition SIGNING_KEY_DOMAIN :: bytes where "SIGNING_KEY_DOMAIN = ascii ''cpoe-signing-key-v1''"
definition LAMPORT_KEY_DOMAIN :: bytes where "LAMPORT_KEY_DOMAIN = ascii ''cpoe-lamport-key-v1''"

definition hkdf_sha256 :: "key_lib \<Rightarrow> bytes \<Rightarrow> bytes option \<Rightarrow> bytes \<Rightarrow> bytes option" where
  "hkdf_sha256 lib ikm salt info = kl_hkdf lib salt ikm info 32"

definition hkdf_expand :: "key_lib \<Rightarrow> bytes \<Rightarrow> bytes \<Rightarrow> bytes \<Rightarrow> (key_error, bytes) result" where
  "hkdf_expand lib ikm salt info =
     (case hkdf_sha256 lib ikm (Some salt) info of None \<Rightarrow> Inl Crypto | Some okm \<Rightarrow> Inr okm)"

text \<open>A public key of another length than 32 bytes fails an assertion of debug builds only.\<close>

definition build_cert_data_with_expiry ::
    "bytes \<Rightarrow> bytes \<Rightarrow> int \<Rightarrow> bytes \<Rightarrow> int option \<Rightarrow> bytes" where
  "build_cert_data_with_expiry session_id session_pub_key created_at document_hash expires_at =
     session_id @ session_pub_key @ be 8 (nat (max 0 (timestamp_nanos_safe created_at))) @ document_hash @
     (case expires_at of None \<Rightarrow> []
      | Some exp \<Rightarrow> [1] @ be 8 (nat (max 0 (timestamp_nanos_safe exp))))"

definition build_cert_data :: "bytes \<Rightarrow> bytes \<Rightarrow> int \<Rightarrow> bytes \<Rightarrow> bytes" where
  "build_cert_data session_id session_pub_key created_at document_hash =
     build_cert_data_with_expiry session_id session_pub_key created_at document_hash None"

definition fingerprint_for_public_key :: "key_lib \<Rightarrow> bytes \<Rightarrow> bytes" where
  "fingerprint_for_public_key lib public_key = kl_hex lib (take 8 (kl_sha lib public_key))"

definition compute_entangled_nonce :: "key_lib \<Rightarrow> bytes \<Rightarrow> bytes \<Rightarrow> bytes \<Rightarrow> bytes" where
  "compute_entangled_nonce lib session_id data_hash mmr_root =
     kl_sha lib (ascii ''cpoe-entangled-nonce-v1'' @ session_id @ data_hash @ mmr_root)"

subsection \<open>The master identity\<close>

definition derive_signing_key :: "key_lib \<Rightarrow> puf_provider \<Rightarrow> (key_error, bytes) result" where
  "derive_signing_key lib puf =
     res_bind (puf_response puf (kl_sha lib (IDENTITY_DOMAIN @ ascii ''-challenge''))) (\<lambda>response.
       hkdf_expand lib response IDENTITY_DOMAIN (ascii ''master-seed''))"

definition derive_master_identity :: "key_lib \<Rightarrow> int \<Rightarrow> puf_provider \<Rightarrow> (key_error, master_identity) result" where
  "derive_master_identity lib now puf =
     res_bind (derive_signing_key lib puf) (\<lambda>signing_key.
       let public_key = kl_pub lib signing_key
       in Inr \<lparr>mi_public_key = public_key, mi_fingerprint = kl_hex lib (take 8 (kl_sha lib public_key)),
               mi_device_id = puf_device_id puf, mi_created_at = now, mi_version = KEY_VERSION\<rparr>)"

definition derive_master_private_key :: "key_lib \<Rightarrow> puf_provider \<Rightarrow> (key_error, bytes) result" where
  "derive_master_private_key lib puf = derive_signing_key lib puf"

text \<open>The software PUF answers from its seed.\<close>

definition software_puf :: "key_lib \<Rightarrow> bytes \<Rightarrow> bytes \<Rightarrow> puf_provider" where
  "software_puf lib device_id seed =
     \<lparr>puf_response = \<lambda>challenge.
        (if seed = [] then Inl SoftwarePUFInit
         else case kl_hkdf lib (Some challenge) seed (ascii ''puf-response-v1'') 32 of
           None \<Rightarrow> Inl Crypto | Some response \<Rightarrow> Inr response),
      puf_device_id = device_id\<rparr>"

definition puf_new_from_seed :: "key_lib \<Rightarrow> bytes \<Rightarrow> bytes \<Rightarrow> (key_error, puf_provider) result" where
  "puf_new_from_seed lib device_id seed =
     (if length seed \<noteq> 32 then Inl Crypto else Inr (software_puf lib device_id seed))"

definition compute_device_id :: "key_lib \<Rightarrow> bytes \<Rightarrow> bytes" where
  "compute_device_id lib seed = ascii ''swpuf-'' @ kl_hex lib (take 4 (kl_sha lib seed))"

subsection \<open>Legacy keys\<close>

definition build_migration_data :: "bytes \<Rightarrow> bytes \<Rightarrow> int \<Rightarrow> bytes" where
  "build_migration_data legacy_pub new_master_pub timestamp =
     ascii ''cpoe-key-migration-v1'' @ legacy_pub @ new_master_pub @
     be 8 (nat (max 0 (timestamp_nanos_safe timestamp)))"

text \<open>\<open>file\<close> is what reading the key file gives, \<open>None\<close> an error of the system.\<close>

definition load_legacy_private_key :: "key_lib \<Rightarrow> bytes option \<Rightarrow> (key_error, bytes) result" where
  "load_legacy_private_key lib file = (case file of
       None \<Rightarrow> Inl KeyIo
     | Some data \<Rightarrow>
         if length data = 32 then Inr data
         else if length data = 64 then
           (let seed = slice 0 32 data in
            if slice 32 64 data \<noteq> kl_pub lib seed then Inl LegacyKeyNotFound else Inr seed)
         else Inl LegacyKeyNotFound)"

definition migrate_from_legacy_key ::
    "key_lib \<Rightarrow> int \<Rightarrow> int \<Rightarrow> puf_provider \<Rightarrow> bytes option \<Rightarrow>
     (key_error, legacy_key_migration \<times> master_identity) result" where
  "migrate_from_legacy_key lib now now' puf file =
     res_bind (load_legacy_private_key lib file) (\<lambda>legacy_key.
     res_bind (derive_master_identity lib now puf) (\<lambda>new_identity.
       let legacy_pub = kl_pub lib legacy_key;
           data = build_migration_data legacy_pub (mi_public_key new_identity) now'
       in Inr (\<lparr>lm_legacy_public_key = legacy_pub, lm_new_master_public_key = mi_public_key new_identity,
                lm_migration_timestamp = now', lm_transition_signature = kl_sign lib legacy_key data,
                lm_version = KEY_VERSION\<rparr>, new_identity)))"

definition verify_legacy_migration :: "key_lib \<Rightarrow> legacy_key_migration \<Rightarrow> (key_error, unit) result" where
  "verify_legacy_migration lib m =
     (if length (lm_legacy_public_key m) \<noteq> 32 \<or> length (lm_new_master_public_key m) \<noteq> 32
      then Inl InvalidMigration
      else if \<not> kl_vk_ok lib (lm_legacy_public_key m) then Inl InvalidMigration
      else if \<not> kl_verify lib (lm_legacy_public_key m)
                 (build_migration_data (lm_legacy_public_key m) (lm_new_master_public_key m)
                    (lm_migration_timestamp m)) (lm_transition_signature m)
      then Inl InvalidMigration else Inr ())"

subsection \<open>What the proofs use of the libraries\<close>

text \<open>HKDF gives as many bytes as asked for, a public key has 32 bytes and is a valid point, a
  signature has 64 bytes and verifies, and SHA-256 gives 32 bytes.\<close>

definition key_lib_ok :: "key_lib \<Rightarrow> bool" where
  "key_lib_ok lib \<longleftrightarrow>
     (\<forall>m. length (kl_sha lib m) = 32) \<and>
     (\<forall>salt ikm info. \<exists>k. kl_hkdf lib salt ikm info 32 = Some k \<and> length k = 32) \<and>
     (\<forall>sk. length (kl_pub lib sk) = 32 \<and> kl_vk_ok lib (kl_pub lib sk)) \<and>
     (\<forall>sk m. length (kl_sign lib sk m) = 64 \<and> kl_verify lib (kl_pub lib sk) m (kl_sign lib sk m))"

text \<open>Opening what was sealed, under the same key, nonce and associated data.\<close>

definition aead_ok :: "key_lib \<Rightarrow> bool" where
  "aead_ok lib \<longleftrightarrow> (\<forall>key nonce aad msg. length key = 32 \<longrightarrow> length nonce = 12 \<longrightarrow>
     (\<exists>c. kl_seal lib key nonce aad msg = Some c \<and> length c = length msg + 16 \<and>
          kl_unseal lib key nonce aad c = Some msg))"

lemma hkdf_expand_ok:
  assumes "key_lib_ok lib"
  obtains k where "hkdf_expand lib ikm salt info = Inr k" "length k = 32"
proof -
  obtain k where "kl_hkdf lib (Some salt) ikm info 32 = Some k" "length k = 32"
    using assms unfolding key_lib_ok_def by blast
  then show thesis by (intro that [of k]) (simp_all add: hkdf_expand_def hkdf_sha256_def)
qed

text \<open>The data of a certificate with an expiry is never that of one without.\<close>

lemma cert_data_expiry_differs:
  "build_cert_data_with_expiry sid pk t h (Some e) \<noteq> build_cert_data sid pk t h"
  by (simp add: build_cert_data_def build_cert_data_with_expiry_def)

end
