(* ===== verification/Key_Session.thy ===== *)
theory Key_Session
  imports Key_Types Chk_Mmr
begin

text \<open>
  Sessions (\<open>keyhierarchy/session.rs\<close>): a certificate under the master key and a ratchet whose
  state gives one signing key per checkpoint and is replaced after each signature. The random
  session id, the nonce of the recovery data and the clock are arguments. The reply of the
  sealed identity store to a new counter is ignored by the code; \<open>advance\<close> is its effect.
\<close>

definition CHAIN_METADATA_DOMAIN :: bytes where
  "CHAIN_METADATA_DOMAIN = ascii ''cpoe-chain-metadata-signing-v1''"

definition nanos_per_hour :: int where
  "nanos_per_hour = 3600 * 1000000000"

definition start_session_inner ::
    "key_lib \<Rightarrow> bytes \<Rightarrow> int \<Rightarrow> bytes \<Rightarrow> bytes \<Rightarrow> (key_error, session) result" where
  "start_session_inner lib session_id created_at signing_key document_hash =
     res_bind (hkdf_expand lib signing_key SESSION_DOMAIN (session_id @ kl_rfc3339 lib created_at)) (\<lambda>session_seed.
     let session_pub = kl_pub lib session_seed;
         expires_at = Some (created_at + 24 * nanos_per_hour);
         cert_data = build_cert_data_with_expiry session_id session_pub created_at document_hash expires_at;
         certificate = \<lparr>sc_session_id = session_id, sc_session_pubkey = session_pub, sc_created_at = created_at,
           sc_document_hash = document_hash, sc_master_pubkey = kl_pub lib signing_key,
           sc_signature = kl_sign lib signing_key cert_data, sc_version = KEY_VERSION,
           sc_expires_at = expires_at, sc_start_quote = None, sc_end_quote = None, sc_start_counter = None,
           sc_end_counter = None, sc_start_reset_count = None, sc_start_restart_count = None,
           sc_end_reset_count = None, sc_end_restart_count = None\<rparr>
     in res_bind (hkdf_expand lib session_seed RATCHET_INIT_DOMAIN []) (\<lambda>ratchet_init.
        Inr \<lparr>se_certificate = certificate,
             se_ratchet = \<lparr>rs_current = ratchet_init, rs_ordinal = 0, rs_wiped = False\<rparr>,
             se_signatures = [], se_export_count = 0\<rparr>))"

definition start_session ::
    "key_lib \<Rightarrow> bytes \<Rightarrow> int \<Rightarrow> puf_provider \<Rightarrow> bytes \<Rightarrow> (key_error, session) result" where
  "start_session lib session_id created_at puf document_hash =
     res_bind (derive_master_private_key lib puf) (\<lambda>master_key.
       start_session_inner lib session_id created_at master_key document_hash)"

definition start_session_from_legacy_key ::
    "key_lib \<Rightarrow> bytes \<Rightarrow> int \<Rightarrow> bytes option \<Rightarrow> bytes \<Rightarrow> (key_error, session) result" where
  "start_session_from_legacy_key lib session_id created_at file document_hash =
     res_bind (load_legacy_private_key lib file) (\<lambda>legacy_key.
       start_session_inner lib session_id created_at legacy_key document_hash)"

type_synonym 'a session_op = "session \<Rightarrow> session \<times> (key_error, 'a) result"

text \<open>The ratchet moves to its next state; the ordinal is counted in 64 bits.\<close>

definition advance_ratchet :: "bytes \<Rightarrow> unit session_op" where
  "advance_ratchet next s =
     (let s' = s\<lparr>se_ratchet := (se_ratchet s)\<lparr>rs_current := next\<rparr>\<rparr> in
      if rs_ordinal (se_ratchet s) + 1 < 2 ^ 64
      then (s'\<lparr>se_ratchet := (se_ratchet s')\<lparr>rs_ordinal := rs_ordinal (se_ratchet s) + 1\<rparr>\<rparr>, Inr ())
      else (s', Inl KeyPanic))"

text \<open>The keys of the current state, the two signatures, and the next state, which mixes in
  \<open>ratchet_input\<close>.\<close>

definition ratchet_signature ::
    "key_lib \<Rightarrow> bytes \<Rightarrow> bytes \<Rightarrow> nat option \<Rightarrow> nat option \<Rightarrow> nat \<Rightarrow> bytes \<Rightarrow>
     (key_error, checkpoint_signature \<times> bytes) result" where
  "ratchet_signature lib hash ratchet_input counter delta ordinal current =
     res_bind (hkdf_expand lib current SIGNING_KEY_DOMAIN []) (\<lambda>signing_seed.
     res_bind (hkdf_expand lib current LAMPORT_KEY_DOMAIN []) (\<lambda>lamport_seed.
     let (lamport_privkey, lamport_pubkey) = from_seed (kl_sha lib) lamport_seed;
         lamport_sig = lamport_sign lamport_privkey hash
     in res_bind (hkdf_expand lib current RATCHET_ADVANCE_DOMAIN ratchet_input) (\<lambda>next.
        Inr (\<lparr>cs_ordinal = ordinal, cs_public_key = kl_pub lib signing_seed,
              cs_signature = kl_sign lib signing_seed hash, cs_checkpoint_hash = hash,
              cs_counter_value = counter, cs_counter_delta = delta,
              cs_lamport_signature = Some (sig_to_bytes lamport_sig),
              cs_lamport_pubkey_fingerprint = Some (lamport_fingerprint (kl_sha lib) lamport_pubkey),
              cs_lamport_public_key = Some (pk_to_bytes lamport_pubkey)\<rparr>, next))))"

definition push_signature ::
    "(key_error, checkpoint_signature \<times> bytes) result \<Rightarrow> checkpoint_signature session_op" where
  "push_signature r s = (case r of
       Inl e \<Rightarrow> (s, Inl e)
     | Inr (sig, next) \<Rightarrow>
         (case advance_ratchet next s of
            (s', Inl e) \<Rightarrow> (s', Inl e)
          | (s', Inr _) \<Rightarrow> (s'\<lparr>se_signatures := se_signatures s' @ [sig]\<rparr>, Inr sig)))"

definition sign_checkpoint :: "key_lib \<Rightarrow> bytes \<Rightarrow> checkpoint_signature session_op" where
  "sign_checkpoint lib hash s =
     (if rs_wiped (se_ratchet s) then (s, Inl RatchetWiped)
      else push_signature (ratchet_signature lib hash hash None None
             (rs_ordinal (se_ratchet s)) (rs_current (se_ratchet s))) s)"

definition counter_delta :: "nat option \<Rightarrow> nat option \<Rightarrow> nat option" where
  "counter_delta current previous = (case (current, previous) of
       (Some c, Some p) \<Rightarrow> Some (c - p)
     | (Some _, None) \<Rightarrow> Some 0
     | _ \<Rightarrow> None)"

definition previous_counter :: "session \<Rightarrow> nat option" where
  "previous_counter s =
     (if se_signatures s = [] then None else cs_counter_value (last (se_signatures s)))"

definition sign_checkpoint_with_counter ::
    "key_lib \<Rightarrow> (nat \<Rightarrow> 'st \<Rightarrow> 'st) \<Rightarrow> bytes \<Rightarrow> tpm_provider \<Rightarrow> 'st option \<Rightarrow> session \<Rightarrow>
     (session \<times> 'st option) \<times> (key_error, checkpoint_signature) result" where
  "sign_checkpoint_with_counter lib advance hash provider sealed_store s =
     (if rs_wiped (se_ratchet s) then ((s, sealed_store), Inl RatchetWiped)
      else
        let current_counter = (case tp_bind provider hash of Some c \<Rightarrow> c | None \<Rightarrow> None);
            delta = counter_delta current_counter (previous_counter s);
            ratchet_input = hash @ (case delta of Some d \<Rightarrow> be 8 d | None \<Rightarrow> [])
        in (case push_signature (ratchet_signature lib hash ratchet_input current_counter delta
                  (rs_ordinal (se_ratchet s)) (rs_current (se_ratchet s))) s of
              (s', Inl e) \<Rightarrow> ((s', sealed_store), Inl e)
            | (s', Inr sig) \<Rightarrow>
                ((s', case current_counter of Some c \<Rightarrow> map_option (advance c) sealed_store
                      | None \<Rightarrow> sealed_store), Inr sig)))"

definition session_end :: "session \<Rightarrow> session" where
  "session_end s =
     (if rs_wiped (se_ratchet s) then s else s\<lparr>se_ratchet := (se_ratchet s)\<lparr>rs_wiped := True\<rparr>\<rparr>)"

definition end_with_provider :: "key_lib \<Rightarrow> tpm_provider \<Rightarrow> bytes \<Rightarrow> session \<Rightarrow> session" where
  "end_with_provider lib provider mmr_root s =
     (let cert = se_certificate s;
          final_hash = (if se_signatures s = [] then replicate 32 0 else cs_checkpoint_hash (last (se_signatures s)));
          nonce = compute_entangled_nonce lib (sc_session_id cert) final_hash mmr_root;
          cert1 = (case tp_quote provider nonce of Some q \<Rightarrow> cert\<lparr>sc_end_quote := q\<rparr> | None \<Rightarrow> cert);
          cert2 = (case tp_bind provider nonce of Some c \<Rightarrow> cert1\<lparr>sc_end_counter := c\<rparr> | None \<Rightarrow> cert1);
          cert3 = (case tp_clock_info provider of
                     Some (reset, restart) \<Rightarrow>
                       cert2\<lparr>sc_end_reset_count := Some reset, sc_end_restart_count := Some restart\<rparr>
                   | None \<Rightarrow> cert2)
      in session_end (s\<lparr>se_certificate := cert3\<rparr>))"

definition bind_start_quote :: "key_lib \<Rightarrow> tpm_provider \<Rightarrow> bytes \<Rightarrow> session \<Rightarrow> session" where
  "bind_start_quote lib provider mmr_root s =
     (let cert = se_certificate s;
          nonce = compute_entangled_nonce lib (sc_session_id cert) (sc_document_hash cert) mmr_root;
          cert1 = (case tp_quote provider nonce of Some q \<Rightarrow> cert\<lparr>sc_start_quote := q\<rparr> | None \<Rightarrow> cert);
          cert2 = (case tp_bind provider nonce of Some c \<Rightarrow> cert1\<lparr>sc_start_counter := c\<rparr> | None \<Rightarrow> cert1);
          cert3 = (case tp_clock_info provider of
                     Some (reset, restart) \<Rightarrow>
                       cert2\<lparr>sc_start_reset_count := Some reset, sc_start_restart_count := Some restart\<rparr>
                   | None \<Rightarrow> cert2)
      in s\<lparr>se_certificate := cert3\<rparr>)"

text \<open>The metadata is signed and the ratchet moves on without a checkpoint signature.\<close>

definition sign_chain_metadata ::
    "key_lib \<Rightarrow> chain_integrity_metadata \<Rightarrow> session \<Rightarrow>
     (session \<times> chain_integrity_metadata) \<times> (key_error, unit) result" where
  "sign_chain_metadata lib metadata s =
     (if rs_wiped (se_ratchet s) then ((s, metadata), Inl RatchetWiped)
      else
        let payload = metadata_signing_payload (kl_sha lib) metadata; current = rs_current (se_ratchet s) in
        (case hkdf_expand lib current CHAIN_METADATA_DOMAIN [] of
           Inl e \<Rightarrow> ((s, metadata), Inl e)
         | Inr signing_seed \<Rightarrow>
             (let metadata' = metadata\<lparr>cm_metadata_signature := Some (kl_sign lib signing_seed payload)\<rparr> in
              case hkdf_expand lib current RATCHET_ADVANCE_DOMAIN payload of
                Inl e \<Rightarrow> ((s, metadata'), Inl e)
              | Inr next \<Rightarrow>
                  (case advance_ratchet next s of (s', r) \<Rightarrow> ((s', metadata'), r)))))"

definition export_evidence :: "key_lib \<Rightarrow> master_identity \<Rightarrow> session \<Rightarrow> key_hierarchy_evidence" where
  "export_evidence lib identity s =
     (let cert = se_certificate s in
      \<lparr>ke_version = KEY_VERSION, ke_master_identity = Some identity, ke_session_certificate = Some cert,
       ke_checkpoint_signatures = se_signatures s, ke_master_fingerprint = mi_fingerprint identity,
       ke_master_public_key = mi_public_key identity, ke_device_id = mi_device_id identity,
       ke_session_id = kl_hex lib (sc_session_id cert), ke_session_public_key = sc_session_pubkey cert,
       ke_session_started = sc_created_at cert, ke_session_certificate_raw = sc_signature cert,
       ke_ratchet_count = min (length (se_signatures s)) (2 ^ 31 - 1),
       ke_ratchet_public_keys = map cs_public_key (se_signatures s)\<rparr>)"

definition recovery_key :: "key_lib \<Rightarrow> puf_provider \<Rightarrow> (key_error, bytes) result" where
  "recovery_key lib puf =
     res_bind (puf_response puf (kl_sha lib (ascii ''cpoe-ratchet-recovery-v2''))) (\<lambda>response.
       hkdf_expand lib response (ascii ''ratchet-recovery-key-v2'') [])"

text \<open>\<open>nonce\<close> is what the system's generator gives, \<open>None\<close> its failure.\<close>

definition export_recovery_state ::
    "key_lib \<Rightarrow> puf_provider \<Rightarrow> bytes option \<Rightarrow> session_recovery_state session_op" where
  "export_recovery_state lib puf nonce s =
     (if rs_wiped (se_ratchet s) then (s, Inl RatchetWiped)
      else case recovery_key lib puf of
        Inl e \<Rightarrow> (s, Inl e)
      | Inr key \<Rightarrow>
          if \<not> se_export_count s + 1 < 2 ^ 64 then (s, Inl KeyPanic)
          else
            let s' = s\<lparr>se_export_count := se_export_count s + 1\<rparr>;
                plaintext = rs_current (se_ratchet s) @ be 8 (rs_ordinal (se_ratchet s)) @ be 8 (se_export_count s')
            in (case nonce of
                  None \<Rightarrow> (s', Inl Crypto)
                | Some n \<Rightarrow>
                    (case kl_seal lib key n (be 8 (length (se_signatures s))) plaintext of
                       None \<Rightarrow> (s', Inl Crypto)
                     | Some ciphertext \<Rightarrow>
                         (s', Inr \<lparr>sr_certificate = se_certificate s, sr_signatures = se_signatures s,
                                   sr_last_ratchet_state = [2] @ n @ ciphertext,
                                   sr_export_count = se_export_count s'\<rparr>))))"

end
