(* ===== verification/Chk_Chain.thy ===== *)
theory Chk_Chain
  imports Chk_Mmr
begin

text \<open>
  The checkpoint chain (\<open>struct Chain\<close> of \<open>cpoe/src/checkpoint/chain.rs\<close>): its commits, with
  every check they make before a checkpoint is pushed. What a commit gets from outside, the
  document, the lock, the clock and the integrity check of the process, is the argument
  \<open>env\<close>; the functions of other crates are the argument \<open>lib\<close>. The model is of the default
  build, where the feature \<open>posme\<close> is off.
\<close>

subsection \<open>State\<close>

record chain_metadata =
  md_document_id :: bytes
  md_document_path :: bytes
  md_created_at :: int
  md_vdf_params :: parameters
  md_entanglement_mode :: entanglement_mode
  md_signature_policy :: signature_policy

text \<open>Of the forensic gate the chain itself uses the cost multiplier.\<close>

record 's chain =
  ch_metadata :: chain_metadata
  ch_checkpoints :: "checkpoint list"
  ch_storage_path :: "bytes option"
  ch_mmr :: "'s mmr option"
  ch_cost_multiplier :: "nat option"

type_synonym ('s, 'a) chain_op = "'s chain \<Rightarrow> 's chain \<times> (checkpoint_error, 'a) result"

record chk_lib =
  ck_sha :: "bytes \<Rightarrow> bytes"
  ck_rate :: "nat \<Rightarrow> nat \<Rightarrow> nat"
  ck_swf :: swf_lib
  ck_cbor_ref :: "document_ref \<Rightarrow> bytes option"
  ck_cbor_nat :: "nat \<Rightarrow> bytes option"
  ck_cbor_bytes :: "bytes \<Rightarrow> bytes option"
  ck_hex :: "bytes \<Rightarrow> bytes"

record commit_env =
  ce_open :: bool
  ce_lock :: bool
  ce_content :: "(bytes \<times> nat) option"
  ce_now :: int
  ce_elapsed :: nat
  ce_swf_elapsed :: nat
  ce_integrity :: bool

definition MAX_CLOCK_DRIFT_SECS :: int where
  "MAX_CLOCK_DRIFT_SECS = 2"

definition VDF_MIN_INTERVAL_SECS :: nat where
  "VDF_MIN_INTERVAL_SECS = 30"

text \<open>\<open>canonicalize_validated\<close> and the document id are given; so is the time of creation.\<close>

definition chain_new_with_mode ::
    "bytes \<Rightarrow> bytes \<Rightarrow> int \<Rightarrow> parameters \<Rightarrow> entanglement_mode \<Rightarrow> 's chain" where
  "chain_new_with_mode path document_id now vdf_params mode =
     \<lparr>ch_metadata = \<lparr>md_document_id = document_id, md_document_path = path, md_created_at = now,
                    md_vdf_params = vdf_params, md_entanglement_mode = mode,
                    md_signature_policy = Required\<rparr>,
      ch_checkpoints = [], ch_storage_path = None, ch_mmr = None, ch_cost_multiplier = None\<rparr>"

definition with_mmr :: "'s mmr \<Rightarrow> 's chain \<Rightarrow> 's chain" where
  "with_mmr m ch = ch\<lparr>ch_mmr := Some m\<rparr>"

definition with_signature_policy :: "signature_policy \<Rightarrow> 's chain \<Rightarrow> 's chain" where
  "with_signature_policy policy ch = ch\<lparr>ch_metadata := (ch_metadata ch)\<lparr>md_signature_policy := policy\<rparr>\<rparr>"

definition last_opt :: "'a list \<Rightarrow> 'a option" where
  "last_opt xs = (if xs = [] then None else Some (last xs))"

definition chain_at :: "nat \<Rightarrow> 's chain \<Rightarrow> (checkpoint_error, checkpoint) result" where
  "chain_at ordinal ch =
     (case nth_opt (ch_checkpoints ch) ordinal of Some cp \<Rightarrow> Inr cp | None \<Rightarrow> Inl OrdinalRange)"

subsection \<open>The end of every commit\<close>

definition with_version :: "checkpoint \<Rightarrow> checkpoint" where
  "with_version cp =
     (if cp_explicit_hash_version cp = None
      then cp\<lparr>cp_explicit_hash_version := Some (hash_version cp)\<rparr> else cp)"

definition commit_finish ::
    "'s store_ops \<Rightarrow> chk_lib \<Rightarrow> commit_env \<Rightarrow> checkpoint \<Rightarrow> ('s, checkpoint) chain_op" where
  "commit_finish ops lib env cp0 ch =
     (if \<not> ce_integrity env then (ch, Inl IntegrityCheck)
      else case validate_timestamp cp0 of
        Inl e \<Rightarrow> (ch, Inl e)
      | Inr _ \<Rightarrow>
          let cp = with_version cp0 in
          (case ch_mmr ch of
             None \<Rightarrow>
               (let cp' = cp\<lparr>cp_hash := checkpoint_hash (ck_sha lib) cp\<rparr>
                in (ch\<lparr>ch_checkpoints := ch_checkpoints ch @ [cp']\<rparr>, Inr cp'))
           | Some m \<Rightarrow>
               (case finalize_checkpoint ops (ck_sha lib) cp m of
                  (m', Inl e) \<Rightarrow> (ch\<lparr>ch_mmr := Some m'\<rparr>, Inl e)
                | (m', Inr (cp1, r)) \<Rightarrow>
                    (case inclusion_serialize (append_proof r) of
                       Inl e \<Rightarrow> (ch\<lparr>ch_mmr := Some m'\<rparr>, Inl (MmrFailed e))
                     | Inr data \<Rightarrow>
                         (let cp' = cp1\<lparr>cp_mmr_inclusion_proof := Some data\<rparr>
                          in (ch\<lparr>ch_mmr := Some m', ch_checkpoints := ch_checkpoints ch @ [cp']\<rparr>,
                              Inr cp'))))))"

text \<open>The hash the next checkpoint points to.\<close>

definition next_previous_hash ::
    "chk_lib \<Rightarrow> bytes \<Rightarrow> nat \<Rightarrow> 's chain \<Rightarrow> (checkpoint_error, bytes) result" where
  "next_previous_hash lib content_hash content_size ch = (case last_opt (ch_checkpoints ch) of
       Some cp \<Rightarrow> Inr (cp_hash cp)
     | None \<Rightarrow> genesis_prev_hash (ck_sha lib) (ck_cbor_ref lib) content_hash content_size
                 (md_document_path (ch_metadata ch)) None)"

subsection \<open>Plain commits\<close>

text \<open>Whole seconds of a span, rounded towards zero.\<close>

definition num_seconds :: "int \<Rightarrow> int" where
  "num_seconds d = (if 0 \<le> d then d div 1000000000 else - (- d div 1000000000))"

definition commit_duration ::
    "int \<Rightarrow> nat option \<Rightarrow> checkpoint option \<Rightarrow> nat \<Rightarrow> (checkpoint_error, nat) result" where
  "commit_duration now vdf_dur last_cp ordinal =
     (if ordinal = 0 then Inr (case vdf_dur of Some d \<Rightarrow> d | None \<Rightarrow> 0)
      else case vdf_dur of
        Some explicit \<Rightarrow>
          (case last_cp of
             Some prev \<Rightarrow>
               (let actual_elapsed = nat (max 0 (num_seconds (now - cp_timestamp prev)))
                in if explicit div 1000000000 = 0 \<and> VDF_MIN_INTERVAL_SECS \<le> actual_elapsed
                   then Inl (ZeroDurationOverride actual_elapsed) else Inr explicit)
           | None \<Rightarrow> Inr explicit)
      | None \<Rightarrow>
          (case last_cp of
             None \<Rightarrow> Inl NoPriorCheckpoint
           | Some prev \<Rightarrow>
               (let delta = now - cp_timestamp prev in
                if 0 \<le> delta then Inr (nat delta)
                else if MAX_CLOCK_DRIFT_SECS < \<bar>num_seconds delta\<bar>
                then Inl (ClockRegression (nat \<bar>num_seconds delta\<bar>))
                else Inr 0)))"

definition scaled_params :: "nat \<Rightarrow> parameters \<Rightarrow> parameters" where
  "scaled_params m p =
     (if 1 < m then
        p\<lparr>min_iterations := min (min_iterations p * m) (2 ^ 64 - 1),
          iterations_per_second := min (iterations_per_second p * m) (2 ^ 64 - 1)\<rparr>
      else p)"

definition vdf_err :: "(vdf_error, 'a) result \<Rightarrow> (checkpoint_error, 'a) result" where
  "vdf_err r = (case r of Inl e \<Rightarrow> Inl (VdfFailed e) | Inr x \<Rightarrow> Inr x)"

definition build_plain ::
    "chk_lib \<Rightarrow> commit_env \<Rightarrow> bytes option \<Rightarrow> nat option \<Rightarrow> nat \<Rightarrow> bytes \<Rightarrow> nat \<Rightarrow> 's chain \<Rightarrow>
     (checkpoint_error, checkpoint) result" where
  "build_plain lib env message vdf_dur multiplier content_hash content_size ch =
     (let ordinal = length (ch_checkpoints ch); params = md_vdf_params (ch_metadata ch) in
      res_bind (next_previous_hash lib content_hash content_size ch) (\<lambda>previous_hash.
      if min_iterations params = 0 then Inl NoIterations
      else res_bind (commit_duration (ce_now env) vdf_dur (last_opt (ch_checkpoints ch)) ordinal)
        (\<lambda>duration.
        res_bind (vdf_err (vdf_compute (ck_sha lib) (ck_rate lib)
                    (chain_input (ck_sha lib) content_hash previous_hash ordinal)
                    duration (scaled_params multiplier params) (ce_elapsed env))) (\<lambda>proof.
        Inr ((new_base (ce_now env) ordinal previous_hash content_hash content_size message)
               \<lparr>cp_vdf := Some proof\<rparr>)))))"

text \<open>Opening the document, locking it and hashing it; the lock is released on return.\<close>

definition with_document ::
    "commit_env \<Rightarrow> (bytes \<Rightarrow> nat \<Rightarrow> ('s, 'a) chain_op) \<Rightarrow> ('s, 'a) chain_op" where
  "with_document env k ch =
     (if \<not> ce_open env then (ch, Inl FileIo)
      else if \<not> ce_lock env then (ch, Inl LockHeld)
      else case ce_content env of
        None \<Rightarrow> (ch, Inl FileIo)
      | Some (content_hash, content_size) \<Rightarrow> k content_hash content_size ch)"

definition commit_built ::
    "'s store_ops \<Rightarrow> chk_lib \<Rightarrow> commit_env \<Rightarrow> (checkpoint_error, checkpoint) result \<Rightarrow> ('s, checkpoint) chain_op" where
  "commit_built ops lib env built ch =
     (case built of Inl e \<Rightarrow> (ch, Inl e) | Inr cp \<Rightarrow> commit_finish ops lib env cp ch)"

definition commit_internal ::
    "'s store_ops \<Rightarrow> chk_lib \<Rightarrow> commit_env \<Rightarrow> bytes option \<Rightarrow> nat option \<Rightarrow> nat \<Rightarrow> ('s, checkpoint) chain_op" where
  "commit_internal ops lib env message vdf_dur multiplier =
     with_document env (\<lambda>content_hash content_size ch.
       commit_built ops lib env
         (build_plain lib env message vdf_dur multiplier content_hash content_size ch) ch)"

definition chain_commit :: "'s store_ops \<Rightarrow> chk_lib \<Rightarrow> commit_env \<Rightarrow> bytes option \<Rightarrow> ('s, checkpoint) chain_op" where
  "chain_commit ops lib env message = commit_internal ops lib env message None 1"

definition commit_with_vdf_duration ::
    "'s store_ops \<Rightarrow> chk_lib \<Rightarrow> commit_env \<Rightarrow> bytes option \<Rightarrow> nat \<Rightarrow> ('s, checkpoint) chain_op" where
  "commit_with_vdf_duration ops lib env message vdf_dur =
     commit_internal ops lib env message (Some vdf_dur) 1"

text \<open>A commit behind the forensic gate, from its verdict on; the reasons are given texts.\<close>

datatype gate_verdict = Proceed | IncreaseCost nat bytes | LowConfidence bytes
datatype cross_modal_verdict = Inconsistent | Marginal | OtherVerdict

definition cross_modal_multiplier :: "cross_modal_verdict option \<Rightarrow> 's chain \<Rightarrow> nat" where
  "cross_modal_multiplier cm ch = (case cm of
       None \<Rightarrow> 1
     | Some Inconsistent \<Rightarrow> (case ch_cost_multiplier ch of None \<Rightarrow> 4 | Some m \<Rightarrow> m)
     | Some Marginal \<Rightarrow> 2
     | Some OtherVerdict \<Rightarrow> 1)"

fun dec_digits :: "nat \<Rightarrow> bytes" where
  "dec_digits n = (if n < 10 then [word_of_nat (48 + n)]
     else dec_digits (n div 10) @ [word_of_nat (48 + n mod 10)])"

declare dec_digits.simps [simp del]

definition gate_message :: "gate_verdict \<Rightarrow> bytes option \<Rightarrow> bytes option" where
  "gate_message verdict message =
     (let prefix = (case message of Some m \<Rightarrow> m @ ascii '' '' | None \<Rightarrow> []) in
      case verdict of
        LowConfidence reason \<Rightarrow> Some (prefix @ ascii ''[low-confidence: '' @ reason @ ascii '']'')
      | IncreaseCost multiplier reason \<Rightarrow>
          Some (prefix @ ascii ''[vdf-cost: '' @ dec_digits multiplier @ ascii ''x, '' @ reason @ ascii '']'')
      | Proceed \<Rightarrow> message)"

definition commit_with_forensics ::
    "'s store_ops \<Rightarrow> chk_lib \<Rightarrow> commit_env \<Rightarrow> bytes option \<Rightarrow> gate_verdict \<Rightarrow> cross_modal_verdict option \<Rightarrow>
     ('s, checkpoint) chain_op" where
  "commit_with_forensics ops lib env message verdict cm ch =
     (let vdf_multiplier = (case verdict of IncreaseCost m _ \<Rightarrow> m | _ \<Rightarrow> 1)
      in commit_internal ops lib env (gate_message verdict message) None
           (max vdf_multiplier (cross_modal_multiplier cm ch)) ch)"

subsection \<open>Entangled commits\<close>

text \<open>\<open>physics\<close> is the combined hash of the physical context, if there is one.\<close>

definition build_entangled ::
    "chk_lib \<Rightarrow> commit_env \<Rightarrow> bytes option \<Rightarrow> bytes \<Rightarrow> bytes \<Rightarrow> nat \<Rightarrow> nat \<Rightarrow> bytes option \<Rightarrow> bytes \<Rightarrow> nat \<Rightarrow>
     's chain \<Rightarrow> (checkpoint_error, checkpoint) result" where
  "build_entangled lib env message jitter_hash session_id keystroke_count vdf_dur physics
       content_hash content_size ch =
     (let sha = ck_sha lib; ordinal = length (ch_checkpoints ch) in
      res_bind (next_previous_hash lib content_hash content_size ch) (\<lambda>previous_hash.
      res_bind (case last_opt (ch_checkpoints ch) of
                  None \<Rightarrow> Inr (replicate 32 0)
                | Some cp \<Rightarrow> (case cp_vdf cp of Some v \<Rightarrow> Inr (vdf_output v) | None \<Rightarrow> Inl PriorWithoutVdf))
        (\<lambda>previous_vdf_output.
      let physics_seed = map_option (create_seed sha content_hash) physics;
          base_input = chain_input_entangled sha previous_vdf_output jitter_hash content_hash ordinal
      in res_bind (vdf_err (vdf_compute sha (ck_rate lib) (mix_physics_seed sha base_input physics_seed)
                     vdf_dur (md_vdf_params (ch_metadata ch)) (ce_elapsed env))) (\<lambda>proof.
         Inr ((new_base (ce_now env) ordinal previous_hash content_hash content_size message)
                \<lparr>cp_jitter_binding := Some \<lparr>jb_jitter_hash = jitter_hash, jb_session_id = session_id,
                    jb_keystroke_count = keystroke_count, jb_physics_seed = physics_seed\<rparr>,
                 cp_vdf := Some proof\<rparr>)))))"

definition commit_entangled ::
    "'s store_ops \<Rightarrow> chk_lib \<Rightarrow> commit_env \<Rightarrow> bytes option \<Rightarrow> bytes \<Rightarrow> bytes \<Rightarrow> nat \<Rightarrow> nat \<Rightarrow> bytes option \<Rightarrow>
     ('s, checkpoint) chain_op" where
  "commit_entangled ops lib env message jitter_hash session_id keystroke_count vdf_dur physics ch =
     (if \<not> ce_open env then (ch, Inl FileIo)
      else if \<not> ce_lock env then (ch, Inl LockHeld)
      else if md_entanglement_mode (ch_metadata ch) \<noteq> Entangled then (ch, Inl InvalidMode)
      else if session_id = [] then (ch, Inl EmptySessionId)
      else case ce_content env of
        None \<Rightarrow> (ch, Inl FileIo)
      | Some (content_hash, content_size) \<Rightarrow>
          commit_built ops lib env
            (build_entangled lib env message jitter_hash session_id keystroke_count vdf_dur physics
               content_hash content_size ch) ch)"

subsection \<open>RFC commits\<close>

definition swf_err :: "(swf_error, 'a) result \<Rightarrow> (checkpoint_error, 'a) result" where
  "swf_err r = (case r of Inl e \<Rightarrow> Inl (SwfFailed e) | Inr x \<Rightarrow> Inr x)"

definition cbor_err :: "bytes option \<Rightarrow> (checkpoint_error, bytes) result" where
  "cbor_err r = (case r of None \<Rightarrow> Inl CborEncode | Some b \<Rightarrow> Inr b)"

definition rfc_vdf_input ::
    "chk_lib \<Rightarrow> bytes \<Rightarrow> bytes \<Rightarrow> bytes option \<Rightarrow> rfc_jitter_binding option \<Rightarrow> 's chain \<Rightarrow> bytes" where
  "rfc_vdf_input lib content_hash previous_hash physics_seed rfc_jitter ch =
     (let sha = ck_sha lib; ordinal = length (ch_checkpoints ch) in
      case md_entanglement_mode (ch_metadata ch) of
        Legacy \<Rightarrow> chain_input sha content_hash previous_hash ordinal
      | Entangled \<Rightarrow>
          (let previous_vdf_output =
                 (case last_opt (ch_checkpoints ch) of
                    Some cp \<Rightarrow> (case cp_vdf cp of Some v \<Rightarrow> vdf_output v | None \<Rightarrow> replicate 32 0)
                  | None \<Rightarrow> replicate 32 0);
               jitter_hash = (case rfc_jitter of Some j \<Rightarrow> rj_commitment_hash j | None \<Rightarrow> replicate 32 0)
           in mix_physics_seed sha
                (chain_input_entangled sha previous_vdf_output jitter_hash content_hash ordinal) physics_seed))"

definition rfc_vdf_proof ::
    "chk_lib \<Rightarrow> commit_env \<Rightarrow> bytes \<Rightarrow> nat \<Rightarrow> 's chain \<Rightarrow> (checkpoint_error, vdf_proof option) result" where
  "rfc_vdf_proof lib env input vdf_dur ch =
     (if 0 < length (ch_checkpoints ch) \<or> md_entanglement_mode (ch_metadata ch) = Entangled
      then res_bind (vdf_err (vdf_compute (ck_sha lib) (ck_rate lib) input vdf_dur
                       (md_vdf_params (ch_metadata ch)) (ce_elapsed env))) (\<lambda>p. Inr (Some p))
      else Inr None)"

definition rfc_swf_seed ::
    "chk_lib \<Rightarrow> bytes \<Rightarrow> nat \<Rightarrow> bytes \<Rightarrow> rfc_jitter_binding option \<Rightarrow> bytes option \<Rightarrow> 's chain \<Rightarrow>
     (checkpoint_error, bytes) result" where
  "rfc_swf_seed lib content_hash content_size previous_hash rfc_jitter physics ch =
     (let sha = ck_sha lib; ordinal = length (ch_checkpoints ch);
          jitter_or_nonce = (case rfc_jitter of Some j \<Rightarrow> rj_commitment_hash j | None \<Rightarrow> content_hash)
      in
      res_bind (if ordinal = 0
                then document_ref_cbor (ck_cbor_ref lib) content_hash content_size
                       (md_document_path (ch_metadata ch)) None
                else Inr []) (\<lambda>doc_cbor.
      res_bind (case rfc_jitter of
                  None \<Rightarrow> Inr None
                | Some j \<Rightarrow> res_bind (cbor_err (ck_cbor_nat lib (rj_sample_count j))) (\<lambda>b. Inr (Some b)))
        (\<lambda>intervals_cbor.
      if ordinal = 0 then Inr (swf_seed_genesis sha doc_cbor jitter_or_nonce)
      else case intervals_cbor of
        Some intervals \<Rightarrow>
          res_bind (case physics of None \<Rightarrow> Inr [] | Some combined \<Rightarrow> cbor_err (ck_cbor_bytes lib combined))
            (\<lambda>phys_cbor. Inr (swf_seed_enhanced sha previous_hash intervals phys_cbor))
      | None \<Rightarrow> Inr (swf_seed_core sha previous_hash content_hash))))"

definition build_rfc ::
    "chk_lib \<Rightarrow> commit_env \<Rightarrow> bytes option \<Rightarrow> nat \<Rightarrow> rfc_jitter_binding option \<Rightarrow> time_evidence option \<Rightarrow>
     calibration_attestation \<Rightarrow> bytes option \<Rightarrow> bytes option \<Rightarrow> bytes \<Rightarrow> nat \<Rightarrow> 's chain \<Rightarrow>
     (checkpoint_error, checkpoint) result" where
  "build_rfc lib env message vdf_dur rfc_jitter time_ev calibration physics challenge_nonce
       content_hash content_size ch =
     (let sha = ck_sha lib; ordinal = length (ch_checkpoints ch) in
      res_bind (next_previous_hash lib content_hash content_size ch) (\<lambda>previous_hash.
      let physics_seed = (if md_entanglement_mode (ch_metadata ch) = Entangled
                          then map_option (create_seed sha content_hash) physics else None)
      in
      res_bind (rfc_vdf_proof lib env
                  (rfc_vdf_input lib content_hash previous_hash physics_seed rfc_jitter ch) vdf_dur ch)
        (\<lambda>proof.
      res_bind (rfc_swf_seed lib content_hash content_size previous_hash rfc_jitter physics ch) (\<lambda>seed.
      res_bind (swf_err (swf_compute (ck_swf lib) sha seed
                  (argon2_default\<lparr>a2_iterations := max (min_iterations (md_vdf_params (ch_metadata ch))) 3\<rparr>)
                  (ce_swf_elapsed env))) (\<lambda>swf.
      let cp = (new_base (ce_now env) ordinal previous_hash content_hash content_size message)
                 \<lparr>cp_vdf := proof,
                  cp_jitter_binding := map_option (\<lambda>rj.
                    \<lparr>jb_jitter_hash = rj_commitment_hash rj,
                     jb_session_id = ascii ''rfc-'' @ dec_digits ordinal,
                     jb_keystroke_count = rj_sample_count rj, jb_physics_seed = physics_seed\<rparr>) rfc_jitter\<rparr>
      in Inr (cp\<lparr>cp_rfc_vdf := to_rfc_vdf cp calibration, cp_rfc_jitter := rfc_jitter,
                 cp_time_evidence := time_ev, cp_argon2_swf := Some swf,
                 cp_challenge_nonce := map_option (ck_hex lib) challenge_nonce\<rparr>))))))"

definition commit_rfc ::
    "'s store_ops \<Rightarrow> chk_lib \<Rightarrow> commit_env \<Rightarrow> bytes option \<Rightarrow> nat \<Rightarrow> rfc_jitter_binding option \<Rightarrow>
     time_evidence option \<Rightarrow> calibration_attestation \<Rightarrow> bytes option \<Rightarrow> bytes option \<Rightarrow> ('s, checkpoint) chain_op" where
  "commit_rfc ops lib env message vdf_dur rfc_jitter time_ev calibration physics challenge_nonce ch =
     (if \<not> ce_open env then (ch, Inl FileIo)
      else if \<not> ce_lock env then (ch, Inl LockHeld)
      else if md_entanglement_mode (ch_metadata ch) = Entangled \<and> rfc_jitter = None
      then (ch, Inl JitterRequired)
      else case ce_content env of
        None \<Rightarrow> (ch, Inl FileIo)
      | Some (content_hash, content_size) \<Rightarrow>
          commit_built ops lib env
            (build_rfc lib env message vdf_dur rfc_jitter time_ev calibration physics challenge_nonce
               content_hash content_size ch) ch)"

text \<open>Signing sets the signature of the last checkpoint, which its hash does not cover.\<close>

definition sign_last :: "bytes \<Rightarrow> 's chain \<Rightarrow> 's chain" where
  "sign_last sig ch = (if ch_checkpoints ch = [] then ch
     else ch\<lparr>ch_checkpoints := butlast (ch_checkpoints ch) @ [(last (ch_checkpoints ch))\<lparr>cp_signature := Some sig\<rparr>]\<rparr>)"

end
