(* ===== verification/Key_Verify.thy ===== *)
theory Key_Verify
  imports Key_Session Chk_Chain
begin

text \<open>
  Verification of the key hierarchy (\<open>keyhierarchy/verification.rs\<close>), recovery of a session
  (\<open>recovery.rs\<close>) and the session manager that signs the checkpoints of a chain
  (\<open>manager.rs\<close>). \<open>now\<close> is the clock.
\<close>

subsection \<open>Certificates\<close>

definition verify_session_certificate ::
    "key_lib \<Rightarrow> int \<Rightarrow> session_certificate \<Rightarrow> (key_error, unit) result" where
  "verify_session_certificate lib now cert =
     (if (case sc_expires_at cert of Some expires_at \<Rightarrow> expires_at < now | None \<Rightarrow> False) then Inl Crypto
      else
        let cert_data = build_cert_data_with_expiry (sc_session_id cert) (sc_session_pubkey cert)
              (sc_created_at cert) (sc_document_hash cert) (sc_expires_at cert)
        in if \<not> kl_vk_ok lib (sc_master_pubkey cert) then Inl InvalidCert
           else if \<not> kl_verify lib (sc_master_pubkey cert) cert_data (sc_signature cert) then Inl InvalidCert
           else Inr ())"

definition validate_cert_byte_lengths ::
    "key_lib \<Rightarrow> bytes \<Rightarrow> bytes \<Rightarrow> bytes \<Rightarrow> bytes \<Rightarrow> int \<Rightarrow> bytes \<Rightarrow> (key_error, unit) result" where
  "validate_cert_byte_lengths lib master_pubkey session_pubkey cert_signature session_id created_at document_hash =
     (if length master_pubkey \<noteq> 32 then Inl InvalidCert
      else if length session_pubkey \<noteq> 32 then Inl InvalidCert
      else if length cert_signature \<noteq> 64 then Inl InvalidCert
      else if \<not> kl_vk_ok lib master_pubkey then Inl InvalidCert
      else if \<not> kl_verify lib master_pubkey
                 (build_cert_data session_id session_pubkey created_at document_hash) cert_signature
      then Inl InvalidCert else Inr ())"

subsection \<open>Checkpoint signatures\<close>

definition verify_lamport :: "key_lib \<Rightarrow> checkpoint_signature \<Rightarrow> (key_error, unit) result" where
  "verify_lamport lib sig = (case cs_lamport_signature sig of
       None \<Rightarrow> Inr ()
     | Some lamport_bytes \<Rightarrow>
         (case sig_from_bytes lamport_bytes of
            None \<Rightarrow> Inl Crypto
          | Some lamport_sig \<Rightarrow>
              (case cs_lamport_public_key sig of
                 Some pubkey_bytes \<Rightarrow>
                   (case pk_from_bytes pubkey_bytes of
                      None \<Rightarrow> Inl Crypto
                    | Some pk \<Rightarrow>
                        if (case cs_lamport_pubkey_fingerprint sig of
                              Some fp \<Rightarrow> fp \<noteq> lamport_fingerprint (kl_sha lib) pk | None \<Rightarrow> False)
                        then Inl Crypto
                        else (case lamport_verify (kl_sha lib) pk (cs_checkpoint_hash sig) lamport_sig of
                                None \<Rightarrow> Inl KeyPanic
                              | Some ok \<Rightarrow> if ok then Inr () else Inl Crypto))
               | None \<Rightarrow> if length (sig_to_bytes lamport_sig) \<noteq> 256 * 32 then Inl Crypto else Inr ())))"

fun verify_signatures_from ::
    "key_lib \<Rightarrow> nat \<Rightarrow> nat option \<Rightarrow> bool \<Rightarrow> checkpoint_signature list \<Rightarrow> (key_error, unit) result" where
  "verify_signatures_from lib i prev_counter prev_was_adjacent [] = Inr ()"
| "verify_signatures_from lib i prev_counter prev_was_adjacent (sig # sigs) =
     (if cs_ordinal sig \<noteq> i then Inl OrdinalMismatch
      else if \<not> kl_vk_ok lib (cs_public_key sig) then Inl SignatureFailed
      else if \<not> kl_verify lib (cs_public_key sig) (cs_checkpoint_hash sig) (cs_signature sig)
      then Inl SignatureFailed
      else res_bind (verify_lamport lib sig) (\<lambda>_.
        case cs_counter_value sig of
          Some current \<Rightarrow>
            if (case prev_counter of Some prev \<Rightarrow> current < prev | None \<Rightarrow> False) then Inl Crypto
            else if prev_was_adjacent \<and>
                (case (prev_counter, cs_counter_delta sig) of
                   (Some prev, Some delta) \<Rightarrow> delta \<noteq> current - prev | _ \<Rightarrow> False)
            then Inl Crypto
            else verify_signatures_from lib (i + 1) (Some current) True sigs
        | None \<Rightarrow> verify_signatures_from lib (i + 1) prev_counter False sigs))"

definition verify_checkpoint_signatures ::
    "key_lib \<Rightarrow> checkpoint_signature list \<Rightarrow> (key_error, unit) result" where
  "verify_checkpoint_signatures lib sigs = verify_signatures_from lib 0 None False sigs"

definition verify_session_binding :: "session_certificate \<Rightarrow> (key_error, session_binding_report) result" where
  "verify_session_binding cert =
     (let rollback = (case (sc_start_counter cert, sc_end_counter cert) of
            (Some first, Some final) \<Rightarrow> final < first | _ \<Rightarrow> False) in
      if rollback then Inl Crypto
      else
        let delta = (case (sc_start_counter cert, sc_end_counter cert) of
                       (Some first, Some final) \<Rightarrow> Some (final - first) | _ \<Rightarrow> None);
            changed = (\<lambda>a b. case (a, b) of (Some x, Some y) \<Rightarrow> if y \<noteq> x then [(x, y)] else [] | _ \<Rightarrow> []);
            reboot = changed (sc_start_reset_count cert) (sc_end_reset_count cert);
            restart = changed (sc_start_restart_count cert) (sc_end_restart_count cert)
        in Inr \<lparr>br_has_start_quote = (sc_start_quote cert \<noteq> None), br_has_end_quote = (sc_end_quote cert \<noteq> None),
                br_counter_delta = delta, br_reboot_detected = (reboot \<noteq> []),
                br_restart_detected = (restart \<noteq> []), br_warnings = reboot @ restart\<rparr>)"

definition verify_ratchet_key_consistency :: "key_hierarchy_evidence \<Rightarrow> (key_error, unit) result" where
  "verify_ratchet_key_consistency ev =
     (if length (ke_ratchet_public_keys ev) \<noteq> length (ke_checkpoint_signatures ev) then Inl Crypto
      else if list_ex (\<lambda>(ratchet_key, sig). ratchet_key \<noteq> cs_public_key sig)
                (zip (ke_ratchet_public_keys ev) (ke_checkpoint_signatures ev))
      then Inl Crypto else Inr ())"

definition verify_key_hierarchy ::
    "key_lib \<Rightarrow> int \<Rightarrow> key_hierarchy_evidence \<Rightarrow> (key_error, unit) result" where
  "verify_key_hierarchy lib now ev = (case ke_session_certificate ev of
       None \<Rightarrow> Inl InvalidCert
     | Some cert \<Rightarrow>
         res_bind (verify_session_certificate lib now cert) (\<lambda>_.
           if (case ke_master_identity ev of
                 Some identity \<Rightarrow> mi_public_key identity \<noteq> sc_master_pubkey cert | None \<Rightarrow> False)
           then Inl InvalidCert
           else if ke_master_public_key ev = [] then Inl InvalidCert
           else if fingerprint_for_public_key lib (ke_master_public_key ev) \<noteq> ke_master_fingerprint ev
           then Inl InvalidCert
           else if ke_ratchet_count ev \<noteq> min (length (ke_checkpoint_signatures ev)) (2 ^ 31 - 1)
           then Inl InvalidCert
           else res_bind (verify_ratchet_key_consistency ev) (\<lambda>_.
                  verify_checkpoint_signatures lib (ke_checkpoint_signatures ev))))"

definition verify_ratchet_signature ::
    "key_lib \<Rightarrow> bytes \<Rightarrow> bytes \<Rightarrow> bytes \<Rightarrow> (key_error, unit) result" where
  "verify_ratchet_signature lib ratchet_pubkey hash signature =
     (if length ratchet_pubkey \<noteq> 32 then Inl Crypto
      else if length hash \<noteq> 32 then Inl Crypto
      else if length signature \<noteq> 64 then Inl Crypto
      else if \<not> kl_vk_ok lib ratchet_pubkey then Inl Crypto
      else if \<not> kl_verify lib ratchet_pubkey hash signature then Inl SignatureFailed
      else Inr ())"

subsection \<open>Recovery\<close>

definition RECOVERY_MAX_AGE_SECS :: int where
  "RECOVERY_MAX_AGE_SECS = 7 * 24 * 3600"

definition expected_ordinal :: "checkpoint_signature list \<Rightarrow> nat" where
  "expected_ordinal sigs = (if sigs = [] then 0 else min (cs_ordinal (last sigs) + 1) (2 ^ 64 - 1))"

definition recover_ratchet_v2_aead ::
    "key_lib \<Rightarrow> puf_provider \<Rightarrow> session_recovery_state \<Rightarrow> (key_error, session) result" where
  "recover_ratchet_v2_aead lib puf recovery =
     (let data = sr_last_ratchet_state recovery in
      if length data < 13 + 16 then Inl SessionRecoveryFailed
      else res_bind (recovery_key lib puf) (\<lambda>key.
        case kl_unseal lib key (slice 1 13 data) (be 8 (length (sr_signatures recovery))) (drop 13 data) of
          None \<Rightarrow> Inl SessionRecoveryFailed
        | Some plaintext \<Rightarrow>
            if length plaintext < 48 then Inl SessionRecoveryFailed
            else
              let ordinal = be_val (slice 32 40 plaintext) in
              if ordinal \<noteq> expected_ordinal (sr_signatures recovery) then Inl SessionRecoveryFailed
              else Inr \<lparr>se_certificate = sr_certificate recovery,
                        se_ratchet = \<lparr>rs_current = take 32 plaintext, rs_ordinal = ordinal, rs_wiped = False\<rparr>,
                        se_signatures = sr_signatures recovery,
                        se_export_count = be_val (slice 40 48 plaintext)\<rparr>))"

definition recover_session_with_ratchet ::
    "key_lib \<Rightarrow> puf_provider \<Rightarrow> session_recovery_state \<Rightarrow> (key_error, session) result" where
  "recover_session_with_ratchet lib puf recovery = (case sr_last_ratchet_state recovery of
       [] \<Rightarrow> Inl SessionRecoveryFailed
     | v # _ \<Rightarrow> if v = 2 then recover_ratchet_v2_aead lib puf recovery else Inl Crypto)"

definition recover_session_with_new_ratchet ::
    "key_lib \<Rightarrow> puf_provider \<Rightarrow> session_recovery_state \<Rightarrow> (key_error, session) result" where
  "recover_session_with_new_ratchet lib puf recovery =
     res_bind (puf_response puf (kl_sha lib (ascii ''cpoe-ratchet-continuation-v1''))) (\<lambda>response.
     let sigs = sr_signatures recovery;
         last_hash = (if sigs = [] then replicate 32 0 else cs_checkpoint_hash (last sigs))
     in res_bind (hkdf_expand lib (response @ last_hash @ sc_session_id (sr_certificate recovery))
                    RATCHET_INIT_DOMAIN (ascii ''continuation'')) (\<lambda>ratchet_init.
        Inr \<lparr>se_certificate = sr_certificate recovery,
             se_ratchet = \<lparr>rs_current = ratchet_init, rs_ordinal = expected_ordinal sigs, rs_wiped = False\<rparr>,
             se_signatures = sigs, se_export_count = 0\<rparr>))"

definition recover_session ::
    "key_lib \<Rightarrow> int \<Rightarrow> puf_provider \<Rightarrow> session_recovery_state \<Rightarrow> bytes \<Rightarrow> (key_error, session) result" where
  "recover_session lib now puf recovery document_hash =
     (let cert = sr_certificate recovery in
      if sc_session_id cert = replicate 32 0 then Inl NoRecoveryData
      else res_bind (verify_session_certificate lib now cert) (\<lambda>_.
        if sc_expires_at cert = None \<and> RECOVERY_MAX_AGE_SECS < num_seconds (now - sc_created_at cert)
        then Inl Crypto
        else if sc_document_hash cert \<noteq> document_hash then Inl SessionRecoveryFailed
        else res_bind (derive_master_identity lib now puf) (\<lambda>identity.
          if mi_public_key identity \<noteq> sc_master_pubkey cert then Inl SessionRecoveryFailed
          else if sr_last_ratchet_state recovery \<noteq> []
          then recover_session_with_ratchet lib puf recovery
          else recover_session_with_new_ratchet lib puf recovery)))"

subsection \<open>Signing the checkpoints of a chain\<close>

record 's chain_signer =
  sg_chain :: "'s chain"
  sg_session :: session

datatype signer_error = SignerChain checkpoint_error | SignerKey key_error

text \<open>Signs the last checkpoint in place.\<close>

definition sign_last_checkpoint ::
    "key_lib \<Rightarrow> 's chain_signer \<Rightarrow> 's chain_signer \<times> (signer_error, checkpoint) result" where
  "sign_last_checkpoint klib sg =
     (case last_opt (ch_checkpoints (sg_chain sg)) of
        None \<Rightarrow> (sg, Inl (SignerKey Crypto))
      | Some cp \<Rightarrow>
          (case sign_checkpoint klib (cp_hash cp) (sg_session sg) of
             (s', Inl e) \<Rightarrow> (sg\<lparr>sg_session := s'\<rparr>, Inl (SignerKey e))
           | (s', Inr sig) \<Rightarrow>
               (sg\<lparr>sg_session := s', sg_chain := sign_last (cs_signature sig) (sg_chain sg)\<rparr>,
                Inr (cp\<lparr>cp_signature := Some (cs_signature sig)\<rparr>))))"

definition commit_and_sign ::
    "'s store_ops \<Rightarrow> chk_lib \<Rightarrow> key_lib \<Rightarrow> commit_env \<Rightarrow> bytes option \<Rightarrow> 's chain_signer \<Rightarrow>
     's chain_signer \<times> (signer_error, checkpoint) result" where
  "commit_and_sign ops lib klib env message sg =
     (case chain_commit ops lib env message (sg_chain sg) of
        (ch', Inl e) \<Rightarrow> (sg\<lparr>sg_chain := ch'\<rparr>, Inl (SignerChain e))
      | (ch', Inr _) \<Rightarrow> sign_last_checkpoint klib (sg\<lparr>sg_chain := ch'\<rparr>))"

definition commit_and_sign_with_duration ::
    "'s store_ops \<Rightarrow> chk_lib \<Rightarrow> key_lib \<Rightarrow> commit_env \<Rightarrow> bytes option \<Rightarrow> nat \<Rightarrow> 's chain_signer \<Rightarrow>
     's chain_signer \<times> (signer_error, checkpoint) result" where
  "commit_and_sign_with_duration ops lib klib env message d sg =
     (case commit_with_vdf_duration ops lib env message d (sg_chain sg) of
        (ch', Inl e) \<Rightarrow> (sg\<lparr>sg_chain := ch'\<rparr>, Inl (SignerChain e))
      | (ch', Inr _) \<Rightarrow> sign_last_checkpoint klib (sg\<lparr>sg_chain := ch'\<rparr>))"

end
