(* ===== verification/Key_Correct.thy ===== *)
theory Key_Correct
  imports Key_Verify
begin

text \<open>
  Sessions and what the verifier asks for: the runs of a session under all its operations, an
  invariant that holds along every run, and what a run must not do for its signatures to verify.
\<close>

subsection \<open>Signatures one after the other\<close>

text \<open>What the verifier remembers of the counters.\<close>

fun counters_after :: "nat option \<Rightarrow> bool \<Rightarrow> checkpoint_signature list \<Rightarrow> nat option \<times> bool" where
  "counters_after prev adjacent [] = (prev, adjacent)"
| "counters_after prev adjacent (sig # sigs) = (case cs_counter_value sig of
       Some c \<Rightarrow> counters_after (Some c) True sigs
     | None \<Rightarrow> counters_after prev False sigs)"

lemma verify_signatures_append:
  "verify_signatures_from lib i prev adj (xs @ ys) =
     res_bind (verify_signatures_from lib i prev adj xs) (\<lambda>_.
       verify_signatures_from lib (i + length xs) (fst (counters_after prev adj xs)) (snd (counters_after prev adj xs)) ys)"
proof (induction xs arbitrary: i prev adj)
  case (Cons sig xs)
  show ?case
  proof (cases "verify_lamport lib sig")
    case (Inr u)
    then show ?thesis by (cases "cs_counter_value sig") (simp_all add: Cons.IH)
  qed simp
qed simp

lemma counters_after_snoc:
  "counters_after prev adj (xs @ [sig]) = (case cs_counter_value sig of
     Some c \<Rightarrow> (Some c, True) | None \<Rightarrow> (fst (counters_after prev adj xs), False))"
  by (induction xs arbitrary: prev adj) (simp_all split: option.splits)

lemma counters_after_fst:
  assumes "fst (counters_after None False sigs) = Some c"
  shows "\<exists>sig \<in> set sigs. cs_counter_value sig = Some c"
  using assms
proof (induction sigs rule: rev_induct)
  case (snoc sig sigs)
  then show ?case by (cases "cs_counter_value sig") (auto simp: counters_after_snoc)
qed simp

lemma counters_after_snd:
  assumes "snd (counters_after None False sigs)"
  shows "sigs \<noteq> [] \<and> fst (counters_after None False sigs) = cs_counter_value (last sigs)"
  using assms by (cases sigs rule: rev_cases) (auto simp: counters_after_snoc split: option.splits)

text \<open>A signature that verifies on its own, apart from the counters.\<close>

definition signature_valid :: "key_lib \<Rightarrow> checkpoint_signature \<Rightarrow> bool" where
  "signature_valid lib sig \<longleftrightarrow> kl_vk_ok lib (cs_public_key sig) \<and>
     kl_verify lib (cs_public_key sig) (cs_checkpoint_hash sig) (cs_signature sig) \<and>
     verify_lamport lib sig = Inr ()"

text \<open>The counter of a new signature fits those before it.\<close>

definition counter_fits :: "checkpoint_signature list \<Rightarrow> checkpoint_signature \<Rightarrow> bool" where
  "counter_fits sigs sig = (case cs_counter_value sig of None \<Rightarrow> True
     | Some c \<Rightarrow> (\<forall>sig' \<in> set sigs. \<forall>c'. cs_counter_value sig' = Some c' \<longrightarrow> c' \<le> c) \<and>
         (sigs \<noteq> [] \<longrightarrow> (\<forall>c'. cs_counter_value (last sigs) = Some c' \<longrightarrow> cs_counter_delta sig = Some (c - c'))))"

lemma verify_signatures_snoc:
  assumes "verify_checkpoint_signatures lib sigs = Inr ()" "signature_valid lib sig"
    and "cs_ordinal sig = length sigs" "counter_fits sigs sig"
  shows "verify_checkpoint_signatures lib (sigs @ [sig]) = Inr ()"
proof (cases "cs_counter_value sig")
  case None
  then show ?thesis
    using assms by (simp add: verify_checkpoint_signatures_def verify_signatures_append signature_valid_def)
next
  case (Some c)
  obtain prev adj where pa: "counters_after None False sigs = (prev, adj)" by fastforce
  have le: "\<not> (case prev of Some p \<Rightarrow> c < p | None \<Rightarrow> False)"
  proof (cases prev)
    case (Some p)
    then obtain sig' where "sig' \<in> set sigs" "cs_counter_value sig' = Some p"
      using counters_after_fst [of sigs p] pa by auto
    then have "p \<le> c" using assms(4) \<open>cs_counter_value sig = Some c\<close> unfolding counter_fits_def by auto
    then show ?thesis using Some by simp
  qed simp
  have dl: "\<not> (adj \<and> (case (prev, cs_counter_delta sig) of (Some p, Some d) \<Rightarrow> d \<noteq> c - p | _ \<Rightarrow> False))"
    using counters_after_snd [of sigs] assms(4) Some pa by (auto simp: counter_fits_def split: option.splits)
  have "verify_signatures_from lib (length sigs) prev adj [sig] = Inr ()"
    using assms(2,3) Some le dl by (simp add: signature_valid_def)
  then show ?thesis
    using assms(1) pa by (simp add: verify_checkpoint_signatures_def verify_signatures_append)
qed

lemma verify_signatures_ordinal:
  assumes "verify_checkpoint_signatures lib sigs = Inr ()" "cs_ordinal sig \<noteq> length sigs"
  shows "verify_checkpoint_signatures lib (sigs @ [sig]) = Inl OrdinalMismatch"
  using assms by (simp add: verify_checkpoint_signatures_def verify_signatures_append)

subsection \<open>Runs\<close>

text \<open>The two operations that advance the ratchet. A run is any sequence of calls of the public
  operations of a session, whatever they return and whatever a TPM and its counter reply, with
  the list of those calls that advanced the ratchet. The sealed store that one of them is given
  has no effect on the session.\<close>

datatype session_event = Checkpoint_Signed | Metadata_Signed

definition on_success :: "session_event \<Rightarrow> (key_error, 'a) result \<Rightarrow> session_event list" where
  "on_success e r = (case r of Inl _ \<Rightarrow> [] | Inr _ \<Rightarrow> [e])"

inductive session_run :: "key_lib \<Rightarrow> puf_provider \<Rightarrow> session \<Rightarrow> session_event list \<Rightarrow> session \<Rightarrow> bool" for lib puf s0 where
  start: "session_run lib puf s0 [] s0"
| sign: "session_run lib puf s0 es s \<Longrightarrow> sign_checkpoint lib h s = (s', r) \<Longrightarrow>
    session_run lib puf s0 (es @ on_success Checkpoint_Signed r) s'"
| sign_counter: "session_run lib puf s0 es s \<Longrightarrow>
    sign_checkpoint_with_counter lib advance h provider (store :: unit option) s = ((s', store'), r) \<Longrightarrow>
    session_run lib puf s0 (es @ on_success Checkpoint_Signed r) s'"
| metadata: "session_run lib puf s0 es s \<Longrightarrow> sign_chain_metadata lib md s = ((s', md'), r) \<Longrightarrow>
    session_run lib puf s0 (es @ on_success Metadata_Signed r) s'"
| bind_start: "session_run lib puf s0 es s \<Longrightarrow> session_run lib puf s0 es (bind_start_quote lib provider root s)"
| finish: "session_run lib puf s0 es s \<Longrightarrow> session_run lib puf s0 es (session_end s)"
| finish_provider: "session_run lib puf s0 es s \<Longrightarrow> session_run lib puf s0 es (end_with_provider lib provider root s)"
| recovery: "session_run lib puf s0 es s \<Longrightarrow> export_recovery_state lib puf nonce s = (s', r) \<Longrightarrow>
    session_run lib puf s0 es s'"

text \<open>A checkpoint signed after the metadata of the chain was.\<close>

fun late :: "session_event list \<Rightarrow> bool" where
  "late [] = False"
| "late (Checkpoint_Signed # es) = late es"
| "late (Metadata_Signed # es) = (Checkpoint_Signed \<in> set es)"

definition positions :: "session_event list \<Rightarrow> nat list" where
  "positions es = filter (\<lambda>i. es ! i = Checkpoint_Signed) [0..<length es]"

lemma late_snoc:
  "late (es @ [Checkpoint_Signed]) \<longleftrightarrow> Metadata_Signed \<in> set es" "late (es @ [Metadata_Signed]) \<longleftrightarrow> late es"
  by (induction es rule: late.induct) auto

lemma late_metadata: "late es \<Longrightarrow> Metadata_Signed \<in> set es"
  by (induction es rule: late.induct) auto

lemma positions_snoc: "positions (es @ [e]) = positions es @ (if e = Checkpoint_Signed then [length es] else [])"
  by (auto simp: positions_def nth_append intro: filter_cong)

lemma positions_Nil [simp]: "positions [] = []"
  by (simp add: positions_def)

lemma positions_le: "length (positions es) \<le> length es"
  using length_filter_le [of _ "[0..<length es]"] by (simp add: positions_def)

lemma all_positions: "length (positions es) = length es \<longleftrightarrow> Metadata_Signed \<notin> set es"
proof (induction es rule: rev_induct)
  case (snoc e es)
  then show ?case using positions_le [of es] by (cases e) (simp_all add: positions_snoc)
qed simp

text \<open>The ordinals of the checkpoints are those of an unbroken row exactly when none came late.\<close>

lemma positions_row: "positions es = [0..<length (positions es)] \<longleftrightarrow> \<not> late es"
proof (induction es rule: rev_induct)
  case (snoc e es)
  show ?case
  proof (cases e)
    case Checkpoint_Signed
    have "positions (es @ [e]) = [0..<length (positions (es @ [e]))] \<longleftrightarrow>
        positions es = [0..<length (positions es)] \<and> length es = length (positions es)"
      by (simp add: Checkpoint_Signed positions_snoc)
    then show ?thesis
      using snoc all_positions [of es] late_metadata [of es] by (auto simp: Checkpoint_Signed late_snoc)
  next
    case Metadata_Signed
    then show ?thesis using snoc by (simp add: positions_snoc late_snoc)
  qed
qed simp

subsection \<open>When signatures verify\<close>

definition counters :: "checkpoint_signature list \<Rightarrow> nat list" where
  "counters sigs = List.map_filter cs_counter_value sigs"

text \<open>The delta of each signature is the one its session computes from the counter before it.\<close>

fun deltas_from :: "nat option \<Rightarrow> checkpoint_signature list \<Rightarrow> bool" where
  "deltas_from prev [] = True"
| "deltas_from prev (sig # sigs) \<longleftrightarrow>
     cs_counter_delta sig = counter_delta (cs_counter_value sig) prev \<and> deltas_from (cs_counter_value sig) sigs"

lemma deltas_from_snoc:
  "deltas_from prev (sigs @ [sig]) \<longleftrightarrow> deltas_from prev sigs \<and>
     cs_counter_delta sig = counter_delta (cs_counter_value sig) (if sigs = [] then prev else cs_counter_value (last sigs))"
  by (induction sigs arbitrary: prev) auto

lemma verify_signatures_from_iff:
  assumes "\<forall>sig \<in> set sigs. signature_valid lib sig" "deltas_from q sigs" "adj \<Longrightarrow> prev = q"
  shows "verify_signatures_from lib i prev adj sigs = Inr () \<longleftrightarrow>
    map cs_ordinal sigs = [i..<i + length sigs] \<and> sorted (case prev of None \<Rightarrow> counters sigs | Some p \<Rightarrow> p # counters sigs)"
  using assms
proof (induction sigs arbitrary: i prev adj q)
  case Nil
  show ?case by (simp add: counters_def List.map_filter_simps split: option.splits)
next
  case (Cons sig sigs)
  have v: "signature_valid lib sig" "\<forall>s \<in> set sigs. signature_valid lib s" using Cons.prems(1) by simp_all
  have d: "cs_counter_delta sig = counter_delta (cs_counter_value sig) q" "deltas_from (cs_counter_value sig) sigs"
    using Cons.prems(2) by simp_all
  have row: "map cs_ordinal (sig # sigs) = [i..<i + length (sig # sigs)] \<longleftrightarrow>
      cs_ordinal sig = i \<and> map cs_ordinal sigs = [i + 1..<i + 1 + length sigs]"
    by (simp add: upt_conv_Cons del: upt_Suc)
  show ?case
  proof (cases "cs_counter_value sig")
    case None
    have c: "counters (sig # sigs) = counters sigs" by (simp add: counters_def List.map_filter_simps None)
    have "verify_signatures_from lib (i + 1) prev False sigs = Inr () \<longleftrightarrow>
        map cs_ordinal sigs = [i + 1..<i + 1 + length sigs] \<and> sorted (case prev of None \<Rightarrow> counters sigs | Some p \<Rightarrow> p # counters sigs)"
      by (rule Cons.IH [OF v(2) d(2)]) simp
    then show ?thesis unfolding row c using v(1) None by (auto simp: signature_valid_def)
  next
    case (Some c)
    have cc: "counters (sig # sigs) = c # counters sigs" by (simp add: counters_def List.map_filter_simps Some)
    have "verify_signatures_from lib (i + 1) (Some c) True sigs = Inr () \<longleftrightarrow>
        map cs_ordinal sigs = [i + 1..<i + 1 + length sigs] \<and> sorted (c # counters sigs)"
      using Cons.IH [OF v(2) d(2), of True "Some c" "i + 1"] Some by simp
    moreover have "\<not> (adj \<and> (case (prev, cs_counter_delta sig) of (Some p, Some d) \<Rightarrow> d \<noteq> c - p | _ \<Rightarrow> False))"
      using Cons.prems(3) d(1) Some by (auto simp: counter_delta_def split: option.splits)
    then have "verify_signatures_from lib i prev adj (sig # sigs) = Inr () \<longleftrightarrow> cs_ordinal sig = i \<and>
        (\<forall>p. prev = Some p \<longrightarrow> p \<le> c) \<and> verify_signatures_from lib (i + 1) (Some c) True sigs = Inr ()"
      using v(1) Some by (cases prev) (auto simp: signature_valid_def)
    moreover have "sorted (case prev of None \<Rightarrow> c # counters sigs | Some p \<Rightarrow> p # c # counters sigs) \<longleftrightarrow>
        (\<forall>p. prev = Some p \<longrightarrow> p \<le> c) \<and> sorted (c # counters sigs)"
      by (cases prev) (auto simp del: sorted_simps(2) simp: sorted2)
    ultimately show ?thesis unfolding row cc by blast
  qed
qed

lemma verify_signatures_iff:
  assumes "\<forall>sig \<in> set sigs. signature_valid lib sig" "deltas_from None sigs"
  shows "verify_checkpoint_signatures lib sigs = Inr () \<longleftrightarrow>
    map cs_ordinal sigs = [0..<length sigs] \<and> sorted (counters sigs)"
  using verify_signatures_from_iff [OF assms, of False None 0] by (simp add: verify_checkpoint_signatures_def)

subsection \<open>The invariant\<close>

text \<open>The part of a certificate that is signed.\<close>

definition same_signed :: "session_certificate \<Rightarrow> session_certificate \<Rightarrow> bool" where
  "same_signed a b \<longleftrightarrow> sc_session_id a = sc_session_id b \<and> sc_session_pubkey a = sc_session_pubkey b \<and>
     sc_created_at a = sc_created_at b \<and> sc_document_hash a = sc_document_hash b \<and>
     sc_master_pubkey a = sc_master_pubkey b \<and> sc_signature a = sc_signature b \<and>
     sc_expires_at a = sc_expires_at b"

definition session_inv :: "key_lib \<Rightarrow> session_certificate \<Rightarrow> session \<Rightarrow> bool" where
  "session_inv lib cert s \<longleftrightarrow> same_signed (se_certificate s) cert \<and>
     verify_checkpoint_signatures lib (se_signatures s) = Inr () \<and>
     rs_ordinal (se_ratchet s) = length (se_signatures s) \<and> length (se_signatures s) < 2 ^ 64 \<and>
     map cs_ordinal (se_signatures s) = [0..<length (se_signatures s)] \<and>
     length (rs_current (se_ratchet s)) = 32 \<and> se_export_count s < 2 ^ 64"

lemma ratchet_signature_valid:
  assumes "key_lib_ok lib"
  obtains sig nx where "ratchet_signature lib h inp counter delta n cur = Inr (sig, nx)" "length nx = 32"
    "signature_valid lib sig" "cs_ordinal sig = n" "cs_counter_value sig = counter" "cs_counter_delta sig = delta"
    "cs_checkpoint_hash sig = h" "length (cs_signature sig) = 64"
proof -
  have sha: "\<And>m. length (kl_sha lib m) = 32" using assms by (simp add: key_lib_ok_def)
  obtain k1 where k1: "hkdf_expand lib cur SIGNING_KEY_DOMAIN [] = Inr k1" by (rule hkdf_expand_ok [OF assms])
  obtain k2 where k2: "hkdf_expand lib cur LAMPORT_KEY_DOMAIN [] = Inr k2" by (rule hkdf_expand_ok [OF assms])
  obtain k3 where k3: "hkdf_expand lib cur RATCHET_ADVANCE_DOMAIN inp = Inr k3" "length k3 = 32"
    by (rule hkdf_expand_ok [OF assms])
  obtain sk pk where kp: "from_seed (kl_sha lib) k2 = (sk, pk)" by fastforce
  note lam = lamport_sign_verified [OF sha kp, of h]
  define sig where "sig = \<lparr>cs_ordinal = n, cs_public_key = kl_pub lib k1, cs_signature = kl_sign lib k1 h,
    cs_checkpoint_hash = h, cs_counter_value = counter, cs_counter_delta = delta,
    cs_lamport_signature = Some (sig_to_bytes (lamport_sign sk h)),
    cs_lamport_pubkey_fingerprint = Some (lamport_fingerprint (kl_sha lib) pk),
    cs_lamport_public_key = Some (pk_to_bytes pk)\<rparr>"
  have "ratchet_signature lib h inp counter delta n cur = Inr (sig, k3)"
    using k1 k2 k3 kp by (simp add: ratchet_signature_def sig_def)
  moreover have "verify_lamport lib sig = Inr ()" using lam by (simp add: verify_lamport_def sig_def)
  then have "signature_valid lib sig"
    using assms by (simp add: signature_valid_def key_lib_ok_def sig_def)
  ultimately show thesis
    using k3(2) assms by (intro that [of sig k3]) (simp_all add: sig_def key_lib_ok_def)
qed

text \<open>Pushing a valid signature.\<close>

lemma push_signature_inv:
  assumes "session_inv lib cert s" "signature_valid lib sig" "cs_ordinal sig = rs_ordinal (se_ratchet s)"
    and "length nx = 32" "counter_fits (se_signatures s) sig"
    and "push_signature (Inr (sig, nx)) s = (s', Inr sig')"
  shows "session_inv lib cert s' \<and> sig' = sig \<and> se_signatures s' = se_signatures s @ [sig]"
proof -
  have ord: "rs_ordinal (se_ratchet s) + 1 < 2 ^ 64"
    using assms(6) by (auto simp: push_signature_def advance_ratchet_def Let_def split: if_splits)
  have s': "s' = s\<lparr>se_ratchet := (se_ratchet s)\<lparr>rs_current := nx, rs_ordinal := rs_ordinal (se_ratchet s) + 1\<rparr>,
      se_signatures := se_signatures s @ [sig]\<rparr>" "sig' = sig"
    using assms(6) ord by (auto simp: push_signature_def advance_ratchet_def Let_def)
  have "verify_checkpoint_signatures lib (se_signatures s @ [sig]) = Inr ()"
    using assms by (intro verify_signatures_snoc) (simp_all add: session_inv_def)
  then show ?thesis
    using assms ord by (simp add: s' session_inv_def)
qed

lemma sign_checkpoint_inv:
  assumes "session_inv lib cert s" "key_lib_ok lib" "sign_checkpoint lib h s = (s', Inr sig)"
  shows "session_inv lib cert s' \<and> se_signatures s' = se_signatures s @ [sig] \<and>
    cs_checkpoint_hash sig = h \<and> length (cs_signature sig) = 64 \<and>
    cs_ordinal sig = rs_ordinal (se_ratchet s) \<and> rs_wiped (se_ratchet s') = rs_wiped (se_ratchet s)"
proof -
  obtain sg nx where r: "ratchet_signature lib h h None None (rs_ordinal (se_ratchet s)) (rs_current (se_ratchet s)) = Inr (sg, nx)"
    "length nx = 32" "signature_valid lib sg" "cs_ordinal sg = rs_ordinal (se_ratchet s)"
    "cs_counter_value sg = None" "cs_checkpoint_hash sg = h" "length (cs_signature sg) = 64"
    by (rule ratchet_signature_valid [OF assms(2)])
  have p: "push_signature (Inr (sg, nx)) s = (s', Inr sig)"
    using assms(3) r(1) by (simp add: sign_checkpoint_def split: if_splits)
  have "rs_wiped (se_ratchet s') = rs_wiped (se_ratchet s)"
    using p by (auto simp: push_signature_def advance_ratchet_def Let_def split: if_splits)
  with push_signature_inv [OF assms(1) r(3,4,2) _ p] r show ?thesis
    by (simp add: counter_fits_def)
qed

text \<open>What holds along every run: the calls that advanced the ratchet give its ordinal, and their
  positions the ordinals of the signatures.\<close>

definition run_inv :: "key_lib \<Rightarrow> session_certificate \<Rightarrow> session_event list \<Rightarrow> session \<Rightarrow> bool" where
  "run_inv lib cert es s \<longleftrightarrow> same_signed (se_certificate s) cert \<and>
     rs_ordinal (se_ratchet s) = length es \<and> length es < 2 ^ 64 \<and> length (rs_current (se_ratchet s)) = 32 \<and>
     se_export_count s < 2 ^ 64 \<and> map cs_ordinal (se_signatures s) = positions es \<and>
     (\<forall>sig \<in> set (se_signatures s). signature_valid lib sig) \<and> deltas_from None (se_signatures s)"

lemma advance_ratchet_run:
  assumes "run_inv lib cert es s" "length nx = 32" "advance_ratchet nx s = (s', r)"
  shows "run_inv lib cert (es @ on_success Metadata_Signed r) s'"
  using assms
  by (auto simp: advance_ratchet_def Let_def run_inv_def on_success_def positions_snoc split: if_splits)

lemma push_signature_run:
  assumes inv: "run_inv lib cert es s" and r: "p = Inr (sig, nx)" "signature_valid lib sig" "length nx = 32"
    "cs_ordinal sig = rs_ordinal (se_ratchet s)" "cs_counter_delta sig = counter_delta (cs_counter_value sig) (previous_counter s)"
    and st: "push_signature p s = (s', res)"
  shows "run_inv lib cert (es @ on_success Checkpoint_Signed res) s'"
proof (cases "rs_ordinal (se_ratchet s) + 1 < 2 ^ 64")
  case True
  have s': "s' = s\<lparr>se_ratchet := (se_ratchet s)\<lparr>rs_current := nx, rs_ordinal := rs_ordinal (se_ratchet s) + 1\<rparr>,
      se_signatures := se_signatures s @ [sig]\<rparr>" "res = Inr sig"
    using st True by (auto simp: r(1) push_signature_def advance_ratchet_def Let_def)
  have "deltas_from None (se_signatures s @ [sig])"
    using inv r(5) by (simp add: run_inv_def deltas_from_snoc previous_counter_def)
  then show ?thesis
    using inv r(2-4) True by (simp add: s' run_inv_def on_success_def positions_snoc)
next
  case False
  then have "s' = s\<lparr>se_ratchet := (se_ratchet s)\<lparr>rs_current := nx\<rparr>\<rparr>" "res = Inl KeyPanic"
    using st by (auto simp: r(1) push_signature_def advance_ratchet_def Let_def)
  then show ?thesis using inv r(3) by (simp add: run_inv_def on_success_def)
qed

lemma sign_checkpoint_run:
  assumes "run_inv lib cert es s" "key_lib_ok lib" "sign_checkpoint lib h s = (s', r)"
  shows "run_inv lib cert (es @ on_success Checkpoint_Signed r) s'"
proof (cases "rs_wiped (se_ratchet s)")
  case True
  then show ?thesis using assms(1,3) by (auto simp: sign_checkpoint_def on_success_def)
next
  case False
  obtain sg nx where g: "ratchet_signature lib h h None None (rs_ordinal (se_ratchet s)) (rs_current (se_ratchet s)) = Inr (sg, nx)"
    "length nx = 32" "signature_valid lib sg" "cs_ordinal sg = rs_ordinal (se_ratchet s)" "cs_counter_value sg = None"
    "cs_counter_delta sg = None"
    by (rule ratchet_signature_valid [OF assms(2)])
  have st: "push_signature (Inr (sg, nx)) s = (s', r)" using assms(3) False g(1) by (simp add: sign_checkpoint_def)
  show ?thesis
    by (rule push_signature_run [OF assms(1) refl g(3,2,4) _ st]) (simp add: g counter_delta_def)
qed

lemma sign_counter_run:
  assumes "run_inv lib cert es s" "key_lib_ok lib"
    and "sign_checkpoint_with_counter lib advance h provider store s = ((s', store'), r)"
  shows "run_inv lib cert (es @ on_success Checkpoint_Signed r) s'"
proof (cases "rs_wiped (se_ratchet s)")
  case True
  then show ?thesis using assms(1,3) by (auto simp: sign_checkpoint_with_counter_def on_success_def)
next
  case False
  define counter where "counter = (case tp_bind provider h of Some c \<Rightarrow> c | None \<Rightarrow> None)"
  define delta where "delta = counter_delta counter (previous_counter s)"
  define inp where "inp = h @ (case delta of Some d \<Rightarrow> be 8 d | None \<Rightarrow> [])"
  obtain sg nx where g: "ratchet_signature lib h inp counter delta (rs_ordinal (se_ratchet s)) (rs_current (se_ratchet s)) = Inr (sg, nx)"
    "length nx = 32" "signature_valid lib sg" "cs_ordinal sg = rs_ordinal (se_ratchet s)"
    "cs_counter_value sg = counter" "cs_counter_delta sg = delta"
    by (rule ratchet_signature_valid [OF assms(2)])
  have st: "push_signature (Inr (sg, nx)) s = (s', r)"
    using assms(3) False unfolding sign_checkpoint_with_counter_def Let_def counter_def [symmetric] delta_def [symmetric]
      inp_def [symmetric] g(1) by (auto split: prod.splits sum.splits)
  show ?thesis
    by (rule push_signature_run [OF assms(1) refl g(3,2,4) _ st]) (simp add: g delta_def)
qed

lemma sign_metadata_run:
  assumes "run_inv lib cert es s" "key_lib_ok lib" "sign_chain_metadata lib md s = ((s', md'), r)"
  shows "run_inv lib cert (es @ on_success Metadata_Signed r) s'"
proof (cases "rs_wiped (se_ratchet s)")
  case True
  then show ?thesis using assms(1,3) by (auto simp: sign_chain_metadata_def on_success_def)
next
  case False
  obtain k where k: "hkdf_expand lib (rs_current (se_ratchet s)) CHAIN_METADATA_DOMAIN [] = Inr k"
    by (rule hkdf_expand_ok [OF assms(2)])
  obtain nx where nx: "hkdf_expand lib (rs_current (se_ratchet s)) RATCHET_ADVANCE_DOMAIN
      (metadata_signing_payload (kl_sha lib) md) = Inr nx" "length nx = 32"
    by (rule hkdf_expand_ok [OF assms(2)])
  have "advance_ratchet nx s = (s', r)"
    using assms(3) False k nx(1) by (auto simp: sign_chain_metadata_def Let_def split: prod.splits)
  then show ?thesis by (rule advance_ratchet_run [OF assms(1) nx(2)])
qed

lemma session_run_inv:
  assumes "session_run lib puf s0 es s" "run_inv lib cert [] s0" "key_lib_ok lib"
  shows "run_inv lib cert es s"
  using assms(1)
proof (induction rule: session_run.induct)
  case start
  then show ?case by (rule assms(2))
next
  case (sign es s h s' r)
  then show ?case using sign_checkpoint_run assms(3) by blast
next
  case (sign_counter es s advance h provider store s' store' r)
  then show ?case using sign_counter_run assms(3) by blast
next
  case (metadata es s md s' md' r)
  then show ?case using sign_metadata_run assms(3) by blast
next
  case (bind_start es s provider root)
  then show ?case
    by (auto simp: bind_start_quote_def Let_def run_inv_def same_signed_def split: option.splits)
next
  case (finish es s)
  then show ?case by (auto simp: session_end_def run_inv_def)
next
  case (finish_provider es s provider root)
  then show ?case
    by (auto simp: end_with_provider_def session_end_def Let_def run_inv_def same_signed_def split: option.splits)
next
  case (recovery es s nonce s' r)
  then show ?case
    by (auto simp: export_recovery_state_def Let_def run_inv_def split: if_splits sum.splits option.splits)
qed

text \<open>The signatures of a run verify exactly when the counters never went back and no checkpoint
  was signed after the metadata.\<close>

lemma run_signatures_iff:
  assumes "run_inv lib cert es s"
  shows "verify_checkpoint_signatures lib (se_signatures s) = Inr () \<longleftrightarrow> \<not> late es \<and> sorted (counters (se_signatures s))"
proof -
  have "map cs_ordinal (se_signatures s) = positions es" using assms by (simp add: run_inv_def)
  then have "map cs_ordinal (se_signatures s) = [0..<length (se_signatures s)] \<longleftrightarrow> \<not> late es"
    using positions_row [of es] by (metis length_map)
  then show ?thesis using verify_signatures_iff [of "se_signatures s" lib] assms by (simp add: run_inv_def)
qed

text \<open>The ordinal that recovery expects is the one of the ratchet exactly when the last call that
  advanced it signed a checkpoint.\<close>

lemma run_ordinal_iff:
  assumes "run_inv lib cert es s"
  shows "rs_ordinal (se_ratchet s) = expected_ordinal (se_signatures s) \<longleftrightarrow> es = [] \<or> last es = Checkpoint_Signed"
proof (cases es rule: rev_cases)
  case Nil
  then show ?thesis using assms by (simp add: run_inv_def expected_ordinal_def)
next
  case (snoc fs e)
  have o: "map cs_ordinal (se_signatures s) = positions es" "rs_ordinal (se_ratchet s) = Suc (length fs)" "Suc (length fs) < 2 ^ 64"
    using assms snoc by (simp_all add: run_inv_def)
  show ?thesis
  proof (cases e)
    case Checkpoint_Signed
    then have p: "positions es = positions fs @ [length fs]" by (simp add: snoc positions_snoc)
    then have ne: "se_signatures s \<noteq> []" using o(1) by auto
    then have "cs_ordinal (last (se_signatures s)) = length fs" using o(1) p by (metis last_map last_snoc)
    then show ?thesis using ne o(2,3) Checkpoint_Signed snoc by (simp add: expected_ordinal_def)
  next
    case Metadata_Signed
    have "expected_ordinal (se_signatures s) \<le> length fs"
    proof (cases "se_signatures s = []")
      case False
      then have "cs_ordinal (last (se_signatures s)) \<in> set (positions fs)"
        using o(1) by (simp add: snoc Metadata_Signed positions_snoc) (metis last_in_set last_map map_is_Nil_conv)
      then show ?thesis using False by (auto simp: expected_ordinal_def positions_def)
    qed (simp add: expected_ordinal_def)
    then show ?thesis using o(2) Metadata_Signed snoc by simp
  qed
qed

subsection \<open>The start\<close>

lemma start_session_cert:
  assumes "start_session_inner lib sid t sk h = Inr s" "key_lib_ok lib"
  shows "session_inv lib (se_certificate s) s" "run_inv lib (se_certificate s) [] s" "sc_master_pubkey (se_certificate s) = kl_pub lib sk"
    "sc_expires_at (se_certificate s) = Some (t + 24 * nanos_per_hour)" "sc_session_id (se_certificate s) = sid"
    "sc_document_hash (se_certificate s) = h" "sc_created_at (se_certificate s) = t"
    "now \<le> t + 24 * nanos_per_hour \<Longrightarrow> verify_session_certificate lib now (se_certificate s) = Inr ()"
    "rs_wiped (se_ratchet s) = False" "se_signatures s = []"
proof -
  obtain k1 where k1: "hkdf_expand lib sk SESSION_DOMAIN (sid @ kl_rfc3339 lib t) = Inr k1" by (rule hkdf_expand_ok [OF assms(2)])
  obtain k2 where k2: "hkdf_expand lib k1 RATCHET_INIT_DOMAIN [] = Inr k2" "length k2 = 32" by (rule hkdf_expand_ok [OF assms(2)])
  show "session_inv lib (se_certificate s) s" "run_inv lib (se_certificate s) [] s" "sc_master_pubkey (se_certificate s) = kl_pub lib sk"
    "sc_expires_at (se_certificate s) = Some (t + 24 * nanos_per_hour)" "sc_session_id (se_certificate s) = sid"
    "sc_document_hash (se_certificate s) = h" "sc_created_at (se_certificate s) = t"
    "rs_wiped (se_ratchet s) = False" "se_signatures s = []"
    using assms k1 k2
    by (auto simp: start_session_inner_def Let_def session_inv_def run_inv_def same_signed_def verify_checkpoint_signatures_def)
  show "verify_session_certificate lib now (se_certificate s) = Inr ()" if "now \<le> t + 24 * nanos_per_hour"
    using assms k1 k2 that
    by (auto simp: start_session_inner_def Let_def verify_session_certificate_def key_lib_ok_def)
qed

lemma verify_certificate_signed:
  "same_signed a b \<Longrightarrow> verify_session_certificate lib now a = verify_session_certificate lib now b"
  by (simp add: verify_session_certificate_def same_signed_def)

end
