(* ===== verification/Chk_Verify.thy ===== *)
theory Chk_Verify
  imports Chk_Chain
begin

text \<open>
  Verification of a chain (\<open>cpoe/src/checkpoint/chain_verification.rs\<close>), in the default build.
  The checks of one checkpoint are the steps below, in the order of the code; a step either
  goes on with the report or returns it. Ed25519 is a parameter.
\<close>

datatype verify_error =
    EmptyChainError
  | BadTimestamp nat checkpoint_error
  | Backdated nat int
  | HashMismatchAt nat
  | OrdinalGap nat nat
  | BrokenChainLink nat
  | InvalidGenesisHash
  | UnsignedAt nat
  | BadSignatureLength nat nat
  | MissingVdf nat
  | MissingPreviousVdf nat
  | MissingJitter nat
  | VdfInputMismatch nat
  | VdfVerificationFailed nat
  | RfcVdfLayout nat
  | SwfRejected nat
  | SwfErrorAt nat swf_error
  | MalformedMmrProof nat
  | InvalidMmrProof nat
  | MmrRollback nat

datatype verify_warning =
    ClockDrift nat int
  | LegacyGenesis
  | UnsignedOptional nat
  | SignatureNotVerified nat
  | NoGenesisVdf
  | LowIterations nat nat nat
  | NoNextMmrRoot nat

record verification_report =
  rp_valid :: bool
  rp_unsigned_checkpoints :: "nat list"
  rp_signature_failures :: "nat list"
  rp_ordinal_gaps :: "(nat \<times> nat) list"
  rp_metadata_valid :: bool
  rp_warnings :: "verify_warning list"
  rp_errors :: "verify_error list"
  rp_clock_tolerance_violations :: "(nat \<times> int) list"

definition report_new :: verification_report where
  "report_new = \<lparr>rp_valid = True, rp_unsigned_checkpoints = [], rp_signature_failures = [],
     rp_ordinal_gaps = [], rp_metadata_valid = True, rp_warnings = [], rp_errors = [],
     rp_clock_tolerance_violations = []\<rparr>"

definition report_fail :: "verify_error \<Rightarrow> verification_report \<Rightarrow> verification_report" where
  "report_fail e r = r\<lparr>rp_valid := False, rp_errors := rp_errors r @ [e]\<rparr>"

definition report_warn :: "verify_warning \<Rightarrow> verification_report \<Rightarrow> verification_report" where
  "report_warn w r = r\<lparr>rp_warnings := rp_warnings r @ [w]\<rparr>"

text \<open>\<open>Inl None\<close> is a panic, \<open>Inl (Some r)\<close> an early return with the report \<open>r\<close>.\<close>

type_synonym step = "verification_report \<Rightarrow> (verification_report option, verification_report) result"

definition stop :: "verify_error \<Rightarrow> step" where
  "stop e r = Inl (Some (report_fail e r))"

definition go_on :: step where
  "go_on r = Inr r"

definition warn :: "verify_warning \<Rightarrow> step" where
  "warn w r = Inr (report_warn w r)"

definition and_then :: "step \<Rightarrow> step \<Rightarrow> step" where
  "and_then f g r = res_bind (f r) g"

subsection \<open>The steps\<close>

definition step_timestamp :: "nat \<Rightarrow> checkpoint \<Rightarrow> step" where
  "step_timestamp i cp = (case validate_timestamp cp of Inl e \<Rightarrow> stop (BadTimestamp i e) | Inr _ \<Rightarrow> go_on)"

definition step_clock :: "nat \<Rightarrow> checkpoint option \<Rightarrow> checkpoint \<Rightarrow> step" where
  "step_clock i prev cp r = (case prev of
       None \<Rightarrow> Inr r
     | Some p \<Rightarrow>
         if cp_timestamp cp < cp_timestamp p then
           (let drift = num_seconds (cp_timestamp p - cp_timestamp cp) in
            if 1 < drift then stop (Backdated i drift) r
            else warn (ClockDrift i drift)
                   (r\<lparr>rp_clock_tolerance_violations := rp_clock_tolerance_violations r @ [(i, drift)]\<rparr>))
         else Inr r)"

definition step_hash :: "chk_lib \<Rightarrow> nat \<Rightarrow> checkpoint \<Rightarrow> step" where
  "step_hash lib i cp = (if checkpoint_hash (ck_sha lib) cp \<noteq> cp_hash cp then stop (HashMismatchAt i) else go_on)"

definition step_ordinal :: "nat \<Rightarrow> checkpoint \<Rightarrow> step" where
  "step_ordinal i cp r =
     (if cp_ordinal cp \<noteq> i
      then stop (OrdinalGap i (cp_ordinal cp)) (r\<lparr>rp_ordinal_gaps := rp_ordinal_gaps r @ [(i, cp_ordinal cp)]\<rparr>)
      else Inr r)"

definition spec_genesis :: "chk_lib \<Rightarrow> bytes \<Rightarrow> checkpoint \<Rightarrow> bool" where
  "spec_genesis lib document_path cp =
     (case genesis_prev_hash (ck_sha lib) (ck_cbor_ref lib) (cp_content_hash cp) (cp_content_size cp)
             document_path None of
        Inl _ \<Rightarrow> False
      | Inr h \<Rightarrow> cp_previous_hash cp = h)"

definition step_link :: "chk_lib \<Rightarrow> bytes \<Rightarrow> nat \<Rightarrow> checkpoint option \<Rightarrow> checkpoint \<Rightarrow> step" where
  "step_link lib document_path i prev cp = (case prev of
       Some p \<Rightarrow> if cp_previous_hash cp \<noteq> cp_hash p then stop (BrokenChainLink i) else go_on
     | None \<Rightarrow>
         (let legacy = (cp_previous_hash cp = replicate 32 0); spec = spec_genesis lib document_path cp in
          if \<not> spec \<and> \<not> legacy then stop InvalidGenesisHash
          else if legacy \<and> \<not> spec then warn LegacyGenesis
          else go_on))"

definition step_signature :: "signature_policy \<Rightarrow> nat \<Rightarrow> checkpoint \<Rightarrow> step" where
  "step_signature policy i cp r = (case cp_signature cp of
       None \<Rightarrow>
         (let r' = r\<lparr>rp_unsigned_checkpoints := rp_unsigned_checkpoints r @ [cp_ordinal cp]\<rparr> in
          case policy of Required \<Rightarrow> stop (UnsignedAt i) r' | Optional \<Rightarrow> warn (UnsignedOptional i) r')
     | Some sig \<Rightarrow>
         if length sig \<noteq> 64
         then stop (BadSignatureLength i (length sig))
                (r\<lparr>rp_signature_failures := rp_signature_failures r @ [cp_ordinal cp]\<rparr>)
         else warn (SignatureNotVerified i) r)"

definition compute_expected_vdf_input ::
    "chk_lib \<Rightarrow> nat \<Rightarrow> checkpoint \<Rightarrow> bytes option \<Rightarrow> entanglement_mode \<Rightarrow> (verify_error, bytes) result" where
  "compute_expected_vdf_input lib i cp prev_vdf_output mode = (case mode of
       Legacy \<Rightarrow> Inr (chain_input (ck_sha lib) (cp_content_hash cp) (cp_previous_hash cp) (cp_ordinal cp))
     | Entangled \<Rightarrow>
         (case cp_jitter_binding cp of
            None \<Rightarrow> Inl (MissingJitter i)
          | Some j \<Rightarrow>
              (let previous_output = (case prev_vdf_output of Some v \<Rightarrow> v | None \<Rightarrow> replicate 32 0)
               in Inr (mix_physics_seed (ck_sha lib)
                    (chain_input_entangled (ck_sha lib) previous_output (jb_jitter_hash j)
                       (cp_content_hash cp) (cp_ordinal cp)) (jb_physics_seed j)))))"

definition verify_single_checkpoint_vdf ::
    "chk_lib \<Rightarrow> nat \<Rightarrow> checkpoint \<Rightarrow> bytes option \<Rightarrow> entanglement_mode \<Rightarrow> (verify_error, unit) result" where
  "verify_single_checkpoint_vdf lib i cp prev_vdf_output mode = (case cp_vdf cp of
       None \<Rightarrow> Inr ()
     | Some v \<Rightarrow>
         res_bind (compute_expected_vdf_input lib i cp prev_vdf_output mode) (\<lambda>expected_input.
           if vdf_input v \<noteq> expected_input then Inl (VdfInputMismatch i)
           else if \<not> vdf_verify (ck_sha lib) v then Inl (VdfVerificationFailed i)
           else Inr ()))"

definition step_vdf :: "chk_lib \<Rightarrow> chain_metadata \<Rightarrow> nat \<Rightarrow> checkpoint option \<Rightarrow> checkpoint \<Rightarrow> step" where
  "step_vdf lib md i prev cp r =
     (case (md_entanglement_mode md, cp_vdf cp) of
        (Legacy, None) \<Rightarrow> (if 0 < i then stop (MissingVdf i) r else warn NoGenesisVdf r)
      | (Entangled, None) \<Rightarrow> stop (MissingVdf i) r
      | (mode, Some v) \<Rightarrow>
          (case (if mode = Entangled then
                   (case prev of
                      None \<Rightarrow> Inr None
                    | Some p \<Rightarrow> (case cp_vdf p of Some pv \<Rightarrow> Inr (Some (vdf_output pv))
                                | None \<Rightarrow> Inl (MissingPreviousVdf i)))
                 else Inr None) of
             Inl e \<Rightarrow> stop e r
           | Inr prev_vdf_output \<Rightarrow>
               (case verify_single_checkpoint_vdf lib i cp prev_vdf_output mode of
                  Inl e \<Rightarrow> stop e r
                | Inr _ \<Rightarrow>
                    if vdf_iterations v < min_iterations (md_vdf_params md)
                    then warn (LowIterations i (vdf_iterations v) (min_iterations (md_vdf_params md))) r
                    else Inr r)))"

definition step_rfc_vdf :: "nat \<Rightarrow> checkpoint \<Rightarrow> step" where
  "step_rfc_vdf i cp = (case cp_rfc_vdf cp of
       None \<Rightarrow> go_on
     | Some rv \<Rightarrow> if slice 32 64 (rv_output rv) \<noteq> rv_challenge rv then stop (RfcVdfLayout i) else go_on)"

definition step_swf :: "chk_lib \<Rightarrow> nat \<Rightarrow> checkpoint \<Rightarrow> step" where
  "step_swf lib i cp r = (case cp_argon2_swf cp of
       None \<Rightarrow> Inr r
     | Some swf \<Rightarrow>
         (case swf_verify (ck_swf lib) (ck_sha lib) swf of
            Inr True \<Rightarrow> Inr r
          | Inr False \<Rightarrow> stop (SwfRejected i) r
          | Inl SwfPanic \<Rightarrow> Inl None
          | Inl e \<Rightarrow> stop (SwfErrorAt i e) r))"

definition step_mmr :: "chk_lib \<Rightarrow> nat \<Rightarrow> checkpoint \<Rightarrow> checkpoint option \<Rightarrow> step" where
  "step_mmr lib i cp next r = (case cp_mmr_inclusion_proof cp of
       None \<Rightarrow> Inr r
     | Some proof_bytes \<Rightarrow>
         (case inclusion_deserialize proof_bytes of
            Inl e \<Rightarrow> stop (MalformedMmrProof i) r
          | Inr p \<Rightarrow>
              if inclusion_verify (ck_sha lib) p (cp_hash cp) \<noteq> Inr () then stop (InvalidMmrProof i) r
              else (case next of
                      None \<Rightarrow> Inr r
                    | Some next_cp \<Rightarrow>
                        (case cp_mmr_root next_cp of
                           Some next_root \<Rightarrow> if ip_root p \<noteq> next_root then stop (MmrRollback i) r else Inr r
                         | None \<Rightarrow> warn (NoNextMmrRoot i) r))))"

definition verify_one ::
    "chk_lib \<Rightarrow> chain_metadata \<Rightarrow> nat \<Rightarrow> checkpoint option \<Rightarrow> checkpoint \<Rightarrow> checkpoint option \<Rightarrow> step" where
  "verify_one lib md i prev cp next =
     and_then (step_timestamp i cp) (and_then (step_clock i prev cp) (and_then (step_hash lib i cp)
     (and_then (step_ordinal i cp) (and_then (step_link lib (md_document_path md) i prev cp)
     (and_then (step_signature (md_signature_policy md) i cp) (and_then (step_vdf lib md i prev cp)
     (and_then (step_rfc_vdf i cp) (and_then (step_swf lib i cp) (step_mmr lib i cp next)))))))))"

fun verify_loop_cp ::
    "chk_lib \<Rightarrow> chain_metadata \<Rightarrow> nat \<Rightarrow> checkpoint option \<Rightarrow> checkpoint list \<Rightarrow> step" where
  "verify_loop_cp lib md i prev [] r = Inr r"
| "verify_loop_cp lib md i prev (cp # cps) r =
     res_bind (verify_one lib md i prev cp (case cps of [] \<Rightarrow> None | next # _ \<Rightarrow> Some next) r)
       (\<lambda>r'. verify_loop_cp lib md (i + 1) (Some cp) cps r')"

definition verify_detailed :: "chk_lib \<Rightarrow> 's chain \<Rightarrow> verification_report option" where
  "verify_detailed lib ch =
     (if ch_checkpoints ch = [] then Some (report_fail EmptyChainError report_new)
      else case verify_loop_cp lib (ch_metadata ch) 0 None (ch_checkpoints ch) report_new of
        Inl r \<Rightarrow> r
      | Inr r \<Rightarrow> Some r)"

text \<open>\<open>verify\<close>: \<open>None\<close> is a panic, \<open>Some es\<close> the errors, empty when the chain is valid.\<close>

definition chain_verify :: "chk_lib \<Rightarrow> 's chain \<Rightarrow> (verify_error list, unit) result option" where
  "chain_verify lib ch = map_option (\<lambda>r. if rp_valid r then Inr () else Inl (rp_errors r)) (verify_detailed lib ch)"

subsection \<open>The light check\<close>

fun hash_chain_loop :: "chk_lib \<Rightarrow> bytes \<Rightarrow> nat \<Rightarrow> checkpoint option \<Rightarrow> checkpoint list \<Rightarrow> (verify_error, unit) result" where
  "hash_chain_loop lib document_path i prev [] = Inr ()"
| "hash_chain_loop lib document_path i prev (cp # cps) =
     (if checkpoint_hash (ck_sha lib) cp \<noteq> cp_hash cp then Inl (HashMismatchAt i)
      else case prev of
        Some p \<Rightarrow>
          if cp_previous_hash cp \<noteq> cp_hash p then Inl (BrokenChainLink i)
          else hash_chain_loop lib document_path (i + 1) (Some cp) cps
      | None \<Rightarrow>
          if \<not> spec_genesis lib document_path cp \<and> cp_previous_hash cp \<noteq> replicate 32 0
          then Inl InvalidGenesisHash
          else hash_chain_loop lib document_path (i + 1) (Some cp) cps)"

definition verify_hash_chain :: "chk_lib \<Rightarrow> 's chain \<Rightarrow> (verify_error, unit) result" where
  "verify_hash_chain lib ch =
     (if ch_checkpoints ch = [] then Inl EmptyChainError
      else hash_chain_loop lib (md_document_path (ch_metadata ch)) 0 None (ch_checkpoints ch))"

subsection \<open>Signatures\<close>

text \<open>\<open>vk_ok\<close> is whether the bytes are a key, \<open>ed_verify\<close> checks a signature on a message.\<close>

fun signatures_loop ::
    "(bytes \<Rightarrow> bytes \<Rightarrow> bytes \<Rightarrow> bool) \<Rightarrow> bytes \<Rightarrow> signature_policy \<Rightarrow> nat \<Rightarrow> checkpoint list \<Rightarrow>
     (checkpoint_error, unit) result" where
  "signatures_loop ed_verify vk policy i [] = Inr ()"
| "signatures_loop ed_verify vk policy i (cp # cps) = (case cp_signature cp of
       None \<Rightarrow> if policy = Required then Inl (Unsigned i) else signatures_loop ed_verify vk policy (i + 1) cps
     | Some sig \<Rightarrow>
         if length sig \<noteq> 64 then Inl (SignatureLength i)
         else if \<not> ed_verify vk (cp_hash cp) sig then Inl (SignatureInvalid i)
         else signatures_loop ed_verify vk policy (i + 1) cps)"

definition verify_signatures_with_key ::
    "(bytes \<Rightarrow> bool) \<Rightarrow> (bytes \<Rightarrow> bytes \<Rightarrow> bytes \<Rightarrow> bool) \<Rightarrow> bytes \<Rightarrow> 's chain \<Rightarrow> (checkpoint_error, unit) result" where
  "verify_signatures_with_key vk_ok ed_verify vk ch =
     (if length vk \<noteq> 32 then Inl VerifyingKeyLength
      else if \<not> vk_ok vk then Inl VerifyingKeyInvalid
      else signatures_loop ed_verify vk (md_signature_policy (ch_metadata ch)) 0 (ch_checkpoints ch))"

end
