(* ===== verification/Chk_Spec.thy ===== *)
theory Chk_Spec
  imports Chk_Verify
begin

text \<open>
  What verification decides, as a condition on the chain alone: every step of the verifier
  goes on exactly under a condition on the checkpoint and its neighbours, and the report stays
  valid exactly as long as every step goes on.
\<close>

named_theorems step_goes \<open>when a step of the verifier goes on\<close>

definition goes :: "step \<Rightarrow> bool \<Rightarrow> bool" where
  "goes s C \<longleftrightarrow> (\<forall>r. ((\<exists>r'. s r = Inr r') \<longleftrightarrow> C) \<and>
     (case s r of Inr r' \<Rightarrow> rp_valid r' = rp_valid r | Inl None \<Rightarrow> True | Inl (Some r') \<Rightarrow> \<not> rp_valid r'))"

lemma goesI:
  assumes "\<And>r. C \<Longrightarrow> \<exists>r'. s r = Inr r' \<and> rp_valid r' = rp_valid r"
    and "\<And>r. \<not> C \<Longrightarrow> s r = Inl None \<or> (\<exists>r'. s r = Inl (Some r') \<and> \<not> rp_valid r')"
  shows "goes s C"
  unfolding goes_def
proof
  fix r
  show "((\<exists>r'. s r = Inr r') \<longleftrightarrow> C) \<and>
     (case s r of Inr r' \<Rightarrow> rp_valid r' = rp_valid r | Inl None \<Rightarrow> True | Inl (Some r') \<Rightarrow> \<not> rp_valid r')"
    using assms(1) [of r] assms(2) [of r] by (cases C) auto
qed

lemma goes_yes:
  assumes "goes s C" "C"
  obtains r' where "s r = Inr r'" "rp_valid r' = rp_valid r"
proof -
  from assms obtain r' where "s r = Inr r'" unfolding goes_def by blast
  moreover from this assms(1) have "rp_valid r' = rp_valid r" unfolding goes_def by (auto dest: spec [of _ r])
  ultimately show thesis by (rule that)
qed

lemma goes_no:
  assumes "goes s C" "\<not> C"
  shows "s r = Inl None \<or> (\<exists>r'. s r = Inl (Some r') \<and> \<not> rp_valid r')"
proof -
  from assms have "\<nexists>r'. s r = Inr r'" unfolding goes_def by blast
  then obtain a where a: "s r = Inl a" by (cases "s r") auto
  with assms(1) show ?thesis unfolding goes_def by (cases a) (auto dest: spec [of _ r])
qed

lemma goes_and_then:
  assumes "goes f C" "goes g D"
  shows "goes (and_then f g) (C \<and> D)"
proof (rule goesI)
  fix r
  assume cd: "C \<and> D"
  obtain r1 where r1: "f r = Inr r1" "rp_valid r1 = rp_valid r" using goes_yes [OF assms(1), of r] cd by blast
  obtain r2 where "g r1 = Inr r2" "rp_valid r2 = rp_valid r1" using goes_yes [OF assms(2), of r1] cd by blast
  with r1 show "\<exists>r'. and_then f g r = Inr r' \<and> rp_valid r' = rp_valid r" by (simp add: and_then_def)
next
  fix r
  assume nc: "\<not> (C \<and> D)"
  show "and_then f g r = Inl None \<or> (\<exists>r'. and_then f g r = Inl (Some r') \<and> \<not> rp_valid r')"
  proof (cases C)
    case True
    obtain r1 where "f r = Inr r1" using goes_yes [OF assms(1) True, of r] by blast
    then show ?thesis using goes_no [OF assms(2), of r1] nc True by (auto simp: and_then_def)
  next
    case False
    then show ?thesis using goes_no [OF assms(1) False, of r] by (auto simp: and_then_def)
  qed
qed

lemmas step_prims = stop_def go_on_def warn_def report_fail_def report_warn_def

subsection \<open>The conditions\<close>

definition clock_ok :: "checkpoint option \<Rightarrow> checkpoint \<Rightarrow> bool" where
  "clock_ok prev cp = (case prev of None \<Rightarrow> True | Some p \<Rightarrow> cp_timestamp p - cp_timestamp cp < 2000000000)"

definition link_ok :: "chk_lib \<Rightarrow> bytes \<Rightarrow> checkpoint option \<Rightarrow> checkpoint \<Rightarrow> bool" where
  "link_ok lib document_path prev cp = (case prev of
       Some p \<Rightarrow> cp_previous_hash cp = cp_hash p
     | None \<Rightarrow> spec_genesis lib document_path cp \<or> cp_previous_hash cp = replicate 32 0)"

definition signature_ok :: "signature_policy \<Rightarrow> checkpoint \<Rightarrow> bool" where
  "signature_ok policy cp = (case cp_signature cp of None \<Rightarrow> policy = Optional | Some sig \<Rightarrow> length sig = 64)"

definition vdf_ok :: "chk_lib \<Rightarrow> chain_metadata \<Rightarrow> nat \<Rightarrow> checkpoint option \<Rightarrow> checkpoint \<Rightarrow> bool" where
  "vdf_ok lib md i prev cp = (case cp_vdf cp of
       None \<Rightarrow> md_entanglement_mode md = Legacy \<and> i = 0
     | Some v \<Rightarrow> vdf_verify (ck_sha lib) v \<and>
         (case md_entanglement_mode md of
            Legacy \<Rightarrow> vdf_input v = chain_input (ck_sha lib) (cp_content_hash cp) (cp_previous_hash cp) (cp_ordinal cp)
          | Entangled \<Rightarrow>
              (\<exists>j out. cp_jitter_binding cp = Some j \<and>
                 (case prev of None \<Rightarrow> out = replicate 32 0
                  | Some p \<Rightarrow> (\<exists>pv. cp_vdf p = Some pv \<and> out = vdf_output pv)) \<and>
                 vdf_input v = mix_physics_seed (ck_sha lib)
                   (chain_input_entangled (ck_sha lib) out (jb_jitter_hash j) (cp_content_hash cp) (cp_ordinal cp))
                   (jb_physics_seed j))))"

definition rfc_ok :: "checkpoint \<Rightarrow> bool" where
  "rfc_ok cp = (case cp_rfc_vdf cp of None \<Rightarrow> True | Some rv \<Rightarrow> slice 32 64 (rv_output rv) = rv_challenge rv)"

definition swf_ok :: "chk_lib \<Rightarrow> checkpoint \<Rightarrow> bool" where
  "swf_ok lib cp = (case cp_argon2_swf cp of None \<Rightarrow> True
     | Some swf \<Rightarrow> swf_verify (ck_swf lib) (ck_sha lib) swf = Inr True)"

definition mmr_ok :: "chk_lib \<Rightarrow> checkpoint \<Rightarrow> checkpoint option \<Rightarrow> bool" where
  "mmr_ok lib cp next = (case cp_mmr_inclusion_proof cp of None \<Rightarrow> True
     | Some data \<Rightarrow> (\<exists>p. inclusion_deserialize data = Inr p \<and> inclusion_verify (ck_sha lib) p (cp_hash cp) = Inr () \<and>
         (case next of None \<Rightarrow> True
          | Some n \<Rightarrow> (case cp_mmr_root n of None \<Rightarrow> True | Some root \<Rightarrow> root = ip_root p))))"

definition checkpoint_ok ::
    "chk_lib \<Rightarrow> chain_metadata \<Rightarrow> nat \<Rightarrow> checkpoint option \<Rightarrow> checkpoint \<Rightarrow> checkpoint option \<Rightarrow> bool" where
  "checkpoint_ok lib md i prev cp next \<longleftrightarrow>
     validate_timestamp cp = Inr () \<and> clock_ok prev cp \<and>
     checkpoint_hash (ck_sha lib) cp = cp_hash cp \<and> cp_ordinal cp = i \<and>
     link_ok lib (md_document_path md) prev cp \<and> signature_ok (md_signature_policy md) cp \<and>
     vdf_ok lib md i prev cp \<and> rfc_ok cp \<and> swf_ok lib cp \<and> mmr_ok lib cp next"

subsection \<open>Each step\<close>

lemma goes_timestamp [step_goes]: "goes (step_timestamp i cp) (validate_timestamp cp = Inr ())"
  by (rule goesI) (auto simp: step_timestamp_def step_prims split: sum.splits)

lemma num_seconds_drift: "0 < d \<Longrightarrow> num_seconds d \<le> 1 \<longleftrightarrow> d < 2000000000"
  unfolding num_seconds_def by (simp; linarith)

lemma goes_clock [step_goes]: "goes (step_clock i prev cp) (clock_ok prev cp)"
proof (cases prev)
  case None
  then show ?thesis by (intro goesI) (simp_all add: step_clock_def clock_ok_def)
next
  case (Some p)
  show ?thesis
  proof (cases "cp_timestamp cp < cp_timestamp p")
    case True
    then show ?thesis using Some num_seconds_drift [of "cp_timestamp p - cp_timestamp cp"]
      by (intro goesI) (auto simp: step_clock_def clock_ok_def Let_def step_prims not_less)
  next
    case False
    then show ?thesis using Some by (intro goesI) (simp_all add: step_clock_def clock_ok_def)
  qed
qed

lemma goes_hash [step_goes]: "goes (step_hash lib i cp) (checkpoint_hash (ck_sha lib) cp = cp_hash cp)"
  by (rule goesI) (auto simp: step_hash_def step_prims)

lemma goes_ordinal [step_goes]: "goes (step_ordinal i cp) (cp_ordinal cp = i)"
  by (rule goesI) (auto simp: step_ordinal_def step_prims)

lemma goes_link [step_goes]: "goes (step_link lib path i prev cp) (link_ok lib path prev cp)"
  by (rule goesI) (auto simp: step_link_def link_ok_def Let_def step_prims split: option.splits if_splits)

lemma goes_signature [step_goes]: "goes (step_signature policy i cp) (signature_ok policy cp)"
  by (rule goesI)
    (auto simp: step_signature_def signature_ok_def Let_def step_prims split: option.splits signature_policy.splits)

lemma goes_vdf [step_goes]: "goes (step_vdf lib md i prev cp) (vdf_ok lib md i prev cp)"
proof (cases "cp_vdf cp")
  case None
  then show ?thesis
    by (intro goesI) (auto simp: step_vdf_def vdf_ok_def step_prims split: entanglement_mode.splits)
next
  case (Some v)
  show ?thesis
  proof (cases "md_entanglement_mode md")
    case Legacy
    then show ?thesis using Some
      by (intro goesI) (auto simp: step_vdf_def vdf_ok_def verify_single_checkpoint_vdf_def
        compute_expected_vdf_input_def step_prims)
  next
    case Entangled
    then show ?thesis using Some
      by (intro goesI) (auto simp: step_vdf_def vdf_ok_def verify_single_checkpoint_vdf_def
        compute_expected_vdf_input_def Let_def step_prims split: option.splits)
  qed
qed

lemma goes_rfc_vdf [step_goes]: "goes (step_rfc_vdf i cp) (rfc_ok cp)"
  by (rule goesI) (auto simp: step_rfc_vdf_def rfc_ok_def step_prims split: option.splits)

lemma goes_swf [step_goes]: "goes (step_swf lib i cp) (swf_ok lib cp)"
proof (cases "cp_argon2_swf cp")
  case None
  then show ?thesis by (intro goesI) (simp_all add: step_swf_def swf_ok_def)
next
  case (Some swf)
  then show ?thesis
    by (intro goesI) (auto simp: step_swf_def swf_ok_def step_prims split: sum.splits bool.splits swf_error.splits)
qed

lemma goes_mmr [step_goes]: "goes (step_mmr lib i cp nx) (mmr_ok lib cp nx)"
proof (cases nx)
  case None
  then show ?thesis
    by (intro goesI) (auto simp: step_mmr_def mmr_ok_def step_prims split: option.splits sum.splits)
next
  case (Some n)
  then show ?thesis
    by (cases "cp_mmr_root n"; intro goesI)
      (auto simp: step_mmr_def mmr_ok_def step_prims split: option.splits sum.splits)
qed

lemma goes_verify_one: "goes (verify_one lib md i prev cp nx) (checkpoint_ok lib md i prev cp nx)"
  unfolding verify_one_def checkpoint_ok_def by (intro goes_and_then step_goes)

subsection \<open>The chain\<close>

fun chain_ok :: "chk_lib \<Rightarrow> chain_metadata \<Rightarrow> nat \<Rightarrow> checkpoint option \<Rightarrow> checkpoint list \<Rightarrow> bool" where
  "chain_ok lib md i prev [] = True"
| "chain_ok lib md i prev (cp # cps) =
     (checkpoint_ok lib md i prev cp (case cps of [] \<Rightarrow> None | nx # _ \<Rightarrow> Some nx) \<and>
      chain_ok lib md (i + 1) (Some cp) cps)"

lemma goes_verify_loop: "goes (verify_loop_cp lib md i prev cps) (chain_ok lib md i prev cps)"
proof (induction cps arbitrary: i prev)
  case Nil
  then show ?case by (rule goesI) simp_all
next
  case (Cons cp cps)
  have "verify_loop_cp lib md i prev (cp # cps) =
      and_then (verify_one lib md i prev cp (case cps of [] \<Rightarrow> None | nx # _ \<Rightarrow> Some nx))
        (verify_loop_cp lib md (i + 1) (Some cp) cps)"
    by (rule ext) (simp add: and_then_def)
  then show ?case using goes_and_then [OF goes_verify_one Cons.IH] by simp
qed

lemma chain_verify_iff:
  "chain_verify lib ch = Some (Inr ()) \<longleftrightarrow>
     ch_checkpoints ch \<noteq> [] \<and> chain_ok lib (ch_metadata ch) 0 None (ch_checkpoints ch)"
proof (cases "ch_checkpoints ch = []")
  case True
  then show ?thesis by (simp add: chain_verify_def verify_detailed_def report_fail_def)
next
  case False
  let ?v = "verify_loop_cp lib (ch_metadata ch) 0 None (ch_checkpoints ch) report_new"
  have g: "(\<exists>r'. ?v = Inr r') \<longleftrightarrow> chain_ok lib (ch_metadata ch) 0 None (ch_checkpoints ch)"
    "case ?v of Inr r' \<Rightarrow> rp_valid r' = rp_valid report_new | Inl None \<Rightarrow> True | Inl (Some r') \<Rightarrow> \<not> rp_valid r'"
    using goes_verify_loop unfolding goes_def by blast+
  have n: "rp_valid report_new" by (simp add: report_new_def)
  show ?thesis
  proof (cases ?v)
    case (Inr r)
    then show ?thesis using g n False by (auto simp: chain_verify_def verify_detailed_def)
  next
    case (Inl a)
    then show ?thesis using g n False by (cases a) (auto simp: chain_verify_def verify_detailed_def)
  qed
qed

end
