(* ===== verification/Chk_Correct.thy ===== *)
theory Chk_Correct
  imports Chk_Spec Swf_Props
begin

text \<open>
  Chains that are built by commits verify. The commits, whatever their outcome, and the
  signing of the last checkpoint are the steps of \<open>chain_run\<close>; the conditions of the verifier,
  signatures apart, and the agreement of the chain with its Merkle Mountain Range are an
  invariant of it.
\<close>

subsection \<open>Runs\<close>

definition clock_fine :: "commit_env \<Rightarrow> 's chain \<Rightarrow> bool" where
  "clock_fine env ch = (case last_opt (ch_checkpoints ch) of None \<Rightarrow> True
     | Some p \<Rightarrow> cp_timestamp p - ce_now env < 2000000000)"

definition first_leaf_sampled :: "checkpoint \<Rightarrow> bool" where
  "first_leaf_sampled cp = (case cp_argon2_swf cp of None \<Rightarrow> True
     | Some swf \<Rightarrow> (\<exists>s \<in> set (sw_sampled_proofs swf). ms_leaf_index s = 0))"

inductive chain_run :: "'s store_ops \<Rightarrow> chk_lib \<Rightarrow> 's chain \<Rightarrow> 's chain \<Rightarrow> bool" for ops lib ch0 where
  start: "chain_run ops lib ch0 ch0"
| plain: "chain_run ops lib ch0 ch \<Longrightarrow> md_entanglement_mode (ch_metadata ch) = Legacy \<Longrightarrow> clock_fine env ch \<Longrightarrow>
    commit_internal ops lib env message dur multiplier ch = (ch', r) \<Longrightarrow> chain_run ops lib ch0 ch'"
| entangled: "chain_run ops lib ch0 ch \<Longrightarrow> clock_fine env ch \<Longrightarrow>
    commit_entangled ops lib env message jitter session keystrokes d physics ch = (ch', r) \<Longrightarrow>
    chain_run ops lib ch0 ch'"
| rfc: "chain_run ops lib ch0 ch \<Longrightarrow> clock_fine env ch \<Longrightarrow>
    commit_rfc ops lib env message d rj te calibration physics nonce ch = (ch', r) \<Longrightarrow>
    (\<forall>cp. r = Inr cp \<longrightarrow> first_leaf_sampled cp) \<Longrightarrow> chain_run ops lib ch0 ch'"
| sign: "chain_run ops lib ch0 ch \<Longrightarrow> length sig = 64 \<Longrightarrow> chain_run ops lib ch0 (sign_last sig ch)"

subsection \<open>Extending a valid chain\<close>

definition nx_of :: "checkpoint list \<Rightarrow> checkpoint option" where
  "nx_of cps = (case cps of [] \<Rightarrow> None | nx # _ \<Rightarrow> Some nx)"

lemma mmr_ok_None: "mmr_ok lib cp (Some n) \<Longrightarrow> mmr_ok lib cp None"
  by (auto simp: mmr_ok_def split: option.splits)

lemma checkpoint_ok_next:
  "checkpoint_ok lib md i prev cp None \<Longrightarrow> mmr_ok lib cp nx \<Longrightarrow> checkpoint_ok lib md i prev cp nx"
  by (simp add: checkpoint_ok_def)

lemma chain_ok_snoc:
  assumes "chain_ok lib md i prev cps" "cps \<noteq> [] \<Longrightarrow> mmr_ok lib (last cps) (Some cp)"
    and "checkpoint_ok lib md (i + length cps) (if cps = [] then prev else Some (last cps)) cp None"
  shows "chain_ok lib md i prev (cps @ [cp])"
  using assms
proof (induction cps arbitrary: i prev)
  case (Cons c cps)
  have rest: "chain_ok lib md (i + 1) (Some c) (cps @ [cp])"
    using Cons.prems by (intro Cons.IH) (auto split: if_splits)
  show ?case
  proof (cases cps)
    case Nil
    then show ?thesis using Cons.prems rest checkpoint_ok_next [of lib md i prev c "Some cp"] by simp
  next
    case (Cons d ds)
    then show ?thesis using Cons.prems rest by simp
  qed
qed simp

text \<open>Checkpoints that differ in their hash, signature, version and MMR fields only.\<close>

definition same_core :: "checkpoint \<Rightarrow> checkpoint \<Rightarrow> bool" where
  "same_core a b \<longleftrightarrow> cp_timestamp a = cp_timestamp b \<and> cp_ordinal a = cp_ordinal b \<and>
     cp_previous_hash a = cp_previous_hash b \<and> cp_content_hash a = cp_content_hash b \<and>
     cp_content_size a = cp_content_size b \<and> cp_vdf a = cp_vdf b \<and>
     cp_jitter_binding a = cp_jitter_binding b \<and> cp_rfc_vdf a = cp_rfc_vdf b \<and>
     cp_argon2_swf a = cp_argon2_swf b"

lemma same_core_ok:
  assumes "same_core a b"
  shows "validate_timestamp a = validate_timestamp b" "clock_ok prev a = clock_ok prev b"
    "link_ok lib path prev a = link_ok lib path prev b" "vdf_ok lib md i prev a = vdf_ok lib md i prev b"
    "rfc_ok a = rfc_ok b" "swf_ok lib a = swf_ok lib b" "cp_ordinal a = cp_ordinal b"
  using assms
  by (simp_all add: same_core_def validate_timestamp_def clock_ok_def link_ok_def spec_genesis_def
    vdf_ok_def rfc_ok_def swf_ok_def cong: option.case_cong sum.case_cong entanglement_mode.case_cong)

text \<open>The last checkpoint may be signed.\<close>

lemma checkpoint_ok_sign:
  assumes "checkpoint_ok lib md i prev cp nx" "length sig = 64"
  shows "checkpoint_ok lib md i prev (cp\<lparr>cp_signature := Some sig\<rparr>) nx"
proof -
  have "checkpoint_hash sha (cp\<lparr>cp_signature := Some sig\<rparr>) = checkpoint_hash sha cp" for sha
    by (simp add: checkpoint_hash_def)
  moreover have "same_core (cp\<lparr>cp_signature := Some sig\<rparr>) cp" by (simp add: same_core_def)
  note same_core_ok [OF this]
  moreover have "mmr_ok lib (cp\<lparr>cp_signature := Some sig\<rparr>) nx = mmr_ok lib cp nx"
    by (simp add: mmr_ok_def cong: option.case_cong)
  ultimately show ?thesis using assms by (simp add: checkpoint_ok_def signature_ok_def)
qed

lemma chain_ok_sign:
  assumes "chain_ok lib md i prev (cps @ [cp])" "length sig = 64"
  shows "chain_ok lib md i prev (cps @ [cp\<lparr>cp_signature := Some sig\<rparr>])"
  using assms(1)
proof (induction cps arbitrary: i prev)
  case Nil
  then show ?case using checkpoint_ok_sign [OF _ assms(2)] by simp
next
  case (Cons c cps)
  have "mmr_ok lib c (Some (cp\<lparr>cp_signature := Some sig\<rparr>)) = mmr_ok lib c (Some cp)"
    by (simp add: mmr_ok_def cong: option.case_cong)
  then show ?case using Cons by (cases cps) (auto simp: checkpoint_ok_def)
qed

text \<open>Verification under the chain's own policy, from verification with optional signatures.\<close>

definition lenient :: "chain_metadata \<Rightarrow> chain_metadata" where
  "lenient md = md\<lparr>md_signature_policy := Optional\<rparr>"

lemma lenient_simps [simp]:
  "md_document_path (lenient md) = md_document_path md" "md_vdf_params (lenient md) = md_vdf_params md"
  "md_entanglement_mode (lenient md) = md_entanglement_mode md" "md_signature_policy (lenient md) = Optional"
  by (simp_all add: lenient_def)

lemma vdf_ok_lenient [simp]: "vdf_ok lib (lenient md) = vdf_ok lib md"
  by (intro ext) (simp only: vdf_ok_def lenient_simps)

lemma chain_ok_strict:
  assumes "chain_ok lib (lenient md) i prev cps"
    and "md_signature_policy md = Optional \<or> (\<forall>cp \<in> set cps. cp_signature cp \<noteq> None)"
  shows "chain_ok lib md i prev cps"
  using assms
proof (induction cps arbitrary: i prev)
  case (Cons c cps)
  have "signature_ok Optional c \<Longrightarrow> signature_ok (md_signature_policy md) c"
    using Cons.prems(2) by (auto simp: signature_ok_def split: option.splits)
  with Cons show ?case by (auto simp: checkpoint_ok_def)
qed simp

subsection \<open>What a commit builds\<close>

text \<open>A checkpoint that is ready for \<open>commit_finish\<close>.\<close>

definition cp_ready :: "chk_lib \<Rightarrow> 's chain \<Rightarrow> checkpoint \<Rightarrow> bool" where
  "cp_ready lib ch cp \<longleftrightarrow>
     (let prev = last_opt (ch_checkpoints ch); md = lenient (ch_metadata ch) in
      clock_ok prev cp \<and> cp_ordinal cp = length (ch_checkpoints ch) \<and>
      link_ok lib (md_document_path md) prev cp \<and> cp_signature cp = None \<and>
      vdf_ok lib md (length (ch_checkpoints ch)) prev cp \<and> rfc_ok cp \<and> swf_ok lib cp \<and>
      cp_mmr_inclusion_proof cp = None)"

lemma next_previous_hash_link:
  assumes "next_previous_hash lib content_hash content_size ch = Inr h" "cp_previous_hash cp = h"
    "cp_content_hash cp = content_hash" "cp_content_size cp = content_size"
  shows "link_ok lib (md_document_path (ch_metadata ch)) (last_opt (ch_checkpoints ch)) cp"
  using assms
  by (auto simp: next_previous_hash_def link_ok_def spec_genesis_def split: option.splits)

lemma scaled_min_pos: "0 < min_iterations p \<Longrightarrow> 0 < min_iterations (scaled_params m p)"
  by (simp add: scaled_params_def)

lemma vdf_err_Inr [simp]: "vdf_err r = Inr x \<longleftrightarrow> r = Inr x"
  by (cases r) (simp_all add: vdf_err_def)

lemma clock_ok_new:
  "clock_fine env ch \<Longrightarrow> cp_timestamp cp = ce_now env \<Longrightarrow> clock_ok (last_opt (ch_checkpoints ch)) cp"
  by (auto simp: clock_fine_def clock_ok_def split: option.splits)

lemma build_plain_ready:
  assumes "build_plain lib env message dur m content_hash content_size ch = Inr cp"
    and "md_entanglement_mode (ch_metadata ch) = Legacy" "clock_fine env ch"
  shows "cp_ready lib ch cp"
proof -
  let ?n = "length (ch_checkpoints ch)"
  obtain h d v where h: "next_previous_hash lib content_hash content_size ch = Inr h"
    and pos: "0 < min_iterations (md_vdf_params (ch_metadata ch))"
    and v: "vdf_compute (ck_sha lib) (ck_rate lib) (chain_input (ck_sha lib) content_hash h ?n) d
        (scaled_params m (md_vdf_params (ch_metadata ch))) (ce_elapsed env) = Inr v"
    and cp: "cp = (new_base (ce_now env) ?n h content_hash content_size message)\<lparr>cp_vdf := Some v\<rparr>"
    using assms(1) by (auto simp: build_plain_def Let_def res_bind_Inr_iff split: if_splits)
  have fields: "cp_timestamp cp = ce_now env" "cp_ordinal cp = ?n" "cp_previous_hash cp = h"
    "cp_content_hash cp = content_hash" "cp_content_size cp = content_size" "cp_signature cp = None"
    "cp_vdf cp = Some v" "cp_rfc_vdf cp = None" "cp_argon2_swf cp = None" "cp_mmr_inclusion_proof cp = None"
    by (simp_all add: cp new_base_def)
  have "vdf_verify (ck_sha lib) v" "vdf_input v = chain_input (ck_sha lib) content_hash h ?n"
    using vdf_compute_verifies [OF v scaled_min_pos [OF pos]] by blast+
  then have "vdf_ok lib (lenient (ch_metadata ch)) ?n (last_opt (ch_checkpoints ch)) cp"
    using assms(2) by (simp add: vdf_ok_def fields)
  then show ?thesis
    using next_previous_hash_link [OF h] clock_ok_new [OF assms(3)]
    by (simp add: cp_ready_def Let_def rfc_ok_def swf_ok_def fields)
qed

lemma vdf_ok_entangledI:
  assumes "cp_vdf cp = Some v" "vdf_verify (ck_sha lib) v" "md_entanglement_mode md = Entangled"
    and "cp_jitter_binding cp = Some j"
    and "case prev of None \<Rightarrow> out = replicate 32 0 | Some p \<Rightarrow> (\<exists>pv. cp_vdf p = Some pv \<and> out = vdf_output pv)"
    and "vdf_input v = mix_physics_seed (ck_sha lib)
      (chain_input_entangled (ck_sha lib) out (jb_jitter_hash j) (cp_content_hash cp) (cp_ordinal cp)) (jb_physics_seed j)"
  shows "vdf_ok lib md i prev cp"
  unfolding vdf_ok_def assms(1,3,4) using assms(2,5,6) by auto

lemma build_entangled_ready:
  assumes "build_entangled lib env message jitter session keystrokes d physics content_hash content_size ch = Inr cp"
    and "md_entanglement_mode (ch_metadata ch) = Entangled" "clock_fine env ch"
    and pos: "0 < min_iterations (md_vdf_params (ch_metadata ch))"
  shows "cp_ready lib ch cp"
proof -
  let ?n = "length (ch_checkpoints ch)" and ?sha = "ck_sha lib"
  let ?seed = "map_option (create_seed ?sha content_hash) physics"
  obtain h out v where h: "next_previous_hash lib content_hash content_size ch = Inr h"
    and out: "(case last_opt (ch_checkpoints ch) of
                  None \<Rightarrow> Inr (replicate 32 0)
                | Some cp \<Rightarrow> (case cp_vdf cp of Some v \<Rightarrow> Inr (vdf_output v) | None \<Rightarrow> Inl PriorWithoutVdf)) = Inr out"
    and v: "vdf_compute ?sha (ck_rate lib) (mix_physics_seed ?sha
          (chain_input_entangled ?sha out jitter content_hash ?n) ?seed) d
        (md_vdf_params (ch_metadata ch)) (ce_elapsed env) = Inr v"
    and cp: "cp = (new_base (ce_now env) ?n h content_hash content_size message)
        \<lparr>cp_jitter_binding := Some \<lparr>jb_jitter_hash = jitter, jb_session_id = session,
            jb_keystroke_count = keystrokes, jb_physics_seed = ?seed\<rparr>, cp_vdf := Some v\<rparr>"
    using assms(1) by (auto simp: build_entangled_def Let_def res_bind_Inr_iff)
  have fields: "cp_timestamp cp = ce_now env" "cp_ordinal cp = ?n" "cp_previous_hash cp = h"
    "cp_content_hash cp = content_hash" "cp_content_size cp = content_size" "cp_signature cp = None"
    "cp_vdf cp = Some v" "cp_rfc_vdf cp = None" "cp_argon2_swf cp = None" "cp_mmr_inclusion_proof cp = None"
    "cp_jitter_binding cp = Some \<lparr>jb_jitter_hash = jitter, jb_session_id = session,
            jb_keystroke_count = keystrokes, jb_physics_seed = ?seed\<rparr>"
    by (simp_all add: cp new_base_def)
  note vv = vdf_compute_verifies [OF v pos]
  have "case last_opt (ch_checkpoints ch) of None \<Rightarrow> out = replicate 32 0
      | Some p \<Rightarrow> (\<exists>pv. cp_vdf p = Some pv \<and> out = vdf_output pv)"
    using out by (auto split: option.splits)
  then have "vdf_ok lib (lenient (ch_metadata ch)) ?n (last_opt (ch_checkpoints ch)) cp"
    using assms(2) vv by (intro vdf_ok_entangledI [OF fields(7) _ _ fields(11), where out = out]) (simp_all add: fields)
  then show ?thesis
    using next_previous_hash_link [OF h] clock_ok_new [OF assms(3)]
    by (simp add: cp_ready_def Let_def rfc_ok_def swf_ok_def fields)
qed

text \<open>The work function of an RFC commit verifies when the first leaf was sampled.\<close>

lemma swf_err_Inr [simp]: "swf_err r = Inr x \<longleftrightarrow> r = Inr x"
  by (cases r) (simp_all add: swf_err_def)

lemma rfc_vdf_proof_ok:
  assumes "rfc_vdf_proof lib env input d ch = Inr pr" "0 < min_iterations (md_vdf_params (ch_metadata ch))"
  shows "case pr of None \<Rightarrow> ch_checkpoints ch = [] \<and> md_entanglement_mode (ch_metadata ch) = Legacy
    | Some v \<Rightarrow> vdf_verify (ck_sha lib) v \<and> vdf_input v = input \<and>
        (digest32 (ck_sha lib) \<longrightarrow> length (vdf_output v) = 32)"
proof (cases pr)
  case None
  then show ?thesis using assms(1)
    by (cases "md_entanglement_mode (ch_metadata ch)") (auto simp: rfc_vdf_proof_def res_bind_Inr_iff split: if_splits)
next
  case (Some v)
  then have v: "vdf_compute (ck_sha lib) (ck_rate lib) input d (md_vdf_params (ch_metadata ch)) (ce_elapsed env) = Inr v"
    using assms(1) by (auto simp: rfc_vdf_proof_def res_bind_Inr_iff split: if_splits)
  then have "vdf_output v = compute_chain (ck_sha lib) input (vdf_iterations v)"
    by (auto simp: vdf_compute_iff vdf_compute_iterations_def)
  moreover have "vdf_verify (ck_sha lib) v \<and> vdf_input v = input \<and> 0 < vdf_iterations v"
    using vdf_compute_verifies [OF v assms(2)] assms(2) by auto
  ultimately show ?thesis using Some compute_chain_length by (auto simp: digest32_def)
qed

lemma length_chain_inputs:
  assumes "digest32 sha"
  shows "length (chain_input sha a b n) = 32" "length (mix_physics_seed sha (chain_input_entangled sha o1 j c n) s) = 32"
  using assms
  by (cases s; simp add: digest32_def chain_input_def chain_input_entangled_def mix_physics_seed_def)+

lemma build_rfc_ready:
  assumes "build_rfc lib env message d rj te calibration physics nonce content_hash content_size ch = Inr cp"
    and "md_entanglement_mode (ch_metadata ch) = Entangled \<Longrightarrow> rj \<noteq> None" "clock_fine env ch"
    and "0 < min_iterations (md_vdf_params (ch_metadata ch))" "digest32 (ck_sha lib)" "first_leaf_sampled cp"
    and "md_entanglement_mode (ch_metadata ch) = Entangled \<Longrightarrow>
      \<forall>p. last_opt (ch_checkpoints ch) = Some p \<longrightarrow> cp_vdf p \<noteq> None"
  shows "cp_ready lib ch cp"
proof -
  let ?n = "length (ch_checkpoints ch)" and ?sha = "ck_sha lib" and ?md = "ch_metadata ch"
  define seed where "seed = (if md_entanglement_mode ?md = Entangled
      then map_option (create_seed ?sha content_hash) physics else None)"
  obtain h pr sw swf where h: "next_previous_hash lib content_hash content_size ch = Inr h"
    and pr: "rfc_vdf_proof lib env (rfc_vdf_input lib content_hash h seed rj ch) d ch = Inr pr"
    and swf: "swf_compute (ck_swf lib) ?sha sw
        (argon2_default\<lparr>a2_iterations := max (min_iterations (md_vdf_params ?md)) 3\<rparr>) (ce_swf_elapsed env) = Inr swf"
    and cp: "cp = ((new_base (ce_now env) ?n h content_hash content_size message)
                 \<lparr>cp_vdf := pr, cp_jitter_binding := map_option (\<lambda>rj.
                    \<lparr>jb_jitter_hash = rj_commitment_hash rj, jb_session_id = ascii ''rfc-'' @ dec_digits ?n,
                     jb_keystroke_count = rj_sample_count rj, jb_physics_seed = seed\<rparr>) rj,
                  cp_rfc_vdf := map_option (\<lambda>v. \<lparr>rv_challenge = vdf_input v, rv_output = vdf_output v @ vdf_input v,
                    rv_iterations = vdf_iterations v, rv_duration_ms = duration_to_ms (vdf_duration v),
                    rv_calibration = calibration\<rparr>) pr, cp_rfc_jitter := rj,
                 cp_time_evidence := te, cp_argon2_swf := Some swf,
                 cp_challenge_nonce := map_option (ck_hex lib) nonce\<rparr>)"
    using assms(1) unfolding build_rfc_def Let_def seed_def [symmetric]
    by (auto simp: res_bind_Inr_iff to_rfc_vdf_def)
  have fields: "cp_timestamp cp = ce_now env" "cp_ordinal cp = ?n" "cp_previous_hash cp = h"
    "cp_content_hash cp = content_hash" "cp_content_size cp = content_size" "cp_signature cp = None"
    "cp_vdf cp = pr" "cp_argon2_swf cp = Some swf" "cp_mmr_inclusion_proof cp = None"
    "cp_jitter_binding cp = map_option (\<lambda>rj.
        \<lparr>jb_jitter_hash = rj_commitment_hash rj, jb_session_id = ascii ''rfc-'' @ dec_digits ?n,
         jb_keystroke_count = rj_sample_count rj, jb_physics_seed = seed\<rparr>) rj"
    "cp_rfc_vdf cp = map_option (\<lambda>v. \<lparr>rv_challenge = vdf_input v, rv_output = vdf_output v @ vdf_input v,
        rv_iterations = vdf_iterations v, rv_duration_ms = duration_to_ms (vdf_duration v),
        rv_calibration = calibration\<rparr>) pr"
    by (simp_all add: cp new_base_def)
  note vp = rfc_vdf_proof_ok [OF pr assms(4)]
  have s: "swf_ok lib cp"
    using swf_compute_verified [OF swf [unfolded swf_compute_def]] assms(6)
    by (simp add: swf_ok_def first_leaf_sampled_def fields)
  have inp: "length (rfc_vdf_input lib content_hash h seed rj ch) = 32"
    using length_chain_inputs [OF assms(5)]
    by (simp add: rfc_vdf_input_def Let_def split: entanglement_mode.splits)
  have rf: "rfc_ok cp"
    using vp assms(5) inp by (auto simp: rfc_ok_def fields slice_def split: option.splits)
  have vo: "vdf_ok lib (lenient ?md) ?n (last_opt (ch_checkpoints ch)) cp"
  proof (cases "md_entanglement_mode ?md")
    case Legacy
    then show ?thesis
      using vp by (cases pr) (simp_all add: vdf_ok_def fields rfc_vdf_input_def Let_def)
  next
    case Entangled
    obtain j where j: "rj = Some j" using assms(2) Entangled by auto
    obtain v where v: "pr = Some v" using vp Entangled by (cases pr) auto
    define out where "out = (case last_opt (ch_checkpoints ch) of
        Some cp \<Rightarrow> (case cp_vdf cp of Some v \<Rightarrow> vdf_output v | None \<Rightarrow> replicate 32 0) | None \<Rightarrow> replicate 32 0)"
    have "case last_opt (ch_checkpoints ch) of None \<Rightarrow> out = replicate 32 0
        | Some p \<Rightarrow> (\<exists>pv. cp_vdf p = Some pv \<and> out = vdf_output pv)"
      using assms(7) [OF Entangled] by (auto simp: out_def split: option.splits)
    moreover have "rfc_vdf_input lib content_hash h seed rj ch = mix_physics_seed ?sha
        (chain_input_entangled ?sha out (rj_commitment_hash j) content_hash ?n) seed"
      using Entangled j by (simp add: rfc_vdf_input_def Let_def out_def)
    ultimately show ?thesis
      using vp Entangled j v
      by (intro vdf_ok_entangledI [OF fields(7) [unfolded v] _ _ fields(10) [unfolded j option.map], where out = out])
        (simp_all add: fields)
  qed
  show ?thesis
    using next_previous_hash_link [OF h] clock_ok_new [OF assms(3)] vo s rf
    by (simp add: cp_ready_def Let_def fields)
qed

subsection \<open>The invariant\<close>

text \<open>The chain and its MMR agree: the proof stored with the last checkpoint carries the root.\<close>

definition mmr_inv ::
    "('s \<Rightarrow> bool) \<Rightarrow> ('s \<Rightarrow> node list) \<Rightarrow> (bytes \<Rightarrow> bytes) \<Rightarrow> checkpoint list \<Rightarrow> 's mmr option \<Rightarrow> bool" where
  "mmr_inv invar nodes sha cps m = (case m of
       None \<Rightarrow> (\<forall>cp \<in> set cps. cp_mmr_inclusion_proof cp = None)
     | Some st \<Rightarrow> (\<exists>ds. mmr_repr invar nodes sha ds st \<and> length ds \<le> length cps \<and>
         (cps \<noteq> [] \<longrightarrow> ds \<noteq> [] \<and>
           (\<exists>data p. cp_mmr_inclusion_proof (last cps) = Some data \<and> inclusion_deserialize data = Inr p \<and>
              inclusion_verify sha p (cp_hash (last cps)) = Inr () \<and> get_root sha st = Inr (ip_root p)))))"

definition chain_inv :: "('s \<Rightarrow> bool) \<Rightarrow> ('s \<Rightarrow> node list) \<Rightarrow> chk_lib \<Rightarrow> 's chain \<Rightarrow> bool" where
  "chain_inv invar nodes lib ch \<longleftrightarrow>
     chain_ok lib (lenient (ch_metadata ch)) 0 None (ch_checkpoints ch) \<and>
     mmr_inv invar nodes (ck_sha lib) (ch_checkpoints ch) (ch_mmr ch) \<and>
     0 < min_iterations (md_vdf_params (ch_metadata ch))"

lemma chain_ok_last:
  "chain_ok lib md i prev cps \<Longrightarrow> cps \<noteq> [] \<Longrightarrow> \<exists>i prev nx. checkpoint_ok lib md i prev (last cps) nx"
proof (induction cps arbitrary: i prev)
  case (Cons c cps)
  then show ?case by (cases cps) auto
qed simp

lemma with_version_core:
  "same_core (with_version cp) cp" "cp_signature (with_version cp) = cp_signature cp"
  "cp_mmr_inclusion_proof (with_version cp) = cp_mmr_inclusion_proof cp"
  by (simp_all add: with_version_def same_core_def)

lemma checkpoint_ok_new:
  assumes "cp_ready lib ch cp0" "same_core cp cp0" "cp_signature cp = None" "validate_timestamp cp0 = Inr ()"
    and "checkpoint_hash (ck_sha lib) cp = cp_hash cp" "mmr_ok lib cp None"
  shows "checkpoint_ok lib (lenient (ch_metadata ch)) (length (ch_checkpoints ch))
    (last_opt (ch_checkpoints ch)) cp None"
  using assms(1,3-6) same_core_ok [OF assms(2)]
  by (simp add: checkpoint_ok_def cp_ready_def Let_def signature_ok_def)

lemma chain_inv_push:
  assumes "chain_inv invar nodes lib ch"
    and "checkpoint_ok lib (lenient (ch_metadata ch)) (length (ch_checkpoints ch)) (last_opt (ch_checkpoints ch)) cp None"
    and "ch_checkpoints ch \<noteq> [] \<Longrightarrow> mmr_ok lib (last (ch_checkpoints ch)) (Some cp)"
    and "mmr_inv invar nodes (ck_sha lib) (ch_checkpoints ch @ [cp]) m"
  shows "chain_inv invar nodes lib (ch\<lparr>ch_mmr := m, ch_checkpoints := ch_checkpoints ch @ [cp]\<rparr>)"
proof -
  have "chain_ok lib (lenient (ch_metadata ch)) 0 None (ch_checkpoints ch @ [cp])"
    using assms(1-3) by (intro chain_ok_snoc) (auto simp: chain_inv_def last_opt_def split: if_splits)
  then show ?thesis using assms(1,4) by (simp add: chain_inv_def)
qed

context node_store
begin

lemma finalize_ok:
  assumes "mmr_repr invar nodes sha ds st" "digest32 sha" "length ds + 1 < 2 ^ 62" "validate_timestamp cp = Inr ()"
  shows "\<exists>st' cp' r ds' data. finalize_checkpoint ops sha cp st = (st', Inr (cp', r)) \<and>
    cp' = cp\<lparr>cp_mmr_root := cp_mmr_root cp', cp_hash := cp_hash cp'\<rparr> \<and> checkpoint_hash sha cp' = cp_hash cp' \<and>
    cp_mmr_root cp' = Some (if ds = [] then replicate 32 0 else bag_peaks sha (map node_hash (fpeaks sha (forest ds)))) \<and>
    mmr_repr invar nodes sha ds' st' \<and> ds' \<noteq> [] \<and> length ds' \<le> length ds + 1 \<and>
    inclusion_serialize (append_proof r) = Inr data \<and> inclusion_deserialize data = Inr (append_proof r) \<and>
    inclusion_verify sha (append_proof r) (cp_hash cp') = Inr () \<and> get_root sha st' = Inr (ip_root (append_proof r))"
proof -
  have "leaf_count st = Inr (length ds)"
    unfolding leaf_count_def using assms(1,3)
    by (subst leaf_count_forest [symmetric, OF fsize_capacity]) (simp_all add: mmr_repr_def)
  then have root: "root_or_zero sha st =
      Inr (if ds = [] then replicate 32 0 else bag_peaks sha (map node_hash (fpeaks sha (forest ds))))"
    using repr_root [OF assms(1)] by (simp add: root_or_zero_def mmr_err_def)
  let ?root = "if ds = [] then replicate 32 0 else bag_peaks sha (map node_hash (fpeaks sha (forest ds)))"
  let ?cp = "cp\<lparr>cp_mmr_root := Some ?root\<rparr>"
  let ?cp' = "?cp\<lparr>cp_hash := checkpoint_hash sha ?cp\<rparr>"
  have rc: "recompute_hash sha ?cp = ?cp'"
    using assms(4) by (simp add: recompute_hash_def validate_timestamp_def split: sum.splits)
  obtain st' r ds' where a: "append_checkpoint ops sha (cp_hash ?cp') st = (st', Inr r)"
    "mmr_repr invar nodes sha ds' st'" "ds' \<noteq> []" "ds' = (if is_new r then ds @ [cp_hash ?cp'] else ds)"
    "get_root sha st' = Inr (ip_root (append_proof r))" "stored_proof sha (append_proof r) (cp_hash ?cp')"
    using append_checkpoint_ok [OF assms(1-3)] by blast
  obtain data where d: "inclusion_serialize (append_proof r) = Inr data"
    "inclusion_deserialize data = Inr (append_proof r)" "inclusion_verify sha (append_proof r) (cp_hash ?cp') = Inr ()"
    using a(6) by (auto simp: stored_proof_def)
  have f: "finalize_checkpoint ops sha cp st = (st', Inr (?cp', r))"
    using a(1) rc by (simp add: finalize_checkpoint_def root Let_def)
  show ?thesis
    by (rule exI [of _ st'], rule exI [of _ ?cp'], rule exI [of _ r], rule exI [of _ ds'], rule exI [of _ data])
      (use f a d in \<open>simp add: checkpoint_hash_def\<close>)
qed

lemma commit_finish_inv:
  assumes inv: "chain_inv invar nodes lib ch" and ready: "cp_ready lib ch cp0" and sha: "digest32 (ck_sha lib)"
    and len: "length (ch_checkpoints ch) < 2 ^ 61" and c: "commit_finish ops lib env cp0 ch = (ch', r)"
  shows "chain_inv invar nodes lib ch'"
proof (cases "ce_integrity env \<and> validate_timestamp cp0 = Inr ()")
  case False
  then have "ch' = ch" using c by (auto simp: commit_finish_def split: if_splits sum.splits)
  then show ?thesis using inv by simp
next
  case True
  let ?cp = "with_version cp0" and ?cps = "ch_checkpoints ch" and ?sha = "ck_sha lib"
  have ts: "validate_timestamp ?cp = Inr ()" using True same_core_ok(1) [OF with_version_core(1)] by simp
  have none: "cp_signature cp0 = None" "cp_mmr_inclusion_proof cp0 = None"
    using ready by (simp_all add: cp_ready_def Let_def)
  show ?thesis
  proof (cases "ch_mmr ch")
    case None
    let ?new = "?cp\<lparr>cp_hash := checkpoint_hash ?sha ?cp\<rparr>"
    have "ch\<lparr>ch_mmr := None\<rparr> = ch" using None by (simp add: chain.equality)
    moreover have "ch' = ch\<lparr>ch_checkpoints := ?cps @ [?new]\<rparr>"
      using c True None by (simp add: commit_finish_def Let_def)
    ultimately have ch': "ch' = ch\<lparr>ch_mmr := None, ch_checkpoints := ?cps @ [?new]\<rparr>" by simp
    have nop: "\<forall>cp \<in> set ?cps. cp_mmr_inclusion_proof cp = None"
      using inv None by (simp add: chain_inv_def mmr_inv_def)
    show ?thesis unfolding ch'
    proof (rule chain_inv_push [OF inv])
      show "checkpoint_ok lib (lenient (ch_metadata ch)) (length ?cps) (last_opt ?cps) ?new None"
        using True none with_version_core [of cp0]
        by (intro checkpoint_ok_new [OF ready]) (simp_all add: same_core_def checkpoint_hash_def mmr_ok_def)
      show "mmr_ok lib (last ?cps) (Some ?new)" if "?cps \<noteq> []" using nop that by (simp add: mmr_ok_def)
      show "mmr_inv invar nodes ?sha (?cps @ [?new]) None"
        using nop none with_version_core [of cp0] by (simp add: mmr_inv_def)
    qed
  next
    case (Some st)
    obtain ds where ds: "mmr_repr invar nodes ?sha ds st" "length ds \<le> length ?cps"
      and lastp: "?cps \<noteq> [] \<Longrightarrow> ds \<noteq> [] \<and> (\<exists>data p. cp_mmr_inclusion_proof (last ?cps) = Some data \<and>
          inclusion_deserialize data = Inr p \<and> inclusion_verify ?sha p (cp_hash (last ?cps)) = Inr () \<and>
          get_root ?sha st = Inr (ip_root p))"
      using inv Some by (auto simp: chain_inv_def mmr_inv_def)
    obtain st' cp' rr ds' data where
      f: "finalize_checkpoint ops ?sha ?cp st = (st', Inr (cp', rr))"
        "cp' = ?cp\<lparr>cp_mmr_root := cp_mmr_root cp', cp_hash := cp_hash cp'\<rparr>" "checkpoint_hash ?sha cp' = cp_hash cp'"
        "cp_mmr_root cp' = Some (if ds = [] then replicate 32 0 else bag_peaks ?sha (map node_hash (fpeaks ?sha (forest ds))))"
      and m: "mmr_repr invar nodes ?sha ds' st'" "ds' \<noteq> []" "length ds' \<le> length ds + 1"
      and p: "inclusion_serialize (append_proof rr) = Inr data" "inclusion_deserialize data = Inr (append_proof rr)"
        "inclusion_verify ?sha (append_proof rr) (cp_hash cp') = Inr ()" "get_root ?sha st' = Inr (ip_root (append_proof rr))"
      using finalize_ok [OF ds(1) sha _ ts] ds(2) len by auto
    let ?new = "cp'\<lparr>cp_mmr_inclusion_proof := Some data\<rparr>"
    have ch': "ch' = ch\<lparr>ch_mmr := Some st', ch_checkpoints := ?cps @ [?new]\<rparr>"
      using c True Some f(1) p(1) by (simp add: commit_finish_def Let_def)
    have core: "same_core ?new cp0" "cp_signature ?new = None"
      using with_version_core [of cp0] none(1) by (subst f(2), simp add: same_core_def)+
    show ?thesis unfolding ch'
    proof (rule chain_inv_push [OF inv])
      show "checkpoint_ok lib (lenient (ch_metadata ch)) (length ?cps) (last_opt ?cps) ?new None"
        using True core f(3) p by (intro checkpoint_ok_new [OF ready]) (simp_all add: checkpoint_hash_def mmr_ok_def)
      show "mmr_ok lib (last ?cps) (Some ?new)" if ne: "?cps \<noteq> []"
      proof -
        obtain data p where "ds \<noteq> []" "cp_mmr_inclusion_proof (last ?cps) = Some data"
          "inclusion_deserialize data = Inr p" "inclusion_verify ?sha p (cp_hash (last ?cps)) = Inr ()"
          "get_root ?sha st = Inr (ip_root p)"
          using lastp [OF ne] by blast
        then show ?thesis using repr_root [OF ds(1)] f(4) by (simp add: mmr_ok_def)
      qed
      show "mmr_inv invar nodes ?sha (?cps @ [?new]) (Some st')"
        using m p ds(2) by (auto simp: mmr_inv_def intro!: exI [of _ ds'])
    qed
  qed
qed

text \<open>A commit that fails leaves the chain and its MMR as they were.\<close>

lemma commit_finish_error:
  assumes inv: "chain_inv invar nodes lib ch" and sha: "digest32 (ck_sha lib)"
    and len: "length (ch_checkpoints ch) < 2 ^ 61" and c: "commit_finish ops lib env cp0 ch = (ch', Inl e)"
  shows "ch' = ch"
proof (cases "ce_integrity env \<and> validate_timestamp cp0 = Inr ()")
  case False
  then show ?thesis using c by (auto simp: commit_finish_def split: if_splits sum.splits)
next
  case True
  let ?cp = "with_version cp0"
  have ts: "validate_timestamp ?cp = Inr ()" using True same_core_ok(1) [OF with_version_core(1)] by simp
  show ?thesis
  proof (cases "ch_mmr ch")
    case None
    then show ?thesis using c True by (simp add: commit_finish_def Let_def)
  next
    case (Some st)
    obtain ds where ds: "mmr_repr invar nodes (ck_sha lib) ds st" "length ds \<le> length (ch_checkpoints ch)"
      using inv Some by (auto simp: chain_inv_def mmr_inv_def)
    obtain st' cp' rr data where "finalize_checkpoint ops (ck_sha lib) ?cp st = (st', Inr (cp', rr))"
      "inclusion_serialize (append_proof rr) = Inr data"
      using finalize_ok [OF ds(1) sha _ ts] ds(2) len by auto
    then show ?thesis using c True Some by (simp add: commit_finish_def Let_def)
  qed
qed

lemma commit_built_inv:
  assumes "chain_inv invar nodes lib ch" "digest32 (ck_sha lib)" "length (ch_checkpoints ch) < 2 ^ 61"
    and "\<And>cp. built = Inr cp \<Longrightarrow> cp_ready lib ch cp" "commit_built ops lib env built ch = (ch', r)"
  shows "chain_inv invar nodes lib ch'"
  using assms commit_finish_inv [OF assms(1) _ assms(2,3)] by (cases built) (auto simp: commit_built_def)

end

subsection \<open>Frames\<close>

lemma commit_finish_frame:
  assumes "commit_finish ops lib env cp ch = (ch', r)"
  shows "ch_metadata ch' = ch_metadata ch" "length (ch_checkpoints ch) \<le> length (ch_checkpoints ch')"
    "\<And>cp'. r = Inr cp' \<Longrightarrow> cp_argon2_swf cp' = cp_argon2_swf cp"
  using assms
  by (auto simp: commit_finish_def Let_def with_version_def finalize_checkpoint_def recompute_hash_def
    split: if_splits sum.splits option.splits prod.splits)

lemma commit_built_frame:
  assumes "commit_built ops lib env built ch = (ch', r)"
  shows "ch_metadata ch' = ch_metadata ch" "length (ch_checkpoints ch) \<le> length (ch_checkpoints ch')"
    "\<And>cp' cp. r = Inr cp' \<Longrightarrow> built = Inr cp \<Longrightarrow> cp_argon2_swf cp' = cp_argon2_swf cp"
  using assms commit_finish_frame by (cases built; fastforce simp: commit_built_def)+

text \<open>Every commit either leaves the chain or finishes what it built.\<close>

lemma commit_internal_built:
  assumes "commit_internal ops lib env message dur m ch = (ch', r)"
  shows "\<exists>built. commit_built ops lib env built ch = (ch', r) \<and>
    (\<forall>cp. built = Inr cp \<longrightarrow> (\<exists>h n. build_plain lib env message dur m h n ch = Inr cp))"
proof (cases "ce_open env \<and> ce_lock env \<and> ce_content env \<noteq> None")
  case True
  then obtain h n where "commit_built ops lib env (build_plain lib env message dur m h n ch) ch = (ch', r)"
    using assms by (auto simp: commit_internal_def with_document_def)
  then show ?thesis by blast
next
  case False
  then obtain e where "ch' = ch" "r = Inl e"
    using assms by (auto simp: commit_internal_def with_document_def split: if_splits option.splits)
  then show ?thesis by (intro exI [of _ "Inl e"]) (simp add: commit_built_def)
qed

lemma commit_entangled_built:
  assumes "commit_entangled ops lib env message jitter session keystrokes d physics ch = (ch', r)"
  shows "\<exists>built. commit_built ops lib env built ch = (ch', r) \<and>
    (\<forall>cp. built = Inr cp \<longrightarrow> md_entanglement_mode (ch_metadata ch) = Entangled \<and>
      (\<exists>h n. build_entangled lib env message jitter session keystrokes d physics h n ch = Inr cp))"
proof (cases "\<exists>e. commit_entangled ops lib env message jitter session keystrokes d physics ch = (ch, Inl e)")
  case True
  then obtain e where "ch' = ch" "r = Inl e" using assms by auto
  then show ?thesis by (intro exI [of _ "Inl e"]) (simp add: commit_built_def)
next
  case False
  then show ?thesis
    using assms by (auto simp: commit_entangled_def split: if_splits option.splits)
qed

lemma commit_rfc_built:
  assumes "commit_rfc ops lib env message d rj te calibration physics nonce ch = (ch', r)"
  shows "\<exists>built. commit_built ops lib env built ch = (ch', r) \<and>
    (\<forall>cp. built = Inr cp \<longrightarrow> (md_entanglement_mode (ch_metadata ch) = Entangled \<longrightarrow> rj \<noteq> None) \<and>
      (\<exists>h n. build_rfc lib env message d rj te calibration physics nonce h n ch = Inr cp))"
proof (cases "\<exists>e. commit_rfc ops lib env message d rj te calibration physics nonce ch = (ch, Inl e)")
  case True
  then obtain e where "ch' = ch" "r = Inl e" using assms by auto
  then show ?thesis by (intro exI [of _ "Inl e"]) (simp add: commit_built_def)
next
  case False
  then show ?thesis
    using assms by (auto simp: commit_rfc_def split: if_splits option.splits)
qed

lemma sign_last_frame:
  "ch_metadata (sign_last sig ch) = ch_metadata ch" "length (ch_checkpoints (sign_last sig ch)) = length (ch_checkpoints ch)"
  "ch_mmr (sign_last sig ch) = ch_mmr ch"
  by (simp_all add: sign_last_def)

lemma chain_inv_sign:
  assumes "chain_inv invar nodes lib ch" "length sig = 64"
  shows "chain_inv invar nodes lib (sign_last sig ch)"
proof (cases "ch_checkpoints ch" rule: rev_cases)
  case Nil
  then show ?thesis using assms by (simp add: sign_last_def)
next
  case (snoc cps cp)
  have "mmr_inv invar nodes (ck_sha lib) (cps @ [cp\<lparr>cp_signature := Some sig\<rparr>]) (ch_mmr ch) =
      mmr_inv invar nodes (ck_sha lib) (cps @ [cp]) (ch_mmr ch)"
    by (simp add: mmr_inv_def cong: option.case_cong)
  then show ?thesis
    using assms snoc chain_ok_sign [OF _ assms(2)] by (simp add: chain_inv_def sign_last_def)
qed

lemma chain_inv_last_vdf:
  assumes "chain_inv invar nodes lib ch" "md_entanglement_mode (ch_metadata ch) = Entangled"
    "last_opt (ch_checkpoints ch) = Some p"
  shows "cp_vdf p \<noteq> None"
proof -
  have ne: "ch_checkpoints ch \<noteq> []" and p: "p = last (ch_checkpoints ch)"
    using assms(3) by (auto simp: last_opt_def split: if_splits)
  obtain i prev nx where "checkpoint_ok lib (lenient (ch_metadata ch)) i prev p nx"
    using chain_ok_last [OF _ ne] assms(1) p unfolding chain_inv_def by blast
  then show ?thesis using assms(2) by (cases "cp_vdf p") (simp_all add: checkpoint_ok_def vdf_ok_def)
qed

context node_store
begin

lemma chain_run_inv:
  assumes "chain_run ops lib ch0 ch" "chain_inv invar nodes lib ch0" "digest32 (ck_sha lib)"
    and "length (ch_checkpoints ch) < 2 ^ 61"
  shows "chain_inv invar nodes lib ch \<and> ch_metadata ch = ch_metadata ch0"
  using assms(1,4)
proof (induction rule: chain_run.induct)
  case start
  then show ?case using assms(2) by simp
next
  case (plain ch env message dur m ch' r)
  obtain built where b: "commit_built ops lib env built ch = (ch', r)"
    "\<And>cp. built = Inr cp \<Longrightarrow> \<exists>h n. build_plain lib env message dur m h n ch = Inr cp"
    using commit_internal_built [OF plain.hyps(4)] by blast
  note f = commit_built_frame [OF b(1)]
  then have IH: "chain_inv invar nodes lib ch" "ch_metadata ch = ch_metadata ch0" "length (ch_checkpoints ch) < 2 ^ 61"
    using plain.IH plain.prems by auto
  have "chain_inv invar nodes lib ch'"
    using build_plain_ready [OF _ plain.hyps(2,3)] b(2) by (intro commit_built_inv [OF IH(1) assms(3) IH(3) _ b(1)]) blast
  then show ?case using f(1) IH(2) by simp
next
  case (entangled ch env message jitter session keystrokes d physics ch' r)
  obtain built where b: "commit_built ops lib env built ch = (ch', r)"
    "\<And>cp. built = Inr cp \<Longrightarrow> md_entanglement_mode (ch_metadata ch) = Entangled \<and>
      (\<exists>h n. build_entangled lib env message jitter session keystrokes d physics h n ch = Inr cp)"
    using commit_entangled_built [OF entangled.hyps(3)] by blast
  note f = commit_built_frame [OF b(1)]
  then have IH: "chain_inv invar nodes lib ch" "ch_metadata ch = ch_metadata ch0" "length (ch_checkpoints ch) < 2 ^ 61"
    using entangled.IH entangled.prems by auto
  have pos: "0 < min_iterations (md_vdf_params (ch_metadata ch))" using IH(1) by (simp add: chain_inv_def)
  have "chain_inv invar nodes lib ch'"
    using build_entangled_ready [OF _ _ entangled.hyps(2) pos] b(2)
    by (intro commit_built_inv [OF IH(1) assms(3) IH(3) _ b(1)]) blast
  then show ?case using f(1) IH(2) by simp
next
  case (rfc ch env message d rj te calibration physics nonce ch' r)
  obtain built where b: "commit_built ops lib env built ch = (ch', r)"
    "\<And>cp. built = Inr cp \<Longrightarrow> (md_entanglement_mode (ch_metadata ch) = Entangled \<longrightarrow> rj \<noteq> None) \<and>
      (\<exists>h n. build_rfc lib env message d rj te calibration physics nonce h n ch = Inr cp)"
    using commit_rfc_built [OF rfc.hyps(3)] by blast
  note f = commit_built_frame [OF b(1)]
  then have IH: "chain_inv invar nodes lib ch" "ch_metadata ch = ch_metadata ch0" "length (ch_checkpoints ch) < 2 ^ 61"
    using rfc.IH rfc.prems by auto
  have pos: "0 < min_iterations (md_vdf_params (ch_metadata ch))" using IH(1) by (simp add: chain_inv_def)
  have "chain_inv invar nodes lib ch'"
  proof (cases "\<exists>cp. r = Inr cp")
    case False
    then obtain e where "r = Inl e" by (cases r) auto
    then have "ch' = ch"
      using b(1) commit_finish_error [OF IH(1) assms(3) IH(3)] by (cases built) (auto simp: commit_built_def)
    then show ?thesis using IH(1) by simp
  next
    case True
    then obtain cp' where r: "r = Inr cp'" by blast
    have "cp_ready lib ch cp" if bc: "built = Inr cp" for cp
    proof -
      obtain h n where bl: "build_rfc lib env message d rj te calibration physics nonce h n ch = Inr cp"
        and j: "md_entanglement_mode (ch_metadata ch) = Entangled \<longrightarrow> rj \<noteq> None"
        using b(2) [OF bc] by blast
      have "first_leaf_sampled cp"
        using rfc.hyps(4) f(3) [OF r bc] by (simp add: first_leaf_sampled_def r)
      then show ?thesis
        using bl j rfc.hyps(2) pos assms(3) chain_inv_last_vdf [OF IH(1)] by (intro build_rfc_ready) auto
    qed
    then show ?thesis by (intro commit_built_inv [OF IH(1) assms(3) IH(3) _ b(1)]) blast
  qed
  then show ?case using f(1) IH(2) by simp
next
  case (sign ch sig)
  then show ?case using chain_inv_sign sign_last_frame by metis
qed

end

end
