(* ===== verification/Chk_Props.thy ===== *)
theory Chk_Props
  imports Chk_Correct
begin

text \<open>
  The properties of checkpoint chains: chains that are built by commits verify, a commit that
  fails changes nothing, and the hash of the last checkpoint fixes the history of a chain that
  verifies.
\<close>

subsection \<open>Shared lemmas\<close>

lemma mmr_in_memory_empty:
  assumes "checkpoint_mmr_in_memory = Inr m"
  shows "mmr_repr (\<lambda>_. True) ms_nodes sha [] m"
  using assms mem_repr_empty [of sha] by (auto simp: checkpoint_mmr_in_memory_def mmr_err_def)

lemma chain_inv_start:
  assumes "0 < min_iterations params" "m = None \<or> (\<exists>st. m = Some st \<and> mmr_repr invar nodes (ck_sha lib) [] st)"
  shows "chain_inv invar nodes lib
    ((with_signature_policy policy (chain_new_with_mode path doc now params mode))\<lparr>ch_mmr := m\<rparr>)"
  using assms by (auto simp: chain_inv_def mmr_inv_def with_signature_policy_def chain_new_with_mode_def)

text \<open>A new chain with a new MMR in memory, or without one.\<close>

definition fresh_chain ::
    "bytes \<Rightarrow> bytes \<Rightarrow> int \<Rightarrow> parameters \<Rightarrow> entanglement_mode \<Rightarrow> signature_policy \<Rightarrow> memory_store mmr option \<Rightarrow> memory_store chain" where
  "fresh_chain path doc now params mode policy m =
     (let ch = with_signature_policy policy (chain_new_with_mode path doc now params mode)
      in case m of None \<Rightarrow> ch | Some st \<Rightarrow> with_mmr st ch)"

lemma fresh_chain_inv:
  assumes "0 < min_iterations params" "\<forall>st. m = Some st \<longrightarrow> checkpoint_mmr_in_memory = Inr st"
  shows "chain_inv (\<lambda>_. True) ms_nodes lib (fresh_chain path doc now params mode policy m)"
proof -
  have "fresh_chain path doc now params mode policy m =
      (with_signature_policy policy (chain_new_with_mode path doc now params mode))\<lparr>ch_mmr := m\<rparr>"
    by (cases m) (simp_all add: fresh_chain_def with_mmr_def with_signature_policy_def chain_new_with_mode_def)
  moreover have "m = None \<or> (\<exists>st. m = Some st \<and> mmr_repr (\<lambda>_. True) ms_nodes (ck_sha lib) [] st)"
    using assms(2) mmr_in_memory_empty by (cases m) simp_all
  ultimately show ?thesis using chain_inv_start [OF assms(1)] by simp
qed

lemma fresh_chain_metadata:
  "md_signature_policy (ch_metadata (fresh_chain path doc now params mode policy m)) = policy"
  "md_entanglement_mode (ch_metadata (fresh_chain path doc now params mode policy m)) = mode"
  by (cases m; simp add: fresh_chain_def with_mmr_def with_signature_policy_def chain_new_with_mode_def)+

lemma chain_ok_nth:
  assumes "chain_ok lib md i prev cps" "k < length cps"
  shows "\<exists>nx. checkpoint_ok lib md (i + k) (if k = 0 then prev else Some (cps ! (k - 1))) (cps ! k) nx"
  using assms
proof (induction cps arbitrary: i prev k)
  case (Cons c cps)
  show ?case
  proof (cases k)
    case 0
    then show ?thesis using Cons.prems(1) by auto
  next
    case (Suc j)
    then show ?thesis using Cons.IH [of "i + 1" "Some c" j] Cons.prems by (cases j) auto
  qed
qed simp

lemma commit_finish_pushes:
  assumes "commit_finish ops lib env cp0 ch = (ch', Inr cp)"
  shows "ch_checkpoints ch' = ch_checkpoints ch @ [cp] \<and> ch_metadata ch' = ch_metadata ch \<and> same_core cp cp0"
  using assms
  by (auto simp: commit_finish_def Let_def with_version_def finalize_checkpoint_def recompute_hash_def same_core_def
    split: if_splits sum.splits option.splits prod.splits)

subsection \<open>Commits\<close>

lemma fresh_run_verifies:
  assumes "chain_run memory_ops lib (fresh_chain path doc now params mode policy m) ch"
    and "\<forall>st. m = Some st \<longrightarrow> checkpoint_mmr_in_memory = Inr st"
    and "0 < min_iterations params" "digest32 (ck_sha lib)"
    and "ch_checkpoints ch \<noteq> []" "length (ch_checkpoints ch) < 2 ^ 61"
    and "policy = Optional \<or> (\<forall>cp \<in> set (ch_checkpoints ch). cp_signature cp \<noteq> None)"
  shows "chain_verify lib ch = Some (Inr ())"
proof -
  note inv = mem.chain_run_inv [OF assms(1) fresh_chain_inv [OF assms(3,2)] assms(4,6)]
  then have policy: "md_signature_policy (ch_metadata ch) = policy" by (simp only: fresh_chain_metadata(1))
  from inv have "chain_ok lib (lenient (ch_metadata ch)) 0 None (ch_checkpoints ch)" unfolding chain_inv_def by blast
  then have "chain_ok lib (ch_metadata ch) 0 None (ch_checkpoints ch)"
    using assms(7) unfolding policy [symmetric] by (rule chain_ok_strict)
  then show ?thesis using assms(5) by (simp only: chain_verify_iff simp_thms)
qed


text \<open>For the witnesses: a library with the hash of \<open>toy_sha\<close>, and a commit at the time \<open>t\<close>.\<close>

definition toy_chk :: chk_lib where
  "toy_chk = \<lparr>ck_sha = toy_sha, ck_rate = \<lambda>_ _. 0, ck_swf = toy_lib 0, ck_cbor_ref = \<lambda>_. Some [],
     ck_cbor_nat = \<lambda>_. Some [], ck_cbor_bytes = \<lambda>_. Some [], ck_hex = \<lambda>b. b\<rparr>"

definition toy_vdf_params :: parameters where
  "toy_vdf_params = \<lparr>iterations_per_second = 1, min_iterations = 1, max_iterations = 10\<rparr>"

lemma toy_vdf_min: "min_iterations toy_vdf_params = 1"
  by (simp add: toy_vdf_params_def)

definition toy_env :: "int \<Rightarrow> commit_env" where
  "toy_env t = \<lparr>ce_open = True, ce_lock = True, ce_content = Some (replicate 32 7, 5), ce_now = t,
     ce_elapsed = 0, ce_swf_elapsed = 0, ce_integrity = True\<rparr>"

lemma toy_env_simps:
  "ce_open (toy_env t)" "ce_lock (toy_env t)" "ce_content (toy_env t) = Some (replicate 32 7, 5)"
  by (simp_all add: toy_env_def)

definition toy_chain :: "entanglement_mode \<Rightarrow> signature_policy \<Rightarrow> memory_store chain" where
  "toy_chain mode policy = fresh_chain [1] [2] 0 toy_vdf_params mode policy None"

lemma toy_chain_simps:
  "ch_mmr (toy_chain mode policy) = None" "md_vdf_params (ch_metadata (toy_chain mode policy)) = toy_vdf_params"
  "ch_checkpoints (toy_chain mode policy) = []" "md_entanglement_mode (ch_metadata (toy_chain mode policy)) = mode"
  by (simp_all add: toy_chain_def fresh_chain_def with_signature_policy_def chain_new_with_mode_def)

lemma small_regression:
  "cp_timestamp p - t < 3000000000 \<Longrightarrow> \<not> 0 \<le> t - cp_timestamp p \<Longrightarrow>
   \<not> MAX_CLOCK_DRIFT_SECS < \<bar>num_seconds (t - cp_timestamp p)\<bar>"
  unfolding num_seconds_def MAX_CLOCK_DRIFT_SECS_def by (simp; linarith)

lemma toy_commit_ok:
  assumes "ch_mmr ch = None" "md_vdf_params (ch_metadata ch) = toy_vdf_params" "0 \<le> t" "t < 2 ^ 63"
    and "\<forall>p. last_opt (ch_checkpoints ch) = Some p \<longrightarrow> cp_timestamp p - t < 3000000000"
  shows "\<exists>cp. commit_internal memory_ops toy_chk (toy_env t) None None 1 ch =
      (ch\<lparr>ch_checkpoints := ch_checkpoints ch @ [cp]\<rparr>, Inr cp) \<and> cp_timestamp cp = t \<and>
      cp_signature cp = None \<and> (ch_checkpoints ch = [] \<longrightarrow> checkpoint_typed cp)"
proof -
  obtain h where h: "next_previous_hash toy_chk (replicate 32 7) 5 ch = Inr h" "ch_checkpoints ch = [] \<longrightarrow> length h = 32"
    by (cases "last_opt (ch_checkpoints ch)")
      (auto simp: next_previous_hash_def genesis_prev_hash_def document_ref_cbor_def toy_chk_def toy_sha_def last_opt_def
        split: if_splits)
  obtain d where d: "commit_duration t None (last_opt (ch_checkpoints ch)) (length (ch_checkpoints ch)) = Inr d"
  proof (cases "last_opt (ch_checkpoints ch)")
    case None
    then show ?thesis by (intro that [of 0]) (simp add: last_opt_def commit_duration_def split: if_splits)
  next
    case (Some p)
    then have "ch_checkpoints ch \<noteq> []" by (auto simp: last_opt_def)
    then show ?thesis using Some assms(5) small_regression [of p t]
      by (intro that [of "nat (max 0 (t - cp_timestamp p))"]) (auto simp: commit_duration_def Let_def)
  qed
  have "\<exists>v. vdf_compute toy_sha (\<lambda>_ _. 0) x y toy_vdf_params 0 = Inr v" for x y
    by (simp add: vdf_compute_def toy_vdf_params_def)
  then obtain v where v: "vdf_compute (ck_sha toy_chk) (ck_rate toy_chk)
      (chain_input (ck_sha toy_chk) (replicate 32 7) h (length (ch_checkpoints ch))) d
      (scaled_params 1 (md_vdf_params (ch_metadata ch))) (ce_elapsed (toy_env t)) = Inr v"
    by (auto simp: toy_chk_def toy_env_def scaled_params_def assms(2))
  let ?cp = "(new_base t (length (ch_checkpoints ch)) h (replicate 32 7) 5 None)\<lparr>cp_vdf := Some v\<rparr>"
  have b: "build_plain toy_chk (toy_env t) None None 1 (replicate 32 7) 5 ch = Inr ?cp"
    using h(1) d v by (simp add: build_plain_def Let_def assms(2) toy_vdf_params_def toy_env_def vdf_err_def)
  have "validate_timestamp ?cp = Inr ()" using assms(3,4) by (simp add: validate_timestamp_iff new_base_def)
  then show ?thesis
    using assms(1) b h(2)
    by (simp add: commit_internal_def with_document_def toy_env_def commit_built_def commit_finish_def Let_def
      with_version_def new_base_def checkpoint_typed_def)
qed


text \<open>In the same setting, a chain without an MMR or with one in memory, a commit of any kind
  that returns an error leaves the chain, its checkpoints and its MMR exactly as they were.
  With an MMR in a file this fails (\<open>Chk_File\<close>).\<close>

theorem chain_failed_commit_unchanged:
  assumes "chain_run memory_ops lib (fresh_chain path doc now params mode policy m) ch"
    and "\<forall>st. m = Some st \<longrightarrow> checkpoint_mmr_in_memory = Inr st"
    and "0 < min_iterations params" "digest32 (ck_sha lib)" "length (ch_checkpoints ch) < 2 ^ 61"
    and "commit_internal memory_ops lib env message dur k ch = (ch', Inl e) \<or>
      commit_entangled memory_ops lib env message jitter session keystrokes d physics ch = (ch', Inl e) \<or>
      commit_rfc memory_ops lib env message d rj te calibration physics nonce ch = (ch', Inl e)"
  shows "ch' = ch"
proof -
  have inv: "chain_inv (\<lambda>_. True) ms_nodes lib ch"
    using mem.chain_run_inv [OF assms(1) fresh_chain_inv [OF assms(3,2)] assms(4,5)] by blast
  obtain built where "commit_built memory_ops lib env built ch = (ch', Inl e)"
    using assms(6)
  proof (elim disjE)
    assume "commit_internal memory_ops lib env message dur k ch = (ch', Inl e)"
    from commit_internal_built [OF this] show thesis by (elim exE conjE) (rule that)
  next
    assume "commit_entangled memory_ops lib env message jitter session keystrokes d physics ch = (ch', Inl e)"
    from commit_entangled_built [OF this] show thesis by (elim exE conjE) (rule that)
  next
    assume "commit_rfc memory_ops lib env message d rj te calibration physics nonce ch = (ch', Inl e)"
    from commit_rfc_built [OF this] show thesis by (elim exE conjE) (rule that)
  qed
  then show ?thesis
    using mem.commit_finish_error [OF inv assms(4,5)] by (cases built) (auto simp: commit_built_def)
qed

theorem chain_failed_commit_unchanged_witness:
  "commit_internal memory_ops toy_chk ((toy_env 0)\<lparr>ce_integrity := False\<rparr>) None None 1 (toy_chain Legacy Required) =
     (toy_chain Legacy Required, Inl IntegrityCheck)"
proof -
  obtain cp where b: "build_plain toy_chk (toy_env 0) None None 1 (replicate 32 7) 5 (toy_chain Legacy Required) = Inr cp"
    using toy_commit_ok [OF toy_chain_simps(1,2), of 0 Legacy Required]
    by (auto simp: toy_chain_simps(3) last_opt_def commit_internal_def with_document_def toy_env_def commit_built_def
      split: sum.splits)
  then have "build_plain toy_chk ((toy_env 0)\<lparr>ce_integrity := False\<rparr>) None None 1 (replicate 32 7) 5
      (toy_chain Legacy Required) = Inr cp"
    unfolding build_plain_def toy_env_def commit_env.simps .
  then obtain ch' where c: "commit_internal memory_ops toy_chk ((toy_env 0)\<lparr>ce_integrity := False\<rparr>) None None 1
      (toy_chain Legacy Required) = (ch', Inl IntegrityCheck)"
    by (simp add: commit_internal_def with_document_def toy_env_simps commit_built_def commit_finish_def)
  have "ch' = toy_chain Legacy Required"
    by (rule chain_failed_commit_unchanged [OF chain_run.start [of memory_ops toy_chk "toy_chain Legacy Required",
          unfolded toy_chain_def], folded toy_chain_def, OF _ _ _ _ disjI1 [OF c]])
      (simp_all add: toy_vdf_min toy_chk_def toy_chain_simps)
  with c show ?thesis by simp
qed

text \<open>Two commits that succeed make a chain that can no longer verify: a plain commit on an
  entangled chain, which carries no jitter binding, and a commit after the clock went back by
  two seconds, which the tolerance of the commit lets through and that of the verifier does
  not.\<close>

theorem commit_unverifiable:
  assumes "commit_internal ops lib env message dur k ch = (ch', Inr cp)"
    and "md_entanglement_mode (ch_metadata ch) = Entangled \<or>
      (\<exists>p. last_opt (ch_checkpoints ch) = Some p \<and> 2000000000 \<le> cp_timestamp p - ce_now env)"
  shows "chain_verify lib ch' \<noteq> Some (Inr ())"
proof -
  obtain built where b: "commit_built ops lib env built ch = (ch', Inr cp)"
    "\<And>cp. built = Inr cp \<Longrightarrow> \<exists>h n. build_plain lib env message dur k h n ch = Inr cp"
    using commit_internal_built [OF assms(1)] by blast
  obtain cp0 h n where built: "built = Inr cp0" "build_plain lib env message dur k h n ch = Inr cp0"
    using b by (cases built) (auto simp: commit_built_def)
  then have new: "cp_jitter_binding cp0 = None" "cp_timestamp cp0 = ce_now env" "cp_vdf cp0 \<noteq> None"
    by (auto simp: build_plain_def Let_def res_bind_Inr_iff new_base_def split: if_splits)
  have c: "commit_finish ops lib env cp0 ch = (ch', Inr cp)" using b(1) built by (simp add: commit_built_def)
  have f: "ch_checkpoints ch' = ch_checkpoints ch @ [cp]" "ch_metadata ch' = ch_metadata ch" "same_core cp cp0"
    using commit_finish_pushes [OF c] by auto
  show ?thesis
  proof
    assume v: "chain_verify lib ch' = Some (Inr ())"
    let ?k = "length (ch_checkpoints ch)"
    have "\<exists>nx. checkpoint_ok lib (ch_metadata ch) ?k (last_opt (ch_checkpoints ch)) cp nx"
      using chain_ok_nth [of lib "ch_metadata ch'" 0 None "ch_checkpoints ch'" ?k] v f(1,2)
      by (auto simp: chain_verify_iff last_opt_def last_conv_nth nth_append)
    then show False
      using assms(2) new f(3) by (auto simp: checkpoint_ok_def same_core_def vdf_ok_def clock_ok_def)
  qed
qed

subsection \<open>History\<close>

text \<open>What the verifier checks at position \<open>k\<close>.\<close>

lemma verified_nth:
  assumes "chain_verify lib ch = Some (Inr ())" "k < length (ch_checkpoints ch)"
  shows "validate_timestamp (ch_checkpoints ch ! k) = Inr ()" "cp_ordinal (ch_checkpoints ch ! k) = k"
    "ck_sha lib (checkpoint_preimage (ch_checkpoints ch ! k)) = cp_hash (ch_checkpoints ch ! k)"
    "0 < k \<Longrightarrow> cp_previous_hash (ch_checkpoints ch ! k) = cp_hash (ch_checkpoints ch ! (k - 1))"
  using chain_ok_nth [of lib "ch_metadata ch" 0 None "ch_checkpoints ch" k] assms
  by (auto simp: chain_verify_iff checkpoint_ok_def link_ok_def checkpoint_hash_def split: if_splits)

definition same_bound :: "checkpoint \<Rightarrow> checkpoint \<Rightarrow> bool" where
  "same_bound a b \<longleftrightarrow> cp_hash a = cp_hash b \<and> hash_version a = hash_version b \<and> cp_ordinal a = cp_ordinal b \<and>
     cp_previous_hash a = cp_previous_hash b \<and> cp_content_hash a = cp_content_hash b \<and>
     cp_content_size a = cp_content_size b \<and> cp_timestamp a = cp_timestamp b"

lemma equal_hash_same_bound:
  assumes v: "chain_verify lib ch = Some (Inr ())" "chain_verify lib ch' = Some (Inr ())"
    and ty: "\<forall>cp \<in> set (ch_checkpoints ch) \<union> set (ch_checkpoints ch'). checkpoint_typed cp"
    and inj: "inj_on (ck_sha lib) (checkpoint_preimage ` (set (ch_checkpoints ch) \<union> set (ch_checkpoints ch')))"
    and i: "i < length (ch_checkpoints ch)" "j < length (ch_checkpoints ch')" "cp_hash (ch_checkpoints ch ! i) = cp_hash (ch_checkpoints ch' ! j)"
  shows "same_bound (ch_checkpoints ch ! i) (ch_checkpoints ch' ! j)"
proof -
  let ?a = "ch_checkpoints ch ! i" and ?b = "ch_checkpoints ch' ! j"
  have mem: "?a \<in> set (ch_checkpoints ch)" "?b \<in> set (ch_checkpoints ch')" using i by auto
  have ty': "checkpoint_typed ?a" "checkpoint_typed ?b" using mem ty by blast+
  have "ck_sha lib (checkpoint_preimage ?a) = ck_sha lib (checkpoint_preimage ?b)"
    by (simp only: verified_nth(3) [OF v(1) i(1)] verified_nth(3) [OF v(2) i(2)] i(3))
  then have "checkpoint_preimage ?a = checkpoint_preimage ?b"
    by (rule inj_onD [OF inj]) (use mem in blast)+
  from preimage_fields [OF this ty' verified_nth(1) [OF v(1) i(1)] verified_nth(1) [OF v(2) i(2)]]
  show ?thesis using i(3) by (simp only: same_bound_def simp_thms)
qed

text \<open>A property of the last index that passes to the predecessor holds of all.\<close>

lemma down_from_last:
  assumes "P n" "\<And>k. k + 1 \<le> n \<Longrightarrow> P (k + 1) \<Longrightarrow> P k" "i \<le> n"
  shows "P (i :: nat)"
  using assms(3,1,2) by (induction rule: inc_induct) auto

text \<open>C7: Two chains that verify and whose last checkpoints have the same hash have the same
  length, and their checkpoints agree, one by one, on hash, version, ordinal, link, content
  hash and size and time, unless SHA-256 collides on the data they hash.\<close>

theorem chain_history_fixed:
  assumes "chain_verify lib ch = Some (Inr ())" "chain_verify lib ch' = Some (Inr ())"
    and "cp_hash (last (ch_checkpoints ch)) = cp_hash (last (ch_checkpoints ch'))"
    and "\<forall>cp \<in> set (ch_checkpoints ch) \<union> set (ch_checkpoints ch'). checkpoint_typed cp"
    and "inj_on (ck_sha lib) (checkpoint_preimage ` (set (ch_checkpoints ch) \<union> set (ch_checkpoints ch')))"
  shows "list_all2 same_bound (ch_checkpoints ch) (ch_checkpoints ch')"
proof -
  let ?a = "ch_checkpoints ch" and ?b = "ch_checkpoints ch'"
  note step = equal_hash_same_bound [OF assms(1,2,4,5)]
  have ne: "?a \<noteq> []" "?b \<noteq> []" using assms(1,2) by (auto simp: chain_verify_iff)
  let ?n = "length ?a - 1" and ?m = "length ?b - 1"
  have same: "same_bound (?a ! ?n) (?b ! ?m)" using assms(3) ne by (intro step) (auto simp: last_conv_nth)
  then have nm: "?n = ?m"
    using verified_nth(2) [OF assms(1), of ?n] verified_nth(2) [OF assms(2), of ?m] ne by (auto simp: same_bound_def)
  then have len: "length ?a = length ?b" using ne by (cases ?a; cases ?b) auto
  have "same_bound (?a ! i) (?b ! i)" if "i < length ?a" for i
  proof (rule down_from_last [where n = ?n])
    show "same_bound (?a ! ?n) (?b ! ?n)" using same nm by simp
  next
    fix k assume k: "k + 1 \<le> ?n" and s: "same_bound (?a ! (k + 1)) (?b ! (k + 1))"
    have "cp_previous_hash (?a ! (k + 1)) = cp_previous_hash (?b ! (k + 1))" using s by (simp add: same_bound_def)
    then have "cp_hash (?a ! k) = cp_hash (?b ! k)"
      using verified_nth(4) [OF assms(1), of "k + 1"] verified_nth(4) [OF assms(2), of "k + 1"] k len by simp
    then show "same_bound (?a ! k) (?b ! k)" using step k len by simp
  qed (use that in simp)
  then show ?thesis using len by (simp add: list_all2_conv_all_nth)
qed

text \<open>One plain commit, and the same checkpoint signed.\<close>

lemma toy_one:
  assumes "0 \<le> t" "t < 2 ^ 63"
  obtains cp where "cp_timestamp cp = t" "cp_signature cp = None" "checkpoint_typed cp"
    "chain_verify toy_chk ((toy_chain Legacy Optional)\<lparr>ch_checkpoints := [cp]\<rparr>) = Some (Inr ())"
    "chain_verify toy_chk ((toy_chain Legacy Optional)\<lparr>ch_checkpoints := [cp\<lparr>cp_signature := Some (replicate 64 0)\<rparr>]\<rparr>) =
       Some (Inr ())"
proof -
  let ?start = "toy_chain Legacy Optional"
  note start = toy_chain_simps [of Legacy Optional]
  obtain cp where cp: "commit_internal memory_ops toy_chk (toy_env t) None None 1 ?start =
      (?start\<lparr>ch_checkpoints := [cp]\<rparr>, Inr cp)" "cp_timestamp cp = t" "checkpoint_typed cp" "cp_signature cp = None"
    using toy_commit_ok [OF start(1,2) assms] by (auto simp: start last_opt_def)
  let ?one = "?start\<lparr>ch_checkpoints := [cp]\<rparr>"
  have run: "chain_run memory_ops toy_chk ?start ?one"
    by (rule chain_run.plain [OF chain_run.start start(4) _ cp(1)]) (simp add: clock_fine_def start(3) last_opt_def)
  have v: "chain_verify toy_chk ch = Some (Inr ())"
    if "chain_run memory_ops toy_chk ?start ch" "length (ch_checkpoints ch) = 1" for ch
    by (rule fresh_run_verifies [OF that(1) [unfolded toy_chain_def]])
      (use that(2) in \<open>auto simp: toy_vdf_min toy_chk_def\<close>)
  have "sign_last (replicate 64 0) ?one = ?start\<lparr>ch_checkpoints := [cp\<lparr>cp_signature := Some (replicate 64 0)\<rparr>]\<rparr>"
    by (simp add: sign_last_def)
  with chain_run.sign [OF run, of "replicate 64 0"] v [of "sign_last (replicate 64 0) ?one"] v [OF run] cp
  show thesis by (intro that [of cp]) (simp_all add: sign_last_def)
qed

theorem commit_unverifiable_witness:
  "(\<exists>ch ch' cp. commit_internal memory_ops toy_chk (toy_env 0) None None 1 ch = (ch', Inr cp) \<and>
      ch_checkpoints ch = [] \<and> chain_verify toy_chk ch' \<noteq> Some (Inr ())) \<and>
   (\<exists>ch ch' cp. chain_verify toy_chk ch = Some (Inr ()) \<and>
      commit_internal memory_ops toy_chk (toy_env 0) None None 1 ch = (ch', Inr cp) \<and>
      chain_verify toy_chk ch' \<noteq> Some (Inr ()))"
proof (rule conjI)
  obtain ch' cp where c: "commit_internal memory_ops toy_chk (toy_env 0) None None 1 (toy_chain Entangled Optional) = (ch', Inr cp)"
    using toy_commit_ok [OF toy_chain_simps(1,2) [of Entangled Optional], of 0] by (auto simp: toy_chain_simps last_opt_def)
  have "chain_verify toy_chk ch' \<noteq> Some (Inr ())"
    by (rule commit_unverifiable [OF c]) (simp add: toy_chain_simps)
  with c show "\<exists>ch ch' cp. commit_internal memory_ops toy_chk (toy_env 0) None None 1 ch = (ch', Inr cp) \<and>
      ch_checkpoints ch = [] \<and> chain_verify toy_chk ch' \<noteq> Some (Inr ())" using toy_chain_simps(3) by blast
next
  obtain p where p: "cp_timestamp p = 2500000000"
    "chain_verify toy_chk ((toy_chain Legacy Optional)\<lparr>ch_checkpoints := [p]\<rparr>) = Some (Inr ())"
    by (rule toy_one [of 2500000000]) auto
  let ?ch = "(toy_chain Legacy Optional)\<lparr>ch_checkpoints := [p]\<rparr>"
  obtain ch' cp where c: "commit_internal memory_ops toy_chk (toy_env 0) None None 1 ?ch = (ch', Inr cp)"
    using toy_commit_ok [of ?ch 0] p(1) by (auto simp: toy_chain_simps last_opt_def)
  have "chain_verify toy_chk ch' \<noteq> Some (Inr ())"
    by (rule commit_unverifiable [OF c]) (simp add: last_opt_def p(1) toy_env_def)
  with c p(2) show "\<exists>ch ch' cp. chain_verify toy_chk ch = Some (Inr ()) \<and>
      commit_internal memory_ops toy_chk (toy_env 0) None None 1 ch = (ch', Inr cp) \<and>
      chain_verify toy_chk ch' \<noteq> Some (Inr ())" by blast
qed

theorem chain_history_fixed_witness:
  "\<exists>ch ch' :: memory_store chain. ch \<noteq> ch' \<and> chain_verify toy_chk ch = Some (Inr ()) \<and>
     chain_verify toy_chk ch' = Some (Inr ()) \<and> list_all2 same_bound (ch_checkpoints ch) (ch_checkpoints ch')"
proof -
  obtain cp where cp: "checkpoint_typed cp" "cp_signature cp = None"
    "chain_verify toy_chk ((toy_chain Legacy Optional)\<lparr>ch_checkpoints := [cp]\<rparr>) = Some (Inr ())"
    "chain_verify toy_chk ((toy_chain Legacy Optional)\<lparr>ch_checkpoints := [cp\<lparr>cp_signature := Some (replicate 64 0)\<rparr>]\<rparr>) =
       Some (Inr ())"
    by (rule toy_one [of 0]) auto
  let ?a = "(toy_chain Legacy Optional)\<lparr>ch_checkpoints := [cp]\<rparr>"
  let ?b = "(toy_chain Legacy Optional)\<lparr>ch_checkpoints := [cp\<lparr>cp_signature := Some (replicate 64 0)\<rparr>]\<rparr>"
  have "list_all2 same_bound (ch_checkpoints ?a) (ch_checkpoints ?b)"
    by (rule chain_history_fixed [OF cp(3,4)]) (use cp(1) in \<open>simp_all add: checkpoint_typed_def\<close>)
  moreover have "cp_signature (hd (ch_checkpoints ?a)) \<noteq> cp_signature (hd (ch_checkpoints ?b))" using cp(2) by simp
  then have "?a \<noteq> ?b" by metis
  ultimately show ?thesis using cp(3,4) by blast
qed

end
