(* ===== verification/Key_Props.thy ===== *)
theory Key_Props
  imports Key_Correct Chk_Props
begin

text \<open>
  The properties of the key hierarchy: the evidence of a session verifies, a session survives
  its recovery, exactly under which conditions, the chain that a session signs verifies as a
  whole, and signing the metadata of a chain breaks the session.
\<close>

subsection \<open>Shared lemmas\<close>

lemma start_session_key:
  assumes "start_session lib sid t puf h = Inr s0"
  obtains sk where "derive_signing_key lib puf = Inr sk" "start_session_inner lib sid t sk h = Inr s0"
  using assms by (auto simp: start_session_def derive_master_private_key_def res_bind_Inr_iff)

lemma session_certificate_of_run:
  assumes "key_lib_ok lib" "start_session lib sid t puf h = Inr s0" "same_signed (se_certificate s) (se_certificate s0)"
  shows "verify_session_certificate lib now (se_certificate s) = Inr () \<longleftrightarrow> now \<le> t + 24 * nanos_per_hour"
    "derive_master_identity lib t' puf = Inr identity \<Longrightarrow>
       mi_public_key identity = sc_master_pubkey (se_certificate s) \<and>
       mi_fingerprint identity = fingerprint_for_public_key lib (mi_public_key identity) \<and> length (mi_public_key identity) = 32"
proof -
  obtain sk where sk: "derive_signing_key lib puf = Inr sk" "start_session_inner lib sid t sk h = Inr s0"
    by (rule start_session_key [OF assms(2)])
  note c0 = start_session_cert [OF sk(2) assms(1)]
  have "sc_expires_at (se_certificate s) = Some (t + 24 * nanos_per_hour)"
    using assms(3) c0 by (simp add: same_signed_def)
  then have "verify_session_certificate lib now (se_certificate s) = Inr () \<Longrightarrow> now \<le> t + 24 * nanos_per_hour"
    by (simp add: verify_session_certificate_def split: if_splits)
  then show "verify_session_certificate lib now (se_certificate s) = Inr () \<longleftrightarrow> now \<le> t + 24 * nanos_per_hour"
    using verify_certificate_signed [OF assms(3)] c0(8) by auto
  show "mi_public_key identity = sc_master_pubkey (se_certificate s) \<and>
       mi_fingerprint identity = fingerprint_for_public_key lib (mi_public_key identity) \<and> length (mi_public_key identity) = 32"
    if "derive_master_identity lib t' puf = Inr identity"
    using that sk(1) assms(3) c0(3) assms(1)
    by (auto simp: derive_master_identity_def Let_def same_signed_def fingerprint_for_public_key_def key_lib_ok_def)
qed

lemma start_session_run_inv:
  assumes "key_lib_ok lib" "start_session lib sid t puf h = Inr s0" "session_run lib puf s0 es s"
  shows "run_inv lib (se_certificate s0) es s"
proof -
  obtain sk where "start_session_inner lib sid t sk h = Inr s0" by (rule start_session_key [OF assms(2)])
  from session_run_inv [OF assms(3) start_session_cert(2) [OF this assms(1)] assms(1)] show ?thesis .
qed

lemma run_session_inv:
  assumes "run_inv lib cert es s" "Metadata_Signed \<notin> set es" "sorted (counters (se_signatures s))"
  shows "session_inv lib cert s"
proof -
  have "\<not> late es" using assms(2) late_metadata by blast
  then have p: "positions es = [0..<length (positions es)]" "verify_checkpoint_signatures lib (se_signatures s) = Inr ()"
    using positions_row run_signatures_iff [OF assms(1)] assms(3) by blast+
  have "length (positions es) = length (se_signatures s)" using assms(1) by (metis run_inv_def length_map)
  then show ?thesis using assms(1,2) p all_positions [of es] by (simp add: run_inv_def session_inv_def)
qed

lemma consistent_keys: "verify_ratchet_key_consistency (export_evidence lib identity s) = Inr ()"
proof -
  have "\<not> list_ex (\<lambda>(k, sig). k \<noteq> cs_public_key sig) (zip (map cs_public_key sigs) sigs)" for sigs
    by (induction sigs) simp_all
  then show ?thesis by (simp add: verify_ratchet_key_consistency_def export_evidence_def Let_def)
qed

lemma evidence_iff:
  assumes "key_lib_ok lib" "start_session lib sid t puf h = Inr s0" "same_signed (se_certificate s) (se_certificate s0)"
    and "derive_master_identity lib t' puf = Inr identity"
  shows "verify_key_hierarchy lib now (export_evidence lib identity s) = Inr () \<longleftrightarrow>
    now \<le> t + 24 * nanos_per_hour \<and> verify_checkpoint_signatures lib (se_signatures s) = Inr ()"
proof -
  note c = session_certificate_of_run [OF assms(1-3)]
  have ids: "mi_public_key identity = sc_master_pubkey (se_certificate s)"
    "mi_fingerprint identity = fingerprint_for_public_key lib (mi_public_key identity)" "mi_public_key identity \<noteq> []"
    using c(2) [OF assms(4)] by auto
  have "verify_key_hierarchy lib now (export_evidence lib identity s) =
      res_bind (verify_session_certificate lib now (se_certificate s)) (\<lambda>_. verify_checkpoint_signatures lib (se_signatures s))"
    using ids consistent_keys [of lib identity s] by (simp add: verify_key_hierarchy_def export_evidence_def Let_def)
  then show ?thesis using c(1) [of now] by (auto simp: res_bind_Inr_iff)
qed

lemma sign_checkpoint_total:
  assumes "session_inv klib cert s" "key_lib_ok klib" "\<not> rs_wiped (se_ratchet s)" "length (se_signatures s) + 1 < 2 ^ 64"
  obtains s' sig where "sign_checkpoint klib h s = (s', Inr sig)"
proof -
  obtain sg nx where r: "ratchet_signature klib h h None None (rs_ordinal (se_ratchet s)) (rs_current (se_ratchet s)) = Inr (sg, nx)"
    by (rule ratchet_signature_valid [OF assms(2)])
  have "rs_ordinal (se_ratchet s) + 1 < 2 ^ 64" using assms(1,4) by (simp add: session_inv_def)
  then show thesis
    using r assms(3) by (intro that) (simp add: sign_checkpoint_def push_signature_def advance_ratchet_def Let_def)
qed

text \<open>For the witnesses: keys are constant, a signature carries the sum of the message, sealing
  appends a tag.\<close>

definition toy_keys :: key_lib where
  "toy_keys = \<lparr>kl_sha = toy_sha, kl_hkdf = \<lambda>_ _ _ n. Some (replicate n 1), kl_pub = \<lambda>_. replicate 32 3,
     kl_sign = \<lambda>_ m. replicate 64 (sum_list m), kl_vk_ok = \<lambda>k. length k = 32,
     kl_verify = \<lambda>_ m s. s = replicate 64 (sum_list m),
     kl_seal = \<lambda>_ _ _ m. Some (m @ replicate 16 0), kl_unseal = \<lambda>_ _ _ c. Some (take (length c - 16) c),
     kl_hex = \<lambda>b. b, kl_rfc3339 = \<lambda>_. []\<rparr>"

definition toy_puf :: puf_provider where
  "toy_puf = \<lparr>puf_response = \<lambda>_. Inr [1], puf_device_id = [9]\<rparr>"

lemma toy_keys_ok: "key_lib_ok toy_keys" "aead_ok toy_keys"
  by (simp_all add: key_lib_ok_def aead_ok_def toy_keys_def toy_sha_def)

lemma toy_session:
  obtains s where "start_session toy_keys (replicate 32 4) 0 toy_puf (replicate 32 7) = Inr s"
  by (simp add: start_session_def derive_master_private_key_def derive_signing_key_def toy_puf_def hkdf_expand_def
    hkdf_sha256_def toy_keys_def start_session_inner_def Let_def)

lemma toy_identity: "\<exists>identity. derive_master_identity toy_keys 0 toy_puf = Inr identity"
  by (simp add: derive_master_identity_def derive_signing_key_def toy_puf_def hkdf_expand_def
    hkdf_sha256_def toy_keys_def Let_def)

text \<open>A session with one signature.\<close>

lemma sorted_one: "sorted (counters [sig])"
  by (simp add: counters_def List.map_filter_simps split: option.splits)

lemma toy_signed:
  assumes "start_session toy_keys (replicate 32 4) 0 toy_puf (replicate 32 7) = Inr s0"
  obtains s sig where "session_run toy_keys toy_puf s0 [Checkpoint_Signed] s" "se_signatures s = [sig]" "\<not> rs_wiped (se_ratchet s)"
    "session_inv toy_keys (se_certificate s0) s" "se_export_count s = 0"
proof -
  obtain sk where sk: "start_session_inner toy_keys (replicate 32 4) 0 sk (replicate 32 7) = Inr s0"
    by (rule start_session_key [OF assms])
  note c0 = start_session_cert [OF sk toy_keys_ok(1)]
  obtain s sig where s: "sign_checkpoint toy_keys (replicate 32 8) s0 = (s, Inr sig)"
    using sign_checkpoint_total [OF c0(1) toy_keys_ok(1)] c0(9,10) by auto
  have "se_export_count s0 = 0" using sk by (auto simp: start_session_inner_def Let_def res_bind_Inr_iff)
  then have "se_export_count s = 0"
    using s by (auto simp: sign_checkpoint_def push_signature_def advance_ratchet_def Let_def
      split: if_splits sum.splits)
  with sign_checkpoint_inv [OF c0(1) toy_keys_ok(1) s] c0(9,10) session_run.sign [OF session_run.start s]
  show thesis by (intro that) (auto simp: on_success_def)
qed

subsection \<open>Evidence\<close>

text \<open>C3: The evidence that a session exports after any sequence of calls of its operations,
  whatever they return and whatever the TPM replies, verifies against the identity of the device
  it was started on if and only if the session is at most 24 hours old, the counter values in
  its signatures never go back, and no checkpoint was signed after the metadata of the chain
  was.\<close>

theorem session_evidence_verifies:
  assumes "key_lib_ok lib" "start_session lib sid t puf h = Inr s0" "session_run lib puf s0 es s"
    and "derive_master_identity lib t' puf = Inr identity"
  shows "verify_key_hierarchy lib now (export_evidence lib identity s) = Inr () \<longleftrightarrow>
    now \<le> t + 24 * nanos_per_hour \<and> sorted (counters (se_signatures s)) \<and> \<not> late es"
proof -
  note inv = start_session_run_inv [OF assms(1-3)]
  then have "same_signed (se_certificate s) (se_certificate s0)" by (simp add: run_inv_def)
  from evidence_iff [OF assms(1,2) this assms(4)] run_signatures_iff [OF inv] show ?thesis by blast
qed

theorem session_evidence_verifies_witness:
  "\<exists>s0 s identity. start_session toy_keys (replicate 32 4) 0 toy_puf (replicate 32 7) = Inr s0 \<and>
     session_run toy_keys toy_puf s0 [Checkpoint_Signed] s \<and> length (se_signatures s) = 1 \<and>
     verify_key_hierarchy toy_keys 0 (export_evidence toy_keys identity s) = Inr () \<and>
     verify_key_hierarchy toy_keys (10 ^ 15) (export_evidence toy_keys identity s) \<noteq> Inr ()"
proof -
  obtain s0 where s0: "start_session toy_keys (replicate 32 4) 0 toy_puf (replicate 32 7) = Inr s0" by (rule toy_session)
  obtain s sig where s: "session_run toy_keys toy_puf s0 [Checkpoint_Signed] s" "se_signatures s = [sig]" by (rule toy_signed [OF s0])
  obtain identity where i: "derive_master_identity toy_keys 0 toy_puf = Inr identity" using toy_identity by blast
  have "sorted (counters (se_signatures s))" using sorted_one by (simp add: s(2))
  then have "verify_key_hierarchy toy_keys now (export_evidence toy_keys identity s) = Inr () \<longleftrightarrow> now \<le> 24 * nanos_per_hour" for now
    using session_evidence_verifies [OF toy_keys_ok(1) s0 s(1) i] by simp
  then have "verify_key_hierarchy toy_keys 0 (export_evidence toy_keys identity s) = Inr ()"
    "verify_key_hierarchy toy_keys (10 ^ 15) (export_evidence toy_keys identity s) \<noteq> Inr ()"
    by (simp_all add: nanos_per_hour_def)
  moreover have "length (se_signatures s) = 1" using s(2) by simp
  ultimately show ?thesis using s0 s(1) by blast
qed

subsection \<open>Recovery\<close>

text \<open>What the recovery data of a session decrypts to.\<close>

lemma recovery_of_export:
  assumes "key_lib_ok lib" "aead_ok lib" "start_session lib sid t puf h = Inr s0" "length nonce = 12"
    and cert: "same_signed (se_certificate s) (se_certificate s0)" "length (rs_current (se_ratchet s)) = 32"
    and small: "rs_ordinal (se_ratchet s) < 2 ^ 64" "se_export_count s < 2 ^ 64"
    and "export_recovery_state lib puf (Some nonce) s = (s', Inr rec)"
    and "sid \<noteq> replicate 32 0" "now \<le> t + 24 * nanos_per_hour"
  shows "recover_session lib now puf rec h =
    (if rs_ordinal (se_ratchet s) = expected_ordinal (se_signatures s) then Inr s' else Inl SessionRecoveryFailed)"
proof -
  obtain sk where sk: "derive_signing_key lib puf = Inr sk" "start_session_inner lib sid t sk h = Inr s0"
    by (rule start_session_key [OF assms(3)])
  note c0 = start_session_cert [OF sk(2) assms(1)]
  obtain key where key: "recovery_key lib puf = Inr key" and wiped: "\<not> rs_wiped (se_ratchet s)"
    and cnt: "se_export_count s + 1 < 2 ^ 64"
    using assms(9) by (auto simp: export_recovery_state_def Let_def split: if_splits sum.splits)
  have klen: "length key = 32"
  proof -
    obtain resp where resp: "hkdf_expand lib resp (ascii ''ratchet-recovery-key-v2'') [] = Inr key"
      using key by (auto simp: recovery_key_def res_bind_Inr_iff)
    obtain k where "hkdf_expand lib resp (ascii ''ratchet-recovery-key-v2'') [] = Inr k" "length k = 32"
      by (rule hkdf_expand_ok [OF assms(1)])
    with resp show ?thesis by simp
  qed
  define plain where "plain = rs_current (se_ratchet s) @ be 8 (rs_ordinal (se_ratchet s)) @ be 8 (se_export_count s + 1)"
  obtain c where c: "kl_seal lib key nonce (be 8 (length (se_signatures s))) plain = Some c"
    "length c = length plain + 16" "kl_unseal lib key nonce (be 8 (length (se_signatures s))) c = Some plain"
    using assms(2,4) klen unfolding aead_ok_def by blast
  have s': "s' = s\<lparr>se_export_count := se_export_count s + 1\<rparr>" and
    rec: "rec = \<lparr>sr_certificate = se_certificate s, sr_signatures = se_signatures s,
      sr_last_ratchet_state = [2] @ nonce @ c, sr_export_count = se_export_count s + 1\<rparr>"
    using assms(9) key wiped cnt c(1) by (auto simp: export_recovery_state_def Let_def plain_def)
  have vals: "be_val (be 8 (rs_ordinal (se_ratchet s))) = rs_ordinal (se_ratchet s)"
    "be_val (be 8 (se_export_count s + 1)) = se_export_count s + 1"
    using small(1) cnt by (simp_all add: be_val_be_id)
  define data where "data = [2 :: byte] @ nonce @ c"
  have fields: "slice 1 13 data = nonce" "drop 13 data = c" "\<not> length data < 29"
    "slice 32 40 plain = be 8 (rs_ordinal (se_ratchet s))" "slice 40 48 plain = be 8 (se_export_count s + 1)"
    "take 32 plain = rs_current (se_ratchet s)" "length plain = 48"
    using assms(4) cert(2) c(2) by (simp_all add: slice_def data_def plain_def)
  have recs: "sr_certificate rec = se_certificate s" "sr_signatures rec = se_signatures s"
    "sr_last_ratchet_state rec = data"
    by (simp_all add: rec data_def)
  have ratchet: "recover_ratchet_v2_aead lib puf rec =
      (if rs_ordinal (se_ratchet s) = expected_ordinal (se_signatures s) then Inr s' else Inl SessionRecoveryFailed)"
  proof -
    have "\<lparr>rs_current = rs_current (se_ratchet s), rs_ordinal = rs_ordinal (se_ratchet s), rs_wiped = False\<rparr> = se_ratchet s"
      using wiped by (cases "se_ratchet s") simp
    then have "s' = \<lparr>se_certificate = se_certificate s, se_ratchet = \<lparr>rs_current = rs_current (se_ratchet s),
        rs_ordinal = rs_ordinal (se_ratchet s), rs_wiped = False\<rparr>, se_signatures = se_signatures s,
        se_export_count = se_export_count s + 1\<rparr>"
      unfolding s' by (simp add: session.equality)
    then show ?thesis
      using key c(3) fields vals by (simp add: recover_ratchet_v2_aead_def Let_def recs)
  qed
  have "verify_session_certificate lib now (sr_certificate rec) = Inr ()"
    using verify_certificate_signed [OF cert(1)] c0(8) assms(11) by (simp add: rec)
  moreover have "derive_master_identity lib now puf = Inr i \<Longrightarrow> mi_public_key i = kl_pub lib sk" for i
    using sk(1) by (auto simp: derive_master_identity_def Let_def)
  moreover have "\<exists>i. derive_master_identity lib now puf = Inr i"
    using sk(1) by (simp add: derive_master_identity_def Let_def)
  moreover have "sc_session_id (sr_certificate rec) = sid" "sc_document_hash (sr_certificate rec) = h"
    "sc_expires_at (sr_certificate rec) \<noteq> None" "sc_master_pubkey (sr_certificate rec) = kl_pub lib sk"
    using cert(1) c0 by (simp_all add: rec same_signed_def)
  moreover have "recover_session_with_ratchet lib puf rec = recover_ratchet_v2_aead lib puf rec"
    "sr_last_ratchet_state rec \<noteq> []"
    by (simp_all add: recover_session_with_ratchet_def rec)
  ultimately show ?thesis
    using ratchet assms(10) by (auto simp: recover_session_def Let_def)
qed

lemma expected_ordinal_run:
  assumes "session_inv lib cert s"
  shows "rs_ordinal (se_ratchet s) = expected_ordinal (se_signatures s)"
proof (cases "se_signatures s" rule: rev_cases)
  case Nil
  then show ?thesis using assms by (simp add: session_inv_def expected_ordinal_def)
next
  case (snoc sigs sig)
  then show ?thesis using assms by (auto simp: session_inv_def expected_ordinal_def)
qed

text \<open>C30: Recovery data that a session exports after any sequence of calls of its operations, used
  within its 24 hours, for the same document and on the device whose PUF it was exported with,
  restores exactly the session that exported it (certificate, ratchet, ordinal, signatures and
  the count of exports) when the last call that advanced the ratchet signed a checkpoint, or
  none did; when it signed the metadata of the chain, recovery fails.\<close>

theorem session_recovers:
  assumes "key_lib_ok lib" "aead_ok lib" "start_session lib sid t puf h = Inr s0" "session_run lib puf s0 es s"
    and "length nonce = 12" "export_recovery_state lib puf (Some nonce) s = (s', Inr rec)"
    and "sid \<noteq> replicate 32 0" "now \<le> t + 24 * nanos_per_hour"
  shows "recover_session lib now puf rec h =
    (if es = [] \<or> last es = Checkpoint_Signed then Inr s' else Inl SessionRecoveryFailed)"
proof -
  note inv = start_session_run_inv [OF assms(1,3,4)]
  have "recover_session lib now puf rec h =
      (if rs_ordinal (se_ratchet s) = expected_ordinal (se_signatures s) then Inr s' else Inl SessionRecoveryFailed)"
    using inv by (intro recovery_of_export [OF assms(1,2,3,5) _ _ _ _ assms(6,7,8)]) (simp_all add: run_inv_def)
  then show ?thesis using run_ordinal_iff [OF inv] by simp
qed

lemma toy_export:
  assumes "\<not> rs_wiped (se_ratchet s)" "se_export_count s = 0"
  obtains s' rec where "export_recovery_state toy_keys toy_puf (Some (replicate 12 6)) s = (s', Inr rec)"
  using assms
  by (simp add: export_recovery_state_def recovery_key_def toy_puf_def hkdf_expand_def hkdf_sha256_def toy_keys_def Let_def)

theorem session_recovers_witness:
  "\<exists>s s' rec. export_recovery_state toy_keys toy_puf (Some (replicate 12 6)) s = (s', Inr rec) \<and>
     length (se_signatures s) = 1 \<and> recover_session toy_keys 0 toy_puf rec (replicate 32 7) = Inr s'"
proof -
  obtain s0 where s0: "start_session toy_keys (replicate 32 4) 0 toy_puf (replicate 32 7) = Inr s0" by (rule toy_session)
  obtain s sig where s: "session_run toy_keys toy_puf s0 [Checkpoint_Signed] s" "se_signatures s = [sig]" "\<not> rs_wiped (se_ratchet s)"
    "se_export_count s = 0" by (rule toy_signed [OF s0])
  obtain s' rec where e: "export_recovery_state toy_keys toy_puf (Some (replicate 12 6)) s = (s', Inr rec)"
    by (rule toy_export [OF s(3,4)])
  have "recover_session toy_keys 0 toy_puf rec (replicate 32 7) = Inr s'"
    using session_recovers [OF toy_keys_ok s0 s(1) _ e, of 0] by (simp add: nanos_per_hour_def)
  moreover have "length (se_signatures s) = 1" using s(2) by simp
  ultimately show ?thesis using e by blast
qed

subsection \<open>Metadata\<close>

text \<open>C31: Signing the metadata of the chain advances the ordinal of the ratchet without a
  checkpoint signature: in a session whose signatures verified until then the next checkpoint
  signature no longer verifies, and the recovery data of the session is refused.\<close>

theorem metadata_signature_breaks_session:
  assumes "key_lib_ok lib" "aead_ok lib" "start_session lib sid t puf h = Inr s0" "session_run lib puf s0 es s"
    and "sorted (counters (se_signatures s))" "Metadata_Signed \<notin> set es"
    and "sign_chain_metadata lib md s = ((s1, md'), Inr ())"
  shows "(\<forall>h' s2 sig. sign_checkpoint lib h' s1 = (s2, Inr sig) \<longrightarrow>
      verify_checkpoint_signatures lib (se_signatures s2) = Inl OrdinalMismatch) \<and>
    (\<forall>nonce s2 rec now. length nonce = 12 \<longrightarrow> sid \<noteq> replicate 32 0 \<longrightarrow> now \<le> t + 24 * nanos_per_hour \<longrightarrow>
      export_recovery_state lib puf (Some nonce) s1 = (s2, Inr rec) \<longrightarrow>
      recover_session lib now puf rec h = Inl SessionRecoveryFailed)"
proof -
  note inv = run_session_inv [OF start_session_run_inv [OF assms(1,3,4)] assms(6,5)]
  obtain nx where nx: "advance_ratchet nx s = (s1, Inr ())" "length nx = 32"
  proof -
    obtain k where "hkdf_expand lib (rs_current (se_ratchet s)) RATCHET_ADVANCE_DOMAIN
        (metadata_signing_payload (kl_sha lib) md) = Inr k" "length k = 32"
      by (rule hkdf_expand_ok [OF assms(1)])
    then show thesis
      using assms(7) by (intro that [of k]) (auto simp: sign_chain_metadata_def Let_def split: if_splits sum.splits prod.splits)
  qed
  then have s1: "s1 = s\<lparr>se_ratchet := (se_ratchet s)\<lparr>rs_current := nx, rs_ordinal := rs_ordinal (se_ratchet s) + 1\<rparr>\<rparr>"
    "rs_ordinal (se_ratchet s) + 1 < 2 ^ 64"
    by (auto simp: advance_ratchet_def Let_def split: if_splits)
  have ord: "rs_ordinal (se_ratchet s1) = length (se_signatures s1) + 1"
    "verify_checkpoint_signatures lib (se_signatures s1) = Inr ()"
    using inv by (simp_all add: s1 session_inv_def)
  have sig: "verify_checkpoint_signatures lib (se_signatures s2) = Inl OrdinalMismatch"
    if "sign_checkpoint lib h' s1 = (s2, Inr sig)" for h' s2 sig
  proof -
    obtain sg ny where r: "ratchet_signature lib h' h' None None (rs_ordinal (se_ratchet s1)) (rs_current (se_ratchet s1)) = Inr (sg, ny)"
      "cs_ordinal sg = rs_ordinal (se_ratchet s1)"
      by (rule ratchet_signature_valid [OF assms(1)])
    then have "se_signatures s2 = se_signatures s1 @ [sg]"
      using that by (auto simp: sign_checkpoint_def push_signature_def advance_ratchet_def Let_def split: if_splits)
    then show ?thesis using verify_signatures_ordinal [OF ord(2)] r(2) ord(1) by simp
  qed
  have rec: "recover_session lib now puf rec h = Inl SessionRecoveryFailed"
    if "length nonce = 12" "sid \<noteq> replicate 32 0" "now \<le> t + 24 * nanos_per_hour"
      "export_recovery_state lib puf (Some nonce) s1 = (s2, Inr rec)" for nonce s2 rec now
  proof -
    have "recover_session lib now puf rec h =
        (if rs_ordinal (se_ratchet s1) = expected_ordinal (se_signatures s1) then Inr s2 else Inl SessionRecoveryFailed)"
      using inv s1 nx(2)
      by (intro recovery_of_export [OF assms(1,2,3) that(1) _ _ _ _ that(4,2,3)]) (simp_all add: session_inv_def)
    moreover have "expected_ordinal (se_signatures s1) = length (se_signatures s1)"
      using expected_ordinal_run [OF inv] inv by (simp add: s1 session_inv_def)
    ultimately show ?thesis using ord(1) by simp
  qed
  from sig rec show ?thesis by blast
qed

theorem metadata_signature_breaks_session_witness:
  "\<exists>s s1 md md' s2 sig. sign_chain_metadata toy_keys md s = ((s1, md'), Inr ()) \<and>
     sign_checkpoint toy_keys (replicate 32 8) s1 = (s2, Inr sig) \<and>
     verify_checkpoint_signatures toy_keys (se_signatures s) = Inr () \<and>
     verify_checkpoint_signatures toy_keys (se_signatures s2) = Inl OrdinalMismatch"
proof -
  obtain s0 where s0: "start_session toy_keys (replicate 32 4) 0 toy_puf (replicate 32 7) = Inr s0" by (rule toy_session)
  obtain s sig where s: "session_run toy_keys toy_puf s0 [Checkpoint_Signed] s" "se_signatures s = [sig]" "\<not> rs_wiped (se_ratchet s)"
    and inv: "session_inv toy_keys (se_certificate s0) s" by (rule toy_signed [OF s0])
  define md where "md = \<lparr>cm_checkpoint_count = 1, cm_mmr_root = replicate 32 0, cm_mmr_leaf_count = 1,
    cm_metadata_signature = None, cm_metadata_version = 1\<rparr>"
  have ord: "rs_ordinal (se_ratchet s) = 1" using inv s(2) by (simp add: session_inv_def)
  obtain s1 md' where m: "sign_chain_metadata toy_keys md s = ((s1, md'), Inr ())" "\<not> rs_wiped (se_ratchet s1)"
    "rs_ordinal (se_ratchet s1) = 2"
    using s(3) ord
    by (simp add: sign_chain_metadata_def Let_def hkdf_expand_def hkdf_sha256_def toy_keys_def advance_ratchet_def)
  obtain sg nx where r: "ratchet_signature toy_keys (replicate 32 8) (replicate 32 8) None None 2 (rs_current (se_ratchet s1)) = Inr (sg, nx)"
    by (rule ratchet_signature_valid [OF toy_keys_ok(1)])
  then obtain s2 where s2: "sign_checkpoint toy_keys (replicate 32 8) s1 = (s2, Inr sg)"
    using m(2,3) by (simp add: sign_checkpoint_def push_signature_def advance_ratchet_def Let_def)
  have "verify_checkpoint_signatures toy_keys (se_signatures s2) = Inl OrdinalMismatch"
    using metadata_signature_breaks_session [OF toy_keys_ok s0 s(1) _ _ m(1)] s2 sorted_one by (auto simp: s(2))
  then show ?thesis using m(1) s2 inv unfolding session_inv_def by blast
qed

subsection \<open>A chain and the session that signs it\<close>

inductive signer_run ::
    "'s store_ops \<Rightarrow> chk_lib \<Rightarrow> key_lib \<Rightarrow> 's chain_signer \<Rightarrow> 's chain_signer \<Rightarrow> bool" for ops lib klib sg0 where
  start: "signer_run ops lib klib sg0 sg0"
| commit: "signer_run ops lib klib sg0 sg \<Longrightarrow> clock_fine env (sg_chain sg) \<Longrightarrow>
    commit_and_sign ops lib klib env message sg = (sg', r) \<Longrightarrow> signer_run ops lib klib sg0 sg'"
| commit_duration: "signer_run ops lib klib sg0 sg \<Longrightarrow> clock_fine env (sg_chain sg) \<Longrightarrow>
    commit_and_sign_with_duration ops lib klib env message d sg = (sg', r) \<Longrightarrow> signer_run ops lib klib sg0 sg'"

text \<open>Both commits are a plain commit and, if it succeeds, a signature.\<close>

lemma signer_step:
  assumes "commit_and_sign ops lib klib env message sg = (sg', r) \<or>
    commit_and_sign_with_duration ops lib klib env message d sg = (sg', r)"
  obtains dur ch' e where "commit_internal ops lib env message dur 1 (sg_chain sg) = (ch', Inl e)"
      "sg' = sg\<lparr>sg_chain := ch'\<rparr>"
  | dur ch' cp where "commit_internal ops lib env message dur 1 (sg_chain sg) = (ch', Inr cp)"
      "sign_last_checkpoint klib (sg\<lparr>sg_chain := ch'\<rparr>) = (sg', r)"
proof -
  obtain dur where c: "(case commit_internal ops lib env message dur 1 (sg_chain sg) of
      (ch', Inl e) \<Rightarrow> (sg\<lparr>sg_chain := ch'\<rparr>, Inl (SignerChain e))
    | (ch', Inr _) \<Rightarrow> sign_last_checkpoint klib (sg\<lparr>sg_chain := ch'\<rparr>)) = (sg', r)"
    using assms by (auto simp: commit_and_sign_def commit_and_sign_with_duration_def chain_commit_def
      commit_with_vdf_duration_def)
  obtain ch' x where x: "commit_internal ops lib env message dur 1 (sg_chain sg) = (ch', x)" by fastforce
  show thesis
  proof (cases x)
    case (Inl e)
    then show ?thesis using that(1) x c by auto
  next
    case (Inr cp)
    then show ?thesis using that(2) x c by auto
  qed
qed

text \<open>The chain and the session agree.\<close>

definition signer_inv :: "chk_lib \<Rightarrow> key_lib \<Rightarrow> session_certificate \<Rightarrow> memory_store chain \<Rightarrow> memory_store chain_signer \<Rightarrow> bool" where
  "signer_inv lib klib cert ch0 sg \<longleftrightarrow> chain_run memory_ops lib ch0 (sg_chain sg) \<and>
     session_inv klib cert (sg_session sg) \<and> \<not> rs_wiped (se_ratchet (sg_session sg)) \<and>
     map cs_checkpoint_hash (se_signatures (sg_session sg)) = map cp_hash (ch_checkpoints (sg_chain sg)) \<and>
     map (Some \<circ> cs_signature) (se_signatures (sg_session sg)) = map cp_signature (ch_checkpoints (sg_chain sg))"

lemma signer_step_inv:
  assumes inv: "signer_inv lib klib cert ch0 sg" and klib: "key_lib_ok klib" and cf: "clock_fine env (sg_chain sg)"
    and legacy: "md_entanglement_mode (ch_metadata ch0) = Legacy"
    and chain: "chain_inv (\<lambda>_. True) ms_nodes lib ch0" "digest32 (ck_sha lib)"
    and step: "commit_and_sign memory_ops lib klib env message sg = (sg', r) \<or>
      commit_and_sign_with_duration memory_ops lib klib env message d sg = (sg', r)"
    and len: "length (ch_checkpoints (sg_chain sg)) < 2 ^ 61"
  shows "signer_inv lib klib cert ch0 sg'"
proof -
  let ?ch = "sg_chain sg" and ?s = "sg_session sg"
  have run: "chain_run memory_ops lib ch0 ?ch" using inv by (simp add: signer_inv_def)
  note ci = mem.chain_run_inv [OF run chain len]
  then have mode: "md_entanglement_mode (ch_metadata ?ch) = Legacy" using legacy by simp
  from step show ?thesis
  proof (cases rule: signer_step)
    case (1 dur ch' e)
    obtain built where "commit_built memory_ops lib env built ?ch = (ch', Inl e)"
      using commit_internal_built [OF 1(1)] by blast
    then have "ch' = ?ch"
      using mem.commit_finish_error [OF conjunct1 [OF ci] chain(2) len] by (cases built) (auto simp: commit_built_def)
    then show ?thesis using inv 1(2) by simp
  next
    case (2 dur ch' cp)
    obtain built where "commit_built memory_ops lib env built ?ch = (ch', Inr cp)"
      using commit_internal_built [OF 2(1)] by blast
    then obtain cp0 where "commit_finish memory_ops lib env cp0 ?ch = (ch', Inr cp)"
      by (cases built) (auto simp: commit_built_def)
    from commit_finish_pushes [OF this] have ch': "ch_checkpoints ch' = ch_checkpoints ?ch @ [cp]" by blast
    have sinv: "session_inv klib cert ?s" "\<not> rs_wiped (se_ratchet ?s)"
      "map cs_checkpoint_hash (se_signatures ?s) = map cp_hash (ch_checkpoints ?ch)"
      "map (Some \<circ> cs_signature) (se_signatures ?s) = map cp_signature (ch_checkpoints ?ch)"
      using inv by (simp_all add: signer_inv_def)
    have "length (se_signatures ?s) = length (ch_checkpoints ?ch)" using sinv(3) by (metis length_map)
    then obtain s' sig where sg: "sign_checkpoint klib (cp_hash cp) ?s = (s', Inr sig)"
      using sign_checkpoint_total [OF sinv(1) klib sinv(2)] len by auto
    note si = sign_checkpoint_inv [OF sinv(1) klib sg]
    have sg': "sg' = sg\<lparr>sg_session := s', sg_chain := sign_last (cs_signature sig) ch'\<rparr>"
      using 2(2) sg by (simp add: sign_last_checkpoint_def last_opt_def ch')
    have "chain_run memory_ops lib ch0 (sign_last (cs_signature sig) ch')"
      using si by (intro chain_run.sign [OF chain_run.plain [OF run mode cf 2(1)]]) simp
    then show ?thesis
      using si sinv by (simp add: signer_inv_def sg' sign_last_def ch')
  qed
qed

lemma signer_step_length:
  assumes "commit_and_sign ops lib klib env message sg = (sg', r) \<or>
    commit_and_sign_with_duration ops lib klib env message d sg = (sg', r)"
  shows "length (ch_checkpoints (sg_chain sg)) \<le> length (ch_checkpoints (sg_chain sg'))"
  using assms
proof (cases rule: signer_step)
  case (1 dur ch' e)
  obtain built where "commit_built ops lib env built (sg_chain sg) = (ch', Inl e)"
    using commit_internal_built [OF 1(1)] by blast
  then show ?thesis using commit_built_frame(2) 1(2) by fastforce
next
  case (2 dur ch' cp)
  obtain built where b: "commit_built ops lib env built (sg_chain sg) = (ch', Inr cp)"
    using commit_internal_built [OF 2(1)] by blast
  have "length (ch_checkpoints (sg_chain sg')) = length (ch_checkpoints ch')"
    using 2(2) sign_last_frame(2)
    by (auto simp: sign_last_checkpoint_def split: option.splits prod.splits sum.splits)
  then show ?thesis using commit_built_frame(2) [OF b] by simp
qed

lemma signer_run_inv:
  assumes "signer_run memory_ops lib klib sg0 sg" "signer_inv lib klib cert ch0 sg0" "key_lib_ok klib"
    and "md_entanglement_mode (ch_metadata ch0) = Legacy" "chain_inv (\<lambda>_. True) ms_nodes lib ch0" "digest32 (ck_sha lib)"
    and "length (ch_checkpoints (sg_chain sg)) < 2 ^ 61"
  shows "signer_inv lib klib cert ch0 sg"
  using assms(1,7)
proof (induction rule: signer_run.induct)
  case start
  show ?case by (rule assms(2))
next
  case (commit sg env message sg' r)
  then have "length (ch_checkpoints (sg_chain sg)) < 2 ^ 61" using signer_step_length [OF disjI1] by (meson order_le_less_trans)
  with commit show ?case using signer_step_inv [OF _ assms(3) _ assms(4-6) disjI1] by blast
next
  case (commit_duration sg env message d sg' r)
  then have "length (ch_checkpoints (sg_chain sg)) < 2 ^ 61" using signer_step_length [OF disjI2] by (meson order_le_less_trans)
  with commit_duration show ?case using signer_step_inv [OF _ assms(3) _ assms(4-6) disjI2] by blast
qed

text \<open>C2: A signer that starts with a new legacy chain, without an MMR or with one in memory, and a
  new session, and commits any number of times, whatever the single commits return, while the
  clock does not go back by two seconds between commits, holds a chain that verifies, also under
  the policy that requires signatures, and as many checkpoint signatures, one for each
  checkpoint in order, over its hash; the evidence its session exports verifies for 24 hours
  against the identity of the device.\<close>

theorem chain_signer_verifies:
  assumes "signer_run memory_ops lib klib
      \<lparr>sg_chain = fresh_chain path doc now params Legacy policy m, sg_session = s0\<rparr> sg"
    and "start_session klib sid t puf h = Inr s0" "key_lib_ok klib" "digest32 (ck_sha lib)"
    and "\<forall>st. m = Some st \<longrightarrow> checkpoint_mmr_in_memory = Inr st" "0 < min_iterations params"
    and "ch_checkpoints (sg_chain sg) \<noteq> []" "length (ch_checkpoints (sg_chain sg)) < 2 ^ 61"
    and "derive_master_identity klib t' puf = Inr identity" "now' \<le> t + 24 * nanos_per_hour"
  shows "chain_verify lib (sg_chain sg) = Some (Inr ()) \<and>
    verify_key_hierarchy klib now' (export_evidence klib identity (sg_session sg)) = Inr () \<and>
    map cs_checkpoint_hash (se_signatures (sg_session sg)) = map cp_hash (ch_checkpoints (sg_chain sg)) \<and>
    map (Some \<circ> cs_signature) (se_signatures (sg_session sg)) = map cp_signature (ch_checkpoints (sg_chain sg))"
proof -
  let ?c0 = "fresh_chain path doc now params Legacy policy m"
  obtain sk where sk: "start_session_inner klib sid t sk h = Inr s0" by (rule start_session_key [OF assms(2)])
  note c0 = start_session_cert [OF sk assms(3)]
  have "ch_checkpoints ?c0 = []"
    by (cases m) (simp_all add: fresh_chain_def with_mmr_def with_signature_policy_def chain_new_with_mode_def)
  then have "signer_inv lib klib (se_certificate s0) ?c0 \<lparr>sg_chain = ?c0, sg_session = s0\<rparr>"
    using c0 chain_run.start [of memory_ops lib ?c0] by (simp add: signer_inv_def)
  from signer_run_inv [OF assms(1) this assms(3) fresh_chain_metadata(2) fresh_chain_inv [OF assms(6,5)] assms(4,8)]
  have inv: "signer_inv lib klib (se_certificate s0) ?c0 sg" .
  then have run: "chain_run memory_ops lib ?c0 (sg_chain sg)" by (simp add: signer_inv_def)
  have "\<forall>cp \<in> set (ch_checkpoints (sg_chain sg)). cp_signature cp \<noteq> None"
  proof
    fix cp
    assume "cp \<in> set (ch_checkpoints (sg_chain sg))"
    then have "cp_signature cp \<in> set (map (Some \<circ> cs_signature) (se_signatures (sg_session sg)))"
      using inv by (simp add: signer_inv_def)
    then show "cp_signature cp \<noteq> None" by auto
  qed
  then have "chain_verify lib (sg_chain sg) = Some (Inr ())"
    using fresh_run_verifies [OF run assms(5,6,4,7,8)] by simp
  moreover have "verify_key_hierarchy klib now' (export_evidence klib identity (sg_session sg)) = Inr ()"
    using evidence_iff [OF assms(3,2) _ assms(9)] assms(10) inv by (simp add: signer_inv_def session_inv_def)
  ultimately show ?thesis using inv by (simp add: signer_inv_def)
qed

theorem chain_signer_verifies_witness:
  "\<exists>sg :: memory_store chain_signer. length (ch_checkpoints (sg_chain sg)) = 1 \<and> chain_verify toy_chk (sg_chain sg) = Some (Inr ()) \<and>
     (\<exists>identity. verify_key_hierarchy toy_keys 0 (export_evidence toy_keys identity (sg_session sg)) = Inr ())"
proof -
  obtain s0 where s0: "start_session toy_keys (replicate 32 4) 0 toy_puf (replicate 32 7) = Inr s0" by (rule toy_session)
  obtain sk where sk: "start_session_inner toy_keys (replicate 32 4) 0 sk (replicate 32 7) = Inr s0"
    by (rule start_session_key [OF s0])
  note c0 = start_session_cert [OF sk toy_keys_ok(1)]
  let ?start = "\<lparr>sg_chain = toy_chain Legacy Required, sg_session = s0\<rparr>"
  note start = toy_chain_simps [of Legacy Required]
  obtain cp where cp: "commit_internal memory_ops toy_chk (toy_env 0) None None 1 (toy_chain Legacy Required) =
      ((toy_chain Legacy Required)\<lparr>ch_checkpoints := [cp]\<rparr>, Inr cp)"
    using toy_commit_ok [OF start(1,2), of 0] by (auto simp: start last_opt_def)
  obtain s sig where sg: "sign_checkpoint toy_keys (cp_hash cp) s0 = (s, Inr sig)"
    using sign_checkpoint_total [OF c0(1) toy_keys_ok(1)] c0(9,10) by auto
  obtain identity where i: "derive_master_identity toy_keys 0 toy_puf = Inr identity" using toy_identity by blast
  obtain sg r where c: "commit_and_sign memory_ops toy_chk toy_keys (toy_env 0) None ?start = (sg, r)"
    "length (ch_checkpoints (sg_chain sg)) = 1"
    using cp sg by (simp add: commit_and_sign_def chain_commit_def sign_last_checkpoint_def last_opt_def sign_last_def)
  have run: "signer_run memory_ops toy_chk toy_keys ?start sg"
    by (rule signer_run.commit [OF signer_run.start _ c(1)]) (simp add: clock_fine_def start(3) last_opt_def)
  have "chain_verify toy_chk (sg_chain sg) = Some (Inr ()) \<and>
      verify_key_hierarchy toy_keys 0 (export_evidence toy_keys identity (sg_session sg)) = Inr () \<and>
      map cs_checkpoint_hash (se_signatures (sg_session sg)) = map cp_hash (ch_checkpoints (sg_chain sg)) \<and>
      map (Some \<circ> cs_signature) (se_signatures (sg_session sg)) = map cp_signature (ch_checkpoints (sg_chain sg))"
    by (rule chain_signer_verifies [OF run [unfolded toy_chain_def] s0 toy_keys_ok(1) _ _ _ _ _ i])
      (use c(2) in \<open>auto simp: toy_chk_def toy_vdf_min nanos_per_hour_def\<close>)
  with c(2) show ?thesis by blast
qed

end
