(* ===== verification/Ipc_Messages.thy ===== *)
theory Ipc_Messages
  imports Chk_Types
begin

text \<open>
  The messages of the local IPC protocol (\<open>cpoe/src/ipc/messages.rs\<close>), their validation, the roles
  they need (\<open>rbac.rs\<close>) and their rate-limit category (\<open>crypto.rs\<close>), on the Linux target. Strings
  and paths are their bytes, an \<open>f64\<close> is its bits. What the file system answers about a path is
  a parameter; the reasons of a refusal are constructors, and the text that the code formats
  from them is a parameter of the server.
\<close>

definition MAX_MESSAGE_SIZE :: nat where "MAX_MESSAGE_SIZE = 256 * 1024"
definition MAX_CONCURRENT_CONNECTIONS :: nat where "MAX_CONCURRENT_CONNECTIONS = 16"
definition MAX_JITTER_INTERVAL_NS :: nat where "MAX_JITTER_INTERVAL_NS = 60000000000"
definition MAX_TIMESTAMP_NS :: int where "MAX_TIMESTAMP_NS = 4102444800000000000"
definition MAX_SHORT_STRING :: nat where "MAX_SHORT_STRING = 64"
definition MAX_ALERT_MESSAGE :: nat where "MAX_ALERT_MESSAGE = 4096"
definition MAX_PULSE_CLOCK_SKEW_NS :: int where "MAX_PULSE_CLOCK_SKEW_NS = 5 * 60 * 1000000000"

subsection \<open>Paths\<close>

datatype ipc_refusal =
    RelativePath bytes | PathTraversal bytes | SymlinkRejected bytes | SystemDirectory
  | VersionTooLong | AlertLevelTooLong | AlertMessageTooLong | TitleTooLong | TierTooLong nat
  | CheckpointMessageTooLong nat | PulseTimestamp int | PulseSkew int | PulseDuration nat
  | KeyTooLong | CodeTooLong | KeystrokeTimestamp | BatchTooLarge nat | BatchEntryTooLong | BatchTimestamp

text \<open>What the file system says of a path: its canonical form, when it exists, and whether the
  path itself is a symbolic link.\<close>

record path_fs =
  pf_canonicalize :: "bytes \<Rightarrow> bytes option"
  pf_is_symlink :: "bytes \<Rightarrow> bool"

datatype path_component = RootDir | CurDir | ParentDir | Normal bytes

definition is_absolute :: "bytes \<Rightarrow> bool" where
  "is_absolute path \<longleftrightarrow> path \<noteq> [] \<and> hd path = 47"

text \<open>\<open>Path::components\<close>: repeated separators and dots collapse, except for a dot at the start
  of a relative path.\<close>

definition components :: "bytes \<Rightarrow> path_component list" where
  "components path =
     (let parts = path_components path [];
          named = filter (\<lambda>p. p \<noteq> [] \<and> p \<noteq> [46]) parts;
          rest = map (\<lambda>p. if p = [46, 46] then ParentDir else Normal p) named
      in if is_absolute path then RootDir # rest
         else if parts \<noteq> [] \<and> hd parts = [46] then CurDir # rest
         else rest)"

fun resolve_stack :: "path_component list \<Rightarrow> path_component list \<Rightarrow> path_component list" where
  "resolve_stack stack [] = stack"
| "resolve_stack stack (ParentDir # cs) =
     resolve_stack (if stack = [] \<or> last stack = RootDir then stack else butlast stack) cs"
| "resolve_stack stack (CurDir # cs) = resolve_stack stack cs"
| "resolve_stack stack (c # cs) = resolve_stack (stack @ [c]) cs"

text \<open>\<open>PathBuf::push\<close> of the components in turn.\<close>

definition path_push :: "bytes \<Rightarrow> path_component \<Rightarrow> bytes" where
  "path_push path c = (case c of
       RootDir \<Rightarrow> [47]
     | CurDir \<Rightarrow> (if path = [] \<or> last path = 47 then path else path @ [47]) @ [46]
     | ParentDir \<Rightarrow> (if path = [] \<or> last path = 47 then path else path @ [47]) @ [46, 46]
     | Normal p \<Rightarrow> (if path = [] \<or> last path = 47 then path else path @ [47]) @ p)"

definition resolve_path :: "bytes \<Rightarrow> bytes" where
  "resolve_path path = foldl path_push [] (resolve_stack [] (components path))"

definition BLOCKED_UNIX_PREFIXES :: "bytes list" where
  "BLOCKED_UNIX_PREFIXES = map ascii
     [''/etc/'', ''/var/root/'', ''/System/'', ''/Library/'', ''/proc/'', ''/dev/'', ''/sys/'', ''/root/'',
      ''/private/etc/'', ''/private/var/root/'', ''/boot/'', ''/sbin/'', ''/bin/'', ''/usr/'']"

definition to_lower :: "bytes \<Rightarrow> bytes" where
  "to_lower s = map (\<lambda>c. if 65 \<le> c \<and> c \<le> 90 then c + 32 else c) s"

definition starts_with :: "bytes \<Rightarrow> bytes \<Rightarrow> bool" where
  "starts_with s p \<longleftrightarrow> take (length p) s = p"

definition is_blocked_system_path :: "bytes \<Rightarrow> bool" where
  "is_blocked_system_path path \<longleftrightarrow> (\<exists>prefix \<in> set BLOCKED_UNIX_PREFIXES. starts_with path (to_lower prefix))"

definition validate_ipc_path :: "path_fs \<Rightarrow> bytes \<Rightarrow> (ipc_refusal, unit) result" where
  "validate_ipc_path fs path =
     (if \<not> is_absolute path then Inl (RelativePath path)
      else if ParentDir \<in> set (components path) then Inl (PathTraversal path)
      else
        let canonical = (case pf_canonicalize fs path of Some p \<Rightarrow> p | None \<Rightarrow> resolve_path path) in
        if pf_is_symlink fs path then Inl (SymlinkRejected path)
        else if is_blocked_system_path canonical then Inl SystemDirectory
        else Inr ())"

subsection \<open>Messages\<close>

record simple_jitter_sample =
  js_timestamp_ns :: int
  js_duration_since_last_ns :: nat
  js_zone :: byte
  js_dwell_time_ns :: "nat option"
  js_flight_time_ns :: "nat option"

datatype ipc_error_code =
    Unknown | InvalidMessage | FileNotFound | AlreadyTracking | NotTracking | PermissionDenied
  | VersionMismatch | InternalError | NonceInvalid | NotInitialized | RateLimited

datatype ipc_message =
    Handshake bytes
  | StartWitnessing bytes
  | StopWitnessing "bytes option"
  | GetStatus
  | GetAttestationNonce
  | ExportWithNonce bytes bytes bytes
  | VerifyWithNonce bytes "bytes option"
  | Pulse simple_jitter_sample
  | CheckpointCreated int bytes
  | SystemAlert bytes bytes
  | Heartbeat
  | IpcOk "bytes option"
  | IpcError ipc_error_code bytes
  | HandshakeAck bytes bytes
  | HeartbeatAck nat
  | StatusResponse bool "bytes list" nat
  | AttestationNonceResponse bytes
  | NonceExportResponse bool "bytes option" "bytes option" "bytes option" "bytes option" "bytes option" "bytes option"
  | NonceVerifyResponse bool bool nat nat "bytes option" "bytes option" "bytes list"
  | VerifyFile bytes
  | VerifyFileResponse bool nat bool bool nat "bytes option"
  | ExportFile bytes bytes bytes
  | ExportFileResponse bool "bytes option"
  | GetFileForensics bytes
  | ForensicsResponse nat bytes nat nat nat nat nat "bytes option"
  | ComputeProcessScore bytes
  | ProcessScoreResponse nat nat nat nat bool "bytes option"
  | CreateFileCheckpoint bytes bytes
  | CheckpointResponse bool "bytes option" "bytes option"
  | BrowserKeystroke nat bytes bytes nat
  | BrowserKeystrokeBatch "(nat \<times> bytes \<times> bytes) list" nat

text \<open>\<open>x < 0.0\<close> for a finite number.\<close>

definition f64_negative :: "nat \<Rightarrow> bool" where
  "f64_negative b \<longleftrightarrow> b div 2 ^ 63 mod 2 = 1 \<and> b mod 2 ^ 63 \<noteq> 0"

definition timestamp_ms_bad :: "nat \<Rightarrow> bool" where
  "timestamp_ms_bad t \<longleftrightarrow> \<not> f64_finite t \<or> f64_negative t"

definition refuse :: "bool \<Rightarrow> ipc_refusal \<Rightarrow> (ipc_refusal, unit) result" where
  "refuse b e = (if b then Inl e else Inr ())"

fun validate_keystrokes :: "(nat \<times> bytes \<times> bytes) list \<Rightarrow> (ipc_refusal, unit) result" where
  "validate_keystrokes [] = Inr ()"
| "validate_keystrokes ((ts, key, code) # ks) =
     (if MAX_SHORT_STRING < length key \<or> MAX_SHORT_STRING < length code then Inl BatchEntryTooLong
      else if timestamp_ms_bad ts then Inl BatchTimestamp
      else validate_keystrokes ks)"

text \<open>\<open>now_ns\<close> is the wall clock in nanoseconds, 0 before the epoch.\<close>

definition validate_pulse :: "int \<Rightarrow> simple_jitter_sample \<Rightarrow> (ipc_refusal, unit) result" where
  "validate_pulse now_ns sample =
     (let t = js_timestamp_ns sample; d = js_duration_since_last_ns sample in
      if t < 0 \<or> MAX_TIMESTAMP_NS < t then Inl (PulseTimestamp t)
      else if MAX_PULSE_CLOCK_SKEW_NS < \<bar>t - now_ns\<bar> then Inl (PulseSkew t)
      else if MAX_JITTER_INTERVAL_NS < d then Inl (PulseDuration d)
      else Inr ())"

definition validate_paths :: "path_fs \<Rightarrow> int \<Rightarrow> ipc_message \<Rightarrow> (ipc_refusal, unit) result" where
  "validate_paths fs now_ns msg = (case msg of
       Handshake version \<Rightarrow> refuse (MAX_SHORT_STRING < length version) VersionTooLong
     | SystemAlert level message \<Rightarrow>
         res_bind (refuse (MAX_SHORT_STRING < length level) AlertLevelTooLong) (\<lambda>_.
         refuse (MAX_ALERT_MESSAGE < length message) AlertMessageTooLong)
     | StartWitnessing file_path \<Rightarrow> validate_ipc_path fs file_path
     | StopWitnessing (Some p) \<Rightarrow> validate_ipc_path fs p
     | ExportWithNonce file_path title _ \<Rightarrow>
         res_bind (validate_ipc_path fs file_path) (\<lambda>_. refuse (MAX_ALERT_MESSAGE < length title) TitleTooLong)
     | VerifyWithNonce evidence_path _ \<Rightarrow> validate_ipc_path fs evidence_path
     | VerifyFile path \<Rightarrow> validate_ipc_path fs path
     | ExportFile path tier output \<Rightarrow>
         res_bind (validate_ipc_path fs path) (\<lambda>_.
         res_bind (validate_ipc_path fs output) (\<lambda>_.
         refuse (MAX_SHORT_STRING < length tier) (TierTooLong (length tier))))
     | GetFileForensics path \<Rightarrow> validate_ipc_path fs path
     | ComputeProcessScore path \<Rightarrow> validate_ipc_path fs path
     | CreateFileCheckpoint path message \<Rightarrow>
         res_bind (validate_ipc_path fs path) (\<lambda>_.
         refuse (MAX_ALERT_MESSAGE < length message) (CheckpointMessageTooLong (length message)))
     | Pulse sample \<Rightarrow> validate_pulse now_ns sample
     | BrowserKeystroke timestamp_ms key code _ \<Rightarrow>
         res_bind (refuse (MAX_SHORT_STRING < length key) KeyTooLong) (\<lambda>_.
         res_bind (refuse (MAX_SHORT_STRING < length code) CodeTooLong) (\<lambda>_.
         refuse (timestamp_ms_bad timestamp_ms) KeystrokeTimestamp))
     | BrowserKeystrokeBatch keystrokes _ \<Rightarrow>
         res_bind (refuse (200 < length keystrokes) (BatchTooLarge (length keystrokes))) (\<lambda>_.
         validate_keystrokes keystrokes)
     | _ \<Rightarrow> Inr ())"

text \<open>The paths of a message that its handler may touch.\<close>

definition message_paths :: "ipc_message \<Rightarrow> bytes list" where
  "message_paths msg = (case msg of
       StartWitnessing p \<Rightarrow> [p] | StopWitnessing (Some p) \<Rightarrow> [p] | ExportWithNonce p _ _ \<Rightarrow> [p]
     | VerifyWithNonce p _ \<Rightarrow> [p] | VerifyFile p \<Rightarrow> [p] | ExportFile p _ q \<Rightarrow> [p, q]
     | GetFileForensics p \<Rightarrow> [p] | ComputeProcessScore p \<Rightarrow> [p] | CreateFileCheckpoint p _ \<Rightarrow> [p]
     | _ \<Rightarrow> [])"

subsection \<open>Roles\<close>

datatype ipc_role = ReadOnly | User | Admin

fun role_level :: "ipc_role \<Rightarrow> nat" where
  "role_level ReadOnly = 0" | "role_level User = 1" | "role_level Admin = 2"

lemma role_level_inj: "role_level a = role_level b \<Longrightarrow> a = b"
  by (cases a; cases b) auto

instantiation ipc_role :: linorder
begin

definition less_eq_ipc_role :: "ipc_role \<Rightarrow> ipc_role \<Rightarrow> bool" where
  "less_eq_ipc_role a b \<longleftrightarrow> role_level a \<le> role_level b"

definition less_ipc_role :: "ipc_role \<Rightarrow> ipc_role \<Rightarrow> bool" where
  "less_ipc_role a b \<longleftrightarrow> role_level a < role_level b"

instance
  by standard (auto simp: less_eq_ipc_role_def less_ipc_role_def intro: role_level_inj)

end

definition required_role :: "ipc_message \<Rightarrow> ipc_role" where
  "required_role msg = (case msg of
       StartWitnessing _ \<Rightarrow> User | StopWitnessing _ \<Rightarrow> User | ExportWithNonce _ _ _ \<Rightarrow> User
     | ExportFile _ _ _ \<Rightarrow> User | Pulse _ \<Rightarrow> User | CheckpointCreated _ _ \<Rightarrow> User
     | CreateFileCheckpoint _ _ \<Rightarrow> User | SystemAlert _ _ \<Rightarrow> User
     | BrowserKeystroke _ _ _ _ \<Rightarrow> User | BrowserKeystrokeBatch _ _ \<Rightarrow> User
     | _ \<Rightarrow> ReadOnly)"

definition check_authorization :: "ipc_role \<Rightarrow> ipc_role \<Rightarrow> bool" where
  "check_authorization client_role required \<longleftrightarrow> required \<le> client_role"

subsection \<open>Rate limits\<close>

datatype ipc_operation =
    OpExport | OpVerify | OpForensics | OpProcessScore | OpCheckpoint | OpWitnessing | OpGeneral

definition max_ops :: "ipc_operation \<Rightarrow> nat" where
  "max_ops operation = (case operation of
       OpWitnessing \<Rightarrow> 30 | OpVerify \<Rightarrow> 10 | OpExport \<Rightarrow> 10 | OpForensics \<Rightarrow> 10 | OpProcessScore \<Rightarrow> 10
     | OpCheckpoint \<Rightarrow> 20 | OpGeneral \<Rightarrow> 60)"

definition rate_limit_key :: "ipc_message \<Rightarrow> ipc_operation" where
  "rate_limit_key msg = (case msg of
       ExportFile _ _ _ \<Rightarrow> OpExport | ExportWithNonce _ _ _ \<Rightarrow> OpExport
     | VerifyFile _ \<Rightarrow> OpVerify | VerifyWithNonce _ _ \<Rightarrow> OpVerify
     | GetFileForensics _ \<Rightarrow> OpForensics
     | ComputeProcessScore _ \<Rightarrow> OpProcessScore
     | CreateFileCheckpoint _ _ \<Rightarrow> OpCheckpoint
     | StartWitnessing _ \<Rightarrow> OpWitnessing | StopWitnessing _ \<Rightarrow> OpWitnessing
     | _ \<Rightarrow> OpGeneral)"

text \<open>Instants are nanoseconds of the monotonic clock; \<open>as_secs\<close> truncates.\<close>

record rate_limiter =
  rl_operations :: "ipc_operation \<rightharpoonup> nat \<times> nat"
  rl_window_secs :: nat

definition rate_limiter_new :: "nat \<Rightarrow> rate_limiter" where
  "rate_limiter_new window_secs = \<lparr>rl_operations = Map.empty, rl_window_secs = window_secs\<rparr>"

definition rate_check :: "nat \<Rightarrow> ipc_operation \<Rightarrow> rate_limiter \<Rightarrow> rate_limiter \<times> bool" where
  "rate_check now operation rl = (case rl_operations rl operation of
       Some (n, start) \<Rightarrow>
         if rl_window_secs rl \<le> (now - start) div 1000000000
         then (rl\<lparr>rl_operations := (rl_operations rl)(operation \<mapsto> (1, now))\<rparr>, True)
         else if n < max_ops operation
         then (rl\<lparr>rl_operations := (rl_operations rl)(operation \<mapsto> (n + 1, start))\<rparr>, True)
         else (rl, False)
     | None \<Rightarrow> (rl\<lparr>rl_operations := (rl_operations rl)(operation \<mapsto> (1, now))\<rparr>, True))"

end
