(* ===== verification/Ipc_Crypto.thy ===== *)
theory Ipc_Crypto
  imports Ipc_Messages
begin

text \<open>
  The encrypted IPC session (\<open>cpoe/src/ipc/crypto.rs\<close>), its handshake on both sides
  (\<open>async_client.rs\<close>), and the in-process channel (\<open>secure_channel.rs\<close>). The AEAD ciphers, HKDF,
  the P-256 operations and the JSON codec are fields of the record of parameters \<open>lib\<close>.
\<close>

record ipc_lib =
  il_hkdf :: "bytes \<Rightarrow> bytes \<Rightarrow> bytes \<Rightarrow> nat \<Rightarrow> bytes option"
  il_seal :: "bytes \<Rightarrow> bytes \<Rightarrow> bytes \<Rightarrow> bytes option"
  il_open :: "bytes \<Rightarrow> bytes \<Rightarrow> bytes \<Rightarrow> bytes option"
  il_pub :: "bytes \<Rightarrow> bytes"
  il_pk_ok :: "bytes \<Rightarrow> bool"
  il_dh :: "bytes \<Rightarrow> bytes \<Rightarrow> bytes"
  il_encode :: "ipc_message \<Rightarrow> bytes option"
  il_decode :: "bytes \<Rightarrow> ipc_message option"
  il_refusal_text :: "ipc_refusal \<Rightarrow> bytes"

definition SECURE_JSON_PROTOCOL_MAGIC :: bytes where "SECURE_JSON_PROTOCOL_MAGIC = [0x57, 0x53]"
definition SECURE_PROTOCOL_VERSION_MIN :: byte where "SECURE_PROTOCOL_VERSION_MIN = 1"
definition SECURE_PROTOCOL_VERSION_MAX :: byte where "SECURE_PROTOCOL_VERSION_MAX = 1"
definition P256_PUBLIC_KEY_SIZE :: nat where "P256_PUBLIC_KEY_SIZE = 65"
definition IPC_HKDF_SALT :: bytes where "IPC_HKDF_SALT = ascii ''cpoe-ipc-v1''"
definition NMH_HKDF_SALT :: bytes where "NMH_HKDF_SALT = ascii ''cpoe-nmh-v1''"
definition KEY_CONFIRM_PLAINTEXT :: bytes where "KEY_CONFIRM_PLAINTEXT = ascii ''cpoe-key-confirm-ok''"

datatype ipc_err =
    SecretTooShort nat | ClientKeySize nat | ServerKeySize nat | HkdfFailed
  | SequenceExhausted | EncryptFailed | TooShort nat | SequenceDesync nat nat | NonceMismatch | DecryptFailed
  | UnsupportedVersion byte | BadClientKey | BadServerKey | EmptyToken | TokenTooLarge | ConfirmFailed
  | TokenMismatch | PayloadTooLong | ReadEof | ReadFailed | WriteFailed | TimedOut
  | IpcPanic \<comment> \<open>not an error value of the source: an overflow check that fails\<close>

subsection \<open>Sessions\<close>

record secure_session =
  ss_key :: bytes
  ss_tx_sequence :: nat
  ss_rx_sequence :: nat
  ss_tx_nonce_prefix :: bytes
  ss_rx_nonce_prefix :: bytes

definition construct_nonce :: "bytes \<Rightarrow> nat \<Rightarrow> bytes" where
  "construct_nonce prefix seq = prefix @ le 8 seq"

definition from_shared_secret_with_salt ::
    "ipc_lib \<Rightarrow> bytes \<Rightarrow> bytes \<Rightarrow> bytes \<Rightarrow> bool \<Rightarrow> bytes \<Rightarrow> (ipc_err, secure_session) result" where
  "from_shared_secret_with_salt lib shared_secret client_pubkey server_pubkey is_server salt =
     (if length shared_secret < 32 then Inl (SecretTooShort (length shared_secret))
      else if length client_pubkey \<noteq> P256_PUBLIC_KEY_SIZE then Inl (ClientKeySize (length client_pubkey))
      else if length server_pubkey \<noteq> P256_PUBLIC_KEY_SIZE then Inl (ServerKeySize (length server_pubkey))
      else
        let info = ascii ''aes-256-gcm-key'' @ client_pubkey @ server_pubkey in
        (case il_hkdf lib salt shared_secret info 32 of None \<Rightarrow> Inl HkdfFailed
         | Some key \<Rightarrow>
        (case il_hkdf lib salt shared_secret (ascii ''nonce-prefix-client'') 4 of None \<Rightarrow> Inl HkdfFailed
         | Some client_prefix \<Rightarrow>
        (case il_hkdf lib salt shared_secret (ascii ''nonce-prefix-server'') 4 of None \<Rightarrow> Inl HkdfFailed
         | Some server_prefix \<Rightarrow>
           Inr (if is_server
                then \<lparr>ss_key = key, ss_tx_sequence = 1, ss_rx_sequence = 0,
                      ss_tx_nonce_prefix = server_prefix, ss_rx_nonce_prefix = client_prefix\<rparr>
                else \<lparr>ss_key = key, ss_tx_sequence = 0, ss_rx_sequence = 1,
                      ss_tx_nonce_prefix = client_prefix, ss_rx_nonce_prefix = server_prefix\<rparr>)))))"

definition from_shared_secret ::
    "ipc_lib \<Rightarrow> bytes \<Rightarrow> bytes \<Rightarrow> bytes \<Rightarrow> bool \<Rightarrow> (ipc_err, secure_session) result" where
  "from_shared_secret lib shared_secret client_pubkey server_pubkey is_server =
     from_shared_secret_with_salt lib shared_secret client_pubkey server_pubkey is_server IPC_HKDF_SALT"

text \<open>A call of a session by one thread; the loops around \<open>compare_exchange\<close> under several
  threads are \<open>cas_step\<close> below.\<close>

definition encrypt :: "ipc_lib \<Rightarrow> bytes \<Rightarrow> (secure_session, ipc_err, bytes) op" where
  "encrypt lib plaintext s =
     (let seq = ss_tx_sequence s in
      if 2 ^ 64 - 2 \<le> seq then (s, Inl SequenceExhausted)
      else
        let s' = s\<lparr>ss_tx_sequence := seq + 2\<rparr>;
            nonce = construct_nonce (ss_tx_nonce_prefix s) seq
        in (case il_seal lib (ss_key s) nonce plaintext of
              None \<Rightarrow> (s', Inl EncryptFailed)
            | Some ciphertext \<Rightarrow> (s', Inr (le 8 seq @ nonce @ ciphertext))))"

definition decrypt :: "ipc_lib \<Rightarrow> bytes \<Rightarrow> (secure_session, ipc_err, bytes) op" where
  "decrypt lib data s =
     (if length data < 36 then (s, Inl (TooShort (length data)))
      else
        let seq = le_val (take 8 data); expected = ss_rx_sequence s in
        if seq \<noteq> expected then (s, Inl (SequenceDesync expected seq))
        else if \<not> expected + 2 < 2 ^ 64 then (s, Inl IpcPanic)
        else
          let s' = s\<lparr>ss_rx_sequence := expected + 2\<rparr>;
              nonce = construct_nonce (ss_rx_nonce_prefix s) expected
          in if nonce \<noteq> slice 8 20 data then (s', Inl NonceMismatch)
             else (case il_open lib (ss_key s) nonce (drop 20 data) of
                     None \<Rightarrow> (s', Inl DecryptFailed)
                   | Some plaintext \<Rightarrow> (s', Inr plaintext)))"

subsection \<open>Streams\<close>

text \<open>A byte stream: what is still to be read and how it ends, what was written, and the
  failures of the next write and flush calls (after that they succeed). A failed call has
  written a number of bytes; the flag says that it ended by a time-out.\<close>

datatype read_end = Eof | ReadError | Stalled

record stream =
  st_in :: bytes
  st_end :: read_end
  st_out :: bytes
  st_faults :: "(nat \<times> bool) option list"

type_synonym 'a ipc_io = "(stream, ipc_err, 'a) op"

definition read_exact :: "nat \<Rightarrow> bytes ipc_io" where
  "read_exact n s =
     (if n \<le> length (st_in s) then (s\<lparr>st_in := drop n (st_in s)\<rparr>, Inr (take n (st_in s)))
      else (s\<lparr>st_in := []\<rparr>, Inl (case st_end s of Eof \<Rightarrow> ReadEof | ReadError \<Rightarrow> ReadFailed | Stalled \<Rightarrow> TimedOut)))"

definition write_all :: "bytes \<Rightarrow> unit ipc_io" where
  "write_all bs s = (case st_faults s of
       [] \<Rightarrow> (s\<lparr>st_out := st_out s @ bs\<rparr>, Inr ())
     | None # fs \<Rightarrow> (s\<lparr>st_out := st_out s @ bs, st_faults := fs\<rparr>, Inr ())
     | Some (k, timeout) # fs \<Rightarrow>
         (s\<lparr>st_out := st_out s @ take k bs, st_faults := fs\<rparr>, Inl (if timeout then TimedOut else WriteFailed)))"

definition flush :: "unit ipc_io" where
  "flush = write_all []"

definition write_frame :: "bytes \<Rightarrow> unit ipc_io" where
  "write_frame bs = op_bind (write_all (le 4 (length bs))) (\<lambda>_. op_bind (write_all bs) (\<lambda>_. flush))"

text \<open>A result of a computation on the session, lifted to a stream operation.\<close>

definition io_result :: "(ipc_err, 'a) result \<Rightarrow> 'a ipc_io" where
  "io_result r s = (s, r)"

definition io_check :: "bool \<Rightarrow> ipc_err \<Rightarrow> unit ipc_io" where
  "io_check b e = io_result (if b then Inl e else Inr ())"

subsection \<open>Handshake\<close>

text \<open>The server side, after the magic bytes and the version; \<open>secret\<close> is the fresh key.\<close>

definition secure_handshake_server :: "ipc_lib \<Rightarrow> byte \<Rightarrow> bytes \<Rightarrow> secure_session ipc_io" where
  "secure_handshake_server lib version secret =
     op_bind (io_check (version < SECURE_PROTOCOL_VERSION_MIN \<or> SECURE_PROTOCOL_VERSION_MAX < version)
                (UnsupportedVersion version)) (\<lambda>_.
     op_bind (read_exact P256_PUBLIC_KEY_SIZE) (\<lambda>client_pubkey.
     op_bind (io_check (\<not> il_pk_ok lib client_pubkey) BadClientKey) (\<lambda>_.
     let server_pubkey = il_pub lib secret in
     op_bind (write_all server_pubkey) (\<lambda>_.
     op_bind flush (\<lambda>_.
     op_bind (io_result (from_shared_secret lib (il_dh lib secret client_pubkey) client_pubkey server_pubkey True)) (\<lambda>s0.
     case encrypt lib KEY_CONFIRM_PLAINTEXT s0 of (s1, r) \<Rightarrow>
     op_bind (io_result r) (\<lambda>confirm.
     op_bind (write_frame confirm) (\<lambda>_.
     op_bind (read_exact 4) (\<lambda>len_buf.
     let len = le_val len_buf in
     op_bind (io_check (len = 0) EmptyToken) (\<lambda>_.
     op_bind (io_check (1024 < len) TokenTooLarge) (\<lambda>_.
     op_bind (read_exact len) (\<lambda>buf.
     case decrypt lib buf s1 of (s2, r) \<Rightarrow>
     op_bind (io_result (case r of Inl _ \<Rightarrow> Inl ConfirmFailed | Inr p \<Rightarrow> Inr p)) (\<lambda>plaintext.
     op_bind (io_check (plaintext \<noteq> KEY_CONFIRM_PLAINTEXT) TokenMismatch) (\<lambda>_.
     op_return s2))))))))))))))"

text \<open>The client side (\<open>establish_secure_session\<close>).\<close>

definition establish_secure_session :: "ipc_lib \<Rightarrow> bytes \<Rightarrow> secure_session ipc_io" where
  "establish_secure_session lib secret =
     op_bind (write_all (SECURE_JSON_PROTOCOL_MAGIC @ [1])) (\<lambda>_.
     op_bind flush (\<lambda>_.
     let client_pubkey = il_pub lib secret in
     op_bind (write_all client_pubkey) (\<lambda>_.
     op_bind flush (\<lambda>_.
     op_bind (read_exact 65) (\<lambda>server_pubkey.
     op_bind (io_check (\<not> il_pk_ok lib server_pubkey) BadServerKey) (\<lambda>_.
     op_bind (io_result (from_shared_secret lib (il_dh lib secret server_pubkey) client_pubkey server_pubkey False)) (\<lambda>s0.
     op_bind (read_exact 4) (\<lambda>len_buf.
     let len = le_val len_buf in
     op_bind (io_check (1024 < len) TokenTooLarge) (\<lambda>_.
     op_bind (read_exact len) (\<lambda>buf.
     case decrypt lib buf s0 of (s1, r) \<Rightarrow>
     op_bind (io_result r) (\<lambda>plaintext.
     op_bind (io_check (plaintext \<noteq> KEY_CONFIRM_PLAINTEXT) TokenMismatch) (\<lambda>_.
     case encrypt lib KEY_CONFIRM_PLAINTEXT s1 of (s2, r) \<Rightarrow>
     op_bind (io_result r) (\<lambda>confirm.
     op_bind (write_frame confirm) (\<lambda>_.
     op_return s2))))))))))))))"

definition send_encrypted :: "ipc_lib \<Rightarrow> bytes \<Rightarrow> secure_session \<Rightarrow> stream \<Rightarrow> (secure_session \<times> stream) \<times> (ipc_err, unit) result" where
  "send_encrypted lib json s st =
     (case encrypt lib json s of
        (s', Inl e) \<Rightarrow> ((s', st), Inl e)
      | (s', Inr encrypted) \<Rightarrow>
          if 2 ^ 32 \<le> length encrypted then ((s', st), Inl PayloadTooLong)
          else (case write_frame encrypted st of (st', r) \<Rightarrow> ((s', st'), r)))"

subsection \<open>The in-process channel\<close>

definition NONCE_COUNTER_MAX :: nat where "NONCE_COUNTER_MAX = 2 ^ 64 - 2"
definition MAX_SECURE_CHANNEL_PAYLOAD :: nat where "MAX_SECURE_CHANNEL_PAYLOAD = MAX_MESSAGE_SIZE"

datatype send_error = Serialization | Encryption | NonceExhausted | SendClosed
datatype recv_error = Decryption | PayloadTooLarge | Deserialization | RecvClosed

text \<open>ChaCha20-Poly1305 with its associated data, and the bincode codec of the values.\<close>

record 'v channel_lib =
  chl_seal :: "bytes \<Rightarrow> bytes \<Rightarrow> bytes \<Rightarrow> bytes \<Rightarrow> bytes option"
  chl_open :: "bytes \<Rightarrow> bytes \<Rightarrow> bytes \<Rightarrow> bytes \<Rightarrow> bytes option"
  chl_encode :: "'v \<Rightarrow> bytes option"
  chl_decode :: "bytes \<Rightarrow> 'v option"

record encrypted_message =
  em_nonce :: bytes
  em_ciphertext :: bytes

text \<open>Both halves and the queue between them; the flags say which half still exists.\<close>

record secure_channel =
  sch_key :: bytes
  sch_nonce_counter :: nat
  sch_nonce_prefix :: bytes
  sch_queue :: "encrypted_message list"
  sch_sender :: bool
  sch_receiver :: bool

definition channel_new_pair :: "bytes \<Rightarrow> bytes \<Rightarrow> secure_channel" where
  "channel_new_pair key prefix =
     \<lparr>sch_key = key, sch_nonce_counter = 0, sch_nonce_prefix = prefix, sch_queue = [],
      sch_sender = True, sch_receiver = True\<rparr>"

definition channel_send :: "'v channel_lib \<Rightarrow> 'v \<Rightarrow> (secure_channel, send_error, unit) op" where
  "channel_send lib value c = (case chl_encode lib value of
       None \<Rightarrow> (c, Inl Serialization)
     | Some plaintext \<Rightarrow>
         if NONCE_COUNTER_MAX \<le> sch_nonce_counter c then (c, Inl NonceExhausted)
         else
           let c' = c\<lparr>sch_nonce_counter := sch_nonce_counter c + 1\<rparr>;
               nonce = sch_nonce_prefix c @ le 8 (sch_nonce_counter c)
           in (case chl_seal lib (sch_key c) nonce nonce plaintext of
                 None \<Rightarrow> (c', Inl Encryption)
               | Some ciphertext \<Rightarrow>
                   if sch_receiver c
                   then (c'\<lparr>sch_queue := sch_queue c @ [\<lparr>em_nonce = nonce, em_ciphertext = ciphertext\<rparr>]\<rparr>, Inr ())
                   else (c', Inl SendClosed)))"

text \<open>\<open>None\<close> is a receiver that waits: the queue is empty and the sender exists.\<close>

definition channel_recv :: "'v channel_lib \<Rightarrow> secure_channel \<Rightarrow> (secure_channel \<times> (recv_error, 'v) result) option" where
  "channel_recv lib c = (case sch_queue c of
       [] \<Rightarrow> if sch_sender c then None else Some (c, Inl RecvClosed)
     | m # q \<Rightarrow>
         let c' = c\<lparr>sch_queue := q\<rparr> in
         Some (if MAX_SECURE_CHANNEL_PAYLOAD + 16 < length (em_ciphertext m) then (c', Inl PayloadTooLarge)
               else case chl_open lib (sch_key c) (em_nonce m) (em_nonce m) (em_ciphertext m) of
                 None \<Rightarrow> (c', Inl Decryption)
               | Some plaintext \<Rightarrow>
                   if MAX_SECURE_CHANNEL_PAYLOAD < length plaintext then (c', Inl PayloadTooLarge)
                   else (case chl_decode lib plaintext of
                           None \<Rightarrow> (c', Inl Deserialization)
                         | Some value \<Rightarrow> (c', Inr value))))"

end
