(* ===== verification/Ipc_Server.thy ===== *)
theory Ipc_Server
  imports Ipc_Crypto
begin

text \<open>
  The IPC server (\<open>cpoe/src/ipc/server.rs\<close>, \<open>server_handler.rs\<close>, \<open>unix_socket.rs\<close>) and its client
  (\<open>async_client.rs\<close>). A connection is a state machine: waiting for its peer check and handshake,
  open, with a message that passed the checks, with a message that was also logged, closed, or
  stuck in an operation that never returns. An iteration of the message loop on a message that
  passes takes three steps, since each of them takes a lock of its own and other tasks run in
  between: the checks up to the rate limiter, the entry of the audit log, and the call of the
  handler with its answer. The steps of several connections interleave over the shared rate
  limiter, audit log and handler; a call of the handler takes effect at one moment of its step.
  What a step reads of its surroundings (the clocks, the file system, whether the audit log
  could be written) is its environment.
\<close>

subsection \<open>Audit log\<close>

datatype access_action = AccessRead | AccessWrite | AccessDelete | AccessExport | AccessVerify
datatype access_result = Success | Denied

record access_entry =
  ae_timestamp_ns :: int
  ae_actor_id :: bytes
  ae_action :: access_action
  ae_resource :: bytes
  ae_result :: access_result
  ae_source :: bytes

definition ipc_access_info :: "ipc_message \<Rightarrow> access_action \<times> bytes" where
  "ipc_access_info msg = (case msg of
       GetStatus \<Rightarrow> (AccessRead, ascii ''status'')
     | GetAttestationNonce \<Rightarrow> (AccessRead, ascii ''status'')
     | Heartbeat \<Rightarrow> (AccessRead, ascii ''status'')
     | Handshake _ \<Rightarrow> (AccessRead, ascii ''status'')
     | StartWitnessing file_path \<Rightarrow> (AccessWrite, file_path)
     | StopWitnessing file_path \<Rightarrow> (AccessWrite, case file_path of Some p \<Rightarrow> p | None \<Rightarrow> ascii ''all'')
     | ExportWithNonce file_path _ _ \<Rightarrow> (AccessExport, file_path)
     | ExportFile file_path _ _ \<Rightarrow> (AccessExport, file_path)
     | VerifyFile path \<Rightarrow> (AccessVerify, path)
     | VerifyWithNonce path _ \<Rightarrow> (AccessVerify, path)
     | _ \<Rightarrow> (AccessRead, ascii ''ipc''))"

definition role_name :: "ipc_role \<Rightarrow> bytes" where
  "role_name r = ascii (case r of ReadOnly \<Rightarrow> ''ReadOnly'' | User \<Rightarrow> ''User'' | Admin \<Rightarrow> ''Admin'')"

definition operation_name :: "ipc_operation \<Rightarrow> bytes" where
  "operation_name op = ascii (case op of OpExport \<Rightarrow> ''Export'' | OpVerify \<Rightarrow> ''Verify'' | OpForensics \<Rightarrow> ''Forensics''
     | OpProcessScore \<Rightarrow> ''ProcessScore'' | OpCheckpoint \<Rightarrow> ''Checkpoint'' | OpWitnessing \<Rightarrow> ''Witnessing''
     | OpGeneral \<Rightarrow> ''General'')"

record msg_env =
  me_now :: nat
  me_wall :: int
  me_fs :: path_fs
  me_log_ok :: bool

record 'h shared =
  sh_limiter :: rate_limiter
  sh_log :: "access_entry list option"
  sh_handler :: 'h

definition new_access_entry ::
    "int \<Rightarrow> bytes \<Rightarrow> access_action \<Rightarrow> bytes \<Rightarrow> access_result \<Rightarrow> bytes \<Rightarrow> access_entry" where
  "new_access_entry now actor action resource result source =
     \<lparr>ae_timestamp_ns = now, ae_actor_id = actor, ae_action = action, ae_resource = resource,
      ae_result = result, ae_source = source\<rparr>"

definition record_access ::
    "msg_env \<Rightarrow> ipc_message \<Rightarrow> ipc_role \<Rightarrow> bytes \<Rightarrow> access_result \<Rightarrow> 'h shared \<Rightarrow> 'h shared" where
  "record_access env msg client_role label result sh = (case sh_log sh of
       None \<Rightarrow> sh
     | Some es \<Rightarrow>
         (case ipc_access_info msg of (action, resource) \<Rightarrow>
            if me_log_ok env
            then sh\<lparr>sh_log := Some (es @ [new_access_entry (me_wall env) (role_name client_role) action resource result label])\<rparr>
            else sh))"

subsection \<open>One message\<close>

datatype conn =
    Fresh "nat option" "int option" stream \<comment> \<open>the peer's user and process, when known\<close>
  | Open secure_session stream
  | Admitted ipc_message secure_session stream \<comment> \<open>before the entry of the audit log\<close>
  | Recorded ipc_message secure_session stream \<comment> \<open>before the call of the handler\<close>
  | Closed stream
  | Stuck stream \<comment> \<open>in a call that never returns, or a task that panicked\<close>

definition best_effort :: "ipc_lib \<Rightarrow> ipc_message \<Rightarrow> secure_session \<Rightarrow> stream \<Rightarrow> secure_session \<times> stream" where
  "best_effort lib msg s st = (case il_encode lib msg of
       None \<Rightarrow> (s, st)
     | Some bs \<Rightarrow> fst (send_encrypted lib bs s st))"

definition FALLBACK :: bytes where
  "FALLBACK = ascii ''{\"type\":\"Error\",\"code\":\"InternalError\",\"message\":\"Internal serialization error\"}''"

definition permission_text :: "ipc_role \<Rightarrow> ipc_role \<Rightarrow> bytes" where
  "permission_text required client_role =
     ascii ''Insufficient permissions: requires '' @ role_name required @ ascii '', client has '' @ role_name client_role"

definition rate_text :: "ipc_operation \<Rightarrow> bytes" where
  "rate_text op = ascii ''Rate limit exceeded for operation: '' @ operation_name op"

definition opened :: "secure_session \<times> stream \<Rightarrow> conn" where
  "opened p = Open (fst p) (snd p)"

text \<open>Sending the handler's response; \<open>None\<close> is a handler that panicked.\<close>

definition send_response :: "ipc_lib \<Rightarrow> ipc_message option \<Rightarrow> secure_session \<Rightarrow> stream \<Rightarrow> conn" where
  "send_response lib r s st =
     (let response = (case r of Some m \<Rightarrow> m
                      | None \<Rightarrow> IpcError InternalError (ascii ''Internal processing error'')) in
      case il_encode lib response of
        Some bs \<Rightarrow> (case send_encrypted lib bs s st of
                       (p, Inr _) \<Rightarrow> opened p | (p, Inl _) \<Rightarrow> Closed (snd p))
      | None \<Rightarrow> Closed (snd (fst (send_encrypted lib FALLBACK s st))))"

text \<open>The checks of a message; one that passes is admitted.\<close>

definition receive_message ::
    "ipc_lib \<Rightarrow> ipc_role \<Rightarrow> bytes \<Rightarrow> msg_env \<Rightarrow> bytes \<Rightarrow> secure_session \<Rightarrow> stream \<Rightarrow> 'h shared \<Rightarrow> conn \<times> 'h shared" where
  "receive_message lib client_role label env plaintext s st sh = (case il_decode lib plaintext of
       None \<Rightarrow> (opened (best_effort lib (IpcError InvalidMessage (ascii ''Invalid message format'')) s st), sh)
     | Some msg \<Rightarrow>
         (case validate_paths (me_fs env) (me_wall env) msg of
            Inl e \<Rightarrow> (opened (best_effort lib (IpcError PermissionDenied (il_refusal_text lib e)) s st), sh)
          | Inr _ \<Rightarrow>
              if client_role < required_role msg
              then (opened (best_effort lib
                      (IpcError PermissionDenied (permission_text (required_role msg) client_role)) s st),
                    record_access env msg client_role label Denied sh)
              else
                (case rate_check (me_now env) (rate_limit_key msg) (sh_limiter sh) of
                   (rl, False) \<Rightarrow>
                     (opened (best_effort lib (IpcError RateLimited (rate_text (rate_limit_key msg))) s st),
                      sh\<lparr>sh_limiter := rl\<rparr>)
                 | (rl, True) \<Rightarrow> (Admitted msg s st, sh\<lparr>sh_limiter := rl\<rparr>))))"

definition receive_one ::
    "ipc_lib \<Rightarrow> ipc_role \<Rightarrow> bytes \<Rightarrow> msg_env \<Rightarrow> secure_session \<Rightarrow> stream \<Rightarrow> 'h shared \<Rightarrow> conn \<times> 'h shared" where
  "receive_one lib client_role label env s st sh = (case read_exact 4 st of
       (st1, Inl _) \<Rightarrow> (Closed st1, sh)
     | (st1, Inr len_buf) \<Rightarrow>
         (let len = le_val len_buf in
          if len = 0 \<or> MAX_MESSAGE_SIZE < len then (Closed st1, sh)
          else case read_exact len st1 of
            (st2, Inl e) \<Rightarrow> (if e = TimedOut then Stuck st2 else Closed st2, sh)
          | (st2, Inr buf) \<Rightarrow>
              (case decrypt lib buf s of
                 (s1, Inl e) \<Rightarrow> (if e = IpcPanic then Stuck st2 else Closed st2, sh)
               | (s1, Inr plaintext) \<Rightarrow> receive_message lib client_role label env plaintext s1 st2 sh)))"

definition handle_message ::
    "ipc_lib \<Rightarrow> ('h \<Rightarrow> ipc_message \<Rightarrow> 'h \<times> ipc_message option) \<Rightarrow> ipc_message \<Rightarrow>
     secure_session \<Rightarrow> stream \<Rightarrow> 'h shared \<Rightarrow> conn \<times> 'h shared" where
  "handle_message lib handle msg s st sh =
     (case handle (sh_handler sh) msg of (h, r) \<Rightarrow> (send_response lib r s st, sh\<lparr>sh_handler := h\<rparr>))"

text \<open>The rest of an iteration that no other connection interrupts.\<close>

definition finish_message ::
    "ipc_lib \<Rightarrow> ('h \<Rightarrow> ipc_message \<Rightarrow> 'h \<times> ipc_message option) \<Rightarrow> ipc_role \<Rightarrow> bytes \<Rightarrow> msg_env \<Rightarrow>
     conn \<times> 'h shared \<Rightarrow> conn \<times> 'h shared" where
  "finish_message lib handle client_role label env c = (case c of
       (Admitted msg s st, sh) \<Rightarrow> handle_message lib handle msg s st (record_access env msg client_role label Success sh)
     | _ \<Rightarrow> c)"

definition serve_message ::
    "ipc_lib \<Rightarrow> ('h \<Rightarrow> ipc_message \<Rightarrow> 'h \<times> ipc_message option) \<Rightarrow> ipc_role \<Rightarrow> bytes \<Rightarrow> msg_env \<Rightarrow> bytes \<Rightarrow>
     secure_session \<Rightarrow> stream \<Rightarrow> 'h shared \<Rightarrow> conn \<times> 'h shared" where
  "serve_message lib handle client_role label env plaintext s st sh =
     finish_message lib handle client_role label env (receive_message lib client_role label env plaintext s st sh)"

definition serve_one ::
    "ipc_lib \<Rightarrow> ('h \<Rightarrow> ipc_message \<Rightarrow> 'h \<times> ipc_message option) \<Rightarrow> ipc_role \<Rightarrow> bytes \<Rightarrow> msg_env \<Rightarrow>
     secure_session \<Rightarrow> stream \<Rightarrow> 'h shared \<Rightarrow> conn \<times> 'h shared" where
  "serve_one lib handle client_role label env s st sh =
     finish_message lib handle client_role label env (receive_one lib client_role label env s st sh)"

subsection \<open>Connections\<close>

definition open_connection :: "ipc_lib \<Rightarrow> bytes \<Rightarrow> stream \<Rightarrow> conn" where
  "open_connection lib secret st = (case read_exact 2 st of
       (st1, Inl e) \<Rightarrow> if e = TimedOut then Stuck st1 else Closed st1
     | (st1, Inr peek) \<Rightarrow>
         if peek \<noteq> SECURE_JSON_PROTOCOL_MAGIC then Closed st1
         else (case read_exact 1 st1 of
            (st2, Inl e) \<Rightarrow> if e = TimedOut then Stuck st2 else Closed st2
          | (st2, Inr version) \<Rightarrow>
              (case secure_handshake_server lib (hd version) secret st2 of
                 (st3, Inl _) \<Rightarrow> Closed st3
               | (st3, Inr s) \<Rightarrow> Open s st3)))"

text \<open>Valid UTF-8, as \<open>OsStr::to_str\<close> asks for it.\<close>

definition continuation :: "byte \<Rightarrow> bool" where
  "continuation b \<longleftrightarrow> 0x80 \<le> b \<and> b \<le> 0xBF"

fun is_utf8 :: "bytes \<Rightarrow> bool" where
  "is_utf8 [] \<longleftrightarrow> True"
| "is_utf8 (a # r) \<longleftrightarrow>
     (if a < 0x80 then is_utf8 r
      else case r of [] \<Rightarrow> False | b # r1 \<Rightarrow>
        if 0xC2 \<le> a \<and> a \<le> 0xDF then continuation b \<and> is_utf8 r1
        else case r1 of [] \<Rightarrow> False | c # r2 \<Rightarrow>
          if 0xE0 \<le> a \<and> a \<le> 0xEF
          then continuation b \<and> continuation c \<and> (a = 0xE0 \<longrightarrow> 0xA0 \<le> b) \<and> (a = 0xED \<longrightarrow> b \<le> 0x9F) \<and> is_utf8 r2
          else case r2 of [] \<Rightarrow> False | d # r3 \<Rightarrow>
            0xF0 \<le> a \<and> a \<le> 0xF4 \<and> continuation b \<and> continuation c \<and> continuation d \<and>
            (a = 0xF0 \<longrightarrow> 0x90 \<le> b) \<and> (a = 0xF4 \<longrightarrow> b \<le> 0x8F) \<and> is_utf8 r3)"

definition str_ends_with :: "bytes \<Rightarrow> bytes \<Rightarrow> bool" where
  "str_ends_with s p \<longleftrightarrow> length p \<le> length s \<and> drop (length s - length p) s = p"

definition ALLOWED_PEER_EXECUTABLES :: "bytes list" where
  "ALLOWED_PEER_EXECUTABLES = map ascii
     [''writersproof-cli'', ''writersproof'', ''writerslogic-native-messaging-host'', ''WritersLogic'',
      ''cpoe'', ''cpoe_cli'', ''writerslogic'']"

text \<open>\<open>read_link\<close> gives the executable of a process.\<close>

definition verify_peer_executable :: "(int \<Rightarrow> bytes option) \<Rightarrow> int \<Rightarrow> bytes list \<Rightarrow> bool" where
  "verify_peer_executable read_link peer_pid allowed = (case read_link peer_pid of
       None \<Rightarrow> False
     | Some exe \<Rightarrow>
         (case file_name exe of None \<Rightarrow> False
          | Some exe_name \<Rightarrow> is_utf8 exe_name \<and>
              (exe_name \<in> set allowed \<or> (\<exists>n \<in> set allowed. str_ends_with exe n))))"

definition peer_accepted :: "nat \<Rightarrow> (int \<Rightarrow> bytes option) \<Rightarrow> nat option \<Rightarrow> int option \<Rightarrow> bool" where
  "peer_accepted my_uid read_link peer_uid peer_pid \<longleftrightarrow>
     peer_uid = Some my_uid \<and>
     (case peer_pid of None \<Rightarrow> True
      | Some pid \<Rightarrow> verify_peer_executable read_link pid ALLOWED_PEER_EXECUTABLES)"

record host =
  ho_uid :: nat
  ho_read_link :: "int \<Rightarrow> bytes option"

text \<open>One step of a connection's task: \<open>handle_connection\<close> gives it the role of a user.\<close>

definition UNIX_LABEL :: bytes where "UNIX_LABEL = ascii ''unix-socket''"

fun conn_step ::
    "ipc_lib \<Rightarrow> ('h \<Rightarrow> ipc_message \<Rightarrow> 'h \<times> ipc_message option) \<Rightarrow> host \<Rightarrow> bytes \<Rightarrow> msg_env \<Rightarrow> conn \<Rightarrow> 'h shared \<Rightarrow>
     conn \<times> 'h shared" where
  "conn_step lib handle host secret env (Fresh uid pid st) sh =
     (if peer_accepted (ho_uid host) (ho_read_link host) uid pid
      then open_connection lib secret st else Closed st, sh)"
| "conn_step lib handle host secret env (Open s st) sh = receive_one lib User UNIX_LABEL env s st sh"
| "conn_step lib handle host secret env (Admitted msg s st) sh =
     (Recorded msg s st, record_access env msg User UNIX_LABEL Success sh)"
| "conn_step lib handle host secret env (Recorded msg s st) sh = handle_message lib handle msg s st sh"
| "conn_step lib handle host secret env c sh = (c, sh)"

subsection \<open>The server\<close>

record 'h server =
  sv_active :: "conn list"
  sv_shared :: "'h shared"

text \<open>Runs of the accept loop and of the tasks it started, with any peers, any bytes and any
  schedule, in environments that satisfy \<open>P\<close>. A connection that arrives while sixteen are
  active is dropped; one that is closed gives its slot back.\<close>

inductive server_run ::
    "ipc_lib \<Rightarrow> ('h \<Rightarrow> ipc_message \<Rightarrow> 'h \<times> ipc_message option) \<Rightarrow> host \<Rightarrow> (msg_env \<Rightarrow> bool) \<Rightarrow> 'h server \<Rightarrow> 'h server \<Rightarrow> bool"
    for lib handle host P sv0 where
  init: "server_run lib handle host P sv0 sv0"
| accept: "server_run lib handle host P sv0 sv \<Longrightarrow> length (sv_active sv) < MAX_CONCURRENT_CONNECTIONS \<Longrightarrow>
     server_run lib handle host P sv0 (sv\<lparr>sv_active := sv_active sv @ [Fresh uid pid st]\<rparr>)"
| task: "server_run lib handle host P sv0 sv \<Longrightarrow> i < length (sv_active sv) \<Longrightarrow> P env \<Longrightarrow>
     conn_step lib handle host secret env (sv_active sv ! i) (sv_shared sv) = (c, sh) \<Longrightarrow>
     server_run lib handle host P sv0 \<lparr>sv_active = (sv_active sv)[i := c], sv_shared = sh\<rparr>"
| finish: "server_run lib handle host P sv0 sv \<Longrightarrow> i < length (sv_active sv) \<Longrightarrow> sv_active sv ! i = Closed st \<Longrightarrow>
     server_run lib handle host P sv0 (sv\<lparr>sv_active := take i (sv_active sv) @ drop (Suc i) (sv_active sv)\<rparr>)"

definition server_start :: "'h shared \<Rightarrow> 'h server" where
  "server_start sh = \<lparr>sv_active = [], sv_shared = sh\<rparr>"

subsection \<open>The message loop of one connection\<close>

text \<open>An iteration as the message loop writes it.\<close>

lemma finish_opened [simp]: "finish_message lib handle role label env (opened p, sh) = (opened p, sh)"
  by (simp add: finish_message_def opened_def)

lemma finish_ended [simp]:
  "finish_message lib handle role label env (Closed st, sh) = (Closed st, sh)"
  "finish_message lib handle role label env (Stuck st, sh) = (Stuck st, sh)"
  by (simp_all add: finish_message_def)

lemma serve_message_eq:
  "serve_message lib handle client_role label env plaintext s st sh = (case il_decode lib plaintext of
       None \<Rightarrow> (opened (best_effort lib (IpcError InvalidMessage (ascii ''Invalid message format'')) s st), sh)
     | Some msg \<Rightarrow>
         (case validate_paths (me_fs env) (me_wall env) msg of
            Inl e \<Rightarrow> (opened (best_effort lib (IpcError PermissionDenied (il_refusal_text lib e)) s st), sh)
          | Inr _ \<Rightarrow>
              if client_role < required_role msg
              then (opened (best_effort lib
                      (IpcError PermissionDenied (permission_text (required_role msg) client_role)) s st),
                    record_access env msg client_role label Denied sh)
              else
                (case rate_check (me_now env) (rate_limit_key msg) (sh_limiter sh) of
                   (rl, False) \<Rightarrow>
                     (opened (best_effort lib (IpcError RateLimited (rate_text (rate_limit_key msg))) s st),
                      sh\<lparr>sh_limiter := rl\<rparr>)
                 | (rl, True) \<Rightarrow> handle_message lib handle msg s st
                     (record_access env msg client_role label Success (sh\<lparr>sh_limiter := rl\<rparr>)))))"
  by (auto simp: serve_message_def receive_message_def finish_message_def opened_def split: option.splits sum.splits prod.splits bool.splits)

lemma serve_one_eq:
  "serve_one lib handle client_role label env s st sh = (case read_exact 4 st of
       (st1, Inl _) \<Rightarrow> (Closed st1, sh)
     | (st1, Inr len_buf) \<Rightarrow>
         (let len = le_val len_buf in
          if len = 0 \<or> MAX_MESSAGE_SIZE < len then (Closed st1, sh)
          else case read_exact len st1 of
            (st2, Inl e) \<Rightarrow> (if e = TimedOut then Stuck st2 else Closed st2, sh)
          | (st2, Inr buf) \<Rightarrow>
              (case decrypt lib buf s of
                 (s1, Inl e) \<Rightarrow> (if e = IpcPanic then Stuck st2 else Closed st2, sh)
               | (s1, Inr plaintext) \<Rightarrow> serve_message lib handle client_role label env plaintext s1 st2 sh)))"
  by (auto simp: serve_one_def receive_one_def serve_message_def Let_def split: sum.splits prod.splits)

text \<open>The steps of a connection that runs alone make up the iteration.\<close>

lemma conn_steps_serve:
  assumes "conn_step lib handle host secret env (Open s st) sh = (Admitted msg s1 st1, sh1)"
    and "conn_step lib handle host secret env (Admitted msg s1 st1) sh1 = (c2, sh2)"
  shows "conn_step lib handle host secret env c2 sh2 = serve_one lib handle User UNIX_LABEL env s st sh"
  using assms by (auto simp: serve_one_def finish_message_def)

lemma read_exact_Inr:
  "read_exact n st = (st', Inr bs) \<longleftrightarrow> n \<le> length (st_in st) \<and> st' = st\<lparr>st_in := drop n (st_in st)\<rparr> \<and> bs = take n (st_in st)"
  by (auto simp: read_exact_def)

lemma write_all_in [simp]: "st_in (fst (write_all bs st)) = st_in st" "st_end (fst (write_all bs st)) = st_end st"
  by (auto simp: write_all_def split: list.splits option.splits prod.splits)

lemma write_frame_in [simp]: "st_in (fst (write_frame bs st)) = st_in st" "st_end (fst (write_frame bs st)) = st_end st"
proof -
  obtain s1 r1 where 1: "write_all (le 4 (length bs)) st = (s1, r1)" by fastforce
  obtain s2 r2 where 2: "write_all bs s1 = (s2, r2)" by fastforce
  have a: "st_in s1 = st_in st" "st_end s1 = st_end st" using write_all_in [of "le 4 (length bs)" st] 1 by simp_all
  have b: "st_in s2 = st_in s1" "st_end s2 = st_end s1" using write_all_in [of bs s1] 2 by simp_all
  show "st_in (fst (write_frame bs st)) = st_in st" "st_end (fst (write_frame bs st)) = st_end st"
    using 1 2 a b write_all_in [of "[]" s2]
    by (cases r1; cases r2; simp add: write_frame_def op_bind_def flush_def)+
qed

lemma write_frame_keeps: "write_frame bs st = (st', r) \<Longrightarrow> st_in st' = st_in st \<and> st_end st' = st_end st"
  using write_frame_in [of bs st] by simp

lemma send_encrypted_in:
  "send_encrypted lib bs s st = ((s', st'), r) \<Longrightarrow> st_in st' = st_in st \<and> st_end st' = st_end st"
  by (auto simp: send_encrypted_def dest: write_frame_keeps split: prod.splits sum.splits if_splits)

lemma best_effort_in: "best_effort lib m s st = (s', st') \<Longrightarrow> st_in st' = st_in st \<and> st_end st' = st_end st"
  using send_encrypted_in by (auto simp: best_effort_def split: option.splits) (metis prod.collapse)+

lemma send_response_in: "send_response lib r s st = Open s' st' \<Longrightarrow> st_in st' = st_in st \<and> st_end st' = st_end st"
  using send_encrypted_in
  by (fastforce simp: send_response_def opened_def Let_def split: option.splits prod.splits sum.splits)

lemma serve_message_in:
  assumes "serve_message lib handle role label env p s st sh = (Open s' st', sh')"
  shows "st_in st' = st_in st \<and> st_end st' = st_end st"
proof -
  have be: "opened (best_effort lib m s st) = Open s' st' \<Longrightarrow> ?thesis" for m
    using best_effort_in [of lib m s st s' st'] by (simp add: opened_def prod_eq_iff)
  show ?thesis
  proof (cases "il_decode lib p")
    case None
    with assms show ?thesis by (auto simp: serve_message_eq dest: be)
  next
    case (Some msg)
    note 1 = this
    show ?thesis
    proof (cases "validate_paths (me_fs env) (me_wall env) msg")
      case (Inl e)
      with assms 1 show ?thesis by (auto simp: serve_message_eq dest: be)
    next
      case (Inr u)
      note 2 = this
      obtain rl ok where 3: "rate_check (me_now env) (rate_limit_key msg) (sh_limiter sh) = (rl, ok)" by fastforce
      show ?thesis
      proof (cases "role < required_role msg \<or> \<not> ok")
        case True
        with assms 1 2 3 show ?thesis by (auto simp: serve_message_eq dest: be split: if_splits)
      next
        case False
        with assms 1 2 3 obtain r where "send_response lib r s st = Open s' st'"
          by (auto simp: serve_message_eq handle_message_def split: prod.splits)
        then show ?thesis by (rule send_response_in)
      qed
    qed
  qed
qed

lemma serve_one_consumes:
  assumes "serve_one lib handle role label env s st sh = (Open s' st', sh')"
  shows "length (st_in st') < length (st_in st)"
proof -
  obtain st1 buf where r: "read_exact 4 st = (st1, Inr buf)"
    using assms by (auto simp: serve_one_eq split: prod.splits sum.splits)
  then have l1: "length (st_in st1) < length (st_in st)" by (auto simp: read_exact_Inr)
  obtain st2 b where r2: "read_exact (le_val buf) st1 = (st2, Inr b)"
    using assms r by (auto simp: serve_one_eq Let_def split: prod.splits sum.splits if_splits)
  then have l2: "length (st_in st2) \<le> length (st_in st1)" by (auto simp: read_exact_Inr)
  obtain s1 p where d: "decrypt lib b s = (s1, Inr p)"
    using assms r r2 by (auto simp: serve_one_eq Let_def split: prod.splits sum.splits if_splits)
  have "st_in st' = st_in st2"
    using assms r r2 d serve_message_in by (fastforce simp: serve_one_eq Let_def split: if_splits)
  with l1 l2 show ?thesis by simp
qed

text \<open>The loop ends on every input: each iteration reads a header. \<open>env i\<close> is the environment of
  the \<open>i\<close>-th iteration.\<close>

function message_loop ::
    "ipc_lib \<Rightarrow> ('h \<Rightarrow> ipc_message \<Rightarrow> 'h \<times> ipc_message option) \<Rightarrow> ipc_role \<Rightarrow> bytes \<Rightarrow> (nat \<Rightarrow> msg_env) \<Rightarrow> nat \<Rightarrow>
     secure_session \<Rightarrow> stream \<Rightarrow> 'h shared \<Rightarrow> conn \<times> 'h shared" where
  "message_loop lib handle client_role label env i s st sh =
     (case serve_one lib handle client_role label (env i) s st sh of
        (Open s' st', sh') \<Rightarrow> message_loop lib handle client_role label env (Suc i) s' st' sh'
      | (c, sh') \<Rightarrow> (c, sh'))"
  by pat_completeness auto
termination
  by (relation "measure (\<lambda>(lib, handle, role, label, env, i, s, st, sh). length (st_in st))")
     (auto dest: serve_one_consumes [OF sym])

declare message_loop.simps [simp del]

end
