(* ===== verification/Ipc_Client.thy ===== *)
theory Ipc_Client
  imports Ipc_Server
begin

text \<open>
  The client of the IPC server (\<open>cpoe/src/ipc/async_client.rs\<close>). A client keeps its stream and its
  session; \<open>connect\<close> takes the stream that the socket gave, and a fresh secret.
\<close>

datatype protocol_error = SessionError ipc_err | ServerError bytes | NoIdentity | Unexpected ipc_message

datatype client_error =
    ConnectionFailed | SendFailed | ReceiveFailed | SerializationFailed | DeserializationFailed
  | ConnectionClosed | NotConnected | MessageTooLarge nat | ProtocolError protocol_error | Timeout

record ipc_client =
  cl_path :: "bytes option"
  cl_stream :: "stream option"
  cl_session :: "secure_session option"

type_synonym 'a client_op = "(ipc_client, client_error, 'a) op"

definition client_new :: ipc_client where
  "client_new = \<lparr>cl_path = None, cl_stream = None, cl_session = None\<rparr>"

definition handshake_error :: "ipc_err \<Rightarrow> client_error" where
  "handshake_error e = (case e of
       WriteFailed \<Rightarrow> SendFailed | ReadEof \<Rightarrow> ReceiveFailed | ReadFailed \<Rightarrow> ReceiveFailed | TimedOut \<Rightarrow> Timeout
     | _ \<Rightarrow> ProtocolError (SessionError e))"

definition client_establish :: "ipc_lib \<Rightarrow> bytes \<Rightarrow> unit client_op" where
  "client_establish lib secret cl = (case cl_stream cl of
       None \<Rightarrow> (cl, Inl NotConnected)
     | Some st \<Rightarrow>
         (case establish_secure_session lib secret st of
            (st', Inl e) \<Rightarrow> (cl\<lparr>cl_stream := Some st'\<rparr>, Inl (handshake_error e))
          | (st', Inr s) \<Rightarrow> (cl\<lparr>cl_stream := Some st', cl_session := Some s\<rparr>, Inr ())))"

text \<open>\<open>connection\<close> is what the socket gave, \<open>None\<close> a connection that failed.\<close>

definition client_connect :: "ipc_lib \<Rightarrow> bytes \<Rightarrow> bytes \<Rightarrow> stream option \<Rightarrow> (client_error, ipc_client) result" where
  "client_connect lib secret path connection = (case connection of
       None \<Rightarrow> Inl ConnectionFailed
     | Some st \<Rightarrow>
         (case client_establish lib secret \<lparr>cl_path = Some path, cl_stream = Some st, cl_session = None\<rparr> of
            (cl, Inl e) \<Rightarrow> Inl e
          | (cl, Inr _) \<Rightarrow> Inr cl))"

definition client_disconnect :: "ipc_client \<Rightarrow> ipc_client" where
  "client_disconnect cl = cl\<lparr>cl_stream := None, cl_session := None\<rparr>"

definition client_reconnect :: "ipc_lib \<Rightarrow> bytes \<Rightarrow> stream option \<Rightarrow> unit client_op" where
  "client_reconnect lib secret connection cl = (case cl_path cl of
       None \<Rightarrow> (cl, Inl NotConnected)
     | Some _ \<Rightarrow>
         (case connection of
            None \<Rightarrow> (client_disconnect cl, Inl ConnectionFailed)
          | Some st \<Rightarrow> client_establish lib secret ((client_disconnect cl)\<lparr>cl_stream := Some st\<rparr>)))"

definition is_connected :: "ipc_client \<Rightarrow> bool" where
  "is_connected cl \<longleftrightarrow> cl_stream cl \<noteq> None"

definition send_message :: "ipc_lib \<Rightarrow> ipc_message \<Rightarrow> unit client_op" where
  "send_message lib msg cl = (case (cl_stream cl, cl_session cl) of
       (Some st, Some s) \<Rightarrow>
         (case il_encode lib msg of
            None \<Rightarrow> (cl, Inl SerializationFailed)
          | Some encoded \<Rightarrow>
              (case encrypt lib encoded s of
                 (s', Inl e) \<Rightarrow> (cl\<lparr>cl_session := Some s'\<rparr>, Inl (ProtocolError (SessionError e)))
               | (s', Inr payload) \<Rightarrow>
                   if MAX_MESSAGE_SIZE < length payload
                   then (cl\<lparr>cl_session := Some s'\<rparr>, Inl (MessageTooLarge (length payload)))
                   else (case write_frame payload st of
                      (st', Inr _) \<Rightarrow> (cl\<lparr>cl_stream := Some st', cl_session := Some s'\<rparr>, Inr ())
                    | (st', Inl e) \<Rightarrow>
                        if e = TimedOut then (client_disconnect cl, Inl Timeout)
                        else (cl\<lparr>cl_stream := Some st', cl_session := Some s'\<rparr>, Inl SendFailed))))
     | _ \<Rightarrow> (cl, Inl NotConnected))"

definition read_frame :: "stream \<Rightarrow> stream \<times> (client_error, bytes) result" where
  "read_frame st = (case read_exact 4 st of
       (st1, Inl e) \<Rightarrow> (st1, Inl (case e of ReadEof \<Rightarrow> ConnectionClosed | TimedOut \<Rightarrow> Timeout | _ \<Rightarrow> ReceiveFailed))
     | (st1, Inr len_buf) \<Rightarrow>
         (let len = le_val len_buf in
          if MAX_MESSAGE_SIZE < len then (st1, Inl (MessageTooLarge len))
          else case read_exact len st1 of
            (st2, Inl e) \<Rightarrow> (st2, Inl (if e = TimedOut then Timeout else ReceiveFailed))
          | (st2, Inr buf) \<Rightarrow> (st2, Inr buf)))"

definition recv_message :: "ipc_lib \<Rightarrow> ipc_message client_op" where
  "recv_message lib cl = (case cl_stream cl of
       None \<Rightarrow> (cl, Inl NotConnected)
     | Some st \<Rightarrow>
         (case read_frame st of
            (st', Inl e) \<Rightarrow> (if e = Timeout then client_disconnect cl else cl\<lparr>cl_stream := Some st'\<rparr>, Inl e)
          | (st', Inr buf) \<Rightarrow>
              (case cl_session cl of
                 None \<Rightarrow> (cl\<lparr>cl_stream := Some st'\<rparr>, Inl NotConnected)
               | Some s \<Rightarrow>
                   (case decrypt lib buf s of
                      (s', Inl e) \<Rightarrow> (cl\<lparr>cl_stream := Some st', cl_session := Some s'\<rparr>, Inl (ProtocolError (SessionError e)))
                    | (s', Inr plaintext) \<Rightarrow>
                        (cl\<lparr>cl_stream := Some st', cl_session := Some s'\<rparr>,
                         case il_decode lib plaintext of None \<Rightarrow> Inl DeserializationFailed | Some m \<Rightarrow> Inr m)))))"

definition client_request :: "ipc_lib \<Rightarrow> ipc_message \<Rightarrow> ipc_message client_op" where
  "client_request lib msg = op_bind (send_message lib msg) (\<lambda>_. recv_message lib)"

subsection \<open>The typed requests\<close>

text \<open>\<open>expect f\<close> reads the response: \<open>f\<close> gives the value of the expected ones, an error message is
  a failure, anything else unexpected.\<close>

definition expect :: "(ipc_message \<Rightarrow> 'a option) \<Rightarrow> ipc_message \<Rightarrow> 'a client_op" where
  "expect f m cl = (cl, case f m of Some x \<Rightarrow> Inr x
     | None \<Rightarrow> Inl (ProtocolError (case m of IpcError _ message \<Rightarrow> ServerError message | _ \<Rightarrow> Unexpected m)))"

definition client_handshake :: "ipc_lib \<Rightarrow> bytes \<Rightarrow> bytes client_op" where
  "client_handshake lib version = op_bind (client_request lib (Handshake version))
     (expect (\<lambda>m. case m of HandshakeAck _ server_version \<Rightarrow> Some server_version | _ \<Rightarrow> None))"

definition client_heartbeat :: "ipc_lib \<Rightarrow> nat client_op" where
  "client_heartbeat lib = op_bind (client_request lib Heartbeat)
     (expect (\<lambda>m. case m of HeartbeatAck timestamp_ns \<Rightarrow> Some timestamp_ns | _ \<Rightarrow> None))"

definition client_start_witnessing :: "ipc_lib \<Rightarrow> bytes \<Rightarrow> unit client_op" where
  "client_start_witnessing lib file_path = op_bind (client_request lib (StartWitnessing file_path))
     (expect (\<lambda>m. case m of IpcOk _ \<Rightarrow> Some () | _ \<Rightarrow> None))"

definition client_stop_witnessing :: "ipc_lib \<Rightarrow> bytes option \<Rightarrow> unit client_op" where
  "client_stop_witnessing lib file_path = op_bind (client_request lib (StopWitnessing file_path))
     (expect (\<lambda>m. case m of IpcOk _ \<Rightarrow> Some () | _ \<Rightarrow> None))"

definition client_get_status :: "ipc_lib \<Rightarrow> (bool \<times> bytes list \<times> nat) client_op" where
  "client_get_status lib = op_bind (client_request lib GetStatus)
     (expect (\<lambda>m. case m of StatusResponse running files uptime \<Rightarrow> Some (running, files, uptime) | _ \<Rightarrow> None))"

definition client_get_attestation_nonce :: "ipc_lib \<Rightarrow> bytes client_op" where
  "client_get_attestation_nonce lib = op_bind (client_request lib GetAttestationNonce) (\<lambda>m.
     case m of IpcError NotInitialized _ \<Rightarrow> op_fail (ProtocolError NoIdentity)
     | _ \<Rightarrow> expect (\<lambda>m. case m of AttestationNonceResponse nonce \<Rightarrow> Some nonce | _ \<Rightarrow> None) m)"

definition client_export_with_nonce ::
    "ipc_lib \<Rightarrow> bytes \<Rightarrow> bytes \<Rightarrow> bytes \<Rightarrow> (bytes \<times> bytes \<times> bytes option \<times> bytes option) client_op" where
  "client_export_with_nonce lib file_path title verifier_nonce =
     op_bind (client_request lib (ExportWithNonce file_path title verifier_nonce)) (\<lambda>m.
       case m of NonceExportResponse False _ _ _ _ _ (Some err) \<Rightarrow> op_fail (ProtocolError (ServerError err))
       | _ \<Rightarrow> expect (\<lambda>m. case m of
             NonceExportResponse True (Some path) (Some hash) vn an _ _ \<Rightarrow> Some (path, hash, vn, an)
           | _ \<Rightarrow> None) m)"

definition client_verify_with_nonce ::
    "ipc_lib \<Rightarrow> bytes \<Rightarrow> bytes option \<Rightarrow> (bool \<times> bool \<times> nat \<times> nat \<times> bytes list) client_op" where
  "client_verify_with_nonce lib evidence_path expected_nonce =
     op_bind (client_request lib (VerifyWithNonce evidence_path expected_nonce))
       (expect (\<lambda>m. case m of
           NonceVerifyResponse valid nonce_valid count elapsed _ _ errors \<Rightarrow> Some (valid, nonce_valid, count, elapsed, errors)
         | _ \<Rightarrow> None))"

end
