(* ===== verification/Ipc_Cas.thy ===== *)
theory Ipc_Cas
  imports Ipc_Crypto
begin

text \<open>
  The sequence counters under several threads. \<open>encrypt\<close>, \<open>decrypt\<close> and the \<open>send\<close> of the
  in-process channel reserve a number with the same loop: load the counter, test it, and
  \<open>compare_exchange\<close> it with its successor; when another thread was faster, start again. Each
  call is a thread here, and the atomic operations of the threads interleave.
\<close>

text \<open>What a call wants: any number below a limit (\<open>encrypt\<close>, \<open>send\<close>), or exactly the number of
  its message (\<open>decrypt\<close>).\<close>

datatype cas_request = Below nat | Exactly nat

datatype cas_thread =
    Start cas_request | Loaded cas_request nat
  | Took nat \<comment> \<open>the loop ended with this number\<close>
  | Refused nat \<comment> \<open>the test failed for this value: exhausted, or out of sequence\<close>
  | Overflowed \<comment> \<open>the addition panicked\<close>

fun passes :: "cas_request \<Rightarrow> nat \<Rightarrow> bool" where
  "passes (Below limit) v \<longleftrightarrow> v < limit"
| "passes (Exactly seq) v \<longleftrightarrow> v = seq"

text \<open>One atomic operation of a thread on a counter that advances by \<open>k\<close>.\<close>

fun cas_next :: "nat \<Rightarrow> nat \<Rightarrow> cas_thread \<Rightarrow> nat \<times> cas_thread" where
  "cas_next k value (Start r) =
     (value, if \<not> passes r value then Refused value
             else if \<not> value + k < 2 ^ 64 then Overflowed else Loaded r value)"
| "cas_next k value (Loaded r v) = (if value = v then (v + k, Took v) else (value, Start r))"
| "cas_next k value t = (value, t)"

inductive cas_run :: "nat \<Rightarrow> nat \<Rightarrow> cas_thread list \<Rightarrow> nat \<Rightarrow> cas_thread list \<Rightarrow> bool" for k value0 threads0 where
  init: "cas_run k value0 threads0 value0 threads0"
| step: "cas_run k value0 threads0 value threads \<Longrightarrow> i < length threads \<Longrightarrow>
     cas_next k value (threads ! i) = (value', t) \<Longrightarrow> cas_run k value0 threads0 value' (threads[i := t])"

definition all_start :: "cas_thread list \<Rightarrow> bool" where
  "all_start threads \<longleftrightarrow> (\<forall>t \<in> set threads. \<exists>r. t = Start r)"

text \<open>The contract of such a counter: threads that took the same number are the same thread,
  and every number taken lies on the counter's path from its first value.\<close>

fun thread_ok :: "nat \<Rightarrow> nat \<Rightarrow> nat \<Rightarrow> cas_thread \<Rightarrow> bool" where
  "thread_ok k value0 value (Took v) \<longleftrightarrow> value0 \<le> v \<and> v < value \<and> k dvd v - value0 \<and> v + k < 2 ^ 64"
| "thread_ok k value0 value (Loaded r v) \<longleftrightarrow> v + k < 2 ^ 64"
| "thread_ok k value0 value t \<longleftrightarrow> True"

definition counter_inv :: "nat \<Rightarrow> nat \<Rightarrow> nat \<Rightarrow> cas_thread list \<Rightarrow> bool" where
  "counter_inv k value0 value threads \<longleftrightarrow>
     value0 \<le> value \<and> k dvd value - value0 \<and>
     (\<forall>i < length threads. thread_ok k value0 value (threads ! i)) \<and>
     (\<forall>i < length threads. \<forall>j < length threads. \<forall>v. threads ! i = Took v \<longrightarrow> threads ! j = Took v \<longrightarrow> i = j)"

lemma thread_ok_mono: "thread_ok k value0 value t \<Longrightarrow> thread_ok k value0 (value + n) t"
  by (cases t) auto

locale cas_counter =
  fixes k :: nat
  assumes k_pos: "0 < k"
begin

lemma same_thread: "threads ! i = t \<Longrightarrow> threads[i := t] = threads"
  by auto

lemma counter_inv_start:
  assumes "all_start threads"
  shows "counter_inv k value0 value0 threads"
proof -
  have "\<exists>r. threads ! i = Start r" if "i < length threads" for i
    using assms that by (auto simp: all_start_def)
  then show ?thesis by (fastforce simp: counter_inv_def)
qed

lemma counter_inv_update:
  assumes inv: "counter_inv k value0 value threads" and i: "i < length threads"
    and t: "thread_ok k value0 value t" "\<And>v. t \<noteq> Took v"
  shows "counter_inv k value0 value (threads[i := t])"
  using assms unfolding counter_inv_def by (auto simp: nth_list_update split: if_splits)

lemma counter_inv_take:
  assumes inv: "counter_inv k value0 value threads" and i: "i < length threads"
    and l: "threads ! i = Loaded r value"
  shows "counter_inv k value0 (value + k) (threads[i := Took value])"
proof -
  have v: "value0 \<le> value" "k dvd value - value0"
    and ok: "\<And>j. j < length threads \<Longrightarrow> thread_ok k value0 value (threads ! j)"
    and uniq: "\<And>a b u. a < length threads \<Longrightarrow> b < length threads \<Longrightarrow> threads ! a = Took u \<Longrightarrow>
      threads ! b = Took u \<Longrightarrow> a = b"
    using inv unfolding counter_inv_def by blast+
  have f: "value + k < 2 ^ 64" using ok [OF i] l by simp
  have d: "k dvd value + k - value0"
    using v by (metis Nat.add_diff_assoc2 dvd_add_triv_right_iff)
  have old: "u < value" if "j < length threads" "threads ! j = Took u" for j u
    using ok [OF that(1)] that(2) by simp
  show ?thesis
    unfolding counter_inv_def
  proof (intro conjI allI impI)
    show "thread_ok k value0 (value + k) (threads[i := Took value] ! j)" if "j < length (threads[i := Took value])" for j
      using that ok [of j] v f k_pos by (cases "j = i") (auto intro: thread_ok_mono)
    show "a = b" if "a < length (threads[i := Took value])" "b < length (threads[i := Took value])"
      "threads[i := Took value] ! a = Took u" "threads[i := Took value] ! b = Took u" for a b u
      using that old [of a u] old [of b u] uniq [of a b u] by (cases "a = i"; cases "b = i") auto
  qed (use v d in simp_all)
qed

lemma counter_inv_step:
  assumes inv: "counter_inv k value0 value threads" and i: "i < length threads"
    and s: "cas_next k value (threads ! i) = (value', t)"
  shows "counter_inv k value0 value' (threads[i := t])"
proof (cases "threads ! i")
  case (Start r)
  with s have "value' = value" "thread_ok k value0 value t" "\<And>v. t \<noteq> Took v"
    by (auto split: if_splits)
  then show ?thesis using counter_inv_update [OF inv i] by blast
next
  case (Loaded r v)
  show ?thesis
  proof (cases "value = v")
    case True
    with Loaded s counter_inv_take [OF inv i] show ?thesis by auto
  next
    case False
    with Loaded s have "value' = value" "t = Start r" by auto
    then show ?thesis using counter_inv_update [OF inv i, of "Start r"] by simp
  qed
qed (use s inv in \<open>auto simp: same_thread\<close>)

lemma counter_inv_run:
  assumes "cas_run k value0 threads0 value threads" "all_start threads0"
  shows "counter_inv k value0 value threads"
  using assms by (induction rule: cas_run.induct) (auto intro: counter_inv_start counter_inv_step)

lemma taken_once:
  assumes "cas_run k value0 threads0 value threads" "all_start threads0"
    "i < length threads" "j < length threads" "threads ! i = Took v" "threads ! j = Took v"
  shows "i = j"
  using counter_inv_run [OF assms(1,2)] assms(3-) unfolding counter_inv_def by blast

lemma taken_path:
  assumes "cas_run k value0 threads0 value threads" "all_start threads0"
    "i < length threads" "threads ! i = Took v"
  shows "value0 \<le> v \<and> v + k < 2 ^ 64 \<and> k dvd v - value0"
  using counter_inv_run [OF assms(1,2)] assms(3-) unfolding counter_inv_def by (metis thread_ok.simps(1))

lemma run_length:
  "cas_run k value0 threads0 value threads \<Longrightarrow> length threads = length threads0"
  by (induction rule: cas_run.induct) simp_all

end

interpretation session_counter: cas_counter 2
  by unfold_locales simp

interpretation channel_counter: cas_counter 1
  by unfold_locales simp

text \<open>The sequential operations are runs of a single thread.\<close>

lemma cas_run_alone:
  assumes "passes r value" "value + k < 2 ^ 64"
  shows "cas_run k value [Start r] (value + k) [Took value]"
proof -
  have "cas_run k value [Start r] value ([Start r][0 := Loaded r value])"
    by (rule cas_run.step [OF cas_run.init]) (use assms in simp_all)
  then have "cas_run k value [Start r] (value + k) (([Start r][0 := Loaded r value])[0 := Took value])"
    by (rule cas_run.step) simp_all
  then show ?thesis by simp
qed

end
