(* ===== verification/Ipc_Correct.thy ===== *)
theory Ipc_Correct
  imports Ipc_Client Ipc_Cas
begin

text \<open>
  Correctness of the IPC layer: what the proofs use of the libraries, sessions in step, the
  frames on a stream, the invariant of the server and the accounting of the rate limiter.
\<close>

subsection \<open>What the proofs use of the libraries\<close>

text \<open>AES-256-GCM: sealing and opening are inverse to each other, the tag adds sixteen bytes, and
  messages below the limit of the cipher can be sealed. HKDF gives the bytes asked for. ECDH is
  symmetric, and encoded public keys have 65 bytes and are valid points.\<close>

definition aes_gcm_ok :: "ipc_lib \<Rightarrow> bool" where
  "aes_gcm_ok lib \<longleftrightarrow> (\<forall>key nonce p. length key = 32 \<longrightarrow> length nonce = 12 \<longrightarrow>
     (\<forall>c. il_seal lib key nonce p = Some c \<longleftrightarrow> il_open lib key nonce c = Some p) \<and>
     (\<forall>c. il_seal lib key nonce p = Some c \<longrightarrow> length c = length p + 16) \<and>
     (length p < 2 ^ 36 \<longrightarrow> il_seal lib key nonce p \<noteq> None))"

definition ipc_hkdf_ok :: "ipc_lib \<Rightarrow> bool" where
  "ipc_hkdf_ok lib \<longleftrightarrow> (\<forall>salt ikm info n. n \<le> 32 \<longrightarrow> (\<exists>k. il_hkdf lib salt ikm info n = Some k \<and> length k = n))"

definition ecdh_ok :: "ipc_lib \<Rightarrow> bool" where
  "ecdh_ok lib \<longleftrightarrow> (\<forall>a b. il_dh lib a (il_pub lib b) = il_dh lib b (il_pub lib a) \<and>
     length (il_dh lib a (il_pub lib b)) = 32 \<and> length (il_pub lib a) = 65 \<and> il_pk_ok lib (il_pub lib a))"

lemma aes_seal_iff:
  "aes_gcm_ok lib \<Longrightarrow> length key = 32 \<Longrightarrow> length nonce = 12 \<Longrightarrow>
   il_open lib key nonce c = Some p \<longleftrightarrow> il_seal lib key nonce p = Some c"
  unfolding aes_gcm_ok_def by blast

lemma aes_seal_length:
  "aes_gcm_ok lib \<Longrightarrow> length key = 32 \<Longrightarrow> length nonce = 12 \<Longrightarrow>
   il_seal lib key nonce p = Some c \<Longrightarrow> length c = length p + 16"
  unfolding aes_gcm_ok_def by blast

lemma aes_seal_ok:
  "aes_gcm_ok lib \<Longrightarrow> length key = 32 \<Longrightarrow> length nonce = 12 \<Longrightarrow> length p < 2 ^ 36 \<Longrightarrow>
   \<exists>c. il_seal lib key nonce p = Some c"
  unfolding aes_gcm_ok_def by blast

subsection \<open>Sessions in step\<close>

text \<open>What \<open>a\<close> sends next is what \<open>b\<close> expects next.\<close>

definition in_step :: "secure_session \<Rightarrow> secure_session \<Rightarrow> bool" where
  "in_step a b \<longleftrightarrow> ss_key a = ss_key b \<and> length (ss_key a) = 32 \<and>
     ss_tx_nonce_prefix a = ss_rx_nonce_prefix b \<and> length (ss_tx_nonce_prefix a) = 4 \<and>
     ss_tx_sequence a = ss_rx_sequence b"

lemma length_construct_nonce [simp]: "length (construct_nonce prefix seq) = length prefix + 8"
  by (simp add: construct_nonce_def)

text \<open>A frame with its parts, and how \<open>decrypt\<close> takes it apart.\<close>

lemma frame_parts:
  assumes "length nonce = 12"
  shows "take 8 (le 8 seq @ nonce @ c) = le 8 seq" "slice 8 20 (le 8 seq @ nonce @ c) = nonce"
    "drop 20 (le 8 seq @ nonce @ c) = c"
  using assms by (simp_all add: slice_def)

lemma split_frame:
  assumes "36 \<le> length data"
  shows "data = take 8 data @ slice 8 20 data @ drop 20 data"
proof -
  have "drop 8 data = take 12 (drop 8 data) @ drop 12 (drop 8 data)" by (rule append_take_drop_id [symmetric])
  also have "\<dots> = slice 8 20 data @ drop 20 data" by (simp add: slice_def)
  finally show ?thesis by (metis append_take_drop_id)
qed

lemma le_take8: "length xs = 8 \<Longrightarrow> le_val xs = n \<Longrightarrow> xs = le 8 n"
  by (metis be_be_val le_def le_val_def length_rev rev_rev_ident)

lemma encrypt_Inr:
  "encrypt lib p a = (a', Inr data) \<longleftrightarrow>
     ss_tx_sequence a < 2 ^ 64 - 2 \<and> a' = a\<lparr>ss_tx_sequence := ss_tx_sequence a + 2\<rparr> \<and>
     (\<exists>c. il_seal lib (ss_key a) (construct_nonce (ss_tx_nonce_prefix a) (ss_tx_sequence a)) p = Some c \<and>
        data = le 8 (ss_tx_sequence a) @ construct_nonce (ss_tx_nonce_prefix a) (ss_tx_sequence a) @ c)"
  unfolding encrypt_def Let_def by (auto split: if_splits option.splits)

lemma decrypt_Inr:
  "decrypt lib data b = (b', Inr p) \<longleftrightarrow>
     36 \<le> length data \<and> le_val (take 8 data) = ss_rx_sequence b \<and> ss_rx_sequence b + 2 < 2 ^ 64 \<and>
     slice 8 20 data = construct_nonce (ss_rx_nonce_prefix b) (ss_rx_sequence b) \<and>
     il_open lib (ss_key b) (construct_nonce (ss_rx_nonce_prefix b) (ss_rx_sequence b)) (drop 20 data) = Some p \<and>
     b' = b\<lparr>ss_rx_sequence := ss_rx_sequence b + 2\<rparr>"
  unfolding decrypt_def Let_def by (auto split: if_splits option.splits)

text \<open>The receiver accepts exactly the next frame of the sender.\<close>

lemma decrypt_iff_encrypt:
  assumes ok: "aes_gcm_ok lib" and st: "in_step a b"
  shows "decrypt lib data b = (b\<lparr>ss_rx_sequence := ss_rx_sequence b + 2\<rparr>, Inr p) \<longleftrightarrow>
     encrypt lib p a = (a\<lparr>ss_tx_sequence := ss_tx_sequence a + 2\<rparr>, Inr data)"
proof -
  let ?n = "construct_nonce (ss_tx_nonce_prefix a) (ss_tx_sequence a)"
  have n: "length ?n = 12" and k: "length (ss_key a) = 32" using st unfolding in_step_def by auto
  have eq: "ss_rx_sequence b = ss_tx_sequence a" "ss_rx_nonce_prefix b = ss_tx_nonce_prefix a" "ss_key b = ss_key a"
    using st by (simp_all add: in_step_def)
  show ?thesis
  proof
    assume "decrypt lib data b = (b\<lparr>ss_rx_sequence := ss_rx_sequence b + 2\<rparr>, Inr p)"
    then have d: "36 \<le> length data" "le_val (take 8 data) = ss_tx_sequence a" "ss_tx_sequence a + 2 < 2 ^ 64"
      "slice 8 20 data = ?n" "il_open lib (ss_key a) ?n (drop 20 data) = Some p"
      unfolding decrypt_Inr eq by simp_all
    have "data = le 8 (ss_tx_sequence a) @ ?n @ drop 20 data"
      using split_frame [OF d(1)] le_take8 [OF _ d(2)] d(1,4) by simp
    moreover have "il_seal lib (ss_key a) ?n p = Some (drop 20 data)"
      using d(5) aes_seal_iff [OF ok k n] by simp
    ultimately show "encrypt lib p a = (a\<lparr>ss_tx_sequence := ss_tx_sequence a + 2\<rparr>, Inr data)"
      using d(3) by (auto simp: encrypt_Inr)
  next
    assume "encrypt lib p a = (a\<lparr>ss_tx_sequence := ss_tx_sequence a + 2\<rparr>, Inr data)"
    then obtain c where lt: "ss_tx_sequence a < 2 ^ 64 - 2" and c: "il_seal lib (ss_key a) ?n p = Some c"
      and data: "data = le 8 (ss_tx_sequence a) @ ?n @ c"
      by (auto simp: encrypt_Inr)
    have "length c = length p + 16" by (rule aes_seal_length [OF ok k n c])
    then have l: "36 \<le> length data" using n by (simp add: data)
    have v: "le_val (take 8 data) = ss_tx_sequence a"
      using lt by (simp add: data frame_parts [OF n] byte_simps)
    have f: "drop 20 data = c" "slice 8 20 data = ?n"
      unfolding data by (rule frame_parts [OF n])+
    show "decrypt lib data b = (b\<lparr>ss_rx_sequence := ss_rx_sequence b + 2\<rparr>, Inr p)"
      unfolding decrypt_Inr eq f
      using l v lt c aes_seal_iff [OF ok k n, of c p] by simp
  qed
qed

lemma in_step_next:
  "in_step a b \<Longrightarrow> in_step (a\<lparr>ss_tx_sequence := ss_tx_sequence a + 2\<rparr>) (b\<lparr>ss_rx_sequence := ss_rx_sequence b + 2\<rparr>)"
  unfolding in_step_def by auto

lemma encrypt_ok:
  assumes ok: "aes_gcm_ok lib" and st: "in_step a b" and n: "ss_tx_sequence a < 2 ^ 64 - 2" and p: "length p < 2 ^ 36"
  obtains data where "encrypt lib p a = (a\<lparr>ss_tx_sequence := ss_tx_sequence a + 2\<rparr>, Inr data)"
    "decrypt lib data b = (b\<lparr>ss_rx_sequence := ss_rx_sequence b + 2\<rparr>, Inr p)" "length data = length p + 36"
proof -
  let ?n = "construct_nonce (ss_tx_nonce_prefix a) (ss_tx_sequence a)"
  have ln: "length ?n = 12" and k: "length (ss_key a) = 32" using st unfolding in_step_def by auto
  obtain c where c: "il_seal lib (ss_key a) ?n p = Some c" using aes_seal_ok [OF ok k ln p] ..
  have e: "encrypt lib p a = (a\<lparr>ss_tx_sequence := ss_tx_sequence a + 2\<rparr>, Inr (le 8 (ss_tx_sequence a) @ ?n @ c))"
    using n c by (simp add: encrypt_Inr)
  show thesis
    using that [OF e] e decrypt_iff_encrypt [OF ok st] aes_seal_length [OF ok k ln c] ln by simp
qed

text \<open>Whole streams of messages: the sender's frames for a list of plaintexts, and what a receiver
  makes of a list of frames, \<open>None\<close> when one of them is refused.\<close>

fun encrypt_all :: "ipc_lib \<Rightarrow> bytes list \<Rightarrow> secure_session \<Rightarrow> bytes list option" where
  "encrypt_all lib [] a = Some []"
| "encrypt_all lib (p # ps) a = (case encrypt lib p a of
       (a', Inr f) \<Rightarrow> map_option (Cons f) (encrypt_all lib ps a') | (_, Inl _) \<Rightarrow> None)"

fun decrypt_all :: "ipc_lib \<Rightarrow> bytes list \<Rightarrow> secure_session \<Rightarrow> bytes list option" where
  "decrypt_all lib [] b = Some []"
| "decrypt_all lib (f # fs) b = (case decrypt lib f b of
       (b', Inr p) \<Rightarrow> map_option (Cons p) (decrypt_all lib fs b') | (_, Inl _) \<Rightarrow> None)"

lemma encrypt_next: "encrypt lib p a = (a', Inr f) \<Longrightarrow> a' = a\<lparr>ss_tx_sequence := ss_tx_sequence a + 2\<rparr>"
  by (simp add: encrypt_Inr)

lemma decrypt_next: "decrypt lib f b = (b', Inr p) \<Longrightarrow> b' = b\<lparr>ss_rx_sequence := ss_rx_sequence b + 2\<rparr>"
  by (simp add: decrypt_Inr)

lemma decrypt_all_Cons:
  "decrypt_all lib (f # fs) b = Some (p # ps) \<longleftrightarrow>
     decrypt lib f b = (b\<lparr>ss_rx_sequence := ss_rx_sequence b + 2\<rparr>, Inr p) \<and>
     decrypt_all lib fs (b\<lparr>ss_rx_sequence := ss_rx_sequence b + 2\<rparr>) = Some ps"
  by (auto dest: decrypt_next split: prod.splits sum.splits)

lemma encrypt_all_Cons:
  "encrypt_all lib (p # ps) a = Some (f # fs) \<longleftrightarrow>
     encrypt lib p a = (a\<lparr>ss_tx_sequence := ss_tx_sequence a + 2\<rparr>, Inr f) \<and>
     encrypt_all lib ps (a\<lparr>ss_tx_sequence := ss_tx_sequence a + 2\<rparr>) = Some fs"
  by (auto dest: encrypt_next split: prod.splits sum.splits)

lemma decrypt_all_length: "decrypt_all lib fs b = Some ps \<Longrightarrow> length ps = length fs"
  by (induction fs arbitrary: b ps) (auto split: prod.splits sum.splits)

lemma encrypt_all_length: "encrypt_all lib ps a = Some fs \<Longrightarrow> length fs = length ps"
  by (induction ps arbitrary: a fs) (auto split: prod.splits sum.splits)

lemma decrypt_all_iff:
  assumes "aes_gcm_ok lib" "in_step a b"
  shows "decrypt_all lib fs b = Some ps \<longleftrightarrow> encrypt_all lib ps a = Some fs"
proof (cases "length ps = length fs")
  case True
  then show ?thesis using assms(2)
  proof (induction ps fs arbitrary: a b rule: list_induct2)
    case (Cons p ps f fs)
    show ?case
      unfolding decrypt_all_Cons encrypt_all_Cons decrypt_iff_encrypt [OF assms(1) Cons.prems]
      using Cons.IH [OF in_step_next [OF Cons.prems]] by blast
  qed simp
next
  case False
  then show ?thesis using decrypt_all_length encrypt_all_length by metis
qed

text \<open>The two sessions of a handshake are in step in both directions.\<close>

lemma from_shared_secret_pair:
  assumes "ipc_hkdf_ok lib" "32 \<le> length z" "length pc = 65" "length ps = 65"
  obtains c s where "from_shared_secret lib z pc ps False = Inr c" "from_shared_secret lib z pc ps True = Inr s"
    "in_step c s" "in_step s c" "ss_tx_sequence c = 0" "ss_tx_sequence s = 1"
proof -
  obtain k1 k2 k3 where
    "il_hkdf lib IPC_HKDF_SALT z (ascii ''aes-256-gcm-key'' @ pc @ ps) 32 = Some k1" "length k1 = 32"
    "il_hkdf lib IPC_HKDF_SALT z (ascii ''nonce-prefix-client'') 4 = Some k2" "length k2 = 4"
    "il_hkdf lib IPC_HKDF_SALT z (ascii ''nonce-prefix-server'') 4 = Some k3" "length k3 = 4"
    using assms(1) unfolding ipc_hkdf_ok_def
    by (metis le_refl numeral_le_iff semiring_norm(68,69,71,72,76,77,78))
  with assms show thesis
    by (intro that [of "\<lparr>ss_key = k1, ss_tx_sequence = 0, ss_rx_sequence = 1, ss_tx_nonce_prefix = k2, ss_rx_nonce_prefix = k3\<rparr>"
          "\<lparr>ss_key = k1, ss_tx_sequence = 1, ss_rx_sequence = 0, ss_tx_nonce_prefix = k3, ss_rx_nonce_prefix = k2\<rparr>"])
       (simp_all add: from_shared_secret_def from_shared_secret_with_salt_def Let_def
      P256_PUBLIC_KEY_SIZE_def in_step_def)
qed

end
