(* ===== verification/Ipc_Exchange.thy ===== *)
theory Ipc_Exchange
  imports Ipc_Correct
begin

text \<open>
  The whole exchange between a client and the server: the frames on the two streams, the
  handshake, and the abstract request-response server that the encrypted connection implements.
\<close>

subsection \<open>Frames\<close>

text \<open>A stream without faults: what is left to read, and what was written.\<close>

definition calm :: "bytes \<Rightarrow> bytes \<Rightarrow> stream" where
  "calm inp out = \<lparr>st_in = inp, st_end = Eof, st_out = out, st_faults = []\<rparr>"

definition wire_frame :: "bytes \<Rightarrow> bytes" where
  "wire_frame f = le 4 (length f) @ f"

lemma read_calm: "length xs = n \<Longrightarrow> read_exact n (calm (xs @ rest) out) = (calm rest out, Inr xs)"
  by (simp add: read_exact_def calm_def)

lemma read_calm_end: "0 < n \<Longrightarrow> read_exact n (calm [] out) = (calm [] out, Inl ReadEof)"
  by (simp add: read_exact_def calm_def)

lemma write_calm: "write_all bs (calm inp out) = (calm inp (out @ bs), Inr ())"
  by (simp add: write_all_def calm_def)

lemma flush_calm: "flush (calm inp out) = (calm inp out, Inr ())"
  by (simp add: flush_def write_calm)

lemma write_frame_calm: "write_frame f (calm inp out) = (calm inp (out @ wire_frame f), Inr ())"
  by (simp add: write_frame_def op_bind_def write_calm flush_calm wire_frame_def)

lemma frame_length_read: "length f < 2 ^ 32 \<Longrightarrow> le_val (le 4 (length f)) = length f"
  by (simp add: byte_simps)

lemma frame_unfold: "wire_frame f @ rest = le 4 (length f) @ (f @ rest)"
  by (simp add: wire_frame_def)

lemmas calm_simps = read_calm read_calm_end write_calm flush_calm write_frame_calm

subsection \<open>The abstract server\<close>

text \<open>Requests and responses without the stream and the encryption.\<close>

definition abstract_reply ::
    "ipc_lib \<Rightarrow> ('h \<Rightarrow> ipc_message \<Rightarrow> 'h \<times> ipc_message option) \<Rightarrow> ipc_role \<Rightarrow> bytes \<Rightarrow> msg_env \<Rightarrow> ipc_message \<Rightarrow>
     'h shared \<Rightarrow> ipc_message \<times> 'h shared" where
  "abstract_reply lib handle role label env msg sh =
     (case validate_paths (me_fs env) (me_wall env) msg of
        Inl e \<Rightarrow> (IpcError PermissionDenied (il_refusal_text lib e), sh)
      | Inr _ \<Rightarrow>
          if role < required_role msg
          then (IpcError PermissionDenied (permission_text (required_role msg) role), record_access env msg role label Denied sh)
          else case rate_check (me_now env) (rate_limit_key msg) (sh_limiter sh) of
            (rl, False) \<Rightarrow> (IpcError RateLimited (rate_text (rate_limit_key msg)), sh\<lparr>sh_limiter := rl\<rparr>)
          | (rl, True) \<Rightarrow>
              (let sh1 = record_access env msg role label Success (sh\<lparr>sh_limiter := rl\<rparr>) in
               case handle (sh_handler sh1) msg of
                 (h, r) \<Rightarrow> (case r of Some m \<Rightarrow> m | None \<Rightarrow> IpcError InternalError (ascii ''Internal processing error''),
                            sh1\<lparr>sh_handler := h\<rparr>)))"

fun abstract_server ::
    "ipc_lib \<Rightarrow> ('h \<Rightarrow> ipc_message \<Rightarrow> 'h \<times> ipc_message option) \<Rightarrow> ipc_role \<Rightarrow> bytes \<Rightarrow> (nat \<Rightarrow> msg_env) \<Rightarrow> nat \<Rightarrow>
     ipc_message list \<Rightarrow> 'h shared \<Rightarrow> ipc_message list \<times> 'h shared" where
  "abstract_server lib handle role label env i [] sh = ([], sh)"
| "abstract_server lib handle role label env i (m # ms) sh =
     (case abstract_reply lib handle role label (env i) m sh of
        (r, sh1) \<Rightarrow> (case abstract_server lib handle role label env (Suc i) ms sh1 of (rs, sh2) \<Rightarrow> (r # rs, sh2)))"

text \<open>A message that the JSON codec carries and that fits into a frame.\<close>

definition wire_ok :: "ipc_lib \<Rightarrow> ipc_message \<Rightarrow> bool" where
  "wire_ok lib m \<longleftrightarrow> (case il_encode lib m of None \<Rightarrow> False
     | Some b \<Rightarrow> il_decode lib b = Some m \<and> length b + 36 \<le> MAX_MESSAGE_SIZE)"

definition wire :: "ipc_lib \<Rightarrow> ipc_message \<Rightarrow> bytes" where
  "wire lib m = the (il_encode lib m)"

lemma wire_okD:
  assumes "wire_ok lib m"
  shows "il_encode lib m = Some (wire lib m)" "il_decode lib (wire lib m) = Some m"
    "length (wire lib m) + 36 \<le> 262144"
  using assms by (auto simp: wire_ok_def wire_def MAX_MESSAGE_SIZE_def split: option.splits)

abbreviation tx_next :: "secure_session \<Rightarrow> secure_session" where
  "tx_next s \<equiv> s\<lparr>ss_tx_sequence := ss_tx_sequence s + 2\<rparr>"

abbreviation rx_next :: "secure_session \<Rightarrow> secure_session" where
  "rx_next s \<equiv> s\<lparr>ss_rx_sequence := ss_rx_sequence s + 2\<rparr>"

text \<open>One message is answered with one frame, which holds the abstract reply.\<close>

lemma send_encrypted_calm:
  assumes "encrypt lib p s = (s', Inr g)" "length g < 2 ^ 32"
  shows "send_encrypted lib p s (calm inp out) = ((s', calm inp (out @ wire_frame g)), Inr ())"
  using assms by (simp add: send_encrypted_def write_frame_calm)

lemma reply_calm:
  assumes "il_encode lib r = Some p" "encrypt lib p s = (s', Inr g)" "length g < 2 ^ 32"
  shows "opened (best_effort lib r s (calm inp out)) = Open s' (calm inp (out @ wire_frame g))"
    "send_response lib (Some r) s (calm inp out) = Open s' (calm inp (out @ wire_frame g))"
    "r = IpcError InternalError (ascii ''Internal processing error'') \<Longrightarrow>
     send_response lib None s (calm inp out) = Open s' (calm inp (out @ wire_frame g))"
  using assms by (auto simp: best_effort_def send_response_def opened_def send_encrypted_calm)

lemma serve_message_calm:
  assumes m: "il_decode lib q = Some m" and r: "abstract_reply lib handle role label env m sh = (r, sh')"
    and e: "il_encode lib r = Some p" "encrypt lib p s = (s', Inr g)" "length g < 2 ^ 32"
  shows "serve_message lib handle role label env q s (calm inp out) sh = (Open s' (calm inp (out @ wire_frame g)), sh')"
proof (cases "validate_paths (me_fs env) (me_wall env) m")
  case (Inl e')
  with m r reply_calm(1) [OF e] show ?thesis by (auto simp: serve_message_eq handle_message_def abstract_reply_def)
next
  case (Inr u)
  note v = this
  obtain rl ok where rc: "rate_check (me_now env) (rate_limit_key m) (sh_limiter sh) = (rl, ok)" by fastforce
  consider "role < required_role m" | "\<not> role < required_role m" "\<not> ok" | "\<not> role < required_role m" ok
    by blast
  then show ?thesis
  proof cases
    case 1
    with m r v reply_calm(1) [OF e] show ?thesis by (auto simp: serve_message_eq handle_message_def abstract_reply_def)
  next
    case 2
    with m r v rc reply_calm(1) [OF e] show ?thesis by (auto simp: serve_message_eq handle_message_def abstract_reply_def)
  next
    case 3
    let ?sh1 = "record_access env m role label Success (sh\<lparr>sh_limiter := rl\<rparr>)"
    obtain h x where h: "handle (sh_handler ?sh1) m = (h, x)" by fastforce
    show ?thesis
      using 3 m r v rc h reply_calm(2,3) [OF e]
      by (cases x) (auto simp: serve_message_eq handle_message_def abstract_reply_def Let_def)
  qed
qed

lemma serve_one_calm:
  assumes ok: "aes_gcm_ok lib" and cs: "in_step c s" and f: "encrypt lib q c = (tx_next c, Inr f)"
    and lf: "length f \<le> MAX_MESSAGE_SIZE"
    and m: "il_decode lib q = Some m" and r: "abstract_reply lib handle role label env m sh = (r, sh')"
    and e: "il_encode lib r = Some p" "encrypt lib p s = (tx_next s, Inr g)" "length g < 2 ^ 32"
  shows "serve_one lib handle role label env s (calm (wire_frame f @ rest) out) sh =
    (Open (tx_next (rx_next s)) (calm rest (out @ wire_frame g)), sh')"
proof -
  have d: "decrypt lib f s = (rx_next s, Inr q)" using decrypt_iff_encrypt [OF ok cs] f by simp
  then have l: "length f \<noteq> 0" by (auto simp: decrypt_Inr)
  have lv: "le_val (le 4 (length f)) = length f" using lf by (simp add: MAX_MESSAGE_SIZE_def byte_simps)
  have e': "encrypt lib p (rx_next s) = (tx_next (rx_next s), Inr g)" using e(2) by (auto simp: encrypt_Inr)
  have r1: "read_exact 4 (calm (wire_frame f @ rest) out) = (calm (f @ rest) out, Inr (le 4 (length f)))"
    unfolding frame_unfold by (rule read_calm) simp
  have r2: "read_exact (length f) (calm (f @ rest) out) = (calm rest out, Inr f)"
    by (rule read_calm) simp
  show ?thesis
    using r1 r2 l lf lv d serve_message_calm [OF m r e(1) e' e(3)] by (simp add: serve_one_eq Let_def)
qed

lemma encrypt_all_ConsE:
  assumes "encrypt_all lib (p # ps) a = Some xs"
  obtains f fs where "xs = f # fs" "encrypt lib p a = (tx_next a, Inr f)" "encrypt_all lib ps (tx_next a) = Some fs"
  using assms by (auto dest: encrypt_next split: prod.splits sum.splits)

lemma encrypt_rx [simp]: "encrypt_all lib ps (s\<lparr>ss_rx_sequence := x\<rparr>) = encrypt_all lib ps s"
proof (induction ps arbitrary: s x)
  case (Cons p ps)
  have "encrypt lib p (s\<lparr>ss_rx_sequence := x\<rparr>) =
    (case encrypt lib p s of (s', r) \<Rightarrow> (s'\<lparr>ss_rx_sequence := x\<rparr>, r))"
    by (simp add: encrypt_def Let_def split: option.splits)
  with Cons.IH show ?case by (simp split: prod.splits sum.splits)
qed simp

lemma in_step_rx: "in_step c s \<Longrightarrow> in_step (c\<lparr>ss_rx_sequence := x\<rparr>) (s\<lparr>ss_tx_sequence := y\<rparr>)"
  unfolding in_step_def by auto

text \<open>The loop reads the frames of the requests and writes the frames of the abstract replies.\<close>

lemma message_loop_calm:
  assumes ok: "aes_gcm_ok lib"
  shows "in_step c s \<Longrightarrow> encrypt_all lib (map (wire lib) ms) c = Some fs \<Longrightarrow>
    \<forall>m \<in> set ms. wire_ok lib m \<Longrightarrow> \<forall>f \<in> set fs. length f \<le> MAX_MESSAGE_SIZE \<Longrightarrow>
    abstract_server lib handle role label env i ms sh = (rs, sh') \<Longrightarrow> \<forall>r \<in> set rs. wire_ok lib r \<Longrightarrow>
    encrypt_all lib (map (wire lib) rs) s = Some gs \<Longrightarrow> \<forall>g \<in> set gs. length g < 2 ^ 32 \<Longrightarrow>
    message_loop lib handle role label env i s (calm (concat (map wire_frame fs)) out) sh =
      (Closed (calm [] (out @ concat (map wire_frame gs))), sh')"
proof (induction ms arbitrary: c s fs i sh rs gs out)
  case Nil
  then show ?case
    by (subst message_loop.simps) (simp add: serve_one_eq read_calm_end)
next
  case (Cons m ms)
  obtain f fs' where fs: "fs = f # fs'" "encrypt lib (wire lib m) c = (tx_next c, Inr f)"
    "encrypt_all lib (map (wire lib) ms) (tx_next c) = Some fs'"
    using Cons.prems(2) by (auto simp del: encrypt_all.simps elim: encrypt_all_ConsE)
  obtain r sh1 where r: "abstract_reply lib handle role label (env i) m sh = (r, sh1)" by fastforce
  obtain rs' where rs: "rs = r # rs'" "abstract_server lib handle role label env (Suc i) ms sh1 = (rs', sh')"
    using Cons.prems(5) r by (auto split: prod.splits)
  obtain g gs' where gs: "gs = g # gs'" "encrypt lib (wire lib r) s = (tx_next s, Inr g)"
    "encrypt_all lib (map (wire lib) rs') (tx_next s) = Some gs'"
    using Cons.prems(7) unfolding rs(1) by (auto simp del: encrypt_all.simps elim: encrypt_all_ConsE)
  have one: "serve_one lib handle role label (env i) s (calm (wire_frame f @ concat (map wire_frame fs')) out) sh =
    (Open (tx_next (rx_next s)) (calm (concat (map wire_frame fs')) (out @ wire_frame g)), sh1)"
    using Cons.prems(1,3,4,6,8) fs(1,2) gs(1,2) wire_okD
    by (intro serve_one_calm [OF ok, of c s "wire lib m" f m handle role label "env i" sh r sh1 "wire lib r" g])
       (simp_all add: r rs(1))
  have st: "in_step (tx_next c) (tx_next (rx_next s))"
    using in_step_next [OF Cons.prems(1)] unfolding in_step_def by auto
  have gs3: "encrypt_all lib (map (wire lib) rs') (tx_next (rx_next s)) = Some gs'"
  proof -
    have "tx_next (rx_next s) = (tx_next s)\<lparr>ss_rx_sequence := ss_rx_sequence s + 2\<rparr>" by (cases s) simp
    then show ?thesis using gs(3) by (simp only: encrypt_rx)
  qed
  have "message_loop lib handle role label env (Suc i) (tx_next (rx_next s))
      (calm (concat (map wire_frame fs')) (out @ wire_frame g)) sh1 =
    (Closed (calm [] ((out @ wire_frame g) @ concat (map wire_frame gs'))), sh')"
    using Cons.prems(3,4,6,8) fs(1) gs(1) rs(1)
    by (intro Cons.IH [OF st fs(3) _ _ rs(2) _ gs3]) simp_all
  with one show ?case
    by (subst message_loop.simps) (simp add: fs(1) gs(1))
qed

subsection \<open>The client's side\<close>

definition connected :: "secure_session \<Rightarrow> stream \<Rightarrow> bytes option \<Rightarrow> ipc_client" where
  "connected c st path = \<lparr>cl_path = path, cl_stream = Some st, cl_session = Some c\<rparr>"

fun send_all :: "ipc_lib \<Rightarrow> ipc_message list \<Rightarrow> unit client_op" where
  "send_all lib [] = op_return ()"
| "send_all lib (m # ms) = op_bind (send_message lib m) (\<lambda>_. send_all lib ms)"

fun recv_all :: "ipc_lib \<Rightarrow> nat \<Rightarrow> ipc_message list client_op" where
  "recv_all lib 0 = op_return []"
| "recv_all lib (Suc n) = op_bind (recv_message lib) (\<lambda>m. op_bind (recv_all lib n) (\<lambda>ms. op_return (m # ms)))"

lemma send_message_calm:
  assumes "wire_ok lib m" "encrypt lib (wire lib m) c = (tx_next c, Inr f)" "length f \<le> MAX_MESSAGE_SIZE"
  shows "send_message lib m (connected c (calm inp out) path) = (connected (tx_next c) (calm inp (out @ wire_frame f)) path, Inr ())"
  using assms wire_okD(1) [OF assms(1)] by (simp add: send_message_def connected_def write_frame_calm)

lemma recv_message_calm:
  assumes ok: "aes_gcm_ok lib" and sc: "in_step s c" and m: "wire_ok lib m"
    and g: "encrypt lib (wire lib m) s = (tx_next s, Inr g)" "length g \<le> MAX_MESSAGE_SIZE"
  shows "recv_message lib (connected c (calm (wire_frame g @ rest) out) path) = (connected (rx_next c) (calm rest out) path, Inr m)"
proof -
  have d: "decrypt lib g c = (rx_next c, Inr (wire lib m))" using decrypt_iff_encrypt [OF ok sc] g(1) by simp
  have lv: "le_val (le 4 (length g)) = length g" using g(2) by (simp add: MAX_MESSAGE_SIZE_def byte_simps)
  have r1: "read_exact 4 (calm (wire_frame g @ rest) out) = (calm (g @ rest) out, Inr (le 4 (length g)))"
    unfolding frame_unfold by (rule read_calm) simp
  have r2: "read_exact (length g) (calm (g @ rest) out) = (calm rest out, Inr g)"
    by (rule read_calm) simp
  have "read_frame (calm (wire_frame g @ rest) out) = (calm rest out, Inr g)"
    using r1 r2 lv g(2) by (simp add: read_frame_def)
  then show ?thesis using d wire_okD(2) [OF m] by (simp add: recv_message_def connected_def)
qed

lemma send_all_calm:
  "encrypt_all lib (map (wire lib) ms) c = Some fs \<Longrightarrow> \<forall>m \<in> set ms. wire_ok lib m \<Longrightarrow>
   \<forall>f \<in> set fs. length f \<le> MAX_MESSAGE_SIZE \<Longrightarrow>
   \<exists>t. send_all lib ms (connected c (calm inp out) path) =
     (connected (c\<lparr>ss_tx_sequence := t\<rparr>) (calm inp (out @ concat (map wire_frame fs))) path, Inr ())"
proof (induction ms arbitrary: c fs out)
  case Nil
  then show ?case by (auto simp: op_return_def intro: exI [of _ "ss_tx_sequence c"])
next
  case (Cons m ms)
  obtain f fs' where fs: "fs = f # fs'" "encrypt lib (wire lib m) c = (tx_next c, Inr f)"
    "encrypt_all lib (map (wire lib) ms) (tx_next c) = Some fs'"
    using Cons.prems(1) by (auto simp del: encrypt_all.simps elim: encrypt_all_ConsE)
  have one: "send_message lib m (connected c (calm inp out) path) =
    (connected (tx_next c) (calm inp (out @ wire_frame f)) path, Inr ())"
    using Cons.prems(2,3) fs by (intro send_message_calm) simp_all
  obtain t where "send_all lib ms (connected (tx_next c) (calm inp (out @ wire_frame f)) path) =
    (connected ((tx_next c)\<lparr>ss_tx_sequence := t\<rparr>) (calm inp ((out @ wire_frame f) @ concat (map wire_frame fs'))) path, Inr ())"
    using Cons.IH [OF fs(3), of "out @ wire_frame f"] Cons.prems(2,3) fs(1) by auto
  with one show ?case by (auto simp: fs(1))
qed

lemma recv_all_calm:
  assumes ok: "aes_gcm_ok lib"
  shows "in_step s c \<Longrightarrow> encrypt_all lib (map (wire lib) rs) s = Some gs \<Longrightarrow> \<forall>m \<in> set rs. wire_ok lib m \<Longrightarrow>
   \<forall>g \<in> set gs. length g \<le> MAX_MESSAGE_SIZE \<Longrightarrow>
   \<exists>c'. recv_all lib (length rs) (connected c (calm (concat (map wire_frame gs)) out) path) =
     (connected c' (calm [] out) path, Inr rs)"
proof (induction rs arbitrary: s c gs)
  case Nil
  then show ?case by (auto simp: op_return_def)
next
  case (Cons r rs)
  obtain g gs' where gs: "gs = g # gs'" "encrypt lib (wire lib r) s = (tx_next s, Inr g)"
    "encrypt_all lib (map (wire lib) rs) (tx_next s) = Some gs'"
    using Cons.prems(2) by (auto simp del: encrypt_all.simps elim: encrypt_all_ConsE)
  have one: "recv_message lib (connected c (calm (wire_frame g @ concat (map wire_frame gs')) out) path) =
    (connected (rx_next c) (calm (concat (map wire_frame gs')) out) path, Inr r)"
    using Cons.prems(1,3,4) gs by (intro recv_message_calm [OF ok]) simp_all
  obtain c' where "recv_all lib (length rs) (connected (rx_next c) (calm (concat (map wire_frame gs')) out) path) =
     (connected c' (calm [] out) path, Inr rs)"
    using Cons.IH [OF in_step_next [OF Cons.prems(1)] gs(3)] Cons.prems(3,4) gs(1) by auto
  with one show ?case by (auto simp: gs(1) op_return_def)
qed

text \<open>Frames exist as long as the counters do not run out.\<close>

lemma encrypt_all_ok:
  assumes ok: "aes_gcm_ok lib"
  shows "in_step a b \<Longrightarrow> ss_tx_sequence a + 2 * length ps \<le> 2 ^ 64 - 2 \<Longrightarrow>
    \<forall>p \<in> set ps. length p + 36 \<le> MAX_MESSAGE_SIZE \<Longrightarrow>
    \<exists>fs. encrypt_all lib ps a = Some fs \<and> (\<forall>f \<in> set fs. length f \<le> MAX_MESSAGE_SIZE)"
proof (induction ps arbitrary: a b)
  case (Cons p ps)
  have p: "length p < 2 ^ 36" "ss_tx_sequence a < 2 ^ 64 - 2"
    using Cons.prems(2,3) by (simp_all add: MAX_MESSAGE_SIZE_def)
  obtain f where f: "encrypt lib p a = (tx_next a, Inr f)" "length f = length p + 36"
    using encrypt_ok [OF ok Cons.prems(1) p(2,1)] by metis
  obtain fs where "encrypt_all lib ps (tx_next a) = Some fs" "\<forall>f \<in> set fs. length f \<le> MAX_MESSAGE_SIZE"
    using Cons.IH [OF in_step_next [OF Cons.prems(1)]] Cons.prems(2,3) by auto
  with f Cons.prems(3) show ?case by simp
qed simp

lemma encrypt_all_wire:
  assumes "aes_gcm_ok lib" "in_step a b" "ss_tx_sequence a + 2 * length ms \<le> 2 ^ 64 - 2" "\<forall>m \<in> set ms. wire_ok lib m"
  obtains fs where "encrypt_all lib (map (wire lib) ms) a = Some fs" "\<forall>f \<in> set fs. length f \<le> MAX_MESSAGE_SIZE"
  using encrypt_all_ok [OF assms(1,2), of "map (wire lib) ms"] assms(3,4) wire_okD(3)
  by (auto simp: MAX_MESSAGE_SIZE_def)

subsection \<open>The handshake\<close>

lemma io_calm [simp]:
  "io_result r st = (st, r)" "io_check False e st = (st, Inr ())"
  by (simp_all add: io_result_def io_check_def)

lemma handshake_calm:
  assumes aes: "aes_gcm_ok lib" and hk: "ipc_hkdf_ok lib" and dh: "ecdh_ok lib"
  obtains hc hs c s where
    "\<And>rest. establish_secure_session lib a (calm (hs @ rest) []) = (calm rest hc, Inr c)"
    "\<And>rest. open_connection lib b (calm (hc @ rest) []) = Open s (calm rest hs)"
    "in_step c s" "in_step s c" "ss_tx_sequence c = 2" "ss_tx_sequence s = 3"
proof -
  let ?pc = "il_pub lib a" and ?ps = "il_pub lib b" and ?k = KEY_CONFIRM_PLAINTEXT
  have k: "length ?pc = 65" "length ?ps = 65" "il_pk_ok lib ?pc" "il_pk_ok lib ?ps"
    and z: "il_dh lib a ?ps = il_dh lib b ?pc" "length (il_dh lib b ?pc) = 32"
    using dh unfolding ecdh_ok_def by auto
  obtain c0 s0 where 0: "from_shared_secret lib (il_dh lib b ?pc) ?pc ?ps False = Inr c0"
    "from_shared_secret lib (il_dh lib b ?pc) ?pc ?ps True = Inr s0" "in_step c0 s0" "in_step s0 c0"
    "ss_tx_sequence c0 = 0" "ss_tx_sequence s0 = 1"
    using from_shared_secret_pair [OF hk, of "il_dh lib b ?pc" ?pc ?ps] k z by auto
  have lk: "length ?k = 19" by (simp add: KEY_CONFIRM_PLAINTEXT_def)
  obtain k1 where k1: "encrypt lib ?k s0 = (tx_next s0, Inr k1)" "decrypt lib k1 c0 = (rx_next c0, Inr ?k)" "length k1 = 55"
    using encrypt_ok [OF aes 0(4), of ?k] 0(6) lk by auto
  have 1: "in_step (rx_next c0) (tx_next s0)" by (rule in_step_rx [OF 0(3)])
  obtain k2 where k2: "encrypt lib ?k (rx_next c0) = (tx_next (rx_next c0), Inr k2)"
    "decrypt lib k2 (tx_next s0) = (rx_next (tx_next s0), Inr ?k)" "length k2 = 55"
    using encrypt_ok [OF aes 1, of ?k] 0(5) lk by auto
  let ?hc = "(SECURE_JSON_PROTOCOL_MAGIC @ [1]) @ ?pc @ wire_frame k2" and ?hs = "?ps @ wire_frame k1"
  have v: "le_val (le 4 55) = 55" by (simp add: byte_simps)
  have e: "establish_secure_session lib a (calm (?hs @ rest) []) = (calm rest ?hc, Inr (tx_next (rx_next c0)))" for rest
    using k z 0 k1 k2 v
    by (simp add: establish_secure_session_def op_bind_def calm_simps frame_unfold op_return_def Let_def wire_frame_def)
  have sh: "secure_handshake_server lib 1 b (calm (?pc @ wire_frame k2 @ rest) []) = (calm rest ?hs, Inr (rx_next (tx_next s0)))" for rest
    using k z 0 k1 k2 v
    by (simp add: secure_handshake_server_def op_bind_def calm_simps frame_unfold op_return_def Let_def wire_frame_def
        SECURE_PROTOCOL_VERSION_MIN_def SECURE_PROTOCOL_VERSION_MAX_def P256_PUBLIC_KEY_SIZE_def)
  have o: "open_connection lib b (calm (?hc @ rest) []) = Open (rx_next (tx_next s0)) (calm rest ?hs)" for rest
  proof -
    have 1: "read_exact 2 (calm (?hc @ rest) []) = (calm ([1] @ ?pc @ wire_frame k2 @ rest) [], Inr SECURE_JSON_PROTOCOL_MAGIC)"
      using read_calm [of SECURE_JSON_PROTOCOL_MAGIC 2 "[1] @ ?pc @ wire_frame k2 @ rest" "[]"]
      by (simp add: SECURE_JSON_PROTOCOL_MAGIC_def)
    have 2: "read_exact 1 (calm ([1] @ ?pc @ wire_frame k2 @ rest) []) = (calm (?pc @ wire_frame k2 @ rest) [], Inr [1])"
      by (rule read_calm) simp
    show ?thesis using 1 2 sh by (simp add: open_connection_def)
  qed
  show thesis
    using in_step_rx [OF in_step_next [OF 0(3)]] in_step_rx [OF in_step_next [OF 0(4)]] 0(5,6)
    by (intro that [OF e o]) (auto simp: in_step_def)
qed

end
