(* ===== verification/Ipc_Safe.thy ===== *)
theory Ipc_Safe
  imports Ipc_Correct "HOL-Library.Multiset"
begin

text \<open>
  What the handler of the IPC server gets to see, whatever the peers send and however their
  connections interleave: the messages that passed validation, the role check and the rate
  limiter, each logged before it is handled when the audit log can be written.
\<close>

text \<open>A handler together with the list of the messages it was given.\<close>

definition recording ::
    "('h \<Rightarrow> ipc_message \<Rightarrow> 'h \<times> ipc_message option) \<Rightarrow> 'h \<times> ipc_message list \<Rightarrow> ipc_message \<Rightarrow>
     ('h \<times> ipc_message list) \<times> ipc_message option" where
  "recording handle hs msg = (case handle (fst hs) msg of (h', r) \<Rightarrow> ((h', snd hs @ [msg]), r))"

definition handled :: "('h \<times> ipc_message list) server \<Rightarrow> ipc_message list" where
  "handled sv = snd (sh_handler (sv_shared sv))"

definition successes :: "access_entry list \<Rightarrow> (access_action \<times> bytes) list" where
  "successes es = map (\<lambda>e. (ae_action e, ae_resource e)) (filter (\<lambda>e. ae_result e = Success) es)"

text \<open>The messages that passed the checks and were not given to the handler yet.\<close>

fun admitted_in :: "conn \<Rightarrow> ipc_message list" where
  "admitted_in (Admitted m s st) = [m]"
| "admitted_in c = []"

fun recorded_in :: "conn \<Rightarrow> ipc_message list" where
  "recorded_in (Recorded m s st) = [m]"
| "recorded_in c = []"

definition admitted :: "'h server \<Rightarrow> ipc_message multiset" where
  "admitted sv = mset (concat (map admitted_in (sv_active sv)))"

definition recorded :: "'h server \<Rightarrow> ipc_message multiset" where
  "recorded sv = mset (concat (map recorded_in (sv_active sv)))"

definition in_flight :: "'h server \<Rightarrow> ipc_message multiset" where
  "in_flight sv = admitted sv + recorded sv"

lemma concat_map_update:
  assumes "i < length cs"
  shows "mset (concat (map f (cs[i := c]))) + mset (f (cs ! i)) = mset (concat (map f cs)) + mset (f c)"
  using assms
proof (induction cs arbitrary: i)
  case (Cons x xs)
  then show ?case by (cases i) (simp_all add: ac_simps)
qed simp

lemma concat_map_remove:
  assumes "i < length cs" "f (cs ! i) = []"
  shows "concat (map f (take i cs @ drop (Suc i) cs)) = concat (map f cs)"
proof -
  have "concat (map f cs) = concat (map f (take i cs @ cs ! i # drop (Suc i) cs))"
    using id_take_nth_drop [OF assms(1)] by simp
  then show ?thesis using assms(2) by simp
qed

subsection \<open>One step of a connection\<close>

text \<open>The kinds of steps: one that touches no request, one that admits a message which passed the
  checks, one that logs it, and one that gives it to the handler.\<close>

definition idle_conn :: "conn \<Rightarrow> bool" where
  "idle_conn c \<longleftrightarrow> admitted_in c = [] \<and> recorded_in c = []"

definition quiet_step :: "conn \<Rightarrow> 'h shared \<Rightarrow> conn \<Rightarrow> 'h shared \<Rightarrow> bool" where
  "quiet_step c sh c' sh' \<longleftrightarrow> idle_conn c \<and> idle_conn c' \<and> sh_handler sh' = sh_handler sh \<and> sh_limiter sh' = sh_limiter sh \<and>
     map_option successes (sh_log sh') = map_option successes (sh_log sh)"

definition admit_step :: "msg_env \<Rightarrow> ipc_message \<Rightarrow> conn \<Rightarrow> 'h shared \<Rightarrow> conn \<Rightarrow> 'h shared \<Rightarrow> bool" where
  "admit_step env m c sh c' sh' \<longleftrightarrow> idle_conn c \<and> admitted_in c' = [m] \<and> recorded_in c' = [] \<and>
     validate_paths (me_fs env) (me_wall env) m = Inr () \<and> required_role m \<le> User \<and>
     rate_check (me_now env) (rate_limit_key m) (sh_limiter sh) = (sh_limiter sh', True) \<and>
     sh_handler sh' = sh_handler sh \<and> sh_log sh' = sh_log sh"

definition record_step :: "msg_env \<Rightarrow> ipc_message \<Rightarrow> conn \<Rightarrow> 'h shared \<Rightarrow> conn \<Rightarrow> 'h shared \<Rightarrow> bool" where
  "record_step env m c sh c' sh' \<longleftrightarrow> admitted_in c = [m] \<and> recorded_in c = [] \<and> admitted_in c' = [] \<and> recorded_in c' = [m] \<and>
     sh' = record_access env m User UNIX_LABEL Success sh"

definition handle_step ::
    "('h \<Rightarrow> ipc_message \<Rightarrow> 'h \<times> ipc_message option) \<Rightarrow> ipc_message \<Rightarrow> conn \<Rightarrow> 'h shared \<Rightarrow> conn \<Rightarrow> 'h shared \<Rightarrow> bool" where
  "handle_step handle m c sh c' sh' \<longleftrightarrow> admitted_in c = [] \<and> recorded_in c = [m] \<and> idle_conn c' \<and>
     sh' = sh\<lparr>sh_handler := fst (handle (sh_handler sh) m)\<rparr>"

lemma record_access_fields [simp]:
  "sh_handler (record_access env m role label r sh) = sh_handler sh"
  "sh_limiter (record_access env m role label r sh) = sh_limiter sh"
  by (auto simp: record_access_def split: option.splits prod.splits)

lemma record_access_denied:
  "map_option successes (sh_log (record_access env m role label Denied sh)) = map_option successes (sh_log sh)"
  by (auto simp: record_access_def successes_def new_access_entry_def split: option.splits prod.splits)

lemma rate_check_False: "rate_check now op rl = (rl', False) \<Longrightarrow> rl' = rl"
  by (auto simp: rate_check_def split: option.splits if_splits)

lemma idle_simps [simp]:
  "idle_conn (Open s st)" "idle_conn (Closed st)" "idle_conn (Stuck st)" "idle_conn (Fresh u p st)" "idle_conn (opened q)"
  by (simp_all add: idle_conn_def opened_def)

lemma receive_message_kind:
  assumes "receive_message lib User label env p s st sh = (c', sh')" "idle_conn c"
  shows "quiet_step c sh c' sh' \<or> (\<exists>m. admit_step env m c sh c' sh')"
proof (cases "il_decode lib p")
  case None
  with assms show ?thesis by (auto simp: receive_message_def quiet_step_def)
next
  case (Some msg)
  show ?thesis
  proof (cases "validate_paths (me_fs env) (me_wall env) msg")
    case (Inl e)
    with assms Some show ?thesis by (auto simp: receive_message_def quiet_step_def)
  next
    case (Inr u)
    obtain rl ok where r: "rate_check (me_now env) (rate_limit_key msg) (sh_limiter sh) = (rl, ok)" by fastforce
    consider "User < required_role msg" | "\<not> User < required_role msg" "\<not> ok" | "\<not> User < required_role msg" ok
      by blast
    then show ?thesis
    proof cases
      case 1
      with assms Some Inr show ?thesis by (auto simp: receive_message_def quiet_step_def record_access_denied)
    next
      case 2
      with assms Some Inr r show ?thesis using rate_check_False [of "me_now env" "rate_limit_key msg" "sh_limiter sh" rl]
        by (auto simp: receive_message_def quiet_step_def)
    next
      case 3
      with assms Some Inr r have "admit_step env msg c sh c' sh'"
        by (auto simp: receive_message_def admit_step_def)
      then show ?thesis by blast
    qed
  qed
qed

lemma receive_one_kind:
  assumes "receive_one lib User label env s st sh = (c', sh')" "idle_conn c"
  shows "quiet_step c sh c' sh' \<or> (\<exists>m. admit_step env m c sh c' sh')"
proof -
  consider s1 p st2 where "receive_message lib User label env p s1 st2 sh = (c', sh')"
    | "idle_conn c'" "sh' = sh"
    using assms(1) by (auto simp: receive_one_def Let_def split: prod.splits sum.splits if_splits)
  then show ?thesis
  proof cases
    case 1
    then show ?thesis by (rule receive_message_kind [OF _ assms(2)])
  next
    case 2
    then show ?thesis using assms(2) by (simp add: quiet_step_def)
  qed
qed

lemma send_response_idle [simp]: "idle_conn (send_response lib r s st)"
  by (auto simp: send_response_def Let_def split: option.splits prod.splits sum.splits)

lemma open_connection_idle [simp]: "idle_conn (open_connection lib secret st)"
  by (auto simp: open_connection_def split: prod.splits sum.splits)

lemma conn_step_kind:
  assumes "conn_step lib handle host secret env c sh = (c', sh')"
  shows "quiet_step c sh c' sh' \<or> (\<exists>m. admit_step env m c sh c' sh' \<or> record_step env m c sh c' sh' \<or> handle_step handle m c sh c' sh')"
proof (cases c)
  case (Open s st)
  then show ?thesis using assms receive_one_kind [of lib UNIX_LABEL env s st sh c' sh' c] by auto
next
  case (Recorded m s st)
  then have "handle_step handle m c sh c' sh'"
    using assms by (auto simp: handle_message_def handle_step_def split: prod.splits)
  then show ?thesis by blast
qed (use assms in \<open>auto simp: quiet_step_def record_step_def split: if_splits\<close>)

subsection \<open>Runs of the server\<close>

lemma server_run_active:
  assumes "server_run lib handle host P sv0 sv" "length (sv_active sv0) \<le> MAX_CONCURRENT_CONNECTIONS"
  shows "length (sv_active sv) \<le> MAX_CONCURRENT_CONNECTIONS"
  using assms by (induction rule: server_run.induct) auto

text \<open>What a step does to the requests in flight, and an invariant of these and the shared state:
  it holds along a run when the four kinds of steps keep it.\<close>

lemma flight_update:
  assumes "i < length (sv_active sv)"
    and "sv' = \<lparr>sv_active = (sv_active sv)[i := c], sv_shared = sh\<rparr>"
  shows "admitted sv' + mset (admitted_in (sv_active sv ! i)) = admitted sv + mset (admitted_in c)"
    "recorded sv' + mset (recorded_in (sv_active sv ! i)) = recorded sv + mset (recorded_in c)"
  using assms concat_map_update by (simp_all add: admitted_def recorded_def)

lemma server_run_shared:
  assumes run: "server_run lib handle host P sv0 sv" and init: "I (admitted sv0) (recorded sv0) (sv_shared sv0)"
    and q: "\<And>a r sh c c' sh'. I a r sh \<Longrightarrow> quiet_step c sh c' sh' \<Longrightarrow> I a r sh'"
    and ad: "\<And>a r sh c c' sh' env m. I a r sh \<Longrightarrow> P env \<Longrightarrow> admit_step env m c sh c' sh' \<Longrightarrow> I (add_mset m a) r sh'"
    and rc: "\<And>a r sh c c' sh' env m. I (add_mset m a) r sh \<Longrightarrow> P env \<Longrightarrow> record_step env m c sh c' sh' \<Longrightarrow> I a (add_mset m r) sh'"
    and hd: "\<And>a r sh c c' sh' m. I a (add_mset m r) sh \<Longrightarrow> handle_step handle m c sh c' sh' \<Longrightarrow> I a r sh'"
  shows "I (admitted sv) (recorded sv) (sv_shared sv)"
  using run init
proof (induction rule: server_run.induct)
  case (accept sv uid pid st)
  then show ?case by (simp add: admitted_def recorded_def)
next
  case (task sv i env secret c sh)
  let ?sv = "\<lparr>sv_active = (sv_active sv)[i := c], sv_shared = sh\<rparr>"
  have I: "I (admitted sv) (recorded sv) (sv_shared sv)" using task by blast
  note u = flight_update [OF task.hyps(2), of ?sv c sh, OF refl]
  consider "quiet_step (sv_active sv ! i) (sv_shared sv) c sh" | m where "admit_step env m (sv_active sv ! i) (sv_shared sv) c sh"
    | m where "record_step env m (sv_active sv ! i) (sv_shared sv) c sh" | m where "handle_step handle m (sv_active sv ! i) (sv_shared sv) c sh"
    using conn_step_kind [OF task.hyps(4)] by blast
  then show ?case
  proof cases
    case 1
    then have "admitted ?sv = admitted sv" "recorded ?sv = recorded sv" using u by (simp_all add: quiet_step_def idle_conn_def)
    then show ?thesis using q [OF I 1] by simp
  next
    case 2
    then have "admitted ?sv = add_mset m (admitted sv)" "recorded ?sv = recorded sv"
      using u by (simp_all add: admit_step_def idle_conn_def)
    then show ?thesis using ad [OF I task.hyps(3) 2] by simp
  next
    case 3
    then have "admitted sv = add_mset m (admitted ?sv)" "recorded ?sv = add_mset m (recorded sv)"
      using u by (simp_all add: record_step_def)
    then show ?thesis using rc [of m "admitted ?sv" "recorded sv"] I task.hyps(3) 3 by simp
  next
    case 4
    then have "admitted ?sv = admitted sv" "recorded sv = add_mset m (recorded ?sv)"
      using u by (simp_all add: handle_step_def idle_conn_def)
    then show ?thesis using hd [of "admitted sv" m "recorded ?sv"] I 4 by simp
  qed
next
  case (finish sv i st)
  then show ?case
    using concat_map_remove [of i "sv_active sv" admitted_in] concat_map_remove [of i "sv_active sv" recorded_in]
    by (simp add: admitted_def recorded_def)
qed

lemma recording_handled:
  "fst (recording handle hs m) = (fst (handle (fst hs) m), snd hs @ [m])"
  by (simp add: recording_def split: prod.splits)

lemma handle_step_recording:
  assumes "handle_step (recording handle) m c sh c' sh'"
  shows "snd (sh_handler sh') = snd (sh_handler sh) @ [m]" "sh_log sh' = sh_log sh" "sh_limiter sh' = sh_limiter sh"
  using assms by (auto simp: handle_step_def recording_handled)

lemma record_access_success:
  assumes "sh_log sh = Some es"
  shows "\<exists>es'. sh_log (record_access env m role label Success sh) = Some es' \<and>
    successes es' = successes es @ (if me_log_ok env then [ipc_access_info m] else [])"
  using assms by (cases "ipc_access_info m") (auto simp: record_access_def successes_def new_access_entry_def)

lemma server_run_allowed:
  assumes "server_run lib (recording handle) host P sv0 sv" "handled sv0 = []" "in_flight sv0 = {#}"
  shows "\<forall>m \<in> set (handled sv). required_role m \<le> User \<and>
    (\<exists>env. P env \<and> validate_paths (me_fs env) (me_wall env) m = Inr ())"
proof -
  let ?ok = "\<lambda>m. required_role m \<le> User \<and> (\<exists>env. P env \<and> validate_paths (me_fs env) (me_wall env) m = Inr ())"
  let ?I = "\<lambda>a r (sh :: ('a \<times> ipc_message list) shared). \<forall>m \<in># a + r + mset (snd (sh_handler sh)). ?ok m"
  have "?I (admitted sv) (recorded sv) (sv_shared sv)"
  proof (rule server_run_shared [OF assms(1)])
    show "?I (admitted sv0) (recorded sv0) (sv_shared sv0)"
      using assms(2,3) by (simp add: handled_def in_flight_def)
    show "?I a r sh'" if "?I a r sh" "quiet_step c sh c' sh'" for a r sh c c' sh'
      using that by (simp add: quiet_step_def)
    show "?I (add_mset m a) r sh'" if "?I a r sh" "P env" "admit_step env m c sh c' sh'" for a r sh c c' sh' env m
      using that by (auto simp: admit_step_def)
    show "?I a (add_mset m r) sh'" if "?I (add_mset m a) r sh" "P env" "record_step env m c sh c' sh'" for a r sh c c' sh' env m
      using that by (auto simp: record_step_def)
    show "?I a r sh'" if "?I a (add_mset m r) sh" "handle_step (recording handle) m c sh c' sh'" for a r sh c c' sh' m
      using that(1) handle_step_recording [OF that(2)] by auto
  qed
  then show ?thesis by (auto simp: handled_def)
qed

text \<open>The success entries of the log, against the requests that were handled or are about to be.\<close>

lemma server_run_logged:
  assumes "server_run lib (recording handle) host P sv0 sv" "handled sv0 = []" "in_flight sv0 = {#}"
    "sh_log (sv_shared sv0) = Some []"
  shows "\<exists>es. sh_log (sv_shared sv) = Some es \<and>
    mset (successes es) \<subseteq># image_mset ipc_access_info (mset (handled sv) + recorded sv) \<and>
    ((\<forall>env. P env \<longrightarrow> me_log_ok env) \<longrightarrow> mset (successes es) = image_mset ipc_access_info (mset (handled sv) + recorded sv))"
proof -
  let ?R = "\<lambda>r (sh :: ('a \<times> ipc_message list) shared). image_mset ipc_access_info (mset (snd (sh_handler sh)) + r)"
  let ?I = "\<lambda>a r sh. \<exists>xs. map_option successes (sh_log sh) = Some xs \<and> mset xs \<subseteq># ?R r sh \<and>
    ((\<forall>env. P env \<longrightarrow> me_log_ok env) \<longrightarrow> mset xs = ?R r sh)"
  have "?I (admitted sv) (recorded sv) (sv_shared sv)"
  proof (rule server_run_shared [OF assms(1)])
    show "?I (admitted sv0) (recorded sv0) (sv_shared sv0)"
      using assms(2-4) by (simp add: handled_def in_flight_def successes_def)
    show "?I a r sh'" if "?I a r sh" "quiet_step c sh c' sh'" for a r sh c c' sh'
      using that by (simp add: quiet_step_def)
    show "?I (add_mset m a) r sh'" if "?I a r sh" "P env" "admit_step env m c sh c' sh'" for a r sh c c' sh' env m
      using that by (simp add: admit_step_def)
    show "?I a (add_mset m r) sh'" if I: "?I (add_mset m a) r sh" and p: "P env" and st: "record_step env m c sh c' sh'"
      for a r sh c c' sh' env m
    proof -
      obtain es where es: "sh_log sh = Some es" "mset (successes es) \<subseteq># ?R r sh"
        "(\<forall>env. P env \<longrightarrow> me_log_ok env) \<longrightarrow> mset (successes es) = ?R r sh" using I by auto
      obtain es' where es': "sh_log sh' = Some es'" "successes es' = successes es @ (if me_log_ok env then [ipc_access_info m] else [])"
        using record_access_success [OF es(1)] st unfolding record_step_def by blast
      have R: "?R (add_mset m r) sh' = add_mset (ipc_access_info m) (?R r sh)" using st by (simp add: record_step_def)
      show ?thesis unfolding R using es es' p by (auto intro: subset_mset.trans)
    qed
    show "?I a r sh'" if "?I a (add_mset m r) sh" "handle_step (recording handle) m c sh c' sh'" for a r sh c c' sh' m
      using that(1) handle_step_recording [OF that(2)] by auto
  qed
  then show ?thesis by (auto simp: handled_def)
qed

text \<open>The log and the handler may see two requests in different orders.\<close>

lemma server_run_task:
  assumes "server_run lib handle host P sv0 \<lparr>sv_active = cs, sv_shared = sh\<rparr>" "i < length cs" "P env"
    "conn_step lib handle host secret env (cs ! i) sh = (c, sh')"
  shows "server_run lib handle host P sv0 \<lparr>sv_active = cs[i := c], sv_shared = sh'\<rparr>"
  using server_run.task [OF assms(1), of i env secret c sh'] assms(2-) by simp

lemma log_order_differs:
  assumes "server_run lib (recording handle) host P sv0 \<lparr>sv_active = [Admitted m s st, Admitted n s' st'], sv_shared = sh\<rparr>"
    and "sh_log sh = Some []" "snd (sh_handler sh) = []" "P env" "me_log_ok env"
  shows "\<exists>sv es. server_run lib (recording handle) host P sv0 sv \<and> handled sv = [n, m] \<and>
    sh_log (sv_shared sv) = Some es \<and> successes es = [ipc_access_info m, ipc_access_info n]"
proof -
  let ?run = "server_run lib (recording handle) host P sv0"
  define sh1 where "sh1 = record_access env m User UNIX_LABEL Success sh"
  define sh2 where "sh2 = record_access env n User UNIX_LABEL Success sh1"
  have "?run \<lparr>sv_active = [Recorded m s st, Admitted n s' st'], sv_shared = sh1\<rparr>"
    using server_run_task [OF assms(1), of 0 env] assms(4) by (simp add: sh1_def)
  then have r2: "?run \<lparr>sv_active = [Recorded m s st, Recorded n s' st'], sv_shared = sh2\<rparr>"
    using server_run_task [of lib "recording handle" host P sv0 _ sh1 1 env] assms(4) by (fastforce simp: sh2_def)
  obtain c3 sh3 where 3: "handle_message lib (recording handle) n s' st' sh2 = (c3, sh3)" by fastforce
  have r3: "?run \<lparr>sv_active = [Recorded m s st, c3], sv_shared = sh3\<rparr>"
    using server_run_task [OF r2, of 1 env] 3 assms(4) by simp
  obtain c4 sh4 where 4: "handle_message lib (recording handle) m s st sh3 = (c4, sh4)" by fastforce
  have r4: "?run \<lparr>sv_active = [c4, c3], sv_shared = sh4\<rparr>"
    using server_run_task [OF r3, of 0 env] 4 assms(4) by simp
  have "snd (sh_handler sh4) = [n, m]"
    using 3 4 assms(3) by (auto simp: handle_message_def recording_def sh1_def sh2_def split: prod.splits)
  moreover obtain es1 where es1: "sh_log sh1 = Some es1" "successes es1 = [ipc_access_info m]"
    using record_access_success [OF assms(2), of env m User UNIX_LABEL] assms(5) by (auto simp: sh1_def successes_def)
  moreover obtain es2 where "sh_log sh2 = Some es2" "successes es2 = [ipc_access_info m, ipc_access_info n]"
    using record_access_success [OF es1(1), of env n User UNIX_LABEL] assms(5) es1(2) by (auto simp: sh2_def)
  moreover have "sh_log sh4 = sh_log sh2"
    using 3 4 by (auto simp: handle_message_def split: prod.splits)
  ultimately show ?thesis using r4
    by (intro exI [of _ "\<lparr>sv_active = [c4, c3], sv_shared = sh4\<rparr>"]) (auto simp: handled_def)
qed

subsection \<open>Rate limits\<close>

definition limiter_ok :: "rate_limiter \<Rightarrow> bool" where
  "limiter_ok rl \<longleftrightarrow> (\<forall>op n start. rl_operations rl op = Some (n, start) \<longrightarrow> 1 \<le> n \<and> n \<le> max_ops op)"

definition window_ns :: "rate_limiter \<Rightarrow> nat" where
  "window_ns rl = rl_window_secs rl * 1000000000"

text \<open>How many operations were let through since time \<open>t0\<close>, from the entry of the limiter: those
  of a window that began since, and before them at most those of one earlier window.\<close>

definition rate_inv :: "nat \<Rightarrow> ipc_operation \<Rightarrow> nat \<Rightarrow> rate_limiter \<Rightarrow> bool" where
  "rate_inv t0 op cnt rl = (case rl_operations rl op of
       None \<Rightarrow> cnt = 0
     | Some (n, start) \<Rightarrow> 1 \<le> n \<and> n \<le> max_ops op \<and>
         (if t0 \<le> start then cnt + 1 \<le> max_ops op + n else cnt + 1 \<le> n))"

lemma max_ops_pos: "1 \<le> max_ops op"
  by (cases op) (simp_all add: max_ops_def)

lemma rate_inv_start: "limiter_ok rl \<Longrightarrow> rate_inv t0 op 0 rl"
  using max_ops_pos [of op] by (auto simp: rate_inv_def limiter_ok_def split: option.splits)

lemma rate_inv_bound: "rate_inv t0 op cnt rl \<Longrightarrow> cnt \<le> 2 * max_ops op - 1"
  using max_ops_pos [of op] by (auto simp: rate_inv_def split: option.splits if_splits)

lemma rate_check_window: "rate_check now op rl = (rl', b) \<Longrightarrow> rl_window_secs rl' = rl_window_secs rl"
  by (auto simp: rate_check_def split: option.splits if_splits)

lemma rate_check_other:
  "rate_check now op rl = (rl', b) \<Longrightarrow> op' \<noteq> op \<Longrightarrow> rl_operations rl' op' = rl_operations rl op'"
  by (auto simp: rate_check_def split: option.splits if_splits)

lemma rate_inv_step:
  assumes inv: "rate_inv t0 op cnt rl" and t: "t0 \<le> now" "now < t0 + window_ns rl"
    and c: "rate_check now op rl = (rl', True)"
  shows "rate_inv t0 op (cnt + 1) rl'"
proof (cases "rl_operations rl op")
  case None
  with c inv t max_ops_pos [of op] show ?thesis by (auto simp: rate_check_def rate_inv_def)
next
  case (Some e)
  obtain n start where e: "e = (n, start)" by (cases e)
  show ?thesis
  proof (cases "rl_window_secs rl \<le> (now - start) div 1000000000")
    case True
    have "window_ns rl \<le> (now - start) div 1000000000 * 1000000000"
      using True unfolding window_ns_def by (rule mult_le_mono1)
    also have "\<dots> \<le> now - start" by (rule div_times_less_eq_dividend)
    finally have "\<not> t0 \<le> start" using t by auto
    with True Some e c inv t max_ops_pos [of op] show ?thesis by (auto simp: rate_check_def rate_inv_def)
  next
    case False
    with Some e c inv show ?thesis by (auto simp: rate_check_def rate_inv_def split: if_splits)
  qed
qed

lemma rate_inv_other:
  assumes "rate_check now op rl = (rl', b)" "op' \<noteq> op" "rate_inv t0 op' cnt rl"
  shows "rate_inv t0 op' cnt rl'"
  using assms rate_check_other [OF assms(1,2)] by (simp add: rate_inv_def)

definition count_op :: "ipc_operation \<Rightarrow> ipc_message multiset \<Rightarrow> nat" where
  "count_op op ms = size (filter_mset (\<lambda>m. rate_limit_key m = op) ms)"

lemma count_op_add [simp]:
  "count_op op (add_mset m ms) = (if rate_limit_key m = op then count_op op ms + 1 else count_op op ms)" "count_op op {#} = 0"
  by (simp_all add: count_op_def)

lemma server_run_rate:
  assumes run: "server_run lib (recording handle) host P sv0 sv" and h0: "handled sv0 = []"
    and rl0: "limiter_ok (sh_limiter (sv_shared sv0))"
    and t: "\<And>env. P env \<Longrightarrow> t0 \<le> me_now env \<and> me_now env < t0 + window_ns (sh_limiter (sv_shared sv0))"
  shows "count_op op (mset (handled sv) + in_flight sv) \<le> 2 * max_ops op - 1 + count_op op (in_flight sv0)"
proof -
  let ?w = "rl_window_secs (sh_limiter (sv_shared sv0))" and ?k = "count_op op (in_flight sv0)"
  let ?n = "\<lambda>a r (sh :: ('a \<times> ipc_message list) shared). count_op op (mset (snd (sh_handler sh)) + (a + r))"
  let ?I = "\<lambda>a r sh. rl_window_secs (sh_limiter sh) = ?w \<and> ?k \<le> ?n a r sh \<and> rate_inv t0 op (?n a r sh - ?k) (sh_limiter sh)"
  have "?I (admitted sv) (recorded sv) (sv_shared sv)"
  proof (rule server_run_shared [OF run])
    show "?I (admitted sv0) (recorded sv0) (sv_shared sv0)"
      using h0 rate_inv_start [OF rl0] by (simp add: handled_def in_flight_def)
    show "?I a r sh'" if "?I a r sh" "quiet_step c sh c' sh'" for a r sh c c' sh'
      using that by (simp add: quiet_step_def)
    show "?I (add_mset m a) r sh'" if I: "?I a r sh" and p: "P env" and st: "admit_step env m c sh c' sh'" for a r sh c c' sh' env m
    proof -
      have rc: "rate_check (me_now env) (rate_limit_key m) (sh_limiter sh) = (sh_limiter sh', True)"
        and h: "sh_handler sh' = sh_handler sh" using st by (simp_all add: admit_step_def)
      have w: "window_ns (sh_limiter sh) = window_ns (sh_limiter (sv_shared sv0))" using I by (simp add: window_ns_def)
      have n: "?n (add_mset m a) r sh' = ?n a r sh + (if rate_limit_key m = op then 1 else 0)" by (simp add: h)
      have "rate_inv t0 op (?n (add_mset m a) r sh' - ?k) (sh_limiter sh')"
      proof (cases "rate_limit_key m = op")
        case True
        then have "rate_inv t0 op (?n a r sh - ?k + 1) (sh_limiter sh')"
          using rate_inv_step [of t0 op "?n a r sh - ?k" "sh_limiter sh" "me_now env" "sh_limiter sh'"] I t [OF p] rc w by simp
        moreover have "?n (add_mset m a) r sh' - ?k = ?n a r sh - ?k + 1" using I True unfolding n by (simp add: Suc_diff_le)
        ultimately show ?thesis by simp
      next
        case False
        then show ?thesis using rate_inv_other [OF rc, of op t0] I unfolding n by simp
      qed
      then show ?thesis using I rate_check_window [OF rc] unfolding n by simp
    qed
    show "?I a (add_mset m r) sh'" if "?I (add_mset m a) r sh" "P env" "record_step env m c sh c' sh'" for a r sh c c' sh' env m
      using that by (simp add: record_step_def)
    show "?I a r sh'" if "?I a (add_mset m r) sh" "handle_step (recording handle) m c sh c' sh'" for a r sh c c' sh' m
      using that(1) handle_step_recording [OF that(2)] by simp
  qed
  then show ?thesis using rate_inv_bound by (fastforce simp: handled_def in_flight_def)
qed

end
