(* ===== verification/Ipc_Channel.thy ===== *)
theory Ipc_Channel
  imports Ipc_Cas
begin

text \<open>
  The in-process channel delivers: values are received unchanged and in the order in which they
  were sent, and each message has its own nonce.
\<close>

definition channel_cipher_ok :: "'v channel_lib \<Rightarrow> bool" where
  "channel_cipher_ok lib \<longleftrightarrow> (\<forall>key nonce aad p. length key = 32 \<longrightarrow> length nonce = 12 \<longrightarrow> length p < 2 ^ 36 \<longrightarrow>
     (\<exists>c. chl_seal lib key nonce aad p = Some c \<and> length c = length p + 16 \<and> chl_open lib key nonce aad c = Some p))"

definition channel_typed :: "secure_channel \<Rightarrow> bool" where
  "channel_typed c \<longleftrightarrow> length (sch_key c) = 32 \<and> length (sch_nonce_prefix c) = 4"

definition carries :: "'v channel_lib \<Rightarrow> 'v \<Rightarrow> bool" where
  "carries lib v \<longleftrightarrow> (case chl_encode lib v of None \<Rightarrow> False
     | Some b \<Rightarrow> chl_decode lib b = Some v \<and> length b \<le> MAX_SECURE_CHANNEL_PAYLOAD)"

text \<open>A queued message from which the receiver gets \<open>v\<close>.\<close>

definition holds_value :: "'v channel_lib \<Rightarrow> bytes \<Rightarrow> encrypted_message \<Rightarrow> 'v \<Rightarrow> bool" where
  "holds_value lib key m v \<longleftrightarrow> length (em_ciphertext m) \<le> MAX_SECURE_CHANNEL_PAYLOAD + 16 \<and>
     (\<exists>b. chl_open lib key (em_nonce m) (em_nonce m) (em_ciphertext m) = Some b \<and>
        length b \<le> MAX_SECURE_CHANNEL_PAYLOAD \<and> chl_decode lib b = Some v)"

lemma channel_send_ok:
  assumes "channel_cipher_ok lib" "channel_typed c" "carries lib v" "sch_receiver c" "sch_nonce_counter c < NONCE_COUNTER_MAX"
  obtains m where "channel_send lib v c =
      (c\<lparr>sch_nonce_counter := sch_nonce_counter c + 1, sch_queue := sch_queue c @ [m]\<rparr>, Inr ())"
    "holds_value lib (sch_key c) m v" "em_nonce m = sch_nonce_prefix c @ le 8 (sch_nonce_counter c)"
proof -
  obtain b where b: "chl_encode lib v = Some b" "chl_decode lib b = Some v" "length b \<le> MAX_SECURE_CHANNEL_PAYLOAD"
    using assms(3) by (auto simp: carries_def split: option.splits)
  let ?n = "sch_nonce_prefix c @ le 8 (sch_nonce_counter c)"
  have "length b < 2 ^ 36" using b(3) by (simp add: MAX_SECURE_CHANNEL_PAYLOAD_def MAX_MESSAGE_SIZE_def)
  moreover have "length ?n = 12" "length (sch_key c) = 32" using assms(2) by (simp_all add: channel_typed_def)
  ultimately obtain ct where ct: "chl_seal lib (sch_key c) ?n ?n b = Some ct" "length ct = length b + 16"
    "chl_open lib (sch_key c) ?n ?n ct = Some b"
    using assms(1) unfolding channel_cipher_ok_def by blast
  show thesis
    by (rule that [of "\<lparr>em_nonce = ?n, em_ciphertext = ct\<rparr>"])
       (use assms(4,5) b ct in \<open>simp_all add: channel_send_def holds_value_def\<close>)
qed

lemma channel_recv_ok:
  assumes "sch_queue c = m # q" "holds_value lib (sch_key c) m v"
  shows "channel_recv lib c = Some (c\<lparr>sch_queue := q\<rparr>, Inr v)"
  using assms by (auto simp: channel_recv_def holds_value_def)

fun channel_send_all :: "'v channel_lib \<Rightarrow> 'v list \<Rightarrow> (secure_channel, send_error, unit) op" where
  "channel_send_all lib [] c = (c, Inr ())"
| "channel_send_all lib (v # vs) c = op_bind (channel_send lib v) (\<lambda>_. channel_send_all lib vs) c"

fun channel_recv_all :: "'v channel_lib \<Rightarrow> nat \<Rightarrow> secure_channel \<Rightarrow> 'v list option" where
  "channel_recv_all lib 0 c = Some []"
| "channel_recv_all lib (Suc n) c = (case channel_recv lib c of
       Some (c', Inr v) \<Rightarrow> map_option (Cons v) (channel_recv_all lib n c') | _ \<Rightarrow> None)"

lemma channel_recv_all_ok:
  "list_all2 (holds_value lib (sch_key c)) (sch_queue c) vs \<Longrightarrow> channel_recv_all lib (length vs) c = Some vs"
proof (induction vs arbitrary: c)
  case (Cons v vs)
  then obtain m q where q: "sch_queue c = m # q" "holds_value lib (sch_key c) m v" "list_all2 (holds_value lib (sch_key c)) q vs"
    by (auto simp: list_all2_Cons2)
  then have "channel_recv_all lib (length vs) (c\<lparr>sch_queue := q\<rparr>) = Some vs" by (intro Cons.IH) simp
  with channel_recv_ok [OF q(1,2)] show ?case by simp
qed simp

lemma channel_send_all_ok:
  assumes ok: "channel_cipher_ok lib"
  shows "channel_typed c \<Longrightarrow> sch_receiver c \<Longrightarrow> sch_nonce_counter c + length vs \<le> NONCE_COUNTER_MAX \<Longrightarrow>
    \<forall>v \<in> set vs. carries lib v \<Longrightarrow>
    \<exists>ms. channel_send_all lib vs c =
        (c\<lparr>sch_nonce_counter := sch_nonce_counter c + length vs, sch_queue := sch_queue c @ ms\<rparr>, Inr ()) \<and>
      list_all2 (holds_value lib (sch_key c)) ms vs \<and>
      map em_nonce ms = map (construct_nonce (sch_nonce_prefix c)) [sch_nonce_counter c ..< sch_nonce_counter c + length vs]"
proof (induction vs arbitrary: c)
  case (Cons v vs)
  obtain m where m: "channel_send lib v c =
      (c\<lparr>sch_nonce_counter := sch_nonce_counter c + 1, sch_queue := sch_queue c @ [m]\<rparr>, Inr ())"
    "holds_value lib (sch_key c) m v" "em_nonce m = sch_nonce_prefix c @ le 8 (sch_nonce_counter c)"
    using channel_send_ok [OF ok Cons.prems(1)] Cons.prems by auto
  let ?c = "c\<lparr>sch_nonce_counter := sch_nonce_counter c + 1, sch_queue := sch_queue c @ [m]\<rparr>"
  obtain ms where "channel_send_all lib vs ?c =
      (?c\<lparr>sch_nonce_counter := sch_nonce_counter ?c + length vs, sch_queue := sch_queue ?c @ ms\<rparr>, Inr ())"
    "list_all2 (holds_value lib (sch_key c)) ms vs"
    "map em_nonce ms = map (construct_nonce (sch_nonce_prefix c)) [sch_nonce_counter c + 1 ..< sch_nonce_counter c + 1 + length vs]"
    using Cons.IH [of ?c] Cons.prems by (auto simp: channel_typed_def)
  moreover have "[sch_nonce_counter c ..< sch_nonce_counter c + length (v # vs)] =
      sch_nonce_counter c # [sch_nonce_counter c + 1 ..< sch_nonce_counter c + 1 + length vs]"
    by (simp add: upt_conv_Cons del: upt_Suc)
  ultimately show ?case
    using m by (intro exI [of _ "m # ms"]) (simp add: construct_nonce_def del: upt_Suc)
qed simp

text \<open>All values arrive, in order, from an empty queue.\<close>

theorem channel_delivers:
  assumes "channel_cipher_ok lib" "length key = 32" "length prefix = 4" "length vs < 2 ^ 63" "\<forall>v \<in> set vs. carries lib v"
  shows "\<exists>c. channel_send_all lib vs (channel_new_pair key prefix) = (c, Inr ()) \<and>
    channel_recv_all lib (length vs) c = Some vs \<and> distinct (map em_nonce (sch_queue c))"
proof -
  obtain ms where ms: "channel_send_all lib vs (channel_new_pair key prefix) =
      ((channel_new_pair key prefix)\<lparr>sch_nonce_counter := length vs, sch_queue := ms\<rparr>, Inr ())"
    "list_all2 (holds_value lib key) ms vs" "map em_nonce ms = map (construct_nonce prefix) [0 ..< length vs]"
    using channel_send_all_ok [OF assms(1), of "channel_new_pair key prefix" vs] assms(2-)
    by (auto simp: channel_new_pair_def channel_typed_def NONCE_COUNTER_MAX_def)
  have "inj_on (construct_nonce prefix) {0 ..< length vs}"
    using assms(4) le_inj [of 8] by (auto intro!: inj_onI simp: construct_nonce_def)
  then have "distinct (map em_nonce ms)" unfolding ms(3) by (simp add: distinct_map)
  with ms(1,2) show ?thesis
    using channel_recv_all_ok [of lib "(channel_new_pair key prefix)\<lparr>sch_nonce_counter := length vs, sch_queue := ms\<rparr>" vs]
    by (auto simp: channel_new_pair_def)
qed

text \<open>Nor do threads that send at the same time share a nonce.\<close>

lemma channel_threads_nonces:
  assumes "all_start ths0" "cas_run 1 n ths0 v ths" "i < length ths" "j < length ths" "i \<noteq> j"
    "ths ! i = Took a" "ths ! j = Took b"
  shows "prefix @ le 8 a \<noteq> prefix @ le 8 b"
proof
  assume "prefix @ le 8 a = prefix @ le 8 b"
  then have "a = b"
    using le_inj [of 8 a b] channel_counter.taken_path [OF assms(2,1,3,6)] channel_counter.taken_path [OF assms(2,1,4,7)]
    by simp
  then show False using channel_counter.taken_once [OF assms(2,1,3,4,6)] assms(5,7) by simp
qed

end
