(* ===== verification/Ipc_Props.thy ===== *)
theory Ipc_Props
  imports Ipc_Exchange Ipc_Safe Ipc_Channel
begin

text \<open>
  The properties of the IPC layer: the encrypted connection implements a request-response server,
  a session accepts exactly the frames of its peer in their order, nonces are never used twice,
  the handler sees only what passed the checks and not too much of it, and a request that is too
  long leaves the connection unusable.
\<close>

lemma abstract_server_length:
  "abstract_server lib handle role label env i ms sh = (rs, sh') \<Longrightarrow> length rs = length ms"
  by (induction ms arbitrary: i sh rs) (auto split: prod.splits)

text \<open>C6: A client that connects, sends any requests and reads as many responses gets the responses of
  the abstract server, in order, and the server is left in the abstract server's state: there
  are bytes for both directions such that each side reads what the other one writes. The
  ciphers, the key exchange and HKDF behave as documented, and the JSON codec carries the
  messages of the exchange in frames of the allowed size.\<close>

theorem ipc_exchange_refines:
  assumes "aes_gcm_ok lib" "ipc_hkdf_ok lib" "ecdh_ok lib"
    and "abstract_server lib handle User UNIX_LABEL env 0 ms sh = (rs, sh')"
    and "\<forall>m \<in> set ms. wire_ok lib m" "\<forall>r \<in> set rs. wire_ok lib r" "length ms < 2 ^ 62"
  shows "\<exists>out_c out_s cl cl' s st.
    client_connect lib a path (Some (calm out_s [])) = Inr cl \<and>
    op_bind (send_all lib ms) (\<lambda>_. recv_all lib (length ms)) cl = (cl', Inr rs) \<and> cl_stream cl' = Some (calm [] out_c) \<and>
    open_connection lib b (calm out_c []) = Open s st \<and>
    message_loop lib handle User UNIX_LABEL env 0 s st sh = (Closed (calm [] out_s), sh')"
proof -
  obtain hc hs c s where h: "\<And>rest. establish_secure_session lib a (calm (hs @ rest) []) = (calm rest hc, Inr c)"
    "\<And>rest. open_connection lib b (calm (hc @ rest) []) = Open s (calm rest hs)"
    and cs: "in_step c s" and sc: "in_step s c" and n: "ss_tx_sequence c = 2" "ss_tx_sequence s = 3"
    using handshake_calm [OF assms(1-3)] by metis
  have lr: "length rs = length ms" by (rule abstract_server_length [OF assms(4)])
  obtain fs where fs: "encrypt_all lib (map (wire lib) ms) c = Some fs" "\<forall>f \<in> set fs. length f \<le> MAX_MESSAGE_SIZE"
    using encrypt_all_wire [OF assms(1) cs _ assms(5)] n(1) assms(7) by auto
  obtain gs where gs: "encrypt_all lib (map (wire lib) rs) s = Some gs" "\<forall>g \<in> set gs. length g \<le> MAX_MESSAGE_SIZE"
    using encrypt_all_wire [OF assms(1) sc _ assms(6)] n(2) assms(7) lr by auto
  let ?fs = "concat (map wire_frame fs)" and ?gs = "concat (map wire_frame gs)"
  have con: "client_connect lib a path (Some (calm (hs @ ?gs) [])) = Inr (connected c (calm ?gs hc) (Some path))"
    using h(1) [of ?gs] by (simp add: client_connect_def client_establish_def connected_def)
  obtain t where snd: "send_all lib ms (connected c (calm ?gs hc) (Some path)) =
      (connected (c\<lparr>ss_tx_sequence := t\<rparr>) (calm ?gs (hc @ ?fs)) (Some path), Inr ())"
    using send_all_calm [OF fs(1) assms(5) fs(2)] by blast
  have "in_step s (c\<lparr>ss_tx_sequence := t\<rparr>)" using in_step_rx [OF sc, of "ss_rx_sequence s" t] by simp
  then obtain c' where rcv: "recv_all lib (length rs) (connected (c\<lparr>ss_tx_sequence := t\<rparr>) (calm ?gs (hc @ ?fs)) (Some path)) =
      (connected c' (calm [] (hc @ ?fs)) (Some path), Inr rs)"
    using recv_all_calm [OF assms(1) _ gs(1) assms(6) gs(2)] by blast
  have "message_loop lib handle User UNIX_LABEL env 0 s (calm ?fs hs) sh = (Closed (calm [] (hs @ ?gs)), sh')"
    using gs(2) by (intro message_loop_calm [OF assms(1) cs fs(1) assms(5) fs(2) assms(4) assms(6) gs(1)])
      (auto simp: MAX_MESSAGE_SIZE_def)
  with con snd rcv h(2) [of ?fs] lr show ?thesis
    by (intro exI [of _ "hc @ ?fs"] exI [of _ "hs @ ?gs"] exI [of _ "connected c (calm ?gs hc) (Some path)"]
        exI [of _ "connected c' (calm [] (hc @ ?fs)) (Some path)"] exI [of _ s] exI [of _ "calm ?fs hs"])
      (simp add: connected_def)
qed

text \<open>A concrete library: a cipher that puts sixteen zero bytes in front of the message, constant
  keys, and a codec for three messages.\<close>

definition toy_ipc :: ipc_lib where
  "toy_ipc = \<lparr>il_hkdf = \<lambda>_ _ _ n. Some (replicate n 1),
     il_seal = \<lambda>_ _ p. Some (replicate 16 0 @ p),
     il_open = \<lambda>_ _ c. if take 16 c = replicate 16 0 then Some (drop 16 c) else None,
     il_pub = \<lambda>_. replicate 65 4, il_pk_ok = \<lambda>_. True, il_dh = \<lambda>_ _. replicate 32 7,
     il_encode = \<lambda>m. case m of Heartbeat \<Rightarrow> Some [1] | HeartbeatAck n \<Rightarrow> Some [2, word_of_nat n]
        | Handshake v \<Rightarrow> Some (3 # v) | IpcError RateLimited _ \<Rightarrow> Some [4] | _ \<Rightarrow> None,
     il_decode = \<lambda>b. case b of [] \<Rightarrow> None | t # r \<Rightarrow>
        if t = 1 then Some Heartbeat
        else if t = 2 then Some (HeartbeatAck (unat (hd r))) else if t = 3 then Some (Handshake r)
        else Some (IpcError RateLimited (rate_text OpGeneral)),
     il_refusal_text = \<lambda>_. []\<rparr>"

lemma toy_ipc_ok: "aes_gcm_ok toy_ipc" "ipc_hkdf_ok toy_ipc" "ecdh_ok toy_ipc"
proof -
  have eq: "take 16 c = replicate 16 0 \<and> drop 16 c = p \<longleftrightarrow> replicate 16 0 @ p = c" for c p :: bytes
    by (metis append_take_drop_id append_eq_conv_conj length_replicate)
  show "aes_gcm_ok toy_ipc"
    unfolding aes_gcm_ok_def toy_ipc_def using eq by auto
qed (auto simp: ipc_hkdf_ok_def ecdh_ok_def toy_ipc_def)

definition toy_msg_env :: "nat \<Rightarrow> msg_env" where
  "toy_msg_env now = \<lparr>me_now = now, me_wall = 0, me_fs = \<lparr>pf_canonicalize = \<lambda>_. None, pf_is_symlink = \<lambda>_. False\<rparr>, me_log_ok = True\<rparr>"

definition toy_shared :: "nat shared" where
  "toy_shared = \<lparr>sh_limiter = rate_limiter_new 60, sh_log = Some [], sh_handler = 0\<rparr>"

definition toy_handle :: "nat \<Rightarrow> ipc_message \<Rightarrow> nat \<times> ipc_message option" where
  "toy_handle n m = (n + 1, Some (HeartbeatAck n))"

lemma toy_abstract:
  "fst (abstract_server toy_ipc toy_handle User UNIX_LABEL (\<lambda>_. toy_msg_env 0) 0 [Heartbeat, Handshake []] toy_shared) =
     [HeartbeatAck 0, HeartbeatAck 1]"
  by (simp add: abstract_reply_def toy_msg_env_def toy_shared_def toy_handle_def validate_paths_def refuse_def
      required_role_def less_ipc_role_def rate_limit_key_def rate_check_def rate_limiter_new_def max_ops_def
      MAX_SHORT_STRING_def record_access_def ipc_access_info_def)

lemma toy_wire: "wire_ok toy_ipc Heartbeat" "wire_ok toy_ipc (Handshake [])" "wire_ok toy_ipc (HeartbeatAck 0)"
  "wire_ok toy_ipc (HeartbeatAck 1)"
  by (simp_all add: wire_ok_def toy_ipc_def MAX_MESSAGE_SIZE_def)

theorem ipc_exchange_refines_witness:
  "\<exists>out_c out_s cl cl' s st.
    client_connect toy_ipc [1] [] (Some (calm out_s [])) = Inr cl \<and>
    op_bind (send_all toy_ipc [Heartbeat, Handshake []]) (\<lambda>_. recv_all toy_ipc (length [Heartbeat, Handshake []])) cl =
      (cl', Inr [HeartbeatAck 0, HeartbeatAck 1]) \<and> cl_stream cl' = Some (calm [] out_c) \<and>
    open_connection toy_ipc [2] (calm out_c []) = Open s st \<and>
    message_loop toy_ipc toy_handle User UNIX_LABEL (\<lambda>_. toy_msg_env 0) 0 s st toy_shared = (Closed (calm [] out_s),
      snd (abstract_server toy_ipc toy_handle User UNIX_LABEL (\<lambda>_. toy_msg_env 0) 0 [Heartbeat, Handshake []] toy_shared))"
  by (rule ipc_exchange_refines [OF toy_ipc_ok])
     (use toy_wire in \<open>simp_all add: prod_eq_iff toy_abstract del: abstract_server.simps\<close>)

text \<open>C10: When the sender's next sequence number is the one the receiver expects, the receiver accepts
  a list of frames, with given plaintexts, if and only if they are the frames that the sender
  makes for these plaintexts, in this order: nothing can be changed, dropped, repeated or
  swapped.\<close>

theorem ipc_stream_exact:
  assumes "aes_gcm_ok lib" "in_step a b"
  shows "decrypt_all lib fs b = Some ps \<longleftrightarrow> encrypt_all lib ps a = Some fs"
  by (rule decrypt_all_iff [OF assms])

definition toy_client :: secure_session where
  "toy_client = \<lparr>ss_key = replicate 32 1, ss_tx_sequence = 0, ss_rx_sequence = 1,
     ss_tx_nonce_prefix = replicate 4 1, ss_rx_nonce_prefix = replicate 4 1\<rparr>"

definition toy_server :: secure_session where
  "toy_server = \<lparr>ss_key = replicate 32 1, ss_tx_sequence = 1, ss_rx_sequence = 0,
     ss_tx_nonce_prefix = replicate 4 1, ss_rx_nonce_prefix = replicate 4 1\<rparr>"

lemma toy_in_step: "in_step toy_client toy_server"
  by (simp add: in_step_def toy_client_def toy_server_def)

theorem ipc_stream_exact_witness:
  "\<exists>f g. encrypt_all toy_ipc [[5], [6]] toy_client = Some [f, g] \<and>
     decrypt_all toy_ipc [f, g] toy_server = Some [[5], [6]] \<and> decrypt_all toy_ipc [g, f] toy_server \<noteq> Some [[6], [5]]"
proof -
  note iff = ipc_stream_exact [OF toy_ipc_ok(1) toy_in_step]
  obtain f g where fg: "encrypt_all toy_ipc [[5], [6]] toy_client = Some [f, g]"
    by (simp add: toy_client_def toy_ipc_def encrypt_def)
  have "be 8 0 \<noteq> be 8 (Suc (Suc 0))" using be_inj [of 8 0 "Suc (Suc 0)"] by auto
  then have "encrypt_all toy_ipc [[6], [5]] toy_client \<noteq> Some [g, f]"
    using fg by (auto simp: toy_client_def toy_ipc_def encrypt_def construct_nonce_def le_def)
  with fg iff [of "[f, g]"] iff [of "[g, f]"] show ?thesis by blast
qed

text \<open>The numbers that the calls of a counter ended with, and their nonces.\<close>

definition taken :: "cas_thread list \<Rightarrow> nat list" where
  "taken threads = concat (map (\<lambda>t. case t of Took v \<Rightarrow> [v] | _ \<Rightarrow> []) threads)"

definition used_nonces :: "bytes \<Rightarrow> cas_thread list \<Rightarrow> bytes list" where
  "used_nonces prefix threads = map (construct_nonce prefix) (taken threads)"

lemma taken_Cons: "taken (t # ts) = (case t of Took v \<Rightarrow> v # taken ts | _ \<Rightarrow> taken ts)"
  by (cases t) (simp_all add: taken_def)

lemma taken_set: "v \<in> set (taken ts) \<longleftrightarrow> (\<exists>i < length ts. ts ! i = Took v)"
  unfolding taken_def by (auto simp: in_set_conv_nth split: cas_thread.splits)

lemma taken_distinct:
  "(\<And>i j v. i < length ts \<Longrightarrow> j < length ts \<Longrightarrow> ts ! i = Took v \<Longrightarrow> ts ! j = Took v \<Longrightarrow> i = j) \<Longrightarrow> distinct (taken ts)"
proof (induction ts)
  case (Cons t ts)
  have "i = j" if "i < length ts" "j < length ts" "ts ! i = Took v" "ts ! j = Took v" for i j v
    using Cons.prems [of "Suc i" "Suc j" v] that by simp
  then have d: "distinct (taken ts)" by (rule Cons.IH)
  have "v \<notin> set (taken ts)" if "t = Took v" for v
    using Cons.prems [of 0 "Suc i" v for i] that by (auto simp: taken_set)
  with d show ?case by (auto simp: taken_Cons split: cas_thread.splits)
qed (simp add: taken_def)

lemma nonce_inj:
  assumes "construct_nonce p a = construct_nonce q b" "length p = length q" "a < 2 ^ 64" "b < 2 ^ 64"
  shows "a = b"
  using assms le_inj [of 8 a b] by (simp add: construct_nonce_def)

lemma session_nonces:
  assumes "all_start ths0" "cas_run 2 n ths0 v ths"
  shows "distinct (used_nonces p ths)" "x \<in> set (taken ths) \<Longrightarrow> n \<le> x \<and> even (x - n) \<and> x < 2 ^ 64"
proof -
  have path: "n \<le> x \<and> even (x - n) \<and> x < 2 ^ 64" if "x \<in> set (taken ths)" for x
    using that session_counter.taken_path [OF assms(2,1)] by (fastforce simp: taken_set)
  then show "x \<in> set (taken ths) \<Longrightarrow> n \<le> x \<and> even (x - n) \<and> x < 2 ^ 64" .
  have "distinct (taken ths)" using session_counter.taken_once [OF assms(2,1)] by (rule taken_distinct)
  then show "distinct (used_nonces p ths)"
    unfolding used_nonces_def using path nonce_inj [of p _ p] by (auto simp: distinct_map intro!: inj_onI)
qed

text \<open>C32: Whatever the interleaving of the threads that encrypt on both sides of a connection, all
  nonces used with its key are different, even when the two sides have the same nonce prefix.\<close>

theorem ipc_nonces_unique:
  assumes "ipc_hkdf_ok lib" "from_shared_secret lib z pc ps False = Inr c" "from_shared_secret lib z pc ps True = Inr s"
    and "all_start cts0" "cas_run 2 (ss_tx_sequence c) cts0 v cts"
    and "all_start sts0" "cas_run 2 (ss_tx_sequence s) sts0 w sts"
  shows "distinct (used_nonces (ss_tx_nonce_prefix c) cts @ used_nonces (ss_tx_nonce_prefix s) sts)"
proof -
  have "32 \<le> length z" "length pc = 65" "length ps = 65"
    using assms(2) by (auto simp: from_shared_secret_def from_shared_secret_with_salt_def P256_PUBLIC_KEY_SIZE_def split: if_splits)
  then obtain c' s' where "from_shared_secret lib z pc ps False = Inr c'" "from_shared_secret lib z pc ps True = Inr s'"
    "in_step c' s'" "in_step s' c'" "ss_tx_sequence c' = 0" "ss_tx_sequence s' = 1"
    by (rule from_shared_secret_pair [OF assms(1)])
  then have c: "length (ss_tx_nonce_prefix c) = length (ss_tx_nonce_prefix s)" "ss_tx_sequence c = 0" "ss_tx_sequence s = 1"
    using assms(2,3) by (auto simp: in_step_def)
  have "construct_nonce (ss_tx_nonce_prefix c) a \<noteq> construct_nonce (ss_tx_nonce_prefix s) b"
    if "a \<in> set (taken cts)" "b \<in> set (taken sts)" for a b
  proof
    assume "construct_nonce (ss_tx_nonce_prefix c) a = construct_nonce (ss_tx_nonce_prefix s) b"
    then have "a = b"
      by (rule nonce_inj [OF _ c(1)])
         (use session_nonces(2) [OF assms(4,5) that(1)] session_nonces(2) [OF assms(6,7) that(2)] in simp_all)
    moreover have "even a" "odd b"
      using session_nonces(2) [OF assms(4,5) that(1)] session_nonces(2) [OF assms(6,7) that(2)] c by auto
    ultimately show False by simp
  qed
  with session_nonces(1) [OF assms(4,5)] session_nonces(1) [OF assms(6,7)] show ?thesis
    by (auto simp: used_nonces_def)
qed

theorem ipc_nonces_unique_witness:
  "distinct (used_nonces (replicate 4 1) [Took 0, Start (Below (2 ^ 64 - 2))] @ used_nonces (replicate 4 1) [Took 1])"
proof -
  let ?r = "Below (2 ^ 64 - 2)"
  have h: "from_shared_secret toy_ipc (replicate 32 7) (replicate 65 4) (replicate 65 4) False = Inr toy_client"
    "from_shared_secret toy_ipc (replicate 32 7) (replicate 65 4) (replicate 65 4) True = Inr toy_server"
    by (simp_all add: from_shared_secret_def from_shared_secret_with_salt_def P256_PUBLIC_KEY_SIZE_def toy_ipc_def
        toy_client_def toy_server_def)
  have "cas_run 2 0 [Start ?r, Start ?r] 0 ([Start ?r, Start ?r][0 := Loaded ?r 0])"
    by (rule cas_run.step [OF cas_run.init]) simp_all
  then have "cas_run 2 0 [Start ?r, Start ?r] 0 ([Start ?r, Start ?r][0 := Loaded ?r 0, 1 := Loaded ?r 0])"
    by (rule cas_run.step) simp_all
  then have "cas_run 2 0 [Start ?r, Start ?r] 2 ([Start ?r, Start ?r][0 := Loaded ?r 0, 1 := Loaded ?r 0, 0 := Took 0])"
    by (rule cas_run.step) simp_all
  then have "cas_run 2 0 [Start ?r, Start ?r] 2 ([Start ?r, Start ?r][0 := Loaded ?r 0, 1 := Loaded ?r 0, 0 := Took 0, 1 := Start ?r])"
    by (rule cas_run.step) simp_all
  then have 1: "cas_run 2 (ss_tx_sequence toy_client) [Start ?r, Start ?r] 2 [Took 0, Start ?r]" by (simp add: toy_client_def)
  have 2: "cas_run 2 (ss_tx_sequence toy_server) [Start ?r] (1 + 2) [Took 1]"
    unfolding toy_server_def secure_session.simps by (rule cas_run_alone) simp_all
  show ?thesis
    using ipc_nonces_unique [OF toy_ipc_ok(2) h _ 1 _ 2]
    by (simp add: all_start_def toy_client_def toy_server_def)
qed

subsection \<open>What reaches the handler\<close>

text \<open>What an accepted path guarantees; a path that exists is judged by its canonical form.\<close>

definition path_fine :: "path_fs \<Rightarrow> bytes \<Rightarrow> bool" where
  "path_fine fs p \<longleftrightarrow> is_absolute p \<and> ParentDir \<notin> set (components p) \<and> \<not> pf_is_symlink fs p \<and>
     (\<forall>q. pf_canonicalize fs p = Some q \<longrightarrow> \<not> is_blocked_system_path q)"

lemma validate_ipc_path_fine: "validate_ipc_path fs p = Inr u \<Longrightarrow> path_fine fs p"
  by (auto simp: validate_ipc_path_def path_fine_def Let_def split: if_splits option.splits)

lemma validate_paths_fine:
  "validate_paths fs now m = Inr u \<Longrightarrow> p \<in> set (message_paths m) \<Longrightarrow> path_fine fs p"
  by (cases m) (auto simp: validate_paths_def message_paths_def res_bind_Inr_iff validate_ipc_path_fine split: option.splits)

text \<open>C12: In every run of the server, with any peers, any bytes and any interleaving of the steps of
  the connections (checks, audit log, handler), at most sixteen connections are active; every
  message that reaches the handler is one a user may send, passed validation, and names only
  absolute paths without parent components that are no symbolic links and whose canonical form
  lies outside the system directories; and, with an audit log, its success entries are, up to
  order, among the messages that were handled or whose handler call is next, and exactly these
  when every write to the log succeeds, so that no message is handled before it is logged. A log
  that is absent or cannot be written does not stop a message from being handled.\<close>

theorem ipc_server_safe:
  assumes "server_run lib (recording handle) host P (server_start sh) sv" "snd (sh_handler sh) = []"
  shows "length (sv_active sv) \<le> MAX_CONCURRENT_CONNECTIONS \<and>
    (\<forall>m \<in> set (handled sv). required_role m \<le> User \<and>
       (\<exists>env. P env \<and> validate_paths (me_fs env) (me_wall env) m = Inr () \<and> (\<forall>p \<in> set (message_paths m). path_fine (me_fs env) p))) \<and>
    (sh_log sh = Some [] \<longrightarrow> (\<exists>es. sh_log (sv_shared sv) = Some es \<and>
       mset (successes es) \<subseteq># image_mset ipc_access_info (mset (handled sv) + recorded sv) \<and>
       ((\<forall>env. P env \<longrightarrow> me_log_ok env) \<longrightarrow>
          mset (successes es) = image_mset ipc_access_info (mset (handled sv) + recorded sv))))"
proof (intro conjI ballI impI)
  have h0: "handled (server_start sh) = []" using assms(2) by (simp add: handled_def server_start_def)
  have f0: "in_flight (server_start sh) = {#}" by (simp add: in_flight_def admitted_def recorded_def server_start_def)
  show "length (sv_active sv) \<le> MAX_CONCURRENT_CONNECTIONS"
    by (rule server_run_active [OF assms(1)]) (simp add: server_start_def)
  show "\<exists>es. sh_log (sv_shared sv) = Some es \<and>
       mset (successes es) \<subseteq># image_mset ipc_access_info (mset (handled sv) + recorded sv) \<and>
       ((\<forall>env. P env \<longrightarrow> me_log_ok env) \<longrightarrow>
          mset (successes es) = image_mset ipc_access_info (mset (handled sv) + recorded sv))" if "sh_log sh = Some []"
    by (rule server_run_logged [OF assms(1) h0 f0]) (simp add: server_start_def that)
  show "required_role m \<le> User"
    "\<exists>env. P env \<and> validate_paths (me_fs env) (me_wall env) m = Inr () \<and> (\<forall>p \<in> set (message_paths m). path_fine (me_fs env) p)"
    if "m \<in> set (handled sv)" for m
    using server_run_allowed [OF assms(1) h0 f0] that validate_paths_fine by blast+
qed

definition toy_record :: "(nat \<times> ipc_message list) shared" where
  "toy_record = \<lparr>sh_limiter = rate_limiter_new 60, sh_log = Some [], sh_handler = (0, [])\<rparr>"

definition toy_host :: host where
  "toy_host = \<lparr>ho_uid = 7, ho_read_link = \<lambda>_. None\<rparr>"

text \<open>Until a message is admitted the handler is left alone.\<close>

lemma admit_keeps: "sh_handler (snd (receive_one lib role label env s st sh)) = sh_handler sh"
  by (auto simp: receive_one_def receive_message_def Let_def split: prod.splits sum.splits option.splits bool.splits)

text \<open>A connection from its handshake to the answer to a heartbeat.\<close>

lemma toy_server_run:
  "\<exists>sv. server_run toy_ipc (recording toy_handle) toy_host (\<lambda>env. env = toy_msg_env 0) (server_start toy_record) sv \<and>
     handled sv = [Heartbeat] \<and> in_flight sv = {#}"
proof -
  let ?run = "server_run toy_ipc (recording toy_handle) toy_host (\<lambda>env. env = toy_msg_env 0) (server_start toy_record)"
  obtain hc hs c s where h: "\<And>rest. open_connection toy_ipc [2] (calm (hc @ rest) []) = Open s (calm rest hs)"
    and cs: "in_step c s" and sc: "in_step s c" and n: "ss_tx_sequence c = 2" "ss_tx_sequence s = 3"
    using handshake_calm [OF toy_ipc_ok, of "[1]" "[2]"] by metis
  obtain f where f: "encrypt toy_ipc [1] c = (tx_next c, Inr f)" "length f = 37"
    using encrypt_ok [OF toy_ipc_ok(1) cs, of "[1]"] n(1) by auto
  obtain g where g: "encrypt toy_ipc [2, 0] s = (tx_next s, Inr g)" "length g = 38"
    using encrypt_ok [OF toy_ipc_ok(1) sc, of "[2, 0]"] n(2) by auto
  let ?rep = "abstract_reply toy_ipc (recording toy_handle) User UNIX_LABEL (toy_msg_env 0) Heartbeat toy_record"
  have r: "?rep = (HeartbeatAck 0, snd ?rep)" "sh_handler (snd ?rep) = (1, [Heartbeat])"
    by (simp_all add: abstract_reply_def recording_def toy_handle_def toy_record_def toy_msg_env_def validate_paths_def
        required_role_def less_ipc_role_def rate_limit_key_def rate_check_def rate_limiter_new_def record_access_def
        ipc_access_info_def)
  have "?run (server_start toy_record)" by (rule server_run.init)
  then have "?run ((server_start toy_record)\<lparr>sv_active := sv_active (server_start toy_record) @ [Fresh (Some 7) None (calm (hc @ wire_frame f) [])]\<rparr>)"
    by (rule server_run.accept) (simp add: server_start_def MAX_CONCURRENT_CONNECTIONS_def)
  then have "?run \<lparr>sv_active = [Fresh (Some 7) None (calm (hc @ wire_frame f) [])], sv_shared = toy_record\<rparr>"
    by (simp add: server_start_def)
  then have "?run \<lparr>sv_active = [Fresh (Some 7) None (calm (hc @ wire_frame f) [])][0 := Open s (calm (wire_frame f) hs)], sv_shared = toy_record\<rparr>"
    by (rule server_run_task [where env = "toy_msg_env 0" and secret = "[2]"]) (simp_all add: h peer_accepted_def toy_host_def)
  then have 1: "?run \<lparr>sv_active = [Open s (calm (wire_frame f) hs)], sv_shared = toy_record\<rparr>" by simp
  have one: "serve_one toy_ipc (recording toy_handle) User UNIX_LABEL (toy_msg_env 0) s (calm (wire_frame f @ []) hs) toy_record =
    (Open (tx_next (rx_next s)) (calm [] (hs @ wire_frame g)), snd ?rep)"
    by (rule serve_one_calm [OF toy_ipc_ok(1) cs f(1) _ _ r(1) _ g(1)])
       (simp_all add: f(2) g(2) MAX_MESSAGE_SIZE_def toy_ipc_def)
  let ?step = "conn_step toy_ipc (recording toy_handle) toy_host [2] (toy_msg_env 0)"
  obtain c1 sh1 where 2: "?step (Open s (calm (wire_frame f) hs)) toy_record = (c1, sh1)" by fastforce
  obtain m s1 st1 where c1: "c1 = Admitted m s1 st1"
  proof (cases c1)
    case (Admitted m s1 st1)
    then show ?thesis by (rule that)
  qed (use one 2 r(2) admit_keeps [of toy_ipc User UNIX_LABEL "toy_msg_env 0" s "calm (wire_frame f) hs" toy_record]
        in \<open>auto simp: serve_one_def finish_message_def toy_record_def\<close>)
  obtain c2 sh2 where 3: "?step c1 sh1 = (c2, sh2)" by fastforce
  have 4: "?step c2 sh2 = (Open (tx_next (rx_next s)) (calm [] (hs @ wire_frame g)), snd ?rep)"
    using conn_steps_serve [OF 2 [unfolded c1] 3 [unfolded c1]] one by simp
  note tk = server_run_task [where env = "toy_msg_env 0" and secret = "[2]" and i = 0 and P = "\<lambda>env. env = toy_msg_env 0"]
  have "?run \<lparr>sv_active = [c1], sv_shared = sh1\<rparr>" using tk [OF 1] 2 by fastforce
  then have "?run \<lparr>sv_active = [c2], sv_shared = sh2\<rparr>" using tk [of _ _ _ _ "[c1]"] 3 by fastforce
  then have "?run \<lparr>sv_active = [Open (tx_next (rx_next s)) (calm [] (hs @ wire_frame g))], sv_shared = snd ?rep\<rparr>"
    using tk [of _ _ _ _ "[c2]"] 4 by fastforce
  then show ?thesis using r(2)
    by (intro exI [of _ "\<lparr>sv_active = [Open (tx_next (rx_next s)) (calm [] (hs @ wire_frame g))], sv_shared = snd ?rep\<rparr>"])
      (auto simp: handled_def in_flight_def admitted_def recorded_def)
qed

theorem ipc_server_safe_witness:
  "\<exists>(sv :: (nat \<times> ipc_message list) server) es. handled sv = [Heartbeat] \<and> length (sv_active sv) \<le> MAX_CONCURRENT_CONNECTIONS \<and>
     sh_log (sv_shared sv) = Some es \<and> mset (successes es) = {#(AccessRead, ascii ''status'')#}"
proof -
  obtain sv where sv: "server_run toy_ipc (recording toy_handle) toy_host (\<lambda>env. env = toy_msg_env 0) (server_start toy_record) sv"
    "handled sv = [Heartbeat]" "in_flight sv = {#}"
    using toy_server_run by blast
  from ipc_server_safe [OF sv(1)] sv(2,3) show ?thesis
    by (intro exI [of _ sv]) (auto simp: toy_record_def toy_msg_env_def ipc_access_info_def in_flight_def)
qed

text \<open>C33: In any time shorter than a window of the rate limiter, whatever the connections send and
  however their steps interleave, fewer than twice as many requests of a category are admitted,
  handled or still on their way to the handler, as the limit of the category says, not counting
  those that were on their way when the time began.\<close>

theorem ipc_rate_bounded:
  assumes "server_run lib (recording handle) host P sv0 sv" "handled sv0 = []"
    and "limiter_ok (sh_limiter (sv_shared sv0))"
    and "\<And>env. P env \<Longrightarrow> since \<le> me_now env \<and> me_now env < since + window_ns (sh_limiter (sv_shared sv0))"
  shows "count_op op (mset (handled sv) + in_flight sv) \<le> 2 * max_ops op - 1 + count_op op (in_flight sv0)"
  by (rule server_run_rate [OF assms])

theorem ipc_rate_bounded_witness:
  "\<exists>sv :: (nat \<times> ipc_message list) server. handled sv = [Heartbeat] \<and>
     count_op OpGeneral (mset (handled sv) + in_flight sv) \<le> 2 * max_ops OpGeneral - 1"
proof -
  obtain sv where sv: "server_run toy_ipc (recording toy_handle) toy_host (\<lambda>env. env = toy_msg_env 0) (server_start toy_record) sv"
    "handled sv = [Heartbeat]"
    using toy_server_run by blast
  have "count_op OpGeneral (mset (handled sv) + in_flight sv) \<le>
      2 * max_ops OpGeneral - 1 + count_op OpGeneral (in_flight (server_start toy_record))"
    by (rule ipc_rate_bounded [OF sv(1), where since = 0])
       (simp_all add: handled_def server_start_def toy_record_def limiter_ok_def rate_limiter_new_def toy_msg_env_def window_ns_def)
  then show ?thesis using sv(2)
    by (intro exI [of _ sv]) (simp add: in_flight_def admitted_def recorded_def server_start_def)
qed

text \<open>A request that is too long for a frame is refused by the client with its session still
  there, but it has used up a sequence number: the next request is sent without an error, and
  the server closes the connection without an answer.\<close>

theorem ipc_oversized_request_desyncs:
  assumes "aes_gcm_ok lib" "in_step c s" "ss_tx_sequence c + 4 \<le> 2 ^ 64 - 2"
    and "il_encode lib m = Some b" "MAX_MESSAGE_SIZE < length b + 36" "length b < 2 ^ 36" "wire_ok lib m'"
  shows "\<exists>c1 c2 out.
    send_message lib m (connected c (calm [] []) path) = (connected c1 (calm [] []) path, Inl (MessageTooLarge (length b + 36))) \<and>
    send_message lib m' (connected c1 (calm [] []) path) = (connected c2 (calm [] out) path, Inr ()) \<and>
    serve_one lib handle role label env s (calm out []) sh = (Closed (calm [] []), sh)"
proof -
  obtain f where f: "encrypt lib b c = (tx_next c, Inr f)" "length f = length b + 36"
    using encrypt_ok [OF assms(1,2) _ assms(6)] assms(3) by auto
  have st: "in_step (tx_next c) (rx_next s)" by (rule in_step_next [OF assms(2)])
  obtain g where g: "encrypt lib (wire lib m') (tx_next c) = (tx_next (tx_next c), Inr g)"
    "decrypt lib g (rx_next s) = (rx_next (rx_next s), Inr (wire lib m'))" "length g = length (wire lib m') + 36"
    using encrypt_ok [OF assms(1) st, of "wire lib m'"] assms(3) wire_okD(3) [OF assms(7)] by auto
  have lg: "36 \<le> length g" "length g \<le> MAX_MESSAGE_SIZE"
    using g(3) wire_okD(3) [OF assms(7)] by (simp_all add: MAX_MESSAGE_SIZE_def)
  have "le_val (take 8 g) = ss_rx_sequence s + 2" using g(2) by (simp add: decrypt_Inr)
  then have d: "decrypt lib g s = (s, Inl (SequenceDesync (ss_rx_sequence s) (ss_rx_sequence s + 2)))"
    using lg by (simp add: decrypt_def Let_def)
  have 1: "send_message lib m (connected c (calm [] []) path) =
      (connected (tx_next c) (calm [] []) path, Inl (MessageTooLarge (length b + 36)))"
    using f assms(4,5) by (simp add: send_message_def connected_def)
  have 2: "send_message lib m' (connected (tx_next c) (calm [] []) path) =
      (connected (tx_next (tx_next c)) (calm [] (wire_frame g)) path, Inr ())"
    using send_message_calm [OF assms(7) g(1) lg(2), of "[]" "[]" path] by simp
  have r1: "read_exact 4 (calm (wire_frame g) []) = (calm g [], Inr (le 4 (length g)))"
    using read_calm [of "le 4 (length g)" 4 g "[]"] by (simp add: wire_frame_def)
  have r2: "read_exact (length g) (calm g []) = (calm [] [], Inr g)"
    using read_calm [of g "length g" "[]" "[]"] by simp
  have "le_val (le 4 (length g)) = length g" using lg by (simp add: MAX_MESSAGE_SIZE_def byte_simps)
  then have 3: "serve_one lib handle role label env s (calm (wire_frame g) []) sh = (Closed (calm [] []), sh)"
    using r1 r2 d lg by (auto simp: serve_one_eq)
  show ?thesis using 1 2 3 by blast
qed

theorem ipc_oversized_request_desyncs_witness:
  "\<exists>c1 c2 out.
    send_message toy_ipc (Handshake (replicate 300000 0)) (connected toy_client (calm [] []) None) =
      (connected c1 (calm [] []) None, Inl (MessageTooLarge 300037)) \<and>
    send_message toy_ipc Heartbeat (connected c1 (calm [] []) None) = (connected c2 (calm [] out) None, Inr ()) \<and>
    serve_one toy_ipc toy_handle User UNIX_LABEL (toy_msg_env 0) toy_server (calm out []) toy_shared = (Closed (calm [] []), toy_shared)"
  using ipc_oversized_request_desyncs [OF toy_ipc_ok(1) toy_in_step, of "Handshake (replicate 300000 0)" "3 # replicate 300000 0"
      Heartbeat None toy_handle User UNIX_LABEL "toy_msg_env 0" toy_shared] toy_wire(1)
  by (simp add: toy_client_def toy_ipc_def MAX_MESSAGE_SIZE_def)

subsection \<open>Two gaps of the checks\<close>

text \<open>The peer check compares the end of the path, so that a longer name passes.\<close>

lemma peer_suffix_accepted:
  "verify_peer_executable (\<lambda>_. Some (ascii ''/tmp/notcpoe'')) 42 ALLOWED_PEER_EXECUTABLES"
  by (simp add: verify_peer_executable_def file_name_def ascii_def str_ends_with_def ALLOWED_PEER_EXECUTABLES_def)

text \<open>A path that does not exist yet is judged by its name alone: in a directory that is a symbolic
  link to a system directory it passes.\<close>

lemma validate_ipc_path_new:
  assumes "is_absolute p" "ParentDir \<notin> set (components p)" "pf_canonicalize fs p = None" "\<not> pf_is_symlink fs p"
    "\<not> is_blocked_system_path (resolve_path p)"
  shows "validate_ipc_path fs p = Inr ()"
  using assms by (simp add: validate_ipc_path_def)

end
