(* ===== verification/Jit_Session.thy ===== *)
theory Jit_Session
  imports Chk_Types
begin

text \<open>
  Jitter chains (\<open>cpoe/src/jitter\<close>): the recording session (\<open>session.rs\<close>) and the verification of
  its samples with the seed (\<open>verification.rs\<close>). SHA-256 and HMAC are parameters; instants are
  nanoseconds since the Unix epoch. What a keystroke reads of the document and the clock is its
  environment. The typing rate, a float, is left out of the statistics.
\<close>

definition INTERVAL_BUCKET_SIZE_MS :: int where "INTERVAL_BUCKET_SIZE_MS = 50"
definition NUM_INTERVAL_BUCKETS :: int where "NUM_INTERVAL_BUCKETS = 10"
definition MIN_JITTER :: nat where "MIN_JITTER = 500"
definition JITTER_RANGE :: nat where "JITTER_RANGE = 3000 - 500"

datatype jitter_error =
    ZeroInterval | BadDocumentPath | DocumentUnreadable
  | SampleHash nat | SampleLink nat | FirstLink | SampleTime nat | SampleCount nat | SampleFuture nat
  | EndBeforeStart | StartInFuture | EndInFuture | CountBelowSample | BadJson | BadSeed
  | EmptyChain | EmptySeed | JitterMismatch nat | OrdinalMismatchAt nat
  | SampleLength nat | TimestampRange nat | IntervalRange nat | CountRange nat | HeaderShort | ChainVersion byte
  | TooManySamples nat | ChainLength nat nat | NotChained | TimeNotIncreasing | CountNotIncreasing

definition timestamp_nanos_u64 :: "int \<Rightarrow> nat" where
  "timestamp_nanos_u64 ts = (let nanos = timestamp_nanos_safe ts in if nanos < 0 then 0 else nat nanos)"

record jitter_parameters =
  jp_min_jitter_micros :: nat
  jp_max_jitter_micros :: nat
  jp_sample_interval :: nat
  jp_inject_enabled :: bool

definition jitter_default_parameters :: jitter_parameters where
  "jitter_default_parameters =
     \<lparr>jp_min_jitter_micros = 500, jp_max_jitter_micros = 3000, jp_sample_interval = 10, jp_inject_enabled = True\<rparr>"

record sample =
  sa_timestamp :: int
  sa_keystroke_count :: nat
  sa_document_hash :: bytes
  sa_jitter_micros :: nat
  sa_hash :: bytes
  sa_previous_hash :: bytes

definition sample_compute_hash :: "(bytes \<Rightarrow> bytes) \<Rightarrow> sample \<Rightarrow> bytes" where
  "sample_compute_hash sha s = sha (ascii ''cpoe-jitter-sample-v1'' @ be 8 (timestamp_nanos_u64 (sa_timestamp s)) @
     be 8 (sa_keystroke_count s) @ sa_document_hash s @ be 4 (sa_jitter_micros s) @ sa_previous_hash s)"

definition compute_jitter_value ::
    "(bytes \<Rightarrow> bytes \<Rightarrow> bytes) \<Rightarrow> bytes \<Rightarrow> bytes \<Rightarrow> nat \<Rightarrow> int \<Rightarrow> bytes \<Rightarrow> jitter_parameters \<Rightarrow> nat" where
  "compute_jitter_value hmac seed doc_hash keystroke_count timestamp prev_jitter params =
     (let hash = hmac seed (doc_hash @ be 8 keystroke_count @ be 8 (timestamp_nanos_u64 timestamp) @ prev_jitter);
          raw = be_val (take 4 hash);
          jitter_range = jp_max_jitter_micros params - jp_min_jitter_micros params
      in if jitter_range = 0 then jp_min_jitter_micros params
         else jp_min_jitter_micros params + raw mod jitter_range)"

subsection \<open>Sessions\<close>

record jitter_session =
  jn_id :: bytes
  jn_started_at :: int
  jn_ended_at :: "int option"
  jn_document_path :: bytes
  jn_seed :: bytes
  jn_params :: jitter_parameters
  jn_samples :: "sample list"
  jn_keystroke_count :: nat
  jn_last_jitter :: nat
  jn_last_mtime :: "int option"
  jn_last_size :: "nat option"
  jn_last_doc_hash :: "bytes option"

text \<open>What a keystroke sees: the document's metadata, its hash with the number of bytes read, and
  the clock.\<close>

record doc_env =
  de_metadata :: "(int \<times> nat) option"
  de_hash :: "(bytes \<times> nat) option"
  de_now :: int

definition jitter_new_with_id ::
    "bytes \<Rightarrow> bytes \<Rightarrow> int \<Rightarrow> bytes option \<Rightarrow> jitter_parameters \<Rightarrow> (jitter_error, jitter_session) result" where
  "jitter_new_with_id session_id seed now canonical params =
     (if jp_sample_interval params = 0 then Inl ZeroInterval
      else case canonical of
        None \<Rightarrow> Inl BadDocumentPath
      | Some path \<Rightarrow> Inr \<lparr>jn_id = session_id, jn_started_at = now, jn_ended_at = None, jn_document_path = path,
          jn_seed = seed, jn_params = params, jn_samples = [], jn_keystroke_count = 0, jn_last_jitter = 0,
          jn_last_mtime = None, jn_last_size = None, jn_last_doc_hash = None\<rparr>)"

definition hash_document :: "doc_env \<Rightarrow> (jitter_session, jitter_error, bytes) op" where
  "hash_document env s = (case de_metadata env of
       None \<Rightarrow> (s, Inl DocumentUnreadable)
     | Some (mtime, len) \<Rightarrow>
         if jn_last_mtime s = Some mtime \<and> jn_last_size s = Some len \<and> jn_last_doc_hash s \<noteq> None
         then (s, Inr (the (jn_last_doc_hash s)))
         else (case de_hash env of
            None \<Rightarrow> (s, Inl DocumentUnreadable)
          | Some (hash, actual_size) \<Rightarrow>
              (s\<lparr>jn_last_mtime := Some mtime, jn_last_size := Some actual_size, jn_last_doc_hash := Some hash\<rparr>, Inr hash)))"

definition last_sample_hash :: "sample list \<Rightarrow> bytes" where
  "last_sample_hash samples = (if samples = [] then replicate 32 0 else sa_hash (last samples))"

definition make_sample ::
    "(bytes \<Rightarrow> bytes) \<Rightarrow> (bytes \<Rightarrow> bytes \<Rightarrow> bytes) \<Rightarrow> bytes \<Rightarrow> int \<Rightarrow> jitter_session \<Rightarrow> sample" where
  "make_sample sha hmac doc_hash now s =
     (let previous_hash = last_sample_hash (jn_samples s);
          jitter = compute_jitter_value hmac (jn_seed s) doc_hash (jn_keystroke_count s) now previous_hash (jn_params s);
          sample = \<lparr>sa_timestamp = now, sa_keystroke_count = jn_keystroke_count s, sa_document_hash = doc_hash,
            sa_jitter_micros = jitter, sa_hash = replicate 32 0, sa_previous_hash = previous_hash\<rparr>
      in sample\<lparr>sa_hash := sample_compute_hash sha sample\<rparr>)"

definition record_keystroke ::
    "(bytes \<Rightarrow> bytes) \<Rightarrow> (bytes \<Rightarrow> bytes \<Rightarrow> bytes) \<Rightarrow> doc_env \<Rightarrow> (jitter_session, jitter_error, nat \<times> bool) op" where
  "record_keystroke sha hmac env s =
     (let s1 = s\<lparr>jn_keystroke_count := min (jn_keystroke_count s + 1) (2 ^ 64 - 1)\<rparr>;
          k = jp_sample_interval (jn_params s)
      in if k = 0 \<or> jn_keystroke_count s1 mod k \<noteq> 0 then (s1, Inr (0, False))
         else (case hash_document env s1 of
            (s2, Inl e) \<Rightarrow> (s2, Inl e)
          | (s2, Inr doc_hash) \<Rightarrow>
              (let sample = make_sample sha hmac doc_hash (de_now env) s2 in
               (s2\<lparr>jn_samples := jn_samples s2 @ [sample], jn_last_jitter := sa_jitter_micros sample\<rparr>,
                Inr (sa_jitter_micros sample, True)))))"

definition jitter_end :: "int \<Rightarrow> jitter_session \<Rightarrow> jitter_session" where
  "jitter_end now s = s\<lparr>jn_ended_at := Some now\<rparr>"

subsection \<open>Verification of a session and of its evidence\<close>

text \<open>\<open>i\<close> is the index of the next sample, \<open>prev\<close> the sample before it.\<close>

fun session_verify_chain :: "(bytes \<Rightarrow> bytes) \<Rightarrow> nat \<Rightarrow> sample option \<Rightarrow> sample list \<Rightarrow> (jitter_error, unit) result" where
  "session_verify_chain sha i prev [] = Inr ()"
| "session_verify_chain sha i prev (s # ss) =
     (if sample_compute_hash sha s \<noteq> sa_hash s then Inl (SampleHash i)
      else case prev of
        Some p \<Rightarrow> if sa_previous_hash s \<noteq> sa_hash p then Inl (SampleLink i)
                   else session_verify_chain sha (Suc i) (Some s) ss
      | None \<Rightarrow> if sa_previous_hash s \<noteq> replicate 32 0 then Inl FirstLink
                 else session_verify_chain sha (Suc i) (Some s) ss)"

record jitter_statistics =
  jt_total_keystrokes :: nat
  jt_total_samples :: nat
  jt_duration :: nat
  jt_unique_doc_hashes :: nat
  jt_chain_valid :: bool

record jitter_evidence =
  jv_session_id :: bytes
  jv_started_at :: int
  jv_ended_at :: int
  jv_document_path :: bytes
  jv_params :: jitter_parameters
  jv_samples :: "sample list"
  jv_statistics :: jitter_statistics

definition jitter_compute_stats :: "(bytes \<Rightarrow> bytes) \<Rightarrow> int \<Rightarrow> jitter_session \<Rightarrow> jitter_statistics" where
  "jitter_compute_stats sha now s =
     (let ended = (case jn_ended_at s of Some e \<Rightarrow> e | None \<Rightarrow> now) in
      \<lparr>jt_total_keystrokes = jn_keystroke_count s,
       jt_total_samples = min (length (jn_samples s)) (2 ^ 31 - 1),
       jt_duration = nat (ended - jn_started_at s),
       jt_unique_doc_hashes = min (length (remdups (map sa_document_hash (jn_samples s)))) (2 ^ 31 - 1),
       jt_chain_valid = (session_verify_chain sha 0 None (jn_samples s) = Inr ())\<rparr>)"

definition jitter_export :: "(bytes \<Rightarrow> bytes) \<Rightarrow> int \<Rightarrow> jitter_session \<Rightarrow> jitter_evidence" where
  "jitter_export sha now s =
     \<lparr>jv_session_id = jn_id s, jv_started_at = jn_started_at s,
      jv_ended_at = (case jn_ended_at s of Some e \<Rightarrow> e | None \<Rightarrow> now),
      jv_document_path = jn_document_path s, jv_params = jn_params s, jv_samples = jn_samples s,
      jv_statistics = jitter_compute_stats sha now s\<rparr>"

fun evidence_verify_from :: "(bytes \<Rightarrow> bytes) \<Rightarrow> nat \<Rightarrow> sample option \<Rightarrow> sample list \<Rightarrow> (jitter_error, unit) result" where
  "evidence_verify_from sha i prev [] = Inr ()"
| "evidence_verify_from sha i prev (s # ss) =
     (if sample_compute_hash sha s \<noteq> sa_hash s then Inl (SampleHash i)
      else case prev of
        Some p \<Rightarrow>
          if sa_previous_hash s \<noteq> sa_hash p then Inl (SampleLink i)
          else if sa_timestamp s \<le> sa_timestamp p then Inl (SampleTime i)
          else if sa_keystroke_count s \<le> sa_keystroke_count p then Inl (SampleCount i)
          else evidence_verify_from sha (Suc i) (Some s) ss
      | None \<Rightarrow>
          if sa_previous_hash s \<noteq> replicate 32 0 then Inl FirstLink
          else evidence_verify_from sha (Suc i) (Some s) ss)"

definition evidence_verify :: "(bytes \<Rightarrow> bytes) \<Rightarrow> jitter_evidence \<Rightarrow> (jitter_error, unit) result" where
  "evidence_verify sha ev = evidence_verify_from sha 0 None (jv_samples ev)"

subsection \<open>Saving and loading\<close>

record session_data =
  sd_id :: bytes
  sd_started_at :: int
  sd_ended_at :: "int option"
  sd_document_path :: bytes
  sd_seed :: bytes
  sd_params :: jitter_parameters
  sd_samples :: "sample list"
  sd_keystroke_count :: nat
  sd_last_jitter :: nat

text \<open>The JSON codec of the file and the hex codec of the seed.\<close>

record jitter_codec =
  jc_to_json :: "session_data \<Rightarrow> bytes option"
  jc_from_json :: "bytes \<Rightarrow> session_data option"
  jc_hex :: "bytes \<Rightarrow> bytes"
  jc_unhex :: "bytes \<Rightarrow> bytes option"

definition jitter_save :: "jitter_codec \<Rightarrow> jitter_session \<Rightarrow> (jitter_error, bytes) result" where
  "jitter_save codec s =
     (case jc_to_json codec \<lparr>sd_id = jn_id s, sd_started_at = jn_started_at s, sd_ended_at = jn_ended_at s,
         sd_document_path = jn_document_path s, sd_seed = jc_hex codec (jn_seed s), sd_params = jn_params s,
         sd_samples = jn_samples s, sd_keystroke_count = jn_keystroke_count s, sd_last_jitter = jn_last_jitter s\<rparr> of
        None \<Rightarrow> Inl BadJson | Some bs \<Rightarrow> Inr bs)"

fun loaded_samples_from :: "int \<Rightarrow> nat \<Rightarrow> sample option \<Rightarrow> sample list \<Rightarrow> (jitter_error, unit) result" where
  "loaded_samples_from ceiling i prev [] = Inr ()"
| "loaded_samples_from ceiling i prev (s # ss) =
     res_bind (case prev of
         Some p \<Rightarrow> if sa_timestamp s \<le> sa_timestamp p then Inl (SampleTime i)
                    else if sa_keystroke_count s \<le> sa_keystroke_count p then Inl (SampleCount i) else Inr ()
       | None \<Rightarrow> Inr ()) (\<lambda>_.
     if ceiling < sa_timestamp s then Inl (SampleFuture i)
     else loaded_samples_from ceiling (Suc i) (Some s) ss)"

definition verify_loaded_integrity ::
    "(bytes \<Rightarrow> bytes) \<Rightarrow> int \<Rightarrow> jitter_session \<Rightarrow> (jitter_error, unit) result" where
  "verify_loaded_integrity sha now s =
     (if jp_sample_interval (jn_params s) = 0 then Inl ZeroInterval
      else res_bind (session_verify_chain sha 0 None (jn_samples s)) (\<lambda>_.
        if (\<exists>e. jn_ended_at s = Some e \<and> e < jn_started_at s) then Inl EndBeforeStart
        else
          let ceiling = now + 5 * 60 * 1000000000 in
          if ceiling < jn_started_at s then Inl StartInFuture
          else if (\<exists>e. jn_ended_at s = Some e \<and> ceiling < e) then Inl EndInFuture
          else res_bind (loaded_samples_from ceiling 0 None (jn_samples s)) (\<lambda>_.
            if jn_samples s \<noteq> [] \<and> jn_keystroke_count s < sa_keystroke_count (last (jn_samples s))
            then Inl CountBelowSample else Inr ())))"

definition jitter_load ::
    "(bytes \<Rightarrow> bytes) \<Rightarrow> jitter_codec \<Rightarrow> int \<Rightarrow> bytes \<Rightarrow> (jitter_error, jitter_session) result" where
  "jitter_load sha codec now bs = (case jc_from_json codec bs of
       None \<Rightarrow> Inl BadJson
     | Some d \<Rightarrow>
         (case jc_unhex codec (sd_seed d) of
            None \<Rightarrow> Inl BadSeed
          | Some seed \<Rightarrow>
              if length seed \<noteq> 32 then Inl BadSeed
              else
                let s = \<lparr>jn_id = sd_id d, jn_started_at = sd_started_at d, jn_ended_at = sd_ended_at d,
                      jn_document_path = sd_document_path d, jn_seed = seed, jn_params = sd_params d,
                      jn_samples = sd_samples d, jn_keystroke_count = sd_keystroke_count d,
                      jn_last_jitter = sd_last_jitter d, jn_last_mtime = None, jn_last_size = None,
                      jn_last_doc_hash = None\<rparr>
                in res_bind (verify_loaded_integrity sha now s) (\<lambda>_. Inr s)))"

subsection \<open>Verification with the seed\<close>

definition verify_sample ::
    "(bytes \<Rightarrow> bytes) \<Rightarrow> (bytes \<Rightarrow> bytes \<Rightarrow> bytes) \<Rightarrow> nat \<Rightarrow> sample \<Rightarrow> sample option \<Rightarrow> bytes \<Rightarrow> jitter_parameters \<Rightarrow>
     (jitter_error, unit) result" where
  "verify_sample sha hmac i s prev seed params =
     (if seed = [] then Inl EmptySeed
      else if sample_compute_hash sha s \<noteq> sa_hash s then Inl (SampleHash i)
      else res_bind (case prev of
          Some p \<Rightarrow> if sa_previous_hash s \<noteq> sa_hash p then Inl (SampleLink i)
                     else if sa_timestamp s \<le> sa_timestamp p then Inl (SampleTime i)
                     else if sa_keystroke_count s \<le> sa_keystroke_count p then Inl (SampleCount i) else Inr ()
        | None \<Rightarrow> if sa_previous_hash s \<noteq> replicate 32 0 then Inl FirstLink else Inr ()) (\<lambda>_.
        let prev_jitter = (case prev of Some p \<Rightarrow> sa_hash p | None \<Rightarrow> replicate 32 0) in
        if compute_jitter_value hmac seed (sa_document_hash s) (sa_keystroke_count s) (sa_timestamp s) prev_jitter params
             \<noteq> sa_jitter_micros s
        then Inl (JitterMismatch i) else Inr ()))"

fun verify_samples_from ::
    "(bytes \<Rightarrow> bytes) \<Rightarrow> (bytes \<Rightarrow> bytes \<Rightarrow> bytes) \<Rightarrow> nat \<Rightarrow> sample option \<Rightarrow> bytes \<Rightarrow> jitter_parameters \<Rightarrow> sample list \<Rightarrow>
     (jitter_error, unit) result" where
  "verify_samples_from sha hmac i prev seed params [] = Inr ()"
| "verify_samples_from sha hmac i prev seed params (s # ss) =
     res_bind (verify_sample sha hmac i s prev seed params) (\<lambda>_.
       verify_samples_from sha hmac (Suc i) (Some s) seed params ss)"

definition jitter_verify_chain ::
    "(bytes \<Rightarrow> bytes) \<Rightarrow> (bytes \<Rightarrow> bytes \<Rightarrow> bytes) \<Rightarrow> sample list \<Rightarrow> bytes \<Rightarrow> jitter_parameters \<Rightarrow> (jitter_error, unit) result" where
  "jitter_verify_chain sha hmac samples seed params =
     (if samples = [] then Inl EmptyChain else if seed = [] then Inl EmptySeed
      else verify_samples_from sha hmac 0 None seed params samples)"

record verification_result =
  vr_valid :: bool
  vr_samples_verified :: nat
  vr_errors :: "jitter_error list"

fun detailed_from ::
    "(bytes \<Rightarrow> bytes) \<Rightarrow> (bytes \<Rightarrow> bytes \<Rightarrow> bytes) \<Rightarrow> nat \<Rightarrow> sample option \<Rightarrow> bytes \<Rightarrow> jitter_parameters \<Rightarrow> sample list \<Rightarrow>
     verification_result \<Rightarrow> verification_result" where
  "detailed_from sha hmac i prev seed params [] r = r"
| "detailed_from sha hmac i prev seed params (s # ss) r =
     detailed_from sha hmac (Suc i) (Some s) seed params ss
       (case verify_sample sha hmac i s prev seed params of
          Inl e \<Rightarrow> r\<lparr>vr_valid := False, vr_errors := vr_errors r @ [e]\<rparr>
        | Inr _ \<Rightarrow> r\<lparr>vr_samples_verified := vr_samples_verified r + 1\<rparr>)"

definition verify_chain_detailed ::
    "(bytes \<Rightarrow> bytes) \<Rightarrow> (bytes \<Rightarrow> bytes \<Rightarrow> bytes) \<Rightarrow> sample list \<Rightarrow> bytes \<Rightarrow> jitter_parameters \<Rightarrow> verification_result" where
  "verify_chain_detailed sha hmac samples seed params =
     (let r = \<lparr>vr_valid = True, vr_samples_verified = 0, vr_errors = []\<rparr> in
      if samples = [] then r\<lparr>vr_valid := False, vr_errors := [EmptyChain]\<rparr>
      else if seed = [] then r\<lparr>vr_valid := False, vr_errors := [EmptySeed]\<rparr>
      else detailed_from sha hmac 0 None seed params samples r)"

end
