(* ===== verification/Jit_Engine.thy ===== *)
theory Jit_Engine
  imports Jit_Session
begin

text \<open>
  The binary codec of jitter chains (\<open>jitter/codec.rs\<close>), the keyboard zones (\<open>zones.rs\<close>), the
  zone-committed engine (\<open>engine.rs\<close>) and its verification with the secret (\<open>content.rs\<close>). The ratio
  of hand alternation, a float that is computed from the two counters, is left out of the profile.
\<close>

subsection \<open>Binary codec\<close>

definition CHAIN_HEADER_SIZE :: nat where "CHAIN_HEADER_SIZE = 18"
definition MAX_SAMPLE_COUNT :: nat where "MAX_SAMPLE_COUNT = 10000000"

definition encode_sample_binary :: "sample \<Rightarrow> bytes" where
  "encode_sample_binary s = be 8 (timestamp_nanos_u64 (sa_timestamp s)) @ be 8 (sa_keystroke_count s) @
     sa_document_hash s @ be 4 (sa_jitter_micros s) @ sa_hash s @ sa_previous_hash s"

definition decode_sample_binary :: "bytes \<Rightarrow> (jitter_error, sample) result" where
  "decode_sample_binary data =
     (if length data \<noteq> 116 then Inl (SampleLength (length data))
      else
        let timestamp_nanos = be_val (slice 0 8 data) in
        if 2 ^ 63 - 1 < timestamp_nanos then Inl (TimestampRange timestamp_nanos)
        else Inr \<lparr>sa_timestamp = int timestamp_nanos, sa_keystroke_count = be_val (slice 8 16 data),
                  sa_document_hash = slice 16 48 data, sa_jitter_micros = be_val (slice 48 52 data),
                  sa_hash = slice 52 84 data, sa_previous_hash = slice 84 116 data\<rparr>)"

definition encode_chain_binary :: "sample list \<Rightarrow> jitter_parameters \<Rightarrow> (jitter_error, bytes) result" where
  "encode_chain_binary samples params =
     (if 2 ^ 64 \<le> length samples * 116 then Inl (CountRange (length samples))
      else if 2 ^ 32 \<le> jp_sample_interval params then Inl (IntervalRange (jp_sample_interval params))
      else if 2 ^ 32 \<le> length samples then Inl (CountRange (length samples))
      else Inr ([1] @ be 4 (jp_min_jitter_micros params) @ be 4 (jp_max_jitter_micros params) @
        be 4 (jp_sample_interval params) @ [if jp_inject_enabled params then 1 else 0] @
        be 4 (length samples) @ concat (map encode_sample_binary samples)))"

fun decode_samples :: "nat \<Rightarrow> bytes \<Rightarrow> (jitter_error, sample list) result" where
  "decode_samples 0 data = Inr []"
| "decode_samples (Suc n) data =
     res_bind (decode_sample_binary (take 116 data)) (\<lambda>s.
     res_bind (decode_samples n (drop 116 data)) (\<lambda>ss. Inr (s # ss)))"

definition decode_chain_binary :: "bytes \<Rightarrow> (jitter_error, sample list \<times> jitter_parameters) result" where
  "decode_chain_binary data =
     (if length data < CHAIN_HEADER_SIZE then Inl HeaderShort
      else if hd data \<noteq> 1 then Inl (ChainVersion (hd data))
      else
        let sample_count = be_val (slice 14 18 data) in
        if MAX_SAMPLE_COUNT < sample_count then Inl (TooManySamples sample_count)
        else if length data \<noteq> CHAIN_HEADER_SIZE + sample_count * 116
        then Inl (ChainLength (CHAIN_HEADER_SIZE + sample_count * 116) (length data))
        else res_bind (decode_samples sample_count (drop 18 data)) (\<lambda>samples.
          Inr (samples, \<lparr>jp_min_jitter_micros = be_val (slice 1 5 data), jp_max_jitter_micros = be_val (slice 5 9 data),
                         jp_sample_interval = be_val (slice 9 13 data), jp_inject_enabled = (data ! 13 = 1)\<rparr>)))"

definition compare_samples :: "sample \<Rightarrow> sample \<Rightarrow> bool" where
  "compare_samples a b \<longleftrightarrow> sa_timestamp a = sa_timestamp b \<and> sa_keystroke_count a = sa_keystroke_count b \<and>
     sa_document_hash a = sa_document_hash b \<and> sa_jitter_micros a = sa_jitter_micros b \<and>
     sa_hash a = sa_hash b \<and> sa_previous_hash a = sa_previous_hash b"

definition compare_chains :: "sample list \<Rightarrow> sample list \<Rightarrow> bool" where
  "compare_chains a b \<longleftrightarrow> length a = length b \<and> (\<forall>i < length a. compare_samples (a ! i) (b ! i))"

fun divergence_from :: "nat \<Rightarrow> sample list \<Rightarrow> sample list \<Rightarrow> int" where
  "divergence_from i (a # as) (b # bs) = (if compare_samples a b then divergence_from (Suc i) as bs else int i)"
| "divergence_from i [] [] = - 1"
| "divergence_from i _ _ = int i"

definition find_chain_divergence :: "sample list \<Rightarrow> sample list \<Rightarrow> int" where
  "find_chain_divergence a b = divergence_from 0 a b"

definition extract_chain_hashes :: "sample list \<Rightarrow> bytes list" where
  "extract_chain_hashes samples = map sa_hash samples"

definition hash_chain_root :: "sample list \<Rightarrow> bytes" where
  "hash_chain_root samples = last_sample_hash samples"

definition verify_chain_continuity ::
    "(bytes \<Rightarrow> bytes) \<Rightarrow> (bytes \<Rightarrow> bytes \<Rightarrow> bytes) \<Rightarrow> sample list \<Rightarrow> sample list \<Rightarrow> bytes \<Rightarrow> jitter_parameters \<Rightarrow>
     (jitter_error, unit) result" where
  "verify_chain_continuity sha hmac existing new seed params =
     (if new = [] then Inr () else if seed = [] then Inl EmptySeed
      else
        let last_existing = (if existing = [] then None else Some (last existing)) in
        res_bind (case last_existing of
            Some p \<Rightarrow> if sa_previous_hash (hd new) \<noteq> sa_hash p then Inl NotChained
                       else if sa_timestamp (hd new) \<le> sa_timestamp p then Inl TimeNotIncreasing
                       else if sa_keystroke_count (hd new) \<le> sa_keystroke_count p then Inl CountNotIncreasing else Inr ()
          | None \<Rightarrow> Inr ()) (\<lambda>_.
        verify_samples_from sha hmac 0 last_existing seed params new))"

definition marshal_sample_for_signing :: "sample \<Rightarrow> bytes" where
  "marshal_sample_for_signing s = ascii ''cpoe-sample-v1'' @ [10] @ be 8 (timestamp_nanos_u64 (sa_timestamp s)) @
     be 8 (sa_keystroke_count s) @ sa_document_hash s @ be 4 (sa_jitter_micros s) @ sa_previous_hash s @ sa_hash s"

subsection \<open>Zones\<close>

definition keycode_to_zone :: "nat \<Rightarrow> int" where
  "keycode_to_zone k =
     (if k \<in> {0x0C, 0x00, 0x06} then 0 else if k \<in> {0x0D, 0x01, 0x07} then 1 else if k \<in> {0x0E, 0x02, 0x08} then 2
      else if k \<in> {0x0F, 0x11, 0x03, 0x05, 0x09, 0x0B} then 3 else if k \<in> {0x10, 0x20, 0x04, 0x26, 0x2D, 0x2E} then 4
      else if k \<in> {0x22, 0x28, 0x2B} then 5 else if k \<in> {0x1F, 0x25, 0x2F} then 6 else if k \<in> {0x23, 0x29, 0x2C} then 7
      else - 1)"

text \<open>Characters are Unicode code points.\<close>

definition char_to_zone :: "nat \<Rightarrow> int" where
  "char_to_zone c =
     (let among = (\<lambda>cs. c \<in> set (map of_char cs)) in
      if among ''qQaAzZ'' then 0 else if among ''wWsSxX'' then 1 else if among ''eEdDcC'' then 2
      else if among ''rRtTfFgGvVbB'' then 3 else if among ''yYuUhHjJnNmM'' then 4
      else if among ''iIkK,<'' then 5 else if among ''oOlL.>'' then 6 else if among ''pP;:/?'' then 7
      else - 1)"

definition encode_zone_transition :: "int \<Rightarrow> int \<Rightarrow> byte" where
  "encode_zone_transition from_zone to_zone =
     (if \<not> (0 \<le> from_zone \<and> from_zone \<le> 7) \<or> \<not> (0 \<le> to_zone \<and> to_zone \<le> 7) then 0xFF
      else word_of_nat (nat from_zone * 8 + nat to_zone))"

definition decode_zone_transition :: "byte \<Rightarrow> int \<times> int" where
  "decode_zone_transition encoded = (int (unat encoded div 8 mod 8), int (unat encoded mod 8))"

definition is_valid_zone_transition :: "byte \<Rightarrow> bool" where
  "is_valid_zone_transition encoded \<longleftrightarrow> encoded \<noteq> 0xFF \<and> unat encoded div 8 < 8"

definition is_same_finger :: "int \<times> int \<Rightarrow> bool" where
  "is_same_finger t \<longleftrightarrow> fst t = snd t"

definition is_same_hand :: "int \<times> int \<Rightarrow> bool" where
  "is_same_hand t \<longleftrightarrow> (fst t < 4) = (snd t < 4)"

text \<open>The loop of \<open>text_to_zone_sequence\<close>; \<open>prev\<close> is \<open>prev_zone\<close>.\<close>

fun zone_sequence_from :: "int \<Rightarrow> nat list \<Rightarrow> (int \<times> int) list" where
  "zone_sequence_from prev [] = []"
| "zone_sequence_from prev (c # cs) =
     (let zone = char_to_zone c in
      if 0 \<le> zone
      then (if 0 \<le> prev then [(prev, zone)] else []) @ zone_sequence_from zone cs
      else zone_sequence_from prev cs)"

definition text_to_zone_sequence :: "nat list \<Rightarrow> (int \<times> int) list" where
  "text_to_zone_sequence text = zone_sequence_from (- 1) text"

definition interval_to_bucket :: "nat \<Rightarrow> byte" where
  "interval_to_bucket nanos =
     (let ms = int (min (nanos div 1000000) (2 ^ 63 - 1)); bucket = ms div INTERVAL_BUCKET_SIZE_MS in
      word_of_nat (nat (max 0 (if NUM_INTERVAL_BUCKETS \<le> bucket then NUM_INTERVAL_BUCKETS - 1 else bucket))))"

subsection \<open>The engine\<close>

record jitter_sample =
  jz_ordinal :: nat
  jz_timestamp :: int
  jz_doc_hash :: bytes
  jz_zone_transition :: byte
  jz_interval_bucket :: byte
  jz_jitter_micros :: nat
  jz_clock_skew :: nat
  jz_sample_hash :: bytes

record typing_profile =
  tf_same_finger_hist :: "nat list"
  tf_same_hand_hist :: "nat list"
  tf_alternating_hist :: "nat list"
  tf_total_transitions :: nat
  tf_alternating_count :: nat

definition profile_default :: typing_profile where
  "profile_default = \<lparr>tf_same_finger_hist = replicate 10 0, tf_same_hand_hist = replicate 10 0,
     tf_alternating_hist = replicate 10 0, tf_total_transitions = 0, tf_alternating_count = 0\<rparr>"

definition sat32 :: "nat \<Rightarrow> nat" where "sat32 n = min (n + 1) (2 ^ 32 - 1)"
definition sat64 :: "nat \<Rightarrow> nat" where "sat64 n = min (n + 1) (2 ^ 64 - 1)"

definition bump :: "nat list \<Rightarrow> nat \<Rightarrow> nat list" where
  "bump hist i = hist[i := sat32 (hist ! i)]"

definition record_transition :: "int \<Rightarrow> int \<Rightarrow> byte \<Rightarrow> typing_profile \<Rightarrow> typing_profile" where
  "record_transition from_zone to_zone bucket p =
     (let i = min (unat bucket) 9; t = (from_zone, to_zone);
          p1 = (if is_same_finger t then p\<lparr>tf_same_finger_hist := bump (tf_same_finger_hist p) i\<rparr>
                else if is_same_hand t then p\<lparr>tf_same_hand_hist := bump (tf_same_hand_hist p) i\<rparr>
                else p\<lparr>tf_alternating_hist := bump (tf_alternating_hist p) i,
                       tf_alternating_count := sat64 (tf_alternating_count p)\<rparr>)
      in p1\<lparr>tf_total_transitions := sat64 (tf_total_transitions p1)\<rparr>)"

definition compute_zone_jitter ::
    "(bytes \<Rightarrow> bytes \<Rightarrow> bytes) \<Rightarrow> bytes \<Rightarrow> nat \<Rightarrow> bytes \<Rightarrow> byte \<Rightarrow> byte \<Rightarrow> int \<Rightarrow> nat \<Rightarrow> nat" where
  "compute_zone_jitter hmac secret ordinal doc_hash zone_transition interval_bucket timestamp prev_jitter =
     MIN_JITTER + be_val (take 4 (hmac secret (be 8 ordinal @ doc_hash @ be 8 (timestamp_nanos_u64 timestamp) @
       [zone_transition] @ [interval_bucket] @ be 4 prev_jitter))) mod JITTER_RANGE"

definition compute_jitter_sample_hash :: "(bytes \<Rightarrow> bytes) \<Rightarrow> jitter_sample \<Rightarrow> bytes" where
  "compute_jitter_sample_hash sha s = sha (ascii ''cpoe-jitter-sample-v2'' @ be 8 (jz_ordinal s) @
     be 8 (timestamp_nanos_u64 (jz_timestamp s)) @ jz_doc_hash s @ [jz_zone_transition s, jz_interval_bucket s] @
     be 4 (jz_jitter_micros s) @ be 8 (jz_clock_skew s))"

record jitter_engine =
  en_secret :: bytes
  en_ordinal :: nat
  en_prev_jitter :: nat
  en_prev_zone :: int
  en_prev_time :: int
  en_profile :: typing_profile

definition engine_new :: "bytes \<Rightarrow> int \<Rightarrow> jitter_engine" where
  "engine_new secret now = \<lparr>en_secret = secret, en_ordinal = 0, en_prev_jitter = 0, en_prev_zone = - 1,
     en_prev_time = now, en_profile = profile_default\<rparr>"

definition on_keystroke ::
    "(bytes \<Rightarrow> bytes) \<Rightarrow> (bytes \<Rightarrow> bytes \<Rightarrow> bytes) \<Rightarrow> int \<Rightarrow> nat \<Rightarrow> nat \<Rightarrow> bytes \<Rightarrow> jitter_engine \<Rightarrow>
     jitter_engine \<times> nat \<times> jitter_sample option" where
  "on_keystroke sha hmac now clock_skew key_code doc_hash en =
     (let zone = keycode_to_zone key_code in
      if zone < 0 then (en, 0, None)
      else
        let started = 0 \<le> en_prev_zone en;
            zone_transition = (if started then encode_zone_transition (en_prev_zone en) zone else 0xFF);
            interval_bucket = (if started then interval_to_bucket (nat (now - en_prev_time en)) else 0);
            profile = (if started then record_transition (en_prev_zone en) zone interval_bucket (en_profile en)
                       else en_profile en);
            jitter = compute_zone_jitter hmac (en_secret en) (en_ordinal en) doc_hash zone_transition interval_bucket now
                       (en_prev_jitter en);
            ordinal = sat64 (en_ordinal en);
            sample = \<lparr>jz_ordinal = ordinal, jz_timestamp = now, jz_doc_hash = doc_hash, jz_zone_transition = zone_transition,
              jz_interval_bucket = interval_bucket, jz_jitter_micros = jitter, jz_clock_skew = clock_skew,
              jz_sample_hash = replicate 32 0\<rparr>
        in (en\<lparr>en_ordinal := ordinal, en_prev_zone := zone, en_prev_time := now, en_prev_jitter := jitter, en_profile := profile\<rparr>,
            jitter, Some (sample\<lparr>jz_sample_hash := compute_jitter_sample_hash sha sample\<rparr>)))"

subsection \<open>Verification of the engine's samples\<close>

fun verify_secret_from ::
    "(bytes \<Rightarrow> bytes) \<Rightarrow> (bytes \<Rightarrow> bytes \<Rightarrow> bytes) \<Rightarrow> bytes \<Rightarrow> nat \<Rightarrow> nat \<Rightarrow> nat \<Rightarrow> jitter_sample list \<Rightarrow> (jitter_error, unit) result" where
  "verify_secret_from sha hmac secret i ordinal prev_jitter [] = Inr ()"
| "verify_secret_from sha hmac secret i ordinal prev_jitter (s # ss) =
     (if jz_ordinal s \<noteq> ordinal + 1 then Inl (OrdinalMismatchAt i)
      else if compute_zone_jitter hmac secret ordinal (jz_doc_hash s) (jz_zone_transition s) (jz_interval_bucket s)
                (jz_timestamp s) prev_jitter \<noteq> jz_jitter_micros s then Inl (JitterMismatch i)
      else if jz_sample_hash s \<noteq> compute_jitter_sample_hash sha s then Inl (SampleHash i)
      else verify_secret_from sha hmac secret (Suc i) (ordinal + 1) (jz_jitter_micros s) ss)"

definition verify_with_secret ::
    "(bytes \<Rightarrow> bytes) \<Rightarrow> (bytes \<Rightarrow> bytes \<Rightarrow> bytes) \<Rightarrow> jitter_sample list \<Rightarrow> bytes \<Rightarrow> (jitter_error, unit) result" where
  "verify_with_secret sha hmac samples secret =
     (if samples = [] then Inl EmptyChain else verify_secret_from sha hmac secret 0 0 0 samples)"

fun verify_jitter_from :: "(bytes \<Rightarrow> bytes) \<Rightarrow> nat \<Rightarrow> jitter_sample option \<Rightarrow> jitter_sample list \<Rightarrow> (jitter_error, unit) result" where
  "verify_jitter_from sha i prev [] = Inr ()"
| "verify_jitter_from sha i prev (s # ss) =
     (if jz_sample_hash s \<noteq> compute_jitter_sample_hash sha s then Inl (SampleHash i)
      else case prev of
        Some p \<Rightarrow> if jz_timestamp s \<le> jz_timestamp p then Inl (SampleTime i)
                   else if jz_ordinal s \<le> jz_ordinal p then Inl (SampleCount i)
                   else verify_jitter_from sha (Suc i) (Some s) ss
      | None \<Rightarrow> verify_jitter_from sha (Suc i) (Some s) ss)"

definition verify_jitter_chain :: "(bytes \<Rightarrow> bytes) \<Rightarrow> jitter_sample list \<Rightarrow> (jitter_error, unit) result" where
  "verify_jitter_chain sha samples = (if samples = [] then Inl EmptyChain else verify_jitter_from sha 0 None samples)"

text \<open>\<open>add_transition\<close> is the loop body that \<open>analyze_document_zones\<close> and \<open>extract_recorded_zones\<close>
  share. The document is given as the characters that \<open>from_utf8_lossy\<close> reads from its bytes.\<close>

definition add_transition :: "int \<times> int \<Rightarrow> nat \<Rightarrow> typing_profile \<Rightarrow> typing_profile" where
  "add_transition t bucket p =
     (let p1 = (if is_same_finger t then p\<lparr>tf_same_finger_hist := bump (tf_same_finger_hist p) bucket\<rparr>
                else if is_same_hand t then p\<lparr>tf_same_hand_hist := bump (tf_same_hand_hist p) bucket\<rparr>
                else p\<lparr>tf_alternating_hist := bump (tf_alternating_hist p) bucket,
                       tf_alternating_count := sat64 (tf_alternating_count p)\<rparr>)
      in p1\<lparr>tf_total_transitions := sat64 (tf_total_transitions p1)\<rparr>)"

definition analyze_document_zones :: "nat list \<Rightarrow> typing_profile" where
  "analyze_document_zones text = foldl (\<lambda>p t. add_transition t 5 p) profile_default (text_to_zone_sequence text)"

definition extract_one :: "typing_profile \<Rightarrow> jitter_sample \<Rightarrow> typing_profile" where
  "extract_one p s =
     (if jz_zone_transition s = 0xFF then p
      else add_transition (decode_zone_transition (jz_zone_transition s))
             (if 10 \<le> unat (jz_interval_bucket s) then 9 else unat (jz_interval_bucket s)) p)"

definition extract_recorded_zones :: "jitter_sample list \<Rightarrow> typing_profile" where
  "extract_recorded_zones samples = foldl extract_one profile_default samples"

definition count_recorded :: "nat list \<Rightarrow> jitter_sample \<Rightarrow> nat list" where
  "count_recorded hist s =
     (if is_valid_zone_transition (jz_zone_transition s) \<and> unat (jz_zone_transition s) < length hist
      then bump hist (unat (jz_zone_transition s)) else hist)"

definition extract_transition_histogram :: "jitter_sample list \<Rightarrow> nat list" where
  "extract_transition_histogram samples = foldl count_recorded (replicate 64 0) samples"

definition count_expected :: "nat list \<Rightarrow> int \<times> int \<Rightarrow> nat list" where
  "count_expected hist t =
     (let encoded = encode_zone_transition (fst t) (snd t) in
      if encoded \<noteq> 0xFF then bump hist (unat encoded) else hist)"

definition expected_transition_histogram :: "nat list \<Rightarrow> nat list" where
  "expected_transition_histogram text = foldl count_expected (replicate 64 0) (text_to_zone_sequence text)"

end
