(* ===== verification/Jit_Correct.thy ===== *)
theory Jit_Correct
  imports Jit_Engine
begin

text \<open>
  Correctness of the jitter chains: every verifier is the check of a relation between neighbouring
  samples, the recording session keeps the relation up to the order of the clock, and the engine's
  samples pass the verification with its secret.
\<close>

subsection \<open>Relations between neighbours\<close>

fun neighbours :: "('a option \<Rightarrow> 'a \<Rightarrow> bool) \<Rightarrow> 'a option \<Rightarrow> 'a list \<Rightarrow> bool" where
  "neighbours R prev [] \<longleftrightarrow> True"
| "neighbours R prev (s # ss) \<longleftrightarrow> R prev s \<and> neighbours R (Some s) ss"

lemma linked_snoc:
  "neighbours R prev (ss @ [s]) \<longleftrightarrow> neighbours R prev ss \<and> R (if ss = [] then prev else Some (last ss)) s"
  by (induction ss arbitrary: prev) auto

lemma linked_conj: "neighbours (\<lambda>p s. R p s \<and> Q p s) prev ss \<longleftrightarrow> neighbours R prev ss \<and> neighbours Q prev ss"
  by (induction ss arbitrary: prev) auto

lemma linked_mono: "neighbours R prev ss \<Longrightarrow> (\<And>p s. R p s \<Longrightarrow> Q p s) \<Longrightarrow> neighbours Q prev ss"
  by (induction ss arbitrary: prev) auto

definition later :: "('a \<Rightarrow> int) \<Rightarrow> 'a option \<Rightarrow> 'a \<Rightarrow> bool" where
  "later f prev s \<longleftrightarrow> (case prev of None \<Rightarrow> True | Some p \<Rightarrow> f p < f s)"

lemma linked_later_Some: "neighbours (later f) (Some p) ss \<longleftrightarrow> sorted_wrt (<) (map f (p # ss))"
proof (induction ss arbitrary: p)
  case (Cons s ss)
  have "sorted_wrt (<) (map f (p # s # ss)) \<longleftrightarrow> f p < f s \<and> sorted_wrt (<) (map f (s # ss))"
    using sorted_wrt2 [of "(<)" "f p" "f s" "map f ss"] by (simp add: transp_on_less)
  then show ?case using Cons by (simp add: later_def)
qed simp

lemma linked_later: "neighbours (later f) None ss \<longleftrightarrow> sorted_wrt (<) (map f ss)"
proof (cases ss)
  case (Cons s ss')
  show ?thesis unfolding Cons using linked_later_Some [of f s ss'] by (simp add: later_def)
qed simp

subsection \<open>The verifiers\<close>

definition hash_linked :: "(bytes \<Rightarrow> bytes) \<Rightarrow> sample option \<Rightarrow> sample \<Rightarrow> bool" where
  "hash_linked sha prev s \<longleftrightarrow> sample_compute_hash sha s = sa_hash s \<and>
     sa_previous_hash s = (case prev of Some p \<Rightarrow> sa_hash p | None \<Rightarrow> replicate 32 0)"

definition count_later :: "sample option \<Rightarrow> sample \<Rightarrow> bool" where
  "count_later prev s \<longleftrightarrow> (case prev of None \<Rightarrow> True | Some p \<Rightarrow> sa_keystroke_count p < sa_keystroke_count s)"

definition jitter_derived ::
    "(bytes \<Rightarrow> bytes \<Rightarrow> bytes) \<Rightarrow> bytes \<Rightarrow> jitter_parameters \<Rightarrow> sample option \<Rightarrow> sample \<Rightarrow> bool" where
  "jitter_derived hmac seed params prev s \<longleftrightarrow> sa_jitter_micros s =
     compute_jitter_value hmac seed (sa_document_hash s) (sa_keystroke_count s) (sa_timestamp s)
       (case prev of Some p \<Rightarrow> sa_hash p | None \<Rightarrow> replicate 32 0) params"

lemmas chain_rel_defs = hash_linked_def count_later_def later_def jitter_derived_def

lemma session_verify_chain_iff: "session_verify_chain sha i prev ss = Inr () \<longleftrightarrow> neighbours (hash_linked sha) prev ss"
  by (induction ss arbitrary: i prev) (auto simp: chain_rel_defs split: option.splits)

lemma evidence_verify_iff:
  "evidence_verify_from sha i prev ss = Inr () \<longleftrightarrow>
     neighbours (hash_linked sha) prev ss \<and> neighbours (later sa_timestamp) prev ss \<and> neighbours count_later prev ss"
  by (induction ss arbitrary: i prev) (auto simp: chain_rel_defs split: option.splits)

lemma verify_sample_iff:
  "seed \<noteq> [] \<Longrightarrow> verify_sample sha hmac i s prev seed params = Inr () \<longleftrightarrow>
     hash_linked sha prev s \<and> later sa_timestamp prev s \<and> count_later prev s \<and> jitter_derived hmac seed params prev s"
  by (cases prev) (auto simp: verify_sample_def chain_rel_defs res_bind_def Let_def)

lemma verify_samples_iff:
  "seed \<noteq> [] \<Longrightarrow> verify_samples_from sha hmac i prev seed params ss = Inr () \<longleftrightarrow>
     neighbours (hash_linked sha) prev ss \<and> neighbours (later sa_timestamp) prev ss \<and> neighbours count_later prev ss \<and>
     neighbours (jitter_derived hmac seed params) prev ss"
proof (induction ss arbitrary: i prev)
  case (Cons s ss)
  show ?case
    using verify_sample_iff [OF Cons.prems, of sha hmac i s prev params] Cons.IH [OF Cons.prems, of "Suc i" "Some s"]
    by (cases "verify_sample sha hmac i s prev seed params") auto
qed simp

lemma loaded_samples_iff:
  "loaded_samples_from ceiling i prev ss = Inr () \<longleftrightarrow>
     neighbours (later sa_timestamp) prev ss \<and> neighbours count_later prev ss \<and> (\<forall>s \<in> set ss. sa_timestamp s \<le> ceiling)"
  by (induction ss arbitrary: i prev) (auto simp: chain_rel_defs split: option.splits)

lemma detailed_from_counts:
  "vr_samples_verified (detailed_from sha hmac i prev seed params ss r) +
     length (vr_errors (detailed_from sha hmac i prev seed params ss r)) =
   vr_samples_verified r + length (vr_errors r) + length ss"
  by (induction ss arbitrary: i prev r) (auto split: sum.splits)

lemma detailed_from_valid:
  "vr_valid (detailed_from sha hmac i prev seed params ss r) \<longleftrightarrow>
     vr_valid r \<and> verify_samples_from sha hmac i prev seed params ss = Inr ()"
  by (induction ss arbitrary: i prev r) (auto split: sum.splits)

subsection \<open>Recording sessions\<close>

text \<open>The life of a session: keystrokes in their environments, in order. A keystroke that fails
  (the document cannot be read) leaves the session as the code leaves it.\<close>

definition record_all ::
    "(bytes \<Rightarrow> bytes) \<Rightarrow> (bytes \<Rightarrow> bytes \<Rightarrow> bytes) \<Rightarrow> doc_env list \<Rightarrow> jitter_session \<Rightarrow> jitter_session" where
  "record_all sha hmac envs s = fold (\<lambda>env s. fst (record_keystroke sha hmac env s)) envs s"

definition recorded ::
    "(bytes \<Rightarrow> bytes) \<Rightarrow> (bytes \<Rightarrow> bytes \<Rightarrow> bytes) \<Rightarrow> bytes \<Rightarrow> jitter_parameters \<Rightarrow> sample option \<Rightarrow> sample \<Rightarrow> bool" where
  "recorded sha hmac seed params prev s \<longleftrightarrow>
     hash_linked sha prev s \<and> count_later prev s \<and> jitter_derived hmac seed params prev s"

definition recording_inv :: "(bytes \<Rightarrow> bytes) \<Rightarrow> (bytes \<Rightarrow> bytes \<Rightarrow> bytes) \<Rightarrow> jitter_session \<Rightarrow> bool" where
  "recording_inv sha hmac s \<longleftrightarrow> 0 < jp_sample_interval (jn_params s) \<and>
     neighbours (recorded sha hmac (jn_seed s) (jn_params s)) None (jn_samples s) \<and>
     (jn_samples s \<noteq> [] \<longrightarrow> sa_keystroke_count (last (jn_samples s)) \<le> jn_keystroke_count s)"

lemma hash_document_frame:
  assumes "hash_document env s = (s', r)"
  shows "jn_seed s' = jn_seed s \<and> jn_params s' = jn_params s \<and> jn_samples s' = jn_samples s \<and>
     jn_keystroke_count s' = jn_keystroke_count s \<and> jn_started_at s' = jn_started_at s \<and>
     jn_ended_at s' = jn_ended_at s \<and> jn_id s' = jn_id s \<and> jn_document_path s' = jn_document_path s \<and>
     jn_last_jitter s' = jn_last_jitter s"
  using assms by (auto simp: hash_document_def split: option.splits if_splits)

lemma make_sample_recorded:
  assumes "samples \<noteq> [] \<longrightarrow> sa_keystroke_count (last samples) < jn_keystroke_count s" "jn_samples s = samples"
  shows "recorded sha hmac (jn_seed s) (jn_params s) (if samples = [] then None else Some (last samples))
     (make_sample sha hmac doc_hash now s)"
  using assms by (auto simp: recorded_def chain_rel_defs make_sample_def last_sample_hash_def Let_def sample_compute_hash_def)

lemma record_keystroke_frame:
  "jn_seed (fst (record_keystroke sha hmac env s)) = jn_seed s \<and>
   jn_params (fst (record_keystroke sha hmac env s)) = jn_params s \<and>
   jn_started_at (fst (record_keystroke sha hmac env s)) = jn_started_at s \<and>
   jn_ended_at (fst (record_keystroke sha hmac env s)) = jn_ended_at s \<and>
   jn_keystroke_count (fst (record_keystroke sha hmac env s)) = min (jn_keystroke_count s + 1) (2 ^ 64 - 1)"
  by (auto simp: record_keystroke_def Let_def split: prod.splits sum.splits dest!: hash_document_frame)

text \<open>What a keystroke does to the chain: it keeps it or appends one sample, taken at the next count.\<close>

lemma record_keystroke_samples:
  assumes "recording_inv sha hmac s" "jn_keystroke_count s < 2 ^ 64 - 1"
  shows "recording_inv sha hmac (fst (record_keystroke sha hmac env s))"
proof -
  let ?s1 = "s\<lparr>jn_keystroke_count := min (jn_keystroke_count s + 1) (2 ^ 64 - 1)\<rparr>"
  have cnt: "jn_keystroke_count ?s1 = jn_keystroke_count s + 1" using assms(2) by simp
  show ?thesis
  proof (cases "jp_sample_interval (jn_params s) = 0 \<or> jn_keystroke_count ?s1 mod jp_sample_interval (jn_params s) \<noteq> 0")
    case True
    then show ?thesis using assms cnt by (auto simp: record_keystroke_def recording_inv_def Let_def)
  next
    case emit: False
    obtain s2 r where h: "hash_document env ?s1 = (s2, r)" by (metis surj_pair)
    note f = hash_document_frame [OF h]
    have inv2: "recording_inv sha hmac s2" using assms(1) f cnt by (auto simp: recording_inv_def)
    show ?thesis
    proof (cases r)
      case (Inl e)
      then show ?thesis using emit h inv2 by (simp add: record_keystroke_def Let_def)
    next
      case (Inr doc_hash)
      let ?x = "make_sample sha hmac doc_hash (de_now env) s2"
      have low: "jn_samples s \<noteq> [] \<longrightarrow> sa_keystroke_count (last (jn_samples s)) < jn_keystroke_count s2"
        using assms(1) f cnt by (auto simp: recording_inv_def)
      have "recorded sha hmac (jn_seed s) (jn_params s) (if jn_samples s = [] then None else Some (last (jn_samples s))) ?x"
        using make_sample_recorded [of "jn_samples s" s2 sha hmac doc_hash "de_now env"] low f by simp
      moreover have "sa_keystroke_count ?x = jn_keystroke_count s2" by (simp add: make_sample_def Let_def)
      ultimately show ?thesis
        using emit h Inr inv2 f by (auto simp: record_keystroke_def recording_inv_def Let_def linked_snoc)
    qed
  qed
qed

lemma record_all_inv:
  assumes "recording_inv sha hmac s" "jn_keystroke_count s + length envs < 2 ^ 64"
  shows "recording_inv sha hmac (record_all sha hmac envs s) \<and>
     jn_keystroke_count (record_all sha hmac envs s) = jn_keystroke_count s + length envs \<and>
     jn_seed (record_all sha hmac envs s) = jn_seed s \<and> jn_params (record_all sha hmac envs s) = jn_params s \<and>
     jn_started_at (record_all sha hmac envs s) = jn_started_at s \<and> jn_ended_at (record_all sha hmac envs s) = jn_ended_at s"
  using assms
proof (induction envs arbitrary: s)
  case (Cons env envs)
  let ?s = "fst (record_keystroke sha hmac env s)"
  note f = record_keystroke_frame [of sha hmac env s]
  have "recording_inv sha hmac ?s" using record_keystroke_samples Cons.prems by simp
  moreover have "jn_keystroke_count ?s = jn_keystroke_count s + 1" using f Cons.prems(2) by simp
  ultimately show ?case using Cons.IH [of ?s] Cons.prems(2) f by (simp add: record_all_def)
qed (simp add: record_all_def)

lemma new_recording_inv:
  "jitter_new_with_id session_id seed now canonical params = Inr s \<Longrightarrow> recording_inv sha hmac s \<and> jn_keystroke_count s = 0 \<and>
     jn_seed s = seed \<and> jn_params s = params \<and> jn_started_at s = now \<and> jn_ended_at s = None"
  by (auto simp: jitter_new_with_id_def recording_inv_def split: if_splits option.splits)

text \<open>On a recorded chain every verifier comes down to the order of the clock.\<close>

lemma recording_inv_linked:
  assumes "recording_inv sha hmac s"
  shows "neighbours (hash_linked sha) None (jn_samples s)" "neighbours count_later None (jn_samples s)"
    "neighbours (jitter_derived hmac (jn_seed s) (jn_params s)) None (jn_samples s)"
  using assms by (auto simp: recording_inv_def recorded_def elim!: linked_mono)

lemma inv_evidence_verify:
  "recording_inv sha hmac s \<Longrightarrow> evidence_verify sha (jitter_export sha now s) = Inr () \<longleftrightarrow>
     sorted_wrt (<) (map sa_timestamp (jn_samples s))"
  by (simp add: evidence_verify_def jitter_export_def evidence_verify_iff recording_inv_linked linked_later)

lemma inv_verify_samples:
  "recording_inv sha hmac s \<Longrightarrow> jn_seed s \<noteq> [] \<Longrightarrow>
     verify_samples_from sha hmac 0 None (jn_seed s) (jn_params s) (jn_samples s) = Inr () \<longleftrightarrow>
     sorted_wrt (<) (map sa_timestamp (jn_samples s))"
  by (simp add: verify_samples_iff recording_inv_linked linked_later)

lemma inv_loaded_integrity:
  "recording_inv sha hmac s \<Longrightarrow> verify_loaded_integrity sha now s = Inr () \<longleftrightarrow>
     sorted_wrt (<) (map sa_timestamp (jn_samples s)) \<and>
     (\<forall>e. jn_ended_at s = Some e \<longrightarrow> jn_started_at s \<le> e \<and> e \<le> now + 300000000000) \<and>
     jn_started_at s \<le> now + 300000000000 \<and> (\<forall>x \<in> set (jn_samples s). sa_timestamp x \<le> now + 300000000000)"
proof -
  assume inv: "recording_inv sha hmac s"
  let ?ceiling = "now + 300000000000"
  let ?load = "loaded_samples_from ?ceiling 0 None (jn_samples s)"
  have chain: "session_verify_chain sha 0 None (jn_samples s) = Inr ()"
    using inv by (simp add: session_verify_chain_iff recording_inv_linked)
  have load: "?load = Inr () \<longleftrightarrow> sorted_wrt (<) (map sa_timestamp (jn_samples s)) \<and>
      (\<forall>x \<in> set (jn_samples s). sa_timestamp x \<le> ?ceiling)"
    using inv by (simp add: loaded_samples_iff recording_inv_linked linked_later)
  have count: "\<not> (jn_samples s \<noteq> [] \<and> jn_keystroke_count s < sa_keystroke_count (last (jn_samples s)))"
    and pos: "jp_sample_interval (jn_params s) \<noteq> 0"
    using inv by (auto simp: recording_inv_def)
  have "verify_loaded_integrity sha now s = Inr () \<longleftrightarrow>
      (\<forall>e. jn_ended_at s = Some e \<longrightarrow> jn_started_at s \<le> e \<and> e \<le> ?ceiling) \<and> jn_started_at s \<le> ?ceiling \<and> ?load = Inr ()"
    using chain count pos by (cases ?load; cases "jn_ended_at s") (auto simp: verify_loaded_integrity_def Let_def)
  then show ?thesis using load by blast
qed

end
