(* ===== verification/Jit_Codec.thy ===== *)
theory Jit_Codec
  imports Jit_Correct "HOL-Library.Sublist"
begin

text \<open>
  The binary codec gives back what it encoded, the comparison of chains is equality, the divergence
  point is the first difference, and a chain verified in two parts is verified as a whole.
\<close>

subsection \<open>Round trip\<close>

definition typed_sample :: "sample \<Rightarrow> bool" where
  "typed_sample s \<longleftrightarrow> 0 \<le> sa_timestamp s \<and> sa_timestamp s < 2 ^ 63 \<and> sa_keystroke_count s < 2 ^ 64 \<and>
     length (sa_document_hash s) = 32 \<and> sa_jitter_micros s < 2 ^ 32 \<and> length (sa_hash s) = 32 \<and>
     length (sa_previous_hash s) = 32"

definition typed_parameters :: "jitter_parameters \<Rightarrow> bool" where
  "typed_parameters p \<longleftrightarrow> jp_min_jitter_micros p < 2 ^ 32 \<and> jp_max_jitter_micros p < 2 ^ 32 \<and> jp_sample_interval p < 2 ^ 64"

lemma timestamp_nanos_typed: "typed_sample s \<Longrightarrow> timestamp_nanos_u64 (sa_timestamp s) = nat (sa_timestamp s)"
  by (auto simp: typed_sample_def timestamp_nanos_u64_def timestamp_nanos_safe_def timestamp_nanos_opt_def i64_def Let_def)

lemma length_encode_sample [simp]: "typed_sample s \<Longrightarrow> length (encode_sample_binary s) = 116"
  by (simp add: encode_sample_binary_def typed_sample_def)

lemma decode_encode_sample:
  assumes t: "typed_sample s"
  shows "decode_sample_binary (encode_sample_binary s) = Inr s"
proof -
  note len = t [unfolded typed_sample_def]
  have ts: "nat (sa_timestamp s) < 256 ^ 8" "nat (sa_timestamp s) \<le> 2 ^ 63 - 1" using len by auto
  have small: "sa_keystroke_count s < 256 ^ 8" "sa_jitter_micros s < 256 ^ 4" using len by simp_all
  show ?thesis
    using len ts small timestamp_nanos_typed [OF t]
    by (cases s) (simp add: decode_sample_binary_def encode_sample_binary_def Let_def byte_simps)
qed

lemma decode_encode_samples:
  "\<forall>s \<in> set ss. typed_sample s \<Longrightarrow> decode_samples (length ss) (concat (map encode_sample_binary ss) @ rest) = Inr ss"
  by (induction ss) (simp_all add: decode_encode_sample)

lemma length_encode_samples:
  "\<forall>s \<in> set ss. typed_sample s \<Longrightarrow> length (concat (map encode_sample_binary ss)) = length ss * 116"
  by (induction ss) simp_all

lemma decode_encode_chain:
  assumes "\<forall>s \<in> set ss. typed_sample s" "typed_parameters params" "length ss \<le> MAX_SAMPLE_COUNT"
    and enc: "encode_chain_binary ss params = Inr data"
  shows "decode_chain_binary data = Inr (ss, params)"
proof -
  let ?body = "concat (map encode_sample_binary ss)"
  let ?h = "[1] @ be 4 (jp_min_jitter_micros params) @ be 4 (jp_max_jitter_micros params) @
        be 4 (jp_sample_interval params) @ [if jp_inject_enabled params then 1 else 0] @ be 4 (length ss) :: bytes"
  have data: "data = ?h @ ?body" and k: "jp_sample_interval params < 256 ^ 4"
    using enc by (auto simp: encode_chain_binary_def split: if_splits)
  have n: "length ss < 256 ^ 4" "length ss \<le> 10000000" using assms(3) by (simp_all add: MAX_SAMPLE_COUNT_def)
  have m: "jp_min_jitter_micros params < 256 ^ 4" "jp_max_jitter_micros params < 256 ^ 4"
    using assms(2) by (simp_all add: typed_parameters_def)
  have len: "length data = 18 + length ss * 116" using data length_encode_samples [OF assms(1)] by simp
  have cnt: "be_val (slice 14 18 data) = length ss" and mn: "be_val (slice 1 5 data) = jp_min_jitter_micros params"
    and mx: "be_val (slice 5 9 data) = jp_max_jitter_micros params" and iv: "be_val (slice 9 13 data) = jp_sample_interval params"
    using n m k by (simp_all add: data byte_simps)
  have flag: "(data ! 13 = 1) = jp_inject_enabled params" by (simp add: data nth_append)
  have body: "drop 18 data = ?body" and "hd data = 1" by (simp_all add: data)
  then show ?thesis
    using len cnt mn mx iv flag n decode_encode_samples [OF assms(1), of "[]"]
    by (cases params) (simp add: decode_chain_binary_def CHAIN_HEADER_SIZE_def MAX_SAMPLE_COUNT_def Let_def)
qed

subsection \<open>Comparison and divergence\<close>

lemma compare_samples_eq: "compare_samples a b \<longleftrightarrow> a = b"
  by (cases a; cases b) (auto simp: compare_samples_def)

lemma compare_chains_eq: "compare_chains a b \<longleftrightarrow> a = b"
  by (auto simp: compare_chains_def compare_samples_eq list_eq_iff_nth_eq)

lemma divergence_from_prefix:
  "divergence_from i a b = (if a = b then - 1 else int (i + length (longest_common_prefix a b)))"
  by (induction i a b rule: divergence_from.induct) (auto simp: compare_samples_eq)

subsection \<open>Continuity\<close>

lemma verify_samples_append:
  assumes "seed \<noteq> []"
  shows "verify_samples_from sha hmac i prev seed params (as @ bs) = Inr () \<longleftrightarrow>
     verify_samples_from sha hmac i prev seed params as = Inr () \<and>
     verify_samples_from sha hmac 0 (if as = [] then prev else Some (last as)) seed params bs = Inr ()"
proof -
  have "neighbours R prev (as @ bs) \<longleftrightarrow> neighbours R prev as \<and> neighbours R (if as = [] then prev else Some (last as)) bs" for R :: "sample option \<Rightarrow> sample \<Rightarrow> bool"
    by (induction as arbitrary: prev) auto
  then show ?thesis by (auto simp: verify_samples_iff [OF assms])
qed

lemma continuity_iff:
  assumes "seed \<noteq> []"
  shows "verify_chain_continuity sha hmac as bs seed params = Inr () \<longleftrightarrow>
     verify_samples_from sha hmac 0 (if as = [] then None else Some (last as)) seed params bs = Inr ()"
proof (cases bs)
  case (Cons b bs')
  show ?thesis
    using assms verify_sample_iff [OF assms, of sha hmac 0 b "if as = [] then None else Some (last as)" params]
    by (auto simp: Cons verify_chain_continuity_def Let_def res_bind_Inr_iff chain_rel_defs split: if_splits)
qed (simp add: verify_chain_continuity_def)

end
