(* ===== verification/Jit_Zones.thy ===== *)
theory Jit_Zones
  imports Jit_Correct
begin

text \<open>
  The zone-committed engine: its samples pass the verification with its secret, its profile can be
  recovered from them, and typing a text gives the histogram that the content analysis expects.
\<close>

subsection \<open>Zones\<close>

lemma keycode_zone_range: "- 1 \<le> keycode_to_zone k \<and> keycode_to_zone k \<le> 7"
  by (simp add: keycode_to_zone_def)

lemma encode_zone_unat:
  assumes "0 \<le> a" "a \<le> 7" "0 \<le> b" "b \<le> 7"
  shows "unat (encode_zone_transition a b) = nat a * 8 + nat b"
proof -
  have "nat a * 8 + nat b < 64" using assms by linarith
  moreover have "encode_zone_transition a b = word_of_nat (nat a * 8 + nat b)"
    unfolding encode_zone_transition_def using assms by (intro if_not_P) simp
  ultimately show ?thesis using unat_of_nat [where ?'a = 8, of "nat a * 8 + nat b"] by simp
qed

lemma encode_zone_range:
  assumes "0 \<le> a" "a \<le> 7" "0 \<le> b" "b \<le> 7"
  shows "unat (encode_zone_transition a b) < 64" "encode_zone_transition a b \<noteq> 0xFF"
    "is_valid_zone_transition (encode_zone_transition a b)"
    "decode_zone_transition (encode_zone_transition a b) = (a, b)"
proof -
  show r: "unat (encode_zone_transition a b) < 64" using assms by (simp add: encode_zone_unat)
  show n: "encode_zone_transition a b \<noteq> 0xFF" using r by auto
  show "is_valid_zone_transition (encode_zone_transition a b)" using r n by (simp add: is_valid_zone_transition_def)
  show "decode_zone_transition (encode_zone_transition a b) = (a, b)"
    using assms by (simp add: decode_zone_transition_def encode_zone_unat)
qed

lemma interval_bucket_range: "unat (interval_to_bucket nanos) \<le> 9"
proof -
  obtain b :: int where b: "interval_to_bucket nanos = word_of_nat (nat (max 0 (if 10 \<le> b then 10 - 1 else b)))"
    unfolding interval_to_bucket_def INTERVAL_BUCKET_SIZE_MS_def NUM_INTERVAL_BUCKETS_def Let_def by blast
  have "nat (max 0 (if 10 \<le> b then 10 - 1 else b)) \<le> 9" by auto
  then show ?thesis unfolding b by (simp add: unat_of_nat del: of_nat_nat)
qed

subsection \<open>Runs of the engine\<close>

record key_event =
  ke_now :: int
  ke_skew :: nat
  ke_code :: nat
  ke_doc_hash :: bytes

definition engine_step ::
    "(bytes \<Rightarrow> bytes) \<Rightarrow> (bytes \<Rightarrow> bytes \<Rightarrow> bytes) \<Rightarrow> key_event \<Rightarrow> jitter_engine \<Rightarrow> jitter_engine \<times> jitter_sample option" where
  "engine_step sha hmac k en =
     (case on_keystroke sha hmac (ke_now k) (ke_skew k) (ke_code k) (ke_doc_hash k) en of (en', _, so) \<Rightarrow> (en', so))"

fun engine_run ::
    "(bytes \<Rightarrow> bytes) \<Rightarrow> (bytes \<Rightarrow> bytes \<Rightarrow> bytes) \<Rightarrow> key_event list \<Rightarrow> jitter_engine \<Rightarrow> jitter_engine \<times> jitter_sample list" where
  "engine_run sha hmac [] en = (en, [])"
| "engine_run sha hmac (k # ks) en =
     (case engine_step sha hmac k en of (en1, so) \<Rightarrow>
      (case engine_run sha hmac ks en1 of (en2, ss) \<Rightarrow> (en2, (case so of None \<Rightarrow> ss | Some s \<Rightarrow> s # ss))))"

definition zone_ok :: "jitter_engine \<Rightarrow> bool" where
  "zone_ok en \<longleftrightarrow> - 1 \<le> en_prev_zone en \<and> en_prev_zone en \<le> 7"

text \<open>What one keystroke gives: nothing for a key outside the zones, otherwise a sample whose fields
  are determined by the engine and the event.\<close>

lemma engine_step_none:
  "keycode_to_zone (ke_code k) < 0 \<Longrightarrow> engine_step sha hmac k en = (en, None)"
  by (simp add: engine_step_def on_keystroke_def)

lemma engine_step_some:
  assumes z: "0 \<le> keycode_to_zone (ke_code k)" and ok: "zone_ok en" and ord: "en_ordinal en < 2 ^ 64 - 1"
  obtains en' s where "engine_step sha hmac k en = (en', Some s)"
    "en_secret en' = en_secret en" "en_ordinal en' = en_ordinal en + 1" "jz_ordinal s = en_ordinal en + 1"
    "jz_timestamp s = ke_now k" "en_prev_jitter en' = jz_jitter_micros s" "en_prev_zone en' = keycode_to_zone (ke_code k)"
    "jz_jitter_micros s = compute_zone_jitter hmac (en_secret en) (en_ordinal en) (jz_doc_hash s) (jz_zone_transition s)
       (jz_interval_bucket s) (jz_timestamp s) (en_prev_jitter en)"
    "jz_sample_hash s = compute_jitter_sample_hash sha s" "zone_ok en'"
    "jz_zone_transition s = (if 0 \<le> en_prev_zone en then encode_zone_transition (en_prev_zone en) (keycode_to_zone (ke_code k)) else 0xFF)"
    "en_profile en' = extract_one (en_profile en) s"
proof -
  define zt where "zt = (if 0 \<le> en_prev_zone en then encode_zone_transition (en_prev_zone en) (keycode_to_zone (ke_code k)) else 0xFF)"
  define bk where "bk = (if 0 \<le> en_prev_zone en then interval_to_bucket (nat (ke_now k - en_prev_time en)) else 0)"
  define pr where "pr = (if 0 \<le> en_prev_zone en
    then record_transition (en_prev_zone en) (keycode_to_zone (ke_code k)) bk (en_profile en) else en_profile en)"
  define j where "j = compute_zone_jitter hmac (en_secret en) (en_ordinal en) (ke_doc_hash k) zt bk (ke_now k) (en_prev_jitter en)"
  define s0 where "s0 = \<lparr>jz_ordinal = en_ordinal en + 1, jz_timestamp = ke_now k, jz_doc_hash = ke_doc_hash k,
    jz_zone_transition = zt, jz_interval_bucket = bk, jz_jitter_micros = j, jz_clock_skew = ke_skew k, jz_sample_hash = replicate 32 0\<rparr>"
  define s where "s = s0\<lparr>jz_sample_hash := compute_jitter_sample_hash sha s0\<rparr>"
  define en' where "en' = en\<lparr>en_ordinal := en_ordinal en + 1, en_prev_zone := keycode_to_zone (ke_code k), en_prev_time := ke_now k,
    en_prev_jitter := j, en_profile := pr\<rparr>"
  have o: "sat64 (en_ordinal en) = en_ordinal en + 1" using ord by (simp add: sat64_def)
  have step: "engine_step sha hmac k en = (en', Some s)"
    using z unfolding engine_step_def on_keystroke_def Let_def en'_def s_def s0_def j_def pr_def bk_def zt_def o
    by (cases "0 \<le> en_prev_zone en") simp_all
  have bucket: "unat bk \<le> 9" using interval_bucket_range by (simp add: bk_def)
  have prof: "pr = extract_one (en_profile en) s"
  proof (cases "0 \<le> en_prev_zone en")
    case True
    then have "0 \<le> en_prev_zone en" "en_prev_zone en \<le> 7" using ok by (simp_all add: zone_ok_def)
    note e = encode_zone_range [OF this z conjunct2 [OF keycode_zone_range]]
    show ?thesis using True bucket e(2,4)
      by (simp add: pr_def extract_one_def add_transition_def record_transition_def s_def s0_def zt_def Let_def)
  qed (simp add: pr_def extract_one_def s_def s0_def zt_def)
  show ?thesis
    by (rule that [OF step])
      (use keycode_zone_range in \<open>simp_all add: en'_def s_def s0_def j_def zt_def prof compute_jitter_sample_hash_def zone_ok_def\<close>)
qed

lemma engine_run_verifies:
  assumes "engine_run sha hmac ks en = (en', ss)" "zone_ok en" "en_ordinal en + length ks < 2 ^ 64"
  shows "verify_secret_from sha hmac (en_secret en) i (en_ordinal en) (en_prev_jitter en) ss = Inr () \<and>
     en_profile en' = foldl extract_one (en_profile en) ss \<and> (\<forall>s \<in> set ss. jz_sample_hash s = compute_jitter_sample_hash sha s)"
  using assms
proof (induction ks arbitrary: en i ss)
  case (Cons k ks)
  show ?case
  proof (cases "keycode_to_zone (ke_code k) < 0")
    case True
    then show ?thesis using Cons by (auto simp: engine_step_none split: prod.splits)
  next
    case False
    then have z: "0 \<le> keycode_to_zone (ke_code k)" by simp
    have ord: "en_ordinal en < 2 ^ 64 - 1" using Cons.prems(3) by simp
    obtain en1 s where s: "engine_step sha hmac k en = (en1, Some s)"
      "en_secret en1 = en_secret en" "en_ordinal en1 = en_ordinal en + 1" "jz_ordinal s = en_ordinal en + 1"
      "en_prev_jitter en1 = jz_jitter_micros s"
      "jz_jitter_micros s = compute_zone_jitter hmac (en_secret en) (en_ordinal en) (jz_doc_hash s) (jz_zone_transition s)
         (jz_interval_bucket s) (jz_timestamp s) (en_prev_jitter en)"
      "jz_sample_hash s = compute_jitter_sample_hash sha s" "zone_ok en1" "en_profile en1 = extract_one (en_profile en) s"
      by (rule engine_step_some [OF z Cons.prems(2) ord, of sha hmac]) blast
    obtain ss' where r: "engine_run sha hmac ks en1 = (en', ss')" and ss: "ss = s # ss'"
      using Cons.prems(1) s(1) by (auto split: prod.splits)
    have "en_ordinal en1 + length ks < 2 ^ 64" using Cons.prems(3) s(3) by simp
    from Cons.IH [OF r s(8) this, of "Suc i"] show ?thesis
      using s(2-7,9) ss by simp
  qed
qed simp

text \<open>A chain that the secret confirms has consecutive ordinals and correct hashes, so that the
  verification without the secret only adds the order of the clock.\<close>

lemma secret_chain:
  assumes "verify_secret_from sha hmac secret i ordinal pj ss = Inr ()" "\<forall>p. prev = Some p \<longrightarrow> jz_ordinal p \<le> ordinal"
  shows "(\<forall>s \<in> set ss. jz_sample_hash s = compute_jitter_sample_hash sha s) \<and> neighbours (later (\<lambda>s. int (jz_ordinal s))) prev ss"
  using assms
proof (induction ss arbitrary: i ordinal pj prev)
  case (Cons s ss)
  have "verify_secret_from sha hmac secret (Suc i) (ordinal + 1) (jz_jitter_micros s) ss = Inr ()"
    and s: "jz_ordinal s = ordinal + 1" "jz_sample_hash s = compute_jitter_sample_hash sha s"
    using Cons.prems(1) by (auto split: if_splits)
  from Cons.IH [OF this(1), of "Some s"] s Cons.prems(2) show ?case by (auto simp: later_def split: option.splits)
qed simp

lemma verify_jitter_iff:
  "verify_jitter_from sha i prev ss = Inr () \<longleftrightarrow> (\<forall>s \<in> set ss. jz_sample_hash s = compute_jitter_sample_hash sha s) \<and>
     neighbours (later jz_timestamp) prev ss \<and> neighbours (later (\<lambda>s. int (jz_ordinal s))) prev ss"
  by (induction ss arbitrary: i prev) (auto simp: later_def split: option.splits)

subsection \<open>Typing a text\<close>

definition zone_pair :: "int \<times> int \<Rightarrow> bool" where
  "zone_pair t \<longleftrightarrow> 0 \<le> fst t \<and> fst t \<le> 7 \<and> 0 \<le> snd t \<and> snd t \<le> 7"

abbreviation encode_pair :: "int \<times> int \<Rightarrow> byte" where
  "encode_pair t \<equiv> encode_zone_transition (fst t) (snd t)"

lemma char_zone_range: "char_to_zone c \<le> 7"
  by (simp add: char_to_zone_def Let_def)

lemma zone_sequence_pairs: "prev \<le> 7 \<Longrightarrow> \<forall>t \<in> set (zone_sequence_from prev cs). zone_pair t"
  by (induction prev cs rule: zone_sequence_from.induct) (auto simp: zone_pair_def char_zone_range Let_def)

text \<open>The committed transitions of the samples are those of the typed text.\<close>

lemma typed_text_transitions:
  assumes "list_all2 (\<lambda>k c. keycode_to_zone (ke_code k) = char_to_zone c) ks cs"
    and "engine_run sha hmac ks en = (en', ss)" "zone_ok en" "en_ordinal en + length ks < 2 ^ 64"
  shows "filter (\<lambda>z. z \<noteq> 0xFF) (map jz_zone_transition ss) = map encode_pair (zone_sequence_from (en_prev_zone en) cs)"
  using assms
proof (induction ks cs arbitrary: en ss rule: list_all2_induct)
  case (Cons k ks c cs)
  show ?case
  proof (cases "keycode_to_zone (ke_code k) < 0")
    case True
    then show ?thesis using Cons by (auto simp: engine_step_none Let_def split: prod.splits)
  next
    case False
    then have z: "0 \<le> keycode_to_zone (ke_code k)" and zc: "char_to_zone c = keycode_to_zone (ke_code k)"
      using Cons.hyps(1) by simp_all
    have ord: "en_ordinal en < 2 ^ 64 - 1" using Cons.prems(3) by simp
    obtain en1 s where s: "engine_step sha hmac k en = (en1, Some s)" "en_ordinal en1 = en_ordinal en + 1"
      "en_prev_zone en1 = keycode_to_zone (ke_code k)" "zone_ok en1"
      "jz_zone_transition s = (if 0 \<le> en_prev_zone en then encode_zone_transition (en_prev_zone en) (keycode_to_zone (ke_code k)) else 0xFF)"
      by (rule engine_step_some [OF z Cons.prems(2) ord, of sha hmac]) blast
    obtain ss' where r: "engine_run sha hmac ks en1 = (en', ss')" and ss: "ss = s # ss'"
      using Cons.prems(1) s(1) by (auto split: prod.splits)
    have o: "en_ordinal en1 + length ks < 2 ^ 64" using Cons.prems(3) s(2) by simp
    have "0 \<le> en_prev_zone en \<Longrightarrow> jz_zone_transition s \<noteq> 0xFF"
      using encode_zone_range(2) z s(5) Cons.prems(2) keycode_zone_range by (simp add: zone_ok_def)
    then show ?thesis using Cons.IH [OF r s(4) o] z zc s(3,5) ss by (auto simp: Let_def)
  qed
qed simp

text \<open>Two folds, over samples and over the transitions they commit to, stay related.\<close>

lemma foldl_transitions:
  assumes "filter (\<lambda>z. z \<noteq> 0xFF) (map jz_zone_transition ss) = map encode_pair ts" "\<forall>t \<in> set ts. zone_pair t" "R a b"
    and "\<And>a b s. R a b \<Longrightarrow> jz_zone_transition s = 0xFF \<Longrightarrow> R (f a s) b"
    and step: "\<And>a b s t. R a b \<Longrightarrow> zone_pair t \<Longrightarrow> jz_zone_transition s = encode_pair t \<Longrightarrow> R (f a s) (g b t)"
  shows "R (foldl f a ss) (foldl g b ts)"
  using assms(1-3)
proof (induction ss arbitrary: ts a b)
  case (Cons s ss)
  show ?case
  proof (cases "jz_zone_transition s = 0xFF")
    case True
    then show ?thesis using Cons assms(4) by simp
  next
    case False
    then obtain t ts' where ts: "ts = t # ts'" "jz_zone_transition s = encode_pair t"
      using Cons.prems(1) by (cases ts) auto
    then show ?thesis using Cons.IH [of ts' "f a s" "g b t"] Cons.prems False step [of a b t s] by simp
  qed
qed simp

lemma count_recorded_expected:
  assumes "zone_pair t" "jz_zone_transition s = encode_pair t" "length hist = 64"
  shows "count_recorded hist s = count_expected hist t"
  using encode_zone_range [of "fst t" "snd t"] assms
  by (simp add: zone_pair_def count_recorded_def count_expected_def Let_def)

lemma length_count_expected: "length (count_expected hist t) = length hist"
  by (simp add: count_expected_def bump_def Let_def)

lemma same_histogram:
  assumes "filter (\<lambda>z. z \<noteq> 0xFF) (map jz_zone_transition ss) = map encode_pair ts" "\<forall>t \<in> set ts. zone_pair t"
  shows "foldl count_recorded (replicate 64 0) ss = foldl count_expected (replicate 64 0) ts"
proof -
  have "(\<lambda>h h'. h = h' \<and> length h = 64) (foldl count_recorded (replicate 64 0) ss) (foldl count_expected (replicate 64 0) ts)"
  proof (rule foldl_transitions [OF assms])
    fix a b :: "nat list" and s :: jitter_sample and t assume "a = b \<and> length a = 64" "zone_pair t" "jz_zone_transition s = encode_pair t"
    then show "count_recorded a s = count_expected b t \<and> length (count_recorded a s) = 64"
      using count_recorded_expected [of t s a] length_count_expected [of a t] by metis
  qed (simp_all add: count_recorded_def is_valid_zone_transition_def)
  then show ?thesis by simp
qed

lemma same_totals:
  assumes "filter (\<lambda>z. z \<noteq> 0xFF) (map jz_zone_transition ss) = map encode_pair ts" "\<forall>t \<in> set ts. zone_pair t"
  shows "tf_total_transitions (foldl extract_one p ss) = tf_total_transitions (foldl (\<lambda>p t. add_transition t 5 p) p ts) \<and>
     tf_alternating_count (foldl extract_one p ss) = tf_alternating_count (foldl (\<lambda>p t. add_transition t 5 p) p ts)"
proof -
  have "(\<lambda>p q. tf_total_transitions p = tf_total_transitions q \<and> tf_alternating_count p = tf_alternating_count q)
    (foldl extract_one p ss) (foldl (\<lambda>p t. add_transition t 5 p) p ts)"
  proof (rule foldl_transitions [OF assms])
    fix a b :: typing_profile and s :: jitter_sample and t
    assume "tf_total_transitions a = tf_total_transitions b \<and> tf_alternating_count a = tf_alternating_count b"
      and t: "zone_pair t" "jz_zone_transition s = encode_pair t"
    then show "tf_total_transitions (extract_one a s) = tf_total_transitions (add_transition t 5 b) \<and>
        tf_alternating_count (extract_one a s) = tf_alternating_count (add_transition t 5 b)"
      using encode_zone_range(2,4) [of "fst t" "snd t"] by (simp add: zone_pair_def extract_one_def add_transition_def Let_def)
  qed (simp_all add: extract_one_def)
  then show ?thesis by simp
qed

end
