(* ===== verification/Jit_Props.thy ===== *)
theory Jit_Props
  imports Jit_Codec Jit_Zones
begin

text \<open>
  The properties of the jitter chains: what a recording session's evidence is worth, reloading a
  saved session, the binary codec, the zone-committed engine, and typing a text.
\<close>

subsection \<open>Evidence of a session\<close>

definition toy_doc_env :: "int \<Rightarrow> doc_env" where
  "toy_doc_env now = \<lparr>de_metadata = Some (7, 3), de_hash = Some (replicate 32 5, 3), de_now = now\<rparr>"

definition every_key :: jitter_parameters where
  "every_key = jitter_default_parameters\<lparr>jp_sample_interval := 1\<rparr>"

definition toy_jitter_session :: "doc_env list \<Rightarrow> jitter_session" where
  "toy_jitter_session envs = record_all (\<lambda>_. replicate 32 7) (\<lambda>_ _. replicate 32 9) envs
     \<lparr>jn_id = [1], jn_started_at = 100, jn_ended_at = None, jn_document_path = [47], jn_seed = replicate 32 3,
      jn_params = every_key, jn_samples = [], jn_keystroke_count = 0, jn_last_jitter = 0, jn_last_mtime = None,
      jn_last_size = None, jn_last_doc_hash = None\<rparr>"

text \<open>With an interval of one and a readable document, every keystroke is sampled.\<close>

lemma record_keystroke_every:
  assumes "jp_sample_interval (jn_params s) = 1" "de_metadata env = Some (m, l)" "de_hash env = Some h"
  shows "map sa_timestamp (jn_samples (fst (record_keystroke sha hmac env s))) = map sa_timestamp (jn_samples s) @ [de_now env]"
  using assms by (cases h) (auto simp: record_keystroke_def hash_document_def make_sample_def Let_def)

lemma toy_recording_times: "map sa_timestamp (jn_samples (toy_jitter_session (map toy_doc_env ts))) = ts"
proof -
  have "jp_sample_interval (jn_params s) = 1 \<Longrightarrow> map sa_timestamp (jn_samples (record_all sha hmac (map toy_doc_env ts) s)) =
      map sa_timestamp (jn_samples s) @ ts" for sha hmac s
  proof (induction ts arbitrary: s)
    case (Cons t ts)
    have "map sa_timestamp (jn_samples (fst (record_keystroke sha hmac (toy_doc_env t) s))) = map sa_timestamp (jn_samples s) @ [t]"
      using record_keystroke_every [OF Cons.prems, of "toy_doc_env t"] by (simp add: toy_doc_env_def)
    then show ?case
      using Cons.IH [of "fst (record_keystroke sha hmac (toy_doc_env t) s)"] Cons.prems record_keystroke_frame [of sha hmac "toy_doc_env t" s]
      by (simp add: record_all_def)
  qed (simp add: record_all_def)
  then show ?thesis by (simp add: toy_jitter_session_def every_key_def)
qed

lemma toy_recording_new: "jitter_new_with_id [1] (replicate 32 3) 100 (Some [47]) every_key = Inr (toy_jitter_session [])"
  by (simp add: jitter_new_with_id_def toy_jitter_session_def record_all_def every_key_def jitter_default_parameters_def)

lemma toy_recording_run: "toy_jitter_session envs = record_all (\<lambda>_. replicate 32 7) (\<lambda>_ _. replicate 32 9) envs (toy_jitter_session [])"
  by (simp add: toy_jitter_session_def record_all_def)

text \<open>C34: Let a new session record any number of keystrokes below \<open>2^64\<close>, whatever the document and
  the clock do, and be exported at any time. The exported statistics always say that the chain is
  valid. But the evidence passes \<open>Evidence::verify\<close>, a nonempty chain passes \<open>verify_chain\<close> with the
  seed, and \<open>verify_chain_detailed\<close> finds it valid, exactly when the timestamps of the samples
  strictly increase: hashes, links, counts and jitter values are always right, and nothing in
  \<open>record_keystroke\<close> keeps the clock in order.\<close>

theorem jitter_evidence_iff:
  assumes new: "jitter_new_with_id session_id seed started canonical params = Inr s0"
    and n: "length envs < 2 ^ 64" and seed: "length seed = 32"
    and run: "s = record_all sha hmac envs s0"
  shows "jt_chain_valid (jv_statistics (jitter_export sha now s)) \<and>
    (evidence_verify sha (jitter_export sha now s) = Inr () \<longleftrightarrow> sorted_wrt (<) (map sa_timestamp (jn_samples s))) \<and>
    (jitter_verify_chain sha hmac (jn_samples s) seed params = Inr () \<longleftrightarrow>
       jn_samples s \<noteq> [] \<and> sorted_wrt (<) (map sa_timestamp (jn_samples s))) \<and>
    (vr_valid (verify_chain_detailed sha hmac (jn_samples s) seed params) \<longleftrightarrow>
       jn_samples s \<noteq> [] \<and> sorted_wrt (<) (map sa_timestamp (jn_samples s)))"
proof -
  note s0 = new_recording_inv [OF new, of sha hmac]
  have inv: "recording_inv sha hmac s" and same: "jn_seed s = seed" "jn_params s = params"
    using record_all_inv [of sha hmac s0 envs] s0 n by (simp_all add: run)
  have ne: "seed \<noteq> []" using seed by auto
  have samples: "verify_samples_from sha hmac 0 None seed params (jn_samples s) = Inr () \<longleftrightarrow>
      sorted_wrt (<) (map sa_timestamp (jn_samples s))"
    using inv_verify_samples [OF inv] same ne by simp
  have "jt_chain_valid (jv_statistics (jitter_export sha now s))"
    using recording_inv_linked(1) [OF inv] by (simp add: jitter_export_def jitter_compute_stats_def session_verify_chain_iff)
  then show ?thesis
    using inv_evidence_verify [OF inv, of now] samples ne
    by (simp add: jitter_verify_chain_def verify_chain_detailed_def detailed_from_valid)
qed

text \<open>Two keystrokes within one tick of the clock: the statistics claim a valid chain, the evidence is rejected.\<close>

theorem jitter_evidence_iff_witness:
  "jt_chain_valid (jv_statistics (jitter_export (\<lambda>_. replicate 32 7) 900 (toy_jitter_session [toy_doc_env 200, toy_doc_env 200]))) \<and>
   evidence_verify (\<lambda>_. replicate 32 7) (jitter_export (\<lambda>_. replicate 32 7) 900 (toy_jitter_session [toy_doc_env 200, toy_doc_env 200])) \<noteq> Inr ()"
  using jitter_evidence_iff [OF toy_recording_new _ _ toy_recording_run, of "[toy_doc_env 200, toy_doc_env 200]" 900]
    toy_recording_times [of "[200, 200]"] by simp

subsection \<open>Saving and loading\<close>

text \<open>What \<open>serde_json\<close> and \<open>hex\<close> promise: decoding gives back what was encoded.\<close>

definition jitter_codec_ok :: "jitter_codec \<Rightarrow> bool" where
  "jitter_codec_ok codec \<longleftrightarrow> (\<forall>d bs. jc_to_json codec d = Some bs \<longrightarrow> jc_from_json codec bs = Some d) \<and>
     (\<forall>b. jc_unhex codec (jc_hex codec b) = Some b)"

definition forget_cache :: "jitter_session \<Rightarrow> jitter_session" where
  "forget_cache s = s\<lparr>jn_last_mtime := None, jn_last_size := None, jn_last_doc_hash := None\<rparr>"

lemma ended_recording_inv [simp]: "recording_inv sha hmac (forget_cache (jitter_end t s)) = recording_inv sha hmac s"
  by (simp add: jitter_end_def forget_cache_def recording_inv_def)

text \<open>C35: A session that recorded keystrokes and was saved is loaded again, with the document cache
  forgotten and everything else as it was, exactly when its samples are in strict order of time,
  it did not end before it started, and none of its instants is more than five minutes ahead of
  the clock. A saved session whose clock stood still or stepped back between two samples can
  therefore never be loaded.\<close>

theorem jitter_session_reload:
  assumes new: "jitter_new_with_id session_id seed started canonical params = Inr s0"
    and n: "length envs < 2 ^ 64" and seed: "length seed = 32" and codec: "jitter_codec_ok codec"
    and run: "s = jitter_end ended (record_all sha hmac envs s0)" and saved: "jitter_save codec s = Inr bs"
  shows "if sorted_wrt (<) (map sa_timestamp (jn_samples s)) \<and> started \<le> ended \<and> ended \<le> now + 300000000000 \<and>
            started \<le> now + 300000000000 \<and> (\<forall>x \<in> set (jn_samples s). sa_timestamp x \<le> now + 300000000000)
    then jitter_load sha codec now bs = Inr (forget_cache s) else \<exists>e. jitter_load sha codec now bs = Inl e"
proof -
  note s0 = new_recording_inv [OF new, of sha hmac]
  have inv: "recording_inv sha hmac (forget_cache s)"
    and same: "jn_seed s = seed" "jn_started_at s = started" "jn_ended_at s = Some ended"
    using record_all_inv [of sha hmac s0 envs] s0 n
    by (simp_all add: run) (simp_all add: jitter_end_def)
  have "jitter_load sha codec now bs = res_bind (verify_loaded_integrity sha now (forget_cache s)) (\<lambda>_. Inr (forget_cache s))"
    using codec saved seed same(1)
    by (cases s) (auto simp: jitter_codec_ok_def jitter_save_def jitter_load_def forget_cache_def Let_def split: option.splits)
  moreover have "verify_loaded_integrity sha now (forget_cache s) = Inr () \<longleftrightarrow>
      sorted_wrt (<) (map sa_timestamp (jn_samples s)) \<and> started \<le> ended \<and> ended \<le> now + 300000000000 \<and>
      started \<le> now + 300000000000 \<and> (\<forall>x \<in> set (jn_samples s). sa_timestamp x \<le> now + 300000000000)"
    using inv_loaded_integrity [OF inv, of now] same by (simp add: forget_cache_def)
  ultimately show ?thesis by (cases "verify_loaded_integrity sha now (forget_cache s)") auto
qed

definition toy_jitter_codec :: "session_data \<Rightarrow> jitter_codec" where
  "toy_jitter_codec d = \<lparr>jc_to_json = (\<lambda>d'. if d' = d then Some [123, 125] else None),
     jc_from_json = (\<lambda>bs. if bs = [123, 125] then Some d else None),
     jc_hex = (\<lambda>b. 120 # b), jc_unhex = (\<lambda>bs. if bs = [] then None else Some (tl bs))\<rparr>"

definition session_data_of :: "jitter_session \<Rightarrow> session_data" where
  "session_data_of s = \<lparr>sd_id = jn_id s, sd_started_at = jn_started_at s, sd_ended_at = jn_ended_at s,
     sd_document_path = jn_document_path s, sd_seed = 120 # jn_seed s, sd_params = jn_params s, sd_samples = jn_samples s,
     sd_keystroke_count = jn_keystroke_count s, sd_last_jitter = jn_last_jitter s\<rparr>"

lemma toy_save: "jitter_save (toy_jitter_codec (session_data_of s)) s = Inr [123, 125]"
  by (simp add: jitter_save_def toy_jitter_codec_def session_data_of_def)

lemma toy_jitter_codec_ok: "jitter_codec_ok (toy_jitter_codec d)"
  by (auto simp: jitter_codec_ok_def toy_jitter_codec_def split: if_splits)

theorem jitter_session_reload_witness:
  "\<exists>codec bs s. jitter_save codec s = Inr bs \<and> map sa_timestamp (jn_samples s) = [200, 201] \<and>
     jitter_load (\<lambda>_. replicate 32 7) codec 400 bs = Inr (forget_cache s)"
proof -
  let ?envs = "[toy_doc_env 200, toy_doc_env 201]"
  let ?s = "jitter_end 300 (toy_jitter_session ?envs)"
  have ts: "map sa_timestamp (jn_samples ?s) = [200, 201]"
    using toy_recording_times [of "[200, 201]"] by (simp add: jitter_end_def)
  have run: "?s = jitter_end 300 (record_all (\<lambda>_. replicate 32 7) (\<lambda>_ _. replicate 32 9) ?envs (toy_jitter_session []))"
    by (rule arg_cong [OF toy_recording_run])
  from ts have "\<forall>x \<in> set (jn_samples ?s). sa_timestamp x \<le> 400 + 300000000000" by auto
  then have "jitter_load (\<lambda>_. replicate 32 7) (toy_jitter_codec (session_data_of ?s)) 400 [123, 125] = Inr (forget_cache ?s)"
    using jitter_session_reload [OF toy_recording_new _ _ toy_jitter_codec_ok run toy_save, of 400] ts by simp
  then show ?thesis
    by (intro exI [of _ "toy_jitter_codec (session_data_of ?s)"] exI [of _ "[123, 125]"] exI [of _ ?s] conjI toy_save ts)
qed

subsection \<open>The binary codec\<close>

text \<open>C36: For samples and parameters within the ranges of their types, timestamps from the epoch to
  the end of \<open>i64\<close>, and at most ten million samples, the encoded chain has 18 bytes of header and
  116 per sample and decodes to the samples and parameters that were encoded; an interval that
  does not fit 32 bits is refused, not truncated.\<close>

theorem jitter_codec_roundtrip:
  assumes "\<forall>s \<in> set ss. typed_sample s" "typed_parameters params" "length ss \<le> MAX_SAMPLE_COUNT"
  shows "if jp_sample_interval params < 2 ^ 32
    then \<exists>data. encode_chain_binary ss params = Inr data \<and> length data = 18 + 116 * length ss \<and>
           decode_chain_binary data = Inr (ss, params)
    else encode_chain_binary ss params = Inl (IntervalRange (jp_sample_interval params))"
proof (cases "jp_sample_interval params < 2 ^ 32")
  case True
  have small: "\<not> 2 ^ 64 \<le> length ss * 116" "\<not> 2 ^ 32 \<le> length ss" using assms(3) by (simp_all add: MAX_SAMPLE_COUNT_def)
  then obtain data where d: "encode_chain_binary ss params = Inr data"
    using True by (auto simp: encode_chain_binary_def)
  moreover have "length data = 18 + 116 * length ss"
    using d length_encode_samples [OF assms(1)] by (auto simp: encode_chain_binary_def split: if_splits)
  ultimately show ?thesis using True decode_encode_chain [OF assms d] by simp
qed (use assms(3) in \<open>simp add: encode_chain_binary_def MAX_SAMPLE_COUNT_def\<close>)

definition toy_sample :: sample where
  "toy_sample = \<lparr>sa_timestamp = 2 ^ 63 - 1, sa_keystroke_count = 10, sa_document_hash = replicate 32 1,
     sa_jitter_micros = 600, sa_hash = replicate 32 2, sa_previous_hash = replicate 32 0\<rparr>"

theorem jitter_codec_roundtrip_witness:
  "\<exists>data. encode_chain_binary [toy_sample] jitter_default_parameters = Inr data \<and>
     decode_chain_binary data = Inr ([toy_sample], jitter_default_parameters)"
  using jitter_codec_roundtrip [of "[toy_sample]" jitter_default_parameters]
  by (auto simp: typed_sample_def typed_parameters_def toy_sample_def jitter_default_parameters_def MAX_SAMPLE_COUNT_def)

text \<open>Comparing chains is equality, and the reported divergence is the length of the common prefix.\<close>

theorem chain_divergence:
  "compare_chains a b \<longleftrightarrow> a = b"
  "find_chain_divergence a b = (if a = b then - 1 else int (length (longest_common_prefix a b)))"
  by (simp_all add: compare_chains_eq find_chain_divergence_def divergence_from_prefix)

text \<open>Verifying new samples against an existing verified chain is verifying the whole chain.\<close>

theorem chain_extension:
  assumes "seed \<noteq> []" "as \<noteq> []" "jitter_verify_chain sha hmac as seed params = Inr ()"
  shows "verify_chain_continuity sha hmac as bs seed params = Inr () \<longleftrightarrow>
     jitter_verify_chain sha hmac (as @ bs) seed params = Inr ()"
  using assms by (simp add: jitter_verify_chain_def continuity_iff verify_samples_append)

subsection \<open>The engine\<close>

text \<open>C37: Whatever keys are pressed and whatever the clock does, the samples that a new engine emits
  (at most \<open>2^64 - 1\<close> keystrokes) pass \<open>verify_with_secret\<close> with its secret; the typing profile that
  \<open>extract_recorded_zones\<close> reads from them is the engine's own; and they pass \<open>verify_jitter_chain\<close>
  exactly when their timestamps strictly increase.\<close>

theorem jitter_engine_verifies:
  assumes "engine_run sha hmac ks (engine_new secret now) = (en, ss)" "length ks < 2 ^ 64" "ss \<noteq> []"
  shows "verify_with_secret sha hmac ss secret = Inr () \<and> extract_recorded_zones ss = en_profile en \<and>
    (verify_jitter_chain sha ss = Inr () \<longleftrightarrow> sorted_wrt (<) (map jz_timestamp ss))"
proof -
  have new: "zone_ok (engine_new secret now)" "en_ordinal (engine_new secret now) + length ks < 2 ^ 64"
    using assms(2) by (simp_all add: zone_ok_def engine_new_def)
  note run = engine_run_verifies [OF assms(1) new, of 0, unfolded engine_new_def, simplified]
  have "neighbours (later (\<lambda>s. int (jz_ordinal s))) None ss"
    using secret_chain [OF conjunct1 [OF run], of None] by simp
  then show ?thesis
    using run assms(3)
    by (simp add: verify_with_secret_def extract_recorded_zones_def verify_jitter_chain_def verify_jitter_iff linked_later)
qed

definition press :: "int \<Rightarrow> nat \<Rightarrow> key_event" where
  "press now code = \<lparr>ke_now = now, ke_skew = 0, ke_code = code, ke_doc_hash = replicate 32 1\<rparr>"

lemma toy_run_nonempty:
  assumes "0 \<le> keycode_to_zone (ke_code k)"
  shows "snd (engine_run sha hmac (k # ks) (engine_new secret now)) \<noteq> []"
proof -
  have "zone_ok (engine_new secret now)" "en_ordinal (engine_new secret now) < 2 ^ 64 - 1"
    by (simp_all add: zone_ok_def engine_new_def)
  then obtain en' s where "engine_step sha hmac k (engine_new secret now) = (en', Some s)"
    by (rule engine_step_some [OF assms, of _ sha hmac])
  then show ?thesis by (simp split: prod.splits)
qed

theorem jitter_engine_verifies_witness:
  "verify_with_secret (\<lambda>_. replicate 32 7) (\<lambda>_ _. replicate 32 9)
     (snd (engine_run (\<lambda>_. replicate 32 7) (\<lambda>_ _. replicate 32 9) [press 20 0, press 10 0x04, press 30 0x31]
       (engine_new (replicate 32 3) 5))) (replicate 32 3) = Inr ()"
proof -
  let ?ks = "[press 20 0, press 10 0x04, press 30 0x31]"
  obtain en ss where r: "engine_run (\<lambda>_. replicate 32 7) (\<lambda>_ _. replicate 32 9) ?ks (engine_new (replicate 32 3) 5) = (en, ss)"
    by (rule that [OF prod.collapse [symmetric]])
  have "0 \<le> keycode_to_zone (ke_code (press 20 0))" by (simp add: press_def keycode_to_zone_def)
  note toy_run_nonempty [OF this, of "\<lambda>_. replicate 32 7" "\<lambda>_ _. replicate 32 9" "[press 10 0x04, press 30 0x31]" "replicate 32 3" 5]
  then have "ss \<noteq> []" unfolding r by (simp only: snd_conv not_False_eq_True)
  with jitter_engine_verifies [OF r] show ?thesis unfolding r snd_conv by simp
qed

subsection \<open>Typing a text\<close>

text \<open>Typing a text key by key, where each key has the zone of its character (keys outside the
  zones for characters outside them), gives samples whose transition histogram is the one that
  \<open>expected_transition_histogram\<close> derives from the text, and a recorded profile with the number of
  transitions and of alternations that \<open>analyze_document_zones\<close> counts: a document typed without
  corrections shows no divergence of transitions.\<close>

theorem typed_text_matches:
  assumes typed: "list_all2 (\<lambda>k c. keycode_to_zone (ke_code k) = char_to_zone c) ks text" and n: "length ks < 2 ^ 64"
    and run: "engine_run sha hmac ks (engine_new secret now) = (en, ss)"
  shows "extract_transition_histogram ss = expected_transition_histogram text \<and>
    tf_total_transitions (extract_recorded_zones ss) = tf_total_transitions (analyze_document_zones text) \<and>
    tf_alternating_count (extract_recorded_zones ss) = tf_alternating_count (analyze_document_zones text)"
proof -
  have "zone_ok (engine_new secret now)" "en_ordinal (engine_new secret now) + length ks < 2 ^ 64"
    and prev: "en_prev_zone (engine_new secret now) = - 1"
    using n by (simp_all add: zone_ok_def engine_new_def)
  note t = typed_text_transitions [OF typed run this(1,2), unfolded prev]
  note pairs = zone_sequence_pairs [of "- 1" "text", simplified]
  show ?thesis
    using same_histogram [OF t pairs] same_totals [OF t pairs, of profile_default]
    by (simp add: extract_transition_histogram_def expected_transition_histogram_def extract_recorded_zones_def
      analyze_document_zones_def text_to_zone_sequence_def)
qed

theorem typed_text_matches_witness:
  "\<exists>sha hmac en ss. engine_run sha hmac [press 20 0x04, press 21 0x22, press 22 0x31] (engine_new (replicate 32 3) 5) = (en, ss) \<and>
     extract_transition_histogram ss = expected_transition_histogram [104, 105, 32]"
proof -
  let ?ks = "[press 20 0x04, press 21 0x22, press 22 0x31]"
  obtain en ss where r: "engine_run (\<lambda>_. replicate 32 7) (\<lambda>_ _. replicate 32 9) ?ks (engine_new (replicate 32 3) 5) = (en, ss)"
    by (rule that [OF prod.collapse [symmetric]])
  have "list_all2 (\<lambda>k c. keycode_to_zone (ke_code k) = char_to_zone c) ?ks [104, 105, 32]"
    by (simp add: press_def keycode_to_zone_def char_to_zone_def of_char_def)
  from typed_text_matches [OF this _ r] have "extract_transition_histogram ss = expected_transition_histogram [104, 105, 32]"
    by simp
  with r show ?thesis by blast
qed

end
