(* ===== verification/Sto_Events.thy ===== *)
theory Sto_Events
  imports Chk_Types Lamport
begin

text \<open>
  The event store (\<open>cpoe/src/store\<close>): the events and their hash and authentication tag
  (\<open>types.rs\<close>, \<open>crypto.rs\<close>), the tables of the database, adding and reading events
  (\<open>events.rs\<close>), opening and incremental verification (\<open>mod.rs\<close>, \<open>integrity.rs\<close>). A database is the
  contents of its tables; a transaction changes all of them or nothing, and whether a call into
  SQLite succeeds is an argument, so that every failure is covered. Columns have their declared
  types. SHA-256, HMAC and HKDF are parameters; a float is its bit pattern, a string its bytes.
\<close>

subsection \<open>Events\<close>

record event_data =
  ed_device_id :: bytes
  ed_timestamp_ns :: int
  ed_file_path :: bytes
  ed_content_hash :: bytes
  ed_file_size :: int
  ed_size_delta :: int
  ed_previous_hash :: bytes

text \<open>The bytes that \<open>update_event_common\<close> feeds to the hash and to the MAC; \<open>size_delta\<close> is an \<open>i32\<close>.\<close>

definition event_bytes :: "event_data \<Rightarrow> bytes" where
  "event_bytes d = ascii ''cpoe-event-v2'' @ ed_device_id d @ be 8 (i64_bits (ed_timestamp_ns d)) @
     be 8 (length (ed_file_path d)) @ ed_file_path d @ ed_content_hash d @ be 8 (i64_bits (ed_file_size d)) @
     be 4 (nat (ed_size_delta d mod 2 ^ 32)) @ ed_previous_hash d"

record store_lib =
  sl_sha :: "bytes \<Rightarrow> bytes"
  sl_hmac :: "bytes \<Rightarrow> bytes \<Rightarrow> bytes"
  sl_lamport_seed :: "bytes \<Rightarrow> bytes \<Rightarrow> bytes option"

definition compute_event_hash :: "store_lib \<Rightarrow> event_data \<Rightarrow> bytes" where
  "compute_event_hash lib d = sl_sha lib (event_bytes d)"

definition compute_event_hmac :: "store_lib \<Rightarrow> bytes \<Rightarrow> event_data \<Rightarrow> bytes" where
  "compute_event_hmac lib key d = sl_hmac lib key (event_bytes d)"

definition integrity_bytes :: "bytes \<Rightarrow> int \<Rightarrow> int \<Rightarrow> bytes" where
  "integrity_bytes chain_hash event_count last_verified_sequence = ascii ''cpoe-integrity-v1'' @ chain_hash @
     be 8 (i64_bits event_count) @ be 8 (i64_bits last_verified_sequence)"

definition compute_integrity_hmac :: "store_lib \<Rightarrow> bytes \<Rightarrow> bytes \<Rightarrow> int \<Rightarrow> int \<Rightarrow> bytes" where
  "compute_integrity_hmac lib key chain_hash event_count last_verified_sequence =
     sl_hmac lib key (integrity_bytes chain_hash event_count last_verified_sequence)"

record secure_event =
  se_id :: "int option"
  se_device_id :: bytes
  se_machine_id :: bytes
  se_timestamp_ns :: int
  se_file_path :: bytes
  se_content_hash :: bytes
  se_file_size :: int
  se_size_delta :: int
  se_previous_hash :: bytes
  se_event_hash :: bytes
  se_context_type :: "bytes option"
  se_context_note :: "bytes option"
  se_vdf_input :: "bytes option"
  se_vdf_output :: "bytes option"
  se_vdf_iterations :: int
  se_forensic_score :: nat
  se_is_paste :: bool
  se_hardware_counter :: "int option"
  se_input_method :: "bytes option"
  se_lamport_signature :: "bytes option"
  se_lamport_pubkey_fingerprint :: "bytes option"
  se_challenge_nonce :: "bytes option"
  se_hw_cosign_signature :: "bytes option"
  se_hw_cosign_pubkey :: "bytes option"
  se_hw_cosign_salt_commitment :: "bytes option"
  se_hw_cosign_chain_index :: "int option"
  se_hw_cosign_entangled_hash :: "bytes option"
  se_hw_cosign_entropy_digest :: "bytes option"
  se_hw_cosign_entropy_bytes :: "int option"
  se_posme_proof :: "bytes option"
  se_semantic_summary :: "bytes option"

definition event_new :: "int \<Rightarrow> bytes \<Rightarrow> bytes \<Rightarrow> int \<Rightarrow> bytes option \<Rightarrow> secure_event" where
  "event_new now file_path content_hash fsize context_note =
     \<lparr>se_id = None, se_device_id = replicate 16 0, se_machine_id = [], se_timestamp_ns = now, se_file_path = file_path,
      se_content_hash = content_hash, se_file_size = fsize, se_size_delta = 0, se_previous_hash = replicate 32 0,
      se_event_hash = replicate 32 0, se_context_type = None, se_context_note = context_note, se_vdf_input = None,
      se_vdf_output = None, se_vdf_iterations = 0, se_forensic_score = 0, se_is_paste = False, se_hardware_counter = None,
      se_input_method = None, se_lamport_signature = None, se_lamport_pubkey_fingerprint = None, se_challenge_nonce = None,
      se_hw_cosign_signature = None, se_hw_cosign_pubkey = None, se_hw_cosign_salt_commitment = None,
      se_hw_cosign_chain_index = None, se_hw_cosign_entangled_hash = None, se_hw_cosign_entropy_digest = None,
      se_hw_cosign_entropy_bytes = None, se_posme_proof = None, se_semantic_summary = None\<rparr>"

definition event_data_of :: "secure_event \<Rightarrow> event_data" where
  "event_data_of e = \<lparr>ed_device_id = se_device_id e, ed_timestamp_ns = se_timestamp_ns e, ed_file_path = se_file_path e,
     ed_content_hash = se_content_hash e, ed_file_size = se_file_size e, ed_size_delta = se_size_delta e,
     ed_previous_hash = se_previous_hash e\<rparr>"

datatype store_error =
    Sqlite | InvalidColumn nat | KeyLength nat | NewerSchema | DatabaseLocked | LamportFailed | CountOverflow
  | ChainHashLength | IntegrityMismatch | ResumeHashLength | InvalidDeviceId | InvalidContentHash | InvalidPreviousHash
  | FirstPreviousHash int | ChainBreak int | EventHashMismatch int | EventHmacMismatch int | EventCountMismatch
  | HasVerifiedEvents | RetentionDays | TimestampInFuture
  | ArchiveAge | ArchiveDiskSpace | ArchiveExists | ArchiveIo | ArchiveLinkLength | ArchiveContinuity

subsection \<open>Tables\<close>

text \<open>A row of \<open>secure_events\<close>: the columns of the same names in \<open>er_event\<close>, without \<open>se_id\<close>.\<close>

record event_row =
  er_id :: int
  er_event :: secure_event
  er_hmac :: bytes

record integrity_row =
  ig_chain_hash :: bytes
  ig_event_count :: int
  ig_last_verified :: int
  ig_last_verified_sequence :: int
  ig_hmac :: bytes

text \<open>The rows are in the order of their ids; \<open>db_sequence\<close> is the row of \<open>sqlite_sequence\<close>.\<close>

record event_db =
  db_events :: "event_row list"
  db_integrity :: "integrity_row option"
  db_sequence :: int
  db_user_version :: int

record secure_store =
  ss_db :: event_db
  ss_hmac_key :: bytes
  ss_last_hash :: bytes

text \<open>\<open>INSERT\<close> into a table with \<open>AUTOINCREMENT\<close>: the next id, an error when the ids are used up or the
  unique \<open>event_hash\<close> is there already.\<close>

definition insert_row :: "secure_event \<Rightarrow> bytes \<Rightarrow> event_db \<Rightarrow> event_db option" where
  "insert_row e hmac db =
     (if db_sequence db = 2 ^ 63 - 1 \<or> (\<exists>r \<in> set (db_events db). se_event_hash (er_event r) = se_event_hash e) then None
      else Some (db\<lparr>db_events := db_events db @ [\<lparr>er_id = db_sequence db + 1, er_event = e\<lparr>se_id := None\<rparr>, er_hmac = hmac\<rparr>],
                    db_sequence := db_sequence db + 1\<rparr>))"

subsection \<open>Adding events\<close>

definition sign_event_lamport :: "store_lib \<Rightarrow> bytes \<Rightarrow> secure_event \<Rightarrow> secure_event option" where
  "sign_event_lamport lib signing_key e = (case sl_lamport_seed lib signing_key (se_event_hash e) of
       None \<Rightarrow> None
     | Some seed \<Rightarrow>
         (case from_seed (sl_sha lib) seed of (privkey, pubkey) \<Rightarrow>
            Some (e\<lparr>se_lamport_signature := Some (sig_to_bytes (lamport_sign privkey (se_event_hash e))),
                    se_lamport_pubkey_fingerprint := Some (lamport_fingerprint (sl_sha lib) pubkey)\<rparr>)))"

definition clamp_i64 :: "int \<Rightarrow> int" where
  "clamp_i64 v = min v (2 ^ 63 - 1)"

text \<open>The values that the \<open>INSERT\<close> binds.\<close>

definition row_values :: "secure_event \<Rightarrow> secure_event" where
  "row_values e = e\<lparr>se_vdf_iterations := clamp_i64 (se_vdf_iterations e),
     se_hardware_counter := map_option clamp_i64 (se_hardware_counter e),
     se_hw_cosign_chain_index := map_option clamp_i64 (se_hw_cosign_chain_index e),
     se_hw_cosign_entropy_bytes := map_option clamp_i64 (se_hw_cosign_entropy_bytes e)\<rparr>"

text \<open>The transaction of \<open>add_secure_event\<close>; \<open>sql n\<close> says whether its \<open>n\<close>-th statement succeeds. \<open>None\<close> is a roll-back.\<close>

definition add_transaction ::
    "store_lib \<Rightarrow> (nat \<Rightarrow> bool) \<Rightarrow> int \<Rightarrow> bytes \<Rightarrow> secure_event \<Rightarrow> bytes \<Rightarrow> event_db \<Rightarrow> (store_error, event_db) result" where
  "add_transaction lib sql now key e hmac db =
     (if \<not> sql 0 \<or> \<not> sql 1 then Inl Sqlite
      else case insert_row (row_values e) hmac db of
        None \<Rightarrow> Inl Sqlite
      | Some db1 \<Rightarrow>
          (case db_integrity db1 of
             None \<Rightarrow> Inl Sqlite
           | Some ig \<Rightarrow>
               if \<not> sql 2 then Inl Sqlite
               else if ig_event_count ig = 2 ^ 63 - 1 then Inl CountOverflow
               else if \<not> sql 3 \<or> \<not> sql 4 then Inl Sqlite
               else Inr (db1\<lparr>db_integrity := Some (ig\<lparr>ig_chain_hash := se_event_hash e, ig_event_count := ig_event_count ig + 1,
                      ig_last_verified := now, ig_hmac := compute_integrity_hmac lib key (se_event_hash e)
                        (ig_event_count ig + 1) (ig_last_verified_sequence ig)\<rparr>)\<rparr>)))"

definition add_secure_event_with_signer ::
    "store_lib \<Rightarrow> (nat \<Rightarrow> bool) \<Rightarrow> int \<Rightarrow> bytes option \<Rightarrow> secure_event \<Rightarrow> secure_store \<Rightarrow>
     secure_store \<times> secure_event \<times> (store_error, unit) result" where
  "add_secure_event_with_signer lib sql now signing_key e s =
     (let e1 = e\<lparr>se_previous_hash := ss_last_hash s\<rparr>;
          event_data = event_data_of e1;
          e2 = e1\<lparr>se_event_hash := compute_event_hash lib event_data\<rparr>
      in case (case signing_key of None \<Rightarrow> Some e2 | Some sk \<Rightarrow> sign_event_lamport lib sk e2) of
           None \<Rightarrow> (s, e2, Inl LamportFailed)
         | Some e3 \<Rightarrow>
             let hmac = compute_event_hmac lib (ss_hmac_key s) event_data;
                 e4 = (if f64_finite (se_forensic_score e3) then e3 else e3\<lparr>se_forensic_score := 0\<rparr>)
             in case add_transaction lib sql now (ss_hmac_key s) e4 hmac (ss_db s) of
                  Inl err \<Rightarrow> (s, e4, Inl err)
                | Inr db \<Rightarrow> (s\<lparr>ss_db := db, ss_last_hash := se_event_hash e4\<rparr>, e4\<lparr>se_id := Some (db_sequence db)\<rparr>, Inr ()))"

definition add_secure_event ::
    "store_lib \<Rightarrow> (nat \<Rightarrow> bool) \<Rightarrow> int \<Rightarrow> secure_event \<Rightarrow> secure_store \<Rightarrow>
     secure_store \<times> secure_event \<times> (store_error, unit) result" where
  "add_secure_event lib sql now e s = add_secure_event_with_signer lib sql now None e s"

subsection \<open>Reading events\<close>

definition blob32 :: "bytes option \<Rightarrow> bool" where
  "blob32 x \<longleftrightarrow> (case x of None \<Rightarrow> True | Some b \<Rightarrow> length b = 32)"

definition u64_column :: "int option \<Rightarrow> bool" where
  "u64_column x \<longleftrightarrow> (case x of None \<Rightarrow> True | Some v \<Rightarrow> 0 \<le> v)"

definition row_to_event :: "event_row \<Rightarrow> (store_error, secure_event) result" where
  "row_to_event r =
     (let e = er_event r in
      if length (se_device_id e) \<noteq> 16 then Inl (InvalidColumn 1)
      else if length (se_content_hash e) \<noteq> 32 then Inl (InvalidColumn 5)
      else if length (se_previous_hash e) \<noteq> 32 then Inl (InvalidColumn 8)
      else if length (se_event_hash e) \<noteq> 32 then Inl (InvalidColumn 9)
      else if \<not> blob32 (se_vdf_input e) then Inl (InvalidColumn 13)
      else if \<not> blob32 (se_vdf_output e) then Inl (InvalidColumn 14)
      else if se_vdf_iterations e < 0 then Inl (InvalidColumn 15)
      else if \<not> u64_column (se_hardware_counter e) then Inl (InvalidColumn 18)
      else if \<not> u64_column (se_hw_cosign_chain_index e) then Inl (InvalidColumn 26)
      else if \<not> u64_column (se_hw_cosign_entropy_bytes e) then Inl (InvalidColumn 29)
      else Inr (e\<lparr>se_id := Some (er_id r)\<rparr>))"

definition verify_event_row_hmac :: "store_lib \<Rightarrow> bytes \<Rightarrow> secure_event \<Rightarrow> bytes \<Rightarrow> (store_error, unit) result" where
  "verify_event_row_hmac lib key e stored_hmac =
     (if stored_hmac \<noteq> compute_event_hmac lib key (event_data_of e)
      then Inl (EventHmacMismatch (case se_id e of Some i \<Rightarrow> i | None \<Rightarrow> - 1)) else Inr ())"

text \<open>The loop that the readers share.\<close>

fun read_rows :: "store_lib \<Rightarrow> bytes \<Rightarrow> event_row list \<Rightarrow> (store_error, secure_event list) result" where
  "read_rows lib key [] = Inr []"
| "read_rows lib key (r # rs) =
     res_bind (row_to_event r) (\<lambda>e.
     res_bind (verify_event_row_hmac lib key e (er_hmac r)) (\<lambda>_.
     res_bind (read_rows lib key rs) (\<lambda>es. Inr (e # es))))"

definition get_events_for_file_limited ::
    "store_lib \<Rightarrow> bool \<Rightarrow> bytes \<Rightarrow> nat option \<Rightarrow> secure_store \<Rightarrow> (store_error, secure_event list) result" where
  "get_events_for_file_limited lib ok path limit s =
     (if \<not> ok then Inl Sqlite
      else let rows = filter (\<lambda>r. se_file_path (er_event r) = path) (db_events (ss_db s)) in
        read_rows lib (ss_hmac_key s) (case limit of None \<Rightarrow> rows | Some n \<Rightarrow> take n rows))"

definition get_events_for_file ::
    "store_lib \<Rightarrow> bool \<Rightarrow> bytes \<Rightarrow> secure_store \<Rightarrow> (store_error, secure_event list) result" where
  "get_events_for_file lib ok path s = get_events_for_file_limited lib ok path None s"

definition in_range :: "bytes \<Rightarrow> int \<Rightarrow> int \<Rightarrow> secure_event \<Rightarrow> bool" where
  "in_range path start_ns end_ns e \<longleftrightarrow> se_file_path e = path \<and> start_ns \<le> se_timestamp_ns e \<and> se_timestamp_ns e \<le> end_ns"

definition get_events_for_file_in_range ::
    "store_lib \<Rightarrow> bool \<Rightarrow> bytes \<Rightarrow> int \<Rightarrow> int \<Rightarrow> secure_store \<Rightarrow> (store_error, secure_event list) result" where
  "get_events_for_file_in_range lib ok path start_ns end_ns s =
     (if \<not> ok then Inl Sqlite
      else read_rows lib (ss_hmac_key s) (filter (\<lambda>r. in_range path start_ns end_ns (er_event r)) (db_events (ss_db s))))"

text \<open>Rows of equal time come in the order of their ids, which \<open>ORDER BY timestamp_ns\<close> leaves open.\<close>

definition get_all_event_timestamps_verified ::
    "store_lib \<Rightarrow> bool \<Rightarrow> int \<Rightarrow> secure_store \<Rightarrow> (store_error, int list) result" where
  "get_all_event_timestamps_verified lib ok start_ts s =
     (if \<not> ok then Inl Sqlite
      else res_bind (read_rows lib (ss_hmac_key s) (sort_key (\<lambda>r. se_timestamp_ns (er_event r))
             (filter (\<lambda>r. start_ts \<le> se_timestamp_ns (er_event r)) (db_events (ss_db s)))))
           (\<lambda>es. Inr (map se_timestamp_ns es)))"

definition get_all_events_grouped ::
    "store_lib \<Rightarrow> bool \<Rightarrow> secure_store \<Rightarrow> (store_error, bytes \<rightharpoonup> secure_event list) result" where
  "get_all_events_grouped lib ok s =
     (if \<not> ok then Inl Sqlite
      else res_bind (read_rows lib (ss_hmac_key s) (db_events (ss_db s))) (\<lambda>es.
        Inr (foldl (\<lambda>m e. m(se_file_path e \<mapsto> (case m (se_file_path e) of None \<Rightarrow> [] | Some xs \<Rightarrow> xs) @ [e])) Map.empty es)))"

definition get_all_events_summary :: "bool \<Rightarrow> secure_store \<Rightarrow> (store_error, (int \<times> int) list) result" where
  "get_all_events_summary ok s =
     (if \<not> ok then Inl Sqlite
      else Inr (map (\<lambda>r. (se_timestamp_ns (er_event r), se_size_delta (er_event r)))
             (sort_key (\<lambda>r. se_timestamp_ns (er_event r)) (db_events (ss_db s)))))"

definition list_files :: "bool \<Rightarrow> secure_store \<Rightarrow> (store_error, (bytes \<times> int \<times> nat) list) result" where
  "list_files ok s =
     (if \<not> ok then Inl Sqlite
      else let es = map er_event (db_events (ss_db s));
               of_path = (\<lambda>p. filter (\<lambda>e. se_file_path e = p) es);
               groups = map (\<lambda>p. (p, Max (set (map se_timestamp_ns (of_path p))), length (of_path p))) (remdups (map se_file_path es))
           in Inr (sort_key (\<lambda>g. - fst (snd g)) groups))"

definition export_all_events_for_identity ::
    "store_lib \<Rightarrow> bool \<Rightarrow> bytes \<Rightarrow> secure_store \<Rightarrow> (store_error, secure_event list) result" where
  "export_all_events_for_identity lib ok device_id s =
     (if \<not> ok then Inl Sqlite
      else read_rows lib (ss_hmac_key s) (filter (\<lambda>r. se_device_id (er_event r) = device_id) (db_events (ss_db s))))"

subsection \<open>Updates of stored rows\<close>

definition update_rows :: "(event_row \<Rightarrow> bool) \<Rightarrow> (secure_event \<Rightarrow> secure_event) \<Rightarrow> event_db \<Rightarrow> event_db" where
  "update_rows P f db = db\<lparr>db_events := map (\<lambda>r. if P r then r\<lparr>er_event := f (er_event r)\<rparr> else r) (db_events db)\<rparr>"

definition update_file_path :: "(nat \<Rightarrow> bool) \<Rightarrow> bytes \<Rightarrow> bytes \<Rightarrow> (secure_store, store_error, nat) op" where
  "update_file_path sql old_path new_path s =
     (if \<not> sql 0 then (s, Inl Sqlite)
      else if (\<exists>ig. db_integrity (ss_db s) = Some ig \<and> 0 < ig_event_count ig) then (s, Inl HasVerifiedEvents)
      else if \<not> sql 1 \<or> \<not> sql 2 then (s, Inl Sqlite)
      else (s\<lparr>ss_db := update_rows (\<lambda>r. se_file_path (er_event r) = old_path) (\<lambda>e. e\<lparr>se_file_path := new_path\<rparr>) (ss_db s)\<rparr>,
            Inr (length (filter (\<lambda>r. se_file_path (er_event r) = old_path) (db_events (ss_db s))))))"

definition prune_event :: "secure_event \<Rightarrow> secure_event" where
  "prune_event e = e\<lparr>se_context_note := None, se_vdf_input := None, se_vdf_output := None\<rparr>"

definition days_ns :: "int \<Rightarrow> int" where
  "days_ns d = d * (24 * 60 * 60 * 1000000000)"

definition prune_payloads :: "bool \<Rightarrow> int \<Rightarrow> int \<Rightarrow> (secure_store, store_error, nat) op" where
  "prune_payloads ok now days_to_keep s =
     (if days_to_keep < 1 then (s, Inl RetentionDays)
      else
        let cutoff_ns = timestamp_nanos_safe (now - days_ns days_to_keep) in
        if \<not> ok then (s, Inl Sqlite)
        else (s\<lparr>ss_db := update_rows (\<lambda>r. se_timestamp_ns (er_event r) < cutoff_ns) prune_event (ss_db s)\<rparr>,
              Inr (length (filter (\<lambda>r. se_timestamp_ns (er_event r) < cutoff_ns) (db_events (ss_db s))))))"

definition enforce_retention :: "bool \<Rightarrow> int \<Rightarrow> nat \<Rightarrow> (secure_store, store_error, nat) op" where
  "enforce_retention ok now retention_days s =
     (if retention_days = 0 then (s, Inl RetentionDays) else prune_payloads ok now (int retention_days) s)"

record hw_cosign =
  hc_signature :: bytes
  hc_pubkey :: bytes
  hc_salt_commitment :: bytes
  hc_chain_index :: int
  hc_entangled_hash :: bytes
  hc_entropy_digest :: "bytes option"
  hc_entropy_bytes :: "int option"

definition cosign_event :: "hw_cosign \<Rightarrow> secure_event \<Rightarrow> secure_event" where
  "cosign_event c e = e\<lparr>se_hw_cosign_signature := Some (hc_signature c), se_hw_cosign_pubkey := Some (hc_pubkey c),
     se_hw_cosign_salt_commitment := Some (hc_salt_commitment c), se_hw_cosign_chain_index := Some (clamp_i64 (hc_chain_index c)),
     se_hw_cosign_entangled_hash := Some (hc_entangled_hash c), se_hw_cosign_entropy_digest := hc_entropy_digest c,
     se_hw_cosign_entropy_bytes := map_option clamp_i64 (hc_entropy_bytes c)\<rparr>"

definition update_hw_cosign :: "bool \<Rightarrow> bytes \<Rightarrow> hw_cosign \<Rightarrow> (secure_store, store_error, unit) op" where
  "update_hw_cosign ok file_path c s =
     (if \<not> ok then (s, Inl Sqlite)
      else let matching = filter (\<lambda>r. se_file_path (er_event r) = file_path) (db_events (ss_db s)) in
        (s\<lparr>ss_db := update_rows (\<lambda>r. matching \<noteq> [] \<and> er_id r = er_id (last matching)) (cosign_event c) (ss_db s)\<rparr>, Inr ()))"

subsection \<open>Opening and verification\<close>

definition SCHEMA_VERSION :: int where "SCHEMA_VERSION = 15"

text \<open>The loop of \<open>verify_integrity\<close> over the rows that are not verified yet; \<open>seq\<close> is
  \<open>last_verified_seq\<close>, \<open>count\<close>, \<open>tip\<close> and \<open>newseq\<close> are the variables of the loop.\<close>

fun verify_rows ::
    "store_lib \<Rightarrow> bytes \<Rightarrow> int \<Rightarrow> int \<Rightarrow> bytes \<Rightarrow> int \<Rightarrow> event_row list \<Rightarrow> (store_error, int \<times> bytes \<times> int) result" where
  "verify_rows lib key seq count tip newseq [] = Inr (count, tip, newseq)"
| "verify_rows lib key seq count tip newseq (r # rs) =
     (let e = er_event r; d = event_data_of e in
      if length (se_device_id e) \<noteq> 16 then Inl InvalidDeviceId
      else if length (se_content_hash e) \<noteq> 32 then Inl InvalidContentHash
      else if length (se_previous_hash e) \<noteq> 32 then Inl InvalidPreviousHash
      else if seq = 0 \<and> count = 0 \<and> se_previous_hash e \<noteq> replicate 32 0 then Inl (FirstPreviousHash (er_id r))
      else if \<not> (seq = 0 \<and> count = 0) \<and> se_previous_hash e \<noteq> tip then Inl (ChainBreak (er_id r))
      else if se_event_hash e \<noteq> compute_event_hash lib d then Inl (EventHashMismatch (er_id r))
      else if er_hmac r \<noteq> compute_event_hmac lib key d then Inl (EventHmacMismatch (er_id r))
      else if count = 2 ^ 63 - 1 then Inl CountOverflow
      else verify_rows lib key seq (count + 1) (compute_event_hash lib d) (er_id r) rs)"

definition resume_hash :: "(nat \<Rightarrow> bool) \<Rightarrow> int \<Rightarrow> event_db \<Rightarrow> (store_error, bytes) result" where
  "resume_hash sql seq db =
     (if 0 < seq then
        (if \<not> sql 1 then Inl Sqlite
         else case find (\<lambda>r. er_id r = seq) (db_events db) of
           None \<Rightarrow> Inl Sqlite
         | Some r \<Rightarrow> if length (se_event_hash (er_event r)) \<noteq> 32 then Inl ResumeHashLength else Inr (se_event_hash (er_event r)))
      else Inr (replicate 32 0))"

definition verify_integrity :: "store_lib \<Rightarrow> (nat \<Rightarrow> bool) \<Rightarrow> int \<Rightarrow> (secure_store, store_error, unit) op" where
  "verify_integrity lib sql now s =
     (let db = ss_db s; key = ss_hmac_key s in
      if \<not> sql 0 then (s, Inl Sqlite)
      else case db_integrity db of
        Some ig \<Rightarrow>
          let chain_hash = ig_chain_hash ig; event_count = ig_event_count ig; seq = ig_last_verified_sequence ig in
          if length chain_hash \<noteq> 32 then (s, Inl ChainHashLength)
          else if ig_hmac ig \<noteq> compute_integrity_hmac lib key chain_hash event_count seq then (s, Inl IntegrityMismatch)
          else (case resume_hash sql seq db of
              Inl err \<Rightarrow> (s, Inl err)
            | Inr resume \<Rightarrow>
                if \<not> sql 2 then (s, Inl Sqlite)
                else (case verify_rows lib key seq 0 resume seq (filter (\<lambda>r. seq < er_id r) (db_events db)) of
                    Inl err \<Rightarrow> (s, Inl err)
                  | Inr (count, tip, newseq) \<Rightarrow>
                      if 2 ^ 63 - 1 < seq + count then (s, Inl CountOverflow)
                      else if seq + count \<noteq> event_count then (s, Inl EventCountMismatch)
                      else if seq < newseq then
                        (if \<not> sql 3 then (s, Inl Sqlite)
                         else (s\<lparr>ss_db := db\<lparr>db_integrity := Some (ig\<lparr>ig_last_verified_sequence := newseq, ig_last_verified := now,
                                 ig_hmac := compute_integrity_hmac lib key chain_hash event_count newseq\<rparr>)\<rparr>,
                               ss_last_hash := tip\<rparr>, Inr ()))
                      else (s\<lparr>ss_last_hash := tip\<rparr>, Inr ())))
      | None \<Rightarrow>
          let s1 = s\<lparr>ss_last_hash := replicate 32 0\<rparr> in
          if \<not> sql 1 then (s1, Inl Sqlite)
          else (s1\<lparr>ss_db := db\<lparr>db_integrity := Some \<lparr>ig_chain_hash = replicate 32 0, ig_event_count = 0, ig_last_verified = now,
                  ig_last_verified_sequence = 0, ig_hmac = compute_integrity_hmac lib key (replicate 32 0) 0 0\<rparr>\<rparr>\<rparr>, Inr ()))"

text \<open>\<open>SecureStore::open\<close>: \<open>connect\<close> says whether the file is opened, its permissions are set and the pragmas pass,
  \<open>lock\<close> whether the advisory lock is free, \<open>schema\<close> whether the statements of \<open>init_schema\<close> pass. The
  database keeps what was written when the open fails later.\<close>

definition init_schema :: "bool \<Rightarrow> event_db \<Rightarrow> event_db \<times> (store_error, unit) result" where
  "init_schema schema db =
     (if SCHEMA_VERSION < db_user_version db then (db, Inl NewerSchema)
      else if \<not> schema then (db, Inl Sqlite)
      else (db\<lparr>db_user_version := SCHEMA_VERSION\<rparr>, Inr ()))"

definition store_open ::
    "store_lib \<Rightarrow> bool \<Rightarrow> bool \<Rightarrow> bool \<Rightarrow> (nat \<Rightarrow> bool) \<Rightarrow> int \<Rightarrow> bytes \<Rightarrow> event_db \<Rightarrow>
     event_db \<times> (store_error, secure_store) result" where
  "store_open lib connect lock schema sql now hmac_key db =
     (if length hmac_key \<noteq> 32 then (db, Inl (KeyLength (length hmac_key)))
      else if \<not> connect then (db, Inl Sqlite)
      else if \<not> lock then (db, Inl DatabaseLocked)
      else case init_schema schema db of
        (db1, Inl err) \<Rightarrow> (db1, Inl err)
      | (db1, Inr _) \<Rightarrow>
          (case verify_integrity lib sql now \<lparr>ss_db = db1, ss_hmac_key = hmac_key, ss_last_hash = replicate 32 0\<rparr> of
             (s, Inl err) \<Rightarrow> (ss_db s, Inl err)
           | (s, Inr _) \<Rightarrow> (ss_db s, Inr s)))"

end
