(* ===== verification/Sto_Archive.thy ===== *)
theory Sto_Archive
  imports Sto_Events
begin

text \<open>
  Archival of old events (\<open>store/archive.rs\<close>): events older than a cutoff move to a database file
  of their own. The directory of the database holds at most one finished and one temporary
  archive per day. Every outcome of a file-system or database call is a field of the environment.
  The metadata table and the size that is reported are left out. The store holds the lock of the
  database, so that the rows counted first are the rows copied and deleted, and the two checks of
  the counts never fail.
\<close>

record archive_db =
  ar_events :: "event_row list"
  ar_integrity :: "integrity_row option"

record archive_dir =
  ad_final :: "nat \<rightharpoonup> archive_db"
  ad_tmp :: "nat \<rightharpoonup> archive_db"

record archive_env =
  ae_now :: int
  ae_today :: nat
  ae_disk_space :: bool
  ae_count :: bool
  ae_placeholder :: bool
  ae_tmp_removed :: bool
  ae_link :: bool
  ae_first :: bool
  ae_schema :: bool
  ae_attach :: bool
  ae_transaction :: bool
  ae_cleanup :: bool
  ae_finalize :: bool
  ae_rename :: bool
  ae_vacuum :: bool
  ae_permissions :: bool
  ae_size :: bool

record archive_result =
  ares_date :: nat
  ares_events_archived :: nat
  ares_chain_link_hash :: bytes

definition DEFAULT_ARCHIVE_AGE_DAYS :: nat where "DEFAULT_ARCHIVE_AGE_DAYS = 90"
definition ARCHIVE_THRESHOLD_PAGES :: nat where "ARCHIVE_THRESHOLD_PAGES = 393216"

definition older :: "int \<Rightarrow> event_row \<Rightarrow> bool" where
  "older cutoff r \<longleftrightarrow> se_timestamp_ns (er_event r) < cutoff"

text \<open>The rows of an archive get the ids of its own table.\<close>

definition renumber :: "event_row list \<Rightarrow> event_row list" where
  "renumber rs = map (\<lambda>(i, r). r\<lparr>er_id := int i + 1\<rparr>) (zip [0..<length rs] rs)"

definition empty_archive :: archive_db where
  "empty_archive = \<lparr>ar_events = [], ar_integrity = None\<rparr>"

text \<open>The transaction over both databases. A leftover archive that could not be removed has its
  integrity row already, and the second \<open>INSERT\<close> violates the primary key.\<close>

definition max_id :: "event_row list \<Rightarrow> int" where
  "max_id rs = (if rs = [] then 0 else Max (set (map er_id rs)))"

definition archive_transaction ::
    "store_lib \<Rightarrow> bool \<Rightarrow> int \<Rightarrow> int \<Rightarrow> bytes \<Rightarrow> bytes \<Rightarrow> archive_db \<Rightarrow> event_db \<Rightarrow>
     (store_error, archive_db \<times> event_db) result" where
  "archive_transaction lib ok now cutoff key link ar db =
     (if \<not> ok \<or> ar_integrity ar \<noteq> None then Inl Sqlite
      else
        let moved = filter (older cutoff) (db_events db);
            rest = filter (\<lambda>r. \<not> older cutoff r) (db_events db);
            ar' = \<lparr>ar_events = renumber moved,
              ar_integrity = Some \<lparr>ig_chain_hash = link, ig_event_count = int (length moved), ig_last_verified = now,
                ig_last_verified_sequence = 0, ig_hmac = compute_integrity_hmac lib key link (int (length moved)) 0\<rparr>\<rparr>
        in case db_integrity db of
             None \<Rightarrow> Inl Sqlite
           | Some ig \<Rightarrow>
               if length (ig_chain_hash ig) \<noteq> 32 then Inl ChainHashLength
               else
                 let seq = max_id rest in
                 Inr (ar', db\<lparr>db_events := rest, db_integrity := Some (ig\<lparr>ig_event_count := seq, ig_last_verified_sequence := seq,
                    ig_last_verified := now, ig_hmac := compute_integrity_hmac lib key (ig_chain_hash ig) seq seq\<rparr>)\<rparr>))"

text \<open>After the transaction: the archive is made a read-only file of its final name.\<close>

definition archive_finish ::
    "archive_env \<Rightarrow> archive_result \<Rightarrow> archive_db \<Rightarrow> archive_dir \<Rightarrow> archive_dir \<times> (store_error, archive_result option) result" where
  "archive_finish env res ar dir =
     (let today = ae_today env in
      if \<not> ae_finalize env then (dir\<lparr>ad_tmp := (ad_tmp dir)(today \<mapsto> ar)\<rparr>, Inl Sqlite)
      else if \<not> ae_rename env then (dir\<lparr>ad_tmp := (ad_tmp dir)(today \<mapsto> ar)\<rparr>, Inl ArchiveIo)
      else
        let dir1 = dir\<lparr>ad_final := (ad_final dir)(today \<mapsto> ar), ad_tmp := (ad_tmp dir)(today := None)\<rparr> in
        if \<not> ae_vacuum env then (dir1, Inl Sqlite)
        else if \<not> ae_permissions env then (dir1, Inl ArchiveIo)
        else if \<not> ae_size env then (dir1, Inl Sqlite)
        else (dir1, Inr (Some res)))"

definition archive_old_events ::
    "store_lib \<Rightarrow> archive_env \<Rightarrow> nat option \<Rightarrow> archive_dir \<Rightarrow> secure_store \<Rightarrow>
     secure_store \<times> archive_dir \<times> (store_error, archive_result option) result" where
  "archive_old_events lib env age_days dir s =
     (let age = (case age_days of None \<Rightarrow> DEFAULT_ARCHIVE_AGE_DAYS | Some d \<Rightarrow> d);
          cutoff = timestamp_nanos_safe (ae_now env - days_ns (int age));
          rows = db_events (ss_db s); moved = filter (older cutoff) rows; rest = filter (\<lambda>r. \<not> older cutoff r) rows;
          today = ae_today env
      in if age = 0 then (s, dir, Inl ArchiveAge)
         else if \<not> ae_disk_space env then (s, dir, Inl ArchiveDiskSpace)
         else if \<not> ae_count env then (s, dir, Inl Sqlite)
         else if moved = [] then (s, dir, Inr None)
         else if ad_final dir today \<noteq> None then (s, dir, Inl ArchiveExists)
         else if \<not> ae_placeholder env then (s, dir, Inl ArchiveIo)
         else
           let dir1 = (if ae_tmp_removed env then dir\<lparr>ad_tmp := (ad_tmp dir)(today := None)\<rparr> else dir);
               link = se_event_hash (er_event (last moved))
           in if \<not> ae_link env then (s, dir1, Inl Sqlite)
              else if length link \<noteq> 32 then (s, dir1, Inl ArchiveLinkLength)
              else if \<not> ae_first env then (s, dir1, Inl Sqlite)
              else if rest \<noteq> [] \<and> se_previous_hash (er_event (hd rest)) \<noteq> link then (s, dir1, Inl ArchiveContinuity)
              else if \<not> ae_schema env then (s, dir1, Inl Sqlite)
              else
                let ar = (case ad_tmp dir1 today of None \<Rightarrow> empty_archive | Some a \<Rightarrow> a);
                    dir2 = dir1\<lparr>ad_tmp := (ad_tmp dir1)(today \<mapsto> ar)\<rparr>
                in if \<not> ae_attach env then (s, dir2, Inl Sqlite)
                   else (case archive_transaction lib (ae_transaction env) (ae_now env) cutoff (ss_hmac_key s) link ar (ss_db s) of
                       Inl err \<Rightarrow> (s, if ae_cleanup env then dir2\<lparr>ad_tmp := (ad_tmp dir2)(today := None)\<rparr> else dir2, Inl err)
                     | Inr (ar', db') \<Rightarrow>
                         (case archive_finish env \<lparr>ares_date = today, ares_events_archived = length moved, ares_chain_link_hash = link\<rparr>
                             ar' dir2 of (dir3, res) \<Rightarrow> (s\<lparr>ss_db := db'\<rparr>, dir3, res))))"

definition needs_archival :: "nat \<Rightarrow> bool" where
  "needs_archival page_count \<longleftrightarrow> ARCHIVE_THRESHOLD_PAGES \<le> page_count"

definition auto_archive_if_needed ::
    "store_lib \<Rightarrow> archive_env \<Rightarrow> nat option \<Rightarrow> archive_dir \<Rightarrow> secure_store \<Rightarrow>
     secure_store \<times> archive_dir \<times> (store_error, archive_result option) result" where
  "auto_archive_if_needed lib env page_count dir s =
     (case page_count of
        None \<Rightarrow> (s, dir, Inl Sqlite)
      | Some n \<Rightarrow> if \<not> needs_archival n then (s, dir, Inr None) else archive_old_events lib env None dir s)"

subsection \<open>Queries over archives\<close>

text \<open>\<open>readable d\<close> says whether the archive of day \<open>d\<close> can be opened and read; \<open>days\<close> are the archives that
  \<open>list_archives\<close> finds, in the order of their names.\<close>

definition query_archive ::
    "store_lib \<Rightarrow> bool \<Rightarrow> archive_db \<Rightarrow> bytes \<Rightarrow> bytes \<Rightarrow> int \<Rightarrow> int \<Rightarrow> (store_error, secure_event list) result" where
  "query_archive lib readable ar hmac_key file_path start_ns end_ns =
     (if \<not> readable then Inl Sqlite
      else read_rows lib hmac_key (filter (\<lambda>r. in_range file_path start_ns end_ns (er_event r)) (ar_events ar)))"

definition query_spanning ::
    "store_lib \<Rightarrow> (nat \<Rightarrow> bool) \<Rightarrow> bool \<Rightarrow> nat list \<Rightarrow> archive_dir \<Rightarrow> bytes \<Rightarrow> int \<Rightarrow> int \<Rightarrow> secure_store \<Rightarrow>
     (store_error, secure_event list) result" where
  "query_spanning lib readable ok days dir file_path start_ns end_ns s =
     (let archived = concat (map (\<lambda>d. case ad_final dir d of None \<Rightarrow> []
            | Some ar \<Rightarrow> (case query_archive lib (readable d) ar (ss_hmac_key s) file_path start_ns end_ns of
                 Inl _ \<Rightarrow> [] | Inr es \<Rightarrow> es)) days)
      in res_bind (get_events_for_file_in_range lib ok file_path start_ns end_ns s) (\<lambda>active.
           Inr (sort_key se_timestamp_ns (archived @ active))))"

definition verify_archive_chain_link ::
    "bool \<Rightarrow> archive_db \<Rightarrow> secure_store \<Rightarrow> (store_error, bool) result" where
  "verify_archive_chain_link ok ar s =
     (if \<not> ok then Inl Sqlite
      else case ar_integrity ar of
        None \<Rightarrow> Inl Sqlite
      | Some ig \<Rightarrow> (case db_events (ss_db s) of
            [] \<Rightarrow> Inr True
          | r # _ \<Rightarrow> Inr (se_previous_hash (er_event r) = ig_chain_hash ig)))"

end
