(* ===== verification/Sto_Correct.thy ===== *)
theory Sto_Correct
  imports Sto_Archive
begin

text \<open>
  Correctness of the event store. The rows of a store are described by the history of events that
  were added to it: they are the events after the archived ones, in order, with their tags, and the
  integrity record counts the history. Every operation keeps this, and verification accepts it.
\<close>

subsection \<open>Linked event data\<close>

fun event_links :: "store_lib \<Rightarrow> bytes \<Rightarrow> event_data list \<Rightarrow> bool" where
  "event_links lib p [] \<longleftrightarrow> True"
| "event_links lib p (d # ds) \<longleftrightarrow> ed_previous_hash d = p \<and> event_links lib (compute_event_hash lib d) ds"

definition tip_from :: "store_lib \<Rightarrow> bytes \<Rightarrow> event_data list \<Rightarrow> bytes" where
  "tip_from lib p ds = (if ds = [] then p else compute_event_hash lib (last ds))"

abbreviation chain_tip :: "store_lib \<Rightarrow> event_data list \<Rightarrow> bytes" where
  "chain_tip lib \<equiv> tip_from lib (replicate 32 0)"

lemma tip_from_simps [simp]:
  "tip_from lib p [] = p" "tip_from lib p (ds @ [d]) = compute_event_hash lib d"
  "tip_from lib p (d # ds) = tip_from lib (compute_event_hash lib d) ds"
  by (simp_all add: tip_from_def)

lemma event_links_append:
  "event_links lib p (as @ bs) \<longleftrightarrow> event_links lib p as \<and> event_links lib (tip_from lib p as) bs"
  by (induction as arbitrary: p) auto

lemma event_links_nth:
  "event_links lib p ds \<Longrightarrow> i < length ds \<Longrightarrow> ed_previous_hash (ds ! i) = tip_from lib p (take i ds)"
proof (induction ds arbitrary: p i)
  case (Cons d ds)
  then show ?case by (cases i) simp_all
qed simp

lemma tip_take: "0 < i \<Longrightarrow> i \<le> length ds \<Longrightarrow> tip_from lib p (take i ds) = compute_event_hash lib (ds ! (i - 1))"
  by (cases i) (auto simp: tip_from_def take_Suc_conv_app_nth)

text \<open>No collisions among the events of a history, and none hashes to the start value.\<close>

definition events_collision_free :: "store_lib \<Rightarrow> event_data set \<Rightarrow> bool" where
  "events_collision_free lib D \<longleftrightarrow> inj_on (compute_event_hash lib) D \<and> replicate 32 0 \<notin> compute_event_hash lib ` D"

lemma events_collision_free_mono: "events_collision_free lib D \<Longrightarrow> C \<subseteq> D \<Longrightarrow> events_collision_free lib C"
  by (auto simp: events_collision_free_def intro: inj_on_subset)

lemma tip_inj:
  assumes "event_links lib (replicate 32 0) ds" "events_collision_free lib (set ds)"
    "i \<le> length ds" "j \<le> length ds" "chain_tip lib (take i ds) = chain_tip lib (take j ds)"
  shows "i = j"
  using assms(3-5)
proof (induction i arbitrary: j)
  case 0
  show ?case
  proof (rule ccontr)
    assume "0 \<noteq> j"
    then have "ds ! (j - 1) \<in> set ds" "chain_tip lib (take j ds) = compute_event_hash lib (ds ! (j - 1))"
      using 0 by (simp_all add: tip_take)
    then show False using 0 assms(2) by (auto simp: events_collision_free_def)
  qed
next
  case (Suc i)
  show ?case
  proof (cases j)
    case 0
    have "ds ! i \<in> set ds" "chain_tip lib (take (Suc i) ds) = compute_event_hash lib (ds ! i)"
      using Suc.prems by (simp_all add: tip_take)
    then show ?thesis using Suc.prems 0 assms(2) by (auto simp: events_collision_free_def)
  next
    case (Suc j')
    have lt: "i < length ds" "j' < length ds" using Suc.prems Suc by simp_all
    have "compute_event_hash lib (ds ! i) = compute_event_hash lib (ds ! j')"
      using Suc.prems Suc by (simp add: tip_take)
    then have "ds ! i = ds ! j'" using assms(2) lt by (auto simp: events_collision_free_def inj_on_def)
    then have "chain_tip lib (take i ds) = chain_tip lib (take j' ds)"
      using event_links_nth [OF assms(1)] lt by metis
    then show ?thesis using Suc.IH [of j'] lt Suc by simp
  qed
qed

subsection \<open>Stored events\<close>

definition typed_event :: "secure_event \<Rightarrow> bool" where
  "typed_event e \<longleftrightarrow> length (se_device_id e) = 16 \<and> length (se_content_hash e) = 32 \<and> length (se_previous_hash e) = 32 \<and>
     length (se_event_hash e) = 32 \<and> blob32 (se_vdf_input e) \<and> blob32 (se_vdf_output e) \<and> 0 \<le> se_vdf_iterations e \<and>
     u64_column (se_hardware_counter e) \<and> u64_column (se_hw_cosign_chain_index e) \<and> u64_column (se_hw_cosign_entropy_bytes e)"

definition row_of :: "store_lib \<Rightarrow> bytes \<Rightarrow> secure_event \<Rightarrow> event_row" where
  "row_of lib key e = \<lparr>er_id = the (se_id e), er_event = e\<lparr>se_id := None\<rparr>, er_hmac = compute_event_hmac lib key (event_data_of e)\<rparr>"

lemma event_data_of_id [simp]: "event_data_of (e\<lparr>se_id := x\<rparr>) = event_data_of e"
  by (simp add: event_data_of_def)

lemma row_of_simps [simp]:
  "er_id (row_of lib key e) = the (se_id e)" "er_event (row_of lib key e) = e\<lparr>se_id := None\<rparr>"
  "er_hmac (row_of lib key e) = compute_event_hmac lib key (event_data_of e)"
  by (simp_all add: row_of_def)

lemma read_row_of: "typed_event e \<Longrightarrow> se_id e = Some i \<Longrightarrow> row_to_event (row_of lib key e) = Inr e"
  by (cases e) (simp add: row_to_event_def typed_event_def Let_def)

lemma read_rows_of:
  "\<forall>e \<in> set es. typed_event e \<and> se_id e \<noteq> None \<Longrightarrow> read_rows lib key (map (row_of lib key) es) = Inr es"
  by (induction es) (auto simp: read_row_of verify_event_row_hmac_def)

lemma filter_rows_of:
  "(\<And>e. P (row_of lib key e) \<longleftrightarrow> Q e) \<Longrightarrow> filter P (map (row_of lib key) es) = map (row_of lib key) (filter Q es)"
  by (simp add: filter_map comp_def)

text \<open>The events of a history: typed, numbered from one, hashed, and linked.\<close>

definition history :: "store_lib \<Rightarrow> secure_event list \<Rightarrow> bool" where
  "history lib hs \<longleftrightarrow> (\<forall>i < length hs. se_id (hs ! i) = Some (int i + 1) \<and> typed_event (hs ! i) \<and>
       se_event_hash (hs ! i) = compute_event_hash lib (event_data_of (hs ! i))) \<and>
     event_links lib (replicate 32 0) (map event_data_of hs)"

lemma history_typed: "history lib hs \<Longrightarrow> e \<in> set hs \<Longrightarrow> typed_event e \<and> se_id e \<noteq> None"
  by (auto simp: history_def in_set_conv_nth)

lemma history_snoc:
  "history lib hs \<Longrightarrow> typed_event e \<Longrightarrow> se_id e = Some (int (length hs) + 1) \<Longrightarrow>
   se_event_hash e = compute_event_hash lib (event_data_of e) \<Longrightarrow>
   se_previous_hash e = chain_tip lib (map event_data_of hs) \<Longrightarrow> history lib (hs @ [e])"
  by (auto simp: history_def nth_append event_links_append less_Suc_eq event_data_of_def)

text \<open>Changes of columns that neither the hash nor the tag covers.\<close>

definition keeps_data :: "(secure_event \<Rightarrow> secure_event) \<Rightarrow> bool" where
  "keeps_data f \<longleftrightarrow> (\<forall>e. event_data_of (f e) = event_data_of e \<and> se_id (f e) = se_id e \<and> se_event_hash (f e) = se_event_hash e \<and>
     (typed_event e \<longrightarrow> typed_event (f e)) \<and> f (e\<lparr>se_id := None\<rparr>) = (f e)\<lparr>se_id := None\<rparr>)"

lemma history_map:
  assumes "history lib hs" "keeps_data f"
  shows "history lib (map f hs)"
proof -
  have "event_data_of \<circ> f = event_data_of" using assms(2) by (auto simp: keeps_data_def)
  then show ?thesis using assms unfolding history_def by (simp add: keeps_data_def)
qed

subsection \<open>The invariant\<close>

definition integrity_ok :: "store_lib \<Rightarrow> bytes \<Rightarrow> secure_event list \<Rightarrow> nat \<Rightarrow> integrity_row \<Rightarrow> bool" where
  "integrity_ok lib key hs k ig \<longleftrightarrow> ig_chain_hash ig = chain_tip lib (map event_data_of hs) \<and> ig_event_count ig = int (length hs) \<and>
     ig_hmac ig = compute_integrity_hmac lib key (ig_chain_hash ig) (ig_event_count ig) (ig_last_verified_sequence ig) \<and>
     (\<exists>v \<le> length hs. ig_last_verified_sequence ig = int v \<and> (if v = 0 then k = 0 else k < v))"

definition db_inv :: "store_lib \<Rightarrow> bytes \<Rightarrow> secure_event list \<Rightarrow> nat \<Rightarrow> event_db \<Rightarrow> bool" where
  "db_inv lib key hs k db \<longleftrightarrow> history lib hs \<and> (if hs = [] then k = 0 else k < length hs) \<and> length hs < 2 ^ 63 \<and>
     db_events db = map (row_of lib key) (drop k hs) \<and> db_sequence db = int (length hs) \<and>
     (\<exists>ig. db_integrity db = Some ig \<and> integrity_ok lib key hs k ig)"

definition store_inv :: "store_lib \<Rightarrow> secure_event list \<Rightarrow> nat \<Rightarrow> secure_store \<Rightarrow> bool" where
  "store_inv lib hs k s \<longleftrightarrow> db_inv lib (ss_hmac_key s) hs k (ss_db s) \<and> ss_last_hash s = chain_tip lib (map event_data_of hs)"

lemma store_inv_integrity:
  assumes "store_inv lib hs k s"
  obtains ig where "db_integrity (ss_db s) = Some ig" "integrity_ok lib (ss_hmac_key s) hs k ig"
  using assms by (auto simp: store_inv_def db_inv_def)

subsection \<open>Adding\<close>

lemma typed_row_values: "typed_event e \<Longrightarrow> typed_event (row_values e)"
  by (auto simp: typed_event_def row_values_def clamp_i64_def u64_column_def split: option.splits)

lemma row_values_data [simp]:
  "event_data_of (row_values e) = event_data_of e" "se_event_hash (row_values e) = se_event_hash e"
  "se_previous_hash (row_values e) = se_previous_hash e" "se_id (row_values e) = se_id e"
  "row_values (e\<lparr>se_id := x\<rparr>) = (row_values e)\<lparr>se_id := x\<rparr>"
  by (simp_all add: row_values_def event_data_of_def)

text \<open>Signing and the replacement of a score that is not finite leave the hashed columns alone.\<close>

lemma signed_data:
  assumes "(case key of None \<Rightarrow> Some e | Some sk \<Rightarrow> sign_event_lamport lib sk e) = Some e'"
  shows "event_data_of e' = event_data_of e" "se_event_hash e' = se_event_hash e"
    "typed_event e' = typed_event e" "se_previous_hash e' = se_previous_hash e"
  using assms by (auto simp: sign_event_lamport_def event_data_of_def typed_event_def split: option.splits prod.splits)

text \<open>What a successful add does to the tables.\<close>

lemma add_effect:
  assumes add: "add_secure_event_with_signer lib sql now key e s = (s', e', Inr ())"
  obtains ig where "db_integrity (ss_db s) = Some ig" "db_sequence (ss_db s) \<noteq> 2 ^ 63 - 1"
    "ss_db s' = (ss_db s)\<lparr>db_events := db_events (ss_db s) @ [row_of lib (ss_hmac_key s) (row_values e')],
       db_sequence := db_sequence (ss_db s) + 1, db_integrity := Some (ig\<lparr>ig_chain_hash := se_event_hash e',
         ig_event_count := ig_event_count ig + 1, ig_last_verified := now,
         ig_hmac := compute_integrity_hmac lib (ss_hmac_key s) (se_event_hash e') (ig_event_count ig + 1) (ig_last_verified_sequence ig)\<rparr>)\<rparr>"
    "ss_last_hash s' = se_event_hash e'" "ss_hmac_key s' = ss_hmac_key s" "se_id e' = Some (db_sequence (ss_db s) + 1)"
    "se_previous_hash e' = ss_last_hash s" "se_event_hash e' = compute_event_hash lib (event_data_of e')"
    "typed_event e \<and> length (ss_last_hash s) = 32 \<and> length (se_event_hash e') = 32 \<longrightarrow> typed_event e'"
proof -
  define e1 where "e1 = e\<lparr>se_previous_hash := ss_last_hash s\<rparr>"
  define d where "d = event_data_of e1"
  define e2 where "e2 = e1\<lparr>se_event_hash := compute_event_hash lib d\<rparr>"
  obtain e3 where e3: "(case key of None \<Rightarrow> Some e2 | Some sk \<Rightarrow> sign_event_lamport lib sk e2) = Some e3"
    using add by (auto simp: add_secure_event_with_signer_def Let_def e2_def d_def e1_def split: option.splits)
  define e4 where "e4 = (if f64_finite (se_forensic_score e3) then e3 else e3\<lparr>se_forensic_score := 0\<rparr>)"
  obtain db where db: "add_transaction lib sql now (ss_hmac_key s) e4 (compute_event_hmac lib (ss_hmac_key s) d) (ss_db s) = Inr db"
    and s': "s' = s\<lparr>ss_db := db, ss_last_hash := se_event_hash e4\<rparr>" and e': "e' = e4\<lparr>se_id := Some (db_sequence db)\<rparr>"
    using add e3 unfolding add_secure_event_with_signer_def Let_def e1_def [symmetric] d_def [symmetric] e2_def [symmetric]
    by (auto simp: e4_def split: sum.splits)
  have e4d: "event_data_of e4 = d" "se_event_hash e4 = compute_event_hash lib d" "se_previous_hash e4 = ss_last_hash s"
    using signed_data [OF e3] by (auto simp: e4_def e2_def d_def e1_def event_data_of_def)
  have typed: "typed_event e4" if "typed_event e" "length (ss_last_hash s) = 32" "length (se_event_hash e4) = 32"
  proof -
    have "typed_event e2" using that e4d(2) by (simp add: e2_def e1_def typed_event_def)
    then have "typed_event e3" using signed_data [OF e3] by simp
    then show ?thesis by (simp add: e4_def typed_event_def)
  qed
  obtain ig where ig: "db_integrity (ss_db s) = Some ig"
    using db by (auto simp: add_transaction_def insert_row_def split: if_splits option.splits)
  show ?thesis
    by (rule that [OF ig])
      (use db ig e4d typed in \<open>auto simp: add_transaction_def insert_row_def row_of_def s' e' typed_event_def split: if_splits\<close>)
qed

lemma add_row:
  assumes "add_secure_event_with_signer lib sql now key e s = (s', e', Inr ())" "db_integrity (ss_db s) = Some ig"
  shows "\<exists>ig'. ss_db s' = (ss_db s)\<lparr>db_events := db_events (ss_db s) @ [row_of lib (ss_hmac_key s) (row_values e')],
      db_sequence := db_sequence (ss_db s) + 1, db_integrity := Some ig'\<rparr> \<and>
    ig_last_verified_sequence ig' = ig_last_verified_sequence ig \<and> se_id e' = Some (db_sequence (ss_db s) + 1) \<and>
    se_previous_hash e' = ss_last_hash s"
  by (rule add_effect [OF assms(1)]) (use assms(2) in auto)

lemma add_ok:
  assumes add: "add_secure_event_with_signer lib sql now key e s = (s', e', Inr ())" and inv: "store_inv lib hs k s"
    and typed: "typed_event e" and sha: "\<And>x. length (sl_sha lib x) = 32"
  shows "store_inv lib (hs @ [row_values e']) k s' \<and> ss_hmac_key s' = ss_hmac_key s"
proof -
  obtain ig where eff: "db_integrity (ss_db s) = Some ig" "db_sequence (ss_db s) \<noteq> 2 ^ 63 - 1"
    "ss_db s' = (ss_db s)\<lparr>db_events := db_events (ss_db s) @ [row_of lib (ss_hmac_key s) (row_values e')],
       db_sequence := db_sequence (ss_db s) + 1, db_integrity := Some (ig\<lparr>ig_chain_hash := se_event_hash e',
         ig_event_count := ig_event_count ig + 1, ig_last_verified := now,
         ig_hmac := compute_integrity_hmac lib (ss_hmac_key s) (se_event_hash e') (ig_event_count ig + 1) (ig_last_verified_sequence ig)\<rparr>)\<rparr>"
    "ss_last_hash s' = se_event_hash e'" "ss_hmac_key s' = ss_hmac_key s" "se_id e' = Some (db_sequence (ss_db s) + 1)"
    "se_previous_hash e' = ss_last_hash s" "se_event_hash e' = compute_event_hash lib (event_data_of e')"
    "typed_event e \<and> length (ss_last_hash s) = 32 \<and> length (se_event_hash e') = 32 \<longrightarrow> typed_event e'"
    by (rule add_effect [OF add])
  have st: "history lib hs" "if hs = [] then k = 0 else k < length hs" "length hs < 2 ^ 63"
      "db_events (ss_db s) = map (row_of lib (ss_hmac_key s)) (drop k hs)" "db_sequence (ss_db s) = int (length hs)"
      "integrity_ok lib (ss_hmac_key s) hs k ig" "ss_last_hash s = chain_tip lib (map event_data_of hs)"
    using inv eff(1) by (auto simp: store_inv_def db_inv_def)
  have t: "typed_event e'" using eff(8,9) typed sha st(7) by (simp add: tip_from_def compute_event_hash_def)
  have n: "Suc (length hs) < 2 ^ 63" using st(3,5) eff(2) by simp
  let ?e = "row_values e'"
  have h: "history lib (hs @ [?e])"
    by (rule history_snoc [OF st(1)]) (use eff(6-8) st(5,7) t typed_row_values in auto)
  have k: "k \<le> length hs" "k < Suc (length hs)" using st(2) by (auto split: if_splits)
  obtain v where v: "v \<le> length hs" "ig_last_verified_sequence ig = int v" "if v = 0 then k = 0 else k < v"
    using st(6) by (auto simp: integrity_ok_def)
  have "ig_event_count ig = int (length hs)" using st(6) by (simp add: integrity_ok_def)
  then have "integrity_ok lib (ss_hmac_key s) (hs @ [?e]) k (the (db_integrity (ss_db s')))"
    unfolding integrity_ok_def eff(3) using v eff(8) by (auto intro!: exI [of _ v])
  then have "db_inv lib (ss_hmac_key s) (hs @ [?e]) k (ss_db s')"
    unfolding db_inv_def using h n k st(4,5) by (simp add: eff(3))
  then show ?thesis using eff(4,5,8) by (simp add: store_inv_def)
qed

lemma add_failed: "add_secure_event_with_signer lib sql now key e s = (s', e', Inl err) \<Longrightarrow> s' = s"
  by (auto simp: add_secure_event_with_signer_def Let_def split: option.splits sum.splits)

subsection \<open>Updates of uncovered columns\<close>

definition update_active :: "nat \<Rightarrow> (secure_event \<Rightarrow> bool) \<Rightarrow> (secure_event \<Rightarrow> secure_event) \<Rightarrow> secure_event list \<Rightarrow> secure_event list" where
  "update_active k P f hs = take k hs @ map (\<lambda>e. if P e then f e else e) (drop k hs)"

lemma update_active_nth:
  "i < length hs \<Longrightarrow> update_active k P f hs ! i = (if k \<le> i \<and> P (hs ! i) then f (hs ! i) else hs ! i)"
  by (cases "i < k") (auto simp: update_active_def nth_append min_def)

lemma length_update_active [simp]: "length (update_active k P f hs) = length hs"
  by (simp add: update_active_def)

lemma update_active_data: "keeps_data f \<Longrightarrow> map event_data_of (update_active k P f hs) = map event_data_of hs"
  by (rule nth_equalityI) (simp_all add: update_active_nth keeps_data_def)

lemma history_update: "history lib hs \<Longrightarrow> keeps_data f \<Longrightarrow> history lib (update_active k P f hs)"
  unfolding history_def by (simp add: update_active_data) (simp add: update_active_nth keeps_data_def)

lemma update_rows_inv:
  assumes inv: "store_inv lib hs k s" and f: "keeps_data f"
    and P: "\<And>e. P (row_of lib (ss_hmac_key s) e) \<longleftrightarrow> Q e"
  shows "store_inv lib (update_active k Q f hs) k (s\<lparr>ss_db := update_rows P f (ss_db s)\<rparr>)"
proof -
  have row: "(if P (row_of lib key e) then (row_of lib key e)\<lparr>er_event := f (er_event (row_of lib key e))\<rparr> else row_of lib key e) =
      row_of lib key (if Q e then f e else e)" if "key = ss_hmac_key s" for e key
    using f by (simp add: that P) (simp add: row_of_def keeps_data_def)
  have len: "k \<le> length hs" using inv by (auto simp: store_inv_def db_inv_def split: if_splits)
  have "db_events (ss_db s) = map (row_of lib (ss_hmac_key s)) (drop k hs)" using inv by (simp add: store_inv_def db_inv_def)
  then have "db_events (update_rows P f (ss_db s)) = map (row_of lib (ss_hmac_key s)) (drop k (update_active k Q f hs))"
    using len by (simp add: update_rows_def update_active_def row comp_def)
  then show ?thesis
    using inv history_update [of lib hs f k Q] f len
    by (auto simp: store_inv_def db_inv_def integrity_ok_def update_active_data update_rows_def split: if_splits)
qed

lemma keeps_prune: "keeps_data prune_event"
  by (auto simp: keeps_data_def prune_event_def event_data_of_def typed_event_def blob32_def)

lemma keeps_cosign: "0 \<le> hc_chain_index c \<Longrightarrow> u64_column (hc_entropy_bytes c) \<Longrightarrow> keeps_data (cosign_event c)"
  by (auto simp: keeps_data_def cosign_event_def event_data_of_def typed_event_def u64_column_def clamp_i64_def split: option.splits)

subsection \<open>Verification\<close>

lemma verify_rows_history:
  assumes "\<forall>e \<in> set es. typed_event e \<and> se_event_hash e = compute_event_hash lib (event_data_of e)"
    "event_links lib p (map event_data_of es)" "0 \<le> count" "count + int (length es) < 2 ^ 63" "seq = 0 \<and> count = 0 \<Longrightarrow> p = replicate 32 0"
  shows "verify_rows lib key seq count p newseq (map (row_of lib key) es) =
     Inr (count + int (length es), tip_from lib p (map event_data_of es), if es = [] then newseq else the (se_id (last es)))"
  using assms
proof (induction es arbitrary: p count newseq)
  case (Cons e es)
  have prev: "se_previous_hash e = p" using Cons.prems(2) by (simp add: event_data_of_def)
  have "verify_rows lib key seq count p newseq (map (row_of lib key) (e # es)) =
      verify_rows lib key seq (count + 1) (compute_event_hash lib (event_data_of e)) (the (se_id e)) (map (row_of lib key) es)"
    using Cons.prems prev by (auto simp: typed_event_def Let_def)
  also have "\<dots> = Inr (count + 1 + int (length es), tip_from lib (compute_event_hash lib (event_data_of e)) (map event_data_of es),
      if es = [] then the (se_id e) else the (se_id (last es)))"
    using Cons.prems by (intro Cons.IH) auto
  finally show ?case by simp
qed simp

lemma find_row_of:
  assumes "history lib hs" "k < v" "v \<le> length hs"
  shows "find (\<lambda>r. er_id r = int v) (map (row_of lib key) (drop k hs)) = Some (row_of lib key (hs ! (v - 1)))"
proof -
  have id: "the (se_id (hs ! i)) = int i + 1" if "i < length hs" for i using assms(1) that by (simp add: history_def)
  have "find (\<lambda>r. er_id r = int v) (map (row_of lib key) (drop k hs)) = Some (map (row_of lib key) (drop k hs) ! (v - 1 - k))"
    using assms(2,3) id by (auto simp: find_Some_iff intro!: exI [of _ "v - 1 - k"])
  then show ?thesis using assms(2,3) by simp
qed

lemma filter_ids:
  assumes "history lib hs" "k \<le> v" "v \<le> length hs"
  shows "filter (\<lambda>r. int v < er_id r) (map (row_of lib key) (drop k hs)) = map (row_of lib key) (drop v hs)"
proof -
  have id: "the (se_id (hs ! i)) = int i + 1" if "i < length hs" for i using assms(1) that by (simp add: history_def)
  have "drop k hs = take (v - k) (drop k hs) @ drop v hs"
    using assms(2) append_take_drop_id [of "v - k" "drop k hs"] by simp
  moreover have "filter (\<lambda>r. int v < er_id r) (map (row_of lib key) (take (v - k) (drop k hs))) = []"
    using id assms(2,3) by (auto simp: filter_empty_conv in_set_conv_nth)
  moreover have "filter (\<lambda>r. int v < er_id r) (map (row_of lib key) (drop v hs)) = map (row_of lib key) (drop v hs)"
    using id assms(3) by (auto simp: filter_id_conv in_set_conv_nth)
  ultimately show ?thesis by (metis append_Nil filter_append map_append)
qed

text \<open>A database in order is accepted, and its tip becomes the last hash of the store.\<close>

lemma verify_integrity_inv:
  assumes inv: "db_inv lib (ss_hmac_key s) hs k (ss_db s)" and sql: "\<And>n. sql n" and sha: "\<And>x. length (sl_sha lib x) = 32"
  shows "\<exists>s'. verify_integrity lib sql now s = (s', Inr ()) \<and> store_inv lib hs k s' \<and> ss_hmac_key s' = ss_hmac_key s \<and>
    (\<exists>ig. db_integrity (ss_db s') = Some ig \<and> ig_last_verified_sequence ig = int (length hs))"
proof -
  let ?key = "ss_hmac_key s" and ?db = "ss_db s" and ?ds = "map event_data_of hs"
  obtain ig v where ig: "db_integrity ?db = Some ig" "integrity_ok lib ?key hs k ig"
    and v: "v \<le> length hs" "ig_last_verified_sequence ig = int v" "if v = 0 then k = 0 else k < v"
    using inv by (auto simp: db_inv_def integrity_ok_def)
  have hist: "history lib hs" "db_events ?db = map (row_of lib ?key) (drop k hs)" "length hs < 2 ^ 63"
    using inv by (simp_all add: db_inv_def)
  have good: "\<forall>e \<in> set hs. typed_event e \<and> se_event_hash e = compute_event_hash lib (event_data_of e)"
    using hist(1) by (auto simp: history_def in_set_conv_nth)
  have tip: "tip_from lib (replicate 32 0) ds = replicate 32 0 \<or> length (tip_from lib (replicate 32 0) ds) = 32" for ds
    using sha by (simp add: tip_from_def compute_event_hash_def)
  define p where "p = chain_tip lib (take v ?ds)"
  have resume: "resume_hash sql (int v) ?db = Inr p"
  proof (cases "v = 0")
    case False
    then have k: "k < v" using v(3) by simp
    have e: "hs ! (v - 1) \<in> set hs" using v(1) False by simp
    then show ?thesis
      using find_row_of [OF hist(1) k v(1), of ?key] good False v(1) sql sha
      by (simp add: resume_hash_def hist(2) p_def tip_take) (simp add: compute_event_hash_def)
  qed (simp add: resume_hash_def p_def)
  have links: "event_links lib p (map event_data_of (drop v hs))" "tip_from lib p (map event_data_of (drop v hs)) = chain_tip lib ?ds"
  proof -
    have "event_links lib (replicate 32 0) (take v ?ds @ drop v ?ds)" using hist(1) by (simp add: history_def)
    then show "event_links lib p (map event_data_of (drop v hs))" by (simp only: event_links_append p_def drop_map)
    have "tip_from lib q (as @ bs) = tip_from lib (tip_from lib q as) bs" for q as bs by (simp add: tip_from_def)
    from this [of "replicate 32 0" "take v ?ds" "drop v ?ds"]
    have "tip_from lib p (drop v ?ds) = chain_tip lib ?ds" by (simp only: p_def append_take_drop_id)
    then show "tip_from lib p (map event_data_of (drop v hs)) = chain_tip lib ?ds" by (simp only: drop_map)
  qed
  have rows: "filter (\<lambda>r. int v < er_id r) (db_events ?db) = map (row_of lib ?key) (drop v hs)"
    using filter_ids [OF hist(1), of k v ?key] v(1,3) by (simp add: hist(2) split: if_splits)
  have good': "\<forall>e \<in> set (drop v hs). typed_event e \<and> se_event_hash e = compute_event_hash lib (event_data_of e)"
    using good by (meson in_set_dropD)
  have ver: "verify_rows lib ?key (int v) 0 p (int v) (map (row_of lib ?key) (drop v hs)) =
      Inr (int (length hs - v), chain_tip lib ?ds, if v = length hs then int v else int (length hs))"
  proof -
    have "int v = 0 \<and> (0::int) = 0 \<Longrightarrow> p = replicate 32 0" by (simp add: p_def)
    from verify_rows_history [OF good' links(1) order_refl _ this] hist(3) v(1)
    have "verify_rows lib ?key (int v) 0 p (int v) (map (row_of lib ?key) (drop v hs)) =
      Inr (int (length hs - v), chain_tip lib ?ds, if drop v hs = [] then int v else the (se_id (last (drop v hs))))"
      by (simp add: links(2))
    moreover have "v < length hs \<Longrightarrow> the (se_id (last (drop v hs))) = int (length hs)"
      using hist(1) by (simp add: history_def last_conv_nth last_drop)
    ultimately show ?thesis using v(1) by auto
  qed
  have iok: "ig_chain_hash ig = chain_tip lib ?ds" "ig_event_count ig = int (length hs)"
    "ig_hmac ig = compute_integrity_hmac lib ?key (ig_chain_hash ig) (ig_event_count ig) (int v)"
    using ig(2) v(2) by (simp_all add: integrity_ok_def)
  have len: "length (ig_chain_hash ig) = 32" using tip iok(1) by (metis length_replicate)
  show ?thesis
  proof (cases "v = length hs")
    case True
    have "verify_integrity lib sql now s = (s\<lparr>ss_last_hash := chain_tip lib ?ds\<rparr>, Inr ())"
      unfolding verify_integrity_def Let_def using sql ig(1) v(2) len iok resume rows ver hist(3) True by simp
    then show ?thesis using inv ig(1) v(2) True by (simp add: store_inv_def)
  next
    case False
    define ig' where "ig' = ig\<lparr>ig_last_verified_sequence := int (length hs), ig_last_verified := now,
      ig_hmac := compute_integrity_hmac lib ?key (ig_chain_hash ig) (ig_event_count ig) (int (length hs))\<rparr>"
    have "verify_integrity lib sql now s =
        (s\<lparr>ss_db := ?db\<lparr>db_integrity := Some ig'\<rparr>, ss_last_hash := chain_tip lib ?ds\<rparr>, Inr ())"
      unfolding verify_integrity_def Let_def using sql ig(1) v(1,2) len iok resume rows ver hist(3) False
      by (simp add: ig'_def)
    moreover have "k < length hs" using inv False v(1) by (auto simp: db_inv_def split: if_splits)
    then have "integrity_ok lib ?key hs k ig'"
      using iok v(1) False by (auto simp: integrity_ok_def ig'_def intro!: exI [of _ "length hs"])
    ultimately show ?thesis using inv by (auto simp: store_inv_def db_inv_def ig'_def)
  qed
qed

end
