(* ===== verification/Sto_Run.thy ===== *)
theory Sto_Run
  imports Sto_Correct "HOL-Library.Multiset"
begin

text \<open>
  Runs of the event store: archival moves a prefix of the rows, and every sequence of operations,
  failures included, keeps the store in order with respect to the history of added events.
\<close>

subsection \<open>Archival moves a prefix\<close>

lemma split_at_boundary:
  assumes "i < length xs" "P (xs ! i)" "\<forall>j < length xs. i < j \<longrightarrow> \<not> P (xs ! j)" "\<forall>j \<le> i. P (xs ! j)"
  shows "filter P xs = take (Suc i) xs" "filter (\<lambda>x. \<not> P x) xs = drop (Suc i) xs"
proof -
  have a: "\<forall>x \<in> set (take (Suc i) xs). P x" using assms(1,4) by (auto simp: in_set_conv_nth less_Suc_eq_le)
  have b: "\<forall>x \<in> set (drop (Suc i) xs). \<not> P x" using assms(1,3) by (auto simp: in_set_conv_nth)
  have "filter Q xs = filter Q (take (Suc i) xs) @ filter Q (drop (Suc i) xs)" for Q
    by (metis append_take_drop_id filter_append)
  then show "filter P xs = take (Suc i) xs" "filter (\<lambda>x. \<not> P x) xs = drop (Suc i) xs"
    using a b by (simp_all add: filter_True filter_False)
qed

lemma first_of_filter:
  "filter P xs \<noteq> [] \<Longrightarrow> \<exists>j < length xs. P (xs ! j) \<and> (\<forall>i < j. \<not> P (xs ! i)) \<and> hd (filter P xs) = xs ! j"
proof (induction xs)
  case (Cons x xs)
  show ?case
  proof (cases "P x")
    case False
    then obtain j where "j < length xs" "P (xs ! j)" "\<forall>i < j. \<not> P (xs ! i)" "hd (filter P xs) = xs ! j"
      using Cons by auto
    then show ?thesis using False by (auto intro!: exI [of _ "Suc j"] simp: nth_Cons')
  qed auto
qed simp

lemma last_of_filter:
  "filter P xs \<noteq> [] \<Longrightarrow> \<exists>j < length xs. P (xs ! j) \<and> (\<forall>i < length xs. j < i \<longrightarrow> \<not> P (xs ! i)) \<and> last (filter P xs) = xs ! j"
proof (induction xs rule: rev_induct)
  case (snoc x xs)
  show ?case
  proof (cases "P x")
    case False
    then obtain j where "j < length xs" "P (xs ! j)" "\<forall>i < length xs. j < i \<longrightarrow> \<not> P (xs ! i)" "last (filter P xs) = xs ! j"
      using snoc by auto
    then show ?thesis using False by (auto intro!: exI [of _ j] simp: nth_append less_Suc_eq)
  qed (auto intro!: exI [of _ "length xs"])
qed simp

text \<open>The check of \<open>archive_old_events\<close> that the first remaining event follows the last archived one holds
  only when the old events come first.\<close>

lemma continuity_prefix:
  assumes hist: "history lib hs" and cf: "events_collision_free lib (event_data_of ` set hs)" and k: "k \<le> length hs"
    and moved: "filter P (drop k hs) \<noteq> []" and rest: "filter (\<lambda>e. \<not> P e) (drop k hs) \<noteq> []"
    and cont: "se_previous_hash (hd (filter (\<lambda>e. \<not> P e) (drop k hs))) = se_event_hash (last (filter P (drop k hs)))"
  shows "\<exists>m. k < m \<and> m < length hs \<and> filter P (drop k hs) = drop k (take m hs) \<and> filter (\<lambda>e. \<not> P e) (drop k hs) = drop m hs"
proof -
  let ?xs = "drop k hs" and ?ds = "map event_data_of hs"
  obtain j where j: "j < length ?xs" "\<not> P (?xs ! j)" "\<forall>i < j. P (?xs ! i)" "hd (filter (\<lambda>e. \<not> P e) ?xs) = ?xs ! j"
    using first_of_filter [OF rest] by auto
  obtain i where i: "i < length ?xs" "P (?xs ! i)" "\<forall>l < length ?xs. i < l \<longrightarrow> \<not> P (?xs ! l)" "last (filter P ?xs) = ?xs ! i"
    using last_of_filter [OF moved] by auto
  have links: "event_links lib (replicate 32 0) ?ds" using hist by (simp add: history_def)
  have "se_previous_hash (?xs ! j) = chain_tip lib (take (k + j) ?ds)"
    using event_links_nth [OF links, of "k + j"] j(1) k by (simp add: event_data_of_def)
  moreover have "se_event_hash (?xs ! i) = chain_tip lib (take (k + i + 1) ?ds)"
    using hist i(1) k by (simp add: history_def tip_take)
  ultimately have "chain_tip lib (take (k + j) ?ds) = chain_tip lib (take (k + i + 1) ?ds)"
    using cont i(4) j(4) by simp
  then have "k + j = k + i + 1" using tip_inj [OF links] cf i(1) j(1) by simp
  then have "j = Suc i" by simp
  then have "filter P ?xs = take (Suc i) ?xs" "filter (\<lambda>e. \<not> P e) ?xs = drop (Suc i) ?xs"
    using split_at_boundary [of i ?xs P] i(1-3) j(3) by (simp_all add: less_Suc_eq_le)
  moreover have "k + Suc i < length hs" using j(1) \<open>j = Suc i\<close> by simp
  ultimately show ?thesis by (intro exI [of _ "k + Suc i"]) (simp add: take_drop add.commute)
qed

definition archive_cutoff :: "archive_env \<Rightarrow> nat option \<Rightarrow> int" where
  "archive_cutoff env age_days =
     timestamp_nanos_safe (ae_now env - days_ns (int (case age_days of None \<Rightarrow> DEFAULT_ARCHIVE_AGE_DAYS | Some d \<Rightarrow> d)))"

definition archived_rows :: "store_lib \<Rightarrow> int \<Rightarrow> bytes \<Rightarrow> event_row list \<Rightarrow> archive_db" where
  "archived_rows lib now key moved =
     (let link = se_event_hash (er_event (last moved)) in
      \<lparr>ar_events = renumber moved, ar_integrity = Some \<lparr>ig_chain_hash = link, ig_event_count = int (length moved),
         ig_last_verified = now, ig_last_verified_sequence = 0, ig_hmac = compute_integrity_hmac lib key link (int (length moved)) 0\<rparr>\<rparr>)"

definition shortened :: "store_lib \<Rightarrow> int \<Rightarrow> bytes \<Rightarrow> event_row list \<Rightarrow> integrity_row \<Rightarrow> event_db \<Rightarrow> event_db" where
  "shortened lib now key rest ig db = db\<lparr>db_events := rest, db_integrity := Some (ig\<lparr>ig_event_count := max_id rest,
     ig_last_verified_sequence := max_id rest, ig_last_verified := now,
     ig_hmac := compute_integrity_hmac lib key (ig_chain_hash ig) (max_id rest) (max_id rest)\<rparr>)\<rparr>"

text \<open>An archival either leaves the rows and the finished archives alone or has committed its transaction.\<close>

lemma archive_cases:
  assumes "archive_old_events lib env age_days dir s = (s', dir', r)" "db_integrity (ss_db s) = Some ig"
  defines "moved \<equiv> filter (older (archive_cutoff env age_days)) (db_events (ss_db s))"
    and "rest \<equiv> filter (\<lambda>r. \<not> older (archive_cutoff env age_days) r) (db_events (ss_db s))"
  obtains "s' = s" "ad_final dir' = ad_final dir"
  | "moved \<noteq> []" "rest \<noteq> [] \<Longrightarrow> se_previous_hash (er_event (hd rest)) = se_event_hash (er_event (last moved))"
    "s' = s\<lparr>ss_db := shortened lib (ae_now env) (ss_hmac_key s) rest ig (ss_db s)\<rparr>" "ad_final dir (ae_today env) = None"
    "if ae_finalize env \<and> ae_rename env
     then ad_final dir' = (ad_final dir)(ae_today env \<mapsto> archived_rows lib (ae_now env) (ss_hmac_key s) moved)
     else ad_final dir' = ad_final dir \<and> ad_tmp dir' (ae_today env) = Some (archived_rows lib (ae_now env) (ss_hmac_key s) moved)"
proof -
  note defs = archive_old_events_def Let_def archive_cutoff_def [symmetric] moved_def [symmetric] rest_def [symmetric]
  define dir1 where "dir1 = (if ae_tmp_removed env then dir\<lparr>ad_tmp := (ad_tmp dir)(ae_today env := None)\<rparr> else dir)"
  define ar where "ar = (case ad_tmp dir1 (ae_today env) of None \<Rightarrow> empty_archive | Some a \<Rightarrow> a)"
  define dir2 where "dir2 = dir1\<lparr>ad_tmp := (ad_tmp dir1)(ae_today env \<mapsto> ar)\<rparr>"
  define link where "link = se_event_hash (er_event (last moved))"
  have final: "ad_final dir1 = ad_final dir" "ad_final dir2 = ad_final dir" by (simp_all add: dir1_def dir2_def)
  let ?tx = "archive_transaction lib (ae_transaction env) (ae_now env) (archive_cutoff env age_days) (ss_hmac_key s) link ar (ss_db s)"
  show ?thesis
  proof (cases "\<exists>ar' db'. ?tx = Inr (ar', db') \<and> moved \<noteq> [] \<and> (rest \<noteq> [] \<longrightarrow> se_previous_hash (er_event (hd rest)) = link) \<and>
      ad_final dir (ae_today env) = None \<and> s' = s\<lparr>ss_db := db'\<rparr> \<and>
      dir' = fst (archive_finish env \<lparr>ares_date = ae_today env, ares_events_archived = length moved, ares_chain_link_hash = link\<rparr> ar' dir2)")
    case True
    then obtain ar' db' where t: "?tx = Inr (ar', db')" "moved \<noteq> []" "rest \<noteq> [] \<longrightarrow> se_previous_hash (er_event (hd rest)) = link"
      "ad_final dir (ae_today env) = None" "s' = s\<lparr>ss_db := db'\<rparr>"
      "dir' = fst (archive_finish env \<lparr>ares_date = ae_today env, ares_events_archived = length moved, ares_chain_link_hash = link\<rparr> ar' dir2)"
      by blast
    have tx: "ar' = archived_rows lib (ae_now env) (ss_hmac_key s) moved" "db' = shortened lib (ae_now env) (ss_hmac_key s) rest ig (ss_db s)"
      using t(1) assms(2)
      by (auto simp: archive_transaction_def Let_def archived_rows_def shortened_def moved_def rest_def link_def split: if_splits)
    show ?thesis
    proof (rule that(2))
      show "if ae_finalize env \<and> ae_rename env
        then ad_final dir' = (ad_final dir)(ae_today env \<mapsto> archived_rows lib (ae_now env) (ss_hmac_key s) moved)
        else ad_final dir' = ad_final dir \<and> ad_tmp dir' (ae_today env) = Some (archived_rows lib (ae_now env) (ss_hmac_key s) moved)"
        using t(6) tx(1) final(2) by (auto simp: archive_finish_def Let_def)
    qed (use t tx in \<open>auto simp: link_def\<close>)
  next
    case False
    have "s' = s \<and> ad_final dir' = ad_final dir"
      using assms(1) False final
      unfolding defs dir1_def [symmetric] ar_def [symmetric] dir2_def [symmetric] link_def [symmetric]
      by (auto split: if_splits sum.splits prod.splits)
    then show ?thesis using that(1) by blast
  qed
qed

lemma max_id_rows:
  assumes "history lib hs" "m < length hs"
  shows "max_id (map (row_of lib key) (drop m hs)) = int (length hs)"
proof -
  have id: "the (se_id (hs ! i)) = int i + 1" if "i < length hs" for i using assms(1) that by (simp add: history_def)
  have "int (length hs) \<in> set (map er_id (map (row_of lib key) (drop m hs)))"
  proof -
    have "last (drop m hs) \<in> set (drop m hs)" using assms(2) by (intro last_in_set) simp
    moreover have "last (drop m hs) = hs ! (length hs - 1)"
      using assms(2) last_drop [of m hs] last_conv_nth [of hs] by force
    ultimately show ?thesis using id [of "length hs - 1"] assms(2) by (auto intro!: image_eqI)
  qed
  moreover have "y \<le> int (length hs)" if "y \<in> set (map er_id (map (row_of lib key) (drop m hs)))" for y
    using that id by (auto simp: in_set_conv_nth)
  ultimately have "Max (set (map er_id (map (row_of lib key) (drop m hs)))) = int (length hs)" by (intro Max_eqI) auto
  then show ?thesis using assms(2) by (simp add: max_id_def)
qed

lemma older_row: "older c (row_of lib key e) \<longleftrightarrow> se_timestamp_ns e < c"
  by (simp add: older_def)

lemma archive_inv:
  assumes arch: "archive_old_events lib env age_days dir s = (s', dir', r)" and inv: "store_inv lib hs k s"
    and cf: "events_collision_free lib (event_data_of ` set hs)"
    and kept: "db_events (ss_db s') = [] \<Longrightarrow> db_events (ss_db s) = []"
  shows "\<exists>m. store_inv lib hs m s' \<and> ss_hmac_key s' = ss_hmac_key s \<and> m = length hs - length (db_events (ss_db s')) \<and>
    (m = k \<and> ad_final dir' = ad_final dir \<or>
     k < m \<and> ad_final dir (ae_today env) = None \<and>
     (\<exists>ar. ar_events ar = renumber (map (row_of lib (ss_hmac_key s)) (drop k (take m hs))) \<and>
        (if ae_finalize env \<and> ae_rename env then ad_final dir' = (ad_final dir)(ae_today env \<mapsto> ar)
         else ad_final dir' = ad_final dir \<and> ad_tmp dir' (ae_today env) = Some ar)))"
proof -
  let ?key = "ss_hmac_key s" and ?P = "\<lambda>e. se_timestamp_ns e < archive_cutoff env age_days"
  obtain ig where ig: "db_integrity (ss_db s) = Some ig" "integrity_ok lib ?key hs k ig" using store_inv_integrity [OF inv] .
  have st: "history lib hs" "if hs = [] then k = 0 else k < length hs" "length hs < 2 ^ 63"
      "db_events (ss_db s) = map (row_of lib ?key) (drop k hs)" "db_sequence (ss_db s) = int (length hs)"
    using inv by (auto simp: store_inv_def db_inv_def)
  have k: "k \<le> length hs" using st(2) by (auto split: if_splits)
  have moved: "filter (older (archive_cutoff env age_days)) (db_events (ss_db s)) = map (row_of lib ?key) (filter ?P (drop k hs))"
    unfolding st(4) by (rule filter_rows_of) (simp add: older_row)
  have rest: "filter (\<lambda>r. \<not> older (archive_cutoff env age_days) r) (db_events (ss_db s)) =
      map (row_of lib ?key) (filter (\<lambda>e. \<not> ?P e) (drop k hs))"
    unfolding st(4) by (rule filter_rows_of) (simp add: older_row)
  from arch ig(1) show ?thesis
  proof (cases rule: archive_cases)
    case 1
    then show ?thesis using inv st(4) k by (intro exI [of _ k]) simp
  next
    case 2
    have "db_events (ss_db s) \<noteq> []" using 2(1) by auto
    then have "db_events (ss_db s') \<noteq> []" using kept by blast
    then have r: "filter (\<lambda>e. \<not> ?P e) (drop k hs) \<noteq> []" using 2(3) by (auto simp: rest shortened_def)
    have mv: "filter ?P (drop k hs) \<noteq> []" using 2(1) moved by auto
    have "se_previous_hash (hd (filter (\<lambda>e. \<not> ?P e) (drop k hs))) = se_event_hash (last (filter ?P (drop k hs)))"
      using 2(2) r mv by (simp add: moved rest hd_map last_map)
    then obtain m where m: "k < m" "m < length hs" "filter ?P (drop k hs) = drop k (take m hs)"
        "filter (\<lambda>e. \<not> ?P e) (drop k hs) = drop m hs"
      using continuity_prefix [OF st(1) cf k mv r] by blast
    have mx: "max_id (map (row_of lib ?key) (drop m hs)) = int (length hs)" by (rule max_id_rows [OF st(1) m(2)])
    have s': "s' = s\<lparr>ss_db := shortened lib (ae_now env) ?key (map (row_of lib ?key) (drop m hs)) ig (ss_db s)\<rparr>"
      using 2(3) by (simp add: rest m(4))
    have "integrity_ok lib ?key hs m (ig\<lparr>ig_event_count := int (length hs), ig_last_verified_sequence := int (length hs),
        ig_last_verified := ae_now env, ig_hmac := compute_integrity_hmac lib ?key (ig_chain_hash ig) (int (length hs)) (int (length hs))\<rparr>)"
      using ig(2) m(2) by (auto simp: integrity_ok_def intro!: exI [of _ "length hs"])
    then have "store_inv lib hs m s'"
      using inv st m(2) by (auto simp: s' store_inv_def db_inv_def shortened_def mx)
    moreover have "length (db_events (ss_db s')) = length hs - m" by (simp add: s' shortened_def)
    moreover have "ar_events (archived_rows lib (ae_now env) ?key (filter (older (archive_cutoff env age_days)) (db_events (ss_db s)))) =
        renumber (map (row_of lib ?key) (drop k (take m hs)))"
      by (simp add: archived_rows_def moved m(3) Let_def)
    ultimately show ?thesis
      using 2(4,5) m(1,2) s'
      by (intro exI [of _ m]) (auto intro!: exI [of _ "archived_rows lib (ae_now env) ?key
        (filter (older (archive_cutoff env age_days)) (db_events (ss_db s)))"])
  qed
qed

subsection \<open>Runs\<close>

definition empty_db :: event_db where
  "empty_db = \<lparr>db_events = [], db_integrity = None, db_sequence = 0, db_user_version = 0\<rparr>"

definition empty_dir :: archive_dir where
  "empty_dir = \<lparr>ad_final = Map.empty, ad_tmp = Map.empty\<rparr>"

text \<open>Two outcomes of an archival are hazards: it takes every event out of the table, or it changes the
  table and is cut off before the archive has its final name.\<close>

datatype hazard = Emptied | Interrupted

definition archive_hazards :: "archive_env \<Rightarrow> event_db \<Rightarrow> event_db \<Rightarrow> hazard set" where
  "archive_hazards env db db' =
     (if db_events db' = [] \<and> db_events db \<noteq> [] then {Emptied} else {}) \<union>
     (if db_events db' \<noteq> db_events db \<and> \<not> (ae_finalize env \<and> ae_rename env) then {Interrupted} else {})"

text \<open>\<open>store_run lib key hs k hz s dir\<close>: a store that was created with \<open>key\<close> and used through the operations of
  the code, with any failures, so that \<open>hs\<close> is the history of added events as they are stored, the
  first \<open>k\<close> of them have left the table, and \<open>hz\<close> are the hazards that occurred. \<open>enforce_retention\<close> is
  \<open>prune_payloads\<close> and \<open>auto_archive_if_needed\<close> is \<open>archive_old_events\<close>, under a guard each.\<close>

inductive store_run :: "store_lib \<Rightarrow> bytes \<Rightarrow> secure_event list \<Rightarrow> nat \<Rightarrow> hazard set \<Rightarrow> secure_store \<Rightarrow> archive_dir \<Rightarrow> bool"
  for lib key where
  created: "store_open lib connect lock schema sql now key empty_db = (db, Inr s) \<Longrightarrow> store_run lib key [] 0 {} s empty_dir"
| added: "store_run lib key hs k hz s dir \<Longrightarrow> typed_event e \<Longrightarrow>
    add_secure_event_with_signer lib sql now sk e s = (s', e', Inr ()) \<Longrightarrow> store_run lib key (hs @ [row_values e']) k hz s' dir"
| add_refused: "store_run lib key hs k hz s dir \<Longrightarrow>
    add_secure_event_with_signer lib sql now sk e s = (s', e', Inl err) \<Longrightarrow> store_run lib key hs k hz s' dir"
| pruned: "store_run lib key hs k hz s dir \<Longrightarrow> prune_payloads ok now days s = (s', Inr n) \<Longrightarrow>
    store_run lib key (update_active k (\<lambda>e. se_timestamp_ns e < timestamp_nanos_safe (now - days_ns days)) prune_event hs) k hz s' dir"
| prune_refused: "store_run lib key hs k hz s dir \<Longrightarrow> prune_payloads ok now days s = (s', Inl err) \<Longrightarrow> store_run lib key hs k hz s' dir"
| cosigned: "store_run lib key hs k hz s dir \<Longrightarrow> update_hw_cosign ok path c s = (s', Inr ()) \<Longrightarrow>
    0 \<le> hc_chain_index c \<Longrightarrow> u64_column (hc_entropy_bytes c) \<Longrightarrow>
    es = filter (\<lambda>e. se_file_path e = path) (drop k hs) \<Longrightarrow>
    store_run lib key (update_active k (\<lambda>e. es \<noteq> [] \<and> the (se_id e) = the (se_id (last es))) (cosign_event c) hs) k hz s' dir"
| cosign_refused: "store_run lib key hs k hz s dir \<Longrightarrow> update_hw_cosign ok path c s = (s', Inl err) \<Longrightarrow> store_run lib key hs k hz s' dir"
| renamed: "store_run lib key hs k hz s dir \<Longrightarrow> update_file_path sql old_path new_path s = (s', r) \<Longrightarrow> store_run lib key hs k hz s' dir"
| reverified: "store_run lib key hs k hz s dir \<Longrightarrow> verify_integrity lib sql now s = (s', r) \<Longrightarrow> store_run lib key hs k hz s' dir"
| reopened: "store_run lib key hs k hz s dir \<Longrightarrow> store_open lib connect lock schema sql now key (ss_db s) = (db, Inr s') \<Longrightarrow>
    store_run lib key hs k hz s' dir"
| reopen_failed: "store_run lib key hs k hz s dir \<Longrightarrow> store_open lib connect lock schema sql now key (ss_db s) = (db, Inl err) \<Longrightarrow>
    store_run lib key hs k hz (s\<lparr>ss_db := db\<rparr>) dir"
| archived: "store_run lib key hs k hz s dir \<Longrightarrow> archive_old_events lib env age_days dir s = (s', dir', r) \<Longrightarrow>
    store_run lib key hs (length hs - length (db_events (ss_db s'))) (hz \<union> archive_hazards env (ss_db s) (ss_db s')) s' dir'"

subsection \<open>The archives hold the archived events\<close>

definition strip :: "secure_event \<Rightarrow> secure_event" where
  "strip e = e\<lparr>se_id := None\<rparr>"

definition renumber_events :: "secure_event list \<Rightarrow> secure_event list" where
  "renumber_events es = map (\<lambda>(i, e). e\<lparr>se_id := Some (int i + 1)\<rparr>) (zip [0..<length es] es)"

lemma renumber_rows: "renumber (map (row_of lib key) es) = map (row_of lib key) (renumber_events es)"
  by (rule nth_equalityI) (simp_all add: renumber_def renumber_events_def row_of_def)

lemma renumber_events_props:
  assumes "\<forall>e \<in> set es. typed_event e"
  shows "\<forall>e \<in> set (renumber_events es). typed_event e \<and> se_id e \<noteq> None"
  using assms by (auto simp: renumber_events_def in_set_zip typed_event_def)

lemma strip_renumber: "map strip (renumber_events es) = map strip es"
  by (rule nth_equalityI) (simp_all add: renumber_events_def strip_def)

definition dir_inv :: "store_lib \<Rightarrow> bytes \<Rightarrow> secure_event list \<Rightarrow> nat \<Rightarrow> archive_dir \<Rightarrow> bool" where
  "dir_inv lib key hs k dir \<longleftrightarrow> finite (dom (ad_final dir)) \<and> (\<exists>seg.
     (\<forall>d ar. ad_final dir d = Some ar \<longrightarrow> ar_events ar = renumber (map (row_of lib key) (seg d)) \<and> set (seg d) \<subseteq> set (take k hs)) \<and>
     (\<Sum>d \<in> dom (ad_final dir). mset (seg d)) = mset (take k hs))"

lemma dir_inv_cong: "dir_inv lib key hs k dir \<Longrightarrow> take k hs' = take k hs \<Longrightarrow> ad_final dir' = ad_final dir \<Longrightarrow> dir_inv lib key hs' k dir'"
  by (simp add: dir_inv_def)

lemma dir_inv_archive:
  assumes inv: "dir_inv lib key hs k dir" and free: "ad_final dir d = None" and km: "k < m"
    and ar: "ar_events ar = renumber (map (row_of lib key) (drop k (take m hs)))"
    and dir': "ad_final dir' = (ad_final dir)(d \<mapsto> ar)"
  shows "dir_inv lib key hs m dir'"
proof -
  obtain seg where seg: "\<forall>d ar. ad_final dir d = Some ar \<longrightarrow> ar_events ar = renumber (map (row_of lib key) (seg d)) \<and> set (seg d) \<subseteq> set (take k hs)"
      "(\<Sum>d \<in> dom (ad_final dir). mset (seg d)) = mset (take k hs)" and fin: "finite (dom (ad_final dir))"
    using inv by (auto simp: dir_inv_def)
  define seg' where "seg' = seg(d := drop k (take m hs))"
  have nd: "d \<notin> dom (ad_final dir)" using free by auto
  have split: "take m hs = take k hs @ drop k (take m hs)"
    using km append_take_drop_id [of k "take m hs"] by (simp add: min_def)
  have "(\<Sum>x \<in> dom (ad_final dir'). mset (seg' x)) = mset (drop k (take m hs)) + (\<Sum>x \<in> dom (ad_final dir). mset (seg' x))"
    using fin nd by (simp add: dir' seg'_def)
  also have "(\<Sum>x \<in> dom (ad_final dir). mset (seg' x)) = mset (take k hs)"
  proof -
    have "(\<Sum>x \<in> dom (ad_final dir). mset (seg' x)) = (\<Sum>x \<in> dom (ad_final dir). mset (seg x))"
      using nd by (intro sum.cong) (auto simp: seg'_def)
    then show ?thesis by (simp add: seg(2))
  qed
  also have "mset (drop k (take m hs)) + mset (take k hs) = mset (take m hs)"
    using arg_cong [OF split, of mset] by simp
  finally have sum: "(\<Sum>x \<in> dom (ad_final dir'). mset (seg' x)) = mset (take m hs)" .
  have "ar_events ar' = renumber (map (row_of lib key) (seg' x)) \<and> set (seg' x) \<subseteq> set (take m hs)"
    if "ad_final dir' x = Some ar'" for x ar'
  proof (cases "x = d")
    case True
    then show ?thesis using that ar by (auto simp: dir' seg'_def dest: in_set_dropD)
  next
    case False
    then have "ad_final dir x = Some ar'" using that by (simp add: dir')
    then have "ar_events ar' = renumber (map (row_of lib key) (seg x)) \<and> set (seg x) \<subseteq> set (take k hs)" using seg(1) by blast
    moreover have "set (take k hs) \<subseteq> set (take m hs)" using split by (metis set_append sup_ge1)
    ultimately show ?thesis using False by (auto simp: seg'_def)
  qed
  then show ?thesis
    unfolding dir_inv_def using fin sum by (intro conjI exI [of _ seg'] allI impI) (auto simp: dir')
qed

subsection \<open>Every run keeps the store in order\<close>

lemma resume_hash_sql: "resume_hash sql seq db = Inr p \<Longrightarrow> resume_hash (\<lambda>_. True) seq db = Inr p"
  by (auto simp: resume_hash_def split: if_splits option.splits)

lemma verify_integrity_sql:
  assumes ok: "verify_integrity lib sql now s = (s', Inr ())"
  shows "verify_integrity lib (\<lambda>_. True) now s = (s', Inr ())"
proof (cases "db_integrity (ss_db s)")
  case None
  then show ?thesis using ok by (simp add: verify_integrity_def Let_def split: if_splits)
next
  case (Some ig)
  let ?v = "\<lambda>p. verify_rows lib (ss_hmac_key s) (ig_last_verified_sequence ig) 0 p (ig_last_verified_sequence ig)
    (filter (\<lambda>r. ig_last_verified_sequence ig < er_id r) (db_events (ss_db s)))"
  obtain p where p: "resume_hash sql (ig_last_verified_sequence ig) (ss_db s) = Inr p"
    using ok Some by (auto simp: verify_integrity_def Let_def split: if_splits sum.splits)
  note p' = resume_hash_sql [OF p]
  obtain c t n where v: "?v p = Inr (c, t, n)"
    using ok Some p by (cases "?v p") (auto simp: verify_integrity_def Let_def split: if_splits)
  show ?thesis using ok Some p p' v by (simp add: verify_integrity_def Let_def split: if_splits)
qed

lemma verify_integrity_error:
  "verify_integrity lib sql now s = (s', Inl err) \<Longrightarrow> ss_db s' = ss_db s"
  by (auto simp: verify_integrity_def Let_def split: option.splits if_splits sum.splits prod.splits)

lemma db_inv_version [simp]: "db_inv lib key hs k (db\<lparr>db_user_version := v\<rparr>) = db_inv lib key hs k db"
  by (simp add: db_inv_def)

text \<open>Opening a database in order succeeds when nothing outside the store fails.\<close>

lemma open_ok:
  assumes "db_inv lib key hs k db" "length key = 32" "db_user_version db \<le> SCHEMA_VERSION" "\<And>x. length (sl_sha lib x) = 32"
  shows "\<exists>s. store_open lib True True True (\<lambda>_. True) now key db = (ss_db s, Inr s) \<and> store_inv lib hs k s \<and> ss_hmac_key s = key \<and>
    (\<exists>ig. db_integrity (ss_db s) = Some ig \<and> ig_last_verified_sequence ig = int (length hs))"
proof -
  let ?s = "\<lparr>ss_db = db\<lparr>db_user_version := SCHEMA_VERSION\<rparr>, ss_hmac_key = key, ss_last_hash = replicate 32 0\<rparr>"
  have "db_inv lib (ss_hmac_key ?s) hs k (ss_db ?s)" using assms(1) by simp
  then obtain s where "verify_integrity lib (\<lambda>_. True) now ?s = (s, Inr ())" "store_inv lib hs k s" "ss_hmac_key s = key"
      "\<exists>ig. db_integrity (ss_db s) = Some ig \<and> ig_last_verified_sequence ig = int (length hs)"
    using verify_integrity_inv [of lib ?s hs k "\<lambda>_. True" now] assms(4) by auto
  then show ?thesis using assms(2,3) by (simp add: store_open_def init_schema_def)
qed

lemma open_inv:
  assumes open_: "store_open lib connect lock schema sql now key db = (db', Inr s)" and inv: "db_inv lib key hs k db"
    and sha: "\<And>x. length (sl_sha lib x) = 32"
  shows "store_inv lib hs k s \<and> ss_hmac_key s = key"
proof -
  let ?s = "\<lparr>ss_db = db\<lparr>db_user_version := SCHEMA_VERSION\<rparr>, ss_hmac_key = key, ss_last_hash = replicate 32 0\<rparr>"
  have "verify_integrity lib sql now ?s = (s, Inr ())"
    using open_ by (auto simp: store_open_def init_schema_def split: if_splits prod.splits sum.splits)
  moreover have "db_inv lib (ss_hmac_key ?s) hs k (ss_db ?s)" using inv by simp
  ultimately show ?thesis
    using verify_integrity_inv [of lib ?s hs k "\<lambda>_. True" now] verify_integrity_sql [of lib sql now ?s s] sha by auto
qed

lemma open_failed:
  assumes "store_open lib connect lock schema sql now key db = (db', Inl err)"
  shows "db' = db \<or> db' = db\<lparr>db_user_version := SCHEMA_VERSION\<rparr>"
  using assms
  by (auto simp: store_open_def init_schema_def split: if_splits prod.splits sum.splits dest: verify_integrity_error)

lemma created_inv:
  assumes "store_open lib connect lock schema sql now key empty_db = (db, Inr s)"
  shows "store_inv lib [] 0 s \<and> ss_hmac_key s = key"
  using assms
  by (auto simp: store_open_def init_schema_def empty_db_def verify_integrity_def Let_def store_inv_def db_inv_def history_def
      integrity_ok_def split: if_splits prod.splits sum.splits)

lemma store_inv_le: "store_inv lib hs k s \<Longrightarrow> k \<le> length hs"
  by (auto simp: store_inv_def db_inv_def split: if_splits)

lemma update_active_take: "k \<le> length hs \<Longrightarrow> take k (update_active k P f hs) = take k hs"
  by (simp add: update_active_def)

text \<open>The database side of a run: as long as no archival has emptied the table, the store is in order.\<close>

lemma verify_integrity_error_same:
  "verify_integrity lib sql now s = (s', Inl err) \<Longrightarrow> db_integrity (ss_db s) \<noteq> None \<Longrightarrow> s' = s"
  by (auto simp: verify_integrity_def Let_def split: option.splits if_splits sum.splits prod.splits)

lemma update_file_path_empty:
  "update_file_path sql old_path new_path s = (s', r) \<Longrightarrow> db_integrity (ss_db s) \<noteq> None \<Longrightarrow> (db_events (ss_db s) \<noteq> [] \<Longrightarrow>
     \<exists>ig. db_integrity (ss_db s) = Some ig \<and> 0 < ig_event_count ig) \<Longrightarrow> s' = s"
  by (cases "db_events (ss_db s)") (auto simp: update_file_path_def Let_def update_rows_def split: if_splits)

lemma prune_refused_same: "prune_payloads ok now days s = (s', Inl err) \<Longrightarrow> s' = s"
  by (auto simp: prune_payloads_def Let_def split: if_splits)

lemma cosign_refused_same: "update_hw_cosign ok path c s = (s', Inl err) \<Longrightarrow> s' = s"
  by (auto simp: update_hw_cosign_def Let_def split: if_splits)

lemma verify_any:
  assumes "verify_integrity lib sql now s = (s', r)" "store_inv lib hs k s" "\<And>x. length (sl_sha lib x) = 32"
  shows "store_inv lib hs k s' \<and> ss_hmac_key s' = ss_hmac_key s"
proof (cases r)
  case (Inl err)
  then have "s' = s" using assms(1,2) by (intro verify_integrity_error_same [of lib sql now s s' err]) (auto simp: store_inv_def db_inv_def)
  then show ?thesis using assms(2) by simp
next
  case (Inr u)
  then have "verify_integrity lib (\<lambda>_. True) now s = (s', Inr ())" using verify_integrity_sql assms(1) by simp
  then show ?thesis
    using verify_integrity_inv [of lib s hs k "\<lambda>_. True" now] assms(2,3) by (auto simp: store_inv_def)
qed

lemma update_active_image:
  assumes "keeps_data f"
  shows "event_data_of ` set (update_active k P f hs) = event_data_of ` set hs"
  using arg_cong [OF update_active_data [OF assms, of k P hs], of set] by simp

lemma archive_run:
  assumes arch: "archive_old_events lib env age_days dir s = (s', dir', r)" and inv: "store_inv lib hs k s"
    and cf: "events_collision_free lib (event_data_of ` set hs)"
    and kept: "db_events (ss_db s') = [] \<Longrightarrow> db_events (ss_db s) = []"
  defines "m \<equiv> length hs - length (db_events (ss_db s'))"
  shows "store_inv lib hs m s' \<and> ss_hmac_key s' = ss_hmac_key s \<and>
    (archive_hazards env (ss_db s) (ss_db s') = {} \<longrightarrow> dir_inv lib (ss_hmac_key s) hs k dir \<longrightarrow> dir_inv lib (ss_hmac_key s) hs m dir')"
proof -
  let ?key = "ss_hmac_key s"
  obtain ar where m: "store_inv lib hs m s'" "ss_hmac_key s' = ?key"
      "m = k \<and> ad_final dir' = ad_final dir \<or> k < m \<and> ad_final dir (ae_today env) = None \<and>
       ar_events ar = renumber (map (row_of lib ?key) (drop k (take m hs))) \<and>
       (ae_finalize env \<and> ae_rename env \<longrightarrow> ad_final dir' = (ad_final dir)(ae_today env \<mapsto> ar))"
    using archive_inv [OF arch inv cf kept] unfolding m_def by (auto split: if_splits)
  have "ae_finalize env \<and> ae_rename env" if "archive_hazards env (ss_db s) (ss_db s') = {}" "k < m"
  proof -
    have "length (db_events (ss_db s)) = length hs - k" using inv by (simp add: store_inv_def db_inv_def)
    moreover have "length (db_events (ss_db s')) = length hs - m" "m \<le> length hs"
      using m(1) store_inv_le [OF m(1)] by (simp_all add: store_inv_def db_inv_def)
    ultimately have "db_events (ss_db s') \<noteq> db_events (ss_db s)" using that(2) by auto
    then show ?thesis using that(1) by (auto simp: archive_hazards_def split: if_splits)
  qed
  then have "dir_inv lib ?key hs m dir'" if "archive_hazards env (ss_db s) (ss_db s') = {}" "dir_inv lib ?key hs k dir"
    using m(3) that dir_inv_cong [OF that(2), of hs dir'] dir_inv_archive [OF that(2), of "ae_today env" m ar dir'] by blast
  then show ?thesis using m(1,2) by blast
qed

theorem run_inv:
  assumes "store_run lib key hs k hz s dir" "events_collision_free lib (event_data_of ` set hs)" "\<And>x. length (sl_sha lib x) = 32"
    "Emptied \<notin> hz"
  shows "store_inv lib hs k s \<and> ss_hmac_key s = key \<and> (hz = {} \<longrightarrow> dir_inv lib key hs k dir)"
  using assms(1,2,4)
proof (induction)
  case (created connect lock schema sql now db s)
  then show ?case using created_inv by (simp add: dir_inv_def empty_dir_def)
next
  case (added hs k hz s dir e sql now sk s' e')
  have "events_collision_free lib (event_data_of ` set hs)" using added.prems(1) by (rule events_collision_free_mono) auto
  then have ih: "store_inv lib hs k s" "ss_hmac_key s = key" "hz = {} \<longrightarrow> dir_inv lib key hs k dir" using added.IH added.prems by simp_all
  have "store_inv lib (hs @ [row_values e']) k s' \<and> ss_hmac_key s' = ss_hmac_key s"
    using add_ok [OF added.hyps(3) ih(1) added.hyps(2)] assms(3) by blast
  moreover have "take k (hs @ [row_values e']) = take k hs" using store_inv_le [OF ih(1)] by simp
  ultimately show ?case using ih(2,3) by (auto intro: dir_inv_cong)
next
  case (add_refused hs k hz s dir sql now sk e s' e' err)
  then show ?case using add_failed [OF add_refused.hyps(2)] by simp
next
  case (pruned hs k hz s dir ok now days s' n)
  let ?P = "\<lambda>e. se_timestamp_ns e < timestamp_nanos_safe (now - days_ns days)"
  have ih: "store_inv lib hs k s" "ss_hmac_key s = key" "hz = {} \<longrightarrow> dir_inv lib key hs k dir"
    using pruned update_active_image [OF keeps_prune] by simp_all
  have s': "s' = s\<lparr>ss_db := update_rows (\<lambda>r. ?P (er_event r)) prune_event (ss_db s)\<rparr>"
    using pruned.hyps(2) by (auto simp: prune_payloads_def Let_def split: if_splits)
  have "store_inv lib (update_active k ?P prune_event hs) k s'"
    unfolding s' by (rule update_rows_inv [OF ih(1) keeps_prune]) simp
  then show ?case using ih(2,3) store_inv_le [OF ih(1)] by (auto simp: s' update_active_take intro: dir_inv_cong)
next
  case (prune_refused hs k hz s dir ok now days s' err)
  then show ?case using prune_refused_same by metis
next
  case (cosigned hs k hz s dir ok path c s' es)
  let ?P = "\<lambda>e. es \<noteq> [] \<and> the (se_id e) = the (se_id (last es))"
  have keeps: "keeps_data (cosign_event c)" using keeps_cosign cosigned.hyps(3,4) by blast
  have ih: "store_inv lib hs k s" "ss_hmac_key s = key" "hz = {} \<longrightarrow> dir_inv lib key hs k dir"
    using cosigned update_active_image [OF keeps] by simp_all
  have "db_events (ss_db s) = map (row_of lib key) (drop k hs)" using ih(1,2) by (simp add: store_inv_def db_inv_def)
  then have match: "filter (\<lambda>r. se_file_path (er_event r) = path) (db_events (ss_db s)) = map (row_of lib key) es"
    unfolding cosigned.hyps(5) by (simp add: filter_rows_of)
  have s': "s' = s\<lparr>ss_db := update_rows (\<lambda>r. es \<noteq> [] \<and> er_id r = er_id (last (map (row_of lib key) es))) (cosign_event c) (ss_db s)\<rparr>"
    using cosigned.hyps(2) by (auto simp: update_hw_cosign_def Let_def match split: if_splits)
  have "store_inv lib (update_active k ?P (cosign_event c) hs) k s'"
    unfolding s' by (rule update_rows_inv [OF ih(1) keeps]) (auto simp: last_map)
  then show ?case using ih(2,3) store_inv_le [OF ih(1)] by (auto simp: s' update_active_take intro: dir_inv_cong)
next
  case (cosign_refused hs k hz s dir ok path c s' err)
  then show ?case using cosign_refused_same by metis
next
  case (renamed hs k hz s dir sql old_path new_path s' r)
  then have ih: "store_inv lib hs k s" by simp
  then have "s' = s"
    by (intro update_file_path_empty [OF renamed.hyps(2)]) (auto simp: store_inv_def db_inv_def integrity_ok_def)
  then show ?case using renamed by simp
next
  case (reverified hs k hz s dir sql now s' r)
  then have ih: "store_inv lib hs k s" "ss_hmac_key s = key" "hz = {} \<longrightarrow> dir_inv lib key hs k dir" by simp_all
  have "store_inv lib hs k s' \<and> ss_hmac_key s' = key" by (rule verify_any [OF reverified.hyps(2) ih(1) assms(3), unfolded ih(2)])
  then show ?case using ih(3) by blast
next
  case (reopened hs k hz s dir connect lock schema sql now db s')
  then have ih: "store_inv lib hs k s" "ss_hmac_key s = key" "hz = {} \<longrightarrow> dir_inv lib key hs k dir" by simp_all
  then have "db_inv lib key hs k (ss_db s)" by (simp add: store_inv_def)
  then show ?case using open_inv [OF reopened.hyps(2)] assms(3) ih(3) by blast
next
  case (reopen_failed hs k hz s dir connect lock schema sql now db err)
  then have ih: "store_inv lib hs k s" "ss_hmac_key s = key" "hz = {} \<longrightarrow> dir_inv lib key hs k dir" by simp_all
  then show ?case using open_failed [OF reopen_failed.hyps(2)] by (auto simp: store_inv_def)
next
  case (archived hs k hz s dir env age_days s' dir' r)
  then have ih: "store_inv lib hs k s" "ss_hmac_key s = key" "hz = {} \<longrightarrow> dir_inv lib key hs k dir" by simp_all
  have kept: "db_events (ss_db s') = [] \<Longrightarrow> db_events (ss_db s) = []"
    using archived.prems(2) by (auto simp: archive_hazards_def split: if_splits)
  show ?case
    using archive_run [OF archived.hyps(2) ih(1) archived.prems(1) kept] ih(2,3) by auto
qed

end
