(* ===== verification/Sto_Sound.thy ===== *)
theory Sto_Sound
  imports Sto_Run
begin

text \<open>
  What an accepted database says: its unverified rows are linked and tagged, and if tags cannot be
  forged they are a segment of the history. What opening makes of the version, and which rows an
  archival can leave in which file.
\<close>

subsection \<open>Accepted rows\<close>

lemma verify_rows_sound:
  assumes "verify_rows lib key seq c0 p newseq rs = Inr (c, t, n)" "seq = 0 \<and> c0 = 0 \<Longrightarrow> p = replicate 32 0"
    "0 \<le> c0"
  shows "c = c0 + int (length rs) \<and> event_links lib p (map (\<lambda>r. event_data_of (er_event r)) rs) \<and>
     t = tip_from lib p (map (\<lambda>r. event_data_of (er_event r)) rs) \<and>
     (\<forall>r \<in> set rs. er_hmac r = compute_event_hmac lib key (event_data_of (er_event r)) \<and>
        se_event_hash (er_event r) = compute_event_hash lib (event_data_of (er_event r)))"
  using assms
proof (induction rs arbitrary: p c0 newseq)
  case (Cons r rs)
  let ?d = "event_data_of (er_event r)"
  have ok: "er_hmac r = compute_event_hmac lib key ?d" "se_event_hash (er_event r) = compute_event_hash lib ?d"
    "verify_rows lib key seq (c0 + 1) (compute_event_hash lib ?d) (er_id r) rs = Inr (c, t, n)"
    "se_previous_hash (er_event r) = (if seq = 0 \<and> c0 = 0 then replicate 32 0 else p)"
    using Cons.prems(1) by (auto simp: Let_def split: if_splits)
  have prev: "ed_previous_hash ?d = p" using ok(4) Cons.prems(2) by (auto simp: event_data_of_def)
  have "seq = 0 \<and> c0 + 1 = 0 \<Longrightarrow> compute_event_hash lib ?d = replicate 32 0" using Cons.prems(3) by simp
  from Cons.IH [OF ok(3) this] Cons.prems(3) show ?case using ok(1,2) prev by simp
qed simp

lemma issued_segment:
  assumes links: "event_links lib (replicate 32 0) ds" and cf: "events_collision_free lib (set ds)"
  shows "event_links lib (chain_tip lib (take v ds)) xs \<Longrightarrow> set xs \<subseteq> set ds \<Longrightarrow> v \<le> length ds \<Longrightarrow>
    v + length xs \<le> length ds \<and> xs = take (length xs) (drop v ds)"
proof (induction xs arbitrary: v)
  case (Cons x xs)
  obtain i where i: "i < length ds" "x = ds ! i" using Cons.prems(2) by (auto simp: in_set_conv_nth)
  have "chain_tip lib (take i ds) = chain_tip lib (take v ds)"
    using Cons.prems(1) event_links_nth [OF links i(1)] i(2) by simp
  then have iv: "i = v" using tip_inj [OF links cf] i(1) Cons.prems(3) by simp
  have "event_links lib (chain_tip lib (take (Suc v) ds)) xs"
    using Cons.prems(1) i iv by (simp add: tip_take)
  then have "Suc v + length xs \<le> length ds \<and> xs = take (length xs) (drop (Suc v) ds)"
    using Cons.IH [of "Suc v"] Cons.prems(2) i(1) iv by simp
  then show ?case using i iv by (simp add: Cons_nth_drop_Suc [symmetric])
qed simp

subsection \<open>The schema version\<close>

lemma run_version: "store_run lib key hs k hz s dir \<Longrightarrow> db_user_version (ss_db s) = SCHEMA_VERSION \<and> length key = 32"
proof (induction rule: store_run.induct)
  case (created connect lock schema sql now db s)
  then show ?case
    by (auto simp: store_open_def init_schema_def empty_db_def verify_integrity_def Let_def split: if_splits prod.splits sum.splits)
next
  case (added hs k hz s dir e sql now sk s' e')
  then show ?case
    by (auto simp: add_secure_event_with_signer_def Let_def add_transaction_def insert_row_def
        split: option.splits sum.splits if_splits)
next
  case (add_refused hs k hz s dir sql now sk e s' e' err)
  then show ?case using add_failed by metis
next
  case (pruned hs k hz s dir ok now days s' n)
  then show ?case by (auto simp: prune_payloads_def update_rows_def Let_def split: if_splits)
next
  case (prune_refused hs k hz s dir ok now days s' err)
  then show ?case using prune_refused_same by metis
next
  case (cosigned hs k hz s dir ok path c s' es)
  then show ?case by (auto simp: update_hw_cosign_def update_rows_def Let_def split: if_splits)
next
  case (cosign_refused hs k hz s dir ok path c s' err)
  then show ?case using cosign_refused_same by metis
next
  case (renamed hs k hz s dir sql old_path new_path s' r)
  then show ?case by (auto simp: update_file_path_def update_rows_def split: if_splits)
next
  case (reverified hs k hz s dir sql now s' r)
  then show ?case by (auto simp: verify_integrity_def Let_def split: option.splits if_splits sum.splits prod.splits)
next
  case (reopened hs k hz s dir connect lock schema sql now db s')
  let ?s = "\<lparr>ss_db = (ss_db s)\<lparr>db_user_version := SCHEMA_VERSION\<rparr>, ss_hmac_key = key, ss_last_hash = replicate 32 0\<rparr>"
  have "verify_integrity lib sql now ?s = (s', Inr ())"
    using reopened.hyps(2) by (auto simp: store_open_def init_schema_def split: if_splits prod.splits sum.splits)
  then have "db_user_version (ss_db s') = SCHEMA_VERSION"
    by (auto simp: verify_integrity_def Let_def split: option.splits if_splits sum.splits prod.splits)
  then show ?case using reopened.IH by simp
next
  case (reopen_failed hs k hz s dir connect lock schema sql now db err)
  then show ?case using open_failed [OF reopen_failed.hyps(2)] by auto
next
  case (archived hs k hz s dir env age_days s' dir' r)
  show ?case
  proof (cases "db_integrity (ss_db s)")
    case None
    have "s' = s"
      using archived.hyps(2) None
      by (auto simp: archive_old_events_def Let_def archive_transaction_def split: if_splits sum.splits prod.splits)
    then show ?thesis using archived.IH by simp
  next
    case (Some ig)
    from archived.hyps(2) Some show ?thesis
      by (cases rule: archive_cases) (use archived.IH in \<open>simp_all add: shortened_def\<close>)
  qed
qed

subsection \<open>Where rows are after an archival\<close>

definition rows_of :: "archive_db option \<Rightarrow> event_row set" where
  "rows_of x = (case x of None \<Rightarrow> {} | Some ar \<Rightarrow> set (ar_events ar))"

text \<open>Once an archival has removed a leftover file, every row in the files of the day comes from the
  database, and the files of other days are as before.\<close>

lemma set_renumber: "r \<in> set (renumber rs) \<Longrightarrow> er_event r \<in> er_event ` set rs"
  by (auto simp: renumber_def in_set_zip)

lemma archive_sources:
  assumes arch: "archive_old_events lib env age_days dir s = (s', dir', r)"
    and reach: "age_days \<noteq> Some 0" "ae_disk_space env" "ae_count env" "ae_placeholder env" "ae_tmp_removed env"
    and moved: "\<exists>r \<in> set (db_events (ss_db s)). older (archive_cutoff env age_days) r" and free: "ad_final dir (ae_today env) = None"
  shows "set (db_events (ss_db s')) \<subseteq> set (db_events (ss_db s)) \<and>
    (\<forall>d. d \<noteq> ae_today env \<longrightarrow> ad_final dir' d = ad_final dir d \<and> ad_tmp dir' d = ad_tmp dir d) \<and>
    er_event ` (rows_of (ad_final dir' (ae_today env)) \<union> rows_of (ad_tmp dir' (ae_today env))) \<subseteq> er_event ` set (db_events (ss_db s))"
proof -
  let ?moved = "filter (older (archive_cutoff env age_days)) (db_events (ss_db s))"
  define dir1 where "dir1 = dir\<lparr>ad_tmp := (ad_tmp dir)(ae_today env := None)\<rparr>"
  define dir2 where "dir2 = dir1\<lparr>ad_tmp := (ad_tmp dir1)(ae_today env \<mapsto> empty_archive)\<rparr>"
  define link where "link = se_event_hash (er_event (last ?moved))"
  let ?tx = "archive_transaction lib (ae_transaction env) (ae_now env) (archive_cutoff env age_days) (ss_hmac_key s) link empty_archive (ss_db s)"
  let ?res = "\<lparr>ares_date = ae_today env, ares_events_archived = length ?moved, ares_chain_link_hash = link\<rparr>"
  have age: "(case age_days of None \<Rightarrow> DEFAULT_ARCHIVE_AGE_DAYS | Some d \<Rightarrow> d) \<noteq> 0"
    using reach(1) by (auto simp: DEFAULT_ARCHIVE_AGE_DAYS_def split: option.splits)
  have ne: "?moved \<noteq> []" using moved by (auto simp: filter_empty_conv)
  have tmp1: "ad_tmp dir1 (ae_today env) = None" by (simp add: dir1_def)
  have outcome: "s' = s \<and> dir' \<in> {dir1, dir2, dir2\<lparr>ad_tmp := (ad_tmp dir2)(ae_today env := None)\<rparr>} \<or>
      (\<exists>ar' db'. ?tx = Inr (ar', db') \<and> s' = s\<lparr>ss_db := db'\<rparr> \<and> dir' = fst (archive_finish env ?res ar' dir2))"
    using arch reach age ne free tmp1
    unfolding archive_old_events_def Let_def archive_cutoff_def [symmetric] dir2_def [symmetric] link_def [symmetric]
    by (auto simp: dir1_def [symmetric] dir2_def [symmetric] split: if_splits sum.splits prod.splits)
  then show ?thesis
  proof
    assume "\<exists>ar' db'. ?tx = Inr (ar', db') \<and> s' = s\<lparr>ss_db := db'\<rparr> \<and> dir' = fst (archive_finish env ?res ar' dir2)"
    then obtain ar' db' where t: "?tx = Inr (ar', db')" "s' = s\<lparr>ss_db := db'\<rparr>" "dir' = fst (archive_finish env ?res ar' dir2)"
      by blast
    have "ar_events ar' = renumber ?moved" "set (db_events db') \<subseteq> set (db_events (ss_db s))"
      using t(1) by (auto simp: archive_transaction_def Let_def split: if_splits option.splits)
    moreover have "er_event ` set (renumber ?moved) \<subseteq> er_event ` set (db_events (ss_db s))"
      using set_renumber [of _ ?moved] by fastforce
    ultimately show ?thesis
      using t(2,3) free by (auto simp: archive_finish_def Let_def dir2_def dir1_def rows_of_def)
  qed (use free in \<open>auto simp: dir1_def dir2_def rows_of_def empty_archive_def\<close>)
qed

end
