(* ===== verification/Sto_Props.thy ===== *)
theory Sto_Props
  imports Sto_Sound
begin

text \<open>
  The properties of the event store: runs reopen and read back what was added, archives and
  database together answer queries over the whole history, an adversary without the key can only
  roll the store back, and the three ways in which the code breaks its own guarantees.
\<close>

subsection \<open>Example\<close>

definition toy_store_lib :: store_lib where
  "toy_store_lib = \<lparr>sl_sha = (\<lambda>x. take 32 (replicate 24 1 @ take 8 (drop 29 x) @ replicate 8 0)), sl_hmac = (\<lambda>k x. be 32 (length k + be_val x)),
     sl_lamport_seed = (\<lambda>_ _. None)\<rparr>"

lemma no_hazard: "Emptied \<notin> {}"
  by simp

definition toy_key :: bytes where "toy_key = replicate 32 1"

definition toy_event :: "int \<Rightarrow> secure_event" where
  "toy_event now = event_new now (ascii ''/doc'') (replicate 32 2) 10 None"

lemma toy_typed: "typed_event (toy_event now)"
  by (simp add: toy_event_def event_new_def typed_event_def blob32_def u64_column_def)

lemma toy_store_sha: "length (sl_sha toy_store_lib x) = 32"
  by (simp add: toy_store_lib_def)

definition toy_open :: secure_store where
  "toy_open = \<lparr>ss_db = \<lparr>db_events = [], db_integrity = Some \<lparr>ig_chain_hash = replicate 32 0, ig_event_count = 0,
       ig_last_verified = 5, ig_last_verified_sequence = 0, ig_hmac = compute_integrity_hmac toy_store_lib toy_key (replicate 32 0) 0 0\<rparr>,
     db_sequence = 0, db_user_version = 15\<rparr>, ss_hmac_key = toy_key, ss_last_hash = replicate 32 0\<rparr>"

lemma toy_created: "store_run toy_store_lib toy_key [] 0 {} toy_open empty_dir"
proof (rule store_run.created)
  show "store_open toy_store_lib True True True (\<lambda>_. True) 5 toy_key empty_db = (ss_db toy_open, Inr toy_open)"
    by (simp add: store_open_def init_schema_def empty_db_def verify_integrity_def toy_open_def toy_key_def SCHEMA_VERSION_def Let_def)
qed

definition toy_added :: "int \<Rightarrow> secure_store \<times> secure_event \<times> (store_error, unit) result" where
  "toy_added now = add_secure_event toy_store_lib (\<lambda>_. True) now (toy_event now) toy_open"

definition toy_stored :: "int \<Rightarrow> secure_event" where
  "toy_stored now = (let d = event_data_of (toy_event now) in
     (toy_event now)\<lparr>se_id := Some 1, se_event_hash := compute_event_hash toy_store_lib d\<rparr>)"

lemma toy_event_data: "event_data_of (toy_stored now) = event_data_of (toy_event now)"
  by (simp add: toy_stored_def event_data_of_def Let_def)

lemma toy_added_ok: "\<exists>s. toy_added now = (s, toy_stored now, Inr ())"
  by (simp add: toy_added_def add_secure_event_def add_secure_event_with_signer_def Let_def add_transaction_def insert_row_def
      toy_open_def toy_event_def event_new_def toy_stored_def f64_finite_def event_data_of_def)

lemma toy_stored_row: "row_values (toy_stored now) = toy_stored now"
  by (simp add: toy_stored_def toy_event_def event_new_def row_values_def clamp_i64_def Let_def)

lemma toy_store_run: "store_run toy_store_lib toy_key [toy_stored now] 0 {} (fst (toy_added now)) empty_dir"
proof -
  obtain s where s: "toy_added now = (s, toy_stored now, Inr ())" using toy_added_ok by blast
  have "store_run toy_store_lib toy_key ([] @ [row_values (toy_stored now)]) 0 {} s empty_dir"
    by (rule store_run.added [OF toy_created toy_typed]) (use s in \<open>simp add: toy_added_def add_secure_event_def\<close>)
  then show ?thesis by (simp add: s toy_stored_row)
qed

lemma toy_store_sha_nonzero: "replicate 32 0 \<noteq> sl_sha toy_store_lib x"
proof
  assume "replicate 32 0 = sl_sha toy_store_lib x"
  then have "replicate 32 (0::byte) ! 0 = sl_sha toy_store_lib x ! 0" by simp
  then show False by (simp add: toy_store_lib_def nth_append)
qed

lemma toy_events_collision_free: "events_collision_free toy_store_lib (event_data_of ` set [toy_stored now])"
  by (simp add: events_collision_free_def compute_event_hash_def toy_store_sha_nonzero)

lemma toy_row: "db_events (ss_db (fst (toy_added 50))) = [row_of toy_store_lib toy_key (toy_stored 50)]"
  using run_inv [OF toy_store_run [of 50] toy_events_collision_free toy_store_sha no_hazard] by (simp add: store_inv_def db_inv_def)

lemma toy_hash:
  "length (ed_device_id d) = 16 \<Longrightarrow> compute_event_hash toy_store_lib d = replicate 24 1 @ be 8 (i64_bits (ed_timestamp_ns d))"
  by (simp add: compute_event_hash_def toy_store_lib_def event_bytes_def)

lemma toy_times: "be 8 (i64_bits 50) \<noteq> be 8 (i64_bits 1000000000000000000)"
proof
  assume "be 8 (i64_bits 50) = be 8 (i64_bits 1000000000000000000)"
  from arg_cong [OF this, of be_val] show False by (simp add: be_val_be i64_bits_def)
qed

lemma toy_two:
  obtains s e where "store_run toy_store_lib toy_key [toy_stored 50, e] 0 {} s empty_dir" "se_timestamp_ns e = 10 ^ 18"
    "se_file_path e = ascii ''/doc''" "events_collision_free toy_store_lib (event_data_of ` set [toy_stored 50, e])"
proof -
  let ?s = "fst (toy_added 50)" and ?t = "1000000000000000000 :: int"
  note inv = run_inv [OF toy_store_run [of 50] toy_events_collision_free toy_store_sha no_hazard]
  have st: "db_sequence (ss_db ?s) = 1" "\<exists>ig. db_integrity (ss_db ?s) = Some ig \<and> ig_event_count ig = 1"
    using inv by (auto simp: store_inv_def db_inv_def integrity_ok_def)
  have hash: "se_event_hash (toy_stored 50) = replicate 24 1 @ be 8 (i64_bits 50)"
    by (simp add: toy_stored_def Let_def toy_hash event_data_of_def toy_event_def event_new_def)
  have "\<exists>s e. add_secure_event_with_signer toy_store_lib (\<lambda>_. True) ?t None (toy_event ?t) ?s = (s, e, Inr ()) \<and>
      se_timestamp_ns e = ?t \<and> length (se_device_id e) = 16 \<and> se_file_path e = ascii ''/doc''"
    using st toy_times
    by (auto simp: add_secure_event_with_signer_def Let_def add_transaction_def insert_row_def toy_event_def event_new_def f64_finite_def
        toy_row hash toy_hash event_data_of_def row_values_def)
  then obtain s e where add: "add_secure_event_with_signer toy_store_lib (\<lambda>_. True) ?t None (toy_event ?t) ?s = (s, e, Inr ())"
      and e: "se_timestamp_ns e = ?t" "length (se_device_id e) = 16" "se_file_path e = ascii ''/doc''" by blast
  let ?e = "row_values e"
  have "store_run toy_store_lib toy_key [toy_stored 50, ?e] 0 {} s empty_dir"
    using store_run.added [OF toy_store_run toy_typed add] by simp
  moreover have "events_collision_free toy_store_lib (event_data_of ` set [toy_stored 50, ?e])"
  proof -
    have "compute_event_hash toy_store_lib (event_data_of (toy_stored 50)) \<noteq> compute_event_hash toy_store_lib (event_data_of ?e)"
      using toy_times e by (simp add: toy_hash event_data_of_def toy_stored_def Let_def toy_event_def event_new_def row_values_def)
    then show ?thesis using toy_store_sha_nonzero by (auto simp: events_collision_free_def inj_on_def compute_event_hash_def)
  qed
  moreover have "se_timestamp_ns ?e = 10 ^ 18" "se_file_path ?e = ascii ''/doc''" using e by (simp_all add: row_values_def)
  ultimately show ?thesis using that by blast
qed

lemma toy_linked:
  assumes "store_inv toy_store_lib [toy_stored 50, e] 0 s"
  shows "se_previous_hash e = se_event_hash (toy_stored 50)"
proof -
  have h: "history toy_store_lib [toy_stored 50, e]" using assms by (simp add: store_inv_def db_inv_def)
  have "se_event_hash (toy_stored 50) = compute_event_hash toy_store_lib (event_data_of (toy_stored 50))"
    using h by (auto simp: history_def dest: spec [of _ 0])
  moreover have "se_previous_hash e = compute_event_hash toy_store_lib (event_data_of (toy_stored 50))"
    using h by (simp add: history_def event_data_of_def)
  ultimately show ?thesis by simp
qed

lemma toy_time: "se_timestamp_ns (toy_stored now) = now"
  by (simp add: toy_stored_def toy_event_def event_new_def Let_def)

definition calm_archive :: "int \<Rightarrow> nat \<Rightarrow> archive_env" where
  "calm_archive now today = \<lparr>ae_now = now, ae_today = today, ae_disk_space = True, ae_count = True, ae_placeholder = True,
     ae_tmp_removed = True, ae_link = True, ae_first = True, ae_schema = True, ae_attach = True, ae_transaction = True,
     ae_cleanup = True, ae_finalize = True, ae_rename = True, ae_vacuum = True, ae_permissions = True, ae_size = True\<rparr>"

lemma calm_archive_simps [simp]:
  "ae_now (calm_archive n d) = n" "ae_today (calm_archive n d) = d" "ae_disk_space (calm_archive n d)" "ae_count (calm_archive n d)"
  "ae_placeholder (calm_archive n d)" "ae_tmp_removed (calm_archive n d)" "ae_link (calm_archive n d)" "ae_first (calm_archive n d)"
  "ae_schema (calm_archive n d)" "ae_attach (calm_archive n d)" "ae_transaction (calm_archive n d)"
  by (simp_all add: calm_archive_def)

lemma archive_commits:
  assumes inv: "store_inv lib hs k s" and sha: "\<And>x. length (sl_sha lib x) = 32" and free: "ad_final dir (ae_today env) = None" "age_days \<noteq> Some 0"
    and flags: "ae_disk_space env" "ae_count env" "ae_placeholder env" "ae_tmp_removed env" "ae_link env" "ae_first env" "ae_schema env"
      "ae_attach env" "ae_transaction env"
    and moved: "filter (older (archive_cutoff env age_days)) (db_events (ss_db s)) \<noteq> []"
    and cont: "filter (\<lambda>r. \<not> older (archive_cutoff env age_days) r) (db_events (ss_db s)) \<noteq> [] \<Longrightarrow>
      se_previous_hash (er_event (hd (filter (\<lambda>r. \<not> older (archive_cutoff env age_days) r) (db_events (ss_db s))))) =
      se_event_hash (er_event (last (filter (older (archive_cutoff env age_days)) (db_events (ss_db s)))))"
  shows "db_events (ss_db (fst (archive_old_events lib env age_days dir s))) =
    filter (\<lambda>r. \<not> older (archive_cutoff env age_days) r) (db_events (ss_db s))"
proof -
  have "last (filter (older (archive_cutoff env age_days)) (db_events (ss_db s))) \<in> set (db_events (ss_db s))"
    using last_in_set [OF moved] by simp
  then obtain e where "e \<in> set hs" "er_event (last (filter (older (archive_cutoff env age_days)) (db_events (ss_db s)))) = e\<lparr>se_id := None\<rparr>"
    using inv by (auto simp: store_inv_def db_inv_def dest: in_set_dropD)
  then have link: "length (se_event_hash (er_event (last (filter (older (archive_cutoff env age_days)) (db_events (ss_db s)))))) = 32"
    using inv history_typed [of lib hs e] by (auto simp: store_inv_def db_inv_def typed_event_def)
  obtain ig where ig: "db_integrity (ss_db s) = Some ig" "length (ig_chain_hash ig) = 32"
    using inv sha by (auto simp: store_inv_def db_inv_def integrity_ok_def tip_from_def compute_event_hash_def)
  have age: "(case age_days of None \<Rightarrow> DEFAULT_ARCHIVE_AGE_DAYS | Some d \<Rightarrow> d) \<noteq> 0"
    using free(2) by (auto simp: DEFAULT_ARCHIVE_AGE_DAYS_def split: option.splits)
  define old rest where "old = filter (older (archive_cutoff env age_days)) (db_events (ss_db s))"
    and "rest = filter (\<lambda>r. \<not> older (archive_cutoff env age_days) r) (db_events (ss_db s))"
  note folds = old_def [symmetric] rest_def [symmetric]
  show ?thesis
    unfolding archive_old_events_def archive_transaction_def Let_def archive_cutoff_def [symmetric] folds
    using age free(1) flags moved cont link ig unfolding folds
    by (cases "rest = []") (simp_all add: empty_archive_def split: prod.split)
qed

subsection \<open>Runs reopen and read back what was added\<close>

text \<open>C13: Take any run of the store: adds that succeed or fail at any statement, pruning of payloads,
  hardware co-signatures, changes of a path, verifications, reopening, and archivals with any outcome,
  also those cut off between their commit and the rename, except that no archival may take every event
  out of the table (what happens then is shown below). If no two added events collide,
  then opening the database again succeeds whenever the system calls do, finds the same rows and
  continues from the same hash; and reading the events of a file gives exactly the events that were
  added for it and have not left the table through an archival, in order.\<close>

theorem store_run_verifies:
  assumes run: "store_run lib key hs k hz s dir" and emptied: "Emptied \<notin> hz" and cf: "events_collision_free lib (event_data_of ` set hs)"
    and sha: "\<And>x. length (sl_sha lib x) = 32"
  shows "(\<exists>s'. store_open lib True True True (\<lambda>_. True) now key (ss_db s) = (ss_db s', Inr s') \<and>
      ss_last_hash s' = ss_last_hash s \<and> db_events (ss_db s') = db_events (ss_db s)) \<and>
    get_events_for_file lib True path s = Inr (filter (\<lambda>e. se_file_path e = path) (drop k hs))"
proof -
  have inv: "store_inv lib hs k s" "ss_hmac_key s = key" using run_inv [OF run cf sha emptied] by simp_all
  have v: "db_user_version (ss_db s) \<le> SCHEMA_VERSION" "length key = 32" using run_version [OF run] by simp_all
  have db: "db_inv lib key hs k (ss_db s)" using inv by (simp add: store_inv_def)
  obtain s' where "store_open lib True True True (\<lambda>_. True) now key (ss_db s) = (ss_db s', Inr s')" "store_inv lib hs k s'" "ss_hmac_key s' = key"
    using open_ok [OF db v(2,1)] sha by blast
  then have "\<exists>s'. store_open lib True True True (\<lambda>_. True) now key (ss_db s) = (ss_db s', Inr s') \<and>
      ss_last_hash s' = ss_last_hash s \<and> db_events (ss_db s') = db_events (ss_db s)"
    using inv by (auto simp: store_inv_def db_inv_def)
  moreover have "get_events_for_file lib True path s = Inr (filter (\<lambda>e. se_file_path e = path) (drop k hs))"
  proof -
    have "filter (\<lambda>r. se_file_path (er_event r) = path) (db_events (ss_db s)) =
        map (row_of lib key) (filter (\<lambda>e. se_file_path e = path) (drop k hs))"
      using db by (simp add: db_inv_def filter_rows_of)
    moreover have "\<forall>e \<in> set (filter (\<lambda>e. se_file_path e = path) (drop k hs)). typed_event e \<and> se_id e \<noteq> None"
      using db history_typed by (auto simp: db_inv_def dest: in_set_dropD)
    ultimately show ?thesis
      using read_rows_of inv(2) by (simp add: get_events_for_file_def get_events_for_file_limited_def)
  qed
  ultimately show ?thesis by blast
qed

theorem store_run_verifies_witness:
  "get_events_for_file toy_store_lib True (ascii ''/doc'') (fst (toy_added 50)) = Inr [toy_stored 50] \<and>
   (\<exists>s'. store_open toy_store_lib True True True (\<lambda>_. True) 60 toy_key (ss_db (fst (toy_added 50))) = (ss_db s', Inr s'))"
proof -
  have "se_file_path (toy_stored 50) = ascii ''/doc''" by (simp add: toy_stored_def toy_event_def event_new_def Let_def)
  then show ?thesis
    using store_run_verifies [OF toy_store_run [of 50] no_hazard toy_events_collision_free toy_store_sha, of 60 "ascii ''/doc''"] by auto
qed

subsection \<open>Queries over archives and database\<close>

lemma query_archive_rows:
  assumes "ar_events ar = renumber (map (row_of lib key) seg)" "\<forall>e \<in> set seg. typed_event e"
  shows "\<exists>es. query_archive lib True ar key path a b = Inr es \<and> map strip es = map strip (filter (in_range path a b) seg)"
proof -
  let ?es = "filter (in_range path a b) (renumber_events seg)"
  have rows: "filter (\<lambda>r. in_range path a b (er_event r)) (ar_events ar) = map (row_of lib key) ?es"
    unfolding assms(1) renumber_rows by (rule filter_rows_of) (simp add: in_range_def)
  have "\<forall>e \<in> set ?es. typed_event e \<and> se_id e \<noteq> None" using renumber_events_props [OF assms(2)] by simp
  then have "query_archive lib True ar key path a b = Inr ?es" by (simp add: query_archive_def rows read_rows_of)
  moreover have "map strip (filter (in_range path a b) es) = filter (in_range path a b) (map strip es)" for es
    by (induction es) (simp_all add: in_range_def strip_def)
  then have "map strip ?es = map strip (filter (in_range path a b) seg)" by (simp add: strip_renumber)
  ultimately show ?thesis by blast
qed

definition archived_matches :: "store_lib \<Rightarrow> bytes \<Rightarrow> bytes \<Rightarrow> int \<Rightarrow> int \<Rightarrow> archive_dir \<Rightarrow> nat \<Rightarrow> secure_event list" where
  "archived_matches lib key path a b dir d = (case ad_final dir d of None \<Rightarrow> []
    | Some ar \<Rightarrow> (case query_archive lib True ar key path a b of Inl _ \<Rightarrow> [] | Inr es \<Rightarrow> es))"

lemma archived_matches_all:
  assumes inv: "dir_inv lib key hs k dir" and typed: "\<And>e. e \<in> set (take k hs) \<Longrightarrow> typed_event e"
    and days: "distinct days" "set days = dom (ad_final dir)"
  shows "mset (map strip (concat (map (archived_matches lib key path a b dir) days))) =
    mset (map strip (filter (in_range path a b) (take k hs)))"
proof -
  let ?Q = "in_range path a b" and ?found = "archived_matches lib key path a b dir"
  obtain seg where seg: "\<forall>d ar. ad_final dir d = Some ar \<longrightarrow> ar_events ar = renumber (map (row_of lib key) (seg d)) \<and> set (seg d) \<subseteq> set (take k hs)"
      "(\<Sum>d \<in> dom (ad_final dir). mset (seg d)) = mset (take k hs)"
    using inv by (auto simp: dir_inv_def)
  have found: "map strip (?found d) = map strip (filter ?Q (seg d))" if d: "d \<in> dom (ad_final dir)" for d
  proof -
    obtain ar where ar: "ad_final dir d = Some ar" using d by blast
    have "\<forall>e \<in> set (seg d). typed_event e" using seg(1) ar typed by (meson subsetD)
    then show ?thesis using query_archive_rows [of ar lib key "seg d" path a b] seg(1) ar by (auto simp: archived_matches_def)
  qed
  let ?f = "\<lambda>M. image_mset strip (filter_mset ?Q M)"
  have sums: "(\<Sum>d \<in> D. ?f (mset (seg d))) = ?f (\<Sum>d \<in> D. mset (seg d))" for D
    by (induction D rule: infinite_finite_induct) simp_all
  have "mset (map strip (concat (map ?found days))) = (\<Sum>d \<leftarrow> days. mset (map strip (?found d)))"
    by (induction days) simp_all
  also have "\<dots> = (\<Sum>d \<in> dom (ad_final dir). mset (map strip (?found d)))"
    using days by (simp add: sum_list_distinct_conv_sum_set)
  also have "\<dots> = (\<Sum>d \<in> dom (ad_final dir). ?f (mset (seg d)))"
  proof (intro sum.cong refl)
    fix d assume "d \<in> dom (ad_final dir)"
    from arg_cong [OF found [OF this], of mset] show "mset (map strip (?found d)) = ?f (mset (seg d))" by simp
  qed
  also have "\<dots> = ?f (\<Sum>d \<in> dom (ad_final dir). mset (seg d))"
    using sums [of "dom (ad_final dir)"] by simp
  also have "\<dots> = mset (map strip (filter ?Q (take k hs)))" by (simp add: seg(2))
  finally show ?thesis .
qed

text \<open>C14: After any run in which no archival emptied the table or was cut off before its rename (what
  these do is shown below), \<open>query_spanning\<close> over all
  archives of the directory and the database returns, in the order of their timestamps, exactly the
  events of the whole history with the given file and range of time: no archival loses or repeats an
  event. This needs every archive to be readable, since the code skips an archive whose query fails
  without an error. (The ids of archived events are those of their archive.)\<close>

theorem query_spanning_complete:
  assumes run: "store_run lib key hs k {} s dir" and cf: "events_collision_free lib (event_data_of ` set hs)"
    and sha: "\<And>x. length (sl_sha lib x) = 32" and days: "distinct days" "set days = dom (ad_final dir)"
    and readable: "\<forall>d \<in> set days. readable d"
  shows "\<exists>es. query_spanning lib readable True days dir path a b s = Inr es \<and> sorted (map se_timestamp_ns es) \<and>
    mset (map strip es) = mset (map strip (filter (in_range path a b) hs))"
proof -
  have inv: "store_inv lib hs k s" "ss_hmac_key s = key" "dir_inv lib key hs k dir" using run_inv [OF run cf sha] by simp_all
  then have db: "db_inv lib key hs k (ss_db s)" by (simp add: store_inv_def)
  have typed: "e \<in> set hs \<Longrightarrow> typed_event e \<and> se_id e \<noteq> None" for e
    using db history_typed [of lib hs e] by (simp add: db_inv_def)
  let ?Q = "in_range path a b"
  define found where "found = archived_matches lib key path a b dir"
  have archived: "mset (map strip (concat (map found days))) = mset (map strip (filter ?Q (take k hs)))"
    unfolding found_def by (rule archived_matches_all [OF inv(3)]) (use typed days in \<open>auto dest: in_set_takeD\<close>)
  have "filter (\<lambda>r. ?Q (er_event r)) (db_events (ss_db s)) = map (row_of lib key) (filter ?Q (drop k hs))"
    using db filter_rows_of [of "\<lambda>r. ?Q (er_event r)" lib key ?Q] by (simp add: db_inv_def in_range_def)
  moreover have "\<forall>e \<in> set (filter ?Q (drop k hs)). typed_event e \<and> se_id e \<noteq> None" using typed by (auto dest: in_set_dropD)
  ultimately have active: "get_events_for_file_in_range lib True path a b s = Inr (filter ?Q (drop k hs))"
    using inv(2) by (simp add: get_events_for_file_in_range_def read_rows_of)
  have same: "map (\<lambda>d. case ad_final dir d of None \<Rightarrow> []
      | Some ar \<Rightarrow> (case query_archive lib (readable d) ar key path a b of Inl _ \<Rightarrow> [] | Inr es \<Rightarrow> es)) days = map found days"
    using readable by (intro map_cong refl) (auto simp: found_def archived_matches_def split: option.splits)
  have "query_spanning lib readable True days dir path a b s =
      Inr (sort_key se_timestamp_ns (concat (map found days) @ filter ?Q (drop k hs)))"
    using active unfolding query_spanning_def inv(2) Let_def same by simp
  moreover have "mset (map strip (sort_key se_timestamp_ns (concat (map found days) @ filter ?Q (drop k hs)))) =
      mset (map strip (filter ?Q hs))"
    using archived append_take_drop_id [of k hs] by (metis (no_types, lifting) filter_append map_append mset_append mset_map mset_sort)
  ultimately show ?thesis by auto
qed

lemma toy_cutoff: "older (archive_cutoff (calm_archive 1000000000000000000 3) None) r \<longleftrightarrow> se_timestamp_ns (er_event r) < 992224000000000000"
  by (simp add: older_def archive_cutoff_def timestamp_nanos_safe_def timestamp_nanos_opt_def i64_def days_ns_def DEFAULT_ARCHIVE_AGE_DAYS_def)

text \<open>Two events, of which the first is archived.\<close>

lemma toy_half_archived:
  obtains s e dir where "store_run toy_store_lib toy_key [toy_stored 50, e] 1 {} s dir" "dom (ad_final dir) = {3}"
    "se_timestamp_ns e = 10 ^ 18" "se_file_path e = ascii ''/doc''"
    "events_collision_free toy_store_lib (event_data_of ` set [toy_stored 50, e])"
proof -
  obtain s e where run: "store_run toy_store_lib toy_key [toy_stored 50, e] 0 {} s empty_dir" and e: "se_timestamp_ns e = 10 ^ 18"
    "se_file_path e = ascii ''/doc''" and cf: "events_collision_free toy_store_lib (event_data_of ` set [toy_stored 50, e])" by (rule toy_two)
  let ?row = "row_of toy_store_lib toy_key" and ?env = "calm_archive (10 ^ 18) 3"
  have inv: "store_inv toy_store_lib [toy_stored 50, e] 0 s" "ss_hmac_key s = toy_key" using run_inv [OF run cf toy_store_sha no_hazard] by simp_all
  have rows: "db_events (ss_db s) = [?row (toy_stored 50), ?row e]" using inv by (simp add: store_inv_def db_inv_def)
  obtain s' dir r where arch: "archive_old_events toy_store_lib ?env None empty_dir s = (s', dir, r)" by (metis prod.exhaust)
  have rows': "db_events (ss_db s') = [?row e]"
    using archive_commits [OF inv(1) toy_store_sha, of empty_dir ?env None] toy_linked [OF inv(1)] arch
    by (simp add: rows toy_cutoff toy_time e) (simp add: empty_dir_def)
  have "archive_hazards ?env (ss_db s) (ss_db s') = {}" by (simp add: archive_hazards_def rows' calm_archive_def)
  then have "store_run toy_store_lib toy_key [toy_stored 50, e] 1 {} s' dir"
    using store_run.archived [OF run arch] by (simp add: rows')
  moreover have "dom (ad_final dir) = {3}"
  proof -
    obtain ig where ig: "db_integrity (ss_db s) = Some ig" using store_inv_integrity [OF inv(1)] by blast
    from arch ig show ?thesis
    proof (cases rule: archive_cases)
      case 1
      then show ?thesis using rows rows' by simp
    next
      case 2
      then show ?thesis by (simp add: calm_archive_def empty_dir_def)
    qed
  qed
  ultimately show ?thesis using that e cf by blast
qed

theorem query_spanning_complete_witness:
  "\<exists>e s dir es. store_run toy_store_lib toy_key [toy_stored 50, e] 1 {} s dir \<and> dom (ad_final dir) = {3} \<and>
     query_spanning toy_store_lib (\<lambda>_. True) True [3] dir (ascii ''/doc'') 0 (2 * 10 ^ 18) s = Inr es \<and>
     mset (map strip es) = mset (map strip [toy_stored 50, e])"
proof -
  obtain s e dir where toy: "store_run toy_store_lib toy_key [toy_stored 50, e] 1 {} s dir" "dom (ad_final dir) = {3}"
    "se_timestamp_ns e = 10 ^ 18" "se_file_path e = ascii ''/doc''"
    "events_collision_free toy_store_lib (event_data_of ` set [toy_stored 50, e])" by (rule toy_half_archived)
  have "se_file_path (toy_stored 50) = ascii ''/doc''" by (simp add: toy_stored_def toy_event_def event_new_def Let_def)
  then have "filter (in_range (ascii ''/doc'') 0 (2 * 10 ^ 18)) [toy_stored 50, e] = [toy_stored 50, e]"
    using toy(3,4) by (simp add: in_range_def toy_time)
  then show ?thesis
    using query_spanning_complete [OF toy(1,5) toy_store_sha, of "[3]" "\<lambda>_. True" "ascii ''/doc''" 0 "2 * 10 ^ 18"] toy(1,2) by auto
qed

subsection \<open>An adversary can only roll back\<close>

text \<open>C15: Let a database, whatever has been done to its file, pass \<open>verify_integrity\<close> with the key of a store
  whose history is \<open>hs\<close> and whose table was never emptied by an archival. If tags cannot be forged,
  that is, the rows whose tag verifies carry data that the store added and the integrity record has a
  count and a sequence that the store wrote, and if the hash in the row from which the verification
  resumes is unchanged (that this is needed is shown below), then the rows after the
  resumption point carry, in order, exactly the data covered by the tags (device, time, path, content
  hash, size, size change and previous hash) of the events of an earlier or the present state of the
  store, and the store continues from the hash of that state. The other columns of a row and its id are
  not covered by a tag, and nothing is said of them.\<close>

theorem store_rollback_only:
  assumes run: "store_run lib key hs k hz s0 dir" and emptied: "Emptied \<notin> hz" and cf: "events_collision_free lib (event_data_of ` set hs)"
    and sha: "\<And>x. length (sl_sha lib x) = 32" and key: "ss_hmac_key s = key" and ig: "db_integrity (ss_db s) = Some ig"
    and rows: "\<forall>r \<in> set (db_events (ss_db s)). er_hmac r = compute_event_hmac lib key (event_data_of (er_event r)) \<longrightarrow>
        event_data_of (er_event r) \<in> event_data_of ` set hs"
    and rec: "m \<le> length hs" "ig_event_count ig = int m" "ig_last_verified_sequence ig = int v" "v \<le> m"
    and resume: "resume_hash sql (int v) (ss_db s) = Inr (chain_tip lib (take v (map event_data_of hs)))"
    and ok: "verify_integrity lib sql now s = (s', Inr ())"
  shows "map (\<lambda>r. event_data_of (er_event r)) (filter (\<lambda>r. int v < er_id r) (db_events (ss_db s))) =
      drop v (take m (map event_data_of hs)) \<and> ss_last_hash s' = chain_tip lib (take m (map event_data_of hs))"
proof -
  let ?ds = "map event_data_of hs" and ?rs = "filter (\<lambda>r. int v < er_id r) (db_events (ss_db s))"
  let ?p = "chain_tip lib (take v ?ds)" and ?xs = "map (\<lambda>r. event_data_of (er_event r)) ?rs"
  have "store_inv lib hs k s0" using run_inv [OF run cf sha emptied] by simp
  then have links: "event_links lib (replicate 32 0) ?ds" by (simp add: store_inv_def db_inv_def history_def)
  obtain c t n where v: "verify_rows lib key (int v) 0 ?p (int v) ?rs = Inr (c, t, n)" and count: "int v + c = int m" and last: "ss_last_hash s' = t"
    using ok ig rec resume key by (auto simp: verify_integrity_def Let_def split: if_splits sum.splits)
  have "int v = 0 \<and> (0::int) = 0 \<Longrightarrow> ?p = replicate 32 0" by simp
  from verify_rows_sound [OF v this order_refl]
  have acc: "c = int (length ?rs)" "event_links lib ?p ?xs" "t = tip_from lib ?p ?xs"
      "\<forall>r \<in> set ?rs. er_hmac r = compute_event_hmac lib key (event_data_of (er_event r))" by simp_all
  have sub: "set ?xs \<subseteq> set ?ds" using acc(4) rows by auto
  have cf': "events_collision_free lib (set ?ds)" "v \<le> length ?ds" using cf rec by simp_all
  note seg = issued_segment [OF links cf'(1) acc(2) sub cf'(2)]
  have m: "m = v + length ?xs" using count acc(1) by simp
  have mv: "m - v = length ?xs" by (simp only: m add_diff_cancel_left')
  have xs: "?xs = drop v (take m ?ds)" unfolding drop_take mv by (rule conjunct2 [OF seg])
  have "tip_from lib q (as @ bs) = tip_from lib (tip_from lib q as) bs" for q as bs by (simp add: tip_from_def)
  from this [of "replicate 32 0" "take v (take m ?ds)" "drop v (take m ?ds)"]
  have "chain_tip lib (take m ?ds) = tip_from lib (chain_tip lib (take v (take m ?ds))) (drop v (take m ?ds))"
    by (simp only: append_take_drop_id)
  then have "chain_tip lib (take m ?ds) = tip_from lib ?p ?xs" using rec(4) unfolding xs by (simp add: min_def)
  then show ?thesis using xs last acc(3) by simp
qed

theorem store_rollback_only_witness:
  "map (\<lambda>r. event_data_of (er_event r)) (db_events (ss_db (fst (toy_added 50)))) = [event_data_of (toy_event 50)]"
proof -
  let ?s = "fst (toy_added 50)"
  note inv = run_inv [OF toy_store_run [of 50] toy_events_collision_free toy_store_sha no_hazard]
  obtain ig where ig: "db_integrity (ss_db ?s) = Some ig" using inv store_inv_integrity by blast
  have fields: "ig_event_count ig = 1" "ig_last_verified_sequence ig = 0"
    using ig by (auto simp: toy_added_def add_secure_event_def add_secure_event_with_signer_def Let_def add_transaction_def
        insert_row_def toy_open_def split: if_splits sum.splits option.splits)
  obtain s' where ok: "verify_integrity toy_store_lib (\<lambda>_. True) 60 ?s = (s', Inr ())"
    using inv verify_integrity_inv [of toy_store_lib ?s "[toy_stored 50]" 0 "\<lambda>_. True" 60] toy_store_sha by (auto simp: store_inv_def)
  have rows: "db_events (ss_db ?s) = [row_of toy_store_lib toy_key (toy_stored 50)]" using inv by (simp add: store_inv_def db_inv_def)
  have id: "se_id (toy_stored 50) = Some 1" by (simp add: toy_stored_def Let_def)
  have "filter (\<lambda>r. int 0 < er_id r) (db_events (ss_db ?s)) = db_events (ss_db ?s)" by (simp add: rows id)
  then show ?thesis
    using store_rollback_only [where v = 0 and m = 1, OF toy_store_run [of 50] no_hazard toy_events_collision_free toy_store_sha _ ig _ _ _ _ _ _ ok] inv fields rows
    by (simp add: resume_hash_def toy_event_data)
qed

subsection \<open>The tip is not checked\<close>

text \<open>C38: In a store whose events are all verified, as they are after it was reopened, anyone who can write
  to the database can replace the hash of the last event by any 32 bytes: no tag covers that column,
  the chain hash that the integrity record authenticates is not compared with it, the database opens,
  and the store links the next event to the forged hash.\<close>

theorem forged_tip_accepted:
  assumes run: "store_run lib key hs k hz s dir" and emptied: "Emptied \<notin> hz" and cf: "events_collision_free lib (event_data_of ` set hs)"
    and sha: "\<And>x. length (sl_sha lib x) = 32" and ne: "hs \<noteq> []"
    and ig: "db_integrity (ss_db s) = Some ig" "ig_last_verified_sequence ig = int (length hs)"
    and h: "length h = 32" "h \<noteq> ss_last_hash s"
    and db: "db = update_rows (\<lambda>r. er_id r = int (length hs)) (\<lambda>e. e\<lparr>se_event_hash := h\<rparr>) (ss_db s)"
  shows "\<exists>s'. store_open lib True True True (\<lambda>_. True) now key db = (ss_db s', Inr s') \<and> ss_last_hash s' = h \<and>
    h \<noteq> ig_chain_hash ig \<and> db_integrity (ss_db s') = Some ig"
proof -
  have inv: "store_inv lib hs k s" "ss_hmac_key s = key" using run_inv [OF run cf sha emptied] by simp_all
  have ver: "db_user_version (ss_db s) = SCHEMA_VERSION" "length key = 32" using run_version [OF run] by simp_all
  have st: "history lib hs" "k < length hs" "length hs < 2 ^ 63" "db_events (ss_db s) = map (row_of lib key) (drop k hs)"
    using inv ne by (auto simp: store_inv_def db_inv_def)
  have iok: "integrity_ok lib key hs k ig" using inv ig(1) by (auto simp: store_inv_def db_inv_def)
  have tip: "ig_chain_hash ig = ss_last_hash s" "length (ig_chain_hash ig) = 32"
    using iok inv ne sha by (auto simp: integrity_ok_def store_inv_def tip_from_def compute_event_hash_def)
  let ?n = "int (length hs)"
  let ?g = "\<lambda>r. if er_id r = ?n then r\<lparr>er_event := (er_event r)\<lparr>se_event_hash := h\<rparr>\<rparr> else r"
  have rows: "db_events db = map ?g (map (row_of lib key) (drop k hs))" by (simp add: db update_rows_def st(4))
  have "\<exists>r. find (\<lambda>r. er_id r = ?n) (map ?g rs) = Some r \<and> se_event_hash (er_event r) = h"
    if "find (\<lambda>r. er_id r = ?n) rs = Some r0" for rs r0
    using that by (induction rs) (auto split: if_splits)
  then obtain r where r: "find (\<lambda>r. er_id r = ?n) (db_events db) = Some r" "se_event_hash (er_event r) = h"
    using find_row_of [OF st(1,2), of key] unfolding rows by blast
  have mapg: "filter (\<lambda>r. ?n < er_id r) (map ?g rs) = map ?g (filter (\<lambda>r. ?n < er_id r) rs)" for rs
    by (induction rs) auto
  have "filter (\<lambda>r. ?n < er_id r) (map (row_of lib key) (drop k hs)) = []"
    using filter_ids [OF st(1), of k "length hs" key] st(2) by simp
  then have none: "filter (\<lambda>r. ?n < er_id r) (db_events db) = []" unfolding rows by (simp only: mapg list.map)
  let ?s = "\<lparr>ss_db = db\<lparr>db_user_version := SCHEMA_VERSION\<rparr>, ss_hmac_key = key, ss_last_hash = replicate 32 0\<rparr>"
  have dbf: "db_integrity db = Some ig" "db_user_version db = SCHEMA_VERSION" by (simp_all add: db update_rows_def ig ver)
  have "verify_integrity lib (\<lambda>_. True) now ?s = (?s\<lparr>ss_last_hash := h\<rparr>, Inr ())"
  proof -
    have res: "resume_hash (\<lambda>_. True) ?n (ss_db ?s) = Inr h" using r h(1) ne by (simp add: resume_hash_def)
    have rows': "verify_rows lib key ?n 0 h ?n (filter (\<lambda>r. ?n < er_id r) (db_events (ss_db ?s))) = Inr (0, h, ?n)"
      by (simp add: none)
    have ig': "ig_event_count ig = ?n" "ig_hmac ig = compute_integrity_hmac lib key (ig_chain_hash ig) ?n ?n"
      using iok ig(2) by (simp_all add: integrity_ok_def)
    show ?thesis
      unfolding verify_integrity_def Let_def using dbf(1) ig(2) ig' tip(2) res rows' st(3) by simp
  qed
  then show ?thesis
    using dbf ver(2) h(2) tip(1) by (intro exI [of _ "?s\<lparr>ss_last_hash := h\<rparr>"]) (simp add: store_open_def init_schema_def)
qed

theorem forged_tip_accepted_witness:
  "\<exists>s ig db. store_run toy_store_lib toy_key [toy_stored 50] 0 {} s empty_dir \<and> db_integrity (ss_db s) = Some ig \<and>
     db = update_rows (\<lambda>r. er_id r = 1) (\<lambda>e. e\<lparr>se_event_hash := replicate 32 9\<rparr>) (ss_db s) \<and>
     (\<exists>s'. store_open toy_store_lib True True True (\<lambda>_. True) 60 toy_key db = (ss_db s', Inr s') \<and> ss_last_hash s' = replicate 32 9)"
proof -
  note inv = run_inv [OF toy_store_run [of 50] toy_events_collision_free toy_store_sha no_hazard]
  note run = run_version [OF toy_store_run [of 50]]
  have db: "db_inv toy_store_lib toy_key [toy_stored 50] 0 (ss_db (fst (toy_added 50)))" using inv by (auto simp: store_inv_def)
  obtain s ig where s: "store_open toy_store_lib True True True (\<lambda>_. True) 55 toy_key (ss_db (fst (toy_added 50))) = (ss_db s, Inr s)"
      and ig: "db_integrity (ss_db s) = Some ig" and seq: "ig_last_verified_sequence ig = int (length [toy_stored 50])"
    using open_ok [OF db, of 55] run toy_store_sha by auto
  have r: "store_run toy_store_lib toy_key [toy_stored 50] 0 {} s empty_dir" by (rule store_run.reopened [OF toy_store_run s])
  note inv' = run_inv [OF r toy_events_collision_free toy_store_sha no_hazard]
  have one_neq_9: "(9::byte) \<noteq> 1" by simp
  have "ss_last_hash s ! 0 = 1"
    using inv' by (simp add: store_inv_def compute_event_hash_def toy_store_lib_def nth_append)
  then have "replicate 32 9 \<noteq> ss_last_hash s" by (metis nth_replicate zero_less_numeral one_neq_9)
  then show ?thesis
    using forged_tip_accepted [OF r no_hazard toy_events_collision_free toy_store_sha _ ig seq, of "replicate 32 9" _ 60] r ig by auto
qed

subsection \<open>Archiving everything locks the store\<close>

lemma first_row_refused:
  "se_previous_hash (er_event r) \<noteq> replicate 32 0 \<Longrightarrow> \<exists>err. verify_rows lib key 0 0 p n (r # rs) = Inl err"
  by (auto simp: Let_def)

text \<open>C39: When every event is old enough, an archival empties the table and sets the verified sequence back
  to zero, while the ids go on and the store keeps linking to the last archived event. After the next
  event is added the database can never be opened again: the first row is required to have a zero
  previous hash, and every open fails, whatever else happens.\<close>

theorem archive_all_locks_store:
  assumes run: "store_run lib key hs k hz s dir" and emptied: "Emptied \<notin> hz" and cf: "events_collision_free lib (event_data_of ` set hs)"
    and sha: "\<And>x. length (sl_sha lib x) = 32" and ne: "hs \<noteq> []"
    and arch: "archive_old_events lib env age_days dir s = (s1, dir1, r)" "db_events (ss_db s1) = []"
    and add: "add_secure_event_with_signer lib sql now sk e s1 = (s2, e2, Inr ())"
  shows "\<exists>db err. store_open lib connect lock schema sql' now' key (ss_db s2) = (db, Inl err)"
proof -
  have inv: "store_inv lib hs k s" "ss_hmac_key s = key" using run_inv [OF run cf sha emptied] by simp_all
  obtain ig where ig: "db_integrity (ss_db s) = Some ig" using store_inv_integrity [OF inv(1)] by blast
  have rows: "db_events (ss_db s) \<noteq> []" "ss_last_hash s = chain_tip lib (map event_data_of hs)" "0 \<le> db_sequence (ss_db s)"
    using inv ne by (auto simp: store_inv_def db_inv_def)
  have tip: "ss_last_hash s \<noteq> replicate 32 0"
  proof -
    have "compute_event_hash lib (event_data_of (last hs)) \<in> compute_event_hash lib ` event_data_of ` set hs" using ne by simp
    then show ?thesis using rows(2) ne cf unfolding events_collision_free_def by (metis last_map map_is_Nil_conv tip_from_def)
  qed
  from arch(1) ig have s1: "s1 = s\<lparr>ss_db := shortened lib (ae_now env) (ss_hmac_key s) [] ig (ss_db s)\<rparr>"
  proof (cases rule: archive_cases)
    case 2
    then show ?thesis using arch(2) by (simp add: shortened_def)
  qed (use arch(2) rows(1) in simp)
  obtain x ig2 where add2: "ss_db s2 = (ss_db s1)\<lparr>db_events := [x], db_sequence := db_sequence (ss_db s) + 1, db_integrity := Some ig2\<rparr>"
      "ig_last_verified_sequence ig2 = 0" "er_id x = db_sequence (ss_db s) + 1" "se_previous_hash (er_event x) = ss_last_hash s"
    using add_row [OF add] by (auto simp: s1 shortened_def max_id_def)
  have "filter (\<lambda>r. 0 < er_id r) [x] = [x]" using add2(3) rows(3) by simp
  moreover obtain err where "verify_rows lib key 0 0 (replicate 32 0) 0 [x] = Inl err"
    using first_row_refused [of x] add2(4) tip by metis
  ultimately have "\<exists>s' err. verify_integrity lib sql' now' \<lparr>ss_db = (ss_db s2)\<lparr>db_user_version := SCHEMA_VERSION\<rparr>,
      ss_hmac_key = key, ss_last_hash = replicate 32 0\<rparr> = (s', Inl err)"
    by (simp add: verify_integrity_def Let_def add2(1,2) resume_hash_def)
  then obtain s' err' where "verify_integrity lib sql' now' \<lparr>ss_db = (ss_db s2)\<lparr>db_user_version := SCHEMA_VERSION\<rparr>,
      ss_hmac_key = key, ss_last_hash = replicate 32 0\<rparr> = (s', Inl err')" by blast
  then show ?thesis by (auto simp: store_open_def init_schema_def)
qed

definition toy_archived :: "secure_store \<times> archive_dir \<times> (store_error, archive_result option) result" where
  "toy_archived = archive_old_events toy_store_lib (calm_archive (10 ^ 18) 3) None empty_dir (fst (toy_added 50))"

lemma toy_archived_rows: "db_events (ss_db (fst toy_archived)) = []"
proof -
  have "older (archive_cutoff (calm_archive (10 ^ 18) 3) None) (row_of toy_store_lib toy_key (toy_stored 50))"
    by (simp add: older_row archive_cutoff_def timestamp_nanos_safe_def timestamp_nanos_opt_def i64_def
        days_ns_def DEFAULT_ARCHIVE_AGE_DAYS_def toy_stored_def toy_event_def event_new_def Let_def)
  then show ?thesis
    unfolding toy_archived_def
    using archive_commits [OF _ toy_store_sha, of "[toy_stored 50]" 0 "fst (toy_added 50)" empty_dir "calm_archive (10 ^ 18) 3" None]
      run_inv [OF toy_store_run [of 50] toy_events_collision_free toy_store_sha no_hazard]
    by (simp add: toy_row empty_dir_def)
qed

theorem archive_all_locks_store_witness:
  "\<exists>s1 dir1 r s2 e2. archive_old_events toy_store_lib (calm_archive (10 ^ 18) 3) None empty_dir (fst (toy_added 50)) = (s1, dir1, r) \<and>
     add_secure_event_with_signer toy_store_lib (\<lambda>_. True) (10 ^ 18) None (toy_event (10 ^ 18)) s1 = (s2, e2, Inr ()) \<and>
     (\<exists>db err. store_open toy_store_lib True True True (\<lambda>_. True) (2 * 10 ^ 18) toy_key (ss_db s2) = (db, Inl err))"
proof -
  let ?s = "fst (toy_added 50)"
  obtain s1 dir1 r where arch: "archive_old_events toy_store_lib (calm_archive (10 ^ 18) 3) None empty_dir ?s = (s1, dir1, r)"
    by (metis prod.exhaust)
  then have empty: "db_events (ss_db s1) = []" using toy_archived_rows by (simp add: toy_archived_def)
  note inv = run_inv [OF toy_store_run [of 50] toy_events_collision_free toy_store_sha no_hazard]
  have seq: "db_sequence (ss_db ?s) = 1" using inv by (simp add: store_inv_def db_inv_def)
  obtain ig where ig: "db_integrity (ss_db ?s) = Some ig" using store_inv_integrity inv by blast
  from arch ig have s1: "\<exists>ig'. s1 = ?s\<lparr>ss_db := (ss_db ?s)\<lparr>db_events := [], db_integrity := Some ig'\<rparr>\<rparr> \<and> ig_event_count ig' = 0"
  proof (cases rule: archive_cases)
    case 1
    then show ?thesis using empty toy_row by simp
  next
    case 2
    then show ?thesis using empty by (auto simp: shortened_def max_id_def)
  qed
  obtain s2 e2 where add: "add_secure_event_with_signer toy_store_lib (\<lambda>_. True) (10 ^ 18) None (toy_event (10 ^ 18)) s1 = (s2, e2, Inr ())"
    using s1 seq
    by (auto simp: add_secure_event_with_signer_def Let_def add_transaction_def insert_row_def toy_event_def event_new_def f64_finite_def)
  show ?thesis
    using arch add archive_all_locks_store [OF toy_store_run no_hazard toy_events_collision_free toy_store_sha _ arch empty add, of True True True "\<lambda>_. True" "2 * 10 ^ 18"]
    by blast
qed

subsection \<open>An archival cut off after its commit loses events\<close>

lemma history_distinct:
  assumes "history lib hs" "events_collision_free lib (event_data_of ` set hs)"
    and "i < length hs" "j < length hs" "event_data_of (hs ! i) = event_data_of (hs ! j)"
  shows "i = j"
proof -
  let ?ds = "map event_data_of hs"
  have links: "event_links lib (replicate 32 0) ?ds" using assms(1) by (simp add: history_def)
  have "chain_tip lib (take i ?ds) = chain_tip lib (take j ?ds)"
    using event_links_nth [OF links] assms(3-5) by (metis length_map nth_map)
  then show ?thesis using tip_inj [OF links] assms(2-4) by simp
qed

lemma archives_rows:
  assumes "dir_inv lib key hs k dir"
  shows "er_event ` rows_of (ad_final dir d) \<subseteq> er_event ` row_of lib key ` set (take k hs)"
proof (cases "ad_final dir d")
  case (Some ar)
  then obtain seg where "ar_events ar = renumber (map (row_of lib key) seg)" "set seg \<subseteq> set (take k hs)"
    using assms by (auto simp: dir_inv_def)
  then show ?thesis using Some set_renumber [of _ "map (row_of lib key) seg"] by (fastforce simp: rows_of_def)
qed (simp add: rows_of_def)

lemma moved_row_elsewhere:
  assumes h: "history lib hs" and cf: "events_collision_free lib (event_data_of ` set hs)"
    and r: "r \<in> set (map (row_of lib key) (drop k hs))" "r \<notin> set (map (row_of lib key) (drop m hs))"
  shows "er_event r \<notin> er_event ` row_of lib key ` set (take k hs) \<union> er_event ` row_of lib key ` set (drop m hs)"
proof
  assume "er_event r \<in> er_event ` row_of lib key ` set (take k hs) \<union> er_event ` row_of lib key ` set (drop m hs)"
  then obtain e where e: "e \<in> set (take k hs) \<union> set (drop m hs)" "er_event r = er_event (row_of lib key e)" by blast
  then obtain j where j: "j < length hs" "j < k \<or> m \<le> j" "e = hs ! j"
    by (auto simp: in_set_conv_nth) (metis add.commute le_add2 less_diff_conv)
  obtain i where i: "i < length hs" "k \<le> i" "r = row_of lib key (hs ! i)"
    using r(1) by (auto simp: in_set_conv_nth) (metis add.commute le_add2 less_diff_conv)
  have "hs ! i \<in> set (drop m hs)" if "m \<le> i" using that i(1) by (auto simp: in_set_conv_nth intro!: exI [of _ "i - m"])
  then have im: "i < m" using r(2) i(3) by (auto simp: not_less [symmetric])
  have "event_data_of (hs ! i) = event_data_of (hs ! j)"
    using arg_cong [OF e(2), of event_data_of] i(3) j(3) by simp
  then show False using history_distinct [OF h cf i(1) j(1)] i(2) im j(2) by simp
qed

text \<open>C40: An archival commits its transaction before it renames the temporary file to the name of an archive.
  If it stops in between, the temporary file holds the only copy of the archived events; but the next
  archival of the same day takes such a file for the rest of a transaction that never committed and
  removes it. Then none of those events is in the database, in an archive, or in the file of the day.\<close>

theorem archive_interrupted_loses_events:
  assumes run: "store_run lib key hs k {} s dir" and cf: "events_collision_free lib (event_data_of ` set hs)"
    and sha: "\<And>x. length (sl_sha lib x) = 32"
    and first: "archive_old_events lib env age_days dir s = (s1, dir1, r1)" "\<not> (ae_finalize env \<and> ae_rename env)"
    and second: "archive_old_events lib env' age_days' dir1 s1 = (s2, dir2, r2)" "ae_today env' = ae_today env"
      "age_days' \<noteq> Some 0" "ae_disk_space env'" "ae_count env'" "ae_placeholder env'" "ae_tmp_removed env'"
      "\<exists>r \<in> set (db_events (ss_db s1)). older (archive_cutoff env' age_days') r"
    and row: "r \<in> set (db_events (ss_db s))" "r \<notin> set (db_events (ss_db s1))"
  shows "er_event r \<notin> er_event ` (set (db_events (ss_db s2)) \<union> (\<Union>d. rows_of (ad_final dir2 d)) \<union> rows_of (ad_tmp dir2 (ae_today env)))"
proof
  assume mem: "er_event r \<in> er_event ` (set (db_events (ss_db s2)) \<union> (\<Union>d. rows_of (ad_final dir2 d)) \<union> rows_of (ad_tmp dir2 (ae_today env)))"
  let ?rows = "\<lambda>es. row_of lib key ` set es"
  have inv: "store_inv lib hs k s" "ss_hmac_key s = key" "dir_inv lib key hs k dir" using run_inv [OF run cf sha] by simp_all
  have st: "history lib hs" "db_events (ss_db s) = map (row_of lib key) (drop k hs)" using inv by (simp_all add: store_inv_def db_inv_def)
  have kept: "db_events (ss_db s1) = [] \<Longrightarrow> db_events (ss_db s) = []" using second(8) by auto
  obtain m where m: "store_inv lib hs m s1" "ss_hmac_key s1 = key"
      "m = k \<or> k < m \<and> ad_final dir (ae_today env) = None \<and> ad_final dir1 = ad_final dir"
    using archive_inv [OF first(1) inv(1) cf kept] first(2) inv(2) by auto
  have rows1: "db_events (ss_db s1) = map (row_of lib key) (drop m hs)" using m(1,2) by (simp add: store_inv_def db_inv_def)
  have km: "k < m" "ad_final dir (ae_today env) = None" "ad_final dir1 = ad_final dir" using m(3) row st(2) rows1 by auto
  have src: "set (db_events (ss_db s2)) \<subseteq> set (db_events (ss_db s1))"
      "\<And>d. d \<noteq> ae_today env \<Longrightarrow> ad_final dir2 d = ad_final dir d"
      "er_event ` (rows_of (ad_final dir2 (ae_today env)) \<union> rows_of (ad_tmp dir2 (ae_today env))) \<subseteq> er_event ` set (db_events (ss_db s1))"
    using archive_sources [OF second(1,3-8)] km(2,3) second(2) by auto
  note old = archives_rows [OF inv(3)]
  let ?A = "er_event ` ?rows (take k hs)" and ?B = "er_event ` ?rows (drop m hs)"
  have B: "er_event ` set (db_events (ss_db s1)) = ?B" by (simp add: rows1)
  have finals: "er_event ` rows_of (ad_final dir2 d) \<subseteq> ?A \<union> ?B" for d
  proof (cases "d = ae_today env")
    case True
    then show ?thesis using src(3) unfolding B by (simp add: image_Un le_supI2)
  next
    case False
    then show ?thesis using src(2) old [of d] by (simp add: le_supI1)
  qed
  have "er_event ` set (db_events (ss_db s2)) \<subseteq> ?A \<union> ?B"
    using image_mono [OF src(1), of er_event] unfolding B by (rule le_supI2)
  moreover have "er_event ` rows_of (ad_tmp dir2 (ae_today env)) \<subseteq> ?A \<union> ?B"
    using src(3) unfolding B image_Un by (intro le_supI2) simp
  ultimately have "er_event ` (set (db_events (ss_db s2)) \<union> (\<Union>d. rows_of (ad_final dir2 d)) \<union> rows_of (ad_tmp dir2 (ae_today env)))
      \<subseteq> ?A \<union> ?B"
    unfolding image_Un image_UN using finals by (intro Un_least UN_least)
  from subsetD [OF this mem] have "er_event r \<in> ?A \<union> ?B" .
  then show False using moved_row_elsewhere [OF st(1) cf] row unfolding st(2) rows1 by simp
qed

definition torn_archive :: archive_env where
  "torn_archive = (calm_archive (10 ^ 18) 3)\<lparr>ae_rename := False\<rparr>"

lemma toy_cutoffs:
  "older (archive_cutoff torn_archive None) r \<longleftrightarrow> se_timestamp_ns (er_event r) < 992224000000000000"
  "older (archive_cutoff (calm_archive 2000000000000000000 3) (Some (Suc 0))) r \<longleftrightarrow> se_timestamp_ns (er_event r) < 1999913600000000000"
  by (simp_all add: older_def torn_archive_def archive_cutoff_def timestamp_nanos_safe_def timestamp_nanos_opt_def i64_def
      days_ns_def DEFAULT_ARCHIVE_AGE_DAYS_def calm_archive_def)

theorem archive_interrupted_loses_events_witness:
  "\<exists>e s s1 dir1 r1 s2 dir2 r2 r. store_run toy_store_lib toy_key [toy_stored 50, e] 0 {} s empty_dir \<and>
     archive_old_events toy_store_lib torn_archive None empty_dir s = (s1, dir1, r1) \<and>
     archive_old_events toy_store_lib (calm_archive (2 * 10 ^ 18) 3) (Some 1) dir1 s1 = (s2, dir2, r2) \<and>
     r \<in> set (db_events (ss_db s)) \<and>
     er_event r \<notin> er_event ` (set (db_events (ss_db s2)) \<union> (\<Union>d. rows_of (ad_final dir2 d)) \<union> rows_of (ad_tmp dir2 3))"
proof -
  obtain s e where run: "store_run toy_store_lib toy_key [toy_stored 50, e] 0 {} s empty_dir" and time: "se_timestamp_ns e = 10 ^ 18"
    and cf: "events_collision_free toy_store_lib (event_data_of ` set [toy_stored 50, e])" by (rule toy_two)
  let ?row = "row_of toy_store_lib toy_key"
  note time1 = toy_time [of 50]
  have inv: "store_inv toy_store_lib [toy_stored 50, e] 0 s" "ss_hmac_key s = toy_key" using run_inv [OF run cf toy_store_sha no_hazard] by simp_all
  then have rows: "db_events (ss_db s) = [?row (toy_stored 50), ?row e]" by (simp add: store_inv_def db_inv_def)
  note prev = toy_linked [OF inv(1)]
  obtain s1 dir1 r1 where arch: "archive_old_events toy_store_lib torn_archive None empty_dir s = (s1, dir1, r1)" by (metis prod.exhaust)
  obtain s2 dir2 r2 where arch2: "archive_old_events toy_store_lib (calm_archive (2 * 10 ^ 18) 3) (Some 1) dir1 s1 = (s2, dir2, r2)"
    by (metis prod.exhaust)
  have rows1: "db_events (ss_db s1) = [?row e]"
    using archive_commits [OF inv(1) toy_store_sha, of empty_dir torn_archive None] prev arch
    by (simp add: rows toy_cutoffs time time1) (simp add: empty_dir_def torn_archive_def calm_archive_def)
  have ne: "?row (toy_stored 50) \<noteq> ?row e"
  proof
    assume "?row (toy_stored 50) = ?row e"
    from arg_cong [OF this, of "\<lambda>r. se_timestamp_ns (er_event r)"] show False using time time1 by simp
  qed
  have "er_event (?row (toy_stored 50)) \<notin>
      er_event ` (set (db_events (ss_db s2)) \<union> (\<Union>d. rows_of (ad_final dir2 d)) \<union> rows_of (ad_tmp dir2 (ae_today torn_archive)))"
  proof (rule archive_interrupted_loses_events [OF run cf toy_store_sha arch _ arch2])
    show "\<not> (ae_finalize torn_archive \<and> ae_rename torn_archive)" by (simp add: torn_archive_def)
    show "\<exists>r \<in> set (db_events (ss_db s1)). older (archive_cutoff (calm_archive (2 * 10 ^ 18) 3) (Some 1)) r"
      using time by (simp add: rows1 toy_cutoffs)
    show "?row (toy_stored 50) \<notin> set (db_events (ss_db s1))" using ne by (simp add: rows1)
  qed (simp_all add: torn_archive_def rows)
  moreover have "ae_today torn_archive = 3" by (simp add: torn_archive_def)
  moreover have "?row (toy_stored 50) \<in> set (db_events (ss_db s))" by (simp add: rows)
  ultimately show ?thesis using run arch arch2 by metis
qed

end
