(* ===== verification/Spec2Isabelle.thy ===== *)
theory Spec2Isabelle
  imports Mmr_Props Wal_Maint_Props Posme_Step_Props Short_Id_Props Lamport Vdf_Batch Swf_Props Chk_File Key_Props Ipc_Props Jit_Props Sto_Props
begin

text \<open>
  Verification of the evidence engine of the repository: the crates \<open>cpoe\<close>, \<open>posme\<close> and
  \<open>badge-fingerprint\<close> under \<open>src/crates\<close>. The program watches an author write a document and
  makes evidence of it that others can check.

  \<^bold>\<open>The parts and how they work together.\<close> A document has a \<^emph>\<open>chain of checkpoints\<close>
  (\<open>cpoe/src/checkpoint\<close>). A commit hashes the document, links to the previous checkpoint, adds a
  proof of elapsed time, either a hash chain (\<open>cpoe/src/vdf/proof.rs\<close>) or an Argon2 sequential
  work function (\<open>vdf/swf_argon2.rs\<close>), and appends the hash of the checkpoint to a
  \<^emph>\<open>Merkle mountain range\<close> kept in a file (\<open>cpoe/src/mmr\<close>). A \<^emph>\<open>key hierarchy\<close>
  (\<open>cpoe/src/keyhierarchy\<close>) gives each session a certificate and a ratchet that signs every
  checkpoint with a fresh Ed25519 key and a \<^emph>\<open>Lamport\<close> one-time key (\<open>crypto/lamport.rs\<close>). The
  events between checkpoints go to a \<^emph>\<open>write-ahead log\<close> (\<open>cpoe/src/wal\<close>) and to the
  \<^emph>\<open>event store\<close> (\<open>cpoe/src/store\<close>), a hash-chained and authenticated database table whose old rows
  move to archives. Keystrokes are
  sampled into \<^emph>\<open>jitter chains\<close> (\<open>cpoe/src/jitter\<close>). \<^emph>\<open>PoSME\<close>
  (\<open>crates/posme\<close>) is a memory-hard proof of sequential work with its own prover and verifier.
  \<^emph>\<open>Short identifiers\<close> (\<open>badge-fingerprint/src/short_id.rs\<close>) let people type the identifier of a
  piece of evidence. Front ends talk to the engine over \<^emph>\<open>IPC\<close> (\<open>cpoe/src/ipc\<close>): an encrypted
  session, roles, rate limits and an audit log around a message handler.

  \<^bold>\<open>Theories.\<close> Each component has theories with its definitions in the order of the code, then
  its lemmas, then a theory of properties.
  \<^item> \<open>Prelude\<close>: bytes, results, state transformers, integers as bytes, slices, signed integers.
  \<^item> \<open>Mmr_Node\<close>, \<open>Mmr_Store\<close>, \<open>Mmr_Core\<close>, \<open>Mmr_Proof\<close> model \<open>mmr/node.rs\<close>, \<open>store.rs\<close>, \<open>mod.rs\<close> and
    \<open>proof.rs\<close>; \<open>Mmr_Peaks\<close>, \<open>Mmr_Tree\<close>, \<open>Mmr_Correct\<close>, \<open>Mmr_Sound\<close>, \<open>Mmr_Codec\<close> relate the stored nodes to
    perfect trees over the appended leaves; \<open>Mmr_Props\<close>: over the memory store append refines a list of
    leaves and inclusion proofs are complete and sound; a file with at most 51 leaves, closed and
    reopened, gives the same range and its proofs. The two handles of the file store share one
    position, as in the code, so that a read makes the next flush write in the middle of the file;
    what holds of the file store in general is therefore stated only where no read comes before a
    write (\<open>file_fresh\<close>) or no write after a read (\<open>file_settled\<close>).
  \<^item> \<open>Wal_Types\<close>, \<open>Wal_Log\<close>, \<open>Wal_Maint\<close> model \<open>wal/types.rs\<close> and \<open>wal/operations.rs\<close> with an explicit
    file, buffers and failing calls; \<open>Wal_Correct\<close>, \<open>Wal_Open\<close>, \<open>Wal_Recover\<close>, \<open>Wal_Trunc\<close> relate the bytes
    of the file to a list of chained entries; \<open>Wal_Props\<close>, \<open>Wal_Maint_Props\<close>: runs verify, a valid
    report is right, torn writes are cut off, truncation and rotation keep what they should, and
    which failures lose entries.
  \<^item> \<open>Posme_Base\<close>, \<open>Posme_Tree\<close>, \<open>Posme_Prover\<close>, \<open>Posme_Verifier\<close> model the crate \<open>posme\<close>; \<open>Posme_Run\<close> is
    the reference run of the arena, \<open>Posme_Correct\<close>, \<open>Posme_Complete\<close> and \<open>Posme_Sound\<close> the lemmas;
    \<open>Posme_Props\<close>, \<open>Posme_Step_Props\<close>: honest proofs are accepted, accepted step proofs are steps, the
    incremental tree is the rebuilt one, the derivation of challenges ends.
  \<^item> \<open>Short_Id\<close>, \<open>Short_Id_Props\<close>: round trip of transcriptions, detection of substitutions and swaps.
  \<^item> \<open>Lamport\<close>: signatures verify, a forgery needs a preimage.
  \<^item> \<open>Vdf\<close>, \<open>Vdf_Batch\<close>: hash chains, and the batch verifier with its threads and semaphore as a step
    relation that always ends with every result in place.
  \<^item> \<open>Swf_Argon2\<close>, \<open>Swf_Props\<close>: the sequential work function; which honest proofs are accepted.
  \<^item> \<open>Chk_Types\<close>, \<open>Chk_Mmr\<close>, \<open>Chk_Chain\<close>, \<open>Chk_Verify\<close> model \<open>checkpoint/types.rs\<close>, \<open>mmr.rs\<close>, \<open>chain.rs\<close> and
    \<open>chain_verification.rs\<close>; \<open>Chk_Spec\<close> says what a verified chain is, \<open>Chk_Correct\<close> that commits keep
    it; \<open>Chk_Props\<close>: chains without an MMR or with one in memory verify, the last hash fixes the
    history, failed commits change nothing, and which commits succeed but never verify; \<open>Chk_File\<close>: a
    chain with its MMR in a file cannot take a second checkpoint.
  \<^item> \<open>Key_Types\<close>, \<open>Key_Session\<close>, \<open>Key_Verify\<close> model \<open>keyhierarchy\<close>; \<open>Key_Correct\<close> has the runs of a session through all
    its operations, labelled by the signatures they make; \<open>Key_Props\<close>: exactly which runs leave
    evidence that verifies and state that recovers, that signing the metadata of a chain breaks both,
    and that chains signed through \<open>ChainSigner\<close> pass both verifiers.
  \<^item> \<open>Ipc_Messages\<close>, \<open>Ipc_Crypto\<close>, \<open>Ipc_Cas\<close>, \<open>Ipc_Server\<close>, \<open>Ipc_Client\<close> model \<open>ipc/messages.rs\<close>, \<open>rbac.rs\<close>,
    \<open>crypto.rs\<close>, \<open>secure_channel.rs\<close>, \<open>server.rs\<close>, \<open>server_handler.rs\<close>, \<open>unix_socket.rs\<close> and \<open>async_client.rs\<close>;
    \<open>Ipc_Correct\<close>, \<open>Ipc_Exchange\<close>, \<open>Ipc_Safe\<close>, \<open>Ipc_Channel\<close> hold the lemmas; \<open>Ipc_Props\<close>: the encrypted
    connection refines a request-response server, a session accepts exactly its peer's frames,
    nonces never repeat under any schedule of threads, and what reaches the handler is validated,
    logged and bounded. The checks of a message, its entry in the audit log and the call of the
    handler are separate steps of a connection, between which other connections may run; a call of
    the handler, a parameter, is one step.
  \<^item> \<open>Jit_Session\<close>, \<open>Jit_Engine\<close> model \<open>jitter/session.rs\<close>, \<open>verification.rs\<close>, \<open>codec.rs\<close>, \<open>zones.rs\<close>,
    \<open>engine.rs\<close> and the discrete part of \<open>content.rs\<close>; \<open>Jit_Correct\<close>, \<open>Jit_Codec\<close>, \<open>Jit_Zones\<close> hold the
    lemmas; \<open>Jit_Props\<close>: which recorded sessions verify and reload, the codec's round trip, the
    engine's samples pass the verification with its secret, a typed text has the histogram that
    its analysis expects.
  \<^item> \<open>Sto_Events\<close>, \<open>Sto_Archive\<close> model \<open>store/types.rs\<close>, \<open>events.rs\<close>, \<open>integrity.rs\<close>, \<open>archive.rs\<close>, the opening of
    a store in \<open>mod.rs\<close> and the hashes and tags of events in \<open>crypto.rs\<close>; the tables are lists of rows and
    every statement may fail. \<open>Sto_Correct\<close>, \<open>Sto_Run\<close> (runs of the store as an inductive relation
    that also collects two hazards, archivals that empty the table or are cut off before their rename), \<open>Sto_Sound\<close> hold the invariant and the lemmas; \<open>Sto_Props\<close>: runs that never empty the
    table reopen and read back what was added, without hazards queries over archives and database see
    the whole history, whoever lacks the key can only roll the tag-covered data back, and three cases in
    which the code breaks these promises.

  \<^bold>\<open>Conventions.\<close> A struct is a record, an enum a datatype, a fallible call a sum with its error on
  the left, a method with a mutable receiver a function that returns the new state also when it
  fails. Unsigned integers are natural numbers; the release profile has overflow checks, so that
  leaving the range is a panic, which the definitions return as a value. Files are byte lists
  with explicit positions and buffers, and the outcomes of system calls are arguments, so that
  the theorems range over all failures. Threads and connections are step relations over shared
  state. Hash functions, ciphers, signatures, HKDF, CBOR, JSON, the clock, random numbers, the PUF
  and the TPM are parameters; what a proof needs of them is a named predicate (\<open>digest32\<close>,
  \<open>crypto_ok\<close>, \<open>events_collision_free\<close>, \<open>key_lib_ok\<close>, \<open>aead_ok\<close>, \<open>aes_gcm_ok\<close>, \<open>ecdh_ok\<close>), and each property with such a
  hypothesis has a witness on concrete functions. Soundness statements speak of collisions among
  the inputs actually hashed, never of a function without collisions.

  \<^bold>\<open>Bounds and termination.\<close> Loops over data are structural. Loops of the code that search (the
  challenges of PoSME, the selection of Argon2 samples) are partial functions or have a bound from
  the code itself, and their termination is a theorem under a condition on the stream of hashes.
  The message loop of a connection ends because every iteration reads a header. Counters of 32
  and 64 bits bound the runs for which the theorems hold; the bounds stand in the statements.

  \<^bold>\<open>Interfaces.\<close> The node store of the Merkle range is three locales: \<open>node_reader\<close> (reads return what is stored),
  \<open>bounded_store\<close> (appends extend it, as long as there is room) and \<open>node_store\<close> (always, with syncs).
  The memory store interprets the last, a new file store the second with room for the nodes before
  its first automatic sync, and a file store that is only read the first; a vector commitment is a locale that the arena tree and the root chain of PoSME
  interpret; the reservation of sequence numbers by \<open>compare_exchange\<close> is a locale that the
  IPC session and the in-process channel interpret.

  \<^bold>\<open>Not modelled.\<close> Saving and loading of chains, the storage of the PUF seed, the sentinel and the
  platform hooks, the other tables of the store and its migrations, evidence packets and their encodings, the wire-protocol
  crate, forensic statistics in floating point, trusted hardware, network clients, reports, the
  foreign function interface and the applications: they are input and output, calls into
  libraries and operating systems, or numerical code whose correctness is not a matter of logic.
  The manifest lists them with the reason.
\<close>

end
